(* ===== verification/Prelude.thy ===== *)
theory Prelude
  imports Main "HOL-Library.Word" "HOL-Library.List_Lexorder" "HOL-Library.Char_ord"
begin

text \<open>
  Shared base of the development: exceptions as values, loops over lists that may fail, the
  Python operations on \<open>bytes\<close> and \<open>str\<close> that the modelled modules use, and the lemma
  collections the component theories rely on.

  Conventions.  A Python \<open>int\<close> is an \<open>int\<close>.  A \<open>bytes\<close> object is a list of 8-bit words.
  A \<open>str\<close> is represented by its UTF-8 encoding, a HOL \<open>string\<close>: the modelled code only
  concatenates, compares, orders (by code point, which is the order of the encodings) and
  encodes strings, and all of these act on the encoding; where code points matter
  (JSON escapes, \<open>repr\<close>) the encoding is decoded again.  An exception is a value of a sum type,
  \<open>Inl\<close> the exception and \<open>Inr\<close> the result.
\<close>

named_theorems res_simps \<open>inversion of computations that may fail\<close>
named_theorems range_simps \<open>arithmetic of byte ranges and slices\<close>

type_synonym byte = "8 word"
type_synonym bytes = "byte list"

section \<open>Exceptions\<close>

text \<open>The exceptions the modelled functions raise; \<open>ParityError\<close> carries locator and message.\<close>

datatype py_exc =
    ParityError "string option" string
  | ValueError string
  | AssertionError
  | StructError
  | IndexError
  | KeyError string
  | AttributeError
  | TypeError

type_synonym 'a res = "py_exc + 'a"

definition bind_r :: "'e + 'a \<Rightarrow> ('a \<Rightarrow> 'e + 'b) \<Rightarrow> 'e + 'b" where
  "bind_r m f = (case m of Inl e \<Rightarrow> Inl e | Inr x \<Rightarrow> f x)"

lemma bind_r_simps [simp]: "bind_r (Inl e) f = Inl e" "bind_r (Inr x) f = f x"
  by (simp_all add: bind_r_def)

lemma bind_r_cong [fundef_cong]:
  "m = m' \<Longrightarrow> (\<And>x. m' = Inr x \<Longrightarrow> f x = f' x) \<Longrightarrow> bind_r m f = bind_r m' f'"
  by (cases m') auto

lemma bind_r_eq_Inr [res_simps]:
  "bind_r m f = Inr y \<longleftrightarrow> (\<exists>x. m = Inr x \<and> f x = Inr y)"
  by (cases m) auto

lemma if_Inl_eq_Inr [res_simps]: "(if c then Inl e else m) = Inr y \<longleftrightarrow> \<not> c \<and> m = Inr y"
  by auto

lemma bind_r_InrE:
  assumes "bind_r m f = Inr y"
  obtains x where "m = Inr x" and "f x = Inr y"
  using assms by (auto simp: bind_r_eq_Inr)

definition is_ok :: "'e + 'a \<Rightarrow> bool" where
  "is_ok m = (case m of Inl _ \<Rightarrow> False | Inr _ \<Rightarrow> True)"

lemma is_ok_simps [simp]: "\<not> is_ok (Inl e)" "is_ok (Inr x)"
  by (simp_all add: is_ok_def)

lemma is_ok_iff: "is_ok m \<longleftrightarrow> (\<exists>x. m = Inr x)"
  by (cases m) auto

subsection \<open>Loops over a list that stop at the first exception\<close>

fun fold_r :: "('x \<Rightarrow> 's \<Rightarrow> 'e + 's) \<Rightarrow> 'x list \<Rightarrow> 's \<Rightarrow> 'e + 's" where
  "fold_r f [] s = Inr s"
| "fold_r f (x # xs) s = bind_r (f x s) (fold_r f xs)"

fun map_r :: "('x \<Rightarrow> 'e + 'y) \<Rightarrow> 'x list \<Rightarrow> 'e + 'y list" where
  "map_r f [] = Inr []"
| "map_r f (x # xs) = bind_r (f x) (\<lambda>y. bind_r (map_r f xs) (\<lambda>ys. Inr (y # ys)))"

lemma fold_r_append [simp]: "fold_r f (xs @ ys) s = bind_r (fold_r f xs s) (fold_r f ys)"
proof (induction xs arbitrary: s)
  case (Cons x xs)
  then show ?case by (cases "f x s") auto
qed simp

text \<open>An invariant that every step keeps holds after the loop.\<close>

lemma fold_r_invariant:
  assumes "fold_r f xs s = Inr t" and "I s"
    and "\<And>x s t. x \<in> set xs \<Longrightarrow> I s \<Longrightarrow> f x s = Inr t \<Longrightarrow> I t"
  shows "I t"
  using assms
proof (induction xs arbitrary: s)
  case (Cons x xs)
  from Cons.prems(1) obtain u where u: "f x s = Inr u" "fold_r f xs u = Inr t"
    by (auto simp: bind_r_eq_Inr)
  have "I u" by (rule Cons.prems(3)[OF _ Cons.prems(2) u(1)]) simp
  then show ?case using Cons.IH[OF u(2)] Cons.prems(3) by (meson list.set_intros(2))
qed simp

text \<open>A loop that never raises from states with the invariant returns.\<close>

lemma fold_r_total:
  assumes "I s" and "\<And>x s. x \<in> set xs \<Longrightarrow> I s \<Longrightarrow> \<exists>t. f x s = Inr t \<and> I t"
  shows "\<exists>t. fold_r f xs s = Inr t \<and> I t"
  using assms
proof (induction xs arbitrary: s)
  case (Cons x xs)
  obtain u where u: "f x s = Inr u" "I u" using Cons.prems by fastforce
  show ?case using Cons.IH[OF u(2)] Cons.prems(2) u(1) by auto
qed simp

lemma map_r_eq_Inr:
  "map_r f xs = Inr ys \<longleftrightarrow> list_all2 (\<lambda>x y. f x = Inr y) xs ys"
  by (induction xs arbitrary: ys) (auto simp: bind_r_eq_Inr list_all2_Cons1)

section \<open>Python sequences\<close>

definition blen :: "'a list \<Rightarrow> int" where
  "blen xs = int (length xs)"

text \<open>\<open>xs[i:j]\<close>: a negative bound counts from the end, and bounds are clamped.\<close>

definition py_bound :: "int \<Rightarrow> int \<Rightarrow> int" where
  "py_bound n i = (if i < 0 then max 0 (i + n) else min i n)"

definition py_slice :: "'a list \<Rightarrow> int \<Rightarrow> int \<Rightarrow> 'a list" where
  "py_slice xs i j = (let a = py_bound (blen xs) i; b = py_bound (blen xs) j
     in take (nat (b - a)) (drop (nat a) xs))"

lemma blen_nonneg [simp]: "0 \<le> blen xs"
  by (simp add: blen_def)

lemma blen_append [simp]: "blen (xs @ ys) = blen xs + blen ys"
  by (simp add: blen_def)

lemma blen_Nil [simp]: "blen [] = 0"
  by (simp add: blen_def)

lemma blen_Cons [simp]: "blen (x # xs) = 1 + blen xs"
  by (simp add: blen_def)

lemma nat_blen [simp]: "nat (blen xs) = length xs"
  by (simp add: blen_def)

lemma py_slice_in_range [range_simps]:
  "0 \<le> i \<Longrightarrow> i \<le> j \<Longrightarrow> j \<le> blen xs \<Longrightarrow> py_slice xs i j = take (nat (j - i)) (drop (nat i) xs)"
  by (simp add: py_slice_def py_bound_def)

lemma blen_py_slice [range_simps]:
  "0 \<le> i \<Longrightarrow> i \<le> j \<Longrightarrow> j \<le> blen xs \<Longrightarrow> blen (py_slice xs i j) = j - i"
  by (simp add: py_slice_in_range blen_def)

lemma py_slice_all [simp]: "py_slice xs 0 (blen xs) = xs"
  by (simp add: py_slice_def py_bound_def blen_def)

text \<open>Two adjacent slices join to one; this is how a tiling reproduces the bytes.\<close>

lemma py_slice_join:
  assumes "0 \<le> i" "i \<le> j" "j \<le> k" "k \<le> blen xs"
  shows "py_slice xs i j @ py_slice xs j k = py_slice xs i k"
proof -
  have n: "nat (k - i) = nat (j - i) + nat (k - j)" "nat j = nat i + nat (j - i)"
    using assms by auto
  have "take (nat (k - i)) (drop (nat i) xs)
      = take (nat (j - i)) (drop (nat i) xs) @ take (nat (k - j)) (drop (nat j) xs)"
    unfolding n take_add drop_drop by (simp add: add.commute)
  then show ?thesis using assms by (simp add: py_slice_in_range)
qed

lemma nth_py_slice:
  assumes "0 \<le> i" "i \<le> j" "j \<le> blen xs" "int k < j - i"
  shows "py_slice xs i j ! k = xs ! (nat i + k)"
  using assms by (simp add: py_slice_in_range blen_def)

text \<open>\<open>xs[i]\<close> at an index the code has already bounded; the default is never read.\<close>

definition byte_at :: "bytes \<Rightarrow> int \<Rightarrow> int" where
  "byte_at data i = (if 0 \<le> i \<and> i < blen data then uint (data ! nat i) else 0)"

lemma byte_at_bounds: "0 \<le> byte_at data i" "byte_at data i < 256"
  using uint_lt2p[of "data ! nat i"] by (auto simp: byte_at_def)

text \<open>\<open>bytes.rstrip\<close> of one character.\<close>

definition rstrip_byte :: "byte \<Rightarrow> bytes \<Rightarrow> bytes" where
  "rstrip_byte c xs = rev (dropWhile ((=) c) (rev xs))"

text \<open>\<open>any(bs)\<close>: some byte is nonzero.\<close>

definition any_nonzero :: "bytes \<Rightarrow> bool" where
  "any_nonzero bs = list_ex (\<lambda>b. b \<noteq> 0) bs"

lemma not_any_nonzero: "\<not> any_nonzero bs \<longleftrightarrow> set bs \<subseteq> {0}"
  by (auto simp: any_nonzero_def list_ex_iff)

section \<open>Strings\<close>

definition str_of_bytes :: "bytes \<Rightarrow> string" where
  "str_of_bytes bs = map (\<lambda>b. char_of (unat b)) bs"

definition bytes_of_str :: "string \<Rightarrow> bytes" where
  "bytes_of_str s = map (\<lambda>c. of_nat (of_char c)) s"

lemma bytes_of_str_of_bytes [simp]: "bytes_of_str (str_of_bytes bs) = bs"
proof -
  have "of_nat (of_char (char_of (unat b) :: char)) = b" for b :: byte
  proof -
    have "unat b < 256" using unsigned_less[of b, where ?'a = nat] by simp
    then show ?thesis by (simp add: of_char_of)
  qed
  then show ?thesis by (simp add: bytes_of_str_def str_of_bytes_def comp_def map_idI)
qed

lemma str_of_bytes_of_str [simp]: "str_of_bytes (bytes_of_str s) = s"
proof -
  have "char_of (unat (of_nat (of_char c) :: byte)) = c" for c :: char
  proof -
    have "of_char c < (256 :: nat)" by simp
    then have "unat (of_nat (of_char c) :: byte) = of_char c" by (simp add: unat_of_nat)
    then show ?thesis by simp
  qed
  then show ?thesis by (simp add: bytes_of_str_def str_of_bytes_def comp_def map_idI)
qed

lemma str_of_bytes_inj: "str_of_bytes a = str_of_bytes b \<Longrightarrow> a = b"
  by (metis bytes_of_str_of_bytes)

text \<open>Decimal and hexadecimal digits, as \<open>str(n)\<close> and the format \<open>x\<close> print them.\<close>

definition digit_char :: "nat \<Rightarrow> char" where
  "digit_char d = (if d < 10 then char_of (48 + d) else char_of (87 + d))"

fun base_digits :: "nat \<Rightarrow> nat \<Rightarrow> string" where
  "base_digits b n = (if b < 2 \<or> n < b then [digit_char n]
     else base_digits b (n div b) @ [digit_char (n mod b)])"

declare base_digits.simps [simp del]

definition show_int :: "int \<Rightarrow> string" where
  "show_int i = (if i < 0 then ''-'' @ base_digits 10 (nat (- i)) else base_digits 10 (nat i))"

definition show_hex :: "int \<Rightarrow> string" where
  "show_hex i = (if i < 0 then ''-'' @ base_digits 16 (nat (- i)) else base_digits 16 (nat i))"

text \<open>\<open>bytes.hex()\<close>: two lowercase digits for each byte.\<close>

definition hex_of_bytes :: "bytes \<Rightarrow> string" where
  "hex_of_bytes bs = concat (map (\<lambda>b. [digit_char (unat b div 16), digit_char (unat b mod 16)]) bs)"

lemma length_hex_of_bytes [simp]: "length (hex_of_bytes bs) = 2 * length bs"
  by (induction bs) (simp_all add: hex_of_bytes_def)

definition starts_with :: "'a list \<Rightarrow> 'a list \<Rightarrow> bool" where
  "starts_with s p = (take (length p) s = p)"

definition ends_with :: "'a list \<Rightarrow> 'a list \<Rightarrow> bool" where
  "ends_with s p = (length p \<le> length s \<and> drop (length s - length p) s = p)"

lemma ends_with_iff: "ends_with s p \<longleftrightarrow> (\<exists>q. s = q @ p)"
proof
  assume "ends_with s p"
  then have "s = take (length s - length p) s @ p"
    by (metis append_take_drop_id ends_with_def)
  then show "\<exists>q. s = q @ p" by blast
qed (auto simp: ends_with_def)

lemma ends_with_refl [simp]: "ends_with s s"
  by (simp add: ends_with_def)

text \<open>\<open>sep.join(parts)\<close>.\<close>

fun join_with :: "'a list \<Rightarrow> 'a list list \<Rightarrow> 'a list" where
  "join_with sep [] = []"
| "join_with sep [p] = p"
| "join_with sep (p # q # ps) = p @ sep @ join_with sep (q # ps)"

text \<open>\<open>data.split(c)\<close>: always at least one field.\<close>

fun split_on :: "'a \<Rightarrow> 'a list \<Rightarrow> 'a list list" where
  "split_on c [] = [[]]"
| "split_on c (x # xs) = (if x = c then [] # split_on c xs
     else (case split_on c xs of f # fs \<Rightarrow> (x # f) # fs | [] \<Rightarrow> [[x]]))"

lemma split_on_nonempty [simp]: "split_on c xs \<noteq> []"
  by (induction xs) (auto split: list.splits)

lemma join_with_Cons: "ps \<noteq> [] \<Longrightarrow> join_with sep (p # ps) = p @ sep @ join_with sep ps"
  by (cases ps) auto

lemma join_split_on: "join_with [c] (split_on c xs) = xs"
proof (induction xs)
  case (Cons x xs)
  obtain f fs where s: "split_on c xs = f # fs"
    using split_on_nonempty[of c xs] by (cases "split_on c xs") auto
  show ?case
  proof (cases "x = c")
    case True
    then show ?thesis using Cons.IH by (simp add: join_with_Cons)
  next
    case False
    then show ?thesis using Cons.IH s by (cases fs) auto
  qed
qed simp

lemma split_on_append_sep: "c \<notin> set p \<Longrightarrow> split_on c (p @ c # xs) = p # split_on c xs"
  by (induction p) auto

lemma split_on_no_sep: "c \<notin> set p \<Longrightarrow> split_on c p = [p]"
  by (induction p) auto

lemma split_on_join:
  "ps \<noteq> [] \<Longrightarrow> (\<And>p. p \<in> set ps \<Longrightarrow> c \<notin> set p) \<Longrightarrow> split_on c (join_with [c] ps) = ps"
proof (induction ps)
  case (Cons p ps)
  then show ?case
    by (cases ps) (auto simp: split_on_no_sep split_on_append_sep)
qed simp

lemma split_on_parts: "p \<in> set (split_on c xs) \<Longrightarrow> c \<notin> set p"
proof (induction xs arbitrary: p)
  case (Cons x xs)
  then show ?case by (cases "split_on c xs") (auto split: if_splits)
qed simp

section \<open>Association lists as Python dictionaries\<close>

text \<open>A dictionary keeps insertion order; storing at a present key keeps its place.\<close>

fun dict_set :: "'k \<Rightarrow> 'v \<Rightarrow> ('k \<times> 'v) list \<Rightarrow> ('k \<times> 'v) list" where
  "dict_set k v [] = [(k, v)]"
| "dict_set k v ((k', v') # d) = (if k = k' then (k, v) # d else (k', v') # dict_set k v d)"

definition dict_update :: "('k \<times> 'v) list \<Rightarrow> ('k \<times> 'v) list \<Rightarrow> ('k \<times> 'v) list" where
  "dict_update d e = fold (\<lambda>(k, v). dict_set k v) e d"

lemma map_of_dict_set [simp]: "map_of (dict_set k v d) = (map_of d)(k \<mapsto> v)"
  by (induction d) auto

lemma keys_dict_set: "set (map fst (dict_set k v d)) = insert k (set (map fst d))"
  by (induction k v d rule: dict_set.induct) auto

lemma distinct_dict_set: "distinct (map fst d) \<Longrightarrow> distinct (map fst (dict_set k v d))"
proof (induction d)
  case (Cons p d)
  obtain a b where p: "p = (a, b)" by (cases p)
  show ?case using Cons keys_dict_set[of k v d] unfolding p set_map by auto
qed simp

lemma map_of_dict_update: "map_of (dict_update d e) = map_of d ++ map_of (rev e)"
  by (induction e arbitrary: d) (auto simp: dict_update_def map_add_assoc[symmetric])

lemma distinct_dict_update:
  "distinct (map fst d) \<Longrightarrow> distinct (map fst (dict_update d e))"
  by (induction e arbitrary: d) (auto simp: dict_update_def distinct_dict_set)

end
