(* ===== verification/Py_Regex.thy ===== *)
theory Py_Regex
  imports Prelude
begin

text \<open>
  The part of Python's \<open>re\<close> module and of its string methods that the tools use on the output of other
  programs.  A text is its list of code points.  A pattern is matched by backtracking: the list of
  the ends it can reach from a position, in the order in which \<open>re\<close> tries them.
\<close>

type_synonym points = "int list"

definition pts :: "string \<Rightarrow> points" where "pts s = map (\<lambda>c. int (of_char c)) s"

section \<open>Characters\<close>

text \<open>\<open>str.isspace\<close>, also the white-space class of \<open>re\<close> and the separator of \<open>str.split()\<close>.\<close>

definition py_space :: "int \<Rightarrow> bool" where
  "py_space p \<longleftrightarrow> 9 \<le> p \<and> p \<le> 13 \<or> 28 \<le> p \<and> p \<le> 32 \<or> p = 0x85 \<or> p = 0xA0 \<or> p = 0x1680
     \<or> 0x2000 \<le> p \<and> p \<le> 0x200A \<or> p = 0x2028 \<or> p = 0x2029 \<or> p = 0x202F \<or> p = 0x205F \<or> p = 0x3000"

definition py_strip :: "points \<Rightarrow> points" where
  "py_strip t = rev (dropWhile py_space (rev (dropWhile py_space t)))"

function py_split :: "points \<Rightarrow> points list" where
  "py_split t =
     (let u = dropWhile py_space t in
      if u = [] then [] else takeWhile (\<lambda>p. \<not> py_space p) u # py_split (dropWhile (\<lambda>p. \<not> py_space p) u))"
  by pat_completeness auto

termination
proof (relation "measure length", goal_cases)
  case (2 t u)
  have "u \<noteq> []" using 2(2) .
  moreover have "\<not> py_space (hd u)" using hd_dropWhile[of py_space t] 2 by auto
  ultimately obtain p v where u: "u = p # v" "\<not> py_space p" by (cases u) auto
  then have "length (dropWhile (\<lambda>p. \<not> py_space p) u) < length u"
    using length_dropWhile_le[of "\<lambda>p. \<not> py_space p" v] by simp
  moreover have "length u \<le> length t" unfolding 2(1) by (rule length_dropWhile_le)
  ultimately show ?case by simp
qed simp

declare py_split.simps [simp del]

text \<open>\<open>needle in text\<close>.\<close>

fun has_text :: "points \<Rightarrow> points \<Rightarrow> bool" where
  "has_text needle [] = (needle = [])"
| "has_text needle (p # t) = (starts_with (p # t) needle \<or> has_text needle t)"

section \<open>Patterns\<close>

datatype re =
    Eps
  | Cls "int \<Rightarrow> bool"
  | Many "int \<Rightarrow> bool" nat bool
  | Seq re re
  | Alt re re
  | Group nat re
  | Bol
  | Eol
  | Final
  | Edge "int \<Rightarrow> bool"

text \<open>\<open>Many P n greedy\<close> is a class repeated at least \<open>n\<close> times; \<open>Bol\<close> and \<open>Eol\<close> are \<open>^\<close> and \<open>$\<close> with
  \<open>re.MULTILINE\<close>, \<open>Final\<close> is \<open>$\<close> without it; \<open>Edge\<close> is a word boundary.\<close>

type_synonym captures = "nat \<Rightarrow> (nat \<times> nat) option"

definition at_class :: "(int \<Rightarrow> bool) \<Rightarrow> points \<Rightarrow> nat \<Rightarrow> bool" where
  "at_class P t i \<longleftrightarrow> i < length t \<and> P (t ! i)"

definition at_bol :: "points \<Rightarrow> nat \<Rightarrow> bool" where "at_bol t i \<longleftrightarrow> i = 0 \<or> t ! (i - 1) = 10"
definition at_eol :: "points \<Rightarrow> nat \<Rightarrow> bool" where "at_eol t i \<longleftrightarrow> i = length t \<or> i < length t \<and> t ! i = 10"
definition at_final :: "points \<Rightarrow> nat \<Rightarrow> bool" where
  "at_final t i \<longleftrightarrow> i = length t \<or> Suc i = length t \<and> t ! i = 10"

definition at_edge :: "(int \<Rightarrow> bool) \<Rightarrow> points \<Rightarrow> nat \<Rightarrow> bool" where
  "at_edge W t i \<longleftrightarrow> (0 < i \<and> W (t ! (i - 1))) \<noteq> at_class W t i"

fun re_match :: "re \<Rightarrow> points \<Rightarrow> nat \<Rightarrow> captures \<Rightarrow> (nat \<times> captures) list" where
  "re_match Eps t i c = [(i, c)]"
| "re_match (Cls P) t i c = (if at_class P t i then [(Suc i, c)] else [])"
| "re_match (Many P n greedy) t i c =
     (let k = length (takeWhile P (drop i t)); js = [n..<Suc k] in
      map (\<lambda>j. (i + j, c)) (if greedy then rev js else js))"
| "re_match (Seq a b) t i c = concat (map (\<lambda>(j, d). re_match b t j d) (re_match a t i c))"
| "re_match (Alt a b) t i c = re_match a t i c @ re_match b t i c"
| "re_match (Group g a) t i c = map (\<lambda>(j, d). (j, d(g \<mapsto> (i, j)))) (re_match a t i c)"
| "re_match Bol t i c = (if at_bol t i then [(i, c)] else [])"
| "re_match Eol t i c = (if at_eol t i then [(i, c)] else [])"
| "re_match Final t i c = (if at_final t i then [(i, c)] else [])"
| "re_match (Edge W) t i c = (if at_edge W t i then [(i, c)] else [])"

definition no_groups :: captures where "no_groups = (\<lambda>_. None)"

definition group_text :: "points \<Rightarrow> captures \<Rightarrow> nat \<Rightarrow> points" where
  "group_text t c g = (case c g of Some (i, j) \<Rightarrow> take (j - i) (drop i t) | None \<Rightarrow> [])"

text \<open>\<open>re.match\<close>, \<open>re.search\<close> from a position, and the groups that \<open>re.findall\<close> returns for a pattern
  that never matches the empty text.\<close>

definition re_prefix :: "re \<Rightarrow> points \<Rightarrow> nat \<Rightarrow> (nat \<times> captures) option" where
  "re_prefix r t i = (case re_match r t i no_groups of [] \<Rightarrow> None | m # _ \<Rightarrow> Some m)"

function re_search :: "re \<Rightarrow> points \<Rightarrow> nat \<Rightarrow> (nat \<times> nat \<times> captures) option" where
  "re_search r t i =
     (if i > length t then None
      else case re_prefix r t i of Some (j, c) \<Rightarrow> Some (i, j, c) | None \<Rightarrow> re_search r t (Suc i))"
  by pat_completeness auto

termination
  by (relation "measure (\<lambda>(r, t, i). Suc (length t) - i)") auto

declare re_search.simps [simp del]

function re_findall :: "re \<Rightarrow> points \<Rightarrow> nat \<Rightarrow> captures list" where
  "re_findall r t i =
     (if i > length t then []
      else case re_search r t i of
        None \<Rightarrow> []
      | Some (s, e, c) \<Rightarrow> c # re_findall r t (if i < e then e else Suc i))"
  by pat_completeness auto

termination
  by (relation "measure (\<lambda>(r, t, i). Suc (length t) - i)") auto

declare re_findall.simps [simp del]

text \<open>\<open>re.split\<close> at a look-ahead: the text is cut before every position where the pattern matches.\<close>

fun cut_at :: "points \<Rightarrow> nat \<Rightarrow> nat list \<Rightarrow> points list" where
  "cut_at t i [] = [drop i t]"
| "cut_at t i (j # js) = take (j - i) (drop i t) # cut_at t j js"

definition split_before :: "re \<Rightarrow> points \<Rightarrow> points list" where
  "split_before r t = cut_at t 0 (filter (\<lambda>i. re_prefix r t i \<noteq> None) [0..<Suc (length t)])"

section \<open>Literals\<close>

fun re_lit :: "points \<Rightarrow> re" where
  "re_lit [] = Eps"
| "re_lit (p # ps) = Seq (Cls ((=) p)) (re_lit ps)"

definition re_str :: "string \<Rightarrow> re" where "re_str s = re_lit (pts s)"

fun re_seq :: "re list \<Rightarrow> re" where
  "re_seq [] = Eps"
| "re_seq (r # rs) = Seq r (re_seq rs)"

fun re_alt :: "re \<Rightarrow> re list \<Rightarrow> re" where
  "re_alt r [] = r"
| "re_alt r (s # rs) = Alt r (re_alt s rs)"

abbreviation re_spaces :: re where "re_spaces \<equiv> Many py_space 0 True"
abbreviation re_spaces1 :: re where "re_spaces1 \<equiv> Many py_space 1 True"
abbreviation re_word :: re where "re_word \<equiv> Many (\<lambda>p. \<not> py_space p) 1 True"

section \<open>The language of a pattern\<close>

inductive spans :: "points \<Rightarrow> re \<Rightarrow> nat \<Rightarrow> nat \<Rightarrow> bool" for t where
  span_eps: "spans t Eps i i"
| span_cls: "at_class P t i \<Longrightarrow> spans t (Cls P) i (Suc i)"
| span_many: "n \<le> k \<Longrightarrow> (\<And>j. j < k \<Longrightarrow> at_class P t (i + j)) \<Longrightarrow> spans t (Many P n greedy) i (i + k)"
| span_seq: "spans t a i j \<Longrightarrow> spans t b j k \<Longrightarrow> spans t (Seq a b) i k"
| span_left: "spans t a i j \<Longrightarrow> spans t (Alt a b) i j"
| span_right: "spans t b i j \<Longrightarrow> spans t (Alt a b) i j"
| span_group: "spans t a i j \<Longrightarrow> spans t (Group g a) i j"
| span_bol: "at_bol t i \<Longrightarrow> spans t Bol i i"
| span_eol: "at_eol t i \<Longrightarrow> spans t Eol i i"
| span_final: "at_final t i \<Longrightarrow> spans t Final i i"
| span_edge: "at_edge W t i \<Longrightarrow> spans t (Edge W) i i"

inductive_simps spans_simps:
  "spans t Eps i j" "spans t (Cls P) i j" "spans t (Many P n greedy) i j" "spans t (Seq a b) i j"
  "spans t (Alt a b) i j" "spans t (Group g a) i j" "spans t Bol i j" "spans t Eol i j" "spans t Final i j" "spans t (Edge W) i j"

lemma takeWhile_run:
  assumes "i \<le> length t"
  shows "k \<le> length (takeWhile P (drop i t)) \<longleftrightarrow> (\<forall>j < k. at_class P t (i + j))"
proof
  assume k: "k \<le> length (takeWhile P (drop i t))"
  show "\<forall>j < k. at_class P t (i + j)"
  proof (intro allI impI)
    fix j assume "j < k"
    then have j: "j < length (takeWhile P (drop i t))" using k by simp
    then have "P (drop i t ! j)" using nth_mem[OF j] set_takeWhileD takeWhile_nth[OF j] by metis
    moreover have "j < length (drop i t)" using j length_takeWhile_le less_le_trans by blast
    ultimately show "at_class P t (i + j)" using assms by (simp add: at_class_def)
  qed
next
  assume a: "\<forall>j < k. at_class P t (i + j)"
  show "k \<le> length (takeWhile P (drop i t))"
  proof (rule ccontr)
    assume "\<not> k \<le> length (takeWhile P (drop i t))"
    then have n: "length (takeWhile P (drop i t)) < k" by simp
    then have c: "at_class P t (i + length (takeWhile P (drop i t)))" using a by blast
    then have "length (takeWhile P (drop i t)) < length (drop i t)" by (auto simp: at_class_def)
    from nth_length_takeWhile[OF this] c show False by (simp add: at_class_def assms)
  qed
qed

lemma re_match_bounds: "m \<in> set (re_match r t i c) \<Longrightarrow> i \<le> length t \<Longrightarrow> i \<le> fst m \<and> fst m \<le> length t"
proof (induction r arbitrary: i c m)
  case (Many P n greedy)
  have "length (takeWhile P (drop i t)) \<le> length t - i" by (metis length_drop length_takeWhile_le)
  then show ?case using Many by (auto simp: Let_def split: if_splits)
next
  case (Seq a b)
  then obtain j d where a: "(j, d) \<in> set (re_match a t i c)" and b: "m \<in> set (re_match b t j d)" by auto
  have "i \<le> j" "j \<le> length t" using Seq.IH(1)[OF a Seq.prems(2)] by auto
  then show ?case using Seq.IH(2)[OF b] by simp
next
  case (Group g a)
  then obtain j d where "(j, d) \<in> set (re_match a t i c)" "fst m = j" by auto
  then show ?case using Group.IH Group.prems(2) by fastforce
qed (auto simp: at_class_def split: if_splits)

lemma re_match_spans:
  "i \<le> length t \<Longrightarrow> j \<in> fst ` set (re_match r t i c) \<longleftrightarrow> spans t r i j"
proof (induction r arbitrary: i j c)
  case (Many P n greedy)
  have "spans t (Many P n greedy) i j \<longleftrightarrow> (\<exists>k. n \<le> k \<and> k \<le> length (takeWhile P (drop i t)) \<and> j = i + k)"
    using takeWhile_run[OF Many] by (auto simp: spans_simps)
  then show ?case by (auto simp: Let_def image_iff less_Suc_eq_le)
next
  case (Seq a b)
  have "j \<in> fst ` set (re_match (Seq a b) t i c)
    \<longleftrightarrow> (\<exists>p \<in> set (re_match a t i c). j \<in> fst ` set (re_match b t (fst p) (snd p)))"
    by (simp add: case_prod_unfold image_UN)
  also have "\<dots> \<longleftrightarrow> (\<exists>p \<in> set (re_match a t i c). spans t b (fst p) j)"
    using Seq.IH(2) re_match_bounds Seq.prems by (metis (no_types, lifting))
  also have "\<dots> \<longleftrightarrow> (\<exists>m \<in> fst ` set (re_match a t i c). spans t b m j)" by auto
  also have "\<dots> \<longleftrightarrow> (\<exists>m. spans t a i m \<and> spans t b m j)" using Seq.IH(1)[OF Seq.prems] by blast
  finally show ?case by (simp add: spans_simps)
next
  case (Alt a b)
  then show ?case by (auto simp: spans_simps image_Un)
next
  case (Group g a)
  have "fst ` set (re_match (Group g a) t i c) = fst ` set (re_match a t i c)" by force
  then show ?case using Group by (simp add: spans_simps)
qed (auto simp: spans_simps)

lemma re_prefix_iff:
  assumes "i \<le> length t"
  shows "re_prefix r t i \<noteq> None \<longleftrightarrow> (\<exists>j. spans t r i j)"
proof -
  have "re_prefix r t i \<noteq> None \<longleftrightarrow> (\<exists>j. j \<in> fst ` set (re_match r t i no_groups))"
    by (cases "re_match r t i no_groups") (auto simp: re_prefix_def)
  then show ?thesis unfolding re_match_spans[OF assms] .
qed

lemma re_search_None: "re_search r t i = None \<longleftrightarrow> (\<forall>k. i \<le> k \<and> k \<le> length t \<longrightarrow> re_prefix r t k = None)"
proof (induction r t i rule: re_search.induct)
  case (1 r t i)
  show ?case
  proof (cases "i > length t")
    case True
    then show ?thesis by (subst re_search.simps) auto
  next
    case False
    show ?thesis
    proof (cases "re_prefix r t i")
      case None
      then have "re_search r t i = re_search r t (Suc i)" using False by (subst re_search.simps) simp
      then show ?thesis using "1.IH"[OF False None] None by (metis Suc_leI le_neq_implies_less Suc_leD)
    next
      case (Some m)
      then have "re_search r t i \<noteq> None" using False by (subst re_search.simps) (auto split: prod.split)
      then show ?thesis using Some False by force
    qed
  qed
qed

lemma concat_cut_at: "sorted (i # js) \<Longrightarrow> concat (cut_at t i js) = drop i t"
proof (induction t i js rule: cut_at.induct)
  case (2 t i j js)
  then have "concat (cut_at t j js) = drop j t" by simp
  moreover have "take (j - i) (drop i t) @ drop j t = drop i t"
    using 2(2) append_take_drop_id[of "j - i" "drop i t"] by simp
  ultimately show ?case by simp
qed simp

lemma concat_split_before: "concat (split_before r t) = t"
proof -
  have "sorted (filter (\<lambda>i. re_prefix r t i \<noteq> None) [0..<Suc (length t)])"
    by (rule sorted_wrt_filter) (simp del: upt_Suc)
  then show ?thesis unfolding split_before_def by (subst concat_cut_at) (simp_all del: upt_Suc)
qed

end
