(* ===== verification/Atom_Intervals.thy ===== *)
theory Atom_Intervals
  imports Prelude
begin

text \<open>
  The AVL tree of half-open ranges of \<open>tools/abi_artifact_parity.py\<close>
  (\<open>_AtomInterval\<close> and the functions on it).  A node stores its range, its value, its
  children and its height; the Python code updates nodes in place, but every node is reachable
  through the builder's root only, so the operations are functions from tree to tree.
  An \<open>assert\<close> that fails and the explicit \<open>AssertionError\<close>s are \<open>Inl AssertionError\<close>;
  \<open>ivl_store\<close>, the contract the builder relies on, is the locale of the last section.
\<close>

datatype 'v ivl = Ivl (ivl_start: int) (ivl_end: int) (ivl_value: 'v)

datatype 'v ivl_tree =
    Tip
  | Node (left_of: "'v ivl_tree") (ivl_of: "'v ivl") (height_of: int) (right_of: "'v ivl_tree")

section \<open>Heights and rotations\<close>

fun interval_height :: "'v ivl_tree \<Rightarrow> int" where
  "interval_height Tip = 0"
| "interval_height (Node l i h r) = h"

fun update_interval_height :: "'v ivl_tree \<Rightarrow> 'v ivl_tree" where
  "update_interval_height Tip = Tip"
| "update_interval_height (Node l i h r) =
     Node l i (1 + max (interval_height l) (interval_height r)) r"

fun rotate_interval_left :: "'v ivl_tree \<Rightarrow> 'v ivl_tree res" where
  "rotate_interval_left (Node l i h (Node rl ri rh rr)) =
     Inr (update_interval_height (Node (update_interval_height (Node l i h rl)) ri rh rr))"
| "rotate_interval_left _ = Inl AssertionError"

fun rotate_interval_right :: "'v ivl_tree \<Rightarrow> 'v ivl_tree res" where
  "rotate_interval_right (Node (Node ll li lh lr) i h r) =
     Inr (update_interval_height (Node ll li lh (update_interval_height (Node lr i h r))))"
| "rotate_interval_right _ = Inl AssertionError"

fun balance_interval :: "'v ivl_tree \<Rightarrow> 'v ivl_tree res" where
  "balance_interval Tip = Inl AssertionError"
| "balance_interval (Node l i h0 r) =
     (let h = height_of (update_interval_height (Node l i h0 r));
          balance = interval_height l - interval_height r
      in if balance > 1 then
           (case l of Tip \<Rightarrow> Inl AssertionError
            | Node ll li lh lr \<Rightarrow>
                if interval_height ll < interval_height lr
                then bind_r (rotate_interval_left l)
                       (\<lambda>l'. rotate_interval_right (Node l' i h r))
                else rotate_interval_right (Node l i h r))
         else if balance < -1 then
           (case r of Tip \<Rightarrow> Inl AssertionError
            | Node rl ri rh rr \<Rightarrow>
                if interval_height rr < interval_height rl
                then bind_r (rotate_interval_right r)
                       (\<lambda>r'. rotate_interval_left (Node l i h r'))
                else rotate_interval_left (Node l i h r))
         else Inr (Node l i h r))"

section \<open>Insertion and removal\<close>

fun insert_interval :: "'v ivl_tree \<Rightarrow> 'v ivl \<Rightarrow> 'v ivl_tree res" where
  "insert_interval Tip i = Inr (Node Tip i 1 Tip)"
| "insert_interval (Node l j h r) i =
     (if ivl_start i < ivl_start j then
        bind_r (insert_interval l i) (\<lambda>l'. balance_interval (Node l' j h r))
      else if ivl_start i > ivl_start j then
        bind_r (insert_interval r i) (\<lambda>r'. balance_interval (Node l j h r'))
      else Inl AssertionError)"

text \<open>The loop that walks to the leftmost node of the right subtree.\<close>

fun leftmost_interval :: "'v ivl_tree \<Rightarrow> 'v ivl option" where
  "leftmost_interval Tip = None"
| "leftmost_interval (Node Tip i h r) = Some i"
| "leftmost_interval (Node l i h r) = leftmost_interval l"

fun remove_interval :: "'v ivl_tree \<Rightarrow> int \<Rightarrow> 'v ivl_tree res" where
  "remove_interval Tip start = Inl AssertionError"
| "remove_interval (Node l i h r) start =
     (if start < ivl_start i then
        bind_r (remove_interval l start) (\<lambda>l'. balance_interval (Node l' i h r))
      else if start > ivl_start i then
        bind_r (remove_interval r start) (\<lambda>r'. balance_interval (Node l i h r'))
      else if l = Tip then Inr r
      else if r = Tip then Inr l
      else (case leftmost_interval r of
              None \<Rightarrow> Inl AssertionError
            | Some succ \<Rightarrow> bind_r (remove_interval r (ivl_start succ))
                             (\<lambda>r'. balance_interval (Node l succ h r'))))"

section \<open>Searches: loops with the best node so far\<close>

fun lower_bound_loop :: "'v ivl_tree \<Rightarrow> int \<Rightarrow> 'v ivl option \<Rightarrow> 'v ivl option" where
  "lower_bound_loop Tip start result = result"
| "lower_bound_loop (Node l i h r) start result =
     (if ivl_start i \<ge> start then lower_bound_loop l start (Some i)
      else lower_bound_loop r start result)"

definition lower_bound_interval :: "'v ivl_tree \<Rightarrow> int \<Rightarrow> 'v ivl option" where
  "lower_bound_interval root start = lower_bound_loop root start None"

fun predecessor_loop :: "'v ivl_tree \<Rightarrow> int \<Rightarrow> 'v ivl option \<Rightarrow> 'v ivl option" where
  "predecessor_loop Tip start result = result"
| "predecessor_loop (Node l i h r) start result =
     (if ivl_start i < start then predecessor_loop r start (Some i)
      else predecessor_loop l start result)"

definition predecessor_interval :: "'v ivl_tree \<Rightarrow> int \<Rightarrow> 'v ivl option" where
  "predecessor_interval root start = predecessor_loop root start None"

fun successor_loop :: "'v ivl_tree \<Rightarrow> int \<Rightarrow> 'v ivl option \<Rightarrow> 'v ivl option" where
  "successor_loop Tip start result = result"
| "successor_loop (Node l i h r) start result =
     (if ivl_start i > start then successor_loop l start (Some i)
      else successor_loop r start result)"

definition successor_interval :: "'v ivl_tree \<Rightarrow> int \<Rightarrow> 'v ivl option" where
  "successor_interval root start = successor_loop root start None"

section \<open>The generator of intervals in order\<close>

text \<open>
  The explicit stack holds the nodes passed on the way left; of a popped node only its range
  and its right child are read again, so the stack keeps these two.
\<close>

function ordered_loop :: "'v ivl_tree \<Rightarrow> ('v ivl \<times> 'v ivl_tree) list \<Rightarrow> 'v ivl list" where
  "ordered_loop (Node l i h r) stack = ordered_loop l ((i, r) # stack)"
| "ordered_loop Tip ((i, r) # stack) = i # ordered_loop r stack"
| "ordered_loop Tip [] = []"
  by pat_completeness auto
termination
  by (relation "measure (\<lambda>(t, st). 2 * size t + (\<Sum>p\<leftarrow>st. 2 * size (snd p) + 1))") auto

definition ordered_intervals :: "'v ivl_tree \<Rightarrow> 'v ivl list" where
  "ordered_intervals root = ordered_loop root []"

section \<open>Functional correctness\<close>

fun inorder :: "'v ivl_tree \<Rightarrow> 'v ivl list" where
  "inorder Tip = []"
| "inorder (Node l i h r) = inorder l @ i # inorder r"

abbreviation starts :: "'v ivl_tree \<Rightarrow> int list" where
  "starts t \<equiv> map ivl_start (inorder t)"

text \<open>Stored heights are right and siblings differ by at most one level.\<close>

fun avl :: "'v ivl_tree \<Rightarrow> bool" where
  "avl Tip = True"
| "avl (Node l i h r) = (avl l \<and> avl r \<and> h = 1 + max (interval_height l) (interval_height r)
     \<and> \<bar>interval_height l - interval_height r\<bar> \<le> 1)"

definition ivl_inv :: "'v ivl_tree \<Rightarrow> bool" where
  "ivl_inv t \<longleftrightarrow> avl t \<and> sorted_wrt (<) (starts t)"

lemma avl_height_nonneg: "avl t \<Longrightarrow> 0 \<le> interval_height t"
  by (induction t) auto

lemma avl_height_zero: "avl t \<Longrightarrow> interval_height t = 0 \<longleftrightarrow> t = Tip"
  using avl_height_nonneg by (cases t) fastforce+

text \<open>The generator's explicit stack computes the in-order traversal.\<close>

lemma ordered_loop_inorder:
  "ordered_loop t st = inorder t @ concat (map (\<lambda>(i, r). i # inorder r) st)"
  by (induction t st rule: ordered_loop.induct) auto

lemma ordered_intervals_inorder [simp]: "ordered_intervals t = inorder t"
  by (simp add: ordered_intervals_def ordered_loop_inorder)

lemma avl_Node_height: "avl t \<Longrightarrow> 0 < interval_height t \<Longrightarrow> \<exists>l i h r. t = Node l i h r"
  by (cases t) auto

text \<open>Rebalancing repairs a difference of two levels and never fails there.\<close>

lemma balance_left_heavy:
  assumes "avl l" "avl r" and d: "interval_height l = interval_height r + 2"
  shows "\<exists>t. balance_interval (Node l i h r) = Inr t \<and> avl t
    \<and> inorder t = inorder l @ i # inorder r
    \<and> interval_height t \<in> {interval_height r + 2, interval_height r + 3}"
proof -
  have r0: "0 \<le> interval_height r" using assms avl_height_nonneg by blast
  then obtain ll li lh lr where l: "l = Node ll li lh lr"
    using avl_Node_height[of l] assms by auto
  show ?thesis
  proof (cases "interval_height ll < interval_height lr")
    case True
    with assms l have e: "interval_height ll = interval_height r" "interval_height lr = interval_height r + 1"
      by auto
    then obtain al ai ah ar where lr: "lr = Node al ai ah ar"
      using avl_Node_height[of lr] assms l r0 by auto
    from assms l lr e have "avl al" "avl ar"
      "max (interval_height al) (interval_height ar) = interval_height r"
      "\<bar>interval_height al - interval_height ar\<bar> \<le> 1" by auto
    then show ?thesis using True assms l lr e by auto
  next
    case False
    with assms l have e: "interval_height ll = interval_height r + 1"
      "interval_height lr = interval_height r \<or> interval_height lr = interval_height r + 1"
      by auto
    then show ?thesis using False assms l by auto
  qed
qed

lemma balance_right_heavy:
  assumes "avl l" "avl r" and d: "interval_height r = interval_height l + 2"
  shows "\<exists>t. balance_interval (Node l i h r) = Inr t \<and> avl t
    \<and> inorder t = inorder l @ i # inorder r
    \<and> interval_height t \<in> {interval_height l + 2, interval_height l + 3}"
proof -
  have l0: "0 \<le> interval_height l" using assms avl_height_nonneg by blast
  then obtain rl ri rh rr where r: "r = Node rl ri rh rr"
    using avl_Node_height[of r] assms by auto
  show ?thesis
  proof (cases "interval_height rr < interval_height rl")
    case True
    with assms r have e: "interval_height rr = interval_height l" "interval_height rl = interval_height l + 1"
      by auto
    then obtain al ai ah ar where rl: "rl = Node al ai ah ar"
      using avl_Node_height[of rl] assms r l0 by auto
    from assms r rl e have "avl al" "avl ar"
      "max (interval_height al) (interval_height ar) = interval_height l"
      "\<bar>interval_height al - interval_height ar\<bar> \<le> 1" by auto
    then show ?thesis using True assms r rl e by auto
  next
    case False
    with assms r have e: "interval_height rr = interval_height l + 1"
      "interval_height rl = interval_height l \<or> interval_height rl = interval_height l + 1"
      by auto
    then show ?thesis using False assms r by auto
  qed
qed

lemma balance_even:
  assumes "avl l" "avl r" "\<bar>interval_height l - interval_height r\<bar> \<le> 1"
  shows "balance_interval (Node l i h r)
    = Inr (Node l i (1 + max (interval_height l) (interval_height r)) r)"
proof -
  have "\<not> 1 < interval_height l - interval_height r" "\<not> interval_height l - interval_height r < - 1"
    using assms(3) by linarith+
  then show ?thesis by (simp only: balance_interval.simps Let_def if_False update_interval_height.simps
        ivl_tree.sel)
qed

lemma balance_interval_correct:
  assumes "avl l" "avl r" "\<bar>interval_height l - interval_height r\<bar> \<le> 2"
  shows "\<exists>t. balance_interval (Node l i h r) = Inr t \<and> avl t
    \<and> inorder t = inorder l @ i # inorder r
    \<and> (if \<bar>interval_height l - interval_height r\<bar> \<le> 1
       then interval_height t = 1 + max (interval_height l) (interval_height r)
       else interval_height t \<in> {max (interval_height l) (interval_height r),
                                  1 + max (interval_height l) (interval_height r)})"
proof -
  from assms(3) consider "\<bar>interval_height l - interval_height r\<bar> \<le> 1"
    | "interval_height l = interval_height r + 2" | "interval_height r = interval_height l + 2"
    by linarith
  then show ?thesis
  proof cases
    case 1
    then show ?thesis using balance_even[OF assms(1,2) 1] assms by simp
  next
    case 2
    then show ?thesis using balance_left_heavy[OF assms(1,2) 2, of i h] by (auto simp: max_def)
  next
    case 3
    then show ?thesis using balance_right_heavy[OF assms(1,2) 3, of i h] by (auto simp: max_def)
  qed
qed

declare balance_interval.simps [simp del]

text \<open>Insertion into the list of intervals, ordered by start.\<close>

fun ins_ivl :: "'v ivl \<Rightarrow> 'v ivl list \<Rightarrow> 'v ivl list" where
  "ins_ivl i [] = [i]"
| "ins_ivl i (j # js) = (if ivl_start i < ivl_start j then i # j # js else j # ins_ivl i js)"

definition del_ivl :: "int \<Rightarrow> 'v ivl list \<Rightarrow> 'v ivl list" where
  "del_ivl s js = filter (\<lambda>j. ivl_start j \<noteq> s) js"

lemma set_ins_ivl [simp]: "set (ins_ivl i js) = insert i (set js)"
  by (induction js) auto

lemma sorted_ins_ivl:
  "sorted_wrt (<) (map ivl_start js) \<Longrightarrow> ivl_start i \<notin> set (map ivl_start js) \<Longrightarrow>
     sorted_wrt (<) (map ivl_start (ins_ivl i js))"
  by (induction js) (auto simp: not_less order.order_iff_strict)

lemma ins_ivl_append_left:
  "ivl_start i < ivl_start j \<Longrightarrow> ins_ivl i (xs @ j # ys) = ins_ivl i xs @ j # ys"
  by (induction xs) auto

lemma ins_ivl_append_right:
  "\<forall>x \<in> set xs. ivl_start x < ivl_start i \<Longrightarrow> ins_ivl i (xs @ ys) = xs @ ins_ivl i ys"
  by (induction xs) auto

lemma insert_interval_correct:
  assumes "avl t" "sorted_wrt (<) (starts t)" "ivl_start i \<notin> set (starts t)"
  shows "\<exists>t'. insert_interval t i = Inr t' \<and> avl t' \<and> inorder t' = ins_ivl i (inorder t)
    \<and> interval_height t' \<in> {interval_height t, interval_height t + 1}"
  using assms
proof (induction t)
  case (Node l j h r)
  have srt: "sorted_wrt (<) (starts l)" "sorted_wrt (<) (starts r)"
    "\<And>x. x \<in> set (inorder l) \<Longrightarrow> ivl_start x < ivl_start j"
    using Node.prems(2) by (auto simp: sorted_wrt_append)
  show ?case
  proof (cases "ivl_start i < ivl_start j")
    case True
    obtain l' where l': "insert_interval l i = Inr l'" "avl l'" "inorder l' = ins_ivl i (inorder l)"
      "interval_height l' \<in> {interval_height l, interval_height l + 1}"
      using Node.IH(1) Node.prems srt by auto
    have "\<bar>interval_height l' - interval_height r\<bar> \<le> 2" using l'(4) Node.prems(1) by auto
    from balance_interval_correct[OF l'(2) _ this, of j h] show ?thesis
      using l' Node.prems(1) True by (auto simp: ins_ivl_append_left split: if_splits)
  next
    case False
    then have gt: "ivl_start i > ivl_start j" using Node.prems(3) by auto
    obtain r' where r': "insert_interval r i = Inr r'" "avl r'" "inorder r' = ins_ivl i (inorder r)"
      "interval_height r' \<in> {interval_height r, interval_height r + 1}"
      using Node.IH(2) Node.prems srt by auto
    have "\<bar>interval_height l - interval_height r'\<bar> \<le> 2" using r'(4) Node.prems(1) by auto
    moreover have "ins_ivl i (inorder l @ j # inorder r) = inorder l @ j # ins_ivl i (inorder r)"
      using srt(3) gt by (subst ins_ivl_append_right) force+
    ultimately show ?thesis
      using balance_interval_correct[OF _ r'(2), of l j h] r' Node.prems(1) gt
      by (auto split: if_splits)
  qed
qed simp

text \<open>A start that is present is refused.\<close>

lemma insert_interval_duplicate:
  "ivl_start i \<in> set (starts t) \<Longrightarrow> sorted_wrt (<) (starts t) \<Longrightarrow>
     insert_interval t i = Inl AssertionError"
proof (induction t)
  case (Node l j h r)
  have srt: "sorted_wrt (<) (starts l)" "sorted_wrt (<) (starts r)"
    "\<forall>x \<in> set (starts l). x < ivl_start j" "\<forall>x \<in> set (starts r). ivl_start j < x"
    using Node.prems(2) by (auto simp: sorted_wrt_append)
  consider "ivl_start i \<in> set (starts l)" "ivl_start i < ivl_start j" | "ivl_start i = ivl_start j"
    | "ivl_start i \<in> set (starts r)" "ivl_start i > ivl_start j"
    using Node.prems(1) srt(3,4) by auto
  then show ?case
    by cases (use Node.IH srt(1,2) in simp_all)
qed simp

subsection \<open>Removal\<close>

lemma inorder_eq_Nil [simp]: "inorder t = [] \<longleftrightarrow> t = Tip"
  by (cases t) auto

lemma leftmost_interval_correct: "t \<noteq> Tip \<Longrightarrow> leftmost_interval t = Some (hd (inorder t))"
  by (induction t rule: leftmost_interval.induct) (auto simp: hd_append)

lemma del_ivl_notin: "s \<notin> set (map ivl_start js) \<Longrightarrow> del_ivl s js = js"
  by (auto simp: del_ivl_def filter_id_conv)

lemma del_ivl_append: "del_ivl s (xs @ ys) = del_ivl s xs @ del_ivl s ys"
  by (simp add: del_ivl_def)

lemma del_ivl_Cons: "del_ivl s (j # js) = (if ivl_start j = s then del_ivl s js else j # del_ivl s js)"
  by (simp add: del_ivl_def)

lemma set_del_ivl [simp]: "set (del_ivl s js) = {j \<in> set js. ivl_start j \<noteq> s}"
  by (simp add: del_ivl_def)

lemma sorted_del_ivl:
  "sorted_wrt (<) (map ivl_start js) \<Longrightarrow> sorted_wrt (<) (map ivl_start (del_ivl s js))"
  by (induction js) (auto simp: del_ivl_def)

lemma del_ivl_hd:
  assumes "sorted_wrt (<) (map ivl_start js)" "js \<noteq> []"
  shows "hd js # del_ivl (ivl_start (hd js)) js = js"
  using assms by (cases js) (force simp: del_ivl_Cons intro!: del_ivl_notin)+

lemma remove_interval_correct:
  assumes "avl t" "sorted_wrt (<) (starts t)" "s \<in> set (starts t)"
  shows "\<exists>t'. remove_interval t s = Inr t' \<and> avl t' \<and> inorder t' = del_ivl s (inorder t)
    \<and> interval_height t' \<in> {interval_height t - 1, interval_height t}"
  using assms
proof (induction t arbitrary: s)
  case (Node l i h r)
  have srt: "sorted_wrt (<) (starts l)" "sorted_wrt (<) (starts r)"
    "\<forall>x \<in> set (starts l). x < ivl_start i" "\<forall>x \<in> set (starts r). ivl_start i < x"
    using Node.prems(2) by (auto simp: sorted_wrt_append)
  have bal: "avl l" "avl r" "h = 1 + max (interval_height l) (interval_height r)"
    "\<bar>interval_height l - interval_height r\<bar> \<le> 1" using Node.prems(1) by auto
  consider (L) "s < ivl_start i" | (R) "s > ivl_start i" | (E) "s = ivl_start i" by linarith
  then show ?case
  proof cases
    case L
    then have "s \<in> set (starts l)" using Node.prems(3) srt(4) by auto
    then obtain l' where l': "remove_interval l s = Inr l'" "avl l'"
      "inorder l' = del_ivl s (inorder l)"
      "interval_height l' \<in> {interval_height l - 1, interval_height l}"
      using Node.IH(1) bal srt by blast
    have "\<bar>interval_height l' - interval_height r\<bar> \<le> 2" using l'(4) bal(4) by auto
    moreover have "del_ivl s (inorder l @ i # inorder r) = del_ivl s (inorder l) @ i # inorder r"
      using L srt(4) del_ivl_notin[of s "inorder r"] by (force simp: del_ivl_append del_ivl_Cons)
    ultimately show ?thesis
      using balance_interval_correct[OF l'(2) bal(2), of i h] l' L bal by (auto split: if_splits)
  next
    case R
    then have "s \<in> set (starts r)" using Node.prems(3) srt(3) by auto
    then obtain r' where r': "remove_interval r s = Inr r'" "avl r'"
      "inorder r' = del_ivl s (inorder r)"
      "interval_height r' \<in> {interval_height r - 1, interval_height r}"
      using Node.IH(2) bal srt by blast
    have "\<bar>interval_height l - interval_height r'\<bar> \<le> 2" using r'(4) bal(4) by auto
    moreover have "del_ivl s (inorder l @ i # inorder r) = inorder l @ i # del_ivl s (inorder r)"
      using R srt(3) del_ivl_notin[of s "inorder l"] by (force simp: del_ivl_append del_ivl_Cons)
    ultimately show ?thesis
      using balance_interval_correct[OF bal(1) r'(2), of i h] r' R bal by (auto split: if_splits)
  next
    case E
    have nl: "del_ivl s (inorder l) = inorder l" and nr: "del_ivl s (inorder r) = inorder r"
      using E srt(3,4) by (auto intro!: del_ivl_notin simp del: set_map)
    show ?thesis
    proof (cases "l = Tip \<or> r = Tip")
      case True
      then show ?thesis using E nl nr bal avl_height_nonneg[of l] avl_height_nonneg[of r]
        by (auto simp: del_ivl_Cons del_ivl_append del_ivl_def)
    next
      case False
      let ?m = "hd (inorder r)"
      from False have m: "leftmost_interval r = Some ?m" by (simp add: leftmost_interval_correct)
      have "ivl_start ?m \<in> set (starts r)" using False by simp
      then obtain r' where r': "remove_interval r (ivl_start ?m) = Inr r'" "avl r'"
        "inorder r' = del_ivl (ivl_start ?m) (inorder r)"
        "interval_height r' \<in> {interval_height r - 1, interval_height r}"
        using Node.IH(2) bal srt by blast
      have "?m # inorder r' = inorder r" using r'(3) del_ivl_hd[OF srt(2)] False by simp
      moreover have "\<bar>interval_height l - interval_height r'\<bar> \<le> 2" using r'(4) bal(4) by auto
      ultimately show ?thesis
        using balance_interval_correct[OF bal(1) r'(2), of ?m h] r' E m False bal nl nr
        by (auto simp: del_ivl_append del_ivl_Cons split: if_splits)
    qed
  qed
qed simp

lemma remove_interval_missing:
  "s \<notin> set (starts t) \<Longrightarrow> remove_interval t s = Inl AssertionError"
  by (induction t arbitrary: s) auto

subsection \<open>Searches\<close>

lemma find_append: "find P (xs @ ys) = (case find P xs of None \<Rightarrow> find P ys | Some x \<Rightarrow> Some x)"
  by (induction xs) auto

lemma find_SomeD: "find P xs = Some x \<Longrightarrow> x \<in> set xs \<and> P x"
  by (auto simp: find_Some_iff)

lemma find_none: "\<forall>x \<in> set xs. \<not> P x \<Longrightarrow> find P xs = None"
  by (simp add: find_None_iff)

lemma lower_bound_loop_find:
  "sorted_wrt (<) (starts t) \<Longrightarrow> lower_bound_loop t s res
     = (case find (\<lambda>j. s \<le> ivl_start j) (inorder t) of None \<Rightarrow> res | Some j \<Rightarrow> Some j)"
proof (induction t arbitrary: res)
  case (Node l i h r)
  then have "\<forall>j \<in> set (inorder l). ivl_start j < ivl_start i" by (auto simp: sorted_wrt_append)
  then have "ivl_start i < s \<Longrightarrow> find (\<lambda>j. s \<le> ivl_start j) (inorder l) = None"
    by (intro find_none) force
  then show ?case using Node by (auto simp: find_append sorted_wrt_append split: option.splits)
qed simp

lemma successor_loop_find:
  "sorted_wrt (<) (starts t) \<Longrightarrow> successor_loop t s res
     = (case find (\<lambda>j. s < ivl_start j) (inorder t) of None \<Rightarrow> res | Some j \<Rightarrow> Some j)"
proof (induction t arbitrary: res)
  case (Node l i h r)
  then have "\<forall>j \<in> set (inorder l). ivl_start j < ivl_start i" by (auto simp: sorted_wrt_append)
  then have "ivl_start i \<le> s \<Longrightarrow> find (\<lambda>j. s < ivl_start j) (inorder l) = None"
    by (intro find_none) force
  then show ?case using Node by (auto simp: find_append sorted_wrt_append split: option.splits)
qed simp

lemma predecessor_loop_find:
  "sorted_wrt (<) (starts t) \<Longrightarrow> predecessor_loop t s res
     = (case find (\<lambda>j. ivl_start j < s) (rev (inorder t)) of None \<Rightarrow> res | Some j \<Rightarrow> Some j)"
proof (induction t arbitrary: res)
  case (Node l i h r)
  then have "\<forall>j \<in> set (inorder r). ivl_start i < ivl_start j" by (auto simp: sorted_wrt_append)
  then have "s \<le> ivl_start i \<Longrightarrow> find (\<lambda>j. ivl_start j < s) (rev (inorder r)) = None"
    by (intro find_none) force
  then show ?case using Node by (auto simp: find_append sorted_wrt_append split: option.splits)
qed simp

lemma search_finds:
  assumes "ivl_inv t"
  shows "lower_bound_interval t s = find (\<lambda>j. s \<le> ivl_start j) (inorder t)"
    and "successor_interval t s = find (\<lambda>j. s < ivl_start j) (inorder t)"
    and "predecessor_interval t s = find (\<lambda>j. ivl_start j < s) (rev (inorder t))"
  using assms
  by (auto simp: ivl_inv_def lower_bound_interval_def successor_interval_def
      predecessor_interval_def lower_bound_loop_find successor_loop_find predecessor_loop_find
      split: option.splits)

text \<open>Whatever the tree, the successor is one of its intervals and lies further right.\<close>

lemma successor_loop_in:
  "successor_loop t s res = Some j \<Longrightarrow>
     (res = Some j \<or> j \<in> set (inorder t) \<and> s < ivl_start j)"
  by (induction t arbitrary: res) (auto split: if_splits)

lemma successor_interval_in:
  "successor_interval t s = Some j \<Longrightarrow> j \<in> set (inorder t) \<and> s < ivl_start j"
  using successor_loop_in[of t s None j] by (simp add: successor_interval_def)

subsection \<open>Height\<close>

text \<open>
  An AVL tree of height \<open>h\<close> has at least \<open>2 ^ (h div 2)\<close> leaves, so the recursion depth of
  insertion and removal is logarithmic in the number of intervals.
\<close>

lemma avl_size: "avl t \<Longrightarrow> 2 ^ nat (interval_height t div 2) \<le> length (inorder t) + 1"
proof (induction t)
  case (Node l i h r)
  define m where "m = min (interval_height l) (interval_height r)"
  have m: "interval_height (Node l i h r) \<le> m + 2" "0 \<le> m"
    using Node.prems avl_height_nonneg unfolding m_def by (auto simp: max_def min_def)
  have half: "nat (interval_height (Node l i h r) div 2) \<le> Suc (nat (m div 2))" using m by linarith
  have le: "(2::nat) ^ nat (m div 2) \<le> length (inorder l) + 1"
    "(2::nat) ^ nat (m div 2) \<le> length (inorder r) + 1"
  proof -
    have "nat (m div 2) \<le> nat (interval_height l div 2)" "nat (m div 2) \<le> nat (interval_height r div 2)"
      unfolding m_def by (simp_all add: nat_mono zdiv_mono1)
    then have "(2::nat) ^ nat (m div 2) \<le> 2 ^ nat (interval_height l div 2)"
      "(2::nat) ^ nat (m div 2) \<le> 2 ^ nat (interval_height r div 2)" by simp_all
    moreover have "avl l" "avl r" using Node.prems by simp_all
    ultimately show "(2::nat) ^ nat (m div 2) \<le> length (inorder l) + 1"
      "(2::nat) ^ nat (m div 2) \<le> length (inorder r) + 1"
      using Node.IH by (meson order_trans)+
  qed
  have "(2::nat) ^ nat (interval_height (Node l i h r) div 2) \<le> 2 ^ Suc (nat (m div 2))"
    using half by (rule power_increasing) simp
  also have "\<dots> \<le> length (inorder (Node l i h r)) + 1" using le by simp
  finally show ?case .
qed simp

section \<open>The contract of an interval store\<close>

text \<open>
  Disjoint non-empty ranges, and the value a set of ranges gives to a byte: the abstract view
  of a store is the relation between bytes and values.
\<close>

definition apart :: "'v ivl \<Rightarrow> 'v ivl \<Rightarrow> bool" where
  "apart i j \<longleftrightarrow> ivl_end i \<le> ivl_start j \<or> ivl_end j \<le> ivl_start i"

definition disjoint_ivls :: "'v ivl set \<Rightarrow> bool" where
  "disjoint_ivls S \<longleftrightarrow> (\<forall>i \<in> S. ivl_start i < ivl_end i) \<and> pairwise apart S"

definition covers :: "'v ivl set \<Rightarrow> int \<Rightarrow> 'v \<Rightarrow> bool" where
  "covers S b v \<longleftrightarrow> (\<exists>i \<in> S. ivl_start i \<le> b \<and> b < ivl_end i \<and> ivl_value i = v)"

definition overlaps_range :: "int \<Rightarrow> int \<Rightarrow> 'v ivl \<Rightarrow> bool" where
  "overlaps_range s e i \<longleftrightarrow> ivl_start i < e \<and> s < ivl_end i"

lemma apart_sym: "apart i j \<longleftrightarrow> apart j i"
  by (auto simp: apart_def)

lemma disjoint_ivls_subset: "disjoint_ivls S \<Longrightarrow> T \<subseteq> S \<Longrightarrow> disjoint_ivls T"
  unfolding disjoint_ivls_def using pairwise_subset by (metis subsetD)

lemma disjoint_ivls_insert:
  "disjoint_ivls (insert i S) \<longleftrightarrow> disjoint_ivls S \<and> ivl_start i < ivl_end i
     \<and> (\<forall>j \<in> S. j \<noteq> i \<longrightarrow> apart i j)"
proof -
  have "pairwise apart (insert i S) \<longleftrightarrow> (\<forall>j \<in> S. j \<noteq> i \<longrightarrow> apart i j) \<and> pairwise apart S"
    unfolding pairwise_insert using apart_sym by blast
  then show ?thesis unfolding disjoint_ivls_def by blast
qed

lemma disjoint_ivls_nonempty: "disjoint_ivls S \<Longrightarrow> i \<in> S \<Longrightarrow> ivl_start i < ivl_end i"
  by (simp add: disjoint_ivls_def)

lemma disjoint_ivls_apart: "disjoint_ivls S \<Longrightarrow> i \<in> S \<Longrightarrow> j \<in> S \<Longrightarrow> i \<noteq> j \<Longrightarrow> apart i j"
  by (simp add: disjoint_ivls_def pairwise_def)

lemma disjoint_ivls_same:
  "disjoint_ivls S \<Longrightarrow> i \<in> S \<Longrightarrow> j \<in> S \<Longrightarrow> ivl_start i \<le> b \<Longrightarrow> b < ivl_end i \<Longrightarrow>
     ivl_start j \<le> b \<Longrightarrow> b < ivl_end j \<Longrightarrow> i = j"
  using disjoint_ivls_apart[of S i j] unfolding apart_def by linarith

lemma covers_insert:
  "covers (insert i S) b v \<longleftrightarrow> ivl_start i \<le> b \<and> b < ivl_end i \<and> ivl_value i = v \<or> covers S b v"
  by (auto simp: covers_def)

lemma covers_unique: "disjoint_ivls S \<Longrightarrow> covers S b v \<Longrightarrow> covers S b w \<Longrightarrow> v = w"
  unfolding covers_def by (metis disjoint_ivls_same)

lemma disjoint_sorted_ends:
  assumes "disjoint_ivls (set xs)" "sorted_wrt (<) (map ivl_start xs)"
  shows "sorted_wrt (\<lambda>i j. ivl_end i \<le> ivl_start j) xs"
  using assms
proof (induction xs)
  case (Cons i xs)
  have "disjoint_ivls (set xs)" using Cons.prems(1) by (auto intro: disjoint_ivls_subset)
  moreover have "ivl_end i \<le> ivl_start j" if "j \<in> set xs" for j
  proof -
    have lt: "ivl_start i < ivl_start j" using Cons.prems(2) that by auto
    have "apart i j" "ivl_start j < ivl_end j"
      using Cons.prems(1) that lt disjoint_ivls_apart[of _ i j] disjoint_ivls_nonempty[of _ j] by auto
    then show ?thesis using lt unfolding apart_def by linarith
  qed
  ultimately show ?case using Cons by auto
qed simp

text \<open>
  What \<open>_AtomBuilder\<close> relies on: the operations in terms of the list of intervals, ordered by
  start.  The lemmas are the facts the builder's proofs use; they mention no tree.
\<close>

locale ivl_store =
  fixes ins :: "'t \<Rightarrow> 'v ivl \<Rightarrow> 't res"
    and rem :: "'t \<Rightarrow> int \<Rightarrow> 't res"
    and lower :: "'t \<Rightarrow> int \<Rightarrow> 'v ivl option"
    and succ :: "'t \<Rightarrow> int \<Rightarrow> 'v ivl option"
    and pred :: "'t \<Rightarrow> int \<Rightarrow> 'v ivl option"
    and items :: "'t \<Rightarrow> 'v ivl list"
    and inv :: "'t \<Rightarrow> bool"
  assumes items_sorted: "inv t \<Longrightarrow> sorted_wrt (<) (map ivl_start (items t))"
    and ins_fresh: "inv t \<Longrightarrow> ivl_start i \<notin> set (map ivl_start (items t)) \<Longrightarrow>
          \<exists>t'. ins t i = Inr t' \<and> inv t' \<and> items t' = ins_ivl i (items t)"
    and rem_present: "inv t \<Longrightarrow> s \<in> set (map ivl_start (items t)) \<Longrightarrow>
          \<exists>t'. rem t s = Inr t' \<and> inv t' \<and> items t' = del_ivl s (items t)"
    and lower_find: "inv t \<Longrightarrow> lower t s = find (\<lambda>j. s \<le> ivl_start j) (items t)"
    and succ_find: "inv t \<Longrightarrow> succ t s = find (\<lambda>j. s < ivl_start j) (items t)"
    and pred_find: "inv t \<Longrightarrow> pred t s = find (\<lambda>j. ivl_start j < s) (rev (items t))"
begin

lemma start_inj: "inv t \<Longrightarrow> i \<in> set (items t) \<Longrightarrow> j \<in> set (items t) \<Longrightarrow>
    ivl_start i = ivl_start j \<Longrightarrow> i = j"
  using strict_sorted_iff[of "map ivl_start (items t)"] items_sorted[of t]
  by (auto simp: distinct_map inj_on_def)

lemma rem_item:
  assumes "inv t" "i \<in> set (items t)"
  shows "\<exists>t'. rem t (ivl_start i) = Inr t' \<and> inv t' \<and> set (items t') = set (items t) - {i}"
proof -
  obtain t' where "rem t (ivl_start i) = Inr t'" "inv t'" "items t' = del_ivl (ivl_start i) (items t)"
    using rem_present[OF assms(1), of "ivl_start i"] assms(2) by auto
  moreover have "{j \<in> set (items t). ivl_start j \<noteq> ivl_start i} = set (items t) - {i}"
    using start_inj[OF assms(1) _ assms(2)] by auto
  ultimately show ?thesis by auto
qed

lemma ins_item:
  assumes "inv t" "disjoint_ivls (insert i (set (items t)))" "i \<notin> set (items t)"
  shows "\<exists>t'. ins t i = Inr t' \<and> inv t' \<and> set (items t') = insert i (set (items t))"
proof -
  have "ivl_start i \<noteq> ivl_start j" if "j \<in> set (items t)" for j
  proof -
    have "ivl_start j < ivl_end j" "ivl_start i < ivl_end i"
      "apart i j"
      using assms(2,3) that by (auto simp: disjoint_ivls_insert dest: disjoint_ivls_nonempty)
    then show ?thesis unfolding apart_def by linarith
  qed
  then have "ivl_start i \<notin> set (map ivl_start (items t))" by auto
  then show ?thesis using ins_fresh[OF assms(1)] by fastforce
qed

lemma succ_split:
  assumes "inv t" "items t = xs @ c # ys"
  shows "succ t (ivl_start c) = (case ys of [] \<Rightarrow> None | d # ds \<Rightarrow> Some d)"
proof -
  have srt: "sorted_wrt (<) (map ivl_start xs @ ivl_start c # map ivl_start ys)"
    using items_sorted[OF assms(1)] assms(2) by simp
  then have "find (\<lambda>j. ivl_start c < ivl_start j) xs = None"
    by (intro find_none) (force simp: sorted_wrt_append)
  then show ?thesis
    using srt assms by (auto simp: succ_find find_append sorted_wrt_append split: list.splits)
qed

text \<open>The node \<open>_overlaps\<close> starts from is the first one that ends after \<open>s\<close>.\<close>

lemma first_overlap:
  assumes "inv t" "disjoint_ivls (set (items t))"
  shows "(case pred t s of
            Some q \<Rightarrow> if ivl_end q > s then Some q else lower t s
          | None \<Rightarrow> lower t s) = find (\<lambda>j. s < ivl_end j) (items t)"
proof -
  define xs where "xs = takeWhile (\<lambda>j. ivl_start j < s) (items t)"
  define ys where "ys = dropWhile (\<lambda>j. ivl_start j < s) (items t)"
  have split: "items t = xs @ ys" by (simp add: xs_def ys_def)
  have ends: "sorted_wrt (\<lambda>i j. ivl_end i \<le> ivl_start j) (xs @ ys)"
    using disjoint_sorted_ends[OF assms(2) items_sorted[OF assms(1)]] split by simp
  have ne: "\<forall>i \<in> set (xs @ ys). ivl_start i < ivl_end i"
    using assms(2) split by (metis disjoint_ivls_nonempty)
  have x: "\<forall>j \<in> set xs. ivl_start j < s" by (auto simp: xs_def dest: set_takeWhileD)
  have y: "\<forall>j \<in> set ys. s \<le> ivl_start j"
  proof (cases ys)
    case (Cons d ds)
    then have d: "s \<le> ivl_start d" using ys_def by (auto simp: dropWhile_eq_Cons_conv)
    moreover have "ivl_start d \<le> ivl_start j" if "j \<in> set ds" for j
      using ends Cons that ne by (force simp: sorted_wrt_append)
    ultimately show ?thesis using Cons by force
  qed simp
  have low: "lower t s = (case ys of [] \<Rightarrow> None | d # ds \<Rightarrow> Some d)"
  proof -
    have "find (\<lambda>j. s \<le> ivl_start j) xs = None" using x by (intro find_none) force
    then show ?thesis using y lower_find[OF assms(1)] split
      by (simp add: find_append split: list.splits)
  qed
  have pre: "pred t s = (if xs = [] then None else Some (last xs))"
  proof -
    have "find (\<lambda>j. ivl_start j < s) (rev ys) = None" using y by (intro find_none) force
    then show ?thesis using x pred_find[OF assms(1)] split
      by (cases xs rule: rev_cases) (simp_all add: find_append)
  qed
  have fy: "find (\<lambda>j. s < ivl_end j) ys = (case ys of [] \<Rightarrow> None | d # ds \<Rightarrow> Some d)"
    using y ne by (force split: list.splits)
  show ?thesis
  proof (cases xs rule: rev_cases)
    case Nil
    then show ?thesis using low pre fy split by simp
  next
    case (snoc zs q)
    have "\<forall>j \<in> set zs. \<not> s < ivl_end j"
      using ends x snoc by (force simp: sorted_wrt_append)
    then show ?thesis using low pre fy split snoc
      by (auto simp: find_append find_none split: option.splits)
  qed
qed

end

text \<open>The tree keeps the contract.\<close>

interpretation ivl: ivl_store insert_interval remove_interval lower_bound_interval
  successor_interval predecessor_interval ordered_intervals ivl_inv
proof (unfold_locales, goal_cases)
  case (1 t)
  then show ?case by (simp add: ivl_inv_def)
next
  case (2 t i)
  then show ?case
    using insert_interval_correct[of t i] sorted_ins_ivl[of "inorder t" i]
    by (auto simp: ivl_inv_def simp del: set_map)
next
  case (3 t s)
  then show ?case
    using remove_interval_correct[of t s] sorted_del_ivl[of "inorder t" s]
    by (auto simp: ivl_inv_def simp del: set_map)
qed (simp_all add: search_finds)

section \<open>Properties\<close>

text \<open>Insertion and removal on the AVL tree of ranges implement insertion into and removal from
  the list of ranges ordered by start, keep the tree balanced with exact stored heights, and raise
  the assertion exactly when the start is present (insertion) or absent (removal).\<close>

theorem interval_updates_refine:
  assumes "ivl_inv t"
  shows "(if ivl_start i \<in> set (starts t) then insert_interval t i = Inl AssertionError
          else \<exists>t'. insert_interval t i = Inr t' \<and> ivl_inv t'
                  \<and> ordered_intervals t' = ins_ivl i (ordered_intervals t))
    \<and> (if s \<in> set (starts t)
       then \<exists>t'. remove_interval t s = Inr t' \<and> ivl_inv t'
               \<and> ordered_intervals t' = del_ivl s (ordered_intervals t)
       else remove_interval t s = Inl AssertionError)"
  using ivl.ins_fresh[OF assms, of i] ivl.rem_present[OF assms, of s] assms
    insert_interval_duplicate[of i t] remove_interval_missing[of s t]
  by (simp add: ivl_inv_def del: set_map)

theorem interval_updates_refine_witness:
  "\<exists>t'. insert_interval (Node Tip (Ivl 4 6 ()) 1 Tip) (Ivl 0 2 ()) = Inr t'
     \<and> ordered_intervals t' = [Ivl 0 2 (), Ivl 4 6 ()]
     \<and> remove_interval (Node Tip (Ivl 4 6 ()) 1 Tip) 5 = Inl AssertionError"
proof -
  have "ivl_inv (Node Tip (Ivl 4 6 ()) 1 Tip)" by (simp add: ivl_inv_def)
  from interval_updates_refine[OF this, of "Ivl 0 2 ()" 5] show ?thesis by auto
qed

text \<open>The three searches return the first range that starts at or after a position, the first
  that starts after it, and the last that starts before it, and the explicit-stack generator yields
  the ranges in order of their starts.\<close>

theorem interval_searches_correct:
  assumes "ivl_inv t"
  shows "lower_bound_interval t s = find (\<lambda>j. s \<le> ivl_start j) (ordered_intervals t)
    \<and> successor_interval t s = find (\<lambda>j. s < ivl_start j) (ordered_intervals t)
    \<and> predecessor_interval t s = find (\<lambda>j. ivl_start j < s) (rev (ordered_intervals t))
    \<and> ordered_intervals t = inorder t \<and> sorted_wrt (<) (map ivl_start (ordered_intervals t))"
  using search_finds[OF assms] assms by (simp add: ivl_inv_def)

theorem interval_searches_correct_witness:
  "lower_bound_interval (Node Tip (Ivl 1 3 ()) 2 (Node Tip (Ivl 5 6 ()) 1 Tip)) 2 = Some (Ivl 5 6 ())"
proof -
  have "ivl_inv (Node Tip (Ivl 1 3 ()) 2 (Node Tip (Ivl 5 6 ()) 1 Tip))" by (simp add: ivl_inv_def)
  from interval_searches_correct[OF this, of 2] show ?thesis by simp
qed

end
