(* ===== verification/Atom_Builder.thy ===== *)
theory Atom_Builder
  imports Atom_Intervals
begin

text \<open>
  \<open>ByteAtom\<close> and \<open>_AtomBuilder\<close> of \<open>tools/abi_artifact_parity.py\<close>: every byte of an artifact is
  assigned to a proof atom.  The builder is a record of the data, the locator prefix, the tree of
  assigned ranges and the number of claims; \<open>add\<close> and \<open>finish\<close> return it or the exception they raise.
\<close>

section \<open>Atoms\<close>

text \<open>The role is a string in the code; \<open>Unknown_Role\<close> stands for the strings it rejects.\<close>

datatype atom_role = Invariant | Allowed_Payload | Derived_Field | Derived_Padding
  | Unknown_Role string

fun role_name :: "atom_role \<Rightarrow> string" where
  "role_name Invariant = ''invariant''"
| "role_name Allowed_Payload = ''allowed_payload''"
| "role_name Derived_Field = ''derived_field''"
| "role_name Derived_Padding = ''derived_padding''"
| "role_name (Unknown_Role r) = r"

record byte_atom =
  a_locator :: string
  a_role :: atom_role
  a_offset :: int
  a_size :: int
  a_payload :: bytes
  a_depends_on :: "string list"
  a_note :: "string option"
  a_canonical_payload :: "bytes option"

text \<open>\<open>__post_init__\<close>.\<close>

definition atom_post_init :: "byte_atom \<Rightarrow> byte_atom res" where
  "atom_post_init a =
     (if \<not> (a_role a \<in> {Invariant, Allowed_Payload, Derived_Field, Derived_Padding})
      then Inl (ParityError (Some (a_locator a)) (''unknown atom role '' @ role_name (a_role a)))
      else if a_offset a < 0 \<or> a_size a < 0 \<or> blen (a_payload a) \<noteq> a_size a
      then Inl (ParityError (Some (a_locator a)) ''invalid atom range'')
      else if a_canonical_payload a \<noteq> None \<and> a_role a \<noteq> Derived_Field
      then Inl (ParityError (Some (a_locator a))
                  ''only derived fields may carry a canonical payload'')
      else Inr a)"

text \<open>The metadata tuple of an assigned range.\<close>

record atom_meta =
  m_locator :: string
  m_role :: atom_role
  m_depends_on :: "string list"
  m_note :: "string option"
  m_canonical_payload :: "bytes option"

section \<open>The builder\<close>

record atom_builder =
  b_data :: bytes
  b_prefix :: string
  b_root :: "atom_meta ivl_tree"
  b_claim_count :: int

definition MAX_ATOM_CLAIMS :: int where "MAX_ATOM_CLAIMS = 262144"

definition new_builder :: "bytes \<Rightarrow> string \<Rightarrow> atom_builder" where
  "new_builder data prefix = \<lparr>b_data = data, b_prefix = prefix, b_root = Tip, b_claim_count = 0\<rparr>"

text \<open>\<open>_require_range\<close>.\<close>

definition require_range :: "int \<Rightarrow> int \<Rightarrow> int \<Rightarrow> string \<Rightarrow> unit res" where
  "require_range n offset sz locator =
     (if offset < 0 \<or> sz < 0 \<or> offset > n \<or> sz > n - offset
      then Inl (ParityError (Some locator)
        (''range ['' @ show_int offset @ '', '' @ show_int (offset + sz) @ '') exceeds ''
          @ show_int n @ '' bytes''))
      else Inr ())"

text \<open>
  The loop of \<open>_overlaps\<close>: from the current node to its successors while they start before
  \<open>e\<close>.  It ends because the starts grow within the tree's intervals.
\<close>

function overlaps_loop :: "'v ivl_tree \<Rightarrow> int \<Rightarrow> int \<Rightarrow> 'v ivl option \<Rightarrow> 'v ivl list" where
  "overlaps_loop t s e None = []"
| "overlaps_loop t s e (Some c) =
     (if ivl_start c < e
      then (if ivl_end c > s then [c] else [])
             @ overlaps_loop t s e (successor_interval t (ivl_start c))
      else [])"
  by pat_completeness auto

termination
proof (relation "measure (\<lambda>(t, s, e, c). case c of None \<Rightarrow> 0
    | Some i \<Rightarrow> Suc (length (filter (\<lambda>j. ivl_start i < ivl_start j) (inorder t))))",
    goal_cases)
  case (2 t s e c)
  show ?case
  proof (cases "successor_interval t (ivl_start c)")
    case (Some d)
    have "length (filter (\<lambda>j. ivl_start d < ivl_start j) (inorder t))
        < length (filter (\<lambda>j. ivl_start c < ivl_start j) (inorder t))" (is "length (filter ?P _) < length (filter ?Q _)")
    proof -
      have d: "d \<in> set (inorder t)" "ivl_start c < ivl_start d"
        using successor_interval_in[OF Some] by auto
      have f: "filter ?P (inorder t) = filter ?P (filter ?Q (inorder t))"
        using d(2) by (auto intro!: filter_cong)
      have "d \<in> set (filter ?Q (inorder t))" using d by simp
      then have "length (filter ?P (filter ?Q (inorder t))) < length (filter ?Q (inorder t))"
        by (intro length_filter_less[of d]) simp_all
      then show ?thesis using f by simp
    qed
    then show ?thesis by (simp add: Some)
  qed simp
qed simp

definition builder_overlaps :: "atom_builder \<Rightarrow> int \<Rightarrow> int \<Rightarrow> atom_meta ivl list" where
  "builder_overlaps b s e =
     (let first = lower_bound_interval (b_root b) s;
          predecessor = predecessor_interval (b_root b) s;
          first = (case predecessor of
                     Some p \<Rightarrow> if ivl_end p > s then Some p else first
                   | None \<Rightarrow> first)
      in overlaps_loop (b_root b) s e first)"

text \<open>\<open>_put\<close>: merge with an equal left and right neighbour, then insert.\<close>

definition interval_put :: "'v ivl_tree \<Rightarrow> int \<Rightarrow> int \<Rightarrow> 'v \<Rightarrow> 'v ivl_tree res" where
  "interval_put root s0 e0 v =
     bind_r (case predecessor_interval root s0 of
               Some p \<Rightarrow> if ivl_end p = s0 \<and> ivl_value p = v
                 then bind_r (remove_interval root (ivl_start p)) (\<lambda>root'. Inr (root', ivl_start p))
                 else Inr (root, s0)
             | None \<Rightarrow> Inr (root, s0)) (\<lambda>(root, s).
     bind_r (case lower_bound_interval root s of
               Some q \<Rightarrow> if ivl_start q = e0 \<and> ivl_value q = v
                 then bind_r (remove_interval root (ivl_start q)) (\<lambda>root'. Inr (root', ivl_end q))
                 else Inr (root, e0)
             | None \<Rightarrow> Inr (root, e0)) (\<lambda>(root, e).
     insert_interval root (Ivl s e v)))"

text \<open>One round of the loop of \<open>add\<close> over the prior ranges.\<close>

definition carve_interval :: "int \<Rightarrow> int \<Rightarrow> 'v ivl \<Rightarrow> 'v ivl_tree \<Rightarrow> 'v ivl_tree res" where
  "carve_interval s e p root =
     bind_r (remove_interval root (ivl_start p)) (\<lambda>root.
     bind_r (if ivl_start p < s then insert_interval root (Ivl (ivl_start p) s (ivl_value p))
             else Inr root) (\<lambda>root.
     if ivl_end p > e then insert_interval root (Ivl e (ivl_end p) (ivl_value p)) else Inr root))"

fun check_replaceable :: "atom_meta ivl list \<Rightarrow> int \<Rightarrow> string \<Rightarrow> unit res" where
  "check_replaceable [] s full = Inr ()"
| "check_replaceable (p # ps) s full =
     (if m_role (ivl_value p) \<noteq> Invariant
      then Inl (ParityError (Some full) (''cannot replace '' @ role_name (m_role (ivl_value p))
             @ '' atom at byte '' @ show_int (max s (ivl_start p))))
      else check_replaceable ps s full)"

definition full_locator :: "string \<Rightarrow> string \<Rightarrow> string" where
  "full_locator prefix locator = (if prefix \<noteq> [] then prefix @ ''.'' @ locator else locator)"

definition builder_add :: "atom_builder \<Rightarrow> int \<Rightarrow> int \<Rightarrow> string \<Rightarrow> atom_role \<Rightarrow> string list
    \<Rightarrow> string option \<Rightarrow> bytes option \<Rightarrow> bool \<Rightarrow> atom_builder res" where
  "builder_add b start sz locator role depends_on nt canonical_payload replace =
     bind_r (require_range (blen (b_data b)) start sz locator) (\<lambda>_.
     if sz = 0 then Inr b
     else let full = full_locator (b_prefix b) locator;
              v = \<lparr>m_locator = full, m_role = role, m_depends_on = depends_on, m_note = nt,
                   m_canonical_payload = canonical_payload\<rparr>;
              e = start + sz;
              overlaps = builder_overlaps b start e
       in if \<not> replace \<and> overlaps \<noteq> []
          then Inl (ParityError (Some full)
                 (''byte '' @ show_int (max start (ivl_start (hd overlaps)))
                    @ '' is already assigned to '' @ m_locator (ivl_value (hd overlaps))))
          else bind_r (if replace then check_replaceable overlaps start full else Inr ()) (\<lambda>_.
          if b_claim_count b \<ge> MAX_ATOM_CLAIMS
          then Inl (ParityError (Some full)
                 (''non-empty atom claim limit '' @ show_int MAX_ATOM_CLAIMS @ '' exceeded''))
          else bind_r (fold_r (carve_interval start e) overlaps (b_root b)) (\<lambda>root.
               bind_r (interval_put root start e v) (\<lambda>root.
               Inr (b\<lparr>b_root := root, b_claim_count := b_claim_count b + 1\<rparr>)))))"

text \<open>The two shapes of call the parsers use most: a plain claim, and a replacing derived field.\<close>

abbreviation add_plain :: "atom_builder \<Rightarrow> int \<Rightarrow> int \<Rightarrow> string \<Rightarrow> atom_builder res" where
  "add_plain b start sz locator \<equiv> builder_add b start sz locator Invariant [] None None False"

abbreviation add_derived ::
    "atom_builder \<Rightarrow> int \<Rightarrow> int \<Rightarrow> string \<Rightarrow> string list \<Rightarrow> atom_builder res" where
  "add_derived b start sz locator deps \<equiv>
     builder_add b start sz locator Derived_Field deps None None True"

section \<open>Finishing\<close>

fun uncovered_ranges :: "'v ivl list \<Rightarrow> int \<Rightarrow> int \<Rightarrow> (int \<times> int) list" where
  "uncovered_ranges [] cursor n = (if cursor < n then [(cursor, n - cursor)] else [])"
| "uncovered_ranges (i # rest) cursor n =
     (if cursor < ivl_start i then [(cursor, ivl_start i - cursor)] else [])
       @ uncovered_ranges rest (ivl_end i) n"

definition show_uncovered :: "(int \<times> int) list \<Rightarrow> string" where
  "show_uncovered us = ''('' @ join_with '', '' (map (\<lambda>(off, sz).
       ''{'' @ [CHR 0x27] @ ''offset'' @ [CHR 0x27] @ '': '' @ show_int off @ '', ''
         @ [CHR 0x27] @ ''size'' @ [CHR 0x27] @ '': '' @ show_int sz @ ''}'') us)
     @ (if length us = 1 then '',)'' else '')'')"

fun finish_atoms :: "bytes \<Rightarrow> atom_meta ivl list \<Rightarrow> (string \<times> int) list \<Rightarrow> byte_atom list res" where
  "finish_atoms data [] occurrences = Inr []"
| "finish_atoms data (i # rest) occurrences =
     (let v = ivl_value i;
          occurrence = (case map_of occurrences (m_locator v) of None \<Rightarrow> 0 | Some n \<Rightarrow> n);
          locator = (if occurrence = 0 then m_locator v
                     else m_locator v @ ''#'' @ show_int occurrence)
      in bind_r (atom_post_init
           \<lparr>a_locator = locator, a_role = m_role v, a_offset = ivl_start i,
            a_size = ivl_end i - ivl_start i,
            a_payload = py_slice data (ivl_start i) (ivl_end i),
            a_depends_on = m_depends_on v, a_note = m_note v,
            a_canonical_payload = m_canonical_payload v\<rparr>) (\<lambda>a.
         bind_r (finish_atoms data rest (dict_set (m_locator v) (occurrence + 1) occurrences)) (\<lambda>as.
         Inr (a # as))))"

definition builder_finish :: "atom_builder \<Rightarrow> byte_atom list res" where
  "builder_finish b =
     (let intervals = ordered_intervals (b_root b);
          uncovered = uncovered_ranges intervals 0 (blen (b_data b))
      in if uncovered \<noteq> []
         then Inl (ParityError (Some (b_prefix b))
                (''uncovered byte ranges: '' @ show_uncovered uncovered))
         else bind_r (finish_atoms (b_data b) intervals []) (\<lambda>atoms.
              if \<not> distinct (map a_locator atoms)
              then Inl (ParityError (Some (b_prefix b)) ''atom locators are not unique'')
              else Inr atoms))"

section \<open>The invariant\<close>

definition builder_view :: "atom_builder \<Rightarrow> int \<Rightarrow> atom_meta \<Rightarrow> bool" where
  "builder_view b = covers (set (inorder (b_root b)))"

text \<open>
  The tree is an AVL tree of disjoint ranges inside the data; each claim adds at most two
  range starts.
\<close>

definition builder_inv :: "atom_builder \<Rightarrow> bool" where
  "builder_inv b \<longleftrightarrow> ivl_inv (b_root b) \<and> disjoint_ivls (set (inorder (b_root b)))
     \<and> (\<forall>x v. builder_view b x v \<longrightarrow> 0 \<le> x \<and> x < blen (b_data b))
     \<and> 0 \<le> b_claim_count b \<and> b_claim_count b \<le> MAX_ATOM_CLAIMS
     \<and> blen (inorder (b_root b)) \<le> 2 * b_claim_count b"

lemma builder_inv_new: "builder_inv (new_builder data prefix)"
  by (simp add: builder_inv_def new_builder_def ivl_inv_def disjoint_ivls_def builder_view_def
      covers_def MAX_ATOM_CLAIMS_def)

lemma interval_bounds:
  assumes "builder_inv b" "i \<in> set (inorder (b_root b))"
  shows "0 \<le> ivl_start i" "ivl_start i < ivl_end i" "ivl_end i \<le> blen (b_data b)"
proof -
  show lt: "ivl_start i < ivl_end i"
    using assms by (auto simp: builder_inv_def dest: disjoint_ivls_nonempty)
  have "builder_view b (ivl_start i) (ivl_value i)" "builder_view b (ivl_end i - 1) (ivl_value i)"
    unfolding builder_view_def covers_def using assms(2) lt by force+
  then show "0 \<le> ivl_start i" "ivl_end i \<le> blen (b_data b)"
    using assms(1) unfolding builder_inv_def by force+
qed

section \<open>Carving and putting, on the set of intervals\<close>

lemmas store_rem = ivl.rem_item [simplified]
lemmas store_ins = ivl.ins_item [simplified]
lemmas store_succ = ivl.succ_split [simplified]
lemmas store_first = ivl.first_overlap [simplified]
lemmas store_sorted = ivl.items_sorted [simplified]

lemma overlaps_loop_split:
  assumes "ivl_inv t" "disjoint_ivls (set (inorder t))" "inorder t = xs @ c # ys"
  shows "overlaps_loop t s e (Some c) = filter (overlaps_range s e) (c # ys)"
  using assms(3)
proof (induction ys arbitrary: xs c)
  case Nil
  then show ?case using store_succ[OF assms(1) Nil] by (auto simp: overlaps_range_def)
next
  case (Cons d ds)
  have nxt: "successor_interval t (ivl_start c) = Some d"
    using store_succ[OF assms(1) Cons.prems] by simp
  have IH: "overlaps_loop t s e (Some d) = filter (overlaps_range s e) (d # ds)"
    using Cons.IH[of "xs @ [c]" d] Cons.prems by simp
  show ?case
  proof (cases "ivl_start c < e")
    case True
    then show ?thesis using nxt IH by (simp add: overlaps_range_def[of s e c])
  next
    case False
    have "\<forall>j \<in> set (d # ds). ivl_start c < ivl_start j"
      using store_sorted[OF assms(1)] Cons.prems by (auto simp: sorted_wrt_append)
    then have "\<forall>j \<in> set (d # ds). \<not> overlaps_range s e j"
      using False by (auto simp: overlaps_range_def)
    then have "filter (overlaps_range s e) (d # ds) = []" by (subst filter_empty_conv)
    then show ?thesis using False by (simp add: overlaps_range_def[of s e c])
  qed
qed

lemma builder_overlaps_filter:
  assumes "ivl_inv (b_root b)" "disjoint_ivls (set (inorder (b_root b)))"
  shows "builder_overlaps b s e = filter (overlaps_range s e) (inorder (b_root b))"
proof (cases "find (\<lambda>j. s < ivl_end j) (inorder (b_root b))")
  case None
  then have "filter (overlaps_range s e) (inorder (b_root b)) = []"
    by (auto simp: filter_empty_conv overlaps_range_def find_None_iff)
  then show ?thesis
    using None store_first[OF assms, of s] by (simp add: builder_overlaps_def Let_def)
next
  case (Some c)
  then obtain k where k: "k < length (inorder (b_root b))" "s < ivl_end c"
    "c = inorder (b_root b) ! k" "\<forall>j<k. \<not> s < ivl_end (inorder (b_root b) ! j)"
    by (auto simp: find_Some_iff)
  let ?xs = "take k (inorder (b_root b))" and ?ys = "drop (Suc k) (inorder (b_root b))"
  have split: "inorder (b_root b) = ?xs @ c # ?ys" using k by (simp add: id_take_nth_drop)
  have "filter (overlaps_range s e) ?xs = []"
    using k(1,4) by (auto simp: filter_empty_conv overlaps_range_def in_set_conv_nth)
  then have "filter (overlaps_range s e) (inorder (b_root b)) = filter (overlaps_range s e) (c # ?ys)"
    by (subst split) simp
  then show ?thesis
    using overlaps_loop_split[OF assms split, of s e] store_first[OF assms, of s] Some
    by (simp add: builder_overlaps_def Let_def)
qed

text \<open>What a step that only edits the range \<open>[s, e)\<close> keeps.\<close>

definition outside_same :: "int \<Rightarrow> int \<Rightarrow> 'v ivl set \<Rightarrow> 'v ivl set \<Rightarrow> bool" where
  "outside_same s e S T \<longleftrightarrow> disjoint_ivls T \<and> ivl_start ` T \<subseteq> insert e (ivl_start ` S)
     \<and> (\<forall>x v. \<not> (s \<le> x \<and> x < e) \<longrightarrow> covers T x v = covers S x v)"

definition cut_pieces :: "int \<Rightarrow> int \<Rightarrow> 'v ivl \<Rightarrow> 'v ivl set" where
  "cut_pieces s e p =
     (if ivl_start p < s then {(Ivl (ivl_start p) s (ivl_value p))} else {})
       \<union> (if ivl_end p > e then {(Ivl e (ivl_end p) (ivl_value p))} else {})"

lemma disjoint_refine:
  assumes "disjoint_ivls S" "p \<in> S" "disjoint_ivls Q"
    and "\<And>q. q \<in> Q \<Longrightarrow> ivl_start p \<le> ivl_start q \<and> ivl_end q \<le> ivl_end p"
  shows "disjoint_ivls ((S - {p}) \<union> Q)"
proof -
  have "apart i q" if "i \<in> S - {p}" "q \<in> Q" for i q
    using disjoint_ivls_apart[OF assms(1), of i p] assms(2,4) that unfolding apart_def by fastforce
  then have "pairwise apart ((S - {p}) \<union> Q)"
    using assms(1,3) apart_sym unfolding disjoint_ivls_def pairwise_def by blast
  then show ?thesis using assms(1,3) unfolding disjoint_ivls_def by blast
qed

lemma cut_pieces_disjoint: "s < e \<Longrightarrow> disjoint_ivls (cut_pieces s e p)"
  unfolding cut_pieces_def disjoint_ivls_def pairwise_def apart_def
  by (simp split: if_splits)

lemma carve_interval_correct:
  assumes "ivl_inv t" "disjoint_ivls (set (inorder t))" "p \<in> set (inorder t)" "s < e"
    and "overlaps_range s e p"
  shows "\<exists>t'. carve_interval s e p t = Inr t' \<and> ivl_inv t'
    \<and> set (inorder t') = (set (inorder t) - {p}) \<union> cut_pieces s e p
    \<and> outside_same s e (set (inorder t)) (set (inorder t'))"
proof -
  let ?S = "set (inorder t)"
  let ?l = "(Ivl (ivl_start p) s (ivl_value p))" and ?r = "(Ivl e (ivl_end p) (ivl_value p))"
  have dis: "disjoint_ivls ((?S - {p}) \<union> cut_pieces s e p)"
  proof (rule disjoint_refine[OF assms(2,3) cut_pieces_disjoint[OF assms(4)]])
    fix q assume "q \<in> cut_pieces s e p"
    then show "ivl_start p \<le> ivl_start q \<and> ivl_end q \<le> ivl_end p"
      using assms(4,5) by (auto simp: cut_pieces_def overlaps_range_def split: if_splits)
  qed
  have notin: "q \<notin> ?S - {p}" if "ivl_start p \<le> ivl_start q" "ivl_end q \<le> ivl_end p"
    "ivl_start q < ivl_end q" for q
    using disjoint_ivls_apart[OF assms(2,3), of q] that unfolding apart_def by auto
  obtain t1 where t1: "remove_interval t (ivl_start p) = Inr t1" "ivl_inv t1"
    "set (inorder t1) = ?S - {p}" using store_rem[OF assms(1,3)] by auto
  obtain t2 where t2: "(if ivl_start p < s then insert_interval t1 ?l else Inr t1) = Inr t2"
    "ivl_inv t2" "set (inorder t2) = (?S - {p}) \<union> (if ivl_start p < s then {?l} else {})"
  proof (cases "ivl_start p < s")
    case True
    have "?l \<notin> set (inorder t1)" "disjoint_ivls (insert ?l (set (inorder t1)))"
    proof -
      have "insert ?l (?S - {p}) \<subseteq> (?S - {p}) \<union> cut_pieces s e p"
        using True by (auto simp: cut_pieces_def)
      then show "disjoint_ivls (insert ?l (set (inorder t1)))"
        unfolding t1(3) by (rule disjoint_ivls_subset[OF dis])
      show "?l \<notin> set (inorder t1)"
        unfolding t1(3) using True assms(5) notin[of ?l] by (simp add: overlaps_range_def)
    qed
    from store_ins[OF t1(2) this(2,1)] True t1 that show thesis by auto
  qed (use t1 that in auto)
  obtain t3 where t3: "(if ivl_end p > e then insert_interval t2 ?r else Inr t2) = Inr t3"
    "ivl_inv t3" "set (inorder t3) = (?S - {p}) \<union> cut_pieces s e p"
  proof (cases "ivl_end p > e")
    case True
    have "?r \<notin> set (inorder t2)" "disjoint_ivls (insert ?r (set (inorder t2)))"
      using True t2(3) assms(4,5) notin[of ?r] dis
      by (auto simp: overlaps_range_def cut_pieces_def Un_commute)
    from store_ins[OF t2(2) this(2,1)] True t2 that show thesis by (auto simp: cut_pieces_def)
  qed (use t2 that in \<open>auto simp: cut_pieces_def\<close>)
  have c: "carve_interval s e p t = Inr t3"
    using t1(1) t2(1) t3(1) by (simp add: carve_interval_def)
  have "covers (set (inorder t3)) x v = covers ?S x v" if "\<not> (s \<le> x \<and> x < e)" for x v
  proof -
    have "covers ?S x v \<longleftrightarrow> covers (?S - {p}) x v
        \<or> ivl_start p \<le> x \<and> x < ivl_end p \<and> ivl_value p = v"
      using covers_insert[of p "?S - {p}"] assms(3) by (auto simp: insert_absorb)
    moreover have "covers (cut_pieces s e p) x v
        \<longleftrightarrow> ivl_start p \<le> x \<and> x < ivl_end p \<and> ivl_value p = v"
      using that assms(5) by (auto simp: cut_pieces_def covers_def overlaps_range_def)
    ultimately show ?thesis unfolding t3(3) by (auto simp: covers_def)
  qed
  moreover have "ivl_start ` set (inorder t3) \<subseteq> insert e (ivl_start ` ?S)"
    unfolding t3(3) using assms(3) by (auto simp: cut_pieces_def)
  ultimately show ?thesis
    using c t3 dis unfolding outside_same_def by simp
qed

lemma outside_same_trans:
  "outside_same s e S T \<Longrightarrow> outside_same s e T U \<Longrightarrow> outside_same s e S U"
  unfolding outside_same_def by (meson insert_subset subset_insertI subset_trans insertI1)

text \<open>The whole loop of \<open>add\<close>: nothing of the range is left, nothing outside it changed.\<close>

lemma carve_loop_correct:
  assumes "ivl_inv t" "disjoint_ivls (set (inorder t))" "s < e" "distinct ps"
    and "set ps = {p \<in> set (inorder t). overlaps_range s e p}"
  shows "\<exists>t'. fold_r (carve_interval s e) ps t = Inr t' \<and> ivl_inv t'
    \<and> outside_same s e (set (inorder t)) (set (inorder t'))
    \<and> (\<forall>i \<in> set (inorder t'). \<not> overlaps_range s e i)"
  using assms(1,2,4,5)
proof (induction ps arbitrary: t)
  case Nil
  then show ?case by (auto simp: outside_same_def)
next
  case (Cons p ps)
  have p: "p \<in> set (inorder t)" "overlaps_range s e p" using Cons.prems(4) by auto
  obtain t1 where t1: "carve_interval s e p t = Inr t1" "ivl_inv t1"
    "set (inorder t1) = (set (inorder t) - {p}) \<union> cut_pieces s e p"
    "outside_same s e (set (inorder t)) (set (inorder t1))"
    using carve_interval_correct[OF Cons.prems(1,2) p(1) assms(3) p(2)] by auto
  have "\<not> overlaps_range s e q" if "q \<in> cut_pieces s e p" for q
    using that by (auto simp: cut_pieces_def overlaps_range_def split: if_splits)
  then have "set ps = {q \<in> set (inorder t1). overlaps_range s e q}"
    using Cons.prems(3,4) t1(3) by auto
  moreover have "disjoint_ivls (set (inorder t1))" using t1(4) by (simp add: outside_same_def)
  ultimately obtain t2 where "fold_r (carve_interval s e) ps t1 = Inr t2" "ivl_inv t2"
    "outside_same s e (set (inorder t1)) (set (inorder t2))"
    "\<forall>i \<in> set (inorder t2). \<not> overlaps_range s e i"
    using Cons.IH[OF t1(2)] Cons.prems(3) by auto
  then show ?case using t1 outside_same_trans by fastforce
qed

text \<open>
  Growing the range \<open>[s, e)\<close> by a neighbour with the same value: the ranges left over and the
  grown range together cover what they covered before.
\<close>

definition grown :: "'v ivl set \<Rightarrow> int \<Rightarrow> int \<Rightarrow> 'v \<Rightarrow> 'v ivl set \<Rightarrow> int \<Rightarrow> int \<Rightarrow> bool" where
  "grown S s e v T s' e' \<longleftrightarrow> disjoint_ivls T \<and> T \<subseteq> S \<and> s' < e'
     \<and> s' \<in> insert s (ivl_start ` S) \<and> (\<forall>i \<in> T. \<not> overlaps_range s' e' i)
     \<and> (\<forall>x w. (covers T x w \<or> s' \<le> x \<and> x < e' \<and> w = v)
              = (covers S x w \<or> s \<le> x \<and> x < e \<and> w = v))"

lemma grown_refl:
  "disjoint_ivls S \<Longrightarrow> s < e \<Longrightarrow> \<forall>i \<in> S. \<not> overlaps_range s e i \<Longrightarrow> grown S s e v S s e"
  by (simp add: grown_def)

lemma grown_step:
  assumes g: "grown S s e v T s1 e1" and q: "q \<in> T" "ivl_value q = v"
    and adj: "ivl_end q = s1 \<and> s2 = ivl_start q \<and> e2 = e1 \<or> ivl_start q = e1 \<and> s2 = s1 \<and> e2 = ivl_end q"
  shows "grown S s e v (T - {q}) s2 e2"
proof -
  have T: "disjoint_ivls T" "T \<subseteq> S" "s1 < e1" "\<forall>i \<in> T. \<not> overlaps_range s1 e1 i"
    using g by (simp_all add: grown_def)
  have qlt: "ivl_start q < ivl_end q" using T(1) q(1) by (rule disjoint_ivls_nonempty)
  have no: "\<not> overlaps_range s2 e2 i" if "i \<in> T - {q}" for i
    using disjoint_ivls_apart[OF T(1), of i q] disjoint_ivls_nonempty[OF T(1), of i] T(4) that q(1) adj
    unfolding apart_def overlaps_range_def by fastforce
  have cov: "(covers (T - {q}) x w \<or> s2 \<le> x \<and> x < e2 \<and> w = v)
      = (covers T x w \<or> s1 \<le> x \<and> x < e1 \<and> w = v)" for x w
    using covers_insert[of q "T - {q}" x w] q adj qlt T(3) by (auto simp: insert_absorb)
  have "s2 \<in> insert s (ivl_start ` S)" using g adj q(1) T(2) by (auto simp: grown_def)
  moreover have "s2 < e2" using adj qlt T(3) by auto
  moreover have "disjoint_ivls (T - {q})" using T(1) by (rule disjoint_ivls_subset) auto
  ultimately show ?thesis
    using g no cov T(2) unfolding grown_def by (simp add: subset_iff)
qed

lemma interval_put_correct:
  assumes "ivl_inv t" "disjoint_ivls (set (inorder t))" "s < e"
    and "\<forall>i \<in> set (inorder t). \<not> overlaps_range s e i"
  shows "\<exists>t'. interval_put t s e v = Inr t' \<and> ivl_inv t' \<and> disjoint_ivls (set (inorder t'))
    \<and> ivl_start ` set (inorder t') \<subseteq> insert s (ivl_start ` set (inorder t))
    \<and> (\<forall>x w. covers (set (inorder t')) x w
         = (if s \<le> x \<and> x < e then w = v else covers (set (inorder t)) x w))"
proof -
  let ?S = "set (inorder t)"
  obtain t1 s1 where t1: "(case predecessor_interval t s of
               Some p \<Rightarrow> if ivl_end p = s \<and> ivl_value p = v
                 then bind_r (remove_interval t (ivl_start p)) (\<lambda>root'. Inr (root', ivl_start p))
                 else Inr (t, s)
             | None \<Rightarrow> Inr (t, s)) = Inr (t1, s1)"
    "ivl_inv t1" "grown ?S s e v (set (inorder t1)) s1 e"
  proof (cases "\<exists>p. predecessor_interval t s = Some p \<and> ivl_end p = s \<and> ivl_value p = v")
    case True
    then obtain p where p: "predecessor_interval t s = Some p" "ivl_end p = s" "ivl_value p = v"
      by blast
    have "p \<in> ?S" using p(1) search_finds(3)[OF assms(1)] by (auto dest: find_SomeD)
    then obtain t1 where "remove_interval t (ivl_start p) = Inr t1" "ivl_inv t1"
      "set (inorder t1) = ?S - {p}" using store_rem[OF assms(1)] by blast
    then show thesis
      using that p grown_step[OF grown_refl[OF assms(2-4), of v] \<open>p \<in> ?S\<close> p(3)] by simp
  next
    case False
    then show thesis using that assms grown_refl[OF assms(2-4), of v]
      by (cases "predecessor_interval t s") auto
  qed
  obtain t2 e2 where t2: "(case lower_bound_interval t1 s1 of
               Some q \<Rightarrow> if ivl_start q = e \<and> ivl_value q = v
                 then bind_r (remove_interval t1 (ivl_start q)) (\<lambda>root'. Inr (root', ivl_end q))
                 else Inr (t1, e)
             | None \<Rightarrow> Inr (t1, e)) = Inr (t2, e2)"
    "ivl_inv t2" "grown ?S s e v (set (inorder t2)) s1 e2"
  proof (cases "\<exists>q. lower_bound_interval t1 s1 = Some q \<and> ivl_start q = e \<and> ivl_value q = v")
    case True
    then obtain q where q: "lower_bound_interval t1 s1 = Some q" "ivl_start q = e" "ivl_value q = v"
      by blast
    have "q \<in> set (inorder t1)"
      using q(1) search_finds(1)[OF t1(2)] by (auto dest: find_SomeD)
    then obtain t2 where "remove_interval t1 (ivl_start q) = Inr t2" "ivl_inv t2"
      "set (inorder t2) = set (inorder t1) - {q}" using store_rem[OF t1(2)] by blast
    then show thesis using that q grown_step[OF t1(3) \<open>q \<in> set (inorder t1)\<close> q(3)] by simp
  next
    case False
    then show thesis using that t1 by (cases "lower_bound_interval t1 s1") auto
  qed
  let ?i = "Ivl s1 e2 v"
  have g: "disjoint_ivls (set (inorder t2))" "set (inorder t2) \<subseteq> ?S" "s1 < e2"
    "s1 \<in> insert s (ivl_start ` ?S)" "\<forall>i \<in> set (inorder t2). \<not> overlaps_range s1 e2 i"
    "\<And>x w. (covers (set (inorder t2)) x w \<or> s1 \<le> x \<and> x < e2 \<and> w = v)
       = (covers ?S x w \<or> s \<le> x \<and> x < e \<and> w = v)"
    using t2(3) by (auto simp: grown_def)
  have dis: "disjoint_ivls (insert ?i (set (inorder t2)))"
    using g(1,3,5) by (fastforce simp: disjoint_ivls_insert apart_def overlaps_range_def)
  have new: "?i \<notin> set (inorder t2)" using g(3,5) by (auto simp: overlaps_range_def)
  obtain t3 where t3: "insert_interval t2 ?i = Inr t3" "ivl_inv t3"
    "set (inorder t3) = insert ?i (set (inorder t2))"
    using store_ins[OF t2(2) dis new] by auto
  have "interval_put t s e v = Inr t3" using t1(1) t2(1) t3(1) by (simp add: interval_put_def)
  moreover have "covers (set (inorder t3)) x w
      = (if s \<le> x \<and> x < e then w = v else covers ?S x w)" for x w
  proof -
    have "\<not> covers ?S x w" if "s \<le> x" "x < e"
      using assms(4) that by (auto simp: covers_def overlaps_range_def)
    then show ?thesis using g(6)[of x w] unfolding t3(3) covers_insert by auto
  qed
  moreover have "ivl_start ` set (inorder t3) \<subseteq> insert s (ivl_start ` ?S)"
    using t3(3) g(2,4) by auto
  ultimately show ?thesis using t3 dis by auto
qed

section \<open>The builder keeps its invariant and refines a map from bytes to metadata\<close>

definition new_meta :: "atom_builder \<Rightarrow> string \<Rightarrow> atom_role \<Rightarrow> string list \<Rightarrow> string option
    \<Rightarrow> bytes option \<Rightarrow> atom_meta" where
  "new_meta b locator role deps nt canonical =
     \<lparr>m_locator = full_locator (b_prefix b) locator, m_role = role, m_depends_on = deps,
      m_note = nt, m_canonical_payload = canonical\<rparr>"

text \<open>When \<open>add\<close> accepts a non-empty claim, in terms of the abstract view.\<close>

definition claim_allowed :: "atom_builder \<Rightarrow> int \<Rightarrow> int \<Rightarrow> bool \<Rightarrow> bool" where
  "claim_allowed b start sz replace \<longleftrightarrow>
     b_claim_count b < MAX_ATOM_CLAIMS
     \<and> (\<forall>x v. start \<le> x \<and> x < start + sz \<and> builder_view b x v \<longrightarrow> replace \<and> m_role v = Invariant)"

lemma require_range_ok [simp]:
  "require_range n offset sz locator = Inr () \<longleftrightarrow> 0 \<le> offset \<and> 0 \<le> sz \<and> offset + sz \<le> n"
  by (auto simp: require_range_def)

lemma require_range_eq [simp]:
  "0 \<le> offset \<Longrightarrow> 0 \<le> sz \<Longrightarrow> offset + sz \<le> n \<Longrightarrow> require_range n offset sz locator = Inr ()"
  by simp

lemma require_range_Inr [res_simps]:
  "require_range n offset sz locator = Inr u \<longleftrightarrow> 0 \<le> offset \<and> 0 \<le> sz \<and> offset + sz \<le> n"
  by (auto simp: require_range_def)

lemma check_replaceable_Inr [res_simps]:
  "check_replaceable ps s full = Inr u \<longleftrightarrow> (\<forall>p \<in> set ps. m_role (ivl_value p) = Invariant)"
  by (induction ps) auto

lemma covers_in_range:
  assumes "disjoint_ivls S" "s < e"
  shows "(\<exists>x. s \<le> x \<and> x < e \<and> covers S x v) \<longleftrightarrow> (\<exists>i \<in> S. overlaps_range s e i \<and> ivl_value i = v)"
proof
  assume "\<exists>i \<in> S. overlaps_range s e i \<and> ivl_value i = v"
  then obtain i where i: "i \<in> S" "overlaps_range s e i" "ivl_value i = v" by blast
  have "ivl_start i < ivl_end i" using assms(1) i(1) by (rule disjoint_ivls_nonempty)
  then have "s \<le> max s (ivl_start i) \<and> max s (ivl_start i) < e \<and> covers S (max s (ivl_start i)) v"
    using i assms(2) unfolding covers_def overlaps_range_def by (auto intro!: bexI[of _ i])
  then show "\<exists>x. s \<le> x \<and> x < e \<and> covers S x v" by blast
next
  assume "\<exists>x. s \<le> x \<and> x < e \<and> covers S x v"
  then obtain x i where "s \<le> x" "x < e" "i \<in> S" "ivl_start i \<le> x" "x < ivl_end i" "ivl_value i = v"
    by (auto simp: covers_def)
  then show "\<exists>i \<in> S. overlaps_range s e i \<and> ivl_value i = v"
    by (intro bexI[of _ i]) (auto simp: overlaps_range_def)
qed

lemma claim_allowed_overlaps:
  assumes "builder_inv b" "0 < sz"
  shows "claim_allowed b start sz replace \<longleftrightarrow> b_claim_count b < MAX_ATOM_CLAIMS
     \<and> (\<forall>p \<in> set (builder_overlaps b start (start + sz)).
          replace \<and> m_role (ivl_value p) = Invariant)"
proof -
  have "disjoint_ivls (set (inorder (b_root b)))" "ivl_inv (b_root b)"
    using assms(1) by (simp_all add: builder_inv_def)
  then have "(\<forall>x v. start \<le> x \<and> x < start + sz \<and> builder_view b x v \<longrightarrow> Q v)
      \<longleftrightarrow> (\<forall>p \<in> set (builder_overlaps b start (start + sz)). Q (ivl_value p))" for Q
    using covers_in_range[of "set (inorder (b_root b))" start "start + sz"] assms(2)
    unfolding builder_view_def by (simp add: builder_overlaps_filter) metis
  then show ?thesis unfolding claim_allowed_def by simp
qed

text \<open>
  A claim inside the data that meets no conflict is accepted: the invariant is kept, and the
  abstract map from bytes to metadata is overridden on exactly the claimed range.
\<close>

lemma builder_add_accepts:
  assumes inv: "builder_inv b" and rng: "0 \<le> start" "0 < sz" "start + sz \<le> blen (b_data b)"
    and ok: "claim_allowed b start sz replace"
  shows "\<exists>b'. builder_add b start sz locator role deps nt canonical replace = Inr b'
    \<and> builder_inv b' \<and> b_data b' = b_data b \<and> b_prefix b' = b_prefix b
    \<and> b_claim_count b' = b_claim_count b + 1
    \<and> (\<forall>x v. builder_view b' x v = (if start \<le> x \<and> x < start + sz
         then v = new_meta b locator role deps nt canonical else builder_view b x v))"
proof -
  let ?v = "new_meta b locator role deps nt canonical" and ?e = "start + sz"
  let ?os = "builder_overlaps b start ?e" and ?S = "set (inorder (b_root b))"
  have b: "ivl_inv (b_root b)" "disjoint_ivls ?S" using inv by (simp_all add: builder_inv_def)
  have lt: "start < ?e" using rng by simp
  have os: "?os = filter (overlaps_range start ?e) (inorder (b_root b))"
    using b by (rule builder_overlaps_filter)
  have "distinct (inorder (b_root b))"
    using b(1) by (auto simp: ivl_inv_def strict_sorted_iff distinct_map)
  then have "distinct ?os" "set ?os = {p \<in> ?S. overlaps_range start ?e p}" by (auto simp: os)
  from carve_loop_correct[OF b lt this] obtain t1 where
    t1: "fold_r (carve_interval start ?e) ?os (b_root b) = Inr t1" "ivl_inv t1"
      "outside_same start ?e ?S (set (inorder t1))"
      "\<forall>i \<in> set (inorder t1). \<not> overlaps_range start ?e i" by blast
  have dis1: "disjoint_ivls (set (inorder t1))" using t1(3) by (simp add: outside_same_def)
  from interval_put_correct[OF t1(2) dis1 lt t1(4), of ?v] obtain t2 where
    t2: "interval_put t1 start ?e ?v = Inr t2" "ivl_inv t2" "disjoint_ivls (set (inorder t2))"
      "ivl_start ` set (inorder t2) \<subseteq> insert start (ivl_start ` set (inorder t1))"
      "\<And>x w. covers (set (inorder t2)) x w
         = (if start \<le> x \<and> x < ?e then w = ?v else covers (set (inorder t1)) x w)"
    by blast
  define b' where "b' = b\<lparr>b_root := t2, b_claim_count := b_claim_count b + 1\<rparr>"
  have "replace \<or> ?os = []" "b_claim_count b < MAX_ATOM_CLAIMS"
    "\<forall>p \<in> set ?os. m_role (ivl_value p) = Invariant"
    using ok claim_allowed_overlaps[OF inv rng(2)] by (auto simp: neq_Nil_conv)
  then have "check_replaceable ?os start (full_locator (b_prefix b) locator) = Inr ()"
    "\<not> (\<not> replace \<and> ?os \<noteq> [])" "\<not> MAX_ATOM_CLAIMS \<le> b_claim_count b"
    by (auto simp: check_replaceable_Inr)
  then have add: "builder_add b start sz locator role deps nt canonical replace = Inr b'"
    using rng t1(1) t2(1) unfolding builder_add_def Let_def new_meta_def[symmetric] b'_def
    by (cases replace) simp_all
  have view: "builder_view b' x w = (if start \<le> x \<and> x < ?e then w = ?v else builder_view b x w)" for x w
    using t2(5) t1(3) by (simp add: builder_view_def b'_def outside_same_def)
  have len: "length (inorder t) = card (ivl_start ` set (inorder t))"
    if "ivl_inv t" for t :: "atom_meta ivl_tree"
    using that distinct_card[of "starts t"] by (simp add: ivl_inv_def strict_sorted_iff)
  have "ivl_start ` set (inorder t2) \<subseteq> insert start (insert ?e (ivl_start ` ?S))"
    using t2(4) t1(3) by (auto simp: outside_same_def)
  then have "card (ivl_start ` set (inorder t2)) \<le> card (insert start (insert ?e (ivl_start ` ?S)))"
    by (intro card_mono) simp_all
  also have "\<dots> \<le> Suc (Suc (card (ivl_start ` ?S)))"
    by (simp add: card_insert_if)
  finally have "length (inorder t2) \<le> Suc (Suc (length (inorder (b_root b))))"
    using len[OF t2(2)] len[OF b(1)] by simp
  then have "builder_inv b'"
    using inv \<open>b_claim_count b < MAX_ATOM_CLAIMS\<close> t2(2,3) rng view
    unfolding builder_inv_def by (auto simp: b'_def blen_def)
  then show ?thesis using add view unfolding b'_def by auto
qed

text \<open>Every other non-empty claim raises \<open>ParityError\<close>, never an assertion.\<close>

lemma builder_add_refuses:
  assumes inv: "builder_inv b" and sz: "sz \<noteq> 0"
    and bad: "\<not> (0 \<le> start \<and> 0 < sz \<and> start + sz \<le> blen (b_data b) \<and> claim_allowed b start sz replace)"
  shows "\<exists>l m. builder_add b start sz locator role deps nt canonical replace = Inl (ParityError l m)"
proof (cases "0 \<le> start \<and> 0 \<le> sz \<and> start + sz \<le> blen (b_data b)")
  case False
  then show ?thesis by (auto simp: builder_add_def require_range_def)
next
  case True
  let ?os = "builder_overlaps b start (start + sz)"
  have c: "\<not> claim_allowed b start sz replace" "0 < sz" using bad sz True by auto
  have chk: "(\<exists>l m. check_replaceable ps s full = Inl (ParityError l m))
      \<or> (\<forall>p \<in> set ps. m_role (ivl_value p) = Invariant)" for ps s full
    by (induction ps) auto
  consider "\<not> replace" "?os \<noteq> []" | "replace" "\<exists>p \<in> set ?os. m_role (ivl_value p) \<noteq> Invariant"
    | "MAX_ATOM_CLAIMS \<le> b_claim_count b" "replace \<or> ?os = []"
    using c claim_allowed_overlaps[OF inv] by fastforce
  then show ?thesis
  proof cases
    case 1
    then show ?thesis using True sz by (simp add: builder_add_def Let_def)
  next
    case 2
    then show ?thesis using True sz chk[of ?os start "full_locator (b_prefix b) locator"]
      by (auto simp: builder_add_def Let_def)
  next
    case 3
    let ?chk = "if replace then check_replaceable ?os start (full_locator (b_prefix b) locator) else Inr ()"
    have "?chk = Inr () \<or> (\<exists>l m. ?chk = Inl (ParityError l m))"
      using chk[of ?os start "full_locator (b_prefix b) locator"] by (auto simp: check_replaceable_Inr)
    then show ?thesis using True sz 3 unfolding builder_add_def Let_def by auto
  qed
qed

lemma builder_add_empty:
  "builder_add b start 0 locator role deps nt canonical replace = Inr b' \<longleftrightarrow>
     0 \<le> start \<and> start \<le> blen (b_data b) \<and> b' = b"
  by (auto simp: builder_add_def res_simps)

lemma builder_add_Inr:
  assumes "builder_inv b"
    and "builder_add b start sz locator role deps nt canonical replace = Inr b'"
  shows "builder_inv b'" "b_data b' = b_data b" "b_prefix b' = b_prefix b"
    "0 \<le> start" "0 \<le> sz" "start + sz \<le> blen (b_data b)"
    "sz \<noteq> 0 \<longrightarrow> claim_allowed b start sz replace"
    "builder_view b' x v = (if start \<le> x \<and> x < start + sz
         then v = new_meta b locator role deps nt canonical else builder_view b x v)"
proof -
  have "builder_inv b' \<and> b_data b' = b_data b \<and> b_prefix b' = b_prefix b \<and> 0 \<le> start \<and> 0 \<le> sz
    \<and> start + sz \<le> blen (b_data b) \<and> (sz \<noteq> 0 \<longrightarrow> claim_allowed b start sz replace)
    \<and> (builder_view b' x v = (if start \<le> x \<and> x < start + sz
         then v = new_meta b locator role deps nt canonical else builder_view b x v))"
  proof (cases "sz = 0")
    case True
    then show ?thesis using assms by (auto simp: builder_add_empty)
  next
    case False
    have c: "0 \<le> start" "0 < sz" "start + sz \<le> blen (b_data b)" "claim_allowed b start sz replace"
      using builder_add_refuses[OF assms(1) False, where start = start and replace = replace
          and locator = locator and role = role and deps = deps and canonical = canonical
          and nt = nt] assms(2) by force+
    from builder_add_accepts[OF assms(1) c, where locator = locator and role = role and deps = deps
        and canonical = canonical and nt = nt]
    obtain b'' where "builder_add b start sz locator role deps nt canonical replace = Inr b''"
      "builder_inv b''" "b_data b'' = b_data b" "b_prefix b'' = b_prefix b"
      "\<forall>x v. builder_view b'' x v = (if start \<le> x \<and> x < start + sz
         then v = new_meta b locator role deps nt canonical else builder_view b x v)"
      by blast
    then show ?thesis using assms(2) c by simp
  qed
  then show "builder_inv b'" "b_data b' = b_data b" "b_prefix b' = b_prefix b"
    "0 \<le> start" "0 \<le> sz" "start + sz \<le> blen (b_data b)"
    "sz \<noteq> 0 \<longrightarrow> claim_allowed b start sz replace"
    "builder_view b' x v = (if start \<le> x \<and> x < start + sz
         then v = new_meta b locator role deps nt canonical else builder_view b x v)"
    by blast+
qed

section \<open>Finishing yields a tiling\<close>

text \<open>The atoms lie next to each other, none is empty, and each carries its slice of the data.\<close>

fun tiles :: "bytes \<Rightarrow> int \<Rightarrow> byte_atom list \<Rightarrow> bool" where
  "tiles data pos [] = (pos = blen data)"
| "tiles data pos (a # as) =
     (a_offset a = pos \<and> 0 < a_size a \<and> pos + a_size a \<le> blen data
      \<and> a_payload a = py_slice data pos (pos + a_size a) \<and> tiles data (pos + a_size a) as)"

lemma tiles_concat:
  "tiles data pos as \<Longrightarrow> 0 \<le> pos \<Longrightarrow> concat (map a_payload as) = py_slice data pos (blen data)"
proof (induction as arbitrary: pos)
  case Nil
  then show ?case by (simp add: py_slice_def py_bound_def)
next
  case (Cons a as)
  moreover from this have "concat (map a_payload as) = py_slice data (pos + a_size a) (blen data)"
    by (intro Cons.IH) auto
  ultimately show ?case using py_slice_join[of pos "pos + a_size a" "blen data" data] by simp
qed

lemma tiles_start: "tiles data pos as \<Longrightarrow> a \<in> set as \<Longrightarrow>
    pos \<le> a_offset a \<and> 0 < a_size a \<and> a_offset a + a_size a \<le> blen data
      \<and> a_payload a = py_slice data (a_offset a) (a_offset a + a_size a)"
  by (induction as arbitrary: pos) fastforce+

text \<open>The metadata of an atom is that of its range, the locator possibly with an occurrence number.\<close>

definition atom_of_meta :: "byte_atom \<Rightarrow> atom_meta \<Rightarrow> bool" where
  "atom_of_meta a v \<longleftrightarrow> a_role a = m_role v \<and> a_depends_on a = m_depends_on v
     \<and> a_note a = m_note v \<and> a_canonical_payload a = m_canonical_payload v
     \<and> (a_locator a = m_locator v \<or> (\<exists>k. a_locator a = m_locator v @ ''#'' @ show_int k))"

fun contiguous :: "int \<Rightarrow> 'v ivl list \<Rightarrow> int \<Rightarrow> bool" where
  "contiguous pos [] n = (pos = n)"
| "contiguous pos (i # rest) n = (ivl_start i = pos \<and> contiguous (ivl_end i) rest n)"

lemma uncovered_contiguous:
  assumes "sorted_wrt (\<lambda>i j. ivl_end i \<le> ivl_start j) is"
    and "\<And>i. i \<in> set is \<Longrightarrow> pos \<le> ivl_start i \<and> ivl_start i < ivl_end i \<and> ivl_end i \<le> n" "pos \<le> n"
  shows "uncovered_ranges is pos n = [] \<longleftrightarrow> contiguous pos is n"
  using assms
proof (induction "is" arbitrary: pos)
  case (Cons i rest)
  have "uncovered_ranges rest (ivl_end i) n = [] \<longleftrightarrow> contiguous (ivl_end i) rest n"
    using Cons.prems by (intro Cons.IH) auto
  then show ?case using Cons.prems(2)[of i] by auto
qed auto

lemma contiguous_covers:
  "contiguous pos is n \<Longrightarrow> pos \<le> x \<Longrightarrow> x < n \<Longrightarrow> \<exists>v. covers (set is) x v"
proof (induction "is" arbitrary: pos)
  case (Cons i rest)
  show ?case
  proof (cases "x < ivl_end i")
    case True
    then show ?thesis using Cons.prems by (auto simp: covers_insert)
  next
    case False
    then show ?thesis using Cons by (auto simp: covers_insert)
  qed
qed simp

lemma covered_contiguous:
  assumes "sorted_wrt (\<lambda>i j. ivl_end i \<le> ivl_start j) is" "pos \<le> n"
    and "\<And>i. i \<in> set is \<Longrightarrow> pos \<le> ivl_start i \<and> ivl_start i < ivl_end i \<and> ivl_end i \<le> n"
    and "\<And>x. pos \<le> x \<Longrightarrow> x < n \<Longrightarrow> \<exists>v. covers (set is) x v"
  shows "contiguous pos is n"
  using assms
proof (induction "is" arbitrary: pos)
  case Nil
  then show ?case by (force simp: covers_def)
next
  case (Cons i rest)
  have later: "\<And>j. j \<in> set rest \<Longrightarrow> ivl_end i \<le> ivl_start j" using Cons.prems(1) by simp
  have i: "pos \<le> ivl_start i" "ivl_start i < ivl_end i" "ivl_end i \<le> n" using Cons.prems(3) by auto
  then obtain v where "covers (set (i # rest)) pos v" using Cons.prems(4)[of pos] by auto
  then have "ivl_start i = pos" using later i by (force simp: covers_def)
  moreover have "contiguous (ivl_end i) rest n"
  proof (rule Cons.IH)
    show "ivl_end i \<le> ivl_start j \<and> ivl_start j < ivl_end j \<and> ivl_end j \<le> n" if "j \<in> set rest" for j
      using later[OF that] Cons.prems(3)[of j] that by auto
    show "\<exists>v. covers (set rest) x v" if "ivl_end i \<le> x" "x < n" for x
      using Cons.prems(4)[of x] that i by (auto simp: covers_insert)
  qed (use Cons.prems(1) i in auto)
  ultimately show ?case by simp
qed

lemma atom_post_init_Inr [res_simps]:
  "atom_post_init a = Inr a' \<longleftrightarrow> a' = a
     \<and> a_role a \<in> {Invariant, Allowed_Payload, Derived_Field, Derived_Padding}
     \<and> 0 \<le> a_offset a \<and> 0 \<le> a_size a \<and> blen (a_payload a) = a_size a
     \<and> (a_canonical_payload a \<noteq> None \<longrightarrow> a_role a = Derived_Field)"
  unfolding atom_post_init_def by (simp only: if_Inl_eq_Inr) auto

lemma finish_atoms_tiles:
  assumes "finish_atoms data is occ = Inr as" "contiguous pos is (blen data)" "0 \<le> pos"
    and "\<And>i. i \<in> set is \<Longrightarrow> ivl_start i < ivl_end i \<and> ivl_end i \<le> blen data"
  shows "tiles data pos as \<and> list_all2 (\<lambda>a i. atom_of_meta a (ivl_value i)
     \<and> a_offset a = ivl_start i \<and> a_offset a + a_size a = ivl_end i) as is"
  using assms
proof (induction "is" arbitrary: occ as pos)
  case (Cons i rest)
  let ?v = "ivl_value i"
  from Cons.prems(1) obtain k a as' occ' where as: "as = a # as'"
    "finish_atoms data rest occ' = Inr as'"
    and init: "atom_post_init
           \<lparr>a_locator = (if k = 0 then m_locator ?v else m_locator ?v @ ''#'' @ show_int k),
            a_role = m_role ?v, a_offset = ivl_start i, a_size = ivl_end i - ivl_start i,
            a_payload = py_slice data (ivl_start i) (ivl_end i),
            a_depends_on = m_depends_on ?v, a_note = m_note ?v,
            a_canonical_payload = m_canonical_payload ?v\<rparr> = Inr a"
    unfolding finish_atoms.simps Let_def by (auto elim!: bind_r_InrE)
  have a: "a_offset a = ivl_start i" "a_size a = ivl_end i - ivl_start i"
    "a_payload a = py_slice data (ivl_start i) (ivl_end i)" "atom_of_meta a ?v"
    using init unfolding atom_post_init_Inr by (auto simp: atom_of_meta_def)
  have i: "ivl_start i = pos" "contiguous (ivl_end i) rest (blen data)"
    "ivl_start i < ivl_end i" "ivl_end i \<le> blen data" using Cons.prems by auto
  have "tiles data (ivl_end i) as' \<and> list_all2 (\<lambda>a i. atom_of_meta a (ivl_value i)
     \<and> a_offset a = ivl_start i \<and> a_offset a + a_size a = ivl_end i) as' rest"
    using Cons.prems i by (intro Cons.IH[OF as(2)]) auto
  then show ?case using as a i by simp
qed simp

lemma builder_intervals_sorted:
  assumes "builder_inv b"
  shows "sorted_wrt (\<lambda>i j. ivl_end i \<le> ivl_start j) (inorder (b_root b))"
  using assms disjoint_sorted_ends store_sorted unfolding builder_inv_def by blast

lemma builder_uncovered:
  assumes "builder_inv b"
  shows "uncovered_ranges (inorder (b_root b)) 0 (blen (b_data b)) = [] \<longleftrightarrow>
     (\<forall>x. 0 \<le> x \<and> x < blen (b_data b) \<longrightarrow> (\<exists>v. builder_view b x v))" (is "?l \<longleftrightarrow> ?r")
proof -
  note s = builder_intervals_sorted[OF assms] and i = interval_bounds[OF assms]
  have "?l \<longleftrightarrow> contiguous 0 (inorder (b_root b)) (blen (b_data b))"
    using i by (intro uncovered_contiguous[OF s]) auto
  also have "\<dots> \<longleftrightarrow> ?r"
    unfolding builder_view_def using covered_contiguous[OF s blen_nonneg] contiguous_covers i by blast
  finally show ?thesis .
qed

text \<open>What \<open>finish\<close> returns.\<close>

lemma builder_finish_correct:
  assumes inv: "builder_inv b" and fin: "builder_finish b = Inr atoms"
  shows "tiles (b_data b) 0 atoms" "distinct (map a_locator atoms)"
    "\<And>a. a \<in> set atoms \<Longrightarrow> \<exists>v. atom_of_meta a v
       \<and> (\<forall>x. a_offset a \<le> x \<and> x < a_offset a + a_size a \<longrightarrow> builder_view b x v)"
proof -
  have f: "uncovered_ranges (inorder (b_root b)) 0 (blen (b_data b)) = []"
    "finish_atoms (b_data b) (inorder (b_root b)) [] = Inr atoms" "distinct (map a_locator atoms)"
    using fin by (auto simp: builder_finish_def Let_def res_simps)
  note i = interval_bounds[OF inv]
  have "contiguous 0 (inorder (b_root b)) (blen (b_data b))"
    using f(1) i by (subst (asm) uncovered_contiguous[OF builder_intervals_sorted[OF inv]]) auto
  from finish_atoms_tiles[OF f(2) this] i
  have t: "tiles (b_data b) 0 atoms" "list_all2 (\<lambda>a i. atom_of_meta a (ivl_value i)
     \<and> a_offset a = ivl_start i \<and> a_offset a + a_size a = ivl_end i) atoms (inorder (b_root b))"
    by auto
  show "tiles (b_data b) 0 atoms" "distinct (map a_locator atoms)" by fact+
  fix a assume "a \<in> set atoms"
  then obtain k where k: "k < length atoms" "a = atoms ! k" by (auto simp: in_set_conv_nth)
  define i where "i = inorder (b_root b) ! k"
  have "i \<in> set (inorder (b_root b))" "atom_of_meta a (ivl_value i)"
    "a_offset a = ivl_start i" "a_offset a + a_size a = ivl_end i"
    using t(2) k by (auto simp: list_all2_conv_all_nth i_def)
  then show "\<exists>v. atom_of_meta a v
       \<and> (\<forall>x. a_offset a \<le> x \<and> x < a_offset a + a_size a \<longrightarrow> builder_view b x v)"
    unfolding builder_view_def covers_def by auto
qed

section \<open>Properties\<close>

text \<open>C5. A claim inside the data is accepted exactly when the claim limit is not reached and no
  byte of its range is assigned, or (for a replacing claim) every assigned byte of it is invariant.
  Then the assignment of bytes to metadata is overridden on exactly the claimed range and the
  builder keeps its invariant; otherwise \<open>ParityError\<close> is raised.\<close>

theorem builder_add_refines:
  assumes "builder_inv b" and "0 < sz"
  shows "if 0 \<le> start \<and> start + sz \<le> blen (b_data b) \<and> claim_allowed b start sz replace
    then \<exists>b'. builder_add b start sz locator role deps nt canonical replace = Inr b'
           \<and> builder_inv b' \<and> b_data b' = b_data b
           \<and> (\<forall>x v. builder_view b' x v = (if start \<le> x \<and> x < start + sz
                then v = new_meta b locator role deps nt canonical else builder_view b x v))
    else \<exists>l m. builder_add b start sz locator role deps nt canonical replace
           = Inl (ParityError l m)"
proof (cases "0 \<le> start \<and> start + sz \<le> blen (b_data b) \<and> claim_allowed b start sz replace")
  case True
  then show ?thesis
    using builder_add_accepts[OF assms(1) _ assms(2), of start replace locator role deps nt canonical]
    by auto
next
  case False
  then have "\<not> (0 \<le> start \<and> 0 < sz \<and> start + sz \<le> blen (b_data b) \<and> claim_allowed b start sz replace)"
    by blast
  then show ?thesis
    unfolding if_not_P[OF False] using assms by (intro builder_add_refuses) simp_all
qed

theorem builder_add_refines_witness:
  "\<exists>b'. builder_add (new_builder [7, 8, 9] ''macho'') 1 2 ''header'' Invariant [] None None False
     = Inr b' \<and> builder_inv b' \<and> builder_view b' 2
     (new_meta (new_builder [7, 8, 9] ''macho'') ''header'' Invariant [] None None)"
proof -
  have "claim_allowed (new_builder [7, 8, 9] ''macho'') 1 2 False"
    by (simp add: claim_allowed_def new_builder_def MAX_ATOM_CLAIMS_def builder_view_def covers_def)
  then show ?thesis
    using builder_add_refines[OF builder_inv_new, of 2 1 "[7, 8, 9]" "''macho''" False "''header''"
        Invariant "[]" None None]
    by (auto simp: new_builder_def)
qed

text \<open>C9. Proof of coverage: when \<open>finish\<close> returns, the atoms' payloads concatenate to the artifact's
  bytes, the locators are pairwise different, and every byte carries the metadata its atom shows.\<close>

theorem builder_finish_partitions:
  assumes "builder_inv b" and "builder_finish b = Inr atoms"
  shows "concat (map a_payload atoms) = b_data b \<and> tiles (b_data b) 0 atoms
    \<and> distinct (map a_locator atoms)
    \<and> (\<forall>a \<in> set atoms. \<exists>v. atom_of_meta a v
         \<and> (\<forall>x. a_offset a \<le> x \<and> x < a_offset a + a_size a \<longrightarrow> builder_view b x v))"
  using builder_finish_correct[OF assms] tiles_concat[of "b_data b" 0 atoms] by simp

theorem builder_finish_partitions_witness:
  "\<exists>b atoms. builder_add (new_builder [7, 8] []) 0 2 ''magic'' Invariant [] None None False = Inr b
     \<and> builder_finish b = Inr atoms \<and> concat (map a_payload atoms) = [7, 8]"
proof -
  let ?v = "new_meta (new_builder [7, 8] []) ''magic'' Invariant [] None None"
  let ?b = "new_builder [7, 8] []\<lparr>b_root := Node Tip (Ivl 0 2 ?v) 1 Tip, b_claim_count := 1\<rparr>"
  have add: "builder_add (new_builder [7, 8] []) 0 2 ''magic'' Invariant [] None None False = Inr ?b"
    by (simp add: builder_add_def new_builder_def new_meta_def full_locator_def Let_def
        builder_overlaps_def lower_bound_interval_def predecessor_interval_def interval_put_def
        MAX_ATOM_CLAIMS_def)
  have inv: "builder_inv ?b" using builder_add_Inr(1)[OF builder_inv_new add] .
  obtain atoms where fin: "builder_finish ?b = Inr atoms"
    by (simp add: builder_finish_def new_builder_def new_meta_def full_locator_def Let_def
        atom_post_init_def py_slice_def py_bound_def)
  show ?thesis
    using builder_finish_partitions[OF inv fin] add fin by (auto simp: new_builder_def)
qed

text \<open>No byte is left out silently: \<open>finish\<close> reports uncovered ranges whenever some byte of the
  artifact is assigned to nothing, and never otherwise.\<close>

theorem builder_uncovered_iff:
  assumes "builder_inv b"
  shows "uncovered_ranges (ordered_intervals (b_root b)) 0 (blen (b_data b)) = []
    \<longleftrightarrow> (\<forall>x. 0 \<le> x \<and> x < blen (b_data b) \<longrightarrow> (\<exists>v. builder_view b x v))"
  using builder_uncovered[OF assms] by simp

theorem builder_uncovered_iff_witness:
  "uncovered_ranges (ordered_intervals (b_root (new_builder [1] []))) 0 1 \<noteq> []
   \<and> \<not> (\<exists>v. builder_view (new_builder [1] []) 0 v)"
proof -
  have "\<not> (\<exists>v. builder_view (new_builder [1] []) 0 v)"
    by (simp add: builder_view_def new_builder_def covers_def)
  then show ?thesis
    using builder_uncovered_iff[OF builder_inv_new, of "[1]" "[]"] by (auto simp: new_builder_def)
qed

text \<open>The recursion of the tree operations is shallow: whatever claims a builder has accepted,
  the tree is at most 39 levels high, so insertion and removal stay far below Python's recursion
  limit.\<close>

theorem builder_tree_depth:
  assumes "builder_inv b"
  shows "interval_height (b_root b) \<le> 39"
proof (rule ccontr)
  assume "\<not> interval_height (b_root b) \<le> 39"
  then have "20 \<le> nat (interval_height (b_root b) div 2)" by linarith
  then have "(2::nat) ^ 20 \<le> 2 ^ nat (interval_height (b_root b) div 2)"
    by (intro power_increasing) simp_all
  also have "\<dots> \<le> length (inorder (b_root b)) + 1"
    using assms by (intro avl_size) (simp add: builder_inv_def ivl_inv_def)
  also have "\<dots> \<le> 524289"
    using assms by (simp add: builder_inv_def MAX_ATOM_CLAIMS_def blen_def)
  finally show False by simp
qed

theorem builder_tree_depth_witness:
  "builder_inv (new_builder [1, 2] ''archive'')
     \<and> interval_height (b_root (new_builder [1, 2] ''archive'')) \<le> 39"
  using builder_inv_new builder_tree_depth[OF builder_inv_new] by blast

end
