(* ===== verification/Byte_Parsing.thy ===== *)
theory Byte_Parsing
  imports Atom_Builder "HOL-Library.Multiset" "HOL-Library.Product_Lexorder"
begin

unbundle bit_operations_syntax

text \<open>
  The byte-level helpers of \<open>tools/abi_artifact_parity.py\<close>: \<open>struct\<close> fields, strings, ULEB128
  numbers, version numbers, alignment, disjointness of file ranges and the two cache path
  expressions.
\<close>

section \<open>Fields read with \<open>struct.unpack_from\<close>\<close>

fun le_value :: "bytes \<Rightarrow> int" where
  "le_value [] = 0"
| "le_value (b # bs) = uint b + 256 * le_value bs"

fun le_bytes :: "nat \<Rightarrow> int \<Rightarrow> bytes" where
  "le_bytes 0 v = []"
| "le_bytes (Suc n) v = word_of_int v # le_bytes n (v div 256)"

definition u_le :: "bytes \<Rightarrow> int \<Rightarrow> int \<Rightarrow> int" where
  "u_le data off n = le_value (py_slice data off (off + n))"

definition u_be :: "bytes \<Rightarrow> int \<Rightarrow> int \<Rightarrow> int" where
  "u_be data off n = le_value (rev (py_slice data off (off + n)))"

abbreviation u8 :: "bytes \<Rightarrow> int \<Rightarrow> int" where "u8 data off \<equiv> u_le data off 1"
abbreviation u16 :: "bytes \<Rightarrow> int \<Rightarrow> int" where "u16 data off \<equiv> u_le data off 2"
abbreviation u32 :: "bytes \<Rightarrow> int \<Rightarrow> int" where "u32 data off \<equiv> u_le data off 4"
abbreviation u64 :: "bytes \<Rightarrow> int \<Rightarrow> int" where "u64 data off \<equiv> u_le data off 8"

definition i32 :: "bytes \<Rightarrow> int \<Rightarrow> int" where
  "i32 data off = (let v = u32 data off in if v < 2 ^ 31 then v else v - 2 ^ 32)"

text \<open>
  \<open>unpack_from\<close> raises \<open>struct.error\<close> when the buffer is too short for the format.  The offsets
  the modelled code passes are never negative.
\<close>

definition struct_need :: "bytes \<Rightarrow> int \<Rightarrow> int \<Rightarrow> unit res" where
  "struct_need data off n = (if 0 \<le> off \<and> off + n \<le> blen data then Inr () else Inl StructError)"

lemma struct_need_Inr [res_simps]:
  "struct_need data off n = Inr u \<longleftrightarrow> 0 \<le> off \<and> off + n \<le> blen data"
  by (simp add: struct_need_def)

text \<open>\<open>struct.pack("<Q", v)\<close>.\<close>

definition pack_u64 :: "int \<Rightarrow> bytes res" where
  "pack_u64 v = (if 0 \<le> v \<and> v < 2 ^ 64 then Inr (le_bytes 8 v) else Inl StructError)"

lemma le_value_bounds: "0 \<le> le_value bs \<and> le_value bs < 256 ^ length bs"
proof (induction bs)
  case (Cons b bs)
  have "0 \<le> uint b" "uint b < 256" using uint_lt2p[of b] by simp_all
  then show ?case using Cons by simp
qed simp

lemma u_le_nonneg [simp]: "0 \<le> u_le data off n"
  by (simp add: u_le_def le_value_bounds)

lemma u_le_pos [simp]: "0 < u_le data off n \<longleftrightarrow> u_le data off n \<noteq> 0"
  using u_le_nonneg[of data off n] by linarith

lemma u_be_nonneg [simp]: "0 \<le> u_be data off n"
  by (simp add: u_be_def le_value_bounds)

lemma length_le_bytes [simp]: "length (le_bytes n v) = n"
  by (induction n arbitrary: v) simp_all

lemma le_value_le_bytes: "0 \<le> v \<Longrightarrow> v < 256 ^ n \<Longrightarrow> le_value (le_bytes n v) = v"
proof (induction n arbitrary: v)
  case (Suc n)
  have "v div 256 < 256 ^ n" using Suc.prems by (simp add: div_less_iff_less_mult mult.commute)
  then have "le_value (le_bytes n (v div 256)) = v div 256" using Suc by simp
  moreover have "uint (word_of_int v :: byte) = v mod 256" by (simp add: uint_word_of_int)
  ultimately show ?case by simp
qed simp

lemma le_bytes_le_value: "le_bytes (length bs) (le_value bs) = bs"
proof (induction bs)
  case (Cons b bs)
  have b: "0 \<le> uint b" "uint b < 256" using uint_lt2p[of b] by simp_all
  have "(256 :: byte) = 0" by simp
  then have "(256 :: byte) * word_of_int (le_value bs) = 0" by (metis mult_zero_left)
  then have "(word_of_int (uint b + 256 * le_value bs) :: byte) = b" by simp
  then show ?case using Cons b by simp
qed simp

section \<open>Strings\<close>

text \<open>
  \<open>bytes.decode("utf-8")\<close>: the strict decoder, to code points; overlong forms, surrogates and
  values above 10FFFF are refused.
\<close>

definition is_cont :: "byte \<Rightarrow> bool" where
  "is_cont b \<longleftrightarrow> 0x80 \<le> uint b \<and> uint b \<le> 0xBF"

definition low6 :: "byte \<Rightarrow> int" where
  "low6 b = uint b - 0x80"

fun utf8_decode :: "bytes \<Rightarrow> int list option" where
  "utf8_decode [] = Some []"
| "utf8_decode (a # r) =
    (let x = uint a in
     if x < 0x80 then map_option (Cons x) (utf8_decode r)
     else if 0xC2 \<le> x \<and> x \<le> 0xDF then
       (case r of b # r' \<Rightarrow>
          if is_cont b then map_option (Cons ((x - 0xC0) * 64 + low6 b)) (utf8_decode r') else None
        | [] \<Rightarrow> None)
     else if 0xE0 \<le> x \<and> x \<le> 0xEF then
       (case r of b # c # r' \<Rightarrow>
          let p = (x - 0xE0) * 4096 + low6 b * 64 + low6 c in
          if is_cont b \<and> is_cont c \<and> 0x800 \<le> p \<and> \<not> (0xD800 \<le> p \<and> p \<le> 0xDFFF)
          then map_option (Cons p) (utf8_decode r') else None
        | _ \<Rightarrow> None)
     else if 0xF0 \<le> x \<and> x \<le> 0xF4 then
       (case r of b # c # d # r' \<Rightarrow>
          let p = (x - 0xF0) * 262144 + low6 b * 4096 + low6 c * 64 + low6 d in
          if is_cont b \<and> is_cont c \<and> is_cont d \<and> 0x10000 \<le> p \<and> p \<le> 0x10FFFF
          then map_option (Cons p) (utf8_decode r') else None
        | _ \<Rightarrow> None)
     else None)"

text \<open>\<open>_text\<close>.\<close>

definition text_of :: "bytes \<Rightarrow> string \<Rightarrow> string res" where
  "text_of v locator =
     (case utf8_decode v of
        None \<Rightarrow> Inl (ParityError (Some locator) ''string is not UTF-8'')
      | Some _ \<Rightarrow> Inr (str_of_bytes v))"

lemma text_of_Inr [res_simps]:
  "text_of v locator = Inr s \<longleftrightarrow> utf8_decode v \<noteq> None \<and> s = str_of_bytes v"
  by (auto simp: text_of_def split: option.splits)

text \<open>\<open>data.find(c, start, limit)\<close> for \<open>0 \<le> start\<close>.\<close>

definition find_byte :: "byte \<Rightarrow> bytes \<Rightarrow> int \<Rightarrow> int \<Rightarrow> int" where
  "find_byte c data start limit =
     (let seg = py_slice data start limit; k = length (takeWhile (\<lambda>b. b \<noteq> c) seg)
      in if k < length seg then start + int k else -1)"

text \<open>\<open>_cstring\<close>: the bytes before the terminator and the offset after it.\<close>

definition cstring :: "bytes \<Rightarrow> int \<Rightarrow> int \<Rightarrow> string \<Rightarrow> (bytes \<times> int) res" where
  "cstring data start limit locator =
     bind_r (require_range (blen data) start 0 locator) (\<lambda>_.
     if limit < start \<or> limit > blen data
     then Inl (ParityError (Some locator) ''invalid string limit'')
     else let e = find_byte 0 data start limit
       in if e < 0 then Inl (ParityError (Some locator) ''unterminated string'')
          else Inr (py_slice data start e, e + 1))"

text \<open>\<open>_fixed_name\<close>.\<close>

definition fixed_name :: "bytes \<Rightarrow> string \<Rightarrow> string res" where
  "fixed_name v locator =
     (let nul = find_byte 0 v 0 (blen v)
      in if nul \<ge> 0
         then if any_nonzero (py_slice v nul (blen v))
              then Inl (ParityError (Some locator) ''nonzero bytes after fixed-name terminator'')
              else text_of (py_slice v 0 nul) locator
         else text_of v locator)"

lemma takeWhile_take: "k \<le> length (takeWhile P xs) \<Longrightarrow> take k (takeWhile P xs) = take k xs"
  by (metis takeWhile_eq_take take_take min.absorb1)

lemma find_byte_found:
  assumes "find_byte c data start limit = e" "0 \<le> e" "0 \<le> start" "start \<le> limit" "limit \<le> blen data"
  shows "start \<le> e" "e < limit" "data ! nat e = c" "c \<notin> set (py_slice data start e)"
proof -
  let ?seg = "py_slice data start limit" and ?t = "takeWhile (\<lambda>b. b \<noteq> c) (py_slice data start limit)"
  have k: "length ?t < length ?seg" "e = start + int (length ?t)"
    using assms(1,2) by (auto simp: find_byte_def Let_def split: if_splits)
  have seg: "?seg = take (nat (limit - start)) (drop (nat start) data)" "int (length ?seg) = limit - start"
    using assms(3-5) blen_py_slice[of start limit data] by (simp_all add: py_slice_in_range blen_def)
  show e: "start \<le> e" "e < limit" using k seg(2) by auto
  have "?seg ! length ?t = c" using k(1) nth_length_takeWhile[of "\<lambda>b. b \<noteq> c" ?seg] by auto
  then show "data ! nat e = c"
    using nth_py_slice[OF assms(3-5), of "length ?t"] k seg(2) assms(3) by (simp add: nat_add_distrib)
  have "py_slice data start e = take (length ?t) ?seg"
    using e assms(3-5) k by (simp add: py_slice_in_range)
  also have "\<dots> = ?t" by (metis takeWhile_eq_take)
  finally show "c \<notin> set (py_slice data start e)" by (auto dest: set_takeWhileD)
qed

text \<open>A string that is returned is what lies between its offset and the first terminator.\<close>

lemma cstring_Inr:
  assumes "cstring data start limit locator = Inr (v, nx)"
  shows "0 \<le> start" "start < nx" "nx \<le> limit" "limit \<le> blen data"
    "v = py_slice data start (nx - 1)" "0 \<notin> set v" "data ! nat (nx - 1) = 0"
    "blen v = nx - 1 - start"
proof -
  have c: "0 \<le> start" "start \<le> limit" "limit \<le> blen data" "0 \<le> find_byte 0 data start limit"
    "v = py_slice data start (find_byte 0 data start limit)" "nx = find_byte 0 data start limit + 1"
    using assms by (auto simp: cstring_def res_simps Let_def split: if_splits)
  note f = find_byte_found[OF refl c(4,1,2,3)]
  show "0 \<le> start" "start < nx" "nx \<le> limit" "limit \<le> blen data"
    "v = py_slice data start (nx - 1)" "0 \<notin> set v" "data ! nat (nx - 1) = 0"
    "blen v = nx - 1 - start"
    using c f by (auto simp: blen_py_slice)
qed

section \<open>ULEB128\<close>

text \<open>
  The loop of \<open>_uleb\<close>.  Reading past the end of the data is the \<open>IndexError\<close> Python raises; the
  callers' limits exclude it.
\<close>

function uleb_loop :: "bytes \<Rightarrow> int \<Rightarrow> int \<Rightarrow> int \<Rightarrow> string \<Rightarrow> int \<Rightarrow> nat \<Rightarrow> (int \<times> int) res" where
  "uleb_loop data offset limit start locator v shift =
     (if offset < limit \<and> offset - start < 10 then
        if \<not> (0 \<le> offset \<and> offset < blen data) then Inl IndexError
        else let b = byte_at data offset;
                 v' = v OR push_bit shift (b AND 0x7F)
             in if b AND 0x80 = 0 then
                  if offset + 1 - start > 1 \<and> b = 0
                  then Inl (ParityError (Some locator) ''non-minimal ULEB128'')
                  else Inr (v', offset + 1)
                else uleb_loop data (offset + 1) limit start locator v' (shift + 7)
      else Inl (ParityError (Some locator) ''truncated or oversized ULEB128''))"
  by pat_completeness auto
termination
  by (relation "measure (\<lambda>(data, offset, limit, start, locator, v, shift). nat (limit - offset))") auto

declare uleb_loop.simps [simp del]

definition uleb :: "bytes \<Rightarrow> int \<Rightarrow> int \<Rightarrow> string \<Rightarrow> (int \<times> int) res" where
  "uleb data offset limit locator = uleb_loop data offset limit offset locator 0 0"

text \<open>The minimal encoding, as the specification of the decoder.\<close>

fun uleb_encode :: "nat \<Rightarrow> bytes" where
  "uleb_encode n = (if n < 128 then [of_nat n] else of_nat (n mod 128 + 128) # uleb_encode (n div 128))"

declare uleb_encode.simps [simp del]

lemma or_push_bit_add:
  fixes v w :: int
  assumes "0 \<le> v" "v < 2 ^ k"
  shows "v OR push_bit k w = v + w * 2 ^ k"
proof -
  have "take_bit k v = v" using assms by (simp add: take_bit_int_eq_self)
  then have "v AND push_bit k w = 0"
    by (intro bit_eqI) (metis bit_0_eq bit_and_iff bit_push_bit_iff bit_take_bit_iff bot_apply bot_bool_def linorder_not_less)
  then have "v OR push_bit k w = v + push_bit k w"
    using disjunctive_add_eq_or by metis
  then show ?thesis by (simp add: push_bit_eq_mult)
qed

lemma and_7F: "(b :: int) AND 0x7F = b mod 128"
proof -
  have "b AND mask 7 = b mod 2 ^ 7" by (simp only: take_bit_eq_mask [symmetric] take_bit_eq_mod)
  moreover have "(mask 7 :: int) = 0x7F" by (simp add: mask_eq_exp_minus_1)
  ultimately show ?thesis by simp
qed

lemma and_80: "0 \<le> b \<Longrightarrow> b < 256 \<Longrightarrow> (b :: int) AND 0x80 = 0 \<longleftrightarrow> b < 128"
proof -
  assume "0 \<le> b" "b < 256"
  have "b AND 0x80 = 0 \<longleftrightarrow> \<not> bit b 7" using and_exp_eq_0_iff_not_bit[of b 7] by simp
  moreover have "bit b 7 \<longleftrightarrow> \<not> b < 128"
  proof -
    have "b div 128 = 0 \<or> b div 128 = 1" using \<open>0 \<le> b\<close> \<open>b < 256\<close> by linarith
    then show ?thesis using \<open>0 \<le> b\<close> by (auto simp: bit_iff_odd)
  qed
  ultimately show ?thesis by auto
qed

lemma uleb_loop_step:
  assumes "0 \<le> offset" "offset < limit" "limit \<le> blen data" "offset - start < 10"
    and "0 \<le> v" "v < 2 ^ shift"
  shows "uleb_loop data offset limit start locator v shift =
    (let b = byte_at data offset in
     if b < 128 then
       if offset + 1 - start > 1 \<and> b = 0
       then Inl (ParityError (Some locator) ''non-minimal ULEB128'')
       else Inr (v + b * 2 ^ shift, offset + 1)
     else uleb_loop data (offset + 1) limit start locator (v + (b mod 128) * 2 ^ shift) (shift + 7))"
proof -
  have b: "0 \<le> byte_at data offset" "byte_at data offset < 256" by (rule byte_at_bounds)+
  show ?thesis
    using assms and_80[OF b] or_push_bit_add[OF assms(5,6)] b
    by (subst uleb_loop.simps) (auto simp: Let_def and_7F)
qed

lemma uleb_acc_bound:
  fixes v b :: int
  assumes "0 \<le> v" "v < 2 ^ shift" "0 \<le> b"
  shows "v + (b mod 128) * 2 ^ shift < 2 ^ (shift + 7)" "0 \<le> v + (b mod 128) * 2 ^ shift"
proof -
  have "(b mod 128) * 2 ^ shift \<le> 127 * 2 ^ shift" by (intro mult_right_mono) simp_all
  moreover have "(2 :: int) ^ (shift + 7) = 128 * 2 ^ shift" by (simp add: power_add)
  ultimately show "v + (b mod 128) * 2 ^ shift < 2 ^ (shift + 7)" using assms by linarith
qed (use assms in simp)

lemma slice_snoc:
  assumes "0 \<le> i" "i \<le> j" "j < blen data"
  shows "py_slice data i (j + 1) = py_slice data i j @ [data ! nat j]"
proof -
  have "take (Suc (nat (j - i))) (drop (nat i) data)
      = take (nat (j - i)) (drop (nat i) data) @ [drop (nat i) data ! nat (j - i)]"
    using assms by (intro take_Suc_conv_app_nth) (simp add: blen_def)
  moreover have "nat (j + 1 - i) = Suc (nat (j - i))" "nat i + nat (j - i) = nat j"
    using assms by linarith+
  ultimately show ?thesis using assms by (simp add: py_slice_in_range nth_drop blen_def)
qed

lemma slice_Cons:
  assumes "0 \<le> i" "i < j" "j \<le> blen data"
  shows "py_slice data i j = data ! nat i # py_slice data (i + 1) j"
proof -
  have "py_slice data i (i + 1) = [data ! nat i]" using slice_snoc[of i i data] assms
    by (simp add: py_slice_in_range)
  then show ?thesis using py_slice_join[of i "i + 1" j data] assms by simp
qed

lemma byte_at_uint: "0 \<le> i \<Longrightarrow> i < blen data \<Longrightarrow> byte_at data i = uint (data ! nat i)"
  by (simp add: byte_at_def)

text \<open>What the loop returns from an intermediate state: the rest of a minimal encoding.\<close>

lemma uleb_loop_sound:
  assumes "uleb_loop data offset limit start locator v shift = Inr (r, e)"
    and "0 \<le> offset" "limit \<le> blen data" "0 \<le> v" "v < 2 ^ shift" "start \<le> offset"
  shows "\<exists>w. r = v + int w * 2 ^ shift \<and> py_slice data offset e = uleb_encode w
    \<and> offset < e \<and> e \<le> limit \<and> e - start \<le> 10 \<and> (offset > start \<longrightarrow> 0 < w)"
  using assms
proof (induction data offset limit start locator v shift rule: uleb_loop.induct)
  case (1 data offset limit start locator v shift)
  have g: "offset < limit" "offset - start < 10"
    using "1.prems"(1) by (subst (asm) uleb_loop.simps, simp split: if_splits)+
  let ?b = "byte_at data offset"
  have b: "0 \<le> ?b" "?b < 256" "?b = uint (data ! nat offset)"
    using byte_at_bounds[of data offset] byte_at_uint[of offset data] g "1.prems" by auto
  have hd: "data ! nat offset = of_nat (nat ?b)" using b by simp
  note step = uleb_loop_step[OF "1.prems"(2) g(1) "1.prems"(3) g(2) "1.prems"(4,5), of locator]
  show ?case
  proof (cases "?b < 128")
    case True
    then have r: "r = v + ?b * 2 ^ shift" "e = offset + 1" "offset > start \<Longrightarrow> ?b \<noteq> 0"
      using "1.prems"(1) step by (auto simp: Let_def split: if_splits)
    have "py_slice data offset e = uleb_encode (nat ?b)"
      using slice_Cons[of offset e data] r(2) g(1) "1.prems"(2,3) True hd b(1)
      by (simp add: py_slice_in_range uleb_encode.simps)
    then show ?thesis using r b(1) g by (intro exI[of _ "nat ?b"]) auto
  next
    case False
    let ?v = "v + (?b mod 128) * 2 ^ shift"
    have rec: "uleb_loop data (offset + 1) limit start locator ?v (shift + 7) = Inr (r, e)"
      using False "1.prems"(1) step by (simp add: Let_def)
    have and0: "\<not> ?b AND 0x80 = 0" using and_80[OF b(1,2)] False by simp
    have v': "v OR push_bit shift (?b AND 0x7F) = ?v"
      using or_push_bit_add[OF "1.prems"(4,5)] by (simp add: and_7F)
    obtain w where w: "r = ?v + int w * 2 ^ (shift + 7)" "py_slice data (offset + 1) e = uleb_encode w"
      "offset + 1 < e" "e \<le> limit" "e - start \<le> 10" "0 < w"
    proof -
      have c: "offset < limit \<and> offset - start < 10" "\<not> \<not> (0 \<le> offset \<and> offset < blen data)"
        using g "1.prems" by auto
      have o: "0 \<le> offset + 1" "start \<le> offset + 1" "start < offset + 1" using "1.prems" by auto
      from "1.IH"[OF c refl refl and0, unfolded v', OF rec o(1) "1.prems"(3)
          uleb_acc_bound(2,1)[OF "1.prems"(4,5) b(1)] o(2)] o(3)
      show thesis using that by blast
    qed
    let ?w = "nat (?b mod 128) + 128 * w"
    have "128 \<le> ?b" using False by simp
    then have "?b mod 128 = ?b - 128" using b(2) by presburger
    then have "nat ?b = nat (?b mod 128) + 128" using \<open>128 \<le> ?b\<close> by simp
    then have "py_slice data offset e = uleb_encode ?w"
      using slice_Cons[of offset e data] w g "1.prems" hd
      by (subst uleb_encode.simps) simp
    moreover have "r = v + int ?w * 2 ^ shift"
      using w(1) by (simp add: power_add algebra_simps)
    ultimately show ?thesis using w g by (intro exI[of _ ?w]) auto
  qed
qed

lemma uleb_encode_nonempty: "0 < blen (uleb_encode w)"
  by (subst uleb_encode.simps) (simp add: add_pos_nonneg)

lemma uleb_loop_complete:
  assumes "py_slice data offset (offset + blen (uleb_encode w)) = uleb_encode w"
    and "0 \<le> offset" "offset + blen (uleb_encode w) \<le> limit" "limit \<le> blen data"
    and "offset + blen (uleb_encode w) - start \<le> 10" "offset > start \<longrightarrow> 0 < w"
    and "0 \<le> v" "v < 2 ^ shift" "start \<le> offset"
  shows "uleb_loop data offset limit start locator v shift
    = Inr (v + int w * 2 ^ shift, offset + blen (uleb_encode w))"
  using assms
proof (induction w arbitrary: offset v shift rule: uleb_encode.induct)
  case (1 w)
  let ?n = "blen (uleb_encode w)" and ?b = "byte_at data offset"
  have n: "0 < ?n" by (rule uleb_encode_nonempty)
  have g: "offset < limit" "offset - start < 10" using "1.prems"(3,5) n by linarith+
  have cons: "py_slice data offset (offset + ?n)
      = data ! nat offset # py_slice data (offset + 1) (offset + ?n)"
    using slice_Cons[of offset "offset + ?n" data] "1.prems"(2,3,4) n by simp
  have b: "?b = uint (data ! nat offset)"
    using byte_at_uint[of offset data] g(1) "1.prems"(2,4) by simp
  note step = uleb_loop_step[OF "1.prems"(2) g(1) "1.prems"(4) g(2) "1.prems"(7,8), of locator]
  show ?case
  proof (cases "w < 128")
    case True
    then have e: "uleb_encode w = [of_nat w]" by (simp add: uleb_encode.simps)
    then have "data ! nat offset = of_nat w" using cons "1.prems"(1) by simp
    then have "?b = int w" using True b by (simp add: unsigned_of_nat take_bit_nat_eq_self_iff)
    then show ?thesis using step True e "1.prems"(6) by (auto simp: Let_def)
  next
    case False
    then have e: "uleb_encode w = of_nat (w mod 128 + 128) # uleb_encode (w div 128)"
      by (subst uleb_encode.simps) simp
    let ?m = "blen (uleb_encode (w div 128))"
    have nm: "?n = 1 + ?m" by (subst e) simp
    have tl: "py_slice data (offset + 1) (offset + 1 + ?m) = uleb_encode (w div 128)"
      and hd: "data ! nat offset = of_nat (w mod 128 + 128)"
      using cons "1.prems"(1) nm unfolding e by (auto simp: add.assoc)
    have "w mod 128 + 128 < 256" by simp
    then have bb: "?b = int (w mod 128) + 128"
    proof -
      have u: "uint (of_nat k :: byte) = int k" if "k < 256" for k
        using that by (simp add: unsigned_of_nat take_bit_nat_eq_self_iff)
      show ?thesis unfolding b hd u[OF \<open>w mod 128 + 128 < 256\<close>] by simp
    qed
    have p: "0 \<le> ?b" "?b mod 128 = int (w mod 128)" "\<not> ?b < 128" unfolding bb by simp_all
    have "uleb_loop data (offset + 1) limit start locator (v + (?b mod 128) * 2 ^ shift) (shift + 7)
        = Inr (v + (?b mod 128) * 2 ^ shift + int (w div 128) * 2 ^ (shift + 7), offset + 1 + ?m)"
      using "1.prems" nm False by (intro "1.IH" tl uleb_acc_bound[OF _ _ p(1)]) auto
    moreover have "v + (?b mod 128) * 2 ^ shift + int (w div 128) * 2 ^ (shift + 7)
        = v + int w * 2 ^ shift"
    proof -
      have "int w = int (w mod 128) + 128 * int (w div 128)"
        by (metis mod_mult_div_eq of_nat_add of_nat_mult of_nat_numeral)
      then show ?thesis unfolding p(2) by (simp add: power_add algebra_simps)
    qed
    ultimately show ?thesis using step p(3) nm by (simp add: Let_def)
  qed
qed

lemma uleb_encode_bound: "w < 2 ^ (7 * length (uleb_encode w))"
proof (induction w rule: uleb_encode.induct)
  case (1 w)
  show ?case
  proof (cases "w < 128")
    case True
    then show ?thesis by (simp add: uleb_encode.simps[of w])
  next
    case False
    have "w div 128 + 1 \<le> 2 ^ (7 * length (uleb_encode (w div 128)))" using 1 False by simp
    then have "128 * (w div 128 + 1) \<le> 128 * 2 ^ (7 * length (uleb_encode (w div 128)))"
      by (rule mult_left_mono) simp
    moreover have "w < 128 * (w div 128 + 1)" using dividend_less_times_div[of 128 w] by simp
    ultimately show ?thesis using False by (simp add: uleb_encode.simps[of w] power_add)
  qed
qed

lemma uleb_iff:
  assumes "0 \<le> offset" "limit \<le> blen data"
  shows "uleb data offset limit locator = Inr (r, e) \<longleftrightarrow>
    (\<exists>w. r = int w \<and> e = offset + blen (uleb_encode w) \<and> e \<le> limit \<and> blen (uleb_encode w) \<le> 10
         \<and> py_slice data offset e = uleb_encode w)"
proof
  assume "uleb data offset limit locator = Inr (r, e)"
  then obtain w where w: "r = int w" "py_slice data offset e = uleb_encode w" "offset < e" "e \<le> limit"
    "e - offset \<le> 10"
    using uleb_loop_sound[of data offset limit offset locator 0 0 r e] assms by (auto simp: uleb_def)
  moreover have "blen (uleb_encode w) = e - offset"
    using w assms blen_py_slice[of offset e data] by simp
  ultimately show "\<exists>w. r = int w \<and> e = offset + blen (uleb_encode w) \<and> e \<le> limit
     \<and> blen (uleb_encode w) \<le> 10 \<and> py_slice data offset e = uleb_encode w" by auto
next
  assume "\<exists>w. r = int w \<and> e = offset + blen (uleb_encode w) \<and> e \<le> limit
     \<and> blen (uleb_encode w) \<le> 10 \<and> py_slice data offset e = uleb_encode w"
  then show "uleb data offset limit locator = Inr (r, e)"
    using uleb_loop_complete[of data offset _ limit offset 0 0 locator] assms by (auto simp: uleb_def)
qed

lemma uleb_Inr:
  assumes "uleb data offset limit locator = Inr (r, e)" "0 \<le> offset" "limit \<le> blen data"
  shows "offset < e" "e \<le> limit" "0 \<le> r"
  using assms uleb_encode_nonempty by (auto simp: uleb_iff)

section \<open>Version numbers and alignment\<close>

definition version_text :: "int \<Rightarrow> string" where
  "version_text v = show_int (drop_bit 16 v) @ ''.'' @ show_int (drop_bit 8 v AND 0xFF) @ ''.''
     @ show_int (v AND 0xFF)"

definition align_up :: "int \<Rightarrow> int \<Rightarrow> int res" where
  "align_up v alignment =
     (if alignment \<le> 0 \<or> alignment AND (alignment - 1) \<noteq> 0
      then Inl (ParityError None (''invalid power-of-two alignment '' @ show_int alignment))
      else Inr ((v + alignment - 1) AND - alignment))"

lemma and_neg_power: "(x :: int) AND - (2 ^ k) = x - x mod 2 ^ k"
proof -
  have "- (2 ^ k) = NOT (mask k :: int)" by (simp add: not_int_def mask_eq_exp_minus_1)
  then have "x AND - (2 ^ k) = x AND NOT (mask k)" by simp
  moreover have "(x AND mask k) + (x AND NOT (mask k)) = x"
  proof -
    have "(x AND mask k) AND (x AND NOT (mask k)) = 0"
      by (rule bit_eqI) (auto simp: bit_simps)
    then have "(x AND mask k) + (x AND NOT (mask k)) = (x AND mask k) OR (x AND NOT (mask k))"
      by (rule disjunctive_add_eq_or)
    also have "\<dots> = x" by (rule bit_eqI) (auto simp: bit_simps)
    finally show ?thesis .
  qed
  moreover have "x AND mask k = x mod 2 ^ k" by (simp flip: take_bit_eq_mask add: take_bit_eq_mod)
  ultimately show ?thesis by linarith
qed

lemma power_and_pred: "(2 ^ k :: int) AND (2 ^ k - 1) = 0"
proof -
  have "(2 ^ k :: int) AND mask k = 2 ^ k mod 2 ^ k"
    by (simp only: take_bit_eq_mask [symmetric] take_bit_eq_mod)
  then show ?thesis by (simp add: mask_eq_exp_minus_1)
qed

text \<open>Rounding up to a power of two: the least multiple at or above the value.\<close>

lemma align_up_power:
  "align_up v (2 ^ k) = Inr (v + (- v) mod 2 ^ k)"
proof -
  have m: "(v + 2 ^ k - 1) - (v + 2 ^ k - 1) mod 2 ^ k = v + (- v) mod 2 ^ k"
  proof -
    let ?p = "2 ^ k :: int"
    have p: "0 < ?p" by simp
    have "(v + ?p - 1) div ?p * ?p = (v + (- v) mod ?p) div ?p * ?p"
    proof -
      define q r where "q = (- v) div ?p" and "r = (- v) mod ?p"
      have r: "0 \<le> r" "r < ?p" unfolding r_def using p by simp_all
      have v: "v = - (q * ?p + r)" unfolding q_def r_def by (simp add: div_mult_mod_eq)
      have "v + ?p - 1 = (- q) * ?p + (?p - 1 - r)" using v by (simp add: algebra_simps)
      then have "v + ?p - 1 = ?p * (- q) + (?p - 1 - r)" by (simp add: mult.commute)
      then have "(v + ?p - 1) div ?p = - q" using int_div_pos_eq[of "v + ?p - 1" ?p "- q" "?p - 1 - r"] r by simp
      moreover have "v + r = (- q) * ?p" using v by (simp add: algebra_simps)
      then have "(v + r) div ?p = - q" using int_div_pos_eq[of "v + r" ?p "- q" 0] by (simp add: mult.commute)
      ultimately show ?thesis by (simp add: r_def)
    qed
    moreover have "(v + (- v) mod ?p) mod ?p = 0"
      by (metis add.right_inverse mod_add_right_eq mod_0)
    ultimately show ?thesis by (metis (no_types) diff_zero minus_mod_eq_div_mult)
  qed
  have "(2 ^ k :: int) AND (2 ^ k - 1) = 0" by (rule power_and_pred)
  then show ?thesis unfolding align_up_def and_neg_power m by simp
qed

lemma align_up_least:
  assumes "align_up v (2 ^ k) = Inr a"
  shows "2 ^ k dvd a" "v \<le> a" "a < v + 2 ^ k"
proof -
  have a: "a = v + (- v) mod 2 ^ k" using assms by (simp add: align_up_power)
  have "a mod 2 ^ k = 0" unfolding a by (metis add.right_inverse mod_add_right_eq mod_0)
  then show "2 ^ k dvd a" by (simp add: dvd_eq_mod_eq_0)
  show "v \<le> a" "a < v + 2 ^ k" unfolding a by simp_all
qed

section \<open>Disjoint file ranges\<close>

fun check_disjoint_loop :: "(int \<times> int \<times> string) list \<Rightarrow> int \<Rightarrow> int \<Rightarrow> string \<Rightarrow> unit res" where
  "check_disjoint_loop [] n previous_end previous_name = Inr ()"
| "check_disjoint_loop ((start, sz, name) # rest) n previous_end previous_name =
     bind_r (require_range n start sz name) (\<lambda>_.
     if start < previous_end
     then Inl (ParityError (Some name) (''overlaps '' @ previous_name))
     else check_disjoint_loop rest n (start + sz) name)"

text \<open>\<open>sorted\<close> orders the triples lexicographically.\<close>

definition check_disjoint :: "(int \<times> int \<times> string) list \<Rightarrow> int \<Rightarrow> unit res" where
  "check_disjoint ranges n =
     check_disjoint_loop (sort (filter (\<lambda>(start, sz, name). sz \<noteq> 0) ranges)) n 0 []"

definition ranges_apart :: "int \<times> int \<times> string \<Rightarrow> int \<times> int \<times> string \<Rightarrow> bool" where
  "ranges_apart r q \<longleftrightarrow> fst r + fst (snd r) \<le> fst q \<or> fst q + fst (snd q) \<le> fst r"

lemma sorted_wrt_perm:
  assumes "\<And>x y. P x y = P y x" "mset xs = mset ys"
  shows "sorted_wrt P xs \<longleftrightarrow> sorted_wrt P ys"
proof -
  have *: "sorted_wrt P ys" if "sorted_wrt P xs" "mset xs = mset ys" for xs ys
    using that
  proof (induction xs arbitrary: ys)
    case (Cons x xs)
    then have "x \<in> set ys" by (metis list.set_intros(1) mset_eq_setD)
    then obtain as bs where ys: "ys = as @ x # bs" by (auto simp: in_set_conv_decomp)
    have ms: "mset xs = mset (as @ bs)" using Cons.prems(2) ys by simp
    have st: "set (as @ bs) = set xs" using ms by (metis set_mset_mset)
    have "sorted_wrt P (as @ bs)" using Cons.IH[OF _ ms] Cons.prems(1) by simp
    then show ?case using Cons.prems(1) st[symmetric] assms(1) unfolding ys
      by (auto simp: sorted_wrt_append)
  qed simp
  show ?thesis using *[of xs ys] *[of ys xs] assms(2) by auto
qed

definition range_inside :: "int \<Rightarrow> int \<times> int \<times> string \<Rightarrow> bool" where
  "range_inside n r \<longleftrightarrow> 0 \<le> fst r \<and> 0 \<le> fst (snd r) \<and> fst r + fst (snd r) \<le> n"

lemma check_disjoint_loop_iff:
  "check_disjoint_loop xs n pe pn = Inr () \<longleftrightarrow> (\<forall>r \<in> set xs. range_inside n r \<and> pe \<le> fst r)
     \<and> sorted_wrt (\<lambda>r q. fst r + fst (snd r) \<le> fst q) xs"
proof (induction xs arbitrary: pe pn)
  case (Cons r xs)
  obtain s z nm where r: "r = (s, z, nm)" by (cases r)
  show ?case
  proof (cases "range_inside n r \<and> pe \<le> s")
    case True
    then have "check_disjoint_loop (r # xs) n pe pn = check_disjoint_loop xs n (s + z) nm"
      by (simp add: r range_inside_def)
    moreover have "pe \<le> s + z" using True by (simp add: r range_inside_def)
    then have "(\<forall>q \<in> set xs. range_inside n q \<and> s + z \<le> fst q)
        \<longleftrightarrow> (\<forall>q \<in> set xs. range_inside n q \<and> pe \<le> fst q) \<and> (\<forall>q \<in> set xs. s + z \<le> fst q)"
      by fastforce
    ultimately show ?thesis using Cons.IH[of "s + z" nm] True by (simp add: r)
  next
    case False
    then have "check_disjoint_loop (r # xs) n pe pn \<noteq> Inr ()"
      by (auto simp: r range_inside_def res_simps)
    then show ?thesis using False by (auto simp: r)
  qed
qed simp

lemma check_disjoint_iff:
  "check_disjoint ranges n = Inr () \<longleftrightarrow>
     (\<forall>r \<in> set ranges. fst (snd r) \<noteq> 0 \<longrightarrow> range_inside n r)
     \<and> sorted_wrt ranges_apart (filter (\<lambda>r. fst (snd r) \<noteq> 0) ranges)"
proof -
  define xs where "xs = filter (\<lambda>r. fst (snd r) \<noteq> 0) ranges"
  have xs: "filter (\<lambda>(start, sz, name). sz \<noteq> 0) ranges = xs"
    unfolding xs_def by (rule filter_cong) auto
  have eq: "sorted_wrt (\<lambda>r q. fst r + fst (snd r) \<le> fst q) ys \<longleftrightarrow> sorted_wrt ranges_apart ys"
    if "sorted ys" "\<forall>r \<in> set ys. range_inside n r \<and> fst (snd r) \<noteq> 0" for ys
    using that
  proof (induction ys)
    case (Cons r ys)
    have "fst r \<le> fst q" if "q \<in> set ys" for q
      using Cons.prems(1) that by (cases r; cases q) (auto simp: less_eq_prod_def)
    then have "(fst r + fst (snd r) \<le> fst q) = ranges_apart r q" if "q \<in> set ys" for q
      using Cons.prems(2) that unfolding ranges_apart_def range_inside_def by fastforce
    then show ?case using Cons by simp
  qed simp
  have "check_disjoint ranges n = Inr () \<longleftrightarrow> (\<forall>r \<in> set (sort xs). range_inside n r \<and> 0 \<le> fst r)
     \<and> sorted_wrt (\<lambda>r q. fst r + fst (snd r) \<le> fst q) (sort xs)"
    unfolding check_disjoint_def xs check_disjoint_loop_iff ..
  also have "\<dots> \<longleftrightarrow> (\<forall>r \<in> set xs. range_inside n r)
     \<and> sorted_wrt (\<lambda>r q. fst r + fst (snd r) \<le> fst q) (sort xs)"
    by (auto simp: range_inside_def)
  also have "\<dots> \<longleftrightarrow> (\<forall>r \<in> set xs. range_inside n r) \<and> sorted_wrt ranges_apart (sort xs)"
  proof -
    have nz: "\<forall>r \<in> set (sort xs). fst (snd r) \<noteq> 0" unfolding set_sort by (simp add: xs_def)
    have "sorted_wrt (\<lambda>r q. fst r + fst (snd r) \<le> fst q) (sort xs) = sorted_wrt ranges_apart (sort xs)"
      if "\<forall>r \<in> set xs. range_inside n r"
      by (rule eq[OF sorted_sort]) (use that nz in simp)
    then show ?thesis by blast
  qed
  also have "sorted_wrt ranges_apart (sort xs) \<longleftrightarrow> sorted_wrt ranges_apart xs"
    by (rule sorted_wrt_perm) (auto simp: ranges_apart_def)
  finally show ?thesis by (auto simp: xs_def)
qed

section \<open>The cache path expressions\<close>

text \<open>
  Both expressions match an absolute path component by component: \<open>(?:[^/\\x00]+/)*\<close> is any
  number of non-empty components without NUL, and \<open>/\<close> can be matched by a literal slash only.
\<close>

definition slash :: byte where "slash = 0x2F"

definition plain_component :: "bytes \<Rightarrow> bool" where
  "plain_component c \<longleftrightarrow> c \<noteq> [] \<and> 0 \<notin> set c"

definition lower_hex_byte :: "byte \<Rightarrow> bool" where
  "lower_hex_byte b \<longleftrightarrow> 0x30 \<le> b \<and> b \<le> 0x39 \<or> 0x61 \<le> b \<and> b \<le> 0x66"

definition hex32 :: "bytes \<Rightarrow> bool" where
  "hex32 c \<longleftrightarrow> length c = 32 \<and> list_all lower_hex_byte c"

definition object_name :: "bytes \<Rightarrow> bool" where
  "object_name c \<longleftrightarrow> 0 \<notin> set c \<and> 2 < length c \<and> ends_with c (bytes_of_str ''.o'')"

text \<open>\<open>CACHE_OBJECT_RE.fullmatch\<close>: groups 1 and 2.\<close>

definition cache_object_match :: "bytes \<Rightarrow> (bytes \<times> bytes) option" where
  "cache_object_match path =
     (case split_on slash path of
        first # rest \<Rightarrow>
          (case rev rest of
             name # digest # o_dir # cache # pre \<Rightarrow>
               if first = [] \<and> list_all plain_component pre \<and> cache = bytes_of_str ''local-cache''
                  \<and> o_dir = bytes_of_str ''o'' \<and> hex32 digest \<and> object_name name
               then Some (digest, name) else None
           | _ \<Rightarrow> None)
      | [] \<Rightarrow> None)"

text \<open>\<open>GLOBAL_CACHE_DIR_RE.fullmatch\<close>: group 1.\<close>

definition global_cache_dir_match :: "bytes \<Rightarrow> bytes option" where
  "global_cache_dir_match path =
     (case split_on slash path of
        first # rest \<Rightarrow>
          (case rev rest of
             digest # b_dir # cache # pre \<Rightarrow>
               if first = [] \<and> list_all plain_component pre \<and> cache = bytes_of_str ''global-cache''
                  \<and> b_dir = bytes_of_str ''b'' \<and> hex32 digest
               then Some digest else None
           | _ \<Rightarrow> None)
      | [] \<Rightarrow> None)"

text \<open>The language of the first expression, written as the expression is.\<close>

definition path_of :: "bytes list \<Rightarrow> bytes" where
  "path_of cs = concat (map (\<lambda>c. slash # c) cs)"

lemma path_of_join: "cs \<noteq> [] \<Longrightarrow> path_of cs = join_with [slash] ([] # cs)"
proof (induction cs)
  case (Cons c cs)
  then show ?case by (cases cs) (auto simp: path_of_def)
qed simp

lemma split_path_of:
  assumes "\<And>c. c \<in> set cs \<Longrightarrow> slash \<notin> set c" "cs \<noteq> []"
  shows "split_on slash (path_of cs) = [] # cs"
  unfolding path_of_join[OF assms(2)] by (rule split_on_join) (use assms(1) in auto)

lemma slash_free_literals:
  "slash \<notin> set (bytes_of_str ''local-cache'')" "slash \<notin> set (bytes_of_str ''o'')"
  "slash \<notin> set (bytes_of_str ''global-cache'')" "slash \<notin> set (bytes_of_str ''b'')"
  by (simp_all add: slash_def bytes_of_str_def)

lemma hex32_slash_free: "hex32 c \<Longrightarrow> slash \<notin> set c"
  by (auto simp: hex32_def list_all_iff lower_hex_byte_def slash_def)

lemma cache_object_match_iff:
  "cache_object_match path = Some (digest, name) \<longleftrightarrow>
    (\<exists>pre. path = path_of (pre @ [bytes_of_str ''local-cache'', bytes_of_str ''o'', digest, name])
       \<and> (\<forall>c \<in> set pre. plain_component c \<and> slash \<notin> set c) \<and> hex32 digest
       \<and> object_name name \<and> slash \<notin> set name)" (is "?l \<longleftrightarrow> ?r")
proof
  assume ?l
  then obtain first rest pre where s: "split_on slash path = first # rest"
    "rev rest = name # digest # bytes_of_str ''o'' # bytes_of_str ''local-cache'' # pre" "first = []"
    "list_all plain_component pre" "hex32 digest" "object_name name"
    by (auto simp: cache_object_match_def split: list.splits if_splits)
  have rest: "rest = rev pre @ [bytes_of_str ''local-cache'', bytes_of_str ''o'', digest, name]"
    using s(2) by (metis append_Cons append_Nil append_assoc rev.simps(2) rev_rev_ident)
  have "path = path_of rest"
    using join_split_on[of slash path] s(1,3) rest by (simp add: path_of_join)
  moreover have "\<forall>c \<in> set rest. slash \<notin> set c"
    using split_on_parts[of _ slash path] s(1) by auto
  ultimately show ?r using s(4-6) rest by (intro exI[of _ "rev pre"]) (auto simp: list_all_iff)
next
  assume ?r
  then obtain pre where p: "path = path_of (pre @ [bytes_of_str ''local-cache'', bytes_of_str ''o'', digest, name])"
    "\<forall>c \<in> set pre. plain_component c \<and> slash \<notin> set c" "hex32 digest" "object_name name"
    "slash \<notin> set name" by blast
  have "split_on slash path = [] # pre @ [bytes_of_str ''local-cache'', bytes_of_str ''o'', digest, name]"
    unfolding p(1) using p(2,3,5) slash_free_literals hex32_slash_free
    by (intro split_path_of) auto
  then show ?l using p by (simp add: cache_object_match_def list_all_iff)
qed

section \<open>Slices of concatenations\<close>

lemma py_slice_skip [range_simps]:
  assumes "blen xs \<le> i" "i \<le> j"
  shows "py_slice (xs @ ys) i j = py_slice ys (i - blen xs) (j - blen xs)"
proof -
  have "py_bound (blen (xs @ ys)) k = blen xs + py_bound (blen ys) (k - blen xs)" if "blen xs \<le> k" for k
  proof -
    have "0 \<le> k" using that blen_nonneg[of xs] by linarith
    then show ?thesis using that by (auto simp: py_bound_def)
  qed
  moreover have "0 \<le> py_bound (blen ys) (i - blen xs)" using assms by (simp add: py_bound_def)
  ultimately show ?thesis using assms
    by (simp add: py_slice_def Let_def nat_add_distrib)
qed

lemma py_slice_prefix:
  assumes "0 \<le> i" "i \<le> j" "j \<le> blen xs"
  shows "py_slice (xs @ ys) i j = py_slice xs i j"
proof -
  have "j \<le> blen (xs @ ys)" using assms(3) by (simp add: blen_def)
  moreover have "nat (j - i) \<le> length xs - nat i" using assms unfolding blen_def by linarith
  ultimately show ?thesis using assms by (simp add: py_slice_in_range del: blen_append)
qed

lemma py_slice_here: "blen (xs :: 'a list) = n \<Longrightarrow> py_slice (xs @ ys) 0 n = xs"
  using blen_nonneg[of xs] blen_nonneg[of ys] by (auto simp: py_slice_in_range)

text \<open>Equal slices have equal parts.\<close>

lemma slice_of_slice:
  assumes "0 \<le> i" "i \<le> a" "a \<le> b" "b \<le> j" "j \<le> blen data"
  shows "py_slice data a b = take (nat (b - a)) (drop (nat (a - i)) (py_slice data i j))"
proof -
  have n: "nat (b - a) \<le> nat (j - i) - nat (a - i)" "nat (a - i) + nat i = nat a"
    using assms by linarith+
  have "drop (nat (a - i)) (take (nat (j - i)) (drop (nat i) data))
      = take (nat (j - i) - nat (a - i)) (drop (nat a) data)"
    by (simp add: drop_take n(2))
  then show ?thesis using assms n(1) by (simp add: py_slice_in_range min.absorb1)
qed

lemma slice_of_equal_slices:
  assumes "py_slice data i j = py_slice data' i j" "0 \<le> i" "j \<le> blen data" "j \<le> blen data'"
    and "i \<le> a" "a \<le> b" "b \<le> j"
  shows "py_slice data a b = py_slice data' a b"
  using slice_of_slice[of i a b j data] slice_of_slice[of i a b j data'] assms by simp

lemma takeWhile_until: "c \<notin> set v \<Longrightarrow> takeWhile (\<lambda>b. b \<noteq> c) (v @ c # rest) = v"
  by (induction v) auto

lemma cstring_concat:
  assumes "0 \<notin> set v" "blen pre + blen v + 1 \<le> limit" "limit \<le> blen (pre @ v @ 0 # post)"
  shows "cstring (pre @ v @ 0 # post) (blen pre) limit locator = Inr (v, blen pre + blen v + 1)"
proof -
  let ?data = "pre @ v @ 0 # post"
  have nn: "0 \<le> blen pre" "0 \<le> blen v" "0 \<le> blen post" by simp_all
  have seg: "py_slice ?data (blen pre) limit = v @ 0 # take (nat (limit - blen pre - blen v - 1)) post"
  proof -
    have "py_slice ?data (blen pre) limit = take (nat (limit - blen pre)) (v @ 0 # post)"
    proof -
      have le: "blen pre \<le> limit" using assms(2) nn by linarith
      have "limit - blen pre \<le> blen (v @ 0 # post)" using assms(3) by simp
      then show ?thesis using le by (subst py_slice_skip[OF order_refl le]) (simp add: py_slice_in_range)
    qed
    moreover have "nat (limit - blen pre) = length v + Suc (nat (limit - blen pre - blen v - 1))"
      using assms(2) nn unfolding blen_def by linarith
    ultimately show ?thesis by simp
  qed
  have f: "find_byte 0 ?data (blen pre) limit = blen pre + blen v"
    unfolding find_byte_def seg Let_def using takeWhile_until[OF assms(1)] by (simp add: blen_def)
  have "py_slice ?data (blen pre) (blen pre + blen v) = v"
    using nn py_slice_here[OF refl, of v "0 # post"] by (simp add: py_slice_skip)
  moreover have "\<not> (limit < blen pre \<or> limit > blen ?data)" "blen pre \<le> blen ?data"
    using assms(2,3) nn by linarith+
  moreover have "\<not> blen pre + blen v < 0" using nn by linarith
  ultimately show ?thesis unfolding cstring_def f Let_def by simp
qed

section \<open>Properties\<close>

text \<open>C39. ULEB128 decoding is exact: inside the data, the decoder returns a value exactly when the bytes
  from the offset start with the minimal encoding of it, of at most ten bytes and within the limit;
  the value is below 2^70 and the returned offset is the end of the encoding.  Padded (non-minimal)
  encodings are never accepted.\<close>

theorem uleb_canonical:
  assumes "0 \<le> offset" "limit \<le> blen data"
  shows "(uleb data offset limit locator = Inr (r, e) \<longleftrightarrow>
      (\<exists>w. r = int w \<and> w < 2 ^ 70 \<and> e = offset + blen (uleb_encode w) \<and> e \<le> limit
         \<and> blen (uleb_encode w) \<le> 10 \<and> py_slice data offset e = uleb_encode w))"
proof -
  have "w < 2 ^ 70" if "blen (uleb_encode w) \<le> 10" for w
  proof -
    have "(2::nat) ^ (7 * length (uleb_encode w)) \<le> 2 ^ 70"
      using that by (intro power_increasing) (simp_all add: blen_def)
    then show ?thesis using uleb_encode_bound[of w] by linarith
  qed
  then show ?thesis unfolding uleb_iff[OF assms] by blast
qed

theorem uleb_canonical_witness:
  "uleb [0xE5, 0x8E, 0x26] 0 3 ''dwarf'' = Inr (624485, 3)"
proof -
  have e: "uleb_encode 624485 = [0xE5, 0x8E, 0x26]" by (simp add: uleb_encode.simps)
  show ?thesis
    using uleb_canonical[of 0 3 "[0xE5, 0x8E, 0x26]" "''dwarf''" 624485 3]
    by (simp add: e py_slice_in_range exI[of _ 624485])
qed

text \<open>The disjointness check accepts a list of file ranges exactly when every non-empty range lies
  inside the file and no two non-empty ranges overlap, whatever the order they are listed in.\<close>

theorem check_disjoint_exact:
  "check_disjoint ranges n = Inr () \<longleftrightarrow>
     (\<forall>r \<in> set ranges. fst (snd r) \<noteq> 0 \<longrightarrow> range_inside n r)
     \<and> sorted_wrt ranges_apart (filter (\<lambda>r. fst (snd r) \<noteq> 0) ranges)"
  by (rule check_disjoint_iff)

theorem check_disjoint_exact_witness:
  "check_disjoint [(8, 4, ''strtab''), (0, 8, ''symtab''), (3, 0, ''empty'')] 12 = Inr ()
   \<and> check_disjoint [(0, 8, ''symtab''), (7, 4, ''strtab'')] 12 \<noteq> Inr ()"
  unfolding check_disjoint_exact by (simp add: range_inside_def ranges_apart_def)

text \<open>Alignment: for every power of two the result is the least multiple of the alignment that
  is not below the value.\<close>

theorem align_up_least_multiple:
  "\<exists>a. align_up v (2 ^ k) = Inr a \<and> 2 ^ k dvd a \<and> v \<le> a \<and> a < v + 2 ^ k"
  using align_up_power[of v k] align_up_least[of v k] by blast

text \<open>The cache-object expression accepts exactly the absolute paths whose last components are
  \<open>local-cache\<close>, \<open>o\<close>, 32 lowercase hexadecimal digits and a name ending in \<open>.o\<close>, all other
  components being non-empty and free of NUL; it captures the digest and the name.\<close>

theorem cache_object_language:
  "cache_object_match path = Some (digest, name) \<longleftrightarrow>
    (\<exists>pre. path = path_of (pre @ [bytes_of_str ''local-cache'', bytes_of_str ''o'', digest, name])
       \<and> (\<forall>c \<in> set pre. plain_component c \<and> slash \<notin> set c) \<and> hex32 digest
       \<and> object_name name \<and> slash \<notin> set name)"
  by (rule cache_object_match_iff)

theorem cache_object_language_witness:
  "cache_object_match (path_of [bytes_of_str ''local-cache'', bytes_of_str ''o'',
     replicate 32 0x61, bytes_of_str ''a.o'']) = Some (replicate 32 0x61, bytes_of_str ''a.o'')"
proof -
  have "hex32 (replicate 32 0x61)" by (simp add: hex32_def lower_hex_byte_def list_all_iff)
  moreover have "object_name (bytes_of_str ''a.o'')" "slash \<notin> set (bytes_of_str ''a.o'')"
    by (simp_all add: object_name_def bytes_of_str_def ends_with_def slash_def)
  ultimately show ?thesis
    unfolding cache_object_language by (intro exI[of _ "[]"]) simp
qed

end
