(* ===== verification/Git_Output.thy ===== *)
theory Git_Output
  imports Byte_Parsing
begin

text \<open>
  The decoders of Git's output (\<open>tools/repository_git.py\<close>): one-line answers, revisions, status
  lines, path lists, index and tree records.  Every malformed answer is a
  \<open>RepositoryGitCommandError\<close> that names the operation.
\<close>

section \<open>Errors\<close>

datatype git_exc =
    Git_Error string
  | Git_Unavailable string
  | Git_Command string "int option"
  | Git_Snapshot string
  | Git_Type string

definition git_fail :: "string \<Rightarrow> git_exc + 'a" where
  "git_fail operation = Inl (Git_Command operation None)"

lemma git_fail_not_Inr [simp]: "git_fail m \<noteq> Inr x"
  by (simp add: git_fail_def)

lemma if_git_fail_Inr [res_simps]: "(if c then git_fail m else n) = Inr y \<longleftrightarrow> \<not> c \<and> n = Inr y"
  by auto

definition MAX_GIT_SMALL_OUTPUT_BYTES :: int where "MAX_GIT_SMALL_OUTPUT_BYTES = 1024 * 1024"
definition MAX_GIT_PATH_OUTPUT_BYTES :: int where "MAX_GIT_PATH_OUTPUT_BYTES = 256 * 1024 * 1024"
definition MAX_GIT_PATHS :: int where "MAX_GIT_PATHS = 1000000"
definition MAX_GIT_STDERR_BYTES :: int where "MAX_GIT_STDERR_BYTES = 1024 * 1024"

section \<open>Decoders of text\<close>

definition utf8_text :: "bytes \<Rightarrow> string option" where
  "utf8_text b = (if utf8_decode b = None then None else Some (str_of_bytes b))"

definition ascii_text :: "bytes \<Rightarrow> string option" where
  "ascii_text b = (if list_all (\<lambda>x. x < 0x80) b then Some (str_of_bytes b) else None)"

section \<open>One line\<close>

definition one_line_framed :: "bytes \<Rightarrow> bool" where
  "one_line_framed stdout \<longleftrightarrow> stdout \<noteq> [] \<and> last stdout = 10 \<and> count_list stdout 10 = 1
     \<and> 13 \<notin> set stdout \<and> 0 \<notin> set stdout"

definition decode_one_line :: "bytes \<Rightarrow> string \<Rightarrow> (bytes \<Rightarrow> string option) \<Rightarrow> git_exc + string" where
  "decode_one_line stdout operation decode =
     (if \<not> one_line_framed stdout then git_fail (operation @ '' framing'')
      else case decode (butlast stdout) of
        None \<Rightarrow> git_fail (operation @ '' encoding'')
      | Some v \<Rightarrow> if v = [] then git_fail (operation @ '' framing'') else Inr v)"

text \<open>\<open>_decode_top_level\<close> decodes with the encoding of the file system, the parameter \<open>decode\<close>.\<close>

definition decode_top_level :: "(bytes \<Rightarrow> string option) \<Rightarrow> bytes \<Rightarrow> git_exc + string" where
  "decode_top_level decode stdout =
     (if \<not> one_line_framed stdout then git_fail ''top-level verification framing''
      else case decode (butlast stdout) of
        None \<Rightarrow> git_fail ''top-level verification encoding''
      | Some v \<Rightarrow> if v = [] then git_fail ''top-level verification framing'' else Inr v)"

definition lower_hex_char :: "char \<Rightarrow> bool" where
  "lower_hex_char c \<longleftrightarrow> c \<in> set ''0123456789abcdef''"

definition object_hash :: "string \<Rightarrow> bool" where
  "object_hash s \<longleftrightarrow> (length s = 40 \<or> length s = 64) \<and> list_all lower_hex_char s"

definition decode_revision :: "bytes \<Rightarrow> git_exc + string" where
  "decode_revision stdout = bind_r (decode_one_line stdout ''revision observation'' ascii_text) (\<lambda>revision.
     if \<not> object_hash revision then git_fail ''revision observation framing'' else Inr revision)"

section \<open>Path lists\<close>

text \<open>
  \<open>PurePosixPath(path)\<close> on a relative path: empty components and \<open>.\<close> are dropped, and the
  normal form joins what is left.
\<close>

definition posix_parts :: "string \<Rightarrow> string list" where
  "posix_parts path = filter (\<lambda>p. p \<noteq> [] \<and> p \<noteq> ''.'') (split_on (CHR ''/'') path)"

definition safe_path :: "string \<Rightarrow> bool" where
  "safe_path path \<longleftrightarrow> \<not> starts_with path ''/'' \<and> posix_parts path \<noteq> []
     \<and> join_with ''/'' (posix_parts path) = path
     \<and> list_all (\<lambda>p. p \<notin> {[], ''.'', ''..''}) (posix_parts path)"

definition path_step :: "string \<Rightarrow> bytes \<Rightarrow> string list \<Rightarrow> git_exc + string list" where
  "path_step operation raw decoded =
     (case utf8_text raw of
        None \<Rightarrow> git_fail (operation @ '' encoding'')
      | Some path \<Rightarrow>
          if \<not> safe_path path then git_fail (operation @ '' path safety'')
          else if path \<in> set decoded then git_fail (operation @ '' uniqueness'')
          else Inr (decoded @ [path]))"

text \<open>\<open>stdout.split(b"\0")[:-1] if stdout else ()\<close>.\<close>

definition nul_records :: "bytes \<Rightarrow> bytes list" where
  "nul_records stdout = (if stdout = [] then [] else butlast (split_on 0 stdout))"

definition decode_path_list :: "bytes \<Rightarrow> string \<Rightarrow> int \<Rightarrow> int \<Rightarrow> git_exc + string list" where
  "decode_path_list stdout operation max_bytes max_paths =
     (if blen stdout > max_bytes then git_fail (operation @ '' output limit'')
      else if stdout \<noteq> [] \<and> last stdout \<noteq> 0 then git_fail (operation @ '' framing'')
      else if int (count_list stdout 0) > max_paths then git_fail (operation @ '' path count limit'')
      else if [] \<in> set (nul_records stdout) then git_fail (operation @ '' framing'')
      else bind_r (fold_r (path_step operation) (nul_records stdout) []) (\<lambda>decoded. Inr (sort decoded)))"

section \<open>Status\<close>

text \<open>\<open>str.splitlines\<close> on code points; a carriage return and a line feed end one line together.\<close>

definition line_boundary :: "int \<Rightarrow> bool" where
  "line_boundary p \<longleftrightarrow> p \<in> {0x0A, 0x0B, 0x0C, 0x0D, 0x1C, 0x1D, 0x1E, 0x85, 0x2028, 0x2029}"

function py_splitlines :: "int list \<Rightarrow> int list list" where
  "py_splitlines ps =
     (if ps = [] then []
      else let line = takeWhile (\<lambda>p. \<not> line_boundary p) ps; rest = dropWhile (\<lambda>p. \<not> line_boundary p) ps in
        case rest of [] \<Rightarrow> [line]
        | b # later \<Rightarrow> line # py_splitlines (if b = 0x0D \<and> later \<noteq> [] \<and> hd later = 0x0A then tl later else later))"
  by pat_completeness auto

termination
proof (relation "measure length", goal_cases)
  case (2 ps line rest b later)
  have "length (b # later) \<le> length ps" using 2(3,4) length_dropWhile_le[of "\<lambda>p. \<not> line_boundary p" ps] by metis
  then have "length later < length ps" by simp
  then show ?case by (cases later) auto
qed simp

declare py_splitlines.simps [simp del]

definition decode_status :: "bytes \<Rightarrow> git_exc + int list list" where
  "decode_status stdout =
     (if blen stdout > MAX_GIT_PATH_OUTPUT_BYTES then git_fail ''status observation output limit''
      else if 0 \<in> set stdout \<or> 13 \<in> set stdout \<or> (stdout \<noteq> [] \<and> last stdout \<noteq> 10)
      then git_fail ''status observation framing''
      else case utf8_decode stdout of
        None \<Rightarrow> git_fail ''status observation encoding''
      | Some text \<Rightarrow>
          let lines = py_splitlines text in
          if blen lines > MAX_GIT_PATHS then git_fail ''status observation path count limit''
          else if list_ex (\<lambda>line. length line < 3 \<or> line ! 2 \<noteq> 0x20) lines
          then git_fail ''status observation framing''
          else Inr lines)"

section \<open>Index and tree records\<close>

text \<open>\<open>b.partition(sep)\<close>.\<close>

definition py_partition :: "'a \<Rightarrow> 'a list \<Rightarrow> 'a list \<times> bool \<times> 'a list" where
  "py_partition c xs = (takeWhile (\<lambda>x. x \<noteq> c) xs, c \<in> set xs, tl (dropWhile (\<lambda>x. x \<noteq> c) xs))"

definition hash_bytes :: "bytes \<Rightarrow> bool" where
  "hash_bytes b \<longleftrightarrow> object_hash (str_of_bytes b)"

definition octal_bytes :: "nat \<Rightarrow> byte \<Rightarrow> bytes \<Rightarrow> bool" where
  "octal_bytes n highest b \<longleftrightarrow> length b = n \<and> list_all (\<lambda>x. 48 \<le> x \<and> x \<le> highest) b"

definition index_step :: "bytes \<Rightarrow> unit \<Rightarrow> git_exc + unit" where
  "index_step entry _ =
     (let (header, separator, raw_path) = py_partition 9 entry; fields = split_on 0x20 header in
      if \<not> separator \<or> raw_path = [] \<or> length fields \<noteq> 3 \<or> \<not> octal_bytes 6 55 (fields ! 0)
         \<or> \<not> hash_bytes (fields ! 1) \<or> \<not> octal_bytes 1 51 (fields ! 2)
      then git_fail ''index observation framing''
      else if utf8_text raw_path = None then git_fail ''index observation encoding''
      else Inr ())"

definition validate_index :: "bytes \<Rightarrow> git_exc + unit" where
  "validate_index stdout =
     (if blen stdout > MAX_GIT_PATH_OUTPUT_BYTES then git_fail ''index observation output limit''
      else if stdout \<noteq> [] \<and> last stdout \<noteq> 0 then git_fail ''index observation framing''
      else let entries = nul_records stdout in
        if blen entries > MAX_GIT_PATHS then git_fail ''index observation path count limit''
        else if [] \<in> set entries then git_fail ''index observation framing''
        else fold_r index_step entries ())"

record tree_entry =
  te_path :: string
  te_mode :: int
  te_object_id :: string

definition octal_value :: "bytes \<Rightarrow> int" where
  "octal_value ds = foldl (\<lambda>n d. n * 8 + (uint d - 48)) 0 ds"

definition tree_step :: "string \<Rightarrow> bytes \<Rightarrow> tree_entry list \<Rightarrow> git_exc + tree_entry list" where
  "tree_step operation entry entries =
     (let (header, separator, raw_path) = py_partition 9 entry; fields = split_on 0x20 header in
      if \<not> separator \<or> raw_path = [] \<or> length fields \<noteq> 3 \<or> fields ! 1 \<noteq> bytes_of_str ''blob''
         \<or> fields ! 0 \<notin> {bytes_of_str ''100644'', bytes_of_str ''100755''} \<or> \<not> hash_bytes (fields ! 2)
      then git_fail (operation @ '' regular-file tree'')
      else bind_r (decode_path_list (raw_path @ [0]) operation MAX_GIT_PATH_OUTPUT_BYTES MAX_GIT_PATHS) (\<lambda>decoded.
        if length decoded \<noteq> 1 \<or> hd decoded \<in> set (map te_path entries)
        then git_fail (operation @ '' uniqueness'')
        else Inr (entries @ [\<lparr>te_path = hd decoded, te_mode = octal_value (fields ! 0),
               te_object_id = str_of_bytes (fields ! 2)\<rparr>])))"

definition decode_tree_entries :: "bytes \<Rightarrow> string \<Rightarrow> git_exc + tree_entry list" where
  "decode_tree_entries stdout operation =
     (if blen stdout > MAX_GIT_PATH_OUTPUT_BYTES then git_fail (operation @ '' output limit'')
      else if stdout \<noteq> [] \<and> last stdout \<noteq> 0 then git_fail (operation @ '' framing'')
      else let records = nul_records stdout in
        if blen records > MAX_GIT_PATHS then git_fail (operation @ '' path count limit'')
        else bind_r (fold_r (tree_step operation) records []) (\<lambda>entries. Inr (sort_key te_path entries)))"

end
