(* ===== verification/OS_World.thy ===== *)
theory OS_World
  imports Byte_Parsing
begin

unbundle bit_operations_syntax

text \<open>
  The operating system as the tools use it: computations that act on an unknown state and may raise,
  and the calls they make (\<open>os.lstat\<close>, \<open>os.stat\<close>, \<open>os.open\<close>, \<open>os.read\<close>, path resolution, a child
  process).  The calls are operations of a \<open>git_world\<close>; nothing is assumed of what they answer,
  except that \<open>os.read(fd, n)\<close> returns at most \<open>n\<close> bytes.
\<close>

section \<open>Actions on the outside world\<close>

type_synonym ('x, 'e, 'a) io = "'e \<Rightarrow> ('x + 'a) \<times> 'e"

definition act_lift :: "'x + 'a \<Rightarrow> ('x, 'e, 'a) io" where
  "act_lift m = (\<lambda>e. (m, e))"

definition act_fail :: "'x \<Rightarrow> ('x, 'e, 'a) io" where
  "act_fail x = act_lift (Inl x)"

definition act_return :: "'a \<Rightarrow> ('x, 'e, 'a) io" where
  "act_return v = act_lift (Inr v)"

definition act_bind :: "('x, 'e, 'a) io \<Rightarrow> ('a \<Rightarrow> ('x, 'e, 'b) io) \<Rightarrow> ('x, 'e, 'b) io" where
  "act_bind m f = (\<lambda>e. case m e of (Inl x, e') \<Rightarrow> (Inl x, e') | (Inr v, e') \<Rightarrow> f v e')"

text \<open>A call that raises \<open>OSError\<close> gives \<open>None\<close>; the handler turns it into an error of the module.\<close>

definition act_io :: "('e \<Rightarrow> 'v option \<times> 'e) \<Rightarrow> 'x \<Rightarrow> ('v \<Rightarrow> ('x, 'e, 'b) io) \<Rightarrow> ('x, 'e, 'b) io" where
  "act_io call x f = (\<lambda>e. case call e of (None, e') \<Rightarrow> (Inl x, e') | (Some v, e') \<Rightarrow> f v e')"

named_theorems act_simps \<open>inversion of actions that end normally\<close>

lemma act_bind_Inr [act_simps]:
  "act_bind m f e = (Inr v, e') \<longleftrightarrow> (\<exists>x e1. m e = (Inr x, e1) \<and> f x e1 = (Inr v, e'))"
  by (auto simp: act_bind_def split: prod.splits sum.splits)

lemma act_lift_Inr [act_simps]: "act_lift m e = (Inr v, e') \<longleftrightarrow> m = Inr v \<and> e' = e"
  by (auto simp: act_lift_def)

lemma act_return_Inr [act_simps]: "act_return x e = (Inr v, e') \<longleftrightarrow> v = x \<and> e' = e"
  by (auto simp: act_return_def act_lift_def)

lemma act_fail_Inr [act_simps]: "act_fail x e = (Inr v, e') \<longleftrightarrow> False"
  by (simp add: act_fail_def act_lift_def)

lemma act_io_Inr [act_simps]:
  "act_io call x f e = (Inr v, e') \<longleftrightarrow> (\<exists>y e1. call e = (Some y, e1) \<and> f y e1 = (Inr v, e'))"
  by (auto simp: act_io_def split: prod.splits option.splits)

lemma if_act_fail [act_simps]: "(if c then act_fail x else m) e = (Inr v, e') \<longleftrightarrow> \<not> c \<and> m e = (Inr v, e')"
  by (simp add: act_fail_Inr)

lemma accepted_run: "(\<And>v e'. m = (Inr v, e') \<Longrightarrow> P v) \<Longrightarrow> case m of (Inl _, _) \<Rightarrow> True | (Inr v, _) \<Rightarrow> P v"
  by (auto split: prod.split sum.split)

type_synonym environment = "(string \<times> string) list"

section \<open>The world\<close>

text \<open>\<open>os.stat_result\<close>, and the file types in \<open>st_mode\<close>.\<close>

record stat_result =
  st_mode :: int
  st_dev :: int
  st_ino :: int
  st_size :: int
  st_mtime_ns :: int
  st_ctime_ns :: int

definition S_IFMT :: "int \<Rightarrow> int" where "S_IFMT mode = mode AND 0xF000"
definition S_ISDIR :: "int \<Rightarrow> bool" where "S_ISDIR mode \<longleftrightarrow> S_IFMT mode = 0x4000"
definition S_ISREG :: "int \<Rightarrow> bool" where "S_ISREG mode \<longleftrightarrow> S_IFMT mode = 0x8000"
definition S_ISLNK :: "int \<Rightarrow> bool" where "S_ISLNK mode \<longleftrightarrow> S_IFMT mode = 0xA000"

datatype lookup = Missing | Unreadable | Found stat_result

text \<open>What a pipe delivers: the segments written to it, and whether reading ends with an \<open>OSError\<close>.\<close>

datatype pipe = Pipe (pipe_segments: "bytes list") (pipe_breaks: bool)

datatype process = Not_Started | Finished int pipe pipe

record 'e git_world =
  gw_lstat :: "string \<Rightarrow> 'e \<Rightarrow> lookup \<times> 'e"
  gw_stat :: "string \<Rightarrow> 'e \<Rightarrow> stat_result option \<times> 'e"
  gw_resolve :: "string \<Rightarrow> 'e \<Rightarrow> string option \<times> 'e"
  gw_open :: "string \<Rightarrow> 'e \<Rightarrow> int option \<times> 'e"
  gw_fstat :: "int \<Rightarrow> 'e \<Rightarrow> stat_result option \<times> 'e"
  gw_read :: "int \<Rightarrow> int \<Rightarrow> 'e \<Rightarrow> bytes option \<times> 'e"
  gw_close :: "int \<Rightarrow> 'e \<Rightarrow> 'e"
  gw_access :: "string \<Rightarrow> 'e \<Rightarrow> bool \<times> 'e"
  gw_which :: "string \<Rightarrow> string \<Rightarrow> 'e \<Rightarrow> string option \<times> 'e"
  gw_samefile :: "string \<Rightarrow> string \<Rightarrow> 'e \<Rightarrow> bool option \<times> 'e"
  gw_spawn :: "string list \<Rightarrow> string \<Rightarrow> environment \<Rightarrow> 'e \<Rightarrow> process \<times> 'e"

definition found :: "lookup \<Rightarrow> stat_result option" where
  "found l = (case l of Found m \<Rightarrow> Some m | _ \<Rightarrow> None)"

definition os_lstat :: "('e, 'z) git_world_scheme \<Rightarrow> string \<Rightarrow> 'e \<Rightarrow> stat_result option \<times> 'e" where
  "os_lstat w path e = (case gw_lstat w path e of (l, e') \<Rightarrow> (found l, e'))"

text \<open>\<open>os.read(fd, n)\<close> returns at most \<open>n\<close> bytes and refuses a negative count.\<close>

definition os_read :: "('e, 'z) git_world_scheme \<Rightarrow> int \<Rightarrow> int \<Rightarrow> 'e \<Rightarrow> bytes option \<times> 'e" where
  "os_read w d n e =
     (if n < 0 then (None, e)
      else case gw_read w d n e of (b, e') \<Rightarrow> (map_option (take (nat n)) b, e'))"

end
