(* ===== verification/OS_Reads.thy ===== *)
theory OS_Reads
  imports OS_World
begin

text \<open>
  What a descriptor supplies, stated without the loops that read it: the bytes handed out by
  consecutive calls of \<open>os.read\<close>, and the whole content when a further call finds the end.  The
  readers of the tools are compared with these relations.
\<close>

inductive supplies :: "('e, 'z) git_world_scheme \<Rightarrow> int \<Rightarrow> 'e \<Rightarrow> bytes \<Rightarrow> 'e \<Rightarrow> bool" for w d where
  supplies_none [intro, simp]: "supplies w d e [] e"
| supplies_more: "os_read w d n e = (Some chunk, e1) \<Longrightarrow> chunk \<noteq> [] \<Longrightarrow> supplies w d e1 rest e'
    \<Longrightarrow> supplies w d e (chunk @ rest) e'"

text \<open>The descriptor handed out \<open>data\<close>, then nothing more.\<close>

definition delivers :: "('e, 'z) git_world_scheme \<Rightarrow> int \<Rightarrow> 'e \<Rightarrow> bytes \<Rightarrow> 'e \<Rightarrow> bool" where
  "delivers w d e data e' \<longleftrightarrow> (\<exists>e1 n. supplies w d e data e1 \<and> 0 < n \<and> os_read w d n e1 = (Some [], e'))"

lemma supplies_append: "supplies w d e a e1 \<Longrightarrow> supplies w d e1 b e' \<Longrightarrow> supplies w d e (a @ b) e'"
  by (induction rule: supplies.induct) (auto intro: supplies_more)

text \<open>Whatever a further call answers with a count of one, an answer without bytes is the end.\<close>

lemma delivers_probe: "supplies w d e data e1 \<Longrightarrow> os_read w d 1 e1 = (Some [], e') \<Longrightarrow> delivers w d e data e'"
  unfolding delivers_def by force

end
