(* ===== verification/Sha256.thy ===== *)
theory Sha256
  imports Prelude
begin

unbundle bit_operations_syntax

text \<open>
  \<open>hashlib.sha256\<close> (FIPS 180-4) on byte lists: the digest the CodeDirectory verification and the
  canonical digests of \<open>tools/abi_artifact_parity.py\<close> compute.
\<close>

type_synonym word32 = "32 word"

definition rotr32 :: "nat \<Rightarrow> word32 \<Rightarrow> word32" where
  "rotr32 n w = drop_bit n w OR push_bit (32 - n) w"

definition sha_k :: "word32 list" where
  "sha_k = [1116352408, 1899447441, 3049323471, 3921009573, 961987163, 1508970993, 2453635748, 2870763221,
    3624381080, 310598401, 607225278, 1426881987, 1925078388, 2162078206, 2614888103, 3248222580,
    3835390401, 4022224774, 264347078, 604807628, 770255983, 1249150122, 1555081692, 1996064986,
    2554220882, 2821834349, 2952996808, 3210313671, 3336571891, 3584528711, 113926993, 338241895,
    666307205, 773529912, 1294757372, 1396182291, 1695183700, 1986661051, 2177026350, 2456956037,
    2730485921, 2820302411, 3259730800, 3345764771, 3516065817, 3600352804, 4094571909, 275423344,
    430227734, 506948616, 659060556, 883997877, 958139571, 1322822218, 1537002063, 1747873779,
    1955562222, 2024104815, 2227730452, 2361852424, 2428436474, 2756734187, 3204031479, 3329325298]"

text \<open>The message schedule, kept newest word first.\<close>

fun sha_schedule :: "nat \<Rightarrow> word32 list \<Rightarrow> word32 list" where
  "sha_schedule 0 ws = rev ws"
| "sha_schedule (Suc n) ws =
     (let s0 = rotr32 7 (ws ! 14) XOR rotr32 18 (ws ! 14) XOR drop_bit 3 (ws ! 14);
          s1 = rotr32 17 (ws ! 1) XOR rotr32 19 (ws ! 1) XOR drop_bit 10 (ws ! 1)
      in sha_schedule n ((ws ! 15 + s0 + ws ! 6 + s1) # ws))"

record sha_state =
  sha_a :: word32
  sha_b :: word32
  sha_c :: word32
  sha_d :: word32
  sha_e :: word32
  sha_f :: word32
  sha_g :: word32
  sha_h :: word32

definition sha_round :: "word32 \<times> word32 \<Rightarrow> sha_state \<Rightarrow> sha_state" where
  "sha_round kw s =
     (let a = sha_a s; b = sha_b s; c = sha_c s; e = sha_e s; f = sha_f s; g = sha_g s;
          S1 = rotr32 6 e XOR rotr32 11 e XOR rotr32 25 e;
          ch = (e AND f) XOR (NOT e AND g);
          t1 = sha_h s + S1 + ch + fst kw + snd kw;
          S0 = rotr32 2 a XOR rotr32 13 a XOR rotr32 22 a;
          maj = (a AND b) XOR (a AND c) XOR (b AND c)
      in \<lparr>sha_a = t1 + S0 + maj, sha_b = a, sha_c = b, sha_d = c, sha_e = sha_d s + t1,
          sha_f = e, sha_g = f, sha_h = g\<rparr>)"

definition sha_block :: "word32 list \<Rightarrow> sha_state \<Rightarrow> sha_state" where
  "sha_block ws s =
     (let t = fold sha_round (zip sha_k (sha_schedule 48 (rev ws))) s
      in \<lparr>sha_a = sha_a s + sha_a t, sha_b = sha_b s + sha_b t, sha_c = sha_c s + sha_c t,
          sha_d = sha_d s + sha_d t, sha_e = sha_e s + sha_e t, sha_f = sha_f s + sha_f t,
          sha_g = sha_g s + sha_g t, sha_h = sha_h s + sha_h t\<rparr>)"

fun be_words :: "bytes \<Rightarrow> word32 list" where
  "be_words (a # b # c # d # rest) =
     (push_bit 24 (ucast a) OR push_bit 16 (ucast b) OR push_bit 8 (ucast c) OR ucast d) # be_words rest"
| "be_words _ = []"

fun sha_blocks :: "word32 list \<Rightarrow> nat \<Rightarrow> sha_state \<Rightarrow> sha_state" where
  "sha_blocks ws 0 s = s"
| "sha_blocks ws (Suc n) s = sha_blocks (drop 16 ws) n (sha_block (take 16 ws) s)"

fun be_bytes :: "nat \<Rightarrow> nat \<Rightarrow> bytes" where
  "be_bytes 0 v = []"
| "be_bytes (Suc n) v = of_nat (v div 256 ^ n) # be_bytes n v"

text \<open>Padding: a one bit, zeros, and the length in bits as a 64-bit big-endian number.\<close>

definition sha_pad :: "bytes \<Rightarrow> bytes" where
  "sha_pad m = m @ [0x80] @ replicate ((119 - length m mod 64) mod 64) 0 @ be_bytes 8 (8 * length m)"

definition word_bytes :: "word32 \<Rightarrow> bytes" where
  "word_bytes w = [ucast (drop_bit 24 w), ucast (drop_bit 16 w), ucast (drop_bit 8 w), ucast w]"

definition sha_init :: sha_state where
  "sha_init = \<lparr>sha_a = 0x6a09e667, sha_b = 0xbb67ae85, sha_c = 0x3c6ef372, sha_d = 0xa54ff53a,
     sha_e = 0x510e527f, sha_f = 0x9b05688c, sha_g = 0x1f83d9ab, sha_h = 0x5be0cd19\<rparr>"

definition sha256 :: "bytes \<Rightarrow> bytes" where
  "sha256 m =
     (let p = sha_pad m; s = sha_blocks (be_words p) (length p div 64) sha_init
      in concat (map word_bytes [sha_a s, sha_b s, sha_c s, sha_d s, sha_e s, sha_f s, sha_g s, sha_h s]))"

text \<open>\<open>sha256_bytes\<close>: the lowercase hexadecimal digest.\<close>

definition sha256_bytes :: "bytes \<Rightarrow> string" where
  "sha256_bytes data = hex_of_bytes (sha256 data)"

lemma concat_word_bytes: "length (concat (map word_bytes ws)) = 4 * length ws"
  by (induction ws) (simp_all add: word_bytes_def)

lemma length_sha256 [simp]: "length (sha256 m) = 32"
  unfolding sha256_def Let_def concat_word_bytes by simp

lemma blen_sha256 [simp]: "blen (sha256 m) = 32"
  by (simp add: blen_def)

lemma length_sha256_bytes [simp]: "length (sha256_bytes m) = 64"
  by (simp add: sha256_bytes_def)

lemma length_be_bytes [simp]: "length (be_bytes n v) = n"
  by (induction n) simp_all

text \<open>The padded message is a whole number of 64-byte blocks.\<close>

lemma sha_pad_blocks: "64 dvd length (sha_pad m)"
proof -
  have n: "(n + 9 + (119 - n mod 64) mod 64) mod 64 = 0" for n :: nat
  proof -
    define r where "r = n mod 64"
    have "r < 64" by (simp add: r_def)
    have "(n + 9 + (119 - r) mod 64) mod 64 = (r + 9 + (119 - r)) mod 64"
      unfolding r_def by (metis mod_add_eq mod_add_left_eq mod_mod_trivial)
    also have "\<dots> = 0" using \<open>r < 64\<close> by simp
    finally show ?thesis by (simp add: r_def)
  qed
  have "length (sha_pad m) = length m + 9 + (119 - length m mod 64) mod 64"
    by (simp add: sha_pad_def)
  then show ?thesis using n[of "length m"] by (simp only: dvd_eq_mod_eq_0)
qed

end
