(* ===== verification/Json.thy ===== *)
theory Json
  imports Byte_Parsing Sha256
begin

text \<open>
  JSON values as the parity module builds them (\<open>dict\<close>, \<open>list\<close>, \<open>str\<close>, \<open>int\<close>, \<open>bool\<close>, \<open>None\<close>),
  Python equality on them, and \<open>canonical_json_bytes\<close>.  A tuple is a list here: every comparison
  is made after \<open>_normalized_axes\<close>, which turns tuples into lists, and \<open>json.dumps\<close> prints both alike.
\<close>

datatype json = JNull | JBool bool | JInt int | JStr string | JList "json list"
  | JObj "(string \<times> json) list"

definition jopt :: "('a \<Rightarrow> json) \<Rightarrow> 'a option \<Rightarrow> json" where
  "jopt f x = (case x of None \<Rightarrow> JNull | Some a \<Rightarrow> f a)"

abbreviation jints :: "int list \<Rightarrow> json" where "jints xs \<equiv> JList (map JInt xs)"
abbreviation jstrs :: "string list \<Rightarrow> json" where "jstrs xs \<equiv> JList (map JStr xs)"

section \<open>Equality\<close>

text \<open>\<open>==\<close>: dictionaries compare as mappings, and a Boolean equals the integer 0 or 1.\<close>

function json_eq :: "json \<Rightarrow> json \<Rightarrow> bool" where
  "json_eq JNull y = (y = JNull)"
| "json_eq (JBool b) y = (case y of JBool c \<Rightarrow> b = c | JInt i \<Rightarrow> i = of_bool b | _ \<Rightarrow> False)"
| "json_eq (JInt i) y = (case y of JInt j \<Rightarrow> i = j | JBool b \<Rightarrow> i = of_bool b | _ \<Rightarrow> False)"
| "json_eq (JStr s) y = (y = JStr s)"
| "json_eq (JList xs) y = (case y of JList ys \<Rightarrow> list_all2 json_eq xs ys | _ \<Rightarrow> False)"
| "json_eq (JObj d) y = (case y of
     JObj e \<Rightarrow> length d = length e
       \<and> list_all (\<lambda>p. case map_of e (fst p) of Some w \<Rightarrow> json_eq (snd p) w | None \<Rightarrow> False) d
   | _ \<Rightarrow> False)"
  by pat_completeness auto

termination
proof (relation "measure (\<lambda>(x, y). size x)", goal_cases)
  case (2 xs y ys z za)
  then show ?case by (simp add: less_Suc_eq_le size_list_estimation')
next
  case (3 d y e p w)
  obtain a b where p: "p = (a, b)" by (cases p)
  have "size b \<le> size_list (size_prod (\<lambda>_. 0) size) d"
    by (rule size_list_estimation'[OF 3(2)[unfolded p]]) simp
  then show ?case using p by (simp add: less_Suc_eq_le)
qed simp

section \<open>Serialization\<close>

text \<open>Escapes of \<open>ensure_ascii\<close>: everything outside the printable ASCII range is \<open>\\uXXXX\<close>.\<close>

definition hex4 :: "nat \<Rightarrow> string" where
  "hex4 n = [digit_char (n div 4096 mod 16), digit_char (n div 256 mod 16), digit_char (n div 16 mod 16),
     digit_char (n mod 16)]"

definition esc_unit :: "nat \<Rightarrow> string" where
  "esc_unit n = CHR 0x5C # CHR ''u'' # hex4 n"

definition esc_point :: "int \<Rightarrow> string" where
  "esc_point p =
     (let n = nat p in
      if n = 0x22 then [CHR 0x5C, CHR 0x22]
      else if n = 0x5C then [CHR 0x5C, CHR 0x5C]
      else if n = 10 then [CHR 0x5C, CHR ''n'']
      else if n = 13 then [CHR 0x5C, CHR ''r'']
      else if n = 9 then [CHR 0x5C, CHR ''t'']
      else if n = 12 then [CHR 0x5C, CHR ''f'']
      else if n = 8 then [CHR 0x5C, CHR ''b'']
      else if 32 \<le> n \<and> n < 127 then [char_of n]
      else if n < 0x10000 then esc_unit n
      else esc_unit (0xD800 + (n - 0x10000) div 1024) @ esc_unit (0xDC00 + (n - 0x10000) mod 1024))"

definition code_points :: "string \<Rightarrow> int list" where
  "code_points s = (case utf8_decode (bytes_of_str s) of Some ps \<Rightarrow> ps | None \<Rightarrow> [])"

definition quote_json :: "string \<Rightarrow> string" where
  "quote_json s = [CHR 0x22] @ concat (map esc_point (code_points s)) @ [CHR 0x22]"

text \<open>\<open>json.dumps(value, sort_keys=True, separators=(",", ":"), ensure_ascii=True)\<close>.\<close>

function json_dumps :: "json \<Rightarrow> string" where
  "json_dumps JNull = ''null''"
| "json_dumps (JBool b) = (if b then ''true'' else ''false'')"
| "json_dumps (JInt i) = show_int i"
| "json_dumps (JStr s) = quote_json s"
| "json_dumps (JList xs) = ''['' @ join_with '','' (map json_dumps xs) @ '']''"
| "json_dumps (JObj d) = ''{'' @ join_with '',''
     (map snd (sort_key fst (map (\<lambda>p. (fst p, quote_json (fst p) @ '':'' @ json_dumps (snd p))) d))) @ ''}''"
  by pat_completeness auto

termination
proof (relation "measure size", goal_cases)
  case (2 xs x)
  then show ?case by (simp add: less_Suc_eq_le size_list_estimation')
next
  case (3 d p)
  obtain a b where p: "p = (a, b)" by (cases p)
  have "size b \<le> size_list (size_prod (\<lambda>_. 0) size) d"
    by (rule size_list_estimation'[OF 3[unfolded p]]) simp
  then show ?case using p by (simp add: less_Suc_eq_le)
qed simp

definition canonical_json_bytes :: "json \<Rightarrow> bytes" where
  "canonical_json_bytes v = bytes_of_str (json_dumps v)"

section \<open>Dictionaries\<close>

text \<open>\<open>d[k] = v\<close>, \<open>d.update(e)\<close> and \<open>d[k]\<close> on objects.\<close>

definition obj_set :: "string \<Rightarrow> json \<Rightarrow> json \<Rightarrow> json" where
  "obj_set k v j = (case j of JObj d \<Rightarrow> JObj (dict_set k v d) | _ \<Rightarrow> j)"

definition obj_update :: "json \<Rightarrow> json \<Rightarrow> json" where
  "obj_update j k = (case (j, k) of (JObj d, JObj e) \<Rightarrow> JObj (dict_update d e) | _ \<Rightarrow> j)"

definition obj_get :: "json \<Rightarrow> string \<Rightarrow> json res" where
  "obj_get j k = (case j of JObj d \<Rightarrow> (case map_of d k of Some v \<Rightarrow> Inr v | None \<Rightarrow> Inl (KeyError k))
     | _ \<Rightarrow> Inl (KeyError k))"

section \<open>Equality is an equivalence on well-formed values\<close>

inductive json_wf :: "json \<Rightarrow> bool" where
  "json_wf JNull"
| "json_wf (JBool b)"
| "json_wf (JInt i)"
| "json_wf (JStr s)"
| "(\<And>x. x \<in> set xs \<Longrightarrow> json_wf x) \<Longrightarrow> json_wf (JList xs)"
| "distinct (map fst d) \<Longrightarrow> (\<And>p. p \<in> set d \<Longrightarrow> json_wf (snd p)) \<Longrightarrow> json_wf (JObj d)"

inductive_simps json_wf_simps [simp]:
  "json_wf (JList xs)" "json_wf (JObj d)" "json_wf JNull" "json_wf (JInt i)" "json_wf (JStr s)" "json_wf (JBool b)"

lemma json_eq_refl: "json_wf j \<Longrightarrow> json_eq j j"
proof (induction rule: json_wf.induct)
  case (5 xs)
  then show ?case by (simp add: list_all2_same)
next
  case (6 d)
  then show ?case by (auto simp: list_all_iff)
qed simp_all

end
