(* ===== verification/Verify_Redactor.thy ===== *)
theory Verify_Redactor
  imports Json "HOL-Library.Sublist"
begin

text \<open>
  \<open>SensitivePathRedactor\<close> of \<open>tools/verify_abi_artifact_parity.py\<close>: generated roots are replaced by
  stable tokens in everything the verifier reports.
\<close>

section \<open>Replacing\<close>

text \<open>\<open>str.replace\<close> and \<open>bytes.replace\<close>: leftmost occurrences that do not overlap.\<close>

function replace_from :: "'a list \<Rightarrow> 'a list \<Rightarrow> 'a list \<Rightarrow> 'a list" where
  "replace_from old new s =
     (if s = [] \<or> old = [] then s
      else if starts_with s old then new @ replace_from old new (drop (length old) s)
      else hd s # replace_from old new (tl s))"
  by pat_completeness auto

termination
  by (relation "measure (\<lambda>(old, new, s). length s)") (auto simp: neq_Nil_conv)

declare replace_from.simps [simp del]

definition py_replace :: "'a list \<Rightarrow> 'a list \<Rightarrow> 'a list \<Rightarrow> 'a list" where
  "py_replace old new s =
     (if old = [] then new @ concat (map (\<lambda>c. c # new) s) else replace_from old new s)"

section \<open>The redactor\<close>

type_synonym redactor = "(string \<times> string) list"

text \<open>\<open>len\<close> of a \<open>str\<close> counts code points: the bytes of the encoding that continue none.\<close>

definition str_len :: "string \<Rightarrow> int" where
  "str_len s = blen (filter (\<lambda>c. of_char c < (128 :: nat) \<or> 192 \<le> (of_char c :: nat)) s)"

text \<open>
  \<open>os.path.abspath\<close> and \<open>os.path.realpath\<close> are parameters; \<open>None\<close> is an exception that \<open>add_root\<close>
  swallows.
\<close>

definition redactor_add :: "string \<Rightarrow> string \<Rightarrow> redactor \<Rightarrow> redactor" where
  "redactor_add placeholder candidate roots =
     (if candidate \<noteq> [] \<and> candidate \<noteq> ''/'' then dict_set candidate placeholder roots else roots)"

definition add_root :: "(string \<Rightarrow> string option) \<Rightarrow> (string \<Rightarrow> string option) \<Rightarrow> string \<Rightarrow> string \<Rightarrow> redactor \<Rightarrow> redactor res" where
  "add_root abspath realpath path placeholder roots =
     (if \<not> starts_with placeholder ''<'' \<or> \<not> ends_with placeholder ''>''
      then Inl (ValueError ''sensitive-path placeholders must be stable tokens'')
      else case abspath path of
        None \<Rightarrow> Inr roots
      | Some absolute \<Rightarrow>
          if absolute = ''/'' then Inr roots
          else Inr (let roots = redactor_add placeholder absolute roots in
            case realpath absolute of None \<Rightarrow> roots | Some real \<Rightarrow> redactor_add placeholder real roots))"

definition redactor_order :: "redactor \<Rightarrow> redactor" where
  "redactor_order roots = sort_key (\<lambda>p. - str_len (fst p)) (sort_key fst roots)"

definition sanitize_text :: "redactor \<Rightarrow> string \<Rightarrow> string" where
  "sanitize_text roots v = fold (\<lambda>(root, placeholder). py_replace root placeholder) (redactor_order roots) v"

definition sanitize_bytes :: "redactor \<Rightarrow> bytes \<Rightarrow> bytes" where
  "sanitize_bytes roots v =
     fold (\<lambda>(root, placeholder). py_replace (bytes_of_str root) (bytes_of_str placeholder)) (redactor_order roots) v"

text \<open>\<open>sanitize_value\<close> on report values; a tuple is a list.\<close>

function sanitize_value :: "redactor \<Rightarrow> json \<Rightarrow> json" where
  "sanitize_value roots (JStr s) = JStr (sanitize_text roots s)"
| "sanitize_value roots (JObj d) =
     JObj (fold (\<lambda>(k, v). dict_set k v) (map (\<lambda>p. (sanitize_text roots (fst p), sanitize_value roots (snd p))) d) [])"
| "sanitize_value roots (JList xs) = JList (map (sanitize_value roots) xs)"
| "sanitize_value roots JNull = JNull"
| "sanitize_value roots (JBool b) = JBool b"
| "sanitize_value roots (JInt i) = JInt i"
  by pat_completeness auto

termination
proof (relation "measure (\<lambda>(roots, j). size j)", goal_cases)
  case (2 roots d p)
  obtain a b where p: "p = (a, b)" by (cases p)
  have "size b \<le> size_list (size_prod (\<lambda>_. 0) size) d"
    by (rule size_list_estimation'[OF 2[unfolded p]]) simp
  then show ?case using p by (simp add: less_Suc_eq_le)
next
  case (3 roots xs x)
  then show ?case by (simp add: less_Suc_eq_le size_list_estimation')
qed simp

section \<open>Nothing registered remains\<close>

text \<open>Every string of a value, keys included.\<close>

function json_texts :: "json \<Rightarrow> string list" where
  "json_texts (JStr s) = [s]"
| "json_texts (JObj d) = concat (map (\<lambda>p. fst p # json_texts (snd p)) d)"
| "json_texts (JList xs) = concat (map json_texts xs)"
| "json_texts JNull = []"
| "json_texts (JBool b) = []"
| "json_texts (JInt i) = []"
  by pat_completeness auto

termination
proof (relation "measure size", goal_cases)
  case (2 d p)
  obtain a b where p: "p = (a, b)" by (cases p)
  have "size b \<le> size_list (size_prod (\<lambda>_. 0) size) d"
    by (rule size_list_estimation'[OF 2[unfolded p]]) simp
  then show ?case using p by (simp add: less_Suc_eq_le)
next
  case (3 xs x)
  then show ?case by (simp add: less_Suc_eq_le size_list_estimation')
qed simp

text \<open>
  An absolute root without \<open><\<close>, and a token that opens with \<open><\<close> and has no slash: an occurrence of
  such a root can neither begin inside a token nor reach into one, whatever the other roots are.
\<close>

definition root_ok :: "string \<Rightarrow> bool" where
  "root_ok root \<longleftrightarrow> root \<noteq> [] \<and> hd root = CHR ''/'' \<and> CHR ''<'' \<notin> set root"

definition token_ok :: "string \<Rightarrow> bool" where
  "token_ok t \<longleftrightarrow> t \<noteq> [] \<and> hd t = CHR ''<'' \<and> CHR ''/'' \<notin> set t"

lemma starts_with_prefix: "starts_with s p \<longleftrightarrow> prefix p s"
  by (auto simp: starts_with_def prefix_def) (metis append_take_drop_id)

lemma replace_prefix:
  assumes "prefix r (replace_from old new s)" "CHR ''<'' \<notin> set r" "token_ok new"
  shows "prefix r s"
  using assms
proof (induction old new s arbitrary: r rule: replace_from.induct)
  case (1 old new s)
  show ?case
  proof (cases "s = [] \<or> old = []")
    case True
    then show ?thesis using "1.prems"(1) by (simp add: replace_from.simps)
  next
    case False
    show ?thesis
    proof (cases r)
      case (Cons c cs)
      have nm: "\<not> starts_with s old"
      proof
        assume m: "starts_with s old"
        obtain ts where "new = CHR ''<'' # ts" using "1.prems"(3) by (cases new) (auto simp: token_ok_def)
        then show False using "1.prems"(1,2) False m Cons by (subst (asm) replace_from.simps) auto
      qed
      then have p: "c = hd s" "prefix cs (replace_from old new (tl s))"
        using "1.prems"(1) False Cons by (subst (asm) replace_from.simps, simp)+
      have "prefix cs (tl s)" by (rule "1.IH"(2)[OF False nm p(2)]) (use "1.prems"(2,3) Cons in auto)
      then show ?thesis using p(1) False Cons by (cases s) auto
    qed simp
  qed
qed

lemma sublist_token:
  assumes "sublist r (t @ s)" "root_ok r" "token_ok t"
  shows "sublist r s"
proof -
  obtain a b where ab: "t @ s = a @ r @ b" using assms(1) by (auto simp: sublist_def)
  have "\<not> length a < length t"
  proof
    assume l: "length a < length t"
    have "(t @ s) ! length a = hd r" using ab assms(2) by (cases r) (auto simp: root_ok_def)
    then have "t ! length a = CHR ''/''" using l assms(2) by (simp add: nth_append root_ok_def)
    then show False using l assms(3) nth_mem[of "length a" t] by (simp add: token_ok_def)
  qed
  then have "s = drop (length t) (a @ r @ b)" using ab by (metis append_eq_conv_conj)
  also have "\<dots> = drop (length t) a @ r @ b" using \<open>\<not> length a < length t\<close> by simp
  finally show ?thesis by (auto simp: sublist_def)
qed

lemma replace_hides:
  assumes "r = old \<or> \<not> sublist r s" "root_ok r" "token_ok new" "old \<noteq> []"
  shows "\<not> sublist r (replace_from old new s)"
  using assms
proof (induction old new s rule: replace_from.induct)
  case (1 old new s)
  show ?case
  proof (cases "s = []")
    case True
    then show ?thesis using "1.prems"(2) by (simp add: replace_from.simps root_ok_def)
  next
    case False
    then have c: "\<not> (s = [] \<or> old = [])" using "1.prems"(4) by simp
    show ?thesis
    proof (cases "starts_with s old")
      case True
      have "r = old \<or> \<not> sublist r (drop (length old) s)"
        using "1.prems"(1) sublist_order.order_trans[OF _ sublist_drop] by blast
      then have "\<not> sublist r (replace_from old new (drop (length old) s))"
        using "1.IH"(1)[OF c True] "1.prems" by blast
      then show ?thesis
        using sublist_token "1.prems"(2,3) True c by (subst replace_from.simps) auto
    next
      case nm: False
      have "r = old \<or> \<not> sublist r (tl s)"
        using "1.prems"(1) sublist_order.order_trans[OF _ sublist_tl] by blast
      then have t: "\<not> sublist r (replace_from old new (tl s))"
        using "1.IH"(2)[OF c nm] "1.prems" by blast
      have "\<not> prefix r (replace_from old new s)"
      proof
        assume "prefix r (replace_from old new s)"
        then have "prefix r s" using replace_prefix "1.prems"(2,3) by (auto simp: root_ok_def)
        then show False using "1.prems"(1) nm by (auto simp: starts_with_prefix)
      qed
      then show ?thesis using t nm c by (subst replace_from.simps, subst (asm) (2) replace_from.simps) (auto simp: sublist_Cons_right)
    qed
  qed
qed

definition redactor_ok :: "redactor \<Rightarrow> bool" where
  "redactor_ok roots \<longleftrightarrow> list_all (\<lambda>p. fst p \<noteq> [] \<and> token_ok (snd p)) roots"

lemma fold_replace_hides:
  assumes "redactor_ok rs" "root_ok r" "r \<in> fst ` set rs \<or> \<not> sublist r s"
  shows "\<not> sublist r (fold (\<lambda>(root, placeholder). py_replace root placeholder) rs s)"
  using assms
proof (induction rs arbitrary: s)
  case (Cons p rs)
  obtain root token where p: "p = (root, token)" by (cases p)
  have ok: "token_ok token" "redactor_ok rs" and ne: "root \<noteq> []" using Cons.prems(1) by (auto simp: redactor_ok_def p)
  have "r \<in> fst ` set rs \<or> \<not> sublist r (py_replace root token s)"
    using Cons.prems(2,3) replace_hides[OF _ Cons.prems(2) ok(1) ne, of s] ne by (auto simp: p py_replace_def)
  then show ?case using Cons.IH[OF ok(2) Cons.prems(2)] by (simp add: p)
qed simp

lemma set_redactor_order [simp]: "set (redactor_order roots) = set roots"
  by (simp add: redactor_order_def)

lemma sanitize_text_hides:
  assumes "redactor_ok roots" "r \<in> fst ` set roots" "root_ok r"
  shows "\<not> sublist r (sanitize_text roots s)"
  unfolding sanitize_text_def
  by (rule fold_replace_hides) (use assms in \<open>auto simp: redactor_ok_def list_all_iff\<close>)

lemma texts_fold_dict_set:
  "set (json_texts (JObj (fold (\<lambda>(k, v). dict_set k v) e d)))
     \<subseteq> set (json_texts (JObj d)) \<union> set (json_texts (JObj e))"
proof (induction e arbitrary: d)
  case (Cons p e)
  obtain k v where p: "p = (k, v)" by (cases p)
  have "set (json_texts (JObj (dict_set k v d))) \<subseteq> set (json_texts (JObj d)) \<union> {k} \<union> set (json_texts v)"
    by (induction k v d rule: dict_set.induct) auto
  moreover have "set (json_texts (JObj (p # e))) = {k} \<union> set (json_texts v) \<union> set (json_texts (JObj e))"
    by (auto simp: p)
  ultimately show ?case
    using Cons.IH[of "dict_set k v d"] unfolding p fold_Cons o_apply prod.case by blast
qed simp

lemma sanitized_texts: "set (json_texts (sanitize_value roots j)) \<subseteq> range (sanitize_text roots)"
proof (induction roots j rule: sanitize_value.induct)
  case (2 roots d)
  let ?e = "map (\<lambda>p. (sanitize_text roots (fst p), sanitize_value roots (snd p))) d"
  have "set (json_texts (JObj ?e)) \<subseteq> range (sanitize_text roots)" using 2 by (auto; blast)
  then show ?case using texts_fold_dict_set[of ?e "[]"] by auto
qed (auto; blast)+

text \<open>A redacted value shows no registered absolute root without \<open><\<close>, neither in a string nor in a key, whatever order the
  roots were registered in and however they nest: a token never helps to spell a root again.\<close>

theorem redactor_hides_roots:
  assumes "redactor_ok roots" "root \<in> fst ` set roots" "root_ok root"
  shows "list_all (\<lambda>s. \<not> sublist root s) (json_texts (sanitize_value roots j))"
  using sanitized_texts[of roots j] sanitize_text_hides[OF assms] by (auto simp: list_all_iff)

theorem redactor_hides_roots_witness:
  "list_all (\<lambda>s. \<not> sublist ''/t/a'' s)
     (json_texts (sanitize_value [(''/t'', ''<t>''), (''/t/a'', ''<a>'')] (JObj [(''log'', JStr ''in /t/a/b'')])))"
  by (rule redactor_hides_roots) (simp_all add: redactor_ok_def root_ok_def token_ok_def)

end
