(* ===== verification/Verify_Files.thy ===== *)
theory Verify_Files
  imports OS_Reads Verify_Redactor
begin

text \<open>
  Failures, exact file reads, control documents and fresh roots of
  \<open>tools/verify_abi_artifact_parity.py\<close>.
\<close>

section \<open>Failures\<close>

text \<open>
  \<open>VerificationError\<close> with code, message and locator; what else can escape: a built-in exception, an
  \<open>OSError\<close>, and an \<open>ArtifactSnapshotError\<close> with its code.
\<close>

datatype ver_exc = Verification string string string | Raised py_exc | Os_Error | Snapshot_Failed string

type_synonym 'a ver = "ver_exc + 'a"

definition ver_fail :: "string \<Rightarrow> string \<Rightarrow> string \<Rightarrow> 'a ver" where
  "ver_fail code message locator = Inl (Verification code message locator)"

lemma ver_fail_not_Inr [simp]: "ver_fail c m l \<noteq> Inr x"
  by (simp add: ver_fail_def)

lemma if_ver_fail_Inr [res_simps]: "(if c then ver_fail a b d else n) = Inr y \<longleftrightarrow> \<not> c \<and> n = Inr y"
  by auto

definition error_json :: "string \<Rightarrow> string \<Rightarrow> string \<Rightarrow> json" where
  "error_json code message locator =
     JObj [(''code'', JStr code), (''locator'', JStr locator), (''message'', JStr message)]"

section \<open>Exact reads\<close>

definition MAX_JSON_BYTES :: int where "MAX_JSON_BYTES = 128 * 1024 * 1024"
definition MAX_HASH_BYTES :: int where "MAX_HASH_BYTES = 512 * 1024 * 1024"

definition stable_file_identity :: "stat_result \<Rightarrow> int list" where
  "stable_file_identity m = [st_dev m, st_ino m, st_mode m, st_size m, st_mtime_ns m, st_ctime_ns m]"

record exact_file =
  ef_data :: bytes
  ef_size :: int
  ef_sha256 :: string
  ef_metadata :: stat_result

function read_frozen :: "('e, 'z) git_world_scheme \<Rightarrow> string \<Rightarrow> int \<Rightarrow> int \<Rightarrow> bytes \<Rightarrow> (ver_exc, 'e, bytes) io" where
  "read_frozen w locator d remaining contents e =
     (if remaining = 0 then (Inr contents, e)
      else case os_read w d (min 1048576 remaining) e of
        (None, e') \<Rightarrow> (ver_fail ''file_read_failed'' ''exact file read failed'' locator, e')
      | (Some chunk, e') \<Rightarrow>
          if chunk = [] then (ver_fail ''file_short_read'' ''file ended before its frozen size'' locator, e')
          else if blen chunk > remaining
          then (ver_fail ''file_read_overflow'' ''file read exceeded its frozen size'' locator, e')
          else read_frozen w locator d (remaining - blen chunk) (contents @ chunk) e')"
  by pat_completeness auto

termination
  by (relation "measure (\<lambda>(w, locator, d, remaining, contents, e). nat remaining)")
    (auto simp: os_read_def blen_def min_def split: if_splits prod.splits)

declare read_frozen.simps [simp del]

definition frozen_contents :: "('e, 'z) git_world_scheme \<Rightarrow> int \<Rightarrow> stat_result \<Rightarrow> int \<Rightarrow> string
    \<Rightarrow> (ver_exc, 'e, stat_result \<times> bytes \<times> stat_result) io" where
  "frozen_contents w d before_leaf max_bytes locator =
     act_io (gw_fstat w d) Os_Error (\<lambda>opened.
     if \<not> S_ISREG (st_mode opened) \<or> stable_file_identity opened \<noteq> stable_file_identity before_leaf
     then act_fail (Verification ''file_leaf_rebound'' ''file leaf changed while it was opened'' locator)
     else if st_size opened < 0 \<or> st_size opened > max_bytes
     then act_fail (Verification ''file_size_out_of_range''
       (''file exceeds the '' @ show_int max_bytes @ ''-byte verifier limit'') locator)
     else
     act_bind (read_frozen w locator d (st_size opened) []) (\<lambda>data.
     act_io (os_read w d 1) (Verification ''file_read_failed'' ''growth probe failed'' locator) (\<lambda>growth.
     if growth \<noteq> []
     then act_fail (Verification ''file_grew_during_read'' ''file supplied bytes beyond its frozen size'' locator)
     else act_io (gw_fstat w d) Os_Error (\<lambda>final. act_return (opened, data, final)))))"

text \<open>\<open>finally: os.close(descriptor)\<close>.\<close>

definition with_descriptor :: "('e, 'z) git_world_scheme \<Rightarrow> int \<Rightarrow> ('x, 'e, 'a) io \<Rightarrow> ('x, 'e, 'a) io" where
  "with_descriptor w d body = (\<lambda>e. case body e of (r, e') \<Rightarrow> (r, gw_close w d e'))"

definition read_exact_regular_file :: "('e, 'z) git_world_scheme \<Rightarrow> string \<Rightarrow> int \<Rightarrow> string \<Rightarrow> (ver_exc, 'e, exact_file) io" where
  "read_exact_regular_file w path max_bytes locator =
     (if max_bytes < 0 then act_fail (Raised (ValueError ''max_bytes must be a nonnegative integer''))
      else
      act_io (os_lstat w path) (Verification ''file_stat_failed'' ''file leaf cannot be inspected'' locator) (\<lambda>before_leaf.
      if \<not> S_ISREG (st_mode before_leaf)
      then act_fail (Verification ''file_not_regular'' ''file leaf must be regular'' locator)
      else
      act_io (gw_open w path) (Verification ''file_open_failed'' ''file leaf cannot be opened safely'' locator) (\<lambda>d.
      act_bind (with_descriptor w d (frozen_contents w d before_leaf max_bytes locator)) (\<lambda>(opened, data, final).
      act_io (os_lstat w path) (Verification ''file_leaf_rebound'' ''file leaf disappeared after it was read'' locator) (\<lambda>after_leaf.
      if \<not> S_ISREG (st_mode final) \<or> \<not> S_ISREG (st_mode after_leaf)
         \<or> stable_file_identity final \<noteq> stable_file_identity opened
         \<or> stable_file_identity after_leaf \<noteq> stable_file_identity opened
      then act_fail (Verification ''file_changed_during_read''
        ''file identity or metadata changed during its exact read'' locator)
      else if blen data \<noteq> st_size opened
      then act_fail (Verification ''file_short_read'' ''file read did not produce its frozen size'' locator)
      else act_return \<lparr>ef_data = data, ef_size = st_size opened, ef_sha256 = sha256_bytes data,
        ef_metadata = opened\<rparr>)))))"

definition sha256_file :: "('e, 'z) git_world_scheme \<Rightarrow> string \<Rightarrow> string option \<Rightarrow> (ver_exc, 'e, string) io" where
  "sha256_file w path locator =
     act_bind (read_exact_regular_file w path MAX_HASH_BYTES
       (case locator of Some l \<Rightarrow> if l = [] then path else l | None \<Rightarrow> path)) (\<lambda>f. act_return (ef_sha256 f))"

text \<open>
  A captured artifact, and the owner of the private snapshots (\<open>bench/tools/benchmark_artifacts.py\<close>),
  whose operations are parameters: each reverifies the private copy and may raise an
  \<open>ArtifactSnapshotError\<close>, of which the code is kept.  Capturing takes names and paths.
\<close>

record snapshot =
  sn_name :: string
  sn_path :: string
  sn_size :: int
  sn_sha256 :: string

record 'e snapshot_owner =
  so_execution_path :: "snapshot \<Rightarrow> 'e \<Rightarrow> (string + string) \<times> 'e"
  so_metadata_record :: "snapshot \<Rightarrow> 'e \<Rightarrow> (string + json) \<times> 'e"
  so_capture :: "(string \<times> string) list \<Rightarrow> 'e \<Rightarrow> (string + snapshot list) \<times> 'e"
  so_finalize :: "snapshot list \<Rightarrow> 'e \<Rightarrow> (string + unit) \<times> 'e"
  so_close :: "snapshot list \<Rightarrow> 'e \<Rightarrow> (string + unit) \<times> 'e"

definition act_owner :: "('e \<Rightarrow> (string + 'v) \<times> 'e) \<Rightarrow> (ver_exc, 'e, 'v) io" where
  "act_owner call = (\<lambda>e. case call e of (r, e') \<Rightarrow> (map_sum Snapshot_Failed (\<lambda>v. v) r, e'))"

lemma act_owner_Inr [act_simps]: "act_owner call e = (Inr v, e') \<longleftrightarrow> call e = (Inr v, e')"
  by (auto simp: act_owner_def split: prod.splits) (metis obj_sumE map_sum.simps sum.simps(4) Inr_inject)+

text \<open>\<open>Path(p).parts\<close> without the root, \<open>Path(p).parent\<close> and \<open>Path(p).with_name(name)\<close>.\<close>

definition path_parts :: "string \<Rightarrow> string list" where
  "path_parts p = filter (\<lambda>c. c \<noteq> [] \<and> c \<noteq> ''.'') (split_on (CHR ''/'') p)"

definition posix_path :: "bool \<Rightarrow> string list \<Rightarrow> string" where
  "posix_path absolute parts =
     (if absolute then CHR ''/'' # join_with ''/'' parts else if parts = [] then ''.'' else join_with ''/'' parts)"

definition path_parent :: "string \<Rightarrow> string" where
  "path_parent p = posix_path (starts_with p ''/'') (butlast (path_parts p))"

definition path_with_name :: "string \<Rightarrow> string \<Rightarrow> string" where
  "path_with_name p name = posix_path (starts_with p ''/'') (butlast (path_parts p) @ [name])"

text \<open>\<open>os.path.abspath\<close> and \<open>os.path.realpath\<close>, \<open>None\<close> for the exceptions the redactor swallows.\<close>

record path_resolution =
  abspath :: "string \<Rightarrow> string option"
  realpath :: "string \<Rightarrow> string option"

text \<open>
  The redactor is one object that a run keeps filling, also when the run fails later: it is the first
  component of the state, \<open>None\<close> where the caller passes no redactor.
\<close>

type_synonym 'e session = "redactor option \<times> 'e"

definition on_world :: "(ver_exc, 'e, 'a) io \<Rightarrow> (ver_exc, 'e session, 'a) io" where
  "on_world m = (\<lambda>(roots, e). case m e of (r, e') \<Rightarrow> (r, (roots, e')))"

definition register_root :: "path_resolution \<Rightarrow> string \<Rightarrow> string \<Rightarrow> (ver_exc, 'e session, unit) io" where
  "register_root pr path token = (\<lambda>(redactor, e).
     case redactor of
       None \<Rightarrow> (Inr (), (None, e))
     | Some roots \<Rightarrow>
         (case add_root (abspath pr) (realpath pr) path token roots of
            Inl x \<Rightarrow> (Inl (Raised x), (redactor, e)) | Inr roots \<Rightarrow> (Inr (), (Some roots, e))))"

lemma on_world_Inr [act_simps]:
  "on_world m s = (Inr v, s') \<longleftrightarrow> fst s' = fst s \<and> m (snd s) = (Inr v, snd s')"
  by (cases s; cases s') (auto simp: on_world_def split: prod.splits)

definition add_snapshot_artifact :: "('e, 'y) snapshot_owner_scheme \<Rightarrow> path_resolution \<Rightarrow> snapshot
    \<Rightarrow> (ver_exc, 'e session, string) io" where
  "add_snapshot_artifact owner pr artifact =
     act_bind (on_world (act_owner (so_execution_path owner artifact))) (\<lambda>execution_path.
     act_bind (register_root pr (path_parent execution_path) ''<private-artifact-root>'') (\<lambda>_.
     act_return execution_path))"

definition snapshot_artifact_bytes :: "('e, 'z) git_world_scheme \<Rightarrow> ('e, 'y) snapshot_owner_scheme \<Rightarrow> path_resolution
    \<Rightarrow> snapshot \<Rightarrow> string \<Rightarrow> (ver_exc, 'e session, exact_file) io" where
  "snapshot_artifact_bytes w owner pr artifact locator =
     act_bind (add_snapshot_artifact owner pr artifact) (\<lambda>path.
     act_bind (on_world (read_exact_regular_file w path MAX_HASH_BYTES locator)) (\<lambda>captured.
     if ef_size captured \<noteq> sn_size artifact \<or> ef_sha256 captured \<noteq> sn_sha256 artifact
     then act_fail (Verification ''artifact_snapshot_metadata_mismatch''
       ''private artifact bytes differ from captured metadata'' locator)
     else act_return captured))"

section \<open>Directories\<close>

text \<open>\<open>fw_empty\<close>: \<open>path.is_dir() and next(path.iterdir(), None) is None\<close>, \<open>None\<close> for an \<open>OSError\<close>.\<close>

record 'e fresh_world = "'e git_world" +
  fw_is_symlink :: "string \<Rightarrow> 'e \<Rightarrow> bool \<times> 'e"
  fw_exists :: "string \<Rightarrow> 'e \<Rightarrow> bool \<times> 'e"
  fw_empty :: "string \<Rightarrow> 'e \<Rightarrow> bool option \<times> 'e"
  fw_make_parents :: "string \<Rightarrow> 'e \<Rightarrow> unit option \<times> 'e"
  fw_make :: "string \<Rightarrow> int \<Rightarrow> 'e \<Rightarrow> unit option \<times> 'e"

section \<open>Guarantee\<close>

lemma read_frozen_Inr:
  "read_frozen w locator d remaining contents e = (Inr b, e') \<Longrightarrow>
     \<exists>data. b = contents @ data \<and> supplies w d e data e' \<and> blen data = remaining"
proof (induction w locator d remaining contents e rule: read_frozen.induct)
  case (1 w locator d remaining contents e)
  show ?case
  proof (cases "remaining = 0")
    case False
    then obtain chunk e1 where c: "os_read w d (min 1048576 remaining) e = (Some chunk, e1)" "chunk \<noteq> []"
      "\<not> blen chunk > remaining" "read_frozen w locator d (remaining - blen chunk) (contents @ chunk) e1 = (Inr b, e')"
      using "1.prems" by (subst (asm) read_frozen.simps) (auto simp: ver_fail_def split: prod.splits option.splits if_splits)
    obtain data where "b = (contents @ chunk) @ data" "supplies w d e1 data e'" "blen data = remaining - blen chunk"
      using "1.IH"[OF False c(1)[symmetric] refl c(2,3,4)] by blast
    then show ?thesis using supplies_more[OF c(1,2)] by (intro exI[of _ "chunk @ data"]) simp
  qed (use "1.prems" in \<open>simp add: read_frozen.simps\<close>)
qed

lemma with_descriptor_Inr [act_simps]:
  "with_descriptor w d body e = (Inr x, e') \<longleftrightarrow> (\<exists>e1. body e = (Inr x, e1) \<and> e' = gw_close w d e1)"
  by (auto simp: with_descriptor_def split: prod.splits)

text \<open>
  A file was read: the path named a regular file with this metadata before it was opened, when it was
  opened, after its bytes had been delivered up to the end, and after it was closed; the bytes are as
  many as the metadata says.
\<close>

definition reads_file :: "('e, 'z) git_world_scheme \<Rightarrow> string \<Rightarrow> 'e \<Rightarrow> bytes \<Rightarrow> stat_result \<Rightarrow> 'e \<Rightarrow> bool" where
  "reads_file w path e data m e' \<longleftrightarrow> S_ISREG (st_mode m) \<and> blen data = st_size m
     \<and> (\<exists>e1 d e2 e3 e4 e5. os_lstat w path e = (Some m, e1) \<and> gw_open w path e1 = (Some d, e2)
          \<and> gw_fstat w d e2 = (Some m, e3) \<and> delivers w d e3 data e4 \<and> gw_fstat w d e4 = (Some m, e5)
          \<and> os_lstat w path (gw_close w d e5) = (Some m, e'))"

lemma stable_file_identity_iff: "stable_file_identity a = stable_file_identity b \<longleftrightarrow> a = b"
  by (auto simp: stable_file_identity_def)

lemma frozen_contents_Inr:
  assumes "frozen_contents w d before max_bytes locator e = (Inr (opened, data, final), e')"
  shows "opened = before" "S_ISREG (st_mode before)" "st_size before \<le> max_bytes"
    "\<exists>e1 e2. gw_fstat w d e = (Some before, e1) \<and> delivers w d e1 data e2 \<and> gw_fstat w d e2 = (Some final, e')"
proof -
  obtain e1 e2 e3 where c: "gw_fstat w d e = (Some opened, e1)" "S_ISREG (st_mode opened)" "opened = before"
    "st_size opened \<le> max_bytes" "read_frozen w locator d (st_size opened) [] e1 = (Inr data, e2)"
    "os_read w d 1 e2 = (Some [], e3)" "gw_fstat w d e3 = (Some final, e')"
    using assms by (auto simp: frozen_contents_def act_simps stable_file_identity_iff)
  then show "opened = before" "S_ISREG (st_mode before)" "st_size before \<le> max_bytes" by simp_all
  have "supplies w d e1 data e2" using read_frozen_Inr[OF c(5)] by auto
  then show "\<exists>e1 e2. gw_fstat w d e = (Some before, e1) \<and> delivers w d e1 data e2 \<and> gw_fstat w d e2 = (Some final, e')"
    using c delivers_probe[of w d e1 data e2 e3] by blast
qed

lemma read_exact_Inr:
  assumes "read_exact_regular_file w path max_bytes locator e = (Inr f, e')"
  shows "reads_file w path e (ef_data f) (ef_metadata f) e'" "ef_size f = blen (ef_data f)" "ef_size f \<le> max_bytes"
    "ef_sha256 f = sha256_bytes (ef_data f)"
proof -
  obtain before e1 d e2 opened data final e3 where s: "os_lstat w path e = (Some before, e1)"
    "gw_open w path e1 = (Some d, e2)"
    "frozen_contents w d before max_bytes locator e2 = (Inr (opened, data, final), e3)"
    "os_lstat w path (gw_close w d e3) = (Some opened, e')" "final = opened" "blen data = st_size opened"
    "f = \<lparr>ef_data = data, ef_size = st_size opened, ef_sha256 = sha256_bytes data, ef_metadata = opened\<rparr>"
    using assms by (auto simp: read_exact_regular_file_def act_simps stable_file_identity_iff)
  note o = frozen_contents_Inr[OF s(3)]
  show "reads_file w path e (ef_data f) (ef_metadata f) e'" "ef_size f = blen (ef_data f)" "ef_size f \<le> max_bytes"
    "ef_sha256 f = sha256_bytes (ef_data f)"
    using s o unfolding reads_file_def by (auto simp: s(7))
qed

text \<open>An exact read returns the whole of one regular file, within the limit, with the digest of what
  it returns; the path named the same file with the same metadata before it was opened and after it
  was read.\<close>

theorem exact_read_stable:
  "case read_exact_regular_file w path max_bytes locator e of (Inl _, _) \<Rightarrow> True
   | (Inr f, e') \<Rightarrow> reads_file w path e (ef_data f) (ef_metadata f) e' \<and> ef_size f = blen (ef_data f)
       \<and> ef_size f \<le> max_bytes \<and> ef_sha256 f = sha256_bytes (ef_data f)"
proof (cases "read_exact_regular_file w path max_bytes locator e")
  case (Pair r e')
  then show ?thesis using read_exact_Inr[of w path max_bytes locator e _ e'] by (cases r) simp_all
qed

end
