(* ===== verification/Verify_Process.thy ===== *)
theory Verify_Process
  imports Verify_Files
begin

text \<open>
  Bounded commands of \<open>tools/verify_abi_artifact_parity.py\<close>: the drains of the two pipes, the
  cleanup of the process group and the result.  The kernel and the clock are operations of a
  \<open>process_world\<close>.  The two drain threads share nothing but the signal they send; what they had read
  when they were joined is an answer of the world.
\<close>

section \<open>Results\<close>

definition MAX_CAPTURE_BYTES :: int where "MAX_CAPTURE_BYTES = 16 * 1024 * 1024"

record command_result =
  cr_argv :: "string list"
  cr_returncode :: "int option"
  cr_stdout :: bytes
  cr_stderr :: bytes
  cr_timed_out :: bool
  cr_truncated :: bool
  cr_cleanup_failure :: "string option"
  cr_duration_ms :: int

definition result_ok :: "command_result \<Rightarrow> bool" where
  "result_ok r \<longleftrightarrow> cr_returncode r = Some 0 \<and> \<not> cr_timed_out r \<and> \<not> cr_truncated r \<and> cr_cleanup_failure r = None"

text \<open>\<open>Path(p).name\<close>.\<close>

definition path_name :: "string \<Rightarrow> string" where
  "path_name p = (if path_parts p = [] then [] else last (path_parts p))"

definition command_sanitized :: "command_result \<Rightarrow> json" where
  "command_sanitized r = JObj
     [(''argv0'', case cr_argv r of [] \<Rightarrow> JNull | a # _ \<Rightarrow> JStr (path_name a)),
      (''argument_count'', JInt (blen (cr_argv r))), (''returncode'', jopt JInt (cr_returncode r)),
      (''stdout_size'', JInt (blen (cr_stdout r))), (''stderr_size'', JInt (blen (cr_stderr r))),
      (''stdout_sha256'', JStr (sha256_bytes (cr_stdout r))), (''stderr_sha256'', JStr (sha256_bytes (cr_stderr r))),
      (''timed_out'', JBool (cr_timed_out r)), (''truncated'', JBool (cr_truncated r)),
      (''cleanup_failure'', jopt JStr (cr_cleanup_failure r)), (''duration_ms'', JInt (cr_duration_ms r))]"

definition require_command :: "command_result \<Rightarrow> string \<Rightarrow> unit ver" where
  "require_command r locator =
     (case cr_cleanup_failure r of
        Some m \<Rightarrow> ver_fail ''process_cleanup_failed'' m locator
      | None \<Rightarrow>
          if cr_timed_out r then ver_fail ''command_timed_out'' ''command exceeded its timeout'' locator
          else if cr_truncated r then ver_fail ''command_output_truncated'' ''command output exceeded its bound'' locator
          else if cr_returncode r \<noteq> Some 0
          then ver_fail ''command_failed'' (''command exited with status ''
            @ (case cr_returncode r of None \<Rightarrow> ''None'' | Some n \<Rightarrow> show_int n)) locator
          else Inr ())"

section \<open>Draining a pipe\<close>

record drain =
  dr_buffer :: bytes
  dr_truncated :: bool

definition drain_chunk :: "int \<Rightarrow> bytes \<Rightarrow> drain \<Rightarrow> drain" where
  "drain_chunk max_output chunk s =
     (let remaining = max_output + 1 - blen (dr_buffer s);
          buffer = (if remaining > 0 then dr_buffer s @ py_slice chunk 0 remaining else dr_buffer s)
      in \<lparr>dr_buffer = buffer,
          dr_truncated = (dr_truncated s \<or> blen buffer > max_output \<or> blen chunk > remaining)\<rparr>)"

definition drain_all :: "int \<Rightarrow> bytes list \<Rightarrow> drain" where
  "drain_all max_output chunks = fold (drain_chunk max_output) chunks \<lparr>dr_buffer = [], dr_truncated = False\<rparr>"

section \<open>The process group\<close>

datatype kill_answer = Delivered | No_Group | Kill_Error string
datatype sig_number = Probe | Sigterm | Sigkill

text \<open>Times are whole nanoseconds.  \<open>pw_drained\<close>: the chunks a drain thread had read, and whether it ended.\<close>

record 'e process_world = "'e fresh_world" +
  pw_monotonic :: "'e \<Rightarrow> int \<times> 'e"
  pw_sleep :: "int \<Rightarrow> 'e \<Rightarrow> 'e"
  pw_killpg :: "int \<Rightarrow> sig_number \<Rightarrow> 'e \<Rightarrow> kill_answer \<times> 'e"
  pw_launch :: "string list \<Rightarrow> string \<Rightarrow> 'e \<Rightarrow> (string + int) \<times> 'e"
  pw_wait :: "int \<Rightarrow> int \<Rightarrow> 'e \<Rightarrow> bool \<times> 'e"
  pw_drained :: "int \<Rightarrow> bool \<Rightarrow> 'e \<Rightarrow> (bytes list \<times> bool) \<times> 'e"
  pw_poll :: "int \<Rightarrow> 'e \<Rightarrow> int option \<times> 'e"

definition PROCESS_CLEANUP_GRACE_NS :: int where "PROCESS_CLEANUP_GRACE_NS = 1000000000"

text \<open>
  The loop that probes the group until it is gone (\<open>Some None\<close>), the probe fails, or the deadline
  passes (\<open>None\<close>).  It is a partial function: a clock that stands still keeps it going.
\<close>

partial_function (option) probe_group :: "('e, 'z) process_world_scheme \<Rightarrow> int \<Rightarrow> int \<Rightarrow> string \<Rightarrow> 'e
    \<Rightarrow> (string option option \<times> 'e) option" where
  "probe_group w pgid deadline what e =
     (let (now, e1) = pw_monotonic w e in
      if now < deadline then
        let (answer, e2) = pw_killpg w pgid Probe e1 in
        case answer of
          No_Group \<Rightarrow> Some (Some None, e2)
        | Kill_Error m \<Rightarrow> Some (Some (Some (what @ m)), e2)
        | Delivered \<Rightarrow> probe_group w pgid deadline what (pw_sleep w 10000000 e2)
      else Some (None, e1))"

text \<open>One round: the signal, then the probes until its deadline.\<close>

definition kill_round :: "('e, 'z) process_world_scheme \<Rightarrow> int \<Rightarrow> sig_number \<Rightarrow> string \<Rightarrow> string \<Rightarrow> 'e
    \<Rightarrow> (string option option \<times> 'e) option" where
  "kill_round w pgid s kill_what probe_what e =
     (let (answer, e1) = pw_killpg w pgid s e in
      case answer of
        No_Group \<Rightarrow> Some (Some None, e1)
      | Kill_Error m \<Rightarrow> Some (Some (Some (kill_what @ m)), e1)
      | Delivered \<Rightarrow>
          let (now, e2) = pw_monotonic w e1 in
          probe_group w pgid (now + PROCESS_CLEANUP_GRACE_NS) probe_what e2)"

definition terminate_group :: "('e, 'z) process_world_scheme \<Rightarrow> int \<Rightarrow> 'e \<Rightarrow> (string option \<times> 'e) option" where
  "terminate_group w pgid e =
     Option.bind (kill_round w pgid Sigterm ''SIGTERM process-group cleanup failed: ''
        ''process-group cleanup probe failed: '' e) (\<lambda>(outcome, e).
     case outcome of
       Some r \<Rightarrow> Some (r, e)
     | None \<Rightarrow>
         Option.bind (kill_round w pgid Sigkill ''SIGKILL process-group cleanup failed: ''
            ''post-SIGKILL process-group probe failed: '' e) (\<lambda>(outcome, e).
         case outcome of
           Some r \<Rightarrow> Some (r, e)
         | None \<Rightarrow> Some (Some ''process group survived SIGKILL'', e)))"

section \<open>One bounded command\<close>

text \<open>\<open>round(seconds * 1000)\<close>, half to even.\<close>

definition round_ms :: "int \<Rightarrow> int" where
  "round_ms ns = (let q = ns div 1000000; r = 2 * (ns mod 1000000) in
     if r < 1000000 \<or> r = 1000000 \<and> even q then q else q + 1)"

definition or_failure :: "string option \<Rightarrow> bool \<Rightarrow> string \<Rightarrow> string option" where
  "or_failure failure ok m = (if ok then failure else case failure of Some f \<Rightarrow> Some f | None \<Rightarrow> Some m)"

text \<open>
  A failure text is never empty, so \<open>cleanup_failure or m\<close> is a case on \<open>None\<close>.  The result is \<open>None\<close>
  only if the cleanup does not return.
\<close>

definition run_bounded :: "('e, 'z) process_world_scheme \<Rightarrow> string list \<Rightarrow> string \<Rightarrow> int \<Rightarrow> int \<Rightarrow> 'e
    \<Rightarrow> (command_result ver \<times> 'e) option" where
  "run_bounded w argv cwd timeout max_output e =
     (if argv = [] \<or> list_ex (\<lambda>item. CHR 0x00 \<in> set item) argv
      then Some (ver_fail ''invalid_command'' ''command arguments must be nonempty strings'' ''verifier'', e)
      else
      let (started, e) = pw_monotonic w e; (launched, e) = pw_launch w argv cwd e in
      case launched of
        Inl m \<Rightarrow> Some (ver_fail ''command_launch_failed'' m (''command.'' @ path_name (hd argv)), e)
      | Inr pid \<Rightarrow>
          let (exited, e) = pw_wait w pid timeout e in
          Option.bind (terminate_group w pid e) (\<lambda>(cleanup, e).
          let (reaped, e) = pw_wait w pid PROCESS_CLEANUP_GRACE_NS e;
              cleanup = or_failure cleanup reaped ''direct child did not exit after group cleanup'';
              ((out, out_done), e) = pw_drained w pid True e;
              cleanup = or_failure cleanup out_done ''output-drain thread did not terminate'';
              ((err, err_done), e) = pw_drained w pid False e;
              cleanup = or_failure cleanup err_done ''output-drain thread did not terminate'';
              o' = drain_all max_output out; e' = drain_all max_output err;
              (status, e) = pw_poll w pid e; (finished, e) = pw_monotonic w e
          in Some (Inr \<lparr>cr_argv = argv, cr_returncode = status,
               cr_stdout = py_slice (dr_buffer o') 0 max_output, cr_stderr = py_slice (dr_buffer e') 0 max_output,
               cr_timed_out = (\<not> exited), cr_truncated = (dr_truncated o' \<or> dr_truncated e'),
               cr_cleanup_failure = cleanup, cr_duration_ms = round_ms (finished - started)\<rparr>, e)))"

section \<open>Results are judged by what they say\<close>

lemma require_command_ok: "require_command r locator = Inr () \<longleftrightarrow> result_ok r"
  by (auto simp: require_command_def result_ok_def ver_fail_def split: option.splits)

section \<open>The drains keep a prefix\<close>

lemma drain_chunk_step:
  assumes "dr_buffer s = take (nat (m + 1)) xs" "dr_truncated s = (m < blen xs)" "0 \<le> m"
  shows "dr_buffer (drain_chunk m chunk s) = take (nat (m + 1)) (xs @ chunk)
    \<and> dr_truncated (drain_chunk m chunk s) = (m < blen (xs @ chunk))"
proof (cases "m < blen xs")
  case True
  then have "blen (dr_buffer s) = m + 1" using assms(1,3) by (simp add: blen_def)
  moreover have "nat (m + 1) \<le> length xs" using True by (simp add: blen_def)
  moreover have "m < blen xs + blen chunk" using True blen_nonneg[of chunk] by linarith
  ultimately show ?thesis using True assms by (simp add: drain_chunk_def Let_def)
next
  case False
  then have b: "dr_buffer s = xs" using assms(1) by (simp add: blen_def)
  have "py_slice chunk 0 (m + 1 - blen xs) = take (nat (m + 1 - blen xs)) chunk"
    using False by (auto simp: py_slice_def py_bound_def blen_def min_def)
  moreover have "nat (m + 1 - blen xs) = nat (m + 1) - length xs" using assms(3) by (simp add: blen_def)
  moreover have "length xs \<le> nat (m + 1)" using False by (simp add: blen_def)
  ultimately show ?thesis
    using False assms(2) b by (auto simp: drain_chunk_def Let_def) (auto simp: blen_def)
qed

lemma drain_all_prefix:
  assumes "0 \<le> m"
  shows "dr_buffer (drain_all m chunks) = take (nat (m + 1)) (concat chunks)
    \<and> dr_truncated (drain_all m chunks) = (m < blen (concat chunks))"
proof -
  have "dr_buffer (fold (drain_chunk m) chunks s) = take (nat (m + 1)) (xs @ concat chunks)
    \<and> dr_truncated (fold (drain_chunk m) chunks s) = (m < blen (xs @ concat chunks))"
    if "dr_buffer s = take (nat (m + 1)) xs" "dr_truncated s = (m < blen xs)" for s :: drain and xs
    using that
  proof (induction chunks arbitrary: s xs)
    case (Cons c cs)
    then show ?case
      using Cons.IH[of "drain_chunk m c s" "xs @ c"] drain_chunk_step[OF Cons.prems assms, of c] by simp
  qed simp
  then show ?thesis using assms unfolding drain_all_def by (metis append_Nil blen_Nil drain.select_convs not_less take_Nil)
qed


section \<open>Cleanup ends, and what it claims\<close>

text \<open>
  The clock of a world: \<open>t\<close> is the time of a state, reading it and signalling take no time back, and
  sleeping takes at least the time asked for, as \<open>time.monotonic\<close> and \<open>time.sleep\<close> promise.
\<close>

definition clock_advances :: "('e, 'z) process_world_scheme \<Rightarrow> ('e \<Rightarrow> int) \<Rightarrow> bool" where
  "clock_advances w t \<longleftrightarrow>
     (\<forall>e. fst (pw_monotonic w e) = t e \<and> t e \<le> t (snd (pw_monotonic w e)))
     \<and> (\<forall>e pgid s. t e \<le> t (snd (pw_killpg w pgid s e))) \<and> (\<forall>e d. t e + d \<le> t (pw_sleep w d e))"

text \<open>The kernel said that the group is gone.\<close>

definition group_gone :: "('e, 'z) process_world_scheme \<Rightarrow> int \<Rightarrow> bool" where
  "group_gone w pgid \<longleftrightarrow> (\<exists>s e. fst (pw_killpg w pgid s e) = No_Group)"

text \<open>The last call before the state \<open>e'\<close> was the one that gave this answer.\<close>

definition gone_at :: "('e, 'z) process_world_scheme \<Rightarrow> int \<Rightarrow> 'e \<Rightarrow> bool" where
  "gone_at w pgid e' \<longleftrightarrow> (\<exists>s e. pw_killpg w pgid s e = (No_Group, e'))"

lemma gone_at_gone: "gone_at w pgid e' \<Longrightarrow> group_gone w pgid"
  unfolding gone_at_def group_gone_def by (metis fst_conv)

lemma probe_group_returns:
  assumes "clock_advances w t"
  shows "\<exists>r e'. probe_group w pgid deadline what e = Some (r, e') \<and> (r = Some None \<longrightarrow> gone_at w pgid e')"
proof (induction "nat (deadline - t e)" arbitrary: e rule: less_induct)
  case less
  obtain now e1 where m: "pw_monotonic w e = (now, e1)" by fastforce
  obtain answer e2 where k: "pw_killpg w pgid Probe e1 = (answer, e2)" by fastforce
  have "now = t e" "t e \<le> t e1" "t e1 \<le> t e2" "t e2 + 10000000 \<le> t (pw_sleep w 10000000 e2)"
    using assms m k unfolding clock_advances_def by (metis fst_conv snd_conv)+
  then have d: "now < deadline \<Longrightarrow> nat (deadline - t (pw_sleep w 10000000 e2)) < nat (deadline - t e)" by simp
  have g: "answer = No_Group \<Longrightarrow> gone_at w pgid e2" using k unfolding gone_at_def by blast
  show ?case
    using less[of "pw_sleep w 10000000 e2"] d g
    by (subst (1) probe_group.simps) (auto simp: m k split: kill_answer.split)
qed

lemma kill_round_returns:
  assumes "clock_advances w t"
  shows "\<exists>r e'. kill_round w pgid s a b e = Some (r, e') \<and> (r = Some None \<longrightarrow> gone_at w pgid e')"
proof -
  obtain answer e1 where k: "pw_killpg w pgid s e = (answer, e1)" by fastforce
  have g: "answer = No_Group \<Longrightarrow> gone_at w pgid e1" using k unfolding gone_at_def by blast
  show ?thesis
    using probe_group_returns[OF assms] g
    by (auto simp: kill_round_def Let_def k split: prod.split kill_answer.split)
qed

lemma terminate_group_returns:
  assumes "clock_advances w t"
  shows "\<exists>r e'. terminate_group w pgid e = Some (r, e') \<and> (r = None \<longrightarrow> gone_at w pgid e')"
proof -
  obtain r1 e1 where 1: "kill_round w pgid Sigterm ''SIGTERM process-group cleanup failed: ''
      ''process-group cleanup probe failed: '' e = Some (r1, e1)" "r1 = Some None \<longrightarrow> gone_at w pgid e1"
    using kill_round_returns[OF assms] by blast
  obtain r2 e2 where 2: "kill_round w pgid Sigkill ''SIGKILL process-group cleanup failed: ''
      ''post-SIGKILL process-group probe failed: '' e1 = Some (r2, e2)" "r2 = Some None \<longrightarrow> gone_at w pgid e2"
    using kill_round_returns[OF assms] by blast
  show ?thesis
    unfolding terminate_group_def 1(1) using 1(2) 2(2) by (auto simp: 2(1) split: option.split)
qed

text \<open>C23. The cleanup of a process group always ends when the clock moves on, after at most two rounds of
  probes; it claims success only if the kernel answered that the group no longer exists.\<close>

theorem cleanup_terminates:
  assumes "clock_advances w t"
  shows "\<exists>r e'. terminate_group w pgid e = Some (r, e')
    \<and> (case r of None \<Rightarrow> group_gone w pgid | Some _ \<Rightarrow> True)"
proof -
  obtain r e' where "terminate_group w pgid e = Some (r, e')" "r = None \<longrightarrow> gone_at w pgid e'"
    using terminate_group_returns[OF assms] by blast
  then show ?thesis by (cases r) (auto dest: gone_at_gone)
qed

text \<open>A group that never dies, watched by a clock that counts its sleeps.\<close>

definition immortal_group :: "int process_world" where
  "immortal_group =
     \<lparr>gw_lstat = (\<lambda>p e. (Missing, e)), gw_stat = (\<lambda>p e. (None, e)), gw_resolve = (\<lambda>p e. (None, e)),
      gw_open = (\<lambda>p e. (None, e)), gw_fstat = (\<lambda>d e. (None, e)), gw_read = (\<lambda>d n e. (None, e)),
      gw_close = (\<lambda>d e. e), gw_access = (\<lambda>p e. (False, e)), gw_which = (\<lambda>a b e. (None, e)),
      gw_samefile = (\<lambda>a b e. (None, e)), gw_spawn = (\<lambda>a c v e. (Not_Started, e)),
      fw_is_symlink = (\<lambda>p e. (False, e)), fw_exists = (\<lambda>p e. (False, e)), fw_empty = (\<lambda>p e. (None, e)),
      fw_make_parents = (\<lambda>p e. (None, e)), fw_make = (\<lambda>p m e. (None, e)),
      pw_monotonic = (\<lambda>e. (e, e)), pw_sleep = (\<lambda>d e. e + d), pw_killpg = (\<lambda>g s e. (Delivered, e)),
      pw_launch = (\<lambda>a c e. (Inr 7, e)), pw_wait = (\<lambda>p n e. (False, e)),
      pw_drained = (\<lambda>p o' e. (([[1, 2], [3]], True), e)), pw_poll = (\<lambda>p e. (None, e))\<rparr>"

lemma immortal_clock: "clock_advances immortal_group (\<lambda>e. e)"
  by (simp add: clock_advances_def immortal_group_def)

theorem cleanup_terminates_witness:
  "\<exists>r e'. terminate_group immortal_group 7 0 = Some (r, e')
    \<and> (case r of None \<Rightarrow> group_gone immortal_group 7 | Some _ \<Rightarrow> True)"
  by (rule cleanup_terminates[OF immortal_clock])

section \<open>A bounded command ends inside its bounds\<close>

lemma or_failure_None [simp]: "or_failure f ok m = None \<longleftrightarrow> f = None \<and> ok"
  by (auto simp: or_failure_def split: option.split)

lemma drained_output:
  assumes "0 \<le> m"
  shows "py_slice (dr_buffer (drain_all m chunks)) 0 m = take (nat m) (concat chunks)"
proof -
  have "py_slice xs 0 m = take (nat m) xs" for xs :: bytes
    using assms by (auto simp: py_slice_def py_bound_def blen_def min_def)
  moreover have "nat m \<le> nat (m + 1)" by simp
  ultimately show ?thesis using drain_all_prefix[OF assms, of chunks] by (simp add: min_absorb1)
qed

text \<open>
  The calls of one run from \<open>e\<close> to \<open>e'\<close>, in their order, and what the result takes from each: the two
  streams are what the two pipes of the launched process had delivered when the run asked for them.
\<close>

definition ran :: "('e, 'z) process_world_scheme \<Rightarrow> string list \<Rightarrow> string \<Rightarrow> int \<Rightarrow> int \<Rightarrow> 'e \<Rightarrow> command_result \<Rightarrow> 'e \<Rightarrow> bool" where
  "ran w argv cwd timeout m e c e' \<longleftrightarrow>
     (\<exists>started e1 pid e2 exited e3 cleanup e4 reaped e5 out out_done e6 err err_done e7 status e8 finished.
        pw_monotonic w e = (started, e1) \<and> pw_launch w argv cwd e1 = (Inr pid, e2)
        \<and> pw_wait w pid timeout e2 = (exited, e3) \<and> terminate_group w pid e3 = Some (cleanup, e4)
        \<and> pw_wait w pid PROCESS_CLEANUP_GRACE_NS e4 = (reaped, e5)
        \<and> pw_drained w pid True e5 = ((out, out_done), e6) \<and> pw_drained w pid False e6 = ((err, err_done), e7)
        \<and> pw_poll w pid e7 = (status, e8) \<and> pw_monotonic w e8 = (finished, e')
        \<and> cr_argv c = argv \<and> cr_returncode c = status
        \<and> cr_stdout c = take (nat m) (concat out) \<and> cr_stderr c = take (nat m) (concat err)
        \<and> cr_truncated c = (m < blen (concat out) \<or> m < blen (concat err)) \<and> cr_timed_out c = (\<not> exited)
        \<and> (cr_cleanup_failure c = None) = (cleanup = None \<and> reaped \<and> out_done \<and> err_done)
        \<and> (if cleanup = None then gone_at w pid e4 else True))"

text \<open>No process ran: an argument is not acceptable, or the launch failed.\<close>

definition not_run :: "('e, 'z) process_world_scheme \<Rightarrow> string list \<Rightarrow> string \<Rightarrow> 'e \<Rightarrow> 'e \<Rightarrow> bool" where
  "not_run w argv cwd e e' \<longleftrightarrow>
     (if argv = [] \<or> (\<exists>a \<in> set argv. CHR 0x00 \<in> set a) then e' = e
      else \<exists>started e1 why. pw_monotonic w e = (started, e1) \<and> pw_launch w argv cwd e1 = (Inl why, e'))"

lemma run_bounded_Inr:
  assumes "run_bounded w argv cwd timeout m e = Some (Inr c, e')" "0 \<le> m" "clock_advances w t"
  shows "ran w argv cwd timeout m e c e'"
proof -
  obtain started e1 where a: "pw_monotonic w e = (started, e1)" by fastforce
  obtain l e2 where b: "pw_launch w argv cwd e1 = (l, e2)" by fastforce
  have "\<not> (argv = [] \<or> list_ex (\<lambda>item. CHR 0x00 \<in> set item) argv)" using assms(1) by (auto simp: run_bounded_def)
  moreover from this obtain pid where l: "l = Inr pid"
    using assms(1) by (cases l) (auto simp: run_bounded_def a b)
  obtain x e3 where c: "pw_wait w pid timeout e2 = (x, e3)" by fastforce
  obtain k e4 where k: "terminate_group w pid e3 = Some (k, e4)" "k = None \<longrightarrow> gone_at w pid e4"
    using terminate_group_returns[OF assms(3)] by blast
  obtain rp e5 where d: "pw_wait w pid PROCESS_CLEANUP_GRACE_NS e4 = (rp, e5)" by fastforce
  obtain out od e6 where o': "pw_drained w pid True e5 = ((out, od), e6)" by (metis surj_pair)
  obtain err ed e7 where er: "pw_drained w pid False e6 = ((err, ed), e7)" by (metis surj_pair)
  obtain st e8 where p: "pw_poll w pid e7 = (st, e8)" by fastforce
  obtain fin e9 where f: "pw_monotonic w e8 = (fin, e9)" by fastforce
  ultimately have "c = \<lparr>cr_argv = argv, cr_returncode = st,
      cr_stdout = py_slice (dr_buffer (drain_all m out)) 0 m, cr_stderr = py_slice (dr_buffer (drain_all m err)) 0 m,
      cr_timed_out = (\<not> x), cr_truncated = (dr_truncated (drain_all m out) \<or> dr_truncated (drain_all m err)),
      cr_cleanup_failure = or_failure (or_failure (or_failure k rp
        ''direct child did not exit after group cleanup'') od ''output-drain thread did not terminate'')
        ed ''output-drain thread did not terminate'', cr_duration_ms = round_ms (fin - started)\<rparr> \<and> e' = e9"
    using assms(1) unfolding run_bounded_def
    by (simp add: a b c d l o' er p f k(1) Let_def del: or_failure_None)
  then show ?thesis
    unfolding ran_def using a b c d l o' er p f k drained_output[OF assms(2)] drain_all_prefix[OF assms(2)] by auto
qed

lemma run_bounded_Inl:
  assumes "run_bounded w argv cwd timeout m e = Some (Inl x, e')"
  shows "not_run w argv cwd e e'"
proof (cases "argv = [] \<or> list_ex (\<lambda>item. CHR 0x00 \<in> set item) argv")
  case True
  then show ?thesis using assms by (auto simp: run_bounded_def not_run_def ver_fail_def list_ex_iff)
next
  case False
  obtain started e1 where a: "pw_monotonic w e = (started, e1)" by fastforce
  obtain l e2 where b: "pw_launch w argv cwd e1 = (l, e2)" by fastforce
  show ?thesis
  proof (cases l)
    case (Inl why)
    then show ?thesis using assms False b a by (auto simp: run_bounded_def not_run_def ver_fail_def list_ex_iff)
  next
    case (Inr pid)
    then show ?thesis using assms False
      by (auto simp: run_bounded_def a b Let_def split: prod.splits Option.bind_splits)
  qed
qed

lemma run_bounded_returns:
  assumes "clock_advances w t"
  shows "\<exists>r e'. run_bounded w argv cwd timeout m e = Some (r, e')"
proof -
  have cleanup: "(terminate_group w pid e3 = None) = False" for pid e3
    using terminate_group_returns[OF assms, of pid e3] by auto
  show ?thesis
    by (simp add: run_bounded_def Let_def cleanup split: prod.split sum.split Option.bind_split)
qed

text \<open>C22. A bounded command returns whenever the clock moves on, even if the process group never dies.
  Of what each of the two pipes of the launched process delivered, the result holds the first bytes
  up to the limit, and it is marked as truncated exactly when a pipe delivered more, as timed out
  exactly when the process had not exited in time, and as cleaned up only if the last answer to the
  cleanup was that the group is gone and the process and both drains ended.  Without a result, no
  process was launched.\<close>

theorem bounded_command_returns:
  assumes "clock_advances w t" "0 \<le> m"
  shows "\<exists>r e'. run_bounded w argv cwd timeout m e = Some (r, e')
    \<and> (case r of Inl _ \<Rightarrow> not_run w argv cwd e e' | Inr c \<Rightarrow> ran w argv cwd timeout m e c e')"
proof -
  obtain r e' where r: "run_bounded w argv cwd timeout m e = Some (r, e')"
    using run_bounded_returns[OF assms(1)] by blast
  then show ?thesis
    using run_bounded_Inl run_bounded_Inr[OF _ assms(2,1)] by (cases r) fastforce+
qed

theorem bounded_command_returns_witness:
  "\<exists>r e'. run_bounded immortal_group [''zig''] ''/'' 5 2 0 = Some (r, e')
    \<and> (case r of Inl _ \<Rightarrow> not_run immortal_group [''zig''] ''/'' 0 e' | Inr c \<Rightarrow> ran immortal_group [''zig''] ''/'' 5 2 0 c e')"
  by (rule bounded_command_returns[OF immortal_clock]) simp

end
