(* ===== verification/Claims.thy ===== *)
theory Claims
  imports Byte_Parsing
begin

text \<open>
  How the parsers use the builder.  A parser runs many claims; what every one of them keeps is
  the relation \<open>grows\<close>: the builder stays well formed and over the same bytes, assigned bytes
  stay assigned, assignments that are not invariant are final, and a new \<open>allowed_payload\<close>
  assignment lies in one of the ranges listed.
\<close>

section \<open>Growth of a builder\<close>

text \<open>A listed volatile range: full locator, start and size.\<close>

datatype volatile = Volatile (vol_locator: string) (vol_start: int) (vol_size: int)

definition in_volatile :: "volatile set \<Rightarrow> int \<Rightarrow> atom_meta \<Rightarrow> bool" where
  "in_volatile A x v \<longleftrightarrow>
     (\<exists>r \<in> A. m_locator v = vol_locator r \<and> vol_start r \<le> x \<and> x < vol_start r + vol_size r)"

definition keeps_builder :: "volatile set \<Rightarrow> atom_builder \<Rightarrow> atom_builder \<Rightarrow> bool" where
  "keeps_builder A b b' \<longleftrightarrow> builder_inv b' \<and> b_data b' = b_data b \<and> b_prefix b' = b_prefix b
     \<and> (\<forall>x v. builder_view b x v \<longrightarrow> (\<exists>v'. builder_view b' x v'))
     \<and> (\<forall>x v. builder_view b x v \<and> m_role v \<noteq> Invariant \<longrightarrow> builder_view b' x v)
     \<and> (\<forall>x v. builder_view b' x v \<and> m_role v = Allowed_Payload \<longrightarrow>
          builder_view b x v \<or> in_volatile A x v)"

definition grows :: "volatile set \<Rightarrow> atom_builder \<Rightarrow> atom_builder \<Rightarrow> bool" where
  "grows A b b' \<longleftrightarrow> (builder_inv b \<longrightarrow> keeps_builder A b b')"

lemma grows_refl [simp, intro]: "grows A b b"
  by (auto simp: grows_def keeps_builder_def)

lemma grows_trans:
  assumes "grows A b c" "grows A c d"
  shows "grows A b d"
  unfolding grows_def
proof
  assume inv: "builder_inv b"
  have 1: "keeps_builder A b c" using assms(1) inv by (simp add: grows_def)
  then have 2: "keeps_builder A c d" using assms(2) by (simp add: grows_def keeps_builder_def)
  show "keeps_builder A b d"
    using 1 2 unfolding keeps_builder_def by (elim conjE) (intro conjI; metis)
qed

lemma in_volatile_mono: "in_volatile A x v \<Longrightarrow> A \<subseteq> B \<Longrightarrow> in_volatile B x v"
  by (auto simp: in_volatile_def)

lemma grows_mono: "grows A b c \<Longrightarrow> A \<subseteq> B \<Longrightarrow> grows B b c"
  unfolding grows_def keeps_builder_def using in_volatile_mono[of A _ _ B] by metis

lemma growsD:
  assumes "grows A b b'" "builder_inv b"
  shows "builder_inv b'" "b_data b' = b_data b" "b_prefix b' = b_prefix b"
  using assms by (simp_all add: grows_def keeps_builder_def)

lemma grows_add:
  assumes add: "builder_add b start sz locator role deps nt canonical replace = Inr b'"
    and "role = Allowed_Payload \<Longrightarrow> Volatile (full_locator (b_prefix b) locator) start sz \<in> A"
  shows "grows A b b'"
  unfolding grows_def
proof
  assume inv: "builder_inv b"
  note a = builder_add_Inr[OF inv add]
  let ?new = "new_meta b locator role deps nt canonical"
  have new: "builder_view b' x v \<longleftrightarrow> v = ?new" if "start \<le> x" "x < start + sz" for x v
    using a(8)[of x v] that by simp
  have old: "builder_view b' x v \<longleftrightarrow> builder_view b x v" if "\<not> (start \<le> x \<and> x < start + sz)" for x v
    using a(8)[of x v] that by simp
  have ok: "m_role v = Invariant" if "start \<le> x" "x < start + sz" "builder_view b x v" for x v
    using a(7) that unfolding claim_allowed_def by (cases "sz = 0") auto
  have "in_volatile A x ?new" if "start \<le> x" "x < start + sz" "m_role ?new = Allowed_Payload" for x
    unfolding in_volatile_def using assms(2) that by (intro bexI[of _ "Volatile (full_locator (b_prefix b) locator) start sz"]) (simp_all add: new_meta_def)
  then show "keeps_builder A b b'"
    unfolding keeps_builder_def using a(1-3) new old ok by (intro conjI; metis)
qed

text \<open>A plain or derived claim adds no volatile range.\<close>

lemma grows_add_other:
  "builder_add b start sz locator role deps nt canonical replace = Inr b' \<Longrightarrow>
     role \<noteq> Allowed_Payload \<Longrightarrow> grows A b b'"
  by (rule grows_add) auto

section \<open>Steps that keep a relation\<close>

text \<open>
  The parsers thread the builder through loops and optional steps.  Any reflexive and transitive
  relation that the single claims respect is respected by the whole run.
\<close>

locale threaded =
  fixes keeps :: "'s \<Rightarrow> 's \<Rightarrow> bool"
  assumes keeps_refl: "keeps s s"
    and keeps_trans: "keeps s t \<Longrightarrow> keeps t u \<Longrightarrow> keeps s u"
begin

lemma fold_keeps:
  assumes "fold_r f xs s = Inr t" and "\<And>x s t. x \<in> set xs \<Longrightarrow> f x s = Inr t \<Longrightarrow> keeps s t"
  shows "keeps s t"
  using fold_r_invariant[OF assms(1), of "keeps s"] keeps_refl keeps_trans assms(2) by blast

lemma bind_keeps:
  assumes "bind_r m f = Inr t" and "\<And>u. m = Inr u \<Longrightarrow> keeps s u"
    and "\<And>u. m = Inr u \<Longrightarrow> f u = Inr t \<Longrightarrow> keeps u t"
  shows "keeps s t"
  using assms keeps_trans by (auto simp: bind_r_eq_Inr)

lemma if_keeps:
  assumes "(if c then m else Inr s) = Inr t" and "c \<Longrightarrow> m = Inr t \<Longrightarrow> keeps s t"
  shows "keeps s t"
  using assms keeps_refl by (auto split: if_splits)

end

interpretation grow: threaded "grows A" for A
  by unfold_locales (auto intro: grows_trans)

section \<open>An optional builder\<close>

text \<open>\<open>if builder is not None: ...\<close>\<close>

definition with_builder :: "atom_builder option \<Rightarrow> (atom_builder \<Rightarrow> atom_builder res)
    \<Rightarrow> atom_builder option res" where
  "with_builder ob f = (case ob of None \<Rightarrow> Inr None | Some b \<Rightarrow> bind_r (f b) (\<lambda>b. Inr (Some b)))"

definition grows_opt :: "volatile set \<Rightarrow> atom_builder option \<Rightarrow> atom_builder option \<Rightarrow> bool" where
  "grows_opt A ob ob' = rel_option (grows A) ob ob'"

lemma grows_opt_simps [simp]:
  "grows_opt A None ob' \<longleftrightarrow> ob' = None"
  "grows_opt A (Some b) ob' \<longleftrightarrow> (\<exists>b'. ob' = Some b' \<and> grows A b b')"
  by (auto simp: grows_opt_def option_rel_Some1)

interpretation grow_opt: threaded "grows_opt A" for A
proof
  show "grows_opt A s s" for s by (cases s) auto
  show "grows_opt A s t \<Longrightarrow> grows_opt A t u \<Longrightarrow> grows_opt A s u" for s t u
    by (cases s) (auto elim!: grows_trans)
qed

lemma with_builder_grows:
  assumes "with_builder ob f = Inr ob'" "\<And>b b'. f b = Inr b' \<Longrightarrow> grows A b b'"
  shows "grows_opt A ob ob'"
  using assms by (cases ob) (auto simp: with_builder_def bind_r_eq_Inr)

lemma with_builder_Some: "with_builder (Some b) f = Inr ob \<longleftrightarrow> (\<exists>b'. f b = Inr b' \<and> ob = Some b')"
  by (cases "f b") (auto simp: with_builder_def)

lemma with_builder_None [simp]: "with_builder None f = Inr None"
  by (simp add: with_builder_def)

text \<open>The dependencies of the fields that a fresh link changes.\<close>

definition dynamic_dependencies :: "string list" where
  "dynamic_dependencies =
     [''macho.load[LC_UUID].uuid'', ''macho.symtab.n_oso.mtime'', ''macho.symtab.n_oso.path'']"

end
