(* ===== verification/Fail_Closed.thy ===== *)
theory Fail_Closed
  imports Claims
begin

text \<open>
  The module promises to fail closed: a computation either returns or raises \<open>ParityError\<close>.
  \<open>obeys m Q\<close> says that \<open>m\<close> raises nothing else and that a returned value satisfies \<open>Q\<close>; its
  rules (collection \<open>obeys_intros\<close>) follow the shape of the code.
\<close>

definition fail :: "string \<Rightarrow> string \<Rightarrow> 'a res" where
  "fail locator msg = Inl (ParityError (Some locator) msg)"

lemma fail_not_Inr [simp]: "fail l m \<noteq> Inr x"
  by (simp add: fail_def)

lemma if_fail_eq_Inr [res_simps]: "(if c then fail l msg else m) = Inr y \<longleftrightarrow> \<not> c \<and> m = Inr y"
  by auto

definition is_parity :: "py_exc \<Rightarrow> bool" where
  "is_parity e \<longleftrightarrow> (\<exists>l m. e = ParityError l m)"

definition obeys :: "'a res \<Rightarrow> ('a \<Rightarrow> bool) \<Rightarrow> bool" where
  "obeys m Q \<longleftrightarrow> (\<forall>e. m = Inl e \<longrightarrow> is_parity e) \<and> (\<forall>x. m = Inr x \<longrightarrow> Q x)"

named_theorems obeys_intros \<open>rules for computations that fail closed\<close>

lemma obeysD: "obeys m Q \<Longrightarrow> m = Inr x \<Longrightarrow> Q x" "obeys m Q \<Longrightarrow> m = Inl e \<Longrightarrow> is_parity e"
  by (simp_all add: obeys_def)

lemma obeys_mono: "obeys m P \<Longrightarrow> (\<And>x. m = Inr x \<Longrightarrow> P x \<Longrightarrow> Q x) \<Longrightarrow> obeys m Q"
  by (auto simp: obeys_def)

lemma obeys_closed: "obeys m (\<lambda>_. True) \<Longrightarrow> (\<And>x. m = Inr x \<Longrightarrow> Q x) \<Longrightarrow> obeys m Q"
  by (auto simp: obeys_def)

lemma obeys_Inr [obeys_intros]: "Q x \<Longrightarrow> obeys (Inr x) Q"
  by (simp add: obeys_def)

lemma obeys_Inl [obeys_intros]: "obeys (Inl (ParityError l m)) Q"
  by (simp add: obeys_def is_parity_def)

lemma obeys_fail [obeys_intros]: "obeys (fail l m) Q"
  by (simp add: fail_def obeys_Inl)

lemma obeys_bind [obeys_intros]: "obeys m (\<lambda>x. obeys (f x) Q) \<Longrightarrow> obeys (bind_r m f) Q"
  by (cases m) (auto simp: obeys_def)

lemma obeys_if [obeys_intros]:
  "(c \<Longrightarrow> obeys m Q) \<Longrightarrow> (\<not> c \<Longrightarrow> obeys n Q) \<Longrightarrow> obeys (if c then m else n) Q"
  by simp

lemma obeys_fold:
  assumes "I s" "\<And>x s. x \<in> set xs \<Longrightarrow> I s \<Longrightarrow> obeys (f x s) I" "\<And>t. I t \<Longrightarrow> Q t"
  shows "obeys (fold_r f xs s) Q"
proof -
  have "obeys (fold_r f xs s) I" using assms(1,2)
  proof (induction xs arbitrary: s)
    case (Cons x xs)
    have "obeys (f x s) (\<lambda>t. obeys (fold_r f xs t) I)"
      by (rule obeys_mono[OF Cons.prems(2)[of x s]]) (use Cons in auto)
    then show ?case by (simp add: obeys_bind)
  qed (simp add: obeys_Inr)
  then show ?thesis by (rule obeys_mono) (rule assms(3))
qed

text \<open>A loop over the indices \<open>range(n)\<close> with an invariant that counts.\<close>

lemma obeys_fold_upto:
  assumes "I 0 s" "\<And>k s. int k < n \<Longrightarrow> I k s \<Longrightarrow> obeys (f (int k) s) (I (Suc k))" "\<And>t. I (nat n) t \<Longrightarrow> Q t"
  shows "obeys (fold_r f [0..n - 1] s) Q"
proof -
  have "obeys (fold_r f [int j..n - 1] s) (I (j + nat (n - int j)))" if "I j s" for j s
    using that
  proof (induction "nat (n - int j)" arbitrary: j s)
    case 0
    then show ?case by (simp add: obeys_Inr)
  next
    case (Suc m)
    have lt: "int j < n" using Suc(2) by simp
    then have "[int j..n - 1] = int j # [int (Suc j)..n - 1]" by (simp add: upto_rec1 add.commute)
    moreover have "j + nat (n - int j) = Suc j + nat (n - int (Suc j))" using lt by linarith
    moreover have "obeys (fold_r f [int (Suc j)..n - 1] t) (I (Suc j + nat (n - int (Suc j))))" if "I (Suc j) t" for t
      using Suc(1)[of "Suc j" t] Suc(2) that by simp
    ultimately show ?case using obeys_mono[OF assms(2)[OF lt Suc(3)]] by (simp add: obeys_bind)
  qed
  from obeys_mono[OF this[of 0, OF assms(1)]] assms(3) show ?thesis by simp
qed

lemma obeys_map_r:
  assumes "\<And>x. x \<in> set xs \<Longrightarrow> obeys (f x) (P x)" "\<And>ys. list_all2 P xs ys \<Longrightarrow> Q ys"
  shows "obeys (map_r f xs) Q"
proof -
  have "obeys (map_r f xs) (list_all2 P xs)" using assms(1)
  proof (induction xs)
    case (Cons x xs)
    have IH: "obeys (map_r f xs) (list_all2 P xs)" using Cons by simp
    have "obeys (f x) (\<lambda>y. obeys (bind_r (map_r f xs) (\<lambda>ys. Inr (y # ys))) (list_all2 P (x # xs)))"
      by (rule obeys_mono[OF Cons.prems[of x]]) (auto intro!: obeys_bind obeys_mono[OF IH] obeys_Inr)
    then show ?case by (simp add: obeys_bind)
  qed (simp add: obeys_Inr)
  then show ?thesis by (rule obeys_mono) (rule assms(2))
qed

section \<open>The helpers fail closed\<close>

lemma obeys_struct [obeys_intros]:
  "0 \<le> off \<Longrightarrow> off + n \<le> blen data \<Longrightarrow> Q () \<Longrightarrow> obeys (struct_need data off n) Q"
  by (simp add: struct_need_def obeys_Inr)

lemma obeys_require [obeys_intros]:
  "(0 \<le> off \<Longrightarrow> 0 \<le> n \<Longrightarrow> off + n \<le> t \<Longrightarrow> Q ()) \<Longrightarrow> obeys (require_range t off n l) Q"
  by (auto simp: require_range_def obeys_def is_parity_def)

lemma obeys_text [obeys_intros]:
  "(\<And>s. text_of v l = Inr s \<Longrightarrow> Q s) \<Longrightarrow> obeys (text_of v l) Q"
  by (auto simp: text_of_def obeys_def is_parity_def split: option.splits)

lemma obeys_cstring [obeys_intros]:
  assumes "\<And>v nx. cstring data start limit l = Inr (v, nx) \<Longrightarrow> Q (v, nx)"
  shows "obeys (cstring data start limit l) Q"
proof (rule obeys_closed)
  show "obeys (cstring data start limit l) (\<lambda>_. True)"
    unfolding cstring_def Let_def by (intro obeys_intros) simp_all
qed (use assms in auto)

lemma obeys_fixed_name [obeys_intros]: "(\<And>s. Q s) \<Longrightarrow> obeys (fixed_name v l) Q"
  unfolding fixed_name_def Let_def by (intro obeys_intros) simp_all

lemma obeys_uleb_loop:
  assumes "limit \<le> blen data" "0 \<le> offset"
  shows "obeys (uleb_loop data offset limit start l v shift) (\<lambda>_. True)"
  using assms
proof (induction data offset limit start l v shift rule: uleb_loop.induct)
  case (1 data offset limit start l v shift)
  show ?case
    by (subst uleb_loop.simps) (use 1 in \<open>auto simp: Let_def intro!: obeys_intros\<close>)
qed

lemma obeys_uleb [obeys_intros]:
  assumes "limit \<le> blen data" "0 \<le> offset" "\<And>r e. uleb data offset limit l = Inr (r, e) \<Longrightarrow> Q (r, e)"
  shows "obeys (uleb data offset limit l) Q"
proof (rule obeys_closed)
  show "obeys (uleb data offset limit l) (\<lambda>_. True)"
    unfolding uleb_def by (rule obeys_uleb_loop[OF assms(1,2)])
qed (use assms(3) in auto)

lemma obeys_align_up [obeys_intros]:
  "(\<And>a. align_up v k = Inr a \<Longrightarrow> Q a) \<Longrightarrow> obeys (align_up v k) Q"
  by (auto simp: align_up_def obeys_def is_parity_def)

lemma obeys_check_disjoint [obeys_intros]:
  assumes "check_disjoint ranges n = Inr () \<Longrightarrow> Q ()"
  shows "obeys (check_disjoint ranges n) Q"
proof (rule obeys_closed)
  have "obeys (check_disjoint_loop xs n pe pn) (\<lambda>_. True)" for xs pe pn
    by (induction xs n pe pn rule: check_disjoint_loop.induct) (auto intro!: obeys_intros)
  then show "obeys (check_disjoint ranges n) (\<lambda>_. True)" by (simp add: check_disjoint_def)
qed (use assms in auto)

lemma obeys_pack [obeys_intros]:
  "0 \<le> v \<Longrightarrow> v < 2 ^ 64 \<Longrightarrow> (\<And>bs. Q bs) \<Longrightarrow> obeys (pack_u64 v) Q"
  by (simp add: pack_u64_def obeys_Inr)

section \<open>Claims fail closed\<close>

lemma keeps_builder_refl: "builder_inv b \<Longrightarrow> keeps_builder A b b"
  by (auto simp: keeps_builder_def)

lemma keeps_builder_trans: "keeps_builder A b c \<Longrightarrow> grows A c d \<Longrightarrow> keeps_builder A b d"
  using grows_trans[of A b c d] unfolding grows_def keeps_builder_def by metis

lemma keeps_builderD:
  assumes "keeps_builder A b b'"
  shows "builder_inv b'" "b_data b' = b_data b" "b_prefix b' = b_prefix b"
  using assms by (simp_all add: keeps_builder_def)

text \<open>One claim after a run from \<open>b0\<close>: the run goes on or raises \<open>ParityError\<close>.\<close>

lemma obeys_add:
  assumes "keeps_builder A b0 b"
    and "role = Allowed_Payload \<Longrightarrow> Volatile (full_locator (b_prefix b0) locator) start sz \<in> A"
    and "\<And>b'. keeps_builder A b0 b' \<Longrightarrow> Q b'"
  shows "obeys (builder_add b start sz locator role deps nt canonical replace) Q"
  unfolding obeys_def
proof (intro conjI allI impI)
  note k = keeps_builderD[OF assms(1)]
  fix e assume e: "builder_add b start sz locator role deps nt canonical replace = Inl e"
  show "is_parity e"
  proof (cases "sz = 0")
    case True
    then show ?thesis using e by (auto simp: builder_add_def require_range_def is_parity_def split: if_splits)
  next
    case False
    then show ?thesis using e builder_add_refuses[OF k(1) False] builder_add_accepts[OF k(1)]
      unfolding is_parity_def by (metis sum.distinct(1) sum.inject(1))
  qed
next
  fix b' assume "builder_add b start sz locator role deps nt canonical replace = Inr b'"
  then have "grows A b b'"
    by (rule grows_add) (use assms(2) keeps_builderD(3)[OF assms(1)] in simp)
  then show "Q b'" using assms(1,3) keeps_builder_trans by blast
qed

lemma obeys_add_plain:
  "keeps_builder A b0 b \<Longrightarrow> (\<And>b'. keeps_builder A b0 b' \<Longrightarrow> Q b') \<Longrightarrow>
     obeys (add_plain b start sz locator) Q"
  by (rule obeys_add) simp_all

lemma obeys_add_derived:
  "keeps_builder A b0 b \<Longrightarrow> (\<And>b'. keeps_builder A b0 b' \<Longrightarrow> Q b') \<Longrightarrow>
     obeys (add_derived b start sz locator deps) Q"
  by (rule obeys_add) simp_all

lemma obeys_atom_post_init: "(\<And>a'. Q a') \<Longrightarrow> obeys (atom_post_init a) Q"
  unfolding atom_post_init_def by (intro obeys_intros) simp_all

lemma obeys_finish_atoms: "obeys (finish_atoms data is occ) (\<lambda>_. True)"
proof (induction "is" arbitrary: occ)
  case (Cons i rest)
  show ?case unfolding finish_atoms.simps Let_def
    by (intro obeys_bind obeys_atom_post_init obeys_mono[OF Cons.IH] obeys_Inr TrueI)
qed (simp add: obeys_Inr)

lemma obeys_finish:
  assumes "\<And>atoms. builder_finish b = Inr atoms \<Longrightarrow> Q atoms"
  shows "obeys (builder_finish b) Q"
proof (rule obeys_closed)
  show "obeys (builder_finish b) (\<lambda>_. True)"
    unfolding builder_finish_def Let_def
    by (auto intro!: obeys_intros obeys_mono[OF obeys_finish_atoms])
qed (use assms in auto)

lemma obeys_with_builder:
  "obeys (f b) (\<lambda>b'. Q (Some b')) \<Longrightarrow> obeys (with_builder (Some b) f) Q"
  unfolding with_builder_def option.case by (rule obeys_bind, erule obeys_mono, rule obeys_Inr)

section \<open>Computations that may also raise one other exception\<close>

definition obeys_or :: "py_exc \<Rightarrow> 'a res \<Rightarrow> ('a \<Rightarrow> bool) \<Rightarrow> bool" where
  "obeys_or e0 m Q \<longleftrightarrow> (\<forall>e. m = Inl e \<longrightarrow> is_parity e \<or> e = e0) \<and> (\<forall>x. m = Inr x \<longrightarrow> Q x)"

lemma obeys_or_lift: "obeys m Q \<Longrightarrow> obeys_or e0 m Q"
  by (auto simp: obeys_def obeys_or_def)

lemma obeys_or_bind: "obeys_or e0 m (\<lambda>x. obeys_or e0 (f x) Q) \<Longrightarrow> obeys_or e0 (bind_r m f) Q"
  by (cases m) (auto simp: obeys_or_def)

lemma obeys_or_bind_left: "obeys m (\<lambda>x. obeys_or e0 (f x) Q) \<Longrightarrow> obeys_or e0 (bind_r m f) Q"
  by (rule obeys_or_bind[OF obeys_or_lift])

lemma obeys_or_mono: "obeys_or e0 m P \<Longrightarrow> (\<And>x. m = Inr x \<Longrightarrow> P x \<Longrightarrow> Q x) \<Longrightarrow> obeys_or e0 m Q"
  by (auto simp: obeys_or_def)

lemma obeys_or_if:
  "(c \<Longrightarrow> obeys_or e0 m Q) \<Longrightarrow> (\<not> c \<Longrightarrow> obeys_or e0 n Q) \<Longrightarrow> obeys_or e0 (if c then m else n) Q"
  by simp

lemma obeys_or_struct: "Q () \<Longrightarrow> obeys_or StructError (struct_need data off n) Q"
  by (simp add: struct_need_def obeys_or_def)

lemma obeys_or_fold:
  assumes "I s" "\<And>x s. x \<in> set xs \<Longrightarrow> I s \<Longrightarrow> obeys_or e0 (f x s) I"
  shows "obeys_or e0 (fold_r f xs s) I"
  using assms
proof (induction xs arbitrary: s)
  case (Cons x xs)
  have "obeys_or e0 (f x s) (\<lambda>t. obeys_or e0 (fold_r f xs t) I)"
    by (rule obeys_or_mono[OF Cons.prems(2)[of x s]]) (use Cons in auto)
  then show ?case by (simp add: obeys_or_bind)
qed (simp add: obeys_or_def)

end
