(* ===== verification/Code_Directory.thy ===== *)
theory Code_Directory
  imports Fail_Closed Sha256
begin

text \<open>
  \<open>parse_code_directory\<close> of \<open>tools/abi_artifact_parity.py\<close>: the single-slot, ad-hoc, linker-signed
  signature, verified page by page.  The specification side builds the signature a linker would
  write (\<open>sign_blob\<close>).
\<close>

definition CSMAGIC_EMBEDDED_SIGNATURE :: int where "CSMAGIC_EMBEDDED_SIGNATURE = 0xFADE0CC0"
definition CSMAGIC_CODEDIRECTORY :: int where "CSMAGIC_CODEDIRECTORY = 0xFADE0C02"
definition CSSLOT_CODEDIRECTORY :: int where "CSSLOT_CODEDIRECTORY = 0"
definition CS_ADHOC :: int where "CS_ADHOC = 0x2"
definition CS_LINKER_SIGNED :: int where "CS_LINKER_SIGNED = 0x20000"
definition CS_HASHTYPE_SHA256 :: int where "CS_HASHTYPE_SHA256 = 2"

lemmas cs_constants = CSMAGIC_EMBEDDED_SIGNATURE_def CSMAGIC_CODEDIRECTORY_def
  CSSLOT_CODEDIRECTORY_def CS_ADHOC_def CS_LINKER_SIGNED_def CS_HASHTYPE_SHA256_def

record code_directory =
  cd_offset :: int
  cd_size :: int
  cd_version :: int
  cd_flags :: int
  cd_identifier :: string
  cd_code_limit :: int
  cd_code_slots :: int
  cd_page_size :: int
  cd_hash_type :: int
  cd_hash_size :: int
  cd_cdhash :: string

text \<open>The fields of \<open>unpack_from(">IIIIIIIII4BIIIIQQQQ", data, cd)\<close> the code looks at.\<close>

record cd_fields =
  f_magic :: int
  f_length :: int
  f_version :: int
  f_flags :: int
  f_hash_offset :: int
  f_ident_offset :: int
  f_special_slots :: int
  f_code_slots :: int
  f_code_limit_32 :: int
  f_hash_size :: int
  f_hash_type :: int
  f_platform :: int
  f_page_exp :: int
  f_spare2 :: int
  f_scatter_offset :: int
  f_team_offset :: int
  f_spare3 :: int
  f_code_limit_64 :: int

definition cd_unpack :: "bytes \<Rightarrow> int \<Rightarrow> cd_fields" where
  "cd_unpack data cd =
     \<lparr>f_magic = u_be data cd 4, f_length = u_be data (cd + 4) 4, f_version = u_be data (cd + 8) 4,
      f_flags = u_be data (cd + 12) 4, f_hash_offset = u_be data (cd + 16) 4,
      f_ident_offset = u_be data (cd + 20) 4, f_special_slots = u_be data (cd + 24) 4,
      f_code_slots = u_be data (cd + 28) 4, f_code_limit_32 = u_be data (cd + 32) 4,
      f_hash_size = u_be data (cd + 36) 1, f_hash_type = u_be data (cd + 37) 1,
      f_platform = u_be data (cd + 38) 1, f_page_exp = u_be data (cd + 39) 1,
      f_spare2 = u_be data (cd + 40) 4, f_scatter_offset = u_be data (cd + 44) 4,
      f_team_offset = u_be data (cd + 48) 4, f_spare3 = u_be data (cd + 52) 4,
      f_code_limit_64 = u_be data (cd + 56) 8\<rparr>"

definition cs_locator :: string where "cs_locator = ''macho.code_signature''"

definition cs_error :: "string \<Rightarrow> py_exc" where "cs_error msg = ParityError (Some cs_locator) msg"

text \<open>The scalar checks of the header, up to the page exponent.\<close>

definition cd_check_scalars :: "cd_fields \<Rightarrow> int \<Rightarrow> int \<Rightarrow> unit res" where
  "cd_check_scalars f sz blob_offset =
     (if f_magic f \<noteq> CSMAGIC_CODEDIRECTORY \<or> f_length f \<noteq> sz - blob_offset
      then Inl (cs_error ''invalid CodeDirectory length or magic'')
      else if f_version f \<noteq> 0x20400
      then Inl (cs_error (''unsupported CodeDirectory version 0x'' @ show_hex (f_version f)))
      else if f_flags f \<noteq> (CS_ADHOC OR CS_LINKER_SIGNED)
      then Inl (cs_error (''signature flags 0x'' @ show_hex (f_flags f)
             @ '' are not ad-hoc linker-signed''))
      else if f_special_slots f \<noteq> 0 \<or> f_scatter_offset f \<noteq> 0 \<or> f_team_offset f \<noteq> 0
      then Inl (cs_error
             ''special, scatter, team, entitlement, or requirement slots are forbidden'')
      else if f_spare2 f \<noteq> 0 \<or> f_spare3 f \<noteq> 0 \<or> f_platform f \<noteq> 0
      then Inl (cs_error ''nonzero reserved CodeDirectory field'')
      else if f_hash_type f \<noteq> CS_HASHTYPE_SHA256 \<or> f_hash_size f \<noteq> 32
      then Inl (cs_error ''only full SHA-256 CodeDirectories are supported'')
      else if f_page_exp f > 30
      then Inl (cs_error ''invalid CodeDirectory page exponent'')
      else Inr ())"

definition cd_page_size_of :: "cd_fields \<Rightarrow> int" where
  "cd_page_size_of f = push_bit (nat (f_page_exp f)) 1"

definition cd_limit :: "cd_fields \<Rightarrow> int res" where
  "cd_limit f =
     (if f_code_limit_32 f = 0xFFFFFFFF
      then if f_code_limit_64 f \<le> 0xFFFFFFFF
           then Inl (cs_error ''non-canonical 64-bit CodeDirectory code limit'')
           else Inr (f_code_limit_64 f)
      else if f_code_limit_64 f \<noteq> 0
           then Inl (cs_error ''unexpected 64-bit CodeDirectory code limit'')
           else Inr (f_code_limit_32 f))"

definition page_bytes :: "bytes \<Rightarrow> int \<Rightarrow> int \<Rightarrow> int \<Rightarrow> bytes" where
  "page_bytes data page_size code_limit index =
     py_slice data (index * page_size) (min (index * page_size + page_size) code_limit)"

text \<open>One round of the loop over the page hashes.\<close>

definition cd_check_page :: "bytes \<Rightarrow> int \<Rightarrow> int \<Rightarrow> int \<Rightarrow> int \<Rightarrow> int \<Rightarrow> unit \<Rightarrow> unit res" where
  "cd_check_page data page_size code_limit hashes hash_size index u =
     (let expected = sha256 (page_bytes data page_size code_limit index);
          actual_start = hashes + index * hash_size;
          actual = py_slice data actual_start (actual_start + hash_size)
      in if actual \<noteq> expected
         then Inl (cs_error (''page hash '' @ show_int index @ '' does not match signed bytes''))
         else Inr ())"

definition cd_claims :: "int \<Rightarrow> int \<Rightarrow> int \<Rightarrow> cd_fields \<Rightarrow> atom_builder \<Rightarrow> atom_builder res" where
  "cd_claims offset sz cd f b =
     bind_r (builder_add b offset sz ''code_signature'' Invariant [] None None True) (\<lambda>b.
     bind_r (add_derived b (offset + 4) 4 ''code_signature.superblob_length''
               dynamic_dependencies) (\<lambda>b.
     bind_r (add_derived b (cd + 4) 4 ''code_signature.directory_length''
               dynamic_dependencies) (\<lambda>b.
     bind_r (add_derived b (cd + 28) 8 ''code_signature.code_slots_and_limit''
               dynamic_dependencies) (\<lambda>b.
     add_derived b (cd + f_hash_offset f) (f_code_slots f * f_hash_size f)
       ''code_signature.page_hashes'' dynamic_dependencies))))"

text \<open>The checks after the scalar header: code limit, slots, identifier, layout and hashes.\<close>

definition cd_check_body :: "bytes \<Rightarrow> int \<Rightarrow> int \<Rightarrow> cd_fields \<Rightarrow> (string \<times> int) res" where
  "cd_check_body data offset cd f =
     (let page_size = cd_page_size_of f in
      bind_r (cd_limit f) (\<lambda>code_limit.
      if code_limit \<noteq> offset
      then Inl (cs_error ''CodeDirectory code limit does not equal signature offset'')
      else if f_code_slots f \<noteq> (code_limit + page_size - 1) div page_size
      then Inl (cs_error ''CodeDirectory code-slot count is not derived from code limit'')
      else if f_ident_offset f < 88 \<or> f_ident_offset f \<ge> f_length f
      then Inl (cs_error ''invalid CodeDirectory identifier offset'')
      else
      bind_r (cstring data (cd + f_ident_offset f) (cd + f_length f)
                (cs_locator @ ''.identifier'')) (\<lambda>ident.
      bind_r (text_of (fst ident) (cs_locator @ ''.identifier'')) (\<lambda>identifier.
      if identifier = []
      then Inl (cs_error ''empty CodeDirectory identifier'')
      else if f_hash_offset f \<noteq> snd ident - cd
      then Inl (cs_error ''CodeDirectory hash offset is not immediately after identifier'')
      else if f_hash_offset f + f_code_slots f * f_hash_size f \<noteq> f_length f
      then Inl (cs_error ''CodeDirectory hash array does not exactly fill the blob'')
      else
      bind_r (fold_r (cd_check_page data page_size code_limit (cd + f_hash_offset f) (f_hash_size f))
                [0..f_code_slots f - 1] ()) (\<lambda>_.
      Inr (identifier, code_limit))))))"

definition parse_code_directory :: "bytes \<Rightarrow> int \<Rightarrow> int \<Rightarrow> atom_builder option
    \<Rightarrow> (code_directory \<times> atom_builder option) res" where
  "parse_code_directory data offset sz builder =
     bind_r (require_range (blen data) offset sz cs_locator) (\<lambda>_.
     if sz < 20 then Inl (cs_error ''signature is too small'')
     else if u_be data offset 4 \<noteq> CSMAGIC_EMBEDDED_SIGNATURE \<or> u_be data (offset + 4) 4 \<noteq> sz
       \<or> u_be data (offset + 8) 4 \<noteq> 1
     then Inl (cs_error ''requires a single-slot embedded signature'')
     else let blob_offset = u_be data (offset + 16) 4 in
     if u_be data (offset + 12) 4 \<noteq> CSSLOT_CODEDIRECTORY \<or> blob_offset \<noteq> 20
     then Inl (cs_error ''requires exactly one primary CodeDirectory'')
     else let cd = offset + blob_offset in
     if sz < blob_offset + 88 then Inl (cs_error ''CodeDirectory header is truncated'')
     else let f = cd_unpack data cd in
     bind_r (cd_check_scalars f sz blob_offset) (\<lambda>_.
     bind_r (cd_check_body data offset cd f) (\<lambda>body.
     bind_r (with_builder builder (cd_claims offset sz cd f)) (\<lambda>builder.
     Inr (\<lparr>cd_offset = offset, cd_size = sz, cd_version = f_version f, cd_flags = f_flags f,
           cd_identifier = fst body, cd_code_limit = snd body, cd_code_slots = f_code_slots f,
           cd_page_size = cd_page_size_of f, cd_hash_type = f_hash_type f,
           cd_hash_size = f_hash_size f,
           cd_cdhash = sha256_bytes (py_slice data cd (cd + f_length f))\<rparr>, builder)))))"

section \<open>What an accepted signature says\<close>

lemma fold_r_unit:
  "fold_r f xs () = Inr () \<longleftrightarrow> (\<forall>x \<in> set xs. f x () = Inr ())"
  by (induction xs) (auto simp: bind_r_eq_Inr)

lemma cd_check_page_Inr:
  "cd_check_page data ps cl hs hz i u = Inr v \<longleftrightarrow>
     py_slice data (hs + i * hz) (hs + i * hz + hz) = sha256 (page_bytes data ps cl i)"
  by (simp add: cd_check_page_def Let_def)

lemma cd_check_scalars_Inr:
  "cd_check_scalars f sz bo = Inr u \<longleftrightarrow>
     f_magic f = CSMAGIC_CODEDIRECTORY \<and> f_length f = sz - bo \<and> f_version f = 0x20400
     \<and> f_flags f = (CS_ADHOC OR CS_LINKER_SIGNED) \<and> f_special_slots f = 0
     \<and> f_scatter_offset f = 0 \<and> f_team_offset f = 0 \<and> f_spare2 f = 0 \<and> f_spare3 f = 0
     \<and> f_platform f = 0 \<and> f_hash_type f = CS_HASHTYPE_SHA256 \<and> f_hash_size f = 32
     \<and> f_page_exp f \<le> 30"
  unfolding cd_check_scalars_def if_Inl_eq_Inr by auto

lemma cd_check_body_Inr:
  "cd_check_body data offset cd f = Inr (identifier, code_limit) \<longleftrightarrow>
     cd_limit f = Inr code_limit \<and> code_limit = offset
     \<and> f_code_slots f = (code_limit + cd_page_size_of f - 1) div cd_page_size_of f
     \<and> 88 \<le> f_ident_offset f \<and> f_ident_offset f < f_length f
     \<and> (\<exists>v nx. cstring data (cd + f_ident_offset f) (cd + f_length f) (cs_locator @ ''.identifier'')
              = Inr (v, nx)
          \<and> text_of v (cs_locator @ ''.identifier'') = Inr identifier \<and> identifier \<noteq> []
          \<and> f_hash_offset f = nx - cd)
     \<and> f_hash_offset f + f_code_slots f * f_hash_size f = f_length f
     \<and> (\<forall>i. 0 \<le> i \<and> i < f_code_slots f \<longrightarrow>
          py_slice data (cd + f_hash_offset f + i * f_hash_size f)
            (cd + f_hash_offset f + i * f_hash_size f + f_hash_size f)
          = sha256 (page_bytes data (cd_page_size_of f) code_limit i))"
  unfolding cd_check_body_def Let_def bind_r_eq_Inr if_Inl_eq_Inr
  by (auto simp: fold_r_unit cd_check_page_Inr)

lemma parse_code_directory_Inr:
  assumes "parse_code_directory data offset sz builder = Inr (d, builder')"
  shows "0 \<le> offset" "offset + sz \<le> blen data" "offset = cd_code_limit d" "offset = cd_offset d"
    "cd_size d = sz" "cd_identifier d \<noteq> []" "cd_hash_size d = 32" "0 < cd_page_size d"
    "cd_flags d = CS_ADHOC OR CS_LINKER_SIGNED"
    "cd_code_slots d = (offset + cd_page_size d - 1) div cd_page_size d"
    "cd_cdhash d = sha256_bytes (py_slice data (offset + 20) (offset + sz))"
    "\<exists>h. offset + 108 < h \<and> h + 32 * cd_code_slots d = offset + sz
       \<and> (\<forall>i. 0 \<le> i \<and> i < cd_code_slots d \<longrightarrow>
            py_slice data (h + 32 * i) (h + 32 * i + 32)
              = sha256 (page_bytes data (cd_page_size d) offset i))"
    "with_builder builder (cd_claims offset sz (offset + 20) (cd_unpack data (offset + 20)))
       = Inr builder'"
proof -
  let ?f = "cd_unpack data (offset + 20)"
  from assms obtain idn code_limit where p: "0 \<le> offset" "offset + sz \<le> blen data"
    "cd_check_scalars ?f sz 20 = Inr ()"
    "cd_check_body data offset (offset + 20) ?f = Inr (idn, code_limit)"
    "with_builder builder (cd_claims offset sz (offset + 20) ?f) = Inr builder'"
    "d = \<lparr>cd_offset = offset, cd_size = sz, cd_version = f_version ?f, cd_flags = f_flags ?f,
           cd_identifier = idn, cd_code_limit = code_limit, cd_code_slots = f_code_slots ?f,
           cd_page_size = cd_page_size_of ?f, cd_hash_type = f_hash_type ?f,
           cd_hash_size = f_hash_size ?f,
           cd_cdhash = sha256_bytes (py_slice data (offset + 20) (offset + 20 + f_length ?f))\<rparr>"
    unfolding parse_code_directory_def Let_def bind_r_eq_Inr if_Inl_eq_Inr require_range_Inr
    by (elim exE conjE) (auto simp: prod_eq_iff)
  note s = p(3)[unfolded cd_check_scalars_Inr]
  from p(4) obtain v nx where c: "code_limit = offset"
    "f_code_slots ?f = (code_limit + cd_page_size_of ?f - 1) div cd_page_size_of ?f"
    "88 \<le> f_ident_offset ?f" "f_ident_offset ?f < f_length ?f" "idn \<noteq> []"
    "cstring data (offset + 20 + f_ident_offset ?f) (offset + 20 + f_length ?f)
       (cs_locator @ ''.identifier'') = Inr (v, nx)" "f_hash_offset ?f = nx - (offset + 20)"
    "f_hash_offset ?f + f_code_slots ?f * f_hash_size ?f = f_length ?f"
    and pages: "\<forall>i. 0 \<le> i \<and> i < f_code_slots ?f \<longrightarrow>
          py_slice data (offset + 20 + f_hash_offset ?f + i * f_hash_size ?f)
            (offset + 20 + f_hash_offset ?f + i * f_hash_size ?f + f_hash_size ?f)
          = sha256 (page_bytes data (cd_page_size_of ?f) code_limit i)"
    unfolding cd_check_body_Inr by blast
  note z = cstring_Inr[OF c(6)]
  show "0 \<le> offset" "offset + sz \<le> blen data" "offset = cd_code_limit d" "offset = cd_offset d"
    "cd_size d = sz" "cd_identifier d \<noteq> []" "cd_hash_size d = 32"
    "cd_flags d = CS_ADHOC OR CS_LINKER_SIGNED"
    "cd_code_slots d = (offset + cd_page_size d - 1) div cd_page_size d"
    using p c s by simp_all
  show "0 < cd_page_size d" using p(6) by (simp add: cd_page_size_of_def push_bit_eq_mult)
  show "cd_cdhash d = sha256_bytes (py_slice data (offset + 20) (offset + sz))"
    using p(6) s by (simp add: algebra_simps)
  show "with_builder builder (cd_claims offset sz (offset + 20) ?f) = Inr builder'" by (rule p(5))
  show "\<exists>h. offset + 108 < h \<and> h + 32 * cd_code_slots d = offset + sz
       \<and> (\<forall>i. 0 \<le> i \<and> i < cd_code_slots d \<longrightarrow>
            py_slice data (h + 32 * i) (h + 32 * i + 32)
              = sha256 (page_bytes data (cd_page_size d) offset i))"
  proof (intro exI[of _ nx] conjI)
    show "offset + 108 < nx" using z c by simp
    show "nx + 32 * cd_code_slots d = offset + sz" using c p(6) s by simp
    show "\<forall>i. 0 \<le> i \<and> i < cd_code_slots d \<longrightarrow>
       py_slice data (nx + 32 * i) (nx + 32 * i + 32) = sha256 (page_bytes data (cd_page_size d) offset i)"
      using pages c(1,7) p(6) s by (simp add: mult.commute)
  qed
qed

text \<open>The claims of a signature add derived fields only.\<close>

lemma cd_claims_grows: "cd_claims offset sz cd f b = Inr b' \<Longrightarrow> grows A b b'"
  unfolding cd_claims_def
  by (elim bind_r_InrE; (drule grows_add_other[where A = A], simp)+) (meson grows_trans)

lemma parse_code_directory_grows:
  "parse_code_directory data offset sz builder = Inr (d, builder') \<Longrightarrow> grows_opt A builder builder'"
  by (rule with_builder_grows[OF parse_code_directory_Inr(13) cd_claims_grows])

text \<open>The signature parser fails closed.\<close>

lemma obeys_cd_check_page: "obeys (cd_check_page data ps cl hs hz i u) (\<lambda>_. True)"
  unfolding cd_check_page_def Let_def cs_error_def by (intro obeys_intros TrueI)

lemma obeys_cd_claims:
  assumes "keeps_builder A b0 b"
  shows "obeys (cd_claims offset sz cd f b) (keeps_builder A b0)"
  unfolding cd_claims_def
  by (intro obeys_bind obeys_add_derived obeys_add[where role = Invariant]) (simp_all add: assms)

lemma obeys_cd_check_body: "obeys (cd_check_body data offset cd f) (\<lambda>_. True)"
  unfolding cd_check_body_def cd_limit_def Let_def cs_error_def
  by (intro obeys_intros obeys_fold[where I = "\<lambda>_. True"] obeys_cd_check_page TrueI)

lemma obeys_code_directory:
  assumes "keeps_builder A b0 b"
    and "\<And>d b'. parse_code_directory data offset sz (Some b) = Inr (d, Some b') \<Longrightarrow>
          keeps_builder A b0 b' \<Longrightarrow> Q (d, Some b')"
  shows "obeys (parse_code_directory data offset sz (Some b)) Q"
proof (rule obeys_mono)
  show "obeys (parse_code_directory data offset sz (Some b))
      (\<lambda>q. \<exists>b'. snd q = Some b' \<and> keeps_builder A b0 b')"
    unfolding parse_code_directory_def cd_check_scalars_def cs_error_def Let_def
    by (intro obeys_intros obeys_mono[OF obeys_cd_check_body] obeys_with_builder
        obeys_mono[OF obeys_cd_claims[OF assms(1)]]) auto
qed (use assms(2) in auto)

text \<open>The pages of a signature are the signed bytes.\<close>

lemma page_slice:
  fixes i ps cl :: int
  assumes "0 \<le> i" "0 < ps" "i < (cl + ps - 1) div ps"
  shows "0 \<le> i * ps" "i * ps < cl"
proof -
  have "(i + 1) * ps \<le> (cl + ps - 1) div ps * ps" by (rule mult_right_mono) (use assms in auto)
  also have "\<dots> \<le> cl + ps - 1"
    using assms by (metis div_mult_mod_eq pos_mod_sign linorder_not_less add.commute le_add_same_cancel2)
  finally show "i * ps < cl" by (simp add: algebra_simps)
qed (use assms in simp)

lemma pages_prefix:
  assumes "0 < ps" "0 \<le> cl" "cl \<le> blen data" "int n \<le> (cl + ps - 1) div ps"
  shows "concat (map (\<lambda>i. page_bytes data ps cl (int i)) [0..<n]) = py_slice data 0 (min (int n * ps) cl)"
  using assms(4)
proof (induction n)
  case 0
  then show ?case by (simp add: py_slice_def py_bound_def assms)
next
  case (Suc n)
  have lt: "int n * ps < cl" "0 \<le> int n * ps" using page_slice[of "int n" ps cl] Suc.prems assms by auto
  have "concat (map (\<lambda>i. page_bytes data ps cl (int i)) [0..<n]) = py_slice data 0 (int n * ps)"
    using Suc lt by simp
  moreover have "page_bytes data ps cl (int n) = py_slice data (int n * ps) (min (int (Suc n) * ps) cl)"
    by (simp add: page_bytes_def algebra_simps)
  moreover have "int n * ps \<le> min (int (Suc n) * ps) cl" using lt assms(1) by (simp add: algebra_simps)
  ultimately show ?case using py_slice_join[of 0 "int n * ps" "min (int (Suc n) * ps) cl" data] lt assms
    by simp
qed

lemma pages_cover:
  assumes "0 < ps" "0 \<le> cl" "cl \<le> blen data"
  shows "concat (map (\<lambda>i. page_bytes data ps cl (int i)) [0..<nat ((cl + ps - 1) div ps)]) = py_slice data 0 cl"
proof -
  let ?n = "(cl + ps - 1) div ps"
  have n: "0 \<le> ?n" using assms by (simp add: pos_imp_zdiv_nonneg_iff)
  have "cl + ps - 1 < (?n + 1) * ps"
    using assms(1) by (metis add.commute distrib_right mult_1 pos_mod_bound add_strict_left_mono div_mult_mod_eq mult.commute)
  then have "cl \<le> ?n * ps" by (simp add: algebra_simps)
  then show ?thesis using pages_prefix[of ps cl data "nat ?n"] assms n by simp
qed

section \<open>Reading concatenated fields\<close>

lemma u_be_skip:
  "blen xs \<le> off \<Longrightarrow> 0 \<le> n \<Longrightarrow> u_be (xs @ ys) off n = u_be ys (off - blen xs) n"
  by (simp add: u_be_def py_slice_skip algebra_simps)

lemma le_bytes_snoc: "le_bytes (Suc n) v = le_bytes n v @ [word_of_int (v div 256 ^ n)]"
proof (induction n arbitrary: v)
  case (Suc n)
  have "v div 256 div 256 ^ n = v div 256 ^ Suc n" by (simp add: zdiv_zmult2_eq)
  then show ?case using Suc[of "v div 256"] by simp
qed simp

lemma be_bytes_rev: "be_bytes n v = rev (le_bytes n (int v))"
proof (induction n)
  case (Suc n)
  have "(of_nat (v div 256 ^ n) :: byte) = word_of_int (int v div 256 ^ n)"
    by (metis of_int_of_nat_eq zdiv_int of_nat_power of_nat_numeral)
  then show ?case using Suc by (simp only: be_bytes.simps le_bytes_snoc) simp
qed simp

lemma u_be_here: "v < 256 ^ k \<Longrightarrow> n = int k \<Longrightarrow> u_be (be_bytes k v @ ys) 0 n = int v"
proof -
  assume v: "v < 256 ^ k" "n = int k"
  then have "int v < 256 ^ k" by (metis of_nat_less_iff of_nat_numeral of_nat_power)
  moreover have "py_slice (be_bytes k v @ ys) 0 n = be_bytes k v"
    using v by (intro py_slice_here) (simp add: blen_def)
  ultimately show ?thesis by (simp add: u_be_def be_bytes_rev le_value_le_bytes)
qed

section \<open>The signature a linker writes\<close>

definition slots_of :: "nat \<Rightarrow> bytes \<Rightarrow> nat" where
  "slots_of pe content = (length content + 2 ^ pe - 1) div 2 ^ pe"

definition page_hashes :: "nat \<Rightarrow> bytes \<Rightarrow> bytes list" where
  "page_hashes pe content =
     map (\<lambda>i. sha256 (page_bytes content (2 ^ pe) (blen content) (int i))) [0..<slots_of pe content]"

definition cd_blob_length :: "nat \<Rightarrow> bytes \<Rightarrow> bytes \<Rightarrow> nat" where
  "cd_blob_length pe ident content = 89 + length ident + 32 * slots_of pe content"

text \<open>
  Super blob header, CodeDirectory header, identifier, hashes.  \<open>exec\<close> is the 24 bytes of
  executable-segment fields the parser leaves to the invariant comparison.
\<close>

definition sign_blob :: "nat \<Rightarrow> bytes \<Rightarrow> bytes \<Rightarrow> bytes \<Rightarrow> bytes" where
  "sign_blob pe ident exec content =
     be_bytes 4 0xFADE0CC0 @ be_bytes 4 (20 + cd_blob_length pe ident content) @ be_bytes 4 1
     @ be_bytes 4 0 @ be_bytes 4 20
     @ be_bytes 4 0xFADE0C02 @ be_bytes 4 (cd_blob_length pe ident content) @ be_bytes 4 0x20400
     @ be_bytes 4 0x20002 @ be_bytes 4 (89 + length ident) @ be_bytes 4 88 @ be_bytes 4 0
     @ be_bytes 4 (slots_of pe content) @ be_bytes 4 (length content) @ be_bytes 1 32 @ be_bytes 1 2
     @ be_bytes 1 0 @ be_bytes 1 pe @ be_bytes 4 0 @ be_bytes 4 0 @ be_bytes 4 0 @ be_bytes 4 0
     @ be_bytes 8 0 @ exec @ ident @ [0] @ concat (page_hashes pe content)"

lemma blen_be_bytes [simp]: "blen (be_bytes n v) = int n"
  by (simp add: blen_def)

lemma length_concat_const: "(\<And>x. x \<in> set xs \<Longrightarrow> length (f x) = k) \<Longrightarrow>
    length (concat (map f xs)) = k * length xs"
  by (induction xs) simp_all

lemma length_page_hashes: "length (concat (page_hashes pe content)) = 32 * slots_of pe content"
  unfolding page_hashes_def by (subst length_concat_const[where k = 32]) simp_all

lemma blen_concat_hashes: "blen (concat (page_hashes pe content)) = 32 * int (slots_of pe content)"
  using length_page_hashes[of pe content] by (simp add: blen_def)

lemma blen_sign_blob:
  "length exec = 24 \<Longrightarrow> blen (sign_blob pe ident exec content)
     = int (20 + cd_blob_length pe ident content)"
  unfolding sign_blob_def cd_blob_length_def
  by (simp add: blen_concat_hashes del: be_bytes.simps) (simp add: blen_def)

lemmas read_fields = u_be_skip u_be_here py_slice_skip

lemma cd_unpack_sign_blob:
  assumes "cd_blob_length pe ident content + length content < 2 ^ 31" "pe \<le> 30" "length exec = 24"
  defines "data \<equiv> content @ sign_blob pe ident exec content"
  shows "cd_unpack data (blen content + 20) =
     \<lparr>f_magic = 0xFADE0C02, f_length = int (cd_blob_length pe ident content), f_version = 0x20400,
      f_flags = 0x20002, f_hash_offset = 89 + blen ident, f_ident_offset = 88, f_special_slots = 0,
      f_code_slots = int (slots_of pe content), f_code_limit_32 = blen content, f_hash_size = 32,
      f_hash_type = 2, f_platform = 0, f_page_exp = int pe, f_spare2 = 0, f_scatter_offset = 0,
      f_team_offset = 0, f_spare3 = 0, f_code_limit_64 = 0\<rparr>"
proof -
  have b: "cd_blob_length pe ident content < 256 ^ 4" "slots_of pe content < 256 ^ 4"
    "length content < 256 ^ 4" "89 + length ident < 256 ^ 4" "pe < 256 ^ 1"
    using assms(1,2) by (simp_all add: cd_blob_length_def)
  show ?thesis unfolding cd_unpack_def data_def sign_blob_def
    using b by (simp add: read_fields del: be_bytes.simps One_nat_def) (simp add: blen_def)
qed

lemma superblob_sign_blob:
  fixes exec :: bytes
  assumes "cd_blob_length pe ident content + length content < 2 ^ 31"
  defines "data \<equiv> content @ sign_blob pe ident exec content"
  shows "u_be data (blen content) 4 = 0xFADE0CC0"
    "u_be data (blen content + 4) 4 = int (20 + cd_blob_length pe ident content)"
    "u_be data (blen content + 8) 4 = 1" "u_be data (blen content + 12) 4 = 0"
    "u_be data (blen content + 16) 4 = 20"
proof -
  have b: "20 + cd_blob_length pe ident content < 256 ^ 4" using assms(1) by simp
  show "u_be data (blen content) 4 = 0xFADE0CC0"
    "u_be data (blen content + 4) 4 = int (20 + cd_blob_length pe ident content)"
    "u_be data (blen content + 8) 4 = 1" "u_be data (blen content + 12) 4 = 0"
    "u_be data (blen content + 16) 4 = 20"
    unfolding data_def sign_blob_def using b by (simp_all add: read_fields del: be_bytes.simps One_nat_def)
qed

lemma concat_chunk:
  assumes "\<And>x. x \<in> set xs \<Longrightarrow> length x = 32" "i < length xs"
  shows "py_slice (concat xs) (32 * int i) (32 * int i + 32) = xs ! i"
  using assms
proof (induction xs arbitrary: i)
  case (Cons x xs)
  have x: "blen x = 32" using Cons.prems(1)[of x] by (simp add: blen_def)
  show ?case
  proof (cases i)
    case 0
    then show ?thesis using py_slice_here[OF x, of "concat xs"] by simp
  next
    case (Suc k)
    have "py_slice (x @ concat xs) (32 * int i) (32 * int i + 32)
        = py_slice (concat xs) (32 * int k) (32 * int k + 32)"
      using x Suc by (subst py_slice_skip) (simp_all add: algebra_simps)
    then show ?thesis using Cons Suc by simp
  qed
qed simp

lemma page_bytes_append:
  assumes "0 \<le> i" "0 < ps" "i < (blen content + ps - 1) div ps"
  shows "page_bytes (content @ rest) ps (blen content) i = page_bytes content ps (blen content) i"
proof -
  have a: "0 \<le> i * ps" "i * ps < blen content" using page_slice[OF assms] .
  then have "i * ps \<le> min (i * ps + ps) (blen content)" "0 \<le> blen rest" using assms by simp_all
  moreover have "min (i * ps + ps) (blen content) \<le> blen content" by simp
  moreover have "min (i * ps + ps) (blen content) \<le> blen (content @ rest)" by (simp add: blen_def)
  moreover have "nat (min (i * ps + ps) (blen content) - i * ps) \<le> length content - nat (i * ps)"
    using a by (simp add: blen_def nat_le_iff)
  ultimately show ?thesis using a(1) unfolding page_bytes_def
    by (simp add: py_slice_in_range del: blen_append)
qed

lemma slots_int: "int (slots_of pe content) = (blen content + 2 ^ pe - 1) div 2 ^ pe"
proof -
  have "int (length content + 2 ^ pe - 1) = blen content + 2 ^ pe - 1"
    by (simp add: blen_def of_nat_diff Suc_leI)
  then show ?thesis unfolding slots_of_def zdiv_int by simp
qed

lemma cd_body_sign_blob:
  assumes len: "cd_blob_length pe ident content + length content < 2 ^ 31" "pe \<le> 30" "length exec = 24"
    and ident: "utf8_decode ident \<noteq> None" "ident \<noteq> []" "0 \<notin> set ident"
  defines "data \<equiv> content @ sign_blob pe ident exec content"
  shows "cd_check_body data (blen content) (blen content + 20) (cd_unpack data (blen content + 20))
    = Inr (str_of_bytes ident, blen content)"
proof -
  let ?f = "cd_unpack data (blen content + 20)" and ?n = "slots_of pe content"
  note f = cd_unpack_sign_blob[OF len, folded data_def]
  have ps: "cd_page_size_of ?f = 2 ^ pe" by (simp add: cd_page_size_of_def f push_bit_eq_mult)
  define pre where "pre = content @ take 108 (sign_blob pe ident exec content)"
  have split: "data = pre @ ident @ 0 # concat (page_hashes pe content)" "blen pre = blen content + 108"
  proof -
    define hd where "hd = be_bytes 4 0xFADE0CC0 @ be_bytes 4 (20 + cd_blob_length pe ident content) @ be_bytes 4 1
     @ be_bytes 4 0 @ be_bytes 4 20
     @ be_bytes 4 0xFADE0C02 @ be_bytes 4 (cd_blob_length pe ident content) @ be_bytes 4 0x20400
     @ be_bytes 4 0x20002 @ be_bytes 4 (89 + length ident) @ be_bytes 4 88 @ be_bytes 4 0
     @ be_bytes 4 (slots_of pe content) @ be_bytes 4 (length content) @ be_bytes 1 32 @ be_bytes 1 2
     @ be_bytes 1 0 @ be_bytes 1 pe @ be_bytes 4 0 @ be_bytes 4 0 @ be_bytes 4 0 @ be_bytes 4 0
     @ be_bytes 8 0 @ exec"
    have s: "sign_blob pe ident exec content = hd @ ident @ 0 # concat (page_hashes pe content)"
      by (simp add: sign_blob_def hd_def del: be_bytes.simps One_nat_def)
    have "length hd = 108" using len(3) by (simp add: hd_def del: be_bytes.simps One_nat_def)
    then show "data = pre @ ident @ 0 # concat (page_hashes pe content)" "blen pre = blen content + 108"
      by (simp_all add: data_def pre_def s) (simp add: blen_def)
  qed
  have blob: "int (cd_blob_length pe ident content) = 89 + blen ident + 32 * int ?n"
    by (simp add: cd_blob_length_def blen_def)
  have limit: "blen content + 20 + (89 + blen ident + 32 * int ?n) = blen data"
    using split(2) unfolding split(1) by (simp add: blen_concat_hashes)
  have cs: "cstring data (blen content + 20 + f_ident_offset ?f) (blen content + 20 + f_length ?f)
      (cs_locator @ ''.identifier'') = Inr (ident, blen content + 109 + blen ident)"
  proof -
    have "f_ident_offset ?f = 88" "f_length ?f = 89 + blen ident + 32 * int ?n" by (simp_all add: f blob)
    then have *: "blen content + 20 + f_ident_offset ?f = blen pre"
      "blen content + 20 + f_length ?f = blen data"
      "blen content + 109 + blen ident = blen pre + blen ident + 1"
      using limit split(2) by simp_all
    have "blen pre + blen ident + 1 \<le> blen data" unfolding split(1) by simp
    then show ?thesis unfolding * using cstring_concat[OF ident(3), of pre "blen data"
        "concat (page_hashes pe content)" "cs_locator @ ''.identifier''"] split(1) by simp
  qed
  have pages: "py_slice data (blen content + 109 + blen ident + i * 32)
        (blen content + 109 + blen ident + i * 32 + 32)
      = sha256 (page_bytes data (2 ^ pe) (blen content) i)" if i: "0 \<le> i" "i < int ?n" for i
  proof -
    let ?p = "pre @ ident @ [0]" and ?hs = "concat (page_hashes pe content)"
    have "data = ?p @ ?hs" "blen ?p = blen content + 109 + blen ident" using split by simp_all
    then have "py_slice data (blen content + 109 + blen ident + i * 32)
        (blen content + 109 + blen ident + i * 32 + 32)
      = py_slice ?hs (32 * int (nat i)) (32 * int (nat i) + 32)"
      using i by (simp only:) (subst py_slice_skip, simp_all add: algebra_simps)
    also have "\<dots> = page_hashes pe content ! nat i"
      using i by (intro concat_chunk) (auto simp: page_hashes_def nat_less_iff)
    also have "\<dots> = sha256 (page_bytes content (2 ^ pe) (blen content) i)"
      using i by (simp add: page_hashes_def nat_less_iff)
    also have "\<dots> = sha256 (page_bytes data (2 ^ pe) (blen content) i)"
      using i unfolding data_def by (subst page_bytes_append) (simp_all add: slots_int)
    finally show ?thesis .
  qed
  have n: "0 \<le> blen ident" "0 \<le> (blen content + 2 ^ pe - 1) div 2 ^ pe"
    by (simp_all add: slots_int[symmetric])
  have lim: "cd_limit ?f = Inr (blen content)"
    using len(1) by (simp add: f cd_limit_def) (simp add: blen_def)
  show ?thesis
    unfolding cd_check_body_Inr ps cs lim
  proof (intro conjI exI allI impI)
    show "py_slice data (blen content + 20 + f_hash_offset ?f + i * f_hash_size ?f)
        (blen content + 20 + f_hash_offset ?f + i * f_hash_size ?f + f_hash_size ?f)
      = sha256 (page_bytes data (2 ^ pe) (blen content) i)" if "0 \<le> i \<and> i < f_code_slots ?f" for i
      using pages[of i] that by (simp add: f algebra_simps)
  qed (use n ident in \<open>simp_all add: f slots_int blob text_of_Inr str_of_bytes_def del: blen_nonneg, linarith+\<close>)
qed

lemma parse_sign_blob:
  assumes len: "cd_blob_length pe ident content + length content < 2 ^ 31" "pe \<le> 30" "length exec = 24"
    and ident: "utf8_decode ident \<noteq> None" "ident \<noteq> []" "0 \<notin> set ident"
  defines "sig \<equiv> sign_blob pe ident exec content"
  shows "parse_code_directory (content @ sig) (blen content) (blen sig) None =
    Inr (\<lparr>cd_offset = blen content, cd_size = blen sig, cd_version = 0x20400, cd_flags = 0x20002,
       cd_identifier = str_of_bytes ident, cd_code_limit = blen content,
       cd_code_slots = int (slots_of pe content), cd_page_size = 2 ^ pe, cd_hash_type = 2,
       cd_hash_size = 32, cd_cdhash = sha256_bytes (py_slice sig 20 (blen sig))\<rparr>, None)"
proof -
  let ?data = "content @ sig"
  note f = cd_unpack_sign_blob[OF len, folded sig_def]
  note sb = superblob_sign_blob[OF len(1), where exec = exec, folded sig_def]
  have bs: "blen sig = int (20 + cd_blob_length pe ident content)"
    unfolding sig_def by (rule blen_sign_blob[OF len(3)])
  have "cd_check_scalars (cd_unpack ?data (blen content + 20)) (blen sig) 20 = Inr ()"
    unfolding cd_check_scalars_Inr using len(2) by (simp add: f bs cs_constants)
  moreover have "cd_check_body ?data (blen content) (blen content + 20)
      (cd_unpack ?data (blen content + 20)) = Inr (str_of_bytes ident, blen content)"
    unfolding sig_def by (rule cd_body_sign_blob[OF len ident])
  moreover have "py_slice ?data (blen content + 20) (blen content + 20 + int (cd_blob_length pe ident content))
      = py_slice sig 20 (blen sig)"
    by (subst py_slice_skip) (simp_all add: bs)
  moreover have "108 \<le> blen sig" by (simp add: bs cd_blob_length_def)
  ultimately show ?thesis
    unfolding parse_code_directory_def Let_def
    by (simp add: sb cs_constants bs[symmetric] f cd_page_size_of_def push_bit_eq_mult) (simp add: bs)
qed

text \<open>Two contents with the same page hashes are equal or collide on a page.\<close>

lemma same_pages_same_content:
  assumes "0 < ps" "0 \<le> cl" "cl \<le> blen data" "cl \<le> blen data'"
    and "\<And>i. 0 \<le> i \<Longrightarrow> i < (cl + ps - 1) div ps \<Longrightarrow> page_bytes data ps cl i = page_bytes data' ps cl i"
  shows "py_slice data 0 cl = py_slice data' 0 cl"
proof -
  let ?n = "nat ((cl + ps - 1) div ps)"
  have "map (\<lambda>i. page_bytes data ps cl (int i)) [0..<?n] = map (\<lambda>i. page_bytes data' ps cl (int i)) [0..<?n]"
    using assms(5) by (auto simp: zless_nat_eq_int_zless)
  then show ?thesis using pages_cover[OF assms(1,2,3)] pages_cover[OF assms(1,2,4)] by metis
qed

section \<open>Properties\<close>

text \<open>C6. What an accepted signature proves: it starts where the signed bytes end, its hash array runs
  to the end of the blob, every page of the bytes before it has the SHA-256 stored for it, and the
  pages put together are exactly those bytes.\<close>

theorem code_directory_verifies:
  assumes "parse_code_directory data offset sz builder = Inr (d, builder')"
  shows "cd_code_limit d = offset
    \<and> (\<exists>h. h + 32 * cd_code_slots d = offset + sz
        \<and> (\<forall>i. 0 \<le> i \<and> i < cd_code_slots d \<longrightarrow>
             py_slice data (h + 32 * i) (h + 32 * i + 32)
               = sha256 (page_bytes data (cd_page_size d) offset i)))
    \<and> concat (map (\<lambda>i. page_bytes data (cd_page_size d) offset (int i)) [0..<nat (cd_code_slots d)])
        = py_slice data 0 offset
    \<and> cd_cdhash d = sha256_bytes (py_slice data (offset + 20) (offset + sz))"
proof -
  note p = parse_code_directory_Inr[OF assms]
  have "20 \<le> sz" using assms by (auto simp: parse_code_directory_def res_simps)
  then have "offset \<le> blen data" using p(2) by simp
  then show ?thesis using p(3,10,11,12) pages_cover[OF p(8,1), of data] by auto
qed

theorem code_directory_verifies_witness:
  "\<exists>d. parse_code_directory ([1, 2, 3] @ sign_blob 1 [0x7A] (replicate 24 0) [1, 2, 3]) 3
       (blen (sign_blob 1 [0x7A] (replicate 24 0) [1, 2, 3])) None = Inr (d, None)
     \<and> cd_code_slots d = 2 \<and> cd_code_limit d = 3"
proof -
  have d: "parse_code_directory ([1, 2, 3] @ sign_blob 1 [0x7A] (replicate 24 0) [1, 2, 3]) (blen [1, 2, 3 :: byte])
       (blen (sign_blob 1 [0x7A] (replicate 24 0) [1, 2, 3])) None = Inr (
     \<lparr>cd_offset = blen [1, 2, 3 :: byte], cd_size = blen (sign_blob 1 [0x7A] (replicate 24 0) [1, 2, 3]),
       cd_version = 0x20400, cd_flags = 0x20002,
       cd_identifier = str_of_bytes [0x7A], cd_code_limit = blen [1, 2, 3 :: byte],
       cd_code_slots = int (slots_of 1 [1, 2, 3]), cd_page_size = 2 ^ 1, cd_hash_type = 2,
       cd_hash_size = 32, cd_cdhash = sha256_bytes (py_slice (sign_blob 1 [0x7A] (replicate 24 0) [1, 2, 3])
          20 (blen (sign_blob 1 [0x7A] (replicate 24 0) [1, 2, 3])))\<rparr>, None)"
    by (rule parse_sign_blob) (simp_all add: cd_blob_length_def slots_of_def)
  show ?thesis
    using code_directory_verifies[OF d] d
    by (simp add: slots_of_def del: sign_blob_def)
qed

text \<open>Signing and parsing round trip: the signature written for any content below 2 GiB and any
  identifier is accepted at the end of that content, and the parser returns its identifier, code limit, slot
  count and page size.\<close>

theorem sign_then_parse:
  assumes "cd_blob_length pe ident content + length content < 2 ^ 31" "pe \<le> 30" "length exec = 24"
    and "utf8_decode ident \<noteq> None" "ident \<noteq> []" "0 \<notin> set ident"
  shows "\<exists>d. parse_code_directory (content @ sign_blob pe ident exec content) (blen content)
        (blen (sign_blob pe ident exec content)) None = Inr (d, None)
     \<and> cd_identifier d = str_of_bytes ident \<and> cd_code_limit d = blen content
     \<and> cd_code_slots d = int (slots_of pe content) \<and> cd_page_size d = 2 ^ pe"
  using parse_sign_blob[OF assms] by simp

theorem sign_then_parse_witness:
  "\<exists>d. parse_code_directory ([] @ sign_blob 12 [0x6C, 0x69, 0x62] (replicate 24 7) []) (blen ([] :: bytes))
        (blen (sign_blob 12 [0x6C, 0x69, 0x62] (replicate 24 7) [])) None = Inr (d, None)
     \<and> cd_identifier d = str_of_bytes [0x6C, 0x69, 0x62] \<and> cd_code_limit d = blen ([] :: bytes)
     \<and> cd_code_slots d = int (slots_of 12 []) \<and> cd_page_size d = 2 ^ 12"
  by (rule sign_then_parse) (simp_all add: cd_blob_length_def slots_of_def)

text \<open>A signature binds the bytes it signs: two artifacts accepted with the same page size and the
  same stored page hashes agree on every byte before the signature, or exhibit two different pages
  with the same SHA-256.\<close>

theorem signature_binds_content:
  assumes "parse_code_directory data offset sz b1 = Inr (d, b1')"
    and "parse_code_directory data' offset sz b2 = Inr (d', b2')"
    and "py_slice data offset (offset + sz) = py_slice data' offset (offset + sz)"
    and "cd_page_size d = cd_page_size d'"
  shows "py_slice data 0 offset = py_slice data' 0 offset
    \<or> (\<exists>p p'. p \<noteq> p' \<and> sha256 p = sha256 p')"
proof -
  note p = parse_code_directory_Inr[OF assms(1)] and q = parse_code_directory_Inr[OF assms(2)]
  obtain h where h: "offset + 108 < h" "h + 32 * cd_code_slots d = offset + sz"
    "\<And>i. 0 \<le> i \<Longrightarrow> i < cd_code_slots d \<Longrightarrow> py_slice data (h + 32 * i) (h + 32 * i + 32)
        = sha256 (page_bytes data (cd_page_size d) offset i)" using p(12) by blast
  obtain h' where h': "h' + 32 * cd_code_slots d' = offset + sz"
    "\<And>i. 0 \<le> i \<Longrightarrow> i < cd_code_slots d' \<Longrightarrow> py_slice data' (h' + 32 * i) (h' + 32 * i + 32)
        = sha256 (page_bytes data' (cd_page_size d') offset i)" using q(12) by blast
  have same: "cd_code_slots d = cd_code_slots d'" "h = h'" using p(10) q(10) assms(4) h(2) h'(1) by simp_all
  have sub: "py_slice data a b = py_slice data' a b" if "offset \<le> a" "a \<le> b" "b \<le> offset + sz" for a b
    using slice_of_equal_slices[OF assms(3)] that p(1,2) q(2) by blast
  have eq: "sha256 (page_bytes data (cd_page_size d) offset i)
      = sha256 (page_bytes data' (cd_page_size d) offset i)"
    if "0 \<le> i" "i < (offset + cd_page_size d - 1) div cd_page_size d" for i
  proof -
    have "32 * i + 32 \<le> 32 * cd_code_slots d" using that p(10) by simp
    then have "py_slice data (h + 32 * i) (h + 32 * i + 32) = py_slice data' (h + 32 * i) (h + 32 * i + 32)"
      using that h(1,2) by (intro sub) auto
    then show ?thesis using h(3)[of i] h'(2)[of i] that p(10) same assms(4) by simp
  qed
  have "20 \<le> sz" using assms(1) by (auto simp: parse_code_directory_def res_simps)
  then have "offset \<le> blen data" "offset \<le> blen data'" using p(2) q(2) by simp_all
  then show ?thesis using same_pages_same_content[OF p(8,1), of data data'] eq by blast
qed

theorem signature_binds_content_witness:
  "\<exists>d. parse_code_directory ([5] @ sign_blob 2 [0x7A] (replicate 24 0) [5]) (blen [5 :: byte])
       (blen (sign_blob 2 [0x7A] (replicate 24 0) [5])) None = Inr (d, None) \<and> cd_page_size d = 4
   \<and> (py_slice ([5] @ sign_blob 2 [0x7A] (replicate 24 0) [5]) 0 (blen [5 :: byte])
        = py_slice ([5] @ sign_blob 2 [0x7A] (replicate 24 0) [5]) 0 (blen [5 :: byte])
      \<or> (\<exists>p p'. p \<noteq> p' \<and> sha256 p = sha256 p'))"
proof -
  have "\<exists>d. parse_code_directory ([5] @ sign_blob 2 [0x7A] (replicate 24 0) [5]) (blen [5 :: byte])
       (blen (sign_blob 2 [0x7A] (replicate 24 0) [5])) None = Inr (d, None) \<and> cd_page_size d = 4"
    by (subst parse_sign_blob) (simp_all add: cd_blob_length_def slots_of_def)
  then show ?thesis using signature_binds_content[OF _ _ refl refl] by blast
qed

end
