(* ===== verification/Dwarf_Line.thy ===== *)
theory Dwarf_Line
  imports Fail_Closed
begin

text \<open>
  \<open>parse_dwarf_v4_debug_line\<close> of \<open>tools/abi_artifact_parity.py\<close>: the directory and file tables of
  DWARF-4 line programs, and the unique global-cache directory with its \<open>builtin.zig\<close>.
\<close>

record dwarf_directory =
  dd_unit_index :: int
  dd_directory_index :: int
  dd_path :: string
  dd_offset :: int
  dd_size :: int

record dwarf_file =
  df_unit_index :: int
  df_file_index :: int
  df_name :: string
  df_directory_index :: int
  df_mtime :: int
  df_length :: int

record provenance_locator =
  pl_kind :: string
  pl_source_locator :: string
  pl_path :: string
  pl_path_offset :: int
  pl_path_size :: int
  pl_expected_basename :: string
  pl_expected_mtime_seconds :: "int option"

section \<open>The tables of a unit\<close>

text \<open>The directory loop: the entries, the next directory index and the offset after the table.\<close>

record dir_table =
  dt_directories :: "dwarf_directory list"
  dt_next_index :: int
  dt_cursor :: int

function dwarf_dirs :: "bytes \<Rightarrow> int \<Rightarrow> int \<Rightarrow> int \<Rightarrow> int \<Rightarrow> int \<Rightarrow> string \<Rightarrow> dir_table res" where
  "dwarf_dirs section_data cursor prologue_end file_offset unit_index directory_index prefix =
     bind_r (cstring section_data cursor prologue_end (prefix @ ''.directory'')) (\<lambda>c.
     if fst c = []
     then Inr \<lparr>dt_directories = [], dt_next_index = directory_index, dt_cursor = snd c\<rparr>
     else bind_r (text_of (fst c) (prefix @ ''.directory['' @ show_int directory_index @ '']'')) (\<lambda>path.
       bind_r (dwarf_dirs section_data (snd c) prologue_end file_offset unit_index
                 (directory_index + 1) prefix) (\<lambda>t.
       Inr (t\<lparr>dt_directories :=
         \<lparr>dd_unit_index = unit_index, dd_directory_index = directory_index, dd_path = path,
          dd_offset = file_offset + cursor, dd_size = blen (fst c)\<rparr> # dt_directories t\<rparr>))))"
  by pat_completeness auto

termination
proof (relation "measure (\<lambda>(d, cursor, pe, _). nat (pe - cursor))", goal_cases)
  case (2 section_data cursor prologue_end file_offset unit_index directory_index prefix c path)
  then have "cstring section_data cursor prologue_end (prefix @ ''.directory'') = Inr (fst c, snd c)"
    by simp
  from cstring_Inr(2,3)[OF this] show ?case by simp
qed simp

record file_table =
  ft_files :: "dwarf_file list"
  ft_cursor :: int

text \<open>The file loop; \<open>directory_limit\<close> is the directory index after the directory loop.\<close>

function dwarf_files :: "bytes \<Rightarrow> int \<Rightarrow> int \<Rightarrow> int \<Rightarrow> int \<Rightarrow> int \<Rightarrow> string \<Rightarrow> file_table res" where
  "dwarf_files section_data cursor prologue_end unit_index directory_limit file_index prefix =
     bind_r (cstring section_data cursor prologue_end (prefix @ ''.file'')) (\<lambda>c.
     if fst c = [] then Inr \<lparr>ft_files = [], ft_cursor = snd c\<rparr>
     else
       bind_r (uleb section_data (snd c) prologue_end (prefix @ ''.file.dir'')) (\<lambda>d.
       bind_r (uleb section_data (snd d) prologue_end (prefix @ ''.file.mtime'')) (\<lambda>m.
       bind_r (uleb section_data (snd m) prologue_end (prefix @ ''.file.length'')) (\<lambda>n.
       if fst d \<ge> directory_limit
       then Inl (ParityError (Some prefix) ''file references an absent directory'')
       else
       bind_r (text_of (fst c) (prefix @ ''.file['' @ show_int file_index @ '']'')) (\<lambda>name.
       bind_r (dwarf_files section_data (snd n) prologue_end unit_index directory_limit
                 (file_index + 1) prefix) (\<lambda>t.
       Inr (t\<lparr>ft_files :=
         \<lparr>df_unit_index = unit_index, df_file_index = file_index, df_name = name,
          df_directory_index = fst d, df_mtime = fst m, df_length = fst n\<rparr> # ft_files t\<rparr>)))))))"
  by pat_completeness auto

termination
proof (relation "measure (\<lambda>(d, cursor, pe, _). nat (pe - cursor))", goal_cases)
  case (2 section_data cursor prologue_end unit_index directory_limit file_index prefix c d m n name)
  then have c: "cstring section_data cursor prologue_end (prefix @ ''.file'') = Inr (fst c, snd c)"
    and d: "uleb section_data (snd c) prologue_end (prefix @ ''.file.dir'') = Inr (fst d, snd d)"
    and m: "uleb section_data (snd d) prologue_end (prefix @ ''.file.mtime'') = Inr (fst m, snd m)"
    and n: "uleb section_data (snd m) prologue_end (prefix @ ''.file.length'') = Inr (fst n, snd n)"
    by simp_all
  note z = cstring_Inr[OF c]
  have "snd c < snd d" "snd d \<le> prologue_end" using uleb_Inr[OF d] z by auto
  moreover from this have "snd d < snd m" "snd m \<le> prologue_end" using uleb_Inr[OF m] z by auto
  moreover from calculation have "snd m < snd n" "snd n \<le> prologue_end" using uleb_Inr[OF n] z by auto
  ultimately show ?case using z by simp
qed simp

declare dwarf_dirs.simps [simp del] dwarf_files.simps [simp del]

section \<open>Units\<close>

record dwarf_unit =
  du_directories :: "dwarf_directory list"
  du_files :: "dwarf_file list"
  du_end :: int

text \<open>One unit at \<open>offset\<close>: header, scalar prologue, opcode lengths and the two tables.\<close>

definition parse_dwarf_unit :: "bytes \<Rightarrow> int \<Rightarrow> int \<Rightarrow> int \<Rightarrow> string \<Rightarrow> dwarf_unit res" where
  "parse_dwarf_unit section_data offset file_offset unit_index prefix =
     (if blen section_data - offset < 10
      then Inl (ParityError (Some prefix) ''truncated line-table unit header'')
      else let total_length = u32 section_data offset in
      if total_length = 0xFFFFFFFF
      then Inl (ParityError (Some prefix) ''DWARF64 line tables are unsupported'')
      else let unit_end = offset + 4 + total_length in
      bind_r (require_range (blen section_data) offset (4 + total_length) prefix) (\<lambda>_.
      let version = u16 section_data (offset + 4) in
      if version \<noteq> 4
      then Inl (ParityError (Some prefix)
             (''unsupported DWARF line-table version '' @ show_int version))
      else let prologue_length = u32 section_data (offset + 6);
               prologue_start = offset + 10;
               prologue_end = prologue_start + prologue_length in
      if prologue_end > unit_end \<or> prologue_length < 6
      then Inl (ParityError (Some prefix) ''invalid DWARF line-table prologue length'')
      else
      bind_r (struct_need section_data prologue_start 6) (\<lambda>_.
      let min_inst = u8 section_data prologue_start;
          max_ops = u8 section_data (prologue_start + 1);
          default_stmt = u8 section_data (prologue_start + 2);
          line_range = u8 section_data (prologue_start + 4);
          opcode_base = u8 section_data (prologue_start + 5);
          cursor = prologue_start + 6 in
      if min_inst = 0 \<or> max_ops = 0 \<or> default_stmt \<notin> {0, 1} \<or> line_range = 0 \<or> opcode_base = 0
      then Inl (ParityError (Some prefix) ''invalid DWARF v4 line-table scalar prologue'')
      else if cursor + opcode_base - 1 > prologue_end
      then Inl (ParityError (Some prefix) ''truncated standard opcode lengths'')
      else
      bind_r (dwarf_dirs section_data (cursor + (opcode_base - 1)) prologue_end file_offset
                unit_index 1 prefix) (\<lambda>dt.
      bind_r (dwarf_files section_data (dt_cursor dt) prologue_end unit_index (dt_next_index dt)
                1 prefix) (\<lambda>ft.
      if ft_cursor ft \<noteq> prologue_end
      then Inl (ParityError (Some prefix) ''DWARF file table does not exactly fill the prologue'')
      else Inr \<lparr>du_directories = dt_directories dt, du_files = ft_files ft, du_end = unit_end\<rparr>)))))"

text \<open>The claims of a unit: its two length fields follow the cache directory's length.\<close>

definition dwarf_unit_claims :: "int \<Rightarrow> int \<Rightarrow> string \<Rightarrow> string \<Rightarrow> atom_builder \<Rightarrow> atom_builder res" where
  "dwarf_unit_claims base unit_index prefix dependency b =
     bind_r (add_derived b base 4 (prefix @ ''.unit['' @ show_int unit_index @ ''].total_length'')
               [dependency]) (\<lambda>b.
     add_derived b (base + 6) 4 (prefix @ ''.unit['' @ show_int unit_index @ ''].prologue_length'')
       [dependency])"

record dwarf_tables =
  dw_directories :: "dwarf_directory list"
  dw_files :: "dwarf_file list"
  dw_builder :: "atom_builder option"

lemma parse_dwarf_unit_Inr:
  assumes "parse_dwarf_unit section_data offset file_offset unit_index prefix = Inr u"
  obtains dt ft where "0 \<le> offset"
    "offset + 4 + u32 section_data offset \<le> blen section_data"
    "offset + 10 + u32 section_data (offset + 6) \<le> offset + 4 + u32 section_data offset"
    "1 \<le> u8 section_data (offset + 15)"
    "dwarf_dirs section_data (offset + 15 + u8 section_data (offset + 15))
       (offset + 10 + u32 section_data (offset + 6)) file_offset unit_index 1 prefix = Inr dt"
    "dwarf_files section_data (dt_cursor dt) (offset + 10 + u32 section_data (offset + 6))
       unit_index (dt_next_index dt) 1 prefix = Inr ft"
    "ft_cursor ft = offset + 10 + u32 section_data (offset + 6)"
    "u = \<lparr>du_directories = dt_directories dt, du_files = ft_files ft,
          du_end = offset + 4 + u32 section_data offset\<rparr>"
proof -
  have arith: "offset + 10 + 5 = offset + 15" "offset + 10 + 6 + (x - 1) = offset + 15 + x" for x :: int
    by simp_all
  note a = assms[unfolded parse_dwarf_unit_def Let_def if_Inl_eq_Inr bind_r_eq_Inr require_range_Inr
      struct_need_Inr arith sum.inject(2)]
  from a show ?thesis
  proof (elim exE conjE, goal_cases)
    case (1 x1 x2 dt ft)
    have "1 \<le> u8 section_data (offset + 15)"
      using 1 u_le_nonneg[of section_data "offset + 15" 1] by linarith
    then show ?case by (intro that[of dt ft]) (use 1 in \<open>simp_all only: not_le not_less not_not de_Morgan_disj add.assoc\<close>)
  qed
qed

lemma parse_dwarf_unit_progress:
  assumes "parse_dwarf_unit section_data offset file_offset unit_index prefix = Inr u"
  shows "offset < du_end u" "du_end u \<le> blen section_data" "0 \<le> offset"
proof -
  have "offset < du_end u \<and> du_end u \<le> blen section_data \<and> 0 \<le> offset"
    
  proof (rule parse_dwarf_unit_Inr[OF assms], goal_cases)
    case (1 dt ft)
    then have "du_end u = offset + 4 + u32 section_data offset" by simp
    then show ?case using u_le_nonneg[of section_data offset 4] 1(1,2) by linarith
  qed
  then show "offset < du_end u" "du_end u \<le> blen section_data" "0 \<le> offset" by simp_all
qed

function dwarf_units :: "bytes \<Rightarrow> int \<Rightarrow> int \<Rightarrow> string \<Rightarrow> string \<Rightarrow> int \<Rightarrow> dwarf_tables
    \<Rightarrow> dwarf_tables res" where
  "dwarf_units section_data file_offset offset prefix dependency unit_index t =
     (if offset < blen section_data
      then bind_r (parse_dwarf_unit section_data offset file_offset unit_index prefix) (\<lambda>u.
           bind_r (with_builder (dw_builder t)
                     (dwarf_unit_claims (file_offset + offset) unit_index prefix dependency)) (\<lambda>b.
           dwarf_units section_data file_offset (du_end u) prefix dependency (unit_index + 1)
             \<lparr>dw_directories = dw_directories t @ du_directories u,
              dw_files = dw_files t @ du_files u, dw_builder = b\<rparr>))
      else Inr t)"
  by pat_completeness auto

termination
proof (relation "measure (\<lambda>(d, fo, offset, _). nat (blen d - offset))", goal_cases)
  case (2 section_data file_offset offset prefix dependency unit_index t u b)
  then show ?case using parse_dwarf_unit_progress[OF 2(2)] by simp
qed simp

declare dwarf_units.simps [simp del]

section \<open>The whole section\<close>

definition dwarf_eligible :: "dwarf_directory list \<Rightarrow> dwarf_directory list" where
  "dwarf_eligible ds = filter (\<lambda>d. global_cache_dir_match (bytes_of_str (dd_path d)) \<noteq> None) ds"

definition dwarf_builtins :: "dwarf_directory \<Rightarrow> dwarf_file list \<Rightarrow> dwarf_file list" where
  "dwarf_builtins cache_dir fs =
     filter (\<lambda>f. df_unit_index f = dd_unit_index cache_dir
       \<and> df_directory_index f = dd_directory_index cache_dir \<and> df_name f = ''builtin.zig'') fs"

definition parse_dwarf_v4_debug_line :: "bytes \<Rightarrow> int \<Rightarrow> atom_builder option \<Rightarrow> string \<Rightarrow> string
    \<Rightarrow> (dwarf_tables \<times> provenance_locator) res" where
  "parse_dwarf_v4_debug_line section_data file_offset builder prefix dependency =
     bind_r (dwarf_units section_data file_offset 0 prefix dependency 0
               \<lparr>dw_directories = [], dw_files = [], dw_builder = builder\<rparr>) (\<lambda>t.
     case dwarf_eligible (dw_directories t) of
       [cache_dir] \<Rightarrow>
         if length (dwarf_builtins cache_dir (dw_files t)) \<noteq> 1
         then Inl (ParityError (Some prefix)
                ''global-cache directory must be referenced by exactly one builtin.zig'')
         else
         bind_r (with_builder (dw_builder t) (\<lambda>b.
             builder_add b (dd_offset cache_dir) (dd_size cache_dir) ''dwarf.global_cache_directory''
               Allowed_Payload [] (Some ''unique DWARF-v4 global-cache b/<32hex> directory'')
               None True)) (\<lambda>b.
         Inr (t\<lparr>dw_builder := b\<rparr>,
           \<lparr>pl_kind = ''static_builtin'',
            pl_source_locator = prefix @ ''.unit['' @ show_int (dd_unit_index cache_dir)
              @ ''].directory['' @ show_int (dd_directory_index cache_dir) @ '']'',
            pl_path = dd_path cache_dir @ ''/builtin.zig'',
            pl_path_offset = dd_offset cache_dir, pl_path_size = dd_size cache_dir,
            pl_expected_basename = ''builtin.zig'', pl_expected_mtime_seconds = None\<rparr>))
     | eligible \<Rightarrow> Inl (ParityError (Some prefix)
           (''expected one global-cache b/<32hex> directory, found '' @ show_int (blen eligible))))"

section \<open>The tables hold what the bytes say\<close>

text \<open>A recorded directory is a non-empty string of the section at its offset.\<close>

definition dir_located :: "bytes \<Rightarrow> int \<Rightarrow> dwarf_directory \<Rightarrow> bool" where
  "dir_located section_data file_offset d \<longleftrightarrow>
     0 \<le> dd_offset d - file_offset \<and> 0 < dd_size d
     \<and> dd_offset d - file_offset + dd_size d < blen section_data
     \<and> dd_path d = str_of_bytes (py_slice section_data (dd_offset d - file_offset)
          (dd_offset d - file_offset + dd_size d))"

definition dirs_numbered :: "int \<Rightarrow> int \<Rightarrow> dwarf_directory list \<Rightarrow> bool" where
  "dirs_numbered unit_index first ds \<longleftrightarrow>
     (\<forall>k < length ds. dd_unit_index (ds ! k) = unit_index \<and> dd_directory_index (ds ! k) = first + int k)"

lemma dirs_numbered_Cons:
  "dirs_numbered u n (d # ds) \<longleftrightarrow> dd_unit_index d = u \<and> dd_directory_index d = n \<and> dirs_numbered u (n + 1) ds"
  unfolding dirs_numbered_def by (auto simp: nth_Cons split: nat.splits)

lemma dwarf_dirs_Inr:
  assumes "dwarf_dirs section_data cursor pe file_offset unit_index n prefix = Inr t"
  shows "(\<forall>d \<in> set (dt_directories t). dir_located section_data file_offset d)
    \<and> dirs_numbered unit_index n (dt_directories t)
    \<and> dt_next_index t = n + blen (dt_directories t)
    \<and> cursor < dt_cursor t \<and> dt_cursor t \<le> pe \<and> pe \<le> blen section_data \<and> 0 \<le> cursor"
  using assms
proof (induction section_data cursor pe file_offset unit_index n prefix arbitrary: t
    rule: dwarf_dirs.induct)
  case (1 section_data cursor pe file_offset unit_index n prefix)
  from "1.prems" obtain v nx where c: "cstring section_data cursor pe (prefix @ ''.directory'') = Inr (v, nx)"
    by (subst (asm) dwarf_dirs.simps) (auto simp: bind_r_eq_Inr)
  note z = cstring_Inr[OF c]
  show ?case
  proof (cases "v = []")
    case True
    then have "t = \<lparr>dt_directories = [], dt_next_index = n, dt_cursor = nx\<rparr>"
      using "1.prems" by (subst (asm) dwarf_dirs.simps) (simp add: c)
    then show ?thesis using z by (simp add: dirs_numbered_def)
  next
    case False
    then obtain path t' where t: "text_of v (prefix @ ''.directory['' @ show_int n @ '']'') = Inr path"
      "dwarf_dirs section_data nx pe file_offset unit_index (n + 1) prefix = Inr t'"
      "t = t'\<lparr>dt_directories := \<lparr>dd_unit_index = unit_index, dd_directory_index = n, dd_path = path,
          dd_offset = file_offset + cursor, dd_size = blen v\<rparr> # dt_directories t'\<rparr>"
      using "1.prems" by (subst (asm) dwarf_dirs.simps) (auto simp: c bind_r_eq_Inr)
    have "0 < blen v" using False by (simp add: blen_def)
    moreover have "path = str_of_bytes v" using t(1) by (simp add: text_of_Inr)
    moreover have "cursor + blen v = nx - 1" using z by simp
    ultimately have "dir_located section_data file_offset \<lparr>dd_unit_index = unit_index,
       dd_directory_index = n, dd_path = path, dd_offset = file_offset + cursor, dd_size = blen v\<rparr>"
      using z by (simp add: dir_located_def)
    moreover have IH: "(\<forall>d \<in> set (dt_directories t'). dir_located section_data file_offset d)
      \<and> dirs_numbered unit_index (n + 1) (dt_directories t')
      \<and> dt_next_index t' = n + 1 + blen (dt_directories t')
      \<and> nx < dt_cursor t' \<and> dt_cursor t' \<le> pe \<and> pe \<le> blen section_data \<and> 0 \<le> nx"
      using "1.IH"[of "(v, nx)" path t'] c False t(1,2) by simp
    ultimately show ?thesis using t(3) z(1,2) by (simp add: dirs_numbered_Cons)
  qed
qed

definition files_numbered :: "int \<Rightarrow> int \<Rightarrow> int \<Rightarrow> dwarf_file list \<Rightarrow> bool" where
  "files_numbered unit_index first directory_limit fs \<longleftrightarrow>
     (\<forall>k < length fs. df_unit_index (fs ! k) = unit_index \<and> df_file_index (fs ! k) = first + int k
        \<and> 0 \<le> df_directory_index (fs ! k) \<and> df_directory_index (fs ! k) < directory_limit)"

lemma files_numbered_Cons:
  "files_numbered u n l (f # fs) \<longleftrightarrow> df_unit_index f = u \<and> df_file_index f = n
     \<and> 0 \<le> df_directory_index f \<and> df_directory_index f < l \<and> files_numbered u (n + 1) l fs"
  unfolding files_numbered_def by (auto simp: nth_Cons split: nat.splits)

lemma dwarf_files_Inr:
  assumes "dwarf_files section_data cursor pe unit_index limit n prefix = Inr t"
  shows "files_numbered unit_index n limit (ft_files t)"
  using assms
proof (induction section_data cursor pe unit_index limit n prefix arbitrary: t
    rule: dwarf_files.induct)
  case (1 section_data cursor pe unit_index limit n prefix)
  from "1.prems" obtain v nx where c: "cstring section_data cursor pe (prefix @ ''.file'') = Inr (v, nx)"
    by (subst (asm) dwarf_files.simps) (auto simp: bind_r_eq_Inr)
  note z = cstring_Inr[OF c]
  show ?case
  proof (cases "v = []")
    case True
    then have "t = \<lparr>ft_files = [], ft_cursor = nx\<rparr>"
      using "1.prems" by (subst (asm) dwarf_files.simps) (simp add: c)
    then show ?thesis by (simp add: files_numbered_def)
  next
    case False
    then obtain d m l name t' where u: "uleb section_data nx pe (prefix @ ''.file.dir'') = Inr d"
      "uleb section_data (snd d) pe (prefix @ ''.file.mtime'') = Inr m"
      "uleb section_data (snd m) pe (prefix @ ''.file.length'') = Inr l"
      and lim: "\<not> fst d \<ge> limit"
      and t: "text_of v (prefix @ ''.file['' @ show_int n @ '']'') = Inr name"
        "dwarf_files section_data (snd l) pe unit_index limit (n + 1) prefix = Inr t'"
        "t = t'\<lparr>ft_files := \<lparr>df_unit_index = unit_index, df_file_index = n, df_name = name,
          df_directory_index = fst d, df_mtime = fst m, df_length = fst l\<rparr> # ft_files t'\<rparr>"
      using "1.prems"
      by (subst (asm) dwarf_files.simps) (simp only: c bind_r_simps fst_conv snd_conv if_False bind_r_eq_Inr if_Inl_eq_Inr, blast)
    have "0 \<le> fst d" using uleb_Inr(3)[of section_data nx pe "prefix @ ''.file.dir''" "fst d" "snd d"] u(1) z
      by simp
    moreover have "files_numbered unit_index (n + 1) limit (ft_files t')"
      using "1.IH"[of "(v, nx)" d m l name t'] c False u t(1,2) lim by simp
    ultimately show ?thesis using t(3) lim by (simp add: files_numbered_Cons)
  qed
qed

text \<open>
  Well-formed tables: directories are where they say, each is identified by unit and number, and
  every file names a directory of its own unit (or the compilation directory, number 0).
\<close>

definition tables_wf :: "bytes \<Rightarrow> int \<Rightarrow> dwarf_tables \<Rightarrow> bool" where
  "tables_wf section_data file_offset t \<longleftrightarrow>
     (\<forall>d \<in> set (dw_directories t). dir_located section_data file_offset d)
     \<and> distinct (map (\<lambda>d. (dd_unit_index d, dd_directory_index d)) (dw_directories t))
     \<and> distinct (map (\<lambda>f. (df_unit_index f, df_file_index f)) (dw_files t))
     \<and> (\<forall>f \<in> set (dw_files t). df_directory_index f = 0 \<or> (\<exists>d \<in> set (dw_directories t).
          dd_unit_index d = df_unit_index f \<and> dd_directory_index d = df_directory_index f))"

definition tables_below :: "int \<Rightarrow> dwarf_tables \<Rightarrow> bool" where
  "tables_below u t \<longleftrightarrow> (\<forall>d \<in> set (dw_directories t). dd_unit_index d < u)
     \<and> (\<forall>f \<in> set (dw_files t). df_unit_index f < u)"

lemma dirs_numbered_set:
  "dirs_numbered u n ds \<Longrightarrow> d \<in> set ds \<Longrightarrow> dd_unit_index d = u"
  by (auto simp: dirs_numbered_def in_set_conv_nth)

lemma dirs_numbered_distinct:
  "dirs_numbered u n ds \<Longrightarrow> distinct (map (\<lambda>d. (dd_unit_index d, dd_directory_index d)) ds)"
  by (simp add: dirs_numbered_def distinct_conv_nth)

lemma files_numbered_set:
  "files_numbered u n l fs \<Longrightarrow> f \<in> set fs \<Longrightarrow> df_unit_index f = u \<and> 0 \<le> df_directory_index f \<and> df_directory_index f < l"
  by (auto simp: files_numbered_def in_set_conv_nth)

lemma files_numbered_distinct:
  "files_numbered u n l fs \<Longrightarrow> distinct (map (\<lambda>f. (df_unit_index f, df_file_index f)) fs)"
  by (simp add: files_numbered_def distinct_conv_nth)

lemma parse_dwarf_unit_tables:
  assumes "parse_dwarf_unit section_data offset file_offset unit_index prefix = Inr u"
  shows "\<forall>d \<in> set (du_directories u). dir_located section_data file_offset d"
    "dirs_numbered unit_index 1 (du_directories u)"
    "files_numbered unit_index 1 (1 + blen (du_directories u)) (du_files u)"
proof -
  obtain dt ft c pe where t: "dwarf_dirs section_data c pe file_offset unit_index 1 prefix = Inr dt"
    "dwarf_files section_data (dt_cursor dt) pe unit_index (dt_next_index dt) 1 prefix = Inr ft"
    "du_directories u = dt_directories dt" "du_files u = ft_files ft"
    by (rule parse_dwarf_unit_Inr[OF assms]) auto
  note d = dwarf_dirs_Inr[OF t(1)]
  show "\<forall>d \<in> set (du_directories u). dir_located section_data file_offset d"
    "dirs_numbered unit_index 1 (du_directories u)" using d t(3) by auto
  show "files_numbered unit_index 1 (1 + blen (du_directories u)) (du_files u)"
    using dwarf_files_Inr[OF t(2)] d t(3,4) by simp
qed

lemma tables_wf_extend:
  assumes "tables_wf section_data fo t" "tables_below n t"
    and "parse_dwarf_unit section_data offset fo n prefix = Inr u"
  shows "tables_wf section_data fo \<lparr>dw_directories = dw_directories t @ du_directories u,
      dw_files = dw_files t @ du_files u, dw_builder = b\<rparr>"
    "tables_below (n + 1) \<lparr>dw_directories = dw_directories t @ du_directories u,
      dw_files = dw_files t @ du_files u, dw_builder = b\<rparr>"
proof -
  note u = parse_dwarf_unit_tables[OF assms(3)]
  note us = dirs_numbered_set[OF u(2)] files_numbered_set[OF u(3)]
  have ex: "\<exists>d \<in> set (du_directories u). dd_unit_index d = n \<and> dd_directory_index d = df_directory_index f"
    if "f \<in> set (du_files u)" "df_directory_index f \<noteq> 0" for f
  proof -
    let ?k = "nat (df_directory_index f - 1)"
    have r: "1 \<le> df_directory_index f" "df_directory_index f < 1 + blen (du_directories u)"
      using us(2)[OF that(1)] that(2) by linarith+
    then have k: "?k < length (du_directories u)" unfolding blen_def by linarith
    then have "dd_unit_index (du_directories u ! ?k) = n"
      "dd_directory_index (du_directories u ! ?k) = df_directory_index f"
      using u(2) r(1) by (auto simp: dirs_numbered_def)
    then show ?thesis using k nth_mem by blast
  qed
  show "tables_below (n + 1) \<lparr>dw_directories = dw_directories t @ du_directories u,
      dw_files = dw_files t @ du_files u, dw_builder = b\<rparr>"
    using assms(2) us by (fastforce simp: tables_below_def)
  have dd: "distinct (map (\<lambda>d. (dd_unit_index d, dd_directory_index d)) (dw_directories t @ du_directories u))"
    using assms(1,2) us(1) dirs_numbered_distinct[OF u(2)]
    by (fastforce simp: tables_wf_def tables_below_def)
  have df: "distinct (map (\<lambda>f. (df_unit_index f, df_file_index f)) (dw_files t @ du_files u))"
    using assms(1,2) us(2) files_numbered_distinct[OF u(3)]
    by (fastforce simp: tables_wf_def tables_below_def)
  have "df_directory_index f = 0 \<or> (\<exists>d \<in> set (dw_directories t @ du_directories u).
          dd_unit_index d = df_unit_index f \<and> dd_directory_index d = df_directory_index f)"
    if "f \<in> set (dw_files t @ du_files u)" for f
    using that assms(1) ex[of f] us(2)[of f] unfolding tables_wf_def by (cases "df_directory_index f = 0") auto
  then show "tables_wf section_data fo \<lparr>dw_directories = dw_directories t @ du_directories u,
      dw_files = dw_files t @ du_files u, dw_builder = b\<rparr>"
    using assms(1) u(1) dd df unfolding tables_wf_def by auto
qed

lemma dwarf_unit_claims_grows:
  "dwarf_unit_claims base n prefix dep b = Inr b' \<Longrightarrow> grows A b b'"
  unfolding dwarf_unit_claims_def
  by (elim bind_r_InrE; (drule grows_add_other[where A = A], simp)+) (meson grows_trans)

lemma dwarf_units_Inr:
  assumes "dwarf_units section_data fo offset prefix dep n t = Inr t'"
    and "tables_wf section_data fo t" "tables_below n t"
  shows "tables_wf section_data fo t' \<and> grows_opt A (dw_builder t) (dw_builder t')"
  using assms
proof (induction section_data fo offset prefix dep n t rule: dwarf_units.induct)
  case (1 section_data fo offset prefix dep n t)
  show ?case
  proof (cases "offset < blen section_data")
    case True
    then obtain u b where u: "parse_dwarf_unit section_data offset fo n prefix = Inr u"
      "with_builder (dw_builder t) (dwarf_unit_claims (fo + offset) n prefix dep) = Inr b"
      "dwarf_units section_data fo (du_end u) prefix dep (n + 1)
         \<lparr>dw_directories = dw_directories t @ du_directories u,
          dw_files = dw_files t @ du_files u, dw_builder = b\<rparr> = Inr t'"
      using "1.prems"(1) by (subst (asm) dwarf_units.simps) (auto simp: bind_r_eq_Inr)
    have "tables_wf section_data fo t' \<and> grows_opt A b (dw_builder t')"
      using "1.IH"[OF True u(1,2,3) tables_wf_extend[OF "1.prems"(2,3) u(1)]] by simp
    moreover have "grows_opt A (dw_builder t) b"
      using with_builder_grows[OF u(2) dwarf_unit_claims_grows] .
    ultimately show ?thesis using grow_opt.keeps_trans by blast
  next
    case False
    then have "t' = t" using "1.prems"(1) by (subst (asm) dwarf_units.simps) simp
    then show ?thesis using "1.prems" grow_opt.keeps_refl by simp
  qed
qed

text \<open>What the parser returns.\<close>

lemma parse_dwarf_Inr:
  assumes "parse_dwarf_v4_debug_line section_data fo builder prefix dep = Inr (t, p)"
  obtains cache_dir b where "tables_wf section_data fo t"
    "dwarf_eligible (dw_directories t) = [cache_dir]"
    "length (dwarf_builtins cache_dir (dw_files t)) = 1"
    "pl_path p = dd_path cache_dir @ ''/builtin.zig''"
    "pl_path_offset p = dd_offset cache_dir" "pl_path_size p = dd_size cache_dir"
    "pl_kind p = ''static_builtin''" "pl_expected_basename p = ''builtin.zig''"
    "grows_opt A builder b"
    "with_builder b (\<lambda>b. builder_add b (dd_offset cache_dir) (dd_size cache_dir)
       ''dwarf.global_cache_directory'' Allowed_Payload []
       (Some ''unique DWARF-v4 global-cache b/<32hex> directory'') None True) = Inr (dw_builder t)"
proof -
  from assms obtain t0 where u: "dwarf_units section_data fo 0 prefix dep 0
      \<lparr>dw_directories = [], dw_files = [], dw_builder = builder\<rparr> = Inr t0"
    unfolding parse_dwarf_v4_debug_line_def by (rule bind_r_InrE)
  have wf: "tables_wf section_data fo t0 \<and> grows_opt A builder (dw_builder t0)"
    using dwarf_units_Inr[OF u] by (simp add: tables_wf_def tables_below_def)
  obtain cache_dir where e: "dwarf_eligible (dw_directories t0) = [cache_dir]"
    using assms unfolding parse_dwarf_v4_debug_line_def u by (auto split: list.splits)
  show ?thesis
    using assms wf that[of cache_dir "dw_builder t0"] unfolding parse_dwarf_v4_debug_line_def u
    by (auto simp: e bind_r_eq_Inr if_Inl_eq_Inr tables_wf_def)
qed

section \<open>The line-table parser fails closed\<close>

lemma obeys_dwarf_dirs: "obeys (dwarf_dirs data cursor pe fo u n prefix) (\<lambda>_. True)"
proof (induction data cursor pe fo u n prefix rule: dwarf_dirs.induct)
  case (1 data cursor pe fo u n prefix)
  show ?case
    by (subst dwarf_dirs.simps) (intro obeys_intros obeys_mono[OF "1.IH"] TrueI; assumption)
qed

lemma cstring_cursor: "cstring data cursor pe l = Inr v \<Longrightarrow> pe \<le> blen data \<and> 0 \<le> snd v"
  using cstring_Inr(1,2,4)[of data cursor pe l "fst v" "snd v"] by simp

lemma uleb_cursor: "uleb data cursor pe l = Inr v \<Longrightarrow> 0 \<le> cursor \<Longrightarrow> pe \<le> blen data \<Longrightarrow> 0 \<le> snd v"
  using uleb_Inr(1)[of data cursor pe l "fst v" "snd v"] by simp

lemma obeys_dwarf_files: "obeys (dwarf_files data cursor pe u limit n prefix) (\<lambda>_. True)"
proof (induction data cursor pe u limit n prefix rule: dwarf_files.induct)
  case (1 data cursor pe u limit n prefix)
  show ?case
    by (subst dwarf_files.simps)
      (intro obeys_intros obeys_mono[OF "1.IH"] TrueI;
        (assumption | (frule cstring_cursor, metis uleb_cursor)))
qed

lemma obeys_parse_dwarf_unit:
  assumes "0 \<le> offset"
  shows "obeys (parse_dwarf_unit data offset fo n prefix) (\<lambda>_. True)"
  unfolding parse_dwarf_unit_def Let_def
  by (intro obeys_intros obeys_mono[OF obeys_dwarf_dirs] obeys_mono[OF obeys_dwarf_files] TrueI)
    (use assms in linarith)+

lemma obeys_dwarf_units:
  assumes "keeps_builder A b0 b" "dw_builder t = Some b" "0 \<le> offset"
  shows "obeys (dwarf_units data fo offset prefix dep n t)
    (\<lambda>t'. \<exists>b'. dw_builder t' = Some b' \<and> keeps_builder A b0 b')"
  using assms
proof (induction data fo offset prefix dep n t arbitrary: b rule: dwarf_units.induct)
  case (1 data fo offset prefix dep n t)
  show ?case
  proof (cases "offset < blen data")
    case True
    let ?t = "\<lambda>u ob. \<lparr>dw_directories = dw_directories t @ du_directories u,
      dw_files = dw_files t @ du_files u, dw_builder = ob\<rparr>"
    let ?R = "\<lambda>ob. \<exists>b'. ob = Some b' \<and> keeps_builder A b0 b'"
    have claims: "obeys (with_builder (Some b) (dwarf_unit_claims (fo + offset) n prefix dep)) ?R"
      unfolding dwarf_unit_claims_def
      by (intro obeys_with_builder obeys_bind obeys_add_derived) (use "1.prems"(1) in auto)
    have rest: "obeys (dwarf_units data fo (du_end u) prefix dep (n + 1) (?t u ob))
        (\<lambda>t'. ?R (dw_builder t'))"
      if u: "parse_dwarf_unit data offset fo n prefix = Inr u"
        and "with_builder (Some b) (dwarf_unit_claims (fo + offset) n prefix dep) = Inr ob" "?R ob" for u ob
      using "1.IH"[OF True u, of ob] that "1.prems"(2) parse_dwarf_unit_progress[OF u] by auto
    show ?thesis
      unfolding dwarf_units.simps[of data fo offset] if_P[OF True] "1.prems"(2)
      by (rule obeys_bind, rule obeys_closed[OF obeys_parse_dwarf_unit[OF "1.prems"(3)]],
        rule obeys_bind, rule obeys_mono[OF claims], rule rest)
  next
    case False
    then show ?thesis using "1.prems" by (subst dwarf_units.simps) (simp add: obeys_Inr)
  qed
qed

text \<open>
  The parser run on a builder returns it with the two length claims of each unit and the cache
  directory's claim added, or raises \<open>ParityError\<close>.
\<close>

lemma obeys_parse_dwarf:
  assumes "keeps_builder A b0 b"
    and "\<And>off sz. Volatile (full_locator (b_prefix b0) ''dwarf.global_cache_directory'') off sz \<in> A"
    and "\<And>t p b'. parse_dwarf_v4_debug_line data fo (Some b) prefix dep = Inr (t, p) \<Longrightarrow>
           dw_builder t = Some b' \<Longrightarrow> keeps_builder A b0 b' \<Longrightarrow> Q (t, p)"
  shows "obeys (parse_dwarf_v4_debug_line data fo (Some b) prefix dep) Q"
proof (rule obeys_mono)
  show "obeys (parse_dwarf_v4_debug_line data fo (Some b) prefix dep)
      (\<lambda>q. \<exists>b'. dw_builder (fst q) = Some b' \<and> keeps_builder A b0 b')"
    unfolding parse_dwarf_v4_debug_line_def
  proof (rule obeys_bind, rule obeys_mono[OF obeys_dwarf_units[OF assms(1)]])
    fix t assume "\<exists>b'. dw_builder t = Some b' \<and> keeps_builder A b0 b'"
    then obtain b' where b': "dw_builder t = Some b'" "keeps_builder A b0 b'" by blast
    show "obeys (case dwarf_eligible (dw_directories t) of
       [cache_dir] \<Rightarrow>
         if length (dwarf_builtins cache_dir (dw_files t)) \<noteq> 1
         then Inl (ParityError (Some prefix)
                ''global-cache directory must be referenced by exactly one builtin.zig'')
         else
         bind_r (with_builder (dw_builder t) (\<lambda>b.
             builder_add b (dd_offset cache_dir) (dd_size cache_dir) ''dwarf.global_cache_directory''
               Allowed_Payload [] (Some ''unique DWARF-v4 global-cache b/<32hex> directory'')
               None True)) (\<lambda>b.
         Inr (t\<lparr>dw_builder := b\<rparr>,
           \<lparr>pl_kind = ''static_builtin'',
            pl_source_locator = prefix @ ''.unit['' @ show_int (dd_unit_index cache_dir)
              @ ''].directory['' @ show_int (dd_directory_index cache_dir) @ '']'',
            pl_path = dd_path cache_dir @ ''/builtin.zig'',
            pl_path_offset = dd_offset cache_dir, pl_path_size = dd_size cache_dir,
            pl_expected_basename = ''builtin.zig'', pl_expected_mtime_seconds = None\<rparr>))
     | eligible \<Rightarrow> Inl (ParityError (Some prefix)
           (''expected one global-cache b/<32hex> directory, found '' @ show_int (blen eligible))))
      (\<lambda>q. \<exists>b'. dw_builder (fst q) = Some b' \<and> keeps_builder A b0 b')"
      unfolding b'(1)
      by (auto split: list.splits intro!: obeys_intros obeys_with_builder obeys_add[OF b'(2)] assms(2))
  qed simp_all
qed (use assms(3) in auto)

section \<open>Encoding the tables\<close>

definition dwarf_name :: "bytes \<Rightarrow> bool" where
  "dwarf_name nm \<longleftrightarrow> nm \<noteq> [] \<and> 0 \<notin> set nm \<and> utf8_decode nm \<noteq> None"

definition enc_dirs :: "bytes list \<Rightarrow> bytes" where
  "enc_dirs names = concat (map (\<lambda>nm. nm @ [0]) names) @ [0]"

fun dir_entries :: "int \<Rightarrow> int \<Rightarrow> int \<Rightarrow> bytes list \<Rightarrow> dwarf_directory list" where
  "dir_entries u n off [] = []"
| "dir_entries u n off (nm # names) =
     \<lparr>dd_unit_index = u, dd_directory_index = n, dd_path = str_of_bytes nm, dd_offset = off,
      dd_size = blen nm\<rparr> # dir_entries u (n + 1) (off + blen nm + 1) names"

datatype file_spec = File_Spec (fs_name: bytes) (fs_dir: nat) (fs_mtime: nat) (fs_length: nat)

definition enc_file :: "file_spec \<Rightarrow> bytes" where
  "enc_file f = fs_name f @ 0 # uleb_encode (fs_dir f) @ uleb_encode (fs_mtime f)
     @ uleb_encode (fs_length f)"

definition enc_files :: "file_spec list \<Rightarrow> bytes" where
  "enc_files fs = concat (map enc_file fs) @ [0]"

fun file_entries :: "int \<Rightarrow> int \<Rightarrow> file_spec list \<Rightarrow> dwarf_file list" where
  "file_entries u n [] = []"
| "file_entries u n (f # fs) =
     \<lparr>df_unit_index = u, df_file_index = n, df_name = str_of_bytes (fs_name f),
      df_directory_index = int (fs_dir f), df_mtime = int (fs_mtime f), df_length = int (fs_length f)\<rparr>
     # file_entries u (n + 1) fs"

definition file_spec_ok :: "nat \<Rightarrow> file_spec \<Rightarrow> bool" where
  "file_spec_ok ndirs f \<longleftrightarrow> dwarf_name (fs_name f) \<and> fs_dir f \<le> ndirs \<and> ndirs < 2 ^ 70
     \<and> fs_mtime f < 2 ^ 70 \<and> fs_length f < 2 ^ 70"

lemma dwarf_dirs_enc:
  assumes "\<And>nm. nm \<in> set names \<Longrightarrow> dwarf_name nm"
    and "blen pre + blen (enc_dirs names) \<le> pe" "pe \<le> blen (pre @ enc_dirs names @ post)"
  shows "dwarf_dirs (pre @ enc_dirs names @ post) (blen pre) pe fo u n prefix =
    Inr \<lparr>dt_directories = dir_entries u n (fo + blen pre) names, dt_next_index = n + blen names,
         dt_cursor = blen pre + blen (enc_dirs names)\<rparr>"
  using assms
proof (induction names arbitrary: pre n)
  case Nil
  have "cstring (pre @ [] @ 0 # post) (blen pre) pe (prefix @ ''.directory'')
      = Inr ([], blen pre + blen ([] :: bytes) + 1)"
    using Nil.prems by (intro cstring_concat) (simp_all add: enc_dirs_def)
  then show ?case by (subst dwarf_dirs.simps) (simp add: enc_dirs_def)
next
  case (Cons nm names)
  have nm: "dwarf_name nm" using Cons.prems(1) by simp
  have data: "pre @ enc_dirs (nm # names) @ post = pre @ nm @ 0 # (enc_dirs names @ post)"
    "pre @ enc_dirs (nm # names) @ post = (pre @ nm @ [0]) @ enc_dirs names @ post"
    by (simp_all add: enc_dirs_def)
  have len: "blen (enc_dirs (nm # names)) = blen nm + 1 + blen (enc_dirs names)"
    by (simp add: enc_dirs_def)
  have "0 \<le> blen (enc_dirs names)" by simp
  then have "blen pre + blen nm + 1 \<le> pe" using Cons.prems(2) len by linarith
  then have c: "cstring (pre @ enc_dirs (nm # names) @ post) (blen pre) pe (prefix @ ''.directory'')
      = Inr (nm, blen pre + blen nm + 1)"
    using Cons.prems(3) nm unfolding data(1) dwarf_name_def by (intro cstring_concat) simp_all
  have IH: "dwarf_dirs (pre @ enc_dirs (nm # names) @ post) (blen pre + blen nm + 1) pe fo u (n + 1) prefix
    = Inr \<lparr>dt_directories = dir_entries u (n + 1) (fo + (blen pre + blen nm + 1)) names,
         dt_next_index = n + 1 + blen names,
         dt_cursor = blen pre + blen nm + 1 + blen (enc_dirs names)\<rparr>"
    using Cons.IH[of "pre @ nm @ [0]" "n + 1"] Cons.prems len unfolding data(2)
    by (simp add: algebra_simps)
  have "text_of nm (prefix @ ''.directory['' @ show_int n @ '']'') = Inr (str_of_bytes nm)" and "nm \<noteq> []"
    using nm by (simp_all add: dwarf_name_def text_of_Inr)
  then show ?case
    by (subst dwarf_dirs.simps) (simp add: c IH len, simp add: algebra_simps)
qed

lemma uleb_encode_length: "w < 128 ^ Suc k \<Longrightarrow> length (uleb_encode w) \<le> Suc k"
proof (induction k arbitrary: w)
  case 0
  then show ?case by (simp add: uleb_encode.simps)
next
  case (Suc k)
  show ?case
  proof (cases "w < 128")
    case False
    have "w div 128 < 128 ^ Suc k" using Suc.prems by (simp add: less_mult_imp_div_less)
    then show ?thesis using Suc.IH[of "w div 128"] False by (subst uleb_encode.simps) simp
  qed (simp add: uleb_encode.simps)
qed

lemma uleb_concat:
  assumes "w < 2 ^ 70" "blen pre + blen (uleb_encode w) \<le> limit" "limit \<le> blen (pre @ uleb_encode w @ post)"
  shows "uleb (pre @ uleb_encode w @ post) (blen pre) limit locator
    = Inr (int w, blen pre + blen (uleb_encode w))"
proof -
  have "w < 128 ^ Suc 9" using assms(1) by simp
  then have "blen (uleb_encode w) \<le> 10" using uleb_encode_length[of w 9] by (simp add: blen_def)
  moreover have "py_slice (pre @ uleb_encode w @ post) (blen pre) (blen pre + blen (uleb_encode w)) = uleb_encode w"
    by (subst py_slice_skip) (simp_all add: py_slice_here)
  ultimately show ?thesis using assms by (subst uleb_iff) auto
qed

lemma dwarf_files_enc:
  assumes "\<And>f. f \<in> set fs \<Longrightarrow> file_spec_ok ndirs f"
    and "blen pre + blen (enc_files fs) \<le> pe" "pe \<le> blen (pre @ enc_files fs @ post)"
  shows "dwarf_files (pre @ enc_files fs @ post) (blen pre) pe u (int ndirs + 1) n prefix =
    Inr \<lparr>ft_files = file_entries u n fs, ft_cursor = blen pre + blen (enc_files fs)\<rparr>"
  using assms
proof (induction fs arbitrary: pre n)
  case Nil
  have "cstring (pre @ [] @ 0 # post) (blen pre) pe (prefix @ ''.file'')
      = Inr ([], blen pre + blen ([] :: bytes) + 1)"
    using Nil.prems by (intro cstring_concat) (simp_all add: enc_files_def)
  then show ?case by (subst dwarf_files.simps) (simp add: enc_files_def)
next
  case (Cons f fs)
  let ?d = "uleb_encode (fs_dir f)" and ?m = "uleb_encode (fs_mtime f)" and ?l = "uleb_encode (fs_length f)"
  let ?data = "pre @ enc_files (f # fs) @ post"
  have f: "dwarf_name (fs_name f)" "fs_dir f \<le> ndirs" "fs_dir f < 2 ^ 70" "fs_mtime f < 2 ^ 70" "fs_length f < 2 ^ 70"
    using Cons.prems(1)[of f] by (auto simp: file_spec_ok_def)
  define p1 where "p1 = pre @ fs_name f @ [0]"
  define p2 where "p2 = p1 @ ?d"
  define p3 where "p3 = p2 @ ?m"
  define p4 where "p4 = p3 @ ?l"
  have data: "?data = pre @ fs_name f @ 0 # (?d @ ?m @ ?l @ enc_files fs @ post)"
    "?data = p1 @ ?d @ (?m @ ?l @ enc_files fs @ post)" "?data = p2 @ ?m @ (?l @ enc_files fs @ post)"
    "?data = p3 @ ?l @ (enc_files fs @ post)" "?data = p4 @ enc_files fs @ post"
    by (simp_all add: enc_files_def enc_file_def p1_def p2_def p3_def p4_def)
  have len: "blen p1 = blen pre + blen (fs_name f) + 1" "blen p2 = blen p1 + blen ?d" "blen p3 = blen p2 + blen ?m"
    "blen p4 = blen p3 + blen ?l" "blen pre + blen (enc_files (f # fs)) = blen p4 + blen (enc_files fs)"
    by (simp_all add: p1_def p2_def p3_def p4_def enc_files_def enc_file_def)
  have nn: "0 \<le> blen ?d" "0 \<le> blen ?m" "0 \<le> blen ?l" "0 \<le> blen (enc_files fs)" by simp_all
  have le: "blen p1 \<le> pe" "blen p2 \<le> pe" "blen p3 \<le> pe" "blen p4 \<le> pe" "blen p4 + blen (enc_files fs) \<le> pe"
    using Cons.prems(2) len nn by linarith+
  have c: "cstring ?data (blen pre) pe (prefix @ ''.file'') = Inr (fs_name f, blen p1)"
    using Cons.prems(3) f(1) le(1) unfolding data(1) dwarf_name_def len(1) by (intro cstring_concat) simp_all
  have u1: "uleb ?data (blen p1) pe (prefix @ ''.file.dir'') = Inr (int (fs_dir f), blen p2)"
    using Cons.prems(3) f(3) le(2) unfolding data(2) len(2) by (intro uleb_concat) simp_all
  have u2: "uleb ?data (blen p2) pe (prefix @ ''.file.mtime'') = Inr (int (fs_mtime f), blen p3)"
    using Cons.prems(3) f(4) le(3) unfolding data(3) len(3) by (intro uleb_concat) simp_all
  have u3: "uleb ?data (blen p3) pe (prefix @ ''.file.length'') = Inr (int (fs_length f), blen p4)"
    using Cons.prems(3) f(5) le(4) unfolding data(4) len(4) by (intro uleb_concat) simp_all
  have IH: "dwarf_files ?data (blen p4) pe u (int ndirs + 1) (n + 1) prefix
    = Inr \<lparr>ft_files = file_entries u (n + 1) fs, ft_cursor = blen p4 + blen (enc_files fs)\<rparr>"
    unfolding data(5) by (rule Cons.IH) (use Cons.prems le(5) data(5) in auto)
  have "text_of (fs_name f) (prefix @ ''.file['' @ show_int n @ '']'') = Inr (str_of_bytes (fs_name f))"
    "fs_name f \<noteq> []" "\<not> int (fs_dir f) \<ge> int ndirs + 1"
    using f(1,2) by (simp_all add: dwarf_name_def text_of_Inr)
  then show ?case
    unfolding len(5) by (subst dwarf_files.simps) (simp add: c u1 u2 u3 IH)
qed

section \<open>Properties\<close>

text \<open>The line-table prologue round trips: for any list of directory names and any list of file
  entries that name one of them, parsing their encoding inside any section returns exactly these
  entries, numbered from one, with the byte offsets of the directory names, and stops at the end
  of the encoding.\<close>

theorem dwarf_tables_roundtrip:
  fixes pre post :: bytes
  assumes "\<And>nm. nm \<in> set names \<Longrightarrow> dwarf_name nm"
    and "\<And>f. f \<in> set fs \<Longrightarrow> file_spec_ok (length names) f"
  defines "data \<equiv> pre @ enc_dirs names @ enc_files fs @ post"
    and "pe \<equiv> blen (pre @ enc_dirs names @ enc_files fs)"
  shows "\<exists>t. dwarf_dirs data (blen pre) pe fo u 1 prefix = Inr t
    \<and> dt_directories t = dir_entries u 1 (fo + blen pre) names
    \<and> dwarf_files data (dt_cursor t) pe u (dt_next_index t) 1 prefix
        = Inr \<lparr>ft_files = file_entries u 1 fs, ft_cursor = pe\<rparr>"
proof -
  have pe: "blen pre + blen (enc_dirs names) \<le> pe" "pe \<le> blen (pre @ enc_dirs names @ (enc_files fs @ post))"
    "pe = blen (pre @ enc_dirs names) + blen (enc_files fs)"
    by (simp_all add: pe_def)
  have d: "dwarf_dirs data (blen pre) pe fo u 1 prefix =
    Inr \<lparr>dt_directories = dir_entries u 1 (fo + blen pre) names, dt_next_index = 1 + blen names,
         dt_cursor = blen (pre @ enc_dirs names)\<rparr>"
    unfolding data_def using dwarf_dirs_enc[OF assms(1) pe(1,2)] by simp
  have "dwarf_files ((pre @ enc_dirs names) @ enc_files fs @ post) (blen (pre @ enc_dirs names)) pe u
      (int (length names) + 1) 1 prefix = Inr \<lparr>ft_files = file_entries u 1 fs, ft_cursor = pe\<rparr>"
    unfolding pe(3) by (rule dwarf_files_enc[OF assms(2)]) simp_all
  then show ?thesis using d by (simp add: data_def blen_def add.commute)
qed

theorem dwarf_tables_roundtrip_witness:
  "\<exists>t. dwarf_dirs ([9] @ enc_dirs [[0x61], [0x62]] @ enc_files [File_Spec [0x63] 2 0 300] @ [7]) (blen [9 :: byte])
       (blen ([9] @ enc_dirs [[0x61], [0x62]] @ enc_files [File_Spec [0x63] 2 0 300])) 100 0 1 ''dwarf'' = Inr t
    \<and> dt_directories t = dir_entries 0 1 (100 + blen [9 :: byte]) [[0x61], [0x62]]
    \<and> dwarf_files ([9] @ enc_dirs [[0x61], [0x62]] @ enc_files [File_Spec [0x63] 2 0 300] @ [7]) (dt_cursor t)
        (blen ([9] @ enc_dirs [[0x61], [0x62]] @ enc_files [File_Spec [0x63] 2 0 300])) 0 (dt_next_index t) 1 ''dwarf''
        = Inr \<lparr>ft_files = file_entries 0 1 [File_Spec [0x63] 2 0 300],
               ft_cursor = blen ([9] @ enc_dirs [[0x61], [0x62]] @ enc_files [File_Spec [0x63] 2 0 300])\<rparr>"
  by (rule dwarf_tables_roundtrip) (auto simp: dwarf_name_def file_spec_ok_def)

text \<open>C8. An accepted line table has well-formed tables and exactly one global-cache directory: it is
  the only directory with that shape, exactly one file named \<open>builtin.zig\<close> refers to it, and the
  reported provenance is that file's path together with the byte range of the section that spells
  the directory.\<close>

theorem dwarf_provenance_unique:
  assumes "parse_dwarf_v4_debug_line section_data fo builder prefix dep = Inr (t, p)"
  shows "tables_wf section_data fo t
    \<and> (\<exists>d f. [d] = filter (\<lambda>d. global_cache_dir_match (bytes_of_str (dd_path d)) \<noteq> None) (dw_directories t)
        \<and> [f] = filter (\<lambda>f. df_name f = ''builtin.zig'' \<and> df_unit_index f = dd_unit_index d
              \<and> df_directory_index f = dd_directory_index d) (dw_files t)
        \<and> pl_path p = dd_path d @ ''/builtin.zig''
        \<and> bytes_of_str (dd_path d) = py_slice section_data (pl_path_offset p - fo)
             (pl_path_offset p - fo + pl_path_size p))"
proof -
  obtain d where d: "tables_wf section_data fo t" "dwarf_eligible (dw_directories t) = [d]"
    "length (dwarf_builtins d (dw_files t)) = 1" "pl_path p = dd_path d @ ''/builtin.zig''"
    "pl_path_offset p = dd_offset d" "pl_path_size p = dd_size d"
    by (rule parse_dwarf_Inr[OF assms, where A = "{}"]) blast
  obtain f where "dwarf_builtins d (dw_files t) = [f]" using d(3) by (auto simp: length_Suc_conv)
  then have f: "[f] = filter (\<lambda>f. df_name f = ''builtin.zig'' \<and> df_unit_index f = dd_unit_index d
              \<and> df_directory_index f = dd_directory_index d) (dw_files t)"
    unfolding dwarf_builtins_def by (metis (no_types, lifting) filter_cong conj_commute conj_assoc)
  have "d \<in> set (dw_directories t)" using d(2) unfolding dwarf_eligible_def
    by (metis filter_is_subset list.set_intros(1) subsetD)
  then have "dir_located section_data fo d" using d(1) by (simp add: tables_wf_def)
  then have "bytes_of_str (dd_path d) = py_slice section_data (dd_offset d - fo) (dd_offset d - fo + dd_size d)"
    by (simp add: dir_located_def)
  then show ?thesis using d f unfolding dwarf_eligible_def by auto
qed

definition sample_cache_dir :: bytes where
  "sample_cache_dir = path_of [bytes_of_str ''global-cache'', bytes_of_str ''b'', replicate 32 0x61]"

definition sample_section :: bytes where
  "sample_section = [78, 0, 0, 0, 4, 0, 72, 0, 0, 0, 1, 1, 0, 0, 1, 1] @ enc_dirs [sample_cache_dir]
     @ enc_files [File_Spec (bytes_of_str ''builtin.zig'') 1 0 0]"

lemma sample_dir: "global_cache_dir_match sample_cache_dir = Some (replicate 32 0x61)"
  by code_simp

lemma sample_dir_name: "dwarf_name sample_cache_dir" "length sample_cache_dir = 48"
  "dwarf_name (bytes_of_str ''builtin.zig'')"
  by code_simp+

lemma sample_lengths: "blen (enc_dirs [sample_cache_dir]) = 50"
  "blen (enc_files [File_Spec (bytes_of_str ''builtin.zig'') 1 0 0]) = 16"
  using sample_dir_name(2) by (simp_all add: enc_dirs_def enc_files_def enc_file_def blen_def
      uleb_encode.simps bytes_of_str_def)

lemma sample_parse: "\<exists>t p. parse_dwarf_v4_debug_line sample_section 0 None ''dwarf'' ''dep'' = Inr (t, p)"
proof -
  let ?h = "[78, 0, 0, 0, 4, 0, 72, 0, 0, 0, 1, 1, 0, 0, 1, 1] :: bytes"
  let ?f = "[File_Spec (bytes_of_str ''builtin.zig'') 1 0 0]"
  have data: "sample_section = ?h @ enc_dirs [sample_cache_dir] @ enc_files ?f"
    "sample_section = (?h @ enc_dirs [sample_cache_dir]) @ enc_files ?f @ []"
    by (simp_all add: sample_section_def)
  have len: "blen sample_section = 82" unfolding data(1) using sample_lengths by simp
  have head: "u_le sample_section a n = u_le ?h a n" if "0 \<le> a" "0 \<le> n" "a + n \<le> 16" for a n
    unfolding data(1) u_le_def using that by (subst py_slice_prefix) simp_all
  have dirs: "dwarf_dirs sample_section 16 82 0 0 1 ''dwarf'' = Inr \<lparr>dt_directories =
      dir_entries 0 1 16 [sample_cache_dir], dt_next_index = 2, dt_cursor = 66\<rparr>"
    using dwarf_dirs_enc[of "[sample_cache_dir]" ?h 82 "enc_files ?f" 0 0 1 "''dwarf''"]
      sample_dir_name(1) sample_lengths by (simp add: data(1))
  have files: "dwarf_files sample_section 66 82 0 2 1 ''dwarf''
      = Inr \<lparr>ft_files = file_entries 0 1 ?f, ft_cursor = 82\<rparr>"
  proof -
    have b: "blen (?h @ enc_dirs [sample_cache_dir]) = 66" using sample_lengths by simp
    show ?thesis
      using dwarf_files_enc[of ?f 1 "?h @ enc_dirs [sample_cache_dir]" 82 "[]" 0 1 "''dwarf''"]
        sample_dir_name(3) sample_lengths unfolding b data(2)[symmetric]
      by (simp add: file_spec_ok_def len)
  qed
  have heads: "u32 sample_section 0 = 78" "u16 sample_section 4 = 4" "u32 sample_section 6 = 72"
    "u8 sample_section 10 = 1" "u8 sample_section 11 = 1" "u8 sample_section 12 = 0"
    "u8 sample_section 14 = 1" "u8 sample_section 15 = 1"
    by (subst head; simp add: u_le_def py_slice_in_range)+
  have unit: "parse_dwarf_unit sample_section 0 0 0 ''dwarf'' = Inr \<lparr>du_directories =
      dir_entries 0 1 16 [sample_cache_dir], du_files = file_entries 0 1 ?f, du_end = 82\<rparr>"
    unfolding parse_dwarf_unit_def Let_def by (simp add: heads len dirs files struct_need_def)
  show ?thesis
    unfolding parse_dwarf_v4_debug_line_def
    by (subst dwarf_units.simps)
      (simp add: len unit dwarf_units.simps[of _ _ 82] dwarf_eligible_def dwarf_builtins_def sample_dir)
qed

theorem dwarf_provenance_unique_witness:
  "\<exists>t p d f. parse_dwarf_v4_debug_line sample_section 0 None ''dwarf'' ''dep'' = Inr (t, p)
     \<and> tables_wf sample_section 0 t
     \<and> [d] = filter (\<lambda>d. global_cache_dir_match (bytes_of_str (dd_path d)) \<noteq> None) (dw_directories t)
     \<and> [f] = filter (\<lambda>f. df_name f = ''builtin.zig'' \<and> df_unit_index f = dd_unit_index d
           \<and> df_directory_index f = dd_directory_index d) (dw_files t)"
  using sample_parse dwarf_provenance_unique by blast

end
