(* ===== verification/MachO_Model.thy ===== *)
theory MachO_Model
  imports Json Code_Directory Dwarf_Line
begin

text \<open>
  The records of \<open>tools/abi_artifact_parity.py\<close> a Mach-O parse produces, their JSON forms, the
  constants of the format, and the load commands' names.
\<close>

section \<open>Constants\<close>

definition MH_OBJECT :: int where "MH_OBJECT = 0x1"
definition MH_DYLIB :: int where "MH_DYLIB = 0x6"
definition CPU_TYPE_ARM64 :: int where "CPU_TYPE_ARM64 = 0x0100000C"

definition MAX_LOAD_COMMANDS :: int where "MAX_LOAD_COMMANDS = 4096"
definition MAX_SECTIONS :: int where "MAX_SECTIONS = 65536"
definition MAX_SYMBOLS :: int where "MAX_SYMBOLS = 4000000"

definition LC_SEGMENT_64 :: int where "LC_SEGMENT_64 = 0x19"
definition LC_SYMTAB :: int where "LC_SYMTAB = 0x2"
definition LC_DYSYMTAB :: int where "LC_DYSYMTAB = 0xB"
definition LC_LOAD_DYLIB :: int where "LC_LOAD_DYLIB = 0xC"
definition LC_ID_DYLIB :: int where "LC_ID_DYLIB = 0xD"
definition LC_LOAD_DYLINKER :: int where "LC_LOAD_DYLINKER = 0xE"
definition LC_PREBOUND_DYLIB :: int where "LC_PREBOUND_DYLIB = 0x10"
definition LC_LOAD_WEAK_DYLIB :: int where "LC_LOAD_WEAK_DYLIB = 0x80000018"
definition LC_REEXPORT_DYLIB :: int where "LC_REEXPORT_DYLIB = 0x8000001F"
definition LC_LAZY_LOAD_DYLIB :: int where "LC_LAZY_LOAD_DYLIB = 0x20"
definition LC_LOAD_UPWARD_DYLIB :: int where "LC_LOAD_UPWARD_DYLIB = 0x80000023"
definition LC_UUID :: int where "LC_UUID = 0x1B"
definition LC_CODE_SIGNATURE :: int where "LC_CODE_SIGNATURE = 0x1D"
definition LC_DYLD_INFO_ONLY :: int where "LC_DYLD_INFO_ONLY = 0x80000022"
definition LC_FUNCTION_STARTS :: int where "LC_FUNCTION_STARTS = 0x26"
definition LC_SOURCE_VERSION :: int where "LC_SOURCE_VERSION = 0x2A"
definition LC_DATA_IN_CODE :: int where "LC_DATA_IN_CODE = 0x29"
definition LC_LINKER_OPTIMIZATION_HINT :: int where "LC_LINKER_OPTIMIZATION_HINT = 0x2E"
definition LC_BUILD_VERSION :: int where "LC_BUILD_VERSION = 0x32"
definition LC_RPATH :: int where "LC_RPATH = 0x8000001C"

lemmas lc_constants = LC_SEGMENT_64_def LC_SYMTAB_def LC_DYSYMTAB_def LC_LOAD_DYLIB_def
  LC_ID_DYLIB_def LC_LOAD_DYLINKER_def LC_PREBOUND_DYLIB_def LC_LOAD_WEAK_DYLIB_def
  LC_REEXPORT_DYLIB_def LC_LAZY_LOAD_DYLIB_def LC_LOAD_UPWARD_DYLIB_def LC_UUID_def
  LC_CODE_SIGNATURE_def LC_DYLD_INFO_ONLY_def LC_FUNCTION_STARTS_def LC_SOURCE_VERSION_def
  LC_DATA_IN_CODE_def LC_LINKER_OPTIMIZATION_HINT_def LC_BUILD_VERSION_def LC_RPATH_def

lemmas mh_constants = MH_OBJECT_def MH_DYLIB_def CPU_TYPE_ARM64_def

definition command_names :: "(int \<times> string) list" where
  "command_names =
     [(LC_SEGMENT_64, ''LC_SEGMENT_64''), (LC_SYMTAB, ''LC_SYMTAB''), (LC_DYSYMTAB, ''LC_DYSYMTAB''),
      (LC_LOAD_DYLIB, ''LC_LOAD_DYLIB''), (LC_ID_DYLIB, ''LC_ID_DYLIB''),
      (LC_LOAD_DYLINKER, ''LC_LOAD_DYLINKER''), (LC_PREBOUND_DYLIB, ''LC_PREBOUND_DYLIB''),
      (LC_LOAD_WEAK_DYLIB, ''LC_LOAD_WEAK_DYLIB''), (LC_REEXPORT_DYLIB, ''LC_REEXPORT_DYLIB''),
      (LC_LAZY_LOAD_DYLIB, ''LC_LAZY_LOAD_DYLIB''), (LC_LOAD_UPWARD_DYLIB, ''LC_LOAD_UPWARD_DYLIB''),
      (LC_UUID, ''LC_UUID''), (LC_CODE_SIGNATURE, ''LC_CODE_SIGNATURE''),
      (LC_DYLD_INFO_ONLY, ''LC_DYLD_INFO_ONLY''), (LC_FUNCTION_STARTS, ''LC_FUNCTION_STARTS''),
      (LC_SOURCE_VERSION, ''LC_SOURCE_VERSION''), (LC_DATA_IN_CODE, ''LC_DATA_IN_CODE''),
      (LC_LINKER_OPTIMIZATION_HINT, ''LC_LINKER_OPTIMIZATION_HINT''),
      (LC_BUILD_VERSION, ''LC_BUILD_VERSION''), (LC_RPATH, ''LC_RPATH'')]"

definition S_ZEROFILL :: int where "S_ZEROFILL = 0x1"
definition S_THREAD_LOCAL_ZEROFILL :: int where "S_THREAD_LOCAL_ZEROFILL = 0x12"
definition ZEROFILL_TYPES :: "int list" where "ZEROFILL_TYPES = [S_ZEROFILL, S_THREAD_LOCAL_ZEROFILL]"

definition N_STAB :: int where "N_STAB = 0xE0"
definition N_PEXT :: int where "N_PEXT = 0x10"
definition N_TYPE :: int where "N_TYPE = 0x0E"
definition N_EXT :: int where "N_EXT = 0x01"
definition N_OSO :: int where "N_OSO = 0x66"

definition N_TYPE_NAMES :: "(int \<times> string) list" where
  "N_TYPE_NAMES = [(0x0, ''undefined''), (0x2, ''absolute''), (0xA, ''indirect''),
     (0xC, ''prebound-undefined''), (0xE, ''section'')]"

section \<open>Records and their JSON forms\<close>

record section_rec =
  sec_index :: int
  sec_segment :: string
  sec_name :: string
  sec_addr :: int
  sec_size :: int
  sec_offset :: int
  sec_align :: int
  sec_reloff :: int
  sec_nreloc :: int
  sec_flags :: int
  sec_reserved1 :: int
  sec_reserved2 :: int
  sec_reserved3 :: int

definition is_zerofill :: "section_rec \<Rightarrow> bool" where
  "is_zerofill s \<longleftrightarrow> (sec_flags s AND 0xFF) \<in> set ZEROFILL_TYPES"

definition section_json :: "section_rec \<Rightarrow> json" where
  "section_json s = JObj [(''index'', JInt (sec_index s)), (''segment'', JStr (sec_segment s)),
     (''name'', JStr (sec_name s)), (''addr'', JInt (sec_addr s)), (''size'', JInt (sec_size s)),
     (''offset'', JInt (sec_offset s)), (''align'', JInt (sec_align s)), (''reloff'', JInt (sec_reloff s)),
     (''nreloc'', JInt (sec_nreloc s)), (''flags'', JInt (sec_flags s)),
     (''reserved1'', JInt (sec_reserved1 s)), (''reserved2'', JInt (sec_reserved2 s)),
     (''reserved3'', JInt (sec_reserved3 s))]"

record segment_rec =
  seg_index :: int
  seg_name :: string
  seg_vmaddr :: int
  seg_vmsize :: int
  seg_fileoff :: int
  seg_filesize :: int
  seg_maxprot :: int
  seg_initprot :: int
  seg_flags :: int
  seg_sections :: "section_rec list"

definition segment_json :: "segment_rec \<Rightarrow> json" where
  "segment_json s = JObj [(''index'', JInt (seg_index s)), (''name'', JStr (seg_name s)),
     (''vmaddr'', JInt (seg_vmaddr s)), (''vmsize'', JInt (seg_vmsize s)),
     (''fileoff'', JInt (seg_fileoff s)), (''filesize'', JInt (seg_filesize s)),
     (''maxprot'', JInt (seg_maxprot s)), (''initprot'', JInt (seg_initprot s)),
     (''flags'', JInt (seg_flags s)), (''sections'', JList (map section_json (seg_sections s)))]"

record symbol_record =
  sym_index :: int
  sym_name :: string
  sym_base_type :: string
  sym_section :: int
  sym_external :: bool
  sym_private_external :: bool
  sym_stab :: int
  sym_desc :: int
  sym_value :: int
  sym_type_code :: int

definition symbol_json :: "symbol_record \<Rightarrow> json" where
  "symbol_json s = JObj [(''index'', JInt (sym_index s)), (''name'', JStr (sym_name s)),
     (''base_type'', JStr (sym_base_type s)), (''section'', JInt (sym_section s)),
     (''external'', JBool (sym_external s)), (''private_external'', JBool (sym_private_external s)),
     (''stab'', JInt (sym_stab s)), (''desc'', JInt (sym_desc s)), (''value'', JInt (sym_value s)),
     (''type_code'', JInt (sym_type_code s))]"

definition code_directory_json :: "code_directory \<Rightarrow> json" where
  "code_directory_json d = JObj [(''offset'', JInt (cd_offset d)), (''size'', JInt (cd_size d)),
     (''version'', JInt (cd_version d)), (''flags'', JInt (cd_flags d)),
     (''identifier'', JStr (cd_identifier d)), (''code_limit'', JInt (cd_code_limit d)),
     (''code_slots'', JInt (cd_code_slots d)), (''page_size'', JInt (cd_page_size d)),
     (''hash_type'', JInt (cd_hash_type d)), (''hash_size'', JInt (cd_hash_size d)),
     (''cdhash'', JStr (cd_cdhash d))]"

definition dwarf_directory_json :: "dwarf_directory \<Rightarrow> json" where
  "dwarf_directory_json d = JObj [(''unit_index'', JInt (dd_unit_index d)),
     (''directory_index'', JInt (dd_directory_index d)), (''path'', JStr (dd_path d)),
     (''offset'', JInt (dd_offset d)), (''size'', JInt (dd_size d))]"

definition dwarf_file_json :: "dwarf_file \<Rightarrow> json" where
  "dwarf_file_json f = JObj [(''unit_index'', JInt (df_unit_index f)),
     (''file_index'', JInt (df_file_index f)), (''name'', JStr (df_name f)),
     (''directory_index'', JInt (df_directory_index f)), (''mtime'', JInt (df_mtime f)),
     (''length'', JInt (df_length f))]"

definition provenance_json :: "provenance_locator \<Rightarrow> json" where
  "provenance_json p = JObj [(''kind'', JStr (pl_kind p)), (''source_locator'', JStr (pl_source_locator p)),
     (''path'', JStr (pl_path p)), (''path_offset'', JInt (pl_path_offset p)),
     (''path_size'', JInt (pl_path_size p)), (''expected_basename'', JStr (pl_expected_basename p)),
     (''expected_mtime_seconds'', jopt JInt (pl_expected_mtime_seconds p))]"

text \<open>\<open>ByteAtom.json\<close>.\<close>

definition atom_json :: "byte_atom \<Rightarrow> bool \<Rightarrow> json" where
  "atom_json a include_payload =
     (let result = JObj [(''locator'', JStr (a_locator a)), (''role'', JStr (role_name (a_role a))),
            (''offset'', JInt (a_offset a)), (''size'', JInt (a_size a)),
            (''sha256'', JStr (sha256_bytes (a_payload a)))];
          result = (if a_depends_on a \<noteq> [] then obj_set ''depends_on'' (jstrs (a_depends_on a)) result
                    else result);
          result = (case a_note a of Some n \<Rightarrow> obj_set ''note'' (JStr n) result | None \<Rightarrow> result);
          result = (case a_canonical_payload a of
              Some c \<Rightarrow> obj_set ''canonical_payload_sha256'' (JStr (sha256_bytes c))
                         (obj_set ''canonical_payload_hex'' (JStr (hex_of_bytes c)) result)
            | None \<Rightarrow> result)
      in if include_payload then obj_set ''payload_hex'' (JStr (hex_of_bytes (a_payload a))) result
         else result)"

record macho_artifact =
  mo_raw :: bytes
  mo_label :: string
  mo_filetype :: int
  mo_flags :: int
  mo_segments :: "segment_rec list"
  mo_symbols :: "symbol_record list"
  mo_structured_axes :: json
  mo_atoms :: "byte_atom list"
  mo_provenance :: "provenance_locator list"
  mo_code_directory :: "code_directory option"
  mo_dwarf_directories :: "dwarf_directory list"
  mo_dwarf_files :: "dwarf_file list"

section \<open>Comparison keys of symbols\<close>

record symbol_key =
  k_name :: string
  k_base_type :: string
  k_section :: int
  k_external :: bool
  k_private_external :: bool
  k_stab :: int
  k_desc :: int
  k_type_code :: int

text \<open>\<open>comparison_key\<close>: the digest of an \<open>N_OSO\<close> cache path is masked.\<close>

definition comparison_key :: "symbol_record \<Rightarrow> symbol_key res" where
  "comparison_key s =
     bind_r (if sym_type_code s = N_OSO
             then (case cache_object_match (bytes_of_str (sym_name s)) of
                     Some m \<Rightarrow> bind_r (text_of (snd m) ''symbol.N_OSO.basename'') (\<lambda>base.
                       Inr (''<local-cache>/o/<digest>/'' @ base))
                   | None \<Rightarrow> Inr (sym_name s))
             else Inr (sym_name s)) (\<lambda>normalized_name.
     Inr \<lparr>k_name = normalized_name, k_base_type = sym_base_type s, k_section = sym_section s,
          k_external = sym_external s, k_private_external = sym_private_external s,
          k_stab = sym_stab s, k_desc = sym_desc s, k_type_code = sym_type_code s\<rparr>)"

end
