(* ===== verification/MachO_Load.thy ===== *)
theory MachO_Load
  imports MachO_Model
begin

text \<open>
  The load commands of \<open>_parse_macho_bytes\<close> in \<open>tools/abi_artifact_parity.py\<close>: one definition per
  command, a step that dispatches, and the loop.  The loop's locals are the record \<open>load_state\<close>,
  what it only reads is the record \<open>macho_ctx\<close>.
\<close>

record macho_ctx =
  mc_data :: bytes
  mc_filetype :: int
  mc_prefix :: string

definition static_dependency :: "macho_ctx \<Rightarrow> string" where
  "static_dependency c = mc_prefix c @ ''.dwarf.global_cache_directory''"

record symtab_fields =
  st_symoff :: int
  st_nsyms :: int
  st_stroff :: int
  st_strsize :: int

text \<open>The dictionary of a dylib command.\<close>

record dylib_value =
  dv_name :: string
  dv_timestamp :: int
  dv_current_version :: string
  dv_compatibility_version :: string
  dv_kind :: string

definition dylib_items :: "dylib_value \<Rightarrow> (string \<times> json) list" where
  "dylib_items v = [(''name'', JStr (dv_name v)), (''timestamp'', JInt (dv_timestamp v)),
     (''current_version'', JStr (dv_current_version v)),
     (''compatibility_version'', JStr (dv_compatibility_version v)), (''kind'', JStr (dv_kind v))]"

record load_state =
  ls_builder :: atom_builder
  ls_offset :: int
  ls_segments :: "segment_rec list"
  ls_sections :: "section_rec list"
  ls_load_axes :: "json list"
  ls_axis :: json
  ls_symtab :: "symtab_fields option"
  ls_dysymtab :: "int list option"
  ls_signature_range :: "(int \<times> int) option"
  ls_build_versions :: "json list"
  ls_install_names :: "dylib_value list"
  ls_dependencies :: "dylib_value list"
  ls_rpaths :: "string list"
  ls_linkedit_ranges :: "(int \<times> int \<times> string) list"
  ls_seen :: "int \<Rightarrow> int"

definition enumerate_int :: "'a list \<Rightarrow> (int \<times> 'a) list" where
  "enumerate_int xs = zip (map int [0..<length xs]) xs"

text \<open>A builder step inside the loop state.\<close>

definition claim_ls :: "(atom_builder \<Rightarrow> atom_builder res) \<Rightarrow> load_state \<Rightarrow> load_state res" where
  "claim_ls f s = bind_r (f (ls_builder s)) (\<lambda>b. Inr (s\<lparr>ls_builder := b\<rparr>))"

definition axis_update :: "(string \<times> json) list \<Rightarrow> load_state \<Rightarrow> load_state" where
  "axis_update d s = s\<lparr>ls_axis := obj_update (ls_axis s) (JObj d)\<rparr>"

text \<open>\<open>_parse_load_string\<close>.\<close>

definition parse_load_string :: "bytes \<Rightarrow> int \<Rightarrow> int \<Rightarrow> int \<Rightarrow> string \<Rightarrow> string res" where
  "parse_load_string data command_offset command_size field_offset locator =
     (if field_offset < 8 \<or> field_offset \<ge> command_size
      then fail locator ''invalid load-command string offset''
      else bind_r (cstring data (command_offset + field_offset) (command_offset + command_size) locator) (\<lambda>v.
        if any_nonzero (py_slice data (snd v) (command_offset + command_size))
        then fail locator ''nonzero load-command string padding''
        else text_of (fst v) locator))"

section \<open>Segments\<close>

definition parse_section :: "macho_ctx \<Rightarrow> string \<Rightarrow> string \<Rightarrow> int \<Rightarrow> int \<Rightarrow> int \<Rightarrow> int \<Rightarrow> int
    \<Rightarrow> section_rec res" where
  "parse_section c locator segname fileoff filesize command_offset nsections local_index =
     (let data = mc_data c; so = command_offset + 72 + local_index * 80 in
      bind_r (struct_need data so 80) (\<lambda>_.
      bind_r (fixed_name (py_slice data so (so + 16))
                (locator @ ''.section['' @ show_int local_index @ ''].name'')) (\<lambda>sectname.
      bind_r (fixed_name (py_slice data (so + 16) (so + 32))
                (locator @ ''.section['' @ show_int local_index @ ''].segment'')) (\<lambda>section_seg.
      if section_seg \<noteq> segname \<and> \<not> (mc_filetype c = MH_OBJECT \<and> segname = [])
      then fail locator ''section segment name disagrees with enclosing segment''
      else
      let section = \<lparr>sec_index = nsections + local_index + 1, sec_segment = section_seg,
            sec_name = sectname, sec_addr = u64 data (so + 32), sec_size = u64 data (so + 40),
            sec_offset = u32 data (so + 48), sec_align = u32 data (so + 52),
            sec_reloff = u32 data (so + 56), sec_nreloc = u32 data (so + 60),
            sec_flags = u32 data (so + 64), sec_reserved1 = u32 data (so + 68),
            sec_reserved2 = u32 data (so + 72), sec_reserved3 = u32 data (so + 76)\<rparr> in
      if sec_align section > 63 then fail locator ''invalid section alignment exponent''
      else
      bind_r (if is_zerofill section then Inr () else
        bind_r (require_range (blen data) (sec_offset section) (sec_size section)
                  (locator @ ''.'' @ sectname @ ''.data'')) (\<lambda>_.
        if mc_filetype c \<noteq> MH_OBJECT \<and> \<not> (fileoff \<le> sec_offset section
             \<and> sec_offset section + sec_size section \<le> fileoff + filesize)
        then fail locator ''section is outside its file-backed segment'' else Inr ())) (\<lambda>_.
      bind_r (if sec_nreloc section \<noteq> 0
              then require_range (blen data) (sec_reloff section) (sec_nreloc section * 8)
                     (locator @ ''.'' @ sectname @ ''.relocations'')
              else Inr ()) (\<lambda>_.
      Inr section))))))"

definition is_debug_line :: "section_rec \<Rightarrow> bool" where
  "is_debug_line s \<longleftrightarrow> sec_name s = ''__debug_line'' \<and> sec_segment s = ''__DWARF''"

text \<open>
  The claims for one section of an object segment.  \<open>debug_line\<close> is the segment's
  \<open>__debug_line\<close> section; object identity of sections is equality of their indices.
\<close>

definition object_section_claims :: "macho_ctx \<Rightarrow> string \<Rightarrow> int \<Rightarrow> section_rec option
    \<Rightarrow> int \<times> section_rec \<Rightarrow> atom_builder \<Rightarrow> atom_builder res" where
  "object_section_claims c locator command_offset debug_line p b =
     (let local_index = fst p; section = snd p;
          section_base = command_offset + 72 + local_index * 80;
          here = locator @ ''.section['' @ show_int local_index @ '']'';
          deps = [static_dependency c] in
      bind_r (if is_debug_line section
              then add_derived b (section_base + 40) 8 (here @ ''.debug_line_size'') deps
              else Inr b) (\<lambda>b.
      bind_r (case debug_line of
          None \<Rightarrow> Inr b
        | Some dl \<Rightarrow>
            if sec_index section \<noteq> sec_index dl \<and> sec_addr section \<ge> sec_addr dl + sec_size dl
            then if \<not> is_zerofill section
                 then fail locator ''only zero-fill sections may follow __debug_line in object address layout''
                 else add_derived b (section_base + 32) 8 (here @ ''.addr'') deps
            else Inr b) (\<lambda>b.
      if sec_reloff section \<noteq> 0
      then add_derived b (section_base + 56) 4 (here @ ''.reloff'') deps
      else Inr b)))"

definition segment_size_claims :: "string \<Rightarrow> int \<Rightarrow> string list \<Rightarrow> atom_builder \<Rightarrow> atom_builder res" where
  "segment_size_claims locator command_offset deps b =
     bind_r (add_derived b (command_offset + 32) 8 (locator @ ''.derived_vmsize'') deps) (\<lambda>b.
     add_derived b (command_offset + 48) 8 (locator @ ''.derived_filesize'') deps)"

definition segment_claims :: "macho_ctx \<Rightarrow> string \<Rightarrow> int \<Rightarrow> segment_rec \<Rightarrow> atom_builder
    \<Rightarrow> atom_builder res" where
  "segment_claims c locator command_offset segment b =
     (if mc_filetype c = MH_OBJECT
      then bind_r (segment_size_claims locator command_offset [static_dependency c] b) (\<lambda>b.
           let debug_lines = filter is_debug_line (seg_sections segment) in
           if length debug_lines > 1
           then fail locator ''multiple __DWARF,__debug_line sections in one object segment''
           else fold_r (object_section_claims c locator command_offset
                          (case debug_lines of [] \<Rightarrow> None | dl # _ \<Rightarrow> Some dl))
                  (enumerate_int (seg_sections segment)) b)
      else if seg_name segment = ''__LINKEDIT''
      then segment_size_claims locator command_offset dynamic_dependencies b
      else Inr b)"

definition lc_segment :: "macho_ctx \<Rightarrow> int \<Rightarrow> int \<Rightarrow> string \<Rightarrow> load_state \<Rightarrow> load_state res" where
  "lc_segment c off sz locator s =
     (let data = mc_data c in
      if sz < 72 then fail locator ''truncated segment command''
      else
      bind_r (struct_need data off 72) (\<lambda>_.
      let nsects = u32 data (off + 64); fileoff = u64 data (off + 40); filesize = u64 data (off + 48) in
      if nsects > MAX_SECTIONS \<or> sz \<noteq> 72 + 80 * nsects
      then fail locator ''segment section count does not match command size''
      else
      bind_r (fixed_name (py_slice data (off + 8) (off + 24)) (locator @ ''.segname'')) (\<lambda>segname.
      bind_r (require_range (blen data) fileoff filesize (locator @ ''.file_range'')) (\<lambda>_.
      bind_r (map_r (parse_section c locator segname fileoff filesize off (blen (ls_sections s)))
                [0..nsects - 1]) (\<lambda>segment_sections.
      let segment = \<lparr>seg_index = blen (ls_segments s), seg_name = segname, seg_vmaddr = u64 data (off + 24),
            seg_vmsize = u64 data (off + 32), seg_fileoff = fileoff, seg_filesize = filesize,
            seg_maxprot = i32 data (off + 56), seg_initprot = i32 data (off + 60),
            seg_flags = u32 data (off + 68), seg_sections = segment_sections\<rparr>;
          s = s\<lparr>ls_segments := ls_segments s @ [segment],
                ls_sections := ls_sections s @ segment_sections,
                ls_axis := obj_update (ls_axis s) (segment_json segment)\<rparr> in
      claim_ls (segment_claims c locator off segment) s)))))"

section \<open>Tables\<close>

definition lc_symtab :: "macho_ctx \<Rightarrow> int \<Rightarrow> int \<Rightarrow> string \<Rightarrow> load_state \<Rightarrow> load_state res" where
  "lc_symtab c off sz locator s =
     (let data = mc_data c in
      if sz \<noteq> 24 \<or> ls_symtab s \<noteq> None then fail locator ''invalid or duplicate LC_SYMTAB''
      else
      bind_r (struct_need data (off + 8) 16) (\<lambda>_.
      let st = \<lparr>st_symoff = u32 data (off + 8), st_nsyms = u32 data (off + 12),
                st_stroff = u32 data (off + 16), st_strsize = u32 data (off + 20)\<rparr>;
          s = axis_update [(''symoff'', JInt (st_symoff st)), (''nsyms'', JInt (st_nsyms st)),
                (''stroff'', JInt (st_stroff st)), (''strsize'', JInt (st_strsize st))]
                (s\<lparr>ls_symtab := Some st\<rparr>) in
      claim_ls (\<lambda>b. if mc_filetype c = MH_OBJECT
          then add_derived b (off + 8) 16 (locator @ ''.layout'') [static_dependency c]
          else add_derived b (off + 20) 4 (locator @ ''.strsize'') [''macho.symtab.n_oso.path'']) s))"

definition dysymtab_claim :: "macho_ctx \<Rightarrow> string \<Rightarrow> int \<Rightarrow> int list \<Rightarrow> int \<Rightarrow> atom_builder
    \<Rightarrow> atom_builder res" where
  "dysymtab_claim c locator off flds field_index b =
     (if flds ! nat field_index \<noteq> 0
      then add_derived b (off + 8 + field_index * 4) 4
             (locator @ ''.offset['' @ show_int field_index @ '']'') [static_dependency c]
      else Inr b)"

definition lc_dysymtab :: "macho_ctx \<Rightarrow> int \<Rightarrow> int \<Rightarrow> string \<Rightarrow> load_state \<Rightarrow> load_state res" where
  "lc_dysymtab c off sz locator s =
     (let data = mc_data c in
      if sz \<noteq> 80 \<or> ls_dysymtab s \<noteq> None then fail locator ''invalid or duplicate LC_DYSYMTAB''
      else
      bind_r (struct_need data (off + 8) 72) (\<lambda>_.
      let flds = map (\<lambda>i. u32 data (off + 8 + 4 * i)) [0..17];
          s = s\<lparr>ls_dysymtab := Some flds, ls_axis := obj_set ''fields'' (jints flds) (ls_axis s)\<rparr> in
      if mc_filetype c = MH_OBJECT
      then claim_ls (fold_r (dysymtab_claim c locator off flds) [6, 8, 10, 12, 14, 16]) s
      else Inr s))"

section \<open>Names, versions and linkedit data\<close>

definition lc_dylib :: "macho_ctx \<Rightarrow> int \<Rightarrow> int \<Rightarrow> string \<Rightarrow> string \<Rightarrow> int \<Rightarrow> load_state
    \<Rightarrow> load_state res" where
  "lc_dylib c off sz locator name command s =
     (let data = mc_data c in
      if sz < 24 then fail locator ''truncated dylib command''
      else
      bind_r (struct_need data (off + 8) 16) (\<lambda>_.
      bind_r (parse_load_string data off sz (u32 data (off + 8)) (locator @ ''.name'')) (\<lambda>dylib_name.
      let v = \<lparr>dv_name = dylib_name, dv_timestamp = u32 data (off + 12),
            dv_current_version = version_text (u32 data (off + 16)),
            dv_compatibility_version = version_text (u32 data (off + 20)), dv_kind = name\<rparr>;
          s = (if command = LC_ID_DYLIB then s\<lparr>ls_install_names := ls_install_names s @ [v]\<rparr>
               else s\<lparr>ls_dependencies := ls_dependencies s @ [v]\<rparr>) in
      Inr (axis_update (dylib_items v) s))))"

definition lc_path :: "macho_ctx \<Rightarrow> int \<Rightarrow> int \<Rightarrow> string \<Rightarrow> int \<Rightarrow> load_state \<Rightarrow> load_state res" where
  "lc_path c off sz locator command s =
     (let data = mc_data c in
      if sz < 12 then fail locator ''truncated path command''
      else
      bind_r (struct_need data (off + 8) 4) (\<lambda>_.
      bind_r (parse_load_string data off sz (u32 data (off + 8)) (locator @ ''.path'')) (\<lambda>path.
      let s = s\<lparr>ls_axis := obj_set ''path'' (JStr path) (ls_axis s)\<rparr> in
      Inr (if command = LC_RPATH then s\<lparr>ls_rpaths := ls_rpaths s @ [path]\<rparr> else s))))"

definition lc_uuid :: "macho_ctx \<Rightarrow> int \<Rightarrow> int \<Rightarrow> string \<Rightarrow> load_state \<Rightarrow> load_state res" where
  "lc_uuid c off sz locator s =
     (if sz \<noteq> 24 then fail locator ''invalid LC_UUID size''
      else
      bind_r (claim_ls (\<lambda>b. builder_add b (off + 8) 16 ''load[LC_UUID].uuid'' Allowed_Payload []
                (Some ''fresh-build UUID'') None True) s) (\<lambda>s.
      Inr (s\<lparr>ls_axis := obj_set ''uuid'' (JStr (hex_of_bytes (py_slice (mc_data c) (off + 8) (off + 24))))
               (ls_axis s)\<rparr>)))"

definition lc_build_version :: "macho_ctx \<Rightarrow> int \<Rightarrow> int \<Rightarrow> string \<Rightarrow> load_state \<Rightarrow> load_state res" where
  "lc_build_version c off sz locator s =
     (let data = mc_data c in
      if sz < 24 then fail locator ''truncated LC_BUILD_VERSION''
      else
      bind_r (struct_need data (off + 8) 16) (\<lambda>_.
      let ntools = u32 data (off + 20) in
      if sz \<noteq> 24 + ntools * 8 then fail locator ''LC_BUILD_VERSION tool count mismatch''
      else
      bind_r (struct_need data (off + 24) (ntools * 8)) (\<lambda>_.
      let tools = map (\<lambda>i. (u32 data (off + 24 + i * 8), u32 data (off + 24 + i * 8 + 4))) [0..ntools - 1];
          v = [(''platform'', JInt (u32 data (off + 8))),
            (''minimum_platform'', JStr (version_text (u32 data (off + 12)))),
            (''sdk'', JStr (version_text (u32 data (off + 16)))),
            (''tools'', JList (map (\<lambda>t. jints [fst t, snd t]) tools))] in
      Inr (axis_update v (s\<lparr>ls_build_versions := ls_build_versions s @ [JObj v]\<rparr>)))))"

definition dyld_labels :: "string list" where
  "dyld_labels = [''rebase'', ''bind'', ''weak_bind'', ''lazy_bind'', ''export'']"

definition lc_dyld_info :: "macho_ctx \<Rightarrow> int \<Rightarrow> int \<Rightarrow> string \<Rightarrow> load_state \<Rightarrow> load_state res" where
  "lc_dyld_info c off sz locator s =
     (let data = mc_data c in
      if sz \<noteq> 48 then fail locator ''invalid LC_DYLD_INFO_ONLY size''
      else
      bind_r (struct_need data (off + 8) 40) (\<lambda>_.
      let ranges = map (\<lambda>p. (u32 data (off + 8 + fst p * 8), u32 data (off + 12 + fst p * 8),
                          snd p)) (enumerate_int dyld_labels) in
      Inr (s\<lparr>ls_linkedit_ranges := ls_linkedit_ranges s
               @ map (\<lambda>(o1, z, label). (o1, z, locator @ ''.'' @ label))
                   (filter (\<lambda>(o1, z, label). z \<noteq> 0) ranges),
             ls_axis := obj_set ''ranges'' (JObj (map (\<lambda>(o1, z, label). (label, jints [o1, z])) ranges))
               (ls_axis s)\<rparr>)))"

definition lc_linkedit_data :: "macho_ctx \<Rightarrow> int \<Rightarrow> int \<Rightarrow> string \<Rightarrow> int \<Rightarrow> load_state
    \<Rightarrow> load_state res" where
  "lc_linkedit_data c off sz locator command s =
     (let data = mc_data c in
      if sz \<noteq> 16 then fail locator ''invalid linkedit-data command size''
      else
      bind_r (struct_need data (off + 8) 8) (\<lambda>_.
      let dataoff = u32 data (off + 8); datasize = u32 data (off + 12);
          s = axis_update [(''dataoff'', JInt dataoff), (''datasize'', JInt datasize)] s in
      if command = LC_CODE_SIGNATURE
      then if ls_signature_range s \<noteq> None \<or> datasize = 0
           then fail locator ''missing or duplicate code signature''
           else claim_ls (\<lambda>b. add_derived b (off + 8) 8 (locator @ ''.layout'') dynamic_dependencies)
                  (s\<lparr>ls_signature_range := Some (dataoff, datasize)\<rparr>)
      else if datasize \<noteq> 0
      then let s = s\<lparr>ls_linkedit_ranges := ls_linkedit_ranges s @ [(dataoff, datasize, locator)]\<rparr> in
           if mc_filetype c = MH_OBJECT
           then claim_ls (\<lambda>b. add_derived b (off + 8) 8 (locator @ ''.layout'') [static_dependency c]) s
           else Inr s
      else Inr s))"

definition lc_source_version :: "macho_ctx \<Rightarrow> int \<Rightarrow> int \<Rightarrow> string \<Rightarrow> load_state \<Rightarrow> load_state res" where
  "lc_source_version c off sz locator s =
     (if sz \<noteq> 16 then fail locator ''invalid LC_SOURCE_VERSION size''
      else
      bind_r (struct_need (mc_data c) (off + 8) 8) (\<lambda>_.
      Inr (s\<lparr>ls_axis := obj_set ''version'' (JInt (u64 (mc_data c) (off + 8))) (ls_axis s)\<rparr>)))"

section \<open>The loop\<close>

definition dylib_commands :: "int list" where
  "dylib_commands = [LC_ID_DYLIB, LC_LOAD_DYLIB, LC_LOAD_WEAK_DYLIB, LC_REEXPORT_DYLIB,
     LC_LAZY_LOAD_DYLIB, LC_LOAD_UPWARD_DYLIB]"

definition linkedit_commands :: "int list" where
  "linkedit_commands = [LC_CODE_SIGNATURE, LC_FUNCTION_STARTS, LC_DATA_IN_CODE,
     LC_LINKER_OPTIMIZATION_HINT]"

definition dispatch_command :: "macho_ctx \<Rightarrow> int \<Rightarrow> int \<Rightarrow> string \<Rightarrow> string \<Rightarrow> int \<Rightarrow> load_state
    \<Rightarrow> load_state res" where
  "dispatch_command c off sz locator name command s =
     (if command = LC_SEGMENT_64 then lc_segment c off sz locator s
      else if command = LC_SYMTAB then lc_symtab c off sz locator s
      else if command = LC_DYSYMTAB then lc_dysymtab c off sz locator s
      else if command \<in> set dylib_commands then lc_dylib c off sz locator name command s
      else if command \<in> {LC_LOAD_DYLINKER, LC_RPATH} then lc_path c off sz locator command s
      else if command = LC_UUID then lc_uuid c off sz locator s
      else if command = LC_BUILD_VERSION then lc_build_version c off sz locator s
      else if command = LC_DYLD_INFO_ONLY then lc_dyld_info c off sz locator s
      else if command \<in> set linkedit_commands then lc_linkedit_data c off sz locator command s
      else if command = LC_SOURCE_VERSION then lc_source_version c off sz locator s
      else if command = LC_PREBOUND_DYLIB then fail locator ''prebound dylib layout is unsupported''
      else Inl AssertionError)"

definition load_step :: "macho_ctx \<Rightarrow> int \<Rightarrow> int \<Rightarrow> load_state \<Rightarrow> load_state res" where
  "load_step c load_end index s =
     (let data = mc_data c; off = ls_offset s; here = mc_prefix c @ ''.load['' @ show_int index @ '']'' in
      if off + 8 > load_end then fail (mc_prefix c) ''truncated load command''
      else
      bind_r (struct_need data off 8) (\<lambda>_.
      let command = u32 data off; sz = u32 data (off + 4) in
      case map_of command_names command of
        None \<Rightarrow> fail here (''unsupported load command 0x'' @ show_hex command)
      | Some name \<Rightarrow>
          if sz < 8 \<or> sz mod 8 \<noteq> 0 \<or> off + sz > load_end
          then fail here ''invalid load-command size''
          else
          let locator = ''load['' @ show_int index @ '':'' @ name @ '']'' in
          bind_r (claim_ls (\<lambda>b. add_plain b off sz locator) s) (\<lambda>s.
          bind_r (dispatch_command c off sz locator name command
              (s\<lparr>ls_axis := JObj [(''index'', JInt index), (''command'', JStr name), (''size'', JInt sz)],
                 ls_seen := (ls_seen s)(command := ls_seen s command + 1)\<rparr>)) (\<lambda>s.
          Inr (s\<lparr>ls_load_axes := ls_load_axes s @ [ls_axis s], ls_offset := off + sz\<rparr>)))))"

definition load_init :: "atom_builder \<Rightarrow> load_state" where
  "load_init b = \<lparr>ls_builder = b, ls_offset = 32, ls_segments = [], ls_sections = [], ls_load_axes = [],
     ls_axis = JObj [], ls_symtab = None, ls_dysymtab = None, ls_signature_range = None,
     ls_build_versions = [], ls_install_names = [], ls_dependencies = [], ls_rpaths = [],
     ls_linkedit_ranges = [], ls_seen = (\<lambda>_. 0)\<rparr>"

text \<open>The loop and the checks that follow it.\<close>

definition load_commands :: "macho_ctx \<Rightarrow> int \<Rightarrow> int \<Rightarrow> atom_builder
    \<Rightarrow> (load_state \<times> symtab_fields \<times> int list) res" where
  "load_commands c load_end ncmds b =
     bind_r (fold_r (load_step c load_end) [0..ncmds - 1] (load_init b)) (\<lambda>s.
     if ls_offset s \<noteq> load_end
     then fail (mc_prefix c) ''load commands do not exactly fill sizeofcmds''
     else if ls_seen s LC_SYMTAB \<noteq> 1 \<or> ls_seen s LC_DYSYMTAB \<noteq> 1 \<or> ls_seen s LC_BUILD_VERSION \<noteq> 1
     then fail (mc_prefix c) ''requires exactly one symtab, dysymtab, and build-version command''
     else case (ls_symtab s, ls_dysymtab s) of
       (Some st, Some dy) \<Rightarrow> Inr (s, st, dy)
     | _ \<Rightarrow> Inl AssertionError)"

section \<open>What a load command keeps\<close>

text \<open>A section as the later phases rely on it: numbered from one, its file ranges inside the file.\<close>

definition section_wf :: "macho_ctx \<Rightarrow> int \<Rightarrow> section_rec \<Rightarrow> bool" where
  "section_wf c k s \<longleftrightarrow> sec_index s = k \<and> 0 \<le> sec_addr s \<and> sec_addr s < 2 ^ 64 \<and> 0 \<le> sec_size s
     \<and> 0 \<le> sec_offset s \<and> 0 \<le> sec_reloff s \<and> 0 \<le> sec_nreloc s \<and> 0 \<le> sec_align s \<and> sec_align s \<le> 63
     \<and> (\<not> is_zerofill s \<longrightarrow> sec_offset s + sec_size s \<le> blen (mc_data c))
     \<and> (sec_nreloc s \<noteq> 0 \<longrightarrow> sec_reloff s + sec_nreloc s * 8 \<le> blen (mc_data c))"

definition sections_wf :: "macho_ctx \<Rightarrow> section_rec list \<Rightarrow> bool" where
  "sections_wf c ss \<longleftrightarrow> (\<forall>k < length ss. section_wf c (int k + 1) (ss ! k))"

definition tables_nonneg :: "load_state \<Rightarrow> bool" where
  "tables_nonneg s \<longleftrightarrow> (\<forall>st. ls_symtab s = Some st \<longrightarrow> 0 \<le> st_symoff st \<and> 0 \<le> st_nsyms st \<and> 0 \<le> st_stroff st
       \<and> 0 \<le> st_strsize st)
     \<and> (\<forall>dy. ls_dysymtab s = Some dy \<longrightarrow> length dy = 18 \<and> (\<forall>x \<in> set dy. 0 \<le> x))
     \<and> (\<forall>r. ls_signature_range s = Some r \<longrightarrow> 0 \<le> fst r \<and> 0 < snd r)"

text \<open>What one command changes, besides the axes: the builder grows, and the command's own table.\<close>

definition handled :: "volatile set \<Rightarrow> atom_builder \<Rightarrow> macho_ctx \<Rightarrow> int \<Rightarrow> load_state \<Rightarrow> load_state \<Rightarrow> bool" where
  "handled A b0 c command s s' \<longleftrightarrow> keeps_builder A b0 (ls_builder s') \<and> ls_offset s' = ls_offset s
     \<and> ls_seen s' = ls_seen s \<and> ls_load_axes s' = ls_load_axes s
     \<and> (ls_symtab s' = None \<longleftrightarrow> ls_symtab s = None \<and> command \<noteq> LC_SYMTAB)
     \<and> (ls_dysymtab s' = None \<longleftrightarrow> ls_dysymtab s = None \<and> command \<noteq> LC_DYSYMTAB)
     \<and> (ls_signature_range s' = None \<longleftrightarrow> ls_signature_range s = None \<and> command \<noteq> LC_CODE_SIGNATURE)
     \<and> (ls_install_names s' = [] \<longleftrightarrow> ls_install_names s = [] \<and> command \<noteq> LC_ID_DYLIB)
     \<and> sections_wf c (ls_sections s') \<and> tables_nonneg s'"

definition ready :: "volatile set \<Rightarrow> atom_builder \<Rightarrow> macho_ctx \<Rightarrow> load_state \<Rightarrow> bool" where
  "ready A b0 c s \<longleftrightarrow> keeps_builder A b0 (ls_builder s) \<and> sections_wf c (ls_sections s) \<and> tables_nonneg s"

lemma u_le_bound: "0 \<le> n \<Longrightarrow> u_le data off n < 256 ^ nat n"
proof -
  assume "0 \<le> n"
  have "length (py_slice data off (off + n)) \<le> nat n"
    using \<open>0 \<le> n\<close> by (auto simp: py_slice_def py_bound_def Let_def)
  then have "(256 :: int) ^ length (py_slice data off (off + n)) \<le> 256 ^ nat n"
    by (intro power_increasing) simp_all
  then show ?thesis using le_value_bounds[of "py_slice data off (off + n)"] unfolding u_le_def by linarith
qed

lemma sections_wf_append:
  "sections_wf c ss \<Longrightarrow> (\<And>k. k < length ts \<Longrightarrow> section_wf c (blen ss + int k + 1) (ts ! k)) \<Longrightarrow>
     sections_wf c (ss @ ts)"
  unfolding sections_wf_def by (auto simp: nth_append blen_def) (metis add.commute add_diff_inverse_nat of_nat_add nat_add_left_cancel_less)

lemma obeys_claim_ls:
  assumes "keeps_builder A b0 (ls_builder s)"
    and "\<And>b. keeps_builder A b0 b \<Longrightarrow> obeys (f b) (keeps_builder A b0)"
    and "\<And>b'. keeps_builder A b0 b' \<Longrightarrow> Q (s\<lparr>ls_builder := b'\<rparr>)"
  shows "obeys (claim_ls f s) Q"
  unfolding claim_ls_def
  by (rule obeys_bind, rule obeys_mono[OF assms(2)[OF assms(1)]], rule obeys_Inr, rule assms(3))

lemma obeys_load_string: "(\<And>n. Q n) \<Longrightarrow> obeys (parse_load_string data co cs fo l) Q"
  unfolding parse_load_string_def by (intro obeys_intros)

lemma upto_nth: "k < length [0..n - 1] \<Longrightarrow> [0..n - 1] ! k = int k"
  by (simp add: nth_upto)

lemma obeys_parse_section:
  assumes "0 \<le> off" "0 \<le> i" "off + 72 + (i + 1) * 80 \<le> blen (mc_data c)"
  shows "obeys (parse_section c locator segname fo fs off n i) (section_wf c (n + i + 1))"
  unfolding parse_section_def Let_def
  using assms u_le_bound[of 8 "mc_data c" "off + 72 + i * 80 + 32"]
  by (intro obeys_intros) (auto simp: section_wf_def is_zerofill_def)

lemma obeys_segment_size_claims:
  "keeps_builder A b0 b \<Longrightarrow> obeys (segment_size_claims locator off deps b) (keeps_builder A b0)"
  unfolding segment_size_claims_def by (intro obeys_bind obeys_add_derived) auto

lemma obeys_object_section_claims:
  "keeps_builder A b0 b \<Longrightarrow> obeys (object_section_claims c locator off dl p b) (keeps_builder A b0)"
  unfolding object_section_claims_def Let_def
  by (cases dl) (auto intro!: obeys_intros obeys_add_derived)

lemma obeys_segment_claims:
  "keeps_builder A b0 b \<Longrightarrow> obeys (segment_claims c locator off g b) (keeps_builder A b0)"
  unfolding segment_claims_def Let_def
  by (intro obeys_if obeys_bind obeys_fail obeys_mono[OF obeys_segment_size_claims] obeys_Inr
      obeys_fold[where I = "keeps_builder A b0"] obeys_object_section_claims) auto

lemma obeys_lc_segment:
  assumes "ready A b0 c s" "0 \<le> off" "off + sz \<le> blen (mc_data c)"
  shows "obeys (lc_segment c off sz locator s) (handled A b0 c LC_SEGMENT_64 s)"
proof -
  let ?d = "mc_data c"
  have post: "handled A b0 c LC_SEGMENT_64 s (s\<lparr>ls_segments := gs, ls_sections := ls_sections s @ ts,
        ls_axis := ax, ls_builder := b'\<rparr>)"
    if "list_all2 (\<lambda>i. section_wf c (blen (ls_sections s) + i + 1)) [0..u32 ?d (off + 64) - 1] ts"
      "keeps_builder A b0 b'" for ts gs ax b'
  proof -
    have "sections_wf c (ls_sections s @ ts)"
      using assms(1) that(1) unfolding ready_def
      by (intro sections_wf_append) (auto simp: list_all2_conv_all_nth upto_nth)
    then show ?thesis using assms(1) that(2)
      by (auto simp: handled_def ready_def tables_nonneg_def lc_constants)
  qed
  show ?thesis
    unfolding lc_segment_def Let_def
  proof (intro obeys_if obeys_bind obeys_fail obeys_struct obeys_fixed_name obeys_require
      obeys_map_r[where P = "\<lambda>i. section_wf c (blen (ls_sections s) + i + 1)"]
      obeys_parse_section obeys_claim_ls[of A b0] obeys_segment_claims, goal_cases)
    case (8 segname ys b')
    then show ?case using post[OF 8(6,7)] by simp
  qed (use assms in \<open>auto simp: ready_def\<close>)
qed

text \<open>The other commands leave the sections alone.\<close>

lemma handledI:
  assumes "ready A b0 c s" "keeps_builder A b0 (ls_builder s')" "ls_sections s' = ls_sections s"
    "ls_offset s' = ls_offset s" "ls_seen s' = ls_seen s" "ls_load_axes s' = ls_load_axes s" "tables_nonneg s'"
    "ls_symtab s' = None \<longleftrightarrow> ls_symtab s = None \<and> command \<noteq> LC_SYMTAB"
    "ls_dysymtab s' = None \<longleftrightarrow> ls_dysymtab s = None \<and> command \<noteq> LC_DYSYMTAB"
    "ls_signature_range s' = None \<longleftrightarrow> ls_signature_range s = None \<and> command \<noteq> LC_CODE_SIGNATURE"
    "ls_install_names s' = [] \<longleftrightarrow> ls_install_names s = [] \<and> command \<noteq> LC_ID_DYLIB"
  shows "handled A b0 c command s s'"
  using assms unfolding handled_def ready_def by simp

lemma obeys_lc_symtab:
  assumes "ready A b0 c s" "0 \<le> off" "off + sz \<le> blen (mc_data c)"
  shows "obeys (lc_symtab c off sz locator s) (handled A b0 c LC_SYMTAB s)"
  unfolding lc_symtab_def Let_def axis_update_def
  by (intro obeys_intros obeys_claim_ls[of A b0] obeys_add_derived handledI[OF assms(1)])
    (use assms in \<open>auto simp: ready_def tables_nonneg_def lc_constants\<close>)

lemma obeys_lc_dysymtab:
  assumes "ready A b0 c s" "0 \<le> off" "off + sz \<le> blen (mc_data c)"
  shows "obeys (lc_dysymtab c off sz locator s) (handled A b0 c LC_DYSYMTAB s)"
  unfolding lc_dysymtab_def dysymtab_claim_def Let_def
  by (intro obeys_intros obeys_claim_ls[of A b0] obeys_fold[where I = "keeps_builder A b0"]
      obeys_add_derived handledI[OF assms(1)])
    (use assms in \<open>auto simp: ready_def tables_nonneg_def lc_constants\<close>)

lemma obeys_lc_dylib:
  assumes "ready A b0 c s" "0 \<le> off" "off + sz \<le> blen (mc_data c)" "command \<in> set dylib_commands"
  shows "obeys (lc_dylib c off sz locator name command s) (handled A b0 c command s)"
  unfolding lc_dylib_def Let_def axis_update_def
  by (intro obeys_intros obeys_load_string handledI[OF assms(1)])
    (use assms in \<open>auto simp: ready_def tables_nonneg_def lc_constants dylib_commands_def\<close>)

lemma obeys_lc_path:
  assumes "ready A b0 c s" "0 \<le> off" "off + sz \<le> blen (mc_data c)" "command \<in> {LC_LOAD_DYLINKER, LC_RPATH}"
  shows "obeys (lc_path c off sz locator command s) (handled A b0 c command s)"
  unfolding lc_path_def Let_def
  by (intro obeys_intros obeys_load_string handledI[OF assms(1)])
    (use assms in \<open>auto simp: ready_def tables_nonneg_def lc_constants\<close>)

lemma obeys_lc_uuid:
  assumes "ready A b0 c s"
    and "sz = 24 \<Longrightarrow> Volatile (full_locator (b_prefix b0) ''load[LC_UUID].uuid'') (off + 8) 16 \<in> A"
  shows "obeys (lc_uuid c off sz locator s) (handled A b0 c LC_UUID s)"
  unfolding lc_uuid_def Let_def
  by (intro obeys_intros obeys_claim_ls[of A b0] obeys_add handledI[OF assms(1)])
    (use assms in \<open>auto simp: ready_def tables_nonneg_def lc_constants\<close>)

lemma obeys_lc_build_version:
  assumes "ready A b0 c s" "0 \<le> off" "off + sz \<le> blen (mc_data c)"
  shows "obeys (lc_build_version c off sz locator s) (handled A b0 c LC_BUILD_VERSION s)"
  unfolding lc_build_version_def Let_def axis_update_def
  by (intro obeys_intros handledI[OF assms(1)])
    (use assms in \<open>auto simp: ready_def tables_nonneg_def lc_constants\<close>)

lemma obeys_lc_dyld_info:
  assumes "ready A b0 c s" "0 \<le> off" "off + sz \<le> blen (mc_data c)"
  shows "obeys (lc_dyld_info c off sz locator s) (handled A b0 c LC_DYLD_INFO_ONLY s)"
  unfolding lc_dyld_info_def Let_def
  by (intro obeys_intros handledI[OF assms(1)])
    (use assms in \<open>auto simp: ready_def tables_nonneg_def lc_constants\<close>)

lemma obeys_lc_source_version:
  assumes "ready A b0 c s" "0 \<le> off" "off + sz \<le> blen (mc_data c)"
  shows "obeys (lc_source_version c off sz locator s) (handled A b0 c LC_SOURCE_VERSION s)"
  unfolding lc_source_version_def Let_def
  by (intro obeys_intros handledI[OF assms(1)])
    (use assms in \<open>auto simp: ready_def tables_nonneg_def lc_constants\<close>)

lemma obeys_lc_linkedit_data:
  assumes "ready A b0 c s" "0 \<le> off" "off + sz \<le> blen (mc_data c)" "command \<in> set linkedit_commands"
  shows "obeys (lc_linkedit_data c off sz locator command s) (handled A b0 c command s)"
  unfolding lc_linkedit_data_def Let_def axis_update_def
  by (intro obeys_intros obeys_claim_ls[of A b0] obeys_add_derived handledI[OF assms(1)])
    (use assms in
      \<open>auto simp: ready_def tables_nonneg_def lc_constants linkedit_commands_def\<close>)

lemma obeys_dispatch:
  assumes "ready A b0 c s" "0 \<le> off" "off + sz \<le> blen (mc_data c)" "map_of command_names command = Some name"
    and "command = LC_UUID \<Longrightarrow> sz = 24 \<Longrightarrow>
      Volatile (full_locator (b_prefix b0) ''load[LC_UUID].uuid'') (off + 8) 16 \<in> A"
  shows "obeys (dispatch_command c off sz locator name command s) (handled A b0 c command s)"
proof -
  have known: "command \<in> set (map fst command_names)"
    using assms(4) by (metis map_of_eq_None_iff option.distinct(1) set_map)
  show ?thesis
    unfolding dispatch_command_def
  proof (intro obeys_if, goal_cases)
    case 12
    then have False using known
      by (simp add: command_names_def dylib_commands_def linkedit_commands_def)
    then show ?case ..
  qed (use assms(5) obeys_fail in \<open>auto intro: obeys_lc_segment[OF assms(1-3)] obeys_lc_symtab[OF assms(1-3)]
      obeys_lc_dysymtab[OF assms(1-3)] obeys_lc_dylib[OF assms(1-3)] obeys_lc_path[OF assms(1-3)]
      obeys_lc_uuid[OF assms(1)] obeys_lc_build_version[OF assms(1-3)] obeys_lc_dyld_info[OF assms(1-3)]
      obeys_lc_linkedit_data[OF assms(1-3)] obeys_lc_source_version[OF assms(1-3)]\<close>)
qed

section \<open>The loop\<close>

text \<open>The offset of the \<open>n\<close>-th command, by adding up the sizes, and the command numbers before it.\<close>

fun walk :: "bytes \<Rightarrow> nat \<Rightarrow> int \<Rightarrow> int" where
  "walk data 0 off = off"
| "walk data (Suc n) off = (let o1 = walk data n off in o1 + u32 data (o1 + 4))"

definition commands_of :: "bytes \<Rightarrow> nat \<Rightarrow> int list" where
  "commands_of data n = map (\<lambda>k. u32 data (walk data k 32)) [0..<n]"

lemma commands_of_Suc: "commands_of data (Suc n) = commands_of data n @ [u32 data (walk data n 32)]"
  by (simp add: commands_of_def)

definition command_ok :: "bytes \<Rightarrow> int \<Rightarrow> bool" where
  "command_ok data off \<longleftrightarrow> u32 data off \<in> set (map fst command_names)
     \<and> 8 \<le> u32 data (off + 4) \<and> 8 dvd u32 data (off + 4)"

definition walked :: "bytes \<Rightarrow> load_state \<Rightarrow> bool" where
  "walked data s \<longleftrightarrow> (let n = length (ls_load_axes s) in
     ls_offset s = walk data n 32 \<and> (\<forall>k < n. command_ok data (walk data k 32))
     \<and> (\<forall>cmd. ls_seen s cmd = int (count_list (commands_of data n) cmd)))"

definition load_inv :: "volatile set \<Rightarrow> atom_builder \<Rightarrow> macho_ctx \<Rightarrow> int \<Rightarrow> load_state \<Rightarrow> bool" where
  "load_inv A b0 c load_end s \<longleftrightarrow> ready A b0 c s \<and> walked (mc_data c) s
     \<and> 32 \<le> ls_offset s \<and> ls_offset s \<le> load_end
     \<and> (ls_symtab s = None \<longleftrightarrow> ls_seen s LC_SYMTAB = 0)
     \<and> (ls_dysymtab s = None \<longleftrightarrow> ls_seen s LC_DYSYMTAB = 0)
     \<and> (ls_signature_range s = None \<longleftrightarrow> ls_seen s LC_CODE_SIGNATURE = 0)
     \<and> (ls_install_names s = [] \<longleftrightarrow> ls_seen s LC_ID_DYLIB = 0)"

text \<open>The UUID payloads a run may release.\<close>

definition uuid_volatile :: "macho_ctx \<Rightarrow> nat \<Rightarrow> volatile set" where
  "uuid_volatile c n = (\<lambda>k. Volatile (full_locator (mc_prefix c) ''load[LC_UUID].uuid'') (walk (mc_data c) k 32 + 8) 16)
     ` {k. k < n \<and> u32 (mc_data c) (walk (mc_data c) k 32) = LC_UUID}"

lemma walked_seen_nonneg: "walked data s \<Longrightarrow> 0 \<le> ls_seen s cmd"
  by (simp add: walked_def Let_def)

lemma walked_step:
  assumes "walked data s" "command_ok data (ls_offset s)" "ls_load_axes s' = ls_load_axes s @ [a]"
    "ls_offset s' = ls_offset s + u32 data (ls_offset s + 4)"
    "ls_seen s' = (ls_seen s)(u32 data (ls_offset s) := ls_seen s (u32 data (ls_offset s)) + 1)"
  shows "walked data s'"
  using assms by (auto simp: walked_def Let_def commands_of_Suc less_Suc_eq)

lemma obeys_load_step:
  assumes inv: "load_inv A b0 c load_end s" and le: "load_end \<le> blen (mc_data c)"
    and pre: "b_prefix b0 = mc_prefix c" and A: "uuid_volatile c n \<subseteq> A"
    and n: "length (ls_load_axes s) < n"
  shows "obeys (load_step c load_end i s)
    (\<lambda>s'. load_inv A b0 c load_end s' \<and> length (ls_load_axes s') = Suc (length (ls_load_axes s)))"
proof -
  let ?d = "mc_data c" and ?off = "ls_offset s"
  let ?cmd = "u32 ?d ?off" and ?sz = "u32 ?d (?off + 4)"
  note r = inv[unfolded load_inv_def]
  let ?post = "\<lambda>s'. load_inv A b0 c load_end s' \<and> length (ls_load_axes s') = Suc (length (ls_load_axes s))"
  have step: "obeys (bind_r (claim_ls (\<lambda>b. add_plain b ?off ?sz (''load['' @ show_int i @ '':'' @ name @ '']'')) s) (\<lambda>s.
          bind_r (dispatch_command c ?off ?sz (''load['' @ show_int i @ '':'' @ name @ '']'') name ?cmd
              (s\<lparr>ls_axis := JObj [(''index'', JInt i), (''command'', JStr name), (''size'', JInt ?sz)],
                 ls_seen := (ls_seen s)(?cmd := ls_seen s ?cmd + 1)\<rparr>)) (\<lambda>s.
          Inr (s\<lparr>ls_load_axes := ls_load_axes s @ [ls_axis s], ls_offset := ?off + ?sz\<rparr>))))
        ?post"
    if name: "map_of command_names ?cmd = Some name"
      and sz: "\<not> (?sz < 8 \<or> ?sz mod 8 \<noteq> 0 \<or> ?off + ?sz > load_end)" for name
  proof (rule obeys_bind, rule obeys_claim_ls[of A b0])
    show "keeps_builder A b0 (ls_builder s)" using r by (simp add: ready_def)
    fix b' assume b': "keeps_builder A b0 b'"
    let ?s = "s\<lparr>ls_builder := b', ls_axis := JObj [(''index'', JInt i), (''command'', JStr name), (''size'', JInt ?sz)],
                 ls_seen := (ls_seen s)(?cmd := ls_seen s ?cmd + 1)\<rparr>"
    have ready: "ready A b0 c ?s" using r b' by (simp add: ready_def tables_nonneg_def)
    have vol: "Volatile (full_locator (b_prefix b0) ''load[LC_UUID].uuid'') (?off + 8) 16 \<in> A"
      if "?cmd = LC_UUID" "?sz = 24"
      using A that r n pre by (auto simp: uuid_volatile_def walked_def Let_def)
    have ok: "command_ok ?d ?off"
      using name sz by (auto simp: command_ok_def dvd_eq_mod_eq_0 dest!: map_of_SomeD intro: rev_image_eqI)
    have fin: "?post (s'\<lparr>ls_load_axes := ls_load_axes s' @ [ls_axis s'], ls_offset := ?off + ?sz\<rparr>)"
      if h: "handled A b0 c ?cmd ?s s'" for s'
    proof -
      have "walked ?d (s'\<lparr>ls_load_axes := ls_load_axes s' @ [ls_axis s'], ls_offset := ?off + ?sz\<rparr>)"
        by (rule walked_step[OF conjunct1[OF conjunct2[OF r]] ok]) (use h in \<open>simp_all add: handled_def\<close>)
      moreover have "0 \<le> ls_seen s cmd" for cmd using r walked_seen_nonneg by blast
      then have "ls_seen s cmd + 1 \<noteq> 0" for cmd by (metis add.commute add_cancel_right_left add_nonneg_eq_0_iff zero_le_one zero_neq_one)
      ultimately show ?thesis
        using r h sz by (auto simp: load_inv_def handled_def ready_def tables_nonneg_def)
    qed
    show "obeys (bind_r (dispatch_command c ?off ?sz (''load['' @ show_int i @ '':'' @ name @ '']'') name ?cmd
              ((s\<lparr>ls_builder := b'\<rparr>)\<lparr>ls_axis := JObj [(''index'', JInt i), (''command'', JStr name), (''size'', JInt ?sz)],
                 ls_seen := (ls_seen (s\<lparr>ls_builder := b'\<rparr>))(?cmd := ls_seen (s\<lparr>ls_builder := b'\<rparr>) ?cmd + 1)\<rparr>)) (\<lambda>s.
          Inr (s\<lparr>ls_load_axes := ls_load_axes s @ [ls_axis s], ls_offset := ?off + ?sz\<rparr>)))
        ?post"
    proof (rule obeys_bind, rule obeys_mono)
      have "0 \<le> ?off" "?off + ?sz \<le> blen ?d" using r sz le by linarith+
      from obeys_dispatch[OF ready this name vol]
      show "obeys (dispatch_command c ?off ?sz (''load['' @ show_int i @ '':'' @ name @ '']'') name ?cmd
          ((s\<lparr>ls_builder := b'\<rparr>)\<lparr>ls_axis := JObj [(''index'', JInt i), (''command'', JStr name), (''size'', JInt ?sz)],
             ls_seen := (ls_seen (s\<lparr>ls_builder := b'\<rparr>))(?cmd := ls_seen (s\<lparr>ls_builder := b'\<rparr>) ?cmd + 1)\<rparr>))
        (handled A b0 c ?cmd ?s)" by simp
    qed (rule obeys_Inr, rule fin)
  qed (rule obeys_add_plain, assumption+)
  show ?thesis
  proof (cases "map_of command_names ?cmd")
    case None
    then show ?thesis
      using r le by (auto simp: load_step_def Let_def intro!: obeys_intros)
  next
    case (Some name)
    show ?thesis
      unfolding load_step_def Let_def Some option.case
      by (intro obeys_if obeys_fail, rule obeys_bind, rule obeys_struct)
        (use r le step[OF Some] in \<open>auto intro: obeys_fail\<close>)
  qed
qed

lemma obeys_load_commands:
  assumes b0: "keeps_builder A b0 b" "b_prefix b0 = mc_prefix c" and le: "32 \<le> load_end" "load_end \<le> blen (mc_data c)"
    and A: "uuid_volatile c (nat ncmds) \<subseteq> A" and n: "0 \<le> ncmds"
    and Q: "\<And>s st dy. load_inv A b0 c load_end s \<Longrightarrow> ls_offset s = load_end \<Longrightarrow>
      length (ls_load_axes s) = nat ncmds \<Longrightarrow> ls_symtab s = Some st \<Longrightarrow> ls_dysymtab s = Some dy \<Longrightarrow> Q (s, st, dy)"
  shows "obeys (load_commands c load_end ncmds b) Q"
proof -
  have "load_inv A b0 c load_end (load_init b)"
    using b0(1) le
    by (simp add: load_inv_def load_init_def ready_def tables_nonneg_def walked_def sections_wf_def commands_of_def)
  then have init: "load_inv A b0 c load_end (load_init b) \<and> length (ls_load_axes (load_init b)) = 0"
    by (simp add: load_init_def)
  have loop: "obeys (fold_r (load_step c load_end) [0..ncmds - 1] (load_init b))
    (\<lambda>s. load_inv A b0 c load_end s \<and> length (ls_load_axes s) = nat ncmds)"
    by (rule obeys_fold_upto[where I = "\<lambda>k s. load_inv A b0 c load_end s \<and> length (ls_load_axes s) = k"])
      (use init n in \<open>auto intro!: obeys_mono[OF obeys_load_step[OF _ le(2) b0(2) A]]\<close>)
  show ?thesis
    unfolding load_commands_def
  proof (rule obeys_bind, rule obeys_mono[OF loop], intro obeys_if obeys_fail)
    fix s assume s: "load_inv A b0 c load_end s \<and> length (ls_load_axes s) = nat ncmds"
      and off: "\<not> ls_offset s \<noteq> load_end"
      and seen: "\<not> (ls_seen s LC_SYMTAB \<noteq> 1 \<or> ls_seen s LC_DYSYMTAB \<noteq> 1 \<or> ls_seen s LC_BUILD_VERSION \<noteq> 1)"
    obtain st dy where "ls_symtab s = Some st" "ls_dysymtab s = Some dy"
      using s seen by (auto simp: load_inv_def)
    then show "obeys (case (ls_symtab s, ls_dysymtab s) of
       (Some st, Some dy) \<Rightarrow> Inr (s, st, dy) | _ \<Rightarrow> Inl AssertionError) Q"
      using Q s off by (simp add: obeys_Inr)
  qed
qed

end
