(* ===== verification/MachO_Layout.thy ===== *)
theory MachO_Layout
  imports MachO_Load
begin

text \<open>
  The header of \<open>_parse_macho_bytes\<close> (\<open>tools/abi_artifact_parity.py\<close>), the checks on file regions
  after the load commands, and the address layout of an object file.
\<close>

section \<open>Header\<close>

definition MH_MAGIC_64_BYTES :: bytes where "MH_MAGIC_64_BYTES = [0xCF, 0xFA, 0xED, 0xFE]"

definition foreign_magics :: "bytes list" where
  "foreign_magics = [[0xFE, 0xED, 0xFA, 0xCF], [0xCE, 0xFA, 0xED, 0xFE], [0xFE, 0xED, 0xFA, 0xCE],
     [0xCA, 0xFE, 0xBA, 0xBE], [0xBE, 0xBA, 0xFE, 0xCA], [0xCA, 0xFE, 0xBA, 0xBF], [0xBF, 0xBA, 0xFE, 0xCA]]"

record macho_header =
  mh_cpu_subtype :: int
  mh_ncmds :: int
  mh_load_end :: int
  mh_flags :: int
  mh_builder :: atom_builder

definition parse_header :: "macho_ctx \<Rightarrow> macho_header res" where
  "parse_header c =
     (let data = mc_data c; prefix = mc_prefix c in
      if blen data < 32 then fail prefix ''Mach-O header is truncated''
      else if py_slice data 0 4 \<noteq> MH_MAGIC_64_BYTES
      then if py_slice data 0 4 \<in> set foreign_magics
           then fail prefix ''fat, 32-bit, or big-endian Mach-O is unsupported''
           else fail prefix ''not a little-endian 64-bit Mach-O''
      else if u32 data 0 \<noteq> 0xFEEDFACF \<or> i32 data 4 \<noteq> CPU_TYPE_ARM64 \<or> u32 data 12 \<noteq> mc_filetype c
      then fail prefix ''requires a thin arm64 Mach-O of the requested file type''
      else if u32 data 28 \<noteq> 0 \<or> u32 data 16 > MAX_LOAD_COMMANDS \<or> u32 data 20 > blen data - 32
      then fail prefix ''invalid Mach-O header fields''
      else
      let load_end = 32 + u32 data 20 in
      bind_r (add_plain (new_builder data prefix) 0 32 ''header'') (\<lambda>b.
      bind_r (if load_end < blen data then add_plain b load_end (blen data - load_end) ''content''
              else Inr b) (\<lambda>b.
      Inr \<lparr>mh_cpu_subtype = i32 data 8, mh_ncmds = u32 data 16, mh_load_end = load_end,
           mh_flags = u32 data 24, mh_builder = b\<rparr>)))"

section \<open>File regions\<close>

definition section_label :: "string \<Rightarrow> section_rec \<Rightarrow> string" where
  "section_label kind s = kind @ ''['' @ show_int (sec_index s) @ '']:'' @ sec_segment s @ '','' @ sec_name s"

definition section_data_ranges :: "section_rec list \<Rightarrow> (int \<times> int \<times> string) list" where
  "section_data_ranges ss = map (\<lambda>s. (sec_offset s, sec_size s, section_label ''section'' s))
     (filter (\<lambda>s. \<not> is_zerofill s \<and> sec_size s \<noteq> 0) ss)"

definition segment_file_ranges :: "segment_rec list \<Rightarrow> (int \<times> int \<times> string) list" where
  "segment_file_ranges gs = map (\<lambda>g. (seg_fileoff g, seg_filesize g,
       ''segment['' @ show_int (seg_index g) @ '']:'' @ seg_name g))
     (filter (\<lambda>g. seg_filesize g \<noteq> 0) gs)"

definition relocation_ranges :: "section_rec list \<Rightarrow> (int \<times> int \<times> string) list" where
  "relocation_ranges ss = map (\<lambda>s. (sec_reloff s, sec_nreloc s * 8, section_label ''relocations'' s))
     (filter (\<lambda>s. sec_nreloc s \<noteq> 0) ss)"

definition table_ranges :: "load_state \<Rightarrow> symtab_fields \<Rightarrow> (int \<times> int \<times> string) list" where
  "table_ranges s st = ls_linkedit_ranges s
     @ [(st_symoff st, st_nsyms st * 16, ''symtab''), (st_stroff st, st_strsize st, ''strtab'')]
     @ (case ls_signature_range s of Some r \<Rightarrow> [(fst r, snd r, ''code_signature'')] | None \<Rightarrow> [])"

definition check_regions :: "macho_ctx \<Rightarrow> load_state \<Rightarrow> symtab_fields \<Rightarrow> unit res" where
  "check_regions c s st =
     (let data = mc_data c; prefix = mc_prefix c; total = blen data;
          sections = section_data_ranges (ls_sections s);
          relocations = relocation_ranges (ls_sections s) in
      bind_r (check_disjoint (segment_file_ranges (ls_segments s)) total) (\<lambda>_.
      bind_r (check_disjoint sections total) (\<lambda>_.
      bind_r (check_disjoint relocations total) (\<lambda>_.
      if st_nsyms st > MAX_SYMBOLS then fail prefix ''symbol table is unreasonably large''
      else
      bind_r (require_range total (st_symoff st) (st_nsyms st * 16) (prefix @ ''.symtab'')) (\<lambda>_.
      bind_r (require_range total (st_stroff st) (st_strsize st) (prefix @ ''.strtab'')) (\<lambda>_.
      if st_strsize st = 0 \<or> byte_at data (st_stroff st) \<noteq> 0
      then fail prefix ''Mach-O string table must begin with NUL''
      else
      bind_r (check_disjoint (table_ranges s st) total) (\<lambda>_.
      check_disjoint (sections @ relocations @ table_ranges s st) total)))))))"

section \<open>Object layout\<close>

definition least_of :: "int list \<Rightarrow> int" where "least_of xs = fold min (tl xs) (hd xs)"
definition greatest_of :: "int list \<Rightarrow> int" where "greatest_of xs = fold max (tl xs) (hd xs)"

text \<open>The checks of an object whose segment is not the whole file.\<close>

definition check_partial_segment :: "string \<Rightarrow> segment_rec \<Rightarrow> section_rec list \<Rightarrow> section_rec list
    \<Rightarrow> unit res" where
  "check_partial_segment prefix g sections file_sections =
     (if least_of (map sec_offset file_sections) \<noteq> seg_fileoff g
      then fail prefix ''object segment file offset is not the first section offset''
      else if seg_fileoff g + seg_filesize g
          \<noteq> greatest_of (map (\<lambda>s. sec_offset s + sec_size s) file_sections)
      then fail prefix ''object segment file size is not derived from its sections''
      else
      bind_r (fold_r (\<lambda>s _. if sec_offset s \<noteq> seg_fileoff g + (sec_addr s - seg_vmaddr g)
                then fail (prefix @ ''.section['' @ show_int (sec_index s) @ '']'')
                       ''object section file offset is not derived from its address''
                else Inr ()) file_sections ()) (\<lambda>_.
      if seg_vmaddr g + seg_vmsize g \<noteq> greatest_of (map (\<lambda>s. sec_addr s + sec_size s) sections)
      then fail prefix ''object segment virtual size is not derived from its sections''
      else Inr ()))"

text \<open>
  The sections after \<open>__debug_line\<close> in address order: zero-fill, each at the aligned end of the one
  before.  The loop collects their indices.
\<close>

fun tail_layout :: "string \<Rightarrow> section_rec list \<Rightarrow> int \<Rightarrow> int list res" where
  "tail_layout prefix [] cursor = Inr []"
| "tail_layout prefix (s # ss) cursor =
     (let here = prefix @ ''.section['' @ show_int (sec_index s) @ '']'' in
      if \<not> is_zerofill s
      then fail here ''non-zero-fill section follows __debug_line in object address layout''
      else
      bind_r (align_up cursor (push_bit (nat (sec_align s)) 1)) (\<lambda>expected_addr.
      if sec_addr s \<noteq> expected_addr
      then fail here ''post-__debug_line section address is not precisely alignment-derived''
      else bind_r (tail_layout prefix ss (sec_addr s + sec_size s)) (\<lambda>is.
           Inr (sec_index s # is))))"

definition tail_sections :: "section_rec \<Rightarrow> section_rec list \<Rightarrow> section_rec list" where
  "tail_sections dl sections = sort_key (\<lambda>s. (sec_addr s, sec_index s))
     (filter (\<lambda>s. sec_index s \<noteq> sec_index dl \<and> sec_addr s \<ge> sec_addr dl + sec_size dl) sections)"

text \<open>The layout of an object: its \<open>__debug_line\<close> section and the layout-shifted section indices.\<close>

definition object_layout :: "macho_ctx \<Rightarrow> segment_rec list \<Rightarrow> section_rec list
    \<Rightarrow> (section_rec \<times> int list) res" where
  "object_layout c segments sections =
     (let prefix = mc_prefix c in
      case segments of
        [g] \<Rightarrow>
          (case filter is_debug_line sections of
             [dl] \<Rightarrow>
               let file_sections = filter (\<lambda>s. \<not> is_zerofill s \<and> sec_size s \<noteq> 0) sections in
               if file_sections = [] then fail prefix ''MH_OBJECT has no file-backed sections''
               else
               let n = blen (mc_data c);
                   whole = (seg_fileoff g = 0 \<and> seg_filesize g = n \<and> seg_vmaddr g = 0 \<and> seg_vmsize g = n) in
               bind_r (if whole then Inr ()
                       else check_partial_segment prefix g sections file_sections) (\<lambda>_.
               bind_r (tail_layout prefix (tail_sections dl sections) (sec_addr dl + sec_size dl)) (\<lambda>is.
               Inr (dl, is)))
           | dls \<Rightarrow> fail prefix (''expected one __DWARF,__debug_line section, found ''
                      @ show_int (blen dls)))
      | gs \<Rightarrow> fail prefix (''MH_OBJECT requires exactly one segment, found '' @ show_int (blen gs)))"

section \<open>The header and the layout checks fail closed\<close>

lemma obeys_parse_header:
  assumes "\<And>h. keeps_builder A (new_builder (mc_data c) (mc_prefix c)) (mh_builder h) \<Longrightarrow> 32 \<le> mh_load_end h \<Longrightarrow>
      mh_load_end h \<le> blen (mc_data c) \<Longrightarrow> mh_ncmds h = u32 (mc_data c) 16 \<Longrightarrow> mh_load_end h = 32 + u32 (mc_data c) 20 \<Longrightarrow> Q h"
  shows "obeys (parse_header c) Q"
proof -
  let ?b = "new_builder (mc_data c) (mc_prefix c)"
  show ?thesis
    unfolding parse_header_def Let_def
    by (intro obeys_if obeys_fail obeys_bind obeys_add_plain[of A ?b] obeys_Inr assms)
      (auto intro: keeps_builder_refl builder_inv_new)
qed

lemma obeys_check_regions:
  assumes "check_regions c s st = Inr () \<Longrightarrow> 0 \<le> st_symoff st \<Longrightarrow> st_symoff st + st_nsyms st * 16 \<le> blen (mc_data c) \<Longrightarrow>
      0 \<le> st_stroff st \<Longrightarrow> st_stroff st + st_strsize st \<le> blen (mc_data c) \<Longrightarrow> Q ()"
  shows "obeys (check_regions c s st) Q"
proof (rule obeys_mono)
  show "obeys (check_regions c s st) (\<lambda>_. 0 \<le> st_symoff st \<and> st_symoff st + st_nsyms st * 16 \<le> blen (mc_data c)
      \<and> 0 \<le> st_stroff st \<and> st_stroff st + st_strsize st \<le> blen (mc_data c))"
    unfolding check_regions_def Let_def by (intro obeys_intros) auto
qed (use assms in auto)

text \<open>What the region checks establish for an accepted file.\<close>

lemma check_regions_Inr:
  assumes "check_regions c s st = Inr ()"
  shows "check_disjoint (section_data_ranges (ls_sections s) @ relocation_ranges (ls_sections s)
      @ table_ranges s st) (blen (mc_data c)) = Inr ()"
    "check_disjoint (segment_file_ranges (ls_segments s)) (blen (mc_data c)) = Inr ()"
    "byte_at (mc_data c) (st_stroff st) = 0" "st_strsize st \<noteq> 0"
  using assms unfolding check_regions_def Let_def bind_r_eq_Inr if_fail_eq_Inr by auto

lemma obeys_check_partial: "obeys (check_partial_segment prefix g ss fs) (\<lambda>_. True)"
  unfolding check_partial_segment_def
  by (intro obeys_intros obeys_fold[where I = "\<lambda>_. True"] TrueI)

lemma obeys_tail_layout: "obeys (tail_layout prefix ss cursor) (\<lambda>is. set is \<subseteq> sec_index ` set ss)"
proof (induction ss arbitrary: cursor)
  case (Cons s ss)
  show ?case
    unfolding tail_layout.simps Let_def
    by (intro obeys_intros obeys_mono[OF Cons.IH]) auto
qed (simp add: obeys_Inr)

lemma tail_layout_zerofill:
  "tail_layout prefix ss cursor = Inr is \<Longrightarrow> is = map sec_index ss \<and> (\<forall>s \<in> set ss. is_zerofill s)"
  by (induction ss arbitrary: cursor "is") (auto simp: Let_def bind_r_eq_Inr if_fail_eq_Inr)

lemma set_tail_sections:
  "s \<in> set (tail_sections dl ss) \<longleftrightarrow> s \<in> set ss \<and> sec_index s \<noteq> sec_index dl
     \<and> sec_addr s \<ge> sec_addr dl + sec_size dl"
  by (auto simp: tail_sections_def)

lemma obeys_object_layout:
  assumes "\<And>dl is. dl \<in> set ss \<Longrightarrow> is_debug_line dl \<Longrightarrow> is = map sec_index (tail_sections dl ss) \<Longrightarrow>
      (\<forall>s \<in> set (tail_sections dl ss). is_zerofill s) \<Longrightarrow> Q (dl, is)"
  shows "obeys (object_layout c gs ss) Q"
proof -
  have dl: "dl \<in> set ss" "is_debug_line dl" if "filter is_debug_line ss = [dl]" for dl
  proof -
    have "dl \<in> set (filter is_debug_line ss)" using that by simp
    then show "dl \<in> set ss" "is_debug_line dl" by auto
  qed
  have "obeys (tail_layout (mc_prefix c) (tail_sections dl ss) cur) (\<lambda>is. obeys (Inr (dl, is)) Q)"
    if "filter is_debug_line ss = [dl]" for dl cur
  proof (rule obeys_mono[OF obeys_tail_layout], rule obeys_Inr)
    fix "is" assume "tail_layout (mc_prefix c) (tail_sections dl ss) cur = Inr is"
    then show "Q (dl, is)" using assms[OF dl[OF that]] tail_layout_zerofill by metis
  qed
  then show ?thesis
    unfolding object_layout_def Let_def
    by (auto split: list.splits intro!: obeys_if obeys_fail obeys_bind obeys_mono[OF obeys_check_partial] obeys_Inr)
qed

end
