(* ===== verification/MachO_Symbols.thy ===== *)
theory MachO_Symbols
  imports MachO_Layout
begin

text \<open>
  The symbol table, the symbol partitions, the \<open>N_OSO\<close> entry and the relocations of
  \<open>_parse_macho_bytes\<close> (\<open>tools/abi_artifact_parity.py\<close>).
\<close>

section \<open>The symbol table\<close>

record sym_state =
  ss_builder :: atom_builder
  ss_symbols :: "symbol_record list"
  ss_oso :: "(symbol_record \<times> int \<times> bytes) list"

definition base_type_of :: "int \<Rightarrow> string" where
  "base_type_of n_type =
     (if n_type AND N_STAB \<noteq> 0 then ''stab''
      else case map_of N_TYPE_NAMES (n_type AND N_TYPE) of
        Some nm \<Rightarrow> nm
      | None \<Rightarrow> ''unknown-0x'' @ show_hex (n_type AND N_TYPE))"

text \<open>The claims for one entry: layout-derived values of an object, string offsets of a library.\<close>

definition symbol_claims :: "macho_ctx \<Rightarrow> section_rec list \<Rightarrow> int list \<Rightarrow> int \<Rightarrow> int \<Rightarrow> int \<Rightarrow> int
    \<Rightarrow> int \<Rightarrow> atom_builder \<Rightarrow> atom_builder res" where
  "symbol_claims c sections shifted index entry_offset n_type n_sect n_value b =
     (let here = mc_prefix c @ ''.symbol['' @ show_int index @ '']'' in
      bind_r (if mc_filetype c = MH_OBJECT \<and> n_type AND N_STAB = 0 \<and> n_type AND N_TYPE = 0xE
                \<and> n_sect \<in> set shifted
              then let target = sections ! nat (n_sect - 1) in
                if \<not> (sec_addr target \<le> n_value \<and> n_value < sec_addr target + sec_size target)
                then fail here ''layout-derived nlist value is outside its zero-fill section''
                else bind_r (pack_u64 (n_value - sec_addr target)) (\<lambda>canonical.
                  builder_add b (entry_offset + 8) 8
                    (''symtab.symbol['' @ show_int index @ ''].layout_value'') Derived_Field
                    [static_dependency c] None (Some canonical) True)
              else Inr b) (\<lambda>b.
      if mc_filetype c = MH_DYLIB
      then add_derived b entry_offset 4 (''symtab.symbol['' @ show_int index @ ''].n_strx'')
             [''macho.symtab.n_oso.path'']
      else Inr b))"

definition symbol_step :: "macho_ctx \<Rightarrow> symtab_fields \<Rightarrow> section_rec list \<Rightarrow> int list \<Rightarrow> int
    \<Rightarrow> sym_state \<Rightarrow> sym_state res" where
  "symbol_step c st sections shifted index s =
     (let data = mc_data c; entry_offset = st_symoff st + index * 16;
          here = mc_prefix c @ ''.symbol['' @ show_int index @ '']'' in
      bind_r (struct_need data entry_offset 16) (\<lambda>_.
      let n_strx = u32 data entry_offset; n_type = u8 data (entry_offset + 4);
          n_sect = u8 data (entry_offset + 5); n_desc = u16 data (entry_offset + 6);
          n_value = u64 data (entry_offset + 8) in
      if n_strx \<ge> st_strsize st
      then fail here ''symbol string index is outside the string table''
      else
      bind_r (if n_strx \<noteq> 0
              then bind_r (cstring data (st_stroff st + n_strx) (st_stroff st + st_strsize st)
                             (here @ ''.name'')) (\<lambda>v. Inr (fst v))
              else Inr []) (\<lambda>name_bytes.
      bind_r (text_of name_bytes (here @ ''.name'')) (\<lambda>name.
      let symbol = \<lparr>sym_index = index, sym_name = name, sym_base_type = base_type_of n_type,
            sym_section = n_sect, sym_external = (n_type AND N_EXT \<noteq> 0),
            sym_private_external = (n_type AND N_PEXT \<noteq> 0), sym_stab = n_type AND N_STAB,
            sym_desc = n_desc, sym_value = n_value, sym_type_code = n_type\<rparr> in
      if n_type AND N_STAB = 0 \<and> map_of N_TYPE_NAMES (n_type AND N_TYPE) = None
      then fail here ''unknown nlist_64 base type''
      else if n_sect > blen sections
      then fail here ''nlist_64 section ordinal is out of range''
      else
      bind_r (symbol_claims c sections shifted index entry_offset n_type n_sect n_value (ss_builder s)) (\<lambda>b.
      if mc_filetype c = MH_OBJECT \<and> n_type = N_OSO
      then fail here ''archive object unexpectedly contains N_OSO''
      else
      Inr \<lparr>ss_builder = b, ss_symbols = ss_symbols s @ [symbol],
           ss_oso = (if n_type = N_OSO \<and> name_bytes \<noteq> [] then ss_oso s @ [(symbol, n_strx, name_bytes)]
                     else ss_oso s)\<rparr>)))))"

definition parse_symbols :: "macho_ctx \<Rightarrow> symtab_fields \<Rightarrow> section_rec list \<Rightarrow> int list
    \<Rightarrow> atom_builder \<Rightarrow> sym_state res" where
  "parse_symbols c st sections shifted b =
     fold_r (symbol_step c st sections shifted) [0..st_nsyms st - 1]
       \<lparr>ss_builder = b, ss_symbols = [], ss_oso = []\<rparr>"

text \<open>The dysymtab partitions: local, external defined and undefined symbols, without gaps.\<close>

definition check_partitions :: "macho_ctx \<Rightarrow> int list \<Rightarrow> int \<Rightarrow> unit res" where
  "check_partitions c dy nsyms =
     (let ilocal = dy ! 0; nlocal = dy ! 1; iextdef = dy ! 2; nextdef = dy ! 3; iundef = dy ! 4;
          nundef = dy ! 5 in
      if [ilocal, ilocal + nlocal, iextdef, iextdef + nextdef, iundef, iundef + nundef]
           \<noteq> [0, iextdef, iextdef, iundef, iundef, nsyms]
      then fail (mc_prefix c) ''dysymtab symbol partitions are not contiguous and complete''
      else Inr ())"

section \<open>The source object of a library\<close>

definition dylib_provenance :: "macho_ctx \<Rightarrow> load_state \<Rightarrow> symtab_fields \<Rightarrow> sym_state
    \<Rightarrow> (provenance_locator \<times> atom_builder) res" where
  "dylib_provenance c s st ss =
     (let prefix = mc_prefix c in
      case ss_oso ss of
        [(oso_symbol, oso_strx, oso_path)] \<Rightarrow>
          (case cache_object_match oso_path of
             None \<Rightarrow> fail prefix ''N_OSO path is not a local-cache o/<32hex>/<object>.o path''
           | Some m \<Rightarrow>
               bind_r (text_of (snd m) (prefix @ ''.n_oso.basename'')) (\<lambda>object_basename.
               let path_offset = st_stroff st + oso_strx in
               bind_r (builder_add (ss_builder ss) path_offset (blen oso_path) ''symtab.n_oso.path''
                         Allowed_Payload [] (Some ''unique real N_OSO local-cache object path'') None True) (\<lambda>b.
               bind_r (builder_add b (st_symoff st + sym_index oso_symbol * 16 + 8) 8
                         ''symtab.n_oso.mtime'' Allowed_Payload []
                         (Some ''N_OSO source-object mtime'') None True) (\<lambda>b.
               bind_r (text_of oso_path (prefix @ ''.n_oso.path'')) (\<lambda>path.
               if ls_seen s LC_UUID \<noteq> 1 \<or> ls_seen s LC_CODE_SIGNATURE \<noteq> 1 \<or> ls_seen s LC_ID_DYLIB \<noteq> 1
               then fail prefix ''dynamic library requires one UUID, code signature, and install name''
               else Inr
                 (\<lparr>pl_kind = ''dynamic_cache_object'',
                   pl_source_locator = prefix @ ''.symtab.symbol['' @ show_int (sym_index oso_symbol) @ ''].N_OSO'',
                   pl_path = path, pl_path_offset = path_offset, pl_path_size = blen oso_path,
                   pl_expected_basename = object_basename,
                   pl_expected_mtime_seconds = Some (sym_value oso_symbol)\<rparr>, b))))))
      | cs \<Rightarrow> fail prefix (''expected one real N_OSO entry, found '' @ show_int (blen cs)))"

definition check_object_commands :: "macho_ctx \<Rightarrow> load_state \<Rightarrow> unit res" where
  "check_object_commands c s =
     (if ls_signature_range s \<noteq> None \<or> ls_seen s LC_UUID \<noteq> 0 \<or> ls_seen s LC_ID_DYLIB \<noteq> 0
      then fail (mc_prefix c) ''MH_OBJECT contains dynamic-only commands''
      else Inr ())"

section \<open>Relocations of an object\<close>

definition relocation_step :: "macho_ctx \<Rightarrow> section_rec list \<Rightarrow> int list \<Rightarrow> section_rec \<Rightarrow> section_rec
    \<Rightarrow> int \<Rightarrow> atom_builder \<Rightarrow> atom_builder res" where
  "relocation_step c sections shifted debug_line section index b =
     (let data = mc_data c; offset = sec_reloff section + index * 8;
          here = mc_prefix c @ ''.relocation['' @ show_int (sec_index section) @ '','' @ show_int index @ '']'';
          name = ''relocation['' @ show_int (sec_index section) @ '','' @ show_int index @ '']'' in
      bind_r (struct_need data offset 8) (\<lambda>_.
      let address = i32 data offset; w = u32 data (offset + 4) in
      if address < 0
      then fail here ''scattered or negative Mach-O relocation is unsupported''
      else
      let symbol = w AND 0xFFFFFF; pcrel = drop_bit 24 w AND 1; len = drop_bit 25 w AND 3;
          external = drop_bit 27 w AND 1; kind = drop_bit 28 w AND 0xF in
      bind_r (if external = 0 \<and> symbol \<in> set shifted
              then
                if pcrel \<noteq> 0 \<or> len \<noteq> 3 \<or> kind \<noteq> 0
                then fail here ''unsupported relocation form targeting a layout-derived section''
                else if address > sec_size section - 8
                then fail here ''layout-derived relocation addend is outside its source section''
                else
                let target = sections ! nat (symbol - 1); addend_offset = sec_offset section + address in
                bind_r (struct_need data addend_offset 8) (\<lambda>_.
                let addend = u64 data addend_offset in
                if \<not> (sec_addr target \<le> addend \<and> addend < sec_addr target + sec_size target)
                then fail here ''local relocation addend is outside its target section''
                else
                bind_r (pack_u64 (addend - sec_addr target)) (\<lambda>canonical.
                builder_add b addend_offset 8 (name @ ''.layout_addend'') Derived_Field
                  [static_dependency c] None (Some canonical) True))
              else Inr b) (\<lambda>b.
      if sec_index section = sec_index debug_line
      then add_derived b offset 4 (name @ ''.address'') [static_dependency c]
      else Inr b)))"

definition parse_relocations :: "macho_ctx \<Rightarrow> section_rec list \<Rightarrow> int list \<Rightarrow> section_rec
    \<Rightarrow> atom_builder \<Rightarrow> atom_builder res" where
  "parse_relocations c sections shifted debug_line b =
     fold_r (\<lambda>section b. fold_r (relocation_step c sections shifted debug_line section)
               [0..sec_nreloc section - 1] b) sections b"

section \<open>The phases fail closed\<close>

text \<open>A remembered \<open>N_OSO\<close> entry: its index, and its path inside the string table.\<close>

definition oso_entry :: "macho_ctx \<Rightarrow> symtab_fields \<Rightarrow> symbol_record \<times> int \<times> bytes \<Rightarrow> bool" where
  "oso_entry c st e \<longleftrightarrow> (case e of (sy, strx, path) \<Rightarrow>
     0 \<le> sym_index sy \<and> sym_index sy < st_nsyms st \<and> 0 < strx \<and> path \<noteq> []
     \<and> strx = u32 (mc_data c) (st_symoff st + sym_index sy * 16)
     \<and> strx + blen path < st_strsize st
     \<and> path = py_slice (mc_data c) (st_stroff st + strx) (st_stroff st + strx + blen path)
     \<and> sym_value sy = u64 (mc_data c) (st_symoff st + sym_index sy * 16 + 8)
     \<and> u8 (mc_data c) (st_symoff st + sym_index sy * 16 + 4) = N_OSO)"

definition sym_inv :: "volatile set \<Rightarrow> atom_builder \<Rightarrow> macho_ctx \<Rightarrow> symtab_fields \<Rightarrow> nat \<Rightarrow> sym_state \<Rightarrow> bool" where
  "sym_inv A b0 c st k s \<longleftrightarrow> keeps_builder A b0 (ss_builder s)
     \<and> map sym_index (ss_symbols s) = map int [0..<k]
     \<and> (\<forall>e \<in> set (ss_oso s). oso_entry c st e)"

definition shifted_ok :: "section_rec list \<Rightarrow> int list \<Rightarrow> bool" where
  "shifted_ok sections shifted \<longleftrightarrow> (\<forall>i \<in> set shifted. 1 \<le> i \<and> i \<le> blen sections)"

lemma section_of_index:
  assumes "sections_wf c sections" "1 \<le> i" "i \<le> blen sections"
  shows "section_wf c i (sections ! nat (i - 1))"
proof -
  have "nat (i - 1) < length sections" "int (nat (i - 1)) + 1 = i"
    using assms(2,3) unfolding blen_def by linarith+
  then show ?thesis using assms(1) unfolding sections_wf_def by metis
qed

lemma sections_wf_member:
  assumes "sections_wf c sections" "s \<in> set sections"
  shows "section_wf c (sec_index s) s" "1 \<le> sec_index s" "sec_index s \<le> blen sections"
proof -
  obtain k where k: "k < length sections" "s = sections ! k" using assms(2) by (auto simp: in_set_conv_nth)
  then have "section_wf c (int k + 1) s" using assms(1) by (simp add: sections_wf_def)
  then show "section_wf c (sec_index s) s" "1 \<le> sec_index s" "sec_index s \<le> blen sections"
    using k(1) by (auto simp: section_wf_def blen_def)
qed

lemma obeys_symbol_claims:
  assumes "keeps_builder A b0 b" "sections_wf c sections" "shifted_ok sections shifted"
    and "0 \<le> n_value" "n_value < 2 ^ 64"
  shows "obeys (symbol_claims c sections shifted i off n_type n_sect n_value b) (keeps_builder A b0)"
proof -
  have target: "0 \<le> sec_addr (sections ! nat (n_sect - 1))" if "n_sect \<in> set shifted"
    using section_of_index[OF assms(2), of n_sect] assms(3) that
    by (simp add: shifted_ok_def section_wf_def)
  show ?thesis
    unfolding symbol_claims_def Let_def
    by (intro obeys_intros obeys_add obeys_add_derived) (use assms target in auto)
qed

lemma cstring_spells:
  assumes "cstring data start limit l = Inr (v, nx)"
  shows "start + blen v < limit \<and> v = py_slice data start (start + blen v)"
proof -
  have "start + blen v = nx - 1" "nx \<le> limit" using cstring_Inr(3,8)[OF assms] by simp_all
  then show ?thesis using cstring_Inr(5)[OF assms] by (metis add_le_imp_le_diff diff_add_cancel order.strict_trans1 zle_diff1_eq less_add_one)
qed

lemma obeys_symbol_step:
  assumes inv: "sym_inv A b0 c st k s" and secs: "sections_wf c sections" "shifted_ok sections shifted"
    and rng: "0 \<le> st_symoff st" "st_symoff st + st_nsyms st * 16 \<le> blen (mc_data c)" "0 \<le> st_stroff st"
      "st_stroff st + st_strsize st \<le> blen (mc_data c)" "int k < st_nsyms st"
  shows "obeys (symbol_step c st sections shifted (int k) s) (sym_inv A b0 c st (Suc k))"
proof -
  let ?off = "st_symoff st + int k * 16"
  have val: "0 \<le> u64 (mc_data c) (?off + 8)" "u64 (mc_data c) (?off + 8) < 2 ^ 64"
    using u_le_bound[of 8 "mc_data c" "?off + 8"] by simp_all
  have fin: "sym_inv A b0 c st (Suc k) \<lparr>ss_builder = b, ss_symbols = ss_symbols s @ [sy],
      ss_oso = (if u8 (mc_data c) (?off + 4) = N_OSO \<and> nb \<noteq> [] then ss_oso s @ [(sy, strx, nb)] else ss_oso s)\<rparr>"
    if "keeps_builder A b0 b" "sym_index sy = int k" "sym_value sy = u64 (mc_data c) (?off + 8)" "0 < strx \<or> nb = []"
      "strx = u32 (mc_data c) ?off"
      "nb \<noteq> [] \<Longrightarrow> strx + blen nb < st_strsize st \<and> nb = py_slice (mc_data c) (st_stroff st + strx) (st_stroff st + strx + blen nb)"
    for b sy strx nb
    using inv that rng(5) by (auto simp: sym_inv_def oso_entry_def)
  show ?thesis
    unfolding symbol_step_def Let_def
  proof (intro obeys_bind obeys_struct obeys_if obeys_fail obeys_cstring obeys_Inr obeys_text
      obeys_mono[OF obeys_symbol_claims[of A b0, OF _ secs val]] fin, goal_cases)
    case (9 v nx name b)
    show ?case using cstring_spells[OF 9(3)] by simp
  qed (use inv rng in \<open>auto simp: sym_inv_def\<close>)
qed

lemma obeys_parse_symbols:
  assumes "keeps_builder A b0 b" "sections_wf c sections" "shifted_ok sections shifted"
    "0 \<le> st_symoff st" "0 \<le> st_nsyms st" "st_symoff st + st_nsyms st * 16 \<le> blen (mc_data c)" "0 \<le> st_stroff st"
    "st_stroff st + st_strsize st \<le> blen (mc_data c)"
  shows "obeys (parse_symbols c st sections shifted b) (sym_inv A b0 c st (nat (st_nsyms st)))"
  unfolding parse_symbols_def
  by (rule obeys_fold_upto[where I = "sym_inv A b0 c st"])
    (use assms obeys_symbol_step[of A b0 c st] in \<open>auto simp: sym_inv_def\<close>)

lemma obeys_check_partitions: "(check_partitions c dy n = Inr () \<Longrightarrow> Q ()) \<Longrightarrow> obeys (check_partitions c dy n) Q"
  unfolding check_partitions_def Let_def by (auto intro: obeys_intros)

lemma check_partitions_Inr:
  "check_partitions c dy n = Inr () \<longleftrightarrow> dy ! 0 = 0 \<and> dy ! 1 = dy ! 2 \<and> dy ! 2 + dy ! 3 = dy ! 4
     \<and> dy ! 4 + dy ! 5 = n"
  unfolding check_partitions_def Let_def if_fail_eq_Inr by auto

lemma obeys_check_object: "(check_object_commands c s = Inr () \<Longrightarrow> Q ()) \<Longrightarrow> obeys (check_object_commands c s) Q"
  unfolding check_object_commands_def by (auto intro: obeys_intros)

text \<open>The volatile ranges a library's source object is reported with.\<close>

definition oso_volatile :: "macho_ctx \<Rightarrow> symtab_fields \<Rightarrow> symbol_record \<times> int \<times> bytes \<Rightarrow> volatile set" where
  "oso_volatile c st e =
     {Volatile (full_locator (mc_prefix c) ''symtab.n_oso.path'') (st_stroff st + fst (snd e)) (blen (snd (snd e))),
      Volatile (full_locator (mc_prefix c) ''symtab.n_oso.mtime'') (st_symoff st + sym_index (fst e) * 16 + 8) 8}"

lemma keeps_builder_mono: "keeps_builder A b c \<Longrightarrow> A \<subseteq> B \<Longrightarrow> keeps_builder B b c"
  unfolding keeps_builder_def using in_volatile_mono[of A _ _ B] by metis

lemma obeys_dylib_provenance:
  assumes ss: "sym_inv A b0 c st k ss" and pre: "b_prefix b0 = mc_prefix c"
    and Q: "\<And>e b p m. ss_oso ss = [e] \<Longrightarrow> oso_entry c st e \<Longrightarrow> cache_object_match (snd (snd e)) = Some m \<Longrightarrow>
      keeps_builder (A \<union> oso_volatile c st e) b0 b \<Longrightarrow>
      p = \<lparr>pl_kind = ''dynamic_cache_object'',
           pl_source_locator = mc_prefix c @ ''.symtab.symbol['' @ show_int (sym_index (fst e)) @ ''].N_OSO'',
           pl_path = str_of_bytes (snd (snd e)), pl_path_offset = st_stroff st + fst (snd e),
           pl_path_size = blen (snd (snd e)), pl_expected_basename = str_of_bytes (snd m),
           pl_expected_mtime_seconds = Some (sym_value (fst e))\<rparr> \<Longrightarrow>
      ls_seen s LC_UUID = 1 \<Longrightarrow> ls_seen s LC_CODE_SIGNATURE = 1 \<Longrightarrow> ls_seen s LC_ID_DYLIB = 1 \<Longrightarrow> Q (p, b)"
  shows "obeys (dylib_provenance c s st ss) Q"
proof (cases "\<exists>e m. ss_oso ss = [e] \<and> cache_object_match (snd (snd e)) = Some m")
  case True
  then obtain sy strx path m where e: "ss_oso ss = [(sy, strx, path)]" "cache_object_match path = Some m"
    by (metis prod.exhaust snd_conv)
  let ?e = "(sy, strx, path)"
  let ?B = "A \<union> oso_volatile c st ?e"
  have k: "keeps_builder ?B b0 (ss_builder ss)" and o: "oso_entry c st ?e"
    using ss e(1) by (auto simp: sym_inv_def intro: keeps_builder_mono)
  show ?thesis
    unfolding dylib_provenance_def Let_def e(1) list.case prod.case e(2) option.case
    by (intro obeys_bind obeys_text obeys_if obeys_fail obeys_add[of ?B b0] obeys_Inr k
        Q[OF e(1) o, of m]) (use pre e(2) in \<open>auto simp: oso_volatile_def text_of_Inr\<close>)
next
  case False
  then show ?thesis
    unfolding dylib_provenance_def Let_def
    by (auto split: list.splits option.splits intro!: obeys_fail)
qed

lemma obeys_relocation_step:
  assumes "keeps_builder A b0 b" "sections_wf c sections" "shifted_ok sections shifted" "section \<in> set sections"
    and "0 \<le> i" "i < sec_nreloc section"
  shows "obeys_or StructError (relocation_step c sections shifted dl section i b) (keeps_builder A b0)"
proof -
  note s = sections_wf_member[OF assms(2,4)]
  let ?d = "mc_data c"
  have rng: "0 \<le> sec_reloff section + i * 8" "sec_reloff section + i * 8 + 8 \<le> blen ?d"
    using s(1) assms(5,6) by (auto simp: section_wf_def)
  have target: "0 \<le> sec_addr (sections ! nat (k - 1))" if "k \<in> set shifted" for k
    using section_of_index[OF assms(2), of k] assms(3) that by (simp add: shifted_ok_def section_wf_def)
  have v: "u64 ?d off < 2 ^ 64" for off using u_le_bound[of 8 ?d off] by simp
  have diff: "u64 ?d off - sec_addr (sections ! nat (k - 1)) < 2 ^ 64" if "k \<in> set shifted" for k off
    using v[of off] target[OF that] by linarith
  have last: "obeys_or StructError (if sec_index section = sec_index dl
      then add_derived b' (sec_reloff section + i * 8) 4 nm deps else Inr b') (keeps_builder A b0)"
    if "keeps_builder A b0 b'" for b' nm deps
    using that by (intro obeys_or_lift obeys_if obeys_add_derived obeys_Inr)
  show ?thesis
    unfolding relocation_step_def Let_def
    by (intro obeys_or_bind obeys_or_struct obeys_or_if obeys_or_lift[OF obeys_fail]
        obeys_or_lift[OF obeys_pack] obeys_or_lift[OF obeys_add[of A b0]] obeys_or_lift[OF obeys_Inr] last)
      (use assms(1) target diff in auto)
qed

lemma obeys_parse_relocations:
  assumes "keeps_builder A b0 b" "sections_wf c sections" "shifted_ok sections shifted"
  shows "obeys_or StructError (parse_relocations c sections shifted dl b) (keeps_builder A b0)"
  unfolding parse_relocations_def
  by (intro obeys_or_fold assms) (use obeys_relocation_step assms in auto)

end
