(* ===== verification/MachO_Parse.thy ===== *)
theory MachO_Parse
  imports MachO_Symbols
begin

text \<open>
  \<open>_parse_macho_bytes\<close> of \<open>tools/abi_artifact_parity.py\<close> as a whole: the phases of the theories it
  imports in the order of the code, and the two entry points for bytes.
\<close>

text \<open>\<open>PurePosixPath(p).name\<close>.\<close>

definition posix_name :: "string \<Rightarrow> string" where
  "posix_name p = (case rev (filter (\<lambda>x. x \<noteq> [] \<and> x \<noteq> ''.'') (split_on (CHR ''/'') p)) of
     [] \<Rightarrow> [] | x # _ \<Rightarrow> x)"

text \<open>The signature of a library, and the padding before it.\<close>

definition dylib_signature :: "macho_ctx \<Rightarrow> load_state \<Rightarrow> symtab_fields \<Rightarrow> atom_builder
    \<Rightarrow> (code_directory \<times> atom_builder) res" where
  "dylib_signature c s st b =
     (let data = mc_data c; prefix = mc_prefix c in
      case ls_signature_range s of
        None \<Rightarrow> Inl AssertionError
      | Some r \<Rightarrow>
          let signature_offset = fst r in
          if signature_offset + snd r \<noteq> blen data
          then fail prefix ''code signature must be the final file region''
          else
          bind_r (parse_code_directory data signature_offset (snd r) (Some b)) (\<lambda>q.
          let d = fst q; b = the (snd q) in
          if ls_install_names s = [] \<or> cd_identifier d \<noteq> posix_name (dv_name (hd (ls_install_names s)))
          then fail prefix ''CodeDirectory identifier does not match install-name basename''
          else
          let string_end = st_stroff st + st_strsize st in
          if string_end > signature_offset
          then fail prefix ''string table overlaps code signature''
          else if string_end < signature_offset
          then if any_nonzero (py_slice data string_end signature_offset)
               then fail prefix ''nonzero padding before code signature''
               else bind_r (builder_add b string_end (blen (py_slice data string_end signature_offset))
                      ''code_signature.alignment_padding'' Derived_Padding [''macho.symtab.n_oso.path'']
                      None None True) (\<lambda>b. Inr (d, b))
          else Inr (d, b)))"

text \<open>The structured axes.\<close>

definition macho_axes :: "macho_ctx \<Rightarrow> macho_header \<Rightarrow> load_state \<Rightarrow> int list \<Rightarrow> code_directory option
    \<Rightarrow> dwarf_directory list \<Rightarrow> dwarf_file list \<Rightarrow> json" where
  "macho_axes c h s dy code_directory dirs files = JObj
     [(''format'', JStr ''Mach-O''), (''endianness'', JStr ''little''), (''bits'', JInt 64),
      (''architecture'', JStr ''arm64''), (''cpu_subtype'', JInt (mh_cpu_subtype h)),
      (''filetype'', JStr (if mc_filetype c = MH_DYLIB then ''MH_DYLIB'' else ''MH_OBJECT'')),
      (''flags'', JInt (mh_flags h)), (''load_commands'', JList (ls_load_axes s)),
      (''segments'', JList (map segment_json (ls_segments s))),
      (''build_versions'', JList (ls_build_versions s)),
      (''install_name'', JList (map (\<lambda>v. JObj (dylib_items v)) (ls_install_names s))),
      (''dependencies'', JList (map (\<lambda>v. JObj (dylib_items v)) (ls_dependencies s))),
      (''rpaths'', jstrs (ls_rpaths s)),
      (''symbol_partitions'', JObj [(''local'', jints [dy ! 0, dy ! 1]),
         (''external_defined'', jints [dy ! 2, dy ! 3]), (''undefined'', jints [dy ! 4, dy ! 5])]),
      (''code_directory'', jopt code_directory_json code_directory),
      (''dwarf_directories'', JList (map dwarf_directory_json dirs)),
      (''dwarf_files'', JList (map dwarf_file_json files))]"

text \<open>What the two kinds of file add after the symbol table.\<close>

record macho_tail =
  mt_provenance :: "provenance_locator list"
  mt_code_directory :: "code_directory option"
  mt_directories :: "dwarf_directory list"
  mt_files :: "dwarf_file list"
  mt_builder :: atom_builder

definition object_tail :: "macho_ctx \<Rightarrow> load_state \<Rightarrow> section_rec \<Rightarrow> int list \<Rightarrow> sym_state
    \<Rightarrow> macho_tail res" where
  "object_tail c s debug_line shifted ss =
     (let data = mc_data c in
      bind_r (check_object_commands c s) (\<lambda>_.
      bind_r (parse_dwarf_v4_debug_line
                (py_slice data (sec_offset debug_line) (sec_offset debug_line + sec_size debug_line))
                (sec_offset debug_line) (Some (ss_builder ss)) ''dwarf.debug_line''
                (static_dependency c)) (\<lambda>q.
      bind_r (parse_relocations c (ls_sections s) shifted debug_line (the (dw_builder (fst q)))) (\<lambda>b.
      Inr \<lparr>mt_provenance = [snd q], mt_code_directory = None, mt_directories = dw_directories (fst q),
           mt_files = dw_files (fst q), mt_builder = b\<rparr>))))"

definition dylib_tail :: "macho_ctx \<Rightarrow> load_state \<Rightarrow> symtab_fields \<Rightarrow> sym_state \<Rightarrow> macho_tail res" where
  "dylib_tail c s st ss =
     bind_r (dylib_provenance c s st ss) (\<lambda>q.
     bind_r (dylib_signature c s st (snd q)) (\<lambda>d.
     Inr \<lparr>mt_provenance = [fst q], mt_code_directory = Some (fst d), mt_directories = [],
          mt_files = [], mt_builder = snd d\<rparr>))"

text \<open>The phases after the load commands, and the artifact with the builder's atoms.\<close>

definition macho_layout :: "macho_ctx \<Rightarrow> load_state \<Rightarrow> (section_rec option \<times> int list) res" where
  "macho_layout c s =
     (if mc_filetype c = MH_OBJECT
      then bind_r (object_layout c (ls_segments s) (ls_sections s)) (\<lambda>q. Inr (Some (fst q), snd q))
      else Inr (None, []))"

definition macho_tail_of :: "macho_ctx \<Rightarrow> load_state \<Rightarrow> symtab_fields \<Rightarrow> section_rec option \<times> int list
    \<Rightarrow> sym_state \<Rightarrow> macho_tail res" where
  "macho_tail_of c s st layout ss =
     (case fst layout of
        Some debug_line \<Rightarrow> object_tail c s debug_line (snd layout) ss
      | None \<Rightarrow> dylib_tail c s st ss)"

definition finish_artifact :: "macho_ctx \<Rightarrow> string \<Rightarrow> macho_header \<Rightarrow> load_state \<Rightarrow> int list \<Rightarrow> sym_state
    \<Rightarrow> macho_tail \<Rightarrow> macho_artifact res" where
  "finish_artifact c label h s dy ss t =
     bind_r (builder_finish (mt_builder t)) (\<lambda>atoms.
     Inr \<lparr>mo_raw = mc_data c, mo_label = label, mo_filetype = mc_filetype c, mo_flags = mh_flags h,
          mo_segments = ls_segments s, mo_symbols = ss_symbols ss,
          mo_structured_axes = macho_axes c h s dy (mt_code_directory t) (mt_directories t) (mt_files t),
          mo_atoms = atoms, mo_provenance = mt_provenance t, mo_code_directory = mt_code_directory t,
          mo_dwarf_directories = mt_directories t, mo_dwarf_files = mt_files t\<rparr>)"

definition parse_body :: "macho_ctx \<Rightarrow> string \<Rightarrow> macho_header \<Rightarrow> load_state \<Rightarrow> symtab_fields \<Rightarrow> int list
    \<Rightarrow> macho_artifact res" where
  "parse_body c label h s st dy =
     bind_r (check_regions c s st) (\<lambda>_.
     bind_r (macho_layout c s) (\<lambda>layout.
     bind_r (parse_symbols c st (ls_sections s) (snd layout) (ls_builder s)) (\<lambda>ss.
     bind_r (check_partitions c dy (st_nsyms st)) (\<lambda>_.
     bind_r (macho_tail_of c s st layout ss) (finish_artifact c label h s dy ss)))))"

text \<open>\<open>_parse_macho_bytes\<close>; its callers pass \<open>MH_OBJECT\<close> or \<open>MH_DYLIB\<close> as the file type.\<close>

definition parse_macho_bytes :: "bytes \<Rightarrow> string \<Rightarrow> int \<Rightarrow> string \<Rightarrow> macho_artifact res" where
  "parse_macho_bytes data label expected_filetype prefix =
     (let c = \<lparr>mc_data = data, mc_filetype = expected_filetype, mc_prefix = prefix\<rparr> in
      bind_r (parse_header c) (\<lambda>h.
      bind_r (load_commands c (mh_load_end h) (mh_ncmds h) (mh_builder h)) (\<lambda>l.
      parse_body c label h (fst l) (fst (snd l)) (snd (snd l)))))"

text \<open>
  \<open>_read_source\<close>: the bytes of a buffer, or of a file.  The file system is a parameter: the
  size and the bytes it reports for a path, or the text of the \<open>OSError\<close> it raises.  A path is
  the text of its \<open>Path\<close> object; an empty label counts as none.
\<close>

datatype source = Buffer bytes | File string

record file_system =
  fs_size :: "string \<Rightarrow> string + int"
  fs_bytes :: "string \<Rightarrow> string + bytes"

definition MAX_ARTIFACT_BYTES :: int where "MAX_ARTIFACT_BYTES = 512 * 1024 * 1024"

definition label_or :: "string option \<Rightarrow> string \<Rightarrow> string" where
  "label_or label other = (case label of Some l \<Rightarrow> if l \<noteq> [] then l else other | None \<Rightarrow> other)"

definition plain_error :: "string \<Rightarrow> 'a res" where "plain_error msg = Inl (ParityError None msg)"

definition read_source :: "file_system \<Rightarrow> source \<Rightarrow> string option \<Rightarrow> (bytes \<times> string) res" where
  "read_source fs source label =
     bind_r (case source of
        Buffer b \<Rightarrow> Inr (b, label_or label ''<bytes>'')
      | File path \<Rightarrow>
          (case fs_size fs path of
             Inl e \<Rightarrow> plain_error (''cannot stat artifact: '' @ e)
           | Inr sz \<Rightarrow> if sz > MAX_ARTIFACT_BYTES
               then plain_error (''artifact exceeds '' @ show_int MAX_ARTIFACT_BYTES @ '' bytes'')
               else (case fs_bytes fs path of
                  Inl e \<Rightarrow> plain_error (''cannot read artifact: '' @ e)
                | Inr b \<Rightarrow> Inr (b, label_or label path)))) (\<lambda>r.
     if blen (fst r) > MAX_ARTIFACT_BYTES
     then plain_error (''artifact exceeds '' @ show_int MAX_ARTIFACT_BYTES @ '' bytes'')
     else Inr r)"

lemma obeys_plain [obeys_intros]: "obeys (plain_error m) Q"
  by (simp add: plain_error_def obeys_Inl)

lemma obeys_read_source:
  assumes "\<And>r. blen (fst r) \<le> MAX_ARTIFACT_BYTES \<Longrightarrow> (\<And>b. source = Buffer b \<Longrightarrow> fst r = b) \<Longrightarrow>
     (\<And>p. source = File p \<Longrightarrow> fs_bytes fs p = Inr (fst r)) \<Longrightarrow> Q r"
  shows "obeys (read_source fs source label) Q"
  unfolding read_source_def
  by (rule obeys_bind) (auto split: source.split sum.split intro!: obeys_plain obeys_if obeys_Inr assms)

definition parse_dynamic_artifact :: "file_system \<Rightarrow> source \<Rightarrow> string option \<Rightarrow> macho_artifact res" where
  "parse_dynamic_artifact fs source label =
     bind_r (read_source fs source label) (\<lambda>r. parse_macho_bytes (fst r) (snd r) MH_DYLIB ''macho'')"

definition parse_macho_object :: "bytes \<Rightarrow> string \<Rightarrow> string \<Rightarrow> macho_artifact res" where
  "parse_macho_object data label locator_prefix = parse_macho_bytes data label MH_OBJECT locator_prefix"

section \<open>A library's tail and an object's tail\<close>

text \<open>What the signature phase checks besides the signature itself.\<close>

definition signed_to_end :: "macho_ctx \<Rightarrow> load_state \<Rightarrow> symtab_fields \<Rightarrow> code_directory \<Rightarrow> bool" where
  "signed_to_end c s st d \<longleftrightarrow> (\<exists>off sz b b'. ls_signature_range s = Some (off, sz)
     \<and> off + sz = blen (mc_data c)
     \<and> parse_code_directory (mc_data c) off sz b = Inr (d, b')
     \<and> ls_install_names s \<noteq> [] \<and> cd_identifier d = posix_name (dv_name (hd (ls_install_names s)))
     \<and> st_stroff st + st_strsize st \<le> off
     \<and> \<not> any_nonzero (py_slice (mc_data c) (st_stroff st + st_strsize st) off))"

lemma not_any_nonzero_empty: "\<not> any_nonzero (py_slice data i i)"
  by (simp add: any_nonzero_def py_slice_def Let_def)

lemma obeys_dylib_signature:
  assumes "keeps_builder A b0 b" "ls_signature_range s = Some r"
    and "\<And>d b'. keeps_builder A b0 b' \<Longrightarrow> signed_to_end c s st d \<Longrightarrow> Q (d, b')"
  shows "obeys (dylib_signature c s st b) Q"
proof -
  have signed: "signed_to_end c s st d"
    if "parse_code_directory (mc_data c) (fst r) (snd r) (Some b) = Inr (d, Some b')"
      "fst r + snd r = blen (mc_data c)" "ls_install_names s \<noteq> []"
      "cd_identifier d = posix_name (dv_name (hd (ls_install_names s)))"
      "st_stroff st + st_strsize st \<le> fst r"
      "\<not> any_nonzero (py_slice (mc_data c) (st_stroff st + st_strsize st) (fst r))" for d b'
    unfolding signed_to_end_def
    using that assms(2) by (intro exI[of _ "fst r"] exI[of _ "snd r"] exI[of _ "Some b"] exI[of _ "Some b'"]) simp
  show ?thesis
    unfolding dylib_signature_def Let_def assms(2) option.case
    by (intro obeys_if obeys_fail obeys_bind obeys_code_directory[OF assms(1)] obeys_add[of A b0] obeys_Inr assms(3))
      (auto intro!: signed simp: not_any_nonzero_empty dest: antisym)
qed

text \<open>The volatile range of an object: the directory its provenance reports.\<close>

definition dwarf_volatile :: "macho_ctx \<Rightarrow> provenance_locator \<Rightarrow> volatile set" where
  "dwarf_volatile c p =
     {Volatile (full_locator (mc_prefix c) ''dwarf.global_cache_directory'') (pl_path_offset p) (pl_path_size p)}"

lemma dwarf_keeps:
  assumes parse: "parse_dwarf_v4_debug_line data fo (Some b) prefix dep = Inr (t, p)"
    and k: "keeps_builder A b0 b" and pre: "b_prefix b0 = mc_prefix c"
  shows "\<exists>b'. dw_builder t = Some b' \<and> keeps_builder (A \<union> dwarf_volatile c p) b0 b'"
proof -
  obtain d :: dwarf_directory and ob where d: "pl_path_offset p = dd_offset d" "pl_path_size p = dd_size d" "grows_opt A (Some b) ob"
    "with_builder ob (\<lambda>b. builder_add b (dd_offset d) (dd_size d)
       ''dwarf.global_cache_directory'' Allowed_Payload []
       (Some ''unique DWARF-v4 global-cache b/<32hex> directory'') None True) = Inr (dw_builder t)"
    by (rule parse_dwarf_Inr[OF parse, where A = A]) blast
  obtain b1 where b1: "ob = Some b1" "grows A b b1" using d(3) by auto
  have k1: "keeps_builder A b0 b1" by (rule keeps_builder_trans[OF k b1(2)])
  obtain b2 where b2: "dw_builder t = Some b2" "builder_add b1 (dd_offset d) (dd_size d)
       ''dwarf.global_cache_directory'' Allowed_Payload []
       (Some ''unique DWARF-v4 global-cache b/<32hex> directory'') None True = Inr b2"
    using d(4) unfolding b1(1) with_builder_Some by blast
  have "grows (A \<union> dwarf_volatile c p) b1 b2"
    by (rule grows_add[OF b2(2)]) (use keeps_builderD(3)[OF k1] pre d(1,2) in \<open>simp add: dwarf_volatile_def\<close>)
  then show ?thesis
    using b2(1) keeps_builder_trans[OF keeps_builder_mono[OF k1]] by blast
qed

lemma obeys_object_tail:
  assumes "keeps_builder A b0 (ss_builder ss)" "b_prefix b0 = mc_prefix c" "sections_wf c (ls_sections s)"
    "shifted_ok (ls_sections s) shifted"
    and "\<And>t p dt b. mt_provenance t = [p] \<Longrightarrow> mt_code_directory t = None \<Longrightarrow>
      parse_dwarf_v4_debug_line (py_slice (mc_data c) (sec_offset dl) (sec_offset dl + sec_size dl))
        (sec_offset dl) b ''dwarf.debug_line'' (static_dependency c) = Inr (dt, p) \<Longrightarrow>
      mt_directories t = dw_directories dt \<Longrightarrow> mt_files t = dw_files dt \<Longrightarrow>
      check_object_commands c s = Inr () \<Longrightarrow> keeps_builder (A \<union> dwarf_volatile c p) b0 (mt_builder t) \<Longrightarrow> Q t"
  shows "obeys_or StructError (object_tail c s dl shifted ss) Q"
  unfolding object_tail_def Let_def
proof (rule obeys_or_bind_left, rule obeys_check_object, rule obeys_or_bind_left)
  let ?data = "py_slice (mc_data c) (sec_offset dl) (sec_offset dl + sec_size dl)"
  let ?parse = "parse_dwarf_v4_debug_line ?data (sec_offset dl) (Some (ss_builder ss)) ''dwarf.debug_line''
      (static_dependency c)"
  assume chk: "check_object_commands c s = Inr ()"
  have k: "keeps_builder UNIV b0 (ss_builder ss)" using keeps_builder_mono[OF assms(1)] by simp
  show "obeys ?parse (\<lambda>q. obeys_or StructError
      (bind_r (parse_relocations c (ls_sections s) shifted dl (the (dw_builder (fst q)))) (\<lambda>b.
        Inr \<lparr>mt_provenance = [snd q], mt_code_directory = None, mt_directories = dw_directories (fst q),
           mt_files = dw_files (fst q), mt_builder = b\<rparr>)) Q)"
  proof (rule obeys_parse_dwarf[OF k])
    fix t p b' assume q: "?parse = Inr (t, p)" and "dw_builder t = Some b'"
    then have b': "the (dw_builder t) = b'" "keeps_builder (A \<union> dwarf_volatile c p) b0 b'"
      using dwarf_keeps[OF q assms(1,2)] by auto
    show "obeys_or StructError
      (bind_r (parse_relocations c (ls_sections s) shifted dl (the (dw_builder (fst (t, p))))) (\<lambda>b.
        Inr \<lparr>mt_provenance = [snd (t, p)], mt_code_directory = None, mt_directories = dw_directories (fst (t, p)),
           mt_files = dw_files (fst (t, p)), mt_builder = b\<rparr>)) Q"
      unfolding fst_conv b'(1)
      by (rule obeys_or_bind, rule obeys_or_mono[OF obeys_parse_relocations[OF b'(2) assms(3,4)]],
        rule obeys_or_lift, rule obeys_Inr, rule assms(5)[OF _ _ q _ _ chk]) simp_all
  qed simp
qed

end
