(* ===== verification/MachO_Correct.thy ===== *)
theory MachO_Correct
  imports MachO_Parse
begin

text \<open>
  What an accepted Mach-O file satisfies, and that the parser fails closed
  (\<open>tools/abi_artifact_parity.py\<close>, \<open>_parse_macho_bytes\<close>).
\<close>

section \<open>Volatile bytes\<close>

text \<open>Every atom with the role \<open>allowed_payload\<close> lies in one of the ranges \<open>R\<close>.\<close>

definition volatile_within :: "(int \<times> int) set \<Rightarrow> byte_atom list \<Rightarrow> bool" where
  "volatile_within R atoms \<longleftrightarrow> (\<forall>a \<in> set atoms. a_role a = Allowed_Payload \<longrightarrow>
     (\<exists>r \<in> R. fst r \<le> a_offset a \<and> a_offset a + a_size a \<le> fst r + snd r))"

lemma volatile_within_builder:
  assumes keeps: "keeps_builder A (new_builder data prefix) b" and fin: "builder_finish b = Inr atoms"
    and fn: "\<And>r q. r \<in> A \<Longrightarrow> q \<in> A \<Longrightarrow> vol_locator r = vol_locator q \<Longrightarrow> r = q"
  shows "volatile_within ((\<lambda>r. (vol_start r, vol_size r)) ` A) atoms"
  unfolding volatile_within_def
proof (intro ballI impI)
  fix a assume a: "a \<in> set atoms" "a_role a = Allowed_Payload"
  note inv = keeps_builderD(1,2)[OF keeps]
  note f = builder_finish_correct[OF inv(1) fin]
  have size: "0 < a_size a" using tiles_start[OF f(1) a(1)] by blast
  obtain v where v: "atom_of_meta a v"
    "\<And>x. a_offset a \<le> x \<Longrightarrow> x < a_offset a + a_size a \<Longrightarrow> builder_view b x v"
    using f(3)[OF a(1)] by blast
  have "m_role v = Allowed_Payload" using v(1) a(2) by (simp add: atom_of_meta_def)
  moreover have "\<not> builder_view (new_builder data prefix) x v" for x
    by (simp add: builder_view_def new_builder_def covers_def)
  ultimately have in_vol: "in_volatile A x v" if "a_offset a \<le> x" "x < a_offset a + a_size a" for x
    using keeps v(2)[OF that] unfolding keeps_builder_def by blast
  obtain r where r: "r \<in> A" "m_locator v = vol_locator r" "vol_start r \<le> a_offset a"
    using in_vol[of "a_offset a"] size unfolding in_volatile_def by auto
  obtain q where q: "q \<in> A" "m_locator v = vol_locator q" "a_offset a + a_size a - 1 < vol_start q + vol_size q"
    using in_vol[of "a_offset a + a_size a - 1"] size unfolding in_volatile_def by auto
  have "r = q" using fn[OF r(1) q(1)] r(2) q(2) by simp
  then show "\<exists>r \<in> (\<lambda>r. (vol_start r, vol_size r)) ` A. fst r \<le> a_offset a \<and> a_offset a + a_size a \<le> fst r + snd r"
    using r q(3) by (intro bexI[of _ "(vol_start r, vol_size r)"]) auto
qed

lemma full_locator_inj [simp]: "full_locator p a = full_locator p b \<longleftrightarrow> a = b"
  by (simp add: full_locator_def)

lemma count_list_one:
  assumes "count_list xs x = 1" "i < length xs" "j < length xs" "xs ! i = x" "xs ! j = x"
  shows "i = j"
proof -
  have "card {k. k < length xs \<and> x = xs ! k} = 1"
    using assms(1) by (simp add: count_list_eq_length_filter length_filter_conv_card)
  then obtain z where "{k. k < length xs \<and> x = xs ! k} = {z}" by (rule card_1_singletonE)
  moreover have "i \<in> {k. k < length xs \<and> x = xs ! k}" "j \<in> {k. k < length xs \<and> x = xs ! k}"
    using assms(2-5) by simp_all
  ultimately show ?thesis by simp
qed

section \<open>Accepted libraries\<close>

text \<open>The number of load commands and the end of their area, as the header states them.\<close>

definition cmd_count :: "bytes \<Rightarrow> nat" where "cmd_count data = nat (u32 data 16)"
definition cmd_end :: "bytes \<Rightarrow> int" where "cmd_end data = 32 + u32 data 20"

text \<open>The commands fill their area: each known, a multiple of eight bytes, back to back.\<close>

definition commands_fill :: "bytes \<Rightarrow> bool" where
  "commands_fill data \<longleftrightarrow> walk data (cmd_count data) 32 = cmd_end data \<and> cmd_end data \<le> blen data
     \<and> (\<forall>k < cmd_count data. command_ok data (walk data k 32))"

definition only_command :: "bytes \<Rightarrow> int \<Rightarrow> nat \<Rightarrow> bool" where
  "only_command data command k \<longleftrightarrow> k < cmd_count data \<and> u32 data (walk data k 32) = command
     \<and> (\<forall>j < cmd_count data. u32 data (walk data j 32) = command \<longrightarrow> j = k)"

definition partitioned :: "bytes \<Rightarrow> byte_atom list \<Rightarrow> bool" where
  "partitioned data atoms \<longleftrightarrow> tiles data 0 atoms \<and> distinct (map a_locator atoms)"

record dylib_facts =
  dy_uuid :: nat
  dy_table :: symtab_fields
  dy_entry :: int
  dy_path :: provenance_locator
  dy_cd :: code_directory

definition dylib_ok :: "bytes \<Rightarrow> macho_artifact \<Rightarrow> dylib_facts \<Rightarrow> bool" where
  "dylib_ok data art w \<longleftrightarrow> mo_raw art = data \<and> partitioned data (mo_atoms art) \<and> commands_fill data
     \<and> map sym_index (mo_symbols art) = map int [0..<length (mo_symbols art)]
     \<and> only_command data LC_UUID (dy_uuid w) \<and> mo_provenance art = [dy_path w]
     \<and> cache_object_match (bytes_of_str (pl_path (dy_path w))) \<noteq> None
     \<and> bytes_of_str (pl_path (dy_path w))
        = py_slice data (pl_path_offset (dy_path w)) (pl_path_offset (dy_path w) + pl_path_size (dy_path w))
     \<and> pl_expected_mtime_seconds (dy_path w) = Some (u64 data (dy_entry w + 8))
     \<and> u8 data (dy_entry w + 4) = N_OSO
     \<and> dy_entry w \<in> {st_symoff (dy_table w) + i * 16 | i. 0 \<le> i \<and> i < st_nsyms (dy_table w)}
     \<and> pl_path_offset (dy_path w) = st_stroff (dy_table w) + u32 data (dy_entry w)
     \<and> volatile_within {(walk data (dy_uuid w) 32 + 8, 16), (pl_path_offset (dy_path w), pl_path_size (dy_path w)),
          (dy_entry w + 8, 8)} (mo_atoms art)
     \<and> mo_code_directory art = Some (dy_cd w)
     \<and> (\<exists>b b'. parse_code_directory data (cd_offset (dy_cd w)) (cd_size (dy_cd w)) b = Inr (dy_cd w, b'))
     \<and> cd_offset (dy_cd w) + cd_size (dy_cd w) = blen data"

lemma only_command_seen:
  assumes "walked data s" "length (ls_load_axes s) = cmd_count data" "ls_seen s cmd = 1"
  shows "\<exists>k. only_command data cmd k"
proof -
  let ?xs = "commands_of data (cmd_count data)"
  have c: "count_list ?xs cmd = 1" using assms by (simp add: walked_def Let_def)
  then have "cmd \<in> set ?xs" by (metis count_notin zero_neq_one)
  then obtain k where "k < length ?xs" "?xs ! k = cmd" by (auto simp: in_set_conv_nth)
  then show ?thesis
    unfolding only_command_def using count_list_one[OF c]
    by (intro exI[of _ k]) (auto simp: commands_of_def)
qed

lemma uuid_volatile_only:
  assumes "only_command (mc_data c) LC_UUID k"
  shows "uuid_volatile c (cmd_count (mc_data c))
    = {Volatile (full_locator (mc_prefix c) ''load[LC_UUID].uuid'') (walk (mc_data c) k 32 + 8) 16}"
  using assms unfolding uuid_volatile_def only_command_def by (auto intro: arg_cong[where f = "\<lambda>k. walk (mc_data c) k 32"])

section \<open>The phases that both kinds of file share\<close>

text \<open>The state after the load commands, relative to the empty builder.\<close>

definition loaded :: "volatile set \<Rightarrow> macho_ctx \<Rightarrow> load_state \<Rightarrow> symtab_fields \<Rightarrow> bool" where
  "loaded A c s st \<longleftrightarrow> load_inv A (new_builder (mc_data c) (mc_prefix c)) c (cmd_end (mc_data c)) s
     \<and> ls_offset s = cmd_end (mc_data c) \<and> length (ls_load_axes s) = cmd_count (mc_data c)
     \<and> cmd_end (mc_data c) \<le> blen (mc_data c) \<and> ls_symtab s = Some st"

lemma loadedD:
  assumes "loaded A c s st"
  shows "keeps_builder A (new_builder (mc_data c) (mc_prefix c)) (ls_builder s)" "sections_wf c (ls_sections s)"
    "0 \<le> st_nsyms st" "walked (mc_data c) s"
  using assms by (auto simp: loaded_def load_inv_def ready_def tables_nonneg_def)

lemma loaded_commands: "loaded A c s st \<Longrightarrow> commands_fill (mc_data c)"
  by (auto simp: loaded_def commands_fill_def load_inv_def walked_def Let_def)

lemma obeys_load_phase:
  assumes "uuid_volatile c (cmd_count (mc_data c)) \<subseteq> A"
    and "\<And>h s st dy. loaded A c s st \<Longrightarrow> Q h (s, st, dy)"
  shows "obeys (parse_header c) (\<lambda>h. obeys (load_commands c (mh_load_end h) (mh_ncmds h) (mh_builder h)) (Q h))"
proof (rule obeys_parse_header[where A = A])
  fix h :: macho_header
  assume h: "keeps_builder A (new_builder (mc_data c) (mc_prefix c)) (mh_builder h)" "32 \<le> mh_load_end h"
    "mh_load_end h \<le> blen (mc_data c)" "mh_ncmds h = u32 (mc_data c) 16" "mh_load_end h = 32 + u32 (mc_data c) 20"
  have n: "nat (mh_ncmds h) = cmd_count (mc_data c)" "mh_load_end h = cmd_end (mc_data c)"
    using h(4,5) by (simp_all add: cmd_count_def cmd_end_def)
  show "obeys (load_commands c (mh_load_end h) (mh_ncmds h) (mh_builder h)) (Q h)"
    by (rule obeys_load_commands[OF h(1) _ h(2,3)])
      (use assms n h(3,4) in \<open>auto simp: new_builder_def loaded_def\<close>)
qed

lemma obeys_symbol_phase:
  assumes l: "loaded A c s st" and sh: "shifted_ok (ls_sections s) shifted"
    and rng: "0 \<le> st_symoff st" "st_symoff st + st_nsyms st * 16 \<le> blen (mc_data c)" "0 \<le> st_stroff st"
      "st_stroff st + st_strsize st \<le> blen (mc_data c)"
  shows "obeys (parse_symbols c st (ls_sections s) shifted (ls_builder s))
    (sym_inv A (new_builder (mc_data c) (mc_prefix c)) c st (nat (st_nsyms st)))"
  by (rule obeys_parse_symbols[OF loadedD(1,2)[OF l] sh rng(1) loadedD(3)[OF l] rng(2-4)])

lemma sym_indices: "sym_inv A b c st k ss \<Longrightarrow> map sym_index (ss_symbols ss) = map int [0..<length (ss_symbols ss)]"
  by (metis sym_inv_def length_map map_nth length_upt minus_nat.diff_0)

lemma finish_partitions:
  assumes "keeps_builder A (new_builder data prefix) b" "builder_finish b = Inr atoms"
  shows "partitioned data atoms"
  using builder_finish_correct(1,2)[OF keeps_builderD(1)[OF assms(1)] assms(2)] keeps_builderD(2)[OF assms(1)]
  by (simp add: partitioned_def new_builder_def)

section \<open>The library parser\<close>

lemma dylib_final:
  assumes l: "loaded (uuid_volatile c (cmd_count (mc_data c))) c s st"
    and ss: "sym_inv A b2 c st k ss" and o: "oso_entry c st e" "cache_object_match (snd (snd e)) = Some m"
    and p: "p = \<lparr>pl_kind = ''dynamic_cache_object'',
           pl_source_locator = mc_prefix c @ ''.symtab.symbol['' @ show_int (sym_index (fst e)) @ ''].N_OSO'',
           pl_path = str_of_bytes (snd (snd e)), pl_path_offset = st_stroff st + fst (snd e),
           pl_path_size = blen (snd (snd e)), pl_expected_basename = str_of_bytes (snd m),
           pl_expected_mtime_seconds = Some (sym_value (fst e))\<rparr>"
    and seen: "ls_seen s LC_UUID = 1"
    and b: "keeps_builder (uuid_volatile c (cmd_count (mc_data c)) \<union> oso_volatile c st e)
          (new_builder (mc_data c) (mc_prefix c)) (mt_builder t)"
    and d: "signed_to_end c s st d"
    and t: "mt_provenance t = [p]" "mt_code_directory t = Some d"
  shows "obeys (finish_artifact c label h s dy ss t) (\<lambda>art. \<exists>w. dylib_ok (mc_data c) art w \<and> dy_table w = st)"
  unfolding finish_artifact_def
proof (rule obeys_bind, rule obeys_finish, rule obeys_Inr)
  fix atoms assume fin: "builder_finish (mt_builder t) = Inr atoms"
  let ?d = "mc_data c"
  obtain u where u: "only_command ?d LC_UUID u"
    using only_command_seen[OF loadedD(4)[OF l] _ seen] l by (auto simp: loaded_def)
  note A = uuid_volatile_only[OF u]
  have vol: "volatile_within ((\<lambda>r. (vol_start r, vol_size r)) ` (uuid_volatile c (cmd_count ?d) \<union> oso_volatile c st e)) atoms"
    by (rule volatile_within_builder[OF b fin]) (auto simp: A oso_volatile_def)
  obtain sy strx path where e: "e = (sy, strx, path)" by (cases e)
  obtain off sz bx bx' where cd: "off + sz = blen ?d" "parse_code_directory ?d off sz bx = Inr (d, bx')"
    using d by (auto simp: signed_to_end_def)
  have cdo: "cd_offset d = off" "cd_size d = sz" using parse_code_directory_Inr(4,5)[OF cd(2)] by simp_all
  let ?art = "\<lparr>mo_raw = ?d, mo_label = label, mo_filetype = mc_filetype c, mo_flags = mh_flags h,
      mo_segments = ls_segments s, mo_symbols = ss_symbols ss,
      mo_structured_axes = macho_axes c h s dy (mt_code_directory t) (mt_directories t) (mt_files t),
      mo_atoms = atoms, mo_provenance = mt_provenance t, mo_code_directory = mt_code_directory t,
      mo_dwarf_directories = mt_directories t, mo_dwarf_files = mt_files t\<rparr>"
  have "dylib_ok ?d ?art \<lparr>dy_uuid = u, dy_table = st, dy_entry = st_symoff st + sym_index sy * 16, dy_path = p, dy_cd = d\<rparr>"
    using u vol finish_partitions[OF b fin] loaded_commands[OF l] sym_indices[OF ss] cd cdo o
    by (auto simp: dylib_ok_def p t e oso_entry_def A oso_volatile_def insert_commute)
  then show "\<exists>w. dylib_ok ?d ?art w \<and> dy_table w = st" by (intro exI conjI) (assumption, simp)
qed

lemma obeys_dylib_tail:
  assumes l: "loaded A c s st" and ss: "sym_inv A (new_builder (mc_data c) (mc_prefix c)) c st k ss"
    and A: "A = uuid_volatile c (cmd_count (mc_data c))"
  shows "obeys (dylib_tail c s st ss)
    (\<lambda>t. obeys (finish_artifact c label h s dy ss t) (\<lambda>art. \<exists>w. dylib_ok (mc_data c) art w \<and> dy_table w = st))"
  unfolding dylib_tail_def
proof (rule obeys_bind, rule obeys_dylib_provenance[OF ss], goal_cases)
  case (2 e b p m)
  obtain r where r: "ls_signature_range s = Some r" using l 2(7) by (auto simp: loaded_def load_inv_def)
  show ?case
    unfolding fst_conv snd_conv
    by (rule obeys_bind, rule obeys_dylib_signature[OF 2(4) r], rule obeys_Inr)
      (rule dylib_final[OF l[unfolded A] ss 2(2,3,5,6)], simp_all add: A)
qed (simp add: new_builder_def)

lemma obeys_dylib_body:
  assumes l: "loaded (uuid_volatile c (cmd_count (mc_data c))) c s st" and c: "mc_filetype c \<noteq> MH_OBJECT"
  shows "obeys (parse_body c label h s st dy) (\<lambda>art. \<exists>w. dylib_ok (mc_data c) art w \<and> dy_table w = st)"
  using c unfolding parse_body_def macho_layout_def macho_tail_of_def
  by (auto simp: shifted_ok_def intro!: obeys_bind obeys_check_regions obeys_check_partitions obeys_Inr
      obeys_mono[OF obeys_symbol_phase[OF l]] obeys_dylib_tail[OF l _ refl])

lemma obeys_parse_dylib:
  "obeys (parse_macho_bytes data label MH_DYLIB prefix) (\<lambda>art. \<exists>w. dylib_ok data art w)"
proof -
  define c where "c = \<lparr>mc_data = data, mc_filetype = MH_DYLIB, mc_prefix = prefix\<rparr>"
  have c: "mc_data c = data" "mc_filetype c \<noteq> MH_OBJECT" by (simp_all add: c_def mh_constants)
  have body: "obeys (parse_body c label h s st dy) (\<lambda>art. \<exists>w. dylib_ok (mc_data c) art w)"
    if "loaded (uuid_volatile c (cmd_count (mc_data c))) c s st" for h s st dy
    using obeys_dylib_body[OF that c(2)] by (rule obeys_mono) blast
  have "parse_macho_bytes data label MH_DYLIB prefix = bind_r (parse_header c) (\<lambda>h.
      bind_r (load_commands c (mh_load_end h) (mh_ncmds h) (mh_builder h)) (\<lambda>l.
      parse_body c label h (fst l) (fst (snd l)) (snd (snd l))))"
    by (simp add: parse_macho_bytes_def c_def Let_def)
  moreover have "obeys (parse_header c) (\<lambda>h. obeys (load_commands c (mh_load_end h) (mh_ncmds h) (mh_builder h))
      (\<lambda>l. obeys (parse_body c label h (fst l) (fst (snd l)) (snd (snd l))) (\<lambda>art. \<exists>w. dylib_ok (mc_data c) art w)))"
    by (rule obeys_load_phase[OF order_refl]) (simp add: body)
  ultimately show ?thesis
    by (simp add: c(1)) (rule obeys_bind, erule obeys_mono, rule obeys_bind, assumption)
qed

section \<open>The object parser\<close>

definition object_ok :: "bytes \<Rightarrow> macho_artifact \<Rightarrow> provenance_locator \<Rightarrow> bool" where
  "object_ok data art p \<longleftrightarrow> mo_raw art = data \<and> partitioned data (mo_atoms art) \<and> commands_fill data
     \<and> map sym_index (mo_symbols art) = map int [0..<length (mo_symbols art)]
     \<and> mo_provenance art = [p] \<and> mo_code_directory art = None
     \<and> volatile_within {(pl_path_offset p, pl_path_size p)} (mo_atoms art)
     \<and> 0 \<le> pl_path_offset p \<and> 0 \<le> pl_path_size p \<and> pl_path_offset p + pl_path_size p \<le> blen data
     \<and> (\<exists>dir. pl_path p = dir @ ''/builtin.zig'' \<and> global_cache_dir_match (bytes_of_str dir) \<noteq> None
          \<and> bytes_of_str dir = py_slice data (pl_path_offset p) (pl_path_offset p + pl_path_size p))"

lemma no_command_seen:
  assumes "walked (mc_data c) s" "length (ls_load_axes s) = cmd_count (mc_data c)" "ls_seen s LC_UUID = 0"
  shows "uuid_volatile c (cmd_count (mc_data c)) = {}"
  using assms by (auto simp: walked_def Let_def uuid_volatile_def commands_of_def count_list_0_iff image_iff) (metis atLeastLessThan_iff le0)+

lemma slice_slice:
  assumes "0 \<le> i" "0 \<le> a" "a \<le> b" "b \<le> blen (py_slice data i j)"
  shows "py_slice (py_slice data i j) a b = py_slice data (i + a) (i + b)"
proof -
  define n where "n = blen data"
  define i' where "i' = py_bound n i"
  define j' where "j' = py_bound n j"
  have s: "py_slice data i j = take (nat (j' - i')) (drop (nat i') data)"
    by (simp add: py_slice_def Let_def i'_def j'_def n_def)
  show ?thesis
  proof (cases "i \<le> n")
    case True
    have i': "i' = i" using True assms(1) by (simp add: i'_def py_bound_def)
    have len: "blen (py_slice data i j) = min (int (nat (j' - i))) (n - i)"
      unfolding s i' using True assms(1) by (simp add: blen_def n_def min_def) linarith
    have b: "b \<le> j' - i \<or> b = 0" "i + b \<le> n" using assms len by (auto simp: min_def split: if_splits)
    have "py_slice (py_slice data i j) a b = take (nat (b - a)) (drop (nat a) (take (nat (j' - i)) (drop (nat i) data)))"
      using assms(2-4) by (simp add: py_slice_in_range s i')
    also have "\<dots> = take (nat (b - a)) (drop (nat (i + a)) data)"
      using assms b by (cases "b = 0") (auto simp: drop_take min.absorb1 nat_add_distrib add.commute)
    finally show ?thesis using assms b by (simp add: py_slice_in_range n_def)
  next
    case False
    then have "py_slice data i j = []" unfolding s i'_def py_bound_def using assms(1) by (simp add: n_def blen_def)
    then have "a = 0" "b = 0" using assms by simp_all
    then show ?thesis using False by (simp add: py_slice_def Let_def)
  qed
qed

lemma slice_extent:
  assumes "0 \<le> i" "a \<le> blen (py_slice data i j)" "0 < a"
  shows "i + a \<le> blen data"
  using assms by (auto simp: py_slice_def Let_def py_bound_def blen_def split: if_splits)

lemma object_final:
  assumes l: "loaded (uuid_volatile c (cmd_count (mc_data c))) c s st"
    and ss: "sym_inv A b2 c st k ss" and dl: "0 \<le> sec_offset dl"
    and q: "parse_dwarf_v4_debug_line (py_slice (mc_data c) (sec_offset dl) (sec_offset dl + sec_size dl))
        (sec_offset dl) bx ''dwarf.debug_line'' (static_dependency c) = Inr (dt, p)"
    and chk: "check_object_commands c s = Inr ()"
    and b: "keeps_builder (uuid_volatile c (cmd_count (mc_data c)) \<union> dwarf_volatile c p)
          (new_builder (mc_data c) (mc_prefix c)) (mt_builder t)"
    and t: "mt_provenance t = [p]" "mt_code_directory t = None"
  shows "obeys (finish_artifact c label h s dy ss t) (\<lambda>art. \<exists>p. object_ok (mc_data c) art p)"
  unfolding finish_artifact_def
proof (rule obeys_bind, rule obeys_finish, rule obeys_Inr)
  fix atoms assume fin: "builder_finish (mt_builder t) = Inr atoms"
  let ?d = "mc_data c" and ?sec = "py_slice (mc_data c) (sec_offset dl) (sec_offset dl + sec_size dl)"
  have "ls_seen s LC_UUID = 0" using chk by (simp add: check_object_commands_def split: if_splits)
  then have A: "uuid_volatile c (cmd_count ?d) = {}"
    using no_command_seen[OF loadedD(4)[OF l]] l by (simp add: loaded_def)
  have vol: "volatile_within ((\<lambda>r. (vol_start r, vol_size r)) ` (uuid_volatile c (cmd_count ?d) \<union> dwarf_volatile c p)) atoms"
    by (rule volatile_within_builder[OF b fin]) (auto simp: A dwarf_volatile_def)
  obtain d :: dwarf_directory where d: "tables_wf ?sec (sec_offset dl) dt"
    "dwarf_eligible (dw_directories dt) = [d]" "pl_path p = dd_path d @ ''/builtin.zig''"
    "pl_path_offset p = dd_offset d" "pl_path_size p = dd_size d"
    by (rule parse_dwarf_Inr[OF q, where A = "{}"]) blast
  have "d \<in> set (dwarf_eligible (dw_directories dt))" by (simp add: d(2))
  then have e: "d \<in> set (dw_directories dt)" "global_cache_dir_match (bytes_of_str (dd_path d)) \<noteq> None"
    by (auto simp: dwarf_eligible_def)
  then have loc: "dir_located ?sec (sec_offset dl) d" using d(1) by (simp add: tables_wf_def)
  then have "bytes_of_str (dd_path d) = py_slice ?d (dd_offset d) (dd_offset d + dd_size d)"
    using slice_slice[OF dl, of "dd_offset d - sec_offset dl" "dd_offset d - sec_offset dl + dd_size d" ?d]
    by (auto simp: dir_located_def)
  moreover have "0 \<le> dd_offset d" "0 \<le> dd_size d" "dd_offset d + dd_size d \<le> blen ?d"
    using loc dl slice_extent[OF dl, of "dd_offset d - sec_offset dl + dd_size d" ?d "sec_offset dl + sec_size dl"]
    by (auto simp: dir_located_def)
  ultimately show "\<exists>p'. object_ok ?d \<lparr>mo_raw = ?d, mo_label = label, mo_filetype = mc_filetype c, mo_flags = mh_flags h,
      mo_segments = ls_segments s, mo_symbols = ss_symbols ss,
      mo_structured_axes = macho_axes c h s dy (mt_code_directory t) (mt_directories t) (mt_files t),
      mo_atoms = atoms, mo_provenance = mt_provenance t, mo_code_directory = mt_code_directory t,
      mo_dwarf_directories = mt_directories t, mo_dwarf_files = mt_files t\<rparr> p'"
    using vol finish_partitions[OF b fin] loaded_commands[OF l] sym_indices[OF ss] d(3-5) e(2)
    by (intro exI[of _ p]) (auto simp: object_ok_def t A dwarf_volatile_def)
qed

lemma obeys_object_body:
  assumes l: "loaded (uuid_volatile c (cmd_count (mc_data c))) c s st" and obj: "mc_filetype c = MH_OBJECT"
  shows "obeys_or StructError (parse_body c label h s st dy) (\<lambda>art. \<exists>p. object_ok (mc_data c) art p)"
  unfolding parse_body_def macho_layout_def
proof (rule obeys_or_bind_left, rule obeys_check_regions, rule obeys_or_bind_left)
  assume rng: "0 \<le> st_symoff st" "st_symoff st + st_nsyms st * 16 \<le> blen (mc_data c)" "0 \<le> st_stroff st"
      "st_stroff st + st_strsize st \<le> blen (mc_data c)"
  note wf = loadedD(2)[OF l]
  have rest: "obeys_or StructError (bind_r (parse_symbols c st (ls_sections s) (snd lay) (ls_builder s)) (\<lambda>ss.
      bind_r (check_partitions c dy (st_nsyms st)) (\<lambda>_.
      bind_r (macho_tail_of c s st lay ss) (finish_artifact c label h s dy ss)))) (\<lambda>art. \<exists>p. object_ok (mc_data c) art p)"
    if lay: "lay = (Some dl, map sec_index (tail_sections dl (ls_sections s)))" and dl: "dl \<in> set (ls_sections s)" for lay dl
  proof -
    have sh: "shifted_ok (ls_sections s) (snd lay)"
      using sections_wf_member(2,3)[OF wf] by (auto simp: lay shifted_ok_def set_tail_sections)
    have off: "0 \<le> sec_offset dl" using sections_wf_member(1)[OF wf dl] by (simp add: section_wf_def)
    show ?thesis
    proof (rule obeys_or_bind_left, rule obeys_mono[OF obeys_symbol_phase[OF l sh rng]], rule obeys_or_bind_left,
        rule obeys_check_partitions, rule obeys_or_bind)
      fix ss assume ss: "sym_inv (uuid_volatile c (cmd_count (mc_data c))) (new_builder (mc_data c) (mc_prefix c)) c st (nat (st_nsyms st)) ss"
      show "obeys_or StructError (macho_tail_of c s st lay ss)
          (\<lambda>t. obeys_or StructError (finish_artifact c label h s dy ss t) (\<lambda>art. \<exists>p. object_ok (mc_data c) art p))"
        unfolding macho_tail_of_def lay fst_conv snd_conv option.case
        by (rule obeys_object_tail[of "uuid_volatile c (cmd_count (mc_data c))" "new_builder (mc_data c) (mc_prefix c)"])
          (use ss wf sh in \<open>auto simp: sym_inv_def new_builder_def lay intro!: obeys_or_lift[OF object_final[OF l ss off]]\<close>)
    qed
  qed
  show "obeys (if mc_filetype c = MH_OBJECT
      then bind_r (object_layout c (ls_segments s) (ls_sections s)) (\<lambda>q. Inr (Some (fst q), snd q))
      else Inr (None, [])) (\<lambda>lay. obeys_or StructError (bind_r (parse_symbols c st (ls_sections s) (snd lay) (ls_builder s)) (\<lambda>ss.
      bind_r (check_partitions c dy (st_nsyms st)) (\<lambda>_.
      bind_r (macho_tail_of c s st lay ss) (finish_artifact c label h s dy ss)))) (\<lambda>art. \<exists>p. object_ok (mc_data c) art p))"
    unfolding if_P[OF obj]
    by (rule obeys_bind, rule obeys_object_layout, rule obeys_Inr, rule rest) auto
qed

lemma obeys_parse_object:
  "obeys_or StructError (parse_macho_bytes data label MH_OBJECT prefix) (\<lambda>art. \<exists>p. object_ok data art p)"
proof -
  define c where "c = \<lparr>mc_data = data, mc_filetype = MH_OBJECT, mc_prefix = prefix\<rparr>"
  have c: "mc_data c = data" "mc_filetype c = MH_OBJECT" by (simp_all add: c_def)
  have "parse_macho_bytes data label MH_OBJECT prefix = bind_r (parse_header c) (\<lambda>h.
      bind_r (load_commands c (mh_load_end h) (mh_ncmds h) (mh_builder h)) (\<lambda>l.
      parse_body c label h (fst l) (fst (snd l)) (snd (snd l))))"
    by (simp add: parse_macho_bytes_def c_def Let_def)
  moreover have "obeys (parse_header c) (\<lambda>h. obeys (load_commands c (mh_load_end h) (mh_ncmds h) (mh_builder h))
      (\<lambda>l. obeys_or StructError (parse_body c label h (fst l) (fst (snd l)) (snd (snd l)))
        (\<lambda>art. \<exists>p. object_ok (mc_data c) art p)))"
    by (rule obeys_load_phase[OF order_refl]) (simp add: obeys_object_body c(2))
  ultimately show ?thesis
    by (simp add: c(1)) (rule obeys_or_bind_left, erule obeys_mono, rule obeys_or_bind_left, assumption)
qed

section \<open>What the parsers promise\<close>

text \<open>The bytes a source holds, as far as the file system tells.\<close>

definition source_bytes :: "file_system \<Rightarrow> source \<Rightarrow> bytes \<Rightarrow> bool" where
  "source_bytes fs source data \<longleftrightarrow> (case source of Buffer b \<Rightarrow> data = b | File p \<Rightarrow> fs_bytes fs p = Inr data)"

lemma obeys_parse_dynamic:
  "obeys (parse_dynamic_artifact fs source label)
     (\<lambda>art. source_bytes fs source (mo_raw art) \<and> (\<exists>w. dylib_ok (mo_raw art) art w))"
  unfolding parse_dynamic_artifact_def
  by (rule obeys_bind, rule obeys_read_source, rule obeys_mono[OF obeys_parse_dylib])
    (auto simp: source_bytes_def dylib_ok_def split: source.split)

lemma obeys_cases: "obeys m Q \<Longrightarrow> (case m of Inl e \<Rightarrow> is_parity e | Inr x \<Rightarrow> Q x)"
  by (cases m) (auto simp: obeys_def)

lemma obeys_or_cases: "obeys_or e0 m Q \<Longrightarrow> (case m of Inl e \<Rightarrow> is_parity e \<or> e = e0 | Inr x \<Rightarrow> Q x)"
  by (cases m) (auto simp: obeys_or_def)

text \<open>C7. Parsing a dynamic library fails closed: whatever the bytes (or the file system) are, the
parser returns an artifact over exactly those bytes or raises \<open>ParityError\<close>; no out-of-range
read, decoding error, assertion or \<open>struct.error\<close> escapes.\<close>

theorem dylib_fails_closed:
  "case parse_dynamic_artifact fs source label of
     Inl e \<Rightarrow> is_parity e
   | Inr art \<Rightarrow> source_bytes fs source (mo_raw art)"
  by (rule obeys_cases, rule obeys_mono[OF obeys_parse_dynamic]) simp

text \<open>An accepted dynamic library carries a verified signature: its CodeDirectory is the one
that the code-signature parser accepts at the recorded range, and that range ends the file.\<close>

theorem dylib_signed_to_end:
  "case parse_macho_bytes data label MH_DYLIB prefix of
     Inl e \<Rightarrow> is_parity e
   | Inr art \<Rightarrow> \<exists>d b b'. mo_code_directory art = Some d
       \<and> parse_code_directory data (cd_offset d) (cd_size d) b = Inr (d, b')
       \<and> cd_offset d + cd_size d = blen data"
  by (rule obeys_cases, rule obeys_mono[OF obeys_parse_dylib]) (auto simp: dylib_ok_def)

text \<open>The load commands of an accepted file, library or object, are all known, a multiple of
eight bytes long, and fill the area the header states back to back; the recorded symbols are numbered
in order.\<close>

theorem load_commands_walk:
  "case parse_macho_bytes data label (if library then MH_DYLIB else MH_OBJECT) prefix of
     Inl e \<Rightarrow> is_parity e \<or> e = StructError
   | Inr art \<Rightarrow> commands_fill data
       \<and> map sym_index (mo_symbols art) = map int [0..<length (mo_symbols art)]"
proof (cases library)
  case True
  have "obeys_or StructError (parse_macho_bytes data label MH_DYLIB prefix) (\<lambda>art. commands_fill data
      \<and> map sym_index (mo_symbols art) = map int [0..<length (mo_symbols art)])"
    by (rule obeys_or_lift, rule obeys_mono[OF obeys_parse_dylib]) (auto simp: dylib_ok_def)
  then show ?thesis using True by (simp add: obeys_or_cases)
next
  case False
  have "obeys_or StructError (parse_macho_bytes data label MH_OBJECT prefix) (\<lambda>art. commands_fill data
      \<and> map sym_index (mo_symbols art) = map int [0..<length (mo_symbols art)])"
    by (rule obeys_or_mono[OF obeys_parse_object]) (auto simp: object_ok_def)
  then show ?thesis using False by (simp add: obeys_or_cases)
qed

text \<open>An accepted archive object: its atoms partition its bytes, it has no code directory, and
the only bytes allowed to differ between builds are those of its single global-cache directory path,
which is the provenance it reports.  Apart from \<open>ParityError\<close> only \<open>struct.error\<close> can be raised.\<close>

theorem object_volatile_bytes:
  "case parse_macho_object data label prefix of
     Inl e \<Rightarrow> is_parity e \<or> e = StructError
   | Inr art \<Rightarrow> partitioned data (mo_atoms art) \<and> mo_code_directory art = None
       \<and> (\<exists>p dir. mo_provenance art = [p] \<and> pl_path p = dir @ ''/builtin.zig''
            \<and> global_cache_dir_match (bytes_of_str dir) \<noteq> None
            \<and> bytes_of_str dir = py_slice data (pl_path_offset p) (pl_path_offset p + pl_path_size p)
            \<and> volatile_within {(pl_path_offset p, pl_path_size p)} (mo_atoms art))"
  unfolding parse_macho_object_def
  by (rule obeys_or_cases, rule obeys_or_mono[OF obeys_parse_object]) (auto simp: object_ok_def)

end
