(* ===== verification/Archive.thy ===== *)
theory Archive
  imports MachO_Correct
begin

text \<open>
  Darwin \<open>ar\<close> archives and their \<open>__.SYMDEF\<close> index (\<open>tools/abi_artifact_parity.py\<close>:
  \<open>_parse_ascii_int\<close>, \<open>parse_ranlib\<close>, \<open>parse_static_archive\<close> and their records).  The member
  scan collects a \<open>raw_member\<close> per header while claiming its bytes; the second pass parses every
  object member and replaces its opaque range by the rebased atoms of the object.
\<close>

section \<open>Numeric fields\<close>

definition base_digit :: "int \<Rightarrow> byte \<Rightarrow> bool" where
  "base_digit base b \<longleftrightarrow> (if base = 10 then 48 \<le> b \<and> b \<le> 57 else 48 \<le> b \<and> b \<le> 55)"

definition digits_value :: "int \<Rightarrow> bytes \<Rightarrow> int" where
  "digits_value base ds = foldl (\<lambda>n d. n * base + (uint d - 48)) 0 ds"

text \<open>
  \<open>int(stripped, base)\<close> raises \<open>ValueError\<close> on more than 4300 decimal digits (the interpreter's
  default limit; there is none for base 8), which the code turns into \<open>ParityError\<close>.
\<close>

definition parse_ascii_int :: "bytes \<Rightarrow> int \<Rightarrow> string \<Rightarrow> int res" where
  "parse_ascii_int v base locator =
     (let stripped = rstrip_byte 0x20 v in
      if stripped = [] \<or> list_ex (\<lambda>b. \<not> base_digit base b) stripped
      then fail locator ''invalid archive numeric field''
      else if base = 10 \<and> length stripped > 4300 then fail locator ''invalid archive numeric field''
      else Inr (digits_value base stripped))"

lemma digits_value_nonneg:
  assumes "list_all (\<lambda>d. 48 \<le> uint d) ds" "0 \<le> base"
  shows "0 \<le> digits_value base ds"
proof -
  have "0 \<le> foldl (\<lambda>n d. n * base + (uint d - 48)) n ds" if "0 \<le> n" for n
    using assms that by (induction ds arbitrary: n) simp_all
  then show ?thesis by (simp add: digits_value_def)
qed

lemma base_digit_uint: "base_digit base b \<Longrightarrow> 48 \<le> uint b"
  by (simp add: base_digit_def word_le_def split: if_splits)

lemma parse_ascii_int_nonneg:
  assumes "parse_ascii_int v base l = Inr n" "0 \<le> base"
  shows "0 \<le> n"
proof -
  let ?s = "rstrip_byte 0x20 v"
  have "n = digits_value base ?s" "\<not> list_ex (\<lambda>b. \<not> base_digit base b) ?s"
    using assms(1) by (auto simp: parse_ascii_int_def Let_def res_simps)
  moreover from this(2) have "list_all (\<lambda>d. 48 \<le> uint d) ?s"
    by (auto simp: list_ex_iff list_all_iff base_digit_uint)
  ultimately show ?thesis using digits_value_nonneg assms(2) by simp
qed

section \<open>The ranlib index\<close>

record ranlib_entry =
  rl_index :: int
  rl_symbol :: string
  rl_string_offset :: int
  rl_member_offset :: int

definition ranlib_entry_json :: "ranlib_entry \<Rightarrow> json" where
  "ranlib_entry_json e = JObj [(''index'', JInt (rl_index e)), (''symbol'', JStr (rl_symbol e)),
     (''string_offset'', JInt (rl_string_offset e)), (''member_offset'', JInt (rl_member_offset e))]"

text \<open>The loop that records the start of every string of the string table.\<close>

function ranlib_boundaries :: "bytes \<Rightarrow> int \<Rightarrow> (int \<times> bytes) list res" where
  "ranlib_boundaries strings cursor =
     (if cursor < blen strings
      then bind_r (cstring strings cursor (blen strings) ''archive.ranlib.strings'') (\<lambda>c.
        if fst c = []
        then (if any_nonzero (py_slice strings cursor (blen strings))
              then fail ''archive.ranlib'' ''nonzero bytes after ranlib string terminator''
              else Inr [])
        else bind_r (ranlib_boundaries strings (snd c)) (\<lambda>r. Inr ((cursor, fst c) # r)))
      else Inr [])"
  by pat_completeness auto

termination
proof (relation "measure (\<lambda>(s, cursor). nat (blen s - cursor))", goal_cases)
  case (2 strings cursor c)
  then have "cstring strings cursor (blen strings) ''archive.ranlib.strings'' = Inr (fst c, snd c)"
    by simp
  from cstring_Inr(2,3)[OF this] 2(1) show ?case by simp
qed simp

declare ranlib_boundaries.simps [simp del]

definition ranlib_locator :: "int \<Rightarrow> string" where
  "ranlib_locator index = ''archive.ranlib['' @ show_int index @ '']''"

definition ranlib_step :: "bytes \<Rightarrow> (int \<times> bytes) list \<Rightarrow> int list \<Rightarrow> int \<Rightarrow> ranlib_entry res" where
  "ranlib_step data boundaries member_offsets index =
     bind_r (struct_need data (4 + index * 8) 8) (\<lambda>_.
     let string_offset = u32 data (4 + index * 8); member_offset = u32 data (4 + index * 8 + 4) in
     case map_of boundaries string_offset of
       None \<Rightarrow> fail (ranlib_locator index) ''ranlib string offset is not at a string boundary''
     | Some name \<Rightarrow>
       if member_offset \<notin> set member_offsets
       then fail (ranlib_locator index) ''ranlib member offset does not name an archive header''
       else bind_r (text_of name (ranlib_locator index @ ''.symbol'')) (\<lambda>symbol.
         Inr \<lparr>rl_index = index, rl_symbol = symbol, rl_string_offset = string_offset,
              rl_member_offset = member_offset\<rparr>))"

text \<open>\<open>member_offsets\<close> holds the keys of the mapping; the code only tests membership.\<close>

definition parse_ranlib :: "bytes \<Rightarrow> int list \<Rightarrow> ranlib_entry list res" where
  "parse_ranlib data member_offsets =
     (let locator = ''archive.ranlib'' in
      if blen data < 8 then fail locator ''ranlib body is truncated''
      else bind_r (struct_need data 0 4) (\<lambda>_.
      let table_size = u32 data 0 in
      if table_size mod 8 \<noteq> 0 \<or> table_size > blen data - 8
      then fail locator ''invalid ranlib table byte count''
      else bind_r (struct_need data (4 + table_size) 4) (\<lambda>_.
      let strings_size = u32 data (4 + table_size); strings_offset = 4 + table_size + 4 in
      if strings_offset + strings_size \<noteq> blen data
      then fail locator ''ranlib string table does not exactly fill member''
      else bind_r (ranlib_boundaries (py_slice data strings_offset (blen data)) 0) (\<lambda>boundaries.
        map_r (ranlib_step data boundaries member_offsets) [0..table_size div 8 - 1]))))"

section \<open>Members\<close>

record archive_member =
  am_index :: int
  am_name :: string
  am_header_offset :: int
  am_data_offset :: int
  am_stored_size :: int
  am_object :: "macho_artifact option"

definition archive_member_json :: "archive_member \<Rightarrow> json" where
  "archive_member_json m = JObj [(''index'', JInt (am_index m)), (''name'', JStr (am_name m)),
     (''header_offset'', JInt (am_header_offset m)), (''data_offset'', JInt (am_data_offset m)),
     (''stored_size'', JInt (am_stored_size m)),
     (''object_sha256'', jopt (\<lambda>ob. JStr (sha256_bytes (mo_raw ob))) (am_object m))]"

record archive_artifact =
  ar_raw :: bytes
  ar_label :: string
  ar_members :: "archive_member list"
  ar_ranlib :: "ranlib_entry list"
  ar_structured_axes :: json
  ar_symbols :: "symbol_record list"
  ar_atoms :: "byte_atom list"
  ar_provenance :: "provenance_locator list"

record raw_member =
  rm_index :: int
  rm_name :: string
  rm_header_offset :: int
  rm_payload_offset :: int
  rm_name_length :: int
  rm_body_offset :: int
  rm_body_size :: int
  rm_stored_size :: int
  rm_date :: int
  rm_uid :: int
  rm_gid :: int
  rm_mode :: int

definition AR_MAGIC :: bytes where "AR_MAGIC = [0x21, 0x3C, 0x61, 0x72, 0x63, 0x68, 0x3E, 0x0A]"
definition AR_HEADER_SIZE :: int where "AR_HEADER_SIZE = 60"
definition MAX_ARCHIVE_MEMBERS :: int where "MAX_ARCHIVE_MEMBERS = 65536"

definition member_locator :: "int \<Rightarrow> string" where
  "member_locator index = ''archive.member['' @ show_int index @ '']''"

definition static_cache_dependency :: "string list" where
  "static_cache_dependency = [''dwarf.global_cache_directory'']"

text \<open>The header, the name and the body of the member at \<open>offset\<close>.\<close>

definition parse_member :: "bytes \<Rightarrow> int \<Rightarrow> int \<Rightarrow> raw_member res" where
  "parse_member data index offset =
     bind_r (require_range (blen data) offset AR_HEADER_SIZE ''archive.member.header'') (\<lambda>_.
     let header = py_slice data offset (offset + AR_HEADER_SIZE) in
     if py_slice header 58 60 \<noteq> [0x60, 0x0A]
     then fail (member_locator index) ''invalid archive member trailer''
     else
     bind_r (parse_ascii_int (py_slice header 16 28) 10 ''archive.member.date'') (\<lambda>date.
     bind_r (parse_ascii_int (py_slice header 28 34) 10 ''archive.member.uid'') (\<lambda>uid.
     bind_r (parse_ascii_int (py_slice header 34 40) 10 ''archive.member.gid'') (\<lambda>gid.
     bind_r (parse_ascii_int (py_slice header 40 48) 8 ''archive.member.mode'') (\<lambda>mode.
     bind_r (parse_ascii_int (py_slice header 48 58) 10 ''archive.member.size'') (\<lambda>stored_size.
     let payload_offset = offset + AR_HEADER_SIZE in
     bind_r (require_range (blen data) payload_offset stored_size ''archive.member.payload'') (\<lambda>_.
     let extended = rstrip_byte 0x20 (py_slice header 0 16) in
     if \<not> starts_with extended [0x23, 0x31, 0x2F]
     then fail (member_locator index) ''only Darwin #1/<length> member names are supported''
     else
     bind_r (parse_ascii_int (py_slice extended 3 (blen extended)) 10 ''archive.member.extended_name_length'')
       (\<lambda>name_length.
     if name_length = 0 \<or> name_length > stored_size
     then fail (member_locator index) ''invalid extended archive name length''
     else
     let name_storage = py_slice data payload_offset (payload_offset + name_length);
         logical = rstrip_byte 0 name_storage in
     if logical = [] \<or> any_nonzero (py_slice name_storage (blen logical) (blen name_storage))
     then fail (member_locator index) ''invalid Darwin extended member name padding''
     else
     bind_r (text_of logical (member_locator index @ ''.name'')) (\<lambda>name.
     Inr \<lparr>rm_index = index, rm_name = name, rm_header_offset = offset, rm_payload_offset = payload_offset,
          rm_name_length = name_length, rm_body_offset = payload_offset + name_length,
          rm_body_size = stored_size - name_length, rm_stored_size = stored_size, rm_date = date,
          rm_uid = uid, rm_gid = gid, rm_mode = mode\<rparr>)))))))))"

definition member_claims :: "raw_member \<Rightarrow> atom_builder \<Rightarrow> atom_builder res" where
  "member_claims m b =
     (let at = ''member['' @ show_int (rm_index m) @ '']'' in
      bind_r (add_plain b (rm_header_offset m) AR_HEADER_SIZE (at @ ''.header'')) (\<lambda>b.
      bind_r (add_plain b (rm_payload_offset m) (rm_name_length m) (at @ ''.extended_name'')) (\<lambda>b.
      if rm_body_size m \<noteq> 0 then add_plain b (rm_body_offset m) (rm_body_size m) (at @ ''.body'') else Inr b)))"

text \<open>The newline after a member of odd size; the result is the offset of the next header.\<close>

definition member_padding :: "bytes \<Rightarrow> raw_member \<Rightarrow> atom_builder \<Rightarrow> (int \<times> atom_builder) res" where
  "member_padding data m b =
     (let offset = rm_payload_offset m + rm_stored_size m in
      if rm_stored_size m mod 2 = 1
      then bind_r (require_range (blen data) offset 1 (member_locator (rm_index m) @ ''.padding'')) (\<lambda>_.
        if py_slice data offset (offset + 1) \<noteq> [0x0A]
        then fail (member_locator (rm_index m)) ''archive odd-member padding must be newline''
        else bind_r (builder_add b offset 1 (''member['' @ show_int (rm_index m) @ ''].padding'')
                       Derived_Padding static_cache_dependency None None False) (\<lambda>b.
          Inr (offset + 1, b)))
      else Inr (offset, b))"

lemma parse_member_Inr:
  assumes "parse_member data index offset = Inr m"
  shows "rm_index m = index" "rm_header_offset m = offset" "rm_payload_offset m = offset + 60"
    "0 \<le> offset" "0 < rm_name_length m" "0 \<le> rm_body_size m"
    "rm_body_offset m = rm_payload_offset m + rm_name_length m"
    "rm_stored_size m = rm_name_length m + rm_body_size m"
    "rm_payload_offset m + rm_stored_size m \<le> blen data"
proof -
  obtain name_length stored_size where p: "rm_index m = index" "rm_header_offset m = offset"
    "rm_payload_offset m = offset + 60" "rm_name_length m = name_length"
    "rm_body_offset m = offset + 60 + name_length" "rm_body_size m = stored_size - name_length"
    "rm_stored_size m = stored_size" "name_length \<noteq> 0" "name_length \<le> stored_size" "0 \<le> name_length"
    "0 \<le> offset" "offset + 60 + stored_size \<le> blen data"
    using assms unfolding parse_member_def Let_def AR_HEADER_SIZE_def
    by (auto simp: res_simps require_range_Inr dest: parse_ascii_int_nonneg)
  show "rm_index m = index" "rm_header_offset m = offset" "rm_payload_offset m = offset + 60"
    "0 \<le> offset" "0 < rm_name_length m" "0 \<le> rm_body_size m"
    "rm_body_offset m = rm_payload_offset m + rm_name_length m"
    "rm_stored_size m = rm_name_length m + rm_body_size m"
    "rm_payload_offset m + rm_stored_size m \<le> blen data"
    using p by simp_all
qed

lemma member_padding_Inr:
  assumes "member_padding data m b = Inr (next', b')"
  shows "next' = rm_payload_offset m + rm_stored_size m + rm_stored_size m mod 2"
  using assms by (auto simp: member_padding_def Let_def res_simps split: if_splits)

text \<open>The scan of the members; \<open>index\<close> counts the members already read.\<close>

function archive_scan :: "bytes \<Rightarrow> int \<Rightarrow> int \<Rightarrow> atom_builder \<Rightarrow> (raw_member list \<times> int \<times> atom_builder) res" where
  "archive_scan data index offset b =
     (if offset < blen data
      then if index \<ge> MAX_ARCHIVE_MEMBERS then plain_error ''too many archive members''
      else bind_r (parse_member data index offset) (\<lambda>m.
        bind_r (member_claims m b) (\<lambda>b.
        bind_r (member_padding data m b) (\<lambda>p.
        bind_r (archive_scan data (index + 1) (fst p) (snd p)) (\<lambda>r. Inr (m # fst r, snd r)))))
      else Inr ([], offset, b))"
  by pat_completeness auto

termination
proof (relation "measure (\<lambda>(data, index, offset, b). nat (blen data - offset))", goal_cases)
  case (2 data index offset b m b' p)
  note m = parse_member_Inr[OF 2(3)]
  have "fst p = rm_payload_offset m + rm_stored_size m + rm_stored_size m mod 2"
    using member_padding_Inr[of data m b' "fst p" "snd p"] 2(5) by simp
  moreover have "0 \<le> rm_stored_size m mod 2" by simp
  ultimately show ?case using m 2(1) by simp
qed simp

declare archive_scan.simps [simp del]

text \<open>The second pass: the object of a member, its atoms rebased, its symbols and provenance.\<close>

record archive_state =
  as_names :: "string list"
  as_builder :: atom_builder
  as_symbols :: "symbol_record list"
  as_provenance :: "provenance_locator list"
  as_members :: "archive_member list"

definition rebase_atom :: "raw_member \<Rightarrow> byte_atom \<Rightarrow> atom_builder \<Rightarrow> atom_builder res" where
  "rebase_atom m a b = builder_add b (rm_body_offset m + a_offset a) (a_size a)
     (''member['' @ show_int (rm_index m) @ ''].'' @ a_locator a) (a_role a) (a_depends_on a) (a_note a)
     (a_canonical_payload a) True"

definition rebase_provenance :: "raw_member \<Rightarrow> provenance_locator \<Rightarrow> provenance_locator" where
  "rebase_provenance m p = p\<lparr>pl_source_locator := member_locator (rm_index m) @ ''.'' @ pl_source_locator p,
     pl_path_offset := rm_body_offset m + pl_path_offset p\<rparr>"

definition archive_member_of :: "raw_member \<Rightarrow> macho_artifact option \<Rightarrow> archive_member" where
  "archive_member_of m ob = \<lparr>am_index = rm_index m, am_name = rm_name m, am_header_offset = rm_header_offset m,
     am_data_offset = rm_body_offset m, am_stored_size = rm_stored_size m, am_object = ob\<rparr>"

definition member_object :: "bytes \<Rightarrow> string \<Rightarrow> raw_member \<Rightarrow> macho_artifact res" where
  "member_object data label m = parse_macho_object
     (py_slice data (rm_body_offset m) (rm_body_offset m + rm_body_size m))
     (label @ ''('' @ rm_name m @ '')'')
     (''object['' @ show_int (rm_index m - 1) @ '':'' @ rm_name m @ '']'')"

definition archive_step :: "bytes \<Rightarrow> string \<Rightarrow> raw_member \<Rightarrow> archive_state \<Rightarrow> archive_state res" where
  "archive_step data label m s =
     (if rm_index m > 0
      then if rm_name m \<in> set (as_names s)
        then fail (member_locator (rm_index m)) ''duplicate archive object member name''
        else bind_r (member_object data label m) (\<lambda>ob.
          bind_r (fold_r (rebase_atom m) (mo_atoms ob) (as_builder s)) (\<lambda>b.
          bind_r (add_derived b (rm_header_offset m + 48) 10
                    (''member['' @ show_int (rm_index m) @ ''].stored_size'') static_cache_dependency) (\<lambda>b.
          Inr \<lparr>as_names = rm_name m # as_names s, as_builder = b, as_symbols = as_symbols s @ mo_symbols ob,
               as_provenance = as_provenance s @ map (rebase_provenance m) (mo_provenance ob),
               as_members = as_members s @ [archive_member_of m (Some ob)]\<rparr>)))
      else Inr (s\<lparr>as_members := as_members s @ [archive_member_of m None]\<rparr>))"

section \<open>The index against the objects\<close>

text \<open>Equality of two \<open>Counter\<close>s, and of two dictionaries of \<open>Counter\<close>s given by their increments.\<close>

definition counter_eq :: "'a list \<Rightarrow> 'a list \<Rightarrow> bool" where
  "counter_eq xs ys \<longleftrightarrow> list_all (\<lambda>x. count_list xs x = count_list ys x) (xs @ ys)"

definition counted_at :: "('k \<times> 'v) list \<Rightarrow> 'k \<Rightarrow> 'v list" where
  "counted_at ps k = map snd (filter (\<lambda>p. fst p = k) ps)"

definition counters_eq :: "('k \<times> 'v) list \<Rightarrow> ('k \<times> 'v) list \<Rightarrow> bool" where
  "counters_eq ps qs \<longleftrightarrow> list_all (\<lambda>k. k \<in> set (map fst ps) \<and> k \<in> set (map fst qs)
     \<and> counter_eq (counted_at ps k) (counted_at qs k)) (map fst ps @ map fst qs)"

definition externally_defined :: "symbol_record \<Rightarrow> bool" where
  "externally_defined s \<longleftrightarrow> sym_external s \<and> sym_stab s = 0
     \<and> sym_base_type s \<notin> {''undefined'', ''prebound-undefined''}"

definition expected_objects :: "archive_member list \<Rightarrow> (string \<times> string) list res" where
  "expected_objects members = bind_r (map_r (\<lambda>m. case am_object m of
        None \<Rightarrow> Inl AssertionError
      | Some ob \<Rightarrow> Inr (map (\<lambda>s. (sym_name s, am_name m)) (filter externally_defined (mo_symbols ob))))
     (tl members)) (\<lambda>xs. Inr (concat xs))"

definition actual_objects :: "raw_member list \<Rightarrow> ranlib_entry list \<Rightarrow> (string \<times> string) list res" where
  "actual_objects raw ranlib = map_r (\<lambda>e.
     case map_of (map (\<lambda>m. (rm_header_offset m, rm_name m)) raw) (rl_member_offset e) of
       None \<Rightarrow> Inl (KeyError (show_int (rl_member_offset e)))
     | Some name \<Rightarrow> Inr (rl_symbol e, name)) ranlib"

definition check_index :: "raw_member list \<Rightarrow> ranlib_entry list \<Rightarrow> archive_state \<Rightarrow> unit res" where
  "check_index raw ranlib s =
     (if \<not> counter_eq (map rl_symbol ranlib) (map sym_name (filter externally_defined (as_symbols s)))
      then plain_error ''ranlib index is not the multiset of externally defined object symbols''
      else bind_r (expected_objects (as_members s)) (\<lambda>expected.
        bind_r (actual_objects raw ranlib) (\<lambda>actual.
        if \<not> counters_eq actual expected
        then plain_error ''ranlib entries point at the wrong object member'' else Inr ())))"

section \<open>Archives\<close>

definition archive_axes :: "raw_member list \<Rightarrow> ranlib_entry list \<Rightarrow> archive_member list \<Rightarrow> json" where
  "archive_axes raw ranlib members = JObj
     [(''format'', JStr ''Darwin ar''),
      (''member_order'', jstrs (map am_name members)),
      (''members'', JList (map archive_member_json members)),
      (''normalized_metadata'', JList (map (\<lambda>m. JObj [(''name'', JStr (rm_name m)), (''date'', JInt (rm_date m)),
          (''uid'', JInt (rm_uid m)), (''gid'', JInt (rm_gid m)), (''mode'', JInt (rm_mode m))]) raw)),
      (''index'', JList (map ranlib_entry_json ranlib)),
      (''objects'', JList (map mo_structured_axes (List.map_filter am_object members)))]"

text \<open>A zero-length padding atom for every member without a padding byte.\<close>

definition padding_atom :: "raw_member \<Rightarrow> byte_atom" where
  "padding_atom m = \<lparr>a_locator = member_locator (rm_index m) @ ''.padding'', a_role = Derived_Padding,
     a_offset = rm_payload_offset m + rm_stored_size m, a_size = 0, a_payload = [],
     a_depends_on = static_cache_dependency, a_note = Some ''zero-length archive member padding'',
     a_canonical_payload = None\<rparr>"

definition padding_atoms :: "raw_member list \<Rightarrow> byte_atom list \<Rightarrow> byte_atom list res" where
  "padding_atoms raw atoms = map_r (\<lambda>m. atom_post_init (padding_atom m))
     (filter (\<lambda>m. member_locator (rm_index m) @ ''.padding'' \<notin> set (map a_locator atoms)) raw)"

definition ranlib_claim :: "raw_member \<Rightarrow> ranlib_entry \<Rightarrow> atom_builder \<Rightarrow> atom_builder res" where
  "ranlib_claim symdef e b = add_derived b (rm_body_offset symdef + 4 + rl_index e * 8 + 4) 4
     (''ranlib['' @ show_int (rl_index e) @ ''].member_offset'') static_cache_dependency"

definition archive_members :: "bytes \<Rightarrow> (raw_member list \<times> atom_builder) res" where
  "archive_members data =
     (if \<not> starts_with data AR_MAGIC then plain_error ''not a Darwin ar archive''
      else bind_r (add_plain (new_builder data ''archive'') 0 (blen AR_MAGIC) ''magic'') (\<lambda>b.
      bind_r (archive_scan data 0 (blen AR_MAGIC) b) (\<lambda>r.
      let raw = fst r in
      if fst (snd r) \<noteq> blen data \<or> length raw < 2 \<or> rm_name (hd raw) \<noteq> ''__.SYMDEF''
      then plain_error ''archive must contain __.SYMDEF followed by object members''
      else if list_ex (\<lambda>m. rm_name m = ''__.SYMDEF'') (tl raw)
      then plain_error ''duplicate __.SYMDEF member''
      else Inr (raw, snd (snd r)))))"

definition archive_objects :: "bytes \<Rightarrow> string \<Rightarrow> raw_member list \<Rightarrow> atom_builder
    \<Rightarrow> (ranlib_entry list \<times> archive_state) res" where
  "archive_objects data label raw b =
     (let symdef = hd raw in
      bind_r (parse_ranlib (py_slice data (rm_body_offset symdef) (rm_body_offset symdef + rm_body_size symdef))
                (map rm_header_offset (tl raw))) (\<lambda>ranlib.
      bind_r (fold_r (ranlib_claim symdef) ranlib b) (\<lambda>b.
      bind_r (fold_r (archive_step data label) raw
                \<lparr>as_names = [], as_builder = b, as_symbols = [], as_provenance = [], as_members = []\<rparr>) (\<lambda>s.
      if length (as_provenance s) \<noteq> 1
      then plain_error (''archive must expose exactly one cache builtin path, found ''
             @ show_int (blen (as_provenance s)))
      else bind_r (check_index raw ranlib s) (\<lambda>_. Inr (ranlib, s))))))"

definition archive_finish :: "bytes \<Rightarrow> string \<Rightarrow> raw_member list \<Rightarrow> ranlib_entry list \<Rightarrow> archive_state
    \<Rightarrow> archive_artifact res" where
  "archive_finish data label raw ranlib s =
     bind_r (builder_finish (as_builder s)) (\<lambda>atoms.
     bind_r (padding_atoms raw atoms) (\<lambda>pads.
     Inr \<lparr>ar_raw = data, ar_label = label, ar_members = as_members s, ar_ranlib = ranlib,
          ar_structured_axes = archive_axes raw ranlib (as_members s), ar_symbols = as_symbols s,
          ar_atoms = atoms @ pads, ar_provenance = as_provenance s\<rparr>))"

definition parse_archive_bytes :: "bytes \<Rightarrow> string \<Rightarrow> archive_artifact res" where
  "parse_archive_bytes data label =
     bind_r (archive_members data) (\<lambda>r.
     bind_r (archive_objects data label (fst r) (snd r)) (\<lambda>q.
     archive_finish data label (fst r) (fst q) (snd q)))"

definition parse_static_archive :: "file_system \<Rightarrow> source \<Rightarrow> string option \<Rightarrow> archive_artifact res" where
  "parse_static_archive fs source label =
     bind_r (read_source fs source label) (\<lambda>r. parse_archive_bytes (fst r) (snd r))"

end
