(* ===== verification/Comparison.thy ===== *)
theory Comparison
  imports Archive
begin

text \<open>
  The pairwise parity decision (\<open>tools/abi_artifact_parity.py\<close>, from \<open>canonicalize_atoms\<close> to
  \<open>bind_provenance\<close>).  Both artifact classes offer the same attributes to \<open>_compare_parsed\<close>;
  the record \<open>parsed\<close> holds them.
\<close>

section \<open>Canonical digests\<close>

definition canonical_atom :: "byte_atom \<Rightarrow> json" where
  "canonical_atom a =
     (let v = JObj [(''locator'', JStr (a_locator a)), (''role'', JStr (role_name (a_role a)))] in
      if a_role a = Invariant
      then obj_set ''size'' (JInt (a_size a)) (obj_set ''payload_sha256'' (JStr (sha256_bytes (a_payload a))) v)
      else
        let v = obj_set ''depends_on'' (jstrs (a_depends_on a)) (obj_set ''canonical_token'' (JStr (a_locator a)) v) in
        (case a_canonical_payload a of
           Some c \<Rightarrow> obj_set ''canonical_payload_hex'' (JStr (hex_of_bytes c)) v | None \<Rightarrow> v))"

definition canonicalize_atoms :: "byte_atom list \<Rightarrow> bytes" where
  "canonicalize_atoms atoms = canonical_json_bytes (JList (map canonical_atom (sort_key a_locator atoms)))"

definition canonical_digest :: "byte_atom list \<Rightarrow> string" where
  "canonical_digest atoms = sha256_bytes (canonicalize_atoms atoms)"

definition canonicalize_dynamic_artifact :: "macho_artifact \<Rightarrow> bytes res" where
  "canonicalize_dynamic_artifact art =
     (if mo_filetype art \<noteq> MH_DYLIB then plain_error ''not a dynamic artifact''
      else Inr (canonicalize_atoms (mo_atoms art)))"

definition canonicalize_static_archive :: "archive_artifact \<Rightarrow> bytes" where
  "canonicalize_static_archive art = canonicalize_atoms (ar_atoms art)"

section \<open>Uncovered ranges of a cover\<close>

fun uncovered_run :: "'a option list \<Rightarrow> nat" where
  "uncovered_run (None # cover) = Suc (uncovered_run cover)"
| "uncovered_run _ = 0"

function uncovered_from :: "int \<Rightarrow> 'a option list \<Rightarrow> (int \<times> int) list" where
  "uncovered_from index [] = []"
| "uncovered_from index (Some x # cover) = uncovered_from (index + 1) cover"
| "uncovered_from index (None # cover) =
     (let n = uncovered_run (None # cover) in (index, int n) # uncovered_from (index + int n) (drop n (None # cover)))"
  by pat_completeness auto
termination
  by (relation "measure (\<lambda>(i, c). length c)") auto

definition cover_gaps :: "'a option list \<Rightarrow> (int \<times> int) list" where
  "cover_gaps cover = uncovered_from 0 cover"

section \<open>Symbol axes\<close>

text \<open>
  \<open>repr\<close> of a comparison key; which code points beyond ASCII print as themselves is decided by
  the interpreter's Unicode tables, the parameter \<open>printable\<close>.
\<close>

definition hex_pad :: "nat \<Rightarrow> nat \<Rightarrow> string" where
  "hex_pad w n = (let d = base_digits 16 n in replicate (w - length d) (CHR ''0'') @ d)"

definition utf8_encode :: "int \<Rightarrow> bytes" where
  "utf8_encode p =
     (if p < 0x80 then [word_of_int p]
      else if p < 0x800 then [word_of_int (0xC0 + p div 64), word_of_int (0x80 + p mod 64)]
      else if p < 0x10000 then [word_of_int (0xE0 + p div 4096), word_of_int (0x80 + p div 64 mod 64),
        word_of_int (0x80 + p mod 64)]
      else [word_of_int (0xF0 + p div 262144), word_of_int (0x80 + p div 4096 mod 64),
        word_of_int (0x80 + p div 64 mod 64), word_of_int (0x80 + p mod 64)])"

definition repr_point :: "(int \<Rightarrow> bool) \<Rightarrow> char \<Rightarrow> int \<Rightarrow> string" where
  "repr_point printable q p =
     (let n = nat p; bs = CHR 0x5C in
      if n = of_char q \<or> n = 0x5C then [bs, char_of n]
      else if n = 9 then [bs, CHR ''t''] else if n = 10 then [bs, CHR ''n''] else if n = 13 then [bs, CHR ''r'']
      else if n < 32 \<or> n = 127 then bs # CHR ''x'' # hex_pad 2 n
      else if n < 127 then [char_of n]
      else if printable p then str_of_bytes (utf8_encode p)
      else if n < 0x100 then bs # CHR ''x'' # hex_pad 2 n
      else if n < 0x10000 then bs # CHR ''u'' # hex_pad 4 n
      else bs # CHR ''U'' # hex_pad 8 n)"

definition repr_str :: "(int \<Rightarrow> bool) \<Rightarrow> string \<Rightarrow> string" where
  "repr_str printable s =
     (let q = (if CHR 0x27 \<in> set s \<and> CHR 0x22 \<notin> set s then CHR 0x22 else CHR 0x27)
      in [q] @ concat (map (repr_point printable q) (code_points s)) @ [q])"

definition repr_bool :: "bool \<Rightarrow> string" where
  "repr_bool b = (if b then ''True'' else ''False'')"

definition repr_key :: "(int \<Rightarrow> bool) \<Rightarrow> symbol_key \<Rightarrow> string" where
  "repr_key printable k = ''('' @ join_with '', '' [repr_str printable (k_name k), repr_str printable (k_base_type k),
     show_int (k_section k), repr_bool (k_external k), repr_bool (k_private_external k), show_int (k_stab k),
     show_int (k_desc k), show_int (k_type_code k)] @ '')''"

definition key_entry :: "symbol_key \<Rightarrow> int \<Rightarrow> json" where
  "key_entry k n = JObj [(''name'', JStr (k_name k)), (''base_type'', JStr (k_base_type k)),
     (''section'', JInt (k_section k)), (''external'', JBool (k_external k)),
     (''private_external'', JBool (k_private_external k)), (''stab'', JInt (k_stab k)), (''desc'', JInt (k_desc k)),
     (''type_code'', JInt (k_type_code k)), (''count'', JInt n)]"

text \<open>\<open>Counter(xs) - Counter(ys)\<close> as its items: the keys with more occurrences on the left.\<close>

definition from_keys :: "'a list \<Rightarrow> 'a list" where "from_keys xs = rev (remdups (rev xs))"

definition counter_minus :: "'a list \<Rightarrow> 'a list \<Rightarrow> ('a \<times> int) list" where
  "counter_minus xs ys = filter (\<lambda>p. snd p > 0)
     (map (\<lambda>k. (k, int (count_list xs k) - int (count_list ys k))) (from_keys xs))"

record symbol_axes =
  sx_order_equal :: bool
  sx_multiset_equal :: bool
  sx_left_count :: int
  sx_right_count :: int
  sx_left_only :: "json list"
  sx_right_only :: "json list"

definition only_entries :: "(int \<Rightarrow> bool) \<Rightarrow> symbol_key list \<Rightarrow> symbol_key list \<Rightarrow> json list" where
  "only_entries printable xs ys =
     map (\<lambda>p. key_entry (fst p) (snd p)) (sort_key (\<lambda>p. repr_key printable (fst p)) (counter_minus xs ys))"

definition symbol_axes_of :: "(int \<Rightarrow> bool) \<Rightarrow> symbol_record list \<Rightarrow> symbol_record list \<Rightarrow> symbol_axes res" where
  "symbol_axes_of printable left right =
     bind_r (map_r comparison_key left) (\<lambda>left_keys.
     bind_r (map_r comparison_key right) (\<lambda>right_keys.
     Inr \<lparr>sx_order_equal = (left_keys = right_keys), sx_multiset_equal = counter_eq left_keys right_keys,
          sx_left_count = blen left, sx_right_count = blen right,
          sx_left_only = only_entries printable left_keys right_keys,
          sx_right_only = only_entries printable right_keys left_keys\<rparr>))"

definition symbol_axes_json :: "symbol_axes \<Rightarrow> json" where
  "symbol_axes_json x = JObj [(''order_equal'', JBool (sx_order_equal x)), (''multiset_equal'', JBool (sx_multiset_equal x)),
     (''left_count'', JInt (sx_left_count x)), (''right_count'', JInt (sx_right_count x)),
     (''left_only'', JList (sx_left_only x)), (''right_only'', JList (sx_right_only x))]"

section \<open>Normalized axes\<close>

definition proven_keys :: "string list" where
  "proven_keys = [''uuid'', ''code_directory'', ''symoff'', ''stroff'', ''strsize'', ''dataoff'', ''datasize'', ''addr'',
     ''fileoff'', ''filesize'', ''vmsize'', ''reloff'', ''member_offset'', ''header_offset'', ''data_offset'',
     ''stored_size'', ''object_sha256'', ''index'', ''ranges'', ''fields'', ''size'']"

definition stable_directory :: "json \<Rightarrow> json res" where
  "stable_directory d = (case d of
     JObj e \<Rightarrow> Inr (JObj (filter (\<lambda>p. fst p \<notin> {''path'', ''offset'', ''size''}) e))
   | _ \<Rightarrow> Inl AttributeError)"

text \<open>Iterating over the value of \<open>dwarf_directories\<close>: strings and dictionaries yield strings.\<close>

definition stable_directories :: "json \<Rightarrow> json res" where
  "stable_directories item = (case item of
     JList ds \<Rightarrow> bind_r (map_r stable_directory ds) (\<lambda>es. Inr (JList es))
   | JStr s \<Rightarrow> if s = [] then Inr (JList []) else Inl AttributeError
   | JObj d \<Rightarrow> if d = [] then Inr (JList []) else Inl AttributeError
   | _ \<Rightarrow> Inl TypeError)"

lemma map_r_cong [fundef_cong]:
  "xs = ys \<Longrightarrow> (\<And>x. x \<in> set ys \<Longrightarrow> f x = g x) \<Longrightarrow> map_r f xs = map_r g ys"
  by (induction xs arbitrary: ys) auto

function normalized_axes :: "json \<Rightarrow> json res" where
  "normalized_axes (JList xs) = bind_r (map_r normalized_axes xs) (\<lambda>ys. Inr (JList ys))"
| "normalized_axes (JObj d) =
     bind_r (map_r (\<lambda>p.
        bind_r (if fst p = ''dwarf_directories'' then stable_directories (snd p) else normalized_axes (snd p))
          (\<lambda>v. Inr (fst p, v)))
       (filter (\<lambda>p. fst p \<notin> set proven_keys) d)) (\<lambda>e. Inr (JObj e))"
| "normalized_axes JNull = Inr JNull"
| "normalized_axes (JBool b) = Inr (JBool b)"
| "normalized_axes (JInt i) = Inr (JInt i)"
| "normalized_axes (JStr s) = Inr (JStr s)"
  by pat_completeness auto

termination
proof (relation "measure size", goal_cases)
  case (2 xs x)
  then show ?case by (simp add: less_Suc_eq_le size_list_estimation')
next
  case (3 d p)
  obtain a b where p: "p = (a, b)" by (cases p)
  have "size b \<le> size_list (size_prod (\<lambda>_. 0) size) d"
    by (rule size_list_estimation'[of p]) (use 3 p in auto)
  then show ?case using p by (simp add: less_Suc_eq_le)
qed simp
declare normalized_axes.simps [simp del]

section \<open>The comparison\<close>

record parsed =
  pa_label :: string
  pa_raw :: bytes
  pa_axes :: json
  pa_symbols :: "symbol_record list"
  pa_atoms :: "byte_atom list"
  pa_provenance :: "provenance_locator list"

definition parsed_macho :: "macho_artifact \<Rightarrow> parsed" where
  "parsed_macho a = \<lparr>pa_label = mo_label a, pa_raw = mo_raw a, pa_axes = mo_structured_axes a,
     pa_symbols = mo_symbols a, pa_atoms = mo_atoms a, pa_provenance = mo_provenance a\<rparr>"

definition parsed_archive :: "archive_artifact \<Rightarrow> parsed" where
  "parsed_archive a = \<lparr>pa_label = ar_label a, pa_raw = ar_raw a, pa_axes = ar_structured_axes a,
     pa_symbols = ar_symbols a, pa_atoms = ar_atoms a, pa_provenance = ar_provenance a\<rparr>"

text \<open>\<open>{atom.locator: atom for atom in atoms}\<close>: a later atom replaces an earlier one.\<close>

type_synonym atom_dict = "(string \<times> byte_atom) list"

definition atom_dict :: "byte_atom list \<Rightarrow> atom_dict" where
  "atom_dict atoms = fold (\<lambda>a. dict_set (a_locator a) a) atoms []"

definition unpaired_locators :: "atom_dict \<Rightarrow> atom_dict \<Rightarrow> string list" where
  "unpaired_locators l r = sort (filter (\<lambda>k. k \<notin> set (map fst r)) (map fst l)
     @ filter (\<lambda>k. k \<notin> set (map fst l)) (map fst r))"

definition common_locators :: "atom_dict \<Rightarrow> atom_dict \<Rightarrow> string list" where
  "common_locators l r = sort (filter (\<lambda>k. k \<in> set (map fst r)) (map fst l))"

definition payload_differs :: "atom_dict \<Rightarrow> atom_dict \<Rightarrow> string \<Rightarrow> bool" where
  "payload_differs l r k = (case (map_of l k, map_of r k) of
     (Some a, Some b) \<Rightarrow> a_payload a \<noteq> a_payload b | _ \<Rightarrow> False)"

definition dependency_changed :: "atom_dict \<Rightarrow> atom_dict \<Rightarrow> string \<Rightarrow> bool" where
  "dependency_changed l r dependency =
     list_ex (payload_differs l r)
       (dependency # map fst (filter (\<lambda>p. a_role (snd p) = Allowed_Payload \<and> ends_with (fst p) dependency) l))"

definition byte_difference_count :: "bytes \<Rightarrow> bytes \<Rightarrow> int" where
  "byte_difference_count x y = blen (filter (\<lambda>p. fst p \<noteq> snd p) (zip x y)) + \<bar>blen x - blen y\<bar>"

record compare_state =
  cs_failures :: "string list"
  cs_allowed :: "json list"
  cs_derived :: "json list"
  cs_invalid :: "string list"

definition add_failure :: "string \<Rightarrow> compare_state \<Rightarrow> compare_state" where
  "add_failure msg s = s\<lparr>cs_failures := cs_failures s @ [msg]\<rparr>"

definition changed_dependencies :: "atom_dict \<Rightarrow> atom_dict \<Rightarrow> byte_atom \<Rightarrow> string list" where
  "changed_dependencies l r a = filter (dependency_changed l r) (a_depends_on a)"

definition valid_change :: "atom_dict \<Rightarrow> atom_dict \<Rightarrow> byte_atom \<Rightarrow> byte_atom \<Rightarrow> bool" where
  "valid_change l r a b \<longleftrightarrow> a_canonical_payload a = a_canonical_payload b
     \<and> (a_payload a = a_payload b \<or> changed_dependencies l r a \<noteq> [])"

definition allowed_edit_json :: "string \<Rightarrow> byte_atom \<Rightarrow> byte_atom \<Rightarrow> json" where
  "allowed_edit_json k a b = JObj [(''locator'', JStr k), (''left'', atom_json a False), (''right'', atom_json b False),
     (''changed'', JBool (a_payload a \<noteq> a_payload b)),
     (''byte_difference_count'', JInt (byte_difference_count (a_payload a) (a_payload b))),
     (''size_delta'', JInt (a_size b - a_size a))]"

definition derived_field_json :: "atom_dict \<Rightarrow> atom_dict \<Rightarrow> string \<Rightarrow> byte_atom \<Rightarrow> byte_atom \<Rightarrow> json" where
  "derived_field_json l r k a b = JObj [(''locator'', JStr k), (''role'', JStr (role_name (a_role a))),
     (''left'', atom_json a False), (''right'', atom_json b False),
     (''changed'', JBool (a_payload a \<noteq> a_payload b)),
     (''byte_difference_count'', JInt (byte_difference_count (a_payload a) (a_payload b))),
     (''size_delta'', JInt (a_size b - a_size a)),
     (''changed_dependencies'', jstrs (changed_dependencies l r a)),
     (''canonical_payload_equal'', JBool (a_canonical_payload a = a_canonical_payload b)),
     (''valid'', JBool (valid_change l r a b))]"

definition compare_derived :: "atom_dict \<Rightarrow> atom_dict \<Rightarrow> string \<Rightarrow> byte_atom \<Rightarrow> byte_atom \<Rightarrow> compare_state \<Rightarrow> compare_state" where
  "compare_derived l r k a b s =
     (let s = (if valid_change l r a b then s
          else let s = s\<lparr>cs_invalid := cs_invalid s @ [k]\<rparr> in
            if a_canonical_payload a \<noteq> a_canonical_payload b
            then add_failure (''derived atom canonical payload differs: '' @ k) s
            else add_failure (''derived atom changed without a changed allowed base: '' @ k) s)
      in s\<lparr>cs_derived := cs_derived s @ [derived_field_json l r k a b]\<rparr>)"

definition compare_atom :: "atom_dict \<Rightarrow> atom_dict \<Rightarrow> string \<Rightarrow> compare_state \<Rightarrow> compare_state" where
  "compare_atom l r k s =
     (case (map_of l k, map_of r k) of
        (Some a, Some b) \<Rightarrow>
          if a_role a \<noteq> a_role b \<or> a_depends_on a \<noteq> a_depends_on b
          then add_failure (''atom contract differs at '' @ k) s
          else if a_role a = Invariant
          then (if a_payload a \<noteq> a_payload b then add_failure (''invariant atom differs: '' @ k) s else s)
          else if a_role a = Allowed_Payload
          then s\<lparr>cs_allowed := cs_allowed s @ [allowed_edit_json k a b]\<rparr>
          else compare_derived l r k a b s
      | _ \<Rightarrow> s)"

record comparison =
  cp_artifact_kind :: string
  cp_left_label :: string
  cp_right_label :: string
  cp_left_raw_sha256 :: string
  cp_right_raw_sha256 :: string
  cp_left_size :: int
  cp_right_size :: int
  cp_structured_axes :: json
  cp_symbol_axes :: json
  cp_allowed_edit_atoms :: "json list"
  cp_derived_fields :: "json list"
  cp_left_canonical_digest :: string
  cp_right_canonical_digest :: string
  cp_uncovered_left_bytes :: "json list"
  cp_uncovered_right_bytes :: "json list"
  cp_unpaired_atoms :: "string list"
  cp_invalid_derived_fields :: "string list"
  cp_provenance_locators :: json
  cp_verdict :: string
  cp_failures :: "string list"

definition provenance_shape :: "provenance_locator list \<Rightarrow> (string \<times> string) list" where
  "provenance_shape ps = map (\<lambda>p. (pl_kind p, pl_expected_basename p)) ps"

definition failure_if :: "bool \<Rightarrow> string \<Rightarrow> string list" where
  "failure_if c msg = (if c then [msg] else [])"

definition compare_parsed :: "(int \<Rightarrow> bool) \<Rightarrow> string \<Rightarrow> parsed \<Rightarrow> parsed \<Rightarrow> comparison res" where
  "compare_parsed printable kind left right =
     (let l = atom_dict (pa_atoms left); r = atom_dict (pa_atoms right); unpaired = unpaired_locators l r;
          s = fold (compare_atom l r) (common_locators l r)
                \<lparr>cs_failures = failure_if (unpaired \<noteq> []) (show_int (blen unpaired) @ '' atom locators are unpaired''),
                 cs_allowed = [], cs_derived = [], cs_invalid = []\<rparr> in
      bind_r (normalized_axes (pa_axes left)) (\<lambda>left_axes.
      bind_r (normalized_axes (pa_axes right)) (\<lambda>right_axes.
      bind_r (symbol_axes_of printable (pa_symbols left) (pa_symbols right)) (\<lambda>symbols.
      let left_digest = canonical_digest (pa_atoms left); right_digest = canonical_digest (pa_atoms right);
          failures = from_keys (cs_failures s
            @ failure_if (\<not> json_eq left_axes right_axes) ''structured axes differ''
            @ failure_if (\<not> sx_order_equal symbols) ''symbol order differs''
            @ failure_if (\<not> sx_multiset_equal symbols) ''symbol multiset differs''
            @ failure_if (left_digest \<noteq> right_digest) ''canonical digests differ''
            @ failure_if (provenance_shape (pa_provenance left) \<noteq> provenance_shape (pa_provenance right))
                ''provenance locator kind or basename differs'') in
      Inr \<lparr>cp_artifact_kind = kind, cp_left_label = pa_label left, cp_right_label = pa_label right,
           cp_left_raw_sha256 = sha256_bytes (pa_raw left), cp_right_raw_sha256 = sha256_bytes (pa_raw right),
           cp_left_size = blen (pa_raw left), cp_right_size = blen (pa_raw right),
           cp_structured_axes = JObj [(''equal'', JBool (json_eq left_axes right_axes)), (''left'', left_axes),
             (''right'', right_axes)],
           cp_symbol_axes = symbol_axes_json symbols, cp_allowed_edit_atoms = cs_allowed s,
           cp_derived_fields = cs_derived s, cp_left_canonical_digest = left_digest,
           cp_right_canonical_digest = right_digest, cp_uncovered_left_bytes = [], cp_uncovered_right_bytes = [],
           cp_unpaired_atoms = unpaired, cp_invalid_derived_fields = cs_invalid s,
           cp_provenance_locators = JObj [(''left'', JList (map provenance_json (pa_provenance left))),
             (''right'', JList (map provenance_json (pa_provenance right)))],
           cp_verdict = (if failures = [] then ''pass'' else ''fail''), cp_failures = failures\<rparr>))))"

text \<open>A caller passes an artifact it has parsed, or a source.\<close>

datatype 'a side = Given 'a | Raw source

definition macho_side :: "file_system \<Rightarrow> macho_artifact side \<Rightarrow> string option \<Rightarrow> macho_artifact res" where
  "macho_side fs x label = (case x of Given a \<Rightarrow> Inr a | Raw src \<Rightarrow> parse_dynamic_artifact fs src label)"

definition archive_side :: "file_system \<Rightarrow> archive_artifact side \<Rightarrow> string option \<Rightarrow> archive_artifact res" where
  "archive_side fs x label = (case x of Given a \<Rightarrow> Inr a | Raw src \<Rightarrow> parse_static_archive fs src label)"

definition compare_dynamic_artifact_pair :: "(int \<Rightarrow> bool) \<Rightarrow> file_system \<Rightarrow> macho_artifact side \<Rightarrow> macho_artifact side
    \<Rightarrow> string option \<Rightarrow> string option \<Rightarrow> comparison res" where
  "compare_dynamic_artifact_pair printable fs left right left_label right_label =
     bind_r (macho_side fs left left_label) (\<lambda>l.
     bind_r (macho_side fs right right_label) (\<lambda>r.
     if mo_filetype l \<noteq> MH_DYLIB \<or> mo_filetype r \<noteq> MH_DYLIB
     then plain_error ''dynamic comparison received a non-MH_DYLIB artifact''
     else compare_parsed printable ''dynamic'' (parsed_macho l) (parsed_macho r)))"

definition compare_static_archive_pair :: "(int \<Rightarrow> bool) \<Rightarrow> file_system \<Rightarrow> archive_artifact side \<Rightarrow> archive_artifact side
    \<Rightarrow> string option \<Rightarrow> string option \<Rightarrow> comparison res" where
  "compare_static_archive_pair printable fs left right left_label right_label =
     bind_r (archive_side fs left left_label) (\<lambda>l.
     bind_r (archive_side fs right right_label) (\<lambda>r.
     compare_parsed printable ''static'' (parsed_archive l) (parsed_archive r)))"

definition comparison_json :: "comparison \<Rightarrow> json" where
  "comparison_json c = JObj [(''artifact_kind'', JStr (cp_artifact_kind c)), (''left_label'', JStr (cp_left_label c)),
     (''right_label'', JStr (cp_right_label c)), (''left_raw_sha256'', JStr (cp_left_raw_sha256 c)),
     (''right_raw_sha256'', JStr (cp_right_raw_sha256 c)), (''left_size'', JInt (cp_left_size c)),
     (''right_size'', JInt (cp_right_size c)), (''structured_axes'', cp_structured_axes c),
     (''symbol_axes'', cp_symbol_axes c), (''allowed_edit_atoms'', JList (cp_allowed_edit_atoms c)),
     (''derived_fields'', JList (cp_derived_fields c)),
     (''left_canonical_digest'', JStr (cp_left_canonical_digest c)),
     (''right_canonical_digest'', JStr (cp_right_canonical_digest c)),
     (''uncovered_left_bytes'', JList (cp_uncovered_left_bytes c)),
     (''uncovered_right_bytes'', JList (cp_uncovered_right_bytes c)),
     (''unpaired_atoms'', jstrs (cp_unpaired_atoms c)),
     (''invalid_derived_fields'', jstrs (cp_invalid_derived_fields c)),
     (''provenance_locators'', cp_provenance_locators c), (''verdict'', JStr (cp_verdict c)),
     (''failures'', jstrs (cp_failures c))]"

definition comparison_json_bytes :: "comparison \<Rightarrow> bytes" where
  "comparison_json_bytes c = canonical_json_bytes (comparison_json c) @ [10]"

section \<open>Binding provenance\<close>

definition hex64 :: "string \<Rightarrow> bool" where
  "hex64 s \<longleftrightarrow> length s = 64 \<and> list_all (\<lambda>c. c \<in> set ''0123456789abcdef'') s"

definition bind_failures :: "provenance_locator \<Rightarrow> bool \<Rightarrow> int option \<Rightarrow> string option \<Rightarrow> string list" where
  "bind_failures p exists mtime_seconds sha =
     failure_if (\<not> exists) ''path does not exist''
     @ (case pl_expected_mtime_seconds p of
          None \<Rightarrow> []
        | Some m \<Rightarrow> (case mtime_seconds of
             None \<Rightarrow> [''mtime was not supplied'']
           | Some t \<Rightarrow> failure_if (t \<noteq> m) ''mtime does not match N_OSO n_value''))
     @ (case sha of None \<Rightarrow> []
        | Some h \<Rightarrow> failure_if (\<not> hex64 h) ''sha256 is not 64 lowercase hexadecimal characters'')"

definition bind_provenance :: "provenance_locator \<Rightarrow> bool \<Rightarrow> int option \<Rightarrow> string option \<Rightarrow> json" where
  "bind_provenance p exists mtime_seconds sha =
     (let failures = bind_failures p exists mtime_seconds sha in
      JObj [(''locator'', provenance_json p), (''exists'', JBool exists), (''mtime_seconds'', jopt JInt mtime_seconds),
        (''sha256'', jopt JStr sha), (''verdict'', JStr (if failures = [] then ''pass'' else ''fail'')),
        (''failures'', jstrs failures)])"

end
