(* ===== verification/Verify_Control.thy ===== *)
theory Verify_Control
  imports Verify_Files Comparison
begin

text \<open>
  The control documents, the fresh roots, the build command and the binding of provenance in
  \<open>tools/verify_abi_artifact_parity.py\<close>.
\<close>

section \<open>JSON documents\<close>

text \<open>
  \<open>m.get(k)\<close> and \<open>m.get(k, default)\<close> on a parsed document; a value that is not an object has no
  \<open>get\<close>.  Numbers of the documents are integers.
\<close>

definition json_get_or :: "json \<Rightarrow> json \<Rightarrow> string \<Rightarrow> json ver" where
  "json_get_or j d0 k = (case j of
     JObj d \<Rightarrow> Inr (case map_of d k of Some v \<Rightarrow> v | None \<Rightarrow> d0) | _ \<Rightarrow> Inl (Raised AttributeError))"

abbreviation json_get :: "json \<Rightarrow> string \<Rightarrow> json ver" where
  "json_get j k \<equiv> json_get_or j JNull k"

text \<open>\<open>m[k]\<close>.\<close>

definition json_item :: "json \<Rightarrow> string \<Rightarrow> json ver" where
  "json_item j k = (case j of
     JObj d \<Rightarrow> (case map_of d k of Some v \<Rightarrow> Inr v | None \<Rightarrow> Inl (Raised (KeyError k)))
   | _ \<Rightarrow> Inl (Raised TypeError))"

fun is_obj :: "json \<Rightarrow> bool" where "is_obj (JObj d) = True" | "is_obj _ = False"
fun is_str :: "json \<Rightarrow> bool" where "is_str (JStr s) = True" | "is_str _ = False"
fun the_str :: "json \<Rightarrow> string" where "the_str (JStr s) = s" | "the_str _ = []"
fun the_list :: "json \<Rightarrow> json list" where "the_list (JList xs) = xs" | "the_list _ = []"

text \<open>The hook of \<open>json.loads\<close> for the pairs of one object.\<close>

definition duplicate_step :: "(int \<Rightarrow> bool) \<Rightarrow> string \<times> json \<Rightarrow> (string \<times> json) list \<Rightarrow> (string \<times> json) list ver" where
  "duplicate_step printable p d =
     (if fst p \<in> set (map fst d)
      then ver_fail ''duplicate_json_key'' (''duplicate JSON key '' @ repr_str printable (fst p)) ''json''
      else Inr (dict_set (fst p) (snd p) d))"

definition reject_duplicate_pairs :: "(int \<Rightarrow> bool) \<Rightarrow> (string \<times> json) list \<Rightarrow> json ver" where
  "reject_duplicate_pairs printable pairs = bind_r (fold_r (duplicate_step printable) pairs []) (\<lambda>d. Inr (JObj d))"

definition reject_nonfinite_json :: "(int \<Rightarrow> bool) \<Rightarrow> string \<Rightarrow> 'a ver" where
  "reject_nonfinite_json printable v =
     ver_fail ''nonfinite_json_number'' (''non-finite JSON number '' @ repr_str printable v @ '' is not permitted'') ''json''"

text \<open>
  \<open>json.loads\<close> with its two hooks is the parameter \<open>loads\<close>: a document, a failure raised by a hook, or
  the text of a decoding error; the text of an \<open>OSError\<close> is the parameter \<open>str_of\<close>.
\<close>

datatype load_answer = Loaded json | Hook_Failure ver_exc | Undecodable string

definition load_json :: "('e, 'z) git_world_scheme \<Rightarrow> (bytes \<Rightarrow> load_answer) \<Rightarrow> (ver_exc \<Rightarrow> string) \<Rightarrow> string \<Rightarrow> string \<Rightarrow> (ver_exc, 'e, json \<times> bytes) io" where
  "load_json w loads str_of path locator = (\<lambda>e.
     case read_exact_regular_file w path MAX_JSON_BYTES locator e of
       (Inl x, e) \<Rightarrow> ((case x of Os_Error \<Rightarrow> ver_fail ''invalid_json'' (str_of Os_Error) locator | _ \<Rightarrow> Inl x), e)
     | (Inr f, e) \<Rightarrow>
         (case loads (ef_data f) of
            Hook_Failure x \<Rightarrow> (Inl x, e)
          | Undecodable m \<Rightarrow> (ver_fail ''invalid_json'' m locator, e)
          | Loaded v \<Rightarrow>
              if \<not> is_obj v then (ver_fail ''invalid_json_type'' ''expected a JSON object'' locator, e)
              else (Inr (v, ef_data f), e)))"

section \<open>Control documents\<close>

definition POLICY_SCHEMA_VERSION :: int where "POLICY_SCHEMA_VERSION = 3"

definition OBSERVATION_SCHEMA :: json where
  "OBSERVATION_SCHEMA = JObj [(''name'', JStr ''zynum.abi-baseline-observation''), (''version'', JInt 3)]"

definition RECEIPT_SCHEMA :: json where
  "RECEIPT_SCHEMA = JStr ''zynum.private-abi-artifact-build-receipt-v1''"

definition CONFIGURATION :: string where "CONFIGURATION = ''artifact_build_configuration''"

definition validate_control_documents :: "json \<Rightarrow> json \<Rightarrow> json \<Rightarrow> json ver" where
  "validate_control_documents policy observation receipt =
     bind_r (json_get policy ''schema_version'') (\<lambda>v.
     if \<not> json_eq v (JInt POLICY_SCHEMA_VERSION)
     then ver_fail ''policy_schema_mismatch'' ''policy schema_version must be 3'' ''policy.schema_version''
     else
     bind_r (json_get observation ''schema'') (\<lambda>v.
     if \<not> json_eq v OBSERVATION_SCHEMA
     then ver_fail ''observation_schema_mismatch'' ''frozen observation schema is not v3'' ''observation.schema''
     else
     bind_r (json_get receipt ''schema'') (\<lambda>v.
     if \<not> json_eq v RECEIPT_SCHEMA
     then ver_fail ''receipt_schema_mismatch'' ''unexpected frozen receipt schema'' ''receipt.schema''
     else
     bind_r (json_get policy CONFIGURATION) (\<lambda>configuration.
     if \<not> is_obj configuration
     then ver_fail ''configuration_missing'' ''policy configuration is absent'' (''policy.'' @ CONFIGURATION)
     else
     bind_r (json_get observation CONFIGURATION) (\<lambda>v.
     if \<not> json_eq v configuration
     then ver_fail ''observation_configuration_mismatch'' ''policy and observation configurations differ''
       (''observation.'' @ CONFIGURATION)
     else
     bind_r (json_get receipt ''configuration'') (\<lambda>v.
     if \<not> json_eq v configuration
     then ver_fail ''receipt_configuration_mismatch'' ''policy and receipt configurations differ'' ''receipt.configuration''
     else
     bind_r (json_get configuration ''configuration_id'') (\<lambda>i.
     if \<not> is_str i \<or> the_str i = []
     then ver_fail ''configuration_id_invalid'' ''configuration_id must be a nonempty string''
       (''policy.'' @ CONFIGURATION @ ''.configuration_id'')
     else Inr configuration)))))))"

text \<open>
  \<open>os.path.normcase(os.path.abspath(p))\<close> is the parameter \<open>norm\<close>, \<open>None\<close> for the exceptions the code
  catches.  The size of a snapshot is an integer by its type.
\<close>

definition frozen_records :: "(string \<Rightarrow> string option) \<Rightarrow> snapshot \<Rightarrow> string \<Rightarrow> string \<Rightarrow> json \<Rightarrow> json \<Rightarrow> (json \<times> json) ver" where
  "frozen_records norm artifact kind observation_key observation receipt =
     (let receipt_key = kind @ ''_library''; at = ''receipt.artifacts.'' @ receipt_key in
      bind_r (json_get_or receipt (JObj []) ''artifacts'') (\<lambda>a.
      bind_r (json_get a receipt_key) (\<lambda>receipt_artifact.
      bind_r (json_get_or observation (JObj []) ''artifacts'') (\<lambda>a.
      bind_r (json_get a observation_key) (\<lambda>observed_artifact.
      if \<not> is_obj receipt_artifact \<or> \<not> is_obj observed_artifact
      then ver_fail ''artifact_record_missing'' (''missing '' @ kind @ '' artifact record'') at
      else
      case (norm (sn_path artifact), json_item receipt_artifact ''path'') of
        (Some requested, Inr (JStr p)) \<Rightarrow>
          (case norm p of
             None \<Rightarrow> ver_fail ''artifact_path_invalid'' ''receipt artifact path is invalid'' (at @ ''.path'')
           | Some recorded \<Rightarrow>
               if requested \<noteq> recorded
               then ver_fail ''artifact_path_mismatch'' ''argument does not name the receipt artifact'' (at @ ''.path'')
               else Inr (receipt_artifact, observed_artifact))
      | _ \<Rightarrow> ver_fail ''artifact_path_invalid'' ''receipt artifact path is invalid'' (at @ ''.path''))))))"

definition frozen_identity :: "snapshot \<Rightarrow> json \<Rightarrow> json \<times> json \<Rightarrow> string \<Rightarrow> string \<Rightarrow> json ver" where
  "frozen_identity artifact actual_sha records at observed_at =
     (let (receipt_artifact, observed_artifact) = records in
      if \<not> is_str actual_sha
      then ver_fail ''artifact_snapshot_metadata_invalid'' ''captured artifact metadata is incomplete'' at
      else
      bind_r (json_get receipt_artifact ''size'') (\<lambda>v.
      if \<not> json_eq v (JInt (sn_size artifact))
      then ver_fail ''artifact_size_mismatch'' ''receipt size does not match artifact'' (at @ ''.size'')
      else
      bind_r (json_get receipt_artifact ''sha256'') (\<lambda>v.
      if \<not> json_eq v actual_sha
      then ver_fail ''artifact_sha256_mismatch'' ''receipt SHA-256 does not match artifact'' (at @ ''.sha256'')
      else
      bind_r (json_get observed_artifact ''status'') (\<lambda>status.
      bind_r (json_get observed_artifact ''sha256'') (\<lambda>v.
      if \<not> json_eq status (JStr ''observed'') \<or> \<not> json_eq v actual_sha
      then ver_fail ''observation_artifact_mismatch'' ''observation does not bind the frozen artifact'' observed_at
      else Inr (JObj [(''size'', JInt (sn_size artifact)), (''sha256'', actual_sha)]))))))"

definition validate_frozen_artifact :: "('e, 'y) snapshot_owner_scheme \<Rightarrow> (string \<Rightarrow> string option) \<Rightarrow> snapshot \<Rightarrow> string
    \<Rightarrow> json \<Rightarrow> json \<Rightarrow> (ver_exc, 'e, json) io" where
  "validate_frozen_artifact owner norm artifact kind observation receipt =
     (let observation_key = (if kind = ''dynamic'' then ''dynamic'' else ''static'') in
      act_bind (act_lift (frozen_records norm artifact kind observation_key observation receipt)) (\<lambda>records.
      act_bind (act_owner (so_metadata_record owner artifact)) (\<lambda>metadata.
      act_bind (act_lift (json_get metadata ''sha256'')) (\<lambda>actual_sha.
      act_lift (frozen_identity artifact actual_sha records (''receipt.artifacts.'' @ kind @ ''_library'')
        (''observation.artifacts.'' @ observation_key))))))"

end
