(* ===== verification/Archive_Correct.thy ===== *)
theory Archive_Correct
  imports Archive "HOL-Library.Multiset"
begin

text \<open>
  What an accepted archive satisfies, and which exceptions the archive parser raises
  (\<open>tools/abi_artifact_parity.py\<close>, \<open>parse_ranlib\<close> and \<open>parse_static_archive\<close>).
\<close>

section \<open>Counters\<close>

lemma counter_eq_mset: "counter_eq xs ys \<longleftrightarrow> mset xs = mset ys"
proof -
  have count: "count (mset zs) x = count_list zs x" for zs :: "'a list" and x
    by (induction zs) auto
  have "counter_eq xs ys \<longleftrightarrow> (\<forall>x. count_list xs x = count_list ys x)"
    unfolding counter_eq_def list_all_iff set_append by (metis UnCI count_notin)
  then show ?thesis by (simp add: multiset_eq_iff count)
qed

section \<open>The scan\<close>

lemma obeys_ascii_int [obeys_intros]:
  assumes "0 \<le> base" "\<And>n. 0 \<le> n \<Longrightarrow> Q n"
  shows "obeys (parse_ascii_int v base l) Q"
proof (rule obeys_closed)
  show "obeys (parse_ascii_int v base l) (\<lambda>_. True)"
    unfolding parse_ascii_int_def Let_def by (intro obeys_intros TrueI)
qed (use assms parse_ascii_int_nonneg in auto)

lemma obeys_parse_member:
  assumes "\<And>m. parse_member data index offset = Inr m \<Longrightarrow> Q m"
  shows "obeys (parse_member data index offset) Q"
proof (rule obeys_closed)
  show "obeys (parse_member data index offset) (\<lambda>_. True)"
    unfolding parse_member_def Let_def by (intro obeys_intros TrueI) simp_all
qed (rule assms)

lemma obeys_member_claims:
  assumes "keeps_builder A b0 b" "\<And>b'. keeps_builder A b0 b' \<Longrightarrow> Q b'"
  shows "obeys (member_claims m b) Q"
  unfolding member_claims_def Let_def
  by (intro obeys_intros obeys_add_plain[OF assms(1)] obeys_add_plain[of A b0] assms)

lemma obeys_member_padding:
  assumes "keeps_builder A b0 b" "rm_payload_offset m + rm_stored_size m \<le> blen data"
    and "\<And>nx b'. keeps_builder A b0 b' \<Longrightarrow> nx = rm_payload_offset m + rm_stored_size m + rm_stored_size m mod 2 \<Longrightarrow>
      nx \<le> blen data \<Longrightarrow> Q (nx, b')"
  shows "obeys (member_padding data m b) Q"
  unfolding member_padding_def Let_def
  by (intro obeys_intros obeys_add[OF assms(1)] assms(3)) (use assms(1,2) in auto)

text \<open>Members read in order, back to back, up to the end of the file.\<close>

fun member_chain :: "int \<Rightarrow> int \<Rightarrow> raw_member list \<Rightarrow> int \<Rightarrow> bool" where
  "member_chain index offset [] end' \<longleftrightarrow> offset = end'"
| "member_chain index offset (m # ms) end' \<longleftrightarrow> rm_index m = index \<and> rm_header_offset m = offset
     \<and> rm_payload_offset m = offset + 60 \<and> 0 < rm_name_length m \<and> 0 \<le> rm_body_size m
     \<and> rm_body_offset m = rm_payload_offset m + rm_name_length m
     \<and> rm_stored_size m = rm_name_length m + rm_body_size m
     \<and> member_chain (index + 1) (rm_payload_offset m + rm_stored_size m + rm_stored_size m mod 2) ms end'"

lemma obeys_archive_scan:
  assumes "keeps_builder A b0 b" "offset \<le> blen data"
    and "\<And>raw b'. member_chain index offset raw (blen data) \<Longrightarrow> keeps_builder A b0 b' \<Longrightarrow> Q (raw, blen data, b')"
  shows "obeys (archive_scan data index offset b) Q"
  using assms
proof (induction data index offset b arbitrary: Q rule: archive_scan.induct)
  case (1 data index offset b)
  show ?case
  proof (cases "offset < blen data")
    case True
    show ?thesis
      unfolding archive_scan.simps[of data index offset b] if_P[OF True]
    proof (rule obeys_if, rule obeys_plain, rule obeys_bind, rule obeys_parse_member, rule obeys_bind)
      fix m assume idx: "\<not> MAX_ARCHIVE_MEMBERS \<le> index" and m: "parse_member data index offset = Inr m"
      note f = parse_member_Inr[OF m]
      show "obeys (member_claims m b) (\<lambda>b. obeys (bind_r (member_padding data m b) (\<lambda>p.
          bind_r (archive_scan data (index + 1) (fst p) (snd p)) (\<lambda>r. Inr (m # fst r, snd r)))) Q)"
      proof (rule obeys_mono[OF obeys_member_claims[OF "1.prems"(1), where Q = "keeps_builder A b0"]], assumption)
        fix b' assume c: "member_claims m b = Inr b'" and k: "keeps_builder A b0 b'"
        show "obeys (bind_r (member_padding data m b') (\<lambda>p.
          bind_r (archive_scan data (index + 1) (fst p) (snd p)) (\<lambda>r. Inr (m # fst r, snd r)))) Q"
        proof (rule obeys_bind, rule obeys_mono[OF obeys_member_padding[OF k f(9), where
            Q = "\<lambda>p. keeps_builder A b0 (snd p) \<and> fst p \<le> blen data
              \<and> fst p = rm_payload_offset m + rm_stored_size m + rm_stored_size m mod 2"]])
          fix p assume p: "member_padding data m b' = Inr p"
            and q: "keeps_builder A b0 (snd p) \<and> fst p \<le> blen data
              \<and> fst p = rm_payload_offset m + rm_stored_size m + rm_stored_size m mod 2"
          show "obeys (bind_r (archive_scan data (index + 1) (fst p) (snd p)) (\<lambda>r. Inr (m # fst r, snd r))) Q"
            by (rule obeys_bind, rule "1.IH"[OF True idx m c p], use q in simp, use q in simp)
              (use q f "1.prems"(3) in \<open>auto intro!: obeys_Inr\<close>)
        qed auto
      qed
    qed
  next
    case False
    then show ?thesis
      unfolding archive_scan.simps[of data index offset b] using 1 by (auto intro!: obeys_Inr)
  qed
qed

section \<open>The index\<close>

lemma obeys_boundaries:
  assumes "0 \<le> cursor"
  shows "obeys (ranlib_boundaries strings cursor) (\<lambda>_. True)"
  using assms
proof (induction strings cursor rule: ranlib_boundaries.induct)
  case (1 strings cursor)
  show ?case
    unfolding ranlib_boundaries.simps[of strings cursor]
  proof (rule obeys_if, rule obeys_bind, rule obeys_cstring)
    fix v nx assume lt: "cursor < blen strings"
      and c: "cstring strings cursor (blen strings) ''archive.ranlib.strings'' = Inr (v, nx)"
    have nx: "0 \<le> nx" using cstring_Inr(2,3)[OF c] "1.prems" by linarith
    show "obeys (if fst (v, nx) = []
        then (if any_nonzero (py_slice strings cursor (blen strings))
              then fail ''archive.ranlib'' ''nonzero bytes after ranlib string terminator'' else Inr [])
        else bind_r (ranlib_boundaries strings (snd (v, nx))) (\<lambda>r. Inr ((cursor, fst (v, nx)) # r))) (\<lambda>_. True)"
      using "1.IH"[OF lt c] nx by (auto intro!: obeys_if obeys_fail obeys_Inr obeys_bind elim: obeys_mono)
  qed (simp add: obeys_Inr)
qed

lemma obeys_ranlib_step:
  assumes "0 \<le> index" "4 + index * 8 + 8 \<le> blen data"
  shows "obeys (ranlib_step data boundaries offsets index) (\<lambda>e. rl_index e = index \<and> rl_member_offset e \<in> set offsets)"
  unfolding ranlib_step_def Let_def using assms
  by (auto intro!: obeys_intros split: option.split)

lemma obeys_parse_ranlib:
  assumes "\<And>es. map rl_index es = map int [0..<length es] \<Longrightarrow> rl_member_offset ` set es \<subseteq> set offsets \<Longrightarrow>
      4 + blen es * 8 \<le> blen data \<Longrightarrow> Q es"
  shows "obeys (parse_ranlib data offsets) Q"
  unfolding parse_ranlib_def Let_def
proof (intro obeys_if obeys_fail obeys_bind obeys_struct obeys_mono[OF obeys_boundaries], goal_cases)
  case (6 bs)
  let ?n = "u32 data 0 div 8"
  have nonneg: "0 \<le> u32 data 0" by (rule u_le_nonneg)
  have n: "0 \<le> ?n" "?n * 8 \<le> blen data - 8"
    using 6(1,2) nonneg by (simp_all del: u_le_nonneg add: minus_mod_eq_div_mult [symmetric])
  show ?case
  proof (rule obeys_map_r[where P = "\<lambda>i e. rl_index e = i \<and> rl_member_offset e \<in> set offsets"])
    fix i assume "i \<in> set [0..?n - 1]"
    then have "0 \<le> i" "i < ?n" by auto
    then show "obeys (ranlib_step data bs offsets i) (\<lambda>e. rl_index e = i \<and> rl_member_offset e \<in> set offsets)"
      using n by (intro obeys_ranlib_step) auto
  next
    fix es :: "ranlib_entry list" assume l: "list_all2 (\<lambda>i e. rl_index e = i \<and> rl_member_offset e \<in> set offsets) [0..?n - 1] es"
    have "map rl_index es = [0..?n - 1]"
      using l by (auto simp: list_all2_conv_all_nth intro!: nth_equalityI)
    moreover have len: "blen es = ?n" using list_all2_lengthD[OF l] n(1) by (simp add: blen_def)
    moreover have "[0..int k - 1] = map int [0..<k]" for k
      by (induction k) (simp_all add: upto_rec2)
    ultimately have "map rl_index es = map int [0..<length es]" by (metis blen_def)
    moreover have "rl_member_offset ` set es \<subseteq> set offsets"
      using l by (auto simp: list_all2_conv_all_nth in_set_conv_nth)
    ultimately show "Q es" using len n by (intro assms) auto
  qed
qed (use u_le_nonneg[of data 0 4] u_le_nonneg[of data "4 + u32 data 0" 4] in auto)

section \<open>The second pass\<close>

definition member_bytes :: "bytes \<Rightarrow> raw_member \<Rightarrow> bytes" where
  "member_bytes data m = py_slice data (rm_body_offset m) (rm_body_offset m + rm_body_size m)"

definition member_volatile :: "archive_member \<Rightarrow> volatile set" where
  "member_volatile m = (case am_object m of None \<Rightarrow> {} | Some ob \<Rightarrow>
     {Volatile (full_locator ''archive'' (''member['' @ show_int (am_index m) @ ''].'' @ a_locator a))
        (am_data_offset m + a_offset a) (a_size a) | a. a \<in> set (mo_atoms ob) \<and> a_role a = Allowed_Payload})"

definition member_provenance :: "archive_member \<Rightarrow> provenance_locator list" where
  "member_provenance m = (case am_object m of None \<Rightarrow> [] | Some ob \<Rightarrow>
     map (\<lambda>p. p\<lparr>pl_source_locator := member_locator (am_index m) @ ''.'' @ pl_source_locator p,
       pl_path_offset := am_data_offset m + pl_path_offset p\<rparr>) (mo_provenance ob))"

definition member_symbols :: "archive_member \<Rightarrow> symbol_record list" where
  "member_symbols m = (case am_object m of None \<Rightarrow> [] | Some ob \<Rightarrow> mo_symbols ob)"

definition pass_inv :: "atom_builder \<Rightarrow> archive_state \<Rightarrow> bool" where
  "pass_inv b0 s \<longleftrightarrow> keeps_builder (\<Union>m \<in> set (as_members s). member_volatile m) b0 (as_builder s)
     \<and> as_symbols s = concat (map member_symbols (as_members s))
     \<and> as_provenance s = concat (map member_provenance (as_members s))"

definition parsed_as :: "bytes \<Rightarrow> raw_member \<Rightarrow> macho_artifact option \<Rightarrow> bool" where
  "parsed_as data m ob \<longleftrightarrow> (if rm_index m > 0 then \<exists>x p. ob = Some x \<and> object_ok (member_bytes data m) x p else ob = None)"

lemma obeys_rebase:
  assumes "keeps_builder A b0 b" "b_prefix b0 = ''archive''" "member_volatile (archive_member_of m (Some ob)) \<subseteq> A"
  shows "obeys (fold_r (rebase_atom m) (mo_atoms ob) b) (keeps_builder A b0)"
proof (rule obeys_fold[where I = "keeps_builder A b0"], rule assms(1))
  fix a b assume a: "a \<in> set (mo_atoms ob)" and k: "keeps_builder A b0 b"
  show "obeys (rebase_atom m a b) (keeps_builder A b0)"
    unfolding rebase_atom_def
    by (rule obeys_add[OF k])
      (use a assms(2,3) in \<open>auto simp: member_volatile_def archive_member_of_def\<close>)
qed

lemma obeys_archive_step:
  assumes inv: "pass_inv b0 s" and pre: "b_prefix b0 = ''archive''"
  shows "obeys_or StructError (archive_step data label m s)
    (\<lambda>t. pass_inv b0 t \<and> (\<exists>ob. as_members t = as_members s @ [archive_member_of m ob] \<and> parsed_as data m ob))"
proof (cases "rm_index m > 0")
  case True
  let ?U = "\<lambda>ob. (\<Union>m \<in> set (as_members s). member_volatile m) \<union> member_volatile (archive_member_of m (Some ob))"
  show ?thesis
    unfolding archive_step_def if_P[OF True]
  proof (rule obeys_or_if, rule obeys_or_lift, rule obeys_fail, rule obeys_or_bind,
      unfold member_object_def parse_macho_object_def, rule obeys_or_mono[OF obeys_parse_object], rule obeys_or_lift)
    fix ob assume ok: "\<exists>p. object_ok (py_slice data (rm_body_offset m) (rm_body_offset m + rm_body_size m)) ob p"
    have k: "keeps_builder (?U ob) b0 (as_builder s)"
      using inv by (auto simp: pass_inv_def intro: keeps_builder_mono)
    show "obeys (bind_r (fold_r (rebase_atom m) (mo_atoms ob) (as_builder s)) (\<lambda>b.
        bind_r (add_derived b (rm_header_offset m + 48) 10
          (''member['' @ show_int (rm_index m) @ ''].stored_size'') static_cache_dependency) (\<lambda>b.
        Inr \<lparr>as_names = rm_name m # as_names s, as_builder = b, as_symbols = as_symbols s @ mo_symbols ob,
             as_provenance = as_provenance s @ map (rebase_provenance m) (mo_provenance ob),
             as_members = as_members s @ [archive_member_of m (Some ob)]\<rparr>)))
       (\<lambda>t. pass_inv b0 t \<and> (\<exists>ob. as_members t = as_members s @ [archive_member_of m ob] \<and> parsed_as data m ob))"
    proof (rule obeys_bind, rule obeys_mono[OF obeys_rebase[OF k pre]], simp, rule obeys_bind, rule obeys_add_derived, assumption,
        rule obeys_Inr)
      fix b assume b: "keeps_builder (?U ob) b0 b"
      let ?t = "\<lparr>as_names = rm_name m # as_names s, as_builder = b, as_symbols = as_symbols s @ mo_symbols ob,
             as_provenance = as_provenance s @ map (rebase_provenance m) (mo_provenance ob),
             as_members = as_members s @ [archive_member_of m (Some ob)]\<rparr>"
      have "pass_inv b0 ?t"
        using inv b by (simp add: pass_inv_def member_symbols_def member_provenance_def archive_member_of_def
            rebase_provenance_def sup_commute)
      then show "pass_inv b0 ?t \<and> (\<exists>ob. as_members ?t = as_members s @ [archive_member_of m ob] \<and> parsed_as data m ob)"
        using ok True by (auto simp: parsed_as_def member_bytes_def)
    qed
  qed
next
  case False
  then show ?thesis
    using inv unfolding archive_step_def
    by (auto simp: pass_inv_def parsed_as_def member_symbols_def member_provenance_def member_volatile_def
        archive_member_of_def obeys_or_def)
qed

lemma obeys_archive_steps:
  assumes "pass_inv b0 s" "b_prefix b0 = ''archive''"
  shows "obeys_or StructError (fold_r (archive_step data label) raw s)
    (\<lambda>t. pass_inv b0 t \<and> (\<exists>obs. as_members t = as_members s @ map2 archive_member_of raw obs
       \<and> list_all2 (parsed_as data) raw obs))"
  using assms(1)
proof (induction raw arbitrary: s)
  case (Cons m raw)
  show ?case
    unfolding fold_r.simps
  proof (rule obeys_or_bind, rule obeys_or_mono[OF obeys_archive_step[OF Cons.prems assms(2)]], elim conjE exE)
    fix s' ob assume s': "pass_inv b0 s'" "as_members s' = as_members s @ [archive_member_of m ob]" "parsed_as data m ob"
    show "obeys_or StructError (fold_r (archive_step data label) raw s') (\<lambda>t. pass_inv b0 t
        \<and> (\<exists>obs. as_members t = as_members s @ map2 archive_member_of (m # raw) obs
        \<and> list_all2 (parsed_as data) (m # raw) obs))"
    proof (rule obeys_or_mono[OF Cons.IH[OF s'(1)]], elim conjE exE)
      fix t obs assume t: "pass_inv b0 t" "as_members t = as_members s' @ map2 archive_member_of raw obs"
        "list_all2 (parsed_as data) raw obs"
      show "pass_inv b0 t \<and> (\<exists>obs. as_members t = as_members s @ map2 archive_member_of (m # raw) obs
        \<and> list_all2 (parsed_as data) (m # raw) obs)"
        using t s' by (intro conjI exI[of _ "ob # obs"]) simp_all
    qed
  qed
qed (simp add: obeys_or_def)

section \<open>The whole archive\<close>

lemma member_chain_index: "member_chain index offset raw e \<Longrightarrow> map rm_index raw = map (\<lambda>k. index + int k) [0..<length raw]"
proof (induction raw arbitrary: index offset)
  case (Cons m raw)
  then have "map rm_index raw = map (\<lambda>k. index + 1 + int k) [0..<length raw]" by auto
  then show ?case
    using Cons.prems by (simp add: upt_conv_Cons map_Suc_upt [symmetric] comp_def add.assoc del: upt_Suc)
qed simp

text \<open>Exactly one provenance means exactly one object.\<close>

lemma one_object:
  assumes chain: "member_chain 0 offset raw e" and obs: "list_all2 (parsed_as data) raw obs"
    and len: "2 \<le> length raw" and one: "length (concat (map member_provenance (map2 archive_member_of raw obs))) = 1"
  obtains m0 m1 ob p where "raw = [m0, m1]" "obs = [None, Some ob]" "object_ok (member_bytes data m1) ob p"
proof -
  obtain m0 rest where raw: "raw = m0 # rest" using len by (cases raw) auto
  obtain o0 obs' where o: "obs = o0 # obs'" "parsed_as data m0 o0" "list_all2 (parsed_as data) rest obs'"
    using obs raw by (auto simp: list_all2_Cons1)
  have idx: "map rm_index raw = map int [0..<length raw]" using member_chain_index[OF chain] by simp
  have "rm_index m0 = 0" using chain by (simp add: raw)
  then have o0: "o0 = None" using o(2) by (simp add: parsed_as_def)
  have pos: "rm_index m > 0" if "m \<in> set rest" for m
  proof -
    obtain k where k: "k < length rest" "m = rest ! k" using \<open>m \<in> set rest\<close> by (auto simp: in_set_conv_nth)
    have "map rm_index raw ! Suc k = map int [0..<length raw] ! Suc k" by (simp only: idx)
    then show ?thesis using k by (simp add: raw del: upt_Suc)
  qed
  have one_each: "length (member_provenance (archive_member_of m ob)) = 1" if "m \<in> set rest" "parsed_as data m ob" for m ob
    using that pos[OF that(1)] by (auto simp: parsed_as_def member_provenance_def archive_member_of_def object_ok_def)
  have "length (concat (map member_provenance (map2 archive_member_of xs os))) = length xs"
    if "list_all2 (parsed_as data) xs os" "set xs \<subseteq> set rest" for xs os
    using that by (induction rule: list_all2_induct) (auto simp: one_each)
  from this[OF o(3)] have "length rest = 1"
    using one by (simp add: raw o(1) o0 member_provenance_def archive_member_of_def)
  then obtain m1 where m1: "rest = [m1]" by (auto simp: length_Suc_conv)
  then obtain o1 where o1: "obs' = [o1]" "parsed_as data m1 o1" using o(3) by (auto simp: list_all2_Cons1)
  obtain ob p where "o1 = Some ob" "object_ok (member_bytes data m1) ob p"
    using o1(2) pos[of m1] m1 by (auto simp: parsed_as_def)
  then show ?thesis by (intro that[of m0 m1 ob p]) (simp_all add: raw m1 o(1) o0 o1(1))
qed

lemma obeys_archive_members:
  assumes "\<And>raw b. member_chain 0 8 raw (blen data) \<Longrightarrow> 2 \<le> length raw \<Longrightarrow> rm_name (hd raw) = ''__.SYMDEF'' \<Longrightarrow>
      keeps_builder {} (new_builder data ''archive'') b \<Longrightarrow> Q (raw, b)"
  shows "obeys (archive_members data) Q"
proof -
  have new: "keeps_builder {} (new_builder data ''archive'') (new_builder data ''archive'')"
    by (rule keeps_builder_refl[OF builder_inv_new])
  have len: "8 \<le> blen data" if "starts_with data AR_MAGIC"
  proof -
    have "length (take (length AR_MAGIC) data) = length AR_MAGIC" using that by (simp only: starts_with_def)
    then have "8 \<le> length data" by (simp add: AR_MAGIC_def min_def split: if_splits)
    then show ?thesis by (simp add: blen_def)
  qed
  show ?thesis
    unfolding archive_members_def Let_def
    by (intro obeys_if obeys_plain obeys_bind obeys_add_plain[OF new] obeys_archive_scan[of "{}" "new_builder data ''archive''"]
        obeys_Inr assms)
      (use len in \<open>auto simp: AR_MAGIC_def\<close>)
qed

lemma obeys_check_index:
  assumes "\<And>m. m \<in> set (tl (as_members s)) \<Longrightarrow> am_object m \<noteq> None"
    and "rl_member_offset ` set ranlib \<subseteq> rm_header_offset ` set raw"
    and "mset (map rl_symbol ranlib) = mset (map sym_name (filter externally_defined (as_symbols s))) \<Longrightarrow> Q ()"
  shows "obeys (check_index raw ranlib s) Q"
proof -
  have actual: "obeys (actual_objects raw ranlib) (\<lambda>_. True)"
    unfolding actual_objects_def
  proof (rule obeys_map_r[where P = "\<lambda>_ _. True"])
    fix e assume "e \<in> set ranlib"
    then have "rl_member_offset e \<in> fst ` set (map (\<lambda>m. (rm_header_offset m, rm_name m)) raw)"
      using assms(2) by (auto simp: image_image)
    then obtain n where "map_of (map (\<lambda>m. (rm_header_offset m, rm_name m)) raw) (rl_member_offset e) = Some n"
      by (metis map_of_eq_None_iff option.exhaust)
    then show "obeys (case map_of (map (\<lambda>m. (rm_header_offset m, rm_name m)) raw) (rl_member_offset e) of
        None \<Rightarrow> Inl (KeyError (show_int (rl_member_offset e))) | Some name \<Rightarrow> Inr (rl_symbol e, name)) (\<lambda>_. True)"
      by (simp add: obeys_Inr)
  qed simp
  have expected: "obeys (expected_objects (as_members s)) (\<lambda>_. True)"
    unfolding expected_objects_def
    by (rule obeys_bind, rule obeys_map_r[where P = "\<lambda>_ _. True"])
      (use assms(1) in \<open>fastforce split: option.splits intro!: obeys_Inr\<close>, simp_all add: obeys_Inr)
  show ?thesis
    unfolding check_index_def
    by (intro obeys_if obeys_plain obeys_bind obeys_mono[OF expected] obeys_mono[OF actual] obeys_Inr assms(3))
      (simp_all add: counter_eq_mset)
qed

lemma obeys_padding_atoms:
  "obeys (padding_atoms raw atoms) (\<lambda>pads. \<forall>a \<in> set pads. a_size a = 0 \<and> a_role a = Derived_Padding)"
  unfolding padding_atoms_def
proof (rule obeys_map_r[where P = "\<lambda>_ a. a_size a = 0 \<and> a_role a = Derived_Padding"])
  fix m
  have post: "a' = a" if "atom_post_init a = Inr a'" for a a'
    using that by (auto simp: atom_post_init_def res_simps)
  show "obeys (atom_post_init (padding_atom m)) (\<lambda>a. a_size a = 0 \<and> a_role a = Derived_Padding)"
    by (intro obeys_closed[OF obeys_atom_post_init]) (auto dest!: post simp: padding_atom_def)
qed (auto simp: list_all2_conv_all_nth in_set_conv_nth)

definition archive_ok :: "bytes \<Rightarrow> archive_artifact \<Rightarrow> bool" where
  "archive_ok data art \<longleftrightarrow> ar_raw art = data \<and>
     (\<exists>m0 m1 ob p q atoms pads. member_chain 0 8 [m0, m1] (blen data) \<and> rm_name m0 = ''__.SYMDEF''
        \<and> ar_members art = [archive_member_of m0 None, archive_member_of m1 (Some ob)]
        \<and> object_ok (member_bytes data m1) ob p \<and> ar_symbols art = mo_symbols ob
        \<and> mset (map rl_symbol (ar_ranlib art)) = mset (map sym_name (filter externally_defined (mo_symbols ob)))
        \<and> (\<forall>e \<in> set (ar_ranlib art). rl_member_offset e = rm_header_offset m1)
        \<and> ar_atoms art = atoms @ pads \<and> partitioned data atoms
        \<and> (\<forall>a \<in> set pads. a_size a = 0 \<and> a_role a = Derived_Padding)
        \<and> ar_provenance art = [q] \<and> pl_path q = pl_path p
        \<and> volatile_within {(pl_path_offset q, pl_path_size q)} (ar_atoms art)
        \<and> (\<exists>dir. pl_path q = dir @ ''/builtin.zig'' \<and> global_cache_dir_match (bytes_of_str dir) \<noteq> None
             \<and> bytes_of_str dir = py_slice data (pl_path_offset q) (pl_path_offset q + pl_path_size q)))"

lemma obeys_archive_objects:
  assumes chain: "member_chain 0 8 raw (blen data)" "2 \<le> length raw"
    and b: "keeps_builder {} (new_builder data ''archive'') b"
    and Q: "\<And>ranlib s m0 m1 ob p. raw = [m0, m1] \<Longrightarrow> object_ok (member_bytes data m1) ob p \<Longrightarrow>
       as_members s = [archive_member_of m0 None, archive_member_of m1 (Some ob)] \<Longrightarrow>
       pass_inv (new_builder data ''archive'') s \<Longrightarrow> rl_member_offset ` set ranlib \<subseteq> {rm_header_offset m1} \<Longrightarrow>
       mset (map rl_symbol ranlib) = mset (map sym_name (filter externally_defined (mo_symbols ob))) \<Longrightarrow> Q (ranlib, s)"
  shows "obeys_or StructError (archive_objects data label raw b) Q"
  unfolding archive_objects_def Let_def
proof (rule obeys_or_bind_left, rule obeys_parse_ranlib, rule obeys_or_bind_left)
  let ?b0 = "new_builder data ''archive''"
  fix ranlib :: "ranlib_entry list" assume r: "rl_member_offset ` set ranlib \<subseteq> set (map rm_header_offset (tl raw))"
  show "obeys (fold_r (ranlib_claim (hd raw)) ranlib b) (\<lambda>b. obeys_or StructError
      (bind_r (fold_r (archive_step data label) raw
                \<lparr>as_names = [], as_builder = b, as_symbols = [], as_provenance = [], as_members = []\<rparr>) (\<lambda>s.
      if length (as_provenance s) \<noteq> 1
      then plain_error (''archive must expose exactly one cache builtin path, found ''
             @ show_int (blen (as_provenance s)))
      else bind_r (check_index raw ranlib s) (\<lambda>_. Inr (ranlib, s)))) Q)"
  proof (rule obeys_fold[where I = "keeps_builder {} ?b0"], rule b)
    fix e b assume "keeps_builder {} ?b0 b"
    then show "obeys (ranlib_claim (hd raw) e b) (keeps_builder {} ?b0)"
      unfolding ranlib_claim_def by (rule obeys_add_derived)
  next
    fix b assume "keeps_builder {} ?b0 b"
    then have inv: "pass_inv ?b0 \<lparr>as_names = [], as_builder = b, as_symbols = [], as_provenance = [], as_members = []\<rparr>"
      by (simp add: pass_inv_def)
    show "obeys_or StructError (bind_r (fold_r (archive_step data label) raw
                \<lparr>as_names = [], as_builder = b, as_symbols = [], as_provenance = [], as_members = []\<rparr>) (\<lambda>s.
      if length (as_provenance s) \<noteq> 1
      then plain_error (''archive must expose exactly one cache builtin path, found ''
             @ show_int (blen (as_provenance s)))
      else bind_r (check_index raw ranlib s) (\<lambda>_. Inr (ranlib, s)))) Q"
    proof (rule obeys_or_bind, rule obeys_or_mono[OF obeys_archive_steps[OF inv]], simp add: new_builder_def,
        rule obeys_or_lift, rule obeys_if, rule obeys_plain, rule obeys_bind, elim conjE exE)
      fix s obs assume one: "\<not> length (as_provenance s) \<noteq> 1" and s: "pass_inv ?b0 s"
        and ms: "as_members s = as_members \<lparr>as_names = [], as_builder = b, as_symbols = [], as_provenance = [],
            as_members = []\<rparr> @ map2 archive_member_of raw obs"
        and obs: "list_all2 (parsed_as data) raw obs"
      obtain m0 m1 ob p where o: "raw = [m0, m1]" "obs = [None, Some ob]" "object_ok (member_bytes data m1) ob p"
        by (rule one_object[OF chain(1) obs chain(2)]) (use one s ms in \<open>simp_all add: pass_inv_def\<close>)
      have mem: "as_members s = [archive_member_of m0 None, archive_member_of m1 (Some ob)]"
        using ms by (simp add: o)
      have sy: "as_symbols s = mo_symbols ob"
        using s by (simp add: pass_inv_def mem member_symbols_def archive_member_of_def)
      show "obeys (check_index raw ranlib s) (\<lambda>_. obeys (Inr (ranlib, s)) Q)"
        by (rule obeys_check_index)
          (use r mem sy Q[OF o(1,3) mem s] in \<open>auto simp: o(1) archive_member_of_def intro!: obeys_Inr\<close>)
    qed
  qed
qed

lemma volatile_within_mono:
  assumes "volatile_within R atoms"
    and "\<And>r. r \<in> R \<Longrightarrow> \<exists>q \<in> S. fst q \<le> fst r \<and> fst r + snd r \<le> fst q + snd q"
  shows "volatile_within S atoms"
  unfolding volatile_within_def
proof (intro ballI impI)
  fix a assume "a \<in> set atoms" "a_role a = Allowed_Payload"
  then obtain r where r: "r \<in> R" "fst r \<le> a_offset a" "a_offset a + a_size a \<le> fst r + snd r"
    using assms(1) by (auto simp: volatile_within_def)
  obtain q where "q \<in> S" "fst q \<le> fst r" "fst r + snd r \<le> fst q + snd q" using assms(2)[OF r(1)] by blast
  then show "\<exists>q \<in> S. fst q \<le> a_offset a \<and> a_offset a + a_size a \<le> fst q + snd q"
    using r by (intro bexI[of _ q]) auto
qed

lemma archive_volatile:
  assumes ob: "object_ok (member_bytes data m) ob p"
    and keeps: "keeps_builder (member_volatile (archive_member_of m (Some ob))) (new_builder data ''archive'') b"
    and fin: "builder_finish b = Inr atoms"
  shows "volatile_within {(rm_body_offset m + pl_path_offset p, pl_path_size p)} atoms"
proof -
  let ?A = "member_volatile (archive_member_of m (Some ob))"
  have dist: "distinct (map a_locator (mo_atoms ob))" using ob by (simp add: object_ok_def partitioned_def)
  have inj: "r = q" if rq: "r \<in> ?A" "q \<in> ?A" "vol_locator r = vol_locator q" for r q
  proof -
    let ?v = "\<lambda>a :: byte_atom. Volatile (full_locator ''archive'' (''member['' @ show_int (rm_index m) @ ''].'' @ a_locator a))
          (rm_body_offset m + a_offset a) (a_size a)"
    obtain a where a: "a \<in> set (mo_atoms ob)" "r = ?v a"
      using rq(1) unfolding member_volatile_def archive_member_of_def by auto
    obtain c where c: "c \<in> set (mo_atoms ob)" "q = ?v c"
      using rq(2) unfolding member_volatile_def archive_member_of_def by auto
    have "a_locator a = a_locator c" using rq(3) unfolding a(2) c(2) by simp
    then have "a = c" using dist a(1) c(1) by (auto simp: distinct_map inj_on_def)
    then show ?thesis by (simp add: a(2) c(2))
  qed
  show ?thesis
  proof (rule volatile_within_mono[OF volatile_within_builder[OF keeps fin inj]])
    fix r assume "r \<in> (\<lambda>r. (vol_start r, vol_size r)) ` ?A"
    then obtain a where a: "a \<in> set (mo_atoms ob)" "a_role a = Allowed_Payload"
      "r = (rm_body_offset m + a_offset a, a_size a)"
      by (auto simp: member_volatile_def archive_member_of_def)
    have "volatile_within {(pl_path_offset p, pl_path_size p)} (mo_atoms ob)" using ob by (simp add: object_ok_def)
    then have "pl_path_offset p \<le> a_offset a" "a_offset a + a_size a \<le> pl_path_offset p + pl_path_size p"
      using a(1,2) by (auto simp: volatile_within_def)
    then show "\<exists>q \<in> {(rm_body_offset m + pl_path_offset p, pl_path_size p)}. fst q \<le> fst r
        \<and> fst r + snd r \<le> fst q + snd q"
      by (simp add: a(3))
  qed
qed

lemma obeys_archive_finish:
  assumes chain: "member_chain 0 8 [m0, m1] (blen data)" and name: "rm_name m0 = ''__.SYMDEF''"
    and ob: "object_ok (member_bytes data m1) ob p"
    and ms: "as_members s = [archive_member_of m0 None, archive_member_of m1 (Some ob)]"
    and inv: "pass_inv (new_builder data ''archive'') s"
    and ranlib: "rl_member_offset ` set ranlib \<subseteq> {rm_header_offset m1}"
      "mset (map rl_symbol ranlib) = mset (map sym_name (filter externally_defined (mo_symbols ob)))"
  shows "obeys (archive_finish data label [m0, m1] ranlib s) (archive_ok data)"
  unfolding archive_finish_def
proof (rule obeys_bind, rule obeys_finish, rule obeys_bind, rule obeys_mono[OF obeys_padding_atoms], rule obeys_Inr)
  fix atoms pads :: "byte_atom list" assume fin: "builder_finish (as_builder s) = Inr atoms"
    and pads: "\<forall>a \<in> set pads. a_size a = 0 \<and> a_role a = Derived_Padding"
  have keeps: "keeps_builder (member_volatile (archive_member_of m1 (Some ob))) (new_builder data ''archive'') (as_builder s)"
    using inv by (simp add: pass_inv_def ms member_volatile_def archive_member_of_def)
  have sy: "as_symbols s = mo_symbols ob"
    using inv by (simp add: pass_inv_def ms member_symbols_def archive_member_of_def)
  obtain q where q: "as_provenance s = [q]" "pl_path q = pl_path p"
    "pl_path_offset q = rm_body_offset m1 + pl_path_offset p" "pl_path_size q = pl_path_size p"
    using inv ob by (auto simp: pass_inv_def ms member_provenance_def archive_member_of_def object_ok_def)
  have vol: "volatile_within {(pl_path_offset q, pl_path_size q)} (atoms @ pads)"
    using archive_volatile[OF ob keeps fin] pads by (auto simp: volatile_within_def q)
  have bo: "0 \<le> rm_body_offset m1" using chain by auto
  obtain dir where dir: "pl_path p = dir @ ''/builtin.zig''" "global_cache_dir_match (bytes_of_str dir) \<noteq> None"
    "bytes_of_str dir = py_slice (member_bytes data m1) (pl_path_offset p) (pl_path_offset p + pl_path_size p)"
    using ob by (auto simp: object_ok_def)
  have "bytes_of_str dir = py_slice data (pl_path_offset q) (pl_path_offset q + pl_path_size q)"
    unfolding dir(3) q(3,4) member_bytes_def using ob bo
    by (subst slice_slice) (auto simp: object_ok_def member_bytes_def add.assoc)
  then show "archive_ok data \<lparr>ar_raw = data, ar_label = label, ar_members = as_members s, ar_ranlib = ranlib,
          ar_structured_axes = archive_axes [m0, m1] ranlib (as_members s), ar_symbols = as_symbols s,
          ar_atoms = atoms @ pads, ar_provenance = as_provenance s\<rparr>"
    unfolding archive_ok_def using chain name ob ms ranlib pads vol q dir(1,2) sy finish_partitions[OF keeps fin]
    by (intro conjI exI[of _ m0] exI[of _ m1] exI[of _ ob] exI[of _ p] exI[of _ q] exI[of _ atoms] exI[of _ pads] exI[of _ dir])
      (simp_all del: member_chain.simps add: image_subset_iff)
qed

lemma obeys_parse_archive: "obeys_or StructError (parse_archive_bytes data label) (archive_ok data)"
  unfolding parse_archive_bytes_def
proof (rule obeys_or_bind_left, rule obeys_archive_members, rule obeys_or_bind, unfold fst_conv snd_conv,
    rule obeys_archive_objects)
  fix raw b s m0 m1 ob p and ranlib :: "ranlib_entry list"
  assume chain: "member_chain 0 8 raw (blen data)" and name: "rm_name (hd raw) = ''__.SYMDEF''"
    and raw: "raw = [m0, m1]" and ob: "object_ok (member_bytes data m1) ob p"
    and "as_members s = [archive_member_of m0 None, archive_member_of m1 (Some ob)]"
    "pass_inv (new_builder data ''archive'') s" "rl_member_offset ` set ranlib \<subseteq> {rm_header_offset m1}"
    "mset (map rl_symbol ranlib) = mset (map sym_name (filter externally_defined (mo_symbols ob)))"
  then show "obeys_or StructError (archive_finish data label raw (fst (ranlib, s)) (snd (ranlib, s))) (archive_ok data)"
    using name chain by (auto simp: raw simp del: member_chain.simps intro!: obeys_or_lift obeys_archive_finish)
qed

section \<open>What the archive parser promises\<close>

lemma obeys_static_archive:
  "obeys_or StructError (parse_static_archive fs source label)
     (\<lambda>art. source_bytes fs source (ar_raw art) \<and> archive_ok (ar_raw art) art)"
  unfolding parse_static_archive_def
  by (rule obeys_or_bind_left, rule obeys_read_source, rule obeys_or_mono[OF obeys_parse_archive])
    (auto simp: source_bytes_def archive_ok_def split: source.split)

text \<open>Parsing an archive, whatever its bytes, returns an artifact over exactly those bytes or
raises \<open>ParityError\<close>, except that \<open>struct.error\<close> may escape from an object member.\<close>

theorem archive_fails_closed_but_struct:
  "case parse_static_archive fs source label of
     Inl e \<Rightarrow> is_parity e \<or> e = StructError
   | Inr art \<Rightarrow> source_bytes fs source (ar_raw art)"
  by (rule obeys_or_cases, rule obeys_or_mono[OF obeys_static_archive]) simp

text \<open>C3. An accepted archive consists of the index member and exactly one object, and the index is
right: its names are the externally defined symbols of the object with their multiplicities, and
every entry points at the header of the object's member.\<close>

theorem archive_index_exact:
  "case parse_archive_bytes data label of
     Inl e \<Rightarrow> is_parity e \<or> e = StructError
   | Inr art \<Rightarrow> \<exists>m0 m1 ob. ar_members art = [m0, m1] \<and> am_name m0 = ''__.SYMDEF'' \<and> am_object m0 = None
       \<and> am_object m1 = Some ob
       \<and> mset (map rl_symbol (ar_ranlib art)) = mset (map sym_name (filter externally_defined (mo_symbols ob)))
       \<and> rl_member_offset ` set (ar_ranlib art) \<subseteq> {am_header_offset m1}"
  by (rule obeys_or_cases, rule obeys_or_mono[OF obeys_parse_archive])
    (auto simp: archive_ok_def archive_member_of_def simp del: member_chain.simps)

text \<open>The atoms of an accepted archive partition its bytes, up to zero-length padding atoms, and
the only bytes allowed to differ between builds are those of one global-cache directory path, which
is the provenance the archive reports, rebased to the archive.\<close>

theorem archive_volatile_bytes:
  "case parse_archive_bytes data label of
     Inl e \<Rightarrow> is_parity e \<or> e = StructError
   | Inr art \<Rightarrow> \<exists>atoms pads q dir. ar_atoms art = atoms @ pads \<and> partitioned data atoms
       \<and> a_size ` set pads \<subseteq> {0} \<and> ar_provenance art = [q]
       \<and> pl_path q = dir @ ''/builtin.zig'' \<and> global_cache_dir_match (bytes_of_str dir) \<noteq> None
       \<and> bytes_of_str dir = py_slice data (pl_path_offset q) (pl_path_offset q + pl_path_size q)
       \<and> volatile_within {(pl_path_offset q, pl_path_size q)} (ar_atoms art)"
  by (rule obeys_or_cases, rule obeys_or_mono[OF obeys_parse_archive])
    (unfold archive_ok_def, blast)

section \<open>Numeric fields\<close>

lemma digits_value_append: "digits_value base (ds @ [d]) = digits_value base ds * base + (uint d - 48)"
  by (simp add: digits_value_def)

lemma digit_byte:
  assumes "d < 10"
  shows "bytes_of_str [digit_char d] = [word_of_nat (48 + d)]" "uint (word_of_nat (48 + d) :: byte) = 48 + int d"
proof -
  have "d = 0 \<or> d = 1 \<or> d = 2 \<or> d = 3 \<or> d = 4 \<or> d = 5 \<or> d = 6 \<or> d = 7 \<or> d = 8 \<or> d = 9"
    using assms by (simp add: less_Suc_eq eval_nat_numeral)
  then show "bytes_of_str [digit_char d] = [word_of_nat (48 + d)]" "uint (word_of_nat (48 + d) :: byte) = 48 + int d"
    by (auto simp: bytes_of_str_def digit_char_def of_char_of)
qed

lemma base_digits_read:
  assumes "b = 8 \<or> b = 10"
  shows "list_all (base_digit (int b)) (bytes_of_str (base_digits b n))
    \<and> digits_value (int b) (bytes_of_str (base_digits b n)) = int n"
proof (induction n rule: less_induct)
  case (less n)
  have digit: "base_digit (int b) (word_of_nat (48 + d))" if "d < b" for d
  proof -
    have "uint (word_of_nat (48 + d) :: byte) = 48 + int d" using digit_byte(2)[of d] that assms by auto
    then show ?thesis using that assms by (auto simp: base_digit_def word_le_def)
  qed
  have value_digit: "uint (word_of_nat (48 + d) :: byte) = 48 + int d" "bytes_of_str [digit_char d] = [word_of_nat (48 + d)]"
    if "d < b" for d
    using digit_byte[of d] that assms by auto
  show ?case
  proof (cases "n < b")
    case True
    then show ?thesis
      using digit[OF True] value_digit[OF True] assms
      by (simp add: base_digits.simps[of b n] digits_value_def)
  next
    case False
    then have n: "n div b < n" "n mod b < b" using assms by auto
    have split: "base_digits b n = base_digits b (n div b) @ [digit_char (n mod b)]"
      using False assms by (subst base_digits.simps) auto
    have bytes: "bytes_of_str (base_digits b n) = bytes_of_str (base_digits b (n div b)) @ [word_of_nat (48 + n mod b)]"
      unfolding split using value_digit(2)[OF n(2)] by (simp add: bytes_of_str_def)
    have "int (n div b) * int b + int (n mod b) = int n"
      by (metis div_mult_mod_eq of_nat_add of_nat_mult)
    then show ?thesis
      unfolding bytes digits_value_append using less[OF n(1)] digit[OF n(2)] value_digit(1)[OF n(2)] by simp
  qed
qed

lemma base_digits_nonempty: "base_digits b n \<noteq> []"
  by (subst base_digits.simps) simp

text \<open>A number printed in the base of its field and padded on the right with blanks, as \<open>ar\<close>
headers hold it, is read back as that number (up to the interpreter's digit limit).\<close>

theorem ascii_field_roundtrip:
  assumes "b = 8 \<or> b = 10" "length (base_digits b n) \<le> 4300"
  shows "parse_ascii_int (bytes_of_str (base_digits b n) @ replicate k 0x20) (int b) locator = Inr (int n)"
proof -
  let ?ds = "bytes_of_str (base_digits b n)"
  note r = base_digits_read[OF assms(1), of n]
  have last: "last ?ds \<noteq> 0x20" if "?ds \<noteq> []"
  proof -
    have "base_digit (int b) (last ?ds)" using r that by (simp add: list_all_iff)
    then show ?thesis by (auto simp: base_digit_def split: if_splits)
  qed
  have strip: "rstrip_byte 0x20 (?ds @ replicate k 0x20) = ?ds"
  proof -
    have "dropWhile ((=) 0x20) (replicate k (0x20 :: byte) @ xs) = dropWhile ((=) 0x20) xs" for xs
      by (induction k) auto
    moreover have "dropWhile ((=) 0x20) (rev ?ds) = rev ?ds"
      using last by (cases ?ds rule: rev_cases) simp_all
    ultimately show ?thesis by (simp add: rstrip_byte_def)
  qed
  have "?ds \<noteq> []" using base_digits_nonempty by (simp add: bytes_of_str_def)
  moreover have "length ?ds \<le> 4300" using assms(2) by (simp add: bytes_of_str_def)
  ultimately show ?thesis
    unfolding parse_ascii_int_def Let_def strip using r by (auto simp: list_ex_iff list_all_iff)
qed

theorem ascii_field_roundtrip_witness:
  "parse_ascii_int [0x36, 0x34, 0x34, 0x20, 0x20] 8 ''mode'' = Inr 420"
proof -
  have d: "base_digits 8 420 = ''644''" by code_simp
  have "bytes_of_str (base_digits 8 420) @ replicate 2 0x20 = [0x36, 0x34, 0x34, 0x20, 0x20]"
    unfolding d by code_simp
  then show ?thesis using ascii_field_roundtrip[of 8 420 2 "''mode''"] by (simp add: d)
qed

end
