(* ===== verification/Comparison_Correct.thy ===== *)
theory Comparison_Correct
  imports Comparison Archive_Correct
begin

text \<open>
  What the verdict of a comparison means (\<open>tools/abi_artifact_parity.py\<close>, \<open>_compare_parsed\<close>,
  \<open>_symbol_axes\<close>, \<open>canonicalize_atoms\<close>, \<open>bind_provenance\<close>).
\<close>

section \<open>Dictionaries of atoms\<close>

lemma map_of_atom_dict_fold:
  "map_of (fold (\<lambda>a. dict_set (a_locator a) a) atoms d) = map_of d ++ map_of (map (\<lambda>a. (a_locator a, a)) (rev atoms))"
  by (induction atoms arbitrary: d) (auto simp: map_add_def fun_eq_iff split: option.splits)

lemma distinct_atom_dict: "distinct (map fst (atom_dict atoms))"
proof -
  have "distinct (map fst d) \<Longrightarrow> distinct (map fst (fold (\<lambda>a. dict_set (a_locator a) a) atoms d))" for d
    by (induction atoms arbitrary: d) (auto simp: distinct_dict_set)
  then show ?thesis by (simp add: atom_dict_def)
qed

lemma map_of_atom_dict: "map_of (atom_dict atoms) = map_of (map (\<lambda>a. (a_locator a, a)) (rev atoms))"
  by (simp add: atom_dict_def map_of_atom_dict_fold)

lemma keys_map_of: "k \<in> set (map fst d) \<longleftrightarrow> map_of d k \<noteq> None"
  by (simp add: map_of_eq_None_iff)

lemma atom_dict_locator: "map_of (atom_dict atoms) k = Some a \<Longrightarrow> a_locator a = k \<and> a \<in> set atoms"
  unfolding map_of_atom_dict by (auto dest!: map_of_SomeD)

section \<open>The verdict\<close>

definition atoms_match :: "atom_dict \<Rightarrow> atom_dict \<Rightarrow> byte_atom \<Rightarrow> byte_atom \<Rightarrow> bool" where
  "atoms_match l r a b \<longleftrightarrow> a_role a = a_role b \<and> a_depends_on a = a_depends_on b
     \<and> (case a_role a of Invariant \<Rightarrow> a_payload a = a_payload b | Allowed_Payload \<Rightarrow> True | _ \<Rightarrow> valid_change l r a b)"

text \<open>Every locator names an atom on both sides or on neither, and paired atoms match.\<close>

definition atoms_agree :: "atom_dict \<Rightarrow> atom_dict \<Rightarrow> bool" where
  "atoms_agree l r \<longleftrightarrow> (\<forall>k. case (map_of l k, map_of r k) of
     (Some a, Some b) \<Rightarrow> atoms_match l r a b | (None, None) \<Rightarrow> True | _ \<Rightarrow> False)"

lemma compare_atom_failures:
  "cs_failures (compare_atom l r k s) = [] \<longleftrightarrow> cs_failures s = [] \<and>
     (case (map_of l k, map_of r k) of (Some a, Some b) \<Rightarrow> atoms_match l r a b | _ \<Rightarrow> True)"
  by (cases "map_of l k"; cases "map_of r k")
    (auto simp: compare_atom_def add_failure_def compare_derived_def Let_def atoms_match_def split: atom_role.splits)

lemma compare_atoms_failures:
  "cs_failures (fold (compare_atom l r) ks s) = [] \<longleftrightarrow> cs_failures s = [] \<and>
     (\<forall>k \<in> set ks. case (map_of l k, map_of r k) of (Some a, Some b) \<Rightarrow> atoms_match l r a b | _ \<Rightarrow> True)"
  by (induction ks arbitrary: s) (auto simp: compare_atom_failures)

lemma from_keys_Nil [simp]: "from_keys xs = [] \<longleftrightarrow> xs = []"
  by (simp add: from_keys_def)

lemma failure_if_Nil [simp]: "failure_if c m = [] \<longleftrightarrow> \<not> c"
  by (simp add: failure_if_def)

lemma sort_Nil: "sort_key f xs = [] \<longleftrightarrow> xs = []"
  by (metis set_empty set_sort)

lemma unpaired_Nil: "unpaired_locators l r = [] \<longleftrightarrow> set (map fst l) = set (map fst r)"
proof -
  have "unpaired_locators l r = [] \<longleftrightarrow> filter (\<lambda>k. k \<notin> set (map fst r)) (map fst l) = []
      \<and> filter (\<lambda>k. k \<notin> set (map fst l)) (map fst r) = []"
    unfolding unpaired_locators_def sort_Nil by simp
  then show ?thesis unfolding filter_empty_conv by auto
qed

lemma atoms_failures:
  "cs_failures (fold (compare_atom l r) (common_locators l r)
      \<lparr>cs_failures = failure_if (unpaired_locators l r \<noteq> []) m, cs_allowed = [], cs_derived = [], cs_invalid = []\<rparr>) = []
    \<longleftrightarrow> atoms_agree l r"
proof -
  let ?ok = "\<lambda>k. case (map_of l k, map_of r k) of (Some a, Some b) \<Rightarrow> atoms_match l r a b | _ \<Rightarrow> True"
  have "(set (map fst l) = set (map fst r) \<and> (\<forall>k \<in> set (common_locators l r). ?ok k)) \<longleftrightarrow> atoms_agree l r"
    (is "?L \<longleftrightarrow> ?R")
  proof
    assume L: ?L
    show ?R
      unfolding atoms_agree_def
    proof
      fix k
      have "map_of l k = None \<longleftrightarrow> map_of r k = None" using L by (metis keys_map_of)
      moreover have "?ok k" if "map_of l k \<noteq> None" "map_of r k \<noteq> None"
        using L that by (auto simp: common_locators_def keys_map_of simp del: set_map)
      ultimately show "case (map_of l k, map_of r k) of
          (Some a, Some b) \<Rightarrow> atoms_match l r a b | (None, None) \<Rightarrow> True | _ \<Rightarrow> False"
        by (cases "map_of l k"; cases "map_of r k") auto
    qed
  next
    assume R: ?R
    have "map_of l k = None \<longleftrightarrow> map_of r k = None" for k
      using R[unfolded atoms_agree_def, rule_format, of k] by (auto split: option.splits)
    then have "set (map fst l) = set (map fst r)" by (metis keys_map_of subsetI subset_antisym)
    moreover have "?ok k" for k
      using R[unfolded atoms_agree_def, rule_format, of k] by (auto split: option.splits)
    ultimately show ?L by blast
  qed
  then show ?thesis by (auto simp: compare_atoms_failures unpaired_Nil simp del: set_map)
qed

text \<open>What can stop a comparison: a key that is not UTF-8, or axes of an unexpected shape.\<close>

definition comparison_stops :: "py_exc \<Rightarrow> bool" where
  "comparison_stops e \<longleftrightarrow> is_parity e \<or> e = AttributeError \<or> e = TypeError"

lemma map_r_Inl:
  "map_r f xs = Inl e \<Longrightarrow> (\<And>x e. x \<in> set xs \<Longrightarrow> f x = Inl e \<Longrightarrow> P e) \<Longrightarrow> P e"
proof (induction xs)
  case (Cons x xs)
  then show ?case by (cases "f x"; cases "map_r f xs") auto
qed simp

lemma stable_directories_Inl: "stable_directories v = Inl e \<Longrightarrow> comparison_stops e"
proof -
  assume a: "stable_directories v = Inl e"
  have list: "map_r stable_directory ds = Inl e \<Longrightarrow> comparison_stops e" for ds
    by (erule map_r_Inl) (auto simp: stable_directory_def comparison_stops_def split: json.splits)
  show ?thesis
    using a unfolding stable_directories_def
    by (cases v) (auto simp: comparison_stops_def bind_r_def split: sum.splits if_splits dest: list)
qed

lemma normalized_axes_Inl: "normalized_axes v = Inl e \<Longrightarrow> comparison_stops e"
proof (induction v arbitrary: e rule: normalized_axes.induct)
  case (1 xs)
  have "map_r normalized_axes xs = Inl e"
    using "1.prems" by (cases "map_r normalized_axes xs") (simp_all add: normalized_axes.simps)
  then show ?case by (rule map_r_Inl) (rule "1.IH")
next
  case (2 d)
  let ?f = "\<lambda>p. bind_r (if fst p = ''dwarf_directories'' then stable_directories (snd p) else normalized_axes (snd p))
          (\<lambda>v. Inr (fst p, v))"
  have "map_r ?f (filter (\<lambda>p. fst p \<notin> set proven_keys) d) = Inl e"
    using "2.prems" unfolding normalized_axes.simps(2)
    by (cases "map_r ?f (filter (\<lambda>p. fst p \<notin> set proven_keys) d)") simp_all
  then show ?case
  proof (rule map_r_Inl)
    fix p e assume p: "p \<in> set (filter (\<lambda>p. fst p \<notin> set proven_keys) d)" "?f p = Inl e"
    show "comparison_stops e"
    proof (cases "fst p = ''dwarf_directories''")
      case True
      then have "stable_directories (snd p) = Inl e"
        using p(2) by (cases "stable_directories (snd p)") simp_all
      then show ?thesis by (rule stable_directories_Inl)
    next
      case False
      then have "normalized_axes (snd p) = Inl e"
        using p(2) by (cases "normalized_axes (snd p)") simp_all
      then show ?thesis using "2.IH"[OF p(1) False] by blast
    qed
  qed
qed (simp_all add: normalized_axes.simps)

lemma comparison_key_Inl: "comparison_key s = Inl e \<Longrightarrow> is_parity e"
  by (auto simp: comparison_key_def bind_r_def text_of_def is_parity_def split: if_splits option.splits sum.splits)

lemma symbol_axes_Inl: "symbol_axes_of printable x y = Inl e \<Longrightarrow> is_parity e"
proof -
  assume a: "symbol_axes_of printable x y = Inl e"
  have k: "map_r comparison_key zs = Inl e \<Longrightarrow> is_parity e" for zs
    by (erule map_r_Inl) (rule comparison_key_Inl)
  show ?thesis
    using a k unfolding symbol_axes_of_def
    by (cases "map_r comparison_key x"; cases "map_r comparison_key y") auto
qed
definition pair_equivalent :: "parsed \<Rightarrow> parsed \<Rightarrow> bool" where
  "pair_equivalent left right \<longleftrightarrow> atoms_agree (atom_dict (pa_atoms left)) (atom_dict (pa_atoms right))
     \<and> (\<exists>x y. normalized_axes (pa_axes left) = Inr x \<and> normalized_axes (pa_axes right) = Inr y \<and> json_eq x y)
     \<and> map_r comparison_key (pa_symbols left) = map_r comparison_key (pa_symbols right)
     \<and> canonical_digest (pa_atoms left) = canonical_digest (pa_atoms right)
     \<and> provenance_shape (pa_provenance left) = provenance_shape (pa_provenance right)"

lemma symbol_axes_Inr:
  assumes "symbol_axes_of printable x y = Inr a"
  shows "sx_order_equal a \<longleftrightarrow> map_r comparison_key x = map_r comparison_key y"
    "sx_order_equal a \<Longrightarrow> sx_multiset_equal a"
  using assms by (auto simp: symbol_axes_of_def bind_r_eq_Inr counter_eq_mset)

lemma compare_parsed_verdict:
  assumes "compare_parsed printable kind left right = Inr c"
  shows "(cp_verdict c = ''pass'') = pair_equivalent left right"
    and "(cp_verdict c = ''pass'') = (cp_failures c = [])"
proof -
  let ?l = "atom_dict (pa_atoms left)" and ?r = "atom_dict (pa_atoms right)"
  let ?s = "fold (compare_atom ?l ?r) (common_locators ?l ?r)
      \<lparr>cs_failures = failure_if (unpaired_locators ?l ?r \<noteq> [])
         (show_int (blen (unpaired_locators ?l ?r)) @ '' atom locators are unpaired''),
       cs_allowed = [], cs_derived = [], cs_invalid = []\<rparr>"
  obtain x y sx where p: "normalized_axes (pa_axes left) = Inr x" "normalized_axes (pa_axes right) = Inr y"
    "symbol_axes_of printable (pa_symbols left) (pa_symbols right) = Inr sx"
    and f: "cp_failures c = from_keys (cs_failures ?s
            @ failure_if (\<not> json_eq x y) ''structured axes differ''
            @ failure_if (\<not> sx_order_equal sx) ''symbol order differs''
            @ failure_if (\<not> sx_multiset_equal sx) ''symbol multiset differs''
            @ failure_if (canonical_digest (pa_atoms left) \<noteq> canonical_digest (pa_atoms right)) ''canonical digests differ''
            @ failure_if (provenance_shape (pa_provenance left) \<noteq> provenance_shape (pa_provenance right))
                ''provenance locator kind or basename differs'')"
    and v: "cp_verdict c = (if cp_failures c = [] then ''pass'' else ''fail'')"
    using assms unfolding compare_parsed_def Let_def by (auto simp: bind_r_eq_Inr)
  note sx = symbol_axes_Inr[OF p(3)]
  show "(cp_verdict c = ''pass'') = (cp_failures c = [])" unfolding v by simp
  have "cp_failures c = [] \<longleftrightarrow> pair_equivalent left right"
    unfolding f pair_equivalent_def using p(1,2) sx by (auto simp: atoms_failures)
  then show "(cp_verdict c = ''pass'') = pair_equivalent left right" unfolding v by simp
qed

lemma compare_parsed_Inl:
  assumes "compare_parsed printable kind left right = Inl e"
  shows "comparison_stops e"
proof -
  consider "normalized_axes (pa_axes left) = Inl e" | "normalized_axes (pa_axes right) = Inl e"
    | "symbol_axes_of printable (pa_symbols left) (pa_symbols right) = Inl e"
    using assms unfolding compare_parsed_def Let_def
    by (cases "normalized_axes (pa_axes left)"; cases "normalized_axes (pa_axes right)";
        cases "symbol_axes_of printable (pa_symbols left) (pa_symbols right)") simp_all
  then show ?thesis
    by cases (auto dest: normalized_axes_Inl symbol_axes_Inl simp: comparison_stops_def)
qed

section \<open>JSON equality\<close>

lemma json_eq_sym: "json_eq x y \<Longrightarrow> json_wf x \<Longrightarrow> json_wf y \<Longrightarrow> json_eq y x"
proof (induction x y rule: json_eq.induct)
  case (5 xs y)
  then obtain ys where y: "y = JList ys" "list_all2 json_eq xs ys" by (auto split: json.splits)
  have "json_eq b a" if "a \<in> set xs" "b \<in> set ys" "json_eq a b" for a b
    using 5 that y by auto
  then show ?case using y(2) by (auto simp: y(1) list_all2_conv_all_nth)
next
  case (6 d y)
  then obtain e where y: "y = JObj e" "length d = length e"
    and all: "\<And>p. p \<in> set d \<Longrightarrow> \<exists>w. map_of e (fst p) = Some w \<and> json_eq (snd p) w"
    by (fastforce simp: list_all_iff split: json.splits option.splits)
  have dist: "distinct (map fst d)" "distinct (map fst e)" using 6 y by auto
  have "k \<in> set (map fst e)" if k: "k \<in> set (map fst d)" for k
  proof -
    obtain v where "(k, v) \<in> set d" using k by auto
    then obtain w where "map_of e k = Some w" using all by fastforce
    then show ?thesis by (metis keys_map_of option.distinct(1))
  qed
  then have "set (map fst d) \<subseteq> set (map fst e)" by blast
  moreover have "card (set (map fst d)) = card (set (map fst e))"
    using dist y(2) by (simp only: distinct_card length_map)
  ultimately have keys: "set (map fst d) = set (map fst e)" by (metis List.finite_set card_subset_eq)
  have "\<exists>w. map_of d (fst q) = Some w \<and> json_eq (snd q) w" if q: "q \<in> set e" for q
  proof -
    have "fst q \<in> set (map fst d)" unfolding keys using q by simp
    then obtain w where w: "(fst q, w) \<in> set d" by auto
    obtain v where v: "map_of e (fst q) = Some v" "json_eq w v" using all[OF w] by auto
    have "map_of e (fst q) = Some (snd q)" using dist(2) q by simp
    then have "v = snd q" using v(1) by simp
    have "json_eq v w"
    proof (rule "6.IH"[of e "(fst q, w)" v, simplified])
      show "y = JObj e" "(fst q, w) \<in> set d" "map_of e (fst q) = Some v" "json_eq w v"
        using y w v by simp_all
      show "json_wf w" using "6.prems"(2) w by auto
      show "json_wf v" using "6.prems"(3) y q \<open>v = snd q\<close> by (cases q) auto
    qed
    then show ?thesis using w dist(1) \<open>v = snd q\<close> by auto
  qed
  then show ?case using y by (fastforce simp: list_all_iff)
qed (auto split: json.splits)

lemma normalized_axes_wf: "normalized_axes v = Inr w \<Longrightarrow> json_wf v \<Longrightarrow> json_wf w"
proof (induction v arbitrary: w rule: normalized_axes.induct)
  case (1 xs)
  then obtain ys where ys: "w = JList ys" "list_all2 (\<lambda>x y. normalized_axes x = Inr y) xs ys"
    by (auto simp: normalized_axes.simps bind_r_eq_Inr map_r_eq_Inr)
  then have "json_wf y" if "y \<in> set ys" for y
    using 1 that by (fastforce simp: list_all2_conv_all_nth in_set_conv_nth)
  then show ?case by (simp add: ys)
next
  case (2 d)
  let ?g = "\<lambda>p. if fst p = ''dwarf_directories'' then stable_directories (snd p) else normalized_axes (snd p)"
  let ?d = "filter (\<lambda>p. fst p \<notin> set proven_keys) d"
  obtain e where e: "w = JObj e" "list_all2 (\<lambda>p q. bind_r (?g p) (\<lambda>v. Inr (fst p, v)) = Inr q) ?d e"
    using "2.prems"(1) unfolding normalized_axes.simps(2) bind_r_eq_Inr map_r_eq_Inr by blast
  have step: "fst q = fst p \<and> ?g p = Inr (snd q)" if "bind_r (?g p) (\<lambda>v. Inr (fst p, v)) = Inr q" for p q
    using that by (auto simp: bind_r_eq_Inr)
  have "map fst e = map fst ?d"
  proof (rule nth_equalityI)
    fix i assume "i < length (map fst e)"
    then have i: "i < length e" "i < length ?d" using list_all2_lengthD[OF e(2)] by simp_all
    show "map fst e ! i = map fst ?d ! i"
      using step[OF list_all2_nthD[OF e(2) i(2)]] i by simp
  qed (simp add: list_all2_lengthD[OF e(2)])
  moreover have "distinct (map fst ?d)" using "2.prems"(2) by (simp add: distinct_map_filter)
  moreover have "json_wf (snd q)" if q: "q \<in> set e" for q
  proof -
    obtain i where i: "i < length e" "q = e ! i" using q by (auto simp: in_set_conv_nth)
    then have len: "i < length ?d" using e(2) by (simp add: list_all2_lengthD)
    obtain p where p_def: "p = ?d ! i" by blast
    have "bind_r (?g p) (\<lambda>v. Inr (fst p, v)) = Inr q"
      using list_all2_nthD[OF e(2) len] unfolding p_def i(2) .
    moreover have "p \<in> set ?d" unfolding p_def by (rule nth_mem[OF len])
    ultimately have p: "p \<in> set ?d" "?g p = Inr (snd q)" using step by blast+
    obtain a b where ab: "p = (a, b)" by (cases p)
    have wf: "json_wf (snd p)" using p(1) "2.prems"(2) by (auto simp: ab)
    show ?thesis
    proof (cases "fst p = ''dwarf_directories''")
      case True
      have dir: "json_wf y" if "stable_directory x = Inr y" "json_wf x" for x y
        using that by (auto simp: stable_directory_def distinct_map_filter split: json.splits)
      have "json_wf v" if "stable_directories u = Inr v" "json_wf u" for u v
        using that dir by (cases u) (auto simp: stable_directories_def bind_r_eq_Inr map_r_eq_Inr
            list_all2_conv_all_nth in_set_conv_nth split: if_splits, blast)
      then show ?thesis using p(2) wf True by simp
    next
      case False
      then show ?thesis using "2.IH"[OF p(1) False _ wf] p(2) by simp
    qed
  qed
  ultimately have k: "distinct (map fst e)" "\<And>q. q \<in> set e \<Longrightarrow> json_wf (snd q)" by (simp_all only:)
  have "json_wf b" if "(a, b) \<in> set e" for a b using k(2)[OF that] by simp
  then show ?case using k(1) by (simp add: e(1))
qed (auto simp: normalized_axes.simps)

section \<open>Symmetry of the verdict\<close>

lemma atoms_agree_pair:
  assumes "atoms_agree l r"
  shows "map_of l k = None \<longleftrightarrow> map_of r k = None" "map_of l k = Some a \<Longrightarrow> map_of r k = Some b \<Longrightarrow> atoms_match l r a b"
  using assms[unfolded atoms_agree_def, rule_format, of k] by (auto split: option.splits)

lemma dependency_changed_iff:
  assumes "distinct (map fst l)"
  shows "dependency_changed l r d \<longleftrightarrow> (\<exists>k. payload_differs l r k \<and> (k = d \<or>
     (\<exists>a. map_of l k = Some a \<and> a_role a = Allowed_Payload \<and> ends_with k d)))"
  using assms unfolding dependency_changed_def by (force simp: list_ex_iff)

lemma payload_differs_sym: "payload_differs l r k = payload_differs r l k"
  by (auto simp: payload_differs_def split: option.splits)

lemma dependency_changed_sym:
  assumes "atoms_agree l r" "distinct (map fst l)" "distinct (map fst r)"
  shows "dependency_changed l r d = dependency_changed r l d"
proof -
  have role: "(\<exists>a. map_of l k = Some a \<and> a_role a = Allowed_Payload) = (\<exists>b. map_of r k = Some b \<and> a_role b = Allowed_Payload)" for k
  proof (cases "map_of l k")
    case None
    then have "map_of r k = None" using atoms_agree_pair(1)[OF assms(1)] by simp
    then show ?thesis by (simp add: None)
  next
    case (Some a)
    then obtain b where b: "map_of r k = Some b" using atoms_agree_pair(1)[OF assms(1), of k] by fastforce
    show ?thesis using atoms_agree_pair(2)[OF assms(1) Some b] by (simp add: Some b atoms_match_def)
  qed
  show ?thesis
    unfolding dependency_changed_iff[OF assms(2)] dependency_changed_iff[OF assms(3)] payload_differs_sym[of r]
    using role by blast
qed

lemma atoms_agree_sym:
  assumes "atoms_agree l r" "distinct (map fst l)" "distinct (map fst r)"
  shows "atoms_agree r l"
  unfolding atoms_agree_def
proof
  fix k
  have "atoms_match r l b a" if "map_of l k = Some a" "map_of r k = Some b" for a b
  proof -
    have m: "atoms_match l r a b" by (rule atoms_agree_pair(2)[OF assms(1) that])
    then have "changed_dependencies r l b = changed_dependencies l r a"
      using dependency_changed_sym[OF assms] by (simp add: changed_dependencies_def atoms_match_def cong: filter_cong)
    then show ?thesis using m by (auto simp: atoms_match_def valid_change_def split: atom_role.splits)
  qed
  then show "case (map_of r k, map_of l k) of
      (Some a, Some b) \<Rightarrow> atoms_match r l a b | (None, None) \<Rightarrow> True | _ \<Rightarrow> False"
    using atoms_agree_pair(1)[OF assms(1), of k] by (auto split: option.splits)
qed

lemma pair_equivalent_sym:
  assumes "pair_equivalent a b" "json_wf (pa_axes a)" "json_wf (pa_axes b)"
  shows "pair_equivalent b a"
proof -
  obtain x y where xy: "normalized_axes (pa_axes a) = Inr x" "normalized_axes (pa_axes b) = Inr y" "json_eq x y"
    using assms(1) by (auto simp: pair_equivalent_def)
  have "json_eq y x"
    by (rule json_eq_sym[OF xy(3)]) (use normalized_axes_wf xy assms(2,3) in auto)
  then show ?thesis
    using assms(1) xy atoms_agree_sym[OF _ distinct_atom_dict distinct_atom_dict]
    unfolding pair_equivalent_def by auto
qed

lemma atoms_agree_refl: "atoms_agree l l"
  by (auto simp: atoms_agree_def atoms_match_def valid_change_def split: option.splits atom_role.splits)

lemma pair_equivalent_refl:
  assumes "normalized_axes (pa_axes a) = Inr x" "json_wf (pa_axes a)"
  shows "pair_equivalent a a"
  using assms normalized_axes_wf[OF assms] by (auto simp: pair_equivalent_def atoms_agree_refl json_eq_refl)

section \<open>The digest\<close>

text \<open>Atoms as the builder makes them: an invariant's size is that of its payload, and only derived
fields carry a canonical payload.\<close>

definition atom_wf :: "byte_atom \<Rightarrow> bool" where
  "atom_wf a \<longleftrightarrow> a_size a = blen (a_payload a) \<and> (a_canonical_payload a \<noteq> None \<longrightarrow> a_role a = Derived_Field)"

lemma canonical_atom_match:
  assumes "atoms_match l r a b" "a_locator a = a_locator b" "atom_wf a" "atom_wf b"
  shows "canonical_atom a = canonical_atom b"
proof -
  have "a_role a = a_role b" "a_depends_on a = a_depends_on b" using assms(1) by (simp_all add: atoms_match_def)
  moreover have "a_role a = Invariant \<Longrightarrow> a_payload a = a_payload b \<and> a_size a = a_size b"
    using assms(1,3,4) by (simp add: atoms_match_def atom_wf_def)
  moreover have "a_canonical_payload a = a_canonical_payload b"
    using assms(1,3,4) by (cases "a_role a"; cases "a_canonical_payload a"; cases "a_canonical_payload b")
      (auto simp: atoms_match_def atom_wf_def valid_change_def)
  ultimately show ?thesis using assms(2) by (cases "a_role a = Invariant") (simp_all add: canonical_atom_def)
qed

lemma map_of_atom_dict_distinct:
  assumes "distinct (map a_locator atoms)" "a \<in> set atoms"
  shows "map_of (atom_dict atoms) (a_locator a) = Some a"
proof -
  have "distinct (map fst (map (\<lambda>a. (a_locator a, a)) (rev atoms)))"
    using assms(1) by (simp add: comp_def rev_map [symmetric])
  then show ?thesis unfolding map_of_atom_dict using assms(2) by (intro map_of_is_SomeI) auto
qed

lemma sorted_locators:
  fixes xs ys :: "byte_atom list"
  assumes "distinct (map a_locator xs)" "distinct (map a_locator ys)"
    "set (map a_locator xs) = set (map a_locator ys)"
  shows "map a_locator (sort_key a_locator xs) = map a_locator (sort_key a_locator ys)"
proof -
  have "distinct (map a_locator (sort_key a_locator zs))" if "distinct (map a_locator zs)" for zs :: "byte_atom list"
    using that by (metis distinct_map distinct_sort set_sort)
  then show ?thesis
    using assms by (intro sorted_distinct_set_unique) auto
qed

lemma canonical_digest_agree:
  assumes dist: "distinct (map a_locator xs)" "distinct (map a_locator ys)"
    and wf: "list_all atom_wf xs" "list_all atom_wf ys" and agree: "atoms_agree (atom_dict xs) (atom_dict ys)"
  shows "canonicalize_atoms xs = canonicalize_atoms ys"
proof -
  let ?X = "sort_key a_locator xs" and ?Y = "sort_key a_locator ys"
  have keys: "k \<in> set (map a_locator zs) \<longleftrightarrow> map_of (atom_dict zs) k \<noteq> None" for k zs
    unfolding map_of_atom_dict by (auto simp: map_of_eq_None_iff image_image)
  have "set (map a_locator xs) = set (map a_locator ys)"
    using keys atoms_agree_pair(1)[OF agree] by blast
  then have loc: "map a_locator ?X = map a_locator ?Y" by (rule sorted_locators[OF dist])
  have "map canonical_atom ?X = map canonical_atom ?Y"
  proof (rule nth_equalityI)
    show len: "length (map canonical_atom ?X) = length (map canonical_atom ?Y)"
      using map_eq_imp_length_eq[OF loc] by simp
    fix i assume "i < length (map canonical_atom ?X)"
    then have i: "i < length ?X" "i < length ?Y" using len by simp_all
    let ?a = "?X ! i" and ?b = "?Y ! i"
    have mem: "?a \<in> set xs" "?b \<in> set ys" using nth_mem[OF i(1)] nth_mem[OF i(2)] by simp_all
    have eq: "a_locator ?a = a_locator ?b" using arg_cong[OF loc, of "\<lambda>zs. zs ! i"] i by simp
    have m: "map_of (atom_dict xs) (a_locator ?a) = Some ?a" "map_of (atom_dict ys) (a_locator ?a) = Some ?b"
      using map_of_atom_dict_distinct[OF dist(1) mem(1)] map_of_atom_dict_distinct[OF dist(2) mem(2)] eq by simp_all
    have "canonical_atom ?a = canonical_atom ?b"
      by (rule canonical_atom_match[OF atoms_agree_pair(2)[OF agree m] eq])
        (use wf mem in \<open>auto simp: list_all_iff\<close>)
    then show "map canonical_atom ?X ! i = map canonical_atom ?Y ! i" using i by simp
  qed
  then show ?thesis by (simp add: canonicalize_atoms_def)
qed

section \<open>Byte differences and cover gaps\<close>

lemma zip_difference_Nil:
  "length x = length y \<Longrightarrow> filter (\<lambda>p. fst p \<noteq> snd p) (zip x y) = [] \<longleftrightarrow> x = y"
  by (induction x y rule: list_induct2) auto

lemma zip_difference_sym:
  "length (filter (\<lambda>p. fst p \<noteq> snd p) (zip x y)) = length (filter (\<lambda>p. fst p \<noteq> snd p) (zip y x))"
proof (induction x arbitrary: y)
  case (Cons a x)
  then show ?case by (cases y) auto
qed simp

lemma byte_difference_count_bound: "byte_difference_count x y \<le> max (blen x) (blen y)"
proof -
  have "length (filter (\<lambda>p. fst p \<noteq> snd p) (zip x y)) \<le> min (length x) (length y)"
    using length_filter_le[of "\<lambda>p. fst p \<noteq> snd p" "zip x y"] by simp
  then show ?thesis unfolding byte_difference_count_def blen_def by linarith
qed

lemma uncovered_run_bound: "uncovered_run c \<le> length c"
  by (induction c rule: uncovered_run.induct) auto

lemma uncovered_run_take: "take (uncovered_run c) c = replicate (uncovered_run c) None"
  by (induction c rule: uncovered_run.induct) auto

lemma uncovered_run_stops: "uncovered_run c < length c \<Longrightarrow> c ! uncovered_run c \<noteq> None"
  by (induction c rule: uncovered_run.induct) auto

definition in_gap :: "(int \<times> int) list \<Rightarrow> int \<Rightarrow> bool" where
  "in_gap gaps i \<longleftrightarrow> list_ex (\<lambda>g. fst g \<le> i \<and> i < fst g + snd g) gaps"

lemma uncovered_from_ge: "g \<in> set (uncovered_from index c) \<Longrightarrow> index \<le> fst g \<and> 0 < snd g"
proof (induction index c rule: uncovered_from.induct)
  case (3 index c)
  then show ?case by (auto simp: Let_def)
qed auto

lemma uncovered_from_exact:
  "i < length c \<Longrightarrow> in_gap (uncovered_from index c) (index + int i) \<longleftrightarrow> c ! i = None"
proof (induction index c arbitrary: i rule: uncovered_from.induct)
  case (2 index x c)
  show ?case
  proof (cases i)
    case 0
    then show ?thesis using uncovered_from_ge[of _ "index + 1" c] by (force simp: in_gap_def list_ex_iff)
  next
    case (Suc j)
    then have "in_gap (uncovered_from (index + 1) c) (index + 1 + int j) \<longleftrightarrow> c ! j = None" using 2 by simp
    moreover have "index + 1 + int j = index + int i" using Suc by simp
    ultimately show ?thesis using Suc by simp
  qed
next
  case (3 index c)
  define n where "n = uncovered_run (None # c)"
  let ?d = "drop n (None # c)"
  have n: "n \<le> length (None # c)" unfolding n_def by (rule uncovered_run_bound)
  have simps: "in_gap (uncovered_from index (None # c)) j \<longleftrightarrow>
      index \<le> j \<and> j < index + int n \<or> in_gap (uncovered_from (index + int n) ?d) j" for j
    by (simp add: in_gap_def n_def Let_def)
  show ?case
  proof (cases "i < n")
    case True
    have "(None # c) ! i = take n (None # c) ! i" using True by simp
    also have "take n (None # c) = replicate n None" unfolding n_def by (rule uncovered_run_take)
    also have "replicate n None ! i = None" using True by simp
    finally show ?thesis unfolding simps using True by simp
  next
    case False
    then have "i - n < length ?d" using 3(2) n by simp
    from "3.IH"[OF n_def this] have "in_gap (uncovered_from (index + int n) ?d) (index + int i)
        \<longleftrightarrow> ?d ! (i - n) = None"
      using False by (simp add: of_nat_diff)
    moreover have "?d ! (i - n) = (None # c) ! i" using False n by simp
    ultimately show ?thesis unfolding simps using False by auto
  qed
qed simp

lemma uncovered_from_apart:
  "sorted_wrt (\<lambda>g h. fst g + snd g < fst h) (uncovered_from index c)"
proof (induction index c rule: uncovered_from.induct)
  case (3 index c)
  define n where "n = uncovered_run (None # c)"
  let ?d = "drop n (None # c)"
  have "index + int n < fst g" if g: "g \<in> set (uncovered_from (index + int n) ?d)" for g
  proof (cases ?d)
    case Nil
    then show ?thesis using g by simp
  next
    case (Cons y ys)
    then have "n < length (None # c)" by (metis drop_all leI list.distinct(1))
    then have "y \<noteq> None"
      using uncovered_run_stops[of "None # c"] Cons n_def by (metis nth_via_drop)
    then obtain x where "y = Some x" by blast
    then have "g \<in> set (uncovered_from (index + int n + 1) ys)" using g Cons by simp
    then show ?thesis using uncovered_from_ge by fastforce
  qed
  moreover have "uncovered_from index (None # c) = (index, int n) # uncovered_from (index + int n) ?d"
    by (simp only: uncovered_from.simps Let_def n_def)
  ultimately show ?case using 3[OF n_def] by (simp del: uncovered_from.simps uncovered_run.simps)
qed auto

section \<open>What a comparison promises\<close>

text \<open>The verdict does not depend on which artifact is on the left.\<close>

theorem verdict_symmetric:
  assumes "compare_parsed printable kind left right = Inr c" "compare_parsed printable kind right left = Inr d"
    and "json_wf (pa_axes left)" "json_wf (pa_axes right)"
  shows "(cp_verdict c = ''pass'') = (cp_verdict d = ''pass'')"
  unfolding compare_parsed_verdict(1)[OF assms(1)] compare_parsed_verdict(1)[OF assms(2)]
  using pair_equivalent_sym assms(3,4) by blast

text \<open>An artifact passes against itself.\<close>

theorem verdict_reflexive:
  assumes "compare_parsed printable kind a a = Inr c" "json_wf (pa_axes a)"
  shows "cp_verdict c = ''pass'' \<and> cp_failures c = []"
proof -
  obtain x where "normalized_axes (pa_axes a) = Inr x"
    using assms(1) unfolding compare_parsed_def Let_def by (auto simp: bind_r_eq_Inr)
  then have "pair_equivalent a a" by (rule pair_equivalent_refl[OF _ assms(2)])
  then show ?thesis using compare_parsed_verdict[OF assms(1)] by blast
qed

text \<open>The canonical digest never decides alone: atom lists with distinct locators, as the builder
makes them, that agree atom by atom have the same canonical bytes, whatever their order and whatever
the allowed and derived payloads are.\<close>

theorem digest_follows_atoms:
  assumes "distinct (map a_locator xs)" "distinct (map a_locator ys)" "list_all atom_wf xs" "list_all atom_wf ys"
    and "atoms_agree (atom_dict xs) (atom_dict ys)"
  shows "canonicalize_atoms xs = canonicalize_atoms ys \<and> canonical_digest xs = canonical_digest ys"
  using canonical_digest_agree[OF assms] by (simp add: canonical_digest_def)

text \<open>The reported byte difference is a symmetric count bounded by the longer payload, and zero
exactly for equal payloads.\<close>

theorem byte_difference_metric:
  "(byte_difference_count x y = 0 \<longleftrightarrow> x = y) \<and> byte_difference_count x y = byte_difference_count y x
     \<and> 0 \<le> byte_difference_count x y \<and> byte_difference_count x y \<le> max (blen x) (blen y)"
proof (intro conjI)
  show "byte_difference_count x y = 0 \<longleftrightarrow> x = y"
  proof (cases "length x = length y")
    case True
    then show ?thesis using zip_difference_Nil[OF True] by (auto simp: byte_difference_count_def blen_def)
  next
    case False
    then show ?thesis by (auto simp: byte_difference_count_def blen_def)
  qed
  show "byte_difference_count x y = byte_difference_count y x"
    using zip_difference_sym[of x y] by (simp add: byte_difference_count_def blen_def)
  show "0 \<le> byte_difference_count x y" by (simp add: byte_difference_count_def)
qed (rule byte_difference_count_bound)

text \<open>The gaps of a cover are exactly its unassigned positions, as maximal runs in ascending order.\<close>

theorem cover_gaps_exact:
  "{i. i < length cover \<and> in_gap (cover_gaps cover) (int i)} = {i. i < length cover \<and> cover ! i = None}
     \<and> sorted_wrt (\<lambda>g h. fst g + snd g < fst h) (cover_gaps cover)"
  using uncovered_from_exact[of _ cover 0] uncovered_from_apart by (auto simp: cover_gaps_def)

text \<open>The symbol lists have equal multisets exactly when neither side has symbols of its own.\<close>

theorem symbol_difference_complete:
  "case symbol_axes_of printable x y of
     Inl e \<Rightarrow> is_parity e
   | Inr a \<Rightarrow> sx_multiset_equal a = (sx_left_only a = [] \<and> sx_right_only a = [])"
proof (cases "symbol_axes_of printable x y")
  case (Inl e)
  then show ?thesis using symbol_axes_Inl by simp
next
  case (Inr a)
  have set: "set (from_keys xs) = set xs" for xs :: "symbol_key list" by (simp add: from_keys_def)
  have only: "only_entries printable xs ys = [] \<longleftrightarrow> (\<forall>k. count_list xs k \<le> count_list ys k)" for xs ys
  proof -
    have "only_entries printable xs ys = [] \<longleftrightarrow> counter_minus xs ys = []"
      unfolding only_entries_def map_is_Nil_conv sort_Nil ..
    also have "\<dots> \<longleftrightarrow> (\<forall>k \<in> set xs. count_list xs k \<le> count_list ys k)"
      by (auto simp: counter_minus_def filter_empty_conv set not_less)
    also have "\<dots> \<longleftrightarrow> (\<forall>k. count_list xs k \<le> count_list ys k)"
      by (metis count_notin le0)
    finally show ?thesis .
  qed
  have eq: "counter_eq xs ys \<longleftrightarrow> (\<forall>k. count_list xs k \<le> count_list ys k) \<and> (\<forall>k. count_list ys k \<le> count_list xs k)"
    for xs ys :: "symbol_key list"
  proof -
    have "counter_eq xs ys \<longleftrightarrow> (\<forall>k. count_list xs k = count_list ys k)"
      unfolding counter_eq_def list_all_iff set_append by (metis UnCI count_notin)
    then show ?thesis by (metis order_antisym order_refl)
  qed
  have "sx_multiset_equal a = (sx_left_only a = [] \<and> sx_right_only a = [])"
    using Inr by (auto simp: symbol_axes_of_def bind_r_eq_Inr only eq)
  then show ?thesis by (simp add: Inr)
qed

text \<open>Provenance binds exactly when the path exists, the observed time is the recorded one
where one is recorded, and a supplied hash is 64 lowercase hexadecimal digits.\<close>

theorem bind_provenance_verdict:
  "obj_get (bind_provenance p exists mtime sha) ''verdict'' = Inr (JStr ''pass'') \<longleftrightarrow>
     exists \<and> (pl_expected_mtime_seconds p = None \<or> mtime = pl_expected_mtime_seconds p)
     \<and> (case sha of None \<Rightarrow> True | Some h \<Rightarrow> hex64 h)"
proof -
  have "obj_get (bind_provenance p exists mtime sha) ''verdict'' =
      Inr (JStr (if bind_failures p exists mtime sha = [] then ''pass'' else ''fail''))"
    by (simp add: bind_provenance_def obj_get_def Let_def)
  moreover have "bind_failures p exists mtime sha = [] \<longleftrightarrow>
     exists \<and> (pl_expected_mtime_seconds p = None \<or> mtime = pl_expected_mtime_seconds p)
     \<and> (case sha of None \<Rightarrow> True | Some h \<Rightarrow> hex64 h)"
    unfolding bind_failures_def append_is_Nil_conv failure_if_Nil
    by (cases "pl_expected_mtime_seconds p"; cases mtime; cases sha) auto
  ultimately show ?thesis by simp
qed

text \<open>Comparing two library sources parses both, each a well-formed signed library over the bytes
of its source, and passes exactly when the pair is equivalent.\<close>

theorem dynamic_comparison_sound:
  "case compare_dynamic_artifact_pair printable fs (Raw s1) (Raw s2) l1 l2 of
     Inl e \<Rightarrow> comparison_stops e
   | Inr c \<Rightarrow> \<exists>a b w1 w2. source_bytes fs s1 (mo_raw a) \<and> source_bytes fs s2 (mo_raw b)
       \<and> dylib_ok (mo_raw a) a w1 \<and> dylib_ok (mo_raw b) b w2
       \<and> (cp_verdict c = ''pass'') = pair_equivalent (parsed_macho a) (parsed_macho b)"
proof -
  have stop: "is_parity e \<Longrightarrow> comparison_stops e" for e by (simp add: comparison_stops_def)
  note p = obeys_parse_dynamic[unfolded obeys_def]
  show ?thesis
  proof (cases "parse_dynamic_artifact fs s1 l1")
    case (Inl e)
    then show ?thesis using p[of fs s1 l1] by (simp add: compare_dynamic_artifact_pair_def macho_side_def stop)
  next
    case a: (Inr a)
    show ?thesis
    proof (cases "parse_dynamic_artifact fs s2 l2")
      case (Inl e)
      then show ?thesis
        using a p[of fs s2 l2] by (simp add: compare_dynamic_artifact_pair_def macho_side_def stop)
    next
      case b: (Inr b)
      have eq: "compare_dynamic_artifact_pair printable fs (Raw s1) (Raw s2) l1 l2 =
          (if mo_filetype a \<noteq> MH_DYLIB \<or> mo_filetype b \<noteq> MH_DYLIB
           then plain_error ''dynamic comparison received a non-MH_DYLIB artifact''
           else compare_parsed printable ''dynamic'' (parsed_macho a) (parsed_macho b))"
        by (simp add: compare_dynamic_artifact_pair_def macho_side_def a b)
      show ?thesis
      proof (cases "compare_dynamic_artifact_pair printable fs (Raw s1) (Raw s2) l1 l2")
        case (Inl e)
        then have "comparison_stops e"
          using compare_parsed_Inl unfolding eq
          by (auto simp: plain_error_def comparison_stops_def is_parity_def split: if_splits)
        then show ?thesis by (simp add: Inl)
      next
        case (Inr c)
        then have "compare_parsed printable ''dynamic'' (parsed_macho a) (parsed_macho b) = Inr c"
          unfolding eq by (auto simp: plain_error_def split: if_splits)
        note v = compare_parsed_verdict(1)[OF this]
        have "source_bytes fs s1 (mo_raw a)" "\<exists>w. dylib_ok (mo_raw a) a w"
          "source_bytes fs s2 (mo_raw b)" "\<exists>w. dylib_ok (mo_raw b) b w"
          using p[of fs s1 l1] p[of fs s2 l2] a b by auto
        then show ?thesis using v by (auto simp: Inr)
      qed
    qed
  qed
qed

section \<open>Concrete pairs\<close>

text \<open>A one-atom artifact whose only bytes are a volatile UUID.\<close>

definition sample_atom :: "bytes \<Rightarrow> byte_atom" where
  "sample_atom u = \<lparr>a_locator = ''macho.load[LC_UUID].uuid'', a_role = Allowed_Payload, a_offset = 0,
     a_size = blen u, a_payload = u, a_depends_on = [], a_note = None, a_canonical_payload = None\<rparr>"

definition sample_side :: "bytes \<Rightarrow> parsed" where
  "sample_side u = \<lparr>pa_label = ''sample'', pa_raw = u,
     pa_axes = JObj [(''flags'', JInt 133), (''uuid'', JStr (hex_of_bytes u))], pa_symbols = [],
     pa_atoms = [sample_atom u], pa_provenance = []\<rparr>"

lemma sample_compares: "\<exists>c. compare_parsed printable kind (sample_side u) (sample_side v) = Inr c"
proof -
  have axes: "normalized_axes (pa_axes (sample_side w)) = Inr (JObj [(''flags'', JInt 133)])" for w
    by (simp add: sample_side_def normalized_axes.simps proven_keys_def)
  have "symbol_axes_of printable (pa_symbols (sample_side u)) (pa_symbols (sample_side v)) \<noteq> Inl e" for e
    by (simp add: sample_side_def symbol_axes_of_def)
  then obtain s where "symbol_axes_of printable (pa_symbols (sample_side u)) (pa_symbols (sample_side v)) = Inr s"
    by (cases "symbol_axes_of printable (pa_symbols (sample_side u)) (pa_symbols (sample_side v))") auto
  then show ?thesis by (simp add: compare_parsed_def axes Let_def)
qed

lemma sample_wf: "json_wf (pa_axes (sample_side u))"
  by (auto simp: sample_side_def)

theorem verdict_symmetric_witness:
  "\<exists>c d. compare_parsed (\<lambda>_. True) ''dynamic'' (sample_side [1]) (sample_side [2]) = Inr c
     \<and> compare_parsed (\<lambda>_. True) ''dynamic'' (sample_side [2]) (sample_side [1]) = Inr d
     \<and> (cp_verdict c = ''pass'') = (cp_verdict d = ''pass'')"
proof -
  obtain c where c: "compare_parsed (\<lambda>_. True) ''dynamic'' (sample_side [1]) (sample_side [2]) = Inr c"
    using sample_compares by blast
  obtain d where d: "compare_parsed (\<lambda>_. True) ''dynamic'' (sample_side [2]) (sample_side [1]) = Inr d"
    using sample_compares by blast
  show ?thesis using c d verdict_symmetric[OF c d sample_wf sample_wf] by blast
qed

theorem verdict_reflexive_witness:
  "\<exists>c. compare_parsed (\<lambda>_. True) ''dynamic'' (sample_side [7]) (sample_side [7]) = Inr c \<and> cp_verdict c = ''pass''"
proof -
  obtain c where c: "compare_parsed (\<lambda>_. True) ''dynamic'' (sample_side [7]) (sample_side [7]) = Inr c"
    using sample_compares by blast
  then show ?thesis using verdict_reflexive[OF c sample_wf] by blast
qed

theorem digest_follows_atoms_witness:
  "canonical_digest [sample_atom [1, 2]] = canonical_digest [sample_atom [3]]"
proof -
  have "atoms_agree (atom_dict [sample_atom [1, 2]]) (atom_dict [sample_atom [3]])"
    by (simp add: atoms_agree_def atom_dict_def sample_atom_def atoms_match_def)
  then show ?thesis
    using digest_follows_atoms[of "[sample_atom [1, 2]]" "[sample_atom [3]]"]
    by (simp add: sample_atom_def atom_wf_def)
qed

end
