(* ===== verification/Verify_Evidence.thy ===== *)
theory Verify_Evidence
  imports Verify_Control Archive_Correct Comparison_Correct
begin

text \<open>
  The pure evidence of \<open>tools/verify_abi_artifact_parity.py\<close>: symbol axes, source accounting, and the
  use the verifier makes of a comparison.
\<close>

section \<open>Symbol axes\<close>

record axis_entry =
  ax_name :: string
  ax_base_type :: string
  ax_section :: int
  ax_private_external :: bool
  ax_type_code :: int

definition axis_entry_of :: "symbol_record \<Rightarrow> axis_entry" where
  "axis_entry_of s = \<lparr>ax_name = sym_name s, ax_base_type = sym_base_type s, ax_section = sym_section s,
     ax_private_external = sym_private_external s, ax_type_code = sym_type_code s\<rparr>"

definition axis_entry_json :: "axis_entry \<Rightarrow> json" where
  "axis_entry_json a = JObj [(''name'', JStr (ax_name a)), (''base_type'', JStr (ax_base_type a)),
     (''section'', JInt (ax_section a)), (''private_external'', JBool (ax_private_external a)),
     (''type_code'', JInt (ax_type_code a))]"

record symbol_axis_map =
  external_defined :: "axis_entry list"
  external_undefined :: "axis_entry list"
  local_non_stabs :: "axis_entry list"

definition undefined_type :: "symbol_record \<Rightarrow> bool" where
  "undefined_type s \<longleftrightarrow> sym_base_type s \<in> {''undefined'', ''prebound-undefined''}"

definition axis_step :: "symbol_record \<Rightarrow> symbol_axis_map \<Rightarrow> symbol_axis_map" where
  "axis_step s m =
     (if sym_stab s \<noteq> 0 then m
      else if sym_external s \<and> undefined_type s
      then m\<lparr>external_undefined := external_undefined m @ [axis_entry_of s]\<rparr>
      else if sym_external s then m\<lparr>external_defined := external_defined m @ [axis_entry_of s]\<rparr>
      else m\<lparr>local_non_stabs := local_non_stabs m @ [axis_entry_of s]\<rparr>)"

definition symbol_axis :: "symbol_record list \<Rightarrow> symbol_axis_map" where
  "symbol_axis records = fold axis_step records
     \<lparr>external_defined = [], external_undefined = [], local_non_stabs = []\<rparr>"

definition axis_lists :: "symbol_axis_map \<Rightarrow> (string \<times> axis_entry list) list" where
  "axis_lists m = [(''external_defined'', external_defined m), (''external_undefined'', external_undefined m),
     (''local_non_stabs'', local_non_stabs m)]"

record axis_verdict =
  av_left_count :: int
  av_right_count :: int
  av_order_equal :: bool
  av_multiset_equal :: bool
  av_types_equal :: bool

definition axis_types :: "axis_entry list \<Rightarrow> (string \<times> int \<times> int) list" where
  "axis_types xs = map (\<lambda>a. (ax_base_type a, ax_section a, ax_type_code a)) xs"

definition compare_axis :: "axis_entry list \<Rightarrow> axis_entry list \<Rightarrow> axis_verdict" where
  "compare_axis left right =
     \<lparr>av_left_count = blen left, av_right_count = blen right, av_order_equal = (left = right),
      av_multiset_equal = counter_eq (map (canonical_json_bytes \<circ> axis_entry_json) left)
        (map (canonical_json_bytes \<circ> axis_entry_json) right),
      av_types_equal = counter_eq (axis_types left) (axis_types right)\<rparr>"

definition axis_verdict_json :: "axis_verdict \<Rightarrow> json" where
  "axis_verdict_json v = JObj [(''left_count'', JInt (av_left_count v)), (''right_count'', JInt (av_right_count v)),
     (''order_equal'', JBool (av_order_equal v)), (''multiset_equal'', JBool (av_multiset_equal v)),
     (''types_equal'', JBool (av_types_equal v))]"

definition compare_axis_step :: "(string \<times> axis_entry list) \<times> string \<times> axis_entry list \<Rightarrow> (string \<times> json) list
    \<Rightarrow> (string \<times> json) list ver" where
  "compare_axis_step p axes =
     (let ((name, left), (_, right)) = p; v = compare_axis left right in
      if \<not> (av_order_equal v \<and> av_multiset_equal v \<and> av_types_equal v)
      then ver_fail ''symbol_axis_mismatch'' (name @ '' order, multiset, or types differ'') (''symbols.'' @ name)
      else Inr (axes @ [(name, axis_verdict_json v)]))"

definition compare_symbol_axes :: "symbol_axis_map \<Rightarrow> symbol_axis_map \<Rightarrow> json ver" where
  "compare_symbol_axes left right =
     bind_r (fold_r compare_axis_step (zip (axis_lists left) (axis_lists right)) []) (\<lambda>axes.
     Inr (JObj [(''axes'', JObj axes), (''verdict'', JStr ''pass'')]))"

section \<open>Source names\<close>

text \<open>\<open>visibility not in {"default", "hidden"}\<close> hashes the value first: a list or an object raises.\<close>

definition source_step :: "int \<times> json \<Rightarrow> string list \<times> string list \<Rightarrow> (string list \<times> string list) ver" where
  "source_step p names =
     (let (index, item) = p; (public, hidden) = names;
          at = ''observation.sources.declarations['' @ show_int index @ '']'' in
      if \<not> is_obj item then ver_fail ''source_declaration_invalid'' ''source declaration must be an object'' at
      else
      bind_r (json_get item ''exported_name'') (\<lambda>name.
      bind_r (json_get item ''visibility'') (\<lambda>visibility.
      if \<not> is_str name \<or> the_str name = []
      then ver_fail ''source_declaration_invalid'' ''invalid exported_name or visibility'' at
      else case visibility of
        JList _ \<Rightarrow> Inl (Raised TypeError)
      | JObj _ \<Rightarrow> Inl (Raised TypeError)
      | _ \<Rightarrow>
          if visibility \<notin> {JStr ''default'', JStr ''hidden''}
          then ver_fail ''source_declaration_invalid'' ''invalid exported_name or visibility'' at
          else if visibility = JStr ''hidden'' then Inr (public, hidden @ [the_str name])
          else Inr (public @ [the_str name], hidden))))"

definition source_names_from_observation :: "json \<Rightarrow> (string list \<times> string list) ver" where
  "source_names_from_observation observation =
     bind_r (json_get_or observation (JObj []) ''sources'') (\<lambda>sources.
     bind_r (json_get sources ''declarations'') (\<lambda>declarations.
     case declarations of
       JList items \<Rightarrow> fold_r source_step (enumerate_int items) ([], [])
     | _ \<Rightarrow> ver_fail ''source_declarations_missing'' ''frozen observation lacks source declarations''
         ''observation.sources.declarations''))"

section \<open>Source accounting\<close>

definition normalize_exact_symbol :: "string \<Rightarrow> string list \<Rightarrow> string option" where
  "normalize_exact_symbol name source_names =
     (if name \<in> set source_names then Some name
      else if starts_with name ''_'' \<and> drop 1 name \<in> set source_names then Some (drop 1 name)
      else None)"

definition sorted_set :: "string list \<Rightarrow> string list" where
  "sorted_set xs = sort (remdups xs)"

record accounting =
  ac_public_expected :: "string list"
  ac_public_matched :: "string list"
  ac_public_missing :: "string list"
  ac_hidden_expected :: "string list"
  ac_hidden_matched :: "string list"
  ac_hidden_missing :: "string list"

definition account_step :: "string list \<Rightarrow> string list \<Rightarrow> symbol_record \<Rightarrow> string list \<times> string list \<Rightarrow> string list \<times> string list" where
  "account_step public hidden s matched =
     (let (p, h) = matched in
      if sym_stab s \<noteq> 0 \<or> undefined_type s then (p, h)
      else if sym_external s \<and> \<not> sym_private_external s
      then (case normalize_exact_symbol (sym_name s) public of Some n \<Rightarrow> (p @ [n], h) | None \<Rightarrow> (p, h))
      else (case normalize_exact_symbol (sym_name s) hidden of Some n \<Rightarrow> (p, h @ [n]) | None \<Rightarrow> (p, h)))"

definition source_accounting :: "symbol_record list \<Rightarrow> string list \<Rightarrow> string list \<Rightarrow> accounting ver" where
  "source_accounting records public hidden =
     (if list_ex (\<lambda>n. n \<in> set hidden) public
      then ver_fail ''source_name_ambiguity'' ''public and hidden source names overlap'' ''observation.sources.declarations''
      else let (p, h) = fold (account_step public hidden) records ([], []) in
        Inr \<lparr>ac_public_expected = sorted_set public, ac_public_matched = sorted_set p,
             ac_public_missing = sorted_set (filter (\<lambda>n. n \<notin> set p) public),
             ac_hidden_expected = sorted_set hidden, ac_hidden_matched = sorted_set h,
             ac_hidden_missing = sorted_set (filter (\<lambda>n. n \<notin> set h) hidden)\<rparr>)"

definition accounting_json :: "accounting \<Rightarrow> json" where
  "accounting_json a = JObj
     [(''public'', JObj [(''expected'', jstrs (ac_public_expected a)), (''matched'', jstrs (ac_public_matched a)),
        (''missing'', jstrs (ac_public_missing a))]),
      (''hidden'', JObj [(''expected'', jstrs (ac_hidden_expected a)), (''matched'', jstrs (ac_hidden_matched a)),
        (''missing'', jstrs (ac_hidden_missing a))]),
      (''verdict'', JStr ''pass'')]"

section \<open>Comparisons\<close>

fun the_int :: "json \<Rightarrow> int" where "the_int (JInt i) = i" | "the_int (JBool b) = of_bool b" | "the_int _ = 0"

definition item_size :: "json \<Rightarrow> string \<Rightarrow> int ver" where
  "item_size item which = bind_r (json_item item which) (\<lambda>a. bind_r (json_item a ''size'') (\<lambda>n. Inr (the_int n)))"

definition both_sizes :: "json \<Rightarrow> int \<Rightarrow> int ver" where
  "both_sizes item n = bind_r (item_size item ''left'') (\<lambda>l. bind_r (item_size item ''right'') (\<lambda>r. Inr (n + (l + r))))"

text \<open>\<open>bool(m.get(k))\<close>.\<close>

fun json_true :: "json \<Rightarrow> bool" where
  "json_true JNull = False" | "json_true (JBool b) = b" | "json_true (JInt i) = (i \<noteq> 0)"
| "json_true (JStr s) = (s \<noteq> [])" | "json_true (JList xs) = (xs \<noteq> [])" | "json_true (JObj d) = (d \<noteq> [])"

definition comparison_summary :: "comparison \<Rightarrow> json ver" where
  "comparison_summary c =
     bind_r (fold_r both_sizes (cp_allowed_edit_atoms c) 0) (\<lambda>allowed_bytes.
     bind_r (fold_r both_sizes (cp_derived_fields c) 0) (\<lambda>derived_bytes.
     bind_r (json_get (cp_structured_axes c) ''equal'') (\<lambda>axes_equal.
     bind_r (json_get (cp_symbol_axes c) ''order_equal'') (\<lambda>order_equal.
     bind_r (json_get (cp_symbol_axes c) ''multiset_equal'') (\<lambda>multiset_equal.
     Inr (JObj
       [(''verdict'', JStr (cp_verdict c)), (''failures'', jstrs (cp_failures c)),
        (''left_raw_sha256'', JStr (cp_left_raw_sha256 c)), (''right_raw_sha256'', JStr (cp_right_raw_sha256 c)),
        (''left_size'', JInt (cp_left_size c)), (''right_size'', JInt (cp_right_size c)),
        (''left_canonical_digest'', JStr (cp_left_canonical_digest c)),
        (''right_canonical_digest'', JStr (cp_right_canonical_digest c)),
        (''structured_axes_equal'', JBool (json_true axes_equal)), (''symbol_order_equal'', JBool (json_true order_equal)),
        (''symbol_multiset_equal'', JBool (json_true multiset_equal)),
        (''allowed_atom_count'', JInt (blen (cp_allowed_edit_atoms c))), (''allowed_bytes_both_sides'', JInt allowed_bytes),
        (''derived_atom_count'', JInt (blen (cp_derived_fields c))), (''derived_bytes_both_sides'', JInt derived_bytes),
        (''uncovered_left_bytes'', JList (cp_uncovered_left_bytes c)),
        (''uncovered_right_bytes'', JList (cp_uncovered_right_bytes c)),
        (''unpaired_atoms'', jstrs (cp_unpaired_atoms c)),
        (''invalid_derived_fields'', jstrs (cp_invalid_derived_fields c))]))))))"

definition require_comparison :: "comparison \<Rightarrow> string \<Rightarrow> unit ver" where
  "require_comparison c locator =
     (if cp_verdict c \<noteq> ''pass'' then ver_fail ''artifact_parity_failed'' (join_with ''; '' (cp_failures c)) locator
      else if cp_left_canonical_digest c \<noteq> cp_right_canonical_digest c
      then ver_fail ''canonical_digest_mismatch'' ''canonical digests differ'' locator
      else if cp_uncovered_left_bytes c \<noteq> [] \<or> cp_uncovered_right_bytes c \<noteq> [] \<or> cp_unpaired_atoms c \<noteq> []
         \<or> cp_invalid_derived_fields c \<noteq> [] \<or> cp_failures c \<noteq> []
      then ver_fail ''comparison_not_closed'' ''comparison has uncovered, unpaired, invalid, or failed evidence'' locator
      else Inr ())"

section \<open>What the axes decide\<close>

lemma axis_steps:
  "fold axis_step rs m = m\<lparr>
     external_defined := external_defined m @ map axis_entry_of (filter (\<lambda>s. sym_stab s = 0 \<and> sym_external s \<and> \<not> undefined_type s) rs),
     external_undefined := external_undefined m @ map axis_entry_of (filter (\<lambda>s. sym_stab s = 0 \<and> sym_external s \<and> undefined_type s) rs),
     local_non_stabs := local_non_stabs m @ map axis_entry_of (filter (\<lambda>s. sym_stab s = 0 \<and> \<not> sym_external s) rs)\<rparr>"
  by (induction rs arbitrary: m) (auto simp: axis_step_def)

lemma axis_equal: "av_order_equal (compare_axis l r) \<and> av_multiset_equal (compare_axis l r) \<and> av_types_equal (compare_axis l r)
    \<longleftrightarrow> l = r"
  by (auto simp: compare_axis_def counter_eq_mset)

lemma compare_axis_step_ok:
  "compare_axis_step ((n, l), (k, r)) axes =
     (if l = r then Inr (axes @ [(n, axis_verdict_json (compare_axis l r))])
      else ver_fail ''symbol_axis_mismatch'' (n @ '' order, multiset, or types differ'') (''symbols.'' @ n))"
  by (simp only: compare_axis_step_def Let_def prod.case axis_equal) simp

text \<open>The symbol axes of two artifacts agree exactly when their symbols outside the debug records, split
  into defined and undefined externals and locals, are the same in the same order; the multiset and
  type comparisons never decide.\<close>

theorem symbol_axes_decide:
  "is_ok (compare_symbol_axes (symbol_axis left) (symbol_axis right)) =
    list_all (\<lambda>p. map axis_entry_of (filter p left) = map axis_entry_of (filter p right))
      [\<lambda>s. sym_stab s = 0 \<and> sym_external s \<and> \<not> undefined_type s, \<lambda>s. sym_stab s = 0 \<and> sym_external s \<and> undefined_type s,
       \<lambda>s. sym_stab s = 0 \<and> \<not> sym_external s]"
  by (simp add: compare_symbol_axes_def axis_lists_def symbol_axis_def axis_steps compare_axis_step_ok ver_fail_def)

section \<open>What the accounting means\<close>

definition visible_definition :: "symbol_record \<Rightarrow> bool" where
  "visible_definition s \<longleftrightarrow> sym_stab s = 0 \<and> \<not> undefined_type s \<and> sym_external s \<and> \<not> sym_private_external s"

definition private_definition :: "symbol_record \<Rightarrow> bool" where
  "private_definition s \<longleftrightarrow> sym_stab s = 0 \<and> \<not> undefined_type s \<and> \<not> (sym_external s \<and> \<not> sym_private_external s)"

lemma account_steps:
  "set (fst (fold (account_step public hidden) rs m)) = set (fst m) \<union>
      {n. \<exists>s \<in> set rs. visible_definition s \<and> normalize_exact_symbol (sym_name s) public = Some n}
   \<and> set (snd (fold (account_step public hidden) rs m)) = set (snd m) \<union>
      {n. \<exists>s \<in> set rs. private_definition s \<and> normalize_exact_symbol (sym_name s) hidden = Some n}"
proof (induction rs arbitrary: m)
  case (Cons s rs)
  obtain p h where m: "m = (p, h)" by (cases m)
  have "set (fst (account_step public hidden s m)) = set p \<union>
      {n. visible_definition s \<and> normalize_exact_symbol (sym_name s) public = Some n}"
    "set (snd (account_step public hidden s m)) = set h \<union>
      {n. private_definition s \<and> normalize_exact_symbol (sym_name s) hidden = Some n}"
    by (auto simp: account_step_def m visible_definition_def private_definition_def split: option.splits)
  then show ?case using Cons.IH[of "account_step public hidden s m"] unfolding fold_Cons o_apply m by auto
qed simp

lemma set_sorted_set [simp]: "set (sorted_set xs) = set xs"
  by (simp add: sorted_set_def)

text \<open>The declared names that some symbol of a kind defines, as they are or behind an underscore.\<close>

definition names_defined :: "(symbol_record \<Rightarrow> bool) \<Rightarrow> symbol_record list \<Rightarrow> string list \<Rightarrow> string set" where
  "names_defined kind records names =
     {n. \<exists>s \<in> set records. kind s \<and> normalize_exact_symbol (sym_name s) names = Some n}"

text \<open>Accounting fails exactly when a name is declared both public and hidden.  Otherwise a public name
  is matched by a visible definition and a hidden one by a private definition, never across, and
  what is missing is exactly what no such definition spells.\<close>

theorem source_accounting_exact:
  "case source_accounting records public hidden of
     Inl x \<Rightarrow> set public \<inter> set hidden \<noteq> {} \<and>
       x = Verification ''source_name_ambiguity'' ''public and hidden source names overlap'' ''observation.sources.declarations''
   | Inr a \<Rightarrow> set public \<inter> set hidden = {}
       \<and> set (ac_public_matched a) = names_defined visible_definition records public
       \<and> set (ac_public_missing a) = set public - names_defined visible_definition records public
       \<and> set (ac_hidden_matched a) = names_defined private_definition records hidden
       \<and> set (ac_hidden_missing a) = set hidden - names_defined private_definition records hidden"
proof -
  obtain p h where f: "fold (account_step public hidden) records ([], []) = (p, h)" by fastforce
  have "set p = names_defined visible_definition records public" "set h = names_defined private_definition records hidden"
    using account_steps[of public hidden records "([], [])"] by (simp_all add: f names_defined_def)
  then show ?thesis by (auto simp: source_accounting_def f ver_fail_def list_ex_iff)
qed

section \<open>What the verifier asks of a comparison\<close>

definition closed_state :: "string list \<Rightarrow> compare_state \<Rightarrow> bool" where
  "closed_state unpaired s \<longleftrightarrow> cs_failures s = [] \<longrightarrow> cs_invalid s = [] \<and> unpaired = []"

lemma compare_atom_closed: "closed_state u s \<Longrightarrow> closed_state u (compare_atom l r k s)"
  by (auto simp: closed_state_def compare_atom_def compare_derived_def add_failure_def Let_def split: option.split)

lemma compare_atoms_closed: "closed_state u s \<Longrightarrow> closed_state u (fold (compare_atom l r) ks s)"
  by (induction ks arbitrary: s) (auto simp: compare_atom_closed)

lemma passing_comparison_closed:
  assumes "compare_parsed printable kind left right = Inr c" "cp_verdict c = ''pass''"
  shows "cp_left_canonical_digest c = cp_right_canonical_digest c" "cp_uncovered_left_bytes c = []"
    "cp_uncovered_right_bytes c = []" "cp_unpaired_atoms c = []" "cp_invalid_derived_fields c = []" "cp_failures c = []"
proof -
  define u where "u = unpaired_locators (atom_dict (pa_atoms left)) (atom_dict (pa_atoms right))"
  define s where "s = fold (compare_atom (atom_dict (pa_atoms left)) (atom_dict (pa_atoms right)))
    (common_locators (atom_dict (pa_atoms left)) (atom_dict (pa_atoms right)))
    \<lparr>cs_failures = failure_if (u \<noteq> []) (show_int (blen u) @ '' atom locators are unpaired''),
     cs_allowed = [], cs_derived = [], cs_invalid = []\<rparr>"
  have "closed_state u s"
    unfolding s_def by (rule compare_atoms_closed) (simp add: closed_state_def failure_if_def)
  moreover obtain x y sx where "normalized_axes (pa_axes left) = Inr x" "normalized_axes (pa_axes right) = Inr y"
    "symbol_axes_of printable (pa_symbols left) (pa_symbols right) = Inr sx"
    and f: "cp_failures c = from_keys (cs_failures s
        @ failure_if (\<not> json_eq x y) ''structured axes differ''
        @ failure_if (\<not> sx_order_equal sx) ''symbol order differs''
        @ failure_if (\<not> sx_multiset_equal sx) ''symbol multiset differs''
        @ failure_if (canonical_digest (pa_atoms left) \<noteq> canonical_digest (pa_atoms right)) ''canonical digests differ''
        @ failure_if (provenance_shape (pa_provenance left) \<noteq> provenance_shape (pa_provenance right))
            ''provenance locator kind or basename differs'')"
    and c: "cp_unpaired_atoms c = u" "cp_invalid_derived_fields c = cs_invalid s"
      "cp_left_canonical_digest c = canonical_digest (pa_atoms left)"
      "cp_right_canonical_digest c = canonical_digest (pa_atoms right)"
      "cp_uncovered_left_bytes c = []" "cp_uncovered_right_bytes c = []"
    using assms(1) unfolding compare_parsed_def Let_def u_def[symmetric] s_def[symmetric]
    by (auto simp: bind_r_eq_Inr)
  moreover have nil: "cp_failures c = []" using assms(2) compare_parsed_verdict(2)[OF assms(1)] by simp
  moreover have "cs_failures s = []" "canonical_digest (pa_atoms left) = canonical_digest (pa_atoms right)"
    using f unfolding nil by (auto simp: from_keys_def failure_if_def split: if_splits)
  ultimately show "cp_left_canonical_digest c = cp_right_canonical_digest c" "cp_uncovered_left_bytes c = []"
    "cp_uncovered_right_bytes c = []" "cp_unpaired_atoms c = []" "cp_invalid_derived_fields c = []" "cp_failures c = []"
    by (simp_all add: closed_state_def)
qed

text \<open>The verifier accepts a comparison exactly when the two artifacts are equivalent: its own checks
  of digests, uncovered bytes, unpaired atoms and invalid fields agree with the verdict.\<close>

theorem verifier_accepts_equivalent:
  "case compare_parsed printable kind left right of
     Inl e \<Rightarrow> comparison_stops e
   | Inr c \<Rightarrow> is_ok (require_comparison c locator) = pair_equivalent left right"
proof (cases "compare_parsed printable kind left right")
  case (Inr c)
  have "is_ok (require_comparison c locator) = (cp_verdict c = ''pass'')"
    using passing_comparison_closed[OF Inr] by (auto simp: require_comparison_def ver_fail_def)
  then show ?thesis using compare_parsed_verdict(1)[OF Inr] Inr by simp
qed (simp add: compare_parsed_Inl)

end
