(* ===== verification/Tool_Output.thy ===== *)
theory Tool_Output
  imports Py_Regex Git_Output Verify_Process Verify_Evidence
begin

unbundle bit_operations_syntax

text \<open>
  The readers of what \<open>otool\<close>, \<open>nm\<close> and \<open>ar\<close> print, and the same facts taken from the core parser
  (\<open>tools/verify_abi_artifact_parity.py\<close>, \<open>parse_otool\<close> to \<open>parse_ar_tv\<close>).  The output of a tool is the
  list of its code points; what is taken from it is a string of the model, its UTF-8 encoding.
\<close>

section \<open>Text\<close>

text \<open>What Python's Unicode tables decide, and the texts of its conversions.\<close>

record unicode =
  un_digit :: "int \<Rightarrow> bool"
  un_isdigit :: "int \<Rightarrow> bool"
  un_word :: "int \<Rightarrow> bool"
  un_lower :: "points \<Rightarrow> points"
  un_int :: "points \<Rightarrow> int option"
  un_decode_error :: "bytes \<Rightarrow> string"
  un_repr :: "json \<Rightarrow> string"

definition utf8_of :: "points \<Rightarrow> string" where
  "utf8_of t = concat (map (\<lambda>p. str_of_bytes (utf8_encode p)) t)"

definition decode_tool :: "unicode \<Rightarrow> command_result \<Rightarrow> string \<Rightarrow> points ver" where
  "decode_tool un r locator =
     bind_r (require_command r locator) (\<lambda>_.
     case utf8_decode (cr_stdout r @ cr_stderr r) of
       None \<Rightarrow> ver_fail ''tool_output_not_utf8'' (un_decode_error un (cr_stdout r @ cr_stderr r)) locator
     | Some t \<Rightarrow> Inr t)"

definition exact_version_line :: "unicode \<Rightarrow> bytes \<Rightarrow> string \<Rightarrow> points ver" where
  "exact_version_line un raw locator =
     (case utf8_decode raw of
        None \<Rightarrow> ver_fail ''tool_output_not_utf8'' (un_decode_error un raw) locator
      | Some t \<Rightarrow>
          let line = py_strip t in
          if line = [] \<or> 10 \<in> set line
          then ver_fail ''tool_output_ambiguous'' ''expected exactly one nonempty line'' locator
          else Inr line)"

section \<open>The load commands of \<open>otool\<close>\<close>

text \<open>\<open>^Load command \d+\s*$\<close>, \<open>^\s*cmd ...\s*$\<close> and \<open>^\s*...\s+(\S+)\<close>.\<close>

definition block_start :: "unicode \<Rightarrow> re" where
  "block_start un = re_seq [Bol, re_str ''Load command '', Many (un_digit un) 1 True, re_spaces, Eol]"

definition command_line :: "re \<Rightarrow> re" where
  "command_line names = re_seq [Bol, re_spaces, re_str ''cmd '', names, re_spaces, Eol]"

definition field_line :: "string \<Rightarrow> re" where
  "field_line name = re_seq [Bol, re_spaces, re_str name, re_spaces1, Group 1 re_word]"

definition dependency_commands :: re where
  "dependency_commands = re_seq [re_str ''LC_'',
     re_alt (re_str ''LOAD'') [re_str ''LOAD_WEAK'', re_str ''REEXPORT'', re_str ''LAZY_LOAD'', re_str ''LOAD_UPWARD''],
     re_str ''_DYLIB'']"

definition with_command :: "re \<Rightarrow> points list \<Rightarrow> points list" where
  "with_command names blocks = filter (\<lambda>b. re_search (command_line names) b 0 \<noteq> None) blocks"

text \<open>The function \<open>one\<close>: the only value of a field.\<close>

definition one_field :: "string \<Rightarrow> points \<Rightarrow> string \<Rightarrow> points ver" where
  "one_field keyword t field =
     (let values = map (\<lambda>c. group_text t c 1) (re_findall (field_line keyword) t 0) in
      if length values \<noteq> 1
      then ver_fail ''otool_field_count'' (''expected one '' @ field @ '', found '' @ show_int (blen values))
        (''system.otool.'' @ field)
      else Inr (hd values))"

definition library_names :: "points \<Rightarrow> points list" where
  "library_names libraries = concat (map (\<lambda>line.
     case re_prefix (re_seq [re_spaces, Group 1 re_word, re_spaces1, re_str ''(compatibility version'']) line 0 of
       Some (_, c) \<Rightarrow> [group_text line c 1] | None \<Rightarrow> []) (tl (py_splitlines libraries)))"

record otool_metadata =
  ot_platform :: string
  ot_minimum_platform :: string
  ot_sdk :: string
  ot_install_name :: string
  ot_dependencies :: "string list"
  ot_rpaths :: "string list"

definition otool_json :: "otool_metadata \<Rightarrow> json" where
  "otool_json m = JObj [(''platform'', JStr (ot_platform m)), (''minimum_platform'', JStr (ot_minimum_platform m)),
     (''sdk'', JStr (ot_sdk m)), (''install_name'', JStr (ot_install_name m)),
     (''dependencies'', jstrs (ot_dependencies m)), (''rpaths'', jstrs (ot_rpaths m))]"

definition platform_name :: "points \<Rightarrow> points" where
  "platform_name p = (if p = pts ''1'' then pts ''MACOS'' else p)"

definition parse_otool :: "unicode \<Rightarrow> points \<Rightarrow> points \<Rightarrow> otool_metadata ver" where
  "parse_otool un loads libraries =
     (let blocks = split_before (block_start un) loads;
          build = with_command (re_str ''LC_BUILD_VERSION'') blocks in
      if length build \<noteq> 1
      then ver_fail ''otool_build_version_count''
        (''expected one LC_BUILD_VERSION block, found '' @ show_int (blen build)) ''system.otool''
      else
      bind_r (one_field ''platform'' (hd build) ''platform'') (\<lambda>platform.
      bind_r (one_field ''minos'' (hd build) ''minimum_platform'') (\<lambda>minimum.
      bind_r (one_field ''sdk'' (hd build) ''sdk'') (\<lambda>sdk.
      let id_blocks = with_command (re_str ''LC_ID_DYLIB'') blocks in
      if length id_blocks \<noteq> 1
      then ver_fail ''otool_install_name_count''
        (''expected one LC_ID_DYLIB block, found '' @ show_int (blen id_blocks)) ''system.otool.install_name''
      else
      bind_r (one_field ''name'' (hd id_blocks) ''install_name'') (\<lambda>install.
      bind_r (map_r (\<lambda>b. one_field ''name'' b ''dependency'') (with_command dependency_commands blocks)) (\<lambda>dependencies.
      bind_r (map_r (\<lambda>b. one_field ''path'' b ''rpath'') (with_command (re_str ''LC_RPATH'') blocks)) (\<lambda>rpaths.
      let names = library_names libraries in
      if names = [] \<or> hd names \<noteq> install \<or> tl names \<noteq> dependencies
      then ver_fail ''otool_libraries_mismatch'' ''otool -L disagrees with otool -l'' ''system.otool.libraries''
      else Inr \<lparr>ot_platform = utf8_of (platform_name platform), ot_minimum_platform = utf8_of minimum,
        ot_sdk = utf8_of sdk, ot_install_name = utf8_of install, ot_dependencies = map utf8_of dependencies,
        ot_rpaths = map utf8_of rpaths\<rparr>)))))))"

section \<open>The same facts from the core parser\<close>

text \<open>\<open>display_version\<close>: trailing zero parts beyond the second are dropped.\<close>

function pop_zeros :: "string list \<Rightarrow> string list" where
  "pop_zeros parts = (if length parts > 2 \<and> last parts = ''0'' then pop_zeros (butlast parts) else parts)"
  by pat_completeness auto

termination
  by (relation "measure length") auto

declare pop_zeros.simps [simp del]

definition display_version :: "string \<Rightarrow> string" where
  "display_version v = join_with ''.'' (pop_zeros (split_on (CHR ''.'') v))"

text \<open>The axes are those the parser wrote: the entries are objects with the keys that are read here.\<close>

definition core_macho_metadata :: "unicode \<Rightarrow> macho_artifact \<Rightarrow> otool_metadata ver" where
  "core_macho_metadata un dynamic =
     (let axes = mo_structured_axes dynamic in
      bind_r (json_item axes ''build_versions'') (\<lambda>build_versions.
      bind_r (json_item axes ''install_name'') (\<lambda>install_names.
      if length (the_list build_versions) \<noteq> 1 \<or> length (the_list install_names) \<noteq> 1
      then ver_fail ''core_metadata_count'' ''core parser did not find unique build/install metadata'' ''structured.dynamic''
      else
      let build = hd (the_list build_versions) in
      bind_r (json_item build ''platform'') (\<lambda>platform.
      if \<not> json_eq platform (JInt 1)
      then ver_fail ''core_platform_unknown'' (''unsupported Mach-O platform value '' @ un_repr un platform)
        ''structured.dynamic.platform''
      else
      bind_r (json_item build ''minimum_platform'') (\<lambda>minimum.
      bind_r (json_item build ''sdk'') (\<lambda>sdk.
      bind_r (json_item (hd (the_list install_names)) ''name'') (\<lambda>install.
      bind_r (json_item axes ''dependencies'') (\<lambda>dependencies.
      bind_r (map_r (\<lambda>d. json_item d ''name'') (the_list dependencies)) (\<lambda>names.
      bind_r (json_item axes ''rpaths'') (\<lambda>rpaths.
      Inr \<lparr>ot_platform = ''MACOS'', ot_minimum_platform = display_version (the_str minimum),
        ot_sdk = display_version (the_str sdk), ot_install_name = the_str install,
        ot_dependencies = map the_str names, ot_rpaths = map the_str (the_list rpaths)\<rparr>))))))))))"

section \<open>Symbols of \<open>nm\<close>\<close>

record nm_axes =
  nm_defined :: "(string \<times> string) list"
  nm_undefined :: "(string \<times> string) list"
  nm_local :: "(string \<times> string) list"

definition nm_empty :: nm_axes where "nm_empty = \<lparr>nm_defined = [], nm_undefined = [], nm_local = []\<rparr>"

definition nm_line :: re where
  "nm_line = re_seq [re_str ''('', Group 1 (Many (\<lambda>p. p \<noteq> 41) 1 True), re_str '')'', re_spaces1,
     Group 2 (re_alt (re_str ''private external'') [re_str ''external'', re_str ''non-external'']), re_spaces1,
     Group 3 (Many (\<lambda>p. p \<noteq> 10) 1 False),
     Alt (re_seq [re_spaces1, re_str ''(from '', Many (\<lambda>p. p \<noteq> 41) 1 True, re_str '')'']) Eps, Final]"

definition drop_cold :: "points \<Rightarrow> points" where
  "drop_cold name = (let cold = pts ''[cold func] '' in if starts_with name cold then drop (length cold) name else name)"

text \<open>The type that a descriptor stands for.\<close>

definition nm_type :: "points \<Rightarrow> points \<Rightarrow> points" where
  "nm_type descriptor lower =
     (if lower = pts ''undefined'' then pts ''undefined''
      else if 44 \<in> set descriptor then pts ''section:'' @ descriptor
      else map (\<lambda>p. if p = 32 then 95 else p) lower)"

definition nm_step :: "unicode \<Rightarrow> points \<Rightarrow> nm_axes \<Rightarrow> nm_axes" where
  "nm_step un raw axes =
     (let line = py_strip raw in
      if line = [] \<or> last line = 58 then axes
      else case re_search nm_line line 0 of
        None \<Rightarrow> axes
      | Some (_, _, c) \<Rightarrow>
          let descriptor = group_text line c 1; visibility = group_text line c 2;
              name = drop_cold (py_strip (group_text line c 3)); lower = un_lower un descriptor;
              symbol_type = nm_type descriptor lower; entry = (utf8_of name, utf8_of symbol_type) in
          if name = [] \<or> hd name = 40 then axes
          else if lower = pts ''?'' then axes
          else if has_text (pts ''stab'') lower then axes
          else if visibility \<in> {pts ''external'', pts ''private external''}
          then if symbol_type = pts ''undefined'' then axes\<lparr>nm_undefined := nm_undefined axes @ [entry]\<rparr>
            else axes\<lparr>nm_defined := nm_defined axes @ [entry]\<rparr>
          else axes\<lparr>nm_local := nm_local axes @ [entry]\<rparr>)"

definition parse_nm_axes :: "unicode \<Rightarrow> points \<Rightarrow> nm_axes" where
  "parse_nm_axes un t = fold (nm_step un) (py_splitlines t) nm_empty"

text \<open>Two dictionaries of counters are equal: the three multisets are.\<close>

definition nm_equal :: "nm_axes \<Rightarrow> nm_axes \<Rightarrow> bool" where
  "nm_equal a b \<longleftrightarrow> counter_eq (nm_defined a) (nm_defined b) \<and> counter_eq (nm_undefined a) (nm_undefined b)
     \<and> counter_eq (nm_local a) (nm_local b)"

definition nm_counts :: "nm_axes \<Rightarrow> json" where
  "nm_counts a = JObj [(''external_defined'', JInt (blen (nm_defined a))),
     (''external_undefined'', JInt (blen (nm_undefined a))), (''local_non_stabs'', JInt (blen (nm_local a)))]"

definition section_names :: "macho_artifact list \<Rightarrow> (int \<times> string) list" where
  "section_names parsed = concat (map (\<lambda>a. concat (map (\<lambda>s.
     map (\<lambda>c. (sec_index c, ''section:'' @ sec_segment c @ '','' @ sec_name c)) (seg_sections s)) (mo_segments a))) parsed)"

definition core_symbol_type :: "(int \<times> string) list \<Rightarrow> axis_entry \<Rightarrow> (string \<times> string) ver" where
  "core_symbol_type sections a =
     (if ax_base_type a = ''undefined'' then Inr (ax_name a, ''undefined'')
      else if ax_base_type a = ''section'' then
        (case map_of (rev sections) (ax_section a) of
           Some s \<Rightarrow> Inr (ax_name a, s) | None \<Rightarrow> Inl (Raised (KeyError (show_int (ax_section a)))))
      else Inr (ax_name a, ax_base_type a))"

text \<open>The objects of an artifact are itself for a library, the objects of its members for an archive.\<close>

definition core_nm_axes :: "macho_artifact list \<Rightarrow> symbol_record list \<Rightarrow> nm_axes ver" where
  "core_nm_axes parsed symbols =
     (let sections = section_names parsed; axes = symbol_axis symbols in
      bind_r (map_r (core_symbol_type sections) (external_defined axes)) (\<lambda>d.
      bind_r (map_r (core_symbol_type sections) (external_undefined axes)) (\<lambda>u.
      bind_r (map_r (core_symbol_type sections) (local_non_stabs axes)) (\<lambda>l.
      Inr \<lparr>nm_defined = d, nm_undefined = u, nm_local = l\<rparr>))))"

section \<open>Members of \<open>ar\<close>\<close>

record ar_row =
  row_name :: string
  row_uid :: int
  row_gid :: int
  row_mode :: int
  row_size :: int
  row_date_fields :: "string list"

definition mode_bits :: "int list" where
  "mode_bits = [0x100, 0x80, 0x40, 0x20, 0x10, 0x08, 0x04, 0x02, 0x01]"

definition permission_of :: "points \<Rightarrow> int" where
  "permission_of mode = fold (\<lambda>(p, bit) n. if p \<noteq> 45 then n OR bit else n) (zip mode mode_bits) 0"

definition py_int :: "unicode \<Rightarrow> points \<Rightarrow> int ver" where
  "py_int un t = (case un_int un t of Some n \<Rightarrow> Inr n | None \<Rightarrow> Inl (Raised (ValueError ''invalid literal for int()'')))"

definition all_digits :: "unicode \<Rightarrow> points \<Rightarrow> bool" where
  "all_digits un t \<longleftrightarrow> t \<noteq> [] \<and> list_all (un_isdigit un) t"

definition ar_row_of :: "unicode \<Rightarrow> points list \<Rightarrow> nat \<Rightarrow> ar_row ver" where
  "ar_row_of un words size_index =
     (let (uid, _, gid) = py_partition 47 (words ! 1) in
      bind_r (py_int un uid) (\<lambda>uid.
      bind_r (py_int un gid) (\<lambda>gid.
      bind_r (py_int un (words ! size_index)) (\<lambda>n.
      Inr \<lparr>row_name = utf8_of (last words), row_uid = uid, row_gid = gid,
        row_mode = permission_of (words ! 0), row_size = n,
        row_date_fields = map utf8_of (butlast (drop (Suc size_index) words))\<rparr>))))"

definition ar_tv_step :: "unicode \<Rightarrow> points \<Rightarrow> ar_row list \<Rightarrow> ar_row list ver" where
  "ar_tv_step un line rows =
     (let words = py_split line in
      if length words < 8 then Inr rows
      else if 47 \<notin> set (words ! 1) \<or> length (words ! 0) \<noteq> 9
        \<or> \<not> list_all (\<lambda>p. p \<in> set (pts ''rwx-'')) (words ! 0)
      then Inr rows
      else case filter (\<lambda>i. all_digits un (words ! i)) [2..<length words] of
        [] \<Rightarrow> Inr rows
      | size_index # _ \<Rightarrow> bind_r (ar_row_of un words size_index) (\<lambda>row. Inr (rows @ [row])))"

definition parse_ar_tv :: "unicode \<Rightarrow> points \<Rightarrow> ar_row list ver" where
  "parse_ar_tv un t = fold_r (ar_tv_step un) (py_splitlines t) []"

section \<open>An \<open>ar\<close> listing is read back\<close>

text \<open>One line of \<open>ar -tv\<close> as it is printed: mode, owner, size, date and name, separated by blanks.\<close>

record listing =
  li_mode :: int
  li_uid :: points
  li_gid :: points
  li_size :: points
  li_dates :: "points list"
  li_name :: points

definition mode_text :: "int \<Rightarrow> points" where
  "mode_text mode = map (\<lambda>(p, bit). if mode AND bit = 0 then 45 else p) (zip (pts ''rwxrwxrwx'') mode_bits)"

fun spaced :: "points list \<Rightarrow> points" where
  "spaced [] = []"
| "spaced [w] = w"
| "spaced (w # v # ws) = w @ 32 # spaced (v # ws)"

definition listing_words :: "listing \<Rightarrow> points list" where
  "listing_words l = [mode_text (li_mode l), li_uid l @ 47 # li_gid l, li_size l] @ li_dates l @ [li_name l]"

definition listing_text :: "listing list \<Rightarrow> points" where
  "listing_text ls = concat (map (\<lambda>l. spaced (listing_words l) @ [10]) ls)"

definition word_text :: "points \<Rightarrow> bool" where
  "word_text w \<longleftrightarrow> w \<noteq> [] \<and> list_all (\<lambda>p. \<not> py_space p) w"

definition listing_ok :: "unicode \<Rightarrow> listing \<Rightarrow> bool" where
  "listing_ok un l \<longleftrightarrow> 0 \<le> li_mode l \<and> li_mode l < 512 \<and> list_all word_text (li_uid l # li_gid l # li_size l # li_name l # li_dates l)
     \<and> 47 \<notin> set (li_uid l) \<and> all_digits un (li_size l) \<and> length (li_dates l) \<ge> 4
     \<and> list_all (\<lambda>t. un_int un t \<noteq> None) [li_uid l, li_gid l, li_size l]"

definition listing_row :: "unicode \<Rightarrow> listing \<Rightarrow> ar_row" where
  "listing_row un l = \<lparr>row_name = utf8_of (li_name l), row_uid = the (un_int un (li_uid l)), row_gid = the (un_int un (li_gid l)),
     row_mode = li_mode l, row_size = the (un_int un (li_size l)), row_date_fields = map utf8_of (li_dates l)\<rparr>"

lemma py_split_word:
  assumes "word_text w"
  shows "py_split w = [w]"
proof -
  have all: "\<forall>p \<in> set w. \<not> py_space p" and ne: "w \<noteq> []" using assms by (auto simp: word_text_def list_all_iff)
  have "takeWhile (\<lambda>p. \<not> py_space p) w = w" "dropWhile (\<lambda>p. \<not> py_space p) w = []" using all by auto
  moreover have "dropWhile py_space w = w" using all ne by (cases w) auto
  moreover have "py_split [] = []" by (subst py_split.simps) simp
  ultimately show ?thesis using ne by (subst py_split.simps) (simp add: Let_def del: dropWhile_eq_Nil_conv)
qed

lemma py_split_spaced: "list_all word_text ws \<Longrightarrow> py_split (spaced ws) = ws"
proof (induction ws rule: spaced.induct)
  case 1
  show ?case by (subst py_split.simps) simp
next
  case (2 w)
  then show ?case by (simp add: py_split_word)
next
  case (3 w v ws)
  have b: "py_space 32" by (simp add: py_space_def)
  have w: "takeWhile (\<lambda>p. \<not> py_space p) (w @ 32 # spaced (v # ws)) = w"
    "dropWhile (\<lambda>p. \<not> py_space p) (w @ 32 # spaced (v # ws)) = 32 # spaced (v # ws)"
    "dropWhile py_space (w @ 32 # spaced (v # ws)) = w @ 32 # spaced (v # ws)" "w \<noteq> []"
    using 3(2) b by (auto simp: word_text_def list_all_iff takeWhile_append dropWhile_append)
  have "py_split (32 # spaced (v # ws)) = py_split (spaced (v # ws))"
    by (subst (1 2) py_split.simps) (simp add: b)
  then show ?case using 3 w by (subst py_split.simps) (simp add: Let_def)
qed

lemma boundary_space: "line_boundary p \<Longrightarrow> py_space p"
  by (auto simp: line_boundary_def py_space_def)

lemma splitlines_lines: "list_all (\<lambda>l. list_all (\<lambda>p. \<not> line_boundary p) l) ls
    \<Longrightarrow> py_splitlines (concat (map (\<lambda>l. l @ [10]) ls)) = ls"
proof (induction ls)
  case Nil
  show ?case by (subst py_splitlines.simps) simp
next
  case (Cons l ls)
  let ?r = "concat (map (\<lambda>l. l @ [10]) ls)"
  have b: "line_boundary 10" by (simp add: line_boundary_def)
  have "takeWhile (\<lambda>p. \<not> line_boundary p) (l @ 10 # ?r) = l" "dropWhile (\<lambda>p. \<not> line_boundary p) (l @ 10 # ?r) = 10 # ?r"
    using Cons.prems b by (auto simp: list_all_iff takeWhile_append dropWhile_append)
  then show ?case using Cons by (subst py_splitlines.simps) (simp add: Let_def)
qed

lemma permission_step:
  fixes m b n p :: int
  assumes "b = 2 ^ k" "p \<noteq> 45"
  shows "(if (if m AND b = 0 then 45 else p) \<noteq> (45 :: int) then n OR b else n) = n OR (m AND b)"
proof (cases "bit m k")
  case True
  then have "m AND b = b" unfolding assms(1) by (intro bit_eqI) (auto simp: bit_and_iff bit_exp_iff)
  then show ?thesis using assms by simp
next
  case False
  then have "m AND b = 0" unfolding assms(1) by (simp add: and_exp_eq_0_iff_not_bit)
  then show ?thesis by simp
qed

lemma permission_fold:
  fixes cs bits :: "int list"
  assumes "length cs = length bits" "\<forall>p \<in> set cs. p \<noteq> 45" "\<forall>b \<in> set bits. \<exists>k. b = 2 ^ k"
  shows "fold (\<lambda>(p, bit) n. if p \<noteq> 45 then n OR bit else n)
      (zip (map (\<lambda>(p, bit). if m AND bit = 0 then 45 else p) (zip cs bits)) bits) n
    = fold (\<lambda>b n. n OR (m AND b)) bits (n :: int)"
  using assms
proof (induction cs bits arbitrary: n rule: list_induct2)
  case (Cons p ps b bs)
  then obtain k where "b = 2 ^ k" "p \<noteq> 45" by auto
  from permission_step[OF this, of m n] show ?case using Cons by simp
qed simp

lemma permission_mode_text:
  assumes "0 \<le> m" "m < 512"
  shows "permission_of (mode_text m) = m"
proof -
  have "permission_of (mode_text m) = fold (\<lambda>b n. n OR (m AND b)) mode_bits 0"
    unfolding permission_of_def mode_text_def
    by (rule permission_fold) (auto simp: pts_def mode_bits_def intro: exI[of _ 8] exI[of _ 7] exI[of _ 6] exI[of _ 5]
      exI[of _ 4] exI[of _ 3] exI[of _ 2] exI[of _ 1] exI[of _ 0])
  also have "\<dots> = (m AND 256) OR (m AND 128) OR (m AND 64) OR (m AND 32) OR (m AND 16)
      OR (m AND 8) OR (m AND 4) OR (m AND 2) OR (m AND 1)"
    by (simp add: mode_bits_def or.assoc)
  also have "\<dots> = m AND (256 OR 128 OR 64 OR 32 OR 16 OR 8 OR 4 OR 2 OR 1)"
    by (simp only: bit.conj_disj_distrib)
  also have "\<dots> = m AND 511" by simp
  also have "\<dots> = take_bit 9 m" using take_bit_eq_mask[of 9 m] by (simp add: mask_eq_exp_minus_1)
  also have "\<dots> = m" using assms by (simp add: take_bit_int_eq_self_iff)
  finally show ?thesis .
qed

lemma mode_text_chars: "length (mode_text m) = 9" "list_all (\<lambda>p. p \<in> set (pts ''rwx-'')) (mode_text m)"
  by (simp_all add: mode_text_def mode_bits_def pts_def)

lemma listing_words_text:
  assumes "listing_ok un l"
  shows "list_all word_text (listing_words l)"
proof -
  have "word_text (mode_text (li_mode l))"
    by (simp add: word_text_def mode_text_def mode_bits_def pts_def py_space_def)
  moreover have "\<not> py_space 47" by (simp add: py_space_def)
  ultimately show ?thesis using assms by (auto simp: listing_words_def listing_ok_def word_text_def)
qed

lemma listing_words_split: "listing_ok un l \<Longrightarrow> py_split (spaced (listing_words l)) = listing_words l"
  by (rule py_split_spaced[OF listing_words_text])

lemma listing_line:
  assumes "listing_ok un l"
  shows "ar_tv_step un (spaced (listing_words l)) rows = Inr (rows @ [listing_row un l])"
proof -
  let ?w = "listing_words l"
  have n: "\<not> length ?w < 8" "[2..<length ?w] = 2 # [3..<length ?w]"
    using assms by (auto simp: listing_words_def listing_ok_def upt_conv_Cons)
  have part: "py_partition 47 (li_uid l @ 47 # li_gid l) = (li_uid l, True, li_gid l)"
    using assms by (auto simp: listing_ok_def py_partition_def takeWhile_append dropWhile_append takeWhile_eq_all_conv
        dropWhile_eq_Nil_conv)
  obtain u g z where i: "un_int un (li_uid l) = Some u" "un_int un (li_gid l) = Some g" "un_int un (li_size l) = Some z"
    using assms by (auto simp: listing_ok_def)
  have "ar_row_of un ?w 2 = Inr (listing_row un l)"
    using assms part i permission_mode_text[of "li_mode l"]
    by (simp add: ar_row_of_def listing_words_def listing_row_def listing_ok_def py_int_def butlast_append)
  moreover have "?w ! 0 = mode_text (li_mode l)" "?w ! 1 = li_uid l @ 47 # li_gid l" "?w ! 2 = li_size l"
    by (simp_all add: listing_words_def)
  ultimately show ?thesis
    using assms n unfolding ar_tv_step_def listing_words_split[OF assms] Let_def
    by (simp add: mode_text_chars listing_ok_def)
qed

lemma spaced_no_boundary: "list_all word_text ws \<Longrightarrow> list_all (\<lambda>p. \<not> line_boundary p) (spaced ws)"
proof (induction ws rule: spaced.induct)
  case (3 w v ws)
  have "\<not> line_boundary 32" by (simp add: line_boundary_def)
  then show ?case using 3 boundary_space by (auto simp: word_text_def list_all_iff)
qed (use boundary_space in \<open>auto simp: word_text_def list_all_iff\<close>)

text \<open>The metadata of a listing are read back: printing members with their mode, owner, size, date and
  name and parsing the listing gives exactly these members, in order.\<close>

theorem ar_listing_roundtrip:
  assumes "list_all (listing_ok un) ls"
  shows "parse_ar_tv un (listing_text ls) = Inr (map (listing_row un) ls)"
proof -
  have "py_splitlines (listing_text ls) = map (\<lambda>l. spaced (listing_words l)) ls"
    using splitlines_lines[of "map (\<lambda>l. spaced (listing_words l)) ls"] assms spaced_no_boundary[OF listing_words_text]
    by (auto simp: listing_text_def list_all_iff comp_def)
  moreover have "fold_r (ar_tv_step un) (map (\<lambda>l. spaced (listing_words l)) ls) rows = Inr (rows @ map (listing_row un) ls)" for rows
    using assms by (induction ls arbitrary: rows) (auto simp: listing_line)
  ultimately show ?thesis by (simp add: parse_ar_tv_def)
qed

text \<open>The part of the tables for ASCII.\<close>

definition ascii_tables :: unicode where
  "ascii_tables = \<lparr>un_digit = (\<lambda>p. 48 \<le> p \<and> p \<le> 57), un_isdigit = (\<lambda>p. 48 \<le> p \<and> p \<le> 57),
     un_word = (\<lambda>p. 48 \<le> p \<and> p \<le> 57 \<or> 65 \<le> p \<and> p \<le> 90 \<or> 97 \<le> p \<and> p \<le> 122 \<or> p = 95),
     un_lower = map (\<lambda>p. if 65 \<le> p \<and> p \<le> 90 then p + 32 else p),
     un_int = (\<lambda>t. if t = [] \<or> list_ex (\<lambda>p. p < 48 \<or> 57 < p) t then None else Some (fold (\<lambda>p n. 10 * n + (p - 48)) t 0)),
     un_decode_error = (\<lambda>_. []), un_repr = (\<lambda>_. [])\<rparr>"

definition sample_listing :: listing where
  "sample_listing = \<lparr>li_mode = 420, li_uid = pts ''0'', li_gid = pts ''0'', li_size = pts ''1024'',
     li_dates = [pts ''Jan'', pts ''1'', pts ''00:00'', pts ''1970''], li_name = pts ''blas.o''\<rparr>"

theorem ar_listing_roundtrip_witness:
  "parse_ar_tv ascii_tables (listing_text [sample_listing]) = Inr [listing_row ascii_tables sample_listing]
    \<and> row_mode (listing_row ascii_tables sample_listing) = 0x1A4"
proof -
  have "list_all (listing_ok ascii_tables) [sample_listing]"
    by (simp add: sample_listing_def listing_ok_def ascii_tables_def word_text_def pts_def py_space_def all_digits_def)
  from ar_listing_roundtrip[OF this] show ?thesis by (simp add: listing_row_def sample_listing_def)
qed

end
