(* ===== verification/Verify_Provenance.thy ===== *)
theory Verify_Provenance
  imports Verify_Control
begin

text \<open>
  Fresh roots, the materialised build command, the cache roots of the receipt and the binding of
  artifact provenance to files of the caches (\<open>tools/verify_abi_artifact_parity.py\<close>).
\<close>

section \<open>Paths\<close>

text \<open>\<open>a / name\<close>, \<open>a.is_relative_to(b)\<close> and \<open>a.relative_to(b).as_posix()\<close> on resolved paths.\<close>

definition path_join :: "string \<Rightarrow> string \<Rightarrow> string" where
  "path_join a name = (if a = ''/'' then ''/'' @ name else a @ ''/'' @ name)"

definition is_relative_to :: "string \<Rightarrow> string \<Rightarrow> bool" where
  "is_relative_to a b = starts_with (path_parts a) (path_parts b)"

definition relative_posix :: "string \<Rightarrow> string \<Rightarrow> string" where
  "relative_posix a b =
     (let rest = drop (length (path_parts b)) (path_parts a) in if rest = [] then ''.'' else join_with ''/'' rest)"

section \<open>Fresh roots\<close>

definition PLACEHOLDERS :: "(string \<times> string) list" where
  "PLACEHOLDERS = [(''<temporary-install-prefix>'', ''install''), (''<isolated-local-cache>'', ''local-cache''),
     (''<isolated-global-cache>'', ''global-cache'')]"

abbreviation placeholder_names :: "string list" where "placeholder_names \<equiv> map fst PLACEHOLDERS"

fun act_each :: "('a \<Rightarrow> ('x, 'e, 'b) io) \<Rightarrow> 'a list \<Rightarrow> ('x, 'e, 'b list) io" where
  "act_each f [] = act_return []"
| "act_each f (x # xs) = act_bind (f x) (\<lambda>y. act_bind (act_each f xs) (\<lambda>ys. act_return (y # ys)))"

definition is_empty_directory :: "('e, 'z) fresh_world_scheme \<Rightarrow> string \<Rightarrow> (ver_exc, 'e, bool) io" where
  "is_empty_directory w path =
     act_io (fw_empty w path) (Verification ''fresh_root_inspection_failed'' ''fresh root cannot be inspected safely''
       ''fresh_root'') act_return"

definition related :: "string \<Rightarrow> string \<Rightarrow> bool" where
  "related a b \<longleftrightarrow> a = b \<or> is_relative_to a b \<or> is_relative_to b a"

fun any_related :: "string list \<Rightarrow> bool" where
  "any_related [] = False"
| "any_related (left # rest) = (list_ex (related left) rest \<or> any_related rest)"

definition prepare_fresh_roots :: "('e, 'z) fresh_world_scheme \<Rightarrow> string \<Rightarrow> (ver_exc, 'e, (string \<times> string) list) io" where
  "prepare_fresh_roots w fresh_root = (\<lambda>e.
     let not_made = Verification ''fresh_root_create_failed''
           ''fresh root or one of its isolated children cannot be created'' ''fresh_root'';
         (link, e) = fw_is_symlink w fresh_root e in
     if link then (ver_fail ''fresh_root_symlink'' ''fresh root must not be a symlink'' ''fresh_root'', e)
     else
     let (there, e) = fw_exists w fresh_root e in
     act_bind (if there then is_empty_directory w fresh_root else act_return True) (\<lambda>empty.
     if \<not> empty
     then act_fail (Verification ''fresh_root_not_empty'' ''fresh root must not exist or must be empty'' ''fresh_root'')
     else
     act_io (fw_make_parents w fresh_root) not_made (\<lambda>_.
     let roots = map (\<lambda>p. (fst p, path_join fresh_root (snd p))) PLACEHOLDERS in
     act_bind (act_each (\<lambda>p. act_io (fw_make w (snd p) 0x1C0) not_made act_return) roots) (\<lambda>_.
     act_bind (act_each (\<lambda>p. act_io (gw_resolve w (snd p)) Os_Error act_return) roots) (\<lambda>resolved.
     if any_related resolved
     then act_fail (Verification ''fresh_roots_overlap''
       ''install and cache roots must be mutually non-overlapping'' ''fresh_root'')
     else act_return roots)))) e)"

section \<open>The build command\<close>

definition TEMPLATE_LOCATOR :: string where
  "TEMPLATE_LOCATOR = ''policy.artifact_build_configuration.command_template''"

text \<open>\<open>roots[item] if item in roots else item\<close>.\<close>

definition substitute_root :: "(string \<times> string) list \<Rightarrow> string \<Rightarrow> string" where
  "substitute_root roots item = (case map_of roots item of Some r \<Rightarrow> r | None \<Rightarrow> item)"

definition materialize_build_command :: "json \<Rightarrow> (string \<times> string) list \<Rightarrow> (string list \<times> string list) ver" where
  "materialize_build_command configuration roots =
     bind_r (json_get configuration ''command_template'') (\<lambda>t.
     if (case t of JList items \<Rightarrow> items = [] \<or> list_ex (\<lambda>i. \<not> is_str i) items | _ \<Rightarrow> True)
     then ver_fail ''invalid_command_template'' ''command_template must be a nonempty string array'' TEMPLATE_LOCATOR
     else
     let template = map the_str (the_list t) in
     if list_ex (\<lambda>p. count_list template p \<noteq> 1) placeholder_names
     then ver_fail ''invalid_command_placeholders''
       ''canonical command must contain each fresh-root placeholder exactly once'' TEMPLATE_LOCATOR
     else if list_ex (\<lambda>i. CHR ''<'' \<in> set i \<or> CHR ''>'' \<in> set i)
               (filter (\<lambda>i. i \<notin> set placeholder_names) template)
     then ver_fail ''unknown_command_placeholder'' ''canonical command contains an unknown placeholder'' TEMPLATE_LOCATOR
     else Inr (map (substitute_root roots) template, template))"

section \<open>Receipt roots\<close>

text \<open>
  The template of the receipt is equal to the one of the policy, which \<open>materialize_build_command\<close> has
  accepted before: it is a list of strings.
\<close>

definition receipt_command_invalid :: "string \<Rightarrow> ver_exc" where
  "receipt_command_invalid m = Verification ''receipt_command_invalid'' m ''receipt.execution.argv''"

definition receipt_step :: "json \<times> string \<Rightarrow> (string \<times> string) list \<Rightarrow> (string \<times> string) list ver" where
  "receipt_step pair substitutions =
     (let (expected, actual) = pair in
      if is_str expected \<and> the_str expected \<in> set placeholder_names
      then Inr (dict_set (the_str expected) actual substitutions)
      else if expected \<noteq> JStr actual
      then ver_fail ''receipt_command_mismatch'' ''receipt execution argv differs from canonical command''
        ''receipt.execution.argv''
      else Inr substitutions)"

definition receipt_substitutions :: "json \<Rightarrow> (string \<times> string) list ver" where
  "receipt_substitutions receipt =
     bind_r (json_item receipt ''configuration'') (\<lambda>configuration.
     bind_r (json_item configuration ''command_template'') (\<lambda>template.
     bind_r (json_get_or receipt (JObj []) ''execution'') (\<lambda>execution.
     bind_r (json_get execution ''argv'') (\<lambda>argv.
     if (case argv of JList items \<Rightarrow> length items \<noteq> length (the_list template) \<or> list_ex (\<lambda>i. \<not> is_str i) items
         | _ \<Rightarrow> True)
     then Inl (receipt_command_invalid ''receipt execution argv does not match canonical command shape'')
     else
     bind_r (fold_r receipt_step (zip (the_list template) (map the_str (the_list argv))) []) (\<lambda>substitutions.
     if set (map fst substitutions) \<noteq> set placeholder_names
     then Inl (receipt_command_invalid ''receipt execution argv lacks cache roots'')
     else Inr substitutions)))))"

definition receipt_tokens :: "(string \<times> string) list" where
  "receipt_tokens = [(''<temporary-install-prefix>'', ''<frozen-install-root>''),
     (''<isolated-local-cache>'', ''<frozen-local-cache>''), (''<isolated-global-cache>'', ''<frozen-global-cache>'')]"

fun act_all :: "(ver_exc, 'e, unit) io list \<Rightarrow> (ver_exc, 'e, unit) io" where
  "act_all [] = act_return ()"
| "act_all (m # ms) = act_bind m (\<lambda>_. act_all ms)"

definition redact_receipt :: "path_resolution \<Rightarrow> (string \<times> string) list \<Rightarrow> (ver_exc, 'e session, unit) io" where
  "redact_receipt pr substitutions =
     act_all (map (\<lambda>(p, token). register_root pr (the (map_of substitutions p)) token) receipt_tokens)"

definition receipt_cache_roots :: "('e, 'z) git_world_scheme \<Rightarrow> path_resolution \<Rightarrow> json
    \<Rightarrow> (ver_exc, 'e session, string \<times> string) io" where
  "receipt_cache_roots w pr receipt =
     act_bind (act_lift (receipt_substitutions receipt)) (\<lambda>substitutions.
     act_bind (redact_receipt pr substitutions) (\<lambda>_.
     act_bind (on_world (act_each (\<lambda>p. act_io (gw_resolve w (snd p))
        (Verification ''receipt_root_invalid'' ''receipt install or cache root cannot be resolved''
          ''receipt.execution.argv'') act_return) substitutions)) (\<lambda>roots.
     if length (remdups roots) \<noteq> 3
     then act_fail (Verification ''receipt_roots_overlap'' ''receipt install/cache roots are not distinct''
       ''receipt.execution.argv'')
     else act_return (the (map_of substitutions ''<isolated-local-cache>''),
        the (map_of substitutions ''<isolated-global-cache>'')))))"

section \<open>Provenance\<close>

definition contained :: "('e, 'z) git_world_scheme \<Rightarrow> string \<Rightarrow> string \<Rightarrow> string \<Rightarrow> (ver_exc, 'e, string) io" where
  "contained w path root locator =
     (let missing = Verification ''provenance_path_missing''
            ''artifact-referenced provenance path cannot be resolved'' locator in
      act_io (gw_resolve w path) missing (\<lambda>resolved.
      act_io (gw_resolve w root) missing (\<lambda>boundary.
      if \<not> is_relative_to resolved boundary
      then act_fail (Verification ''provenance_outside_cache''
        ''artifact-referenced path is outside its cache root'' locator)
      else act_return resolved)))"

definition unique_provenance :: "provenance_locator list \<Rightarrow> string \<Rightarrow> string \<Rightarrow> provenance_locator ver" where
  "unique_provenance ps kind locator =
     (case filter (\<lambda>p. pl_kind p = kind) ps of
        [p] \<Rightarrow> Inr p
      | xs \<Rightarrow> ver_fail ''provenance_locator_count''
          (''expected exactly one '' @ kind @ '' locator, found '' @ show_int (blen xs)) locator)"

text \<open>\<open>path.relative_to(cache_root.resolve(strict=True)).as_posix()\<close>.\<close>

definition relative_cache_path :: "('e, 'z) git_world_scheme \<Rightarrow> string \<Rightarrow> string \<Rightarrow> (ver_exc, 'e, string) io" where
  "relative_cache_path w path root =
     act_io (gw_resolve w root) Os_Error (\<lambda>boundary.
     if \<not> is_relative_to path boundary then act_fail (Raised (ValueError ''is not in the subpath''))
     else act_return (relative_posix path boundary))"

text \<open>The receipt's record of a \<open>builtin.zig\<close>; \<open>JNull\<close> is an absent record.\<close>

definition check_receipt_builtin :: "('e, 'z) git_world_scheme \<Rightarrow> json \<Rightarrow> string \<Rightarrow> string \<Rightarrow> string \<Rightarrow> (ver_exc, 'e, unit) io" where
  "check_receipt_builtin w record path digest label =
     (if record = JNull then act_return ()
      else
      let invalid = Verification ''receipt_builtin_invalid'' ''receipt builtin record cannot be resolved''
            (label @ ''.receipt'') in
      case json_item record ''path'' of
        Inr (JStr p) \<Rightarrow>
          act_io (gw_resolve w p) invalid (\<lambda>recorded_path.
          act_bind (act_lift (json_get record ''sha256'')) (\<lambda>h.
          if recorded_path \<noteq> path \<or> \<not> json_eq h (JStr digest)
          then act_fail (Verification ''receipt_builtin_mismatch''
            ''receipt builtin path or SHA-256 is not artifact-referenced provenance'' (label @ ''.receipt''))
          else act_return ()))
      | _ \<Rightarrow> act_fail invalid)"

definition bind_builtin :: "('e, 'z) git_world_scheme \<Rightarrow> provenance_locator \<Rightarrow> string \<Rightarrow> json \<Rightarrow> string \<Rightarrow> json \<Rightarrow> (ver_exc, 'e, json) io" where
  "bind_builtin w p cache_root expected_sha256 label record =
     act_bind (contained w (pl_path p) cache_root label) (\<lambda>path.
     if path_parts path = [] \<or> last (path_parts path) \<noteq> ''builtin.zig''
     then act_fail (Verification ''provenance_basename_mismatch'' ''provenance does not name builtin.zig'' label)
     else
     act_bind (read_exact_regular_file w path MAX_HASH_BYTES label) (\<lambda>captured.
     let digest = ef_sha256 captured in
     if expected_sha256 \<noteq> JStr digest
     then act_fail (Verification ''builtin_sha256_mismatch'' ''artifact-bound builtin.zig differs from policy'' label)
     else
     act_bind (check_receipt_builtin w record path digest label) (\<lambda>_.
     act_bind (relative_cache_path w path cache_root) (\<lambda>relative.
     act_return (JObj [(''kind'', JStr (pl_kind p)), (''source_locator'', JStr (pl_source_locator p)),
       (''relative_cache_path'', JStr relative), (''sha256'', JStr digest), (''verdict'', JStr ''pass'')])))))"

text \<open>\<open>receipt_inputs.get(key) if receipt_inputs is not None else None\<close>.\<close>

definition receipt_input :: "json option \<Rightarrow> string \<Rightarrow> json ver" where
  "receipt_input inputs key = (case inputs of None \<Rightarrow> Inr JNull | Some j \<Rightarrow> json_get j key)"

definition parity_text :: "string option \<Rightarrow> string \<Rightarrow> string" where
  "parity_text l m = (case l of Some l \<Rightarrow> if l = [] then m else l @ '': '' @ m | None \<Rightarrow> m)"

definition parse_dynamic_object :: "bytes \<Rightarrow> string \<Rightarrow> macho_artifact ver" where
  "parse_dynamic_object data label =
     (case parse_macho_object data (label @ ''-dynamic-object'') ''dynamic_object'' of
        Inl (ParityError l m) \<Rightarrow> ver_fail ''dynamic_object_parse_failed'' (parity_text l m) (label @ ''.dynamic.object'')
      | Inl x \<Rightarrow> Inl (Raised x)
      | Inr a \<Rightarrow> Inr a)"

definition bind_artifact_provenance :: "('e, 'z) git_world_scheme \<Rightarrow> provenance_locator list \<Rightarrow> provenance_locator list
    \<Rightarrow> string \<Rightarrow> string \<Rightarrow> json \<Rightarrow> json \<Rightarrow> string \<Rightarrow> json option \<Rightarrow> (ver_exc, 'e, json) io" where
  "bind_artifact_provenance w dynamic static local_cache global_cache dynamic_sha static_sha label inputs =
     (let at = label @ ''.dynamic.N_OSO'' in
      act_bind (act_lift (unique_provenance dynamic ''dynamic_cache_object'' at)) (\<lambda>oso.
      act_bind (contained w (pl_path oso) local_cache at) (\<lambda>object_path.
      act_bind (read_exact_regular_file w object_path MAX_HASH_BYTES at) (\<lambda>object_file.
      let mtime = st_mtime_ns (ef_metadata object_file) div 1000000000;
          failures = bind_failures oso True (Some mtime) None in
      if failures \<noteq> []
      then act_fail (Verification ''n_oso_mtime_mismatch'' (join_with ''; '' failures) at)
      else
      act_bind (act_lift (parse_dynamic_object (ef_data object_file) label)) (\<lambda>dynamic_object.
      act_bind (act_lift (unique_provenance (mo_provenance dynamic_object) ''static_builtin''
        (label @ ''.dynamic.object.DWARF''))) (\<lambda>dynamic_builtin.
      act_bind (act_lift (unique_provenance static ''static_builtin'' (label @ ''.static.DWARF''))) (\<lambda>static_builtin.
      act_bind (relative_cache_path w object_path local_cache) (\<lambda>object_relative.
      act_bind (act_lift (receipt_input inputs ''dynamic_builtin_zig'')) (\<lambda>record.
      act_bind (bind_builtin w dynamic_builtin global_cache dynamic_sha (label @ ''.dynamic.builtin'') record) (\<lambda>db.
      act_bind (act_lift (receipt_input inputs ''static_builtin_zig'')) (\<lambda>record.
      act_bind (bind_builtin w static_builtin global_cache static_sha (label @ ''.static.builtin'') record) (\<lambda>sb.
      act_return (JObj
        [(''dynamic'', JObj [(''object_relative_cache_path'', JStr object_relative), (''object_mtime_seconds'', JInt mtime),
           (''n_oso_mtime_seconds'', jopt JInt (pl_expected_mtime_seconds oso)), (''builtin'', db),
           (''verdict'', JStr ''pass'')]),
         (''static'', JObj [(''builtin'', sb), (''verdict'', JStr ''pass'')]),
         (''cache_presence_sufficient'', JBool False), (''verdict'', JStr ''pass'')])))))))))))))"

section \<open>The fresh roots are apart\<close>

lemma act_each_Inr:
  "act_each f xs e = (Inr ys, e') \<Longrightarrow> list_all2 (\<lambda>x y. \<exists>e1 e2. f x e1 = (Inr y, e2)) xs ys"
proof (induction xs arbitrary: ys e)
  case (Cons x xs)
  then show ?case by (auto simp: act_simps)
qed (simp add: act_simps)

lemma related_sym: "related a b = related b a"
  by (auto simp: related_def)

lemma any_related_iff: "\<not> any_related xs \<longleftrightarrow> sorted_wrt (\<lambda>a b. \<not> related a b) xs"
  by (induction xs) (auto simp: list_ex_iff)

lemma let_prod_pair: "(case p of (a, b) \<Rightarrow> f a b) = f (fst p) (snd p)"
  by (cases p) simp

lemma prepare_fresh_roots_Inr:
  assumes "prepare_fresh_roots w fresh_root e = (Inr roots, e')"
  shows "roots = map (\<lambda>p. (fst p, path_join fresh_root (snd p))) PLACEHOLDERS"
    and "\<exists>resolved. list_all2 (\<lambda>p x. \<exists>e1 e2. gw_resolve w (snd p) e1 = (Some x, e2)) roots resolved
            \<and> sorted_wrt (\<lambda>a b. \<not> related a b) resolved"
proof -
  obtain resolved e1 e2 where r: "roots = map (\<lambda>p. (fst p, path_join fresh_root (snd p))) PLACEHOLDERS"
    "act_each (\<lambda>p. act_io (gw_resolve w (snd p)) Os_Error act_return) roots e1 = (Inr resolved, e2)"
    "\<not> any_related resolved"
    using assms unfolding prepare_fresh_roots_def Let_def let_prod_pair
    by (auto simp: ver_fail_def act_simps split: if_splits)
  have "list_all2 (\<lambda>p x. \<exists>e1 e2. gw_resolve w (snd p) e1 = (Some x, e2)) roots resolved"
    using act_each_Inr[OF r(2)] by (rule list_all2_mono) (auto simp: act_simps)
  then show "roots = map (\<lambda>p. (fst p, path_join fresh_root (snd p))) PLACEHOLDERS"
    "\<exists>resolved. list_all2 (\<lambda>p x. \<exists>e1 e2. gw_resolve w (snd p) e1 = (Some x, e2)) roots resolved
      \<and> sorted_wrt (\<lambda>a b. \<not> related a b) resolved"
    using r(1,3) any_related_iff by blast+
qed

text \<open>Fresh roots are returned for exactly the three placeholders, below the fresh root, and no two of
  the directories they resolve to are equal or nested: a build cannot see the same file through two
  of them.\<close>

theorem fresh_roots_disjoint:
  "case prepare_fresh_roots w fresh_root e of (Inl _, _) \<Rightarrow> True
   | (Inr roots, e') \<Rightarrow> roots = map (\<lambda>p. (fst p, path_join fresh_root (snd p))) PLACEHOLDERS
       \<and> (\<exists>resolved. list_all2 (\<lambda>p x. \<exists>e1 e2. gw_resolve w (snd p) e1 = (Some x, e2)) roots resolved
            \<and> sorted_wrt (\<lambda>a b. \<not> related a b) resolved)"
  using prepare_fresh_roots_Inr[of w fresh_root e] by (auto split: prod.split sum.split)

section \<open>The build command\<close>

lemma strings_of_list:
  "\<not> list_ex (\<lambda>i. \<not> is_str i) items \<longleftrightarrow> items = map JStr (map the_str items)"
proof (induction items)
  case (Cons i items)
  then show ?case by (cases i) auto
qed simp

definition template_ok :: "string list \<Rightarrow> bool" where
  "template_ok t \<longleftrightarrow> t \<noteq> [] \<and> (\<forall>p \<in> set placeholder_names. count_list t p = 1)
     \<and> (\<forall>i \<in> set t. i \<in> set placeholder_names \<or> CHR ''<'' \<notin> set i \<and> CHR ''>'' \<notin> set i)"

lemma materialize_iff:
  "materialize_build_command configuration roots = Inr (c, t) \<longleftrightarrow>
     json_get configuration ''command_template'' = Inr (jstrs t) \<and> template_ok t \<and> c = map (substitute_root roots) t"
proof
  assume m: "materialize_build_command configuration roots = Inr (c, t)"
  then obtain j where j: "json_get configuration ''command_template'' = Inr j"
    by (auto simp: materialize_build_command_def bind_r_eq_Inr)
  with m obtain items where i: "j = JList items" "items \<noteq> []" "\<not> list_ex (\<lambda>i. \<not> is_str i) items"
    by (cases j) (auto simp: materialize_build_command_def ver_fail_def split: if_splits)
  have "t = map the_str items" "template_ok t" "c = map (substitute_root roots) t"
    using m i unfolding materialize_build_command_def j bind_r_simps
    by (auto simp: template_ok_def list_ex_iff Let_def ver_fail_def split: if_splits)
  then show "json_get configuration ''command_template'' = Inr (jstrs t) \<and> template_ok t \<and> c = map (substitute_root roots) t"
    using i(3) j i(1) strings_of_list[of items] by simp
next
  assume r: "json_get configuration ''command_template'' = Inr (jstrs t) \<and> template_ok t \<and> c = map (substitute_root roots) t"
  have s: "map the_str (map JStr t) = t" by (simp add: comp_def)
  show "materialize_build_command configuration roots = Inr (c, t)"
    using r unfolding materialize_build_command_def
    by (auto simp: template_ok_def list_ex_iff Let_def s[simplified])
qed

lemma receipt_steps:
  assumes "map fst roots = placeholder_names"
  shows "\<exists>subs. fold_r receipt_step (zip (map JStr t) (map (substitute_root roots) t)) s = Inr subs
    \<and> map_of subs = map_of s ++ (map_of roots |` set t)"
proof (induction t arbitrary: s)
  case (Cons i t)
  show ?case
  proof (cases "i \<in> set placeholder_names")
    case True
    then obtain v where v: "map_of roots i = Some v"
      using assms by (metis map_of_eq_None_iff not_None_eq set_map)
    obtain subs where "fold_r receipt_step (zip (map JStr t) (map (substitute_root roots) t)) (dict_set i v s) = Inr subs"
      "map_of subs = map_of (dict_set i v s) ++ (map_of roots |` set t)"
      using Cons.IH[of "dict_set i v s"] by blast
    moreover have "(map_of s)(i \<mapsto> v) ++ (map_of roots |` set t) = map_of s ++ (map_of roots |` set (i # t))"
      using v by (auto simp: map_add_def restrict_map_def fun_eq_iff split: option.split)
    moreover have "receipt_step (JStr i, substitute_root roots i) s = Inr (dict_set i v s)"
      using True v by (simp add: receipt_step_def substitute_root_def)
    ultimately show ?thesis by simp
  next
    case False
    then have n: "map_of roots i = None" using assms by (metis map_of_eq_None_iff set_map)
    obtain subs where "fold_r receipt_step (zip (map JStr t) (map (substitute_root roots) t)) s = Inr subs"
      "map_of subs = map_of s ++ (map_of roots |` set t)"
      using Cons.IH[of s] by blast
    moreover have "map_of roots |` set t = map_of roots |` set (i # t)"
      using n by (auto simp: restrict_map_def fun_eq_iff)
    moreover have "receipt_step (JStr i, substitute_root roots i) s = Inr s"
      using False n by (simp add: receipt_step_def substitute_root_def)
    ultimately show ?thesis by simp
  qed
qed simp


definition executed_receipt :: "json \<Rightarrow> string list \<Rightarrow> json" where
  "executed_receipt configuration argv =
     JObj [(''configuration'', configuration), (''execution'', JObj [(''argv'', jstrs argv)])]"

lemma json_get_item: "json_get j k = Inr v \<Longrightarrow> v \<noteq> JNull \<Longrightarrow> json_item j k = Inr v"
  by (auto simp: json_get_or_def json_item_def split: json.splits option.splits)

lemma materialized_substitutions:
  assumes "materialize_build_command configuration roots = Inr (c, t)" "map fst roots = placeholder_names"
  shows "\<exists>subs. receipt_substitutions (executed_receipt configuration c) = Inr subs \<and> map_of subs = map_of roots"
proof -
  have g: "json_get configuration ''command_template'' = Inr (jstrs t)" "template_ok t" "c = map (substitute_root roots) t"
    using assms(1) materialize_iff by blast+
  have item: "json_item configuration ''command_template'' = Inr (jstrs t)" by (rule json_get_item[OF g(1)]) simp
  obtain subs where s: "fold_r receipt_step (zip (map JStr t) c) [] = Inr subs"
    "map_of subs = map_of [] ++ (map_of roots |` set t)"
    using receipt_steps[OF assms(2), of t "[]"] unfolding g(3) by blast
  have all: "set placeholder_names \<subseteq> set t"
    using g(2) unfolding template_ok_def by (metis count_list_0_iff subsetI zero_neq_one)
  have roots: "dom (map_of roots) = set placeholder_names" using assms(2) by (metis dom_map_of_conv_image_fst set_map)
  have "x \<notin> set t \<Longrightarrow> map_of roots x = None" for x using all roots by (metis domIff subsetD)
  then have m: "map_of subs = map_of roots" unfolding s(2) by (auto simp: restrict_map_def fun_eq_iff)
  then have d: "set (map fst subs) = set placeholder_names" using roots by (metis dom_map_of_conv_image_fst set_map)
  have strs: "map the_str (map JStr c) = c" "\<not> list_ex (\<lambda>i. \<not> is_str i) (map JStr c)" "length (map JStr c) = length (map JStr t)"
    by (simp_all add: comp_def list_ex_iff g(3))
  have parts: "json_item (executed_receipt configuration c) ''configuration'' = Inr configuration"
    "json_get_or (executed_receipt configuration c) (JObj []) ''execution'' = Inr (JObj [(''argv'', jstrs c)])"
    "json_get (JObj [(''argv'', jstrs c)]) ''argv'' = Inr (jstrs c)"
    by (simp_all add: executed_receipt_def json_item_def json_get_or_def)
  have "receipt_substitutions (executed_receipt configuration c) = Inr subs"
    unfolding receipt_substitutions_def parts bind_r_simps item the_list.simps json.case strs(1)
    using s(1) d strs(2,3) by (simp only: bind_r_simps simp_thms if_False not_not HOL.simp_thms)
  then show ?thesis using m by blast
qed

text \<open>The build command is made exactly from a template of strings that names every fresh root once
  and holds no other token, by replacing the tokens; and reading the executed command of a receipt
  against the same template gives every token its root back.\<close>

theorem build_command_roundtrip:
  assumes "map fst roots = placeholder_names"
  shows "(materialize_build_command configuration roots = Inr (c, t)) =
      (json_get configuration ''command_template'' = Inr (jstrs t) \<and> template_ok t \<and> c = map (substitute_root roots) t)
    \<and> (case materialize_build_command configuration roots of Inl _ \<Rightarrow> True
       | Inr (argv, _) \<Rightarrow> \<exists>subs. receipt_substitutions (executed_receipt configuration argv) = Inr subs
           \<and> map_of subs = map_of roots)"
proof (rule conjI[OF materialize_iff])
  show "case materialize_build_command configuration roots of Inl _ \<Rightarrow> True
       | Inr (argv, _) \<Rightarrow> \<exists>subs. receipt_substitutions (executed_receipt configuration argv) = Inr subs
           \<and> map_of subs = map_of roots"
    using materialized_substitutions[OF _ assms] by (auto split: sum.split)
qed

theorem build_command_roundtrip_witness:
  "materialize_build_command (JObj [(''command_template'', jstrs (''zig'' # placeholder_names))])
      [(''<temporary-install-prefix>'', ''/i''), (''<isolated-local-cache>'', ''/l''), (''<isolated-global-cache>'', ''/g'')]
   = Inr ([''zig'', ''/i'', ''/l'', ''/g''], ''zig'' # placeholder_names)"
  by (subst build_command_roundtrip[THEN conjunct1])
    (simp_all add: PLACEHOLDERS_def template_ok_def json_get_or_def substitute_root_def)

section \<open>Bound provenance\<close>

text \<open>
  A path was located below a root: both were resolved, and the components of the resolved path begin
  with those of the resolved root.
\<close>

definition located_below :: "('e, 'z) git_world_scheme \<Rightarrow> string \<Rightarrow> string \<Rightarrow> 'e \<Rightarrow> string \<Rightarrow> 'e \<Rightarrow> bool" where
  "located_below w path root e resolved e' \<longleftrightarrow>
     (\<exists>e1 boundary rest. gw_resolve w path e = (Some resolved, e1) \<and> gw_resolve w root e1 = (Some boundary, e')
        \<and> path_parts resolved = path_parts boundary @ rest)"

lemma is_relative_to_iff: "is_relative_to p q \<longleftrightarrow> (\<exists>rest. path_parts p = path_parts q @ rest)"
  unfolding is_relative_to_def starts_with_def by (metis append_eq_conv_conj append_take_drop_id)

lemma contained_Inr: "contained w path root locator e = (Inr p, e') \<Longrightarrow> located_below w path root e p e'"
  by (auto simp: contained_def Let_def act_simps located_below_def is_relative_to_iff)

lemma unique_provenance_Inr: "unique_provenance ps kind l = Inr p \<longleftrightarrow> filter (\<lambda>p. pl_kind p = kind) ps = [p]"
  by (auto simp: unique_provenance_def ver_fail_def split: list.splits)

text \<open>What the receipt records of a \<open>builtin.zig\<close>, if anything, is the located file and its digest.\<close>

definition recorded_as :: "('e, 'z) git_world_scheme \<Rightarrow> json \<Rightarrow> string \<Rightarrow> bytes \<Rightarrow> 'e \<Rightarrow> 'e \<Rightarrow> bool" where
  "recorded_as w record resolved data e e' \<longleftrightarrow>
     (if record = JNull then e' = e
      else \<exists>p. json_item record ''path'' = Inr (JStr p) \<and> gw_resolve w p e = (Some resolved, e')
        \<and> (\<exists>h. json_get record ''sha256'' = Inr h \<and> json_eq h (JStr (sha256_bytes data))))"

text \<open>
  The run from \<open>e\<close> to \<open>e'\<close> located the path of the entry below the cache, found it to be named
  \<open>builtin.zig\<close> and read it; its bytes have the expected digest.
\<close>

definition builtin_bound :: "('e, 'z) git_world_scheme \<Rightarrow> provenance_locator \<Rightarrow> string \<Rightarrow> json \<Rightarrow> json \<Rightarrow> 'e \<Rightarrow> 'e \<Rightarrow> bool" where
  "builtin_bound w p cache_root expected record e e' \<longleftrightarrow>
     (\<exists>resolved e1 data m e2 e3 boundary front rest. located_below w (pl_path p) cache_root e resolved e1
        \<and> path_parts resolved = front @ [''builtin.zig'']
        \<and> reads_file w resolved e1 data m e2 \<and> expected = JStr (sha256_bytes data)
        \<and> recorded_as w record resolved data e2 e3
        \<and> gw_resolve w cache_root e3 = (Some boundary, e') \<and> path_parts resolved = path_parts boundary @ rest)"

lemma check_receipt_builtin_Inr:
  assumes "check_receipt_builtin w record resolved (sha256_bytes data) label e = (Inr u, e')"
  shows "recorded_as w record resolved data e e'"
  using assms unfolding check_receipt_builtin_def Let_def recorded_as_def
  by (auto simp: act_simps split: if_splits sum.splits json.splits)

lemma relative_cache_path_Inr:
  "relative_cache_path w path root e = (Inr r, e') \<Longrightarrow>
     \<exists>boundary rest. gw_resolve w root e = (Some boundary, e') \<and> path_parts path = path_parts boundary @ rest"
  by (auto simp: relative_cache_path_def act_simps is_relative_to_iff)

lemma bind_builtin_Inr:
  assumes "bind_builtin w p cache_root expected label record e = (Inr j, e')"
  shows "builtin_bound w p cache_root expected record e e'"
proof -
  obtain path f e1 e2 e3 r where c: "contained w (pl_path p) cache_root label e = (Inr path, e1)"
    "path_parts path \<noteq> []" "last (path_parts path) = ''builtin.zig''"
    "read_exact_regular_file w path MAX_HASH_BYTES label e1 = (Inr f, e2)" "expected = JStr (ef_sha256 f)"
    "check_receipt_builtin w record path (ef_sha256 f) label e2 = (Inr (), e3)"
    "relative_cache_path w path cache_root e3 = (Inr r, e')"
    using assms by (auto simp: bind_builtin_def act_simps Let_def)
  note f = read_exact_Inr[OF c(4)]
  have "path_parts path = butlast (path_parts path) @ [''builtin.zig'']" using c(2,3) by (metis append_butlast_last_id)
  then show ?thesis
    using contained_Inr[OF c(1)] f(1) c(5) check_receipt_builtin_Inr[OF c(6)[unfolded f(4)]]
      relative_cache_path_Inr[OF c(7)]
    unfolding builtin_bound_def f(4) by blast
qed

text \<open>The record of a receipt, absent where no receipt speaks of the pair.\<close>

definition receipt_record :: "json option \<Rightarrow> string \<Rightarrow> json \<Rightarrow> bool" where
  "receipt_record inputs key record \<longleftrightarrow>
     (case inputs of None \<Rightarrow> record = JNull | Some j \<Rightarrow> json_get j key = Inr record)"

text \<open>
  The run from \<open>e\<close> to \<open>e'\<close>: the one object that the library's debug entry names lies below the local
  cache, was read and has the recorded time; it parses as an object with one \<open>builtin.zig\<close>; this one
  and the one of the archive are bound below the global cache.
\<close>

definition provenance_bound :: "('e, 'z) git_world_scheme \<Rightarrow> provenance_locator list \<Rightarrow> provenance_locator list
    \<Rightarrow> string \<Rightarrow> string \<Rightarrow> json \<Rightarrow> json \<Rightarrow> json option \<Rightarrow> 'e \<Rightarrow> 'e \<Rightarrow> bool" where
  "provenance_bound w dynamic static local_cache global_cache dynamic_sha static_sha inputs e e' \<longleftrightarrow>
     (\<exists>oso resolved e1 data m e2 ob at db sb boundary e3 record1 record2 e4.
        filter (\<lambda>p. pl_kind p = ''dynamic_cache_object'') dynamic = [oso]
        \<and> located_below w (pl_path oso) local_cache e resolved e1 \<and> reads_file w resolved e1 data m e2
        \<and> (case pl_expected_mtime_seconds oso of None \<Rightarrow> True | Some t \<Rightarrow> t = st_mtime_ns m div 1000000000)
        \<and> parse_macho_object data at ''dynamic_object'' = Inr ob
        \<and> filter (\<lambda>p. pl_kind p = ''static_builtin'') (mo_provenance ob) = [db]
        \<and> filter (\<lambda>p. pl_kind p = ''static_builtin'') static = [sb]
        \<and> gw_resolve w local_cache e2 = (Some boundary, e3)
        \<and> receipt_record inputs ''dynamic_builtin_zig'' record1 \<and> receipt_record inputs ''static_builtin_zig'' record2
        \<and> builtin_bound w db global_cache dynamic_sha record1 e3 e4
        \<and> builtin_bound w sb global_cache static_sha record2 e4 e')"

lemma receipt_input_Inr: "receipt_input inputs key = Inr r \<longleftrightarrow> receipt_record inputs key r"
  by (auto simp: receipt_input_def receipt_record_def split: option.splits)

lemma bind_artifact_provenance_Inr:
  assumes "bind_artifact_provenance w dynamic static lc gc dsha ssha label inputs e = (Inr j, e')"
  shows "provenance_bound w dynamic static lc gc dsha ssha inputs e e'"
proof -
  obtain oso path f e1 e2 ob db sb r e3 record1 j1 e4 record2 j2 where s:
    "unique_provenance dynamic ''dynamic_cache_object'' (label @ ''.dynamic.N_OSO'') = Inr oso"
    "contained w (pl_path oso) lc (label @ ''.dynamic.N_OSO'') e = (Inr path, e1)"
    "read_exact_regular_file w path MAX_HASH_BYTES (label @ ''.dynamic.N_OSO'') e1 = (Inr f, e2)"
    "bind_failures oso True (Some (st_mtime_ns (ef_metadata f) div 1000000000)) None = []"
    "parse_dynamic_object (ef_data f) label = Inr ob"
    "unique_provenance (mo_provenance ob) ''static_builtin'' (label @ ''.dynamic.object.DWARF'') = Inr db"
    "unique_provenance static ''static_builtin'' (label @ ''.static.DWARF'') = Inr sb"
    "relative_cache_path w path lc e2 = (Inr r, e3)"
    "receipt_input inputs ''dynamic_builtin_zig'' = Inr record1"
    "bind_builtin w db gc dsha (label @ ''.dynamic.builtin'') record1 e3 = (Inr j1, e4)"
    "receipt_input inputs ''static_builtin_zig'' = Inr record2"
    "bind_builtin w sb gc ssha (label @ ''.static.builtin'') record2 e4 = (Inr j2, e')"
    using assms unfolding bind_artifact_provenance_def Let_def act_simps if_act_fail by blast
  have m: "case pl_expected_mtime_seconds oso of None \<Rightarrow> True | Some t \<Rightarrow> t = st_mtime_ns (ef_metadata f) div 1000000000"
    using s(4) by (auto simp: bind_failures_def failure_if_def split: option.splits if_splits)
  have p: "parse_macho_object (ef_data f) (label @ ''-dynamic-object'') ''dynamic_object'' = Inr ob"
    using s(5) by (auto simp: parse_dynamic_object_def ver_fail_def split: sum.splits py_exc.splits)
  obtain boundary where b: "gw_resolve w lc e2 = (Some boundary, e3)" using relative_cache_path_Inr[OF s(8)] by blast
  show ?thesis
    unfolding provenance_bound_def
    using s(1,6,7)[unfolded unique_provenance_Inr] contained_Inr[OF s(2)] read_exact_Inr(1)[OF s(3)] m p b
      s(9,11)[unfolded receipt_input_Inr] bind_builtin_Inr[OF s(10)] bind_builtin_Inr[OF s(12)]
    by blast
qed

text \<open>C19. Provenance is bound only through the artifact, step by step along the run: the path of the one
  object its debug entry names resolves below the local cache, and that file is read, has the
  recorded time and parses as an object with one \<open>builtin.zig\<close>; the path of this one and the path of
  the archive's resolve below the global cache to a file of that name, and the bytes read from it
  have the digest of the policy and, where the receipt records one, the receipt's path and digest.\<close>

theorem provenance_bound_exactly:
  "case bind_artifact_provenance w dynamic static local_cache global_cache dynamic_sha static_sha label inputs e of
     (Inl _, _) \<Rightarrow> True
   | (Inr _, e') \<Rightarrow> provenance_bound w dynamic static local_cache global_cache dynamic_sha static_sha inputs e e'"
  using bind_artifact_provenance_Inr by (auto split: prod.split sum.split)

end
