(* ===== verification/Verify_System.thy ===== *)
theory Verify_System
  imports Tool_Output Verify_Provenance
begin

unbundle bit_operations_syntax

text \<open>
  The checks of the verifier that run system tools: \<open>verify_toolchain\<close> and \<open>system_cross_checks\<close>
  (\<open>tools/verify_abi_artifact_parity.py\<close>).
\<close>

section \<open>Running tools\<close>

text \<open>
  Steps that may raise and may not return; \<open>None\<close> is a run that does not return.  The runner takes the
  arguments of a command; directory and timeout are the same in every call.
\<close>

type_synonym ('s, 'a) tool = "'s \<Rightarrow> ('a ver \<times> 's) option"
type_synonym 's runner = "string list \<Rightarrow> ('s, command_result) tool"
type_synonym commands = "(string \<times> command_result) list"

definition tool_io :: "(ver_exc, 's, 'a) io \<Rightarrow> ('s, 'a) tool" where
  "tool_io m = (\<lambda>s. Some (m s))"

definition tool_lift :: "'a ver \<Rightarrow> ('s, 'a) tool" where
  "tool_lift r = (\<lambda>s. Some (r, s))"

definition tool_bind :: "('s, 'a) tool \<Rightarrow> ('a \<Rightarrow> ('s, 'b) tool) \<Rightarrow> ('s, 'b) tool" where
  "tool_bind m f = (\<lambda>s. case m s of
     None \<Rightarrow> None | Some (Inl x, s') \<Rightarrow> Some (Inl x, s') | Some (Inr v, s') \<Rightarrow> f v s')"

definition bounded_runner :: "('e, 'z) process_world_scheme \<Rightarrow> string \<Rightarrow> int \<Rightarrow> 'e session runner" where
  "bounded_runner w root timeout argv = (\<lambda>(roots, e).
     map_option (\<lambda>(r, e'). (r, (roots, e'))) (run_bounded w argv root timeout MAX_CAPTURE_BYTES e))"

lemma tool_bind_Inr [act_simps]:
  "tool_bind m f s = Some (Inr v, s') \<longleftrightarrow> (\<exists>x s1. m s = Some (Inr x, s1) \<and> f x s1 = Some (Inr v, s'))"
  by (auto simp: tool_bind_def split: option.splits prod.splits sum.splits)

lemma tool_io_Inr [act_simps]: "tool_io m s = Some (Inr v, s') \<longleftrightarrow> m s = (Inr v, s')"
  by (auto simp: tool_io_def)

lemma tool_lift_Inr [act_simps]: "tool_lift r s = Some (Inr v, s') \<longleftrightarrow> r = Inr v \<and> s' = s"
  by (auto simp: tool_lift_def)

lemma if_tool_fail [act_simps]:
  "(if c then tool_lift (ver_fail a b d) else m) s = Some (Inr v, s') \<longleftrightarrow> \<not> c \<and> m s = Some (Inr v, s')"
  by (simp add: tool_lift_Inr)

text \<open>\<open>{name: result.sanitized() for name, result in sorted(commands.items())}\<close>.\<close>

definition commands_json :: "commands \<Rightarrow> json" where
  "commands_json commands =
     JObj (map (\<lambda>name. (name, command_sanitized (the (map_of commands name)))) (sorted_set (map fst commands)))"

section \<open>The toolchain\<close>

record 'e tool_world = "'e process_world" +
  tw_which :: "string \<Rightarrow> 'e \<Rightarrow> string option \<times> 'e"

definition tool_query :: "unicode \<Rightarrow> 's runner \<Rightarrow> string \<Rightarrow> string list \<Rightarrow> commands \<Rightarrow> ('s, points \<times> commands) tool" where
  "tool_query un runner name argv commands =
     tool_bind (runner argv) (\<lambda>result.
     tool_bind (tool_lift (require_command result (''toolchain.'' @ name))) (\<lambda>_.
     case utf8_decode (cr_stdout result @ cr_stderr result) of
       None \<Rightarrow> tool_lift (Inl (Raised (ValueError (un_decode_error un (cr_stdout result @ cr_stderr result)))))
     | Some t \<Rightarrow> tool_lift (Inr (py_strip t, dict_set name result commands))))"

definition tool_resolve :: "('e, 'z) git_world_scheme \<Rightarrow> string \<Rightarrow> ('e session, string) tool" where
  "tool_resolve w path = tool_io (on_world (act_io (gw_resolve w path) Os_Error act_return))"

definition tool_sha256 :: "('e, 'z) git_world_scheme \<Rightarrow> string \<Rightarrow> ('e session, string) tool" where
  "tool_sha256 w path = tool_io (on_world (sha256_file w path None))"

text \<open>\<open>str(value)\<close> of a document value; \<open>repr\<close> for what is not a string.\<close>

definition py_str :: "unicode \<Rightarrow> json \<Rightarrow> string" where
  "py_str un j = (case j of JStr s \<Rightarrow> s | _ \<Rightarrow> un_repr un j)"

definition whole_word :: "unicode \<Rightarrow> string \<Rightarrow> re" where
  "whole_word un s = re_seq [Edge (un_word un), re_lit (code_points s), Edge (un_word un)]"

text \<open>The part before the queries: the receipt's record, the Zig executable and its version.\<close>

definition check_zig :: "unicode \<Rightarrow> ('e, 'z) tool_world_scheme \<Rightarrow> 'e session runner \<Rightarrow> json \<Rightarrow> json
    \<Rightarrow> ('e session, string \<times> string \<times> commands) tool" where
  "check_zig un w runner configuration toolchain =
     tool_bind (tool_lift (json_item configuration ''command_template'')) (\<lambda>template.
     tool_bind (tool_lift (case the_list template of z # _ \<Rightarrow> Inr (the_str z) | [] \<Rightarrow> Inl (Raised IndexError))) (\<lambda>zig_name.
     tool_bind (tool_io (on_world (act_io (tw_which w zig_name)
        (Verification ''zig_not_found'' (''cannot resolve '' @ un_repr un (JStr zig_name)) ''toolchain.zig'') act_return)))
       (\<lambda>zig_path_text.
     tool_bind (tool_resolve w zig_path_text) (\<lambda>zig_path.
     tool_bind (runner [zig_path, ''version'']) (\<lambda>result.
     tool_bind (tool_lift (require_command result ''toolchain.zig.version'')) (\<lambda>_.
     tool_bind (tool_lift (exact_version_line un (cr_stdout result) ''toolchain.zig.version'')) (\<lambda>zig_version.
     tool_bind (tool_lift (json_get toolchain ''zig_version'')) (\<lambda>expected_version.
     tool_bind (tool_lift (json_get_or configuration (JObj []) ''resolved'')) (\<lambda>resolved.
     tool_bind (tool_lift (json_get resolved ''zig_version'')) (\<lambda>configured.
     if \<not> json_eq (JStr (utf8_of zig_version)) expected_version \<or> \<not> json_eq configured expected_version
     then tool_lift (ver_fail ''zig_version_mismatch'' ''Zig version differs from configuration or receipt''
       ''toolchain.zig.version'')
     else
     tool_bind (tool_sha256 w zig_path) (\<lambda>zig_sha.
     tool_bind (tool_lift (json_get toolchain ''zig_executable_sha256'')) (\<lambda>expected_sha.
     if \<not> json_eq (JStr zig_sha) expected_sha
     then tool_lift (ver_fail ''zig_executable_mismatch'' ''Zig executable hash differs from receipt''
       ''toolchain.zig.sha256'')
     else tool_lift (Inr (utf8_of zig_version, zig_sha, [(''zig_version'', result)]))))))))))))))"

text \<open>The active SDK with its settings file.\<close>

definition check_sdk :: "unicode \<Rightarrow> ('e, 'z) tool_world_scheme \<Rightarrow> 'e session runner \<Rightarrow> json \<Rightarrow> commands
    \<Rightarrow> ('e session, string \<times> commands) tool" where
  "check_sdk un w runner toolchain commands =
     tool_bind (tool_query un runner ''sdk_version'' [''xcrun'', ''--show-sdk-version''] commands) (\<lambda>(sdk_version, commands).
     tool_bind (tool_lift (json_get toolchain ''host_sdk_version'')) (\<lambda>expected.
     if \<not> json_eq (JStr (utf8_of sdk_version)) expected
     then tool_lift (ver_fail ''host_sdk_mismatch'' ''active SDK differs from receipt'' ''toolchain.sdk_version'')
     else
     tool_bind (tool_query un runner ''sdk_path'' [''xcrun'', ''--show-sdk-path''] commands) (\<lambda>(path, commands).
     tool_bind (tool_resolve w (utf8_of path)) (\<lambda>sdk_path.
     tool_bind (tool_sha256 w (path_join sdk_path ''SDKSettings.json'')) (\<lambda>settings_sha.
     tool_bind (tool_lift (json_get toolchain ''host_sdk_settings_sha256'')) (\<lambda>expected.
     if \<not> json_eq (JStr settings_sha) expected
     then tool_lift (ver_fail ''sdk_settings_mismatch'' ''SDKSettings.json hash differs from receipt''
       ''toolchain.sdk_settings'')
     else tool_lift (Inr (utf8_of sdk_version, commands))))))))"

text \<open>Linker and compiler print the versions that the receipt records.\<close>

definition check_compilers :: "unicode \<Rightarrow> ('e, 'z) tool_world_scheme \<Rightarrow> 'e session runner \<Rightarrow> json \<Rightarrow> commands
    \<Rightarrow> ('e session, string \<times> commands) tool" where
  "check_compilers un w runner toolchain commands =
     tool_bind (tool_query un runner ''ld_path'' [''xcrun'', ''--find'', ''ld''] commands) (\<lambda>(path, commands).
     tool_bind (tool_resolve w (utf8_of path)) (\<lambda>ld_path.
     tool_bind (tool_query un runner ''linker_version'' [ld_path, ''-v''] commands) (\<lambda>(ld_version, commands).
     tool_bind (tool_lift (json_get toolchain ''linker_version'')) (\<lambda>expected.
     if \<not> has_text (code_points (py_str un expected)) ld_version
     then tool_lift (ver_fail ''linker_version_mismatch'' ''linker version differs from receipt'' ''toolchain.linker_version'')
     else
     tool_bind (tool_query un runner ''clang_version'' [''xcrun'', ''clang'', ''--version''] commands)
       (\<lambda>(clang_version, commands).
     tool_bind (tool_lift (json_get toolchain ''clang_version'')) (\<lambda>expected.
     let expected_clang = py_str un expected in
     if re_search (whole_word un expected_clang) clang_version 0 = None
     then tool_lift (ver_fail ''clang_version_mismatch'' ''clang version differs from receipt'' ''toolchain.clang_version'')
     else tool_lift (Inr (expected_clang, commands))))))))"

definition verify_toolchain :: "unicode \<Rightarrow> ('e, 'z) tool_world_scheme \<Rightarrow> 'e session runner \<Rightarrow> json \<Rightarrow> json
    \<Rightarrow> ('e session, json) tool" where
  "verify_toolchain un w runner configuration receipt =
     tool_bind (tool_lift (json_get receipt ''toolchain'')) (\<lambda>toolchain.
     if \<not> is_obj toolchain
     then tool_lift (ver_fail ''toolchain_receipt_missing'' ''receipt.toolchain must be an object'' ''receipt.toolchain'')
     else
     tool_bind (check_zig un w runner configuration toolchain) (\<lambda>(zig_version, zig_sha, commands).
     tool_bind (check_sdk un w runner toolchain commands) (\<lambda>(sdk_version, commands).
     tool_bind (check_compilers un w runner toolchain commands) (\<lambda>(expected_clang, commands).
     tool_bind (tool_lift (json_get_or configuration (JObj []) ''resolved'')) (\<lambda>resolved.
     tool_bind (tool_lift (json_get resolved ''artifact_sdk'')) (\<lambda>artifact_sdk.
     tool_bind (tool_lift (json_get toolchain ''artifact_sdk_version'')) (\<lambda>expected.
     if \<not> json_eq artifact_sdk expected
     then tool_lift (ver_fail ''artifact_sdk_receipt_mismatch'' ''artifact SDK differs between policy and receipt''
       ''toolchain.artifact_sdk_version'')
     else
     tool_bind (tool_lift (json_item toolchain ''host_sdk_settings_sha256'')) (\<lambda>settings.
     tool_bind (tool_lift (json_item toolchain ''linker_version'')) (\<lambda>linker.
     tool_lift (Inr (JObj
       [(''zig_version'', JStr zig_version), (''zig_executable_sha256'', JStr zig_sha),
        (''host_sdk_version'', JStr sdk_version), (''host_sdk_settings_sha256'', settings),
        (''artifact_sdk_version'', artifact_sdk), (''linker_version'', JStr (py_str un linker)),
        (''clang_version'', JStr expected_clang), (''commands'', commands_json commands),
        (''verdict'', JStr ''pass'')])))))))))))"

section \<open>Cross-checks\<close>

text \<open>The local function \<open>run\<close> on a freshly reverified path of the snapshot.\<close>

definition run_on :: "unicode \<Rightarrow> 'e session runner \<Rightarrow> ('e, 'y) snapshot_owner_scheme \<Rightarrow> path_resolution \<Rightarrow> snapshot
    \<Rightarrow> string \<Rightarrow> string list \<Rightarrow> commands \<Rightarrow> ('e session, points \<times> commands) tool" where
  "run_on un runner owner pr sn name argv commands =
     tool_bind (tool_io (add_snapshot_artifact owner pr sn)) (\<lambda>path.
     tool_bind (runner (argv @ [path])) (\<lambda>result.
     tool_bind (tool_lift (decode_tool un result (''system.'' @ name))) (\<lambda>t.
     tool_lift (Inr (t, dict_set name result commands)))))"

definition stripped_lines :: "points \<Rightarrow> string list" where
  "stripped_lines t = map utf8_of (filter (\<lambda>l. l \<noteq> []) (map py_strip (py_splitlines t)))"

definition logical_size :: "archive_member \<Rightarrow> int" where
  "logical_size m = am_stored_size m - (am_data_offset m - am_header_offset m - 60)"

definition meta_int :: "json \<Rightarrow> string \<Rightarrow> int ver" where
  "meta_int meta k = bind_r (json_item meta k) (\<lambda>v. Inr (the_int v))"

text \<open>The metadata are those the core parser wrote, with all four entries.\<close>

definition row_differs :: "ar_row \<times> json \<times> int \<Rightarrow> bool ver" where
  "row_differs p =
     (let (row, meta, expected_size) = p in
      bind_r (meta_int meta ''uid'') (\<lambda>uid.
      bind_r (meta_int meta ''gid'') (\<lambda>gid.
      bind_r (meta_int meta ''mode'') (\<lambda>mode.
      bind_r (meta_int meta ''date'') (\<lambda>date.
      Inr (row_uid row \<noteq> uid \<or> row_gid row \<noteq> gid \<or> row_mode row \<noteq> mode AND 0x1FF \<or> row_size row \<noteq> expected_size
        \<or> date \<noteq> 0 \<or> \<not> {''Jan'', ''1'', ''1970''} \<subseteq> set (row_date_fields row)))))))"

definition check_archive_listing :: "unicode \<Rightarrow> archive_artifact \<Rightarrow> points \<Rightarrow> unit ver" where
  "check_archive_listing un static t =
     bind_r (parse_ar_tv un t) (\<lambda>tv_rows.
     if map row_name tv_rows \<noteq> map am_name (ar_members static)
     then ver_fail ''ar_metadata_order_mismatch'' ''ar -tv differs from core member order'' ''system.ar.metadata''
     else
     bind_r (json_item (ar_structured_axes static) ''normalized_metadata'') (\<lambda>normalized.
     bind_r (map_r row_differs (zip tv_rows (zip (the_list normalized) (map logical_size (ar_members static))))) (\<lambda>differs.
     if list_ex (\<lambda>b. b) differs
     then ver_fail ''ar_metadata_mismatch'' ''ar ownership metadata differs from core parser'' ''system.ar.metadata''
     else Inr ())))"

definition hex_digit :: "int \<Rightarrow> bool" where
  "hex_digit p \<longleftrightarrow> 48 \<le> p \<and> p \<le> 57 \<or> 97 \<le> p \<and> p \<le> 102 \<or> 65 \<le> p \<and> p \<le> 70"

definition hex_value :: "points \<Rightarrow> int" where
  "hex_value t = fold (\<lambda>p n. 16 * n + (if p \<le> 57 then p - 48 else if p \<le> 70 then p - 55 else p - 87)) t 0"

definition check_codesign :: "unicode \<Rightarrow> points \<Rightarrow> unit ver" where
  "check_codesign un details =
     (if (case re_search (re_seq [re_str ''flags=0x'', Group 1 (Many hex_digit 1 True)]) details 0 of
            None \<Rightarrow> True | Some (_, _, c) \<Rightarrow> hex_value (group_text details c 1) \<noteq> 0x20002)
         \<or> \<not> has_text (pts ''adhoc'') (un_lower un details) \<or> \<not> has_text (pts ''linker-signed'') (un_lower un details)
      then ver_fail ''codesign_flags_mismatch'' ''codesign did not report ad-hoc linker-signed identity'' ''system.codesign''
      else Inr ())"

definition check_otool :: "unicode \<Rightarrow> macho_artifact \<Rightarrow> points \<Rightarrow> points \<Rightarrow> otool_metadata ver" where
  "check_otool un dynamic loads libraries =
     bind_r (parse_otool un loads libraries) (\<lambda>found.
     bind_r (core_macho_metadata un dynamic) (\<lambda>core.
     if found \<noteq> core then ver_fail ''otool_core_mismatch'' ''otool metadata differs from core parser'' ''system.otool''
     else Inr found))"

definition check_nm :: "unicode \<Rightarrow> string \<Rightarrow> macho_artifact list \<Rightarrow> symbol_record list \<Rightarrow> points \<Rightarrow> nm_axes ver" where
  "check_nm un name parsed symbols t =
     bind_r (core_nm_axes parsed symbols) (\<lambda>core.
     if \<not> nm_equal (parse_nm_axes un t) core
     then ver_fail ''nm_core_mismatch'' (''nm axes differ for '' @ name @ '' artifact'') (''system.nm.'' @ name)
     else Inr core)"

definition member_objects :: "archive_artifact \<Rightarrow> macho_artifact list" where
  "member_objects a = List.map_filter am_object (ar_members a)"

definition cross_report :: "otool_metadata \<Rightarrow> nm_axes \<Rightarrow> nm_axes \<Rightarrow> string list \<Rightarrow> commands \<Rightarrow> json" where
  "cross_report metadata dynamic_nm static_nm names commands = JObj
     [(''otool'', JObj [(''metadata'', otool_json metadata), (''matches_core'', JBool True)]),
      (''nm'', JObj [(''dynamic_counts'', nm_counts dynamic_nm), (''static_counts'', nm_counts static_nm),
         (''matches_core'', JBool True)]),
      (''ar'', JObj [(''member_order'', jstrs names), (''metadata_matches_core'', JBool True)]),
      (''codesign'', JObj [(''flags'', JStr ''0x20002''), (''adhoc'', JBool True), (''linker_signed'', JBool True)]),
      (''commands'', commands_json commands), (''verdict'', JStr ''pass'')]"

definition system_cross_checks :: "unicode \<Rightarrow> 'e session runner \<Rightarrow> ('e, 'y) snapshot_owner_scheme \<Rightarrow> path_resolution
    \<Rightarrow> snapshot \<Rightarrow> snapshot \<Rightarrow> macho_artifact \<Rightarrow> archive_artifact \<Rightarrow> ('e session, json) tool" where
  "system_cross_checks un runner owner pr dynamic_snapshot static_snapshot dynamic static =
     (let on_dynamic = run_on un runner owner pr dynamic_snapshot; on_static = run_on un runner owner pr static_snapshot in
      tool_bind (on_dynamic ''otool_load_commands'' [''otool'', ''-l''] []) (\<lambda>(loads, commands).
      tool_bind (on_dynamic ''otool_libraries'' [''otool'', ''-L''] commands) (\<lambda>(libraries, commands).
      tool_bind (tool_lift (check_otool un dynamic loads libraries)) (\<lambda>metadata.
      tool_bind (on_dynamic ''nm_dynamic'' [''nm'', ''-a'', ''-m''] commands) (\<lambda>(t, commands).
      tool_bind (tool_lift (check_nm un ''dynamic'' [dynamic] (mo_symbols dynamic) t)) (\<lambda>dynamic_nm.
      tool_bind (on_static ''nm_static'' [''nm'', ''-a'', ''-m''] commands) (\<lambda>(t, commands).
      tool_bind (tool_lift (check_nm un ''static'' (member_objects static) (ar_symbols static) t)) (\<lambda>static_nm.
      tool_bind (on_static ''ar_members'' [''ar'', ''-t''] commands) (\<lambda>(t, commands).
      let expected_names = map am_name (ar_members static) in
      if stripped_lines t \<noteq> expected_names
      then tool_lift (ver_fail ''ar_member_order_mismatch'' ''ar -t differs from core member order'' ''system.ar.members'')
      else
      tool_bind (on_static ''ar_metadata'' [''ar'', ''-tv''] commands) (\<lambda>(t, commands).
      tool_bind (tool_lift (check_archive_listing un static t)) (\<lambda>_.
      tool_bind (on_dynamic ''codesign_verify'' [''codesign'', ''--verify'', ''--strict''] commands) (\<lambda>(_, commands).
      tool_bind (on_dynamic ''codesign_details'' [''codesign'', ''-d'', ''--verbose=4''] commands) (\<lambda>(details, commands).
      tool_bind (tool_lift (check_codesign un details)) (\<lambda>_.
      tool_lift (Inr (cross_report metadata dynamic_nm static_nm expected_names commands))))))))))))))))"

section \<open>What passing cross-checks show\<close>

text \<open>A tool that ran on the private copy of a snapshot, ended well and printed a text.\<close>

definition printed :: "'s runner \<Rightarrow> ('e, 'y) snapshot_owner_scheme \<Rightarrow> snapshot \<Rightarrow> string list \<Rightarrow> points \<Rightarrow> bool" where
  "printed runner owner sn argv t \<longleftrightarrow> (\<exists>path e e' s r s'. so_execution_path owner sn e = (Inr path, e')
     \<and> runner (argv @ [path]) s = Some (Inr r, s') \<and> result_ok r \<and> utf8_decode (cr_stdout r @ cr_stderr r) = Some t)"

definition nm_same :: "nm_axes \<Rightarrow> nm_axes \<Rightarrow> bool" where
  "nm_same a b \<longleftrightarrow> mset (nm_defined a) = mset (nm_defined b) \<and> mset (nm_undefined a) = mset (nm_undefined b)
     \<and> mset (nm_local a) = mset (nm_local b)"

text \<open>The listing shows the members in order, with the owner and mode that the core parser read, the size
  without the extended name, and the reproducible date.\<close>

definition row_agrees :: "ar_row \<times> json \<times> int \<Rightarrow> bool" where
  "row_agrees p \<longleftrightarrow> (let (row, meta, n) = p in
     meta_int meta ''uid'' = Inr (row_uid row) \<and> meta_int meta ''gid'' = Inr (row_gid row)
     \<and> (\<exists>m. meta_int meta ''mode'' = Inr m \<and> row_mode row = m AND 0x1FF) \<and> meta_int meta ''date'' = Inr 0
     \<and> row_size row = n \<and> {''Jan'', ''1'', ''1970''} \<subseteq> set (row_date_fields row))"

definition listing_agrees :: "unicode \<Rightarrow> archive_artifact \<Rightarrow> points \<Rightarrow> bool" where
  "listing_agrees un static t \<longleftrightarrow> (\<exists>rows metas. parse_ar_tv un t = Inr rows
     \<and> map row_name rows = map am_name (ar_members static)
     \<and> json_item (ar_structured_axes static) ''normalized_metadata'' = Inr metas
     \<and> list_all row_agrees (zip rows (zip (the_list metas) (map logical_size (ar_members static)))))"

definition nm_agrees :: "unicode \<Rightarrow> macho_artifact list \<Rightarrow> symbol_record list \<Rightarrow> points \<Rightarrow> bool" where
  "nm_agrees un parsed symbols t \<longleftrightarrow> (\<exists>core. core_nm_axes parsed symbols = Inr core \<and> nm_same (parse_nm_axes un t) core)"

lemma run_on_Inr:
  assumes "run_on un runner owner pr sn name argv commands s = Some (Inr (t, commands'), s')"
  shows "printed runner owner sn argv t"
proof -
  obtain path s1 r s2 s3 where p: "add_snapshot_artifact owner pr sn s = (Inr path, s1)"
    and r: "runner (argv @ [path]) s2 = Some (Inr r, s3)" and d: "decode_tool un r (''system.'' @ name) = Inr t"
    using assms unfolding run_on_def tool_bind_Inr tool_io_Inr tool_lift_Inr by blast
  obtain e e' where "so_execution_path owner sn e = (Inr path, e')"
    using p unfolding add_snapshot_artifact_def by (auto simp: act_simps)
  moreover have "result_ok r" "utf8_decode (cr_stdout r @ cr_stderr r) = Some t"
    using d require_command_ok[of r] by (auto simp: decode_tool_def bind_r_eq_Inr ver_fail_def split: option.splits)
  ultimately show ?thesis using r unfolding printed_def by blast
qed

lemma run_on_printed:
  "run_on un runner owner pr sn name argv commands s = Some (Inr x, s') \<Longrightarrow> printed runner owner sn argv (fst x)"
  by (cases x) (simp add: run_on_Inr)

lemma row_differs_Inr: "row_differs p = Inr False \<Longrightarrow> row_agrees p"
  by (cases p) (auto simp: row_differs_def row_agrees_def bind_r_eq_Inr)

lemma check_archive_listing_Inr:
  assumes "check_archive_listing un static t = Inr u"
  shows "listing_agrees un static t"
proof -
  obtain rows metas ds where r: "parse_ar_tv un t = Inr rows" "map row_name rows = map am_name (ar_members static)"
    "json_item (ar_structured_axes static) ''normalized_metadata'' = Inr metas"
    and d: "map_r row_differs (zip rows (zip (the_list metas) (map logical_size (ar_members static)))) = Inr ds"
      "\<not> list_ex (\<lambda>b. b) ds"
    using assms by (auto simp: check_archive_listing_def bind_r_eq_Inr ver_fail_def split: if_splits)
  have "list_all row_agrees xs" if "map_r row_differs xs = Inr ds" "\<not> list_ex (\<lambda>b. b) ds" for xs ds
    using that by (induction xs arbitrary: ds) (auto simp: bind_r_eq_Inr row_differs_Inr)
  then show ?thesis using r d unfolding listing_agrees_def by blast
qed

lemma check_nm_Inr: "check_nm un name parsed symbols t = Inr core \<Longrightarrow> nm_agrees un parsed symbols t"
  by (auto simp: check_nm_def bind_r_eq_Inr nm_agrees_def nm_equal_def nm_same_def counter_eq_mset ver_fail_def split: if_splits)

lemma check_otool_Inr: "check_otool un dynamic loads libraries = Inr m
    \<Longrightarrow> parse_otool un loads libraries = Inr m \<and> core_macho_metadata un dynamic = Inr m"
  by (auto simp: check_otool_def bind_r_eq_Inr ver_fail_def split: if_splits)

lemma check_codesign_Inr: "check_codesign un t = Inr u \<Longrightarrow> check_codesign un t = Inr ()"
  by simp

text \<open>What each tool printed, and that the core parser agrees.\<close>

definition tools_agree :: "unicode \<Rightarrow> 's runner \<Rightarrow> ('e, 'y) snapshot_owner_scheme \<Rightarrow> snapshot \<Rightarrow> snapshot \<Rightarrow> macho_artifact
    \<Rightarrow> archive_artifact \<Rightarrow> bool" where
  "tools_agree un runner owner ds ss dynamic static \<longleftrightarrow>
     (\<exists>loads libraries metadata. printed runner owner ds [''otool'', ''-l''] loads \<and> printed runner owner ds [''otool'', ''-L''] libraries
       \<and> parse_otool un loads libraries = Inr metadata \<and> core_macho_metadata un dynamic = Inr metadata)
   \<and> (\<exists>t. printed runner owner ds [''nm'', ''-a'', ''-m''] t \<and> nm_agrees un [dynamic] (mo_symbols dynamic) t)
   \<and> (\<exists>t. printed runner owner ss [''nm'', ''-a'', ''-m''] t \<and> nm_agrees un (member_objects static) (ar_symbols static) t)
   \<and> (\<exists>t. printed runner owner ss [''ar'', ''-t''] t \<and> stripped_lines t = map am_name (ar_members static))
   \<and> (\<exists>t. printed runner owner ss [''ar'', ''-tv''] t \<and> listing_agrees un static t)
   \<and> (\<exists>t. printed runner owner ds [''codesign'', ''--verify'', ''--strict''] t)
   \<and> (\<exists>t. printed runner owner ds [''codesign'', ''-d'', ''--verbose=4''] t \<and> check_codesign un t = Inr ())"

lemma cross_checks_Inr:
  assumes "system_cross_checks un runner owner pr ds ss dynamic static s = Some (Inr report, s')"
  shows "tools_agree un runner owner ds ss dynamic static"
  using assms unfolding system_cross_checks_def Let_def let_prod_pair tool_bind_Inr tool_lift_Inr if_tool_fail tools_agree_def
  apply (elim exE conjE)
  apply (drule run_on_printed)+
  apply (drule check_nm_Inr)+
  apply (drule check_otool_Inr check_archive_listing_Inr)+
  apply (drule check_codesign_Inr)
  by blast

text \<open>C18. Cross-checks pass only if the system tools, run on the private copies, agree with the core parser:
  \<open>otool\<close> on platform, versions, install name and dependencies, \<open>nm\<close> on the multisets of symbols of both
  artifacts, \<open>ar\<close> on order and metadata of the members, and \<open>codesign\<close> on the ad-hoc linker signature.\<close>

theorem cross_checks_agree:
  "case system_cross_checks un runner owner pr ds ss dynamic static s of
     Some (Inr _, _) \<Rightarrow> tools_agree un runner owner ds ss dynamic static | _ \<Rightarrow> True"
  using cross_checks_Inr[of un runner owner pr ds ss dynamic static s] by (auto split: option.split sum.split)

end
