(* ===== verification/Verify_Main.thy ===== *)
theory Verify_Main
  imports Verify_System
begin

text \<open>
  The whole verifier (\<open>tools/verify_abi_artifact_parity.py\<close>): \<open>verify\<close> by phase, \<open>failure_report\<close>,
  \<open>write_report\<close> and \<open>main\<close>.
\<close>

section \<open>The surroundings\<close>

datatype import_answer = Imported | No_Spec | Import_Error string

record 'e main_world = "'e tool_world" +
  mw_import :: "string \<Rightarrow> 'e \<Rightarrow> import_answer \<times> 'e"
  mw_write :: "string \<Rightarrow> bytes \<Rightarrow> 'e \<Rightarrow> unit option \<times> 'e"
  mw_replace :: "string \<Rightarrow> string \<Rightarrow> 'e \<Rightarrow> unit option \<times> 'e"
  mw_pid :: int
  mw_print_error :: "bytes \<Rightarrow> 'e \<Rightarrow> 'e"

text \<open>Everything the verifier takes from outside; \<open>pf_text\<close> is \<open>str\<close> of an exception of another kind.\<close>

record 'e platform =
  pf_world :: "'e main_world"
  pf_owner :: "'e snapshot_owner"
  pf_paths :: path_resolution
  pf_unicode :: unicode
  pf_printable :: "int \<Rightarrow> bool"
  pf_loads :: "bytes \<Rightarrow> load_answer"
  pf_files :: file_system
  pf_text :: "ver_exc \<Rightarrow> string"

record verify_args =
  va_root :: string
  va_policy :: string
  va_observation :: string
  va_receipt :: string
  va_dynamic :: string
  va_static :: string
  va_fresh_root :: string
  va_output :: string
  va_timeout :: int

definition SCHEMA :: json where
  "SCHEMA = JObj [(''name'', JStr ''zynum.abi-fresh-artifact-parity''), (''version'', JInt 1)]"

definition PARSER_ID :: string where "PARSER_ID = ''tools/abi_artifact_parity.py''"
definition BENCHMARK_ARTIFACTS_ID :: string where "BENCHMARK_ARTIFACTS_ID = ''bench/tools/benchmark_artifacts.py''"
definition VERIFIER_ID :: string where "VERIFIER_ID = ''tools/verify_abi_artifact_parity.py''"

definition load_module :: "'e platform \<Rightarrow> string \<Rightarrow> string \<Rightarrow> (string \<Rightarrow> string) \<Rightarrow> ('e session, unit) tool" where
  "load_module p path code message = (\<lambda>(roots, e).
     case mw_import (pf_world p) path e of (answer, e) \<Rightarrow>
       Some (case answer of
           Imported \<Rightarrow> Inr ()
         | No_Spec \<Rightarrow> ver_fail code ''could not create module spec'' ''verifier''
         | Import_Error m \<Rightarrow> ver_fail code (message m) ''verifier'', (roots, e)))"

definition load_parity_module :: "'e platform \<Rightarrow> string \<Rightarrow> ('e session, unit) tool" where
  "load_parity_module p root = load_module p (path_join root PARSER_ID) ''parser_import_failed'' (\<lambda>m. m)"

definition load_benchmark_artifacts_module :: "'e platform \<Rightarrow> string \<Rightarrow> ('e session, unit) tool" where
  "load_benchmark_artifacts_module p root =
     load_module p (path_join root BENCHMARK_ARTIFACTS_ID) ''artifact_snapshot_import_failed''
       (\<lambda>_. ''could not load artifact snapshot owner'')"

section \<open>Snapshot contexts\<close>

text \<open>
  The \<open>with\<close> statement: leaving it closes the set, also after a failure, and a failing cleanup
  replaces the outcome of the body.
\<close>

definition with_snapshots :: "'e platform \<Rightarrow> (string \<times> string) list
    \<Rightarrow> (snapshot \<Rightarrow> snapshot \<Rightarrow> ('e session, 'a) tool) \<Rightarrow> ('e session, 'a) tool" where
  "with_snapshots p requests body =
     tool_bind (tool_io (on_world (act_owner (so_capture (pf_owner p) requests)))) (\<lambda>sns. \<lambda>s.
     case (case sns of [a, b] \<Rightarrow> body a b | _ \<Rightarrow> tool_lift (Inl (Raised (ValueError ''to unpack'')))) s of
       None \<Rightarrow> None
     | Some (r, s') \<Rightarrow> tool_bind (tool_io (on_world (act_owner (so_close (pf_owner p) sns)))) (\<lambda>_. tool_lift r) s')"

definition snapshot_failure :: "string \<Rightarrow> ver_exc" where
  "snapshot_failure code = Verification (if code = [] then ''artifact_snapshot_failed'' else code)
     ''private artifact snapshot verification or cleanup failed'' ''artifact_snapshot''"

definition snapshot_errors :: "('s, 'a) tool \<Rightarrow> ('s, 'a) tool" where
  "snapshot_errors m = (\<lambda>s. map_option (\<lambda>(r, s').
     (map_sum (\<lambda>x. case x of Snapshot_Failed code \<Rightarrow> snapshot_failure code | _ \<Rightarrow> x) (\<lambda>v. v) r, s')) (m s))"

section \<open>Controls, build and artifacts\<close>

record controls =
  ct_policy_raw :: bytes
  ct_observation :: json
  ct_observation_raw :: bytes
  ct_receipt :: json
  ct_receipt_raw :: bytes
  ct_configuration :: json

definition world_io :: "(ver_exc, 'e, 'a) io \<Rightarrow> ('e session, 'a) tool" where
  "world_io m = tool_io (on_world m)"

definition load_controls :: "'e platform \<Rightarrow> verify_args \<Rightarrow> ('e session, controls) tool" where
  "load_controls p args =
     (let load = (\<lambda>path locator. world_io (load_json (pf_world p) (pf_loads p) (pf_text p) path locator)) in
      tool_bind (load (va_policy args) ''policy'') (\<lambda>(policy, policy_raw).
      tool_bind (load (va_observation args) ''observation'') (\<lambda>(observation, observation_raw).
      tool_bind (load (va_receipt args) ''receipt'') (\<lambda>(receipt, receipt_raw).
      tool_bind (tool_lift (validate_control_documents policy observation receipt)) (\<lambda>configuration.
      tool_lift (Inr \<lparr>ct_policy_raw = policy_raw, ct_observation = observation, ct_observation_raw = observation_raw,
        ct_receipt = receipt, ct_receipt_raw = receipt_raw, ct_configuration = configuration\<rparr>))))))"

text \<open>What is known when the fresh artifacts are captured.\<close>

record build_state =
  bs_root :: string
  bs_controls :: controls
  bs_frozen_dynamic :: snapshot
  bs_frozen_static :: snapshot
  bs_frozen_raw :: json
  bs_fresh_roots :: "(string \<times> string) list"
  bs_canonical_command :: "string list"
  bs_toolchain :: json
  bs_result :: command_result

definition build_fresh :: "'e platform \<Rightarrow> verify_args \<Rightarrow> string \<Rightarrow> controls \<Rightarrow> snapshot \<Rightarrow> snapshot
    \<Rightarrow> ('e session, build_state) tool" where
  "build_fresh p args root ct frozen_dynamic frozen_static =
     (let w = pf_world p; runner = bounded_runner w root (va_timeout args);
          register = (\<lambda>sn. tool_io (add_snapshot_artifact (pf_owner p) (pf_paths p) sn));
          validate = (\<lambda>sn kind. world_io (validate_frozen_artifact (pf_owner p) (abspath (pf_paths p)) sn kind
            (ct_observation ct) (ct_receipt ct))) in
      tool_bind (register frozen_dynamic) (\<lambda>_.
      tool_bind (register frozen_static) (\<lambda>_.
      tool_bind (validate frozen_dynamic ''dynamic'') (\<lambda>raw_dynamic.
      tool_bind (validate frozen_static ''static'') (\<lambda>raw_static.
      tool_bind (world_io (prepare_fresh_roots w (va_fresh_root args))) (\<lambda>fresh_roots.
      tool_bind (tool_lift (materialize_build_command (ct_configuration ct) fresh_roots)) (\<lambda>(command, canonical).
      tool_bind (verify_toolchain (pf_unicode p) w runner (ct_configuration ct) (ct_receipt ct)) (\<lambda>toolchain.
      tool_bind (runner command) (\<lambda>result.
      tool_bind (tool_lift (require_command result ''fresh_build'')) (\<lambda>_.
      tool_lift (Inr \<lparr>bs_root = root, bs_controls = ct, bs_frozen_dynamic = frozen_dynamic,
        bs_frozen_static = frozen_static,
        bs_frozen_raw = JObj [(''dynamic'', raw_dynamic), (''static'', raw_static)], bs_fresh_roots = fresh_roots,
        bs_canonical_command = canonical, bs_toolchain = toolchain, bs_result = result\<rparr>)))))))))))"

definition fresh_requests :: "verify_args \<Rightarrow> (string \<times> string) list \<Rightarrow> (string \<times> string) list" where
  "fresh_requests args fresh_roots =
     (let lib = path_join (the (map_of fresh_roots ''<temporary-install-prefix>'')) ''lib'' in
      [(''fresh-dynamic'', path_join lib (path_name (va_dynamic args))),
       (''fresh-static'', path_join lib (path_name (va_static args)))])"

record subjects =
  su_frozen_dynamic :: macho_artifact
  su_frozen_static :: archive_artifact
  su_fresh_dynamic :: macho_artifact
  su_fresh_static :: archive_artifact
  su_fresh_raw :: json

definition file_identity :: "exact_file \<Rightarrow> json" where
  "file_identity f = JObj [(''size'', JInt (ef_size f)), (''sha256'', JStr (ef_sha256 f))]"

text \<open>A failure of the parser is not caught.\<close>

definition parity :: "'a res \<Rightarrow> ('s, 'a) tool" where
  "parity r = tool_lift (map_sum Raised (\<lambda>v. v) r)"

definition read_subjects :: "'e platform \<Rightarrow> build_state \<Rightarrow> snapshot \<Rightarrow> snapshot \<Rightarrow> ('e session, subjects) tool" where
  "read_subjects p bs fresh_dynamic fresh_static =
     (let read = (\<lambda>sn at. tool_io (snapshot_artifact_bytes (pf_world p) (pf_owner p) (pf_paths p) sn at));
          dynamic = (\<lambda>f label. parity (parse_dynamic_artifact (pf_files p) (Buffer (ef_data f)) (Some label)));
          static = (\<lambda>f label. parity (parse_static_archive (pf_files p) (Buffer (ef_data f)) (Some label))) in
      tool_bind (read (bs_frozen_dynamic bs) ''artifact.frozen.dynamic'') (\<lambda>fd.
      tool_bind (read (bs_frozen_static bs) ''artifact.frozen.static'') (\<lambda>fs.
      tool_bind (read fresh_dynamic ''artifact.fresh.dynamic'') (\<lambda>nd.
      tool_bind (read fresh_static ''artifact.fresh.static'') (\<lambda>ns.
      tool_bind (dynamic fd ''frozen-dynamic'') (\<lambda>frozen_dynamic.
      tool_bind (static fs ''frozen-static'') (\<lambda>frozen_static.
      tool_bind (dynamic nd ''fresh-dynamic'') (\<lambda>fresh_dynamic.
      tool_bind (static ns ''fresh-static'') (\<lambda>fresh_static.
      tool_lift (Inr \<lparr>su_frozen_dynamic = frozen_dynamic, su_frozen_static = frozen_static,
        su_fresh_dynamic = fresh_dynamic, su_fresh_static = fresh_static,
        su_fresh_raw = JObj [(''dynamic'', file_identity nd), (''static'', file_identity ns)]\<rparr>))))))))))"

section \<open>Evidence\<close>

definition compare_subjects :: "'e platform \<Rightarrow> subjects \<Rightarrow> ('e session, comparison \<times> comparison) tool" where
  "compare_subjects p su =
     tool_bind (parity (compare_dynamic_artifact_pair (pf_printable p) (pf_files p) (Given (su_frozen_dynamic su))
        (Given (su_fresh_dynamic su)) None None)) (\<lambda>dynamic.
     tool_bind (parity (compare_static_archive_pair (pf_printable p) (pf_files p) (Given (su_frozen_static su))
        (Given (su_fresh_static su)) None None)) (\<lambda>static.
     tool_bind (tool_lift (require_comparison dynamic ''comparison.dynamic'')) (\<lambda>_.
     tool_bind (tool_lift (require_comparison static ''comparison.static'')) (\<lambda>_.
     tool_lift (Inr (dynamic, static))))))"

definition bind_subjects :: "'e platform \<Rightarrow> build_state \<Rightarrow> subjects \<Rightarrow> ('e session, json \<times> json) tool" where
  "bind_subjects p bs su =
     (let w = pf_world p; ct = bs_controls bs; root = (\<lambda>k. the (map_of (bs_fresh_roots bs) k)) in
      tool_bind (tool_lift (json_item (ct_configuration ct) ''resolved_build_inputs'')) (\<lambda>inputs.
      tool_bind (tool_lift (json_item inputs ''generated_builtin_zig_sha256'')) (\<lambda>expected_hashes.
      tool_bind (tool_io (receipt_cache_roots w (pf_paths p) (ct_receipt ct))) (\<lambda>(frozen_local, frozen_global).
      tool_bind (tool_lift (json_get (ct_receipt ct) ''resolved_build_inputs'')) (\<lambda>receipt_inputs.
      if \<not> is_obj receipt_inputs
      then tool_lift (ver_fail ''receipt_build_inputs_missing'' ''receipt.resolved_build_inputs must be an object''
        ''receipt.resolved_build_inputs'')
      else
      tool_bind (tool_lift (json_item expected_hashes ''dynamic_library'')) (\<lambda>dynamic_sha.
      tool_bind (tool_lift (json_item expected_hashes ''static_library'')) (\<lambda>static_sha.
      tool_bind (world_io (bind_artifact_provenance w (mo_provenance (su_frozen_dynamic su))
        (ar_provenance (su_frozen_static su)) frozen_local frozen_global dynamic_sha static_sha ''frozen''
        (Some receipt_inputs))) (\<lambda>frozen.
      tool_bind (world_io (bind_artifact_provenance w (mo_provenance (su_fresh_dynamic su))
        (ar_provenance (su_fresh_static su)) (root ''<isolated-local-cache>'') (root ''<isolated-global-cache>'')
        dynamic_sha static_sha ''fresh'' None)) (\<lambda>fresh.
      tool_lift (Inr (frozen, fresh)))))))))))"

text \<open>Accounting of one artifact: a public name that no symbol defines is a failure.\<close>

definition account_for :: "string list \<times> string list \<Rightarrow> string \<times> symbol_record list \<Rightarrow> accounting ver" where
  "account_for names p =
     (let (label, records) = p in
      bind_r (source_accounting records (fst names) (snd names)) (\<lambda>a.
      if ac_public_missing a \<noteq> []
      then ver_fail ''source_symbol_accounting_failed'' ''a public source declaration is missing''
        (''source_accounting.'' @ label)
      else Inr a))"

definition same_accounting :: "string \<Rightarrow> accounting \<Rightarrow> accounting \<Rightarrow> unit ver" where
  "same_accounting kind frozen fresh =
     (if frozen \<noteq> fresh
      then ver_fail ''source_symbol_accounting_mismatch''
        (''fresh '' @ kind @ '' public/hidden accounting differs from frozen'') (''source_accounting.'' @ kind)
      else Inr ())"

definition check_symbols :: "json \<Rightarrow> subjects \<Rightarrow> (json \<times> json) ver" where
  "check_symbols observation su =
     bind_r (source_names_from_observation observation) (\<lambda>names.
     let fd = mo_symbols (su_frozen_dynamic su); fs = ar_symbols (su_frozen_static su);
         nd = mo_symbols (su_fresh_dynamic su); ns = ar_symbols (su_fresh_static su) in
     bind_r (compare_symbol_axes (symbol_axis fd) (symbol_axis nd)) (\<lambda>dynamic.
     bind_r (compare_symbol_axes (symbol_axis fs) (symbol_axis ns)) (\<lambda>static.
     bind_r (account_for names (''frozen_dynamic'', fd)) (\<lambda>afd.
     bind_r (account_for names (''frozen_static'', fs)) (\<lambda>afs.
     bind_r (account_for names (''fresh_dynamic'', nd)) (\<lambda>and.
     bind_r (account_for names (''fresh_static'', ns)) (\<lambda>ans.
     bind_r (same_accounting ''dynamic'' afd and) (\<lambda>_.
     bind_r (same_accounting ''static'' afs ans) (\<lambda>_.
     Inr (JObj [(''dynamic'', dynamic), (''static'', static)],
       JObj [(''frozen_dynamic'', accounting_json afd), (''frozen_static'', accounting_json afs),
         (''fresh_dynamic'', accounting_json and), (''fresh_static'', accounting_json ans),
         (''parity'', JObj [(''dynamic'', JBool True), (''static'', JBool True), (''verdict'', JStr ''pass'')])]))))))))))"

definition check_system :: "'e platform \<Rightarrow> verify_args \<Rightarrow> build_state \<Rightarrow> subjects \<Rightarrow> snapshot \<Rightarrow> snapshot
    \<Rightarrow> ('e session, json) tool" where
  "check_system p args bs su fresh_dynamic fresh_static =
     (let checks = system_cross_checks (pf_unicode p) (bounded_runner (pf_world p) (bs_root bs) (va_timeout args))
            (pf_owner p) (pf_paths p) in
      tool_bind (checks (bs_frozen_dynamic bs) (bs_frozen_static bs) (su_frozen_dynamic su) (su_frozen_static su)) (\<lambda>frozen.
      tool_bind (checks fresh_dynamic fresh_static (su_fresh_dynamic su) (su_fresh_static su)) (\<lambda>fresh.
      tool_lift (Inr (JObj [(''frozen'', frozen), (''fresh'', fresh)])))))"

section \<open>The report\<close>

definition report_identity :: "'e platform \<Rightarrow> string \<Rightarrow> string \<Rightarrow> ('e session, json) tool" where
  "report_identity p root identity =
     (let path = path_join root identity in
      tool_bind (tool_sha256 (pf_world p) path) (\<lambda>digest.
      tool_lift (Inr (JObj [(''identity'', JStr (relative_posix path root)), (''sha256'', JStr digest)]))))"

definition report_inputs :: "controls \<Rightarrow> json ver" where
  "report_inputs ct =
     bind_r (json_item (ct_configuration ct) ''configuration_id'') (\<lambda>configuration_id.
     Inr (JObj [(''policy_sha256'', JStr (sha256_bytes (ct_policy_raw ct))),
       (''observation_sha256'', JStr (sha256_bytes (ct_observation_raw ct))),
       (''receipt_sha256'', JStr (sha256_bytes (ct_receipt_raw ct))), (''configuration_id'', configuration_id),
       (''configuration_digest'', JStr (sha256_bytes (canonical_json_bytes (ct_configuration ct))))]))"

definition closed_fields :: "json list \<Rightarrow> string \<Rightarrow> (string \<times> json) list" where
  "closed_fields failures verdict =
     [(''uncovered_left_bytes'', JList []), (''uncovered_right_bytes'', JList []), (''unpaired_atoms'', JList []),
      (''invalid_derived_fields'', JList []), (''failures'', JList failures), (''verdict'', JStr verdict)]"

definition pass_report :: "'e platform \<Rightarrow> build_state \<Rightarrow> subjects \<Rightarrow> comparison \<times> comparison \<Rightarrow> json \<times> json
    \<Rightarrow> json \<times> json \<Rightarrow> json \<Rightarrow> ('e session, json) tool" where
  "pass_report p bs su comparisons provenance symbols system =
     tool_bind (report_identity p (bs_root bs) VERIFIER_ID) (\<lambda>verifier.
     tool_bind (report_identity p (bs_root bs) PARSER_ID) (\<lambda>parser.
     tool_bind (tool_lift (report_inputs (bs_controls bs))) (\<lambda>inputs.
     tool_bind (tool_lift (comparison_summary (fst comparisons))) (\<lambda>dynamic.
     tool_bind (tool_lift (comparison_summary (snd comparisons))) (\<lambda>static.
     tool_lift (Inr (JObj
       ([(''schema'', SCHEMA), (''verifier'', verifier), (''parser'', parser), (''inputs'', inputs),
         (''artifacts'', JObj [(''frozen'', bs_frozen_raw bs), (''fresh'', su_fresh_raw su)]),
         (''fresh_build'', JObj [(''canonical_command'', jstrs (bs_canonical_command bs)),
            (''cwd'', JStr ''<repository-root>''), (''fresh_root_was_empty'', JBool True),
            (''roots_mutually_non_overlapping'', JBool True), (''artifacts_preserved'', JBool True),
            (''result'', command_sanitized (bs_result bs))]),
         (''toolchain'', bs_toolchain bs), (''comparisons'', JObj [(''dynamic'', dynamic), (''static'', static)]),
         (''structured_checks'', JObj [(''dynamic'', cp_structured_axes (fst comparisons)),
            (''static'', cp_structured_axes (snd comparisons)), (''verdict'', JStr ''pass'')]),
         (''symbol_checks'', fst symbols), (''source_checks'', snd symbols),
         (''provenance_checks'', JObj [(''frozen'', fst provenance), (''fresh'', snd provenance),
            (''verdict'', JStr ''pass'')]),
         (''system_checks'', system)] @ closed_fields [] ''pass''))))))))"

definition verify_fresh :: "'e platform \<Rightarrow> verify_args \<Rightarrow> build_state \<Rightarrow> snapshot \<Rightarrow> snapshot \<Rightarrow> ('e session, json) tool" where
  "verify_fresh p args bs fresh_dynamic fresh_static =
     (let register = (\<lambda>sn. tool_io (add_snapshot_artifact (pf_owner p) (pf_paths p) sn)) in
      tool_bind (register fresh_dynamic) (\<lambda>_.
      tool_bind (register fresh_static) (\<lambda>_.
      tool_bind (read_subjects p bs fresh_dynamic fresh_static) (\<lambda>su.
      tool_bind (compare_subjects p su) (\<lambda>comparisons.
      tool_bind (bind_subjects p bs su) (\<lambda>provenance.
      tool_bind (tool_lift (check_symbols (ct_observation (bs_controls bs)) su)) (\<lambda>symbols.
      tool_bind (check_system p args bs su fresh_dynamic fresh_static) (\<lambda>system.
      tool_bind (pass_report p bs su comparisons provenance symbols system) (\<lambda>report.
      tool_bind (world_io (act_owner (so_finalize (pf_owner p) [bs_frozen_dynamic bs, bs_frozen_static bs]))) (\<lambda>_.
      tool_bind (world_io (act_owner (so_finalize (pf_owner p) [fresh_dynamic, fresh_static]))) (\<lambda>_.
      tool_lift (Inr report))))))))))))"

definition verify_frozen :: "'e platform \<Rightarrow> verify_args \<Rightarrow> string \<Rightarrow> controls \<Rightarrow> snapshot \<Rightarrow> snapshot
    \<Rightarrow> ('e session, json) tool" where
  "verify_frozen p args root ct frozen_dynamic frozen_static =
     tool_bind (build_fresh p args root ct frozen_dynamic frozen_static) (\<lambda>bs.
     with_snapshots p (fresh_requests args (bs_fresh_roots bs)) (verify_fresh p args bs))"

text \<open>Without a redactor the run makes its own.\<close>

definition own_redactor :: "('e session, unit) tool" where
  "own_redactor = (\<lambda>(roots, e). Some (Inr (), (Some (case roots of None \<Rightarrow> [] | Some r \<Rightarrow> r), e)))"

definition verify :: "'e platform \<Rightarrow> verify_args \<Rightarrow> ('e session, json) tool" where
  "verify p args =
     tool_bind own_redactor (\<lambda>_.
     tool_bind (tool_io (register_root (pf_paths p) (va_fresh_root args) ''<fresh-root>'')) (\<lambda>_.
     tool_bind (tool_resolve (pf_world p) (va_root args)) (\<lambda>root.
     tool_bind (load_controls p args) (\<lambda>ct.
     tool_bind (load_parity_module p root) (\<lambda>_.
     tool_bind (load_benchmark_artifacts_module p root) (\<lambda>_.
     snapshot_errors (with_snapshots p
       [(''frozen-dynamic'', va_dynamic args), (''frozen-static'', va_static args)] (verify_frozen p args root ct))))))))"

section \<open>Publication\<close>

definition failure_report :: "'e platform \<Rightarrow> ver_exc \<Rightarrow> redactor \<Rightarrow> json" where
  "failure_report p x roots =
     (let failure = (case x of
            Verification code message locator \<Rightarrow> error_json code (sanitize_text roots message) (sanitize_text roots locator)
          | _ \<Rightarrow>
              let message = sanitize_text roots (pf_text p x) in
              error_json ''verification_exception''
                (if message = [] then ''unexpected verification failure'' else message) ''verifier'')
      in sanitize_value roots (JObj ((''schema'', SCHEMA) # closed_fields [failure] ''fail'')))"

definition report_bytes :: "json \<Rightarrow> redactor \<Rightarrow> bytes" where
  "report_bytes report roots = canonical_json_bytes (sanitize_value roots report) @ [10]"

text \<open>The output names a file.\<close>

definition write_report :: "'e platform \<Rightarrow> string \<Rightarrow> json \<Rightarrow> redactor \<Rightarrow> (ver_exc, 'e, unit) io" where
  "write_report p path report roots =
     (let w = pf_world p; not_written = Verification ''report_write_failed''
            ''verification report could not be published'' ''output'';
          temporary = path_with_name path (path_name path @ ''.tmp-'' @ show_int (mw_pid w)) in
      act_io (fw_make_parents w (path_parent path)) not_written (\<lambda>_.
      act_io (mw_write w temporary (report_bytes report roots)) not_written (\<lambda>_.
      act_io (mw_replace w temporary path) not_written act_return)))"

definition the_roots :: "'e session \<Rightarrow> redactor" where
  "the_roots s = (case fst s of None \<Rightarrow> [] | Some roots \<Rightarrow> roots)"

text \<open>The report that \<open>main\<close> publishes, and its exit status.\<close>

definition main_report :: "'e platform \<Rightarrow> verify_args \<Rightarrow> 'e \<Rightarrow> ((json \<times> int) \<times> 'e session) option" where
  "main_report p args e =
     map_option (\<lambda>(r, s). (case r of Inr report \<Rightarrow> (report, 0) | Inl x \<Rightarrow> (failure_report p x (the_roots s), 1), s))
       (tool_bind (tool_io (register_root (pf_paths p) (va_fresh_root args) ''<fresh-root>'')) (\<lambda>_. verify p args)
          (Some [], e))"

definition main :: "'e platform \<Rightarrow> verify_args \<Rightarrow> 'e \<Rightarrow> (int \<times> 'e) option" where
  "main p args e =
     map_option (\<lambda>((report, status), s).
       case write_report p (va_output args) report (the_roots s) (snd s) of
         (Inr _, e') \<Rightarrow> (status, e')
       | (Inl x, e') \<Rightarrow> (1, mw_print_error (pf_world p) (canonical_json_bytes (failure_report p x (the_roots s)) @ [10]) e'))
       (main_report p args e)"

end
