(* ===== verification/Comparison_Spec.thy ===== *)
theory Comparison_Spec
  imports Comparison_Correct
begin

text \<open>
  When a pair of artifacts is equivalent, stated on the atoms, axes, symbols and provenance
  themselves, without the dictionaries, change records and key objects that
  \<open>tools/abi_artifact_parity.py\<close> computes on the way; and that the verdict is this relation.
\<close>

section \<open>Atoms\<close>

text \<open>The atom a locator names: of several atoms with one locator, the last.\<close>

definition named :: "byte_atom list \<Rightarrow> string \<Rightarrow> byte_atom option" where
  "named atoms k = find (\<lambda>a. a_locator a = k) (rev atoms)"

text \<open>
  A dependency is a locator, or the ending of locators; it accounts for a change when an atom of that
  locator, or an allowed payload whose locator ends so, has different bytes on the two sides.
\<close>

definition base_changed :: "byte_atom list \<Rightarrow> byte_atom list \<Rightarrow> string \<Rightarrow> bool" where
  "base_changed xs ys d \<longleftrightarrow> (\<exists>k a b. named xs k = Some a \<and> named ys k = Some b \<and> a_payload a \<noteq> a_payload b
     \<and> (k = d \<or> a_role a = Allowed_Payload \<and> (\<exists>prefix. k = prefix @ d)))"

definition justified :: "byte_atom list \<Rightarrow> byte_atom list \<Rightarrow> byte_atom \<Rightarrow> byte_atom \<Rightarrow> bool" where
  "justified xs ys a b \<longleftrightarrow> a_canonical_payload a = a_canonical_payload b
     \<and> (a_payload a = a_payload b \<or> (\<exists>d \<in> set (a_depends_on a). base_changed xs ys d))"

definition same_atoms :: "byte_atom list \<Rightarrow> byte_atom list \<Rightarrow> bool" where
  "same_atoms xs ys \<longleftrightarrow> (\<forall>k. case (named xs k, named ys k) of
     (None, None) \<Rightarrow> True
   | (Some a, Some b) \<Rightarrow> a_role a = a_role b \<and> a_depends_on a = a_depends_on b
       \<and> (if a_role a = Invariant then a_payload a = a_payload b
          else if a_role a = Allowed_Payload then True else justified xs ys a b)
   | _ \<Rightarrow> False)"

lemma named_atom_dict: "map_of (atom_dict atoms) k = named atoms k"
proof -
  have "map_of (map (\<lambda>a. (a_locator a, a)) xs) k = find (\<lambda>a. a_locator a = k) xs" for xs
    by (induction xs) auto
  then show ?thesis by (simp add: map_of_atom_dict named_def)
qed

lemma dependency_changed_base:
  "dependency_changed (atom_dict xs) (atom_dict ys) d \<longleftrightarrow> base_changed xs ys d"
  unfolding dependency_changed_iff[OF distinct_atom_dict] payload_differs_def named_atom_dict base_changed_def
    ends_with_iff
  by (auto split: option.splits) blast+

lemma valid_change_justified: "valid_change (atom_dict xs) (atom_dict ys) a b \<longleftrightarrow> justified xs ys a b"
  by (auto simp: valid_change_def changed_dependencies_def justified_def dependency_changed_base filter_empty_conv)

lemma atoms_agree_same: "atoms_agree (atom_dict xs) (atom_dict ys) \<longleftrightarrow> same_atoms xs ys"
  unfolding atoms_agree_def same_atoms_def named_atom_dict atoms_match_def valid_change_justified
  by (intro arg_cong[of _ _ All] ext) (auto split: option.splits atom_role.splits)

section \<open>Axes\<close>

text \<open>The entries that count: those of positions, sizes, indices and hashes are proven elsewhere.\<close>

definition shown :: "(string \<times> json) list \<Rightarrow> (string \<times> json) list" where
  "shown d = filter (\<lambda>p. fst p \<notin> {''uuid'', ''code_directory'', ''symoff'', ''stroff'', ''strsize'', ''dataoff'',
     ''datasize'', ''addr'', ''fileoff'', ''filesize'', ''vmsize'', ''reloff'', ''member_offset'', ''header_offset'',
     ''data_offset'', ''stored_size'', ''object_sha256'', ''index'', ''ranges'', ''fields'', ''size''}) d"

text \<open>Directories of debug information may lie at other paths and offsets, with other sizes.\<close>

definition same_directory :: "json \<Rightarrow> json \<Rightarrow> bool" where
  "same_directory a b \<longleftrightarrow> (case (a, b) of
     (JObj d, JObj e) \<Rightarrow> json_eq (JObj (filter (\<lambda>p. fst p \<notin> {''path'', ''offset'', ''size''}) d))
       (JObj (filter (\<lambda>p. fst p \<notin> {''path'', ''offset'', ''size''}) e))
   | _ \<Rightarrow> False)"

definition elements :: "json \<Rightarrow> json list" where
  "elements v = (case v of JList xs \<Rightarrow> xs | _ \<Rightarrow> [])"

function same_axes :: "json \<Rightarrow> json \<Rightarrow> bool" where
  "same_axes (JList xs) y = (case y of JList ys \<Rightarrow> list_all2 same_axes xs ys | _ \<Rightarrow> False)"
| "same_axes (JObj d) y = (case y of
     JObj e \<Rightarrow> length (shown d) = length (shown e)
       \<and> list_all (\<lambda>p. case map_of (shown e) (fst p) of
            None \<Rightarrow> False
          | Some w \<Rightarrow> if fst p = ''dwarf_directories'' then list_all2 same_directory (elements (snd p)) (elements w)
              else same_axes (snd p) w) (shown d)
   | _ \<Rightarrow> False)"
| "same_axes JNull y = json_eq JNull y"
| "same_axes (JBool b) y = json_eq (JBool b) y"
| "same_axes (JInt i) y = json_eq (JInt i) y"
| "same_axes (JStr s) y = json_eq (JStr s) y"
  by pat_completeness auto

termination
proof (relation "measure (\<lambda>(x, y). size x)", goal_cases)
  case (2 xs y ys z za)
  then show ?case by (simp add: less_Suc_eq_le size_list_estimation')
next
  case (3 d y e p w)
  obtain a b where p: "p = (a, b)" by (cases p)
  have "p \<in> set d" using 3 by (simp add: shown_def)
  then have "size b \<le> size_list (size_prod (\<lambda>_. 0) size) d"
    by (intro size_list_estimation'[of p]) (use p in auto)
  then show ?case using p by (simp add: less_Suc_eq_le)
qed simp

declare same_axes.simps(2) [simp del]

lemma shown_proven: "shown d = filter (\<lambda>p. fst p \<notin> set proven_keys) d"
  by (simp add: shown_def proven_keys_def)

lemma stable_directory_eq:
  assumes "stable_directory x = Inr a" "stable_directory y = Inr b"
  shows "json_eq a b \<longleftrightarrow> same_directory x y"
  using assms by (auto simp: stable_directory_def same_directory_def split: json.splits)

lemma stable_directories_elements:
  "stable_directories v = Inr a \<Longrightarrow> \<exists>es. a = JList es \<and> list_all2 (\<lambda>x y. stable_directory x = Inr y) (elements v) es"
  by (cases v) (auto simp: stable_directories_def elements_def bind_r_eq_Inr map_r_eq_Inr split: if_splits)

lemma list_all2_transfer:
  assumes "list_all2 (\<lambda>x a. f x = Inr a) xs as" "list_all2 (\<lambda>y b. g y = Inr b) ys bs"
    and "\<And>x a y b. x \<in> set xs \<Longrightarrow> f x = Inr a \<Longrightarrow> g y = Inr b \<Longrightarrow> P a b \<longleftrightarrow> Q x y"
  shows "list_all2 P as bs \<longleftrightarrow> list_all2 Q xs ys"
  using assms
proof (induction xs arbitrary: as ys bs)
  case Nil
  then show ?case by (cases ys) auto
next
  case (Cons x xs)
  then obtain a as' where a: "as = a # as'" "f x = Inr a" "list_all2 (\<lambda>x a. f x = Inr a) xs as'"
    by (auto simp: list_all2_Cons1)
  show ?case
  proof (cases ys)
    case Nil
    then show ?thesis using Cons.prems(2) a by simp
  next
    case (Cons y ys')
    then obtain b bs' where b: "bs = b # bs'" "g y = Inr b" "list_all2 (\<lambda>y b. g y = Inr b) ys' bs'"
      using Cons.prems(2) by (auto simp: list_all2_Cons1)
    have "list_all2 P as' bs' \<longleftrightarrow> list_all2 Q xs ys'"
      by (rule Cons.IH[OF a(3) b(3)]) (use Cons.prems(3) in simp)
    moreover have "P a b \<longleftrightarrow> Q x y" using Cons.prems(3)[OF _ a(2) b(2)] by simp
    ultimately show ?thesis by (simp add: a b Cons)
  qed
qed

lemma stable_directories_eq:
  assumes "stable_directories v = Inr a" "stable_directories w = Inr b"
  shows "json_eq a b \<longleftrightarrow> list_all2 same_directory (elements v) (elements w)"
proof -
  obtain es fs where e: "a = JList es" "list_all2 (\<lambda>x y. stable_directory x = Inr y) (elements v) es"
    "b = JList fs" "list_all2 (\<lambda>x y. stable_directory x = Inr y) (elements w) fs"
    using assms stable_directories_elements by blast
  then show ?thesis using list_all2_transfer[OF e(2,4) stable_directory_eq] by simp
qed

text \<open>Entries that keep their keys can be looked up pointwise.\<close>

lemma map_of_pointwise:
  assumes "list_all2 (\<lambda>p q. fst q = fst p \<and> h p = Inr (snd q)) d e"
  shows "case map_of d k of None \<Rightarrow> map_of e k = None
    | Some w \<Rightarrow> \<exists>v. map_of e k = Some v \<and> h (k, w) = Inr v \<and> (k, w) \<in> set d"
  using assms
proof (induction d arbitrary: e)
  case (Cons p d)
  then obtain q e' where q: "e = q # e'" "fst q = fst p" "h p = Inr (snd q)"
    "list_all2 (\<lambda>p q. fst q = fst p \<and> h p = Inr (snd q)) d e'"
    by (auto simp: list_all2_Cons1)
  show ?case using Cons.IH[OF q(4)] q(1-3) by (cases p; cases q) (auto split: option.splits)
qed simp

lemma list_all_transfer:
  assumes "list_all2 R xs ys" "\<And>x y. x \<in> set xs \<Longrightarrow> R x y \<Longrightarrow> Q y \<longleftrightarrow> P x"
  shows "list_all Q ys \<longleftrightarrow> list_all P xs"
  using assms
proof (induction xs arbitrary: ys)
  case (Cons x xs)
  then obtain y ys' where y: "ys = y # ys'" "R x y" "list_all2 R xs ys'" by (auto simp: list_all2_Cons1)
  have "list_all Q ys' \<longleftrightarrow> list_all P xs" by (rule Cons.IH[OF y(3)]) (use Cons.prems(2) in simp)
  then show ?case using Cons.prems(2)[OF _ y(2)] y(1) by simp
qed simp

abbreviation axis_value :: "string \<times> json \<Rightarrow> json res" where
  "axis_value p \<equiv> (if fst p = ''dwarf_directories'' then stable_directories (snd p) else normalized_axes (snd p))"

lemma normalized_object:
  "normalized_axes (JObj d) = Inr a \<longleftrightarrow>
     (\<exists>e. a = JObj e \<and> list_all2 (\<lambda>p q. fst q = fst p \<and> axis_value p = Inr (snd q)) (shown d) e)"
proof -
  have "bind_r (axis_value p) (\<lambda>v. Inr (fst p, v)) = Inr q \<longleftrightarrow> fst q = fst p \<and> axis_value p = Inr (snd q)" for p q
    by (cases q) (auto simp: bind_r_eq_Inr)
  then show ?thesis unfolding normalized_axes.simps(2) bind_r_eq_Inr map_r_eq_Inr shown_proven by auto
qed

lemma normalized_shape:
  "normalized_axes y = Inr b \<Longrightarrow> (case y of
     JList ys \<Rightarrow> \<exists>bs. b = JList bs \<and> list_all2 (\<lambda>y b. normalized_axes y = Inr b) ys bs
   | JObj e \<Rightarrow> \<exists>f. b = JObj f \<and> list_all2 (\<lambda>p q. fst q = fst p \<and> axis_value p = Inr (snd q)) (shown e) f
   | _ \<Rightarrow> b = y)"
  by (cases y) (auto simp: normalized_object normalized_axes.simps(1,3-6) bind_r_eq_Inr map_r_eq_Inr)

lemma normalized_scalar:
  assumes "normalized_axes y = Inr b"
  shows "json_eq JNull b = json_eq JNull y" "json_eq (JBool c) b = json_eq (JBool c) y"
    "json_eq (JInt i) b = json_eq (JInt i) y" "json_eq (JStr s) b = json_eq (JStr s) y"
  using normalized_shape[OF assms] by (cases y; auto)+

lemma normalized_axes_eq:
  "normalized_axes x = Inr a \<Longrightarrow> normalized_axes y = Inr b \<Longrightarrow> json_eq a b \<longleftrightarrow> same_axes x y"
proof (induction x arbitrary: a y b rule: normalized_axes.induct)
  case (1 xs)
  obtain as where as: "a = JList as" "list_all2 (\<lambda>x a. normalized_axes x = Inr a) xs as"
    using normalized_shape[OF "1.prems"(1)] by auto
  show ?case
  proof (cases y)
    case (JList ys)
    then obtain bs where bs: "b = JList bs" "list_all2 (\<lambda>y b. normalized_axes y = Inr b) ys bs"
      using normalized_shape[OF "1.prems"(2)] by auto
    show ?thesis using list_all2_transfer[OF as(2) bs(2) "1.IH"] by (simp add: as bs JList)
  qed (use normalized_shape[OF "1.prems"(2)] as in auto)
next
  case (2 d)
  obtain e where e: "a = JObj e" "list_all2 (\<lambda>p q. fst q = fst p \<and> axis_value p = Inr (snd q)) (shown d) e"
    using normalized_shape[OF "2.prems"(1)] by auto
  show ?case
  proof (cases y)
    case (JObj f)
    then obtain g where g: "b = JObj g" "list_all2 (\<lambda>p q. fst q = fst p \<and> axis_value p = Inr (snd q)) (shown f) g"
      using normalized_shape[OF "2.prems"(2)] by auto
    let ?Q = "\<lambda>q. case map_of g (fst q) of Some w \<Rightarrow> json_eq (snd q) w | None \<Rightarrow> False"
    let ?P = "\<lambda>p. case map_of (shown f) (fst p) of None \<Rightarrow> False
      | Some w \<Rightarrow> if fst p = ''dwarf_directories'' then list_all2 same_directory (elements (snd p)) (elements w)
          else same_axes (snd p) w"
    have "?Q q \<longleftrightarrow> ?P p" if p: "p \<in> set (shown d)" and q: "fst q = fst p \<and> axis_value p = Inr (snd q)" for p q
    proof (cases "map_of (shown f) (fst p)")
      case None
      then show ?thesis using map_of_pointwise[OF g(2), of "fst p"] q by simp
    next
      case (Some w)
      then obtain v where v: "map_of g (fst p) = Some v" "axis_value (fst p, w) = Inr v"
        using map_of_pointwise[OF g(2), of "fst p"] by auto
      show ?thesis
      proof (cases "fst p = ''dwarf_directories''")
        case True
        then show ?thesis using v q Some stable_directories_eq[of "snd p" "snd q" w v] by simp
      next
        case False
        have "json_eq (snd q) v \<longleftrightarrow> same_axes (snd p) w"
          by (rule "2.IH"[OF p[unfolded shown_proven] False]) (use v q False in simp_all)
        then show ?thesis using v q Some False by simp
      qed
    qed
    then have "list_all ?Q e \<longleftrightarrow> list_all ?P (shown d)" by (rule list_all_transfer[OF e(2)])
    moreover have "length e = length (shown d)" "length g = length (shown f)"
      using e(2) g(2) by (simp_all add: list_all2_lengthD)
    ultimately show ?thesis by (simp add: e(1) g(1) JObj same_axes.simps(2))
  qed (use normalized_shape[OF "2.prems"(2)] e in \<open>auto simp: same_axes.simps(2)\<close>)
qed (auto simp only: normalized_axes.simps(3-6) sum.inject same_axes.simps(3-6) normalized_scalar)

section \<open>Symbols, digests and provenance\<close>

text \<open>The digest in the cache path of an object file (\<open>N_OSO\<close>, type 0x66) does not count.\<close>

definition shown_name :: "symbol_record \<Rightarrow> string" where
  "shown_name s = (if sym_type_code s = 0x66
     then case cache_object_match (bytes_of_str (sym_name s)) of
            None \<Rightarrow> sym_name s
          | Some (digest, basename) \<Rightarrow> ''<local-cache>/o/<digest>/'' @ str_of_bytes basename
     else sym_name s)"

definition same_symbol :: "symbol_record \<Rightarrow> symbol_record \<Rightarrow> bool" where
  "same_symbol a b \<longleftrightarrow> shown_name a = shown_name b \<and> sym_base_type a = sym_base_type b
     \<and> sym_section a = sym_section b \<and> sym_external a = sym_external b
     \<and> sym_private_external a = sym_private_external b \<and> sym_stab a = sym_stab b \<and> sym_desc a = sym_desc b
     \<and> sym_type_code a = sym_type_code b"

lemma comparison_key_same:
  assumes "comparison_key a = Inr x" "comparison_key b = Inr y"
  shows "x = y \<longleftrightarrow> same_symbol a b"
proof -
  have "k_name x = shown_name a \<and> k_base_type x = sym_base_type a \<and> k_section x = sym_section a
      \<and> k_external x = sym_external a \<and> k_private_external x = sym_private_external a \<and> k_stab x = sym_stab a
      \<and> k_desc x = sym_desc a \<and> k_type_code x = sym_type_code a"
    if "comparison_key a = Inr x" for a x
    using that by (auto simp: comparison_key_def shown_name_def N_OSO_def bind_r_eq_Inr res_simps
        split: if_splits option.splits)
  from this[OF assms(1)] this[OF assms(2)] show ?thesis by (auto simp: same_symbol_def)
qed

text \<open>
  What the digest is taken of: for an invariant atom its bytes, for any other its locator, its
  dependencies and, where it has one, its canonical payload.
\<close>

definition digest_entry :: "byte_atom \<Rightarrow> json" where
  "digest_entry a =
     JObj ([(''locator'', JStr (a_locator a)), (''role'', JStr (role_name (a_role a)))]
       @ (if a_role a = Invariant
          then [(''payload_sha256'', JStr (sha256_bytes (a_payload a))), (''size'', JInt (a_size a))]
          else [(''canonical_token'', JStr (a_locator a)), (''depends_on'', JList (map JStr (a_depends_on a)))]
            @ (case a_canonical_payload a of None \<Rightarrow> []
               | Some c \<Rightarrow> [(''canonical_payload_hex'', JStr (hex_of_bytes c))])))"

definition atoms_digest :: "byte_atom list \<Rightarrow> string" where
  "atoms_digest atoms =
     sha256_bytes (bytes_of_str (json_dumps (JList (map digest_entry (sort_key a_locator atoms)))))"

lemma canonical_digest_atoms: "canonical_digest atoms = atoms_digest atoms"
proof -
  have "json_dumps (canonical_atom a) = json_dumps (digest_entry a)" for a
    by (cases "a_canonical_payload a") (auto simp: canonical_atom_def digest_entry_def obj_set_def)
  then show ?thesis
    by (simp add: canonical_digest_def canonicalize_atoms_def canonical_json_bytes_def atoms_digest_def comp_def)
qed

section \<open>Equivalent artifacts\<close>

definition equivalent_pair :: "parsed \<Rightarrow> parsed \<Rightarrow> bool" where
  "equivalent_pair left right \<longleftrightarrow> same_atoms (pa_atoms left) (pa_atoms right)
     \<and> same_axes (pa_axes left) (pa_axes right) \<and> list_all2 same_symbol (pa_symbols left) (pa_symbols right)
     \<and> atoms_digest (pa_atoms left) = atoms_digest (pa_atoms right)
     \<and> map (\<lambda>p. (pl_kind p, pl_expected_basename p)) (pa_provenance left)
         = map (\<lambda>p. (pl_kind p, pl_expected_basename p)) (pa_provenance right)"

lemma verdict_equivalent:
  assumes "compare_parsed printable kind left right = Inr c"
  shows "(cp_verdict c = ''pass'') = equivalent_pair left right"
proof -
  obtain x y sx where n: "normalized_axes (pa_axes left) = Inr x" "normalized_axes (pa_axes right) = Inr y"
    "symbol_axes_of printable (pa_symbols left) (pa_symbols right) = Inr sx"
    using assms unfolding compare_parsed_def Let_def by (auto simp: bind_r_eq_Inr)
  obtain ks ls where k: "map_r comparison_key (pa_symbols left) = Inr ks" "map_r comparison_key (pa_symbols right) = Inr ls"
    using n(3) by (auto simp: symbol_axes_of_def bind_r_eq_Inr)
  have "ks = ls \<longleftrightarrow> list_all2 same_symbol (pa_symbols left) (pa_symbols right)"
    using list_all2_transfer[OF k[unfolded map_r_eq_Inr], of "(=)" same_symbol] comparison_key_same
    by (simp add: list.rel_eq)
  then show ?thesis
    unfolding compare_parsed_verdict(1)[OF assms] pair_equivalent_def equivalent_pair_def
    by (simp add: n k atoms_agree_same normalized_axes_eq[OF n(1,2)] canonical_digest_atoms provenance_shape_def)
qed

text \<open>C4. The verdict is \<open>pass\<close> exactly when the pair is equivalent: the same locators name atoms of equal
  roles and dependencies; invariant atoms have equal bytes; every derived field has the same canonical
  payload, and if its own bytes changed, then so did those of an atom it depends on; the axes agree
  but for the listed positions, sizes and hashes; the symbols are the same in the same order but for
  the digests in cache paths; the digests over the atoms and the kinds and basenames of the
  provenance are equal.  It is \<open>pass\<close> exactly when no failure is reported.\<close>

theorem verdict_characterised:
  "case compare_parsed printable kind left right of
     Inl e \<Rightarrow> comparison_stops e
   | Inr c \<Rightarrow> (cp_verdict c = ''pass'') = equivalent_pair left right
       \<and> (cp_verdict c = ''pass'') = (cp_failures c = [])"
  using verdict_equivalent compare_parsed_verdict(2) compare_parsed_Inl
  by (cases "compare_parsed printable kind left right") (simp_all del: not_Cons_self)

end
