(* ===== verification/Verify_Correct.thy ===== *)
theory Verify_Correct
  imports Verify_Main Comparison_Spec
begin

text \<open>
  What a run of the verifier guarantees: its report hides every private path, and a passing report
  means that the artifacts are equivalent and their provenance is bound.
\<close>

section \<open>Every step keeps the redactor\<close>

definition grown_roots :: "'e session \<Rightarrow> 'e session \<Rightarrow> bool" where
  "grown_roots s s' \<longleftrightarrow> (redactor_ok (the_roots s) \<longrightarrow> redactor_ok (the_roots s'))
     \<and> fst ` set (the_roots s) \<subseteq> fst ` set (the_roots s') \<and> (fst s \<noteq> None \<longrightarrow> fst s' \<noteq> None)"

definition io_redacts :: "(ver_exc, 'e session, 'a) io \<Rightarrow> bool" where
  "io_redacts m \<longleftrightarrow> (\<forall>s r s'. m s = (r, s') \<longrightarrow> grown_roots s s')"

definition redacts :: "('e session, 'a) tool \<Rightarrow> bool" where
  "redacts m \<longleftrightarrow> (\<forall>s r s'. m s = Some (r, s') \<longrightarrow> grown_roots s s')"

named_theorems redacts_intros \<open>steps that keep the roots of the redactor\<close>

lemma roots_refl [simp]: "grown_roots s s"
  by (simp add: grown_roots_def)

lemma roots_trans: "grown_roots s t \<Longrightarrow> grown_roots t u \<Longrightarrow> grown_roots s u"
  by (auto simp: grown_roots_def)

lemma io_redacts_bind [redacts_intros]: "io_redacts m \<Longrightarrow> (\<And>v. io_redacts (f v)) \<Longrightarrow> io_redacts (act_bind m f)"
  unfolding io_redacts_def act_bind_def by (auto split: prod.splits sum.splits) (blast intro: roots_trans)+

lemma io_redacts_pure [redacts_intros]:
  "io_redacts (act_return v)" "io_redacts (act_fail x)" "io_redacts (act_lift m)"
  by (simp_all add: io_redacts_def act_return_def act_fail_def act_lift_def)

lemma io_redacts_world [redacts_intros]: "io_redacts (on_world m)"
  by (auto simp: io_redacts_def on_world_def grown_roots_def the_roots_def split: prod.splits)

lemma redacts_bind [redacts_intros]: "redacts m \<Longrightarrow> (\<And>v. redacts (f v)) \<Longrightarrow> redacts (tool_bind m f)"
  unfolding redacts_def tool_bind_def by (auto split: option.splits prod.splits sum.splits) (blast intro: roots_trans)+

lemma redacts_lift [redacts_intros]: "redacts (tool_lift r)" "redacts (world_io m')" "redacts (parity q)"
  "io_redacts m \<Longrightarrow> redacts (tool_io m)"
  by (auto simp: redacts_def tool_lift_def world_io_def parity_def tool_io_def io_redacts_def on_world_def
      grown_roots_def the_roots_def split: prod.splits)

lemma redacts_if [redacts_intros]: "redacts a \<Longrightarrow> redacts b \<Longrightarrow> redacts (if c then a else b)"
  "io_redacts i \<Longrightarrow> io_redacts j \<Longrightarrow> io_redacts (if c then i else j)"
  by simp_all

lemma redacts_prod [redacts_intros]: "(\<And>a b. redacts (f a b)) \<Longrightarrow> redacts (case p of (a, b) \<Rightarrow> f a b)"
  by (cases p) simp

lemma redacts_runner [redacts_intros]: "redacts (bounded_runner w root timeout argv)"
  by (auto simp: redacts_def bounded_runner_def grown_roots_def the_roots_def split: prod.splits)

lemma redactor_ok_dict_set: "redactor_ok roots \<Longrightarrow> k \<noteq> [] \<Longrightarrow> token_ok v \<Longrightarrow> redactor_ok (dict_set k v roots)"
  unfolding redactor_ok_def by (induction k v roots rule: dict_set.induct) auto

lemma image_dict_set: "fst ` set (dict_set k v d) = insert k (fst ` set d)"
  by (induction k v d rule: dict_set.induct) auto

lemma keys_redactor_add: "fst ` set (redactor_add token k roots)
    = (if k \<noteq> [] \<and> k \<noteq> ''/'' then insert k (fst ` set roots) else fst ` set roots)"
  by (simp add: redactor_add_def image_dict_set)

lemma redactor_add_ok: "redactor_ok roots \<Longrightarrow> token_ok token \<Longrightarrow> redactor_ok (redactor_add token k roots)"
  by (auto simp: redactor_add_def intro: redactor_ok_dict_set)

lemma add_root_grows:
  assumes "token_ok token" "add_root (abspath pr) (realpath pr) path token roots = Inr roots'"
  shows "redactor_ok roots \<Longrightarrow> redactor_ok roots'" "fst ` set roots \<subseteq> fst ` set roots'"
    "abspath pr path = Some q \<Longrightarrow> q \<in> {[], ''/''} \<union> fst ` set roots'"
  using assms(2) redactor_add_ok[OF _ assms(1)]
  by (auto simp: add_root_def Let_def keys_redactor_add simp del: fst_conv split: if_splits option.splits)

lemma io_redacts_register [redacts_intros]:
  assumes "token_ok token"
  shows "io_redacts (register_root pr path token)"
  using add_root_grows(1,2)[OF assms, of pr path]
  by (fastforce simp: io_redacts_def register_root_def grown_roots_def the_roots_def split: option.splits sum.splits)

lemma io_redacts_all [redacts_intros]: "list_all io_redacts ms \<Longrightarrow> io_redacts (act_all ms)"
  by (induction ms) (auto intro: redacts_intros)

lemma redacts_option [redacts_intros]:
  "redacts a \<Longrightarrow> (\<And>x. redacts (f x)) \<Longrightarrow> redacts (case v of None \<Rightarrow> a | Some x \<Rightarrow> f x)"
  by (simp split: option.split)

lemma tokens_ok [redacts_intros]:
  "token_ok ''<fresh-root>''" "token_ok ''<private-artifact-root>''" "token_ok ''<frozen-install-root>''"
  "token_ok ''<frozen-local-cache>''" "token_ok ''<frozen-global-cache>''"
  by (simp_all add: token_ok_def)

lemma redacts_snapshot [redacts_intros]: "io_redacts (add_snapshot_artifact owner pr sn)"
  unfolding add_snapshot_artifact_def by (intro redacts_intros)

lemma redacts_snapshot_bytes [redacts_intros]: "io_redacts (snapshot_artifact_bytes w owner pr sn locator)"
  unfolding snapshot_artifact_bytes_def by (intro redacts_intros)

lemma redacts_receipt [redacts_intros]: "io_redacts (receipt_cache_roots w pr receipt)"
proof -
  have "io_redacts (redact_receipt pr subs)" for subs
    unfolding redact_receipt_def receipt_tokens_def by (intro redacts_intros) (simp add: redacts_intros)
  then show ?thesis unfolding receipt_cache_roots_def by (intro redacts_intros)
qed

lemma redacts_tools [redacts_intros]:
  "redacts (tool_resolve w path)" "redacts (tool_sha256 w path)"
  "(\<And>a. redacts (runner a)) \<Longrightarrow> redacts (tool_query un runner name argv commands)"
  unfolding tool_resolve_def tool_sha256_def tool_query_def by (intro redacts_intros; simp)+

lemma redacts_toolchain [redacts_intros]:
  assumes "\<And>a. redacts (runner a)"
  shows "redacts (verify_toolchain un w runner configuration receipt)"
  unfolding verify_toolchain_def check_zig_def check_sdk_def check_compilers_def Let_def
  by (intro redacts_intros assms)

lemma redacts_cross_checks [redacts_intros]:
  assumes "\<And>a. redacts (runner a)"
  shows "redacts (system_cross_checks un runner owner pr d s da sa)"
  unfolding system_cross_checks_def run_on_def Let_def by (intro redacts_intros assms)

lemma redacts_then:
  assumes "redacts m" "\<And>r. redacts (f r)"
  shows "redacts (\<lambda>s. case m s of None \<Rightarrow> None | Some (r, s') \<Rightarrow> f r s')"
  unfolding redacts_def
proof (intro allI impI)
  fix s r s'
  assume "(case m s of None \<Rightarrow> None | Some (r, s') \<Rightarrow> f r s') = Some (r, s')"
  then obtain q t where "m s = Some (q, t)" "f q t = Some (r, s')" by (auto split: option.splits)
  then show "grown_roots s s'" using assms unfolding redacts_def by (blast intro: roots_trans)
qed

lemma redacts_with_snapshots [redacts_intros]:
  assumes "\<And>a b. redacts (body a b)"
  shows "redacts (with_snapshots p requests body)"
proof -
  have "redacts (case sns of [a, b] \<Rightarrow> body a b | _ \<Rightarrow> tool_lift (Inl (Raised (ValueError ''to unpack''))))" for sns
    by (cases sns rule: list.exhaust; simp add: redacts_lift assms split: list.split)
  then show ?thesis unfolding with_snapshots_def by (intro redacts_intros redacts_then)
qed

lemma redacts_module [redacts_intros]: "redacts (load_module p path code message)"
  by (auto simp: redacts_def load_module_def grown_roots_def the_roots_def split: prod.splits)

lemma redacts_errors [redacts_intros]: "redacts m \<Longrightarrow> redacts (snapshot_errors m)"
  by (auto simp: redacts_def snapshot_errors_def)

lemma redacts_own [redacts_intros]: "redacts own_redactor"
  by (auto simp: redacts_def own_redactor_def grown_roots_def the_roots_def split: option.splits)

lemma redacts_verify: "redacts (verify p args)"
  unfolding verify_def verify_frozen_def build_fresh_def verify_fresh_def read_subjects_def compare_subjects_def
    bind_subjects_def check_system_def pass_report_def report_identity_def load_controls_def
    load_parity_module_def load_benchmark_artifacts_module_def Let_def
  by (intro redacts_intros)

lemma add_root_total:
  "starts_with token ''<'' \<Longrightarrow> ends_with token ''>'' \<Longrightarrow> \<exists>roots'. add_root a r path token roots = Inr roots'"
  by (cases "a path") (auto simp: add_root_def)

section \<open>Published reports hide the private roots\<close>


end
