(* ===== verification/Verify_Accepted.thy ===== *)
theory Verify_Accepted
  imports Verify_Correct
begin

text \<open>
  What a passing run of the verifier has established: the stages of the run, with the states between
  them, and what each must have seen.  Files are described by what was read (\<open>reads_file\<close>), the build
  by the process that ran, pairs by \<open>equivalent_pair\<close>, provenance by \<open>provenance_bound\<close>.
\<close>

section \<open>The stages of a run\<close>

text \<open>A document was read and decoded.\<close>

definition document_read :: "'e platform \<Rightarrow> string \<Rightarrow> 'e \<Rightarrow> json \<Rightarrow> bytes \<Rightarrow> 'e \<Rightarrow> bool" where
  "document_read p path e document raw e' \<longleftrightarrow>
     (\<exists>m. reads_file (pf_world p) path e raw m e') \<and> pf_loads p raw = Loaded document"

definition controls_read :: "'e platform \<Rightarrow> verify_args \<Rightarrow> 'e \<Rightarrow> controls \<Rightarrow> 'e \<Rightarrow> bool" where
  "controls_read p args e ct e' \<longleftrightarrow>
     (\<exists>policy e1 e2. document_read p (va_policy args) e policy (ct_policy_raw ct) e1
        \<and> document_read p (va_observation args) e1 (ct_observation ct) (ct_observation_raw ct) e2
        \<and> document_read p (va_receipt args) e2 (ct_receipt ct) (ct_receipt_raw ct) e'
        \<and> validate_control_documents policy (ct_observation ct) (ct_receipt ct) = Inr (ct_configuration ct))"

text \<open>The directory of a private copy was registered, in the session \<open>s'\<close> that follows.\<close>

definition registered :: "'e platform \<Rightarrow> snapshot \<Rightarrow> 'e session \<Rightarrow> 'e session \<Rightarrow> bool" where
  "registered p sn s s' \<longleftrightarrow> (\<exists>path. so_execution_path (pf_owner p) sn (snd s) = (Inr path, snd s')
     \<and> add_snapshot_artifact (pf_owner p) (pf_paths p) sn s = (Inr path, s'))"

text \<open>
  The build from \<open>s\<close> to \<open>s'\<close>: the frozen copies are the recorded ones, the fresh directories were made,
  the toolchain was verified, and then the command of the template ran in the repository and ended
  with status 0, in time, with its whole output, and was cleaned up after.
\<close>

definition built :: "'e platform \<Rightarrow> verify_args \<Rightarrow> string \<Rightarrow> controls \<Rightarrow> snapshot \<Rightarrow> snapshot \<Rightarrow> 'e session \<Rightarrow> build_state
    \<Rightarrow> 'e session \<Rightarrow> bool" where
  "built p args root ct frozen_dynamic frozen_static s bs s' \<longleftrightarrow>
     (\<exists>s1 s2 raw_dynamic e3 raw_static e4 e5 s6 template r.
        registered p frozen_dynamic s s1 \<and> registered p frozen_static s1 s2
        \<and> validate_frozen_artifact (pf_owner p) (abspath (pf_paths p)) frozen_dynamic ''dynamic'' (ct_observation ct)
            (ct_receipt ct) (snd s2) = (Inr raw_dynamic, e3)
        \<and> validate_frozen_artifact (pf_owner p) (abspath (pf_paths p)) frozen_static ''static'' (ct_observation ct)
            (ct_receipt ct) e3 = (Inr raw_static, e4)
        \<and> prepare_fresh_roots (pf_world p) (va_fresh_root args) e4 = (Inr (bs_fresh_roots bs), e5)
        \<and> json_get (ct_configuration ct) ''command_template'' = Inr (jstrs template) \<and> template_ok template
        \<and> verify_toolchain (pf_unicode p) (pf_world p) (bounded_runner (pf_world p) root (va_timeout args))
            (ct_configuration ct) (ct_receipt ct) (fst s2, e5) = Some (Inr (bs_toolchain bs), s6)
        \<and> run_bounded (pf_world p) (map (substitute_root (bs_fresh_roots bs)) template) root (va_timeout args)
            MAX_CAPTURE_BYTES (snd s6) = Some (Inr r, snd s') \<and> fst s' = fst s6
        \<and> cr_returncode r = Some 0 \<and> \<not> cr_timed_out r \<and> \<not> cr_truncated r \<and> cr_cleanup_failure r = None
        \<and> bs_fresh_roots bs = [(''<temporary-install-prefix>'', path_join (va_fresh_root args) ''install''),
            (''<isolated-local-cache>'', path_join (va_fresh_root args) ''local-cache''),
            (''<isolated-global-cache>'', path_join (va_fresh_root args) ''global-cache'')]
        \<and> bs_result bs = r \<and> bs_root bs = root \<and> bs_controls bs = ct \<and> bs_canonical_command bs = template
        \<and> bs_frozen_dynamic bs = frozen_dynamic \<and> bs_frozen_static bs = frozen_static
        \<and> bs_frozen_raw bs = JObj [(''dynamic'', raw_dynamic), (''static'', raw_static)])"

text \<open>The bytes of a private copy were read, and they are those that were captured.\<close>

definition snapshot_read :: "'e platform \<Rightarrow> snapshot \<Rightarrow> 'e session \<Rightarrow> bytes \<Rightarrow> 'e session \<Rightarrow> bool" where
  "snapshot_read p sn s data s' \<longleftrightarrow>
     (\<exists>path s1 m. add_snapshot_artifact (pf_owner p) (pf_paths p) sn s = (Inr path, s1)
        \<and> so_execution_path (pf_owner p) sn (snd s) = (Inr path, snd s1)
        \<and> reads_file (pf_world p) path (snd s1) data m (snd s') \<and> fst s' = fst s1)
     \<and> blen data = sn_size sn \<and> sha256_bytes data = sn_sha256 sn"

text \<open>The four artifacts are what the parser makes of these bytes, and well-formed.\<close>

definition subjects_parsed :: "'e platform \<Rightarrow> bytes \<Rightarrow> bytes \<Rightarrow> bytes \<Rightarrow> bytes \<Rightarrow> subjects \<Rightarrow> bool" where
  "subjects_parsed p fd fs nd ns su \<longleftrightarrow>
     parse_dynamic_artifact (pf_files p) (Buffer fd) (Some ''frozen-dynamic'') = Inr (su_frozen_dynamic su)
   \<and> parse_static_archive (pf_files p) (Buffer fs) (Some ''frozen-static'') = Inr (su_frozen_static su)
   \<and> parse_dynamic_artifact (pf_files p) (Buffer nd) (Some ''fresh-dynamic'') = Inr (su_fresh_dynamic su)
   \<and> parse_static_archive (pf_files p) (Buffer ns) (Some ''fresh-static'') = Inr (su_fresh_static su)
   \<and> (\<exists>w. dylib_ok fd (su_frozen_dynamic su) w) \<and> archive_ok fs (su_frozen_static su)
   \<and> (\<exists>w. dylib_ok nd (su_fresh_dynamic su) w) \<and> archive_ok ns (su_fresh_static su)"

definition file_record :: "snapshot \<Rightarrow> json" where
  "file_record sn = JObj [(''size'', JInt (sn_size sn)), (''sha256'', JStr (sn_sha256 sn))]"

lemma snapshot_errors_Inr [act_simps]: "snapshot_errors m s = Some (Inr v, s') \<longleftrightarrow> m s = Some (Inr v, s')"
proof -
  have "map_sum f (\<lambda>v. v) r = Inr v \<longleftrightarrow> r = Inr v" for f :: "ver_exc \<Rightarrow> ver_exc" and r :: "'a ver"
    by (cases r) simp_all
  then show ?thesis by (auto simp: snapshot_errors_def)
qed

lemma world_io_Inr [act_simps]: "world_io m s = Some (Inr v, s') \<longleftrightarrow> fst s' = fst s \<and> m (snd s) = (Inr v, snd s')"
  by (simp add: world_io_def act_simps)

lemma parity_Inr [act_simps]: "parity r s = Some (Inr v, s') \<longleftrightarrow> r = Inr v \<and> s' = s"
  by (cases r) (auto simp: parity_def tool_lift_def)

lemma registered_Inr:
  assumes "add_snapshot_artifact (pf_owner p) (pf_paths p) sn s = (Inr path, s')"
  shows "registered p sn s s'" "so_execution_path (pf_owner p) sn (snd s) = (Inr path, snd s')"
proof -
  have world: "snd t = snd u" if "register_root pr q token u = (Inr (), t)" for pr q token and t u :: "'a session"
    using that by (cases u) (auto simp: register_root_def split: option.splits sum.splits)
  show "so_execution_path (pf_owner p) sn (snd s) = (Inr path, snd s')"
    using assms unfolding add_snapshot_artifact_def by (auto simp: act_simps dest: world)
  then show "registered p sn s s'" using assms unfolding registered_def by blast
qed

lemma load_json_Inr:
  assumes "load_json (pf_world p) (pf_loads p) (pf_text p) path locator e = (Inr (v, raw), e')"
  shows "document_read p path e v raw e'"
  using assms read_exact_Inr(1)[of "pf_world p" path MAX_JSON_BYTES locator e]
  by (auto simp: load_json_def document_read_def ver_fail_def split: prod.splits sum.splits load_answer.splits if_splits
      ver_exc.splits)

lemma load_controls_Inr:
  assumes "load_controls p args s = Some (Inr ct, s')"
  shows "controls_read p args (snd s) ct (snd s')" "fst s' = fst s"
proof -
  obtain policy e1 e2 c where "load_json (pf_world p) (pf_loads p) (pf_text p) (va_policy args) ''policy'' (snd s) = (Inr (policy, ct_policy_raw ct), e1)"
    "load_json (pf_world p) (pf_loads p) (pf_text p) (va_observation args) ''observation'' e1
       = (Inr (ct_observation ct, ct_observation_raw ct), e2)"
    "load_json (pf_world p) (pf_loads p) (pf_text p) (va_receipt args) ''receipt'' e2 = (Inr (ct_receipt ct, ct_receipt_raw ct), snd s')"
    "validate_control_documents policy (ct_observation ct) (ct_receipt ct) = Inr (ct_configuration ct)" "fst s' = fst s"
    using assms unfolding load_controls_def Let_def let_prod_pair by (auto simp: act_simps)
  then show "controls_read p args (snd s) ct (snd s')" "fst s' = fst s"
    using load_json_Inr[of p] unfolding controls_read_def by (blast, simp)
qed

lemma snapshot_read_Inr:
  assumes "snapshot_artifact_bytes (pf_world p) (pf_owner p) (pf_paths p) sn locator s = (Inr f, s')"
  shows "snapshot_read p sn s (ef_data f) s'" "file_identity f = file_record sn"
proof -
  obtain path s1 where r: "add_snapshot_artifact (pf_owner p) (pf_paths p) sn s = (Inr path, s1)"
    "read_exact_regular_file (pf_world p) path MAX_HASH_BYTES locator (snd s1) = (Inr f, snd s')" "fst s' = fst s1"
    "ef_size f = sn_size sn" "ef_sha256 f = sn_sha256 sn"
    using assms unfolding snapshot_artifact_bytes_def by (auto simp: act_simps)
  note f = read_exact_Inr[OF r(2)]
  show "snapshot_read p sn s (ef_data f) s'"
    unfolding snapshot_read_def using r f registered_Inr(2)[OF r(1)] by metis
  show "file_identity f = file_record sn" using r(4,5) by (simp add: file_identity_def file_record_def)
qed

lemma bounded_runner_Inr:
  "bounded_runner w root timeout argv s = Some (Inr r, s') \<longleftrightarrow>
     fst s' = fst s \<and> run_bounded w argv root timeout MAX_CAPTURE_BYTES (snd s) = Some (Inr r, snd s')"
  by (cases s; cases s') (auto simp: bounded_runner_def)

lemma build_fresh_Inr:
  assumes "build_fresh p args root ct fd fs s = Some (Inr bs, s')"
  shows "built p args root ct fd fs s bs s'"
proof -
  obtain x1 s1 x2 s2 raw_d e3 raw_s e4 roots e5 command template toolchain s6 r where b:
    "add_snapshot_artifact (pf_owner p) (pf_paths p) fd s = (Inr x1, s1)"
    "add_snapshot_artifact (pf_owner p) (pf_paths p) fs s1 = (Inr x2, s2)"
    "validate_frozen_artifact (pf_owner p) (abspath (pf_paths p)) fd ''dynamic'' (ct_observation ct) (ct_receipt ct) (snd s2)
       = (Inr raw_d, e3)"
    "validate_frozen_artifact (pf_owner p) (abspath (pf_paths p)) fs ''static'' (ct_observation ct) (ct_receipt ct) e3
       = (Inr raw_s, e4)"
    "prepare_fresh_roots (pf_world p) (va_fresh_root args) e4 = (Inr roots, e5)"
    "materialize_build_command (ct_configuration ct) roots = Inr (command, template)"
    "verify_toolchain (pf_unicode p) (pf_world p) (bounded_runner (pf_world p) root (va_timeout args))
       (ct_configuration ct) (ct_receipt ct) (fst s2, e5) = Some (Inr toolchain, s6)"
    "bounded_runner (pf_world p) root (va_timeout args) command s6 = Some (Inr r, s')"
    "require_command r ''fresh_build'' = Inr ()"
    and bs: "bs = \<lparr>bs_root = root, bs_controls = ct, bs_frozen_dynamic = fd, bs_frozen_static = fs,
        bs_frozen_raw = JObj [(''dynamic'', raw_d), (''static'', raw_s)], bs_fresh_roots = roots,
        bs_canonical_command = template, bs_toolchain = toolchain, bs_result = r\<rparr>"
    using assms unfolding build_fresh_def Let_def let_prod_pair
    by (clarsimp simp: act_simps)
  note m = b(6)[unfolded materialize_iff]
  have ok: "result_ok r" using b(9) require_command_ok by blast
  have roots: "roots = map (\<lambda>q. (fst q, path_join (va_fresh_root args) (snd q))) PLACEHOLDERS"
    by (rule prepare_fresh_roots_Inr(1)[OF b(5)])
  show ?thesis
    unfolding built_def
    by (rule exI[of _ s1], rule exI[of _ s2], rule exI[of _ raw_d], rule exI[of _ e3], rule exI[of _ raw_s], rule exI[of _ e4],
        rule exI[of _ e5], rule exI[of _ s6], rule exI[of _ template], rule exI[of _ r])
      (use b m ok roots registered_Inr(1)[OF b(1)] registered_Inr(1)[OF b(2)] b(8)[unfolded bounded_runner_Inr]
        in \<open>simp add: bs result_ok_def PLACEHOLDERS_def\<close>)
qed

lemma with_snapshots_Inr:
  assumes "with_snapshots p requests body s = Some (Inr v, s')"
  shows "\<exists>a b e1 s2. so_capture (pf_owner p) requests (snd s) = (Inr [a, b], e1) \<and> body a b (fst s, e1) = Some (Inr v, s2)"
proof -
  obtain sns s1 where c: "so_capture (pf_owner p) requests (snd s) = (Inr sns, snd s1)" "fst s1 = fst s"
    "(case (case sns of [a, b] \<Rightarrow> body a b | _ \<Rightarrow> tool_lift (Inl (Raised (ValueError ''to unpack'')))) s1 of
       None \<Rightarrow> None
     | Some (r, s') \<Rightarrow> tool_bind (tool_io (on_world (act_owner (so_close (pf_owner p) sns)))) (\<lambda>_. tool_lift r) s')
     = Some (Inr v, s')"
    using assms unfolding with_snapshots_def by (auto simp: act_simps)
  then obtain s2 where "(case sns of [a, b] \<Rightarrow> body a b | _ \<Rightarrow> tool_lift (Inl (Raised (ValueError ''to unpack'')))) s1
      = Some (Inr v, s2)"
    by (auto simp: act_simps split: option.splits)
  then obtain a b where "sns = [a, b]" "body a b s1 = Some (Inr v, s2)" by (auto simp: tool_lift_Inr split: list.splits)
  then show ?thesis using c(1,2) by (metis prod.collapse)
qed

lemma parsed_ok:
  "parse_dynamic_artifact fs (Buffer data) label = Inr a \<Longrightarrow> \<exists>w. dylib_ok data a w"
  "parse_static_archive fs (Buffer data) label = Inr c \<Longrightarrow> archive_ok data c"
  using obeys_parse_dynamic[of fs "Buffer data" label] obeys_static_archive[of fs "Buffer data" label]
  by (auto simp: obeys_def obeys_or_def source_bytes_def)

lemma read_subjects_Inr:
  assumes "read_subjects p bs nd ns s = Some (Inr su, s')"
  shows "\<exists>b1 b2 b3 b4 s1 s2 s3. snapshot_read p (bs_frozen_dynamic bs) s b1 s1
     \<and> snapshot_read p (bs_frozen_static bs) s1 b2 s2 \<and> snapshot_read p nd s2 b3 s3 \<and> snapshot_read p ns s3 b4 s'
     \<and> subjects_parsed p b1 b2 b3 b4 su"
    "su_fresh_raw su = JObj [(''dynamic'', file_record nd), (''static'', file_record ns)]"
proof -
  obtain f1 f2 f3 f4 s1 s2 s3 where r:
    "snapshot_artifact_bytes (pf_world p) (pf_owner p) (pf_paths p) (bs_frozen_dynamic bs) ''artifact.frozen.dynamic'' s = (Inr f1, s1)"
    "snapshot_artifact_bytes (pf_world p) (pf_owner p) (pf_paths p) (bs_frozen_static bs) ''artifact.frozen.static'' s1 = (Inr f2, s2)"
    "snapshot_artifact_bytes (pf_world p) (pf_owner p) (pf_paths p) nd ''artifact.fresh.dynamic'' s2 = (Inr f3, s3)"
    "snapshot_artifact_bytes (pf_world p) (pf_owner p) (pf_paths p) ns ''artifact.fresh.static'' s3 = (Inr f4, s')"
    "parse_dynamic_artifact (pf_files p) (Buffer (ef_data f1)) (Some ''frozen-dynamic'') = Inr (su_frozen_dynamic su)"
    "parse_static_archive (pf_files p) (Buffer (ef_data f2)) (Some ''frozen-static'') = Inr (su_frozen_static su)"
    "parse_dynamic_artifact (pf_files p) (Buffer (ef_data f3)) (Some ''fresh-dynamic'') = Inr (su_fresh_dynamic su)"
    "parse_static_archive (pf_files p) (Buffer (ef_data f4)) (Some ''fresh-static'') = Inr (su_fresh_static su)"
    "su_fresh_raw su = JObj [(''dynamic'', file_identity f3), (''static'', file_identity f4)]"
    using assms unfolding read_subjects_def Let_def by (auto simp: act_simps)
  have "subjects_parsed p (ef_data f1) (ef_data f2) (ef_data f3) (ef_data f4) su"
    unfolding subjects_parsed_def using r(5-8) parsed_ok by blast
  then show "\<exists>b1 b2 b3 b4 s1 s2 s3. snapshot_read p (bs_frozen_dynamic bs) s b1 s1
     \<and> snapshot_read p (bs_frozen_static bs) s1 b2 s2 \<and> snapshot_read p nd s2 b3 s3 \<and> snapshot_read p ns s3 b4 s'
     \<and> subjects_parsed p b1 b2 b3 b4 su"
    using snapshot_read_Inr(1)[OF r(1)] snapshot_read_Inr(1)[OF r(2)] snapshot_read_Inr(1)[OF r(3)]
      snapshot_read_Inr(1)[OF r(4)] by blast
  show "su_fresh_raw su = JObj [(''dynamic'', file_record nd), (''static'', file_record ns)]"
    using r(9) snapshot_read_Inr(2)[OF r(3)] snapshot_read_Inr(2)[OF r(4)] by simp
qed

lemma require_comparison_Inr: "require_comparison c locator = Inr () \<Longrightarrow> cp_verdict c = ''pass''"
  by (simp add: require_comparison_def ver_fail_def split: if_splits)

lemma compare_subjects_Inr:
  assumes "compare_subjects p su s = Some (Inr r, s')"
  shows "equivalent_pair (parsed_macho (su_frozen_dynamic su)) (parsed_macho (su_fresh_dynamic su))"
    "equivalent_pair (parsed_archive (su_frozen_static su)) (parsed_archive (su_fresh_static su))" "s' = s"
proof -
  obtain d c where "compare_dynamic_artifact_pair (pf_printable p) (pf_files p) (Given (su_frozen_dynamic su))
      (Given (su_fresh_dynamic su)) None None = Inr d"
    "compare_static_archive_pair (pf_printable p) (pf_files p) (Given (su_frozen_static su))
      (Given (su_fresh_static su)) None None = Inr c"
    "require_comparison d ''comparison.dynamic'' = Inr ()" "require_comparison c ''comparison.static'' = Inr ()" "s' = s"
    using assms unfolding compare_subjects_def by (auto simp: act_simps)
  moreover from this have
    "compare_parsed (pf_printable p) ''dynamic'' (parsed_macho (su_frozen_dynamic su)) (parsed_macho (su_fresh_dynamic su)) = Inr d"
    "compare_parsed (pf_printable p) ''static'' (parsed_archive (su_frozen_static su)) (parsed_archive (su_fresh_static su)) = Inr c"
    by (auto simp: compare_dynamic_artifact_pair_def compare_static_archive_pair_def macho_side_def archive_side_def
        plain_error_def split: if_splits)
  ultimately show "equivalent_pair (parsed_macho (su_frozen_dynamic su)) (parsed_macho (su_fresh_dynamic su))"
    "equivalent_pair (parsed_archive (su_frozen_static su)) (parsed_archive (su_fresh_static su))" "s' = s"
    using verdict_equivalent require_comparison_Inr by blast+
qed

section \<open>Provenance and symbols\<close>

text \<open>
  The provenance of both pairs, from \<open>s\<close> on: the frozen pair in the caches of the receipt's command, the
  fresh pair in the caches of this run, and both with the digests of the policy.
\<close>

definition provenance_checked :: "'e platform \<Rightarrow> verify_args \<Rightarrow> controls \<Rightarrow> subjects \<Rightarrow> 'e session \<Rightarrow> 'e session \<Rightarrow> bool" where
  "provenance_checked p args ct su s s' \<longleftrightarrow>
     (\<exists>inputs hashes dynamic_sha static_sha recorded local_cache global_cache s1 e1.
        json_item (ct_configuration ct) ''resolved_build_inputs'' = Inr inputs
        \<and> json_item inputs ''generated_builtin_zig_sha256'' = Inr hashes
        \<and> json_item hashes ''dynamic_library'' = Inr dynamic_sha \<and> json_item hashes ''static_library'' = Inr static_sha
        \<and> json_get (ct_receipt ct) ''resolved_build_inputs'' = Inr recorded
        \<and> receipt_cache_roots (pf_world p) (pf_paths p) (ct_receipt ct) s = (Inr (local_cache, global_cache), s1)
        \<and> provenance_bound (pf_world p) (mo_provenance (su_frozen_dynamic su)) (ar_provenance (su_frozen_static su))
            local_cache global_cache dynamic_sha static_sha (Some recorded) (snd s1) e1
        \<and> provenance_bound (pf_world p) (mo_provenance (su_fresh_dynamic su)) (ar_provenance (su_fresh_static su))
            (path_join (va_fresh_root args) ''local-cache'') (path_join (va_fresh_root args) ''global-cache'')
            dynamic_sha static_sha None e1 (snd s') \<and> fst s' = fst s1)"

lemma bind_subjects_Inr:
  assumes "bind_subjects p bs su s = Some (Inr r, s')"
    and "the (map_of (bs_fresh_roots bs) ''<isolated-local-cache>'') = path_join (va_fresh_root args) ''local-cache''"
    and "the (map_of (bs_fresh_roots bs) ''<isolated-global-cache>'') = path_join (va_fresh_root args) ''global-cache''"
  shows "provenance_checked p args (bs_controls bs) su s s'"
proof -
  obtain inputs hashes dsha ssha recorded lc gc s1 j1 e1 j2 where b:
    "json_item (ct_configuration (bs_controls bs)) ''resolved_build_inputs'' = Inr inputs"
    "json_item inputs ''generated_builtin_zig_sha256'' = Inr hashes"
    "receipt_cache_roots (pf_world p) (pf_paths p) (ct_receipt (bs_controls bs)) s = (Inr (lc, gc), s1)"
    "json_get (ct_receipt (bs_controls bs)) ''resolved_build_inputs'' = Inr recorded"
    "json_item hashes ''dynamic_library'' = Inr dsha" "json_item hashes ''static_library'' = Inr ssha"
    "bind_artifact_provenance (pf_world p) (mo_provenance (su_frozen_dynamic su)) (ar_provenance (su_frozen_static su))
       lc gc dsha ssha ''frozen'' (Some recorded) (snd s1) = (Inr j1, e1)"
    "bind_artifact_provenance (pf_world p) (mo_provenance (su_fresh_dynamic su)) (ar_provenance (su_fresh_static su))
       (path_join (va_fresh_root args) ''local-cache'') (path_join (va_fresh_root args) ''global-cache'')
       dsha ssha ''fresh'' None e1 = (Inr j2, snd s')" "fst s' = fst s1"
    using assms(1) unfolding bind_subjects_def Let_def let_prod_pair assms(2,3) by (auto simp: act_simps)
  show ?thesis
    unfolding provenance_checked_def
    using b(1-6,9) bind_artifact_provenance_Inr[OF b(7)] bind_artifact_provenance_Inr[OF b(8)] by blast
qed

lemma compare_symbol_axes_Inr: "compare_symbol_axes a b = Inr j \<Longrightarrow> a = b"
  by (cases a; cases b)
    (auto simp: compare_symbol_axes_def axis_lists_def compare_axis_step_ok ver_fail_def split: if_splits)

text \<open>Every public name is defined by a visible symbol.\<close>

definition all_defined :: "string list \<Rightarrow> symbol_record list \<Rightarrow> bool" where
  "all_defined public records \<longleftrightarrow> set public \<subseteq> names_defined visible_definition records public"

lemma sorted_set_Nil [simp]: "sorted_set xs = [] \<longleftrightarrow> xs = []"
  by (metis set_sorted_set set_empty)

lemma account_for_Inr:
  assumes "account_for names (label, records) = Inr a"
  shows "all_defined (fst names) records" "set (ac_hidden_matched a) = names_defined private_definition records (snd names)"
proof -
  obtain q h where f: "fold (account_step (fst names) (snd names)) records ([], []) = (q, h)" by fastforce
  have n: "set q = names_defined visible_definition records (fst names)"
    "set h = names_defined private_definition records (snd names)"
    using account_steps[of "fst names" "snd names" records "([], [])"] by (simp_all add: f names_defined_def)
  have "filter (\<lambda>n. n \<notin> set q) (fst names) = []" "ac_hidden_matched a = sorted_set h"
    using assms by (auto simp: account_for_def source_accounting_def f ver_fail_def split: if_splits)
  then show "all_defined (fst names) records"
    "set (ac_hidden_matched a) = names_defined private_definition records (snd names)"
    using n by (auto simp: all_defined_def filter_empty_conv)
qed

text \<open>What the axes compare of the symbols of one kind, in order.\<close>

definition symbols_of_kind :: "(symbol_record \<Rightarrow> bool) \<Rightarrow> symbol_record list \<Rightarrow> (string \<times> string \<times> int \<times> bool \<times> int) list" where
  "symbols_of_kind kind records =
     map (\<lambda>s. (sym_name s, sym_base_type s, sym_section s, sym_private_external s, sym_type_code s))
       (filter (\<lambda>s. sym_stab s = 0 \<and> kind s) records)"

definition same_axis :: "symbol_record list \<Rightarrow> symbol_record list \<Rightarrow> bool" where
  "same_axis xs ys \<longleftrightarrow>
     (let imported = (\<lambda>s. sym_external s \<and> sym_base_type s \<in> {''undefined'', ''prebound-undefined''}) in
      symbols_of_kind imported xs = symbols_of_kind imported ys
      \<and> symbols_of_kind (\<lambda>s. sym_external s \<and> \<not> imported s) xs = symbols_of_kind (\<lambda>s. sym_external s \<and> \<not> imported s) ys
      \<and> symbols_of_kind (\<lambda>s. \<not> sym_external s) xs = symbols_of_kind (\<lambda>s. \<not> sym_external s) ys)"

lemma symbol_axis_filters:
  "external_undefined (fold axis_step records m) = external_undefined m
       @ map axis_entry_of (filter (\<lambda>s. sym_stab s = 0 \<and> sym_external s \<and> undefined_type s) records)"
  "external_defined (fold axis_step records m) = external_defined m
       @ map axis_entry_of (filter (\<lambda>s. sym_stab s = 0 \<and> sym_external s \<and> \<not> undefined_type s) records)"
  "local_non_stabs (fold axis_step records m) = local_non_stabs m
       @ map axis_entry_of (filter (\<lambda>s. sym_stab s = 0 \<and> \<not> sym_external s) records)"
  by (induction records arbitrary: m) (auto simp: axis_step_def)

lemma symbol_axis_same: "symbol_axis xs = symbol_axis ys \<Longrightarrow> same_axis xs ys"
proof -
  assume e: "symbol_axis xs = symbol_axis ys"
  have entry: "map axis_entry_of us = map axis_entry_of vs \<Longrightarrow>
      map (\<lambda>s. (sym_name s, sym_base_type s, sym_section s, sym_private_external s, sym_type_code s)) us
    = map (\<lambda>s. (sym_name s, sym_base_type s, sym_section s, sym_private_external s, sym_type_code s)) vs" for us vs
    by (induction us vs rule: list_induct2') (auto simp: axis_entry_of_def)
  have "map axis_entry_of (filter (\<lambda>s. sym_stab s = 0 \<and> sym_external s \<and> undefined_type s) xs)
      = map axis_entry_of (filter (\<lambda>s. sym_stab s = 0 \<and> sym_external s \<and> undefined_type s) ys)"
    "map axis_entry_of (filter (\<lambda>s. sym_stab s = 0 \<and> sym_external s \<and> \<not> undefined_type s) xs)
      = map axis_entry_of (filter (\<lambda>s. sym_stab s = 0 \<and> sym_external s \<and> \<not> undefined_type s) ys)"
    "map axis_entry_of (filter (\<lambda>s. sym_stab s = 0 \<and> \<not> sym_external s) xs)
      = map axis_entry_of (filter (\<lambda>s. sym_stab s = 0 \<and> \<not> sym_external s) ys)"
    using arg_cong[OF e, of external_undefined] arg_cong[OF e, of external_defined] arg_cong[OF e, of local_non_stabs]
    by (simp_all add: symbol_axis_def symbol_axis_filters)
  note this[THEN entry]
  then show "same_axis xs ys"
    unfolding same_axis_def Let_def symbols_of_kind_def undefined_type_def by (simp cong: conj_cong)
qed

text \<open>Frozen and fresh symbols are alike, and every public declaration is defined in all four artifacts.\<close>

definition symbols_agree :: "json \<Rightarrow> subjects \<Rightarrow> bool" where
  "symbols_agree observation su \<longleftrightarrow>
     same_axis (mo_symbols (su_frozen_dynamic su)) (mo_symbols (su_fresh_dynamic su))
   \<and> same_axis (ar_symbols (su_frozen_static su)) (ar_symbols (su_fresh_static su))
   \<and> (\<exists>public hidden. source_names_from_observation observation = Inr (public, hidden)
       \<and> list_all (all_defined public) [mo_symbols (su_frozen_dynamic su), ar_symbols (su_frozen_static su),
            mo_symbols (su_fresh_dynamic su), ar_symbols (su_fresh_static su)]
       \<and> names_defined private_definition (mo_symbols (su_frozen_dynamic su)) hidden
           = names_defined private_definition (mo_symbols (su_fresh_dynamic su)) hidden
       \<and> names_defined private_definition (ar_symbols (su_frozen_static su)) hidden
           = names_defined private_definition (ar_symbols (su_fresh_static su)) hidden)"

lemma check_symbols_Inr:
  assumes "check_symbols observation su = Inr r"
  shows "symbols_agree observation su"
proof -
  obtain names j1 j2 a1 a2 a3 a4 where n: "source_names_from_observation observation = Inr names"
    and c: "compare_symbol_axes (symbol_axis (mo_symbols (su_frozen_dynamic su))) (symbol_axis (mo_symbols (su_fresh_dynamic su))) = Inr j1"
      "compare_symbol_axes (symbol_axis (ar_symbols (su_frozen_static su))) (symbol_axis (ar_symbols (su_fresh_static su))) = Inr j2"
    and a: "account_for names (''frozen_dynamic'', mo_symbols (su_frozen_dynamic su)) = Inr a1"
      "account_for names (''frozen_static'', ar_symbols (su_frozen_static su)) = Inr a2"
      "account_for names (''fresh_dynamic'', mo_symbols (su_fresh_dynamic su)) = Inr a3"
      "account_for names (''fresh_static'', ar_symbols (su_fresh_static su)) = Inr a4"
    and e: "same_accounting ''dynamic'' a1 a3 = Inr ()" "same_accounting ''static'' a2 a4 = Inr ()"
    using assms unfolding check_symbols_def Let_def by (auto simp: bind_r_eq_Inr)
  have "a1 = a3" "a2 = a4" using e by (auto simp: same_accounting_def ver_fail_def split: if_splits)
  then show ?thesis
    using n account_for_Inr[OF a(1)] account_for_Inr[OF a(2)] account_for_Inr[OF a(3)] account_for_Inr[OF a(4)]
      symbol_axis_same[OF compare_symbol_axes_Inr[OF c(1)]] symbol_axis_same[OF compare_symbol_axes_Inr[OF c(2)]]
    unfolding symbols_agree_def by (cases names) simp
qed

lemma check_system_Inr:
  assumes "check_system p args bs su nd ns s = Some (Inr r, s')"
  shows "tools_agree (pf_unicode p) (bounded_runner (pf_world p) (bs_root bs) (va_timeout args)) (pf_owner p) (bs_frozen_dynamic bs)
      (bs_frozen_static bs) (su_frozen_dynamic su) (su_frozen_static su)"
    "tools_agree (pf_unicode p) (bounded_runner (pf_world p) (bs_root bs) (va_timeout args)) (pf_owner p) nd ns
      (su_fresh_dynamic su) (su_fresh_static su)"
  using assms unfolding check_system_def Let_def tool_bind_Inr by (blast dest: cross_checks_Inr)+

section \<open>The report\<close>

text \<open>A passing report: its verdict, the sizes and digests of the four artifacts, and the status of the build.\<close>

definition reported :: "json \<Rightarrow> build_state \<Rightarrow> snapshot \<Rightarrow> snapshot \<Rightarrow> bool" where
  "reported report bs fresh_dynamic fresh_static \<longleftrightarrow>
     json_get report ''verdict'' = Inr (JStr ''pass'') \<and> json_get report ''failures'' = Inr (JList [])
   \<and> json_get report ''artifacts'' = Inr (JObj [(''frozen'', bs_frozen_raw bs),
       (''fresh'', JObj [(''dynamic'', file_record fresh_dynamic), (''static'', file_record fresh_static)])])
   \<and> (\<exists>build result. json_get report ''fresh_build'' = Inr build \<and> json_get build ''result'' = Inr result
       \<and> json_get result ''returncode'' = Inr (JInt 0))"

lemma pass_report_Inr:
  assumes "pass_report p bs su comparisons provenance symbols system s = Some (Inr report, s')"
    and "su_fresh_raw su = JObj [(''dynamic'', file_record nd), (''static'', file_record ns)]"
    and "cr_returncode (bs_result bs) = Some 0"
  shows "reported report bs nd ns"
  using assms unfolding pass_report_def reported_def
  by (auto simp: act_simps json_get_or_def closed_fields_def command_sanitized_def jopt_def)

section \<open>The whole run\<close>

text \<open>
  From the captured fresh artifacts on: their private copies and those of the frozen ones were read,
  parsed, compared pair by pair, bound to their provenance, checked for symbols and against the
  system tools, and reported.
\<close>

definition subjects_accepted :: "'e platform \<Rightarrow> verify_args \<Rightarrow> build_state \<Rightarrow> snapshot \<Rightarrow> snapshot \<Rightarrow> 'e session \<Rightarrow> json \<Rightarrow> bool" where
  "subjects_accepted p args bs fresh_dynamic fresh_static s report \<longleftrightarrow>
     (\<exists>s1 s2 b1 s3 b2 s4 b3 s5 b4 s6 su s7.
        registered p fresh_dynamic s s1 \<and> registered p fresh_static s1 s2
        \<and> snapshot_read p (bs_frozen_dynamic bs) s2 b1 s3 \<and> snapshot_read p (bs_frozen_static bs) s3 b2 s4
        \<and> snapshot_read p fresh_dynamic s4 b3 s5 \<and> snapshot_read p fresh_static s5 b4 s6
        \<and> subjects_parsed p b1 b2 b3 b4 su
        \<and> equivalent_pair (parsed_macho (su_frozen_dynamic su)) (parsed_macho (su_fresh_dynamic su))
        \<and> equivalent_pair (parsed_archive (su_frozen_static su)) (parsed_archive (su_fresh_static su))
        \<and> provenance_checked p args (bs_controls bs) su s6 s7
        \<and> symbols_agree (ct_observation (bs_controls bs)) su
        \<and> tools_agree (pf_unicode p) (bounded_runner (pf_world p) (bs_root bs) (va_timeout args)) (pf_owner p)
            (bs_frozen_dynamic bs) (bs_frozen_static bs) (su_frozen_dynamic su) (su_frozen_static su)
        \<and> tools_agree (pf_unicode p) (bounded_runner (pf_world p) (bs_root bs) (va_timeout args)) (pf_owner p)
            fresh_dynamic fresh_static (su_fresh_dynamic su) (su_fresh_static su)
        \<and> reported report bs fresh_dynamic fresh_static)"

text \<open>
  The run that starts in \<open>s\<close>: controls were read, the frozen artifacts captured, the fresh ones built
  and captured from the directory that was given, and all four accepted.
\<close>

definition accepted :: "'e platform \<Rightarrow> verify_args \<Rightarrow> 'e session \<Rightarrow> json \<Rightarrow> bool" where
  "accepted p args s report \<longleftrightarrow>
     (\<exists>s1 root s2 ct s3 s4 s5 frozen_dynamic frozen_static e6 bs s7 fresh_dynamic fresh_static e8.
        register_root (pf_paths p) (va_fresh_root args) ''<fresh-root>'' (Some (the_roots s), snd s) = (Inr (), s1)
        \<and> tool_resolve (pf_world p) (va_root args) s1 = Some (Inr root, s2)
        \<and> controls_read p args (snd s2) ct (snd s3) \<and> fst s3 = fst s2
        \<and> load_parity_module p root s3 = Some (Inr (), s4) \<and> load_benchmark_artifacts_module p root s4 = Some (Inr (), s5)
        \<and> so_capture (pf_owner p) [(''frozen-dynamic'', va_dynamic args), (''frozen-static'', va_static args)] (snd s5)
            = (Inr [frozen_dynamic, frozen_static], e6)
        \<and> built p args root ct frozen_dynamic frozen_static (fst s5, e6) bs s7
        \<and> so_capture (pf_owner p)
            [(''fresh-dynamic'', path_join (path_join (path_join (va_fresh_root args) ''install'') ''lib'') (path_name (va_dynamic args))),
             (''fresh-static'', path_join (path_join (path_join (va_fresh_root args) ''install'') ''lib'') (path_name (va_static args)))]
            (snd s7) = (Inr [fresh_dynamic, fresh_static], e8)
        \<and> subjects_accepted p args bs fresh_dynamic fresh_static (fst s7, e8) report)"

lemma verify_fresh_Inr:
  assumes "verify_fresh p args bs nd ns s = Some (Inr report, s')"
    and b: "built p args root ct fd fs t bs t'"
  shows "subjects_accepted p args bs nd ns s report"
proof -
  have cache: "the (map_of (bs_fresh_roots bs) ''<isolated-local-cache>'') = path_join (va_fresh_root args) ''local-cache''"
    "the (map_of (bs_fresh_roots bs) ''<isolated-global-cache>'') = path_join (va_fresh_root args) ''global-cache''"
    "cr_returncode (bs_result bs) = Some 0"
    using b by (auto simp: built_def)
  obtain x1 s1 x2 s2 su s6 c s6' v s7 y x s8 s9 where r: "add_snapshot_artifact (pf_owner p) (pf_paths p) nd s = (Inr x1, s1)"
    "add_snapshot_artifact (pf_owner p) (pf_paths p) ns s1 = (Inr x2, s2)"
    "read_subjects p bs nd ns s2 = Some (Inr su, s6)" "compare_subjects p su s6 = Some (Inr c, s6')"
    "bind_subjects p bs su s6' = Some (Inr v, s7)" "check_symbols (ct_observation (bs_controls bs)) su = Inr y"
    "check_system p args bs su nd ns s7 = Some (Inr x, s8)" "pass_report p bs su c v y x s8 = Some (Inr report, s9)"
    using assms(1) unfolding verify_fresh_def Let_def by (auto simp: act_simps)
  note read = read_subjects_Inr[OF r(3)]
  note cmp = compare_subjects_Inr[OF r(4)]
  have "provenance_checked p args (bs_controls bs) su s6 s7"
    by (rule bind_subjects_Inr[OF _ cache(1,2)]) (use r(5) cmp(3) in simp)
  moreover have "reported report bs nd ns" by (rule pass_report_Inr[OF r(8) read(2) cache(3)])
  ultimately show ?thesis
    unfolding subjects_accepted_def
    using registered_Inr(1)[OF r(1)] registered_Inr(1)[OF r(2)] read(1) cmp(1,2) check_symbols_Inr[OF r(6)]
      check_system_Inr[OF r(7)] by blast
qed

lemma own_redactor_Inr: "own_redactor s = Some (Inr u, s') \<longleftrightarrow> s' = (Some (the_roots s), snd s)"
  by (cases s) (auto simp: own_redactor_def the_roots_def)

lemma verify_Inr:
  assumes "verify p args s = Some (Inr report, s')"
  shows "accepted p args s report"
proof -
  obtain s1 root s2 ct s3 s4 s5 t where r:
    "register_root (pf_paths p) (va_fresh_root args) ''<fresh-root>'' (Some (the_roots s), snd s) = (Inr (), s1)"
    "tool_resolve (pf_world p) (va_root args) s1 = Some (Inr root, s2)"
    "load_controls p args s2 = Some (Inr ct, s3)" "load_parity_module p root s3 = Some (Inr (), s4)"
    "load_benchmark_artifacts_module p root s4 = Some (Inr (), s5)"
    "with_snapshots p [(''frozen-dynamic'', va_dynamic args), (''frozen-static'', va_static args)]
      (verify_frozen p args root ct) s5 = Some (Inr report, t)"
    using assms unfolding verify_def tool_bind_Inr snapshot_errors_Inr tool_io_Inr own_redactor_Inr
    by (metis (full_types) old.unit.exhaust)
  obtain fd fs e6 u where c: "so_capture (pf_owner p) [(''frozen-dynamic'', va_dynamic args), (''frozen-static'', va_static args)]
      (snd s5) = (Inr [fd, fs], e6)" "verify_frozen p args root ct fd fs (fst s5, e6) = Some (Inr report, u)"
    using with_snapshots_Inr[OF r(6)] by blast
  then obtain bs s7 u' where b: "build_fresh p args root ct fd fs (fst s5, e6) = Some (Inr bs, s7)"
    and f: "with_snapshots p (fresh_requests args (bs_fresh_roots bs)) (verify_fresh p args bs) s7 = Some (Inr report, u')"
    unfolding verify_frozen_def tool_bind_Inr by blast
  note built = build_fresh_Inr[OF b]
  then have "the (map_of (bs_fresh_roots bs) ''<temporary-install-prefix>'') = path_join (va_fresh_root args) ''install''"
    by (auto simp: built_def)
  then have requests: "fresh_requests args (bs_fresh_roots bs) =
      [(''fresh-dynamic'', path_join (path_join (path_join (va_fresh_root args) ''install'') ''lib'') (path_name (va_dynamic args))),
       (''fresh-static'', path_join (path_join (path_join (va_fresh_root args) ''install'') ''lib'') (path_name (va_static args)))]"
    by (simp add: fresh_requests_def Let_def)
  obtain nd ns e8 u'' where n: "so_capture (pf_owner p) (fresh_requests args (bs_fresh_roots bs)) (snd s7) = (Inr [nd, ns], e8)"
    "verify_fresh p args bs nd ns (fst s7, e8) = Some (Inr report, u'')"
    using with_snapshots_Inr[OF f] by blast
  show ?thesis
    unfolding accepted_def
    using r(1,2,4,5) load_controls_Inr[OF r(3)] c(1) built n(1)[unfolded requests] verify_fresh_Inr[OF n(2) built]
    by blast
qed

text \<open>C1. When the verifier returns a report, whatever file system, tools and processes it ran with, then
  along that very run: the policy, observation and receipt were read and are valid together; the
  command of the policy's template ran and ended with status 0, in time and with its whole output; the
  four private copies were read and have the sizes and digests they were captured with, the fresh ones
  from the directory the command installed to; what the parser makes of these bytes is well-formed,
  and the frozen and the fresh artifact of each kind are equivalent; the provenance of both pairs was
  bound in their own caches, with the digests of the policy; their symbols agree and define every
  public declaration; the system tools agree with the parser on both pairs; and the report passes and
  names the sizes and digests of the fresh copies.\<close>

theorem verify_accepts:
  "case verify p args s of Some (Inr report, _) \<Rightarrow> accepted p args s report | _ \<Rightarrow> True"
  using verify_Inr[of p args s] by (auto split: option.split sum.split)

end
