(* ===== verification/MachO_Derived.thy ===== *)
theory MachO_Derived
  imports MachO_Correct
begin

text \<open>
  Which bytes of an accepted library are derived: the sizes of the link-edit segment, the size of the
  string table, the place of the signature, the string offsets of the symbols, four fields of the
  signature and the padding before it (\<open>tools/abi_artifact_parity.py\<close>, \<open>_parse_macho_bytes\<close>).  Together with
  the released bytes of \<open>MachO_Correct\<close> these are all that a second build may change.
\<close>

section \<open>Derived claims\<close>

definition in_ranges :: "(int \<times> int) set \<Rightarrow> int \<Rightarrow> bool" where
  "in_ranges R x \<longleftrightarrow> (\<exists>r \<in> R. fst r \<le> x \<and> x < fst r + snd r)"

definition derived_role :: "atom_role \<Rightarrow> bool" where
  "derived_role role \<longleftrightarrow> role = Derived_Field \<or> role = Derived_Padding"

text \<open>The bytes a run makes derived lie in the ranges \<open>R\<close>.\<close>

definition derives :: "(int \<times> int) set \<Rightarrow> atom_builder \<Rightarrow> atom_builder \<Rightarrow> bool" where
  "derives R b b' \<longleftrightarrow> (builder_inv b \<longrightarrow> builder_inv b'
     \<and> (\<forall>x v. builder_view b' x v \<and> derived_role (m_role v) \<longrightarrow> builder_view b x v \<or> in_ranges R x))"

lemma derives_refl [simp, intro]: "derives R b b"
  by (simp add: derives_def)

lemma derives_trans: "derives R b c \<Longrightarrow> derives R c d \<Longrightarrow> derives R b d"
  unfolding derives_def by blast

interpretation derive: threaded "derives R" for R
  by unfold_locales (auto intro: derives_trans)

lemma derives_mono: "derives R b c \<Longrightarrow> R \<subseteq> S \<Longrightarrow> derives S b c"
  unfolding derives_def in_ranges_def by blast

lemma derives_add:
  assumes "builder_add b start sz locator role deps nt canonical replace = Inr b'"
    and "derived_role role \<Longrightarrow> (start, sz) \<in> R"
  shows "derives R b b'"
  unfolding derives_def
proof (intro impI conjI allI)
  assume inv: "builder_inv b"
  note a = builder_add_Inr[OF inv assms(1)]
  show "builder_inv b'" by (rule a(1))
  fix x v assume v: "builder_view b' x v \<and> derived_role (m_role v)"
  show "builder_view b x v \<or> in_ranges R x"
  proof (cases "start \<le> x \<and> x < start + sz")
    case True
    then have "v = new_meta b locator role deps nt canonical" using a(8)[of x v] v by simp
    then have "(start, sz) \<in> R" using v assms(2) by (simp add: new_meta_def)
    then show ?thesis using True by (force simp: in_ranges_def)
  next
    case False
    then show ?thesis using a(8)[of x v] v by simp
  qed
qed

lemma derives_other: "builder_add b start sz locator role deps nt canonical replace = Inr b' \<Longrightarrow> \<not> derived_role role \<Longrightarrow> derives R b b'"
  by (rule derives_add) auto

lemma derives_plain: "add_plain b start sz locator = Inr b' \<Longrightarrow> derives R b b'"
  by (rule derives_other) (auto simp: derived_role_def)

lemma derives_derived: "add_derived b start sz locator deps = Inr b' \<Longrightarrow> (start, sz) \<in> R \<Longrightarrow> derives R b b'"
  by (rule derives_add)

section \<open>Load commands\<close>

text \<open>The name field of the segment, and the fields of the command at an offset that follow from the rest.\<close>

definition link_edit :: "bytes \<Rightarrow> int \<Rightarrow> bool" where
  "link_edit data off \<longleftrightarrow> takeWhile (\<lambda>b. b \<noteq> 0) (py_slice data (off + 8) (off + 24)) = bytes_of_str ''__LINKEDIT''"

definition command_derived :: "bytes \<Rightarrow> int \<Rightarrow> (int \<times> int) set" where
  "command_derived data off =
     (if u32 data off = LC_SEGMENT_64 \<and> link_edit data off then {(off + 32, 8), (off + 48, 8)}
      else if u32 data off = LC_SYMTAB then {(off + 20, 4)}
      else if u32 data off = LC_CODE_SIGNATURE then {(off + 8, 8)}
      else {})"

lemma fixed_name_bytes:
  assumes "fixed_name v l = Inr s"
  shows "bytes_of_str s = takeWhile (\<lambda>b. b \<noteq> 0) v"
proof -
  let ?t = "takeWhile (\<lambda>b. b \<noteq> 0) v"
  have v: "py_slice v 0 (blen v) = v" by (auto simp: py_slice_def py_bound_def blen_def)
  show ?thesis
  proof (cases "length ?t < length v")
    case True
    have "py_slice v 0 (int (length ?t)) = take (length ?t) v"
      using True by (auto simp: py_slice_def py_bound_def blen_def)
    then show ?thesis using assms True v
      by (auto simp: fixed_name_def find_byte_def Let_def text_of_Inr takeWhile_eq_take[symmetric] split: if_splits)
  next
    case False
    then have t: "?t = v" by (metis length_takeWhile_le nat_less_le takeWhile_eq_take take_all)
    have "text_of v l = Inr s" using assms False v by (simp add: fixed_name_def find_byte_def Let_def)
    then show ?thesis unfolding t by (simp add: text_of_Inr)
  qed
qed

lemma claim_ls_Inr: "claim_ls f s = Inr t \<longleftrightarrow> (\<exists>b. f (ls_builder s) = Inr b \<and> t = s\<lparr>ls_builder := b\<rparr>)"
  by (auto simp: claim_ls_def bind_r_eq_Inr)

text \<open>What a command of a library does to the builder and to the two tables that are used later.\<close>

definition symtab_at :: "bytes \<Rightarrow> int \<Rightarrow> symtab_fields" where
  "symtab_at data off = \<lparr>st_symoff = u32 data (off + 8), st_nsyms = u32 data (off + 12),
     st_stroff = u32 data (off + 16), st_strsize = u32 data (off + 20)\<rparr>"

definition commanded :: "macho_ctx \<Rightarrow> int \<Rightarrow> load_state \<Rightarrow> load_state \<Rightarrow> bool" where
  "commanded c off s s' \<longleftrightarrow> derives (command_derived (mc_data c) off) (ls_builder s) (ls_builder s')
     \<and> ls_offset s' = ls_offset s \<and> ls_load_axes s' = ls_load_axes s
     \<and> ls_symtab s' = (if u32 (mc_data c) off = LC_SYMTAB then Some (symtab_at (mc_data c) off) else ls_symtab s)
     \<and> ls_signature_range s' = (if u32 (mc_data c) off = LC_CODE_SIGNATURE
          then Some (u32 (mc_data c) (off + 8), u32 (mc_data c) (off + 12)) else ls_signature_range s)"

lemma segment_commanded:
  assumes "lc_segment c off sz l s = Inr s'" "mc_filetype c \<noteq> MH_OBJECT" "u32 (mc_data c) off = LC_SEGMENT_64"
  shows "commanded c off s s'"
proof -
  obtain g nm b where g: "fixed_name (py_slice (mc_data c) (off + 8) (off + 24)) (l @ ''.segname'') = Inr nm" "seg_name g = nm"
    "segment_claims c l off g (ls_builder s) = Inr b"
    and s: "ls_builder s' = b" "ls_offset s' = ls_offset s" "ls_load_axes s' = ls_load_axes s"
      "ls_symtab s' = ls_symtab s" "ls_signature_range s' = ls_signature_range s"
    using assms(1) unfolding lc_segment_def Let_def
    by (auto simp: bind_r_eq_Inr claim_ls_Inr split: if_splits) (metis segment_rec.select_convs(2))
  have "derives (command_derived (mc_data c) off) (ls_builder s) b"
  proof (cases "seg_name g = ''__LINKEDIT''")
    case True
    then have "link_edit (mc_data c) off" using fixed_name_bytes[OF g(1)] g(2) by (simp add: link_edit_def)
    then have r: "(off + 32, 8) \<in> command_derived (mc_data c) off" "(off + 48, 8) \<in> command_derived (mc_data c) off"
      using assms(3) by (simp_all add: command_derived_def)
    show ?thesis using g(3) True assms(2) unfolding segment_claims_def segment_size_claims_def
      by (auto simp: bind_r_eq_Inr intro: derives_trans derives_derived[OF _ r(1)] derives_derived[OF _ r(2)])
  next
    case False
    then show ?thesis using g(3) assms(2) by (simp add: segment_claims_def)
  qed
  then show ?thesis using s assms(3) by (simp add: commanded_def lc_constants)
qed

lemma symtab_commanded:
  "lc_symtab c off sz l s = Inr s' \<Longrightarrow> mc_filetype c \<noteq> MH_OBJECT \<Longrightarrow> u32 (mc_data c) off = LC_SYMTAB \<Longrightarrow> commanded c off s s'"
  unfolding lc_symtab_def Let_def axis_update_def
  by (auto simp: bind_r_eq_Inr claim_ls_Inr commanded_def command_derived_def symtab_at_def lc_constants
      intro: derives_derived split: if_splits)

lemma linkedit_commanded:
  "lc_linkedit_data c off sz l (u32 (mc_data c) off) s = Inr s' \<Longrightarrow> mc_filetype c \<noteq> MH_OBJECT \<Longrightarrow>
     u32 (mc_data c) off \<in> set linkedit_commands \<Longrightarrow> commanded c off s s'"
  unfolding lc_linkedit_data_def Let_def axis_update_def linkedit_commands_def
  by (auto simp: bind_r_eq_Inr claim_ls_Inr commanded_def command_derived_def lc_constants
      intro: derives_derived split: if_splits)

lemma uuid_commanded:
  "lc_uuid c off sz l s = Inr s' \<Longrightarrow> u32 (mc_data c) off = LC_UUID \<Longrightarrow> commanded c off s s'"
  unfolding lc_uuid_def Let_def
  by (auto simp: bind_r_eq_Inr claim_ls_Inr commanded_def derived_role_def lc_constants
      intro: derives_other split: if_splits)

text \<open>The other commands leave all of these alone.\<close>

definition quiet :: "load_state \<Rightarrow> load_state \<Rightarrow> bool" where
  "quiet s s' \<longleftrightarrow> ls_builder s' = ls_builder s \<and> ls_offset s' = ls_offset s \<and> ls_load_axes s' = ls_load_axes s
     \<and> ls_symtab s' = ls_symtab s \<and> ls_signature_range s' = ls_signature_range s"

lemma quiet_commanded:
  "quiet s s' \<Longrightarrow> u32 (mc_data c) off \<noteq> LC_SYMTAB \<Longrightarrow> u32 (mc_data c) off \<noteq> LC_CODE_SIGNATURE \<Longrightarrow> commanded c off s s'"
  by (simp add: commanded_def quiet_def)

lemma dysymtab_quiet: "lc_dysymtab c off sz l s = Inr s' \<Longrightarrow> mc_filetype c \<noteq> MH_OBJECT \<Longrightarrow> quiet s s'"
  by (auto simp: lc_dysymtab_def Let_def bind_r_eq_Inr quiet_def split: if_splits)

lemma dylib_quiet: "lc_dylib c off sz l name k s = Inr s' \<Longrightarrow> quiet s s'"
  unfolding lc_dylib_def Let_def axis_update_def if_fail_eq_Inr bind_r_eq_Inr sum.inject
  by (elim conjE exE, hypsubst) (simp add: quiet_def)

lemma path_quiet: "lc_path c off sz l k s = Inr s' \<Longrightarrow> quiet s s'"
  unfolding lc_path_def Let_def axis_update_def if_fail_eq_Inr bind_r_eq_Inr sum.inject
  by (elim conjE exE, hypsubst) (simp add: quiet_def)

lemma build_version_quiet: "lc_build_version c off sz l s = Inr s' \<Longrightarrow> quiet s s'"
  unfolding lc_build_version_def Let_def axis_update_def if_fail_eq_Inr bind_r_eq_Inr sum.inject
  by (elim conjE exE, hypsubst) (simp add: quiet_def)

lemma dyld_info_quiet: "lc_dyld_info c off sz l s = Inr s' \<Longrightarrow> quiet s s'"
  unfolding lc_dyld_info_def Let_def axis_update_def if_fail_eq_Inr bind_r_eq_Inr sum.inject
  by (elim conjE exE, hypsubst) (simp add: quiet_def)

lemma source_version_quiet: "lc_source_version c off sz l s = Inr s' \<Longrightarrow> quiet s s'"
  unfolding lc_source_version_def Let_def axis_update_def if_fail_eq_Inr bind_r_eq_Inr sum.inject
  by (elim conjE exE, hypsubst) (simp add: quiet_def)

lemmas quiet_commands = dysymtab_quiet dylib_quiet path_quiet build_version_quiet dyld_info_quiet source_version_quiet

lemma not_signature: "LC_DYSYMTAB \<noteq> LC_CODE_SIGNATURE" "LC_CODE_SIGNATURE \<notin> set dylib_commands" "LC_LOAD_DYLINKER \<noteq> LC_CODE_SIGNATURE"
    "LC_RPATH \<noteq> LC_CODE_SIGNATURE" "LC_BUILD_VERSION \<noteq> LC_CODE_SIGNATURE" "LC_DYLD_INFO_ONLY \<noteq> LC_CODE_SIGNATURE"
    "LC_CODE_SIGNATURE \<in> set linkedit_commands"
  by (simp_all add: dylib_commands_def linkedit_commands_def lc_constants)

lemma dispatch_commanded:
  assumes "dispatch_command c off sz l name k s = Inr s'" and k: "k = u32 (mc_data c) off" and "mc_filetype c \<noteq> MH_OBJECT"
  shows "commanded c off s s'"
proof -
  have q: "quiet s s' \<Longrightarrow> k \<noteq> LC_SYMTAB \<Longrightarrow> k \<noteq> LC_CODE_SIGNATURE \<Longrightarrow> commanded c off s s'"
    unfolding k by (rule quiet_commanded)
  show ?thesis
    using assms(1) not_signature unfolding dispatch_command_def
    by (simp only: split: if_splits)
      (use k assms(3) in \<open>auto intro: q quiet_commands segment_commanded symtab_commanded linkedit_commanded uuid_commanded\<close>)
qed

section \<open>The loop over the commands\<close>

definition commands_derived :: "bytes \<Rightarrow> nat \<Rightarrow> (int \<times> int) set" where
  "commands_derived data n = (\<Union>k<n. command_derived data (walk data k 32))"

definition loop_run :: "macho_ctx \<Rightarrow> atom_builder \<Rightarrow> nat \<Rightarrow> load_state \<Rightarrow> bool" where
  "loop_run c b k s \<longleftrightarrow> (let data = mc_data c in
     derives (commands_derived data k) b (ls_builder s) \<and> ls_offset s = walk data k 32
     \<and> (\<forall>st. ls_symtab s = Some st \<longrightarrow> (\<exists>j<k. u32 data (walk data j 32) = LC_SYMTAB \<and> st = symtab_at data (walk data j 32)))
     \<and> (\<forall>r. ls_signature_range s = Some r \<longrightarrow> (\<exists>j<k. u32 data (walk data j 32) = LC_CODE_SIGNATURE
          \<and> r = (u32 data (walk data j 32 + 8), u32 data (walk data j 32 + 12)))))"

lemma load_step_commanded:
  assumes "load_step c load_end i s = Inr t" "mc_filetype c \<noteq> MH_OBJECT"
  obtains s1 b s2 where "derives {} (ls_builder s) b" "ls_builder s1 = b" "ls_symtab s1 = ls_symtab s"
    "ls_signature_range s1 = ls_signature_range s" "commanded c (ls_offset s) s1 s2"
    "ls_builder t = ls_builder s2" "ls_symtab t = ls_symtab s2" "ls_signature_range t = ls_signature_range s2"
    "ls_offset t = ls_offset s + u32 (mc_data c) (ls_offset s + 4)"
proof -
  let ?off = "ls_offset s" and ?d = "mc_data c"
  obtain name where n: "map_of command_names (u32 ?d ?off) = Some name"
    using assms(1) unfolding load_step_def Let_def if_fail_eq_Inr bind_r_eq_Inr by (auto split: option.splits)
  obtain l s0 ax sn s2 where l: "claim_ls (\<lambda>b. add_plain b ?off (u32 ?d (?off + 4)) l) s = Inr s0"
    "dispatch_command c ?off (u32 ?d (?off + 4)) l name (u32 ?d ?off) (s0\<lparr>ls_axis := ax, ls_seen := sn\<rparr>) = Inr s2"
    "s2\<lparr>ls_load_axes := ls_load_axes s2 @ [ls_axis s2], ls_offset := ?off + u32 ?d (?off + 4)\<rparr> = t"
    using assms(1) unfolding load_step_def Let_def if_fail_eq_Inr bind_r_eq_Inr n option.case sum.inject
    by (elim conjE exE) (rule that)
  obtain b where b: "add_plain (ls_builder s) ?off (u32 ?d (?off + 4)) l = Inr b" "s0 = s\<lparr>ls_builder := b\<rparr>"
    using l(1) unfolding claim_ls_Inr by blast
  show thesis
    by (rule that[OF derives_plain[OF b(1)] _ _ _ dispatch_commanded[OF l(2) refl assms(2)]])
      (simp_all add: b(2) l(3)[symmetric])
qed

lemma load_step_run:
  assumes "load_step c load_end i s = Inr t" "mc_filetype c \<noteq> MH_OBJECT" "loop_run c b0 k s"
  shows "loop_run c b0 (Suc k) t"
proof -
  let ?d = "mc_data c"
  obtain s1 b s2 where r: "derives {} (ls_builder s) b" "ls_builder s1 = b" "ls_symtab s1 = ls_symtab s"
    "ls_signature_range s1 = ls_signature_range s" "commanded c (ls_offset s) s1 s2"
    "ls_builder t = ls_builder s2" "ls_symtab t = ls_symtab s2" "ls_signature_range t = ls_signature_range s2"
    "ls_offset t = ls_offset s + u32 ?d (ls_offset s + 4)"
    by (rule load_step_commanded[OF assms(1,2)])
  have o: "ls_offset s = walk ?d k 32" using assms(3) by (simp add: loop_run_def Let_def)
  have u: "commands_derived ?d k \<subseteq> commands_derived ?d (Suc k)" "command_derived ?d (walk ?d k 32) \<subseteq> commands_derived ?d (Suc k)"
    unfolding commands_derived_def lessThan_Suc by blast+
  have "derives (commands_derived ?d k) b0 (ls_builder s)" using assms(3) by (simp add: loop_run_def Let_def)
  then have "derives (commands_derived ?d (Suc k)) b0 (ls_builder t)"
    using derives_mono[OF _ u(1)] derives_mono[OF r(1), of "commands_derived ?d (Suc k)"] derives_mono[OF _ u(2)] r(2,5,6)
    unfolding commanded_def o by (metis derives_trans empty_subsetI)
  then show ?thesis using assms(3) r(3-5,7-9)
    unfolding loop_run_def Let_def commanded_def o by (auto simp: less_Suc_eq Let_def split: if_splits)
qed

lemma fold_counted:
  assumes "fold_r f xs s = Inr t" "I k s" "\<And>k x s t. I k s \<Longrightarrow> f x s = Inr t \<Longrightarrow> I (Suc k) t"
  shows "I (k + length xs) t"
  using assms(1,2)
proof (induction xs arbitrary: k s)
  case (Cons x xs)
  then obtain u where "f x s = Inr u" "fold_r f xs u = Inr t" by (auto simp: bind_r_eq_Inr)
  then show ?case using Cons.IH[of u "Suc k"] assms(3)[OF Cons.prems(2)] by simp
qed simp

lemma load_commands_run:
  assumes "load_commands c load_end n b = Inr (s, st, dy)" "mc_filetype c \<noteq> MH_OBJECT"
  shows "loop_run c b (nat n) s" "ls_symtab s = Some st" "ls_seen s LC_SYMTAB = 1"
proof -
  have f: "fold_r (load_step c load_end) [0..n - 1] (load_init b) = Inr s" and r: "ls_symtab s = Some st" "ls_seen s LC_SYMTAB = 1"
    using assms(1) unfolding load_commands_def by (auto simp: bind_r_eq_Inr split: if_splits option.splits)
  have "loop_run c b 0 (load_init b)" by (simp add: loop_run_def load_init_def)
  then have "loop_run c b (0 + length [0..n - 1]) s" by (rule fold_counted[OF f]) (rule load_step_run[OF _ assms(2)])
  then show "loop_run c b (nat n) s" by simp
  show "ls_symtab s = Some st" "ls_seen s LC_SYMTAB = 1" by (fact r)+
qed

section \<open>Symbols, source object and signature\<close>

definition string_indices :: "symtab_fields \<Rightarrow> (int \<times> int) set" where
  "string_indices st = {(st_symoff st + i * 16, 4) | i. 0 \<le> i \<and> i < st_nsyms st}"

lemma symbols_derived:
  assumes "parse_symbols c st sections [] b = Inr ss" "mc_filetype c \<noteq> MH_OBJECT"
  shows "derives (string_indices st) b (ss_builder ss)"
proof -
  have "derives (string_indices st) (ss_builder s) (ss_builder t)"
    if step: "symbol_step c st sections [] i s = Inr t" and i: "i \<in> set [0..st_nsyms st - 1]" for i s t
  proof -
    have "(st_symoff st + i * 16, 4) \<in> string_indices st" using i by (auto simp: string_indices_def)
    moreover obtain ty ns nv b' where "symbol_claims c sections [] i (st_symoff st + i * 16) ty ns nv (ss_builder s) = Inr b'"
        "ss_builder t = b'"
      using step unfolding symbol_step_def Let_def by (auto simp: bind_r_eq_Inr split: if_splits)
    ultimately show ?thesis by (auto simp: symbol_claims_def bind_r_eq_Inr Let_def split: if_splits intro: derives_derived)
  qed
  then show ?thesis
    by (intro fold_r_invariant[OF assms(1)[unfolded parse_symbols_def], of "\<lambda>s. derives (string_indices st) b (ss_builder s)"])
      (auto intro: derives_trans)
qed

lemma provenance_derived: "dylib_provenance c s st ss = Inr (p, b) \<Longrightarrow> derives R (ss_builder ss) b \<and> ls_seen s LC_CODE_SIGNATURE = 1"
  unfolding dylib_provenance_def Let_def
  by (auto simp: bind_r_eq_Inr derived_role_def split: list.splits option.splits if_splits
      dest!: derives_other[where R = R] intro: derives_trans)

text \<open>The length fields of the signature at an offset, its slot count with the code limit, and its page hashes.\<close>

definition signature_fields :: "bytes \<Rightarrow> int \<Rightarrow> (int \<times> int) set" where
  "signature_fields data sig =
     {(sig + 4, 4), (sig + 24, 4), (sig + 48, 8), (sig + 20 + u_be data (sig + 36) 4, u_be data (sig + 48) 4 * 32)}"

lemma code_directory_derived:
  assumes "parse_code_directory data sig sz (Some b) = Inr (d, ob)"
  shows "derives (signature_fields data sig) b (the ob)" "0 \<le> sig" "sig \<le> blen data" "cd_offset d = sig"
proof -
  obtain b' where b': "ob = Some b'" "cd_claims sig sz (sig + 20) (cd_unpack data (sig + 20)) b = Inr b'"
    using parse_code_directory_Inr(13)[OF assms] unfolding with_builder_Some by blast
  have sz: "f_hash_size (cd_unpack data (sig + 20)) = 32" and z: "0 \<le> sz"
    using assms unfolding parse_code_directory_def Let_def
    by (auto simp: bind_r_eq_Inr cd_check_scalars_Inr split: if_splits)
  have "derives (signature_fields data sig) b b'"
    using b'(2) sz unfolding cd_claims_def bind_r_eq_Inr
    apply (elim exE conjE)
    apply (rule derives_trans[OF derives_other], assumption, simp add: derived_role_def)
    apply (rule derives_trans[OF derives_derived], assumption, simp add: signature_fields_def)
    apply (rule derives_trans[OF derives_derived], assumption, simp add: signature_fields_def)
    apply (rule derives_trans[OF derives_derived], assumption, simp add: signature_fields_def)
    apply (rule derives_derived, assumption, simp add: signature_fields_def cd_unpack_def ac_simps)
    done
  then show "derives (signature_fields data sig) b (the ob)" by (simp add: b'(1))
  show "0 \<le> sig" "cd_offset d = sig" using parse_code_directory_Inr[OF assms] by simp_all
  show "sig \<le> blen data" using parse_code_directory_Inr(2)[OF assms] z by simp
qed

lemma signature_derived:
  assumes "dylib_signature c s st b = Inr (d, b')" "0 \<le> st_stroff st + st_strsize st"
  shows "\<exists>sz. ls_signature_range s = Some (cd_offset d, sz)
    \<and> derives (signature_fields (mc_data c) (cd_offset d)
        \<union> {(st_stroff st + st_strsize st, cd_offset d - (st_stroff st + st_strsize st))}) b b'"
proof -
  let ?d = "mc_data c" and ?e = "st_stroff st + st_strsize st"
  obtain sig sz ob where r: "ls_signature_range s = Some (sig, sz)" "parse_code_directory ?d sig sz (Some b) = Inr (d, ob)"
    and rest: "?e \<le> sig" "if ?e < sig then builder_add (the ob) ?e (blen (py_slice ?d ?e sig)) ''code_signature.alignment_padding''
        Derived_Padding [''macho.symtab.n_oso.path''] None None True = Inr b' else b' = the ob"
    using assms(1) unfolding dylib_signature_def Let_def by (auto simp: bind_r_eq_Inr split: option.splits if_splits)
  note cd = code_directory_derived[OF r(2)]
  let ?R = "signature_fields ?d sig \<union> {(?e, sig - ?e)}"
  have "derives ?R (the ob) b'"
  proof (cases "?e < sig")
    case True
    then have "blen (py_slice ?d ?e sig) = sig - ?e" using assms(2) cd(3) by (simp add: blen_py_slice)
    then show ?thesis using rest(2) True by (auto intro: derives_add)
  qed (use rest in simp)
  then have "derives ?R b b'" by (rule derives_trans[OF derives_mono[OF cd(1)], rotated]) auto
  then show ?thesis using r(1) cd(4) by auto
qed

section \<open>Accepted libraries\<close>

text \<open>The derived bytes of a library whose symbol table and signature commands stand at two offsets.\<close>

definition dylib_derived :: "bytes \<Rightarrow> int \<Rightarrow> int \<Rightarrow> (int \<times> int) set" where
  "dylib_derived data symtab signature =
     (let st = symtab_at data symtab; strings_end = st_stroff st + st_strsize st; sig = u32 data (signature + 8) in
      commands_derived data (cmd_count data) \<union> string_indices st \<union> signature_fields data sig
        \<union> {(strings_end, sig - strings_end)})"

definition derived_within :: "(int \<times> int) set \<Rightarrow> byte_atom list \<Rightarrow> bool" where
  "derived_within R atoms \<longleftrightarrow> (\<forall>a \<in> set atoms. derived_role (a_role a) \<longrightarrow>
     (\<forall>x. a_offset a \<le> x \<and> x < a_offset a + a_size a \<longrightarrow> in_ranges R x))"

lemma derived_within_builder:
  assumes "derives R (new_builder data prefix) b" "builder_finish b = Inr atoms"
  shows "derived_within R atoms"
  unfolding derived_within_def
proof (intro ballI impI allI)
  fix a x assume a: "a \<in> set atoms" "derived_role (a_role a)" "a_offset a \<le> x \<and> x < a_offset a + a_size a"
  have d: "builder_inv b" "\<And>x v. builder_view b x v \<Longrightarrow> derived_role (m_role v) \<Longrightarrow> builder_view (new_builder data prefix) x v \<or> in_ranges R x"
    using assms(1) builder_inv_new[of data prefix] by (auto simp: derives_def)
  obtain v where "atom_of_meta a v" "builder_view b x v" using builder_finish_correct(3)[OF d(1) assms(2) a(1)] a(3) by blast
  moreover have "\<not> builder_view (new_builder data prefix) x v" for v
    by (simp add: builder_view_def new_builder_def covers_def)
  ultimately show "in_ranges R x" using d(2) a(2) by (metis atom_of_meta_def)
qed

lemma dylib_derived_bytes:
  assumes "parse_macho_bytes data label MH_DYLIB prefix = Inr art"
  shows "\<exists>t q w. only_command data LC_SYMTAB t \<and> only_command data LC_CODE_SIGNATURE q
    \<and> dylib_ok data art w \<and> dy_table w = symtab_at data (walk data t 32)
    \<and> derived_within (dylib_derived data (walk data t 32) (walk data q 32)) (mo_atoms art)"
proof -
  define c where "c = \<lparr>mc_data = data, mc_filetype = MH_DYLIB, mc_prefix = prefix\<rparr>"
  have c: "mc_data c = data" "mc_filetype c \<noteq> MH_OBJECT" "mc_prefix c = prefix" by (simp_all add: c_def mh_constants)
  obtain h s st dy where h: "parse_header c = Inr h" "load_commands c (mh_load_end h) (mh_ncmds h) (mh_builder h) = Inr (s, st, dy)"
    "parse_body c label h s st dy = Inr art"
    using assms unfolding parse_macho_bytes_def c_def[symmetric] Let_def bind_r_eq_Inr by auto
  have "obeys (parse_header c) (\<lambda>h. obeys (load_commands c (mh_load_end h) (mh_ncmds h) (mh_builder h))
      (\<lambda>(s, st, dy). loaded (uuid_volatile c (cmd_count data)) c s st))"
    by (rule obeys_load_phase) (simp_all add: c(1))
  then have l: "loaded (uuid_volatile c (cmd_count data)) c s st" using h(1,2) by (simp add: obeys_def)
  have n: "mh_ncmds h = u32 data 16" and h0: "derives {} (new_builder data prefix) (mh_builder h)"
    using h(1) unfolding parse_header_def Let_def c
    by (auto simp: bind_r_eq_Inr split: if_splits dest!: derives_plain[where R = "{}"] intro: derives_trans)
  note r = load_commands_run[OF h(2) c(2)]
  have run: "loop_run c (mh_builder h) (cmd_count data) s" using r(1) n by (simp add: cmd_count_def)
  obtain ss p b d b' where t: "parse_symbols c st (ls_sections s) [] (ls_builder s) = Inr ss" "dylib_provenance c s st ss = Inr (p, b)"
    "dylib_signature c s st b = Inr (d, b')" "builder_finish b' = Inr (mo_atoms art)"
    using h(3) c(2) unfolding parse_body_def macho_layout_def macho_tail_of_def dylib_tail_def finish_artifact_def
    by (auto simp: bind_r_eq_Inr)
  note p = provenance_derived[OF t(2)]
  have w: "walked data s" "length (ls_load_axes s) = cmd_count data" using l loadedD(4)[OF l] by (simp_all add: loaded_def c(1))
  obtain k q where k: "only_command data LC_SYMTAB k" "only_command data LC_CODE_SIGNATURE q"
    using only_command_seen[OF w r(3)] only_command_seen[OF w] p by blast
  have st: "st = symtab_at data (walk data k 32)" using run r(2) k(1) by (auto simp: loop_run_def c(1) Let_def only_command_def)
  have pos: "0 \<le> st_stroff st + st_strsize st" by (simp add: st symtab_at_def)
  obtain sz where sig: "ls_signature_range s = Some (cd_offset d, sz)" "derives (signature_fields data (cd_offset d)
        \<union> {(st_stroff st + st_strsize st, cd_offset d - (st_stroff st + st_strsize st))}) b b'"
    using signature_derived[OF t(3) pos] by (auto simp: c(1))
  have off: "cd_offset d = u32 data (walk data q 32 + 8)"
    using run sig(1) k(2) by (auto simp: loop_run_def c(1) Let_def only_command_def)
  let ?R = "dylib_derived data (walk data k 32) (walk data q 32)"
  have "derives ?R (new_builder data prefix) (mh_builder h)" by (rule derives_mono[OF h0]) simp
  moreover have "derives ?R (mh_builder h) (ls_builder s)"
    using run by (auto simp: loop_run_def c(1) Let_def dylib_derived_def intro: derives_mono)
  moreover have "derives ?R (ls_builder s) (ss_builder ss)"
    by (rule derives_mono[OF symbols_derived[OF t(1) c(2)]]) (auto simp: dylib_derived_def st Let_def)
  moreover have "derives ?R (ss_builder ss) b" using p by blast
  moreover have "derives ?R b b'" by (rule derives_mono[OF sig(2)]) (auto simp: dylib_derived_def off st Let_def)
  ultimately have "derives ?R (new_builder data prefix) b'" by (meson derives_trans)
  then have "derived_within ?R (mo_atoms art)" by (rule derived_within_builder[OF _ t(4)])
  moreover obtain w where "dylib_ok data art w" "dy_table w = st"
    using obeys_dylib_body[OF l[folded c(1)] c(2), of label h dy] h(3) by (auto simp: obeys_def c(1))
  ultimately show ?thesis using k st by blast
qed

text \<open>C2. The atoms of an accepted library partition its bytes, and every byte that a second build may change
  is one of these: released are the UUID of the only \<open>LC_UUID\<close> command, the path of the source object that the provenance
  reports and the time of its \<open>N_OSO\<close> entry in the symbol table; derived are the sizes of the link-edit segment, the size
  of the string table and the place of the signature in their load commands, the string offsets of the symbols, the
  lengths, the slot count with the code limit and the page hashes of the signature, and the padding before it.\<close>

theorem dylib_volatile_bytes:
  "case parse_macho_bytes data label MH_DYLIB prefix of
     Inl e \<Rightarrow> is_parity e
   | Inr art \<Rightarrow> partitioned data (mo_atoms art) \<and>
       (\<exists>u t q i p. only_command data LC_UUID u \<and> only_command data LC_SYMTAB t \<and> only_command data LC_CODE_SIGNATURE q
          \<and> mo_provenance art = [p] \<and> cache_object_match (bytes_of_str (pl_path p)) \<noteq> None
          \<and> bytes_of_str (pl_path p) = py_slice data (pl_path_offset p) (pl_path_offset p + pl_path_size p)
          \<and> (let st = symtab_at data (walk data t 32); entry = st_symoff st + i * 16 in
              0 \<le> i \<and> i < st_nsyms st \<and> u8 data (entry + 4) = N_OSO
              \<and> pl_path_offset p = st_stroff st + u32 data entry \<and> pl_expected_mtime_seconds p = Some (u64 data (entry + 8))
              \<and> volatile_within {(walk data u 32 + 8, 16), (pl_path_offset p, pl_path_size p), (entry + 8, 8)} (mo_atoms art))
          \<and> derived_within (dylib_derived data (walk data t 32) (walk data q 32)) (mo_atoms art))"
proof (cases "parse_macho_bytes data label MH_DYLIB prefix")
  case (Inl e)
  then show ?thesis using obeys_parse_dylib[of data label prefix] by (simp add: obeys_def)
next
  case (Inr art)
  then obtain t q w where w: "only_command data LC_SYMTAB t" "only_command data LC_CODE_SIGNATURE q" "dylib_ok data art w"
    "dy_table w = symtab_at data (walk data t 32)"
    "derived_within (dylib_derived data (walk data t 32) (walk data q 32)) (mo_atoms art)"
    using dylib_derived_bytes by blast
  obtain i where i: "dy_entry w = st_symoff (dy_table w) + i * 16" "0 \<le> i" "i < st_nsyms (dy_table w)"
    using w(3) by (auto simp: dylib_ok_def)
  note j = i[unfolded w(4)] and ok = w(3)[unfolded dylib_ok_def i(1), unfolded w(4)]
  show ?thesis unfolding Inr sum.case Let_def
    by (rule conjI, use ok in blast, rule exI[of _ "dy_uuid w"], rule exI[of _ t], rule exI[of _ q], rule exI[of _ i],
        rule exI[of _ "dy_path w"], use ok w(1,2,5) j(2,3) in \<open>intro conjI; blast\<close>)
qed

end
