(* ===== verification/MachO_Samples.thy ===== *)
theory MachO_Samples
  imports MachO_Correct
begin

text \<open>
  Two small object files, evaluated by the kernel: one that the object parser accepts, and one that
  makes it raise \<open>struct.error\<close>.
\<close>

section \<open>Sample objects\<close>

text \<open>
  Both objects have one segment with \<open>__DWARF,__debug_line\<close> and a zero-fill section behind it.  In
  the second one the zero-fill section has a relocation that targets itself; its addend would lie
  at the section's file offset 0xFFFF, far behind the end of the file.
\<close>

definition sample_object :: bytes where
  "sample_object =
    [207, 250, 237, 254, 12, 0, 0, 1, 0, 0, 0, 0, 1, 0, 0, 0, 4, 0, 0, 0, 104, 1, 0, 0, 0, 0, 0, 0, 0,
     0, 0, 0, 25, 0, 0, 0, 232, 0, 0, 0, 0, 0, 0, 0, 0, 0, 0, 0, 0, 0, 0, 0, 0, 0, 0, 0, 0, 0, 0, 0, 0,
     0, 0, 0, 90, 0, 0, 0, 0, 0, 0, 0, 136, 1, 0, 0, 0, 0, 0, 0, 82, 0, 0, 0, 0, 0, 0, 0, 7, 0, 0, 0, 7,
     0, 0, 0, 2, 0, 0, 0, 0, 0, 0, 0, 95, 95, 100, 101, 98, 117, 103, 95, 108, 105, 110, 101, 0, 0, 0,
     0, 95, 95, 68, 87, 65, 82, 70, 0, 0, 0, 0, 0, 0, 0, 0, 0, 0, 0, 0, 0, 0, 0, 0, 0, 82, 0, 0, 0, 0,
     0, 0, 0, 136, 1, 0, 0, 0, 0, 0, 0, 0, 0, 0, 0, 0, 0, 0, 0, 0, 0, 0, 0, 0, 0, 0, 0, 0, 0, 0, 0, 0,
     0, 0, 0, 95, 95, 98, 115, 115, 0, 0, 0, 0, 0, 0, 0, 0, 0, 0, 0, 95, 95, 68, 65, 84, 65, 0, 0, 0, 0,
     0, 0, 0, 0, 0, 0, 82, 0, 0, 0, 0, 0, 0, 0, 8, 0, 0, 0, 0, 0, 0, 0, 255, 255, 0, 0, 0, 0, 0, 0, 0,
     0, 0, 0, 0, 0, 0, 0, 1, 0, 0, 0, 0, 0, 0, 0, 0, 0, 0, 0, 0, 0, 0, 0, 2, 0, 0, 0, 24, 0, 0, 0, 218,
     1, 0, 0, 0, 0, 0, 0, 218, 1, 0, 0, 1, 0, 0, 0, 11, 0, 0, 0, 80, 0, 0, 0, 0, 0, 0, 0, 0, 0, 0, 0, 0,
     0, 0, 0, 0, 0, 0, 0, 0, 0, 0, 0, 0, 0, 0, 0, 0, 0, 0, 0, 0, 0, 0, 0, 0, 0, 0, 0, 0, 0, 0, 0, 0, 0,
     0, 0, 0, 0, 0, 0, 0, 0, 0, 0, 0, 0, 0, 0, 0, 0, 0, 0, 0, 0, 0, 0, 0, 0, 0, 0, 0, 0, 0, 0, 50, 0, 0,
     0, 24, 0, 0, 0, 1, 0, 0, 0, 0, 0, 0, 0, 0, 0, 0, 0, 0, 0, 0, 0, 78, 0, 0, 0, 4, 0, 72, 0, 0, 0, 1,
     1, 1, 251, 14, 1, 47, 103, 108, 111, 98, 97, 108, 45, 99, 97, 99, 104, 101, 47, 98, 47, 48, 49, 50,
     51, 52, 53, 54, 55, 56, 57, 97, 98, 99, 100, 101, 102, 48, 49, 50, 51, 52, 53, 54, 55, 56, 57, 97,
     98, 99, 100, 101, 102, 0, 0, 98, 117, 105, 108, 116, 105, 110, 46, 122, 105, 103, 0, 1, 0, 0, 0, 0]"

definition zero_fill_object :: bytes where
  "zero_fill_object =
    [207, 250, 237, 254, 12, 0, 0, 1, 0, 0, 0, 0, 1, 0, 0, 0, 4, 0, 0, 0, 104, 1, 0, 0, 0, 0, 0, 0, 0,
     0, 0, 0, 25, 0, 0, 0, 232, 0, 0, 0, 0, 0, 0, 0, 0, 0, 0, 0, 0, 0, 0, 0, 0, 0, 0, 0, 0, 0, 0, 0, 0,
     0, 0, 0, 90, 0, 0, 0, 0, 0, 0, 0, 136, 1, 0, 0, 0, 0, 0, 0, 82, 0, 0, 0, 0, 0, 0, 0, 7, 0, 0, 0, 7,
     0, 0, 0, 2, 0, 0, 0, 0, 0, 0, 0, 95, 95, 100, 101, 98, 117, 103, 95, 108, 105, 110, 101, 0, 0, 0,
     0, 95, 95, 68, 87, 65, 82, 70, 0, 0, 0, 0, 0, 0, 0, 0, 0, 0, 0, 0, 0, 0, 0, 0, 0, 82, 0, 0, 0, 0,
     0, 0, 0, 136, 1, 0, 0, 0, 0, 0, 0, 0, 0, 0, 0, 0, 0, 0, 0, 0, 0, 0, 0, 0, 0, 0, 0, 0, 0, 0, 0, 0,
     0, 0, 0, 95, 95, 98, 115, 115, 0, 0, 0, 0, 0, 0, 0, 0, 0, 0, 0, 95, 95, 68, 65, 84, 65, 0, 0, 0, 0,
     0, 0, 0, 0, 0, 0, 82, 0, 0, 0, 0, 0, 0, 0, 8, 0, 0, 0, 0, 0, 0, 0, 255, 255, 0, 0, 0, 0, 0, 0, 218,
     1, 0, 0, 1, 0, 0, 0, 1, 0, 0, 0, 0, 0, 0, 0, 0, 0, 0, 0, 0, 0, 0, 0, 2, 0, 0, 0, 24, 0, 0, 0, 226,
     1, 0, 0, 0, 0, 0, 0, 226, 1, 0, 0, 1, 0, 0, 0, 11, 0, 0, 0, 80, 0, 0, 0, 0, 0, 0, 0, 0, 0, 0, 0, 0,
     0, 0, 0, 0, 0, 0, 0, 0, 0, 0, 0, 0, 0, 0, 0, 0, 0, 0, 0, 0, 0, 0, 0, 0, 0, 0, 0, 0, 0, 0, 0, 0, 0,
     0, 0, 0, 0, 0, 0, 0, 0, 0, 0, 0, 0, 0, 0, 0, 0, 0, 0, 0, 0, 0, 0, 0, 0, 0, 0, 0, 0, 0, 0, 50, 0, 0,
     0, 24, 0, 0, 0, 1, 0, 0, 0, 0, 0, 0, 0, 0, 0, 0, 0, 0, 0, 0, 0, 78, 0, 0, 0, 4, 0, 72, 0, 0, 0, 1,
     1, 1, 251, 14, 1, 47, 103, 108, 111, 98, 97, 108, 45, 99, 97, 99, 104, 101, 47, 98, 47, 48, 49, 50,
     51, 52, 53, 54, 55, 56, 57, 97, 98, 99, 100, 101, 102, 48, 49, 50, 51, 52, 53, 54, 55, 56, 57, 97,
     98, 99, 100, 101, 102, 0, 0, 98, 117, 105, 108, 116, 105, 110, 46, 122, 105, 103, 0, 1, 0, 0, 0, 0,
     0, 0, 0, 2, 0, 0, 6, 0]"

lemma sample_object_accepted:
  "(case parse_macho_object sample_object ''o'' ''x'' of
      Inl e \<Rightarrow> False
    | Inr art \<Rightarrow> map (\<lambda>a. (a_offset a, a_size a)) (filter (\<lambda>a. a_role a = Allowed_Payload) (mo_atoms art)) = [(408, 48)]
        \<and> length (mo_atoms art) = 20)"
  by code_simp

text \<open>The object parser does not always fail closed: on this 483-byte object it raises
\<open>struct.error\<close>, because the addend of a relocation in a zero-fill section is read at a file offset
that was never checked.\<close>

theorem object_struct_error_escapes:
  "parse_macho_object zero_fill_object ''o'' ''x'' = Inl StructError"
  by code_simp

end
