(* ===== verification/Git_Marker.thy ===== *)
theory Git_Marker
  imports Git_Output OS_World Sha256
begin

unbundle bit_operations_syntax

text \<open>
  The trust boundary of \<open>tools/repository_git.py\<close>: the root, the \<open>.git\<close> marker, the environment of the
  child process and the executable.  The model is every call, check and comparison the code makes
  around the operations of the \<open>git_world\<close>.
\<close>

type_synonym ('e, 'a) act = "(git_exc, 'e, 'a) io"

section \<open>Environments\<close>

definition DEVNULL :: string where "DEVNULL = ''/dev/null''"

definition INHERITED_ENVIRONMENT :: "string list" where
  "INHERITED_ENVIRONMENT = [''PATH'', ''TMPDIR'', ''TMP'', ''TEMP'', ''SYSTEMROOT'', ''WINDIR'', ''COMSPEC'', ''PATHEXT'']"

definition FIXED_ENVIRONMENT :: environment where
  "FIXED_ENVIRONMENT = [(''LANG'', ''C''), (''LANGUAGE'', ''C''), (''LC_ALL'', ''C''),
     (''GIT_CONFIG_NOSYSTEM'', ''1''), (''GIT_CONFIG_GLOBAL'', DEVNULL), (''GIT_CONFIG_SYSTEM'', DEVNULL),
     (''GIT_OPTIONAL_LOCKS'', ''0''), (''GIT_TERMINAL_PROMPT'', ''0'')]"

text \<open>\<open>str.upper\<close> depends on Unicode tables and \<open>os.defpath\<close> on the platform: parameters.\<close>

definition ambient_git_names :: "(string \<Rightarrow> string) \<Rightarrow> environment \<Rightarrow> string list" where
  "ambient_git_names upper env = sort (filter (\<lambda>name. starts_with (upper name) ''GIT_'') (map fst env))"

definition child_environment :: "(string \<Rightarrow> string) \<Rightarrow> string \<Rightarrow> environment \<Rightarrow> environment" where
  "child_environment upper defpath env =
     (let child = filter (\<lambda>p. upper (fst p) \<in> set INHERITED_ENVIRONMENT) env;
          child = (if map_of child ''PATH'' = None then dict_set ''PATH'' defpath child else child)
      in dict_update child FIXED_ENVIRONMENT)"

section \<open>The root\<close>

definition strict_root :: "('e, 'z) git_world_scheme \<Rightarrow> string \<Rightarrow> ('e, string) act" where
  "strict_root w root =
     (let unresolved = Git_Error ''unable to resolve the repository root strictly'' in
      act_io (os_lstat w root) unresolved (\<lambda>supplied.
      act_io (gw_resolve w root) unresolved (\<lambda>canonical.
      act_io (os_lstat w canonical) unresolved (\<lambda>metadata.
      if S_ISLNK (st_mode supplied) \<or> S_ISLNK (st_mode metadata) \<or> \<not> S_ISDIR (st_mode metadata)
      then act_fail (Git_Error ''repository root must be a non-symlink directory'')
      else act_return canonical))))"

section \<open>The marker\<close>

definition MAX_GIT_MARKER_BYTES :: int where "MAX_GIT_MARKER_BYTES = 64 * 1024"

record git_marker =
  gm_kind :: string
  gm_device :: int
  gm_inode :: int
  gm_mode :: int
  gm_size :: int
  gm_mtime_ns :: int
  gm_ctime_ns :: int
  gm_sha256 :: "string option"

text \<open>\<open>_marker_identity\<close>: a directory is identified without its size and times.\<close>

definition marker_identity :: "stat_result \<Rightarrow> string \<Rightarrow> string option \<Rightarrow> git_marker" where
  "marker_identity metadata kind sha =
     (let directory = (kind = ''directory'') in
      \<lparr>gm_kind = kind, gm_device = st_dev metadata, gm_inode = st_ino metadata,
       gm_mode = (if directory then S_IFMT (st_mode metadata) else st_mode metadata),
       gm_size = (if directory then 0 else st_size metadata),
       gm_mtime_ns = (if directory then 0 else st_mtime_ns metadata),
       gm_ctime_ns = (if directory then 0 else st_ctime_ns metadata), gm_sha256 = sha\<rparr>)"

definition marker_unreadable :: git_exc where
  "marker_unreadable = Git_Error ''unable to inspect the repository Git marker''"

function read_exactly :: "('e, 'z) git_world_scheme \<Rightarrow> int \<Rightarrow> int \<Rightarrow> bytes \<Rightarrow> ('e, bytes) act" where
  "read_exactly w d remaining contents e =
     (if remaining = 0 then (Inr contents, e)
      else case os_read w d (min 65536 remaining) e of
        (None, e') \<Rightarrow> (Inl marker_unreadable, e')
      | (Some chunk, e') \<Rightarrow>
          if chunk = [] then (Inl (Git_Snapshot ''repository Git marker reached early EOF''), e')
          else read_exactly w d (remaining - blen chunk) (contents @ chunk) e')"
  by pat_completeness auto

termination
  by (relation "measure (\<lambda>(w, d, remaining, contents, e). nat remaining)")
    (auto simp: os_read_def blen_def min_def split: if_splits prod.splits)

declare read_exactly.simps [simp del]

definition marker_contents :: "('e, 'z) git_world_scheme \<Rightarrow> int \<Rightarrow> stat_result \<Rightarrow> ('e, bytes) act" where
  "marker_contents w d metadata =
     (let initial = marker_identity metadata ''file'' None in
      act_io (gw_fstat w d) marker_unreadable (\<lambda>opened.
      if initial \<noteq> marker_identity opened ''file'' None \<or> \<not> S_ISREG (st_mode opened)
      then act_fail (Git_Snapshot ''repository Git marker changed while being opened'')
      else
      act_bind (read_exactly w d (st_size opened) []) (\<lambda>contents.
      act_io (os_read w d 1) marker_unreadable (\<lambda>surplus.
      if surplus \<noteq> [] then act_fail (Git_Snapshot ''repository Git marker grew while read'')
      else
      act_io (gw_fstat w d) marker_unreadable (\<lambda>final.
      if marker_identity final ''file'' None \<noteq> initial
      then act_fail (Git_Snapshot ''repository Git marker changed while being read'')
      else act_return contents)))))"

definition git_marker_path :: "string \<Rightarrow> string" where
  "git_marker_path root = (if root = ''/'' then ''/.git'' else root @ ''/.git'')"

definition capture_git_marker :: "('e, 'z) git_world_scheme \<Rightarrow> string \<Rightarrow> ('e, git_marker option) act" where
  "capture_git_marker w root = (\<lambda>e.
     let marker = git_marker_path root in
     case gw_lstat w marker e of
       (Missing, e) \<Rightarrow> (Inr None, e)
     | (Unreadable, e) \<Rightarrow> (Inl marker_unreadable, e)
     | (Found metadata, e) \<Rightarrow>
         if S_ISLNK (st_mode metadata) \<or> \<not> (S_ISDIR (st_mode metadata) \<or> S_ISREG (st_mode metadata))
         then (Inl (Git_Error ''repository Git marker has an unsafe filesystem type''), e)
         else if S_ISDIR (st_mode metadata) then (Inr (Some (marker_identity metadata ''directory'' None)), e)
         else if st_size metadata > MAX_GIT_MARKER_BYTES
         then (Inl (Git_Error ''repository Git marker exceeds its size limit''), e)
         else case gw_open w marker e of
             (None, e) \<Rightarrow> (Inl marker_unreadable, e)
           | (Some d, e) \<Rightarrow> (case marker_contents w d metadata e of (r, e) \<Rightarrow>
               (map_sum id (\<lambda>contents. Some (marker_identity metadata ''file'' (Some (sha256_bytes contents)))) r,
                gw_close w d e)))"

definition verify_git_marker :: "('e, 'z) git_world_scheme \<Rightarrow> string \<Rightarrow> git_marker option \<Rightarrow> ('e, unit) act" where
  "verify_git_marker w root expected =
     (if expected = None then act_return ()
      else act_bind (capture_git_marker w root) (\<lambda>m.
        if m \<noteq> expected then act_fail (Git_Snapshot ''repository Git marker changed during observation'')
        else act_return ()))"

section \<open>The executable\<close>

definition git_executable :: "('e, 'z) git_world_scheme \<Rightarrow> string \<Rightarrow> environment \<Rightarrow> ('e, string) act" where
  "git_executable w defpath env =
     (let unavailable = Git_Unavailable ''Git is unavailable for a root containing .git'' in
      act_io (gw_which w ''git'' (case map_of env ''PATH'' of Some p \<Rightarrow> p | None \<Rightarrow> defpath)) unavailable (\<lambda>discovered.
      act_io (gw_resolve w discovered) unavailable (\<lambda>executable.
      act_io (gw_stat w executable) unavailable (\<lambda>metadata.
      if \<not> S_ISREG (st_mode metadata) then act_fail unavailable
      else (\<lambda>e. case gw_access w executable e of (ok, e) \<Rightarrow>
        if ok then (Inr executable, e) else (Inl unavailable, e))))))"

end
