(* ===== verification/Git_Observe.thy ===== *)
theory Git_Observe
  imports Git_Marker
begin

text \<open>
  Observations of a repository through Git (\<open>tools/repository_git.py\<close>): running the child process
  with bounded pipes, the file set, the identity and the publication snapshot, each taken twice,
  and opening the exact root of a worktree.
\<close>

section \<open>Captured pipes\<close>

text \<open>\<open>os.read(fd, n)\<close> returns at most \<open>n\<close> bytes of a segment.\<close>

record capture =
  cap_chunks :: "bytes list"
  cap_overflow :: bool
  cap_error :: bool

function capture_loop :: "int \<Rightarrow> int \<Rightarrow> bytes list \<Rightarrow> bool \<Rightarrow> bytes list \<Rightarrow> capture" where
  "capture_loop limit already segments breaks chunks =
     (case segments of
        [] \<Rightarrow> \<lparr>cap_chunks = chunks, cap_overflow = False, cap_error = breaks\<rparr>
      | seg # rest \<Rightarrow>
          let n = nat (min 65536 (limit + 1 - already)); chunk = take n seg in
          if chunk = [] then \<lparr>cap_chunks = chunks, cap_overflow = False, cap_error = False\<rparr>
          else if already + blen chunk > limit
          then \<lparr>cap_chunks = chunks @ [chunk], cap_overflow = True, cap_error = False\<rparr>
          else capture_loop limit (already + blen chunk)
                 (if length seg \<le> n then rest else drop n seg # rest) breaks (chunks @ [chunk]))"
  by pat_completeness auto

termination
proof (relation "measure (\<lambda>(limit, already, segments, breaks, chunks). length (concat segments))", goal_cases)
  case (2 limit already segments breaks chunks seg rest n chunk)
  have "chunk \<noteq> []" by (rule 2(4))
  then have "0 < n" "seg \<noteq> []" using 2(3) by auto
  then show ?case using 2(1) by auto
qed simp

declare capture_loop.simps [simp del]

definition bounded_capture :: "int \<Rightarrow> pipe \<Rightarrow> capture" where
  "bounded_capture limit p = capture_loop limit 0 (pipe_segments p) (pipe_breaks p) []"

definition capture_contents :: "capture \<Rightarrow> bytes" where
  "capture_contents c = concat (cap_chunks c)"

section \<open>The repository\<close>

record git_repository =
  gr_root :: string
  gr_executable :: string
  gr_environment :: environment
  gr_marker :: "git_marker option"

definition git_command :: "git_repository \<Rightarrow> string list \<Rightarrow> string list" where
  "git_command r arguments =
     [gr_executable r, ''--no-pager'', ''--literal-pathspecs'', ''-C'', gr_root r, ''--work-tree='' @ gr_root r,
      ''-c'', ''core.excludesFile='' @ DEVNULL, ''-c'', ''core.fsmonitor=false'', ''-c'', ''core.untrackedCache=false'']
     @ arguments"

record completed =
  co_returncode :: int
  co_stdout :: bytes
  co_stderr :: bytes

definition captured_result :: "string \<Rightarrow> int \<Rightarrow> pipe \<Rightarrow> pipe \<Rightarrow> int \<Rightarrow> git_exc + completed" where
  "captured_result operation returncode out err stdout_limit =
     (let o' = bounded_capture stdout_limit out; e' = bounded_capture MAX_GIT_STDERR_BYTES err in
      if cap_error o' \<or> cap_error e' then git_fail operation
      else if cap_overflow o' \<or> cap_overflow e' then git_fail (operation @ '' output limit'')
      else Inr \<lparr>co_returncode = returncode, co_stdout = capture_contents o', co_stderr = capture_contents e'\<rparr>)"

definition judged_result :: "string \<Rightarrow> bool \<Rightarrow> bool \<Rightarrow> completed \<Rightarrow> git_exc + completed" where
  "judged_result operation check allow_stderr_on_failure c =
     (if co_stderr c \<noteq> [] \<and> \<not> (allow_stderr_on_failure \<and> \<not> check \<and> co_returncode c \<noteq> 0)
      then Inl (Git_Command operation (Some (co_returncode c)))
      else if check \<and> co_returncode c \<noteq> 0 then Inl (Git_Command operation (Some (co_returncode c)))
      else Inr c)"

definition git_run :: "('e, 'z) git_world_scheme \<Rightarrow> git_repository \<Rightarrow> string list \<Rightarrow> string \<Rightarrow> bool \<Rightarrow> bool \<Rightarrow> int
    \<Rightarrow> ('e, completed) act" where
  "git_run w r arguments operation check allow_stderr_on_failure stdout_limit =
     (if stdout_limit < 0 then act_fail (Git_Type ''stdout_limit must be a non-negative integer'')
      else act_bind (verify_git_marker w (gr_root r) (gr_marker r)) (\<lambda>_ e.
        case gw_spawn w (git_command r arguments) (gr_root r) (gr_environment r) e of
          (Not_Started, e) \<Rightarrow> (git_fail operation, e)
        | (Finished returncode out err, e) \<Rightarrow>
            act_bind (act_lift (captured_result operation returncode out err stdout_limit)) (\<lambda>c.
            act_bind (verify_git_marker w (gr_root r) (gr_marker r)) (\<lambda>_.
            act_lift (judged_result operation check allow_stderr_on_failure c))) e))"

abbreviation git_checked :: "('e, 'z) git_world_scheme \<Rightarrow> git_repository \<Rightarrow> string list \<Rightarrow> string \<Rightarrow> ('e, completed) act" where
  "git_checked w r arguments operation \<equiv> git_run w r arguments operation True False MAX_GIT_PATH_OUTPUT_BYTES"

section \<open>File sets\<close>

definition ls_files :: "('e, 'z) git_world_scheme \<Rightarrow> git_repository \<Rightarrow> string list \<Rightarrow> ('e, string list) act" where
  "ls_files w r paths =
     act_bind (git_checked w r ([''ls-files'', ''--full-name'', ''--cached'', ''--others'', ''--exclude-standard'', ''-z'', ''--''] @ paths)
        ''file enumeration'') (\<lambda>c.
     act_lift (decode_path_list (co_stdout c) ''file enumeration'' MAX_GIT_PATH_OUTPUT_BYTES MAX_GIT_PATHS))"

definition deleted_files :: "('e, 'z) git_world_scheme \<Rightarrow> git_repository \<Rightarrow> string list \<Rightarrow> ('e, string list) act" where
  "deleted_files w r paths =
     act_bind (git_checked w r ([''diff-files'', ''--name-only'', ''--diff-filter=D'', ''--no-renames'', ''-z'', ''--''] @ paths)
        ''deleted-file snapshot'') (\<lambda>c.
     act_lift (decode_path_list (co_stdout c) ''deleted-file snapshot'' MAX_GIT_PATH_OUTPUT_BYTES MAX_GIT_PATHS))"

record file_set =
  fse_listed :: "string list"
  fse_deleted :: "string list"
  fse_present :: "string list"

definition snapshot_file_set :: "('e, 'z) git_world_scheme \<Rightarrow> git_repository \<Rightarrow> string list \<Rightarrow> ('e, file_set) act" where
  "snapshot_file_set w r paths =
     act_bind (deleted_files w r paths) (\<lambda>first_deleted.
     act_bind (ls_files w r paths) (\<lambda>first_listed.
     act_bind (deleted_files w r paths) (\<lambda>second_deleted.
     act_bind (ls_files w r paths) (\<lambda>second_listed.
     if first_listed \<noteq> second_listed \<or> first_deleted \<noteq> second_deleted
        \<or> \<not> list_all (\<lambda>p. p \<in> set first_listed) first_deleted
     then act_fail (Git_Snapshot (''Git file set changed during enumeration; repository parent ''
       @ ''changed or is unsafe; a tracked-deleted member may have '' @ ''appeared after snapshot''))
     else act_return \<lparr>fse_listed = first_listed, fse_deleted = first_deleted,
       fse_present = filter (\<lambda>p. p \<notin> set first_deleted) first_listed\<rparr>))))"

section \<open>Identity\<close>

record git_identity =
  gi_revision :: "string option"
  gi_branch :: "string option"
  gi_detached :: bool
  gi_status_bytes :: bytes
  gi_status_lines :: "int list list"
  gi_status_sha256 :: string
  gi_index_sha256 :: "string option"

text \<open>An answer that may be absent: exit code 1 with empty output.\<close>

definition optional_answer :: "string \<Rightarrow> (bytes \<Rightarrow> git_exc + string) \<Rightarrow> completed \<Rightarrow> git_exc + string option" where
  "optional_answer operation decode c =
     (if co_returncode c = 0
      then if co_stderr c \<noteq> [] then Inl (Git_Command operation (Some (co_returncode c)))
        else bind_r (decode (co_stdout c)) (\<lambda>v. Inr (Some v))
      else if co_returncode c = 1 \<and> co_stdout c = [] \<and> co_stderr c = [] then Inr None
      else Inl (Git_Command operation (Some (co_returncode c))))"

definition observe_index :: "('e, 'z) git_world_scheme \<Rightarrow> git_repository \<Rightarrow> ('e, string option) act" where
  "observe_index w r =
     act_bind (git_checked w r [''ls-files'', ''--stage'', ''-z''] ''index observation'') (\<lambda>c.
     act_bind (act_lift (validate_index (co_stdout c))) (\<lambda>_.
     act_return (Some (sha256_bytes (co_stdout c)))))"

definition observe_identity_round :: "('e, 'z) git_world_scheme \<Rightarrow> git_repository \<Rightarrow> bool \<Rightarrow> ('e, git_identity) act" where
  "observe_identity_round w r include_index =
     act_bind (git_run w r [''rev-parse'', ''--verify'', ''--quiet'', ''HEAD''] ''revision observation'' False True
        MAX_GIT_SMALL_OUTPUT_BYTES) (\<lambda>c.
     act_bind (act_lift (optional_answer ''revision observation'' decode_revision c)) (\<lambda>revision.
     act_bind (git_run w r [''symbolic-ref'', ''--quiet'', ''--short'', ''HEAD''] ''branch observation'' False True
        MAX_GIT_SMALL_OUTPUT_BYTES) (\<lambda>c.
     act_bind (act_lift (optional_answer ''branch observation''
        (\<lambda>b. decode_one_line b ''branch observation'' utf8_text) c)) (\<lambda>branch.
     if revision = None \<and> branch = None then act_lift (git_fail ''HEAD observation coherence'')
     else
     act_bind (git_checked w r [''status'', ''--porcelain=v1'', ''--untracked-files=all''] ''status observation'') (\<lambda>status.
     act_bind (act_lift (decode_status (co_stdout status))) (\<lambda>lines.
     act_bind (if include_index then observe_index w r else act_return None) (\<lambda>index.
     act_return \<lparr>gi_revision = revision, gi_branch = branch, gi_detached = (branch = None),
       gi_status_bytes = co_stdout status, gi_status_lines = lines,
       gi_status_sha256 = sha256_bytes (co_stdout status), gi_index_sha256 = index\<rparr>)))))))"

definition observe_twice :: "('e, 'a) act \<Rightarrow> string \<Rightarrow> ('e, 'a) act" where
  "observe_twice observe msg =
     act_bind observe (\<lambda>first. act_bind observe (\<lambda>second.
     if first \<noteq> second then act_fail (Git_Snapshot msg) else act_return first))"

definition observe_identity :: "('e, 'z) git_world_scheme \<Rightarrow> git_repository \<Rightarrow> bool \<Rightarrow> ('e, git_identity) act" where
  "observe_identity w r include_index =
     observe_twice (observe_identity_round w r include_index) ''Git identity changed between consecutive observations''"

section \<open>Publication\<close>

record publication =
  pb_revision :: string
  pb_entries :: "tree_entry list"

definition publication_round :: "('e, 'z) git_world_scheme \<Rightarrow> git_repository \<Rightarrow> string list \<Rightarrow> ('e, publication) act" where
  "publication_round w r paths =
     act_bind (git_run w r [''rev-parse'', ''--verify'', ''HEAD^{commit}''] ''publication revision observation'' False True
        MAX_GIT_SMALL_OUTPUT_BYTES) (\<lambda>c.
     if co_returncode c \<noteq> 0 then act_fail (Git_Snapshot ''source archive publication requires a committed HEAD'')
     else if co_stderr c \<noteq> []
     then act_fail (Git_Command ''publication revision observation'' (Some (co_returncode c)))
     else
     act_bind (act_lift (decode_revision (co_stdout c))) (\<lambda>revision.
     act_bind (git_checked w r ([''status'', ''--porcelain=v1'', ''-z'', ''--untracked-files=all'', ''--''] @ paths)
        ''publication status observation'') (\<lambda>status.
     if co_stdout status \<noteq> []
     then act_fail (Git_Snapshot (''source archive publication paths differ from HEAD: tracked, ''
            @ ''staged, or untracked non-ignored content is present''))
     else
     act_bind (git_checked w r ([''ls-tree'', ''-r'', ''-z'', ''--full-tree'', revision, ''--''] @ paths)
        ''publication tree observation'') (\<lambda>tree.
     act_bind (act_lift (decode_tree_entries (co_stdout tree) ''publication tree observation'')) (\<lambda>entries.
     act_return \<lparr>pb_revision = revision, pb_entries = entries\<rparr>)))))"

definition snapshot_publication :: "('e, 'z) git_world_scheme \<Rightarrow> git_repository \<Rightarrow> string list \<Rightarrow> ('e, publication) act" where
  "snapshot_publication w r paths =
     observe_twice (publication_round w r paths) ''source archive publication state changed between observations''"

section \<open>Opening a repository\<close>

definition canonical_top_level :: "('e, 'z) git_world_scheme \<Rightarrow> (bytes \<Rightarrow> string option) \<Rightarrow> bytes \<Rightarrow> ('e, string) act" where
  "canonical_top_level w decode stdout =
     act_bind (act_lift (decode_top_level decode stdout)) (\<lambda>candidate.
     if \<not> starts_with candidate ''/'' then act_lift (git_fail ''top-level verification path'')
     else (\<lambda>e. case gw_resolve w candidate e of
        (None, e) \<Rightarrow> (git_fail ''top-level verification path'', e)
      | (Some resolved, e) \<Rightarrow> (case strict_root w resolved e of
           (Inl _, e) \<Rightarrow> (git_fail ''top-level verification path'', e)
         | (Inr root, e) \<Rightarrow> (Inr root, e))))"

definition same_directory :: "('e, 'z) git_world_scheme \<Rightarrow> string \<Rightarrow> string \<Rightarrow> ('e, bool) act" where
  "same_directory w left right = (\<lambda>e. case gw_samefile w left right e of
     (None, e) \<Rightarrow> (git_fail ''top-level verification identity'', e) | (Some b, e) \<Rightarrow> (Inr b, e))"

definition open_repository :: "('e, 'z) git_world_scheme \<Rightarrow> (string \<Rightarrow> string) \<Rightarrow> string \<Rightarrow> (bytes \<Rightarrow> string option)
    \<Rightarrow> string \<Rightarrow> environment \<Rightarrow> ('e, git_repository option) act" where
  "open_repository w upper defpath decode root env =
     act_bind (strict_root w root) (\<lambda>canonical.
     act_bind (capture_git_marker w canonical) (\<lambda>marker.
     if marker = None then act_return None
     else if ambient_git_names upper env \<noteq> []
     then act_fail (Git_Error (''ambient Git environment prevents exact-root verification: ''
            @ join_with '', '' (ambient_git_names upper env)))
     else
     act_bind (git_executable w defpath env) (\<lambda>executable.
     act_bind (verify_git_marker w canonical marker) (\<lambda>_.
     let r = \<lparr>gr_root = canonical, gr_executable = executable,
              gr_environment = child_environment upper defpath env, gr_marker = marker\<rparr> in
     act_bind (git_run w r [''rev-parse'', ''--show-toplevel''] ''top-level verification'' True False
        MAX_GIT_SMALL_OUTPUT_BYTES) (\<lambda>c.
     act_bind (canonical_top_level w decode (co_stdout c)) (\<lambda>reported.
     act_bind (same_directory w canonical reported) (\<lambda>same.
     if \<not> same then act_fail (Git_Error ''supplied root is not the exact Git worktree top-level'')
     else act_return (Some r))))))))"

end
