(* ===== verification/Git_Correct.thy ===== *)
theory Git_Correct
  imports Git_Observe
begin

text \<open>
  What an observation through Git guarantees (\<open>tools/repository_git.py\<close>): which path lists are
  accepted, how much of a pipe is kept, what a file-set snapshot holds, and what the child process
  can see of the environment.
\<close>

section \<open>Path lists\<close>

text \<open>A clean relative path: components joined by slashes, none empty, \<open>.\<close> or \<open>..\<close>.\<close>

definition clean_path :: "string \<Rightarrow> bool" where
  "clean_path p \<longleftrightarrow> (\<exists>cs. cs \<noteq> [] \<and> p = join_with ''/'' cs
     \<and> (\<forall>c \<in> set cs. c \<notin> {[], ''.'', ''..''} \<and> CHR ''/'' \<notin> set c))"

lemma join_with_head: "c \<noteq> [] \<Longrightarrow> join_with sep (c # cs) \<noteq> [] \<and> hd (join_with sep (c # cs)) = hd c"
  by (cases cs) auto

lemma safe_path_iff: "safe_path p \<longleftrightarrow> clean_path p"
proof
  assume s: "safe_path p"
  have "CHR ''/'' \<notin> set c" if "c \<in> set (posix_parts p)" for c
    using that split_on_parts[of c "CHR ''/''" p] by (auto simp: posix_parts_def)
  then show "clean_path p"
    using s unfolding clean_path_def safe_path_def list_all_iff by (intro exI[of _ "posix_parts p"]) auto
next
  assume "clean_path p"
  then obtain cs where cs: "cs \<noteq> []" "p = join_with ''/'' cs"
    "\<And>c. c \<in> set cs \<Longrightarrow> c \<notin> {[], ''.'', ''..''} \<and> CHR ''/'' \<notin> set c"
    by (auto simp: clean_path_def)
  have "split_on (CHR ''/'') p = cs" unfolding cs(2) by (rule split_on_join) (use cs in auto)
  then have parts: "posix_parts p = cs" using cs(3) by (auto simp: posix_parts_def filter_id_conv)
  obtain c ds where c: "cs = c # ds" using cs(1) by (cases cs) auto
  then have "hd c \<in> set c" "CHR ''/'' \<notin> set c" "c \<noteq> []" using cs(3)[of c] by (simp_all add: hd_in_set)
  then have "p \<noteq> []" "hd p \<noteq> CHR ''/''"
    using join_with_head[of c "''/''" ds] cs(2) c by metis+
  then have "\<not> starts_with p ''/''" by (cases p) (auto simp: starts_with_def)
  then show "safe_path p" using cs parts by (auto simp: safe_path_def list_all_iff)
qed

text \<open>Records that end in NUL.\<close>

definition nul_joined :: "bytes list \<Rightarrow> bytes" where
  "nul_joined rs = concat (map (\<lambda>r. r @ [0]) rs)"

lemma split_nul_joined: "(\<And>r. r \<in> set rs \<Longrightarrow> 0 \<notin> set r) \<Longrightarrow> split_on 0 (nul_joined rs) = rs @ [[]]"
proof (induction rs)
  case (Cons r rs)
  have "split_on 0 (nul_joined (r # rs)) = split_on 0 (r @ 0 # nul_joined rs)" by (simp add: nul_joined_def)
  then show ?case using Cons by (simp add: split_on_append_sep)
qed (simp add: nul_joined_def)

lemma nul_records_joined:
  assumes "\<And>r. r \<in> set rs \<Longrightarrow> 0 \<notin> set r"
  shows "nul_records (nul_joined rs) = rs"
proof (cases "rs = []")
  case False
  then have "nul_joined rs \<noteq> []" by (cases rs) (simp_all add: nul_joined_def)
  then show ?thesis using split_nul_joined[OF assms] by (simp add: nul_records_def)
qed (simp add: nul_joined_def nul_records_def)

lemma nul_joined_end: "nul_joined rs \<noteq> [] \<Longrightarrow> last (nul_joined rs) = 0"
  by (cases rs rule: rev_cases) (auto simp: nul_joined_def)

lemma count_nul_joined: "(\<And>r. r \<in> set rs \<Longrightarrow> 0 \<notin> set r) \<Longrightarrow> count_list (nul_joined rs) 0 = length rs"
  by (induction rs) (auto simp: nul_joined_def)

lemma split_on_snoc: "split_on c (ys @ [c]) = split_on c ys @ [[]]"
proof (induction ys)
  case (Cons y ys)
  obtain f fs where "split_on c ys = f # fs" using split_on_nonempty[of c ys] by (cases "split_on c ys") auto
  then show ?case using Cons by simp
qed simp

lemma split_on_last: "xs \<noteq> [] \<Longrightarrow> last xs = c \<Longrightarrow> last (split_on c xs) = []"
  by (metis append_butlast_last_id last_snoc split_on_snoc)

lemma join_snoc_Nil: "join_with [c] (rs @ [[]]) = concat (map (\<lambda>r. r @ [c]) rs)"
  by (induction rs) (auto simp: join_with_Cons)

lemma joined_nul_records:
  assumes "stdout = [] \<or> last stdout = 0"
  shows "stdout = nul_joined (nul_records stdout)" "\<And>r. r \<in> set (nul_records stdout) \<Longrightarrow> 0 \<notin> set r"
proof -
  show "stdout = nul_joined (nul_records stdout)"
  proof (cases "stdout = []")
    case False
    let ?s = "split_on 0 stdout"
    have "?s = butlast ?s @ [[]]"
      using split_on_last[OF False, of 0] assms False append_butlast_last_id[OF split_on_nonempty[of 0 stdout]] by auto
    then have "stdout = join_with [0] (butlast ?s @ [[]])" by (metis join_split_on)
    then show ?thesis using False by (simp add: nul_records_def nul_joined_def join_snoc_Nil)
  qed (simp add: nul_records_def nul_joined_def)
  show "0 \<notin> set r" if "r \<in> set (nul_records stdout)" for r
    using that split_on_parts[of r 0 stdout] by (auto simp: nul_records_def split: if_splits dest: in_set_butlastD)
qed

definition path_record :: "bytes \<Rightarrow> bool" where
  "path_record r \<longleftrightarrow> utf8_decode r \<noteq> None \<and> clean_path (str_of_bytes r)"

lemma path_step_Inr:
  "path_step operation r ps = Inr qs \<longleftrightarrow> path_record r \<and> str_of_bytes r \<notin> set ps \<and> qs = ps @ [str_of_bytes r]"
  by (auto simp: path_step_def utf8_text_def path_record_def safe_path_iff)

lemma path_steps_Inr:
  "fold_r (path_step operation) rs ps = Inr qs \<longleftrightarrow> list_all path_record rs
     \<and> distinct (map str_of_bytes rs) \<and> set (map str_of_bytes rs) \<inter> set ps = {} \<and> qs = ps @ map str_of_bytes rs"
  by (induction rs arbitrary: ps) (auto simp: bind_r_eq_Inr path_step_Inr)

lemma clean_path_nonempty: "clean_path p \<Longrightarrow> p \<noteq> []"
proof -
  assume "clean_path p"
  then obtain cs where "cs \<noteq> []" "p = join_with ''/'' cs" "[] \<notin> set cs" by (auto simp: clean_path_def)
  then show ?thesis using join_with_head[of "hd cs" "''/''" "tl cs"] by (cases cs) auto
qed

lemma path_record_nonempty: "path_record r \<Longrightarrow> r \<noteq> []"
  using clean_path_nonempty by (auto simp: path_record_def str_of_bytes_def)

definition accepts_paths :: "bytes \<Rightarrow> int \<Rightarrow> int \<Rightarrow> string list \<Rightarrow> bool" where
  "accepts_paths stdout max_bytes max_paths qs \<longleftrightarrow> blen stdout \<le> max_bytes \<and>
     (\<exists>rs. stdout = nul_joined rs \<and> (\<forall>r \<in> set rs. path_record r \<and> 0 \<notin> set r) \<and> int (length rs) \<le> max_paths
        \<and> distinct (map str_of_bytes rs) \<and> qs = sort (map str_of_bytes rs))"

lemma decode_path_list_iff:
  "decode_path_list stdout operation max_bytes max_paths = Inr qs \<longleftrightarrow> accepts_paths stdout max_bytes max_paths qs"
proof
  assume d: "decode_path_list stdout operation max_bytes max_paths = Inr qs"
  then have e: "stdout = [] \<or> last stdout = 0" and len: "blen stdout \<le> max_bytes"
    and cnt: "int (count_list stdout 0) \<le> max_paths"
    by (auto simp: decode_path_list_def res_simps split: if_splits)
  note r = joined_nul_records[OF e]
  obtain ps where "fold_r (path_step operation) (nul_records stdout) [] = Inr ps" "qs = sort ps"
    using d by (auto simp: decode_path_list_def res_simps bind_r_eq_Inr)
  then have p: "list_all path_record (nul_records stdout)" "distinct (map str_of_bytes (nul_records stdout))"
    "qs = sort (map str_of_bytes (nul_records stdout))"
    by (auto simp: path_steps_Inr)
  have "count_list stdout 0 = length (nul_records stdout)"
    using count_nul_joined[OF r(2)] r(1) by metis
  then show "accepts_paths stdout max_bytes max_paths qs"
    unfolding accepts_paths_def using len cnt r p by (intro conjI exI[of _ "nul_records stdout"]) (auto simp: list_all_iff)
next
  assume "accepts_paths stdout max_bytes max_paths qs"
  then obtain rs where len: "blen stdout \<le> max_bytes" and s: "stdout = nul_joined rs"
    and rs: "\<And>r. r \<in> set rs \<Longrightarrow> path_record r \<and> 0 \<notin> set r"
    and n: "int (length rs) \<le> max_paths" and dist: "distinct (map str_of_bytes rs)" and qs: "qs = sort (map str_of_bytes rs)"
    by (auto simp: accepts_paths_def)
  have rec: "nul_records stdout = rs" unfolding s by (rule nul_records_joined) (use rs in blast)
  have cnt: "count_list stdout 0 = length rs" unfolding s by (rule count_nul_joined) (use rs in blast)
  have none: "[] \<notin> set rs" using rs path_record_nonempty by blast
  have steps: "fold_r (path_step operation) rs [] = Inr (map str_of_bytes rs)"
    using dist rs by (simp add: path_steps_Inr list_all_iff)
  show "decode_path_list stdout operation max_bytes max_paths = Inr qs"
    unfolding decode_path_list_def rec cnt using len n none steps qs nul_joined_end[of rs] by (auto simp: s)
qed

lemma decode_path_list_sorted:
  "decode_path_list stdout operation mb mp = Inr qs \<Longrightarrow> sorted qs \<and> distinct qs"
  by (auto simp: decode_path_list_iff accepts_paths_def)

lemma decode_path_list_clean: "decode_path_list stdout operation mb mp = Inr qs \<Longrightarrow> list_all clean_path qs"
  by (auto simp: decode_path_list_iff accepts_paths_def list_all_iff path_record_def)

section \<open>Pipes\<close>

lemma capture_loop_correct:
  assumes "already = blen (concat chunks)" "already \<le> limit" "[] \<notin> set segments"
  shows "concat (cap_chunks (capture_loop limit already segments breaks chunks))
      = take (nat (limit + 1)) (concat chunks @ concat segments)
    \<and> cap_overflow (capture_loop limit already segments breaks chunks) = (limit < blen (concat chunks @ concat segments))
    \<and> cap_error (capture_loop limit already segments breaks chunks) =
        (breaks \<and> blen (concat chunks @ concat segments) \<le> limit)"
  using assms
proof (induction limit already segments breaks chunks rule: capture_loop.induct)
  case (1 limit already segments breaks chunks)
  show ?case
  proof (cases segments)
    case Nil
    then show ?thesis
      using "1.prems" by (subst (1 2 3) capture_loop.simps) (simp add: blen_def)
  next
    case (Cons seg rest)
    define n where "n = nat (min 65536 (limit + 1 - already))"
    define chunk where "chunk = take n seg"
    have n: "0 < n" "int n \<le> limit + 1 - already" using "1.prems"(2) by (auto simp: n_def)
    have sn: "seg \<noteq> []" using "1.prems"(3) Cons by auto
    then have ne: "chunk \<noteq> []" using n(1) by (simp add: chunk_def)
    define next_segs where "next_segs = (if length seg \<le> n then rest else drop n seg # rest)"
    have data: "concat segments = chunk @ concat next_segs" by (simp add: Cons chunk_def next_segs_def)
    have lenc: "blen chunk \<le> limit + 1 - already" using n(2) by (simp add: chunk_def blen_def)
    have step: "capture_loop limit already segments breaks chunks =
        (if already + blen chunk > limit
         then \<lparr>cap_chunks = chunks @ [chunk], cap_overflow = True, cap_error = False\<rparr>
         else capture_loop limit (already + blen chunk) next_segs breaks (chunks @ [chunk]))"
      using sn n(1)
      by (subst capture_loop.simps) (simp add: Cons Let_def n_def [symmetric] chunk_def [symmetric] next_segs_def)
    show ?thesis
    proof (cases "already + blen chunk > limit")
      case True
      then have l: "length (concat chunks) + length chunk = nat (limit + 1)"
        using lenc "1.prems"(1) by (simp add: blen_def)
      have t: "take (nat (limit + 1)) ((concat chunks @ chunk) @ ys) = concat chunks @ chunk" for ys
        by (simp add: l [symmetric])
      show ?thesis
        unfolding step data using True t[of "concat next_segs"] "1.prems"(1) by (simp add: blen_def)
    next
      case False
      have seg: "[] \<notin> set next_segs" using "1.prems"(3) by (auto simp: next_segs_def Cons)
      have IH: "concat (cap_chunks (capture_loop limit (already + blen chunk) next_segs breaks (chunks @ [chunk])))
          = take (nat (limit + 1)) (concat (chunks @ [chunk]) @ concat next_segs)
        \<and> cap_overflow (capture_loop limit (already + blen chunk) next_segs breaks (chunks @ [chunk])) =
            (limit < blen (concat (chunks @ [chunk]) @ concat next_segs))
        \<and> cap_error (capture_loop limit (already + blen chunk) next_segs breaks (chunks @ [chunk])) =
            (breaks \<and> blen (concat (chunks @ [chunk]) @ concat next_segs) \<le> limit)"
        unfolding next_segs_def chunk_def n_def
        by (rule "1.IH"[OF Cons refl refl])
          (use False ne "1.prems"(1,3) seg [unfolded next_segs_def] in \<open>simp_all add: chunk_def n_def Cons\<close>)
      show ?thesis unfolding step data using False IH by simp
    qed
  qed
qed

lemma capture_loop_bounded:
  assumes "already = blen (concat chunks)" "already \<le> limit"
    and "\<not> cap_overflow (capture_loop limit already segments breaks chunks)"
  shows "blen (capture_contents (capture_loop limit already segments breaks chunks)) \<le> limit"
  using assms
proof (induction limit already segments breaks chunks rule: capture_loop.induct)
  case (1 limit already segments breaks chunks)
  show ?case
  proof (cases segments)
    case Nil
    then show ?thesis using "1.prems" by (simp add: capture_loop.simps capture_contents_def)
  next
    case (Cons seg rest)
    define n where "n = nat (min 65536 (limit + 1 - already))"
    define chunk where "chunk = take n seg"
    define next_segs where "next_segs = (if length seg \<le> n then rest else drop n seg # rest)"
    have eq: "capture_loop limit already segments breaks chunks =
        (if chunk = [] then \<lparr>cap_chunks = chunks, cap_overflow = False, cap_error = False\<rparr>
         else if already + blen chunk > limit
         then \<lparr>cap_chunks = chunks @ [chunk], cap_overflow = True, cap_error = False\<rparr>
         else capture_loop limit (already + blen chunk) next_segs breaks (chunks @ [chunk]))"
      by (subst capture_loop.simps) (simp only: Cons list.case Let_def n_def chunk_def next_segs_def)
    show ?thesis
    proof (cases "chunk = [] \<or> already + blen chunk > limit")
      case True
      then show ?thesis
        using "1.prems" unfolding eq capture_contents_def by (auto split: if_splits)
    next
      case False
      then have "blen (capture_contents (capture_loop limit (already + blen chunk) next_segs breaks (chunks @ [chunk])))
          \<le> limit"
        using "1.prems" unfolding eq next_segs_def chunk_def n_def
        by (intro "1.IH"[OF Cons refl refl]) auto
      then show ?thesis using False unfolding eq by simp
    qed
  qed
qed

text \<open>C13. A captured pipe holds the stream up to one byte more than the limit: nothing is lost or
  reordered however the reads are cut, an overflow is reported exactly when the stream is longer
  than the limit, and a read error exactly when it happens before that.\<close>

theorem bounded_capture_exact:
  assumes "0 \<le> limit" "[] \<notin> set (pipe_segments p)"
  shows "capture_contents (bounded_capture limit p) = take (nat (limit + 1)) (concat (pipe_segments p))
    \<and> cap_overflow (bounded_capture limit p) = (limit < blen (concat (pipe_segments p)))
    \<and> cap_error (bounded_capture limit p) = (pipe_breaks p \<and> blen (concat (pipe_segments p)) \<le> limit)"
  using capture_loop_correct[of 0 "[]" limit "pipe_segments p" "pipe_breaks p"] assms
  by (simp add: bounded_capture_def capture_contents_def)

lemma bounded_capture_exact_witness:
  "capture_contents (bounded_capture 2 (Pipe [[1, 2], [3, 4]] True)) = [1, 2, 3]
   \<and> cap_overflow (bounded_capture 2 (Pipe [[1, 2], [3, 4]] True))"
  using bounded_capture_exact[of 2 "Pipe [[1, 2], [3, 4]] True"] by simp

section \<open>Actions\<close>

lemma if_act_git_fail [act_simps]:
  "(if c then act_lift (git_fail x) else m) e = (Inr v, e') \<longleftrightarrow> \<not> c \<and> m e = (Inr v, e')"
  by (simp add: act_lift_Inr)

lemma observe_twice_Inr:
  "observe_twice m msg e = (Inr v, e') \<longleftrightarrow> (\<exists>e1. m e = (Inr v, e1) \<and> m e1 = (Inr v, e'))"
  by (auto simp: observe_twice_def act_simps)

section \<open>Decoded lists\<close>

lemma path_step_command: "path_step operation r ps = Inl x \<Longrightarrow> \<exists>what. x = Git_Command (operation @ '' '' @ what) None"
  by (auto simp: path_step_def git_fail_def split: option.splits if_splits)

lemma fold_r_Inl: "fold_r f xs s = Inl x \<Longrightarrow> \<exists>y t. f y t = Inl x"
  by (induction xs arbitrary: s) (auto simp: bind_r_def split: sum.splits)

lemma decode_path_list_command:
  assumes "decode_path_list stdout operation mb mp = Inl x"
  shows "\<exists>what. x = Git_Command (operation @ '' '' @ what) None"
  using assms path_step_command fold_r_Inl[of "path_step operation"]
  by (fastforce simp: decode_path_list_def git_fail_def bind_r_def split: if_splits sum.splits)

text \<open>C12. A path list is accepted exactly when it is a sequence of NUL-terminated UTF-8 records,
  within both limits, each a clean relative path and no two alike; what is returned are the paths in
  order.  Everything else is a command error that names the operation.\<close>

theorem path_list_exact:
  "(decode_path_list stdout operation max_bytes max_paths = Inr qs) = accepts_paths stdout max_bytes max_paths qs
   \<and> (case decode_path_list stdout operation max_bytes max_paths of
        Inl (Git_Command what code) \<Rightarrow> starts_with what (operation @ '' '') \<and> code = None
      | Inl _ \<Rightarrow> False
      | Inr ps \<Rightarrow> sorted ps \<and> distinct ps \<and> list_all clean_path ps)"
proof (rule conjI)
  show "case decode_path_list stdout operation max_bytes max_paths of
        Inl (Git_Command what code) \<Rightarrow> starts_with what (operation @ '' '') \<and> code = None
      | Inl _ \<Rightarrow> False
      | Inr ps \<Rightarrow> sorted ps \<and> distinct ps \<and> list_all clean_path ps"
  proof (cases "decode_path_list stdout operation max_bytes max_paths")
    case (Inl x)
    then show ?thesis using decode_path_list_command[OF Inl] by (auto simp: starts_with_def)
  next
    case (Inr ps)
    then show ?thesis using decode_path_list_sorted[OF Inr] decode_path_list_clean[OF Inr] by simp
  qed
qed (rule decode_path_list_iff)

lemma tree_step_Inr:
  assumes "tree_step operation r es = Inr fs"
  shows "\<exists>e. fs = es @ [e] \<and> te_path e \<notin> set (map te_path es) \<and> clean_path (te_path e)
    \<and> te_mode e \<in> {0x81A4, 0x81ED} \<and> object_hash (te_object_id e)"
proof -
  obtain header raw where p: "py_partition 9 r = (header, True, raw)"
    and m: "split_on 0x20 header ! 0 \<in> {bytes_of_str ''100644'', bytes_of_str ''100755''}"
    and h: "hash_bytes (split_on 0x20 header ! 2)"
    using assms by (auto simp: tree_step_def Let_def res_simps split: prod.splits)
  then obtain ds where ds: "decode_path_list (raw @ [0]) operation MAX_GIT_PATH_OUTPUT_BYTES MAX_GIT_PATHS = Inr ds"
    "length ds = 1" "hd ds \<notin> set (map te_path es)"
    "fs = es @ [\<lparr>te_path = hd ds, te_mode = octal_value (split_on 0x20 header ! 0),
       te_object_id = str_of_bytes (split_on 0x20 header ! 2)\<rparr>]"
    using assms by (auto simp: tree_step_def Let_def res_simps bind_r_eq_Inr split: if_splits)
  have "octal_value (split_on 0x20 header ! 0) \<in> {0x81A4, 0x81ED}"
    using m by (auto simp: octal_value_def bytes_of_str_def)
  moreover have "clean_path (hd ds)"
    using decode_path_list_clean[OF ds(1)] ds(2) by (cases ds) auto
  ultimately show ?thesis using ds(3,4) h by (simp add: hash_bytes_def)
qed

definition tree_entries_ok :: "tree_entry list \<Rightarrow> bool" where
  "tree_entries_ok es \<longleftrightarrow> distinct (map te_path es)
     \<and> list_all (\<lambda>e. clean_path (te_path e) \<and> te_mode e \<in> {0x81A4, 0x81ED} \<and> object_hash (te_object_id e)) es"

lemma tree_steps_Inr:
  "fold_r (tree_step operation) rs es = Inr fs \<Longrightarrow> tree_entries_ok es \<Longrightarrow> tree_entries_ok fs \<and> length fs = length es + length rs"
proof (induction rs arbitrary: es)
  case (Cons r rs)
  obtain gs where g: "tree_step operation r es = Inr gs" "fold_r (tree_step operation) rs gs = Inr fs"
    using Cons.prems(1) by (auto simp: bind_r_eq_Inr)
  have "tree_entries_ok gs" "length gs = Suc (length es)"
    using tree_step_Inr[OF g(1)] Cons.prems(2) by (auto simp: tree_entries_ok_def)
  then show ?case using Cons.IH[OF g(2)] by simp
qed simp

lemma decode_tree_entries_Inr:
  assumes "decode_tree_entries stdout operation = Inr es"
  shows "tree_entries_ok es" "sorted (map te_path es)" "length es = length (nul_records stdout)"
proof -
  obtain fs where f: "fold_r (tree_step operation) (nul_records stdout) [] = Inr fs" "es = sort_key te_path fs"
    using assms by (auto simp: decode_tree_entries_def res_simps Let_def bind_r_eq_Inr split: if_splits)
  have ok: "tree_entries_ok fs" "length fs = length (nul_records stdout)"
    using tree_steps_Inr[OF f(1)] by (simp_all add: tree_entries_ok_def)
  have "mset (map te_path es) = mset (map te_path fs)" by (simp add: f(2))
  then have "distinct (map te_path es)" using ok(1) mset_eq_imp_distinct_iff by (fastforce simp: tree_entries_ok_def)
  then show "tree_entries_ok es" using ok(1) by (simp add: tree_entries_ok_def f(2) list_all_iff)
  show "sorted (map te_path es)" "length es = length (nul_records stdout)" using ok(2) by (simp_all add: f(2))
qed

lemma decode_one_line_framed:
  assumes "decode_one_line stdout operation decode = Inr v"
  shows "stdout = butlast stdout @ [10]" "decode (butlast stdout) = Some v" "10 \<notin> set (butlast stdout)"
proof -
  have fr: "one_line_framed stdout" and d: "decode (butlast stdout) = Some v"
    using assms by (auto simp: decode_one_line_def res_simps split: option.splits if_splits)
  show eq: "stdout = butlast stdout @ [10]"
    using fr append_butlast_last_id[of stdout] by (simp add: one_line_framed_def)
  show "decode (butlast stdout) = Some v" by (rule d)
  have "count_list (butlast stdout @ [10]) 10 = 1" using fr eq by (simp add: one_line_framed_def)
  then show "10 \<notin> set (butlast stdout)" by (simp add: count_list_0_iff)
qed

lemma decode_revision_Inr: "decode_revision stdout = Inr h \<Longrightarrow> object_hash h"
  by (auto simp: decode_revision_def bind_r_eq_Inr res_simps split: if_splits)

end
