(* ===== verification/Git_Guarantees.thy ===== *)
theory Git_Guarantees
  imports Git_Correct OS_Reads
begin

text \<open>
  What \<open>tools/repository_git.py\<close> guarantees whatever the file system and the Git process do: the
  marker, the child environment, one command, the file set, the identity, the publication snapshot
  and the opened repository.
\<close>

section \<open>The marker\<close>

lemma read_exactly_Inr:
  "read_exactly w d remaining contents e = (Inr b, e') \<Longrightarrow>
     \<exists>data. b = contents @ data \<and> supplies w d e data e' \<and> blen data = remaining"
proof (induction w d remaining contents e rule: read_exactly.induct)
  case (1 w d remaining contents e)
  show ?case
  proof (cases "remaining = 0")
    case False
    then obtain chunk e1 where c: "os_read w d (min 65536 remaining) e = (Some chunk, e1)" "chunk \<noteq> []"
      "read_exactly w d (remaining - blen chunk) (contents @ chunk) e1 = (Inr b, e')"
      using "1.prems" by (subst (asm) read_exactly.simps) (auto split: prod.splits option.splits if_splits)
    obtain data where "b = (contents @ chunk) @ data" "supplies w d e1 data e'" "blen data = remaining - blen chunk"
      using "1.IH"[OF False c(1)[symmetric] refl c(2,3)] by blast
    then show ?thesis using supplies_more[OF c(1,2)] by (intro exI[of _ "chunk @ data"]) simp
  qed (use "1.prems" in \<open>simp add: read_exactly.simps\<close>)
qed

text \<open>What a marker may be: a directory, or a small regular file with the digest of its bytes.\<close>

definition marker_ok :: "git_marker \<Rightarrow> bool" where
  "marker_ok m \<longleftrightarrow>
     (if gm_kind m = ''directory'' then gm_mode m = 0x4000 \<and> gm_size m = 0 \<and> gm_sha256 m = None
      else gm_kind m = ''file'' \<and> S_ISREG (gm_mode m) \<and> gm_size m \<le> MAX_GIT_MARKER_BYTES
        \<and> (\<exists>b. blen b = gm_size m \<and> gm_sha256 m = Some (sha256_bytes b)))"

lemma marker_contents_Inr:
  assumes "marker_contents w d metadata e = (Inr data, e')"
  shows "blen data = st_size metadata"
    "\<exists>opened final e1 e2. gw_fstat w d e = (Some opened, e1) \<and> delivers w d e1 data e2 \<and> gw_fstat w d e2 = (Some final, e')
       \<and> opened = metadata \<and> final = metadata"
proof -
  obtain opened e1 e2 e3 final where c: "gw_fstat w d e = (Some opened, e1)"
    "marker_identity metadata ''file'' None = marker_identity opened ''file'' None"
    "read_exactly w d (st_size opened) [] e1 = (Inr data, e2)" "os_read w d 1 e2 = (Some [], e3)"
    "gw_fstat w d e3 = (Some final, e')" "marker_identity final ''file'' None = marker_identity metadata ''file'' None"
    using assms by (auto simp: marker_contents_def Let_def act_simps)
  have same: "opened = metadata" "final = metadata" using c(2,6) by (simp_all add: marker_identity_def)
  obtain "supplies w d e1 data e2" "blen data = st_size opened" using read_exactly_Inr[OF c(3)] by auto
  then show "blen data = st_size metadata"
    "\<exists>opened final e1 e2. gw_fstat w d e = (Some opened, e1) \<and> delivers w d e1 data e2 \<and> gw_fstat w d e2 = (Some final, e')
       \<and> opened = metadata \<and> final = metadata"
    using delivers_probe[of w d e1 data e2 e3] c same by blast+
qed

text \<open>
  What the run saw of a marker: the metadata of the path before it was opened, and for a file the bytes
  its descriptor delivered up to the end, between two inspections that gave the same metadata again.
\<close>

definition marker_seen :: "('e, 'z) git_world_scheme \<Rightarrow> string \<Rightarrow> 'e \<Rightarrow> git_marker \<Rightarrow> 'e \<Rightarrow> bool" where
  "marker_seen w root e m e' \<longleftrightarrow>
     (\<exists>metadata e1. gw_lstat w (git_marker_path root) e = (Found metadata, e1)
        \<and> gm_device m = st_dev metadata \<and> gm_inode m = st_ino metadata
        \<and> (if gm_kind m = ''directory'' then S_ISDIR (st_mode metadata) \<and> e' = e1
           else S_ISREG (st_mode metadata) \<and> gm_mode m = st_mode metadata
             \<and> gm_mtime_ns m = st_mtime_ns metadata \<and> gm_ctime_ns m = st_ctime_ns metadata
             \<and> (\<exists>d e2 e3 data e4 e5. gw_open w (git_marker_path root) e1 = (Some d, e2)
                  \<and> gw_fstat w d e2 = (Some metadata, e3) \<and> delivers w d e3 data e4
                  \<and> gw_fstat w d e4 = (Some metadata, e5) \<and> e' = gw_close w d e5
                  \<and> blen data = st_size metadata \<and> gm_size m = blen data
                  \<and> gm_sha256 m = Some (sha256_bytes data))))"

lemma capture_git_marker_Inr:
  assumes "capture_git_marker w root e = (Inr (Some m), e')"
  shows "marker_ok m" "marker_seen w root e m e'"
proof -
  obtain metadata e1 where l: "gw_lstat w (git_marker_path root) e = (Found metadata, e1)"
    and t: "S_ISDIR (st_mode metadata) \<or> S_ISREG (st_mode metadata)"
    using assms by (auto simp: capture_git_marker_def Let_def split: prod.splits lookup.splits if_splits)
  have "marker_ok m \<and> marker_seen w root e m e'"
  proof (cases "S_ISDIR (st_mode metadata)")
    case True
    then have "m = marker_identity metadata ''directory'' None" "e' = e1"
      using assms l by (auto simp: capture_git_marker_def Let_def split: if_splits)
    then show ?thesis using True l by (simp add: marker_ok_def marker_seen_def marker_identity_def S_ISDIR_def)
  next
    case False
    then obtain d e2 data e3 where c: "gw_open w (git_marker_path root) e1 = (Some d, e2)"
      "marker_contents w d metadata e2 = (Inr data, e3)" "e' = gw_close w d e3" "st_size metadata \<le> MAX_GIT_MARKER_BYTES"
      "m = marker_identity metadata ''file'' (Some (sha256_bytes data))"
      using assms l by (auto simp: capture_git_marker_def Let_def map_sum_def
          split: if_splits prod.splits option.splits sum.splits)
    have "marker_ok m" using False t c(4,5) marker_contents_Inr(1)[OF c(2)] by (auto simp: marker_ok_def marker_identity_def)
    moreover have "marker_seen w root e m e'"
      using False t l c(1,3,5) marker_contents_Inr[OF c(2)] unfolding marker_seen_def
      by (clarsimp simp: marker_identity_def) metis
    ultimately show ?thesis ..
  qed
  then show "marker_ok m" "marker_seen w root e m e'" by simp_all
qed

lemma verify_git_marker_Inr:
  "verify_git_marker w root expected e = (Inr u, e') \<longleftrightarrow>
     (if expected = None then e' = e else capture_git_marker w root e = (Inr expected, e'))"
  by (auto simp: verify_git_marker_def act_simps)

text \<open>C16. An accepted marker is what the run saw at the path: a real directory, or a regular file of at
  most 64 KiB whose digest is that of the bytes the opened file delivered up to its end, as many as
  its metadata says, between two inspections that agree with the one before it was opened; it is
  never a symbolic link, and no marker is reported only when the path does not exist.\<close>

theorem marker_is_safe:
  "case capture_git_marker w root e of (Inl _, _) \<Rightarrow> True
   | (Inr marker, e') \<Rightarrow>
       (case marker of
          None \<Rightarrow> gw_lstat w (git_marker_path root) e = (Missing, e')
        | Some m \<Rightarrow> marker_ok m \<and> \<not> S_ISLNK (gm_mode m) \<and> marker_seen w root e m e')"
proof -
  have "marker_ok x \<Longrightarrow> \<not> S_ISLNK (gm_mode x)" for x
    by (auto simp: marker_ok_def S_ISREG_def S_ISLNK_def S_IFMT_def split: if_splits)
  moreover have "capture_git_marker w root e = (Inr None, e') \<Longrightarrow> gw_lstat w (git_marker_path root) e = (Missing, e')" for e'
    by (auto simp: capture_git_marker_def Let_def map_sum_def
        split: prod.splits lookup.splits if_splits option.splits sum.splits)
  ultimately show ?thesis
    using capture_git_marker_Inr[of w root e] by (auto split: prod.split sum.split option.split)
qed

section \<open>The environment\<close>

lemma map_of_rev_fixed: "map_of (rev FIXED_ENVIRONMENT) = map_of FIXED_ENVIRONMENT"
  by (rule ext) (simp add: FIXED_ENVIRONMENT_def)

lemma map_of_filter_key: "map_of (filter (\<lambda>p. P (fst p)) d) k = (if P k then map_of d k else None)"
  by (induction d) auto

text \<open>What the child sees: a fixed entry, else an inherited one, else the default for \<open>PATH\<close>.\<close>

lemma child_environment_lookup:
  "map_of (child_environment upper defpath env) name =
     (case map_of FIXED_ENVIRONMENT name of
        Some v \<Rightarrow> Some v
      | None \<Rightarrow>
          (case (if upper name \<in> set INHERITED_ENVIRONMENT then map_of env name else None) of
             Some v \<Rightarrow> Some v
           | None \<Rightarrow> if name = ''PATH'' then Some defpath else None))"
  using map_of_filter_key[of "\<lambda>n. upper n \<in> set INHERITED_ENVIRONMENT" env]
  by (auto simp: child_environment_def Let_def map_of_dict_update map_of_rev_fixed map_add_def split: option.split)

section \<open>One command\<close>

lemma captured_result_Inr:
  assumes "captured_result operation rc out err limit = Inr c" "0 \<le> limit"
  shows "co_returncode c = rc \<and> blen (co_stdout c) \<le> limit \<and> blen (co_stderr c) \<le> MAX_GIT_STDERR_BYTES"
proof -
  have "blen (capture_contents (bounded_capture l p)) \<le> l" if "\<not> cap_overflow (bounded_capture l p)" "0 \<le> l" for l p
    using capture_loop_bounded[of 0 "[]" l] that by (simp add: bounded_capture_def)
  then show ?thesis
    using assms by (auto simp: captured_result_def Let_def git_fail_def MAX_GIT_STDERR_BYTES_def split: if_splits)
qed

definition command_accepted :: "bool \<Rightarrow> bool \<Rightarrow> int \<Rightarrow> completed \<Rightarrow> bool" where
  "command_accepted check allow limit c \<longleftrightarrow>
     blen (co_stdout c) \<le> limit \<and> blen (co_stderr c) \<le> MAX_GIT_STDERR_BYTES
     \<and> (co_stderr c = [] \<or> allow \<and> \<not> check \<and> co_returncode c \<noteq> 0) \<and> (co_returncode c = 0 \<or> \<not> check)"

lemma judged_result_Inr:
  "judged_result operation check allow c = Inr c' \<longleftrightarrow> c' = c
     \<and> (co_stderr c = [] \<or> allow \<and> \<not> check \<and> co_returncode c \<noteq> 0) \<and> (co_returncode c = 0 \<or> \<not> check)"
  by (auto simp: judged_result_def)

lemma git_run_Inr:
  assumes "git_run w r arguments operation check allow limit e = (Inr c, e')"
  shows "command_accepted check allow limit c
    \<and> (\<exists>e1. verify_git_marker w (gr_root r) (gr_marker r) e = (Inr (), e1))
    \<and> (\<exists>e1. verify_git_marker w (gr_root r) (gr_marker r) e1 = (Inr (), e'))"
proof -
  have limit: "0 \<le> limit" using assms by (auto simp: git_run_def act_simps)
  obtain e1 where v: "verify_git_marker w (gr_root r) (gr_marker r) e = (Inr (), e1)"
    and rest: "(case gw_spawn w (git_command r arguments) (gr_root r) (gr_environment r) e1 of
          (Not_Started, e) \<Rightarrow> (git_fail operation, e)
        | (Finished returncode out err, e) \<Rightarrow>
            act_bind (act_lift (captured_result operation returncode out err limit)) (\<lambda>c.
            act_bind (verify_git_marker w (gr_root r) (gr_marker r)) (\<lambda>_.
            act_lift (judged_result operation check allow c))) e) = (Inr c, e')"
    using assms limit by (auto simp: git_run_def act_bind_Inr)
  obtain p e2 where p: "gw_spawn w (git_command r arguments) (gr_root r) (gr_environment r) e1 = (p, e2)"
    by (cases "gw_spawn w (git_command r arguments) (gr_root r) (gr_environment r) e1")
  obtain rc out err c0 where s: "verify_git_marker w (gr_root r) (gr_marker r) e = (Inr (), e1)"
    "captured_result operation rc out err limit = Inr c0"
    "verify_git_marker w (gr_root r) (gr_marker r) e2 = (Inr (), e')"
    "judged_result operation check allow c0 = Inr c"
    using v rest p by (cases p) (auto simp: act_simps)
  show ?thesis
    using captured_result_Inr[OF s(2) limit] s by (auto simp: judged_result_Inr command_accepted_def)
qed

text \<open>C15. A Git command returns only with both pipes inside their limits, a silent error stream unless
  a tolerated failure wrote it, exit code zero when it is checked, and the repository marker
  unchanged before and after the process.\<close>

theorem command_accepted_only_guarded:
  "case git_run w r arguments operation check allow limit e of (Inl _, _) \<Rightarrow> True
   | (Inr c, e') \<Rightarrow> command_accepted check allow limit c
       \<and> (\<exists>e1. verify_git_marker w (gr_root r) (gr_marker r) e = (Inr (), e1))
       \<and> (\<exists>e1. verify_git_marker w (gr_root r) (gr_marker r) e1 = (Inr (), e'))"
  by (auto split: prod.split sum.split dest!: git_run_Inr)

section \<open>The file set\<close>

lemma ls_files_clean: "ls_files w r paths e = (Inr ps, e') \<Longrightarrow> sorted ps \<and> distinct ps \<and> list_all clean_path ps"
  using decode_path_list_sorted decode_path_list_clean by (auto simp: ls_files_def act_simps)

lemma deleted_files_clean: "deleted_files w r paths e = (Inr ps, e') \<Longrightarrow> sorted ps \<and> distinct ps \<and> list_all clean_path ps"
  using decode_path_list_sorted decode_path_list_clean by (auto simp: deleted_files_def act_simps)

definition file_set_ok :: "file_set \<Rightarrow> bool" where
  "file_set_ok s \<longleftrightarrow> sorted (fse_listed s) \<and> distinct (fse_listed s) \<and> list_all clean_path (fse_listed s)
     \<and> sorted (fse_present s) \<and> distinct (fse_present s)
     \<and> set (fse_deleted s) \<subseteq> set (fse_listed s) \<and> set (fse_present s) = set (fse_listed s) - set (fse_deleted s)"

text \<open>C11. A file set is returned only when deletions and listings, sampled in turn, agree twice in a
  row; deleted paths are then among the listed ones and the present paths are exactly the listed
  ones that are not deleted, clean, in order and without repetition.\<close>

theorem file_set_stable:
  "case snapshot_file_set w r paths e of (Inl _, _) \<Rightarrow> True
   | (Inr s, e') \<Rightarrow> file_set_ok s
       \<and> (\<exists>e1 e2 e3. deleted_files w r paths e = (Inr (fse_deleted s), e1) \<and> ls_files w r paths e1 = (Inr (fse_listed s), e2)
            \<and> deleted_files w r paths e2 = (Inr (fse_deleted s), e3) \<and> ls_files w r paths e3 = (Inr (fse_listed s), e'))"
proof -
  have "file_set_ok s
       \<and> (\<exists>e1 e2 e3. deleted_files w r paths e = (Inr (fse_deleted s), e1) \<and> ls_files w r paths e1 = (Inr (fse_listed s), e2)
            \<and> deleted_files w r paths e2 = (Inr (fse_deleted s), e3) \<and> ls_files w r paths e3 = (Inr (fse_listed s), e'))"
    if run: "snapshot_file_set w r paths e = (Inr s, e')" for s e'
  proof -
    obtain ds e1 ls e2 e3 where o: "deleted_files w r paths e = (Inr ds, e1)" "ls_files w r paths e1 = (Inr ls, e2)"
      "deleted_files w r paths e2 = (Inr ds, e3)" "ls_files w r paths e3 = (Inr ls, e')" "set ds \<subseteq> set ls"
      and s: "s = \<lparr>fse_listed = ls, fse_deleted = ds, fse_present = filter (\<lambda>p. p \<notin> set ds) ls\<rparr>"
      using run by (fastforce simp: snapshot_file_set_def act_simps list_all_iff)
    have "file_set_ok s" using ls_files_clean[OF o(2)] o(5) by (auto simp: file_set_ok_def s sorted_wrt_filter)
    then show ?thesis using o by (auto simp: s)
  qed
  then show ?thesis by (auto split: prod.split sum.split)
qed

section \<open>Identity and publication\<close>

lemma optional_answer_Inr:
  "optional_answer operation decode c = Inr v \<Longrightarrow>
     (if co_returncode c = 0 then \<exists>x. v = Some x \<and> decode (co_stdout c) = Inr x else v = None)"
  by (auto simp: optional_answer_def bind_r_eq_Inr split: if_splits)

definition identity_ok :: "bool \<Rightarrow> git_identity \<Rightarrow> bool" where
  "identity_ok include_index i \<longleftrightarrow>
     (gi_revision i \<noteq> None \<or> gi_branch i \<noteq> None) \<and> gi_detached i = (gi_branch i = None)
     \<and> (case gi_revision i of None \<Rightarrow> True | Some h \<Rightarrow> object_hash h)
     \<and> decode_status (gi_status_bytes i) = Inr (gi_status_lines i)
     \<and> gi_status_sha256 i = sha256_bytes (gi_status_bytes i)
     \<and> (case gi_index_sha256 i of None \<Rightarrow> \<not> include_index
        | Some h \<Rightarrow> include_index \<and> (\<exists>b. validate_index b = Inr () \<and> h = sha256_bytes b))"

lemma revision_answer:
  "optional_answer operation decode_revision c = Inr v \<Longrightarrow> case v of None \<Rightarrow> True | Some h \<Rightarrow> object_hash h"
  using optional_answer_Inr[of operation decode_revision c v] decode_revision_Inr by (auto split: if_splits option.split)

lemma index_answer:
  "(if include_index then observe_index w r else act_return None) e = (Inr ix, e') \<Longrightarrow>
     case ix of None \<Rightarrow> \<not> include_index | Some h \<Rightarrow> include_index \<and> (\<exists>b. validate_index b = Inr () \<and> h = sha256_bytes b)"
  by (auto simp: observe_index_def act_simps split: if_splits)

lemma observe_identity_round_Inr:
  "observe_identity_round w r include_index e = (Inr i, e') \<Longrightarrow> identity_ok include_index i"
  unfolding observe_identity_round_def act_simps identity_ok_def
  by (elim exE conjE) (simp add: revision_answer index_answer)

text \<open>An observation whose every round gives valid answers, taken twice.\<close>

locale stable_observation =
  fixes observe :: "'e \<Rightarrow> (git_exc + 'a) \<times> 'e" and valid :: "'a \<Rightarrow> bool"
  assumes round_valid: "observe e = (Inr v, e') \<Longrightarrow> valid v"
begin

lemma twice:
  "observe_twice observe msg e = (Inr v, e') \<Longrightarrow>
     valid v \<and> (\<exists>e1. observe e = (Inr v, e1) \<and> observe e1 = (Inr v, e'))"
  using round_valid by (auto simp: observe_twice_Inr)

end

interpretation identity: stable_observation "observe_identity_round w r include_index" "identity_ok include_index"
  for w r include_index
  by unfold_locales (rule observe_identity_round_Inr)

text \<open>C14. An observed identity is coherent and stable: two full rounds gave the same answers; the
  revision is a full object hash, HEAD names a revision or a branch, it is detached exactly without
  a branch, the digests are those of the validated status and index, and the index is present
  exactly on request.\<close>

theorem identity_coherent:
  "case observe_identity w r include_index e of (Inl _, _) \<Rightarrow> True
   | (Inr i, e') \<Rightarrow> identity_ok include_index i
       \<and> (\<exists>e1. observe_identity_round w r include_index e = (Inr i, e1)
            \<and> observe_identity_round w r include_index e1 = (Inr i, e'))"
  using identity.twice[of w r include_index]
  by (auto simp: observe_identity_def split: prod.split sum.split)

text \<open>A publication that comes from a clean working tree.\<close>

definition publication_ok :: "('e, 'z) git_world_scheme \<Rightarrow> git_repository \<Rightarrow> string list \<Rightarrow> publication \<Rightarrow> bool" where
  "publication_ok w r paths p \<longleftrightarrow>
     object_hash (pb_revision p) \<and> sorted (map te_path (pb_entries p)) \<and> tree_entries_ok (pb_entries p)
     \<and> (\<exists>e1 e2 c. git_checked w r ([''status'', ''--porcelain=v1'', ''-z'', ''--untracked-files=all'', ''--''] @ paths)
          ''publication status observation'' e1 = (Inr c, e2) \<and> co_stdout c = [])"

lemma publication_round_Inr: "publication_round w r paths e = (Inr p, e') \<Longrightarrow> publication_ok w r paths p"
  using decode_revision_Inr decode_tree_entries_Inr(1,2)
  by (auto simp: publication_ok_def publication_round_def act_simps git_fail_def split: if_splits)

interpretation published: stable_observation "publication_round w r paths" "publication_ok w r paths"
  for w r paths
  by unfold_locales (rule publication_round_Inr)

text \<open>A publication snapshot is bound to a committed revision: the selected paths were clean in
  both rounds, both rounds agree, and the entries are regular files at distinct clean paths in
  order with full object hashes.\<close>

theorem publication_clean:
  "case snapshot_publication w r paths e of (Inl _, _) \<Rightarrow> True
   | (Inr p, e') \<Rightarrow> publication_ok w r paths p
       \<and> (\<exists>e1. publication_round w r paths e = (Inr p, e1) \<and> publication_round w r paths e1 = (Inr p, e'))"
  using published.twice[of w r paths]
  by (auto simp: snapshot_publication_def split: prod.split sum.split)

section \<open>Opening\<close>

text \<open>A repository that was opened on the root.\<close>

definition opened_for :: "(string \<Rightarrow> string) \<Rightarrow> string \<Rightarrow> environment \<Rightarrow> git_repository \<Rightarrow> bool" where
  "opened_for upper defpath env r \<longleftrightarrow>
     ambient_git_names upper env = [] \<and> gr_environment r = child_environment upper defpath env
     \<and> (case gr_marker r of None \<Rightarrow> False | Some m \<Rightarrow> marker_ok m)"

text \<open>C10. Opening returns nothing exactly when the root holds no marker, whatever the environment and
  without running Git.  A repository is returned only without ambient \<open>GIT_*\<close> names, with a safe
  marker and the sanitised environment, in which every variable is fixed, inherited or the default
  \<open>PATH\<close>.\<close>

theorem open_repository_hermetic:
  "((open_repository w upper defpath decode root env e = (Inr None, e')) =
      (\<exists>canonical e1. strict_root w root e = (Inr canonical, e1) \<and> capture_git_marker w canonical e1 = (Inr None, e')))
   \<and> (case open_repository w upper defpath decode root env e of (Inl _, _) \<Rightarrow> True
      | (Inr None, _) \<Rightarrow> True
      | (Inr (Some r), _) \<Rightarrow> opened_for upper defpath env r
          \<and> map_of (gr_environment r) name =
             (case map_of FIXED_ENVIRONMENT name of
                Some v \<Rightarrow> Some v
              | None \<Rightarrow>
                  (case (if upper name \<in> set INHERITED_ENVIRONMENT then map_of env name else None) of
                     Some v \<Rightarrow> Some v
                   | None \<Rightarrow> if name = ''PATH'' then Some defpath else None)))"
proof (rule conjI)
  show "(open_repository w upper defpath decode root env e = (Inr None, e')) =
      (\<exists>canonical e1. strict_root w root e = (Inr canonical, e1) \<and> capture_git_marker w canonical e1 = (Inr None, e'))"
    by (auto simp: open_repository_def act_simps Let_def split: if_splits)
  have "opened_for upper defpath env r" if "open_repository w upper defpath decode root env e = (Inr (Some r), e2)" for r e2
    using that capture_git_marker_Inr
    by (auto simp: open_repository_def act_simps Let_def opened_for_def split: if_splits)
  then show "case open_repository w upper defpath decode root env e of (Inl _, _) \<Rightarrow> True
      | (Inr None, _) \<Rightarrow> True
      | (Inr (Some r), _) \<Rightarrow> opened_for upper defpath env r
          \<and> map_of (gr_environment r) name =
             (case map_of FIXED_ENVIRONMENT name of
                Some v \<Rightarrow> Some v
              | None \<Rightarrow>
                  (case (if upper name \<in> set INHERITED_ENVIRONMENT then map_of env name else None) of
                     Some v \<Rightarrow> Some v
                   | None \<Rightarrow> if name = ''PATH'' then Some defpath else None))"
    by (auto simp: opened_for_def child_environment_lookup split: prod.split sum.split option.split)
qed

end
