(* ===== verification/Report_Schedule.thy ===== *)
theory Report_Schedule
  imports Prelude "HOL-Library.Multiset"
begin

text \<open>
  Fresh-process scheduling of the report runners (\<open>bench/tools/report_schedule.py\<close>): the
  validation of a schedule, the Latin rotation, the schedule itself and the collection of the
  samples into buckets.
\<close>

section \<open>Library labels\<close>

text \<open>
  \<open>str.strip\<close> and \<open>str.lower\<close> depend on Unicode tables; they are the parameters \<open>strip\<close> and
  \<open>lower\<close>.  The substitution of \<open>[^a-z0-9]+\<close> by nothing keeps the characters of the class.
\<close>

definition label_char :: "char \<Rightarrow> bool" where
  "label_char c \<longleftrightarrow> c \<in> set ''abcdefghijklmnopqrstuvwxyz0123456789''"

definition normalized_library_label :: "(string \<Rightarrow> string) \<Rightarrow> (string \<Rightarrow> string) \<Rightarrow> string \<Rightarrow> string" where
  "normalized_library_label strip lower v =
     (let name = strip v; folded = filter label_char (lower name) in
      if folded \<in> {''zynum'', ''zynumblas'', ''libzynum'', ''libzynumblas''} then ''Zynum'' else name)"

text \<open>The exception carries the label, the earlier label and the shared semantic label.\<close>

datatype schedule_error =
    Duplicate_Label string string string
  | Unknown_Schedule string
  | No_Library
  | No_Repeat
  | Not_Multiple int
  | No_Case

fun label_step :: "(string \<Rightarrow> string) \<Rightarrow> (string \<Rightarrow> string) \<Rightarrow> string \<times> 'p \<Rightarrow> (string \<times> string) list
    \<Rightarrow> schedule_error + (string \<times> string) list" where
  "label_step strip lower (label, path) seen =
     (let semantic = normalized_library_label strip lower label in
      case map_of seen semantic of
        Some previous \<Rightarrow> Inl (Duplicate_Label label previous semantic)
      | None \<Rightarrow> Inr (dict_set semantic label seen))"

definition validate_unique_library_labels ::
    "(string \<Rightarrow> string) \<Rightarrow> (string \<Rightarrow> string) \<Rightarrow> (string \<times> 'p) list \<Rightarrow> schedule_error + unit" where
  "validate_unique_library_labels strip lower libraries =
     bind_r (fold_r (label_step strip lower) libraries []) (\<lambda>_. Inr ())"

section \<open>Schedules\<close>

definition SCHEDULE_CHOICES :: "string list" where
  "SCHEDULE_CHOICES = [''library-major'', ''interleaved'']"

definition validate_schedule :: "int \<Rightarrow> int \<Rightarrow> string \<Rightarrow> schedule_error + unit" where
  "validate_schedule library_count process_repeats schedule =
     (if schedule \<notin> set SCHEDULE_CHOICES then Inl (Unknown_Schedule schedule)
      else if library_count < 1 then Inl No_Library
      else if process_repeats < 1 then Inl No_Repeat
      else if schedule = ''interleaved'' \<and> process_repeats mod library_count \<noteq> 0
      then Inl (Not_Multiple library_count)
      else Inr ())"

text \<open>\<open>range(n)\<close>.\<close>

definition py_range :: "int \<Rightarrow> int list" where
  "py_range n = [0..n - 1]"

definition repeat_library_order :: "int \<Rightarrow> int \<Rightarrow> int \<Rightarrow> int list" where
  "repeat_library_order library_count repeat_index case_index =
     (let first = (repeat_index + case_index) mod library_count in
      map (\<lambda>position. (first + position) mod library_count) (py_range library_count))"

definition library_repeat_schedule :: "int \<Rightarrow> int \<Rightarrow> string \<Rightarrow> int \<Rightarrow> schedule_error + (int \<times> int \<times> int) list" where
  "library_repeat_schedule library_count process_repeats schedule case_count =
     bind_r (validate_schedule library_count process_repeats schedule) (\<lambda>_.
     if case_count < 1 then Inl No_Case
     else if schedule = ''library-major''
     then Inr [(l, c, r). l \<leftarrow> py_range library_count, c \<leftarrow> py_range case_count, r \<leftarrow> py_range process_repeats]
     else Inr [(l, c, r). r \<leftarrow> py_range process_repeats, c \<leftarrow> py_range case_count,
            l \<leftarrow> repeat_library_order library_count r c])"

text \<open>
  \<open>collect_repeats\<close>: \<open>run_one\<close> and \<open>announce\<close> act on a state; \<open>buckets\<close> is a list per library of
  a list per case of samples.
\<close>

definition bucket_append :: "int \<Rightarrow> int \<Rightarrow> 'v \<Rightarrow> 'v list list list \<Rightarrow> 'v list list list" where
  "bucket_append l c v buckets =
     buckets[nat l := (buckets ! nat l)[nat c := (buckets ! nat l ! nat c) @ [v]]]"

definition collect_step :: "string \<Rightarrow> (int \<Rightarrow> int \<Rightarrow> int \<Rightarrow> 's \<Rightarrow> 'v \<times> 's) \<Rightarrow> (int \<Rightarrow> int \<Rightarrow> int option \<Rightarrow> 's \<Rightarrow> 's)
    \<Rightarrow> int \<times> int \<times> int \<Rightarrow> 'v list list list \<times> 's \<Rightarrow> 'v list list list \<times> 's" where
  "collect_step schedule run_one announce job acc =
     (let (l, c, r) = job; (buckets, s) = acc;
          s = (if schedule = ''interleaved'' then announce l c (Some r) s
               else if r = 0 then announce l c None s else s);
          (v, s) = run_one l c r s
      in (bucket_append l c v buckets, s))"

definition collect_repeats :: "'l list \<Rightarrow> 'c list \<Rightarrow> int \<Rightarrow> string \<Rightarrow> (int \<Rightarrow> int \<Rightarrow> int \<Rightarrow> 's \<Rightarrow> 'v \<times> 's)
    \<Rightarrow> (int \<Rightarrow> int \<Rightarrow> int option \<Rightarrow> 's \<Rightarrow> 's) \<Rightarrow> 's \<Rightarrow> schedule_error + ('v list list list \<times> 's)" where
  "collect_repeats selected cases process_repeats schedule run_one announce s =
     (let buckets = map (\<lambda>_. map (\<lambda>_. []) cases) selected in
      if cases = []
      then bind_r (validate_schedule (blen selected) process_repeats schedule) (\<lambda>_. Inr (buckets, s))
      else bind_r (library_repeat_schedule (blen selected) process_repeats schedule (blen cases)) (\<lambda>jobs.
        Inr (fold (collect_step schedule run_one announce) jobs (buckets, s))))"

section \<open>The rotation\<close>

lemma set_py_range [simp]: "set (py_range n) = {0..<n}"
  by (auto simp: py_range_def)

lemma distinct_py_range [simp]: "distinct (py_range n)"
  by (simp add: py_range_def)

lemma rotation_inj: "0 < n \<Longrightarrow> inj_on (\<lambda>p. (f + p) mod n) {0..<n :: int}"
proof (rule inj_onI)
  fix p q assume a: "0 < n" "p \<in> {0..<n}" "q \<in> {0..<n}" "(f + p) mod n = (f + q) mod n"
  then have "(f + p - f) mod n = (f + q - f) mod n" by (metis mod_diff_left_eq)
  then show "p = q" using a by simp
qed

lemma rotation_permutes:
  assumes "0 < n"
  shows "distinct (repeat_library_order n r c)" "set (repeat_library_order n r c) = {0..<n}"
proof -
  let ?f = "\<lambda>p. ((r + c) mod n + p) mod n"
  show "distinct (repeat_library_order n r c)"
    using rotation_inj[OF assms] by (simp add: repeat_library_order_def Let_def distinct_map)
  have "?f ` {0..<n} = {0..<n}"
  proof (rule card_subset_eq)
    show "card (?f ` {0..<n}) = card {0..<n}" by (rule card_image[OF rotation_inj[OF assms]])
  qed (use assms in auto)
  then show "set (repeat_library_order n r c) = {0..<n}" by (simp add: repeat_library_order_def Let_def)
qed

lemma rotation_mset: "0 < n \<Longrightarrow> mset (repeat_library_order n r c) = mset (py_range n)"
  by (metis distinct_py_range rotation_permutes set_eq_iff_mset_eq_distinct set_py_range)

lemma rotation_nth:
  assumes "0 < n" "0 \<le> p" "p < n"
  shows "repeat_library_order n r c ! nat p = (r + c + p) mod n"
proof -
  have "nat p < length (py_range n)" using assms by (simp add: py_range_def)
  moreover have "py_range n ! nat p = p" using assms by (simp add: py_range_def)
  ultimately show ?thesis by (simp add: repeat_library_order_def Let_def mod_simps)
qed

section \<open>The two schedules hold the same jobs\<close>

lemma distinct_concat_map:
  assumes "distinct xs" "\<And>x. x \<in> set xs \<Longrightarrow> distinct (f x)"
    and "\<And>x y. x \<in> set xs \<Longrightarrow> y \<in> set xs \<Longrightarrow> x \<noteq> y \<Longrightarrow> set (f x) \<inter> set (f y) = {}"
  shows "distinct (concat (map f xs))"
  using assms by (induction xs) auto

definition major_jobs :: "int \<Rightarrow> int \<Rightarrow> int \<Rightarrow> (int \<times> int \<times> int) list" where
  "major_jobs n R C = concat (map (\<lambda>l. concat (map (\<lambda>c. map (\<lambda>r. (l, c, r)) (py_range R)) (py_range C))) (py_range n))"

definition interleaved_jobs :: "int \<Rightarrow> int \<Rightarrow> int \<Rightarrow> (int \<times> int \<times> int) list" where
  "interleaved_jobs n R C = concat (map (\<lambda>r. concat (map (\<lambda>c. map (\<lambda>l. (l, c, r)) (repeat_library_order n r c))
     (py_range C))) (py_range R))"

lemma schedule_jobs:
  "library_repeat_schedule n R schedule C =
     bind_r (validate_schedule n R schedule) (\<lambda>_. if C < 1 then Inl No_Case
       else Inr (if schedule = ''library-major'' then major_jobs n R C else interleaved_jobs n R C))"
  by (simp add: library_repeat_schedule_def major_jobs_def interleaved_jobs_def)

lemma set_jobs:
  "0 < n \<Longrightarrow> set (interleaved_jobs n R C) = {0..<n} \<times> {0..<C} \<times> {0..<R}"
  "set (major_jobs n R C) = {0..<n} \<times> {0..<C} \<times> {0..<R}"
  by (auto simp: interleaved_jobs_def major_jobs_def rotation_permutes(2))

lemma distinct_jobs:
  "0 < n \<Longrightarrow> distinct (interleaved_jobs n R C)" "distinct (major_jobs n R C)"
  unfolding interleaved_jobs_def major_jobs_def
  by (intro distinct_concat_map; auto simp: distinct_map inj_on_def rotation_permutes intro!: distinct_concat_map)+

lemma jobs_same: "0 < n \<Longrightarrow> mset (interleaved_jobs n R C) = mset (major_jobs n R C)"
  by (simp add: set_eq_iff_mset_eq_distinct [symmetric] distinct_jobs set_jobs)

lemma validate_positive: "validate_schedule n R schedule = Inr () \<Longrightarrow> 0 < n \<and> 0 < R"
  by (auto simp: validate_schedule_def split: if_splits)

text \<open>C38. Both schedules run every library, case and repeat exactly once: interleaving only reorders
the jobs.\<close>

theorem schedule_complete:
  "case library_repeat_schedule n R schedule C of
     Inl e \<Rightarrow> validate_schedule n R schedule = Inl e \<or> e = No_Case \<and> C < 1
   | Inr jobs \<Rightarrow> distinct jobs \<and> set jobs = {0..<n} \<times> {0..<C} \<times> {0..<R} \<and> mset jobs = mset (major_jobs n R C)"
proof (cases "validate_schedule n R schedule")
  case (Inr u)
  then have "0 < n" using validate_positive by (cases u) auto
  then show ?thesis using Inr by (simp add: schedule_jobs distinct_jobs set_jobs jobs_same)
qed (simp add: schedule_jobs)

section \<open>Balance of the interleaved schedule\<close>

lemma residue_count:
  fixes n :: int
  assumes "0 < n" "0 \<le> l" "l < n"
  shows "card {r \<in> {0..<n * int k}. (r + a) mod n = l} = k"
proof (induction k)
  case (Suc k)
  let ?r = "n * int k + (l - a) mod n"
  have split: "{r \<in> {0..<n * int (Suc k)}. (r + a) mod n = l} = insert ?r {r \<in> {0..<n * int k}. (r + a) mod n = l}"
  proof (intro set_eqI iffI)
    fix r assume r: "r \<in> {r \<in> {0..<n * int (Suc k)}. (r + a) mod n = l}"
    show "r \<in> insert ?r {r \<in> {0..<n * int k}. (r + a) mod n = l}"
    proof (cases "r < n * int k")
      case False
      have "(l - a) mod n = ((r + a) mod n - a) mod n" using r by simp
      also have "\<dots> = r mod n" by (simp add: mod_simps)
      also have "\<dots> = (r - n * int k) mod n" by (metis diff_conv_add_uminus mod_mult_self2 mult_minus_right)
      also have "\<dots> = r - n * int k" using r False by (intro mod_pos_pos_trivial) (auto simp: algebra_simps)
      finally show ?thesis by simp
    qed (use r in simp)
  next
    fix r assume "r \<in> insert ?r {r \<in> {0..<n * int k}. (r + a) mod n = l}"
    moreover have "?r \<in> {r \<in> {0..<n * int (Suc k)}. (r + a) mod n = l}"
    proof -
      have "(?r + a) mod n = ((l - a) mod n + a) mod n" by (metis add.assoc add.commute mod_mult_self2)
      also have "\<dots> = l mod n" by (simp add: mod_simps)
      finally have "(?r + a) mod n = l" using assms by simp
      moreover have "0 \<le> (l - a) mod n" "(l - a) mod n < n" using assms by simp_all
      ultimately show ?thesis using assms by (simp add: algebra_simps)
    qed
    moreover have "n * int k \<le> n * int (Suc k)" using assms by (simp add: algebra_simps)
    ultimately show "r \<in> {r \<in> {0..<n * int (Suc k)}. (r + a) mod n = l}" by auto
  qed
  have "0 \<le> (l - a) mod n" using assms by simp
  then have "?r \<notin> {r \<in> {0..<n * int k}. (r + a) mod n = l}" by simp
  moreover have "finite {r \<in> {0..<n * int k}. (r + a) mod n = l}" by (rule finite_subset[of _ "{0..<n * int k}"]) auto
  ultimately show ?case unfolding split using Suc by (metis card_insert_disjoint)
qed simp

text \<open>A valid interleaved schedule is balanced: over the repeats, every library takes every
position of the rotation of a case equally often.\<close>

theorem rotation_balanced:
  assumes "validate_schedule n R ''interleaved'' = Inr ()" "0 \<le> position" "position < n" "0 \<le> library" "library < n"
  shows "int (card {r \<in> {0..<R}. repeat_library_order n r c ! nat position = library}) = R div n"
proof -
  have n: "0 < n" "0 < R" using validate_positive[OF assms(1)] by simp_all
  have "R mod n = 0" using assms(1) by (auto simp: validate_schedule_def split: if_splits)
  then have R: "R = n * int (nat (R div n))" using n by (simp add: pos_imp_zdiv_nonneg_iff mult.commute minus_mod_eq_mult_div [symmetric])
  have "{r \<in> {0..<R}. repeat_library_order n r c ! nat position = library} =
      {r \<in> {0..<n * int (nat (R div n))}. (r + (c + position)) mod n = library}"
    using R rotation_nth[OF n(1) assms(2,3)] by (simp add: add.assoc)
  then show ?thesis
    using residue_count[OF n(1) assms(4,5), of "nat (R div n)" "c + position"] n
    by (simp add: pos_imp_zdiv_nonneg_iff del: Collect_conj_eq)
qed

theorem rotation_balanced_witness:
  "int (card {r \<in> {0..<6 :: int}. repeat_library_order 3 r 1 ! nat 2 = 0}) = 2"
  using rotation_balanced[of 3 6 2 0 1] by (simp add: validate_schedule_def SCHEDULE_CHOICES_def)

section \<open>Buckets\<close>

definition bucket_shape :: "nat \<Rightarrow> nat \<Rightarrow> 'v list list list \<Rightarrow> bool" where
  "bucket_shape n m b \<longleftrightarrow> length b = n \<and> list_all (\<lambda>row. length row = m) b"

lemma bucket_append_shape:
  "bucket_shape n m b \<Longrightarrow> nat l < n \<Longrightarrow> bucket_shape n m (bucket_append l c v b)"
  by (auto simp: bucket_shape_def bucket_append_def list_all_length nth_list_update)

lemma bucket_append_nth:
  assumes "bucket_shape n m b" "nat l < n" "nat c < m" "nat l' < n" "nat c' < m" "0 \<le> l" "0 \<le> c" "0 \<le> l'" "0 \<le> c'"
  shows "bucket_append l c v b ! nat l' ! nat c' = b ! nat l' ! nat c' @ (if l = l' \<and> c = c' then [v] else [])"
  using assms by (auto simp: bucket_shape_def bucket_append_def list_all_length nth_list_update eq_nat_nat_iff)

lemma collect_fold:
  assumes "bucket_shape n m b" "set jobs \<subseteq> {0..<int n} \<times> {0..<int m} \<times> UNIV" "l \<in> {0..<int n}" "c \<in> {0..<int m}"
    and run: "\<And>l c r s. fst (run_one l c r s) = g l c r"
  shows "fst (fold (collect_step schedule run_one announce) jobs (b, s)) ! nat l ! nat c
      = b ! nat l ! nat c @ map (g l c) (map (snd \<circ> snd) (filter (\<lambda>j. fst j = l \<and> fst (snd j) = c) jobs))
    \<and> bucket_shape n m (fst (fold (collect_step schedule run_one announce) jobs (b, s)))"
  using assms(1,2)
proof (induction jobs arbitrary: b s)
  case (Cons j jobs)
  obtain l' c' r where j: "j = (l', c', r)" by (cases j)
  have rng: "l' \<in> {0..<int n}" "c' \<in> {0..<int m}" using Cons.prems(2) by (simp_all add: j)
  define u where "u = (if schedule = ''interleaved'' then announce l' c' (Some r) s
      else if r = 0 then announce l' c' None s else s)"
  define s' where "s' = snd (run_one l' c' r u)"
  have step: "collect_step schedule run_one announce j (b, s) = (bucket_append l' c' (g l' c' r) b, s')"
    by (simp add: collect_step_def j u_def s'_def split_beta Let_def run)
  have shape: "bucket_shape n m (bucket_append l' c' (g l' c' r) b)"
    by (rule bucket_append_shape[OF Cons.prems(1)]) (use rng in auto)
  have nth: "bucket_append l' c' (g l' c' r) b ! nat l ! nat c
      = b ! nat l ! nat c @ (if l' = l \<and> c' = c then [g l' c' r] else [])"
    by (rule bucket_append_nth[OF Cons.prems(1)]) (use rng assms(3,4) in auto)
  show ?case
    using Cons.IH[OF shape, of s'] Cons.prems(2) by (auto simp: step[unfolded j] nth j)
qed simp

lemma filter_concat_map: "filter P (concat (map f xs)) = concat (map (\<lambda>x. filter P (f x)) xs)"
  by (induction xs) auto

lemma concat_one:
  assumes "distinct xs" "x \<in> set xs" "\<And>y. y \<in> set xs \<Longrightarrow> y \<noteq> x \<Longrightarrow> f y = []"
  shows "concat (map f xs) = f x"
proof -
  have none: "(\<And>y. y \<in> set ys \<Longrightarrow> f y = []) \<Longrightarrow> concat (map f ys) = []" for ys by (induction ys) auto
  obtain as bs where xs: "xs = as @ x # bs" using split_list[OF assms(2)] by blast
  have "concat (map f as) = []" "concat (map f bs) = []"
    using assms by (auto intro!: none simp: xs)
  then show ?thesis unfolding xs by (simp del: concat_eq_Nil_conv)
qed

lemma job_repeats:
  assumes "l \<in> {0..<n}" "c \<in> {0..<C}"
  shows "map (snd \<circ> snd) (filter (\<lambda>j. fst j = l \<and> fst (snd j) = c) (major_jobs n R C)) = py_range R" (is ?major)
    and "map (snd \<circ> snd) (filter (\<lambda>j. fst j = l \<and> fst (snd j) = c) (interleaved_jobs n R C)) = py_range R" (is ?inter)
proof -
  let ?P = "\<lambda>j :: int \<times> int \<times> int. fst j = l \<and> fst (snd j) = c"
  have n: "0 < n" using assms by auto
  have row: "concat (map (\<lambda>c'. filter ?P (map (\<lambda>r. (l', c', r)) (py_range R))) (py_range C)) =
      (if l' = l then map (\<lambda>r. (l, c, r)) (py_range R) else [])" for l'
  proof (cases "l' = l")
    case True
    have "concat (map (\<lambda>c'. filter ?P (map (\<lambda>r. (l, c', r)) (py_range R))) (py_range C)) =
        filter ?P (map (\<lambda>r. (l, c, r)) (py_range R))"
      by (rule concat_one) (use assms(2) in \<open>auto simp: filter_empty_conv\<close>)
    then show ?thesis by (simp add: True)
  qed (auto simp: filter_empty_conv)
  have "filter ?P (major_jobs n R C) = map (\<lambda>r. (l, c, r)) (py_range R)"
    unfolding major_jobs_def filter_concat_map row using assms(1)
    by (subst concat_one[where x = l]) auto
  then show ?major by (simp add: comp_def)
  have one: "filter ?P (map (\<lambda>l. (l, c', r)) (repeat_library_order n r c')) = (if c' = c then [(l, c, r)] else [])" for c' r
  proof -
    have "filter (\<lambda>k. k = l) (repeat_library_order n r c') = [l]"
    proof -
      obtain as bs where s: "repeat_library_order n r c' = as @ l # bs"
        using split_list[of l "repeat_library_order n r c'"] rotation_permutes(2)[OF n] assms(1) by auto
      then have "l \<notin> set as" "l \<notin> set bs" using rotation_permutes(1)[OF n, of r c'] by auto
      then have "filter (\<lambda>k. k = l) as = []" "filter (\<lambda>k. k = l) bs = []" by (auto simp: filter_empty_conv)
      then show ?thesis by (simp add: s)
    qed
    then show ?thesis by (cases "c' = c") (simp_all add: filter_map comp_def)
  qed
  have "filter ?P (interleaved_jobs n R C) = concat (map (\<lambda>r. [(l, c, r)]) (py_range R))"
    unfolding interleaved_jobs_def filter_concat_map one using assms(2)
    by (intro arg_cong[where f = concat] map_cong refl) (subst concat_one[where x = c], auto)
  then show ?inter by (simp add: comp_def)
qed

text \<open>Whatever the schedule and whatever \<open>announce\<close> and the runs do to the machine, the bucket of
a library and a case holds its samples in the order of the repeats: the report is the same for both
schedules when the samples are.\<close>

theorem buckets_canonical:
  assumes "collect_repeats selected cases R schedule run_one announce s = Inr (buckets, t)"
    and "\<And>l c r s. fst (run_one l c r s) = g l c r"
    and "l < length selected" "c < length cases"
  shows "buckets ! l ! c = map (g (int l) (int c)) (py_range R)"
proof -
  let ?n = "blen selected" and ?C = "blen cases" and ?b = "map (\<lambda>_. map (\<lambda>_. []) cases) selected"
  have lc: "int l \<in> {0..<?n}" "int c \<in> {0..<?C}" using assms(3,4) by (auto simp: blen_def)
  then have n: "0 < ?n" by auto
  have shape: "bucket_shape (length selected) (length cases) ?b" by (simp add: bucket_shape_def list_all_length)
  have "cases \<noteq> []" using assms(4) by auto
  then obtain jobs where jobs: "library_repeat_schedule ?n R schedule ?C = Inr jobs"
    and b: "buckets = fst (fold (collect_step schedule run_one announce) jobs (?b, s))"
    using assms(1) unfolding collect_repeats_def Let_def by (auto simp: bind_r_eq_Inr)
  have which: "jobs = major_jobs ?n R ?C \<or> jobs = interleaved_jobs ?n R ?C"
    using jobs by (auto simp: schedule_jobs bind_r_eq_Inr split: if_splits)
  then have sub: "set jobs \<subseteq> {0..<int (length selected)} \<times> {0..<int (length cases)} \<times> UNIV"
    using set_jobs(1)[OF n] set_jobs(2) by (auto simp: blen_def)
  have rep: "map (snd \<circ> snd) (filter (\<lambda>j. fst j = int l \<and> fst (snd j) = int c) jobs) = py_range R"
    using which job_repeats[OF lc] by auto
  have "buckets ! nat (int l) ! nat (int c) = ?b ! nat (int l) ! nat (int c) @ map (g (int l) (int c)) (py_range R)"
    using collect_fold[where schedule = schedule and announce = announce and s = s and jobs = jobs and b = ?b
        and run_one = run_one and g = g, OF shape sub _ _ assms(2), of "int l" "int c"] lc rep
    by (simp add: b blen_def)
  then show ?thesis using assms(3,4) by simp
qed

theorem buckets_canonical_witness:
  "\<exists>buckets. collect_repeats [''a'', ''b''] [''case''] 2 ''interleaved'' (\<lambda>l c r log. ((l, r), log @ [(l, r)]))
       (\<lambda>_ _ _ log. log) [] = Inr (buckets, [(0, 0), (1, 0), (1, 1), (0, 1)])
     \<and> buckets ! 1 ! 0 = [(1, 0), (1, 1)]"
proof -
  have r: "py_range 2 = [0, 1]" "py_range 1 = [0]" by code_simp+
  have run: "collect_repeats [''a'', ''b''] [''case''] 2 ''interleaved'' (\<lambda>l c r log. ((l, r), log @ [(l, r)]))
       (\<lambda>_ _ _ log. log) [] = Inr ([[[(0, 0), (0, 1)]], [[(1, 0), (1, 1)]]], [(0, 0), (1, 0), (1, 1), (0, 1)])"
    by code_simp
  show ?thesis
    using run buckets_canonical[OF run, of "\<lambda>l c r. (l, r)" 1 0] by (auto simp: r)
qed

end
