(* ===== verification/Binary64.thy ===== *)
theory Binary64
  imports Complex_Main "HOL-Library.Log_Nat"
begin

text \<open>
  Python's \<open>float\<close>: IEEE binary64 with rounding to nearest, ties to even.  A finite value is the
  rational it stands for; the sign of a zero is not kept, since no comparison of the tools sees it.
\<close>

section \<open>Rounding\<close>

datatype double = Fin rat | Pos_Inf | Neg_Inf | Nan

definition round_even :: "rat \<Rightarrow> int" where
  "round_even x = (let f = \<lfloor>x\<rfloor>; r = x - of_int f in
     if r < 1 / 2 then f else if r > 1 / 2 then f + 1 else if even f then f else f + 1)"

text \<open>The exponent of the leading bit of a positive number.\<close>

definition ilog2 :: "rat \<Rightarrow> int" where
  "ilog2 q = (let (a, b) = quotient_of q; k = int (floorlog 2 (nat a)) - int (floorlog 2 (nat b)) in
     if 2 powi k \<le> q then k else k - 1)"

definition spacing :: "rat \<Rightarrow> int" where
  "spacing x = max (- 1074) (ilog2 x - 52)"

definition round_abs :: "rat \<Rightarrow> rat" where
  "round_abs x = of_int (round_even (x / 2 powi spacing x)) * 2 powi spacing x"

definition round64 :: "rat \<Rightarrow> double" where
  "round64 x =
     (if x = 0 then Fin 0
      else let y = round_abs \<bar>x\<bar> in
        if y \<ge> 2 ^ 1024 then (if x > 0 then Pos_Inf else Neg_Inf) else Fin (sgn x * y))"

section \<open>Operations\<close>

fun is_finite :: "double \<Rightarrow> bool" where
  "is_finite (Fin x) = True" | "is_finite _ = False"

fun fless_eq :: "double \<Rightarrow> double \<Rightarrow> bool" where
  "fless_eq Nan _ = False"
| "fless_eq _ Nan = False"
| "fless_eq Neg_Inf _ = True"
| "fless_eq _ Pos_Inf = True"
| "fless_eq (Fin x) (Fin y) = (x \<le> y)"
| "fless_eq _ _ = False"

definition fless :: "double \<Rightarrow> double \<Rightarrow> bool" where
  "fless a b \<longleftrightarrow> fless_eq a b \<and> \<not> fless_eq b a"

fun fneg :: "double \<Rightarrow> double" where
  "fneg (Fin x) = Fin (- x)" | "fneg Pos_Inf = Neg_Inf" | "fneg Neg_Inf = Pos_Inf" | "fneg Nan = Nan"

fun fadd :: "double \<Rightarrow> double \<Rightarrow> double" where
  "fadd (Fin x) (Fin y) = round64 (x + y)"
| "fadd Nan _ = Nan"
| "fadd _ Nan = Nan"
| "fadd Pos_Inf Neg_Inf = Nan"
| "fadd Neg_Inf Pos_Inf = Nan"
| "fadd Pos_Inf _ = Pos_Inf"
| "fadd Neg_Inf _ = Neg_Inf"
| "fadd _ b = b"

definition fsub :: "double \<Rightarrow> double \<Rightarrow> double" where
  "fsub a b = fadd a (fneg b)"

text \<open>The sign of a value, \<open>0\<close> for a zero.\<close>

fun fsgn :: "double \<Rightarrow> rat" where
  "fsgn (Fin x) = sgn x" | "fsgn Pos_Inf = 1" | "fsgn Neg_Inf = - 1" | "fsgn Nan = 0"

definition signed_inf :: "rat \<Rightarrow> double" where
  "signed_inf s = (if s > 0 then Pos_Inf else if s < 0 then Neg_Inf else Nan)"

fun fmul :: "double \<Rightarrow> double \<Rightarrow> double" where
  "fmul (Fin x) (Fin y) = round64 (x * y)"
| "fmul Nan _ = Nan"
| "fmul _ Nan = Nan"
| "fmul a b = signed_inf (fsgn a * fsgn b)"

text \<open>Division; \<open>None\<close> is \<open>ZeroDivisionError\<close>.\<close>

fun fdiv :: "double \<Rightarrow> double \<Rightarrow> double option" where
  "fdiv (Fin x) (Fin y) = (if y = 0 then None else Some (round64 (x / y)))"
| "fdiv a (Fin y) = (if y = 0 then None else case a of Nan \<Rightarrow> Some Nan | _ \<Rightarrow> Some (signed_inf (fsgn a * sgn y)))"
| "fdiv (Fin x) Nan = Some Nan"
| "fdiv (Fin x) _ = Some (Fin 0)"
| "fdiv _ _ = Some Nan"

text \<open>\<open>float(n)\<close> of an integer; \<open>None\<close> is \<open>OverflowError\<close>.\<close>

definition of_whole :: "int \<Rightarrow> double option" where
  "of_whole n = (case round64 (of_int n) of Fin x \<Rightarrow> Some (Fin x) | _ \<Rightarrow> None)"

text \<open>\<open>==\<close>, \<open>math.floor\<close> and \<open>math.ceil\<close>; \<open>None\<close> is the exception for a value that is not finite.\<close>

definition feq :: "double \<Rightarrow> double \<Rightarrow> bool" where
  "feq a b \<longleftrightarrow> a = b \<and> a \<noteq> Nan"

definition ffloor :: "double \<Rightarrow> int option" where
  "ffloor a = (case a of Fin x \<Rightarrow> Some \<lfloor>x\<rfloor> | _ \<Rightarrow> None)"

definition fceil :: "double \<Rightarrow> int option" where
  "fceil a = (case a of Fin x \<Rightarrow> Some \<lceil>x\<rceil> | _ \<Rightarrow> None)"

section \<open>Rounding to an integer\<close>

lemma round_even_bounds: "x - 1 / 2 \<le> of_int (round_even x)" "of_int (round_even x) \<le> x + 1 / 2"
  unfolding round_even_def Let_def by (auto; linarith)+

lemma round_even_int [simp]: "round_even (of_int n) = n"
  by (simp add: round_even_def)

lemma round_even_mono:
  assumes "x \<le> y"
  shows "round_even x \<le> round_even y"
proof (cases "\<lfloor>x\<rfloor> = \<lfloor>y\<rfloor>")
  case True
  then show ?thesis using assms unfolding round_even_def Let_def by auto
next
  case False
  then have "\<lfloor>x\<rfloor> + 1 \<le> \<lfloor>y\<rfloor>" using floor_mono[OF assms] by linarith
  moreover have "round_even x \<le> \<lfloor>x\<rfloor> + 1" "\<lfloor>y\<rfloor> \<le> round_even y" by (auto simp: round_even_def Let_def)
  ultimately show ?thesis by linarith
qed

lemma round_even_le: "x \<le> of_int n \<Longrightarrow> round_even x \<le> n"
  using round_even_mono[of x "of_int n"] by simp

lemma round_even_ge: "of_int n \<le> x \<Longrightarrow> n \<le> round_even x"
  using round_even_mono[of "of_int n" x] by simp

section \<open>Exponents\<close>

lemma powi_pos [simp]: "0 < (2 :: rat) powi k"
  by (simp add: zero_less_power_int)

lemma powi_mono: "j \<le> k \<Longrightarrow> (2 :: rat) powi j \<le> 2 powi k"
  by (rule power_int_increasing) auto

lemma ilog2_bounds:
  assumes "0 < q"
  shows "2 powi ilog2 q \<le> q" "q < 2 powi (ilog2 q + 1)"
proof -
  obtain a b where ab: "quotient_of q = (a, b)" by fastforce
  have b: "0 < b" using quotient_of_denom_pos[OF ab] .
  have q: "q = of_int a / of_int b" using quotient_of_div[OF ab] .
  have a: "0 < a" using assms b unfolding q by (simp add: zero_less_divide_iff)
  define la lb where "la = floorlog 2 (nat a)" and "lb = floorlog 2 (nat b)"
  have A: "(2 :: rat) powi (int l - 1) \<le> of_int n \<and> of_int n < (2 :: rat) powi int l" if "0 < n" "l = floorlog 2 (nat n)" for n :: int and l :: nat
  proof -
    have n: "(2 :: nat) ^ (l - 1) \<le> nat n" "nat n < 2 ^ l" "0 < l"
      using that floorlog_bounds[of "nat n" 2] by (auto simp: floorlog_def)
    have "(2 :: rat) ^ (l - 1) \<le> of_nat (nat n)" "of_nat (nat n) < (2 :: rat) ^ l"
      using n(1,2) by (metis of_nat_le_iff of_nat_less_iff of_nat_numeral of_nat_power)+
    moreover have "(2 :: rat) powi (int l - 1) = 2 ^ (l - 1)" using n(3) by (simp add: power_int_def nat_diff_distrib)
    ultimately show ?thesis using that(1) by (simp add: power_int_def)
  qed
  note A = A[OF a la_def] A[OF b lb_def]
  have u: "q < 2 powi (int la - int lb + 1)"
  proof -
    have "q < 2 powi int la / 2 powi (int lb - 1)" unfolding q using A a by (intro frac_less) auto
    also have "\<dots> = 2 powi (int la - int lb + 1)" using power_int_diff[of "2 :: rat" "int la" "int lb - 1"] by (simp add: algebra_simps)
    finally show ?thesis .
  qed
  have l: "2 powi (int la - int lb - 1) \<le> q"
  proof -
    have "2 powi (int la - int lb - 1) = 2 powi (int la - 1) / (2 :: rat) powi int lb" using power_int_diff[of "2 :: rat" "int la - 1" "int lb"] by (simp add: algebra_simps)
    also have "\<dots> \<le> q" unfolding q using A a b by (intro frac_le) auto
    finally show ?thesis .
  qed
  show "2 powi ilog2 q \<le> q" "q < 2 powi (ilog2 q + 1)"
    using u l by (auto simp: ilog2_def ab Let_def la_def lb_def)
qed

lemma ilog2_unique:
  assumes "2 powi k \<le> q" "q < 2 powi (k + 1)"
  shows "ilog2 q = k"
proof -
  have q: "0 < q" using assms(1) powi_pos[of k] by linarith
  have "ilog2 q < k + 1" "k < ilog2 q + 1"
    using ilog2_bounds[OF q] assms powi_mono[of "k + 1" "ilog2 q"] powi_mono[of "ilog2 q + 1" k] by (force simp: not_le[symmetric])+
  then show ?thesis by simp
qed

lemma ilog2_mono: "0 < x \<Longrightarrow> x \<le> y \<Longrightarrow> ilog2 x \<le> ilog2 y"
  using ilog2_bounds[of x] ilog2_bounds[of y] powi_mono[of "ilog2 y + 1" "ilog2 x"] by (force simp: not_le[symmetric])

section \<open>Rounding is monotone and keeps what is representable\<close>

lemma powi_split: "j \<le> k \<Longrightarrow> (2 :: rat) powi k = of_int (2 ^ nat (k - j)) * 2 powi j"
proof -
  assume "j \<le> k"
  then have "(2 :: rat) powi k = 2 powi (k - j) * 2 powi j" by (simp flip: power_int_add)
  then show ?thesis using \<open>j \<le> k\<close> by (simp add: power_int_def)
qed

lemma round_abs_le_powi:
  assumes "spacing x \<le> k" "x \<le> 2 powi k"
  shows "round_abs x \<le> 2 powi k"
proof -
  let ?s = "(2 :: rat) powi spacing x"
  have "x / ?s \<le> of_int (2 ^ nat (k - spacing x))"
    using assms(2) unfolding powi_split[OF assms(1)] by (simp add: divide_le_eq)
  then have "round_even (x / ?s) \<le> 2 ^ nat (k - spacing x)" by (rule round_even_le)
  then have "of_int (round_even (x / ?s)) * ?s \<le> of_int (2 ^ nat (k - spacing x)) * ?s"
    by (intro mult_right_mono) (simp_all only: of_int_le_iff powi_pos less_imp_le)
  then show ?thesis unfolding round_abs_def powi_split[OF assms(1)] .
qed

lemma round_abs_ge_powi:
  assumes "spacing x \<le> k" "2 powi k \<le> x"
  shows "2 powi k \<le> round_abs x"
proof -
  let ?s = "(2 :: rat) powi spacing x"
  have "of_int (2 ^ nat (k - spacing x)) \<le> x / ?s"
    using assms(2) unfolding powi_split[OF assms(1)] by (simp add: le_divide_eq)
  then have "2 ^ nat (k - spacing x) \<le> round_even (x / ?s)" by (rule round_even_ge)
  then have "of_int (2 ^ nat (k - spacing x)) * ?s \<le> of_int (round_even (x / ?s)) * ?s"
    by (intro mult_right_mono) (simp_all only: of_int_le_iff powi_pos less_imp_le)
  then show ?thesis unfolding round_abs_def powi_split[OF assms(1)] .
qed

lemma round_abs_mono:
  assumes "0 < x" "x \<le> y"
  shows "round_abs x \<le> round_abs y"
proof (cases "spacing x = spacing y")
  case True
  have "x / 2 powi spacing y \<le> y / 2 powi spacing y" using assms(2) by (intro divide_right_mono) (auto simp: less_imp_le)
  then show ?thesis unfolding round_abs_def True
    by (intro mult_right_mono) (auto simp: less_imp_le intro: round_even_mono)
next
  case False
  have "0 < y" using assms by simp
  have "ilog2 x \<le> ilog2 y" by (rule ilog2_mono[OF assms])
  then have k: "ilog2 x < ilog2 y" "spacing y = ilog2 y - 52" "spacing x \<le> ilog2 y"
    using False by (auto simp: spacing_def max_def split: if_splits)
  have "x \<le> 2 powi ilog2 y" using ilog2_bounds(2)[OF assms(1)] powi_mono[of "ilog2 x + 1" "ilog2 y"] k(1) by linarith
  then have "round_abs x \<le> 2 powi ilog2 y" by (rule round_abs_le_powi[OF k(3)])
  also have "\<dots> \<le> round_abs y" by (rule round_abs_ge_powi) (use k(2) ilog2_bounds(1)[OF \<open>0 < y\<close>] in auto)
  finally show ?thesis .
qed

lemma round_abs_nonneg: "0 \<le> x \<Longrightarrow> 0 \<le> round_abs x"
  unfolding round_abs_def by (intro mult_nonneg_nonneg) (auto simp: less_imp_le intro: round_even_ge[of 0, simplified])

definition representable :: "rat \<Rightarrow> bool" where
  "representable x \<longleftrightarrow> (\<exists>m j. x = of_int m * 2 powi j \<and> \<bar>m\<bar> \<le> 2 ^ 53 \<and> - 1074 \<le> j)"

lemma spacing_le:
  assumes "0 < x" "x < 2 powi (k + 53)" "- 1074 \<le> k"
  shows "spacing x \<le> k"
proof -
  have "ilog2 x < k + 53"
    using ilog2_bounds(1)[OF assms(1)] assms(2) powi_mono[of "k + 53" "ilog2 x"] by (force simp: not_le[symmetric])
  then show ?thesis using assms(3) by (simp add: spacing_def)
qed

lemma round_abs_representable: "0 < x \<Longrightarrow> representable (round_abs x)"
proof -
  assume x: "0 < x"
  let ?s = "spacing x"
  have "ilog2 x + 1 \<le> ?s + 53" by (simp add: spacing_def)
  then have "x \<le> 2 powi (?s + 53)" using ilog2_bounds(2)[OF x] powi_mono by (meson less_imp_le order_trans)
  then have "x / 2 powi ?s \<le> of_int (2 ^ 53)" by (simp add: power_int_add divide_le_eq)
  then have "round_even (x / 2 powi ?s) \<le> 2 ^ 53" by (rule round_even_le)
  moreover have "0 \<le> round_even (x / 2 powi ?s)" using x by (intro round_even_ge) (simp add: less_imp_le)
  ultimately show ?thesis unfolding representable_def round_abs_def
    by (intro exI[of _ "round_even (x / 2 powi ?s)"] exI[of _ ?s]) (simp add: spacing_def)
qed

lemma round_abs_exact:
  assumes "0 < x" "representable x"
  shows "round_abs x = x"
proof -
  define sp where "sp = spacing x"
  have *: "round_abs x = x" if x: "x = of_int n * 2 powi i" "sp \<le> i" for n i
  proof -
    have e: "x = of_int (n * 2 ^ nat (i - sp)) * 2 powi sp" unfolding x(1) powi_split[OF x(2)] by simp
    have r: "round_even (x / 2 powi sp) = n * 2 ^ nat (i - sp)"
    proof -
      have "x / 2 powi sp = of_int (n * 2 ^ nat (i - sp))" by (subst e) simp
      then show ?thesis by (simp only: round_even_int)
    qed
    show ?thesis unfolding round_abs_def sp_def[symmetric] r by (rule e[symmetric])
  qed
  obtain m j where m: "x = of_int m * 2 powi j" "\<bar>m\<bar> \<le> 2 ^ 53" "- 1074 \<le> j" using assms(2) by (auto simp: representable_def)
  have m0: "0 < m" using assms(1) unfolding m(1) using powi_pos[of j] by (simp add: zero_less_mult_iff not_less[symmetric] less_imp_le)
  show ?thesis
  proof (cases "m = 2 ^ 53")
    case True
    have x: "x = of_int (2 ^ 52) * 2 powi (j + 1)" unfolding m(1) True by (simp add: power_int_add)
    have "x < 2 powi ((j + 1) + 53)" unfolding m(1) True by (simp add: power_int_add)
    then show ?thesis using *[OF x] spacing_le[OF assms(1), of "j + 1"] m(3) unfolding sp_def by simp
  next
    case False
    then have "(of_int m :: rat) < of_int (2 ^ 53)" using m(2) m0 by (simp only: of_int_less_iff)
    then have "x < 2 powi (j + 53)" unfolding m(1) by (simp add: power_int_add)
    then show ?thesis by (intro *[OF m(1)]) (simp add: sp_def spacing_le[OF assms(1) _ m(3)])
  qed
qed

section \<open>Arithmetic on positive numbers\<close>

lemma round64_zero [simp]: "round64 0 = Fin 0"
  by (simp add: round64_def)

lemma round64_pos: "0 < x \<Longrightarrow> round64 x = (if round_abs x \<ge> 2 ^ 1024 then Pos_Inf else Fin (round_abs x))"
  by (simp add: round64_def Let_def)

lemma round64_exact: "0 < x \<Longrightarrow> representable x \<Longrightarrow> x < 2 ^ 1024 \<Longrightarrow> round64 x = Fin x"
  by (simp add: round64_pos round_abs_exact)

lemma round64_mono: "0 < x \<Longrightarrow> x \<le> y \<Longrightarrow> fless_eq (round64 x) (round64 y)"
  using round_abs_mono[of x y] by (auto simp: round64_pos)

lemma ilog2_powi: "ilog2 (2 powi k) = k"
  by (rule ilog2_unique) (auto simp: power_int_add)

lemma ilog2_less: "0 < x \<Longrightarrow> x < 2 powi k \<Longrightarrow> ilog2 x < k"
  using ilog2_bounds(1)[of x] powi_mono[of k "ilog2 x"] by (force simp: not_le[symmetric])

lemma representable_multiple: "representable x \<Longrightarrow> \<exists>k. x = of_int k * 2 powi (- 1074)"
proof -
  assume "representable x"
  then obtain m j where m: "x = of_int m * 2 powi j" "- 1074 \<le> j" unfolding representable_def by blast
  have "x = of_int (m * 2 ^ nat (j + 1074)) * 2 powi (- 1074)"
    unfolding m(1) powi_split[OF m(2)] by simp
  then show ?thesis by blast
qed

text \<open>Halving a rounded difference and adding it stays between the two numbers.\<close>

lemma midpoint_between:
  assumes "0 < l" "l < u" "representable l" "representable u" "u < 2 ^ 1024"
  obtains d h m where "fsub (Fin u) (Fin l) = Fin d" "round64 (d / 2) = Fin h"
    "fadd (Fin l) (Fin h) = Fin m" "l \<le> m" "m \<le> u"
proof -
  define x where "x = u - l"
  define e where "e = ilog2 x"
  have u0: "0 < u" using assms by simp
  have x: "0 < x" "x \<le> u" using assms by (auto simp: x_def)
  have "2 powi (- 1074) \<le> x"
  proof -
    obtain j k where jk: "u = of_int k * 2 powi (- 1074)" "l = of_int j * 2 powi (- 1074)"
      using representable_multiple assms(3,4) by meson
    have "x = of_int (k - j) * 2 powi (- 1074)" unfolding x_def jk by (simp add: algebra_simps)
    moreover have "0 < k - j" using x(1) unfolding calculation by (simp add: zero_less_mult_iff)
    then have "(1 :: rat) \<le> of_int (k - j)" by linarith
    ultimately show ?thesis using powi_pos[of "- 1074"] by (simp only: mult_le_cancel_right1 mult_1) auto
  qed
  then have e: "- 1074 \<le> e" unfolding e_def using ilog2_mono[of "2 powi (- 1074)" x] ilog2_powi[of "- 1074"] powi_pos by metis
  have b: "2 powi e \<le> x" "x < 2 powi (e + 1)" unfolding e_def using ilog2_bounds[OF x(1)] by auto
  have sx: "spacing x \<le> e" using e by (simp add: spacing_def e_def[symmetric])
  define d where "d = round_abs x"
  have d: "2 powi e \<le> d" "d \<le> 2 powi (e + 1)" "d \<le> u"
    using round_abs_ge_powi[OF sx b(1)] round_abs_le_powi[of x "e + 1"] sx b(2) round_abs_mono[OF x]
      round_abs_exact[OF u0 assms(4)] by (auto simp: d_def)
  have d0: "0 < d" using d(1) powi_pos[of e] by linarith
  have s: "fsub (Fin u) (Fin l) = Fin d"
    using d(3) assms(5) by (simp add: fsub_def x_def[symmetric] round64_pos[OF x(1)] d_def[symmetric])
  define h where "h = round_abs (d / 2)"
  have d2: "d / 2 \<le> 2 powi e" using d(2) by (simp add: power_int_add)
  have "ilog2 (d / 2) < e + 1" by (rule ilog2_less) (use d0 d2 in \<open>auto simp: power_int_add\<close>)
  then have "h \<le> 2 powi e" unfolding h_def using e d2 by (intro round_abs_le_powi) (auto simp: spacing_def)
  then have h: "h \<le> x" "0 \<le> h" using b(1) d0 round_abs_nonneg[of "d / 2"] by (auto simp: h_def)
  have hf: "round64 (d / 2) = Fin h" using d0 h(1) x(2) assms(5) by (simp add: round64_pos h_def[symmetric])
  define m where "m = round_abs (l + h)"
  have m: "l \<le> m" "m \<le> u"
    using round_abs_mono[of l "l + h"] round_abs_mono[of "l + h" u] h assms(1)
      round_abs_exact[OF assms(1,3)] round_abs_exact[OF u0 assms(4)] by (auto simp: m_def x_def)
  have "fadd (Fin l) (Fin h) = Fin m"
    using assms(1,5) h(2) m(2) by (simp add: round64_pos m_def[symmetric])
  then show thesis using that[OF s hf _ m] by blast
qed

lemma representable_int: "\<bar>n\<bar> \<le> 2 ^ 53 \<Longrightarrow> representable (of_int n)"
  unfolding representable_def by (intro exI[of _ n] exI[of _ 0]) simp

lemma of_whole_exact: "0 < n \<Longrightarrow> n \<le> 2 ^ 53 \<Longrightarrow> of_whole n = Some (Fin (of_int n))"
proof -
  assume n: "0 < n" "n \<le> 2 ^ 53"
  have "(of_int n :: rat) \<le> of_int (2 ^ 53)" using n(2) by (simp only: of_int_le_iff)
  also have "\<dots> < 2 ^ 1024" by simp
  finally show ?thesis using n by (simp add: of_whole_def round64_exact representable_int)
qed

end
