(* ===== verification/Py_Number.thy ===== *)
theory Py_Number
  imports Py_Regex Binary64
begin

text \<open>
  The conversions \<open>int(text)\<close> and \<open>float(text)\<close>.  The decimal value of a character beyond ASCII comes from
  Python's Unicode tables, the parameter \<open>dec\<close>.
\<close>

section \<open>The text of a number\<close>

definition ascii_digit :: "int \<Rightarrow> bool" where "ascii_digit p \<longleftrightarrow> 48 \<le> p \<and> p \<le> 57"

text \<open>Characters beyond ASCII become a blank, the digit they stand for, or a question mark, which no
  number contains.\<close>

definition ascii_number :: "(int \<Rightarrow> int option) \<Rightarrow> points \<Rightarrow> points" where
  "ascii_number dec t =
     map (\<lambda>p. if p < 127 then p else if py_space p then 32
       else case dec p of Some d \<Rightarrow> 48 + d | None \<Rightarrow> 63) t"

definition c_space :: "int \<Rightarrow> bool" where "c_space p \<longleftrightarrow> 9 \<le> p \<and> p \<le> 13 \<or> p = 32"

definition c_strip :: "points \<Rightarrow> points" where
  "c_strip t = rev (dropWhile c_space (rev (dropWhile c_space t)))"

text \<open>An underscore stands between two digits; \<open>previous\<close> is the character before the rest.\<close>

fun drop_underscores :: "int \<Rightarrow> points \<Rightarrow> points option" where
  "drop_underscores previous [] = (if previous = 95 then None else Some [])"
| "drop_underscores previous (p # t) =
     (if p = 95 then (if ascii_digit previous then drop_underscores p t else None)
      else if previous = 95 \<and> \<not> ascii_digit p then None
      else map_option ((#) p) (drop_underscores p t))"

definition number_body :: "(int \<Rightarrow> int option) \<Rightarrow> points \<Rightarrow> points option" where
  "number_body dec t = drop_underscores 0 (c_strip (ascii_number dec t))"

definition split_sign :: "points \<Rightarrow> bool \<times> points" where
  "split_sign t = (case t of [] \<Rightarrow> (False, []) | p # r \<Rightarrow> if p = 45 then (True, r) else if p = 43 then (False, r) else (False, t))"

definition digits_int :: "points \<Rightarrow> int" where
  "digits_int ds = foldl (\<lambda>n p. 10 * n + (p - 48)) 0 ds"

section \<open>\<open>int(text)\<close>\<close>

text \<open>\<open>None\<close> is a \<open>ValueError\<close>; Python refuses more than 4300 digits.\<close>

definition parse_int :: "(int \<Rightarrow> int option) \<Rightarrow> points \<Rightarrow> int option" where
  "parse_int dec t =
     (case number_body dec t of
        None \<Rightarrow> None
      | Some s \<Rightarrow>
          let (negative, ds) = split_sign s in
          if ds = [] \<or> \<not> list_all ascii_digit ds \<or> length ds > 4300 then None
          else Some (if negative then - digits_int ds else digits_int ds))"

section \<open>\<open>float(text)\<close>\<close>

text \<open>An exponent is cut at 19999, far beyond the range of a double.\<close>

definition exponent_of :: "points \<Rightarrow> int option" where
  "exponent_of t =
     (case t of
        [] \<Rightarrow> Some 0
      | p # r \<Rightarrow>
          if p \<noteq> 69 \<and> p \<noteq> 101 then None
          else let (negative, ds) = split_sign r in
            if ds = [] \<or> \<not> list_all ascii_digit ds then None
            else let e = min 19999 (digits_int ds) in Some (if negative then - e else e))"

definition decimal_value :: "points \<Rightarrow> rat option" where
  "decimal_value t =
     (let whole = takeWhile ascii_digit t; r = dropWhile ascii_digit t;
        (fraction, r) = (case r of p # u \<Rightarrow>
            if p = 46 then (takeWhile ascii_digit u, dropWhile ascii_digit u) else ([], r) | [] \<Rightarrow> ([], [])) in
      if whole = [] \<and> fraction = [] then None
      else map_option (\<lambda>e. of_int (digits_int (whole @ fraction)) * 10 powi (e - int (length fraction))) (exponent_of r))"

definition ascii_lower :: "points \<Rightarrow> points" where
  "ascii_lower t = map (\<lambda>p. if 65 \<le> p \<and> p \<le> 90 then p + 32 else p) t"

definition unsigned_float :: "points \<Rightarrow> double option" where
  "unsigned_float t =
     (if ascii_lower t = pts ''inf'' \<or> ascii_lower t = pts ''infinity'' then Some Pos_Inf
      else if ascii_lower t = pts ''nan'' then Some Nan
      else map_option round64 (decimal_value t))"

definition parse_float :: "(int \<Rightarrow> int option) \<Rightarrow> points \<Rightarrow> double option" where
  "parse_float dec t =
     (case number_body dec t of
        None \<Rightarrow> None
      | Some s \<Rightarrow> let (negative, u) = split_sign s in
          map_option (if negative then fneg else id) (unsigned_float u))"

section \<open>Values\<close>

text \<open>What the report tools convert: a text, a number, or \<open>None\<close>.\<close>

datatype py_value = V_Text points | V_Float double | V_Int int | V_None

text \<open>\<open>float(value)\<close>; \<open>None\<close> stands for the three exceptions the callers catch together.\<close>

definition float_of :: "(int \<Rightarrow> int option) \<Rightarrow> py_value \<Rightarrow> double option" where
  "float_of dec v = (case v of
     V_Text t \<Rightarrow> parse_float dec t | V_Float d \<Rightarrow> Some d | V_Int n \<Rightarrow> of_whole n | V_None \<Rightarrow> None)"

section \<open>What a conversion returns is a double\<close>

definition is_double :: "double \<Rightarrow> bool" where
  "is_double d = (case d of Fin x \<Rightarrow> representable x \<and> \<bar>x\<bar> < 2 ^ 1024 | _ \<Rightarrow> True)"

lemma is_double_simps [simp]: "is_double Pos_Inf" "is_double Neg_Inf" "is_double Nan"
  by (simp_all add: is_double_def)

lemma round64_double [simp]: "is_double (round64 x)"
proof -
  have "representable 0" unfolding representable_def by (intro exI[of _ 0] exI[of _ 0]) simp
  have s: "representable (sgn x * round_abs \<bar>x\<bar>)" if "x \<noteq> 0"
  proof -
    have "0 < \<bar>x\<bar>" using that by simp
    from round_abs_representable[OF this] obtain m j where
      m: "round_abs \<bar>x\<bar> = of_int m * 2 powi j" "\<bar>m\<bar> \<le> 2 ^ 53" "- 1074 \<le> j" unfolding representable_def by blast
    have "sgn x * round_abs \<bar>x\<bar> = of_int (if 0 < x then m else - m) * 2 powi j"
      unfolding m(1) using that by (auto simp: sgn_if)
    then show ?thesis unfolding representable_def using m(2,3) by (intro exI[of _ "if 0 < x then m else - m"] exI[of _ j]) auto
  qed
  show ?thesis
    using s \<open>representable 0\<close> round_abs_nonneg[of "\<bar>x\<bar>"] by (auto simp: round64_def Let_def is_double_def abs_mult)
qed

lemma fneg_double [simp]: "is_double (fneg d) = is_double d"
proof -
  have "representable (- x)" if "representable x" for x
  proof -
    obtain m j where "x = of_int m * 2 powi j" "\<bar>m\<bar> \<le> 2 ^ 53" "- 1074 \<le> j" using \<open>representable x\<close> unfolding representable_def by blast
    then show ?thesis unfolding representable_def by (intro exI[of _ "- m"] exI[of _ j]) auto
  qed
  from this this[of "- _"] show ?thesis by (cases d) (force simp: is_double_def)+
qed

lemma parse_float_double: "parse_float dec t = Some d \<Longrightarrow> is_double d"
  by (auto simp: parse_float_def unsigned_float_def split: option.splits if_splits prod.splits)

end
