(* ===== verification/Report_Stats.thy ===== *)
theory Report_Stats
  imports Py_Number "HOL-Library.Product_Lexorder"
begin

text \<open>
  Statistics and evidence validation of the benchmark reports (\<open>bench/tools/report_comparison.py\<close>).
  A row of a report maps a column to its value; \<open>libm\<close>'s logarithm and power are parameters of
  the axis.
\<close>

section \<open>Values, rows and exceptions\<close>

datatype report_exc =
    Value_Error string | Key_Error string | Type_Error | Overflow_Error | Zero_Division | Index_Error
  | Attribute_Error

text \<open>Decimal digits and upper case beyond ASCII, and \<open>str\<close> of a float.\<close>

record text_tables =
  tt_decimal :: "int \<Rightarrow> int option"
  tt_upper :: "points \<Rightarrow> points"
  tt_float :: "double \<Rightarrow> points"

type_synonym report_row = "string \<Rightarrow> py_value option"

definition row_get :: "report_row \<Rightarrow> string \<Rightarrow> py_value" where
  "row_get row f = (case row f of Some v \<Rightarrow> v | None \<Rightarrow> V_None)"

definition row_item :: "report_row \<Rightarrow> string \<Rightarrow> report_exc + py_value" where
  "row_item row f = (case row f of Some v \<Rightarrow> Inr v | None \<Rightarrow> Inl (Key_Error f))"

text \<open>\<open>value in (None, "")\<close>.\<close>

definition absent :: "py_value \<Rightarrow> bool" where "absent v \<longleftrightarrow> v = V_None \<or> v = V_Text []"

definition value_text :: "text_tables \<Rightarrow> py_value \<Rightarrow> points" where
  "value_text tt v = (case v of V_Text t \<Rightarrow> t | V_Float d \<Rightarrow> tt_float tt d | V_Int n \<Rightarrow> pts (show_int n) | V_None \<Rightarrow> pts ''None'')"

text \<open>The number a finite double stands for; \<open>a / b\<close>; \<open>max(a, b)\<close>; \<open>xs[i]\<close>.\<close>

definition number :: "double \<Rightarrow> rat" where "number d = (case d of Fin x \<Rightarrow> x | _ \<Rightarrow> 0)"

definition quotient :: "double \<Rightarrow> double \<Rightarrow> report_exc + double" where
  "quotient a b = (case fdiv a b of Some q \<Rightarrow> Inr q | None \<Rightarrow> Inl Zero_Division)"

definition fmax :: "double \<Rightarrow> double \<Rightarrow> double" where "fmax a b = (if fless a b then b else a)"

definition whole_number :: "int option \<Rightarrow> report_exc + int" where
  "whole_number n = (case n of Some n \<Rightarrow> Inr n | None \<Rightarrow> Inl Overflow_Error)"

definition float_number :: "double option \<Rightarrow> report_exc + double" where
  "float_number d = (case d of Some d \<Rightarrow> Inr d | None \<Rightarrow> Inl Overflow_Error)"

definition list_item :: "'a list \<Rightarrow> int \<Rightarrow> report_exc + 'a" where
  "list_item xs i =
     (let j = if i < 0 then i + int (length xs) else i in
      if 0 \<le> j \<and> j < int (length xs) then Inr (xs ! nat j) else Inl Index_Error)"

section \<open>Numbers\<close>

definition parse_positive_finite :: "text_tables \<Rightarrow> py_value \<Rightarrow> string \<Rightarrow> report_exc + double" where
  "parse_positive_finite tt v f =
     (case float_of (tt_decimal tt) v of
        None \<Rightarrow> Inl (Value_Error (f @ '' must be numeric''))
      | Some parsed \<Rightarrow>
          if \<not> is_finite parsed \<or> fless_eq parsed (Fin 0)
          then Inl (Value_Error (f @ '' must be finite and positive''))
          else Inr parsed)"

definition positive_finite_ratio :: "text_tables \<Rightarrow> py_value \<Rightarrow> py_value \<Rightarrow> report_exc + double" where
  "positive_finite_ratio tt candidate comparator =
     bind_r (parse_positive_finite tt candidate ''candidate'') (\<lambda>numerator.
     bind_r (parse_positive_finite tt comparator ''comparator'') (\<lambda>denominator.
     bind_r (quotient numerator denominator) (\<lambda>q.
     parse_positive_finite tt (V_Float q) ''ratio'')))"

section \<open>The ticks of an axis\<close>

record libm =
  lm_log10 :: "double \<Rightarrow> double"
  lm_pow10 :: "int \<Rightarrow> double option"

fun tick_steps :: "double \<Rightarrow> nat \<Rightarrow> double \<Rightarrow> double list option" where
  "tick_steps step 0 v = Some []"
| "tick_steps step (Suc n) v =
     (let w = fadd v step in
      if \<not> is_finite w \<or> fless_eq w v then None else map_option ((#) w) (tick_steps step n w))"

definition tick_factor :: "double \<Rightarrow> double" where
  "tick_factor base =
     (if fless_eq base (Fin 1) then Fin 1 else if fless_eq base (Fin 2) then Fin 2
      else if fless_eq base (Fin 5) then Fin 5 else Fin 10)"

text \<open>From the step on: at most a hundred intervals, or the two-tick axis.\<close>

definition stepped_ticks :: "double \<Rightarrow> double \<Rightarrow> double \<Rightarrow> report_exc + double list" where
  "stepped_ticks evidence target step =
     (let fallback = [Fin 0, evidence] in
      bind_r (quotient target step) (\<lambda>q.
      bind_r (whole_number (fceil q)) (\<lambda>intervals.
      if \<not> (1 \<le> intervals \<and> intervals \<le> 100) then Inr fallback
      else bind_r (float_number (of_whole intervals)) (\<lambda>n.
        let top_tick = fmul n step in
        if \<not> is_finite top_tick \<or> fless top_tick evidence then Inr fallback
        else case tick_steps step (nat intervals) (Fin 0) of
          None \<Rightarrow> Inr fallback
        | Some steps \<Rightarrow>
            let ticks = Fin 0 # steps;
              ticks = butlast ticks @ [fmax (last ticks) top_tick] in
            if fless (last ticks) evidence then Inr fallback else Inr ticks))))"

definition positive_finite_axis_ticks ::
  "libm \<Rightarrow> text_tables \<Rightarrow> py_value \<Rightarrow> py_value \<Rightarrow> py_value \<Rightarrow> report_exc + double list" where
  "positive_finite_axis_ticks lm tt max_value padding tick_count =
     bind_r (parse_positive_finite tt max_value ''axis maximum'') (\<lambda>evidence.
     bind_r (parse_positive_finite tt padding ''axis padding'') (\<lambda>scale.
     bind_r (parse_positive_finite tt tick_count ''axis tick count'') (\<lambda>requested.
     let fallback = [Fin 0, evidence]; padded = fmul evidence scale in
     if \<not> is_finite padded then Inr fallback
     else let target = fmax evidence padded in
       bind_r (quotient target requested) (\<lambda>raw.
       if \<not> is_finite raw \<or> fless_eq raw (Fin 0) then Inr fallback
       else bind_r (whole_number (ffloor (lm_log10 lm raw))) (\<lambda>exponent.
         bind_r (float_number (lm_pow10 lm exponent)) (\<lambda>magnitude.
         if \<not> is_finite magnitude \<or> fless_eq magnitude (Fin 0) then Inr fallback
         else bind_r (quotient raw magnitude) (\<lambda>base.
           let step = fmul (tick_factor base) magnitude in
           if \<not> is_finite step \<or> fless_eq step (Fin 0) then Inr fallback
           else stepped_ticks evidence target step)))))))"

section \<open>Order statistics\<close>

definition sample_values :: "text_tables \<Rightarrow> py_value list \<Rightarrow> (nat \<Rightarrow> string) \<Rightarrow> report_exc + double list" where
  "sample_values tt values label =
     map_r (\<lambda>(i, v). parse_positive_finite tt v (label i)) (zip [0..<length values] values)"

definition sample_label :: "string \<Rightarrow> nat \<Rightarrow> string" where
  "sample_label f i = f @ '' sample['' @ show_int (int i) @ '']''"

definition positive_finite_median :: "text_tables \<Rightarrow> py_value list \<Rightarrow> string \<Rightarrow> report_exc + double" where
  "positive_finite_median tt values f =
     bind_r (sample_values tt values (sample_label f)) (\<lambda>samples.
     let ordered = sort_key number samples; middle = length ordered div 2 in
     if ordered = [] then Inl (Value_Error (f @ '' requires at least one sample''))
     else if length ordered mod 2 = 1
     then parse_positive_finite tt (V_Float (ordered ! middle)) f
     else let lower = ordered ! (middle - 1); upper = ordered ! middle in
       bind_r (quotient (fsub upper lower) (Fin 2)) (\<lambda>half.
       parse_positive_finite tt (V_Float (fadd lower half)) f))"

definition nearest_rank_percentile ::
  "text_tables \<Rightarrow> py_value list \<Rightarrow> py_value \<Rightarrow> string \<Rightarrow> report_exc + double" where
  "nearest_rank_percentile tt values percentile f =
     (case float_of (tt_decimal tt) percentile of
        None \<Rightarrow> Inl (Value_Error (f @ '' percentile must be numeric''))
      | Some rank_percent \<Rightarrow>
          if \<not> is_finite rank_percent \<or> \<not> (fless (Fin 0) rank_percent \<and> fless_eq rank_percent (Fin 100))
          then Inl (Value_Error (f @ '' percentile must satisfy 0 < percentile <= 100''))
          else bind_r (sample_values tt values (sample_label f)) (\<lambda>samples.
            let ordered = sort_key number samples in
            if ordered = [] then Inl (Value_Error (f @ '' requires at least one sample''))
            else bind_r (float_number (of_whole (int (length ordered)))) (\<lambda>n.
              bind_r (quotient (fmul n rank_percent) (Fin 100)) (\<lambda>q.
              bind_r (whole_number (fceil q)) (\<lambda>rank.
              list_item ordered (rank - 1))))))"

section \<open>Evidence of a row\<close>

definition required_field :: "text_tables \<Rightarrow> report_row \<Rightarrow> string \<Rightarrow> unit \<Rightarrow> report_exc + unit" where
  "required_field tt row f u =
     (if absent (row_get row f) then Inl (Value_Error (f @ '' is required''))
      else bind_r (parse_positive_finite tt (row_get row f) f) (\<lambda>_. Inr ()))"

definition optional_field :: "text_tables \<Rightarrow> report_row \<Rightarrow> string \<Rightarrow> unit \<Rightarrow> report_exc + unit" where
  "optional_field tt row f u =
     (if absent (row_get row f) then Inr ()
      else bind_r (parse_positive_finite tt (row_get row f) f) (\<lambda>_. Inr ()))"

definition validate_performance_fields ::
  "text_tables \<Rightarrow> report_row \<Rightarrow> string list \<Rightarrow> string list \<Rightarrow> report_exc + unit" where
  "validate_performance_fields tt row required optional =
     bind_r (fold_r (required_field tt row) required ()) (\<lambda>_. fold_r (optional_field tt row) optional ())"

text \<open>\<open>min(items, key=...)\<close>: the first item with the least key.\<close>

fun first_least :: "('k::linorder) \<times> 'a \<Rightarrow> ('k \<times> 'a) list \<Rightarrow> 'k \<times> 'a" where
  "first_least b [] = b"
| "first_least b (x # xs) = first_least (if fst x < fst b then x else b) xs"

definition min_item :: "(('k::linorder) \<times> 'a) list \<Rightarrow> report_exc + 'k \<times> 'a" where
  "min_item items = (case items of [] \<Rightarrow> Inl (Value_Error ''min() arg is an empty sequence'') | x # xs \<Rightarrow> Inr (first_least x xs))"

definition metric_key :: "text_tables \<Rightarrow> string \<Rightarrow> rat \<Rightarrow> report_row \<Rightarrow> report_exc + (rat \<times> points) \<times> report_row" where
  "metric_key tt f s row =
     bind_r (row_item row f) (\<lambda>v.
     bind_r (parse_positive_finite tt v f) (\<lambda>d.
     Inr ((s * number d, value_text tt (case row ''library'' of Some v \<Rightarrow> v | None \<Rightarrow> V_Text [])), row)))"

definition best_higher_row :: "text_tables \<Rightarrow> report_row list \<Rightarrow> string \<Rightarrow> report_exc + report_row" where
  "best_higher_row tt rows f =
     bind_r (map_r (metric_key tt f (- 1)) rows) (\<lambda>items. bind_r (min_item items) (\<lambda>(_, row). Inr row))"

definition best_lower_row :: "text_tables \<Rightarrow> report_row list \<Rightarrow> string \<Rightarrow> report_exc + report_row" where
  "best_lower_row tt rows f =
     bind_r (map_r (metric_key tt f 1) rows) (\<lambda>items. bind_r (min_item items) (\<lambda>(_, row). Inr row))"

definition metric_samples :: "text_tables \<Rightarrow> report_row \<Rightarrow> report_exc + double list" where
  "metric_samples tt row =
     (let raw = row_get row ''metric_samples'' in
      if absent raw then Inl (Value_Error ''paired-median requires metric_samples'')
      else case raw of
        V_Text t \<Rightarrow>
          bind_r (sample_values tt (map V_Text (split_on 44 t)) (\<lambda>i. ''metric_samples['' @ show_int (int i) @ '']''))
            (\<lambda>samples. if samples = [] then Inl (Value_Error ''metric_samples must contain positive values'') else Inr samples)
      | _ \<Rightarrow> Inl Attribute_Error)"

definition validate_optional_metric_evidence :: "text_tables \<Rightarrow> report_row \<Rightarrow> report_exc + unit" where
  "validate_optional_metric_evidence tt row =
     bind_r (fold_r (optional_field tt row) [''metric_min'', ''metric_median'', ''metric_max''] ()) (\<lambda>_.
     if absent (row_get row ''metric_samples'') then Inr ()
     else bind_r (metric_samples tt row) (\<lambda>_. Inr ()))"

definition paired_median_ratio :: "text_tables \<Rightarrow> report_row \<Rightarrow> report_row \<Rightarrow> report_exc + double" where
  "paired_median_ratio tt candidate comparator =
     bind_r (metric_samples tt candidate) (\<lambda>candidate_samples.
     bind_r (metric_samples tt comparator) (\<lambda>comparator_samples.
     if length candidate_samples \<noteq> length comparator_samples
     then Inl (Value_Error ''paired metric_samples lengths differ'')
     else bind_r (map_r (\<lambda>(c, d). positive_finite_ratio tt (V_Float c) (V_Float d)) (zip candidate_samples comparator_samples))
       (\<lambda>ratios. positive_finite_median tt (map V_Float ratios) ''paired median ratio'')))"

end
