(* ===== verification/Report_Stats_Correct.thy ===== *)
theory Report_Stats_Correct
  imports Report_Stats "HOL-Library.Multiset"
begin

text \<open>
  What the report statistics promise: a median that splits the samples and never overflows, percentile
  ranks that are exact, and axis ticks that start at zero, increase and cover the evidence whatever
  the accuracy of \<open>libm\<close>.
\<close>

section \<open>Parsed values\<close>

definition positive_double :: "double \<Rightarrow> bool" where
  "positive_double d = (case d of Fin x \<Rightarrow> 0 < x \<and> representable x \<and> x < 2 ^ 1024 | _ \<Rightarrow> False)"

lemma positive_doubleE:
  assumes "positive_double d"
  obtains x where "d = Fin x" "0 < x" "representable x" "x < 2 ^ 1024" "number d = x"
  using assms by (cases d) (auto simp: positive_double_def number_def)

lemma parse_positive_finite_Inr:
  assumes "parse_positive_finite tt v f = Inr d"
  obtains x where "d = Fin x" "0 < x" "float_of (tt_decimal tt) v = Some d"
  using assms by (cases d) (auto simp: parse_positive_finite_def split: option.splits if_splits)

lemma parse_positive_float: "0 < x \<Longrightarrow> parse_positive_finite tt (V_Float (Fin x)) f = Inr (Fin x)"
  by (simp add: parse_positive_finite_def float_of_def)

lemma parse_positive_text:
  assumes "parse_positive_finite tt (V_Text t) f = Inr d"
  shows "positive_double d"
proof -
  obtain x where x: "d = Fin x" "0 < x" "parse_float (tt_decimal tt) t = Some d"
    using assms by (rule parse_positive_finite_Inr) (simp add: float_of_def)
  from parse_float_double[OF x(3)] show ?thesis using x(1,2) by (auto simp: positive_double_def is_double_def)
qed

definition plain_value :: "py_value \<Rightarrow> bool" where
  "plain_value v = (case v of V_Float d \<Rightarrow> is_double d | _ \<Rightarrow> True)"

lemma of_whole_double: "of_whole n = Some d \<Longrightarrow> is_double d"
  using round64_double[of "of_int n"] by (auto simp: of_whole_def split: double.splits)

lemma parse_positive_plain:
  assumes "parse_positive_finite tt v f = Inr d" "plain_value v"
  shows "positive_double d"
proof -
  obtain x where x: "d = Fin x" "0 < x" "float_of (tt_decimal tt) v = Some d"
    using assms(1) by (rule parse_positive_finite_Inr)
  have "is_double d" using x(3) assms(2)
    by (auto simp: float_of_def plain_value_def parse_float_double of_whole_double split: py_value.splits)
  then show ?thesis using x(1,2) by (auto simp: positive_double_def is_double_def)
qed

lemma map_r_all:
  assumes "map_r f xs = Inr ys" "\<And>x y. x \<in> set xs \<Longrightarrow> f x = Inr y \<Longrightarrow> P y"
  shows "\<forall>y \<in> set ys. P y"
proof
  fix y assume "y \<in> set ys"
  then obtain i where i: "i < length ys" "y = ys ! i" by (auto simp: in_set_conv_nth)
  then have "i < length xs" "f (xs ! i) = Inr y" using assms(1) by (auto simp: map_r_eq_Inr list_all2_conv_all_nth)
  then show "P y" using assms(2) nth_mem by blast
qed

lemma sample_values_positive:
  assumes "sample_values tt vs label = Inr xs" "\<forall>v \<in> set vs. plain_value v"
  shows "\<forall>x \<in> set xs. positive_double x"
  using assms(1) unfolding sample_values_def
  by (rule map_r_all) (use assms(2) in \<open>auto intro: parse_positive_plain dest: set_zip_rightD\<close>)

section \<open>Order statistics\<close>

lemma filter_take_le: "length (filter P (take n xs)) \<le> length (filter P xs)"
  by (metis append_take_drop_id filter_append le_add1 length_append)

lemma filter_drop_le: "length (filter P (drop n xs)) \<le> length (filter P xs)"
  by (metis append_take_drop_id filter_append le_add2 length_append)

lemma sorted_below:
  assumes "sorted (map f ys)" "i < length ys" "f (ys ! i) \<le> c"
  shows "Suc i \<le> length (filter (\<lambda>y. f y \<le> c) ys)"
proof -
  have "f y \<le> c" if y: "y \<in> set (take (Suc i) ys)" for y
  proof -
    obtain j where j: "j < Suc i" "j < length ys" "y = ys ! j" using y by (auto simp: in_set_conv_nth)
    have "map f ys ! j \<le> map f ys ! i" by (rule sorted_nth_mono[OF assms(1)]) (use j assms(2) in auto)
    then show ?thesis using j assms(2,3) by simp
  qed
  then have "filter (\<lambda>y. f y \<le> c) (take (Suc i) ys) = take (Suc i) ys" by (simp add: filter_id_conv)
  then show ?thesis using filter_take_le[of "\<lambda>y. f y \<le> c" "Suc i" ys] assms(2) by simp
qed

lemma sorted_above:
  assumes "sorted (map f ys)" "i < length ys" "c \<le> f (ys ! i)"
  shows "length ys - i \<le> length (filter (\<lambda>y. c \<le> f y) ys)"
proof -
  have "c \<le> f y" if y: "y \<in> set (drop i ys)" for y
  proof -
    obtain j where j: "j < length ys - i" "y = ys ! (i + j)" using y assms(2) by (auto simp: in_set_conv_nth)
    have "map f ys ! i \<le> map f ys ! (i + j)" by (rule sorted_nth_mono[OF assms(1)]) (use j in auto)
    then show ?thesis using j assms(2,3) by simp
  qed
  then have "filter (\<lambda>y. c \<le> f y) (drop i ys) = drop i ys" by (simp add: filter_id_conv)
  then show ?thesis using filter_drop_le[of "\<lambda>y. c \<le> f y" i ys] by simp
qed

text \<open>How many samples are at most, and at least, a value.\<close>

definition at_most :: "double \<Rightarrow> double list \<Rightarrow> nat" where
  "at_most m xs = length (filter (\<lambda>x. fless_eq x m) xs)"

definition at_least :: "double \<Rightarrow> double list \<Rightarrow> nat" where
  "at_least m xs = length (filter (\<lambda>x. fless_eq m x) xs)"

lemma fless_eq_number: "positive_double x \<Longrightarrow> fless_eq x (Fin c) \<longleftrightarrow> number x \<le> c"
  "positive_double x \<Longrightarrow> fless_eq (Fin c) x \<longleftrightarrow> c \<le> number x"
  by (cases x; simp add: positive_double_def number_def)+

lemma filter_sort_key: "length (filter P (sort_key f xs)) = length (filter P xs)"
proof -
  have "mset (filter P (sort_key f xs)) = mset (filter P xs)" by simp
  then show ?thesis by (metis size_mset)
qed

lemma at_most_sorted:
  assumes "\<forall>x \<in> set xs. positive_double x" "i < length xs" "number (sort_key number xs ! i) \<le> c"
  shows "Suc i \<le> at_most (Fin c) xs"
proof -
  have "Suc i \<le> length (filter (\<lambda>y. number y \<le> c) (sort_key number xs))"
    by (rule sorted_below) (use assms(2,3) in auto)
  also have "\<dots> = at_most (Fin c) xs" unfolding filter_sort_key at_most_def
    using assms(1) by (intro arg_cong[of _ _ length] filter_cong) (auto simp: fless_eq_number)
  finally show ?thesis .
qed

lemma at_least_sorted:
  assumes "\<forall>x \<in> set xs. positive_double x" "i < length xs" "c \<le> number (sort_key number xs ! i)"
  shows "length xs - i \<le> at_least (Fin c) xs"
proof -
  have "length (sort_key number xs) - i \<le> length (filter (\<lambda>y. c \<le> number y) (sort_key number xs))"
    by (rule sorted_above) (use assms(2,3) in auto)
  also have "\<dots> = at_least (Fin c) xs" unfolding filter_sort_key at_least_def
    using assms(1) by (intro arg_cong[of _ _ length] filter_cong) (auto simp: fless_eq_number)
  finally show ?thesis by simp
qed

section \<open>The median\<close>

lemma median_of_samples:
  assumes s: "sample_values tt vs (sample_label f) = Inr xs" and p: "\<forall>x \<in> set xs. positive_double x" and ne: "xs \<noteq> []"
  obtains m where "positive_finite_median tt vs f = Inr m" "length xs \<le> 2 * at_most m xs" "length xs \<le> 2 * at_least m xs"
proof -
  define ys where "ys = sort_key number xs"
  define k where "k = length xs div 2"
  have len: "length ys = length xs" "set ys = set xs" "ys \<noteq> []" using ne by (auto simp: ys_def dest: arg_cong[of _ _ length])
  have k: "k < length xs" using ne by (simp add: k_def)
  have py: "positive_double (ys ! i)" if "i < length xs" for i using p that len by (metis nth_mem)
  show thesis
  proof (cases "length xs mod 2 = 1")
    case True
    obtain x where x: "ys ! k = Fin x" "0 < x" "number (ys ! k) = x" using py[OF k] by (auto elim: positive_doubleE)
    have "positive_finite_median tt vs f = Inr (Fin x)"
      using True ne x by (simp add: positive_finite_median_def s Let_def ys_def[symmetric] len k_def[symmetric] parse_positive_float)
    moreover have "Suc k \<le> at_most (Fin x) xs" "length xs - k \<le> at_least (Fin x) xs"
      using at_most_sorted[OF p k, of x] at_least_sorted[OF p k, of x] x(3) by (auto simp: ys_def)
    then have "length xs \<le> 2 * at_most (Fin x) xs" "length xs \<le> 2 * at_least (Fin x) xs"
      unfolding k_def by linarith+
    ultimately show thesis using that by blast
  next
    case False
    then have two: "length xs = 2 * k" unfolding k_def by presburger
    have "0 < k" using ne two by (cases k) auto
    note two = two this
    have k1: "k - 1 < length xs" using k by simp
    obtain l where l: "ys ! (k - 1) = Fin l" "0 < l" "representable l" "l < 2 ^ 1024" "number (ys ! (k - 1)) = l"
      using py[OF k1] by (rule positive_doubleE)
    obtain u where u: "ys ! k = Fin u" "0 < u" "representable u" "u < 2 ^ 1024" "number (ys ! k) = u"
      using py[OF k] by (rule positive_doubleE)
    have "map number ys ! (k - 1) \<le> map number ys ! k"
      by (rule sorted_nth_mono) (use k len in \<open>auto simp: ys_def\<close>)
    then have lu: "l \<le> u" using k k1 l(5) u(5) len by simp
    obtain m where m: "bind_r (quotient (fsub (Fin u) (Fin l)) (Fin 2)) (\<lambda>half. parse_positive_finite tt (V_Float (fadd (Fin l) half)) f) = Inr (Fin m)"
      "l \<le> m" "m \<le> u"
    proof (cases "l = u")
      case True
      show thesis by (rule that[of l]) (use True l in \<open>simp_all add: fsub_def quotient_def round64_exact parse_positive_float\<close>)
    next
      case False
      with lu have "l < u" by simp
      from midpoint_between[OF l(2) this l(3) u(3,4)] obtain d h m where
        m: "fsub (Fin u) (Fin l) = Fin d" "round64 (d / 2) = Fin h" "fadd (Fin l) (Fin h) = Fin m" "l \<le> m" "m \<le> u" .
      have m0: "0 < m" using m(4) l(2) by linarith
      show thesis by (rule that[of m]) (use m m0 in \<open>simp_all add: quotient_def parse_positive_float del: fadd.simps\<close>)
    qed
    have "positive_finite_median tt vs f = Inr (Fin m)"
      using False ne m(1) by (simp add: positive_finite_median_def s Let_def ys_def[symmetric] len(1) k_def[symmetric] l(1)[unfolded One_nat_def] u(1) len(3))
    moreover have "Suc (k - 1) \<le> at_most (Fin m) xs" "length xs - k \<le> at_least (Fin m) xs"
      using at_most_sorted[OF p k1, of m] at_least_sorted[OF p k, of m] l(5) u(5) m by (auto simp: ys_def)
    then have "length xs \<le> 2 * at_most (Fin m) xs" "length xs \<le> 2 * at_least (Fin m) xs"
      unfolding two(1) using two(2) by linarith+
    ultimately show thesis using that by blast
  qed
qed

text \<open>C25. The median of texts is the first error of the samples, an error when there are none, and
  otherwise a number that at least half of the samples are not above and at least half are not below;
  an even count never overflows.\<close>

theorem median_splits_samples:
  "case sample_values tt (map V_Text ts) (sample_label f) of
     Inl e \<Rightarrow> positive_finite_median tt (map V_Text ts) f = Inl e
   | Inr [] \<Rightarrow> positive_finite_median tt (map V_Text ts) f = Inl (Value_Error (f @ '' requires at least one sample''))
   | Inr (x # xs) \<Rightarrow> (case positive_finite_median tt (map V_Text ts) f of
        Inl e \<Rightarrow> False
      | Inr m \<Rightarrow> length (x # xs) \<le> 2 * at_most m (x # xs) \<and> length (x # xs) \<le> 2 * at_least m (x # xs))"
proof (cases "sample_values tt (map V_Text ts) (sample_label f)")
  case (Inr xs)
  show ?thesis
  proof (cases xs)
    case (Cons y ys)
    have "\<forall>x \<in> set xs. positive_double x" using sample_values_positive[OF Inr] by (auto simp: plain_value_def)
    from median_of_samples[OF Inr this] Cons show ?thesis unfolding Inr by force
  qed (simp add: Inr positive_finite_median_def)
qed (simp add: positive_finite_median_def)

section \<open>Percentiles\<close>

lemma round64_ceiling:
  fixes n :: int
  assumes "0 < n" "n \<le> 2 ^ 46"
  obtains y where "round64 (of_int n / 100) = Fin y" "\<lceil>y\<rceil> = \<lceil>of_int n / (100 :: rat)\<rceil>"
proof -
  define x where "x = of_int n / (100 :: rat)"
  define c where "c = \<lceil>x\<rceil>"
  have x: "0 < x" "x \<le> of_int c" "of_int c - 1 < x" unfolding x_def c_def using assms(1) by (auto, linarith+)
  have c: "0 < c" "c \<le> 2 ^ 46"
  proof -
    have "(of_int c :: rat) > 0" using x by linarith
    then show "0 < c" by simp
    have "(of_int n :: rat) \<le> of_int (2 ^ 46)" using assms(2) by (simp only: of_int_le_iff)
    then have "x \<le> of_int (2 ^ 46)" using x(1) unfolding x_def by linarith
    then show "c \<le> 2 ^ 46" unfolding c_def by (simp only: ceiling_le_iff)
  qed
  have up: "round_abs x \<le> of_int c"
    using round_abs_mono[OF x(1,2)] round_abs_exact[of "of_int c"] representable_int[of c] c x by simp
  define z where "z = of_int (128 * (c - 1) + 1) * (2 :: rat) powi (- 7)"
  have z: "z = of_int (c - 1) + 1 / 128" by (simp add: z_def power_int_def field_simps)
  have rz: "representable z" unfolding representable_def z_def
    by (intro exI[of _ "128 * (c - 1) + 1"] exI[of _ "- 7"]) (use c in auto)
  have "100 * (c - 1) < n"
  proof -
    have "(of_int (100 * (c - 1)) :: rat) < of_int n" using x(3) unfolding x_def by simp
    then show ?thesis by (simp only: of_int_less_iff)
  qed
  then have "(of_int (100 * (c - 1) + 1) :: rat) \<le> of_int n" by (simp only: of_int_le_iff)
  then have "z \<le> x" unfolding z x_def by simp
  moreover have "0 < z" using c unfolding z by (simp add: add_nonneg_pos)
  ultimately have low: "of_int (c - 1) < round_abs x"
    using round_abs_mono[of z x] round_abs_exact[OF _ rz] unfolding z by linarith
  have "(of_int c :: rat) \<le> of_int (2 ^ 46)" using c(2) by (simp only: of_int_le_iff)
  then have "round_abs x < 2 ^ 1024" using up by (rule_tac le_less_trans[of _ "of_int (2 ^ 46)"]) auto
  then have "round64 x = Fin (round_abs x)" using x(1) by (simp add: round64_pos)
  moreover have "\<lceil>round_abs x\<rceil> = c" using up low by (intro ceiling_unique) auto
  ultimately show thesis using that unfolding x_def c_def by blast
qed

lemma of_whole_outside:
  assumes "p < 1 \<or> 100 < p" "of_whole p = Some d"
  shows "\<not> (fless (Fin 0) d \<and> fless_eq d (Fin 100))"
proof (cases "0 < p")
  case True
  have "(101 :: rat) \<le> of_int p" using True assms(1) by simp
  then have "101 \<le> round_abs (of_int p)"
    using round_abs_mono[of 101 "of_int p"] round_abs_exact[of 101] representable_int[of 101] by simp
  then show ?thesis using True assms(2) by (auto simp: of_whole_def round64_pos split: if_splits)
next
  case False
  have "sgn (of_int p) * round_abs \<bar>of_int p\<bar> \<le> (0 :: rat)"
    using False round_abs_nonneg[of "\<bar>of_int p\<bar>"] by (cases "p = 0") (auto simp: sgn_if)
  then show ?thesis using False assms(2)
    by (auto simp: of_whole_def round64_def Let_def fless_def split: if_splits)
qed

lemma percentile_rank:
  assumes s: "sample_values tt vs (sample_label f) = Inr xs" "xs \<noteq> []" and n: "int (length xs) \<le> 2 ^ 39" and p: "1 \<le> p" "p \<le> 100"
  shows "nearest_rank_percentile tt vs (V_Int p) f =
    Inr (sort_key number xs ! nat (\<lceil>of_int (int (length xs) * p) / (100 :: rat)\<rceil> - 1))
    \<and> 0 < \<lceil>of_int (int (length xs) * p) / (100 :: rat)\<rceil> \<and> \<lceil>of_int (int (length xs) * p) / (100 :: rat)\<rceil> \<le> int (length xs)"
proof -
  let ?n = "int (length xs)"
  have n0: "0 < ?n" using s(2) by simp
  have fp: "of_whole p = Some (Fin (of_int p))" by (rule of_whole_exact) (use p in auto)
  have fn: "of_whole ?n = Some (Fin (of_int ?n))" by (rule of_whole_exact) (use n n0 in auto)
  have np: "0 < ?n * p" "?n * p \<le> 2 ^ 46"
    using n0 p n mult_mono[of ?n "2 ^ 39" p 100] by (auto intro: mult_pos_pos)
  have m: "round64 (of_int ?n * of_int p) = Fin (of_int (?n * p))"
    using of_whole_exact[of "?n * p"] np by (auto simp: of_whole_def split: double.splits)
  obtain y where y: "round64 (of_int (?n * p) / 100) = Fin y" "\<lceil>y\<rceil> = \<lceil>of_int (?n * p) / (100 :: rat)\<rceil>"
    using round64_ceiling[OF np] .
  have "(0 :: rat) < of_int (?n * p)" using np(1) by (simp only: of_int_0_less_iff)
  then have c: "0 < \<lceil>of_int (?n * p) / (100 :: rat)\<rceil>" by (simp del: of_int_mult)
  have "(of_int (?n * p) :: rat) \<le> of_int (?n * 100)" unfolding of_int_le_iff using p n0 by (intro mult_left_mono) auto
  then have c2: "\<lceil>of_int (?n * p) / (100 :: rat)\<rceil> \<le> ?n" by (simp add: ceiling_le_iff)
  define c where "c = \<lceil>of_int (?n * p) / (100 :: rat)\<rceil>"
  have "nearest_rank_percentile tt vs (V_Int p) f = list_item (sort_key number xs) (c - 1)"
  proof -
    have o: "sort_key number xs \<noteq> []" using s(2) by (metis length_0_conv length_sort)
    have a: "is_finite (Fin (of_int p))" "fless (Fin 0) (Fin (of_int p))" "fless_eq (Fin (of_int p)) (Fin 100)"
      using p by (auto simp: fless_def)
    have q: "quotient (fmul (Fin (of_int ?n)) (Fin (of_int p))) (Fin 100) = Inr (Fin y)"
      by (simp only: quotient_def fmul.simps m fdiv.simps y(1)) simp
    show ?thesis
      by (simp only: nearest_rank_percentile_def float_of_def py_value.case option.case fp a simp_thms if_False s(1) bind_r_simps
        Let_def o length_sort fn float_number_def q whole_number_def fceil_def double.case y(2) c_def)
  qed
  then show ?thesis using c c2 unfolding c_def[symmetric] by (simp add: list_item_def)
qed

text \<open>C26. The percentile at an integer from 1 to 100 of up to \<open>2 ^ 39\<close> samples is exact in spite of the
  binary arithmetic of its rank: at least that share of the samples is not above the result, and more
  than the rest of the share is not below it.  Any other integer is refused.\<close>

theorem percentile_exact:
  "if p < 1 \<or> 100 < p then \<not> is_ok (nearest_rank_percentile tt (map V_Text ts) (V_Int p) f)
   else case sample_values tt (map V_Text ts) (sample_label f) of
     Inl e \<Rightarrow> nearest_rank_percentile tt (map V_Text ts) (V_Int p) f = Inl e
   | Inr xs \<Rightarrow>
       if xs = [] then \<not> is_ok (nearest_rank_percentile tt (map V_Text ts) (V_Int p) f)
       else 2 ^ 39 < int (length xs) \<or> (case nearest_rank_percentile tt (map V_Text ts) (V_Int p) f of
         Inl e \<Rightarrow> False
       | Inr r \<Rightarrow> p * int (length xs) \<le> 100 * int (at_most r xs)
           \<and> (100 - p) * int (length xs) < 100 * int (at_least r xs))"
proof (cases "p < 1 \<or> 100 < p")
  case True
  then show ?thesis using of_whole_outside[OF True] by (auto simp: nearest_rank_percentile_def float_of_def split: option.splits)
next
  case False
  then have p: "1 \<le> p" "p \<le> 100" by auto
  have fp: "of_whole p = Some (Fin (of_int p))" by (rule of_whole_exact) (use p in auto)
  show ?thesis
  proof (cases "sample_values tt (map V_Text ts) (sample_label f)")
    case (Inl e)
    then show ?thesis using p by (simp add: nearest_rank_percentile_def float_of_def fp fless_def)
  next
    case (Inr xs)
    have pd: "\<forall>x \<in> set xs. positive_double x" using sample_values_positive[OF Inr] by (auto simp: plain_value_def)
    let ?n = "int (length xs)"
    define c where "c = \<lceil>of_int (?n * p) / (100 :: rat)\<rceil>"
    have "p * ?n \<le> 100 * int (at_most r xs) \<and> (100 - p) * ?n < 100 * int (at_least r xs)"
      if r: "nearest_rank_percentile tt (map V_Text ts) (V_Int p) f = Inr r" and ne: "xs \<noteq> []" and n: "?n \<le> 2 ^ 39" for r
    proof -
      note k = percentile_rank[OF Inr ne n p, folded c_def]
      have i: "nat (c - 1) < length xs" using k by linarith
      have rk: "r = sort_key number xs ! nat (c - 1)" using k r by simp
      have "positive_double r" unfolding rk using pd i by (metis length_sort nth_mem set_sort)
      then obtain x where x: "r = Fin x" "number r = x" by (auto elim: positive_doubleE)
      have "Suc (nat (c - 1)) \<le> at_most r xs" "length xs - nat (c - 1) \<le> at_least r xs"
        unfolding x(1) using at_most_sorted[OF pd i, of x] at_least_sorted[OF pd i, of x] x(2) rk by auto
      then have a: "c \<le> int (at_most r xs)" "?n - (c - 1) \<le> int (at_least r xs)" using i k by linarith+
      have b: "of_int (?n * p) / (100 :: rat) \<le> of_int c" "of_int c < of_int (?n * p) / (100 :: rat) + 1" unfolding c_def by linarith+
      then have "(of_int (?n * p) :: rat) \<le> of_int (100 * c)" "(of_int (100 * (c - 1)) :: rat) < of_int (?n * p)" by auto
      then have "?n * p \<le> 100 * c" "100 * (c - 1) < ?n * p" by (simp_all only: of_int_le_iff of_int_less_iff)
      then show ?thesis using a by (simp add: algebra_simps)
    qed
    note bounds = this
    show ?thesis
    proof (cases "xs = [] \<or> 2 ^ 39 < ?n")
      case True
      then show ?thesis using p by (auto simp: Inr nearest_rank_percentile_def float_of_def fp fless_def)
    next
      case False
      then have ne: "xs \<noteq> []" and n: "?n \<le> 2 ^ 39" by auto
      obtain r where r: "nearest_rank_percentile tt (map V_Text ts) (V_Int p) f = Inr r"
        using percentile_rank[OF Inr ne n p] by blast
      show ?thesis using p ne bounds[OF r ne n] by (simp add: Inr r)
    qed
  qed
qed

text \<open>The smallest percentile the guard admits has its rank rounded to zero, and index \<open>-1\<close> is the largest
  sample.\<close>

lemma tiny_percentile_is_largest:
  assumes s: "sample_values tt vs (sample_label f) = Inr xs" and n: "0 < length xs" "length xs < 50"
  shows "nearest_rank_percentile tt vs (V_Float (Fin (2 powi (- 1074)))) f = Inr (last (sort_key number xs))"
proof -
  let ?n = "of_int (int (length xs)) :: rat" and ?t = "(2 :: rat) powi (- 1074)"
  have t: "0 < ?t" "?t \<le> 100" "?t < 2 ^ 1024"
  proof -
    have "?t \<le> 2 powi 0" by (rule powi_mono) simp
    then have "?t \<le> 1" by simp
    then show "?t \<le> 100" "?t < 2 ^ 1024" by (auto simp: le_less_trans[of ?t 1])
  qed simp
  have nt: "?n * ?t < 2 ^ 1024"
  proof -
    have "?n * ?t \<le> 50 * 2 powi 0" by (rule mult_mono) (use n powi_mono[of "- 1074" 0] t(1) in \<open>auto simp: less_imp_le\<close>)
    also have "\<dots> < 2 ^ 1024" by simp
    finally show ?thesis .
  qed
  have m: "round64 (?n * ?t) = Fin (?n * ?t)"
  proof (rule round64_exact[OF _ _ nt])
    show "0 < ?n * ?t" using n(1) t(1) by (intro mult_pos_pos) auto
    show "representable (?n * ?t)" unfolding representable_def
      by (intro exI[of _ "int (length xs)"] exI[of _ "- 1074"]) (use n(2) in auto)
  qed
  have x: "0 < ?n * ?t / 100" "?n * ?t / 100 < ?t" using n t(1) by (auto simp: field_simps)
  have "ilog2 (?n * ?t / 100) < - 1074" by (rule ilog2_less[OF x])
  then have sp: "spacing (?n * ?t / 100) = - 1074" by (simp add: spacing_def)
  have r: "?n * ?t / 100 / ?t = ?n / 100" using t(1) by simp
  have h: "0 \<le> ?n / 100" "?n / 100 < 1 / 2" using n by auto
  then have "\<lfloor>?n / 100\<rfloor> = 0" by linarith
  then have "round_even (?n / 100) = 0" using h by (simp add: round_even_def)
  then have z: "round64 (?n * ?t / 100) = Fin 0"
    unfolding round64_pos[OF x(1)] round_abs_def sp r by simp
  have o: "sort_key number xs \<noteq> []" using n by (metis length_0_conv length_sort less_irrefl)
  have fn: "of_whole (int (length xs)) = Some (Fin ?n)" by (rule of_whole_exact) (use n in auto)
  have a: "is_finite (Fin ?t)" "fless (Fin 0) (Fin ?t)" "fless_eq (Fin ?t) (Fin 100)" using t by (auto simp: fless_def)
  have q: "quotient (fmul (Fin ?n) (Fin ?t)) (Fin 100) = Inr (Fin 0)"
    by (simp only: quotient_def fmul.simps m fdiv.simps z) simp
  have "nearest_rank_percentile tt vs (V_Float (Fin ?t)) f = list_item (sort_key number xs) (0 - 1)"
    by (simp only: nearest_rank_percentile_def float_of_def py_value.case option.case a simp_thms if_False s bind_r_simps
      Let_def o length_sort fn float_number_def q whole_number_def fceil_def double.case ceiling_zero)
  then show ?thesis using n o by (simp add: list_item_def last_conv_nth nat_diff_distrib' nat_add_distrib)
qed

section \<open>Axis ticks\<close>

definition axis_ok :: "double \<Rightarrow> double list \<Rightarrow> bool" where
  "axis_ok evidence ticks \<longleftrightarrow> 2 \<le> length ticks \<and> length ticks \<le> 101 \<and> hd ticks = Fin 0
     \<and> list_all is_finite ticks \<and> sorted_wrt fless ticks \<and> fless_eq evidence (last ticks)"

lemma fless_simps [simp]: "fless (Fin x) (Fin y) \<longleftrightarrow> x < y"
  by (auto simp: fless_def)

lemma is_finiteE: assumes "is_finite d" obtains x where "d = Fin x"
  using assms by (cases d) auto

lemma fless_trans: "fless a b \<Longrightarrow> fless b c \<Longrightarrow> fless a c"
  by (cases a; cases b; cases c) (auto simp: fless_def)

lemma tick_steps_increase:
  "tick_steps step n v = Some ws \<Longrightarrow> is_finite v
     \<Longrightarrow> length ws = n \<and> list_all is_finite ws \<and> sorted_wrt fless (v # ws)"
proof (induction step n v arbitrary: ws rule: tick_steps.induct)
  case (2 step n v)
  define w where "w = fadd v step"
  obtain us where us: "is_finite w" "\<not> fless_eq w v" "tick_steps step n w = Some us" "ws = w # us"
    using "2.prems"(1) by (auto simp: w_def Let_def split: if_splits)
  have "length us = n \<and> list_all is_finite us \<and> sorted_wrt fless (w # us)"
    using "2.IH"[OF w_def] us by blast
  moreover have "fless v w" using us(1,2) "2.prems"(2) by (auto elim!: is_finiteE)
  ultimately show ?case using us by (auto intro: fless_trans)
qed simp

lemma fallback_ok: "0 < x \<Longrightarrow> axis_ok (Fin x) [Fin 0, Fin x]"
  by (simp add: axis_ok_def)

lemma raise_last_sorted:
  assumes "sorted_wrt fless (a # ws)" "ws \<noteq> []" "list_all is_finite (a # ws)" "is_finite c"
  shows "sorted_wrt fless (butlast (a # ws) @ [fmax (last (a # ws)) c])"
    "list_all is_finite (butlast (a # ws) @ [fmax (last (a # ws)) c])"
proof -
  obtain us w where w: "ws = us @ [w]" using assms(2) by (cases ws rule: rev_cases) auto
  have "fless x (fmax w c)" if "fless x w" for x using that by (auto simp: fmax_def intro: fless_trans)
  then show "sorted_wrt fless (butlast (a # ws) @ [fmax (last (a # ws)) c])"
    "list_all is_finite (butlast (a # ws) @ [fmax (last (a # ws)) c])"
    using assms(1,3,4) unfolding w by (auto simp: sorted_wrt_append butlast_append fmax_def)
qed

lemma if_InrE:
  assumes "(if c then Inr a else m) = Inr y"
  obtains "c" "y = a" | "\<not> c" "m = Inr y"
  using assms by (auto split: if_splits)

lemma option_InrE:
  assumes "(case r of None \<Rightarrow> Inr a | Some w \<Rightarrow> g w) = Inr y"
  obtains "y = a" | w where "r = Some w" "g w = Inr y"
  using assms by (auto split: option.splits)

lemma stepped_ticks_ok:
  assumes "stepped_ticks (Fin x) target step = Inr ticks" "0 < x"
  shows "axis_ok (Fin x) ticks"
proof -
  consider (plain) "ticks = [Fin 0, Fin x]"
    | (steps) n c ws where "tick_steps step (nat n) (Fin 0) = Some ws"
      "ticks = butlast (Fin 0 # ws) @ [fmax (last (Fin 0 # ws)) c]" "1 \<le> n" "n \<le> 100" "is_finite c"
      "\<not> fless (last ticks) (Fin x)"
    using assms(1) unfolding stepped_ticks_def Let_def
  proof (elim bind_r_InrE if_InrE option_InrE, goal_cases)
    case (5 q n c ws)
    show ?case by (rule 5(2)[of n ws "fmul c step"]) (use 5 in blast)+
  qed
  then show ?thesis
  proof cases
    case plain
    then show ?thesis using fallback_ok[OF assms(2)] by simp
  next
    case steps
    have ws: "length ws = nat n" "list_all is_finite ws" "sorted_wrt fless (Fin 0 # ws)"
      using tick_steps_increase[OF steps(1)] by auto
    have ne: "ws \<noteq> []" using ws(1) steps(3) by auto
    have r: "sorted_wrt fless ticks" "list_all is_finite ticks"
      unfolding steps(2) by (rule raise_last_sorted[OF ws(3) ne _ steps(5)]; use ws(2) in simp)+
    have l: "length ticks = Suc (nat n)" "hd ticks = Fin 0" using ne ws(1) steps(3) by (auto simp: steps(2))
    then have "ticks \<noteq> []" by auto
    then have "is_finite (last ticks)" using r(2) last_in_set[of ticks] by (auto simp: list_all_iff)
    then have "fless_eq (Fin x) (last ticks)" using steps(6) by (auto elim!: is_finiteE)
    moreover have "1 \<le> nat n" "nat n \<le> 100" using steps(3,4) by linarith+
    ultimately show ?thesis using r l by (simp add: axis_ok_def)
  qed
qed

lemma axis_ticks_cases:
  assumes "positive_finite_axis_ticks lm tt v padding tick_count = Inr ticks"
  obtains evidence where "parse_positive_finite tt v ''axis maximum'' = Inr evidence"
    "ticks = [Fin 0, evidence] \<or> (\<exists>target step. stepped_ticks evidence target step = Inr ticks)"
proof -
  obtain evidence where e: "parse_positive_finite tt v ''axis maximum'' = Inr evidence"
    using assms unfolding positive_finite_axis_ticks_def by (rule bind_r_InrE)
  have "ticks = [Fin 0, evidence] \<or> (\<exists>target step. stepped_ticks evidence target step = Inr ticks)"
    using assms unfolding positive_finite_axis_ticks_def e bind_r_simps Let_def
    by (elim bind_r_InrE if_InrE) blast+
  then show thesis using that e by blast
qed

text \<open>C27. Whatever \<open>log10\<close> and the power of ten return, the ticks of an axis start at zero, increase strictly,
  are finite and at most 101, and the last one covers the evidence.\<close>

theorem axis_covers_evidence:
  "case positive_finite_axis_ticks lm tt v padding tick_count of
     Inl e \<Rightarrow> True
   | Inr ticks \<Rightarrow> (case parse_positive_finite tt v ''axis maximum'' of
       Inl e \<Rightarrow> False
     | Inr evidence \<Rightarrow> axis_ok evidence ticks)"
proof (cases "positive_finite_axis_ticks lm tt v padding tick_count")
  case (Inr ticks)
  then obtain evidence where e: "parse_positive_finite tt v ''axis maximum'' = Inr evidence"
    "ticks = [Fin 0, evidence] \<or> (\<exists>target step. stepped_ticks evidence target step = Inr ticks)"
    by (rule axis_ticks_cases)
  obtain x where x: "evidence = Fin x" "0 < x" using e(1) by (rule parse_positive_finite_Inr)
  have "axis_ok evidence ticks"
    using e(2) fallback_ok[OF x(2)] stepped_ticks_ok[OF _ x(2)] unfolding x(1) by blast
  then show ?thesis by (simp add: Inr e)
qed simp

end
