(* ===== verification/Report_Gate.thy ===== *)
theory Report_Gate
  imports Report_Stats_Correct "HOL-Library.AList"
begin

text \<open>
  What the report gates share (\<open>bench/tools/check_*.py\<close>): a gate reads the rows of a CSV file, keeps the
  eligible ones in groups by their parameters, compares in each group the library under test with the
  fastest requested comparator, and returns an exit code.  The statements that differ between the
  gates are the fields of \<open>gate_rules\<close>; every gate below is an instance.  Printed lines are kept as
  values.
\<close>

section \<open>Input, arguments and outcome\<close>

text \<open>What \<open>csv.DictReader\<close> yields; an error of the reader is caught by no gate.\<close>

datatype csv_item = Csv_Row report_row | Csv_Failure

datatype csv_input = Unopened | Opened "csv_item list"

text \<open>A gate stops early with a message and code 2, or with an exception nobody catches.\<close>

datatype gate_stop = Refused string | Uncaught report_exc | Open_Failure | Reader_Failure

record gate_args =
  ga_zynum :: points
  ga_comparators :: "points list option"
  ga_ratio :: double
  ga_skip_missing :: bool
  ga_unchecked :: bool
  ga_worst :: int

type_synonym group_key = "py_value list"
type_synonym group = "(py_value \<times> report_row) list"
type_synonym selected = "group_key \<times> py_value \<times> report_row"

record gate_report =
  gr_code :: int
  gr_checked :: nat
  gr_failed :: nat
  gr_missing :: nat
  gr_failures :: "(double \<times> group_key \<times> report_row \<times> report_row) list"
  gr_missings :: "(group_key \<times> points) list"

definition uncaught :: "report_exc + 'a \<Rightarrow> gate_stop + 'a" where
  "uncaught m = (case m of Inl e \<Rightarrow> Inl (Uncaught e) | Inr x \<Rightarrow> Inr x)"

text \<open>\<open>except ValueError\<close>, and \<open>except (KeyError, ValueError)\<close>.\<close>

definition refuse_value :: "string \<Rightarrow> report_exc + 'a \<Rightarrow> gate_stop + 'a" where
  "refuse_value what m = (case m of
     Inl (Value_Error _) \<Rightarrow> Inl (Refused what) | Inl e \<Rightarrow> Inl (Uncaught e) | Inr x \<Rightarrow> Inr x)"

definition refuse_key :: "string \<Rightarrow> report_exc + 'a \<Rightarrow> gate_stop + 'a" where
  "refuse_key what m = (case m of
     Inl (Value_Error _) \<Rightarrow> Inl (Refused what) | Inl (Key_Error _) \<Rightarrow> Inl (Refused what)
   | Inl e \<Rightarrow> Inl (Uncaught e) | Inr x \<Rightarrow> Inr x)"

section \<open>Groups\<close>

definition text_cell :: "py_value \<Rightarrow> points" where
  "text_cell v = (case v of V_Text t \<Rightarrow> t | _ \<Rightarrow> [])"

text \<open>Two keys compare unless their first difference is between a text and a missing cell; a sort raises
  \<open>TypeError\<close> exactly when two of its keys do not compare, since any correct sort compares
  neighbours of its result.\<close>

fun comparable :: "group_key \<Rightarrow> group_key \<Rightarrow> bool" where
  "comparable (x # xs) (y # ys) =
     (if x = y then comparable xs ys else case (x, y) of (V_Text _, V_Text _) \<Rightarrow> True | _ \<Rightarrow> False)"
| "comparable _ _ = True"

definition key_order :: "group_key \<Rightarrow> points list" where "key_order k = map text_cell k"

definition sorted_groups :: "(group_key \<times> 'g) list \<Rightarrow> gate_stop + (group_key \<times> 'g) list" where
  "sorted_groups gs =
     (if list_all (\<lambda>g. list_all (\<lambda>h. comparable (fst g) (fst h)) gs) gs
      then Inr (sort_key (\<lambda>g. key_order (fst g)) gs) else Inl (Uncaught Type_Error))"

definition group_at :: "(group_key \<times> group) list \<Rightarrow> group_key \<Rightarrow> group" where
  "group_at gs k = (case map_of gs k of Some g \<Rightarrow> g | None \<Rightarrow> [])"

definition add_selected :: "selected \<Rightarrow> (group_key \<times> group) list \<Rightarrow> gate_stop + (group_key \<times> group) list" where
  "add_selected = (\<lambda>(k, library, row) gs.
     let g = group_at gs k in
     if map_of g library \<noteq> None then Inl (Refused ''duplicate library row'')
     else Inr (AList.update k (g @ [(library, row)]) gs))"

section \<open>The rules of one gate\<close>

text \<open>\<open>gt_row\<close> decides what a row contributes, \<open>gt_end\<close> what the file as a whole must satisfy;
  \<open>gt_inspect\<close> looks at a group before it is judged; \<open>gt_compare\<close> gives the decisive ratio and
  comparator; \<open>gt_alias\<close> admits the old label of the library; \<open>gt_latency\<close> is set where a smaller
  metric is better.\<close>

record 's gate_rules =
  gt_start :: 's
  gt_row :: "report_row \<Rightarrow> 's \<Rightarrow> gate_stop + 's \<times> selected option"
  gt_end :: "'s \<Rightarrow> gate_stop + unit"
  gt_inspect :: "group \<Rightarrow> gate_stop + unit"
  gt_compare :: "report_row \<Rightarrow> report_row list \<Rightarrow> gate_stop + double \<times> report_row"
  gt_alias :: bool
  gt_latency :: bool

definition read_item :: "'s gate_rules \<Rightarrow> csv_item \<Rightarrow> 's \<times> (group_key \<times> group) list
    \<Rightarrow> gate_stop + 's \<times> (group_key \<times> group) list" where
  "read_item g item = (\<lambda>(s, gs). case item of
     Csv_Failure \<Rightarrow> Inl Reader_Failure
   | Csv_Row row \<Rightarrow>
       bind_r (gt_row g row s) (\<lambda>(s, chosen).
       case chosen of
         None \<Rightarrow> Inr (s, gs)
       | Some c \<Rightarrow> bind_r (add_selected c gs) (\<lambda>gs. Inr (s, gs))))"

definition collect_groups :: "'s gate_rules \<Rightarrow> csv_item list \<Rightarrow> gate_stop + (group_key \<times> group) list" where
  "collect_groups g items =
     bind_r (fold_r (read_item g) items (gt_start g, [])) (\<lambda>(s, gs). bind_r (gt_end g s) (\<lambda>_. Inr gs))"

definition comparators_of :: "gate_args \<Rightarrow> points list" where
  "comparators_of a = (case ga_comparators a of
     None \<Rightarrow> [pts ''Accelerate'', pts ''OpenBLAS''] | Some [] \<Rightarrow> [pts ''Accelerate'', pts ''OpenBLAS''] | Some cs \<Rightarrow> cs)"

definition zynum_row :: "'s gate_rules \<Rightarrow> gate_args \<Rightarrow> group \<Rightarrow> report_row option" where
  "zynum_row g a by_library = (case map_of by_library (V_Text (ga_zynum a)) of
     Some z \<Rightarrow> Some z
   | None \<Rightarrow> if gt_alias g \<and> ga_zynum a = pts ''Zynum'' then map_of by_library (V_Text (pts ''zynum-blas'')) else None)"

definition comparator_rows :: "gate_args \<Rightarrow> group \<Rightarrow> report_row list" where
  "comparator_rows a by_library = List.map_filter (\<lambda>c. map_of by_library (V_Text c)) (comparators_of a)"

definition beaten :: "'s gate_rules \<Rightarrow> gate_args \<Rightarrow> double \<Rightarrow> bool" where
  "beaten g a ratio = (if gt_latency g then fless (ga_ratio a) ratio else fless ratio (ga_ratio a))"

record tally =
  ta_checked :: nat
  ta_failures :: "(double \<times> group_key \<times> report_row \<times> report_row) list"
  ta_missing :: "(group_key \<times> points) list"

definition judge_group :: "'s gate_rules \<Rightarrow> gate_args \<Rightarrow> group_key \<times> group \<Rightarrow> tally \<Rightarrow> gate_stop + tally" where
  "judge_group g a = (\<lambda>(k, by_library) t.
     bind_r (gt_inspect g by_library) (\<lambda>_.
     case zynum_row g a by_library of
       None \<Rightarrow> Inr (t\<lparr>ta_missing := ta_missing t @ [(k, ga_zynum a)]\<rparr>)
     | Some z \<Rightarrow>
         let rows = comparator_rows a by_library in
         if rows = [] then
           Inr (if ga_skip_missing a then t
             else t\<lparr>ta_missing := ta_missing t @ [(k, join_with [44] (comparators_of a))]\<rparr>)
         else bind_r (gt_compare g z rows) (\<lambda>(ratio, best).
           let t = t\<lparr>ta_checked := Suc (ta_checked t)\<rparr> in
           Inr (if beaten g a ratio then t\<lparr>ta_failures := ta_failures t @ [(ratio, k, z, best)]\<rparr> else t))))"

text \<open>\<open>xs[:n]\<close>.\<close>

definition take_upto :: "int \<Rightarrow> 'a list \<Rightarrow> 'a list" where
  "take_upto n xs = (if n < 0 then take (nat (int (length xs) + n)) xs else take (nat n) xs)"

definition conclude :: "'s gate_rules \<Rightarrow> gate_args \<Rightarrow> tally \<Rightarrow> gate_report" where
  "conclude g a t =
     (let failures = sort_key (\<lambda>(r, k, _). (if gt_latency g then - number r else number r, key_order k)) (ta_failures t);
        missing = sort_key (\<lambda>(k, label). (key_order k, label)) (ta_missing t) in
      \<lparr>gr_code = (if ta_checked t = 0 then 2 else if failures \<noteq> [] \<or> missing \<noteq> [] then 1 else 0),
       gr_checked = ta_checked t, gr_failed = length failures, gr_missing = length missing,
       gr_failures = take_upto (ga_worst a) failures, gr_missings = take_upto (ga_worst a) missing\<rparr>)"

definition empty_tally :: tally where "empty_tally = \<lparr>ta_checked = 0, ta_failures = [], ta_missing = []\<rparr>"

definition judge_groups :: "'s gate_rules \<Rightarrow> gate_args \<Rightarrow> (group_key \<times> group) list \<Rightarrow> gate_stop + gate_report" where
  "judge_groups g a gs =
     bind_r (sorted_groups gs) (\<lambda>gs.
     bind_r (fold_r (judge_group g a) gs empty_tally) (\<lambda>t. Inr (conclude g a t)))"

definition checked_ratio :: "text_tables \<Rightarrow> gate_args \<Rightarrow> gate_stop + unit" where
  "checked_ratio tt a =
     bind_r (refuse_value ''--ratio'' (parse_positive_finite tt (V_Float (ga_ratio a)) ''--ratio'')) (\<lambda>_. Inr ())"

text \<open>\<open>main\<close> after its arguments are parsed; \<open>catches\<close> says whether it catches an unreadable file.\<close>

definition run_gate :: "text_tables \<Rightarrow> 's gate_rules \<Rightarrow> bool \<Rightarrow> gate_args \<Rightarrow> csv_input \<Rightarrow> gate_stop + gate_report" where
  "run_gate tt g catches a input =
     bind_r (checked_ratio tt a) (\<lambda>_.
     case input of
       Unopened \<Rightarrow> Inl (if catches then Refused ''open'' else Open_Failure)
     | Opened items \<Rightarrow> bind_r (collect_groups g items) (judge_groups g a))"

text \<open>The exit code of the process: an uncaught exception ends it with 1.\<close>

definition exit_code :: "gate_stop + gate_report \<Rightarrow> int" where
  "exit_code m = (case m of Inl (Refused _) \<Rightarrow> 2 | Inl _ \<Rightarrow> 1 | Inr r \<Rightarrow> gr_code r)"

section \<open>Comparisons\<close>

definition compare_best :: "(report_row list \<Rightarrow> string \<Rightarrow> report_exc + report_row) \<Rightarrow> text_tables \<Rightarrow> string
    \<Rightarrow> report_row \<Rightarrow> report_row list \<Rightarrow> gate_stop + double \<times> report_row" where
  "compare_best pick tt f z rows =
     bind_r (uncaught (pick rows f)) (\<lambda>best.
     refuse_value ''comparison ratio''
       (bind_r (row_item z f) (\<lambda>zv.
        bind_r (row_item best f) (\<lambda>bv.
        bind_r (positive_finite_ratio tt zv bv) (\<lambda>r. Inr (r, best))))))"

definition paired_item :: "text_tables \<Rightarrow> report_row \<Rightarrow> report_row \<Rightarrow> report_exc + (rat \<times> points) \<times> double \<times> report_row" where
  "paired_item tt z row =
     bind_r (paired_median_ratio tt z row) (\<lambda>r.
     bind_r (row_item row ''library'') (\<lambda>library.
     Inr ((number r, value_text tt library), r, row)))"

definition compare_paired :: "text_tables \<Rightarrow> report_row \<Rightarrow> report_row list \<Rightarrow> gate_stop + double \<times> report_row" where
  "compare_paired tt z rows =
     refuse_value ''paired samples''
       (bind_r (map_r (paired_item tt z) rows) (\<lambda>items. bind_r (min_item items) (\<lambda>(_, result). Inr result)))"

section \<open>Statements shared by the rows of several gates\<close>

text \<open>\<open>selected is not None and value not in selected\<close>.\<close>

definition excluded :: "points list option \<Rightarrow> py_value \<Rightarrow> bool" where
  "excluded chosen v = (case chosen of None \<Rightarrow> False | Some ts \<Rightarrow> v \<notin> V_Text ` set ts)"

text \<open>A column is read only when its filter is given.\<close>

definition column_allowed :: "points list option \<Rightarrow> report_row \<Rightarrow> string \<Rightarrow> report_exc + bool" where
  "column_allowed chosen row f =
     (if chosen = None then Inr True else bind_r (row_item row f) (\<lambda>v. Inr (\<not> excluded chosen v)))"

text \<open>\<open>row.get(f) or default\<close>.\<close>

definition get_or :: "report_row \<Rightarrow> string \<Rightarrow> points \<Rightarrow> py_value" where
  "get_or row f default_text = (if absent (row_get row f) then V_Text default_text else row_get row f)"

definition status_in :: "report_row \<Rightarrow> string \<Rightarrow> string list \<Rightarrow> bool" where
  "status_in row f ss \<longleftrightarrow> row_get row f \<in> V_Text ` set (map pts ss)"

text \<open>The fields that give a key its cells.\<close>

definition row_items :: "report_row \<Rightarrow> string list \<Rightarrow> report_exc + py_value list" where
  "row_items row fs = map_r (row_item row) fs"

text \<open>\<open>except (KeyError, OverflowError, TypeError, ValueError)\<close>.\<close>

definition refuse_evidence :: "string \<Rightarrow> report_exc + 'a \<Rightarrow> gate_stop + 'a" where
  "refuse_evidence what m = (case m of
     Inl e \<Rightarrow> (case e of Value_Error _ \<Rightarrow> Inl (Refused what) | Key_Error _ \<Rightarrow> Inl (Refused what)
       | Type_Error \<Rightarrow> Inl (Refused what) | Overflow_Error \<Rightarrow> Inl (Refused what) | _ \<Rightarrow> Inl (Uncaught e))
   | Inr x \<Rightarrow> Inr x)"

text \<open>\<open>int(value)\<close> and \<open>float(value)\<close> of a cell.\<close>

definition int_cell :: "text_tables \<Rightarrow> py_value \<Rightarrow> report_exc + int" where
  "int_cell tt v = (case v of
     V_Text t \<Rightarrow> (case parse_int (tt_decimal tt) t of Some n \<Rightarrow> Inr n | None \<Rightarrow> Inl (Value_Error ''int''))
   | V_Int n \<Rightarrow> Inr n
   | V_Float (Fin x) \<Rightarrow> Inr (if x < 0 then \<lceil>x\<rceil> else \<lfloor>x\<rfloor>)
   | V_Float Nan \<Rightarrow> Inl (Value_Error ''int'')
   | V_Float _ \<Rightarrow> Inl Overflow_Error
   | V_None \<Rightarrow> Inl Type_Error)"

definition float_cell :: "text_tables \<Rightarrow> py_value \<Rightarrow> report_exc + double" where
  "float_cell tt v = (case v of
     V_None \<Rightarrow> Inl Type_Error
   | V_Int n \<Rightarrow> float_number (of_whole n)
   | _ \<Rightarrow> (case float_of (tt_decimal tt) v of Some d \<Rightarrow> Inr d | None \<Rightarrow> Inl (Value_Error ''float'')))"

text \<open>A positive integer without leading zero, sign or blank: \<open>isascii\<close>, \<open>isdigit\<close>, no \<open>startswith("0")\<close>.\<close>

definition canonical_integer :: "string \<Rightarrow> points \<Rightarrow> report_exc + int" where
  "canonical_integer f t =
     (if t = [] \<or> \<not> list_all ascii_digit t \<or> hd t = 48 \<or> length t > 4300 then Inl (Value_Error f)
      else Inr (digits_int t))"

datatype statistic = Best | Median | Minimum | Paired

end
