(* ===== verification/Float_Format.thy ===== *)
theory Float_Format
  imports Py_Number
begin

text \<open>
  The text of a float in the reports: \<open>format(value, ".17g")\<close> and the same with nine digits.  Seventeen
  digits identify a double: reading the text back gives the value.
\<close>

section \<open>The format\<close>

text \<open>The decimal exponent of a positive number.\<close>

definition ilog10 :: "rat \<Rightarrow> int" where
  "ilog10 q = (let (a, b) = quotient_of q; k = int (floorlog 10 (nat a)) - int (floorlog 10 (nat b)) in
     if 10 powi k \<le> q then k else k - 1)"

fun digit_points :: "nat \<Rightarrow> points" where
  "digit_points n = (if n < 10 then [48 + int n] else digit_points (n div 10) @ [48 + int (n mod 10)])"

declare digit_points.simps [simp del]

text \<open>The significant digits, as one number of \<open>p\<close> digits, and the exponent of the first.\<close>

definition significant :: "nat \<Rightarrow> rat \<Rightarrow> int \<times> int" where
  "significant p q =
     (let e = ilog10 q; d = round_even (q / 10 powi (e - int p + 1)) in
      if d = 10 ^ p then (10 ^ (p - 1), e + 1) else (d, e))"

definition drop_zeros :: "points \<Rightarrow> points" where
  "drop_zeros t = rev (dropWhile (\<lambda>c. c = 48) (rev t))"

definition point_between :: "points \<Rightarrow> points \<Rightarrow> points" where
  "point_between whole fraction = whole @ (if fraction = [] then [] else 46 # fraction)"

definition exponent_text :: "int \<Rightarrow> points" where
  "exponent_text e =
     101 # (if e < 0 then 45 else 43) # (if \<bar>e\<bar> < 10 then [48] else []) @ digit_points (nat \<bar>e\<bar>)"

definition positive_text :: "nat \<Rightarrow> rat \<Rightarrow> points" where
  "positive_text p q =
     (let (d, e) = significant p q; ds = drop_zeros (digit_points (nat d)) in
      if - 4 \<le> e \<and> e < int p then
        if e < 0 then point_between [48] (replicate (nat (- e - 1)) 48 @ ds)
        else point_between (take (nat e + 1) ds @ replicate (nat e + 1 - length ds) 48) (drop (nat e + 1) ds)
      else point_between (take 1 ds) (drop 1 ds) @ exponent_text e)"

text \<open>\<open>format(x, ".<p>g")\<close>; a zero loses its sign with the model of doubles.\<close>

definition format_general :: "nat \<Rightarrow> double \<Rightarrow> points" where
  "format_general p x = (case x of
     Nan \<Rightarrow> pts ''nan'' | Pos_Inf \<Rightarrow> pts ''inf'' | Neg_Inf \<Rightarrow> pts ''-inf''
   | Fin q \<Rightarrow> if q = 0 then [48] else if q < 0 then 45 # positive_text p (- q) else positive_text p q)"

section \<open>Powers of ten\<close>

lemma ten_pos [simp]: "0 < (10 :: rat) powi k"
  by (simp add: zero_less_power_int)

lemma ten_mono: "j \<le> k \<Longrightarrow> (10 :: rat) powi j \<le> 10 powi k"
  by (rule power_int_increasing) auto

lemma floorlog10:
  assumes "0 < n" "l = floorlog 10 (nat n)"
  shows "(10 :: rat) powi (int l - 1) \<le> of_int n \<and> of_int n < (10 :: rat) powi int l"
proof -
  have n: "(10 :: nat) ^ (l - 1) \<le> nat n" "nat n < 10 ^ l" "0 < l"
    using assms floorlog_bounds[of "nat n" 10] by (auto simp: floorlog_def)
  have "(10 :: rat) ^ (l - 1) \<le> of_nat (nat n)" "of_nat (nat n) < (10 :: rat) ^ l"
    using n(1,2) by (metis of_nat_le_iff of_nat_less_iff of_nat_numeral of_nat_power)+
  moreover have "(10 :: rat) powi (int l - 1) = 10 ^ (l - 1)" using n(3) by (simp add: power_int_def nat_diff_distrib)
  ultimately show ?thesis using assms(1) by (simp add: power_int_def)
qed

lemma ilog10_bounds:
  assumes "0 < q"
  shows "10 powi ilog10 q \<le> q" "q < 10 powi (ilog10 q + 1)"
proof -
  obtain a b where ab: "quotient_of q = (a, b)" by fastforce
  have b: "0 < b" using quotient_of_denom_pos[OF ab] .
  have q: "q = of_int a / of_int b" using quotient_of_div[OF ab] .
  have a: "0 < a" using assms b unfolding q by (simp add: zero_less_divide_iff)
  define la lb where "la = floorlog 10 (nat a)" and "lb = floorlog 10 (nat b)"
  note A = floorlog10[OF a la_def] floorlog10[OF b lb_def]
  have u: "q < 10 powi (int la - int lb + 1)"
  proof -
    have "q < 10 powi int la / 10 powi (int lb - 1)" unfolding q using A a by (intro frac_less) auto
    also have "\<dots> = 10 powi (int la - int lb + 1)" using power_int_diff[of "10 :: rat" "int la" "int lb - 1"] by (simp add: algebra_simps)
    finally show ?thesis .
  qed
  have l: "10 powi (int la - int lb - 1) \<le> q"
  proof -
    have "10 powi (int la - int lb - 1) = 10 powi (int la - 1) / (10 :: rat) powi int lb" using power_int_diff[of "10 :: rat" "int la - 1" "int lb"] by (simp add: algebra_simps)
    also have "\<dots> \<le> q" unfolding q using A a b by (intro frac_le) auto
    finally show ?thesis .
  qed
  show "10 powi ilog10 q \<le> q" "q < 10 powi (ilog10 q + 1)"
    using u l by (auto simp: ilog10_def ab Let_def la_def lb_def)
qed

lemma significant_value:
  assumes "0 < q" "significant p q = (d, e)" "0 < p"
  shows "10 ^ (p - 1) \<le> d" "d < 10 ^ p"
    "\<bar>of_int d * 10 powi (e - int p + 1) - q\<bar> \<le> 10 powi (ilog10 q - int p + 1) / 2"
proof -
  define k where "k = ilog10 q"
  define s :: rat where "s = 10 powi (k - int p + 1)"
  define r where "r = round_even (q / s)"
  have s: "0 < s" by (simp add: s_def)
  have lo: "10 ^ (p - 1) \<le> q / s"
  proof -
    have "10 ^ (p - 1) * s = 10 powi (int (p - 1) + (k - int p + 1))" unfolding s_def
      by (subst power_int_add) (simp_all add: power_int_def)
    then show ?thesis using ilog10_bounds(1)[OF assms(1)] s assms(3) by (simp add: k_def pos_le_divide_eq of_nat_diff)
  qed
  have hi: "q / s \<le> 10 ^ p"
  proof -
    have "10 ^ p * s = 10 powi (int p + (k - int p + 1))" unfolding s_def
      by (subst power_int_add) (simp_all add: power_int_def)
    then show ?thesis using ilog10_bounds(2)[OF assms(1)] s by (simp add: k_def pos_divide_le_eq)
  qed
  have r: "10 ^ (p - 1) \<le> r" "r \<le> 10 ^ p"
    using round_even_ge[of "10 ^ (p - 1)" "q / s"] round_even_le[of "q / s" "10 ^ p"] lo hi by (simp_all add: r_def)
  have near: "\<bar>of_int r * s - q\<bar> \<le> s / 2"
  proof -
    have "\<bar>of_int r - q / s\<bar> \<le> 1 / 2" using round_even_bounds[of "q / s"] unfolding r_def by linarith
    then have "\<bar>of_int r - q / s\<bar> * s \<le> 1 / 2 * s" using s by (intro mult_right_mono) auto
    moreover have "\<bar>of_int r - q / s\<bar> * s = \<bar>of_int r * s - q\<bar>" using s by (simp add: abs_mult_pos' algebra_simps)
    ultimately show ?thesis by simp
  qed
  have de: "(d, e) = (if r = 10 ^ p then (10 ^ (p - 1), k + 1) else (r, k))"
    using assms(2) unfolding significant_def Let_def k_def[symmetric] s_def[symmetric] r_def[symmetric] by metis
  show "10 ^ (p - 1) \<le> d" "d < 10 ^ p" using de r assms(3) by (auto split: if_splits)
  show "\<bar>of_int d * 10 powi (e - int p + 1) - q\<bar> \<le> 10 powi (ilog10 q - int p + 1) / 2"
  proof (cases "r = 10 ^ p")
    case True
    have "of_int d * 10 powi (e - int p + 1) = (10 :: rat) powi (int (p - 1) + (k + 1 - int p + 1))" using de True
      by (subst power_int_add) (simp_all add: power_int_def)
    also have "\<dots> = 10 powi (int p + (k - int p + 1))" using assms(3) by (simp add: of_nat_diff add.commute)
    also have "\<dots> = of_int r * s" unfolding s_def True by (subst power_int_add) (simp_all add: power_int_def)
    finally show ?thesis using near by (simp add: s_def k_def)
  next
    case False
    then show ?thesis using near de by (simp add: s_def k_def)
  qed
qed

section \<open>A decimal near a double rounds to it\<close>

lemma round_even_near: "\<bar>x - of_int m\<bar> < 1 / 2 \<Longrightarrow> round_even x = m"
proof -
  assume x: "\<bar>x - of_int m\<bar> < 1 / 2"
  have "\<bar>of_int (round_even x) - of_int m :: rat\<bar> < 1" using round_even_bounds[of x] x by linarith
  then have "\<bar>round_even x - m\<bar> < 1" by (metis of_int_abs of_int_diff of_int_less_1_iff)
  then show ?thesis by simp
qed

lemma round_abs_multiple: "0 < x \<Longrightarrow> representable x \<Longrightarrow> \<exists>m. x = of_int m * 2 powi spacing x"
  using round_abs_exact[of x] unfolding round_abs_def by metis

lemma round_abs_near:
  assumes x: "0 < x" "representable x" and v: "spacing v \<le> spacing x" "\<bar>v - x\<bar> < 2 powi spacing v / 2"
  shows "round_abs v = x"
proof -
  let ?s = "(2 :: rat) powi spacing v"
  obtain m where m: "x = of_int m * 2 powi spacing x" using round_abs_multiple[OF x] by blast
  define n where "n = m * 2 ^ nat (spacing x - spacing v)"
  have n: "x = of_int n * ?s" using m powi_split[OF v(1)] by (simp add: n_def)
  have "\<bar>v / ?s - of_int n\<bar> < 1 / 2"
  proof -
    have "\<bar>v / ?s - of_int n\<bar> * ?s = \<bar>v - x\<bar>" using powi_pos[of "spacing v"] unfolding n by (simp add: abs_mult_pos' algebra_simps)
    then have "\<bar>v / ?s - of_int n\<bar> * ?s < 1 / 2 * ?s" using v(2) by simp
    then show ?thesis using powi_pos[of "spacing v"] mult_less_cancel_right_pos by blast
  qed
  then show ?thesis using round_even_near[of "v / ?s" n] n by (simp add: round_abs_def)
qed

text \<open>Seventeen digits: the error is below half a spacing, also below a power of two, where the spacing of the
  lower neighbours is half as large.\<close>

lemma round64_seventeen:
  assumes x: "0 < x" "representable x" "x < 2 ^ 1024" and v: "\<bar>v - x\<bar> \<le> 10 powi (ilog10 x - 16) / 2"
  shows "round64 v = Fin x"
proof -
  define E where "E = ilog2 x"
  have E: "2 powi E \<le> x" "x < 2 powi (E + 1)" using ilog2_bounds[OF x(1)] by (simp_all add: E_def)
  have err: "\<bar>v - x\<bar> \<le> x / 10 ^ 16 / 2"
  proof -
    have "10 powi (ilog10 x - 16) = 10 powi ilog10 x / (10 :: rat) ^ 16" by (simp add: power_int_diff)
    then show ?thesis using v ilog10_bounds(1)[OF x(1)] by (simp add: field_simps)
  qed
  then have "v \<le> x + x / 10 ^ 16 / 2" "x - x / 10 ^ 16 / 2 \<le> v" by linarith+
  then have v0: "0 < v" "x / 2 \<le> v" using x(1) by simp_all
  define S where "S = spacing x"
  have S: "- 1074 \<le> S" "E - 52 \<le> S" "S \<le> E" "S = max (- 1074) (E - 52)"
  proof -
    show "- 1074 \<le> S" "E - 52 \<le> S" "S = max (- 1074) (E - 52)" by (simp_all add: S_def spacing_def E_def)
    obtain k where k: "x = of_int k * 2 powi (- 1074)" using representable_multiple[OF x(2)] by blast
    then have "0 < k" using x(1) powi_pos[of "- 1074"] by (simp add: zero_less_mult_iff)
    then have "1 \<le> (of_int k :: rat)" by simp
    then have "1 * 2 powi (- 1074) \<le> x" unfolding k by (intro mult_right_mono) auto
    then have "2 powi (- 1074) < (2 :: rat) powi (E + 1)" using E(2) by simp
    then have "- 1074 < E + 1" using powi_mono[of "E + 1" "- 1074"] by (force simp: not_le[symmetric])
    then show "S \<le> E" by (simp add: S_def spacing_def E_def)
  qed
  obtain m where m: "x = of_int m * 2 powi S" using round_abs_multiple[OF x(1,2)] unfolding S_def by blast
  have half: "2 powi (E + 1) = (2 :: rat) powi E * 2" by (simp add: power_int_add)
  have close: "\<bar>v - x\<bar> < 2 powi S / 2"
  proof -
    have "\<bar>v - x\<bar> < 2 powi E / 2 ^ 53"
      using err E(2) powi_pos[of E] abs_ge_zero[of "v - x"] unfolding half by (simp add: field_simps del: abs_ge_zero; linarith)
    also have "\<dots> = 2 powi (E - 52) / 2" by (simp add: power_int_diff)
    also have "\<dots> \<le> 2 powi S / 2" using powi_mono[OF S(2)] by simp
    finally show ?thesis .
  qed
  have below: "v < 2 powi (E + 1)"
  proof -
    define n where "n = (2 :: int) ^ nat (E + 1 - S)"
    have n: "2 powi (E + 1) = of_int n * (2 :: rat) powi S" using powi_split[of S "E + 1"] S(3) by (simp add: n_def)
    then have "of_int m * (2 :: rat) powi S < of_int n * 2 powi S" using E(2) m by simp
    then have "m + 1 \<le> n" using powi_pos[of S] by simp
    then have "of_int (m + 1) * (2 :: rat) powi S \<le> of_int n * 2 powi S" by (intro mult_right_mono) (auto simp del: of_int_add)
    then have "x + 2 powi S \<le> 2 powi (E + 1)" using m n by (simp add: algebra_simps)
    then show ?thesis using close powi_pos[of S] by linarith
  qed
  have near: "round_abs v = x"
  proof (cases "2 powi E \<le> v")
    case True
    then have "ilog2 v = E" using below by (intro ilog2_unique) auto
    then have "spacing v = S" using S(4) by (simp add: spacing_def)
    then show ?thesis using round_abs_near[OF x(1,2), of v] close by (simp add: S_def)
  next
    case False
    have pow: "x = 2 powi E"
    proof -
      define n where "n = (2 :: int) ^ nat (E - S)"
      have n: "2 powi E = of_int n * (2 :: rat) powi S" using powi_split[OF S(3)] by (simp add: n_def)
      have "of_int m * 2 powi S < (of_int n + 1) * (2 :: rat) powi S" using False close powi_pos[of S] m n by (simp add: algebra_simps; linarith)
      then have "(of_int m :: rat) < of_int (n + 1)" using powi_pos[of S] mult_less_cancel_right_pos by (metis of_int_add of_int_1)
      then have "m < n + 1" by (simp only: of_int_less_iff)
      moreover have "of_int n * 2 powi S \<le> of_int m * (2 :: rat) powi S" using E(1) m n by simp
      then have "n \<le> m" using powi_pos[of S] by simp
      ultimately show ?thesis using m n by simp
    qed
    have "2 powi (E - 1) = (2 :: rat) powi E / 2" by (simp add: power_int_diff)
    then have "ilog2 v = E - 1" using False v0(2) pow by (intro ilog2_unique) auto
    then have sp: "spacing v = max (- 1074) (E - 53)" by (simp add: spacing_def)
    have "\<bar>v - x\<bar> < 2 powi E / 2 ^ 54"
      using err powi_pos[of E] abs_ge_zero[of "v - x"] unfolding pow by (simp add: field_simps del: abs_ge_zero; linarith)
    also have "\<dots> = 2 powi (E - 53) / 2" by (simp add: power_int_diff)
    also have "\<dots> \<le> 2 powi spacing v / 2" using powi_mono[of "E - 53" "spacing v"] sp by simp
    finally show ?thesis using round_abs_near[OF x(1,2), of v] sp S(4) by (simp add: S_def)
  qed
  then show ?thesis using x(3) v0(1) by (simp add: round64_pos)
qed

section \<open>Reading a text back\<close>

lemma digits_int_append: "digits_int (a @ b) = digits_int a * 10 ^ length b + digits_int b"
proof (induction b rule: rev_induct)
  case (snoc x b)
  then show ?case by (simp add: digits_int_def algebra_simps flip: append_assoc)
qed (simp add: digits_int_def)

lemma digits_int_zeros [simp]: "digits_int (replicate k 48) = 0"
proof (induction k)
  case (Suc k)
  have "digits_int [48] = 0" by (simp add: digits_int_def)
  then show ?case using Suc digits_int_append[of "[48]" "replicate k 48"] by simp
qed (simp add: digits_int_def)

lemma digit_points_read: "digits_int (digit_points n) = int n" "list_all ascii_digit (digit_points n)" "digit_points n \<noteq> []"
proof (induction n rule: digit_points.induct)
  case (1 n)
  show "digits_int (digit_points n) = int n"
    using 1(1) by (subst digit_points.simps) (auto simp: digits_int_def zdiv_int zmod_int)
  have "ascii_digit (48 + int k)" if "k < 10" for k using that by (simp add: ascii_digit_def)
  then show "list_all ascii_digit (digit_points n)" using 1(2) by (subst digit_points.simps) simp
  show "digit_points n \<noteq> []" by (subst digit_points.simps) simp
qed

lemma digit_points_length: "10 ^ k \<le> n \<Longrightarrow> n < 10 ^ Suc k \<Longrightarrow> length (digit_points n) = Suc k"
proof (induction k arbitrary: n)
  case (Suc k)
  have "10 ^ k \<le> n div 10" "n div 10 < 10 ^ Suc k" using Suc.prems by (simp_all add: div_le_mono less_mult_imp_div_less mult.commute)
  moreover have "\<not> n < 10" using Suc.prems(1) by (simp add: not_less order_trans[OF _ Suc.prems(1)])
  ultimately show ?case using Suc.IH[of "n div 10"] by (subst digit_points.simps) simp
qed (subst digit_points.simps, simp)

lemma drop_zeros_rest: "\<exists>k. drop_zeros t @ replicate k 48 = t"
proof -
  let ?P = "\<lambda>c :: int. c = 48"
  have "rev (takeWhile ?P (rev t) @ dropWhile ?P (rev t)) = t" by simp
  then have "drop_zeros t @ rev (takeWhile ?P (rev t)) = t" unfolding drop_zeros_def rev_append .
  moreover have "takeWhile ?P u = replicate (length (takeWhile ?P u)) 48" for u
    by (induction u) auto
  ultimately show ?thesis by (metis rev_replicate)
qed

text \<open>A number as the format writes it.\<close>

definition number_text :: "points \<Rightarrow> points \<Rightarrow> int \<Rightarrow> points \<Rightarrow> bool" where
  "number_text whole fraction e tail \<longleftrightarrow> whole \<noteq> [] \<and> list_all ascii_digit whole \<and> list_all ascii_digit fraction
     \<and> exponent_of tail = Some e \<and> (tail = [] \<or> hd tail = 101)"

lemma takeWhile_digits: "list_all ascii_digit a \<Longrightarrow> r = [] \<or> \<not> ascii_digit (hd r) \<Longrightarrow>
    takeWhile ascii_digit (a @ r) = a \<and> dropWhile ascii_digit (a @ r) = r"
  by (induction a) (cases r; auto)+

lemma decimal_value_text:
  assumes "number_text whole fraction e tail"
  shows "decimal_value (point_between whole fraction @ tail)
    = Some (of_int (digits_int (whole @ fraction)) * 10 powi (e - int (length fraction)))"
proof -
  have t: "tail = [] \<or> \<not> ascii_digit (hd tail)" "tail \<noteq> [] \<Longrightarrow> hd tail = 101" using assms by (auto simp: number_text_def ascii_digit_def)
  have w: "list_all ascii_digit whole" "whole \<noteq> []" "list_all ascii_digit fraction" "exponent_of tail = Some e"
    using assms by (auto simp: number_text_def)
  show ?thesis
  proof (cases "fraction = []")
    case True
    then have "point_between whole fraction @ tail = whole @ tail" by (simp add: point_between_def)
    then show ?thesis using takeWhile_digits[OF w(1) t(1)] w t(2) True
      by (cases tail) (simp_all add: decimal_value_def Let_def del: takeWhile_eq_all_conv dropWhile_eq_Nil_conv)
  next
    case False
    have "takeWhile ascii_digit (whole @ 46 # fraction @ tail) = whole \<and> dropWhile ascii_digit (whole @ 46 # fraction @ tail) = 46 # fraction @ tail"
      using takeWhile_digits[OF w(1), of "46 # fraction @ tail"] by (simp add: ascii_digit_def)
    then show ?thesis using takeWhile_digits[OF w(3) t(1)] w False
      by (auto simp: decimal_value_def point_between_def Let_def)
  qed
qed

lemma exponent_text_read: "\<bar>e\<bar> \<le> 19999 \<Longrightarrow> exponent_of (exponent_text e) = Some e"
proof -
  assume e: "\<bar>e\<bar> \<le> 19999"
  define ds where "ds = (if \<bar>e\<bar> < 10 then [48] else []) @ digit_points (nat \<bar>e\<bar>)"
  have "digits_int ds = \<bar>e\<bar>" "list_all ascii_digit ds" "ds \<noteq> []"
    using digit_points_read[of "nat \<bar>e\<bar>"] digits_int_append[of "[48]" "digit_points (nat \<bar>e\<bar>)"]
    by (auto simp: ds_def digits_int_def ascii_digit_def)
  then show ?thesis using e unfolding exponent_text_def ds_def[symmetric]
    by (auto simp: exponent_of_def split_sign_def Let_def)
qed

definition plain_char :: "int \<Rightarrow> bool" where
  "plain_char c \<longleftrightarrow> ascii_digit c \<or> c = 46 \<or> c = 101 \<or> c = 43 \<or> c = 45"

lemma drop_underscores_plain: "list_all plain_char t \<Longrightarrow> previous \<noteq> 95 \<Longrightarrow> drop_underscores previous t = Some t"
  by (induction t arbitrary: previous) (auto simp: plain_char_def ascii_digit_def)

lemma c_strip_plain: "list_all plain_char t \<Longrightarrow> c_strip t = t"
proof -
  have *: "dropWhile c_space u = u" if "list_all plain_char u" for u
    using that by (cases u) (auto simp: plain_char_def ascii_digit_def c_space_def)
  assume t: "list_all plain_char t"
  then have "list_all plain_char (rev t)" by simp
  then show ?thesis unfolding c_strip_def by (simp add: * t)
qed

lemma parse_plain_float:
  assumes t: "list_all plain_char t" "t \<noteq> []" "ascii_digit (hd t)"
  shows "parse_float dec t = map_option round64 (decimal_value t)"
proof -
  have "ascii_number dec t = t" using t(1) unfolding ascii_number_def
    by (intro map_idI) (auto simp: list_all_iff plain_char_def ascii_digit_def)
  then have b: "number_body dec t = Some t" using c_strip_plain[OF t(1)] drop_underscores_plain[OF t(1)] by (simp add: number_body_def)
  obtain c u where c: "t = c # u" "48 \<le> c" "c \<le> 57" using t by (cases t) (auto simp: ascii_digit_def)
  have s: "split_sign t = (False, t)" using c by (simp add: split_sign_def)
  have "ascii_lower t \<noteq> pts ''inf''" "ascii_lower t \<noteq> pts ''infinity''" "ascii_lower t \<noteq> pts ''nan''"
    using c by (simp_all add: ascii_lower_def pts_def)
  then show ?thesis using b s by (simp add: parse_float_def unsigned_float_def option.map_id)
qed

lemma powi_nat_add: "(10 :: rat) powi a * 10 ^ k = 10 powi (a + int k)"
  by (simp add: power_int_add)

text \<open>The number a positive text spells is its significant digits.\<close>

lemma positive_text_value:
  assumes q: "0 < q" and p: "0 < p" and de: "significant p q = (d, e)" and e: "\<bar>e\<bar> \<le> 19999"
  shows "\<exists>whole fraction e' tail. positive_text p q = point_between whole fraction @ tail
    \<and> number_text whole fraction e' tail \<and> list_all plain_char tail
    \<and> of_int (digits_int (whole @ fraction)) * 10 powi (e' - int (length fraction)) = of_int d * (10 :: rat) powi (e - int p + 1)"
proof -
  define full where "full = digit_points (nat d)"
  define ds where "ds = drop_zeros full"
  note d = significant_value(1,2)[OF q de p]
  have "10 ^ (p - 1) \<le> nat d" "nat d < 10 ^ Suc (p - 1)" using d p by (simp_all add: le_nat_iff nat_less_iff)
  then have len: "length full = p" using digit_points_length[of "p - 1" "nat d"] p by (simp add: full_def)
  have "1 \<le> d" using d(1) one_le_power[of "10 :: int" "p - 1"] by linarith
  then have read: "digits_int full = d" using digit_points_read[of "nat d"] by (simp add: full_def)
  obtain k where k: "ds @ replicate k 48 = full" using drop_zeros_rest[of full] by (auto simp: ds_def)
  have dsd: "list_all ascii_digit ds" using digit_points_read(2)[of "nat d"] k by (metis full_def list_all_append)
  have val: "digits_int ds * 10 ^ k = d" using digits_int_append[of ds "replicate k 48"] k read by simp
  then have ne: "ds \<noteq> []" using \<open>1 \<le> d\<close> by (auto simp: digits_int_def)
  have lk: "length ds + k = p" using k len by (metis length_append length_replicate)
  have goal: "of_int (digits_int ds) * 10 powi (e - int (length ds) + 1) = of_int d * (10 :: rat) powi (e - int p + 1)"
  proof -
    have "of_int d * (10 :: rat) powi (e - int p + 1) = of_int (digits_int ds) * (10 powi (e - int p + 1) * 10 ^ k)"
      unfolding val[symmetric] by simp
    also have "10 powi (e - int p + 1) * (10 :: rat) ^ k = 10 powi (e - int (length ds) + 1)"
      unfolding powi_nat_add lk[symmetric] by (simp add: algebra_simps)
    finally show ?thesis by simp
  qed
  have spelled: "positive_text p q = (if - 4 \<le> e \<and> e < int p then
        if e < 0 then point_between [48] (replicate (nat (- e - 1)) 48 @ ds)
        else point_between (take (nat e + 1) ds @ replicate (nat e + 1 - length ds) 48) (drop (nat e + 1) ds)
      else point_between (take 1 ds) (drop 1 ds) @ exponent_text e)"
    using de by (simp add: positive_text_def ds_def full_def Let_def)
  have zeros: "list_all ascii_digit (replicate j 48)" for j by (induction j) (auto simp: ascii_digit_def)
  have dcut: "list_all ascii_digit (take j ds)" "list_all ascii_digit (drop j ds)" for j
    using dsd by (auto simp: list_all_iff dest: in_set_takeD in_set_dropD)
  show ?thesis
  proof (cases "- 4 \<le> e \<and> e < int p")
    case fixed: True
    show ?thesis
    proof (cases "e < 0")
      case True
      define fraction where "fraction = replicate (nat (- e - 1)) 48 @ ds"
      have "digits_int [48] = 0" by (simp add: digits_int_def)
      then have "digits_int ([48] @ fraction) = digits_int ds"
        unfolding fraction_def digits_int_append by simp
      moreover have "int (length fraction) = int (length ds) - e - 1" using True by (simp add: fraction_def)
      moreover have "number_text [48] fraction 0 []" using zeros dsd by (simp add: number_text_def fraction_def exponent_of_def ascii_digit_def)
      ultimately show ?thesis using spelled fixed True goal
        by (intro exI[of _ "[48]"] exI[of _ fraction] exI[of _ 0] exI[of _ "[]"]) (simp add: fraction_def algebra_simps)
    next
      case False
      define j where "j = nat e + 1"
      define whole where "whole = take j ds @ replicate (j - length ds) 48"
      have n: "number_text whole (drop j ds) 0 []"
        using zeros dcut ne by (simp add: number_text_def whole_def exponent_of_def j_def)
      have "of_int (digits_int (whole @ drop j ds)) * 10 powi (0 - int (length (drop j ds)))
        = of_int (digits_int ds) * (10 :: rat) powi (e - int (length ds) + 1)"
      proof (cases "j \<le> length ds")
        case True
        then show ?thesis using False by (simp add: whole_def j_def add.commute[of 1] diff_add_eq)
      next
        case longer: False
        then have "of_int (digits_int (whole @ drop j ds)) * (10 :: rat) powi (0 - int (length (drop j ds)))
          = of_int (digits_int ds) * (10 powi 0 * 10 ^ (j - length ds))"
          by (simp add: whole_def digits_int_append)
        also have "\<dots> = of_int (digits_int ds) * 10 powi (e - int (length ds) + 1)"
          unfolding powi_nat_add using longer False by (simp add: j_def of_nat_diff algebra_simps)
        finally show ?thesis .
      qed
      then show ?thesis using spelled fixed False goal n
        by (intro exI[of _ whole] exI[of _ "drop j ds"] exI[of _ 0] exI[of _ "[]"]) (simp add: whole_def j_def)
    qed
  next
    case False
    have n: "number_text (take 1 ds) (drop 1 ds) e (exponent_text e)"
      using dcut ne exponent_text_read[OF e] by (simp add: number_text_def exponent_text_def)
    have "list_all plain_char (digit_points m)" for m
      using digit_points_read(2)[of m] by (auto simp: list_all_iff plain_char_def)
    then have "list_all plain_char (exponent_text e)" by (simp add: exponent_text_def plain_char_def ascii_digit_def)
    moreover have "of_int (digits_int (take 1 ds @ drop 1 ds)) * 10 powi (e - int (length (drop 1 ds))) = of_int d * (10 :: rat) powi (e - int p + 1)"
    proof -
      have "e - int (length (drop 1 ds)) = e - int (length ds) + 1" using ne by (cases ds) auto
      then show ?thesis using goal by (simp only: append_take_drop_id)
    qed
    ultimately show ?thesis using spelled False n by metis
  qed
qed

lemma exponent_range:
  assumes "0 < x" "representable x" "x < 2 ^ 1024"
  shows "- 400 \<le> ilog10 x \<and> ilog10 x \<le> 400"
proof -
  obtain k where k: "x = of_int k * 2 powi (- 1074)" using representable_multiple[OF assms(2)] by blast
  then have "1 \<le> k" using assms(1) powi_pos[of "- 1074"] by (simp add: zero_less_mult_iff)
  then have "1 * (2 :: rat) powi (- 1074) \<le> x" unfolding k by (intro mult_right_mono) auto
  moreover have "(10 :: rat) powi (- 400) < 2 powi (- 1074)" by (simp add: power_int_def power_one_over)
  ultimately have "(10 :: rat) powi (- 400) < 10 powi (ilog10 x + 1)" using ilog10_bounds(2)[OF assms(1)] by linarith
  then have lo: "- 400 < ilog10 x + 1" using ten_mono[of "ilog10 x + 1" "- 400"] by (force simp: not_le[symmetric])
  have "(2 :: rat) ^ 1024 < 10 powi 400" by (simp add: power_int_def)
  then have "(10 :: rat) powi (ilog10 x) < 10 powi 400" using ilog10_bounds(1)[OF assms(1)] assms(3) by linarith
  then have "ilog10 x < 400" using ten_mono[of 400 "ilog10 x"] by (force simp: not_le[symmetric])
  then show ?thesis using lo by simp
qed

text \<open>A positive double is read back from its text of seventeen digits, which is one word of plain characters.\<close>

lemma format_read:
  assumes x: "0 < x" "representable x" "x < 2 ^ 1024"
  shows "parse_float dec (format_general 17 (Fin x)) = Some (Fin x)" "list_all plain_char (format_general 17 (Fin x))"
    "format_general 17 (Fin x) \<noteq> []"
proof -
  obtain d e where de: "significant 17 x = (d, e)" by fastforce
  have e: "\<bar>e\<bar> \<le> 19999" using exponent_range[OF x] de by (auto simp: significant_def Let_def split: if_splits)
  obtain whole fraction e' tail where t: "positive_text 17 x = point_between whole fraction @ tail"
      "number_text whole fraction e' tail" "list_all plain_char tail"
      "of_int (digits_int (whole @ fraction)) * 10 powi (e' - int (length fraction)) = of_int d * (10 :: rat) powi (e - int 17 + 1)"
    using positive_text_value[OF x(1) _ de e] by auto
  have f: "format_general 17 (Fin x) = point_between whole fraction @ tail" using x(1) t(1) by (simp add: format_general_def)
  have w: "whole \<noteq> []" "list_all ascii_digit whole" "list_all ascii_digit fraction" using t(2) by (auto simp: number_text_def)
  then have plain: "list_all plain_char (point_between whole fraction @ tail)"
    using t(3) by (auto simp: point_between_def list_all_iff plain_char_def)
  have "ascii_digit (hd (point_between whole fraction @ tail))" "point_between whole fraction @ tail \<noteq> []"
    using w by (auto simp: point_between_def list_all_iff)
  then have "parse_float dec (format_general 17 (Fin x)) = Some (round64 (of_int d * (10 :: rat) powi (e - int 17 + 1)))"
    unfolding f using parse_plain_float[OF plain] decimal_value_text[OF t(2)] t(4) by simp
  also have "\<dots> = Some (Fin x)"
    using round64_seventeen[OF x] significant_value(3)[OF x(1) de] by simp
  finally show "parse_float dec (format_general 17 (Fin x)) = Some (Fin x)" .
  show "list_all plain_char (format_general 17 (Fin x))" "format_general 17 (Fin x) \<noteq> []"
    using plain w unfolding f by (auto simp: point_between_def)
qed

end
