(* ===== verification/Full_Report.thy ===== *)
theory Full_Report
  imports Report_Gate Float_Format
begin

text \<open>
  The report over all benchmark families (\<open>bench/tools/render_full_benchmark_report.py\<close>): the checks of a
  row, the logical case a row measures, the reading of a directory of CSV files, the verdict of every
  case against the fastest comparator, and the status of a category.  A file is its relative path and
  what opening it gives; \<open>lower\<close> is \<open>str.lower\<close> with Python's Unicode tables.
\<close>

section \<open>Categories\<close>

datatype category = Cat_Level1 | Cat_Latency | Cat_Level2 | Cat_Gemm | Cat_Rank_K | Cat_Symm | Cat_Triangular

definition category_order :: "category list" where
  "category_order = [Cat_Level1, Cat_Latency, Cat_Level2, Cat_Gemm, Cat_Rank_K, Cat_Symm, Cat_Triangular]"

fun category_name :: "category \<Rightarrow> string" where
  "category_name Cat_Level1 = ''level1''"
| "category_name Cat_Latency = ''scalar-latency''"
| "category_name Cat_Level2 = ''level2''"
| "category_name Cat_Gemm = ''gemm''"
| "category_name Cat_Rank_K = ''rank-k''"
| "category_name Cat_Symm = ''symm-hemm''"
| "category_name Cat_Triangular = ''trmm-trsm''"

text \<open>The columns that tell a family, in the order in which the families are tried.\<close>

definition header_columns :: "(category \<times> string list) list" where
  "header_columns =
     [(Cat_Gemm, [''kind'', ''transa'', ''transb'', ''shape_index'', ''label'', ''m'', ''n'', ''k'', ''library'', ''gflops'', ''check'']),
      (Cat_Level1, [''group'', ''op'', ''variant'', ''library'', ''n'', ''metric'', ''check_status'']),
      (Cat_Latency, [''routine'', ''kind'', ''library'', ''case'', ''median_ns_per_call'', ''metric'', ''check_status'']),
      (Cat_Level2, [''case'', ''kind'', ''library'', ''n'', ''rate_gops'', ''check_status'']),
      (Cat_Triangular, [''routine'', ''family'', ''kind'', ''library'', ''shape'', ''m'', ''n'', ''side'', ''trans'', ''diag'', ''check_status'']),
      (Cat_Symm, [''routine'', ''kind'', ''library'', ''shape'', ''m'', ''n'', ''side'', ''beta_re'', ''check_status'']),
      (Cat_Rank_K, [''routine'', ''kind'', ''library'', ''shape'', ''n'', ''k'', ''uplo'', ''trans'', ''check_status''])]"

definition classify_header :: "string list option \<Rightarrow> category option" where
  "classify_header fieldnames =
     (let parts = (case fieldnames of None \<Rightarrow> [] | Some fs \<Rightarrow> fs) in
      map_option fst (List.find (\<lambda>(c, columns). set columns \<subseteq> set parts) header_columns))"

section \<open>Cells\<close>

text \<open>\<open>text(row, field, default)\<close>.\<close>

definition cell_text :: "text_tables \<Rightarrow> report_row \<Rightarrow> string \<Rightarrow> points \<Rightarrow> points" where
  "cell_text tt row f d = (let v = row_get row f in if absent v then d else py_strip (value_text tt v))"

abbreviation cell :: "text_tables \<Rightarrow> report_row \<Rightarrow> string \<Rightarrow> points" where
  "cell tt row f \<equiv> cell_text tt row f []"

definition fold_name :: "(points \<Rightarrow> points) \<Rightarrow> points \<Rightarrow> points" where
  "fold_name lower name = filter (\<lambda>p. 97 \<le> p \<and> p \<le> 122 \<or> ascii_digit p) (lower name)"

definition zynum_names :: "points list" where
  "zynum_names = map pts [''zynum'', ''zynumblas'', ''libzynum'', ''libzynumblas'']"

definition normalized_library :: "(points \<Rightarrow> points) \<Rightarrow> points \<Rightarrow> points" where
  "normalized_library lower t =
     (let name = py_strip t in if fold_name lower name \<in> set zynum_names then pts ''Zynum'' else name)"

definition optional_positive_integer :: "text_tables \<Rightarrow> report_row \<Rightarrow> string \<Rightarrow> report_exc + int option" where
  "optional_positive_integer tt row f =
     (let v = row_get row f in
      if absent v then Inr None else bind_r (canonical_integer f (value_text tt v)) (\<lambda>n. Inr (Some n)))"

section \<open>The checks of a row\<close>

type_synonym cardinality = "int option \<times> int option \<times> int option"

definition validate_evidence_cardinality ::
  "text_tables \<Rightarrow> report_row \<Rightarrow> int option \<Rightarrow> bool \<Rightarrow> bool \<Rightarrow> report_exc + cardinality" where
  "validate_evidence_cardinality tt row expected paired three =
     (let has_process = \<not> absent (row_get row ''process_repeats'');
        has_successful = \<not> absent (row_get row ''successful_repeats'');
        has_samples = \<not> absent (row_get row ''metric_samples'') in
      if three \<and> (has_process \<or> has_successful \<or> has_samples) \<and> \<not> (has_process \<and> has_successful \<and> has_samples)
      then Inl (Value_Error ''incomplete cardinality evidence'')
      else if paired \<and> has_process \<noteq> has_successful then Inl (Value_Error ''unpaired repeats'')
      else bind_r (optional_positive_integer tt row ''process_repeats'') (\<lambda>process.
        bind_r (optional_positive_integer tt row ''successful_repeats'') (\<lambda>successful.
        bind_r (if has_samples then bind_r (metric_samples tt row) (\<lambda>xs. Inr (Some (int (length xs)))) else Inr None) (\<lambda>samples.
        let declared = (if process \<noteq> None then process else successful);
          repeats = (if successful \<noteq> None then successful else process) in
        if process \<noteq> None \<and> successful \<noteq> None \<and> successful \<noteq> process then Inl (Value_Error ''successful_repeats'')
        else if expected \<noteq> None \<and> declared = None then Inl (Value_Error ''missing repeat count'')
        else if expected \<noteq> None \<and> declared \<noteq> expected then Inl (Value_Error ''repeat count'')
        else if samples \<noteq> None \<and> repeats \<noteq> None \<and> samples \<noteq> repeats then Inl (Value_Error ''metric_samples count'')
        else Inr (process, successful, samples)))))"

definition check_fields :: "string list" where
  "check_fields = [''check_status'', ''check'', ''correctness_status'', ''correctness'']"

definition accepted_checks :: "points list" where
  "accepted_checks = map pts [''ok'', ''passed'', ''sampled'', ''checked-ok'', ''sampled-ok'', ''correctness-ok'', ''correctness-passed'']"

definition checked_row :: "(points \<Rightarrow> points) \<Rightarrow> text_tables \<Rightarrow> int option \<Rightarrow> category \<Rightarrow> report_row \<Rightarrow> report_exc + cardinality" where
  "checked_row lower tt expected c row =
     (let status = cell tt row ''status'';
        checks = filter (\<lambda>v. v \<noteq> []) (map (cell tt row) (filter (\<lambda>f. row f \<noteq> None) check_fields)) in
      if status \<noteq> [] \<and> lower status \<noteq> pts ''ok'' then Inl (Value_Error ''status'')
      else if checks = [] then Inl (Value_Error ''missing correctness status'')
      else if \<not> list_all (\<lambda>v. lower v \<in> set accepted_checks) checks then Inl (Value_Error ''correctness'')
      else validate_evidence_cardinality tt row expected (c = Cat_Level1) (c \<noteq> Cat_Level1))"

definition performance_fields :: "string list" where
  "performance_fields =
     [''seconds'', ''time_ns'', ''rate_gops'', ''bandwidth_gbps'', ''gflops'', ''median_gflops'', ''best_ns'', ''median_ns'',
      ''p95_ns'', ''max_ns'', ''best_ns_per_call'', ''median_ns_per_call'', ''p95_ns_per_call'', ''max_ns_per_call'',
      ''median_full_ns_per_call'', ''median_harness_ns_per_call'']"

definition validate_performance_evidence :: "text_tables \<Rightarrow> report_row \<Rightarrow> report_exc + unit" where
  "validate_performance_evidence tt row =
     bind_r (validate_optional_metric_evidence tt row) (\<lambda>_. fold_r (optional_field tt row) performance_fields ())"

definition median_metric :: "text_tables \<Rightarrow> report_row \<Rightarrow> string \<Rightarrow> report_exc + double" where
  "median_metric tt row fallback =
     (let v = cell tt row ''metric_median'' in
      if v \<noteq> [] then parse_positive_finite tt (V_Text v) ''metric_median''
      else parse_positive_finite tt (V_Text (cell tt row fallback)) fallback)"

definition gemm_metric :: "(points \<Rightarrow> points) \<Rightarrow> text_tables \<Rightarrow> report_row \<Rightarrow> report_exc + double" where
  "gemm_metric lower tt row =
     (let elapsed = cell tt row ''median_ns'' in
      if elapsed \<noteq> [] then
        bind_r (parse_positive_finite tt (V_Text elapsed) ''median_ns'') (\<lambda>elapsed_ns.
        let factor = (if lower (cell tt row ''kind'') \<in> set (map pts [''cgemm'', ''zgemm'']) then Fin 8 else Fin 2) in
        bind_r (fold_r (\<lambda>f work. bind_r (parse_positive_finite tt (V_Text (cell tt row f)) f) (\<lambda>d. Inr (fmul work d)))
          [''m'', ''n'', ''k''] factor) (\<lambda>work. quotient work elapsed_ns))
      else parse_positive_finite tt (V_Text (cell tt row ''gflops'')) ''gflops'')"

section \<open>The case a row measures\<close>

text \<open>Identity, label, unit and value.\<close>

type_synonym case_data = "points \<times> points \<times> points \<times> double"

definition joined_key :: "category \<Rightarrow> points list \<Rightarrow> points" where
  "joined_key c parts = pts (category_name c) @ [58] @ join_with [31] parts"

definition case_of :: "category \<Rightarrow> points list \<Rightarrow> points \<Rightarrow> points \<Rightarrow> report_exc + double \<Rightarrow> report_exc + case_data" where
  "case_of c parts label metric m = bind_r m (\<lambda>v. Inr (joined_key c parts, label, metric, v))"

definition level1_case :: "text_tables \<Rightarrow> report_row \<Rightarrow> report_exc + case_data" where
  "level1_case tt row =
     (let variant = cell_text tt row ''variant'' (pts ''default''); incx = cell_text tt row ''incx'' (pts ''1'');
        incy = cell_text tt row ''incy'' (pts ''1''); n = cell tt row ''n''; metric = cell tt row ''metric'';
        parts = [cell tt row ''group'', cell tt row ''op'', variant, incx, incy, n, metric];
        copy_bytes = cell tt row ''copy_bytes'';
        label = cell tt row ''op'' @ (if variant \<noteq> pts ''default'' then pts '':'' @ variant else [])
          @ pts '' n='' @ n @ pts '' inc=('' @ incx @ pts '','' @ incy @ pts '')''
          @ (if copy_bytes \<noteq> [] then pts '' bytes='' @ copy_bytes else []) in
      case_of Cat_Level1 parts label metric
        (median_metric tt row (if metric = pts ''bandwidth_gbps'' then ''bandwidth_gbps'' else ''rate_gops'')))"

definition level2_case :: "text_tables \<Rightarrow> report_row \<Rightarrow> report_exc + case_data" where
  "level2_case tt row =
     (let n = cell tt row ''n''; m = cell_text tt row ''m'' n; shape = cell_text tt row ''shape'' (pts ''sq'' @ n);
        operation = map (cell tt row) [''storage'', ''lda'', ''k'', ''kl'', ''ku'', ''uplo'', ''trans'', ''diag'', ''incx'', ''incy''];
        metric = cell_text tt row ''metric'' (pts ''gops'');
        parts = [cell tt row ''case'', cell tt row ''kind'', shape, m, n] @ operation @ [metric];
        details = map (\<lambda>f. pts f @ pts ''='' @ cell tt row f)
          (filter (\<lambda>f. cell tt row f \<noteq> []) [''storage'', ''k'', ''kl'', ''ku'', ''uplo'', ''trans'', ''diag'']);
        label = cell tt row ''case'' @ pts '' '' @ cell tt row ''kind'' @ pts '' '' @ shape @ pts '' '' @ m @ pts ''x'' @ n
          @ (if details \<noteq> [] then pts '' '' @ join_with [44] details else []) in
      case_of Cat_Level2 parts label metric (median_metric tt row ''rate_gops''))"

definition scalar_latency_case :: "text_tables \<Rightarrow> report_row \<Rightarrow> report_exc + case_data" where
  "scalar_latency_case tt row =
     (let flag = cell tt row ''expected_flag''; metric = cell_text tt row ''metric'' (pts ''ns_per_call'');
        parts = [cell tt row ''routine'', cell tt row ''kind'', cell tt row ''case'', cell tt row ''corpus_size'', flag, metric];
        shown = (case parse_float (tt_decimal tt) flag of Some d \<Rightarrow> format_general 6 d | None \<Rightarrow> flag);
        label = cell tt row ''routine'' @ pts '' '' @ cell tt row ''case'' @ (if flag \<noteq> [] then pts '' flag='' @ shown else []) in
      case_of Cat_Latency parts label metric (median_metric tt row ''median_ns_per_call''))"

definition gemm_case :: "(points \<Rightarrow> points) \<Rightarrow> text_tables \<Rightarrow> report_row \<Rightarrow> report_exc + case_data" where
  "gemm_case lower tt row =
     (let kind = cell tt row ''kind''; transa = cell_text tt row ''transa'' (pts ''N''); transb = cell_text tt row ''transb'' (pts ''N'');
        name = cell tt row ''label''; m = cell tt row ''m''; n = cell tt row ''n''; k = cell tt row ''k'';
        label = kind @ pts '' '' @ transa @ transb @ pts '' '' @ name @ pts '' '' @ m @ pts ''x'' @ n @ pts ''x'' @ k in
      case_of Cat_Gemm [kind, transa, transb, name, m, n, k] label (pts ''gflops'') (gemm_metric lower tt row))"

text \<open>The prefix of the labels of the three matrix families.\<close>

definition matrix_label :: "text_tables \<Rightarrow> report_row \<Rightarrow> points" where
  "matrix_label tt row = cell tt row ''routine'' @ pts '' '' @ cell tt row ''kind'' @ pts '' '' @ cell tt row ''shape''"

definition matrix_case :: "text_tables \<Rightarrow> category \<Rightarrow> string list \<Rightarrow> points \<Rightarrow> report_row \<Rightarrow> report_exc + case_data" where
  "matrix_case tt c key_fields rest row =
     case_of c (map (cell tt row) key_fields) (matrix_label tt row @ rest) (cell_text tt row ''metric'' (pts ''gflops''))
       (median_metric tt row ''gflops'')"

definition rank_k_case :: "text_tables \<Rightarrow> report_row \<Rightarrow> report_exc + case_data" where
  "rank_k_case tt row =
     matrix_case tt Cat_Rank_K
       [''routine'', ''kind'', ''shape'', ''n'', ''k'', ''uplo'', ''trans'', ''alpha_re'', ''alpha_im'', ''beta_re'', ''beta_im'',
        ''lda'', ''ldb'', ''ldc'', ''reps'', ''metric'']
       (pts '' n='' @ cell tt row ''n'' @ pts '' k='' @ cell tt row ''k'' @ pts '' '' @ cell tt row ''uplo'' @ pts ''/'' @ cell tt row ''trans'') row"

definition symm_case :: "text_tables \<Rightarrow> report_row \<Rightarrow> report_exc + case_data" where
  "symm_case tt row =
     matrix_case tt Cat_Symm
       [''routine'', ''kind'', ''shape'', ''m'', ''n'', ''side'', ''uplo'', ''alpha_re'', ''alpha_im'', ''beta_re'', ''beta_im'',
        ''order'', ''lda'', ''ldb'', ''ldc'', ''reps'', ''metric'']
       (pts '' '' @ cell tt row ''m'' @ pts ''x'' @ cell tt row ''n'' @ pts '' side='' @ cell tt row ''side'' @ pts '' uplo='' @ cell tt row ''uplo'') row"

definition triangular_case :: "text_tables \<Rightarrow> report_row \<Rightarrow> report_exc + case_data" where
  "triangular_case tt row =
     matrix_case tt Cat_Triangular
       [''routine'', ''family'', ''kind'', ''shape'', ''m'', ''n'', ''side'', ''uplo'', ''trans'', ''diag'', ''alpha_re'', ''alpha_im'',
        ''order'', ''lda'', ''ldb'', ''reps'', ''metric'']
       (pts '' '' @ cell tt row ''m'' @ pts ''x'' @ cell tt row ''n'' @ pts '' side='' @ cell tt row ''side'' @ pts '' ''
        @ cell tt row ''uplo'' @ pts ''/'' @ cell tt row ''trans'' @ pts ''/'' @ cell tt row ''diag'') row"

definition case_reader :: "(points \<Rightarrow> points) \<Rightarrow> text_tables \<Rightarrow> category \<Rightarrow> report_row \<Rightarrow> report_exc + case_data" where
  "case_reader lower tt c = (case c of
     Cat_Level1 \<Rightarrow> level1_case tt | Cat_Latency \<Rightarrow> scalar_latency_case tt | Cat_Level2 \<Rightarrow> level2_case tt
   | Cat_Gemm \<Rightarrow> gemm_case lower tt | Cat_Rank_K \<Rightarrow> rank_k_case tt | Cat_Symm \<Rightarrow> symm_case tt | Cat_Triangular \<Rightarrow> triangular_case tt)"

section \<open>Reading the files\<close>

datatype report_body = Unreadable | Broken_Header | Table "string list option" "(int \<times> csv_item) list"

type_synonym report_file = "points \<times> report_body"

text \<open>Where a row stands; why the reading stops.  The first two are a \<open>ValueError\<close> with the place in its
  message.\<close>

type_synonym place = "points \<times> int"

datatype read_stop =
    Invalid_Evidence place category report_exc | Duplicate_Slot place category points points place
  | Uneven_Cardinality place category points cardinality "cardinality \<times> points \<times> place"
  | Row_Exception report_exc | Broken_File points

text \<open>What a valid row gives: cardinality, library, and the case with its value.\<close>

record evidence =
  ev_cardinality :: cardinality
  ev_library :: points
  ev_case :: points
  ev_label :: points
  ev_metric :: points
  ev_value :: double

definition row_evidence :: "(points \<Rightarrow> points) \<Rightarrow> text_tables \<Rightarrow> int option \<Rightarrow> category \<Rightarrow> report_row \<Rightarrow> report_exc + evidence" where
  "row_evidence lower tt expected c row =
     bind_r (checked_row lower tt expected c row) (\<lambda>cardinality.
     bind_r (validate_performance_evidence tt row) (\<lambda>_.
     let library = normalized_library lower (cell tt row ''library'') in
     if library = [] then Inl (Value_Error ''missing library'')
     else bind_r (case_reader lower tt c row) (\<lambda>(case_id, label, metric, v).
       bind_r (parse_positive_finite tt (V_Float v) (category_name c @ '' derived metric'')) (\<lambda>v.
       Inr \<lparr>ev_cardinality = cardinality, ev_library = library, ev_case = case_id, ev_label = label, ev_metric = metric, ev_value = v\<rparr>))))"

text \<open>The row statistics of a category.  A rejected row is counted and then ends the reading.\<close>

record row_counts =
  rw_seen :: nat
  rw_accepted :: nat
  rw_rejected :: nat

record raw_case =
  rc_label :: points
  rc_metric :: points
  rc_libraries :: "(points \<times> double list) list"
  rc_sources :: "points list"

record input_data =
  in_recognized :: "points list"
  in_ignored :: "points list"
  in_files :: "category \<Rightarrow> points list"
  in_counts :: "category \<Rightarrow> row_counts"
  in_groups :: "category \<Rightarrow> (points \<times> raw_case) list"
  in_slots :: "category \<times> points \<times> points \<Rightarrow> place option"
  in_cardinalities :: "category \<times> points \<Rightarrow> (cardinality \<times> points \<times> place) option"

definition no_input :: input_data where
  "no_input = \<lparr>in_recognized = [], in_ignored = [], in_files = (\<lambda>_. []),
     in_counts = (\<lambda>_. \<lparr>rw_seen = 0, rw_accepted = 0, rw_rejected = 0\<rparr>), in_groups = (\<lambda>_. []),
     in_slots = (\<lambda>_. None), in_cardinalities = (\<lambda>_. None)\<rparr>"

text \<open>\<open>except (InvalidRow, KeyError, TypeError, ValueError)\<close>.\<close>

definition refuse_row :: "place \<Rightarrow> category \<Rightarrow> report_exc + 'a \<Rightarrow> read_stop + 'a" where
  "refuse_row spot c m = (case m of
     Inl e \<Rightarrow> (case e of Value_Error _ \<Rightarrow> Inl (Invalid_Evidence spot c e) | Key_Error _ \<Rightarrow> Inl (Invalid_Evidence spot c e)
       | Type_Error \<Rightarrow> Inl (Invalid_Evidence spot c e) | _ \<Rightarrow> Inl (Row_Exception e))
   | Inr x \<Rightarrow> Inr x)"

text \<open>A case and library is filled once; outside Level 1 all libraries of a case have one cardinality.\<close>

definition claim_slot :: "place \<Rightarrow> category \<Rightarrow> evidence \<Rightarrow> input_data \<Rightarrow> read_stop + input_data" where
  "claim_slot spot c e st =
     (case in_slots st (c, ev_case e, ev_library e) of
        Some previous \<Rightarrow> Inl (Duplicate_Slot spot c (ev_case e) (ev_library e) previous)
      | None \<Rightarrow> Inr (st\<lparr>in_slots := (in_slots st)((c, ev_case e, ev_library e) \<mapsto> spot)\<rparr>))"

definition claim_cardinality :: "place \<Rightarrow> category \<Rightarrow> evidence \<Rightarrow> input_data \<Rightarrow> read_stop + input_data" where
  "claim_cardinality spot c e st =
     (if c = Cat_Level1 then Inr st
      else case in_cardinalities st (c, ev_case e) of
        None \<Rightarrow> Inr (st\<lparr>in_cardinalities := (in_cardinalities st)((c, ev_case e) \<mapsto> (ev_cardinality e, ev_library e, spot))\<rparr>)
      | Some previous \<Rightarrow>
          if ev_cardinality e \<noteq> fst previous then Inl (Uneven_Cardinality spot c (ev_case e) (ev_cardinality e) previous)
          else Inr st)"

definition file_value :: "points \<Rightarrow> evidence \<Rightarrow> raw_case \<Rightarrow> raw_case" where
  "file_value rel e raw =
     (let libraries = rc_libraries raw; old = (case map_of libraries (ev_library e) of Some vs \<Rightarrow> vs | None \<Rightarrow> []) in
      raw\<lparr>rc_libraries := dict_set (ev_library e) (old @ [ev_value e]) libraries, rc_sources := List.insert rel (rc_sources raw)\<rparr>)"

definition add_case :: "points \<Rightarrow> evidence \<Rightarrow> (points \<times> raw_case) list \<Rightarrow> (points \<times> raw_case) list" where
  "add_case rel e cases =
     (let raw = (case map_of cases (ev_case e) of Some raw \<Rightarrow> raw
        | None \<Rightarrow> \<lparr>rc_label = ev_label e, rc_metric = ev_metric e, rc_libraries = [], rc_sources = []\<rparr>) in
      dict_set (ev_case e) (file_value rel e raw) cases)"

definition count_rows :: "category \<Rightarrow> (row_counts \<Rightarrow> row_counts) \<Rightarrow> input_data \<Rightarrow> input_data" where
  "count_rows c f st = st\<lparr>in_counts := (in_counts st)(c := f (in_counts st c))\<rparr>"

definition accept_row :: "points \<Rightarrow> category \<Rightarrow> evidence \<Rightarrow> input_data \<Rightarrow> input_data" where
  "accept_row rel c e st =
     (let st = count_rows c (\<lambda>n. n\<lparr>rw_accepted := Suc (rw_accepted n)\<rparr>) st in
      st\<lparr>in_groups := (in_groups st)(c := add_case rel e (in_groups st c))\<rparr>)"

definition read_row :: "(points \<Rightarrow> points) \<Rightarrow> text_tables \<Rightarrow> int option \<Rightarrow> points \<Rightarrow> category \<Rightarrow> int \<times> csv_item
    \<Rightarrow> input_data \<Rightarrow> read_stop + input_data" where
  "read_row lower tt expected rel c = (\<lambda>(line, item) st. case item of
     Csv_Failure \<Rightarrow> Inl (Broken_File rel)
   | Csv_Row row \<Rightarrow>
       let st = count_rows c (\<lambda>n. n\<lparr>rw_seen := Suc (rw_seen n)\<rparr>) st; spot = (rel, line) in
       bind_r (refuse_row spot c (row_evidence lower tt expected c row)) (\<lambda>e.
       bind_r (claim_slot spot c e st) (\<lambda>st.
       bind_r (claim_cardinality spot c e st) (\<lambda>st. Inr (accept_row rel c e st)))))"

definition read_file :: "(points \<Rightarrow> points) \<Rightarrow> text_tables \<Rightarrow> int option \<Rightarrow> report_file \<Rightarrow> input_data \<Rightarrow> read_stop + input_data" where
  "read_file lower tt expected = (\<lambda>(rel, body) st. case body of
     Unreadable \<Rightarrow> Inr (st\<lparr>in_ignored := in_ignored st @ [rel]\<rparr>)
   | Broken_Header \<Rightarrow> Inl (Broken_File rel)
   | Table fieldnames items \<Rightarrow>
       (case classify_header fieldnames of
          None \<Rightarrow> Inr (st\<lparr>in_ignored := in_ignored st @ [rel]\<rparr>)
        | Some c \<Rightarrow> fold_r (read_row lower tt expected rel c) items
            (st\<lparr>in_recognized := in_recognized st @ [rel], in_files := (in_files st)(c := List.insert rel (in_files st c))\<rparr>)))"

text \<open>The files come in the order of \<open>sorted(input_dir.rglob("*.csv"))\<close>.\<close>

definition read_inputs :: "(points \<Rightarrow> points) \<Rightarrow> text_tables \<Rightarrow> int option \<Rightarrow> report_file list \<Rightarrow> read_stop + input_data" where
  "read_inputs lower tt expected files = fold_r (read_file lower tt expected) files no_input"

section \<open>The verdict of every case\<close>

record bench_result =
  br_case_id :: points
  br_case :: points
  br_metric :: points
  br_zynum :: "double option"
  br_fastest :: "points option"
  br_comparator :: "double option"
  br_ratio :: "double option"
  br_status :: string
  br_missing :: "points list"
  br_sources :: "points list"
  br_libraries :: "(points \<times> double) list"

definition comparator_row :: "points \<times> double \<Rightarrow> report_row" where
  "comparator_row = (\<lambda>(name, v). [''library'' \<mapsto> V_Text name, ''value'' \<mapsto> V_Float v])"

text \<open>The comparators of a case: all other libraries, or those requested; and the requested ones it
  lacks.\<close>

definition case_comparators :: "points list \<Rightarrow> (points \<times> double) list \<Rightarrow> (points \<times> double) list \<times> points list" where
  "case_comparators requested found =
     (let comparators = filter (\<lambda>(name, _). name \<noteq> pts ''Zynum'') found in
      if requested = [] then (comparators, [])
      else (fold (\<lambda>name d. case map_of comparators name of Some v \<Rightarrow> dict_set name v d | None \<Rightarrow> d) requested [],
        filter (\<lambda>name. map_of comparators name = None) requested))"

definition best_comparator :: "text_tables \<Rightarrow> category \<Rightarrow> (points \<times> double) list \<Rightarrow> report_exc + (points \<times> double) option" where
  "best_comparator tt c comparators =
     (if comparators = [] then Inr None
      else bind_r ((if c = Cat_Latency then best_lower_row else best_higher_row) tt (map comparator_row comparators) ''value'') (\<lambda>best.
        bind_r (row_item best ''library'') (\<lambda>name.
        bind_r (row_item best ''value'') (\<lambda>v.
        bind_r (float_cell tt v) (\<lambda>d. Inr (Some (value_text tt name, d)))))))"

definition case_ratio :: "text_tables \<Rightarrow> category \<Rightarrow> double option \<Rightarrow> (points \<times> double) option \<Rightarrow> report_exc + double option \<times> string" where
  "case_ratio tt c zynum best = (case zynum of
     None \<Rightarrow> Inr (None, ''missing-zynum'')
   | Some z \<Rightarrow> (case best of
       None \<Rightarrow> Inr (None, ''missing-comparator'')
     | Some (_, b) \<Rightarrow>
         bind_r (positive_finite_ratio tt (V_Float (if c = Cat_Latency then b else z)) (V_Float (if c = Cat_Latency then z else b)))
           (\<lambda>ratio. Inr (Some ratio, if fless_eq (Fin 1) ratio then ''passed'' else ''failed''))))"

definition library_median :: "text_tables \<Rightarrow> points \<times> double list \<Rightarrow> report_exc + points \<times> double" where
  "library_median tt = (\<lambda>(name, samples).
     bind_r (positive_finite_median tt (map V_Float samples) ''median'') (\<lambda>m. Inr (name, m)))"

definition aggregate_case :: "text_tables \<Rightarrow> category \<Rightarrow> points list \<Rightarrow> points \<times> raw_case \<Rightarrow> report_exc + bench_result" where
  "aggregate_case tt c requested = (\<lambda>(case_id, raw).
     bind_r (map_r (library_median tt) (rc_libraries raw)) (\<lambda>found.
     let zynum = map_of found (pts ''Zynum''); (comparators, missing) = case_comparators requested found in
     bind_r (best_comparator tt c comparators) (\<lambda>best.
     bind_r (case_ratio tt c zynum best) (\<lambda>(ratio, status).
     Inr \<lparr>br_case_id = case_id, br_case = rc_label raw, br_metric = rc_metric raw, br_zynum = zynum,
       br_fastest = (case best of Some (name, _) \<Rightarrow> if name = [] then None else Some name | None \<Rightarrow> None),
       br_comparator = map_option snd best, br_ratio = ratio, br_status = status, br_missing = missing,
       br_sources = sort (rc_sources raw), br_libraries = sort_key fst found\<rparr>))))"

definition aggregate_category :: "text_tables \<Rightarrow> category \<Rightarrow> points list \<Rightarrow> (points \<times> raw_case) list \<Rightarrow> report_exc + bench_result list" where
  "aggregate_category tt c requested groups = map_r (aggregate_case tt c requested) (sort_key fst groups)"

definition category_status :: "bench_result list \<Rightarrow> string" where
  "category_status results =
     (if results = [] \<or> \<not> list_ex (\<lambda>r. br_ratio r \<noteq> None) results then ''missing''
      else if list_ex (\<lambda>r. br_status r = ''failed'') results then ''failed''
      else if list_ex (\<lambda>r. br_status r \<noteq> ''passed'') results \<or> list_ex (\<lambda>r. br_missing r \<noteq> []) results then ''incomplete''
      else ''passed'')"

record case_counts =
  cc_total :: nat
  cc_passed :: nat
  cc_failed :: nat
  cc_missing :: nat
  cc_incomplete :: nat

definition status_counts :: "bench_result list \<Rightarrow> case_counts" where
  "status_counts results =
     (let n = (\<lambda>s. length (filter (\<lambda>r. br_status r = s) results)) in
      \<lparr>cc_total = length results, cc_passed = n ''passed'', cc_failed = n ''failed'',
       cc_missing = n ''missing-zynum'' + n ''missing-comparator'',
       cc_incomplete = length (filter (\<lambda>r. br_missing r \<noteq> []) results)\<rparr>)"

section \<open>The report\<close>

record category_report =
  cr_category :: category
  cr_status :: string
  cr_files :: "points list"
  cr_rows :: row_counts
  cr_cases :: case_counts
  cr_results :: "bench_result list"

datatype report_stop = Bad_Repeats | Read_Stop read_stop | Aggregate_Stop report_exc

definition category_report_of :: "text_tables \<Rightarrow> points list \<Rightarrow> input_data \<Rightarrow> category \<Rightarrow> report_stop + category_report" where
  "category_report_of tt requested inputs c =
     (case aggregate_category tt c requested (in_groups inputs c) of
        Inl e \<Rightarrow> Inl (Aggregate_Stop e)
      | Inr results \<Rightarrow>
          Inr \<lparr>cr_category = c, cr_status = category_status results, cr_files = sort (in_files inputs c),
            cr_rows = in_counts inputs c, cr_cases = status_counts results, cr_results = results\<rparr>)"

text \<open>\<open>render_report\<close> up to the rendering of the outputs.\<close>

definition full_report :: "(points \<Rightarrow> points) \<Rightarrow> text_tables \<Rightarrow> points list \<Rightarrow> int option \<Rightarrow> report_file list
    \<Rightarrow> report_stop + category_report list" where
  "full_report lower tt comparators expected files =
     (if (case expected of Some n \<Rightarrow> n \<le> 0 | None \<Rightarrow> False) then Inl Bad_Repeats
      else case read_inputs lower tt expected files of
        Inl e \<Rightarrow> Inl (Read_Stop e)
      | Inr inputs \<Rightarrow> map_r (category_report_of tt (map (normalized_library lower) comparators) inputs) category_order)"

section \<open>The rows of the summary\<close>

definition summary_number :: "double option \<Rightarrow> points" where
  "summary_number v = (case v of None \<Rightarrow> [] | Some d \<Rightarrow> format_general 17 d)"

text \<open>The cells of \<open>summary.csv\<close>; \<open>dumps\<close> is \<open>json.dumps\<close> of the libraries with sorted keys.\<close>

definition summary_row :: "((points \<times> double) list \<Rightarrow> points) \<Rightarrow> category \<Rightarrow> bench_result \<Rightarrow> (string \<times> points) list" where
  "summary_row dumps c r =
     [(''category'', pts (category_name c)), (''case_id'', br_case_id r), (''case'', br_case r), (''metric'', br_metric r),
      (''zynum_value'', summary_number (br_zynum r)),
      (''fastest_comparator'', case br_fastest r of Some name \<Rightarrow> name | None \<Rightarrow> []),
      (''comparator_value'', summary_number (br_comparator r)), (''ratio'', summary_number (br_ratio r)),
      (''status'', pts (br_status r)), (''missing_comparators'', join_with [59] (br_missing r)),
      (''library_values'', dumps (br_libraries r)), (''source_files'', join_with [59] (br_sources r))]"

definition summary_rows :: "((points \<times> double) list \<Rightarrow> points) \<Rightarrow> category_report list \<Rightarrow> (string \<times> points) list list" where
  "summary_rows dumps reports =
     concat (map (\<lambda>r.
       if cr_results r = []
       then [[(''category'', pts (category_name (cr_category r))), (''case'', pts ''missing''), (''status'', pts ''missing'')]]
       else map (summary_row dumps (cr_category r)) (cr_results r)) reports)"

end
