(* ===== verification/Latency_Gate.thy ===== *)
theory Latency_Gate
  imports Report_Gate
begin

text \<open>
  The latency gate (\<open>bench/tools/check_rotg_latency_report.py\<close>): every selected row of the library under
  test is found eligible before any latency is compared, and a smaller latency is better.
\<close>

record latency_filter =
  la_routine :: "points list option"
  la_kind :: "points list option"
  la_case :: "points list option"

definition latency_key :: "report_row \<Rightarrow> report_exc + group_key" where
  "latency_key row = row_items row [''routine'', ''kind'', ''case'', ''corpus_size'', ''samples'', ''calls_per_sample'',
     ''process_repeats'', ''metric'']"

definition latency_allowed :: "latency_filter \<Rightarrow> report_row \<Rightarrow> report_exc + bool" where
  "latency_allowed fl row =
     bind_r (row_items row [''routine'', ''kind'', ''case'']) (\<lambda>cells.
     Inr (\<not> list_ex (\<lambda>(chosen, v). excluded chosen v) (zip [la_routine fl, la_kind fl, la_case fl] cells)))"

definition status_eligible :: "report_row \<Rightarrow> bool" where
  "status_eligible row \<longleftrightarrow> status_in row ''status'' [''ok''] \<and> status_in row ''check_status'' [''sampled-ok'', ''checked-ok'']"

text \<open>The conversions of \<open>row_eligible\<close>; their key, type and value errors make the row ineligible.\<close>

definition eligible_evidence :: "text_tables \<Rightarrow> report_row \<Rightarrow> report_exc + bool" where
  "eligible_evidence tt row =
     bind_r (row_item row ''process_repeats'') (\<lambda>p.
     bind_r (int_cell tt p) (\<lambda>repeats.
     bind_r (row_item row ''successful_repeats'') (\<lambda>s.
     bind_r (int_cell tt s) (\<lambda>successful.
     bind_r (row_item row ''metric_median'') (\<lambda>m.
     bind_r (parse_positive_finite tt m ''metric_median'') (\<lambda>_.
     Inr (0 < repeats \<and> successful = repeats \<and> row_get row ''metric'' = V_Text (pts ''ns_per_call''))))))))"

definition row_eligible :: "text_tables \<Rightarrow> report_row \<Rightarrow> gate_stop + bool" where
  "row_eligible tt row =
     (if \<not> status_eligible row then Inr False
      else case eligible_evidence tt row of
        Inr b \<Rightarrow> Inr b
      | Inl (Key_Error _) \<Rightarrow> Inr False | Inl Type_Error \<Rightarrow> Inr False | Inl (Value_Error _) \<Rightarrow> Inr False
      | Inl e \<Rightarrow> Inl (Uncaught e))"

definition relevant_library :: "gate_args \<Rightarrow> report_row \<Rightarrow> bool" where
  "relevant_library a row \<longleftrightarrow> row_get row ''library'' \<in> V_Text ` set (ga_zynum a # comparators_of a)"

definition select_latency :: "latency_filter \<Rightarrow> gate_args \<Rightarrow> csv_item \<Rightarrow> report_row list \<Rightarrow> gate_stop + report_row list" where
  "select_latency fl a item rows = (case item of
     Csv_Failure \<Rightarrow> Inl Reader_Failure
   | Csv_Row row \<Rightarrow>
       (case latency_allowed fl row of
          Inl (Key_Error _) \<Rightarrow> Inl (Refused ''missing required parameters'')
        | Inl e \<Rightarrow> Inl (Uncaught e)
        | Inr ok \<Rightarrow> Inr (if ok \<and> relevant_library a row then rows @ [row] else rows)))"

definition require_eligible :: "text_tables \<Rightarrow> gate_args \<Rightarrow> report_row \<Rightarrow> unit \<Rightarrow> gate_stop + unit" where
  "require_eligible tt a row u =
     (if row_get row ''library'' \<noteq> V_Text (ga_zynum a) then Inr ()
      else bind_r (row_eligible tt row) (\<lambda>ok. if ok then Inr () else Inl (Refused ''unchecked row is not eligible'')))"

text \<open>\<open>except (KeyError, TypeError, ValueError)\<close>.\<close>

definition refuse_latency :: "report_exc + 'a \<Rightarrow> gate_stop + 'a" where
  "refuse_latency m = (case m of
     Inl (Key_Error _) \<Rightarrow> Inl (Refused ''bad latency metric'') | Inl Type_Error \<Rightarrow> Inl (Refused ''bad latency metric'')
   | Inl (Value_Error _) \<Rightarrow> Inl (Refused ''bad latency metric'') | Inl e \<Rightarrow> Inl (Uncaught e) | Inr x \<Rightarrow> Inr x)"

definition latency_metric_row :: "text_tables \<Rightarrow> report_row \<Rightarrow> report_exc + group_key \<times> report_row" where
  "latency_metric_row tt row =
     bind_r (validate_optional_metric_evidence tt row) (\<lambda>_.
     bind_r (latency_key row) (\<lambda>k.
     bind_r (row_item row ''metric_median'') (\<lambda>v.
     bind_r (parse_positive_finite tt v ''metric_median'') (\<lambda>d.
     Inr (k, row(''median_latency'' \<mapsto> V_Float d))))))"

definition latency_row :: "text_tables \<Rightarrow> report_row \<Rightarrow> unit \<Rightarrow> gate_stop + unit \<times> selected option" where
  "latency_row tt row u =
     bind_r (row_eligible tt row) (\<lambda>ok.
     if \<not> ok then (if status_eligible row then Inl (Refused ''bad latency metric or repeat evidence'') else Inr (u, None))
     else bind_r (refuse_latency (latency_metric_row tt row)) (\<lambda>(k, row).
       bind_r (uncaught (row_item row ''library'')) (\<lambda>library. Inr (u, Some (k, library, row)))))"

definition latency_rules :: "text_tables \<Rightarrow> unit gate_rules" where
  "latency_rules tt =
     \<lparr>gt_start = (), gt_row = latency_row tt, gt_end = (\<lambda>_. Inr ()), gt_inspect = (\<lambda>_. Inr ()),
      gt_compare = compare_best (best_lower_row tt) tt ''median_latency'', gt_alias = False, gt_latency = True\<rparr>"

definition latency_groups :: "text_tables \<Rightarrow> latency_filter \<Rightarrow> gate_args \<Rightarrow> csv_item list \<Rightarrow> gate_stop + (group_key \<times> group) list" where
  "latency_groups tt fl a items =
     bind_r (fold_r (select_latency fl a) items []) (\<lambda>rows.
     bind_r (fold_r (require_eligible tt a) rows ()) (\<lambda>_.
     collect_groups (latency_rules tt) (map Csv_Row rows)))"

definition latency_main :: "text_tables \<Rightarrow> latency_filter \<Rightarrow> gate_args \<Rightarrow> csv_input \<Rightarrow> gate_stop + gate_report" where
  "latency_main tt fl a input =
     bind_r (checked_ratio tt a) (\<lambda>_.
     case input of
       Unopened \<Rightarrow> Inl (Refused ''open'')
     | Opened items \<Rightarrow> bind_r (latency_groups tt fl a items) (judge_groups (latency_rules tt) a))"

end
