(* ===== verification/Report_Aggregate.thy ===== *)
theory Report_Aggregate
  imports Float_Format Latency_Gate
begin

text \<open>
  How the runners turn the repeats of one case into one row of a report (\<open>aggregate_repeats\<close> of
  \<open>bench/tools/run_rank_k_report.py\<close>, \<open>run_symm_report.py\<close>, \<open>run_triangular_matrix_report.py\<close> and
  \<open>run_rotg_latency_report.py\<close>, and \<open>aggregate_worker_repeats\<close> of \<open>run_level2_report.py\<close>).  The first three
  runners share their text up to a message; what differs between the runners is in \<open>repeat_rules\<close>.
\<close>

section \<open>Cells\<close>

definition falsy :: "py_value \<Rightarrow> bool" where
  "falsy v \<longleftrightarrow> v = V_None \<or> v = V_Text [] \<or> v = V_Int 0 \<or> v = V_Float (Fin 0)"

text \<open>\<open>row.get(f, default)\<close>.\<close>

definition get_default :: "report_row \<Rightarrow> string \<Rightarrow> py_value \<Rightarrow> py_value" where
  "get_default row f d = (case row f of Some v \<Rightarrow> v | None \<Rightarrow> d)"

text \<open>\<open>except\<close> around a test of a row: a caught exception makes the row ineligible.\<close>

definition caught_key_value :: "report_exc \<Rightarrow> bool" where
  "caught_key_value e = (case e of Key_Error _ \<Rightarrow> True | Value_Error _ \<Rightarrow> True | _ \<Rightarrow> False)"

definition caught_key_type_value :: "report_exc \<Rightarrow> bool" where
  "caught_key_type_value e \<longleftrightarrow> caught_key_value e \<or> e = Type_Error"

definition false_on :: "(report_exc \<Rightarrow> bool) \<Rightarrow> report_exc + bool \<Rightarrow> report_exc + bool" where
  "false_on caught m = (case m of Inl e \<Rightarrow> if caught e then Inr False else Inl e | Inr b \<Rightarrow> Inr b)"

definition float_item :: "text_tables \<Rightarrow> report_row \<Rightarrow> string \<Rightarrow> report_exc + double" where
  "float_item tt row f = bind_r (row_item row f) (float_cell tt)"

section \<open>Eligible repeats\<close>

definition timed_evidence :: "text_tables \<Rightarrow> string \<Rightarrow> string \<Rightarrow> report_row \<Rightarrow> report_exc + bool" where
  "timed_evidence tt metric time row =
     bind_r (row_item row metric) (\<lambda>v.
     bind_r (parse_positive_finite tt v metric) (\<lambda>_.
     bind_r (row_item row time) (\<lambda>c.
     bind_r (int_cell tt c) (\<lambda>n. Inr (0 < n)))))"

definition matrix_repeat_eligible :: "text_tables \<Rightarrow> report_row \<Rightarrow> report_exc + bool" where
  "matrix_repeat_eligible tt row =
     (if \<not> status_eligible row then Inr False
      else false_on caught_key_value (timed_evidence tt ''median_gflops'' ''median_ns'' row))"

definition level2_repeat_eligible :: "text_tables \<Rightarrow> report_row option \<Rightarrow> report_exc + bool" where
  "level2_repeat_eligible tt repeat = (case repeat of
     None \<Rightarrow> Inr False
   | Some row \<Rightarrow>
       if \<not> status_eligible row then Inr False
       else false_on caught_key_value (timed_evidence tt ''rate_gops'' ''time_ns'' row))"

definition latency_evidence :: "text_tables \<Rightarrow> report_row \<Rightarrow> report_exc + bool" where
  "latency_evidence tt row =
     bind_r (float_item tt row ''median_ns_per_call'') (\<lambda>d.
     if \<not> (is_finite d \<and> fless (Fin 0) d) then Inr False
     else bind_r (row_item row ''nonpositive_pairs'') (\<lambda>c. bind_r (int_cell tt c) (\<lambda>n. Inr (n = 0))))"

definition latency_repeat_eligible :: "text_tables \<Rightarrow> report_row \<Rightarrow> report_exc + bool" where
  "latency_repeat_eligible tt row =
     (if \<not> status_eligible row then Inr False
      else false_on caught_key_type_value (latency_evidence tt row))"

text \<open>\<open>[row for row in rows if eligible(row)]\<close>.\<close>

fun filter_r :: "('x \<Rightarrow> 'e + bool) \<Rightarrow> 'x list \<Rightarrow> 'e + 'x list" where
  "filter_r P [] = Inr []"
| "filter_r P (x # xs) = bind_r (P x) (\<lambda>b. bind_r (filter_r P xs) (\<lambda>ys. Inr (if b then x # ys else ys)))"

section \<open>The status of a failed case\<close>

definition some_status :: "report_row list \<Rightarrow> string \<Rightarrow> bool" where
  "some_status rows s \<longleftrightarrow>
     list_ex (\<lambda>row. get_default row ''status'' (V_Text (pts ''error'')) = V_Text (pts s)) rows
   \<or> list_ex (\<lambda>row. get_default row ''check_status'' (V_Text (pts ''error'')) = V_Text (pts s)) rows"

definition matrix_failure_status :: "report_row list \<Rightarrow> string \<times> string" where
  "matrix_failure_status rows =
     (if some_status rows ''error'' then (''error'', ''error'')
      else if some_status rows ''missing'' then (''missing'', ''missing'')
      else (''correctness_failed'', ''correctness_failed''))"

definition latency_failure_status :: "report_row list \<Rightarrow> string \<times> string" where
  "latency_failure_status rows =
     (if some_status rows ''error'' then (''error'', ''error'')
      else if some_status rows ''correctness_failed'' then (''correctness_failed'', ''correctness_failed'')
      else (''timing_failed'', ''checked-ok''))"

definition repeat_failure_status :: "report_row option list \<Rightarrow> string \<times> string" where
  "repeat_failure_status rows =
     (let existing = List.map_filter id rows in
      if length existing \<noteq> length rows then (''error'', ''error'')
      else if some_status existing ''error'' then (''error'', ''error'')
      else if some_status existing ''missing'' then (''missing'', ''missing'')
      else if some_status existing ''correctness_failed'' then (''correctness_failed'', ''correctness_failed'')
      else (''error'', ''error''))"

section \<open>Representative and summary\<close>

text \<open>\<open>max(rows, key=...)\<close> and \<open>min(rows, key=...)\<close> return the first of the best.\<close>

fun first_best :: "(double \<Rightarrow> double \<Rightarrow> bool) \<Rightarrow> double \<times> 'a \<Rightarrow> (double \<times> 'a) list \<Rightarrow> 'a" where
  "first_best better b [] = snd b"
| "first_best better b (x # xs) = first_best better (if better (fst x) (fst b) then x else b) xs"

definition best_by :: "text_tables \<Rightarrow> (double \<Rightarrow> double \<Rightarrow> bool) \<Rightarrow> string \<Rightarrow> report_row list \<Rightarrow> report_exc + report_row" where
  "best_by tt better f rows =
     bind_r (map_r (\<lambda>row. bind_r (float_item tt row f) (\<lambda>d. Inr (d, row))) rows) (\<lambda>items.
     case items of [] \<Rightarrow> Inl (Value_Error ''max() arg is an empty sequence'') | x # xs \<Rightarrow> Inr (first_best better x xs))"

definition higher :: "double \<Rightarrow> double \<Rightarrow> bool" where "higher a b = fless b a"

definition extreme :: "(double \<Rightarrow> double \<Rightarrow> bool) \<Rightarrow> double list \<Rightarrow> double" where
  "extreme better ds = (case ds of [] \<Rightarrow> Nan | d # ds \<Rightarrow> foldl (\<lambda>b d. if better d b then d else b) d ds)"

definition metric_text :: "double \<Rightarrow> py_value" where "metric_text d = V_Text (format_general 17 d)"

definition summary_of :: "text_tables \<Rightarrow> double list \<Rightarrow> report_exc + (string \<times> py_value) list" where
  "summary_of tt values =
     bind_r (if values = [] then Inr (V_Text [])
       else bind_r (positive_finite_median tt (map V_Float values) ''metric_median'') (\<lambda>m. Inr (metric_text m))) (\<lambda>median.
     let summary =
       [(''metric_min'', if values = [] then V_Text [] else metric_text (extreme fless values)),
        (''metric_median'', median),
        (''metric_max'', if values = [] then V_Text [] else metric_text (extreme higher values)),
        (''metric_samples'', V_Text (join_with [44] (map (format_general 17) values)))] in
     bind_r (validate_optional_metric_evidence tt (map_of summary)) (\<lambda>_. Inr summary))"

text \<open>\<open>row.update(...)\<close>.\<close>

definition row_update :: "(string \<times> py_value) list \<Rightarrow> report_row \<Rightarrow> report_row" where
  "row_update cells row = row ++ map_of (rev cells)"

section \<open>Details\<close>

text \<open>Pass \<open>float(row.get(f) or 0)\<close> over the error columns of a row in one \<open>try\<close>: what was appended before a
  \<open>ValueError\<close> stays.\<close>

fun append_errors :: "text_tables \<Rightarrow> report_row \<Rightarrow> (string \<times> double list) list \<Rightarrow> report_exc + (string \<times> double list) list" where
  "append_errors tt row [] = Inr []"
| "append_errors tt row ((f, ds) # columns) =
     (let v = row_get row f in
      case (if falsy v then Inr (Fin 0) else float_cell tt v) of
        Inl (Value_Error _) \<Rightarrow> Inr ((f, ds) # columns)
      | Inl e \<Rightarrow> Inl e
      | Inr d \<Rightarrow> bind_r (append_errors tt row columns) (\<lambda>rest. Inr ((f, ds @ [d]) # rest)))"

definition detail_of :: "text_tables \<Rightarrow> nat \<Rightarrow> report_row \<Rightarrow> points" where
  "detail_of tt repeat row =
     (let raw = row_get row ''check_raw_output'' in
      pts ''repeat='' @ pts (show_int (int repeat)) @ pts '': status='' @ value_text tt (get_default row ''status'' (V_Text []))
      @ pts '' check_status='' @ value_text tt (get_default row ''check_status'' (V_Text []))
      @ (if falsy raw then [] else 32 # value_text tt raw))"

definition error_cells :: "(string \<times> double list) list \<Rightarrow> (string \<times> py_value) list" where
  "error_cells columns =
     map (\<lambda>(f, ds). (f, V_Text (format_general 9 (extreme higher ds)))) (filter (\<lambda>(_, ds). ds \<noteq> []) columns)"

definition detail_cells :: "points list \<Rightarrow> (string \<times> py_value) list" where
  "detail_cells details = (if details = [] then [] else [(''check_raw_output'', V_Text (join_with (pts '' | '') details))])"

definition status_cells :: "string \<times> string \<Rightarrow> (string \<times> py_value) list" where
  "status_cells s = [(''status'', V_Text (pts (fst s))), (''check_status'', V_Text (pts (snd s)))]"

section \<open>One case of a matrix or latency report\<close>

record repeat_rules =
  rr_what :: string
  rr_required :: "string list"
  rr_eligible :: "text_tables \<Rightarrow> report_row \<Rightarrow> report_exc + bool"
  rr_pick :: string
  rr_better :: "double \<Rightarrow> double \<Rightarrow> bool"
  rr_metric :: string
  rr_errors :: "string list"
  rr_failure :: "report_row list \<Rightarrow> string \<times> string"

definition validate_repeat :: "text_tables \<Rightarrow> string \<Rightarrow> string list \<Rightarrow> nat \<times> report_row \<Rightarrow> unit \<Rightarrow> report_exc + unit" where
  "validate_repeat tt what required = (\<lambda>(repeat, row) u.
     if row_get row ''status'' \<noteq> V_Text (pts ''ok'') then Inr ()
     else case validate_performance_fields tt row required [] of
       Inl (Value_Error e) \<Rightarrow>
         Inl (Value_Error (''invalid '' @ what @ '' performance evidence in repeat '' @ show_int (int repeat) @ '': '' @ e))
     | m \<Rightarrow> m)"

definition numbered :: "nat \<Rightarrow> 'a list \<Rightarrow> (nat \<times> 'a) list" where
  "numbered start xs = zip [start..<start + length xs] xs"

definition note_repeat :: "text_tables \<Rightarrow> repeat_rules \<Rightarrow> nat \<times> report_row \<Rightarrow> (string \<times> double list) list \<times> points list
    \<Rightarrow> report_exc + (string \<times> double list) list \<times> points list" where
  "note_repeat tt rr = (\<lambda>(repeat, row) (errors, details).
     bind_r (append_errors tt row errors) (\<lambda>errors.
     bind_r (rr_eligible rr tt row) (\<lambda>ok.
     Inr (errors, if \<not> ok \<or> \<not> falsy (row_get row ''check_raw_output'') then details @ [detail_of tt repeat row] else details))))"

definition aggregate_repeats :: "text_tables \<Rightarrow> repeat_rules \<Rightarrow> report_row list \<Rightarrow> report_exc + report_row" where
  "aggregate_repeats tt rr rows =
     (if rows = [] then Inl (Value_Error ''cannot aggregate an empty repeat list'')
      else
        bind_r (fold_r (validate_repeat tt (rr_what rr) (rr_required rr)) (numbered 1 rows) ()) (\<lambda>_.
        bind_r (filter_r (rr_eligible rr tt) rows) (\<lambda>eligible.
        bind_r (if eligible = [] then Inr (hd rows) else best_by tt (rr_better rr) (rr_pick rr) eligible) (\<lambda>base.
        bind_r (map_r (\<lambda>row. float_item tt row (rr_metric rr)) eligible) (\<lambda>values.
        bind_r (summary_of tt values) (\<lambda>summary.
        bind_r (fold_r (note_repeat tt rr) (numbered 1 rows) (map (\<lambda>f. (f, [])) (rr_errors rr), [])) (\<lambda>(errors, details).
        Inr (row_update
          ((''process_repeats'', V_Int (int (length rows))) # (''successful_repeats'', V_Int (int (length eligible))) # summary
           @ error_cells errors @ detail_cells details
           @ (if length eligible \<noteq> length rows then status_cells (rr_failure rr rows) else [])) base))))))))"

definition matrix_repeat_rules :: "string \<Rightarrow> repeat_rules" where
  "matrix_repeat_rules what =
     \<lparr>rr_what = what,
      rr_required = [''best_ns'', ''median_ns'', ''p95_ns'', ''max_ns'', ''gflops'', ''median_gflops''],
      rr_eligible = matrix_repeat_eligible, rr_pick = ''gflops'', rr_better = higher, rr_metric = ''median_gflops'',
      rr_errors = [''check_max_abs_error''], rr_failure = matrix_failure_status\<rparr>"

definition rank_k_aggregate :: "text_tables \<Rightarrow> report_row list \<Rightarrow> report_exc + report_row" where
  "rank_k_aggregate tt rows = aggregate_repeats tt (matrix_repeat_rules ''rank-k'') rows"

definition symm_aggregate :: "text_tables \<Rightarrow> report_row list \<Rightarrow> report_exc + report_row" where
  "symm_aggregate tt rows = aggregate_repeats tt (matrix_repeat_rules ''SYMM'') rows"

definition triangular_aggregate :: "text_tables \<Rightarrow> report_row list \<Rightarrow> report_exc + report_row" where
  "triangular_aggregate tt rows = aggregate_repeats tt (matrix_repeat_rules ''triangular-matrix'') rows"

definition latency_repeat_rules :: repeat_rules where
  "latency_repeat_rules =
     \<lparr>rr_what = ''ROTG/ROTMG'',
      rr_required = [''best_ns_per_call'', ''median_ns_per_call'', ''p95_ns_per_call'', ''max_ns_per_call'',
        ''median_full_ns_per_call'', ''median_harness_ns_per_call''],
      rr_eligible = latency_repeat_eligible, rr_pick = ''median_ns_per_call'', rr_better = fless,
      rr_metric = ''median_ns_per_call'', rr_errors = [''check_max_abs_error'', ''check_max_rel_error''],
      rr_failure = latency_failure_status\<rparr>"

definition latency_aggregate :: "text_tables \<Rightarrow> report_row list \<Rightarrow> report_exc + report_row" where
  "latency_aggregate tt rows = aggregate_repeats tt latency_repeat_rules rows"

section \<open>One case of the Level 2 report\<close>

text \<open>A repeat without a row for the case is \<open>None\<close>; here the details count the repeats from zero.\<close>

definition level2_validate :: "text_tables \<Rightarrow> nat \<times> report_row option \<Rightarrow> unit \<Rightarrow> report_exc + unit" where
  "level2_validate tt = (\<lambda>(repeat, r) u. case r of
     None \<Rightarrow> Inr ()
   | Some row \<Rightarrow> validate_repeat tt ''Level 2'' [''time_ns'', ''rate_gops''] (repeat, row) u)"

definition level2_error :: "text_tables \<Rightarrow> report_row \<Rightarrow> double list \<Rightarrow> report_exc + double list" where
  "level2_error tt row errors =
     (case float_item tt row ''check_max_abs_error'' of
        Inr d \<Rightarrow> Inr (errors @ [d])
      | Inl e \<Rightarrow> if caught_key_value e then Inr errors else Inl e)"

definition level2_note :: "text_tables \<Rightarrow> nat \<times> report_row option \<Rightarrow> double list \<times> points list
    \<Rightarrow> report_exc + double list \<times> points list" where
  "level2_note tt = (\<lambda>(repeat, r) (errors, details). case r of
     None \<Rightarrow> Inr (errors, details @ [pts ''repeat='' @ pts (show_int (int repeat)) @ pts '': missing result row''])
   | Some row \<Rightarrow>
       bind_r (level2_error tt row errors) (\<lambda>errors.
       bind_r (level2_repeat_eligible tt (Some row)) (\<lambda>ok.
       Inr (errors, if \<not> ok \<or> \<not> falsy (get_default row ''check_raw_output'' (V_Text []))
         then details @ [detail_of tt repeat row] else details))))"

definition aggregate_repeat_group :: "text_tables \<Rightarrow> report_row option list \<Rightarrow> report_exc + report_row" where
  "aggregate_repeat_group tt rows =
     (let existing = List.map_filter id rows in
      if existing = [] then Inl (Value_Error ''cannot aggregate an empty repeat group'')
      else
        bind_r (fold_r (level2_validate tt) (numbered 1 rows) ()) (\<lambda>_.
        bind_r (filter_r (level2_repeat_eligible tt) rows) (\<lambda>eligible.
        let eligible = List.map_filter id eligible in
        bind_r (if eligible = [] then Inr (hd existing) else best_by tt higher ''rate_gops'' eligible) (\<lambda>base.
        bind_r (map_r (\<lambda>row. float_item tt row ''rate_gops'') eligible) (\<lambda>values.
        bind_r (summary_of tt values) (\<lambda>summary.
        bind_r (fold_r (level2_note tt) (numbered 0 rows) ([], [])) (\<lambda>(errors, details).
        Inr (row_update
          ((''successful_repeats'', V_Int (int (length eligible))) # summary
           @ (''process_repeats'', V_Int (int (length rows)))
           # error_cells [(''check_max_abs_error'', errors)] @ detail_cells details
           @ (if length eligible \<noteq> length rows then status_cells (repeat_failure_status rows) else [])) base))))))))"

section \<open>The repeats of a worker\<close>

definition process_group_key :: "text_tables \<Rightarrow> report_row \<Rightarrow> report_exc + group_key" where
  "process_group_key tt row =
     (let blank = (\<lambda>f. if falsy (row_get row f) then V_Text [] else row_get row f) in
      bind_r (row_item row ''n'') (\<lambda>n.
      let m = (if falsy (row_get row ''m'') then n else row_get row ''m'');
          shape = (if falsy (row_get row ''shape'') then V_Text (pts ''sq'' @ value_text tt n) else row_get row ''shape'') in
      bind_r (row_items row [''case'', ''kind'']) (\<lambda>front.
      bind_r (row_item row ''metric'') (\<lambda>metric.
      Inr (front @ [shape, m, n] @ map blank [''storage'', ''lda'', ''k'', ''kl'', ''ku'', ''uplo'', ''trans'', ''diag'', ''incx'', ''incy'']
        @ [metric])))))"

definition add_worker_row :: "text_tables \<Rightarrow> report_row \<Rightarrow> (group_key \<times> report_row) list \<Rightarrow> report_exc + (group_key \<times> report_row) list" where
  "add_worker_row tt row current =
     bind_r (process_group_key tt row) (\<lambda>k.
     if map_of current k \<noteq> None then Inl (Value_Error ''duplicate worker row'') else Inr (current @ [(k, row)]))"

definition sorted_keys :: "group_key list \<Rightarrow> report_exc + group_key list" where
  "sorted_keys ks =
     (if list_all (\<lambda>g. list_all (comparable g) ks) ks then Inr (sort_key key_order (remdups ks)) else Inl Type_Error)"

definition aggregate_worker_repeats :: "text_tables \<Rightarrow> report_row list list \<Rightarrow> report_exc + report_row list" where
  "aggregate_worker_repeats tt repeat_rows =
     bind_r (map_r (\<lambda>rows. fold_r (add_worker_row tt) rows []) repeat_rows) (\<lambda>maps.
     bind_r (sorted_keys (concat (map (map fst) maps))) (\<lambda>keys.
     map_r (\<lambda>k. aggregate_repeat_group tt (map (\<lambda>current. map_of current k) maps)) keys))"

end
