(* ===== verification/Matrix_Gates.thy ===== *)
theory Matrix_Gates
  imports Report_Gate
begin

text \<open>
  The gates of the matrix reports: rank-k updates (\<open>bench/tools/check_rank_k_report.py\<close>), SYMM and HEMM
  (\<open>check_symm_report.py\<close>), TRMM and TRSM (\<open>check_triangular_matrix_report.py\<close>).  They share their scalar
  filters and their statistics, among them the median of the ratios of paired samples.
\<close>

section \<open>Scalars\<close>

definition scalar_pair :: "text_tables \<Rightarrow> points \<Rightarrow> report_exc + double \<times> double" where
  "scalar_pair tt t =
     (let parts = split_on 44 t in
      if length parts \<noteq> 1 \<and> length parts \<noteq> 2 then Inl (Value_Error ''scalar'')
      else bind_r (float_cell tt (V_Text (parts ! 0))) (\<lambda>re.
        bind_r (if length parts = 2 then float_cell tt (V_Text (parts ! 1)) else Inr (Fin 0)) (\<lambda>im. Inr (re, im))))"

definition row_scalar :: "text_tables \<Rightarrow> report_row \<Rightarrow> string \<Rightarrow> report_exc + double \<times> double" where
  "row_scalar tt row prefix_name =
     bind_r (row_item row (prefix_name @ ''_re'')) (\<lambda>re.
     bind_r (float_cell tt re) (\<lambda>re.
     bind_r (row_item row (prefix_name @ ''_im'')) (\<lambda>im.
     bind_r (float_cell tt im) (\<lambda>im. Inr (re, im)))))"

definition same_pair :: "double \<times> double \<Rightarrow> double \<times> double \<Rightarrow> bool" where
  "same_pair p q \<longleftrightarrow> feq (fst p) (fst q) \<and> feq (snd p) (snd q)"

definition scalar_allowed :: "text_tables \<Rightarrow> points list option \<Rightarrow> report_row \<Rightarrow> string \<Rightarrow> report_exc + bool" where
  "scalar_allowed tt chosen row prefix_name = (case chosen of
     None \<Rightarrow> Inr True
   | Some ts \<Rightarrow>
       bind_r (row_scalar tt row prefix_name) (\<lambda>s.
       bind_r (map_r (scalar_pair tt) ts) (\<lambda>ps. Inr (list_ex (same_pair s) ps))))"

text \<open>A \<open>ValueError\<close> of a scalar leaves the row out.\<close>

definition scalars_allowed :: "text_tables \<Rightarrow> (points list option \<times> string) list \<Rightarrow> report_row \<Rightarrow> report_exc + bool" where
  "scalars_allowed tt scalars row =
     (case fold_r (\<lambda>(chosen, name) ok. if \<not> ok then Inr False else scalar_allowed tt chosen row name) scalars True of
        Inl (Value_Error _) \<Rightarrow> Inr False | m \<Rightarrow> m)"

text \<open>The columns of the filters are all read before any is compared.\<close>

definition matrix_allowed ::
  "text_tables \<Rightarrow> (points list option \<times> string) list \<Rightarrow> (points list option \<times> string) list \<Rightarrow> report_row \<Rightarrow> report_exc + bool" where
  "matrix_allowed tt columns scalars row =
     bind_r (row_items row (map snd columns)) (\<lambda>cells.
     if list_ex (\<lambda>(chosen, v). excluded chosen v) (zip (map fst columns) cells) then Inr False
     else scalars_allowed tt scalars row)"

text \<open>\<open>normalize_negative_scalar_args\<close>: a negative scalar is joined to the flag before it, so that
  \<open>argparse\<close> does not read it as a flag.\<close>

fun normalize_negative_scalar_args :: "text_tables \<Rightarrow> points list \<Rightarrow> points list \<Rightarrow> points list" where
  "normalize_negative_scalar_args tt flags (v # scalar # rest) =
     (if v \<in> set flags \<and> starts_with scalar [45] \<and> is_ok (scalar_pair tt scalar)
      then (v @ [61] @ scalar) # normalize_negative_scalar_args tt flags rest
      else v # normalize_negative_scalar_args tt flags (scalar # rest))"
| "normalize_negative_scalar_args tt flags vs = vs"

section \<open>One row\<close>

definition matrix_metric :: "text_tables \<Rightarrow> statistic \<Rightarrow> report_row \<Rightarrow> report_exc + double" where
  "matrix_metric tt stat row =
     (let f = (case stat of Best \<Rightarrow> ''metric_max'' | Minimum \<Rightarrow> ''metric_min'' | _ \<Rightarrow> ''metric_median'') in
      if absent (row_get row f) then Inl (Key_Error f) else parse_positive_finite tt (row_get row f) f)"

definition matrix_metric_row ::
  "text_tables \<Rightarrow> statistic \<Rightarrow> (report_row \<Rightarrow> report_exc + group_key) \<Rightarrow> report_row \<Rightarrow> report_exc + group_key \<times> report_row" where
  "matrix_metric_row tt stat key row =
     bind_r (validate_optional_metric_evidence tt row) (\<lambda>_.
     bind_r (matrix_metric tt stat row) (\<lambda>d.
     let row = row(''metric_value'' \<mapsto> V_Float d) in
     bind_r (key row) (\<lambda>k. Inr (k, row))))"

text \<open>\<open>except KeyError\<close> around the filters.\<close>

definition refuse_missing :: "report_exc + 'a \<Rightarrow> gate_stop + 'a" where
  "refuse_missing m = (case m of
     Inl (Key_Error _) \<Rightarrow> Inl (Refused ''missing required parameters'') | Inl e \<Rightarrow> Inl (Uncaught e) | Inr x \<Rightarrow> Inr x)"

definition matrix_row ::
  "text_tables \<Rightarrow> statistic \<Rightarrow> (report_row \<Rightarrow> report_exc + bool) \<Rightarrow> (report_row \<Rightarrow> report_exc + group_key) \<Rightarrow> string list
    \<Rightarrow> gate_args \<Rightarrow> report_row \<Rightarrow> unit \<Rightarrow> gate_stop + unit \<times> selected option" where
  "matrix_row tt stat row_allowed key statuses a row u =
     bind_r (refuse_missing (row_allowed row)) (\<lambda>ok.
     if \<not> ok then Inr (u, None)
     else if \<not> ga_unchecked a \<and> \<not> (status_in row ''status'' [''ok''] \<and> status_in row ''check_status'' statuses)
     then if row_get row ''library'' = V_Text (ga_zynum a) then Inl (Refused ''unchecked row is not eligible'')
       else Inr (u, None)
     else bind_r (refuse_key ''bad metric or parameter value'' (matrix_metric_row tt stat key row)) (\<lambda>(k, row).
       bind_r (uncaught (row_item row ''library'')) (\<lambda>library. Inr (u, Some (k, library, row)))))"

definition matrix_compare :: "text_tables \<Rightarrow> statistic \<Rightarrow> report_row \<Rightarrow> report_row list \<Rightarrow> gate_stop + double \<times> report_row" where
  "matrix_compare tt stat z rows =
     (if stat = Paired then compare_paired tt z rows
      else compare_best (best_higher_row tt) tt ''metric_value'' z rows)"

definition matrix_rules ::
  "text_tables \<Rightarrow> statistic \<Rightarrow> (report_row \<Rightarrow> report_exc + bool) \<Rightarrow> (report_row \<Rightarrow> report_exc + group_key) \<Rightarrow> string list
    \<Rightarrow> gate_args \<Rightarrow> unit gate_rules" where
  "matrix_rules tt stat row_allowed key statuses a =
     \<lparr>gt_start = (), gt_row = matrix_row tt stat row_allowed key statuses a, gt_end = (\<lambda>_. Inr ()),
      gt_inspect = (\<lambda>_. Inr ()), gt_compare = matrix_compare tt stat, gt_alias = False, gt_latency = False\<rparr>"

section \<open>Rank-k updates\<close>

record rank_k_filter =
  rk_stat :: statistic
  rk_routine :: "points list option"
  rk_kind :: "points list option"
  rk_shape :: "points list option"
  rk_n :: "points list option"
  rk_k :: "points list option"
  rk_uplo :: "points list option"
  rk_trans :: "points list option"
  rk_alpha :: "points list option"
  rk_beta :: "points list option"

definition rank_k_allowed :: "text_tables \<Rightarrow> rank_k_filter \<Rightarrow> report_row \<Rightarrow> report_exc + bool" where
  "rank_k_allowed tt fl row =
     matrix_allowed tt
       [(rk_routine fl, ''routine''), (rk_kind fl, ''kind''), (rk_shape fl, ''shape''), (rk_n fl, ''n''),
        (rk_k fl, ''k''), (rk_uplo fl, ''uplo''), (rk_trans fl, ''trans'')]
       [(rk_alpha fl, ''alpha''), (rk_beta fl, ''beta'')] row"

definition rank_k_key :: "report_row \<Rightarrow> report_exc + group_key" where
  "rank_k_key row =
     bind_r (row_items row [''routine'', ''kind'', ''shape'', ''n'', ''k'', ''uplo'', ''trans'', ''alpha_re'',
       ''alpha_im'', ''beta_re'', ''beta_im'', ''lda'']) (\<lambda>front.
     bind_r (row_items row [''ldc'', ''reps'', ''process_repeats'', ''metric'']) (\<lambda>back.
     Inr (front @ [case row ''ldb'' of Some v \<Rightarrow> v | None \<Rightarrow> V_Text []] @ back)))"

definition rank_k_main :: "text_tables \<Rightarrow> rank_k_filter \<Rightarrow> gate_args \<Rightarrow> csv_input \<Rightarrow> gate_stop + gate_report" where
  "rank_k_main tt fl a input =
     run_gate tt (matrix_rules tt (rk_stat fl) (rank_k_allowed tt fl) rank_k_key [''sampled-ok'', ''checked-ok''] a) True a input"

section \<open>SYMM and HEMM\<close>

record symm_filter =
  sy_stat :: statistic
  sy_routine :: "points list option"
  sy_kind :: "points list option"
  sy_shape :: "points list option"
  sy_m :: "points list option"
  sy_n :: "points list option"
  sy_side :: "points list option"
  sy_uplo :: "points list option"
  sy_alpha :: "points list option"
  sy_beta :: "points list option"

definition symm_allowed :: "text_tables \<Rightarrow> symm_filter \<Rightarrow> report_row \<Rightarrow> report_exc + bool" where
  "symm_allowed tt fl row =
     matrix_allowed tt
       [(sy_routine fl, ''routine''), (sy_kind fl, ''kind''), (sy_shape fl, ''shape''), (sy_m fl, ''m''),
        (sy_n fl, ''n''), (sy_side fl, ''side''), (sy_uplo fl, ''uplo'')]
       [(sy_alpha fl, ''alpha''), (sy_beta fl, ''beta'')] row"

definition symm_key :: "report_row \<Rightarrow> report_exc + group_key" where
  "symm_key row = row_items row [''routine'', ''kind'', ''shape'', ''m'', ''n'', ''side'', ''uplo'', ''alpha_re'',
     ''alpha_im'', ''beta_re'', ''beta_im'', ''order'', ''lda'', ''ldb'', ''ldc'', ''reps'', ''process_repeats'', ''metric'']"

definition symm_rules :: "text_tables \<Rightarrow> symm_filter \<Rightarrow> gate_args \<Rightarrow> unit gate_rules" where
  "symm_rules tt fl a = matrix_rules tt (sy_stat fl) (symm_allowed tt fl) symm_key [''checked-ok''] a"

definition symm_main :: "text_tables \<Rightarrow> symm_filter \<Rightarrow> gate_args \<Rightarrow> csv_input \<Rightarrow> gate_stop + gate_report" where
  "symm_main tt fl a input = run_gate tt (symm_rules tt fl a) True a input"

section \<open>TRMM and TRSM\<close>

record triangular_filter =
  tr_stat :: statistic
  tr_routine :: "points list option"
  tr_family :: "points list option"
  tr_kind :: "points list option"
  tr_shape :: "points list option"
  tr_m :: "points list option"
  tr_n :: "points list option"
  tr_side :: "points list option"
  tr_uplo :: "points list option"
  tr_trans :: "points list option"
  tr_diag :: "points list option"
  tr_alpha :: "points list option"

definition triangular_allowed :: "text_tables \<Rightarrow> triangular_filter \<Rightarrow> report_row \<Rightarrow> report_exc + bool" where
  "triangular_allowed tt fl row =
     matrix_allowed tt
       [(tr_routine fl, ''routine''), (tr_family fl, ''family''), (tr_kind fl, ''kind''), (tr_shape fl, ''shape''),
        (tr_m fl, ''m''), (tr_n fl, ''n''), (tr_side fl, ''side''), (tr_uplo fl, ''uplo''),
        (tr_trans fl, ''trans''), (tr_diag fl, ''diag'')]
       [(tr_alpha fl, ''alpha'')] row"

definition triangular_key :: "report_row \<Rightarrow> report_exc + group_key" where
  "triangular_key row = row_items row [''routine'', ''family'', ''kind'', ''shape'', ''m'', ''n'', ''side'', ''uplo'',
     ''trans'', ''diag'', ''alpha_re'', ''alpha_im'', ''order'', ''lda'', ''ldb'', ''reps'', ''process_repeats'', ''metric'']"

definition triangular_main :: "text_tables \<Rightarrow> triangular_filter \<Rightarrow> gate_args \<Rightarrow> csv_input \<Rightarrow> gate_stop + gate_report" where
  "triangular_main tt fl a input =
     run_gate tt (matrix_rules tt (tr_stat fl) (triangular_allowed tt fl) triangular_key [''checked-ok''] a) True a input"

end
