(* ===== verification/Gemm_Gate.thy ===== *)
theory Gemm_Gate
  imports Report_Gate
begin

text \<open>
  The GEMM sweep gate (\<open>bench/tools/check_gemm_sweep.py\<close>): its filters, the throughput of a row, and the
  evidence of repeated processes that the whole file must agree on.
\<close>

record gemm_filter =
  gf_kind :: "points list option"
  gf_label :: "points list option"
  gf_trans :: "points list option"
  gf_stat :: statistic

text \<open>The argument of \<open>--trans\<close>; \<open>None\<close> is refused by \<open>argparse\<close>.\<close>

definition parse_transpose_spec :: "text_tables \<Rightarrow> points \<Rightarrow> points option" where
  "parse_transpose_spec tt t =
     (let pair = tt_upper tt t in
      if length pair \<noteq> 2 \<or> \<not> list_all (\<lambda>p. p \<in> set (pts ''NTC'')) pair then None else Some pair)"

definition transpose_fields :: "text_tables \<Rightarrow> report_row \<Rightarrow> points \<times> points" where
  "transpose_fields tt row =
     (tt_upper tt (text_cell (get_or row ''transa'' (pts ''N''))), tt_upper tt (text_cell (get_or row ''transb'' (pts ''N''))))"

definition gemm_key :: "text_tables \<Rightarrow> report_row \<Rightarrow> report_exc + group_key" where
  "gemm_key tt row =
     bind_r (row_item row ''kind'') (\<lambda>kind.
     bind_r (row_items row [''label'', ''m'', ''n'', ''k'']) (\<lambda>rest.
     let (transa, transb) = transpose_fields tt row in
     Inr (kind # V_Text transa # V_Text transb # rest)))"

definition gemm_allowed :: "text_tables \<Rightarrow> gemm_filter \<Rightarrow> report_row \<Rightarrow> report_exc + bool" where
  "gemm_allowed tt fl row =
     bind_r (column_allowed (gf_kind fl) row ''kind'') (\<lambda>kind.
     if \<not> kind then Inr False
     else bind_r (column_allowed (gf_label fl) row ''label'') (\<lambda>label.
       if \<not> label then Inr False
       else let (transa, transb) = transpose_fields tt row in
         Inr (\<not> excluded (gf_trans fl) (V_Text (transa @ transb)))))"

definition flop_factor :: "py_value \<Rightarrow> double" where
  "flop_factor kind = (if kind \<in> V_Text ` set (map pts [''cgemm'', ''zgemm'']) then Fin 8 else Fin 2)"

definition float_times :: "double \<Rightarrow> int \<Rightarrow> report_exc + double" where
  "float_times d n = bind_r (float_number (of_whole n)) (\<lambda>x. Inr (fmul d x))"

definition gemm_work :: "text_tables \<Rightarrow> report_row \<Rightarrow> report_exc + double" where
  "gemm_work tt row =
     bind_r (row_item row ''kind'') (\<lambda>kind.
     fold_r (\<lambda>f work. bind_r (row_item row f) (\<lambda>v. bind_r (int_cell tt v) (float_times work)))
       [''m'', ''n'', ''k''] (flop_factor kind))"

definition gflops_column :: "text_tables \<Rightarrow> report_row \<Rightarrow> report_exc + double" where
  "gflops_column tt row = bind_r (row_item row ''gflops'') (\<lambda>v. parse_positive_finite tt v ''gflops'')"

definition row_gflops :: "text_tables \<Rightarrow> report_row \<Rightarrow> statistic \<Rightarrow> report_exc + double" where
  "row_gflops tt row stat =
     (if stat = Best then gflops_column tt row
      else let timing_field = (if stat = Median then ''median_ns'' else ''max_ns'');
          timing_text = (if absent (row_get row timing_field) then row_get row ''best_ns'' else row_get row timing_field) in
        if absent timing_text then gflops_column tt row
        else bind_r (parse_positive_finite tt timing_text timing_field) (\<lambda>elapsed_ns.
          bind_r (case gemm_work tt row of
              Inl Overflow_Error \<Rightarrow> Inl (Value_Error ''GEMM work estimate overflowed'') | m \<Rightarrow> m) (\<lambda>work.
          bind_r (quotient work elapsed_ns) (\<lambda>q. parse_positive_finite tt (V_Float q) ''gflops''))))"

definition validate_optional_gemm_evidence :: "text_tables \<Rightarrow> report_row \<Rightarrow> report_exc + unit" where
  "validate_optional_gemm_evidence tt row =
     fold_r (optional_field tt row) [''gflops'', ''best_ns'', ''median_ns'', ''p95_ns'', ''max_ns''] ()"

definition row_process_repeats :: "text_tables \<Rightarrow> report_row \<Rightarrow> report_exc + int option" where
  "row_process_repeats tt row =
     (let v = row_get row ''process_repeats''; failure = Inl (Value_Error ''process_repeats must be a positive integer'') in
      if absent v then Inr None
      else case int_cell tt v of
        Inr repeats \<Rightarrow>
          if repeats < 1 \<or> pts (show_int repeats) \<noteq> py_strip (value_text tt v) then failure else Inr (Some repeats)
      | Inl (Value_Error _) \<Rightarrow> failure
      | Inl Type_Error \<Rightarrow> failure
      | Inl e \<Rightarrow> Inl e)"

text \<open>The repeat counts seen so far, and how many rows had none.\<close>

type_synonym repeat_state = "int list \<times> nat"

definition note_repeats :: "int option \<Rightarrow> repeat_state \<Rightarrow> repeat_state" where
  "note_repeats repeats = (\<lambda>(observed, without). case repeats of
     None \<Rightarrow> (observed, Suc without) | Some n \<Rightarrow> (List.insert n observed, without))"

definition gemm_metric_row :: "text_tables \<Rightarrow> gemm_filter \<Rightarrow> report_row \<Rightarrow> report_exc + selected" where
  "gemm_metric_row tt fl row =
     bind_r (validate_optional_gemm_evidence tt row) (\<lambda>_.
     bind_r (row_gflops tt row (gf_stat fl)) (\<lambda>d.
     let row = row(''gflops_value'' \<mapsto> V_Float d) in
     bind_r (gemm_key tt row) (\<lambda>k.
     bind_r (row_item row ''library'') (\<lambda>library.
     Inr (k, library, row)))))"

definition gemm_row :: "text_tables \<Rightarrow> gemm_filter \<Rightarrow> gate_args \<Rightarrow> report_row \<Rightarrow> repeat_state
    \<Rightarrow> gate_stop + repeat_state \<times> selected option" where
  "gemm_row tt fl a row s =
     bind_r (refuse_value ''bad process_repeats evidence'' (row_process_repeats tt row)) (\<lambda>repeats.
     let s = note_repeats repeats s in
     bind_r (uncaught (gemm_allowed tt fl row)) (\<lambda>allowed.
     if \<not> allowed then Inr (s, None)
     else if \<not> ga_unchecked a \<and> \<not> status_in row ''check'' [''sampled-ok'', ''checked-ok'']
     then Inl (Refused ''unchecked GEMM row'')
     else bind_r (refuse_evidence ''bad GFLOP/s value'' (gemm_metric_row tt fl row)) (\<lambda>c. Inr (s, Some c))))"

definition gemm_end :: "repeat_state \<Rightarrow> gate_stop + unit" where
  "gemm_end = (\<lambda>(observed, without).
     if observed \<noteq> [] \<and> without \<noteq> 0 then Inl (Refused ''partial process_repeats evidence'')
     else if length observed > 1 then Inl (Refused ''inconsistent process_repeats evidence'')
     else Inr ())"

definition gemm_rules :: "text_tables \<Rightarrow> gemm_filter \<Rightarrow> gate_args \<Rightarrow> repeat_state gate_rules" where
  "gemm_rules tt fl a =
     \<lparr>gt_start = ([], 0), gt_row = gemm_row tt fl a, gt_end = gemm_end, gt_inspect = (\<lambda>_. Inr ()),
      gt_compare = compare_best (best_higher_row tt) tt ''gflops_value'', gt_alias = True, gt_latency = False\<rparr>"

definition gemm_main :: "text_tables \<Rightarrow> gemm_filter \<Rightarrow> gate_args \<Rightarrow> csv_input \<Rightarrow> gate_stop + gate_report" where
  "gemm_main tt fl a input = run_gate tt (gemm_rules tt fl a) False a input"

end
