(* ===== verification/Level1_Gate.thy ===== *)
theory Level1_Gate
  imports Report_Gate
begin

text \<open>
  The Level 1 gate (\<open>bench/tools/check_level1_report.py\<close>): repeat evidence, operations that support negative
  strides, and the capability surface such rows must carry.
\<close>

record level1_filter =
  l1_stat :: statistic
  l1_expected :: "int option"
  l1_group :: "points list option"
  l1_op :: "points list option"
  l1_negative_only :: bool

definition stable_negative_ops :: "string list" where
  "stable_negative_ops = [''scopy'', ''dcopy'', ''ccopy'', ''zcopy'', ''sswap'', ''dswap'', ''cswap'', ''zswap'',
     ''saxpy'', ''daxpy'', ''caxpy'', ''zaxpy'', ''sdot'', ''ddot'', ''sdsdot'', ''dsdot'', ''cdotu'', ''zdotu'',
     ''cdotc'', ''zdotc'', ''srot'', ''drot'', ''csrot'', ''zdrot'', ''srotm'', ''drotm'']"

definition stable_op :: "py_value \<Rightarrow> bool" where
  "stable_op v \<longleftrightarrow> v \<in> V_Text ` set (map pts stable_negative_ops)"

definition parse_positive_integer :: "text_tables \<Rightarrow> py_value \<Rightarrow> string \<Rightarrow> report_exc + int" where
  "parse_positive_integer tt v f = canonical_integer f (value_text tt v)"

definition row_has_negative_stride :: "text_tables \<Rightarrow> report_row \<Rightarrow> report_exc + bool" where
  "row_has_negative_stride tt row =
     (case bind_r (int_cell tt (get_or row ''incx'' (pts ''1''))) (\<lambda>x.
         if x < 0 then Inr True
         else bind_r (int_cell tt (get_or row ''incy'' (pts ''1''))) (\<lambda>y. Inr (y < 0))) of
        Inl (Value_Error _) \<Rightarrow> Inr False | m \<Rightarrow> m)"

definition level1_key :: "report_row \<Rightarrow> report_exc + group_key" where
  "level1_key row =
     bind_r (row_items row [''group'', ''op'']) (\<lambda>front.
     bind_r (row_items row [''n'', ''metric'']) (\<lambda>back.
     Inr (front @ [get_or row ''variant'' (pts ''default''), get_or row ''incx'' (pts ''1''), get_or row ''incy'' (pts ''1'')] @ back)))"

definition level1_allowed :: "level1_filter \<Rightarrow> report_row \<Rightarrow> bool \<Rightarrow> report_exc + bool" where
  "level1_allowed fl row negative =
     bind_r (column_allowed (l1_group fl) row ''group'') (\<lambda>group_ok.
     if \<not> group_ok then Inr False
     else bind_r (column_allowed (l1_op fl) row ''op'') (\<lambda>op_ok.
       if \<not> op_ok then Inr False
       else if l1_negative_only fl \<and> \<not> negative then Inr False
       else if negative then bind_r (row_item row ''op'') (\<lambda>op. Inr (stable_op op))
       else Inr True))"

definition level1_metric :: "text_tables \<Rightarrow> statistic \<Rightarrow> report_row \<Rightarrow> report_exc + double" where
  "level1_metric tt stat row =
     (if stat \<noteq> Best then
        let f = (if stat = Median then ''metric_median'' else ''metric_min'') in
        if absent (row_get row f) then Inl (Key_Error f) else parse_positive_finite tt (row_get row f) f
      else bind_r (row_item row ''metric'') (\<lambda>metric.
        let f = (if metric = V_Text (pts ''bandwidth_gbps'') then ''bandwidth_gbps'' else ''rate_gops'') in
        bind_r (row_item row f) (\<lambda>v. parse_positive_finite tt v f)))"

definition validate_repeat_evidence :: "text_tables \<Rightarrow> int option \<Rightarrow> report_row \<Rightarrow> report_exc + unit" where
  "validate_repeat_evidence tt expected row =
     (case (row ''process_repeats'', row ''successful_repeats'') of
        (None, None) \<Rightarrow>
          if expected \<noteq> None then Inl (Value_Error ''legacy row has no process-repeat evidence'') else Inr ()
      | (Some p, Some s) \<Rightarrow>
          bind_r (parse_positive_integer tt p ''process_repeats'') (\<lambda>process_repeats.
          bind_r (parse_positive_integer tt s ''successful_repeats'') (\<lambda>successful_repeats.
          if successful_repeats \<noteq> process_repeats
          then Inl (Value_Error ''successful_repeats must equal process_repeats'')
          else if expected \<noteq> None \<and> Some process_repeats \<noteq> expected
          then Inl (Value_Error ''process_repeats is not the expected count'')
          else Inr ()))
      | _ \<Rightarrow> Inl (Value_Error ''process_repeats and successful_repeats must both be present or absent''))"

text \<open>What a row with a negative stride must show; \<open>None\<close> skips the row.\<close>

definition surface_check :: "gate_args \<Rightarrow> report_row \<Rightarrow> gate_stop + unit option" where
  "surface_check a row =
     (let probe = (row_get row ''symbol'', row_get row ''abi_surface'');
        preflight = (row_get row ''preflight_symbol'', row_get row ''preflight_abi_surface'') in
      if row_get row ''capability_status'' \<noteq> V_Text (pts ''supported'') \<or> absent (fst probe) \<or> absent (snd probe)
        \<or> absent (fst preflight) \<or> absent (snd preflight)
      then if row_get row ''library'' \<noteq> V_Text (ga_zynum a) then Inr None
        else Inl (Refused ''negative-stride row lacks a supported capability surface'')
      else if probe \<noteq> preflight then Inl (Refused ''negative-stride probe/preflight surface mismatch'')
      else Inr (Some ()))"

definition level1_metric_row :: "text_tables \<Rightarrow> level1_filter \<Rightarrow> report_row \<Rightarrow> report_exc + selected" where
  "level1_metric_row tt fl row =
     bind_r (validate_optional_metric_evidence tt row) (\<lambda>_.
     bind_r (level1_metric tt (l1_stat fl) row) (\<lambda>d.
     let row = row(''metric_value'' \<mapsto> V_Float d) in
     bind_r (level1_key row) (\<lambda>k.
     bind_r (row_item row ''library'') (\<lambda>library. Inr (k, library, row)))))"

definition level1_checked :: "text_tables \<Rightarrow> level1_filter \<Rightarrow> gate_args \<Rightarrow> report_row \<Rightarrow> gate_stop + selected option" where
  "level1_checked tt fl a row =
     (if \<not> ga_unchecked a \<and> (\<not> status_in row ''check_status'' [''sampled-ok'', ''checked-ok''] \<or> \<not> status_in row ''status'' [''ok''])
      then if row_get row ''library'' \<noteq> V_Text (ga_zynum a) then Inr None
        else Inl (Refused ''unchecked Level 1 row'')
      else bind_r (refuse_key ''bad metric value'' (level1_metric_row tt fl row)) (\<lambda>c. Inr (Some c)))"

text \<open>The state counts the rows left out for an unsupported negative stride.\<close>

definition level1_row :: "text_tables \<Rightarrow> level1_filter \<Rightarrow> gate_args \<Rightarrow> report_row \<Rightarrow> nat \<Rightarrow> gate_stop + nat \<times> selected option" where
  "level1_row tt fl a row n =
     bind_r (uncaught (row_has_negative_stride tt row)) (\<lambda>negative.
     let n = (if negative \<and> \<not> stable_op (row_get row ''op'') then Suc n else n) in
     bind_r (refuse_value ''bad repeat evidence'' (validate_repeat_evidence tt (l1_expected fl) row)) (\<lambda>_.
     bind_r (uncaught (level1_allowed fl row negative)) (\<lambda>allowed.
     if \<not> allowed then Inr (n, None)
     else bind_r (if negative then surface_check a row else Inr (Some ())) (\<lambda>surface.
       if surface = None then Inr (n, None)
       else bind_r (level1_checked tt fl a row) (\<lambda>c. Inr (n, c))))))"

definition level1_rules :: "text_tables \<Rightarrow> level1_filter \<Rightarrow> gate_args \<Rightarrow> nat gate_rules" where
  "level1_rules tt fl a =
     \<lparr>gt_start = 0, gt_row = level1_row tt fl a, gt_end = (\<lambda>_. Inr ()), gt_inspect = (\<lambda>_. Inr ()),
      gt_compare = compare_best (best_higher_row tt) tt ''metric_value'', gt_alias = True, gt_latency = False\<rparr>"

definition level1_main :: "text_tables \<Rightarrow> level1_filter \<Rightarrow> gate_args \<Rightarrow> csv_input \<Rightarrow> gate_stop + gate_report" where
  "level1_main tt fl a input = run_gate tt (level1_rules tt fl a) False a input"

end
