(* ===== verification/Level2_Gate.thy ===== *)
theory Level2_Gate
  imports Report_Gate
begin

text \<open>
  The Level 2 gate (\<open>bench/tools/check_level2_report.py\<close>): sixteen filters, the counts of fresh-process
  evidence of every row, and their agreement within a group.
\<close>

record level2_filter =
  l2_stat :: statistic
  l2_case :: "points list option"
  l2_kind :: "points list option"
  l2_shape :: "points list option"
  l2_m :: "points list option"
  l2_n :: "points list option"
  l2_storage :: "points list option"
  l2_lda :: "points list option"
  l2_k :: "points list option"
  l2_kl :: "points list option"
  l2_ku :: "points list option"
  l2_uplo :: "points list option"
  l2_trans :: "points list option"
  l2_diag :: "points list option"
  l2_incx :: "points list option"
  l2_incy :: "points list option"

definition shape_fields :: "text_tables \<Rightarrow> report_row \<Rightarrow> report_exc + py_value \<times> py_value \<times> py_value" where
  "shape_fields tt row =
     bind_r (row_item row ''n'') (\<lambda>n.
     let m = (if absent (row_get row ''m'') then n else row_get row ''m'');
       shape = (if absent (row_get row ''shape'') then V_Text (pts ''sq'' @ value_text tt n) else row_get row ''shape'') in
     Inr (shape, m, n))"

definition operation_fields :: "report_row \<Rightarrow> py_value list" where
  "operation_fields row =
     map (\<lambda>f. get_or row f []) [''storage'', ''lda'', ''k'', ''kl'', ''ku'', ''uplo'', ''trans'', ''diag'', ''incx'', ''incy'']"

definition level2_key :: "text_tables \<Rightarrow> report_row \<Rightarrow> report_exc + group_key" where
  "level2_key tt row =
     bind_r (shape_fields tt row) (\<lambda>(shape, m, n).
     bind_r (row_items row [''case'', ''kind'']) (\<lambda>front.
     bind_r (row_item row ''metric'') (\<lambda>metric.
     Inr (front @ [shape, m, n] @ operation_fields row @ [metric]))))"

definition operation_filters :: "level2_filter \<Rightarrow> points list option list" where
  "operation_filters fl = [l2_storage fl, l2_lda fl, l2_k fl, l2_kl fl, l2_ku fl, l2_uplo fl, l2_trans fl, l2_diag fl, l2_incx fl, l2_incy fl]"

definition level2_allowed :: "text_tables \<Rightarrow> level2_filter \<Rightarrow> report_row \<Rightarrow> report_exc + bool" where
  "level2_allowed tt fl row =
     bind_r (shape_fields tt row) (\<lambda>(shape, m, n).
     bind_r (column_allowed (l2_case fl) row ''case'') (\<lambda>case_ok.
     if \<not> case_ok then Inr False
     else bind_r (column_allowed (l2_kind fl) row ''kind'') (\<lambda>kind_ok.
       if \<not> kind_ok then Inr False
       else Inr (\<not> excluded (l2_shape fl) shape \<and> \<not> excluded (l2_m fl) m \<and> \<not> excluded (l2_n fl) n
         \<and> list_all (\<lambda>(chosen, v). \<not> excluded chosen v) (zip (operation_filters fl) (operation_fields row))))))"

definition level2_metric :: "text_tables \<Rightarrow> statistic \<Rightarrow> report_row \<Rightarrow> report_exc + double" where
  "level2_metric tt stat row =
     (if stat \<noteq> Best then
        let f = (if stat = Median then ''metric_median'' else ''metric_min'') in
        if absent (row_get row f) then Inl (Key_Error f) else parse_positive_finite tt (row_get row f) f
      else bind_r (row_item row ''rate_gops'') (\<lambda>v. parse_positive_finite tt v ''rate_gops''))"

definition positive_integer :: "text_tables \<Rightarrow> report_row \<Rightarrow> string \<Rightarrow> report_exc + int" where
  "positive_integer tt row f =
     canonical_integer f (if row_get row f = V_None then [] else value_text tt (row_get row f))"

text \<open>\<open>process_repeats\<close>, \<open>successful_repeats\<close> and the number of samples.\<close>

definition evidence_cardinality :: "text_tables \<Rightarrow> report_row \<Rightarrow> report_exc + int \<times> int \<times> nat" where
  "evidence_cardinality tt row =
     (if list_ex (\<lambda>f. absent (row_get row f)) [''process_repeats'', ''successful_repeats'', ''metric_samples'']
      then Inl (Value_Error ''Level 2 gate requires process_repeats, successful_repeats, and metric_samples'')
      else bind_r (positive_integer tt row ''process_repeats'') (\<lambda>process_repeats.
        bind_r (positive_integer tt row ''successful_repeats'') (\<lambda>successful_repeats.
        bind_r (metric_samples tt row) (\<lambda>samples.
        if successful_repeats \<noteq> process_repeats then Inl (Value_Error ''successful_repeats'')
        else if int (length samples) \<noteq> successful_repeats then Inl (Value_Error ''metric_samples count'')
        else Inr (process_repeats, successful_repeats, length samples)))))"

definition level2_metric_row :: "text_tables \<Rightarrow> level2_filter \<Rightarrow> report_row \<Rightarrow> report_exc + selected" where
  "level2_metric_row tt fl row =
     bind_r (validate_optional_metric_evidence tt row) (\<lambda>_.
     bind_r (evidence_cardinality tt row) (\<lambda>_.
     bind_r (level2_metric tt (l2_stat fl) row) (\<lambda>d.
     let row = row(''metric_value'' \<mapsto> V_Float d) in
     bind_r (level2_key tt row) (\<lambda>k.
     bind_r (row_item row ''library'') (\<lambda>library. Inr (k, library, row))))))"

definition level2_row :: "text_tables \<Rightarrow> level2_filter \<Rightarrow> gate_args \<Rightarrow> report_row \<Rightarrow> unit \<Rightarrow> gate_stop + unit \<times> selected option" where
  "level2_row tt fl a row u =
     bind_r (uncaught (level2_allowed tt fl row)) (\<lambda>allowed.
     if \<not> allowed then Inr (u, None)
     else if \<not> ga_unchecked a \<and> (\<not> status_in row ''check_status'' [''sampled-ok'', ''checked-ok''] \<or> \<not> status_in row ''status'' [''ok''])
     then if row_get row ''library'' \<noteq> V_Text (ga_zynum a) then Inr (u, None)
       else Inl (Refused ''unchecked Level 2 row'')
     else bind_r (refuse_key ''bad metric or cardinality evidence'' (level2_metric_row tt fl row)) (\<lambda>c. Inr (u, Some c)))"

text \<open>The libraries of a group in order, each with the cardinality of its row; reading it again from the
  stored row gives what was stored beside it.\<close>

definition same_cardinality :: "text_tables \<Rightarrow> group \<Rightarrow> gate_stop + unit" where
  "same_cardinality tt by_library =
     (if \<not> list_all (\<lambda>(l, _). list_all (\<lambda>(l', _). comparable [l] [l']) by_library) by_library
      then Inl (Uncaught Type_Error)
      else bind_r (refuse_key ''cardinality'' (map_r (\<lambda>(_, row). evidence_cardinality tt row) (sort_key (\<lambda>(l, _). text_cell l) by_library)))
        (\<lambda>cs. case cs of
           [] \<Rightarrow> Inr ()
         | expected # others \<Rightarrow>
             if list_all (\<lambda>c. c = expected) others then Inr () else Inl (Refused ''inconsistent evidence cardinality'')))"

definition level2_rules :: "text_tables \<Rightarrow> level2_filter \<Rightarrow> gate_args \<Rightarrow> unit gate_rules" where
  "level2_rules tt fl a =
     \<lparr>gt_start = (), gt_row = level2_row tt fl a, gt_end = (\<lambda>_. Inr ()), gt_inspect = same_cardinality tt,
      gt_compare = compare_best (best_higher_row tt) tt ''metric_value'', gt_alias = True, gt_latency = False\<rparr>"

definition level2_main :: "text_tables \<Rightarrow> level2_filter \<Rightarrow> gate_args \<Rightarrow> csv_input \<Rightarrow> gate_stop + gate_report" where
  "level2_main tt fl a input = run_gate tt (level2_rules tt fl a) False a input"

end
