(* ===== verification/Report_Gate_Correct.thy ===== *)
theory Report_Gate_Correct
  imports Gemm_Gate Level1_Gate Level2_Gate Matrix_Gates Latency_Gate
begin

text \<open>
  What a report gate decides.  A gate compares with one comparator only, the fastest; the locale
  \<open>gate_contract\<close> states when this one comparison stands for all of them, and every gate of the
  tools interprets it.
\<close>

section \<open>The rows a gate selects\<close>

definition select_item :: "'s gate_rules \<Rightarrow> csv_item \<Rightarrow> 's \<times> selected list \<Rightarrow> gate_stop + 's \<times> selected list" where
  "select_item g item = (\<lambda>(s, sel). case item of
     Csv_Failure \<Rightarrow> Inl Reader_Failure
   | Csv_Row row \<Rightarrow>
       bind_r (gt_row g row s) (\<lambda>(s, chosen). Inr (s, sel @ (case chosen of None \<Rightarrow> [] | Some c \<Rightarrow> [c]))))"

definition selected_rows :: "'s gate_rules \<Rightarrow> csv_item list \<Rightarrow> gate_stop + selected list" where
  "selected_rows g items = bind_r (fold_r (select_item g) items (gt_start g, [])) (\<lambda>(_, sel). Inr sel)"

definition rows_with :: "selected list \<Rightarrow> group_key \<Rightarrow> group" where
  "rows_with sel k = map snd (filter (\<lambda>c. fst c = k) sel)"

text \<open>The groups are exactly the selected rows by their key.\<close>

definition grouped :: "(group_key \<times> group) list \<Rightarrow> selected list \<Rightarrow> bool" where
  "grouped gs sel \<longleftrightarrow> distinct (map fst gs)
     \<and> (\<forall>k. map_of gs k = (if k \<in> fst ` set sel then Some (rows_with sel k) else None))"

lemma rows_with_append: "rows_with (sel @ [c]) k = rows_with sel k @ (if fst c = k then [snd c] else [])"
  by (simp add: rows_with_def)

lemma group_at_grouped: "grouped gs sel \<Longrightarrow> group_at gs k = rows_with sel k"
  by (auto simp: grouped_def group_at_def rows_with_def filter_empty_conv image_iff)

lemma add_selected_grouped:
  assumes "grouped gs sel" "add_selected c gs = Inr gs'"
  shows "grouped gs' (sel @ [c])"
proof -
  obtain k l r where c: "c = (k, l, r)" by (cases c) auto
  have gs': "gs' = AList.update k (rows_with sel k @ [(l, r)]) gs"
    using assms(2) by (simp add: add_selected_def c Let_def group_at_grouped[OF assms(1)] split: if_splits)
  show ?thesis unfolding grouped_def
  proof (intro conjI allI)
    show "distinct (map fst gs')" using assms(1) unfolding gs' grouped_def by (intro distinct_update) simp
    fix k'
    show "map_of gs' k' = (if k' \<in> fst ` set (sel @ [c]) then Some (rows_with (sel @ [c]) k') else None)"
      using assms(1) unfolding gs' grouped_def by (auto simp: update_conv' rows_with_append c)
  qed
qed

lemma collect_selected:
  assumes "fold_r (read_item g) items (s, gs) = Inr (s', gs')" "grouped gs sel"
  shows "\<exists>sel'. fold_r (select_item g) items (s, sel) = Inr (s', sel') \<and> grouped gs' sel'"
  using assms
proof (induction items arbitrary: s gs sel)
  case (Cons item items)
  obtain s1 gs1 where r: "read_item g item (s, gs) = Inr (s1, gs1)" "fold_r (read_item g) items (s1, gs1) = Inr (s', gs')"
    using Cons.prems(1) by (auto simp: bind_r_eq_Inr)
  then obtain row chosen where row: "item = Csv_Row row" "gt_row g row s = Inr (s1, chosen)"
    by (auto simp: read_item_def bind_r_eq_Inr split: csv_item.splits option.splits)
  have "\<exists>sel1. select_item g item (s, sel) = Inr (s1, sel1) \<and> grouped gs1 sel1"
  proof (cases chosen)
    case None
    then show ?thesis using r(1) row Cons.prems(2) by (simp add: read_item_def select_item_def)
  next
    case (Some c)
    then have "add_selected c gs = Inr gs1" using r(1) row by (simp add: read_item_def bind_r_eq_Inr)
    from add_selected_grouped[OF Cons.prems(2) this] show ?thesis using row Some by (simp add: select_item_def)
  qed
  then obtain sel1 where "select_item g item (s, sel) = Inr (s1, sel1)" "grouped gs1 sel1" by blast
  then show ?case using Cons.IH[OF r(2)] by simp
qed simp

lemma collect_groups_selected:
  assumes "collect_groups g items = Inr gs"
  obtains sel where "selected_rows g items = Inr sel" "grouped gs sel"
proof -
  obtain s where f: "fold_r (read_item g) items (gt_start g, []) = Inr (s, gs)"
    using assms by (auto simp: collect_groups_def bind_r_eq_Inr)
  have "grouped [] []" by (simp add: grouped_def)
  from collect_selected[OF f this] obtain sel where
    "fold_r (select_item g) items (gt_start g, []) = Inr (s, sel)" "grouped gs sel" by blast
  then show thesis using that by (simp add: selected_rows_def)
qed

lemma selected_rows_invariant:
  assumes "selected_rows g items = Inr sel"
    and "\<And>row s s' k l r. gt_row g row s = Inr (s', Some (k, l, r)) \<Longrightarrow> P r"
  shows "\<forall>(k, l, r) \<in> set sel. P r"
proof -
  obtain s where f: "fold_r (select_item g) items (gt_start g, []) = Inr (s, sel)"
    using assms(1) by (auto simp: selected_rows_def bind_r_eq_Inr)
  have "\<forall>c \<in> set (snd (s, sel)). P (snd (snd c))"
  proof (rule fold_r_invariant[OF f, where I = "\<lambda>st. \<forall>c \<in> set (snd st). P (snd (snd c))"])
    fix item st st'
    assume I: "\<forall>c \<in> set (snd st). P (snd (snd c))" and r: "select_item g item st = Inr st'"
    obtain s sel where st: "st = (s, sel)" by (cases st)
    from r obtain row s' chosen where "gt_row g row s = Inr (s', chosen)"
      "st' = (s', sel @ (case chosen of None \<Rightarrow> [] | Some c \<Rightarrow> [c]))"
      by (auto simp: st select_item_def bind_r_eq_Inr split: csv_item.splits)
    then show "\<forall>c \<in> set (snd st'). P (snd (snd c))"
      using I assms(2) unfolding st by (cases chosen) auto
  qed simp
  then show ?thesis by auto
qed

section \<open>The exit code\<close>

text \<open>A group passes when the library under test and, unless missing ones are skipped, a comparator are
  there, and the verdict holds against every comparator.\<close>

definition group_passes :: "'s gate_rules \<Rightarrow> gate_args \<Rightarrow> (report_row \<Rightarrow> report_row \<Rightarrow> bool) \<Rightarrow> group \<Rightarrow> bool" where
  "group_passes g a verdict by_library = (case zynum_row g a by_library of
     None \<Rightarrow> False
   | Some z \<Rightarrow> if comparator_rows a by_library = [] then ga_skip_missing a
       else list_all (verdict z) (comparator_rows a by_library))"

definition group_compared :: "'s gate_rules \<Rightarrow> gate_args \<Rightarrow> group \<Rightarrow> bool" where
  "group_compared g a by_library \<longleftrightarrow> zynum_row g a by_library \<noteq> None \<and> comparator_rows a by_library \<noteq> []"

definition gate_accepts :: "'s gate_rules \<Rightarrow> gate_args \<Rightarrow> (report_row \<Rightarrow> report_row \<Rightarrow> bool) \<Rightarrow> selected list \<Rightarrow> bool" where
  "gate_accepts g a verdict sel \<longleftrightarrow>
     list_ex (\<lambda>k. group_compared g a (rows_with sel k)) (map fst sel)
     \<and> list_all (\<lambda>k. group_passes g a verdict (rows_with sel k)) (map fst sel)"

lemma zynum_row_in: "zynum_row g a by_library = Some z \<Longrightarrow> z \<in> snd ` set by_library"
  by (force simp: zynum_row_def dest: map_of_SomeD split: option.splits if_splits)

lemma comparator_rows_in: "c \<in> set (comparator_rows a by_library) \<Longrightarrow> c \<in> snd ` set by_library"
  by (force simp: comparator_rows_def List.map_filter_def dest: map_of_SomeD)

lemma conclude_code: "gr_code (conclude g a t) = 0 \<longleftrightarrow> ta_checked t \<noteq> 0 \<and> ta_failures t = [] \<and> ta_missing t = []"
proof -
  have *: "sort_key f xs = [] \<longleftrightarrow> xs = []" for f and xs :: "'b list" by (metis length_0_conv length_sort)
  show ?thesis by (simp add: conclude_def Let_def *)
qed

locale gate_contract =
  fixes g :: "'s gate_rules" and a :: gate_args
    and admissible :: "report_row \<Rightarrow> bool" and verdict :: "report_row \<Rightarrow> report_row \<Rightarrow> bool"
  assumes selected_admissible: "gt_row g row s = Inr (s', Some (k, l, r)) \<Longrightarrow> admissible r"
    and compare_exact: "admissible z \<Longrightarrow> list_all admissible rows \<Longrightarrow> rows \<noteq> []
      \<Longrightarrow> gt_compare g z rows = Inr (ratio, best) \<Longrightarrow> beaten g a ratio \<longleftrightarrow> \<not> list_all (verdict z) rows"
begin

lemma judge_group_exact:
  assumes "judge_group g a (k, by_library) t = Inr t'" "\<forall>r \<in> snd ` set by_library. admissible r"
  shows "ta_checked t' = 0 \<longleftrightarrow> ta_checked t = 0 \<and> \<not> group_compared g a by_library"
    "ta_failures t' = [] \<and> ta_missing t' = [] \<longleftrightarrow> ta_failures t = [] \<and> ta_missing t = [] \<and> group_passes g a verdict by_library"
proof -
  let ?rows = "comparator_rows a by_library"
  have "(ta_checked t' = 0 \<longleftrightarrow> ta_checked t = 0 \<and> \<not> group_compared g a by_library)
    \<and> (ta_failures t' = [] \<and> ta_missing t' = [] \<longleftrightarrow> ta_failures t = [] \<and> ta_missing t = [] \<and> group_passes g a verdict by_library)"
  proof (cases "zynum_row g a by_library")
    case None
    then show ?thesis using assms(1) by (auto simp: judge_group_def bind_r_eq_Inr group_compared_def group_passes_def)
  next
    case (Some z)
    show ?thesis
    proof (cases "?rows = []")
      case True
      then show ?thesis using assms(1) Some
        by (auto simp: judge_group_def bind_r_eq_Inr group_compared_def group_passes_def split: if_splits)
    next
      case False
      then obtain ratio best where c: "gt_compare g z ?rows = Inr (ratio, best)"
        "t' = (let t = t\<lparr>ta_checked := Suc (ta_checked t)\<rparr> in
            if beaten g a ratio then t\<lparr>ta_failures := ta_failures t @ [(ratio, k, z, best)]\<rparr> else t)"
        using assms(1) Some by (auto simp: judge_group_def bind_r_eq_Inr Let_def split: if_splits)
      have "admissible z" using zynum_row_in[OF Some] assms(2) by blast
      moreover have "list_all admissible ?rows" using comparator_rows_in assms(2) by (fastforce simp: list_all_iff)
      ultimately have "beaten g a ratio \<longleftrightarrow> \<not> list_all (verdict z) ?rows" using compare_exact[OF _ _ False c(1)] by blast
      then show ?thesis using c(2) Some False by (auto simp: Let_def group_compared_def group_passes_def)
    qed
  qed
  then show "ta_checked t' = 0 \<longleftrightarrow> ta_checked t = 0 \<and> \<not> group_compared g a by_library"
    "ta_failures t' = [] \<and> ta_missing t' = [] \<longleftrightarrow> ta_failures t = [] \<and> ta_missing t = [] \<and> group_passes g a verdict by_library"
    by blast+
qed

lemma judge_fold_exact:
  assumes "fold_r (judge_group g a) gs t = Inr t'" "\<forall>(k, by_library) \<in> set gs. \<forall>r \<in> snd ` set by_library. admissible r"
  shows "(ta_checked t' = 0 \<longleftrightarrow> ta_checked t = 0 \<and> \<not> list_ex (\<lambda>(_, b). group_compared g a b) gs)
    \<and> (ta_failures t' = [] \<and> ta_missing t' = [] \<longleftrightarrow>
        ta_failures t = [] \<and> ta_missing t = [] \<and> list_all (\<lambda>(_, b). group_passes g a verdict b) gs)"
  using assms
proof (induction gs arbitrary: t)
  case (Cons x gs)
  obtain k b t1 where x: "x = (k, b)" "judge_group g a (k, b) t = Inr t1" "fold_r (judge_group g a) gs t1 = Inr t'"
    using Cons.prems(1) by (cases x) (auto simp: bind_r_eq_Inr)
  have b: "\<forall>r \<in> snd ` set b. admissible r" using Cons.prems(2) unfolding x(1) by simp
  have "(ta_checked t' = 0 \<longleftrightarrow> ta_checked t1 = 0 \<and> \<not> list_ex (\<lambda>(_, b). group_compared g a b) gs)
    \<and> (ta_failures t' = [] \<and> ta_missing t' = [] \<longleftrightarrow>
        ta_failures t1 = [] \<and> ta_missing t1 = [] \<and> list_all (\<lambda>(_, b). group_passes g a verdict b) gs)"
    by (rule Cons.IH[OF x(3)]) (use Cons.prems(2) in simp)
  then show ?case using judge_group_exact[OF x(2) b] unfolding x(1) by simp blast
qed simp

text \<open>The exit code is zero exactly when the selected rows pass.\<close>

lemma gate_exact:
  assumes "collect_groups g items = Inr gs" "judge_groups g a gs = Inr report"
  shows "\<exists>sel. selected_rows g items = Inr sel \<and> (gr_code report = 0 \<longleftrightarrow> gate_accepts g a verdict sel)"
proof -
  obtain sel where sel: "selected_rows g items = Inr sel" "grouped gs sel" by (rule collect_groups_selected[OF assms(1)])
  obtain hs t where h: "sorted_groups gs = Inr hs" "fold_r (judge_group g a) hs empty_tally = Inr t" "report = conclude g a t"
    using assms(2) by (auto simp: judge_groups_def bind_r_eq_Inr)
  have hs: "set hs = set gs" using h(1) by (auto simp: sorted_groups_def split: if_splits)
  have m: "(k, b) \<in> set gs \<longleftrightarrow> k \<in> fst ` set sel \<and> b = rows_with sel k" for k b
    using sel(2) map_of_eq_Some_iff[of gs k b] by (auto simp: grouped_def split: if_splits)
  have adm: "\<forall>(k, l, r) \<in> set sel. admissible r" by (rule selected_rows_invariant[OF sel(1) selected_admissible])
  have "\<forall>(k, b) \<in> set hs. \<forall>r \<in> snd ` set b. admissible r"
    unfolding hs using adm by (auto simp: m rows_with_def) blast
  from judge_fold_exact[OF h(2) this]
  have "gr_code report = 0 \<longleftrightarrow> list_ex (\<lambda>(_, b). group_compared g a b) hs \<and> list_all (\<lambda>(_, b). group_passes g a verdict b) hs"
    unfolding h(3) conclude_code by (simp add: empty_tally_def)
  also have "\<dots> \<longleftrightarrow> gate_accepts g a verdict sel"
  proof -
    have "set gs = (\<lambda>k. (k, rows_with sel k)) ` fst ` set sel" by (rule set_eqI, rule iffI; use m in force)
    then show ?thesis by (simp add: gate_accepts_def list_ex_iff list_all_iff hs)
  qed
  finally show ?thesis using sel(1) by blast
qed

end

section \<open>The fastest comparator decides\<close>

lemma first_least_least:
  "first_least b xs \<in> set (b # xs) \<and> (\<forall>x \<in> set (b # xs). fst (first_least b xs) \<le> fst x)"
proof (induction xs arbitrary: b)
  case (Cons x xs)
  show ?case using Cons.IH[of "if fst x < fst b then x else b"] by (auto split: if_splits)
qed simp

lemma min_item_least:
  assumes "min_item items = Inr p"
  shows "p \<in> set items" "q \<in> set items \<Longrightarrow> fst p \<le> fst q"
  using assms first_least_least[of "hd items" "tl items"] by (auto simp: min_item_def split: list.splits)

lemma map_r_members:
  assumes "map_r f xs = Inr ys"
  shows "y \<in> set ys \<Longrightarrow> \<exists>x \<in> set xs. f x = Inr y" "x \<in> set xs \<Longrightarrow> \<exists>y \<in> set ys. f x = Inr y"
  using assms unfolding map_r_eq_Inr list_all2_conv_all_nth by (metis in_set_conv_nth)+

definition has_metric :: "string \<Rightarrow> report_row \<Rightarrow> bool" where
  "has_metric f row \<longleftrightarrow> (\<exists>x. row f = Some (V_Float (Fin x)) \<and> 0 < x)"

definition metric_of :: "string \<Rightarrow> report_row \<Rightarrow> double" where
  "metric_of f row = (case row f of Some (V_Float d) \<Rightarrow> d | _ \<Rightarrow> Nan)"

lemma has_metricE:
  assumes "has_metric f row"
  obtains x where "row f = Some (V_Float (Fin x))" "0 < x" "metric_of f row = Fin x"
  using assms by (auto simp: has_metric_def metric_of_def)

lemma metric_key_Inr:
  assumes "has_metric f row" "metric_key tt f s row = Inr item"
  shows "fst (fst item) = s * number (metric_of f row)" "snd item = row"
proof -
  obtain x where x: "row f = Some (V_Float (Fin x))" "0 < x" "metric_of f row = Fin x" using assms(1) by (rule has_metricE)
  show "fst (fst item) = s * number (metric_of f row)" "snd item = row"
    using assms(2) x by (auto simp: metric_key_def row_item_def parse_positive_float)
qed

lemma metric_pick:
  assumes "list_all (has_metric f) rows"
    and "bind_r (map_r (metric_key tt f s) rows) (\<lambda>items. bind_r (min_item items) (\<lambda>(_, row). Inr row)) = Inr best"
  shows "best \<in> set rows" "c \<in> set rows \<Longrightarrow> s * number (metric_of f best) \<le> s * number (metric_of f c)"
proof -
  obtain items key where i: "map_r (metric_key tt f s) rows = Inr items" "min_item items = Inr (key, best)"
    using assms(2) by (auto simp: bind_r_eq_Inr)
  obtain row where row: "row \<in> set rows" "metric_key tt f s row = Inr (key, best)"
    using map_r_members(1)[OF i(1) min_item_least(1)[OF i(2)]] by blast
  have h: "has_metric f r" if "r \<in> set rows" for r using assms(1) that by (simp add: list_all_iff)
  note b = metric_key_Inr[OF h[OF row(1)] row(2), simplified]
  show "best \<in> set rows" using row(1) b(2) by simp
  assume c: "c \<in> set rows"
  obtain item where item: "item \<in> set items" "metric_key tt f s c = Inr item" using map_r_members(2)[OF i(1) c] by blast
  have "key \<le> fst item" using min_item_least(2)[OF i(2) item(1)] by simp
  then have "fst key \<le> fst (fst item)" by (auto simp: less_eq_prod_def)
  then show "s * number (metric_of f best) \<le> s * number (metric_of f c)"
    using b metric_key_Inr[OF h[OF c] item(2)] by simp
qed

lemmas best_row_pick = metric_pick[where s = "- 1", folded best_higher_row_def] metric_pick[where s = 1, folded best_lower_row_def]

lemma fless_mono: "fless_eq r q \<Longrightarrow> fless q limit \<Longrightarrow> fless r limit"
  by (cases r; cases q; cases limit) (auto simp: fless_def)

lemma fless_mono2: "fless_eq q r \<Longrightarrow> fless limit q \<Longrightarrow> fless limit r"
  by (cases r; cases q; cases limit) (auto simp: fless_def)

definition ratio_holds :: "'s gate_rules \<Rightarrow> gate_args \<Rightarrow> string \<Rightarrow> report_row \<Rightarrow> report_row \<Rightarrow> bool" where
  "ratio_holds g a f z c = (case fdiv (metric_of f z) (metric_of f c) of Some q \<Rightarrow> \<not> beaten g a q | None \<Rightarrow> False)"

lemma refuse_Inr [simp]:
  "refuse_value what m = Inr x \<longleftrightarrow> m = Inr x" "refuse_key what m = Inr x \<longleftrightarrow> m = Inr x"
  "refuse_evidence what m = Inr x \<longleftrightarrow> m = Inr x" "uncaught m = Inr x \<longleftrightarrow> m = Inr x"
  "refuse_missing m = Inr x \<longleftrightarrow> m = Inr x" "refuse_latency m = Inr x \<longleftrightarrow> m = Inr x"
  by (auto simp: refuse_value_def refuse_key_def refuse_evidence_def uncaught_def refuse_missing_def refuse_latency_def
    split: sum.splits report_exc.splits)

lemma parse_positive_same: "parse_positive_finite tt (V_Float d) f = Inr e \<Longrightarrow> e = d"
  by (auto simp: parse_positive_finite_def float_of_def split: if_splits)

lemma compare_best_row: "compare_best pick tt f z rows = Inr (r, best) \<Longrightarrow> pick rows f = Inr best"
  by (auto simp: compare_best_def bind_r_eq_Inr)

lemma compare_best_ratio:
  assumes "has_metric f z" "has_metric f best" "compare_best pick tt f z rows = Inr (r, best)"
  shows "fdiv (metric_of f z) (metric_of f best) = Some r"
proof -
  obtain x where x: "z f = Some (V_Float (Fin x))" "0 < x" "metric_of f z = Fin x" using assms(1) by (rule has_metricE)
  obtain y where y: "best f = Some (V_Float (Fin y))" "0 < y" "metric_of f best = Fin y" using assms(2) by (rule has_metricE)
  have "positive_finite_ratio tt (V_Float (Fin x)) (V_Float (Fin y)) = Inr r"
    using assms(3) x(1) y(1) by (auto simp: compare_best_def bind_r_eq_Inr row_item_def)
  then obtain q where "quotient (Fin x) (Fin y) = Inr q" "parse_positive_finite tt (V_Float q) ''ratio'' = Inr r"
    by (auto simp: positive_finite_ratio_def parse_positive_float x(2) y(2) bind_r_eq_Inr)
  moreover from this(2) have "r = q" by (rule parse_positive_same)
  ultimately show ?thesis unfolding x(3) y(3) quotient_def by (auto split: option.splits)
qed

lemma fdiv_mono:
  assumes "has_metric f z" "has_metric f b" "has_metric f c" "number (metric_of f c) \<le> number (metric_of f b)"
  obtains r q where "fdiv (metric_of f z) (metric_of f b) = Some r" "fdiv (metric_of f z) (metric_of f c) = Some q" "fless_eq r q"
proof -
  obtain x where x: "metric_of f z = Fin x" "0 < x" using assms(1) by (rule has_metricE)
  obtain y where y: "metric_of f b = Fin y" "0 < y" using assms(2) by (rule has_metricE)
  obtain w where w: "metric_of f c = Fin w" "0 < w" using assms(3) by (rule has_metricE)
  have "x / y \<le> x / w" using assms(4) x y w by (intro divide_left_mono) (auto simp: number_def)
  then have "fless_eq (round64 (x / y)) (round64 (x / w))" using x y by (intro round64_mono) auto
  then show thesis using that x y w by simp
qed

lemma compare_best_exact:
  assumes z: "has_metric f z" and rows: "list_all (has_metric f) rows"
    and c: "compare_best pick tt f z rows = Inr (r, best)" and best: "best \<in> set rows"
    and dir: "\<And>c. c \<in> set rows \<Longrightarrow>
      if gt_latency g then number (metric_of f best) \<le> number (metric_of f c)
      else number (metric_of f c) \<le> number (metric_of f best)"
  shows "beaten g a r \<longleftrightarrow> \<not> list_all (ratio_holds g a f z) rows"
proof
  have b: "has_metric f best" using rows best by (simp add: list_all_iff)
  note r = compare_best_ratio[OF z b c]
  assume "beaten g a r"
  then show "\<not> list_all (ratio_holds g a f z) rows" unfolding list_all_iff ratio_holds_def using best r by (auto intro!: bexI[of _ best])
next
  have b: "has_metric f best" using rows best by (simp add: list_all_iff)
  note r = compare_best_ratio[OF z b c]
  assume "\<not> list_all (ratio_holds g a f z) rows"
  then obtain c where c: "c \<in> set rows" "\<not> ratio_holds g a f z c" by (auto simp: list_all_iff)
  have hc: "has_metric f c" using rows c(1) by (simp add: list_all_iff)
  show "beaten g a r"
  proof (cases "gt_latency g")
    case True
    obtain q where "fdiv (metric_of f z) (metric_of f c) = Some q" "fless_eq q r"
      using dir[OF c(1)] True r by (auto intro: fdiv_mono[OF z hc b])
    then show ?thesis using c(2) True by (auto simp: ratio_holds_def beaten_def intro: fless_mono2)
  next
    case False
    obtain q where "fdiv (metric_of f z) (metric_of f c) = Some q" "fless_eq r q"
      using dir[OF c(1)] False r by (auto intro: fdiv_mono[OF z b hc])
    then show ?thesis using c(2) False by (auto simp: ratio_holds_def beaten_def intro: fless_mono)
  qed
qed

lemma compare_highest_exact:
  assumes "has_metric f z" "list_all (has_metric f) rows" "\<not> gt_latency g"
    "compare_best (best_higher_row tt) tt f z rows = Inr (r, best)"
  shows "beaten g a r \<longleftrightarrow> \<not> list_all (ratio_holds g a f z) rows"
  using best_row_pick(1,2)[OF assms(2) compare_best_row[OF assms(4)]] assms(3)
  by (intro compare_best_exact[OF assms(1,2,4)]) auto

lemma compare_lowest_exact:
  assumes "has_metric f z" "list_all (has_metric f) rows" "gt_latency g"
    "compare_best (best_lower_row tt) tt f z rows = Inr (r, best)"
  shows "beaten g a r \<longleftrightarrow> \<not> list_all (ratio_holds g a f z) rows"
  using best_row_pick(3,4)[OF assms(2) compare_best_row[OF assms(4)]] assms(3)
  by (intro compare_best_exact[OF assms(1,2,4)]) auto

section \<open>The median of paired ratios\<close>

definition paired_holds :: "'s gate_rules \<Rightarrow> gate_args \<Rightarrow> text_tables \<Rightarrow> report_row \<Rightarrow> report_row \<Rightarrow> bool" where
  "paired_holds g a tt z c = (case paired_median_ratio tt z c of Inr q \<Rightarrow> \<not> beaten g a q | Inl _ \<Rightarrow> False)"

lemma positive_median_Fin:
  assumes "positive_finite_median tt vs f = Inr d"
  obtains x where "d = Fin x" "0 < x"
proof -
  obtain e where "parse_positive_finite tt (V_Float e) f = Inr d"
    using assms by (auto simp: positive_finite_median_def bind_r_eq_Inr Let_def split: if_splits)
  then show thesis using that by (auto elim: parse_positive_finite_Inr)
qed

lemma paired_ratio_Fin:
  assumes "paired_median_ratio tt z c = Inr d"
  obtains x where "d = Fin x" "0 < x"
proof -
  obtain vs where "positive_finite_median tt vs ''paired median ratio'' = Inr d"
    using assms by (auto simp: paired_median_ratio_def bind_r_eq_Inr split: if_splits)
  then show thesis using that by (auto elim: positive_median_Fin)
qed

lemma paired_item_Inr:
  assumes "paired_item tt z c = Inr (key, r, row)"
  shows "row = c" "paired_median_ratio tt z c = Inr r" "fst key = number r"
  using assms by (auto simp: paired_item_def bind_r_eq_Inr)

lemma compare_paired_exact:
  assumes "compare_paired tt z rows = Inr (r, best)" "\<not> gt_latency g"
  shows "beaten g a r \<longleftrightarrow> \<not> list_all (paired_holds g a tt z) rows"
proof -
  obtain items key where i: "map_r (paired_item tt z) rows = Inr items" "min_item items = Inr (key, r, best)"
    using assms(1) by (auto simp: compare_paired_def bind_r_eq_Inr)
  obtain b where b: "b \<in> set rows" "paired_item tt z b = Inr (key, r, best)"
    using map_r_members(1)[OF i(1) min_item_least(1)[OF i(2)]] by blast
  note rb = paired_item_Inr[OF b(2)]
  have "beaten g a r" if c: "c \<in> set rows" "\<not> paired_holds g a tt z c" for c
  proof -
    obtain kq q cq where q: "(kq, q, cq) \<in> set items" "paired_item tt z c = Inr (kq, q, cq)"
      using map_r_members(2)[OF i(1) c(1)] by (metis prod_cases3)
    note rq = paired_item_Inr[OF q(2)]
    have "key \<le> kq" using min_item_least(2)[OF i(2) q(1)] by simp
    then have n: "number r \<le> number q" using rb(3) rq(3) by (auto simp: less_eq_prod_def)
    obtain x where x: "r = Fin x" "0 < x" using rb(2) by (rule paired_ratio_Fin)
    obtain y where y: "q = Fin y" "0 < y" using rq(2) by (rule paired_ratio_Fin)
    have "fless_eq r q" using n x y by (simp add: number_def)
    moreover have "fless q (ga_ratio a)" using c(2) rq(2) assms(2) by (simp add: paired_holds_def beaten_def)
    ultimately show ?thesis using assms(2) by (simp add: beaten_def fless_mono)
  qed
  moreover have "\<not> paired_holds g a tt z b" if "beaten g a r" using that rb(2) by (simp add: paired_holds_def)
  ultimately show ?thesis using b(1) by (auto simp: list_all_iff)
qed

section \<open>Every gate keeps the contract\<close>

lemma parsed_metric:
  assumes "parse_positive_finite tt v f' = Inr d"
  shows "has_metric f (row(f \<mapsto> V_Float d))"
  using assms by (rule parse_positive_finite_Inr) (simp add: has_metric_def)

lemma row_gflops_parsed:
  assumes "row_gflops tt row stat = Inr d"
  shows "\<exists>v f'. parse_positive_finite tt v f' = Inr d"
  using assms unfolding row_gflops_def gflops_column_def Let_def
  by (auto simp: bind_r_eq_Inr split: if_splits)

lemma level1_metric_parsed: "level1_metric tt stat row = Inr d \<Longrightarrow> \<exists>v f'. parse_positive_finite tt v f' = Inr d"
  by (auto simp: level1_metric_def Let_def bind_r_eq_Inr split: if_splits)

lemma level2_metric_parsed: "level2_metric tt stat row = Inr d \<Longrightarrow> \<exists>v f'. parse_positive_finite tt v f' = Inr d"
  by (auto simp: level2_metric_def Let_def bind_r_eq_Inr split: if_splits)

lemma matrix_metric_parsed: "matrix_metric tt stat row = Inr d \<Longrightarrow> \<exists>v f'. parse_positive_finite tt v f' = Inr d"
  by (auto simp: matrix_metric_def Let_def split: if_splits)

interpretation gemm: gate_contract "gemm_rules tt fl a" a "has_metric ''gflops_value''"
    "ratio_holds (gemm_rules tt fl a) a ''gflops_value''" for tt fl a
proof (unfold_locales, goal_cases)
  case (1 row s s' k l r)
  then obtain d where "row_gflops tt row (gf_stat fl) = Inr d" "r = row(''gflops_value'' \<mapsto> V_Float d)"
    by (auto simp: gemm_rules_def gemm_row_def gemm_metric_row_def bind_r_eq_Inr Let_def split: if_splits)
  then show ?case using row_gflops_parsed parsed_metric by blast
next
  case (2 z rows ratio best)
  then show ?case by (intro compare_highest_exact) (auto simp: gemm_rules_def)
qed

interpretation level1: gate_contract "level1_rules tt fl a" a "has_metric ''metric_value''"
    "ratio_holds (level1_rules tt fl a) a ''metric_value''" for tt fl a
proof (unfold_locales, goal_cases)
  case (1 row s s' k l r)
  then obtain d where "level1_metric tt (l1_stat fl) row = Inr d" "r = row(''metric_value'' \<mapsto> V_Float d)"
    by (auto simp: level1_rules_def level1_row_def level1_checked_def level1_metric_row_def bind_r_eq_Inr Let_def split: if_splits)
  then show ?case using level1_metric_parsed parsed_metric by blast
next
  case (2 z rows ratio best)
  then show ?case by (intro compare_highest_exact) (auto simp: level1_rules_def)
qed

interpretation level2: gate_contract "level2_rules tt fl a" a "has_metric ''metric_value''"
    "ratio_holds (level2_rules tt fl a) a ''metric_value''" for tt fl a
proof (unfold_locales, goal_cases)
  case (1 row s s' k l r)
  then obtain d where "level2_metric tt (l2_stat fl) row = Inr d" "r = row(''metric_value'' \<mapsto> V_Float d)"
    by (auto simp: level2_rules_def level2_row_def level2_metric_row_def bind_r_eq_Inr Let_def split: if_splits)
  then show ?case using level2_metric_parsed parsed_metric by blast
next
  case (2 z rows ratio best)
  then show ?case by (intro compare_highest_exact) (auto simp: level2_rules_def)
qed

definition matrix_holds :: "text_tables \<Rightarrow> statistic \<Rightarrow> 's gate_rules \<Rightarrow> gate_args \<Rightarrow> report_row \<Rightarrow> report_row \<Rightarrow> bool" where
  "matrix_holds tt stat g a = (if stat = Paired then paired_holds g a tt else ratio_holds g a ''metric_value'')"

interpretation matrix: gate_contract "matrix_rules tt stat allowed key statuses a" a "has_metric ''metric_value''"
    "matrix_holds tt stat (matrix_rules tt stat allowed key statuses a) a" for tt stat allowed key statuses a
proof (unfold_locales, goal_cases)
  case (1 row s s' k l r)
  then obtain d where "matrix_metric tt stat row = Inr d" "r = row(''metric_value'' \<mapsto> V_Float d)"
    by (auto simp: matrix_rules_def matrix_row_def matrix_metric_row_def bind_r_eq_Inr Let_def split: if_splits)
  then show ?case using matrix_metric_parsed parsed_metric by blast
next
  case (2 z rows ratio best)
  then show ?case unfolding matrix_holds_def
    by (auto simp: matrix_rules_def matrix_compare_def compare_highest_exact compare_paired_exact split: if_splits)
qed

interpretation latency: gate_contract "latency_rules tt" a "has_metric ''median_latency''"
    "ratio_holds (latency_rules tt) a ''median_latency''" for tt a
proof (unfold_locales, goal_cases)
  case (1 row s s' k l r)
  then obtain d v where "parse_positive_finite tt v ''metric_median'' = Inr d" "r = row(''median_latency'' \<mapsto> V_Float d)"
    by (auto simp: latency_rules_def latency_row_def latency_metric_row_def bind_r_eq_Inr Let_def split: if_splits)
  then show ?case using parsed_metric by blast
next
  case (2 z rows ratio best)
  then show ?case by (intro compare_lowest_exact) (auto simp: latency_rules_def)
qed

section \<open>What the gates decide\<close>

lemma run_gate_Inr:
  assumes "run_gate tt g catches a (Opened items) = Inr report"
  obtains gs where "collect_groups g items = Inr gs" "judge_groups g a gs = Inr report"
  using assms by (auto simp: run_gate_def bind_r_eq_Inr)

text \<open>C20. The SYMM gate returns 0 exactly when some group was compared and, in every group of eligible rows,
  the library under test is there and its throughput, or with the paired statistic the median of its
  paired ratios, reaches the required ratio against every requested comparator that has a row, not only
  against the one the gate picks.\<close>

theorem symm_gate_exact:
  "case symm_main tt fl a (Opened items) of
     Inl stop \<Rightarrow> True
   | Inr report \<Rightarrow> (case selected_rows (symm_rules tt fl a) items of
       Inl stop \<Rightarrow> False
     | Inr sel \<Rightarrow> (gr_code report = 0) =
         gate_accepts (symm_rules tt fl a) a (matrix_holds tt (sy_stat fl) (symm_rules tt fl a) a) sel)"
proof (cases "symm_main tt fl a (Opened items)")
  case (Inr report)
  obtain gs where gs: "collect_groups (symm_rules tt fl a) items = Inr gs" "judge_groups (symm_rules tt fl a) a gs = Inr report"
    using Inr unfolding symm_main_def by (rule run_gate_Inr)
  from matrix.gate_exact[OF gs[unfolded symm_rules_def]] show ?thesis unfolding Inr by (auto simp: symm_rules_def)
qed simp

text \<open>C21. The latency gate returns 0 only when every selected row of the library under test was eligible, and
  exactly when some group was compared and in every group the latency is within the allowed ratio of
  every requested comparator.\<close>

theorem latency_gate_exact:
  "case latency_main tt fl a (Opened items) of
     Inl stop \<Rightarrow> True
   | Inr report \<Rightarrow> (case fold_r (select_latency fl a) items [] of
       Inl stop \<Rightarrow> False
     | Inr rows \<Rightarrow>
         list_all (\<lambda>row. row_eligible tt row = Inr True) (filter (\<lambda>row. row_get row ''library'' = V_Text (ga_zynum a)) rows)
         \<and> (case selected_rows (latency_rules tt) (map Csv_Row rows) of
              Inl stop \<Rightarrow> False
            | Inr sel \<Rightarrow> (gr_code report = 0) =
                gate_accepts (latency_rules tt) a (ratio_holds (latency_rules tt) a ''median_latency'') sel))"
proof (cases "latency_main tt fl a (Opened items)")
  case (Inr report)
  then obtain gs where "latency_groups tt fl a items = Inr gs" and judged: "judge_groups (latency_rules tt) a gs = Inr report"
    by (auto simp: latency_main_def bind_r_eq_Inr)
  then obtain rows where rows: "fold_r (select_latency fl a) items [] = Inr rows"
    and eligible: "fold_r (require_eligible tt a) rows () = Inr ()"
    and collected: "collect_groups (latency_rules tt) (map Csv_Row rows) = Inr gs"
    by (auto simp: latency_groups_def bind_r_eq_Inr)
  have "row_eligible tt row = Inr True" if "row \<in> set rows" "row_get row ''library'' = V_Text (ga_zynum a)" for row
    using eligible that by (induction rows) (auto simp: require_eligible_def bind_r_eq_Inr split: if_splits)
  then show ?thesis using latency.gate_exact[OF collected judged] unfolding Inr by (auto simp: rows list_all_iff)
qed simp

text \<open>The repeat counts of a GEMM sweep that reached its comparison.\<close>

lemma gemm_read_repeats:
  assumes "fold_r (read_item (gemm_rules tt fl a)) items ((observed, without), gs) = Inr ((observed', without'), gs')"
  shows "set observed \<subseteq> set observed' \<and> without \<le> without' \<and>
    (\<forall>item \<in> set items. case item of Csv_Failure \<Rightarrow> False | Csv_Row row \<Rightarrow>
      (case row_process_repeats tt row of Inl e \<Rightarrow> False | Inr None \<Rightarrow> 0 < without' | Inr (Some n) \<Rightarrow> n \<in> set observed'))"
  using assms
proof (induction items arbitrary: observed without gs)
  case (Cons item items)
  obtain o1 w1 g1 where r: "read_item (gemm_rules tt fl a) item ((observed, without), gs) = Inr ((o1, w1), g1)"
    "fold_r (read_item (gemm_rules tt fl a)) items ((o1, w1), g1) = Inr ((observed', without'), gs')"
    using Cons.prems by (auto simp: bind_r_eq_Inr)
  then obtain row chosen where row: "item = Csv_Row row" "gemm_row tt fl a row (observed, without) = Inr ((o1, w1), chosen)"
    by (auto simp: read_item_def gemm_rules_def bind_r_eq_Inr split: csv_item.splits option.splits)
  then obtain n where n: "row_process_repeats tt row = Inr n" "(o1, w1) = note_repeats n (observed, without)"
    by (auto simp: gemm_row_def bind_r_eq_Inr Let_def split: if_splits)
  have "set observed \<subseteq> set o1 \<and> without \<le> w1 \<and> (case n of None \<Rightarrow> 0 < w1 | Some n \<Rightarrow> n \<in> set o1)"
    using n(2) by (auto simp: note_repeats_def split: option.splits)
  then show ?case using Cons.IH[OF r(2)] unfolding row(1) by (auto simp: n(1) split: option.splits)
qed simp

text \<open>C24. A GEMM sweep that is judged carries one repeat count: either no row of the file has one or all rows,
  filtered or not, have the same; and the gate returns 0 exactly when the throughput reaches the
  required ratio against every requested comparator in every group.\<close>

theorem gemm_gate_exact:
  "case gemm_main tt fl a (Opened items) of
     Inl stop \<Rightarrow> True
   | Inr report \<Rightarrow>
       (\<exists>repeats. list_all (\<lambda>item. case item of Csv_Failure \<Rightarrow> False | Csv_Row row \<Rightarrow> row_process_repeats tt row = Inr repeats) items)
       \<and> (case selected_rows (gemm_rules tt fl a) items of
            Inl stop \<Rightarrow> False
          | Inr sel \<Rightarrow> (gr_code report = 0) =
              gate_accepts (gemm_rules tt fl a) a (ratio_holds (gemm_rules tt fl a) a ''gflops_value'') sel)"
proof (cases "gemm_main tt fl a (Opened items)")
  case (Inr report)
  obtain gs where gs: "collect_groups (gemm_rules tt fl a) items = Inr gs" "judge_groups (gemm_rules tt fl a) a gs = Inr report"
    using Inr unfolding gemm_main_def by (rule run_gate_Inr)
  obtain observed without where s: "fold_r (read_item (gemm_rules tt fl a)) items (([], 0), []) = Inr ((observed, without), gs)"
    "gemm_end (observed, without) = Inr ()"
    using gs(1) by (auto simp: collect_groups_def bind_r_eq_Inr gemm_rules_def)
  define repeats where "repeats = (case observed of [] \<Rightarrow> None | n # _ \<Rightarrow> Some n)"
  have e: "observed = [] \<or> without = 0 \<and> observed = [hd observed]"
    using s(2) by (cases observed; cases "tl observed") (auto simp: gemm_end_def split: if_splits)
  have "row_process_repeats tt row = Inr repeats" if "Csv_Row row \<in> set items" for row
  proof -
    from gemm_read_repeats[OF s(1)] that
    have "case row_process_repeats tt row of Inl e \<Rightarrow> False | Inr None \<Rightarrow> 0 < without | Inr (Some n) \<Rightarrow> n \<in> set observed" by fastforce
    then show ?thesis using e by (cases observed) (auto simp: repeats_def split: sum.splits option.splits)
  qed
  moreover have "Csv_Failure \<notin> set items" using gemm_read_repeats[OF s(1)] by fastforce
  ultimately have "list_all (\<lambda>item. case item of Csv_Failure \<Rightarrow> False | Csv_Row row \<Rightarrow> row_process_repeats tt row = Inr repeats) items"
    by (auto simp: list_all_iff split: csv_item.splits)
  then show ?thesis using gemm.gate_exact[OF gs] unfolding Inr by auto
qed simp

lemma level1_gate_exact:
  "case level1_main tt fl a (Opened items) of
     Inl stop \<Rightarrow> True
   | Inr report \<Rightarrow> (case selected_rows (level1_rules tt fl a) items of
       Inl stop \<Rightarrow> False
     | Inr sel \<Rightarrow> (gr_code report = 0) =
         gate_accepts (level1_rules tt fl a) a (ratio_holds (level1_rules tt fl a) a ''metric_value'') sel)"
proof (cases "level1_main tt fl a (Opened items)")
  case (Inr report)
  obtain gs where gs: "collect_groups (level1_rules tt fl a) items = Inr gs" "judge_groups (level1_rules tt fl a) a gs = Inr report"
    using Inr unfolding level1_main_def by (rule run_gate_Inr)
  from level1.gate_exact[OF gs] show ?thesis unfolding Inr by auto
qed simp

end
