(* ===== verification/Report_Aggregate_Correct.thy ===== *)
theory Report_Aggregate_Correct
  imports Report_Aggregate Matrix_Gates Report_Gate_Correct
begin

text \<open>
  A runner's row says what its repeats measured: the aggregation fails only on invalid evidence of a repeat,
  its metric texts read back to the measured numbers bit for bit, and the row counts as checked exactly when
  every repeat did.  The locale \<open>repeat_contract\<close> is what the rules of a runner promise for that; the
  matrix runners and the latency runner are interpretations.
\<close>

lemma bind_r_eq_Inl: "bind_r m f = Inl e \<longleftrightarrow> m = Inl e \<or> (\<exists>x. m = Inr x \<and> f x = Inl e)"
  by (cases m) auto

section \<open>Rows of texts\<close>

text \<open>What \<open>csv.DictReader\<close> yields for a complete line.\<close>

definition text_row :: "report_row \<Rightarrow> bool" where "text_row row \<longleftrightarrow> ran row \<subseteq> range V_Text"

lemma text_cell: "text_row row \<Longrightarrow> row f = Some v \<Longrightarrow> \<exists>t. v = V_Text t"
  by (force simp: text_row_def ran_def)

lemma float_cell_text: "parse_positive_finite tt (V_Text t) f = Inr d \<Longrightarrow> float_cell tt (V_Text t) = Inr d \<and> positive_double d"
  using parse_positive_text[of tt t f d]
  by (auto simp: float_cell_def float_of_def parse_positive_finite_def split: option.splits if_splits)

lemma float_item_text:
  assumes "text_row row" "row_item row f = Inr v" "parse_positive_finite tt v g = Inr d"
  shows "float_item tt row f = Inr d \<and> positive_double d"
proof -
  obtain t where "v = V_Text t" using assms(1,2) text_cell by (fastforce simp: row_item_def split: option.splits)
  then show ?thesis using float_cell_text assms(2,3) by (simp add: float_item_def)
qed

text \<open>The conversions of a text raise value errors only.\<close>

lemma int_cell_text: "int_cell tt (V_Text t) = Inl e \<Longrightarrow> caught_key_value e"
  by (auto simp: int_cell_def caught_key_value_def split: option.splits)

lemma float_cell_text_error: "float_cell tt (V_Text t) = Inl e \<Longrightarrow> caught_key_value e \<and> (\<exists>m. e = Value_Error m)"
  by (auto simp: float_cell_def caught_key_value_def split: option.splits)

lemma parse_positive_error: "parse_positive_finite tt v f = Inl e \<Longrightarrow> caught_key_value e \<and> (\<exists>m. e = Value_Error m)"
  by (auto simp: parse_positive_finite_def caught_key_value_def split: option.splits if_splits)

lemma row_item_error: "row_item row f = Inl e \<Longrightarrow> caught_key_value e"
  by (auto simp: row_item_def caught_key_value_def split: option.splits)

lemma row_item_text: "text_row row \<Longrightarrow> row_item row f = Inr v \<Longrightarrow> \<exists>t. v = V_Text t"
  using text_cell by (auto simp: row_item_def split: option.splits)

section \<open>Evidence\<close>

lemma is_double_fadd: "is_double (fadd a b)"
  by (cases "(a, b)" rule: fadd.cases) auto

lemma sample_values_numbers:
  "\<forall>d \<in> set ds. positive_double d \<Longrightarrow> sample_values tt (map V_Float ds) label = Inr ds"
proof -
  assume "\<forall>d \<in> set ds. positive_double d"
  then have "map_r (\<lambda>(i, v). parse_positive_finite tt v (label i)) (zip [k..<k + length ds] (map V_Float ds)) = Inr ds" for k
  proof (induction ds arbitrary: k)
    case (Cons d ds)
    then obtain x where x: "d = Fin x" "0 < x" by (auto elim: positive_doubleE)
    have "[k..<k + length (d # ds)] = k # [Suc k..<Suc k + length ds]" by (simp add: upt_rec)
    then show ?case using Cons.IH[of "Suc k"] Cons.prems x by (simp add: parse_positive_float)
  qed simp
  from this[of 0] show ?thesis by (simp add: sample_values_def)
qed

lemma positive_is_double: "positive_double d \<Longrightarrow> is_double d"
  by (cases d) (auto simp: positive_double_def is_double_def)

lemma median_of_numbers:
  assumes "\<forall>d \<in> set ds. positive_double d" "ds \<noteq> []"
  obtains m where "positive_finite_median tt (map V_Float ds) f = Inr m" "positive_double m"
proof -
  obtain m where m: "positive_finite_median tt (map V_Float ds) f = Inr m"
    using median_of_samples[OF sample_values_numbers assms] assms(1) by metis
  obtain e where e: "parse_positive_finite tt (V_Float e) f = Inr m" "is_double e"
  proof (cases "length ds mod 2 = 1")
    case True
    have "length ds div 2 < length (sort_key number ds)" using assms(2) by simp
    then have "sort_key number ds ! (length ds div 2) \<in> set ds" by (metis nth_mem set_sort)
    then have "is_double (sort_key number ds ! (length ds div 2))"
      using assms(1) positive_is_double by blast
    then show thesis using that m True assms
      by (auto simp: positive_finite_median_def sample_values_numbers Let_def split: if_splits)
  next
    case False
    then show thesis using that m assms is_double_fadd
      by (auto simp: positive_finite_median_def sample_values_numbers Let_def bind_r_eq_Inr split: if_splits)
  qed
  then have "positive_double m" using parse_positive_plain[OF e(1)] by (simp add: plain_value_def)
  then show thesis using that m by blast
qed

lemma extreme_in: "ds \<noteq> [] \<Longrightarrow> extreme better ds \<in> set ds"
proof -
  have "foldl (\<lambda>b d. if better d b then d else b) d ds \<in> set (d # ds)" for d ds
    by (induction ds arbitrary: d) (auto split: if_splits)
  then show "ds \<noteq> [] \<Longrightarrow> ?thesis" by (cases ds) (simp_all add: extreme_def)
qed

lemma metric_text_read:
  assumes "positive_double d"
  shows "parse_positive_finite tt (metric_text d) f = Inr d" "\<not> absent (metric_text d)"
    "44 \<notin> set (format_general 17 d)" "format_general 17 d \<noteq> []"
proof -
  obtain x where x: "d = Fin x" "0 < x" "representable x" "x < 2 ^ 1024" using assms by (rule positive_doubleE)
  note f = format_read[OF x(2,3,4)]
  show "parse_positive_finite tt (metric_text d) f = Inr d" using f(1) x by (simp add: parse_positive_finite_def float_of_def metric_text_def)
  show "\<not> absent (metric_text d)" "44 \<notin> set (format_general 17 d)" "format_general 17 d \<noteq> []"
    using f(2,3) x by (auto simp: absent_def metric_text_def plain_char_def list_all_iff ascii_digit_def)
qed

lemma joined_samples_read:
  assumes "\<forall>d \<in> set ds. positive_double d" "ds \<noteq> []"
    and "row_get row ''metric_samples'' = V_Text (join_with [44] (map (format_general 17) ds))"
  shows "metric_samples tt row = Inr ds"
proof -
  have split: "split_on 44 (join_with [44] (map (format_general 17) ds)) = map (format_general 17) ds"
    using metric_text_read(3) assms(1,2) by (intro split_on_join) auto
  then have ne: "join_with [44] (map (format_general 17) ds) \<noteq> []"
    using metric_text_read(4)[of "hd ds"] assms(1,2) by (cases ds) auto
  have "map_r (\<lambda>(i, v). parse_positive_finite tt v (label i)) (zip [k..<k + length ds] (map V_Text (map (format_general 17) ds))) = Inr ds" for k label
    using assms(1)
  proof (induction ds arbitrary: k)
    case (Cons d ds)
    have "[k..<k + length (d # ds)] = k # [Suc k..<Suc k + length ds]" by (simp add: upt_rec)
    then show ?case using Cons.IH[of "Suc k"] Cons.prems metric_text_read(1)[of d tt] by (simp add: metric_text_def)
  qed simp
  from this[of _ 0] have "sample_values tt (map V_Text (map (format_general 17) ds)) label = Inr ds" for label
    by (simp add: sample_values_def)
  then show ?thesis using assms(2,3) ne split by (simp add: metric_samples_def absent_def)
qed

text \<open>The evidence cells of an aggregated row.\<close>

definition carries :: "text_tables \<Rightarrow> double list \<Rightarrow> report_row \<Rightarrow> bool" where
  "carries tt values row \<longleftrightarrow>
     (if values = [] then absent (row_get row ''metric_samples'') \<and> absent (row_get row ''metric_median'')
      else metric_samples tt row = Inr values
        \<and> parse_positive_finite tt (row_get row ''metric_median'') ''metric_median''
          = positive_finite_median tt (map V_Float values) ''metric_median''
        \<and> parse_positive_finite tt (row_get row ''metric_max'') ''metric_max'' = Inr (extreme higher values)
        \<and> parse_positive_finite tt (row_get row ''metric_min'') ''metric_min'' = Inr (extreme fless values))
   \<and> validate_optional_metric_evidence tt row = Inr ()"

definition evidence_fields :: "string list" where
  "evidence_fields = [''metric_min'', ''metric_median'', ''metric_max'', ''metric_samples'']"

lemma fold_r_eqI: "(\<And>x. x \<in> set xs \<Longrightarrow> f x = g x) \<Longrightarrow> fold_r f xs s = fold_r g xs s"
proof (induction xs arbitrary: s)
  case (Cons x xs)
  then have "fold_r f xs = fold_r g xs" by auto
  then show ?case using Cons.prems by simp
qed simp

lemma carries_cong:
  assumes "\<And>f. f \<in> set evidence_fields \<Longrightarrow> row_get row f = row_get row' f"
  shows "carries tt values row = carries tt values row'"
proof -
  have e: "row_get row ''metric_samples'' = row_get row' ''metric_samples''" "row_get row ''metric_median'' = row_get row' ''metric_median''"
    "row_get row ''metric_min'' = row_get row' ''metric_min''" "row_get row ''metric_max'' = row_get row' ''metric_max''"
    using assms by (auto simp: evidence_fields_def)
  have m: "metric_samples tt row = metric_samples tt row'" by (simp only: metric_samples_def e)
  have "validate_optional_metric_evidence tt row = validate_optional_metric_evidence tt row'"
    unfolding validate_optional_metric_evidence_def e m
    by (rule arg_cong[of _ _ "\<lambda>r. bind_r r _"], rule fold_r_eqI) (auto simp: optional_field_def fun_eq_iff e)
  then show ?thesis by (simp only: carries_def e m)
qed

lemma summary_carries:
  assumes "\<forall>d \<in> set values. positive_double d"
  obtains summary where "summary_of tt values = Inr summary" "carries tt values (map_of summary)"
    "map fst summary = evidence_fields"
proof (cases "values = []")
  case True
  have "summary_of tt values = Inr (map (\<lambda>f. (f, V_Text [])) evidence_fields)"
    using True by (simp add: summary_of_def evidence_fields_def validate_optional_metric_evidence_def optional_field_def row_get_def absent_def)
  moreover have "carries tt values (map_of (map (\<lambda>f. (f, V_Text [])) evidence_fields))"
    using True by (simp add: carries_def evidence_fields_def validate_optional_metric_evidence_def optional_field_def row_get_def absent_def)
  ultimately show thesis using that by (simp add: comp_def)
next
  case False
  obtain m where m: "positive_finite_median tt (map V_Float values) ''metric_median'' = Inr m" "positive_double m"
    using median_of_numbers[OF assms False] by blast
  define summary where "summary =
    [(''metric_min'', metric_text (extreme fless values)), (''metric_median'', metric_text m),
     (''metric_max'', metric_text (extreme higher values)),
     (''metric_samples'', V_Text (join_with [44] (map (format_general 17) values)))]"
  have get: "row_get (map_of summary) ''metric_min'' = metric_text (extreme fless values)"
    "row_get (map_of summary) ''metric_median'' = metric_text m"
    "row_get (map_of summary) ''metric_max'' = metric_text (extreme higher values)"
    "row_get (map_of summary) ''metric_samples'' = V_Text (join_with [44] (map (format_general 17) values))"
    by (simp_all add: summary_def row_get_def)
  have p: "positive_double (extreme fless values)" "positive_double (extreme higher values)"
    using assms extreme_in[OF False] by blast+
  note samples = joined_samples_read[OF assms False get(4)]
  have v: "validate_optional_metric_evidence tt (map_of summary) = Inr ()"
    using samples metric_text_read(1,2) p m(2) get
    by (simp add: validate_optional_metric_evidence_def optional_field_def)
  have "summary_of tt values = Inr summary"
    using False m v by (simp add: summary_of_def summary_def)
  moreover have "carries tt values (map_of summary)"
    using False samples v m metric_text_read(1) p get by (simp add: carries_def)
  moreover have "map fst summary = evidence_fields" by (simp add: summary_def evidence_fields_def)
  ultimately show thesis using that by blast
qed

section \<open>Loops over the repeats\<close>

lemma filter_r_total:
  "(\<And>x. x \<in> set xs \<Longrightarrow> \<exists>b. P x = Inr b) \<Longrightarrow> filter_r P xs = Inr (filter (\<lambda>x. P x = Inr True) xs)"
proof (induction xs)
  case (Cons x xs)
  obtain b where "P x = Inr b" using Cons.prems[of x] by auto
  then show ?case using Cons.IH Cons.prems by simp
qed simp

definition invalid :: "text_tables \<Rightarrow> string list \<Rightarrow> report_row \<Rightarrow> bool" where
  "invalid tt required row \<longleftrightarrow>
     row_get row ''status'' = V_Text (pts ''ok'') \<and> \<not> is_ok (validate_performance_fields tt row required [])"

lemma validate_repeat_ok: "is_ok (validate_repeat tt what required (k, row) u) = (\<not> invalid tt required row)"
  by (auto simp: validate_repeat_def invalid_def is_ok_iff split: sum.splits report_exc.splits)

lemma validated:
  "is_ok (fold_r (validate_repeat tt what required) (zip [k..<k + length rows] rows) ()) = (\<not> list_ex (invalid tt required) rows)"
proof (induction rows arbitrary: k)
  case (Cons row rows)
  have range: "[k..<k + length (row # rows)] = k # [Suc k..<Suc k + length rows]" by (simp add: upt_rec)
  show ?case
  proof (cases "validate_repeat tt what required (k, row) ()")
    case (Inl e)
    then show ?thesis using validate_repeat_ok[of tt what required k row "()"] range by simp
  next
    case (Inr u)
    then show ?thesis using validate_repeat_ok[of tt what required k row "()"] Cons.IH[of "Suc k"] range by simp
  qed
qed simp

lemma fold_required: "is_ok (fold_r (required_field tt row) fs u) \<Longrightarrow> f \<in> set fs \<Longrightarrow> is_ok (required_field tt row f ())"
proof (induction fs arbitrary: u)
  case (Cons g fs)
  then show ?case by (cases "required_field tt row g u") (auto simp: required_field_def split: if_splits)
qed simp

lemma required_measured:
  assumes "text_row row" "\<not> invalid tt required row" "row_get row ''status'' = V_Text (pts ''ok'')" "f \<in> set required"
  shows "\<exists>d. float_item tt row f = Inr d \<and> positive_double d"
proof -
  have "is_ok (fold_r (required_field tt row) required ())"
    using assms(2,3) by (cases "fold_r (required_field tt row) required ()") (auto simp: invalid_def validate_performance_fields_def)
  then have r: "is_ok (required_field tt row f ())" using fold_required assms(4) by blast
  then obtain d where d: "parse_positive_finite tt (row_get row f) f = Inr d" "\<not> absent (row_get row f)"
    by (auto simp: required_field_def is_ok_iff bind_r_eq_Inr split: if_splits)
  then have "row_item row f = Inr (row_get row f)" by (auto simp: row_item_def row_get_def absent_def split: option.splits)
  then show ?thesis using float_item_text assms(1) d(1) by blast
qed

lemma append_errors_text:
  "text_row row \<Longrightarrow> \<exists>columns'. append_errors tt row columns = Inr columns' \<and> map fst columns' = map fst columns"
proof (induction columns)
  case (Cons c columns)
  obtain f ds where c: "c = (f, ds)" by fastforce
  obtain rest where rest: "append_errors tt row columns = Inr rest" "map fst rest = map fst columns" using Cons by blast
  consider "falsy (row_get row f)" | t where "row_get row f = V_Text t" "\<not> falsy (row_get row f)"
    using text_cell[OF Cons.prems, of f] by (cases "row f") (auto simp: row_get_def falsy_def)
  then show ?case
  proof cases
    case 1
    then show ?thesis using rest c by simp
  next
    case 2
    then show ?thesis using rest c float_cell_text_error[of tt t] by (cases "float_cell tt (V_Text t)") auto
  qed
qed simp

lemma first_best_in: "first_best better b items \<in> snd ` set (b # items)"
  by (induction items arbitrary: b) (auto split: if_splits)

lemma best_by_member:
  assumes "rows \<noteq> []" "\<And>row. row \<in> set rows \<Longrightarrow> \<exists>d. float_item tt row f = Inr d"
  obtains row where "best_by tt better f rows = Inr row" "row \<in> set rows"
proof -
  have "\<exists>items. map_r (\<lambda>row. bind_r (float_item tt row f) (\<lambda>d. Inr (d, row))) rows = Inr items \<and> map snd items = rows"
    using assms(2)
  proof (induction rows)
    case (Cons row rows)
    obtain d where "float_item tt row f = Inr d" using Cons.prems by auto
    moreover obtain items where "map_r (\<lambda>row. bind_r (float_item tt row f) (\<lambda>d. Inr (d, row))) rows = Inr items" "map snd items = rows"
      using Cons by auto
    ultimately show ?case by simp
  qed simp
  then obtain items where i: "map_r (\<lambda>row. bind_r (float_item tt row f) (\<lambda>d. Inr (d, row))) rows = Inr items" "map snd items = rows" by blast
  then obtain x xs where x: "items = x # xs" using assms(1) by (cases items) auto
  have "first_best better x xs \<in> set rows" using first_best_in[of better x xs] unfolding x[symmetric] i(2)[symmetric] by simp
  then show thesis using that i(1) x by (simp add: best_by_def)
qed

lemma row_update_cell: "distinct (map fst cells) \<Longrightarrow> (f, v) \<in> set cells \<Longrightarrow> row_update cells row f = Some v"
  using map_of_is_SomeI[of "rev cells" f v] by (simp add: row_update_def map_add_def rev_map[symmetric])

lemma row_update_other: "f \<notin> fst ` set cells \<Longrightarrow> row_update cells row f = row f"
proof -
  assume "f \<notin> fst ` set cells"
  then have "map_of (rev cells) f = None" by (simp add: map_of_eq_None_iff)
  then show ?thesis by (simp add: row_update_def map_add_def)
qed

lemma map_r_measured:
  assumes "\<forall>x \<in> set xs. \<exists>d. f x = Inr d \<and> P d"
  shows "\<exists>ds. map_r f xs = Inr ds \<and> (\<forall>d \<in> set ds. P d)"
  using assms
proof (induction xs)
  case (Cons x xs)
  then obtain d ds where "f x = Inr d" "P d" "map_r f xs = Inr ds" "\<forall>d \<in> set ds. P d" by auto
  then show ?case by simp
qed simp

lemma disjoint_mono: "A \<subseteq> B \<Longrightarrow> C \<subseteq> D \<Longrightarrow> B \<inter> D = {} \<Longrightarrow> A \<inter> C = {}"
  by blast

section \<open>Rows under their keys\<close>

definition keyed_step :: "(report_row \<Rightarrow> report_exc + 'k) \<Rightarrow> report_exc \<Rightarrow> report_row \<Rightarrow> ('k \<times> report_row) list
    \<Rightarrow> report_exc + ('k \<times> report_row) list" where
  "keyed_step key e row current =
     bind_r (key row) (\<lambda>k. if map_of current k \<noteq> None then Inl e else Inr (current @ [(k, row)]))"

lemma keyed_fold:
  assumes "fold_r (keyed_step key e) rows current = Inr result"
  shows "\<exists>ks. map key rows = map Inr ks \<and> result = current @ zip ks rows
    \<and> (distinct (map fst current) \<longrightarrow> distinct (map fst result))"
  using assms
proof (induction rows arbitrary: current)
  case (Cons row rows)
  then obtain c where c: "keyed_step key e row current = Inr c" "fold_r (keyed_step key e) rows c = Inr result"
    by (auto simp: bind_r_eq_Inr)
  then obtain k where k: "key row = Inr k" "map_of current k = None" "fold_r (keyed_step key e) rows (current @ [(k, row)]) = Inr result"
    by (auto simp: keyed_step_def bind_r_eq_Inr split: if_splits)
  from Cons.IH[OF k(3)] obtain ks where ks: "map key rows = map Inr ks" "result = (current @ [(k, row)]) @ zip ks rows"
    "distinct (map fst (current @ [(k, row)])) \<longrightarrow> distinct (map fst result)" by blast
  have "k \<notin> set (map fst current)" using k(2) by (simp add: map_of_eq_None_iff)
  then show ?case using k(1) ks by (intro exI[of _ "k # ks"]) auto
qed simp

lemma map_of_keyed: "map key rows = map Inr ks \<Longrightarrow> map_of (zip ks rows) k = List.find (\<lambda>row. key row = Inr k) rows"
proof (induction rows arbitrary: ks)
  case (Cons row rows)
  then obtain k' ks' where "ks = k' # ks'" "key row = Inr k'" "map key rows = map Inr ks'" by auto
  then show ?case using Cons.IH by auto
qed simp

lemma keyed_map:
  assumes "fold_r (keyed_step key e) rows [] = Inr result"
  shows "distinct (map key rows)" "Inr ` fst ` set result = key ` set rows"
    "map_of result = (\<lambda>k. List.find (\<lambda>row. key row = Inr k) rows)" "map Inr (map fst result) = map key rows"
proof -
  obtain ks where ks: "map key rows = map Inr ks" "result = zip ks rows" "distinct (map fst result)"
    using keyed_fold[OF assms] by auto
  have "length ks = length rows" using ks(1) by (metis length_map)
  then have fst: "map fst result = ks" using ks(2) by simp
  show keys: "map Inr (map fst result) = map key rows" using fst ks(1) by simp
  show "distinct (map key rows)" unfolding ks(1) using ks(3) fst by (auto simp: distinct_map inj_on_def)
  show "Inr ` fst ` set result = key ` set rows" using arg_cong[OF keys, of set] by (auto simp: image_image)
  show "map_of result = (\<lambda>k. List.find (\<lambda>row. key row = Inr k) rows)" unfolding ks(2) using map_of_keyed[OF ks(1)] by blast
qed

section \<open>The contract of the rules\<close>

definition row_fields :: "string list" where
  "row_fields = [''process_repeats'', ''successful_repeats''] @ evidence_fields @ [''check_raw_output'', ''status'', ''check_status'']"

text \<open>What the update of a representative row leaves, whatever the order of its cells.\<close>

definition update_cells :: "py_value \<Rightarrow> py_value \<Rightarrow> (string \<times> py_value) list \<Rightarrow> (string \<times> py_value) list
    \<Rightarrow> (string \<times> py_value) list \<Rightarrow> bool \<Rightarrow> string \<times> string \<Rightarrow> (string \<times> py_value) list" where
  "update_cells p s summary E D failed st =
     (''process_repeats'', p) # (''successful_repeats'', s) # summary @ E @ D @ (if failed then status_cells st else [])"

lemma distinct_update_cells:
  assumes E: "fst ` set E \<subseteq> set names" "distinct (map fst E)" and names: "distinct (row_fields @ names)"
    and D: "fst ` set D \<subseteq> {''check_raw_output''}" "distinct (map fst D)" and summary: "map fst summary = evidence_fields"
  shows "distinct (map fst (update_cells p s summary E D failed st))"
proof -
  define A F T where "A = [''process_repeats'', ''successful_repeats''] @ evidence_fields" and "F = map fst E"
    and "T = map fst (D @ (if failed then status_cells st else []))"
  have split: "map fst (update_cells p s summary E D failed st) = A @ F @ T" using summary by (simp add: update_cells_def A_def F_def T_def)
  define X where "X = {''check_raw_output'', ''status'', ''check_status''}"
  have T: "distinct T" "set T \<subseteq> X" using D by (auto simp: T_def X_def status_cells_def)
  have A: "distinct A" "set A \<subseteq> set row_fields" "set A \<inter> X = {}" "X \<subseteq> set row_fields"
    by (simp_all add: A_def X_def row_fields_def evidence_fields_def)
  have F: "distinct F" "set F \<subseteq> set names" and rf: "set row_fields \<inter> set names = {}" using E names by (simp_all add: F_def)
  have "set A \<inter> set F = {}" by (rule disjoint_mono[OF A(2) F(2) rf])
  moreover have "set A \<inter> set T = {}" by (rule disjoint_mono[OF subset_refl T(2) A(3)])
  moreover have "set F \<inter> set T = {}" using disjoint_mono[OF order_trans[OF T(2) A(4)] F(2) rf] by (simp add: Int_commute)
  ultimately show ?thesis unfolding split by (simp add: A(1) F(1) T(1) Int_Un_distrib)
qed

lemma updated_row:
  assumes cells: "mset cells = mset (update_cells p s summary E D failed st)"
    and E: "fst ` set E \<subseteq> set names" "distinct (map fst E)" and names: "distinct (row_fields @ names)"
    and D: "fst ` set D \<subseteq> {''check_raw_output''}" "distinct (map fst D)"
    and summary: "map fst summary = evidence_fields" "carries tt vals (map_of summary)"
    and st: "pts (fst st) \<noteq> pts ''ok''" and base: "\<not> failed \<Longrightarrow> status_eligible base"
  shows "carries tt vals (row_update cells base)"
    "row_update cells base ''process_repeats'' = Some p" "row_update cells base ''successful_repeats'' = Some s"
    "status_eligible (row_update cells base) \<longleftrightarrow> \<not> failed"
proof -
  have dist: "distinct (map fst cells)"
    using distinct_update_cells[OF E names D summary(1)] cells by (metis mset_eq_imp_distinct_iff mset_map)
  have mem: "set cells = set (update_cells p s summary E D failed st)" using cells by (rule mset_eq_setD)
  have "row_get (row_update cells base) f = row_get (map_of summary) f" if "f \<in> set evidence_fields" for f
  proof -
    obtain v where v: "map_of summary f = Some v" using \<open>f \<in> set evidence_fields\<close> summary(1)
      by (metis map_of_eq_None_iff not_None_eq set_map)
    then have "(f, v) \<in> set cells" unfolding mem by (auto simp: update_cells_def dest: map_of_SomeD)
    then show ?thesis using row_update_cell[OF dist] v by (simp add: row_get_def)
  qed
  then show "carries tt vals (row_update cells base)" using carries_cong summary(2) by metis
  show "row_update cells base ''process_repeats'' = Some p" "row_update cells base ''successful_repeats'' = Some s"
    by (rule row_update_cell[OF dist], simp add: mem update_cells_def)+
  show "status_eligible (row_update cells base) \<longleftrightarrow> \<not> failed"
  proof (cases failed)
    case True
    have "row_update cells base ''status'' = Some (V_Text (pts (fst st)))"
      by (rule row_update_cell[OF dist], simp add: mem update_cells_def True status_cells_def)
    then show ?thesis using True st by (auto simp: status_eligible_def status_in_def row_get_def)
  next
    case False
    have "row_update cells base f = base f" if f: "f = ''status'' \<or> f = ''check_status''" for f
    proof (rule row_update_other)
      have "f \<in> set row_fields" using f by (auto simp: row_fields_def)
      then have "f \<notin> fst ` set E" using E(1) names by auto
      moreover have "fst ` set summary = set evidence_fields" using summary(1) by (metis list.set_map)
      then have "f \<notin> fst ` set summary" using f by (auto simp: evidence_fields_def)
      moreover have "f \<notin> fst ` set D" using D(1) f by auto
      moreover have "f \<noteq> ''process_repeats''" "f \<noteq> ''successful_repeats''" using f by auto
      ultimately show "f \<notin> fst ` set cells" unfolding mem using False by (simp add: update_cells_def image_Un)
    qed
    then show ?thesis using base[OF False] False by (simp add: status_eligible_def status_in_def row_get_def)
  qed
qed

lemma error_cells_keys:
  assumes "map fst columns = names" "distinct names"
  shows "fst ` set (error_cells columns) \<subseteq> set names" "distinct (map fst (error_cells columns))"
proof -
  have m: "map fst (error_cells columns) = map fst (filter (\<lambda>(_, ds). ds \<noteq> []) columns)" by (auto simp: error_cells_def)
  have "fst ` set (error_cells columns) \<subseteq> fst ` set columns" by (force simp: error_cells_def)
  also have "\<dots> = set names" using assms(1) by (metis list.set_map)
  finally show "fst ` set (error_cells columns) \<subseteq> set names" .
  have "distinct (map fst columns)" using assms by simp
  then show "distinct (map fst (error_cells columns))" unfolding m by (rule distinct_map_filter)
qed

lemma detail_cells_keys: "fst ` set (detail_cells details) \<subseteq> {''check_raw_output''}" "distinct (map fst (detail_cells details))"
  by (auto simp: detail_cells_def)

text \<open>The row holds the measurements of the eligible repeats, their counts, and counts as checked exactly when
  all of them are eligible.\<close>

definition summarised :: "text_tables \<Rightarrow> string \<Rightarrow> report_row list \<Rightarrow> nat \<Rightarrow> report_row \<Rightarrow> bool" where
  "summarised tt metric eligible n out \<longleftrightarrow>
     (case map_r (\<lambda>row. float_item tt row metric) eligible of Inl _ \<Rightarrow> False | Inr vals \<Rightarrow> carries tt vals out)
     \<and> out ''process_repeats'' = Some (V_Int (int n)) \<and> out ''successful_repeats'' = Some (V_Int (int (length eligible)))
     \<and> (status_eligible out \<longleftrightarrow> length eligible = n)"

definition summarises :: "text_tables \<Rightarrow> repeat_rules \<Rightarrow> report_row list \<Rightarrow> report_row \<Rightarrow> bool" where
  "summarises tt rr rows out =
     summarised tt (rr_metric rr) (filter (\<lambda>row. rr_eligible rr tt row = Inr True) rows) (length rows) out"

locale repeat_contract =
  fixes rr :: repeat_rules
  assumes total: "text_row row \<Longrightarrow> \<exists>b. rr_eligible rr tt row = Inr b"
    and checked: "rr_eligible rr tt row = Inr True \<Longrightarrow> status_eligible row"
    and measured: "text_row row \<Longrightarrow> rr_eligible rr tt row = Inr True
      \<Longrightarrow> \<exists>d. float_item tt row (rr_metric rr) = Inr d \<and> positive_double d"
    and picked: "rr_pick rr \<in> set (rr_required rr)"
    and failed: "pts (fst (rr_failure rr rows)) \<noteq> pts ''ok''"
    and errors: "distinct (row_fields @ rr_errors rr)"
begin

lemma note_repeats:
  assumes "\<forall>row \<in> set rows. text_row row"
  shows "\<exists>errors details. fold_r (note_repeat tt rr) (zip [k..<k + length rows] rows) (columns, remarks) = Inr (errors, details)
    \<and> map fst errors = map fst columns"
  using assms
proof (induction rows arbitrary: k columns remarks)
  case (Cons row rows)
  have range: "[k..<k + length (row # rows)] = k # [Suc k..<Suc k + length rows]" by (simp add: upt_rec)
  obtain columns' where c: "append_errors tt row columns = Inr columns'" "map fst columns' = map fst columns"
    using append_errors_text Cons.prems by fastforce
  obtain b where b: "rr_eligible rr tt row = Inr b" using total Cons.prems by fastforce
  show ?case unfolding range using Cons.IH[of "Suc k" columns'] Cons.prems b c by (simp add: note_repeat_def)
qed simp

lemma picked_member:
  assumes "\<forall>row \<in> set rows. text_row row" "\<not> list_ex (invalid tt (rr_required rr)) rows"
    and "eligible = filter (\<lambda>row. rr_eligible rr tt row = Inr True) rows" "rows \<noteq> []"
  obtains base where "(if eligible = [] then Inr (hd rows) else best_by tt (rr_better rr) (rr_pick rr) eligible) = Inr base"
    "eligible = [] \<or> base \<in> set eligible" "base \<in> set rows"
proof (cases "eligible = []")
  case False
  have "\<exists>d. float_item tt row (rr_pick rr) = Inr d" if "row \<in> set eligible" for row
    using that assms(1,2,3) checked required_measured picked
    by (fastforce simp: status_eligible_def status_in_def list_ex_iff)
  then obtain row where "best_by tt (rr_better rr) (rr_pick rr) eligible = Inr row" "row \<in> set eligible"
    using best_by_member[OF False] by metis
  then show thesis using that False assms(3) by auto
qed (use that assms(4) in auto)

lemma measured_values:
  assumes "\<forall>row \<in> set rows. text_row row \<and> rr_eligible rr tt row = Inr True"
  obtains vals where "map_r (\<lambda>row. float_item tt row (rr_metric rr)) rows = Inr vals"
    "\<forall>d \<in> set vals. positive_double d" "length vals = length rows"
proof -
  have "\<exists>vals. map_r (\<lambda>row. float_item tt row (rr_metric rr)) rows = Inr vals \<and> (\<forall>d \<in> set vals. positive_double d)
    \<and> length vals = length rows"
    using assms
  proof (induction rows)
    case (Cons row rows)
    obtain d where "float_item tt row (rr_metric rr) = Inr d" "positive_double d" using measured Cons.prems by fastforce
    moreover obtain vs where "map_r (\<lambda>row. float_item tt row (rr_metric rr)) rows = Inr vs" "\<forall>d \<in> set vs. positive_double d" "length vs = length rows"
      using Cons by auto
    ultimately show ?case by simp
  qed simp
  then show thesis using that by blast
qed

lemma aggregate_total:
  assumes plain: "\<forall>row \<in> set rows. text_row row" and ne: "rows \<noteq> []" and ok: "\<not> list_ex (invalid tt (rr_required rr)) rows"
    and el: "eligible = filter (\<lambda>row. rr_eligible rr tt row = Inr True) rows"
  obtains out vals where "aggregate_repeats tt rr rows = Inr out"
    "map_r (\<lambda>row. float_item tt row (rr_metric rr)) eligible = Inr vals" "carries tt vals out"
    "out ''process_repeats'' = Some (V_Int (int (length rows)))" "out ''successful_repeats'' = Some (V_Int (int (length eligible)))"
    "status_eligible out \<longleftrightarrow> length eligible = length rows"
proof -
  have filtered: "filter_r (rr_eligible rr tt) rows = Inr eligible" using filter_r_total[of rows] total plain el by blast
  obtain base where base: "(if eligible = [] then Inr (hd rows) else best_by tt (rr_better rr) (rr_pick rr) eligible) = Inr base"
      "eligible = [] \<or> base \<in> set eligible" by (rule picked_member[OF plain ok el ne])
  have elig: "\<forall>row \<in> set eligible. text_row row \<and> rr_eligible rr tt row = Inr True" using plain el by auto
  then obtain vals where vals: "map_r (\<lambda>row. float_item tt row (rr_metric rr)) eligible = Inr vals"
      "\<forall>d \<in> set vals. positive_double d" by (rule measured_values)
  obtain summary where summary: "summary_of tt vals = Inr summary" "carries tt vals (map_of summary)" "map fst summary = evidence_fields"
    using summary_carries[OF vals(2)] by blast
  obtain columns details where noted: "fold_r (note_repeat tt rr) (numbered 1 rows) (map (\<lambda>f. (f, [])) (rr_errors rr), []) = Inr (columns, details)"
      "map fst columns = rr_errors rr"
    using note_repeats[OF plain, of tt 1 "map (\<lambda>f. (f, [])) (rr_errors rr)" "[]"] by (auto simp: numbered_def comp_def)
  define cells where "cells = update_cells (V_Int (int (length rows))) (V_Int (int (length eligible))) summary (error_cells columns)
    (detail_cells details) (length eligible \<noteq> length rows) (rr_failure rr rows)"
  have valid: "fold_r (validate_repeat tt (rr_what rr) (rr_required rr)) (numbered 1 rows) () = Inr ()"
    using validated[of tt "rr_what rr" "rr_required rr" 1 rows] ok by (simp add: numbered_def is_ok_iff)
  have agg: "aggregate_repeats tt rr rows = Inr (row_update cells base)"
    using ne valid filtered base(1) vals(1) summary(1) noted(1) by (simp add: aggregate_repeats_def cells_def update_cells_def)
  have "distinct (rr_errors rr)" using errors by simp
  note ec = error_cells_keys[OF noted(2) this]
  have checked_base: "status_eligible base" if "\<not> length eligible \<noteq> length rows"
    using that base(2) ne elig checked by (cases "eligible = []") auto
  have "mset cells = mset (update_cells (V_Int (int (length rows))) (V_Int (int (length eligible))) summary (error_cells columns)
    (detail_cells details) (length eligible \<noteq> length rows) (rr_failure rr rows))" by (simp add: cells_def)
  note u = updated_row[OF this ec errors detail_cells_keys summary(3,2) failed checked_base]
  have "status_eligible (row_update cells base) \<longleftrightarrow> length eligible = length rows" using u(4) by blast
  from that[OF agg vals(1) u(1,2,3) this] show thesis .
qed

lemma aggregate_refuses:
  assumes "rows = [] \<or> list_ex (invalid tt (rr_required rr)) rows"
  shows "\<not> is_ok (aggregate_repeats tt rr rows)"
proof (cases "rows = []")
  case False
  then have "\<not> is_ok (fold_r (validate_repeat tt (rr_what rr) (rr_required rr)) (numbered 1 rows) ())"
    using validated[of tt "rr_what rr" "rr_required rr" 1 rows] assms by (simp add: numbered_def)
  then show ?thesis using False by (cases "fold_r (validate_repeat tt (rr_what rr) (rr_required rr)) (numbered 1 rows) ()") (auto simp: aggregate_repeats_def)
qed (simp add: aggregate_repeats_def)

lemma aggregate_exact:
  assumes "list_all text_row rows"
  shows "case aggregate_repeats tt rr rows of
      Inl _ \<Rightarrow> rows = [] \<or> list_ex (invalid tt (rr_required rr)) rows
    | Inr out \<Rightarrow> rows \<noteq> [] \<and> \<not> list_ex (invalid tt (rr_required rr)) rows \<and> summarises tt rr rows out"
proof (cases "rows = [] \<or> list_ex (invalid tt (rr_required rr)) rows")
  case True
  then show ?thesis using aggregate_refuses[OF True] by (cases "aggregate_repeats tt rr rows") auto
next
  case False
  have plain: "\<forall>row \<in> set rows. text_row row" using assms by (simp add: list_all_iff)
  obtain out vals where "aggregate_repeats tt rr rows = Inr out"
      "map_r (\<lambda>row. float_item tt row (rr_metric rr)) (filter (\<lambda>row. rr_eligible rr tt row = Inr True) rows) = Inr vals"
      "carries tt vals out" "out ''process_repeats'' = Some (V_Int (int (length rows)))"
      "out ''successful_repeats'' = Some (V_Int (int (length (filter (\<lambda>row. rr_eligible rr tt row = Inr True) rows))))"
      "status_eligible out \<longleftrightarrow> length (filter (\<lambda>row. rr_eligible rr tt row = Inr True) rows) = length rows"
    using aggregate_total[OF plain _ _ refl] False by blast
  then show ?thesis using False by (simp add: summarises_def summarised_def)
qed

end

section \<open>The runners\<close>

lemma filter_length_all: "length (filter P xs) = length xs \<longleftrightarrow> list_all P xs"
proof (induction xs)
  case (Cons x xs)
  have "length (filter P xs) \<noteq> Suc (length xs)" using length_filter_le[of P xs] by linarith
  then show ?case using Cons by simp
qed simp

lemma exists_false: "\<exists>b. \<not> b"
  by blast

lemma false_on_caught: "(\<And>e. m = Inl e \<Longrightarrow> caught e) \<Longrightarrow> \<exists>b. false_on caught m = Inr b"
  using exists_false by (cases m) (auto simp: false_on_def)

lemma false_on_True: "false_on caught m = Inr True \<Longrightarrow> m = Inr True"
  by (auto simp: false_on_def split: sum.splits if_splits)

lemma timed_evidence_text: "text_row row \<Longrightarrow> timed_evidence tt metric time row = Inl e \<Longrightarrow> caught_key_value e"
  using row_item_text[of row time]
  by (auto simp: timed_evidence_def bind_r_eq_Inl dest: row_item_error parse_positive_error int_cell_text)

lemma timed_evidence_measured:
  "text_row row \<Longrightarrow> timed_evidence tt metric time row = Inr True \<Longrightarrow> \<exists>d. float_item tt row metric = Inr d \<and> positive_double d"
  using float_item_text by (fastforce simp: timed_evidence_def bind_r_eq_Inr)

interpretation matrix_repeats: repeat_contract "matrix_repeat_rules what" for what
proof
  fix row tt rows
  show "\<exists>b. rr_eligible (matrix_repeat_rules what) tt row = Inr b" if "text_row row"
    using that timed_evidence_text false_on_caught exists_false
    by (simp add: matrix_repeat_rules_def matrix_repeat_eligible_def)
  show "status_eligible row" if "rr_eligible (matrix_repeat_rules what) tt row = Inr True"
    using that by (simp add: matrix_repeat_rules_def matrix_repeat_eligible_def split: if_splits)
  show "\<exists>d. float_item tt row (rr_metric (matrix_repeat_rules what)) = Inr d \<and> positive_double d"
    if "text_row row" "rr_eligible (matrix_repeat_rules what) tt row = Inr True"
    using that timed_evidence_measured false_on_True
    by (fastforce simp: matrix_repeat_rules_def matrix_repeat_eligible_def split: if_splits)
  show "pts (fst (rr_failure (matrix_repeat_rules what) rows)) \<noteq> pts ''ok''"
    by (simp add: matrix_repeat_rules_def matrix_failure_status_def pts_def)
qed (simp_all add: matrix_repeat_rules_def row_fields_def evidence_fields_def)

lemma latency_evidence_text: "text_row row \<Longrightarrow> latency_evidence tt row = Inl e \<Longrightarrow> caught_key_type_value e"
  using row_item_text[of row]
  by (auto simp: latency_evidence_def float_item_def bind_r_eq_Inl caught_key_type_value_def split: if_splits
      dest: row_item_error float_cell_text_error int_cell_text)

lemma float_cell_double: "float_cell tt (V_Text t) = Inr d \<Longrightarrow> is_double d"
  by (auto simp: float_cell_def float_of_def dest: parse_float_double split: option.splits)

lemma latency_evidence_measured:
  "text_row row \<Longrightarrow> latency_evidence tt row = Inr True \<Longrightarrow> \<exists>d. float_item tt row ''median_ns_per_call'' = Inr d \<and> positive_double d"
  using row_item_text[of row "''median_ns_per_call''"] float_cell_double
  by (fastforce simp: latency_evidence_def float_item_def bind_r_eq_Inr positive_double_def is_double_def
      split: if_splits double.splits)

interpretation latency_repeats: repeat_contract latency_repeat_rules
proof
  fix row tt rows
  show "\<exists>b. rr_eligible latency_repeat_rules tt row = Inr b" if "text_row row"
    using that latency_evidence_text false_on_caught exists_false
    by (simp add: latency_repeat_rules_def latency_repeat_eligible_def)
  show "status_eligible row" if "rr_eligible latency_repeat_rules tt row = Inr True"
    using that by (simp add: latency_repeat_rules_def latency_repeat_eligible_def split: if_splits)
  show "\<exists>d. float_item tt row (rr_metric latency_repeat_rules) = Inr d \<and> positive_double d"
    if "text_row row" "rr_eligible latency_repeat_rules tt row = Inr True"
    using that latency_evidence_measured false_on_True
    by (fastforce simp: latency_repeat_rules_def latency_repeat_eligible_def split: if_splits)
  show "pts (fst (rr_failure latency_repeat_rules rows)) \<noteq> pts ''ok''"
    by (simp add: latency_repeat_rules_def latency_failure_status_def pts_def)
qed (simp_all add: latency_repeat_rules_def row_fields_def evidence_fields_def)

text \<open>C31. Over complete CSV rows, the rank-k, SYMM and triangular runners refuse exactly an empty list and a
  repeat that calls itself ok with a missing or unusable performance field.  Every other list gives a row whose
  texts read back, bit for bit, to the measurements of the eligible repeats, to their median and to their
  extremes, and which counts as checked exactly when every repeat is eligible.\<close>

theorem matrix_aggregate_exact:
  "if list_all text_row rows
   then list_all (\<lambda>(what, aggregate). case aggregate tt rows of
        Inl _ \<Rightarrow> rows = [] \<or> list_ex (invalid tt [''best_ns'', ''median_ns'', ''p95_ns'', ''max_ns'', ''gflops'', ''median_gflops'']) rows
      | Inr out \<Rightarrow> rows \<noteq> []
          \<and> \<not> list_ex (invalid tt [''best_ns'', ''median_ns'', ''p95_ns'', ''max_ns'', ''gflops'', ''median_gflops'']) rows
          \<and> summarises tt (matrix_repeat_rules what) rows out)
     [(''rank-k'', rank_k_aggregate), (''SYMM'', symm_aggregate), (''triangular-matrix'', triangular_aggregate)]
   else True"
proof -
  have required: "rr_required (matrix_repeat_rules what) = [''best_ns'', ''median_ns'', ''p95_ns'', ''max_ns'', ''gflops'', ''median_gflops'']" for what
    by (simp add: matrix_repeat_rules_def)
  note e = matrix_repeats.aggregate_exact[of rows tt, unfolded required]
  show ?thesis
  proof (cases "list_all text_row rows")
    case True
    show ?thesis using e[OF True, of "''rank-k''"] e[OF True, of "''SYMM''"] e[OF True, of "''triangular-matrix''"] True
      by (simp only: rank_k_aggregate_def symm_aggregate_def triangular_aggregate_def list.pred_inject prod.case simp_thms if_True)
  qed simp
qed

text \<open>C32. The latency runner and the latency gate agree: the row that the runner makes of the repeats of a case is
  eligible for the gate exactly when every repeat was eligible for the runner.\<close>

theorem latency_runner_meets_gate:
  "if list_all text_row rows
   then case latency_aggregate tt rows of
      Inl _ \<Rightarrow> rows = [] \<or> list_ex (invalid tt (rr_required latency_repeat_rules)) rows
    | Inr out \<Rightarrow> summarises tt latency_repeat_rules rows out
        \<and> (if row_get out ''metric'' = V_Text (pts ''ns_per_call'')
           then row_eligible tt out = Inr (list_all (\<lambda>row. latency_repeat_eligible tt row = Inr True) rows) else True)
   else True"
proof -
  have "row_eligible tt out = Inr (list_all (\<lambda>row. latency_repeat_eligible tt row = Inr True) rows)"
    if plain: "list_all text_row rows" and out: "summarises tt latency_repeat_rules rows out" "rows \<noteq> []" "row_get out ''metric'' = V_Text (pts ''ns_per_call'')" for out
  proof -
    define eligible where "eligible = filter (\<lambda>row. rr_eligible latency_repeat_rules tt row = Inr True) rows"
    have all: "length eligible = length rows \<longleftrightarrow> list_all (\<lambda>row. latency_repeat_eligible tt row = Inr True) rows"
      unfolding eligible_def by (simp add: latency_repeat_rules_def filter_length_all)
    obtain vals where vals: "map_r (\<lambda>row. float_item tt row (rr_metric latency_repeat_rules)) eligible = Inr vals" "carries tt vals out"
      using out(1) by (auto simp: summarises_def summarised_def eligible_def split: sum.splits)
    have counts: "row_item out ''process_repeats'' = Inr (V_Int (int (length rows)))"
      "row_item out ''successful_repeats'' = Inr (V_Int (int (length eligible)))"
      "status_eligible out \<longleftrightarrow> length eligible = length rows"
      using out(1) by (auto simp: summarises_def summarised_def eligible_def row_item_def)
    show ?thesis
    proof (cases "length eligible = length rows")
      case True
      have "\<forall>row \<in> set eligible. text_row row \<and> rr_eligible latency_repeat_rules tt row = Inr True"
        using plain by (auto simp: eligible_def list_all_iff)
      then have p: "\<forall>d \<in> set vals. positive_double d" "length vals = length rows"
        using vals(1) True by (auto elim!: latency_repeats.measured_values[of _ tt])
      then have ne: "vals \<noteq> []" using out(2) by auto
      obtain m where "positive_finite_median tt (map V_Float vals) ''metric_median'' = Inr m"
        using median_of_numbers[OF p(1) ne] by blast
      then have "parse_positive_finite tt (row_get out ''metric_median'') ''metric_median'' = Inr m"
        using vals(2) ne by (simp add: carries_def)
      moreover from this have "row_item out ''metric_median'' = Inr (row_get out ''metric_median'')"
        by (auto simp: row_item_def row_get_def parse_positive_finite_def float_of_def split: option.splits)
      ultimately have "eligible_evidence tt out = Inr True"
        using counts(1,2) True out(2,3) by (simp add: eligible_evidence_def int_cell_def)
      then show ?thesis using counts(3) True all by (simp add: row_eligible_def)
    next
      case False
      then show ?thesis using counts(3) all by (simp add: row_eligible_def)
    qed
  qed
  then show ?thesis using latency_repeats.aggregate_exact[of rows tt]
    by (cases "aggregate_repeats tt latency_repeat_rules rows") (simp_all add: latency_aggregate_def)
qed

end
