(* ===== verification/Full_Report_Correct.thy ===== *)
theory Full_Report_Correct
  imports Full_Report Report_Aggregate_Correct
begin

text \<open>
  What the full report promises: the files are read exactly when every row is valid and no case and library
  comes twice, a rounded ratio decides the comparison of the exact values, and a category passes exactly
  when the library under test is at least as good as every comparator in every case.
\<close>

section \<open>A rounded ratio decides\<close>

text \<open>Two distinct doubles differ by at least the last place of the larger one.\<close>

lemma representable_gap:
  assumes "0 < x" "x < y" "representable x" "representable y"
  shows "y / 2 ^ 53 \<le> y - x"
proof -
  obtain m i where x: "x = of_int m * 2 powi i" "\<bar>m\<bar> \<le> 2 ^ 53" using assms(3) unfolding representable_def by blast
  obtain n j where y: "y = of_int n * 2 powi j" "\<bar>n\<bar> \<le> 2 ^ 53" using assms(4) unfolding representable_def by blast
  have top: "of_int k * (2 :: rat) powi l \<le> 2 ^ 53 * 2 powi l" if "\<bar>k\<bar> \<le> 2 ^ 53" for k l
  proof -
    have "(of_int k :: rat) \<le> of_int (2 ^ 53)" using that by (subst of_int_le_iff) linarith
    then show ?thesis by simp
  qed
  have step: "(2 :: rat) powi l \<le> of_int k * 2 powi l" if "0 < of_int k * (2 :: rat) powi l" for k l
  proof -
    have "0 < k" using that using powi_pos[of l] by (simp add: zero_less_mult_iff)
    then have "(1 :: rat) \<le> of_int k" by (simp add: int_one_le_iff_zero_less)
    then show ?thesis by simp
  qed
  have yj: "y / 2 ^ 53 \<le> 2 powi j" using top[OF y(2), of j] unfolding y(1) by (simp add: pos_divide_le_eq mult.commute)
  show ?thesis
  proof (cases "j \<le> i")
    case True
    then have "y - x = of_int (n - m * 2 ^ nat (i - j)) * 2 powi j"
      unfolding x(1) y(1) powi_split[OF True] by (simp add: algebra_simps)
    then have "2 powi j \<le> y - x" using step[of "n - m * 2 ^ nat (i - j)" j] assms(2) by simp
    then show ?thesis using yj by linarith
  next
    case False
    define k where "k = j - i"
    have k: "0 < k" "i \<le> j" using False by (auto simp: k_def)
    have d: "y - x = of_int (n * 2 ^ nat k - m) * 2 powi i"
      unfolding x(1) y(1) powi_split[OF k(2)] k_def by (simp add: algebra_simps)
    have low: "2 powi i \<le> y - x" unfolding d by (rule step) (use assms(2) d in simp)
    show ?thesis
    proof (cases "y \<le> 2 ^ 53 * 2 powi i")
      case True
      then have "y / 2 ^ 53 \<le> 2 powi i" by (simp add: pos_divide_le_eq mult.commute)
      then show ?thesis using low by linarith
    next
      case large: False
      have "2 powi j \<le> y - 2 ^ 53 * 2 powi i \<or> 2 * (2 ^ 53 * 2 powi i) \<le> y"
      proof (cases "k \<le> 53")
        case True
        have "(2 :: rat) ^ 53 * 2 powi i = of_int (2 ^ nat (53 - k)) * 2 powi j"
        proof -
          have "(2 :: rat) ^ 53 = 2 powi (53 - k) * 2 powi k" by (simp flip: power_int_add)
          moreover have "(2 :: rat) powi (53 - k) = of_int (2 ^ nat (53 - k))" using True by (simp add: power_int_def)
          moreover have "(2 :: rat) powi j = 2 powi k * 2 powi i" by (simp add: k_def flip: power_int_add)
          ultimately show ?thesis by simp
        qed
        then have "y - 2 ^ 53 * 2 powi i = of_int (n - 2 ^ nat (53 - k)) * 2 powi j" unfolding y(1) by (simp add: algebra_simps)
        then show ?thesis using step[of "n - 2 ^ nat (53 - k)" j] large by simp
      next
        case False
        then have "(2 :: rat) powi (54 + i) \<le> 2 powi j" by (intro powi_mono) (simp add: k_def)
        moreover have "(2 :: rat) powi (54 + i) = 2 * (2 ^ 53 * 2 powi i)" by (simp add: power_int_add)
        moreover have "2 powi j \<le> y" using step[of n j] assms(1,2) unfolding y(1) by simp
        ultimately show ?thesis by simp
      qed
      moreover define a where "a = 2 ^ 53 * (2 :: rat) powi i"
      moreover have "x \<le> a" using top[OF x(2), of i] unfolding x(1)[symmetric] a_def .
      moreover have "y / 2 ^ 53 \<le> y / 2" using assms(1,2) by (simp add: divide_left_mono)
      ultimately show ?thesis using yj by linarith
    qed
  qed
qed

lemma rounded_ratio:
  assumes "positive_double a" "positive_double b" "fdiv a b = Some q"
  shows "fless_eq (Fin 1) q \<longleftrightarrow> number b \<le> number a"
proof -
  obtain x where x: "a = Fin x" "0 < x" "representable x" "number a = x" using assms(1) by (rule positive_doubleE)
  obtain y where y: "b = Fin y" "0 < y" "representable y" "number b = y" using assms(2) by (rule positive_doubleE)
  have q: "q = round64 (x / y)" "0 < x / y" using assms(3) x y by auto
  show ?thesis
  proof (cases "y \<le> x")
    case True
    then have "fless_eq (round64 1) q" unfolding q(1) using y(2) by (intro round64_mono) auto
    moreover have "round64 1 = Fin 1" using round64_exact[of 1] representable_int[of 1] by simp
    ultimately show ?thesis using True x(4) y(4) by simp
  next
    case False
    define t :: rat where "t = of_int (2 ^ 53 - 1) * 2 powi (- 53)"
    have "(2 :: rat) powi (- 53) = 1 / 2 ^ 53" by (simp add: power_int_def field_simps)
    then have t: "t = 1 - 1 / 2 ^ 53" unfolding t_def by simp
    then have t1: "0 < t" "t < 1" by (simp_all only: less_diff_eq diff_less_eq) simp_all
    have "representable t" unfolding representable_def
      by (intro exI[of _ "2 ^ 53 - 1"] exI[of _ "- 53"] conjI, rule t_def) auto
    then have rt: "round_abs t = t" using t1 by (intro round_abs_exact) auto
    have "y / 2 ^ 53 \<le> y - x" using False x y by (intro representable_gap) auto
    then have "x \<le> t * y" unfolding t by (simp add: algebra_simps)
    then have "x / y \<le> t" using y(2) by (simp add: pos_divide_le_eq)
    then have "round_abs (x / y) < 1" using round_abs_mono[OF q(2), of t] rt t1(2) by linarith
    then show ?thesis using False x(4) y(4) q by (simp add: round64_pos)
  qed
qed

section \<open>Loops that collect evidence\<close>

text \<open>A loop whose state stands for the evidence collected so far: a step succeeds exactly when its item
  is valid and the evidence with it still fits.\<close>

locale evidence_loop =
  fixes step :: "'x \<Rightarrow> 's \<Rightarrow> 'e + 's" and valid :: "'x \<Rightarrow> bool" and adds :: "'x \<Rightarrow> 'v list"
    and fits :: "'v list \<Rightarrow> bool" and stands :: "'s \<Rightarrow> 'v list \<Rightarrow> bool"
  assumes fits_prefix: "fits (vs @ ws) \<Longrightarrow> fits vs"
    and stands_fits: "stands s vs \<Longrightarrow> fits vs"
    and step_ok: "stands s vs \<Longrightarrow> is_ok (step x s) \<longleftrightarrow> valid x \<and> fits (vs @ adds x)"
    and step_stands: "stands s vs \<Longrightarrow> step x s = Inr t \<Longrightarrow> stands t (vs @ adds x)"
begin

lemma loop_stands: "stands s vs \<Longrightarrow> fold_r step xs s = Inr t \<Longrightarrow> stands t (vs @ concat (map adds xs))"
proof (induction xs arbitrary: s vs)
  case (Cons x xs)
  obtain u where u: "step x s = Inr u" "fold_r step xs u = Inr t" using Cons.prems(2) by (auto simp: bind_r_eq_Inr)
  from Cons.IH[OF step_stands[OF Cons.prems(1) u(1)] u(2)] show ?case by simp
qed simp

lemma loop_ok: "stands s vs \<Longrightarrow> is_ok (fold_r step xs s) \<longleftrightarrow> list_all valid xs \<and> fits (vs @ concat (map adds xs))"
proof (induction xs arbitrary: s vs)
  case Nil
  then show ?case using stands_fits by simp
next
  case (Cons x xs)
  show ?case
  proof (cases "step x s")
    case (Inl e)
    then have "\<not> (valid x \<and> fits (vs @ adds x))" using step_ok[OF Cons.prems, of x] by simp
    then show ?thesis using Inl fits_prefix[of "vs @ adds x"] by auto
  next
    case (Inr u)
    then have v: "valid x" using step_ok[OF Cons.prems, of x] by simp
    show ?thesis using Cons.IH[OF step_stands[OF Cons.prems Inr]] v Inr by simp
  qed
qed

end

section \<open>The evidence of the files\<close>

type_synonym claim = "category \<times> evidence"

definition claim_of :: "claim \<Rightarrow> category \<times> points \<times> points" where
  "claim_of = (\<lambda>(c, e). (c, ev_case e, ev_library e))"

text \<open>Two claims agree when they are of different cases, of Level 1, or of the same cardinality.\<close>

definition same_cardinality :: "claim \<Rightarrow> claim \<Rightarrow> bool" where
  "same_cardinality = (\<lambda>(c, e) (d, f). c \<noteq> d \<or> c = Cat_Level1 \<or> ev_case e \<noteq> ev_case f \<or> ev_cardinality e = ev_cardinality f)"

definition consistent :: "claim list \<Rightarrow> bool" where
  "consistent vs \<longleftrightarrow> distinct (map claim_of vs) \<and> list_all (\<lambda>v. list_all (same_cardinality v) vs) vs"

definition item_evidence :: "(points \<Rightarrow> points) \<Rightarrow> text_tables \<Rightarrow> int option \<Rightarrow> category \<Rightarrow> int \<times> csv_item \<Rightarrow> claim list" where
  "item_evidence lower tt expected c = (\<lambda>(line, item). case item of
     Csv_Failure \<Rightarrow> []
   | Csv_Row row \<Rightarrow> (case row_evidence lower tt expected c row of Inl _ \<Rightarrow> [] | Inr e \<Rightarrow> [(c, e)]))"

definition file_evidence :: "(points \<Rightarrow> points) \<Rightarrow> text_tables \<Rightarrow> int option \<Rightarrow> report_file \<Rightarrow> claim list" where
  "file_evidence lower tt expected = (\<lambda>(rel, body). case body of
     Table fieldnames items \<Rightarrow> (case classify_header fieldnames of
       None \<Rightarrow> [] | Some c \<Rightarrow> concat (map (item_evidence lower tt expected c) items))
   | _ \<Rightarrow> [])"

definition valid_item :: "(points \<Rightarrow> points) \<Rightarrow> text_tables \<Rightarrow> int option \<Rightarrow> category \<Rightarrow> int \<times> csv_item \<Rightarrow> bool" where
  "valid_item lower tt expected c = (\<lambda>(line, item). case item of
     Csv_Failure \<Rightarrow> False | Csv_Row row \<Rightarrow> is_ok (row_evidence lower tt expected c row))"

definition valid_file :: "(points \<Rightarrow> points) \<Rightarrow> text_tables \<Rightarrow> int option \<Rightarrow> report_file \<Rightarrow> bool" where
  "valid_file lower tt expected = (\<lambda>(rel, body). case body of
     Unreadable \<Rightarrow> True | Broken_Header \<Rightarrow> False
   | Table fieldnames items \<Rightarrow> (case classify_header fieldnames of
       None \<Rightarrow> True | Some c \<Rightarrow> list_all (valid_item lower tt expected c) items))"

definition report_evidence :: "(points \<Rightarrow> points) \<Rightarrow> text_tables \<Rightarrow> int option \<Rightarrow> report_file list \<Rightarrow> claim list" where
  "report_evidence lower tt expected files = concat (map (file_evidence lower tt expected) files)"

text \<open>The values of a case, by library, and the cases of a category.\<close>

definition case_values :: "claim list \<Rightarrow> category \<Rightarrow> points \<Rightarrow> (points \<times> double) list" where
  "case_values vs c k = map (\<lambda>(d, e). (ev_library e, ev_value e)) (filter (\<lambda>(d, e). d = c \<and> ev_case e = k) vs)"

definition case_ids :: "claim list \<Rightarrow> category \<Rightarrow> points set" where
  "case_ids vs c = (\<lambda>(d, e). ev_case e) ` set (filter (\<lambda>(d, e). d = c) vs)"

section \<open>The state of the reading\<close>

definition groups_stand :: "(points \<times> raw_case) list \<Rightarrow> claim list \<Rightarrow> category \<Rightarrow> bool" where
  "groups_stand gs vs c \<longleftrightarrow> distinct (map fst gs) \<and> fst ` set gs = case_ids vs c
     \<and> (\<forall>(k, raw) \<in> set gs. rc_libraries raw = map (\<lambda>(l, v). (l, [v])) (case_values vs c k))"

definition counts_stand :: "row_counts \<Rightarrow> nat \<Rightarrow> bool" where
  "counts_stand n k \<longleftrightarrow> rw_seen n = k \<and> rw_accepted n = k \<and> rw_rejected n = 0"

definition cards_stand :: "(category \<times> points \<Rightarrow> (cardinality \<times> points \<times> place) option) \<Rightarrow> claim list \<Rightarrow> bool" where
  "cards_stand cards vs \<longleftrightarrow> (\<forall>c k. case cards (c, k) of
     None \<Rightarrow> c = Cat_Level1 \<or> k \<notin> case_ids vs c
   | Some p \<Rightarrow> \<exists>e. (c, e) \<in> set vs \<and> ev_case e = k \<and> ev_cardinality e = fst p)"

definition state_stands :: "input_data \<Rightarrow> claim list \<Rightarrow> bool" where
  "state_stands st vs \<longleftrightarrow> consistent vs
     \<and> dom (in_slots st) = claim_of ` set vs
     \<and> cards_stand (in_cardinalities st) vs
     \<and> (\<forall>c. groups_stand (in_groups st c) vs c)
     \<and> (\<forall>c. counts_stand (in_counts st c) (length (filter (\<lambda>(d, e). d = c) vs)))"

lemma consistent_prefix: "consistent (vs @ ws) \<Longrightarrow> consistent vs"
  by (auto simp: consistent_def list_all_iff)

lemma same_cardinality_sym: "same_cardinality v w = same_cardinality w v"
  by (auto simp: same_cardinality_def split: prod.splits)

lemma consistent_snoc:
  "consistent (vs @ [v]) \<longleftrightarrow> consistent vs \<and> claim_of v \<notin> claim_of ` set vs \<and> list_all (same_cardinality v) vs"
proof -
  have "same_cardinality v v" by (auto simp: same_cardinality_def split: prod.splits)
  moreover have "list_all (\<lambda>w. same_cardinality w v) vs \<longleftrightarrow> list_all (same_cardinality v) vs"
    using same_cardinality_sym by (metis (full_types) list_all_iff)
  ultimately show ?thesis by (auto simp: consistent_def list_all_iff)
qed

lemma no_input_stands: "state_stands no_input []"
  by (simp add: state_stands_def no_input_def consistent_def cards_stand_def groups_stand_def counts_stand_def case_ids_def)

lemma refuse_row_ok [simp]: "refuse_row spot c m = Inr x \<longleftrightarrow> m = Inr x"
  by (auto simp: refuse_row_def split: sum.splits report_exc.splits)

lemma dict_set_new: "k \<notin> fst ` set d \<Longrightarrow> dict_set k v d = d @ [(k, v)]"
  by (induction k v d rule: dict_set.induct) auto

lemma set_dict_set: "distinct (map fst d) \<Longrightarrow> set (dict_set k v d) = insert (k, v) {p \<in> set d. fst p \<noteq> k}"
  by (induction k v d rule: dict_set.induct) (auto simp: image_iff)

lemma case_values_snoc:
  "case_values (vs @ [(c, e)]) d k = case_values vs d k @ (if d = c \<and> ev_case e = k then [(ev_library e, ev_value e)] else [])"
  by (auto simp: case_values_def)

lemma case_ids_snoc: "case_ids (vs @ [(c, e)]) d = (if d = c then insert (ev_case e) (case_ids vs d) else case_ids vs d)"
  by (auto simp: case_ids_def)

lemma fresh_library:
  assumes "claim_of (c, e) \<notin> claim_of ` set vs"
  shows "ev_library e \<notin> fst ` set (case_values vs c (ev_case e))"
  using assms by (force simp: claim_of_def case_values_def)

lemma case_values_none: "k \<notin> case_ids vs c \<Longrightarrow> case_values vs c k = []"
  by (force simp: case_ids_def case_values_def filter_empty_conv)

lemma add_case_stands:
  assumes g: "groups_stand gs vs c" and new: "claim_of (c, e) \<notin> claim_of ` set vs"
  shows "groups_stand (add_case rel e gs) (vs @ [(c, e)]) c"
proof -
  let ?k = "ev_case e"
  let ?old = "map (\<lambda>(l, v). (l, [v])) (case_values vs c ?k)"
  obtain raw where raw: "add_case rel e gs = dict_set ?k (file_value rel e raw) gs" "rc_libraries raw = ?old"
  proof (cases "map_of gs ?k")
    case None
    then have "?k \<notin> case_ids vs c" using g by (metis groups_stand_def map_of_eq_None_iff)
    then show thesis using that None by (simp add: add_case_def Let_def case_values_none)
  next
    case (Some raw)
    then have "rc_libraries raw = ?old" using g by (auto simp: groups_stand_def dest: map_of_SomeD)
    then show thesis using that Some by (simp add: add_case_def Let_def)
  qed
  have l: "ev_library e \<notin> fst ` set ?old" using fresh_library[OF new] by force
  then have m: "map_of ?old (ev_library e) = None" by (simp add: map_of_eq_None_iff)
  have "rc_libraries (file_value rel e raw) = map (\<lambda>(l, v). (l, [v])) (case_values (vs @ [(c, e)]) c ?k)"
    using dict_set_new[OF l] by (simp add: file_value_def Let_def raw(2) m case_values_snoc)
  then show ?thesis using g unfolding raw(1) groups_stand_def
    by (auto simp: distinct_dict_set set_dict_set case_ids_snoc case_values_snoc)
qed

lemma groups_stand_other: "groups_stand gs vs d \<Longrightarrow> d \<noteq> c \<Longrightarrow> groups_stand gs (vs @ [(c, e)]) d"
  by (auto simp: groups_stand_def case_ids_snoc case_values_snoc)

text \<open>The first claim of a case decides what the others must match.\<close>

lemma cards_decide:
  assumes s: "cards_stand cards vs" and v: "consistent vs" and p: "cards (c, ev_case e) = p"
  shows "list_all (same_cardinality (c, e)) vs \<longleftrightarrow> c = Cat_Level1 \<or> (case p of None \<Rightarrow> True | Some q \<Rightarrow> ev_cardinality e = fst q)"
proof (cases "c = Cat_Level1")
  case True
  then show ?thesis by (auto simp: list_all_iff same_cardinality_def)
next
  case c: False
  have s1: "case p of None \<Rightarrow> c = Cat_Level1 \<or> ev_case e \<notin> case_ids vs c
      | Some q \<Rightarrow> \<exists>f. (c, f) \<in> set vs \<and> ev_case f = ev_case e \<and> ev_cardinality f = fst q"
    using s p unfolding cards_stand_def by blast
  show ?thesis
  proof (cases p)
    case None
    then have "(d, f) \<in> set vs \<Longrightarrow> same_cardinality (c, e) (d, f)" for d f
      using s1 c by (force simp: case_ids_def same_cardinality_def)
    then show ?thesis using None by (auto simp: list_all_iff)
  next
    case (Some q)
    then obtain f where f: "(c, f) \<in> set vs" "ev_case f = ev_case e" "ev_cardinality f = fst q" using s1 by auto
    have same: "same_cardinality (c, f) w" if "w \<in> set vs" for w using v f(1) that by (auto simp: consistent_def list_all_iff)
    show ?thesis
    proof
      assume "list_all (same_cardinality (c, e)) vs"
      then have "same_cardinality (c, e) (c, f)" using f(1) by (simp add: list_all_iff)
      then show "c = Cat_Level1 \<or> (case p of None \<Rightarrow> True | Some q \<Rightarrow> ev_cardinality e = fst q)"
        using f c Some by (simp add: same_cardinality_def)
    next
      assume "c = Cat_Level1 \<or> (case p of None \<Rightarrow> True | Some q \<Rightarrow> ev_cardinality e = fst q)"
      then have "ev_cardinality e = ev_cardinality f" using f(3) c Some by simp
      then show "list_all (same_cardinality (c, e)) vs"
        using same f(2) by (auto simp: list_all_iff same_cardinality_def)
    qed
  qed
qed

lemma cards_stand_snoc:
  assumes "cards_stand cards vs"
  shows "c = Cat_Level1 \<or> cards (c, ev_case e) \<noteq> None \<Longrightarrow> cards_stand cards (vs @ [(c, e)])"
    "cards (c, ev_case e) = None \<Longrightarrow> fst p = ev_cardinality e \<Longrightarrow> cards_stand (cards((c, ev_case e) \<mapsto> p)) (vs @ [(c, e)])"
proof -
  have s: "case cards (d, k) of None \<Rightarrow> d = Cat_Level1 \<or> k \<notin> case_ids vs d
      | Some p \<Rightarrow> \<exists>e. (d, e) \<in> set vs \<and> ev_case e = k \<and> ev_cardinality e = fst p" for d k
    using assms unfolding cards_stand_def by blast
  show "cards_stand cards (vs @ [(c, e)])" if "c = Cat_Level1 \<or> cards (c, ev_case e) \<noteq> None"
    unfolding cards_stand_def
  proof (intro allI)
    fix d k
    show "case cards (d, k) of None \<Rightarrow> d = Cat_Level1 \<or> k \<notin> case_ids (vs @ [(c, e)]) d
      | Some p \<Rightarrow> \<exists>f. (d, f) \<in> set (vs @ [(c, e)]) \<and> ev_case f = k \<and> ev_cardinality f = fst p"
      using s[of d k] that by (cases "cards (d, k)") (auto simp: case_ids_snoc)
  qed
  assume n: "cards (c, ev_case e) = None" "fst p = ev_cardinality e"
  show "cards_stand (cards((c, ev_case e) \<mapsto> p)) (vs @ [(c, e)])"
    unfolding cards_stand_def
  proof (intro allI)
    fix d k
    show "case (cards((c, ev_case e) \<mapsto> p)) (d, k) of None \<Rightarrow> d = Cat_Level1 \<or> k \<notin> case_ids (vs @ [(c, e)]) d
      | Some p \<Rightarrow> \<exists>f. (d, f) \<in> set (vs @ [(c, e)]) \<and> ev_case f = k \<and> ev_cardinality f = fst p"
    proof (cases "d = c \<and> k = ev_case e")
      case True
      then show ?thesis using n(2) by (auto intro!: exI[of _ e])
    next
      case False
      then have "(cards((c, ev_case e) \<mapsto> p)) (d, k) = cards (d, k)" by auto
      then show ?thesis using s[of d k] False by (cases "cards (d, k)") (auto simp: case_ids_snoc)
    qed
  qed
qed

section \<open>One row\<close>

lemma claim_cardinality_ok:
  assumes "cards_stand (in_cardinalities st) vs" "consistent vs"
  shows "is_ok (claim_cardinality spot c e st) \<longleftrightarrow> list_all (same_cardinality (c, e)) vs"
  unfolding cards_decide[OF assms refl]
  by (auto simp: claim_cardinality_def is_ok_def split: option.splits)

lemma claim_cardinality_stands:
  assumes "cards_stand (in_cardinalities st) vs" "claim_cardinality spot c e st = Inr st'"
  shows "cards_stand (in_cardinalities st') (vs @ [(c, e)])" "st' = st\<lparr>in_cardinalities := in_cardinalities st'\<rparr>"
proof -
  have "cards_stand (in_cardinalities st') (vs @ [(c, e)]) \<and> st' = st\<lparr>in_cardinalities := in_cardinalities st'\<rparr>"
    using assms(2) cards_stand_snoc(1)[OF assms(1), of c e] cards_stand_snoc(2)[OF assms(1), of c e "(ev_cardinality e, ev_library e, spot)"]
    by (auto simp: claim_cardinality_def split: if_splits option.splits)
  then show "cards_stand (in_cardinalities st') (vs @ [(c, e)])" "st' = st\<lparr>in_cardinalities := in_cardinalities st'\<rparr>" by auto
qed

lemma read_row_ok:
  assumes "state_stands st vs"
  shows "is_ok (read_row lower tt expected rel c x st) \<longleftrightarrow> valid_item lower tt expected c x \<and> consistent (vs @ item_evidence lower tt expected c x)"
proof -
  obtain line item where x: "x = (line, item)" by (cases x)
  show ?thesis
  proof (cases item)
    case Csv_Failure
    then show ?thesis by (simp add: x read_row_def valid_item_def)
  next
    case (Csv_Row row)
    show ?thesis
    proof (cases "row_evidence lower tt expected c row")
      case (Inl err)
      then have "\<not> is_ok (refuse_row (rel, line) c (row_evidence lower tt expected c row))" by (auto simp: is_ok_iff)
      then show ?thesis using Csv_Row Inl by (auto simp: x read_row_def valid_item_def is_ok_iff Let_def bind_r_eq_Inr)
    next
      case (Inr e)
      let ?st = "count_rows c (\<lambda>n. n\<lparr>rw_seen := Suc (rw_seen n)\<rparr>) st"
      have r: "read_row lower tt expected rel c x st = bind_r (claim_slot (rel, line) c e ?st) (\<lambda>st.
          bind_r (claim_cardinality (rel, line) c e st) (\<lambda>st. Inr (accept_row rel c e st)))"
        using Csv_Row Inr by (simp add: x read_row_def refuse_row_def Let_def)
      have v: "consistent (vs @ item_evidence lower tt expected c x) \<longleftrightarrow>
          consistent vs \<and> claim_of (c, e) \<notin> claim_of ` set vs \<and> list_all (same_cardinality (c, e)) vs"
        using Csv_Row Inr by (simp add: x item_evidence_def consistent_snoc)
      have slot: "in_slots ?st (c, ev_case e, ev_library e) = None \<longleftrightarrow> claim_of (c, e) \<notin> claim_of ` set vs"
      proof -
        have "claim_of (c, e) \<in> claim_of ` set vs \<longleftrightarrow> claim_of (c, e) \<in> dom (in_slots st)" using assms by (simp add: state_stands_def)
        then show ?thesis by (cases "in_slots st (c, ev_case e, ev_library e)") (auto simp: count_rows_def claim_of_def domIff)
      qed
      show ?thesis
      proof (cases "claim_of (c, e) \<in> claim_of ` set vs")
        case True
        then have "in_slots ?st (c, ev_case e, ev_library e) \<noteq> None" using slot by blast
        then show ?thesis using v True unfolding r by (auto simp: claim_slot_def is_ok_def)
      next
        case False
        then have n: "in_slots ?st (c, ev_case e, ev_library e) = None" using slot by blast
        let ?s2 = "?st\<lparr>in_slots := (in_slots ?st)((c, ev_case e, ev_library e) \<mapsto> (rel, line))\<rparr>"
        have "is_ok (read_row lower tt expected rel c x st) \<longleftrightarrow> is_ok (claim_cardinality (rel, line) c e ?s2)"
          unfolding r using n by (auto simp: claim_slot_def is_ok_iff bind_r_eq_Inr)
        also have "\<dots> \<longleftrightarrow> list_all (same_cardinality (c, e)) vs"
          using assms by (intro claim_cardinality_ok) (auto simp: state_stands_def count_rows_def)
        finally show ?thesis using v False assms Csv_Row Inr by (auto simp: x valid_item_def state_stands_def)
      qed
    qed
  qed
qed

lemma read_row_stands:
  assumes s: "state_stands st vs" and r: "read_row lower tt expected rel c x st = Inr st'"
  shows "state_stands st' (vs @ item_evidence lower tt expected c x)"
proof -
  obtain line item where x: "x = (line, item)" by (cases x)
  have k: "consistent (vs @ item_evidence lower tt expected c x)" using read_row_ok[OF s, of lower tt expected rel c x] r by simp
  let ?st = "count_rows c (\<lambda>n. n\<lparr>rw_seen := Suc (rw_seen n)\<rparr>) st"
  obtain row e s2 s3 where e: "item = Csv_Row row" "row_evidence lower tt expected c row = Inr e"
    "claim_slot (rel, line) c e ?st = Inr s2" "claim_cardinality (rel, line) c e s2 = Inr s3" "st' = accept_row rel c e s3"
    using r by (auto simp: x read_row_def Let_def bind_r_eq_Inr split: csv_item.splits)
  have v: "item_evidence lower tt expected c x = [(c, e)]" using e by (simp add: x item_evidence_def)
  have new: "claim_of (c, e) \<notin> claim_of ` set vs" using k unfolding v consistent_snoc by blast
  have s2: "s2 = ?st\<lparr>in_slots := (in_slots ?st)((c, ev_case e, ev_library e) \<mapsto> (rel, line))\<rparr>"
    using e(3) by (auto simp: claim_slot_def split: option.splits)
  have "cards_stand (in_cardinalities s2) vs" using s by (simp add: s2 count_rows_def state_stands_def)
  note s3 = claim_cardinality_stands[OF this e(4)]
  have f: "in_slots s3 = (in_slots st)((c, ev_case e, ev_library e) \<mapsto> (rel, line))" "in_groups s3 = in_groups st"
    "in_counts s3 = in_counts ?st"
    by (subst s3(2), simp add: s2 count_rows_def)+
  have g: "groups_stand (((in_groups st)(c := add_case rel e (in_groups st c))) d) (vs @ [(c, e)]) d" for d
    using s new by (auto simp: state_stands_def intro: add_case_stands groups_stand_other)
  show ?thesis using s s3(1) k g unfolding e(5) v state_stands_def
    by (auto simp: accept_row_def Let_def count_rows_def f claim_of_def counts_stand_def)
qed

interpretation row_loop: evidence_loop "read_row lower tt expected rel c" "valid_item lower tt expected c"
  "item_evidence lower tt expected c" consistent state_stands for lower tt expected rel c
  by unfold_locales (fact consistent_prefix, simp add: state_stands_def, fact read_row_ok, fact read_row_stands)

section \<open>The files\<close>

lemma stands_file_fields [simp]:
  "state_stands (st\<lparr>in_ignored := xs\<rparr>) vs = state_stands st vs"
  "state_stands (st\<lparr>in_recognized := xs\<rparr>) vs = state_stands st vs"
  "state_stands (st\<lparr>in_files := fs\<rparr>) vs = state_stands st vs"
  by (simp_all add: state_stands_def)

lemma read_file_ok:
  assumes "state_stands st vs"
  shows "is_ok (read_file lower tt expected x st) \<longleftrightarrow> valid_file lower tt expected x \<and> consistent (vs @ file_evidence lower tt expected x)"
proof -
  obtain rel body where x: "x = (rel, body)" by (cases x)
  have v: "consistent vs" using assms by (simp add: state_stands_def)
  show ?thesis using assms v
    by (auto simp: x read_file_def valid_file_def file_evidence_def row_loop.loop_ok[of _ vs] split: report_body.splits option.splits)
qed

lemma read_file_stands:
  assumes "state_stands st vs" "read_file lower tt expected x st = Inr st'"
  shows "state_stands st' (vs @ file_evidence lower tt expected x)"
proof -
  obtain rel body where x: "x = (rel, body)" by (cases x)
  show ?thesis using assms
    by (auto simp: x read_file_def file_evidence_def dest: row_loop.loop_stands[rotated] split: report_body.splits option.splits)
qed

interpretation file_loop: evidence_loop "read_file lower tt expected" "valid_file lower tt expected"
  "file_evidence lower tt expected" consistent state_stands for lower tt expected
  by unfold_locales (fact consistent_prefix, simp add: state_stands_def, fact read_file_ok, fact read_file_stands)

lemma read_inputs_ok:
  "is_ok (read_inputs lower tt expected files) \<longleftrightarrow>
     list_all (valid_file lower tt expected) files \<and> consistent (report_evidence lower tt expected files)"
  using file_loop.loop_ok[OF no_input_stands] by (simp add: read_inputs_def report_evidence_def)

lemma read_inputs_stands:
  "read_inputs lower tt expected files = Inr st \<Longrightarrow> state_stands st (report_evidence lower tt expected files)"
  using file_loop.loop_stands[OF no_input_stands] by (simp add: read_inputs_def report_evidence_def)

text \<open>The reading succeeds exactly when every file opens or is set aside, every row of a recognised
  file is valid, no library comes twice in a case, and outside Level 1 the libraries of a case have one
  cardinality; then every row that was seen is accepted and none is ever reported as rejected.\<close>

theorem reading_exact:
  "case read_inputs lower tt expected files of
     Inl e \<Rightarrow> \<not> (list_all (valid_file lower tt expected) files \<and> consistent (report_evidence lower tt expected files))
   | Inr st \<Rightarrow> list_all (valid_file lower tt expected) files \<and> consistent (report_evidence lower tt expected files)
       \<and> (let accepted = length (filter (\<lambda>(d, e). d = c) (report_evidence lower tt expected files)) in
          in_counts st c = \<lparr>rw_seen = accepted, rw_accepted = accepted, rw_rejected = 0\<rparr>)"
proof (cases "read_inputs lower tt expected files")
  case (Inl e)
  then show ?thesis using read_inputs_ok[of lower tt expected files] by simp
next
  case (Inr st)
  then have "counts_stand (in_counts st c) (length (filter (\<lambda>(d, e). d = c) (report_evidence lower tt expected files)))"
    using read_inputs_stands[OF Inr] by (simp add: state_stands_def)
  then have "in_counts st c = (let accepted = length (filter (\<lambda>(d, e). d = c) (report_evidence lower tt expected files)) in
      \<lparr>rw_seen = accepted, rw_accepted = accepted, rw_rejected = 0\<rparr>)"
    by (cases "in_counts st c") (simp add: counts_stand_def Let_def)
  then show ?thesis using Inr read_inputs_ok[of lower tt expected files] by (simp add: Let_def)
qed

section \<open>What a row must carry\<close>

text \<open>The whole number in a cell, when the cell is filled.\<close>

definition filled_count :: "text_tables \<Rightarrow> report_row \<Rightarrow> string \<Rightarrow> int option" where
  "filled_count tt row f = (let v = row_get row f in if absent v then None else Some (digits_int (value_text tt v)))"

text \<open>Nothing reports a failure, something reports a check, and the repeat counts agree with each other, with
  the number of samples and with the count that was asked for.\<close>

definition trusted_row :: "(points \<Rightarrow> points) \<Rightarrow> text_tables \<Rightarrow> int option \<Rightarrow> report_row \<Rightarrow> bool" where
  "trusted_row lower tt expected row \<longleftrightarrow>
     (let check_cells = map (cell tt row) [''check_status'', ''check'', ''correctness_status'', ''correctness''];
        process = filled_count tt row ''process_repeats''; successful = filled_count tt row ''successful_repeats'' in
      lower (cell tt row ''status'') \<in> {lower [], pts ''ok''}
      \<and> list_ex (\<lambda>t. t \<noteq> []) check_cells
      \<and> list_all (\<lambda>t. t = [] \<or> lower t \<in> pts ` {''ok'', ''passed'', ''sampled'', ''checked-ok'', ''sampled-ok'', ''correctness-ok'',
            ''correctness-passed''}) check_cells
      \<and> (process = None \<or> successful = None \<or> process = successful)
      \<and> (expected = None \<or> expected \<in> {process, successful})
      \<and> (case row_get row ''metric_samples'' of
           V_Text t \<Rightarrow> t = [] \<or> list_all (\<lambda>n. n = None \<or> n = Some (int (length (split_on 44 t)))) [process, successful]
         | _ \<Rightarrow> True))"

lemma optional_count:
  "optional_positive_integer tt row f = Inr n \<Longrightarrow> n = filled_count tt row f"
  by (auto simp: optional_positive_integer_def filled_count_def canonical_integer_def Let_def bind_r_eq_Inr split: if_splits)


lemma sample_count:
  assumes "metric_samples tt row = Inr xs" "row_get row ''metric_samples'' = V_Text t"
  shows "length xs = length (split_on 44 t)"
  using assms by (auto simp: metric_samples_def Let_def bind_r_eq_Inr sample_values_def map_r_eq_Inr split: if_splits dest!: list_all2_lengthD)

lemma checked_row_trusted:
  assumes "checked_row lower tt expected c row = Inr r"
  shows "trusted_row lower tt expected row"
proof -
  let ?cells = "map (cell tt row) [''check_status'', ''check'', ''correctness_status'', ''correctness'']"
  let ?filled = "filter (\<lambda>v. v \<noteq> []) (map (cell tt row) (filter (\<lambda>f. row f \<noteq> None) check_fields))"
  have none: "row f = None \<Longrightarrow> cell tt row f = []" for f by (simp add: cell_text_def row_get_def absent_def)
  have cells: "set ?filled = {t \<in> set ?cells. t \<noteq> []}" using none by (auto simp: check_fields_def)
  have c: "cell tt row ''status'' = [] \<or> lower (cell tt row ''status'') = pts ''ok''" "?filled \<noteq> []"
    "list_all (\<lambda>v. lower v \<in> set accepted_checks) ?filled"
    and e: "validate_evidence_cardinality tt row expected (c = Cat_Level1) (c \<noteq> Cat_Level1) = Inr r"
    using assms unfolding checked_row_def Let_def by (simp_all only: split: if_splits) blast+
  obtain p s n where r: "optional_positive_integer tt row ''process_repeats'' = Inr p"
    "optional_positive_integer tt row ''successful_repeats'' = Inr s" "r = (p, s, n)"
    "(if absent (row_get row ''metric_samples'') then Inr None else bind_r (metric_samples tt row) (\<lambda>xs. Inr (Some (int (length xs))))) = Inr n"
    and k: "p = None \<or> s = None \<or> s = p" "expected \<noteq> None \<Longrightarrow> expected = (if p \<noteq> None then p else s)"
      "n = None \<or> (if s \<noteq> None then s else p) = None \<or> n = (if s \<noteq> None then s else p)"
    using e unfolding validate_evidence_cardinality_def Let_def bind_r_eq_Inr
    by (auto simp: bind_r_eq_Inr split: if_splits)
  have f: "filled_count tt row ''process_repeats'' = p" "filled_count tt row ''successful_repeats'' = s"
    using r(1,2) by (auto dest: optional_count)
  have samples: "n = Some (int (length (split_on 44 t)))" if "row_get row ''metric_samples'' = V_Text t" "t \<noteq> []" for t
    using r(4) that sample_count[OF _ that(1)] by (auto simp: absent_def bind_r_eq_Inr)
  have checks: "list_ex (\<lambda>t. t \<noteq> []) ?cells"
  proof -
    obtain t where "t \<in> set ?filled" using c(2) by (cases ?filled) (simp, metis list.set_intros(1))
    then have "t \<in> set ?cells \<and> t \<noteq> []" unfolding cells by blast
    then show ?thesis unfolding list_ex_iff by blast
  qed
  have accepted: "list_all (\<lambda>t. t = [] \<or> lower t \<in> pts ` {''ok'', ''passed'', ''sampled'', ''checked-ok'', ''sampled-ok'',
      ''correctness-ok'', ''correctness-passed''}) ?cells"
  proof -
    have "set accepted_checks = pts ` {''ok'', ''passed'', ''sampled'', ''checked-ok'', ''sampled-ok'', ''correctness-ok'', ''correctness-passed''}"
      unfolding accepted_checks_def set_map list.set ..
    moreover have "lower t \<in> set accepted_checks" if "t \<in> set ?cells" "t \<noteq> []" for t
      using c(3) that cells unfolding list_all_iff by blast
    ultimately show ?thesis unfolding list_all_iff by blast
  qed
  have sample: "case row_get row ''metric_samples'' of
      V_Text t \<Rightarrow> t = [] \<or> list_all (\<lambda>n. n = None \<or> n = Some (int (length (split_on 44 t)))) [p, s] | _ \<Rightarrow> True"
  proof (cases "row_get row ''metric_samples''")
    case (V_Text t)
    have "t = [] \<or> n = Some (int (length (split_on 44 t)))" using samples[OF V_Text] by blast
    then show ?thesis using V_Text k(1,3) by (cases p; cases s) auto
  qed simp_all
  have status: "lower (cell tt row ''status'') \<in> {lower [], pts ''ok''}" using c(1) by auto
  have counts: "expected = None \<or> expected \<in> {p, s}" using k(2) by (cases "expected = None") auto
  have agree: "p = None \<or> s = None \<or> p = s" using k(1) by blast
  show ?thesis unfolding trusted_row_def Let_def f
    by (intro conjI status checks agree counts sample accepted)
qed

definition trusted_item :: "(points \<Rightarrow> points) \<Rightarrow> text_tables \<Rightarrow> int option \<Rightarrow> int \<times> csv_item \<Rightarrow> bool" where
  "trusted_item lower tt expected = (\<lambda>(line, item). case item of Csv_Failure \<Rightarrow> False | Csv_Row row \<Rightarrow> trusted_row lower tt expected row)"

definition trusted_file :: "(points \<Rightarrow> points) \<Rightarrow> text_tables \<Rightarrow> int option \<Rightarrow> report_file \<Rightarrow> bool" where
  "trusted_file lower tt expected = (\<lambda>(rel, body). case body of
     Unreadable \<Rightarrow> True | Broken_Header \<Rightarrow> False
   | Table fieldnames items \<Rightarrow> classify_header fieldnames = None \<or> list_all (trusted_item lower tt expected) items)"

lemma valid_item_trusted: "valid_item lower tt expected c x \<Longrightarrow> trusted_item lower tt expected x"
  by (cases x; cases "snd x")
    (auto simp: valid_item_def trusted_item_def is_ok_iff row_evidence_def bind_r_eq_Inr intro: checked_row_trusted)

lemma valid_file_trusted: "valid_file lower tt expected x \<Longrightarrow> trusted_file lower tt expected x"
  by (auto simp: valid_file_def trusted_file_def list_all_iff
      split: report_body.splits option.splits dest!: bspec intro: valid_item_trusted)

section \<open>The values of a row\<close>

lemma fmul_double: "is_double (fmul a b)"
  by (cases a; cases b) (auto simp: signed_inf_def)

lemma zero_double: "is_double (Fin 0)"
  using representable_int[of 0] by (simp add: is_double_def)

lemma fdiv_double: "fdiv a b = Some q \<Longrightarrow> is_double q"
  by (cases a; cases b) (auto simp: signed_inf_def zero_double split: if_splits)

lemma median_metric_double: "median_metric tt row f = Inr d \<Longrightarrow> is_double d"
  by (auto simp: median_metric_def Let_def split: if_splits dest!: parse_positive_text intro: positive_is_double)

lemma case_of_double: "case_of c parts label metric m = Inr (k, l, u, d) \<Longrightarrow> m = Inr d"
  by (auto simp: case_of_def bind_r_eq_Inr)

lemma gemm_metric_double: "gemm_metric lower tt row = Inr d \<Longrightarrow> is_double d"
  by (auto simp: gemm_metric_def Let_def bind_r_eq_Inr quotient_def split: if_splits option.splits
      dest!: parse_positive_text intro: positive_is_double fdiv_double)

lemma case_reader_double: "case_reader lower tt c row = Inr (k, l, u, d) \<Longrightarrow> is_double d"
  by (cases c) (auto simp: case_reader_def level1_case_def level2_case_def scalar_latency_case_def gemm_case_def
      rank_k_case_def symm_case_def triangular_case_def matrix_case_def Let_def
      dest!: case_of_double intro: median_metric_double gemm_metric_double)

lemma parse_positive_double: "parse_positive_finite tt (V_Float d) f = Inr x \<Longrightarrow> is_double d \<Longrightarrow> positive_double x"
  by (rule parse_positive_plain) (auto simp: plain_value_def)

lemma row_evidence_positive: "row_evidence lower tt expected c row = Inr e \<Longrightarrow> positive_double (ev_value e)"
  by (auto simp: row_evidence_def Let_def bind_r_eq_Inr split: if_splits
      dest!: case_reader_double intro: parse_positive_double)

lemma report_evidence_positive: "(c, e) \<in> set (report_evidence lower tt expected files) \<Longrightarrow> positive_double (ev_value e)"
  by (auto simp: report_evidence_def file_evidence_def item_evidence_def row_evidence_positive
      split: report_body.splits option.splits csv_item.splits sum.splits)

definition positive_values :: "(points \<times> double) list \<Rightarrow> bool" where
  "positive_values found \<longleftrightarrow> list_all (\<lambda>(l, v). positive_double v) found"

lemma case_values_positive: "positive_values (case_values (report_evidence lower tt expected files) c k)"
  by (auto simp: positive_values_def case_values_def list_all_iff intro: report_evidence_positive)

section \<open>One case\<close>

lemma single_median: "positive_double v \<Longrightarrow> positive_finite_median tt [V_Float v] f = Inr v"
  by (auto elim!: positive_doubleE simp: positive_finite_median_def sample_values_def parse_positive_float)

lemma library_medians: "positive_values found \<Longrightarrow> map_r (library_median tt) (map (\<lambda>(l, v). (l, [v])) found) = Inr found"
  by (induction found) (auto simp: positive_values_def library_median_def single_median)

text \<open>At least as good: a higher throughput, a lower latency.\<close>

definition as_good :: "category \<Rightarrow> double \<Rightarrow> double \<Rightarrow> bool" where
  "as_good c z v \<longleftrightarrow> (if c = Cat_Latency then number z \<le> number v else number v \<le> number z)"

definition out_of_range :: "double \<Rightarrow> double \<Rightarrow> bool" where
  "out_of_range a b \<longleftrightarrow> (case fdiv a b of Some (Fin x) \<Rightarrow> x \<le> 0 | _ \<Rightarrow> True)"

lemma comparator_row_metric: "positive_double v \<Longrightarrow> has_metric ''value'' (comparator_row (l, v))"
  "metric_of ''value'' (comparator_row (l, v)) = v"
  by (auto elim!: positive_doubleE simp: has_metric_def comparator_row_def metric_of_def)

lemma map_r_total: "(\<And>x. x \<in> set xs \<Longrightarrow> \<exists>y. f x = Inr y) \<Longrightarrow> \<exists>ys. map_r f xs = Inr ys"
  by (induction xs) fastforce+

lemma best_comparator_exact:
  assumes "positive_values cs"
  obtains "cs = []" "best_comparator tt c cs = Inr None"
  | l v where "best_comparator tt c cs = Inr (Some (l, v))" "(l, v) \<in> set cs" "\<And>m u. (m, u) \<in> set cs \<Longrightarrow> as_good c v u"
proof (cases "cs = []")
  case True
  then show thesis using that(1) by (simp add: best_comparator_def)
next
  case False
  let ?rows = "map comparator_row cs"
  define s :: rat where "s = (if c = Cat_Latency then 1 else - 1)"
  have m: "list_all (has_metric ''value'') ?rows" using assms by (auto simp: positive_values_def list_all_iff comparator_row_metric)
  have "\<exists>y. metric_key tt ''value'' s (comparator_row (l, v)) = Inr y" if "(l, v) \<in> set cs" for l v
  proof -
    have "positive_double v" using that assms by (auto simp: positive_values_def list_all_iff)
    then show ?thesis by (auto elim!: positive_doubleE simp: metric_key_def row_item_def comparator_row_def parse_positive_float)
  qed
  then obtain items where items: "map_r (metric_key tt ''value'' s) ?rows = Inr items"
    using map_r_total[of ?rows "metric_key tt ''value'' s"] by force
  then have "items \<noteq> []" using False by (auto simp: map_r_eq_Inr)
  then obtain p where p: "min_item items = Inr p" by (cases items) (auto simp: min_item_def)
  then have pick: "bind_r (map_r (metric_key tt ''value'' s) ?rows) (\<lambda>items. bind_r (min_item items) (\<lambda>(_, row). Inr row)) = Inr (snd p)"
    by (simp add: items case_prod_beta)
  from metric_pick(1)[OF m pick] obtain l v where l: "(l, v) \<in> set cs" "snd p = comparator_row (l, v)" by auto
  have v: "positive_double v" using l(1) assms by (auto simp: positive_values_def list_all_iff)
  have "best_comparator tt c cs = Inr (Some (l, v))"
    using False pick v unfolding l(2)
    by (auto simp: best_comparator_def s_def best_lower_row_def best_higher_row_def row_item_def comparator_row_def
        float_cell_def float_of_def value_text_def elim!: positive_doubleE split: if_splits)
  moreover have "as_good c v u" if "(m, u) \<in> set cs" for m u
    using metric_pick(2)[OF m pick, of "comparator_row (m, u)"] that
    by (auto simp: l(2) comparator_row_metric as_good_def s_def split: if_splits)
  ultimately show thesis using that(2) l(1) by blast
qed

lemma case_ratio_exact:
  assumes "positive_double z" "positive_double b"
  shows "case case_ratio tt c (Some z) (Some (l, b)) of
      Inl e \<Rightarrow> out_of_range z b \<or> out_of_range b z
    | Inr (r, s) \<Rightarrow> r \<noteq> None \<and> s = (if as_good c z b then ''passed'' else ''failed'')"
proof -
  have r: "case positive_finite_ratio tt (V_Float x) (V_Float y) of
      Inl e \<Rightarrow> out_of_range x y | Inr q \<Rightarrow> fless_eq (Fin 1) q \<longleftrightarrow> number y \<le> number x"
    if p: "positive_double x" "positive_double y" for x y
  proof -
    obtain a where a: "x = Fin a" "0 < a" using p(1) by (rule positive_doubleE)
    obtain d where d: "y = Fin d" "0 < d" using p(2) by (rule positive_doubleE)
    have "fdiv x y = Some (round64 (a / d))" using a d by simp
    then show ?thesis using rounded_ratio[OF p, of "round64 (a / d)"] a d
      by (cases "round64 (a / d)")
        (auto simp: positive_finite_ratio_def parse_positive_float quotient_def parse_positive_finite_def float_of_def out_of_range_def)
  qed
  show ?thesis using r[of z b] r[of b z] assms
    by (cases "c = Cat_Latency") (auto simp: case_ratio_def as_good_def split: sum.splits)
qed

section \<open>The verdict of a case\<close>

lemma map_of_others: "map_of (filter (\<lambda>(n, _). n \<noteq> z) found) n = (if n = z then None else map_of found n)"
  by (induction found) auto

lemma requested_fold:
  fixes cs :: "('k \<times> 'v) list"
  shows "map_of (fold (\<lambda>name d. case map_of cs name of Some v \<Rightarrow> dict_set name v d | None \<Rightarrow> d) names d) n =
      (if n \<in> set names \<and> map_of cs n \<noteq> None then map_of cs n else map_of d n)"
    "distinct (map fst d) \<Longrightarrow>
      distinct (map fst (fold (\<lambda>name d. case map_of cs name of Some v \<Rightarrow> dict_set name v d | None \<Rightarrow> d) names d))"
  by (induction names arbitrary: d) (auto simp: distinct_dict_set split: option.splits)

lemma case_comparators_exact:
  assumes "case_comparators requested found = (cs, missing)" "distinct (map fst found)"
  shows "set cs = {(n, v). (n, v) \<in> set found \<and> n \<noteq> pts ''Zynum'' \<and> (requested = [] \<or> n \<in> set requested)}"
    "missing = filter (\<lambda>n. n = pts ''Zynum'' \<or> map_of found n = None) requested"
proof -
  let ?others = "filter (\<lambda>(n, _). n \<noteq> pts ''Zynum'') found"
  have "set cs = {(n, v). (n, v) \<in> set found \<and> n \<noteq> pts ''Zynum'' \<and> (requested = [] \<or> n \<in> set requested)}
    \<and> missing = filter (\<lambda>n. n = pts ''Zynum'' \<or> map_of found n = None) requested"
  proof (cases "requested = []")
    case True
    then show ?thesis using assms(1) by (auto simp: case_comparators_def)
  next
    case False
    then have c: "cs = fold (\<lambda>name d. case map_of ?others name of Some v \<Rightarrow> dict_set name v d | None \<Rightarrow> d) requested []"
      "missing = filter (\<lambda>name. map_of ?others name = None) requested"
      using assms(1) by (auto simp: case_comparators_def Let_def)
    have "distinct (map fst cs)" unfolding c(1) by (rule requested_fold(2)) simp
    then have "(n, v) \<in> set cs \<longleftrightarrow> map_of cs n = Some v" for n v by simp
    moreover have "map_of cs n = (if n \<in> set requested \<and> n \<noteq> pts ''Zynum'' then map_of found n else None)" for n
      unfolding c(1) requested_fold(1) by (auto simp: map_of_others)
    ultimately have "(n, v) \<in> set cs \<longleftrightarrow> n \<in> set requested \<and> n \<noteq> pts ''Zynum'' \<and> (n, v) \<in> set found" for n v
      using map_of_eq_Some_iff[OF assms(2)] by auto
    moreover have "missing = filter (\<lambda>n. n = pts ''Zynum'' \<or> map_of found n = None) requested"
      unfolding c(2) map_of_others by (rule filter_cong) auto
    ultimately show ?thesis using False by auto
  qed
  then show "set cs = {(n, v). (n, v) \<in> set found \<and> n \<noteq> pts ''Zynum'' \<and> (requested = [] \<or> n \<in> set requested)}"
    "missing = filter (\<lambda>n. n = pts ''Zynum'' \<or> map_of found n = None) requested" by blast+
qed

text \<open>A case passes when the library under test is at least as good as every comparator, there is one, and
  every requested one is there.\<close>

definition case_passes :: "category \<Rightarrow> points list \<Rightarrow> (points \<times> double) list \<Rightarrow> bool" where
  "case_passes c requested found = (case map_of found (pts ''Zynum'') of
     None \<Rightarrow> False
   | Some z \<Rightarrow>
       if requested = [] then
         list_ex (\<lambda>(n, _). n \<noteq> pts ''Zynum'') found \<and> list_all (\<lambda>(n, v). n = pts ''Zynum'' \<or> as_good c z v) found
       else list_all (\<lambda>n. n \<noteq> pts ''Zynum'' \<and> (case map_of found n of None \<Rightarrow> False | Some v \<Rightarrow> as_good c z v)) requested)"

definition result_passes :: "bench_result \<Rightarrow> bool" where
  "result_passes r \<longleftrightarrow> br_status r = ''passed'' \<and> br_missing r = []"

lemma as_good_trans: "as_good c z b \<Longrightarrow> as_good c b v \<Longrightarrow> as_good c z v"
  by (auto simp: as_good_def split: if_splits)

lemma aggregate_case_exact:
  assumes p: "positive_values found" and d: "distinct (map fst found)"
    and l: "rc_libraries raw = map (\<lambda>(l, v). (l, [v])) found"
  shows "case aggregate_case tt c requested (k, raw) of
      Inl e \<Rightarrow> list_ex (\<lambda>(_, a). list_ex (\<lambda>(_, b). out_of_range a b) found) found
    | Inr r \<Rightarrow> br_case_id r = k \<and> (br_status r = ''passed'' \<longrightarrow> br_ratio r \<noteq> None) \<and> (result_passes r \<longleftrightarrow> case_passes c requested found)"
proof -
  obtain cs missing where cs: "case_comparators requested found = (cs, missing)" by fastforce
  note cc = case_comparators_exact[OF cs d]
  have pv: "positive_double v" if "(n, v) \<in> set found" for n v using p that by (auto simp: positive_values_def list_all_iff)
  have pc: "positive_values cs" using pv unfolding cc(1) positive_values_def list_all_iff by auto
  have m: "map_of found n = Some v \<longleftrightarrow> (n, v) \<in> set found" for n v using d by simp
  have r: "aggregate_case tt c requested (k, raw) = bind_r (best_comparator tt c cs) (\<lambda>best.
     bind_r (case_ratio tt c (map_of found (pts ''Zynum'')) best) (\<lambda>(ratio, status).
     Inr \<lparr>br_case_id = k, br_case = rc_label raw, br_metric = rc_metric raw, br_zynum = map_of found (pts ''Zynum''),
       br_fastest = (case best of Some (name, _) \<Rightarrow> if name = [] then None else Some name | None \<Rightarrow> None),
       br_comparator = map_option snd best, br_ratio = ratio, br_status = status, br_missing = missing,
       br_sources = sort (rc_sources raw), br_libraries = sort_key fst found\<rparr>))"
    by (simp add: aggregate_case_def l library_medians[OF p] cs Let_def)
  show ?thesis
  proof (cases "map_of found (pts ''Zynum'')")
    case None
    from best_comparator_exact[OF pc, of tt c] show ?thesis
      by cases (auto simp: r None case_ratio_def result_passes_def case_passes_def)
  next
    case (Some z)
    then have z: "(pts ''Zynum'', z) \<in> set found" "positive_double z" using m pv by auto
    from best_comparator_exact[OF pc, of tt c] show ?thesis
    proof cases
      case 1
      have "\<not> case_passes c requested found"
      proof (cases "requested = []")
        case True
        then show ?thesis using cc(1) 1(1) Some by (auto simp: case_passes_def list_ex_iff)
      next
        case False
        then obtain n where "n \<in> set requested" by (cases requested) auto
        then show ?thesis using cc(1) 1(1) Some m False by (fastforce simp: case_passes_def list_all_iff split: option.splits)
      qed
      then show ?thesis using 1 by (simp add: r Some case_ratio_def result_passes_def)
    next
      case (2 n b)
      have b: "(n, b) \<in> set found" "positive_double b" using 2(2) cc(1) pv by auto
      have good: "as_good c z b \<longleftrightarrow> (\<forall>(m, v) \<in> set cs. as_good c z v)" using 2(2,3) as_good_trans by blast
      have "as_good c z b \<and> missing = [] \<longleftrightarrow> case_passes c requested found"
      proof (cases "requested = []")
        case True
        then show ?thesis using good cc 2(2) Some by (auto simp: case_passes_def list_ex_iff list_all_iff)
      next
        case False
        have none: "missing = [] \<longleftrightarrow> (\<forall>n \<in> set requested. n \<noteq> pts ''Zynum'' \<and> (\<exists>v. (n, v) \<in> set found))"
          unfolding cc(2) filter_empty_conv m[symmetric] by auto
        have "case_passes c requested found \<longleftrightarrow>
            (\<forall>n \<in> set requested. n \<noteq> pts ''Zynum'' \<and> (\<exists>v. (n, v) \<in> set found \<and> as_good c z v))"
          using False Some unfolding m[symmetric] case_passes_def list_all_iff by (auto split: option.splits)
        also have "\<dots> \<longleftrightarrow> missing = [] \<and> (\<forall>n \<in> set requested. \<forall>v. (n, v) \<in> set found \<longrightarrow> as_good c z v)"
          unfolding none m[symmetric] by auto
        also have "\<dots> \<longleftrightarrow> missing = [] \<and> as_good c z b"
          unfolding good cc(1) none using False by auto
        finally show ?thesis by blast
      qed
      then show ?thesis using case_ratio_exact[OF z(2) b(2), where tt = tt and c = c and l = n] z(1) b(1)
        by (auto simp: r 2(1) Some result_passes_def list_ex_iff split: sum.splits if_splits)
    qed
  qed
qed

section \<open>The status of a category\<close>

definition category_passes :: "claim list \<Rightarrow> points list \<Rightarrow> category \<Rightarrow> bool" where
  "category_passes vs requested c \<longleftrightarrow>
     case_ids vs c \<noteq> {} \<and> (\<forall>k \<in> case_ids vs c. case_passes c requested (case_values vs c k))"

text \<open>Two values of one case whose quotient a double cannot hold.\<close>

definition unrated :: "claim list \<Rightarrow> category \<Rightarrow> bool" where
  "unrated vs c \<longleftrightarrow> (\<exists>k \<in> case_ids vs c. list_ex (\<lambda>(_, a). list_ex (\<lambda>(_, b). out_of_range a b) (case_values vs c k)) (case_values vs c k))"

lemma case_values_distinct: "consistent vs \<Longrightarrow> distinct (map fst (case_values vs c k))"
  unfolding consistent_def
proof (induction vs)
  case (Cons v vs)
  have "distinct (map fst (case_values vs c k))" using Cons by (simp add: list_all_iff)
  then show ?case using Cons.prems by (cases v) (force simp: case_values_def claim_of_def)
qed (simp add: case_values_def)

lemma status_passed:
  assumes "\<forall>r \<in> set rs. br_status r = ''passed'' \<longrightarrow> br_ratio r \<noteq> None"
  shows "category_status rs = ''passed'' \<longleftrightarrow> rs \<noteq> [] \<and> (\<forall>r \<in> set rs. result_passes r)"
proof -
  have "rs \<noteq> [] \<Longrightarrow> \<forall>r \<in> set rs. result_passes r \<Longrightarrow> list_ex (\<lambda>r. br_ratio r \<noteq> None) rs"
    using assms by (cases rs) (auto simp: result_passes_def)
  then show ?thesis by (cases "rs = []") (auto simp: category_status_def result_passes_def list_ex_iff)
qed

lemma sorted_cases: "set (sort_key fst gs) = set gs" "sort_key fst gs = [] \<longleftrightarrow> gs = []"
  by (auto dest: arg_cong[of _ _ length])

lemma map_r_failure: "map_r f xs = Inl e \<Longrightarrow> \<exists>x \<in> set xs. f x = Inl e"
  by (induction xs) (auto simp: bind_r_eq_Inl)

lemma aggregate_category_exact:
  assumes g: "groups_stand gs vs c" and v: "consistent vs" and p: "\<And>k. positive_values (case_values vs c k)"
  shows "case aggregate_category tt c requested gs of
      Inl e \<Rightarrow> unrated vs c
    | Inr rs \<Rightarrow> category_status rs = ''passed'' \<longleftrightarrow> category_passes vs requested c"
proof -
  have ids: "fst ` set gs = case_ids vs c" using g by (simp add: groups_stand_def)
  have x: "case aggregate_case tt c requested (k, raw) of
      Inl e \<Rightarrow> list_ex (\<lambda>(_, a). list_ex (\<lambda>(_, b). out_of_range a b) (case_values vs c k)) (case_values vs c k)
    | Inr r \<Rightarrow> br_case_id r = k \<and> (br_status r = ''passed'' \<longrightarrow> br_ratio r \<noteq> None)
        \<and> (result_passes r \<longleftrightarrow> case_passes c requested (case_values vs c k))" if "(k, raw) \<in> set gs" for k raw
    by (rule aggregate_case_exact[OF p case_values_distinct[OF v]]) (use g that in \<open>auto simp: groups_stand_def\<close>)
  show ?thesis
  proof (cases "aggregate_category tt c requested gs")
    case (Inl e)
    then obtain k raw where "(k, raw) \<in> set gs" "aggregate_case tt c requested (k, raw) = Inl e"
      unfolding aggregate_category_def by (auto dest!: map_r_failure simp: sorted_cases)
    then have "unrated vs c" unfolding unrated_def ids[symmetric] using x[of k raw] by (force intro!: bexI[of _ k])
    then show ?thesis by (simp add: Inl)
  next
    case (Inr rs)
    then have rs: "list_all2 (\<lambda>kr r. aggregate_case tt c requested kr = Inr r) (sort_key fst gs) rs"
      by (simp add: aggregate_category_def map_r_eq_Inr)
    note members = map_r_members[OF Inr[unfolded aggregate_category_def]]
    have ne: "rs \<noteq> [] \<longleftrightarrow> case_ids vs c \<noteq> {}" using rs sorted_cases[of gs] unfolding ids[symmetric] by auto
    have r1: "\<exists>(k, raw) \<in> set gs. aggregate_case tt c requested (k, raw) = Inr r" if "r \<in> set rs" for r
      using members(1)[OF that] by (auto simp: sorted_cases)
    have r2: "\<exists>r \<in> set rs. aggregate_case tt c requested (k, raw) = Inr r" if "(k, raw) \<in> set gs" for k raw
      using members(2)[of "(k, raw)"] that by (auto simp: sorted_cases)
    have ratio: "\<forall>r \<in> set rs. br_status r = ''passed'' \<longrightarrow> br_ratio r \<noteq> None" using r1 x by fastforce
    have "(\<forall>r \<in> set rs. result_passes r) \<longleftrightarrow> (\<forall>k \<in> case_ids vs c. case_passes c requested (case_values vs c k))"
    proof
      assume a: "\<forall>r \<in> set rs. result_passes r"
      show "\<forall>k \<in> case_ids vs c. case_passes c requested (case_values vs c k)" unfolding ids[symmetric]
        using a r2 x by fastforce
    next
      assume a: "\<forall>k \<in> case_ids vs c. case_passes c requested (case_values vs c k)"
      show "\<forall>r \<in> set rs. result_passes r" using a r1 x unfolding ids[symmetric] by fastforce
    qed
    then show ?thesis using Inr status_passed[OF ratio] ne by (simp add: category_passes_def)
  qed
qed

text \<open>C40. A report is refused for its arguments, for the rows it reads, or for two values of a case whose
  quotient is out of range.  Otherwise it covers all categories, every row of its files carries an accepted
  check, no failure and agreeing repeat counts, and a category is reported as passed exactly when it has a
  case and, in every case, the exact value of the library under test is at least as good as that of every
  comparator, with none of the requested ones missing.\<close>

theorem full_report_exact:
  "let vs = report_evidence lower tt expected files; requested = map (normalized_library lower) comparators in
   case full_report lower tt comparators expected files of
     Inl Bad_Repeats \<Rightarrow> (case expected of Some n \<Rightarrow> n \<le> 0 | None \<Rightarrow> False)
   | Inl (Read_Stop e) \<Rightarrow> \<not> (list_all (valid_file lower tt expected) files \<and> consistent vs)
   | Inl (Aggregate_Stop e) \<Rightarrow> list_ex (unrated vs) category_order
   | Inr reports \<Rightarrow> map cr_category reports = category_order \<and> list_all (trusted_file lower tt expected) files
       \<and> list_all (\<lambda>r. cr_status r = ''passed'' \<longleftrightarrow> category_passes vs requested (cr_category r)) reports"
proof -
  define vs where "vs = report_evidence lower tt expected files"
  define requested where "requested = map (normalized_library lower) comparators"
  have p: "positive_values (case_values vs c k)" for c k unfolding vs_def by (rule case_values_positive)
  show ?thesis
  proof (cases "case expected of Some n \<Rightarrow> n \<le> 0 | None \<Rightarrow> False")
    case True
    then show ?thesis by (auto simp: full_report_def split: option.splits)
  next
    case False
    show ?thesis
    proof (cases "read_inputs lower tt expected files")
      case (Inl e)
      then show ?thesis using False read_inputs_ok[of lower tt expected files] by (simp add: full_report_def)
    next
      case (Inr st)
      note inputs = this
      then have s: "state_stands st vs" unfolding vs_def by (rule read_inputs_stands)
      have a: "case aggregate_category tt c requested (in_groups st c) of
          Inl e \<Rightarrow> unrated vs c | Inr rs \<Rightarrow> category_status rs = ''passed'' \<longleftrightarrow> category_passes vs requested c" for c
        by (rule aggregate_category_exact[OF _ _ p]) (use s in \<open>auto simp: state_stands_def\<close>)
      have f: "full_report lower tt comparators expected files = map_r (category_report_of tt requested st) category_order"
        using False Inr by (simp add: full_report_def requested_def)
      show ?thesis
      proof (cases "map_r (category_report_of tt requested st) category_order")
        case (Inl e)
        then obtain c where c: "c \<in> set category_order" "category_report_of tt requested st c = Inl e" by (auto dest: map_r_failure)
        then obtain x where "e = Aggregate_Stop x" "unrated vs c"
          using a[of c] by (auto simp: category_report_of_def split: sum.splits)
        then show ?thesis using Inl c(1) unfolding f vs_def by (auto simp: list_ex_iff)
      next
        case (Inr rs)
        have "list_all2 (\<lambda>c r. category_report_of tt requested st c = Inr r) category_order rs" using Inr by (simp add: map_r_eq_Inr)
        then have l: "list_all2 (\<lambda>c r. cr_category r = c \<and> (cr_status r = ''passed'' \<longleftrightarrow> category_passes vs requested c)) category_order rs"
        proof (rule list_all2_mono)
          fix c r assume "category_report_of tt requested st c = Inr r"
          then show "cr_category r = c \<and> (cr_status r = ''passed'' \<longleftrightarrow> category_passes vs requested c)"
            using a[of c] by (auto simp: category_report_of_def split: sum.splits)
        qed
        then have "map cr_category rs = category_order" by (auto simp: list_all2_conv_all_nth intro: nth_equalityI)
        moreover have "list_all (\<lambda>r. cr_status r = ''passed'' \<longleftrightarrow> category_passes vs requested (cr_category r)) rs"
          using l by (auto simp: list_all2_conv_all_nth list_all_length)
        moreover have "list_all (trusted_file lower tt expected) files"
          using read_inputs_ok[of lower tt expected files] inputs valid_file_trusted by (auto simp: list_all_iff)
        ultimately show ?thesis using Inr unfolding f vs_def requested_def by simp
      qed
    qed
  qed
qed

end
