(* ===== verification/Level2_Oracle.thy ===== *)
theory Level2_Oracle
  imports Report_Stats
begin

text \<open>
  The correctness oracle of the Level 2 report (\<open>bench/tools/run_level2_report.py\<close>, \<open>next_fill\<close> to
  \<open>checked_vector\<close>): reference results for dense, packed and banded storage, and the comparison of a
  library's result with them.  An array holds its numbers as Python reads them, a \<open>float\<close> or a
  \<open>complex\<close>; the two kinds of arithmetic are values of one record, so that each oracle is one
  definition.
\<close>

section \<open>Arithmetic\<close>

record 'a arith =
  ar_zero :: 'a
  ar_one :: 'a
  ar_add :: "'a \<Rightarrow> 'a \<Rightarrow> 'a"
  ar_mul :: "'a \<Rightarrow> 'a \<Rightarrow> 'a"
  ar_conj :: "'a \<Rightarrow> 'a"
  ar_real :: "'a \<Rightarrow> 'a"

type_synonym complex_double = "double \<times> double"

definition cadd :: "complex_double \<Rightarrow> complex_double \<Rightarrow> complex_double" where
  "cadd a b = (fadd (fst a) (fst b), fadd (snd a) (snd b))"

definition csub :: "complex_double \<Rightarrow> complex_double \<Rightarrow> complex_double" where
  "csub a b = (fsub (fst a) (fst b), fsub (snd a) (snd b))"

definition cmul :: "complex_double \<Rightarrow> complex_double \<Rightarrow> complex_double" where
  "cmul a b = (fsub (fmul (fst a) (fst b)) (fmul (snd a) (snd b)), fadd (fmul (fst a) (snd b)) (fmul (snd a) (fst b)))"

definition cconj :: "complex_double \<Rightarrow> complex_double" where "cconj a = (fst a, fneg (snd a))"

definition float_arith :: "double arith" where
  "float_arith = \<lparr>ar_zero = Fin 0, ar_one = Fin 1, ar_add = fadd, ar_mul = fmul, ar_conj = id, ar_real = id\<rparr>"

definition complex_arith :: "complex_double arith" where
  "complex_arith = \<lparr>ar_zero = (Fin 0, Fin 0), ar_one = (Fin 1, Fin 0), ar_add = cadd, ar_mul = cmul,
     ar_conj = cconj, ar_real = (\<lambda>a. (fst a, Fin 0))\<rparr>"

type_synonym 'a number_res = "report_exc + 'a"

definition range_to :: "int \<Rightarrow> int list" where "range_to n = [0..n - 1]"

text \<open>\<open>total += value * x\<close> over a range; \<open>alpha * total + beta * y\<close>.\<close>

definition dot_over :: "'a arith \<Rightarrow> (int \<Rightarrow> 'a number_res) \<Rightarrow> 'a list \<Rightarrow> int list \<Rightarrow> 'a number_res" where
  "dot_over ar entry x js =
     fold_r (\<lambda>j t. bind_r (entry j) (\<lambda>v. bind_r (list_item x j) (\<lambda>w. Inr (ar_add ar t (ar_mul ar v w))))) js (ar_zero ar)"

definition scaled_sum :: "'a arith \<Rightarrow> 'a \<Rightarrow> 'a number_res \<Rightarrow> 'a \<Rightarrow> 'a list \<Rightarrow> int \<Rightarrow> 'a number_res" where
  "scaled_sum ar alpha dot beta y0 i =
     bind_r dot (\<lambda>t. bind_r (list_item y0 i) (\<lambda>y. Inr (ar_add ar (ar_mul ar alpha t) (ar_mul ar beta y))))"

section \<open>Dense oracles\<close>

definition real_gemv_expected ::
  "'a arith \<Rightarrow> 'a list \<Rightarrow> 'a list \<Rightarrow> 'a list \<Rightarrow> int \<Rightarrow> int \<Rightarrow> int \<Rightarrow> 'a \<Rightarrow> 'a \<Rightarrow> string \<Rightarrow> 'a list number_res" where
  "real_gemv_expected ar matrix x y0 m n lda alpha beta tr =
     map_r (\<lambda>i. scaled_sum ar alpha
         (dot_over ar (\<lambda>j. list_item matrix (if tr = ''N'' then i + j * lda else j + i * lda)) x
           (range_to (if tr = ''N'' then n else m))) beta y0 i)
       (range_to (if tr = ''N'' then m else n))"

definition complex_gemv_expected ::
  "'a arith \<Rightarrow> 'a list \<Rightarrow> 'a list \<Rightarrow> 'a list \<Rightarrow> int \<Rightarrow> int \<Rightarrow> int \<Rightarrow> 'a \<Rightarrow> 'a \<Rightarrow> string \<Rightarrow> 'a list number_res" where
  "complex_gemv_expected ar matrix x y0 m n lda alpha beta tr =
     map_r (\<lambda>i. scaled_sum ar alpha
         (dot_over ar (\<lambda>j.
            bind_r (list_item matrix (if tr = ''N'' then i + j * lda else j + i * lda)) (\<lambda>v.
            Inr (if tr = ''C'' then ar_conj ar v else v))) x
           (range_to (if tr = ''N'' then n else m))) beta y0 i)
       (range_to (if tr = ''N'' then m else n))"

definition real_symv_expected :: "'a arith \<Rightarrow> 'a list \<Rightarrow> 'a list \<Rightarrow> 'a list \<Rightarrow> int \<Rightarrow> 'a \<Rightarrow> 'a \<Rightarrow> 'a list number_res" where
  "real_symv_expected ar matrix x y0 n alpha beta =
     map_r (\<lambda>row. scaled_sum ar alpha
         (dot_over ar (\<lambda>col. list_item matrix (if row \<le> col then row + col * n else col + row * n)) x (range_to n)) beta y0 row)
       (range_to n)"

definition hermitian_entry :: "'a arith \<Rightarrow> 'a list \<Rightarrow> int \<Rightarrow> int \<Rightarrow> int \<Rightarrow> 'a number_res" where
  "hermitian_entry ar matrix n row col =
     (if row < col then list_item matrix (row + col * n)
      else if row = col then bind_r (list_item matrix (row + col * n)) (\<lambda>v. Inr (ar_real ar v))
      else bind_r (list_item matrix (col + row * n)) (\<lambda>v. Inr (ar_conj ar v)))"

definition complex_hemv_expected :: "'a arith \<Rightarrow> 'a list \<Rightarrow> 'a list \<Rightarrow> 'a list \<Rightarrow> int \<Rightarrow> 'a \<Rightarrow> 'a \<Rightarrow> 'a list number_res" where
  "complex_hemv_expected ar matrix x y0 n alpha beta =
     map_r (\<lambda>row. scaled_sum ar alpha (dot_over ar (hermitian_entry ar matrix n row) x (range_to n)) beta y0 row) (range_to n)"

definition outside_triangle :: "string \<Rightarrow> int \<Rightarrow> int \<Rightarrow> bool" where
  "outside_triangle uplo row col \<longleftrightarrow> uplo = ''U'' \<and> row > col \<or> uplo = ''L'' \<and> row < col"

definition oriented :: "string \<Rightarrow> int \<Rightarrow> int \<Rightarrow> int \<times> int" where
  "oriented tr i j = (if tr = ''N'' then (i, j) else (j, i))"

definition real_triangular_mv_expected ::
  "'a arith \<Rightarrow> 'a list \<Rightarrow> 'a list \<Rightarrow> int \<Rightarrow> int \<Rightarrow> string \<Rightarrow> string \<Rightarrow> string \<Rightarrow> 'a list number_res" where
  "real_triangular_mv_expected ar matrix x n lda uplo tr diag =
     map_r (\<lambda>i. dot_over ar (\<lambda>j. let (row, col) = oriented tr i j in
           if diag = ''U'' \<and> row = col then Inr (ar_one ar) else list_item matrix (row + col * lda)) x
         (filter (\<lambda>j. \<not> outside_triangle uplo (fst (oriented tr i j)) (snd (oriented tr i j))) (range_to n)))
       (range_to n)"

definition complex_triangular_mv_expected ::
  "'a arith \<Rightarrow> 'a list \<Rightarrow> 'a list \<Rightarrow> int \<Rightarrow> int \<Rightarrow> string \<Rightarrow> string \<Rightarrow> string \<Rightarrow> 'a list number_res" where
  "complex_triangular_mv_expected ar matrix x n lda uplo tr diag =
     map_r (\<lambda>i. dot_over ar (\<lambda>j. let (row, col) = oriented tr i j in
           bind_r (if diag = ''U'' \<and> row = col then Inr (ar_one ar) else list_item matrix (row + col * lda)) (\<lambda>v.
           Inr (if tr = ''C'' then ar_conj ar v else v))) x
         (filter (\<lambda>j. \<not> outside_triangle uplo (fst (oriented tr i j)) (snd (oriented tr i j))) (range_to n)))
       (range_to n)"

section \<open>Updates\<close>

text \<open>\<open>out[i] += update\<close>; the rows of a column of a triangle.\<close>

definition put_item :: "'a list \<Rightarrow> int \<Rightarrow> 'a \<Rightarrow> 'a list number_res" where
  "put_item xs i v = bind_r (list_item xs i) (\<lambda>_. Inr (xs[nat (if i < 0 then i + int (length xs) else i) := v]))"

definition triangle_rows :: "string \<Rightarrow> int \<Rightarrow> int \<Rightarrow> int list" where
  "triangle_rows uplo n col = (if uplo = ''U'' then range_to (col + 1) else [col..n - 1])"

definition copied_prefix :: "'a list \<Rightarrow> int \<Rightarrow> 'a list number_res" where
  "copied_prefix matrix k = map_r (list_item matrix) (range_to k)"

definition real_ger_expected :: "'a arith \<Rightarrow> 'a list \<Rightarrow> 'a list \<Rightarrow> 'a list \<Rightarrow> int \<Rightarrow> int \<Rightarrow> int \<Rightarrow> 'a \<Rightarrow> 'a list number_res" where
  "real_ger_expected ar matrix0 x y m n lda alpha =
     bind_r (copied_prefix matrix0 (lda * n)) (fold_r (\<lambda>(row, col) out.
       bind_r (list_item out (row + col * lda)) (\<lambda>old.
       bind_r (list_item x row) (\<lambda>xv. bind_r (list_item y col) (\<lambda>yv.
       put_item out (row + col * lda) (ar_add ar old (ar_mul ar (ar_mul ar alpha xv) yv))))))
       (concat (map (\<lambda>col. map (\<lambda>row. (row, col)) (range_to m)) (range_to n))))"

definition complex_ger_expected ::
  "'a arith \<Rightarrow> 'a list \<Rightarrow> 'a list \<Rightarrow> 'a list \<Rightarrow> int \<Rightarrow> int \<Rightarrow> int \<Rightarrow> 'a \<Rightarrow> bool \<Rightarrow> 'a list number_res" where
  "complex_ger_expected ar matrix0 x y m n lda alpha conjugate_y =
     bind_r (copied_prefix matrix0 (lda * n)) (fold_r (\<lambda>col out.
       bind_r (list_item y col) (\<lambda>yv.
       let yv = (if conjugate_y then ar_conj ar yv else yv) in
       fold_r (\<lambda>row out.
         bind_r (list_item out (row + col * lda)) (\<lambda>old.
         bind_r (list_item x row) (\<lambda>xv.
         put_item out (row + col * lda) (ar_add ar old (ar_mul ar (ar_mul ar alpha xv) yv))))) (range_to m) out))
       (range_to n))"

text \<open>The update of one entry, for real and for Hermitian matrices; without \<open>y\<close> the factor is real,
  given as an element of the arithmetic.\<close>

definition real_update :: "'a arith \<Rightarrow> 'a \<Rightarrow> 'a list \<Rightarrow> 'a list option \<Rightarrow> int \<Rightarrow> int \<Rightarrow> 'a number_res" where
  "real_update ar alpha x y row col =
     bind_r (list_item x row) (\<lambda>xr. bind_r (list_item x col) (\<lambda>xc. case y of
       None \<Rightarrow> Inr (ar_mul ar (ar_mul ar alpha xr) xc)
     | Some y \<Rightarrow> bind_r (list_item y col) (\<lambda>yc. bind_r (list_item y row) (\<lambda>yr.
         Inr (ar_mul ar alpha (ar_add ar (ar_mul ar xr yc) (ar_mul ar yr xc)))))))"

definition hermitian_update :: "'a arith \<Rightarrow> 'a \<Rightarrow> 'a list \<Rightarrow> 'a list option \<Rightarrow> int \<Rightarrow> int \<Rightarrow> 'a number_res" where
  "hermitian_update ar alpha x y row col =
     bind_r (list_item x row) (\<lambda>xr. bind_r (list_item x col) (\<lambda>xc. case y of
       None \<Rightarrow> Inr (ar_mul ar (ar_mul ar alpha xr) (ar_conj ar xc))
     | Some y \<Rightarrow> bind_r (list_item y col) (\<lambda>yc. bind_r (list_item y row) (\<lambda>yr.
         Inr (ar_add ar (ar_mul ar (ar_mul ar alpha xr) (ar_conj ar yc))
           (ar_mul ar (ar_mul ar (ar_conj ar alpha) yr) (ar_conj ar xc)))))))"

definition entry_update :: "'a arith \<Rightarrow> bool \<Rightarrow> 'a \<Rightarrow> 'a list \<Rightarrow> 'a list option \<Rightarrow> int \<Rightarrow> int \<Rightarrow> 'a number_res" where
  "entry_update ar hermitian alpha x y row col =
     (if hermitian then hermitian_update ar alpha x y row col else real_update ar alpha x y row col)"

definition triangle_cells :: "string \<Rightarrow> int \<Rightarrow> (int \<times> int) list" where
  "triangle_cells uplo n = concat (map (\<lambda>col. map (\<lambda>row. (row, col)) (triangle_rows uplo n col)) (range_to n))"

definition update_step ::
  "'a arith \<Rightarrow> bool \<Rightarrow> (int \<Rightarrow> int \<Rightarrow> int) \<Rightarrow> 'a \<Rightarrow> 'a list \<Rightarrow> 'a list option \<Rightarrow> int \<times> int \<Rightarrow> 'a list \<Rightarrow> 'a list number_res" where
  "update_step ar hermitian place alpha x y = (\<lambda>(row, col) out.
     bind_r (entry_update ar hermitian alpha x y row col) (\<lambda>update.
     bind_r (list_item out (place row col)) (\<lambda>old.
     let v = ar_add ar old update in
     put_item out (place row col) (if hermitian \<and> row = col then ar_real ar v else v))))"

definition real_rank_update_expected ::
  "'a arith \<Rightarrow> 'a list \<Rightarrow> 'a list \<Rightarrow> 'a list option \<Rightarrow> int \<Rightarrow> int \<Rightarrow> 'a \<Rightarrow> string \<Rightarrow> 'a list number_res" where
  "real_rank_update_expected ar matrix0 x y n lda alpha uplo =
     bind_r (copied_prefix matrix0 (lda * n))
       (fold_r (update_step ar False (\<lambda>row col. row + col * lda) alpha x y) (triangle_cells uplo n))"

definition complex_rank_update_expected ::
  "'a arith \<Rightarrow> 'a list \<Rightarrow> 'a list \<Rightarrow> 'a list option \<Rightarrow> int \<Rightarrow> int \<Rightarrow> 'a \<Rightarrow> string \<Rightarrow> 'a list number_res" where
  "complex_rank_update_expected ar matrix0 x y n lda alpha uplo =
     bind_r (copied_prefix matrix0 (lda * n))
       (fold_r (update_step ar True (\<lambda>row col. row + col * lda) alpha x y) (triangle_cells uplo n))"

section \<open>Packed storage\<close>

definition packed_index :: "int \<Rightarrow> string \<Rightarrow> int \<Rightarrow> int \<Rightarrow> int" where
  "packed_index n uplo row col =
     (if uplo = ''U'' then col * (col + 1) div 2 + row else col * n - col * (col - 1) div 2 + row - col)"

definition packed_structured_value :: "'a arith \<Rightarrow> 'a list \<Rightarrow> int \<Rightarrow> string \<Rightarrow> int \<Rightarrow> int \<Rightarrow> bool \<Rightarrow> 'a number_res" where
  "packed_structured_value ar matrix n uplo row col hermitian =
     (let direct = (if uplo = ''U'' then row \<le> col else row \<ge> col);
        (stored_row, stored_col) = (if direct then (row, col) else (col, row)) in
      bind_r (list_item matrix (packed_index n uplo stored_row stored_col)) (\<lambda>v.
      Inr (if hermitian \<and> row = col then ar_real ar v else if hermitian \<and> \<not> direct then ar_conj ar v else v)))"

definition packed_structured_mv_expected ::
  "'a arith \<Rightarrow> 'a list \<Rightarrow> 'a list \<Rightarrow> 'a list \<Rightarrow> int \<Rightarrow> 'a \<Rightarrow> 'a \<Rightarrow> string \<Rightarrow> bool \<Rightarrow> 'a list number_res" where
  "packed_structured_mv_expected ar matrix x y0 n alpha beta uplo hermitian =
     map_r (\<lambda>row. scaled_sum ar alpha
         (dot_over ar (\<lambda>col. packed_structured_value ar matrix n uplo row col hermitian) x (range_to n)) beta y0 row)
       (range_to n)"

definition triangular_packed_value :: "'a arith \<Rightarrow> 'a list \<Rightarrow> int \<Rightarrow> string \<Rightarrow> int \<Rightarrow> int \<Rightarrow> string \<Rightarrow> 'a number_res" where
  "triangular_packed_value ar matrix n uplo row col diag =
     (if outside_triangle uplo row col then Inr (ar_zero ar)
      else if row = col \<and> diag = ''U'' then Inr (ar_one ar)
      else list_item matrix (packed_index n uplo row col))"

definition triangular_packed_mv_expected ::
  "'a arith \<Rightarrow> 'a list \<Rightarrow> 'a list \<Rightarrow> int \<Rightarrow> string \<Rightarrow> string \<Rightarrow> string \<Rightarrow> 'a list number_res" where
  "triangular_packed_mv_expected ar matrix x n uplo tr diag =
     map_r (\<lambda>i. dot_over ar (\<lambda>j. let (row, col) = oriented tr i j in
           bind_r (triangular_packed_value ar matrix n uplo row col diag) (\<lambda>v.
           Inr (if tr = ''C'' then ar_conj ar v else v))) x (range_to n))
       (range_to n)"

definition packed_rank_expected ::
  "'a arith \<Rightarrow> 'a list \<Rightarrow> 'a list \<Rightarrow> 'a list option \<Rightarrow> int \<Rightarrow> 'a \<Rightarrow> string \<Rightarrow> bool \<Rightarrow> 'a list number_res" where
  "packed_rank_expected ar matrix0 x y n alpha uplo hermitian =
     fold_r (update_step ar hermitian (packed_index n uplo) alpha x y) (triangle_cells uplo n) matrix0"

section \<open>Banded storage\<close>

definition triangular_band_value ::
  "'a arith \<Rightarrow> 'a list \<Rightarrow> int \<Rightarrow> int \<Rightarrow> string \<Rightarrow> int \<Rightarrow> int \<Rightarrow> string \<Rightarrow> 'a number_res" where
  "triangular_band_value ar matrix lda bandwidth uplo row col diag =
     (if \<bar>row - col\<bar> > bandwidth then Inr (ar_zero ar)
      else if outside_triangle uplo row col then Inr (ar_zero ar)
      else if row = col \<and> diag = ''U'' then Inr (ar_one ar)
      else list_item matrix ((if uplo = ''U'' then bandwidth + row - col else row - col) + col * lda))"

definition triangular_band_mv_expected ::
  "'a arith \<Rightarrow> 'a list \<Rightarrow> 'a list \<Rightarrow> int \<Rightarrow> int \<Rightarrow> int \<Rightarrow> string \<Rightarrow> string \<Rightarrow> string \<Rightarrow> 'a list number_res" where
  "triangular_band_mv_expected ar matrix x n lda bandwidth uplo tr diag =
     map_r (\<lambda>i. dot_over ar (\<lambda>j. let (row, col) = oriented tr i j in
           bind_r (triangular_band_value ar matrix lda bandwidth uplo row col diag) (\<lambda>v.
           Inr (if tr = ''C'' then ar_conj ar v else v))) x
         [max 0 (i - bandwidth)..min n (i + bandwidth + 1) - 1])
       (range_to n)"

definition general_band_expected ::
  "'a arith \<Rightarrow> 'a list \<Rightarrow> 'a list \<Rightarrow> 'a list \<Rightarrow> int \<Rightarrow> int \<Rightarrow> int \<Rightarrow> int \<Rightarrow> int \<Rightarrow> 'a \<Rightarrow> 'a \<Rightarrow> string \<Rightarrow> 'a list number_res" where
  "general_band_expected ar matrix x y0 m n lda kl ku alpha beta tr =
     map_r (\<lambda>i. scaled_sum ar alpha
         (dot_over ar (\<lambda>j. let (row, col) = oriented tr i j in
            bind_r (list_item matrix (ku + row - col + col * lda)) (\<lambda>v.
            Inr (if tr = ''C'' then ar_conj ar v else v))) x
           (filter (\<lambda>j. let (row, col) = oriented tr i j in \<not> (row < col - ku \<or> row > col + kl))
             (range_to (if tr = ''N'' then n else m)))) beta y0 i)
       (range_to (if tr = ''N'' then m else n))"

definition structured_band_value ::
  "'a arith \<Rightarrow> 'a list \<Rightarrow> int \<Rightarrow> int \<Rightarrow> string \<Rightarrow> int \<Rightarrow> int \<Rightarrow> bool \<Rightarrow> 'a number_res" where
  "structured_band_value ar matrix lda k uplo row col hermitian =
     (if \<bar>row - col\<bar> > k then Inr (ar_zero ar)
      else let direct = (if uplo = ''U'' then row \<le> col else row \<ge> col);
          (stored_row, stored_col) = (if direct then (row, col) else (col, row));
          index = (if uplo = ''U'' then k + stored_row - stored_col + stored_col * lda
            else stored_row - stored_col + stored_col * lda) in
        bind_r (list_item matrix index) (\<lambda>v.
        Inr (if hermitian \<and> row = col then ar_real ar v else if hermitian \<and> \<not> direct then ar_conj ar v else v)))"

definition structured_band_expected ::
  "'a arith \<Rightarrow> 'a list \<Rightarrow> 'a list \<Rightarrow> 'a list \<Rightarrow> int \<Rightarrow> int \<Rightarrow> int \<Rightarrow> 'a \<Rightarrow> 'a \<Rightarrow> string \<Rightarrow> bool \<Rightarrow> 'a list number_res" where
  "structured_band_expected ar matrix x y0 n lda k alpha beta uplo hermitian =
     map_r (\<lambda>row. scaled_sum ar alpha
         (dot_over ar (\<lambda>col. structured_band_value ar matrix lda k uplo row col hermitian) x
           [max 0 (row - k)..min n (row + k + 1) - 1]) beta y0 row)
       (range_to n)"

section \<open>The comparison\<close>

fun fabs :: "double \<Rightarrow> double" where
  "fabs (Fin x) = Fin \<bar>x\<bar>" | "fabs Nan = Nan" | "fabs _ = Pos_Inf"

text \<open>\<open>max(errors, default=0.0)\<close>: a later value replaces the best one only when it is greater, so a value
  that is not a number never replaces another one, and is never replaced.\<close>

definition max_error :: "double list \<Rightarrow> double" where
  "max_error errors = (case errors of [] \<Rightarrow> Fin 0 | e # es \<Rightarrow> fold (\<lambda>d best. fmax best d) es e)"

definition real_errors :: "double list \<Rightarrow> double list \<Rightarrow> double list number_res" where
  "real_errors actual expected =
     map_r (\<lambda>(i, e). bind_r (list_item actual i) (\<lambda>v. Inr (fabs (fsub v e)))) (zip (range_to (int (length expected))) expected)"

definition max_real_error :: "double list \<Rightarrow> double list \<Rightarrow> double number_res" where
  "max_real_error actual expected = bind_r (real_errors actual expected) (\<lambda>es. Inr (max_error es))"

text \<open>
  \<open>abs\<close> of a \<open>complex\<close>: an infinite part makes it infinite, else a part that is not a number makes it not
  a number; of two finite parts it is \<open>libm\<close>'s \<open>hypot\<close>, a parameter, and an \<open>OverflowError\<close> where that is
  not finite.
\<close>

definition complex_abs :: "(double \<Rightarrow> double \<Rightarrow> double) \<Rightarrow> complex_double \<Rightarrow> double option" where
  "complex_abs hypot a =
     (if fst a \<in> {Pos_Inf, Neg_Inf} \<or> snd a \<in> {Pos_Inf, Neg_Inf} then Some Pos_Inf
      else if fst a = Nan \<or> snd a = Nan then Some Nan
      else let r = hypot (fst a) (snd a) in if is_finite r then Some r else None)"

definition max_complex_error ::
  "(double \<Rightarrow> double \<Rightarrow> double) \<Rightarrow> complex_double list \<Rightarrow> complex_double list \<Rightarrow> double number_res" where
  "max_complex_error hypot actual expected =
     bind_r (map_r (\<lambda>(i, e). bind_r (list_item actual i) (\<lambda>v. float_number (complex_abs hypot (csub v e))))
       (zip (range_to (int (length expected))) expected)) (\<lambda>es. Inr (max_error es))"

definition tolerance :: "string \<Rightarrow> int \<Rightarrow> double number_res" where
  "tolerance kind n =
     bind_r (float_number (of_whole (max 1 n))) (\<lambda>d.
     Inr (fmul (round64 (if kind = ''f32'' \<or> kind = ''c32'' then 1 / 1000 else 1 / 10 ^ 10)) d))"

datatype check_verdict = Sampled_Ok double | Correctness_Failed double

definition judged_error :: "double \<Rightarrow> double \<Rightarrow> check_verdict" where
  "judged_error error limit = (if fless limit error then Correctness_Failed error else Sampled_Ok error)"

text \<open>\<open>checked_vector\<close> after \<open>setup\<close> and the call of the library, which leave \<open>actual\<close>.\<close>

definition checked_real_vector ::
  "double list \<Rightarrow> double list \<Rightarrow> string \<Rightarrow> int \<Rightarrow> double option \<Rightarrow> check_verdict number_res" where
  "checked_real_vector actual expected kind n limit =
     bind_r (max_real_error actual expected) (\<lambda>error.
     bind_r (case limit of Some l \<Rightarrow> Inr l | None \<Rightarrow> tolerance kind n) (\<lambda>l. Inr (judged_error error l)))"

definition checked_complex_vector ::
  "(double \<Rightarrow> double \<Rightarrow> double) \<Rightarrow> complex_double list \<Rightarrow> complex_double list \<Rightarrow> string \<Rightarrow> int \<Rightarrow> double option
    \<Rightarrow> check_verdict number_res" where
  "checked_complex_vector hypot actual expected kind n limit =
     bind_r (max_complex_error hypot actual expected) (\<lambda>error.
     bind_r (case limit of Some l \<Rightarrow> Inr l | None \<Rightarrow> tolerance kind n) (\<lambda>l. Inr (judged_error error l)))"

end
