(* ===== verification/Level2_Oracle_Correct.thy ===== *)
theory Level2_Oracle_Correct
  imports Level2_Oracle Report_Stats_Correct
begin

text \<open>
  The packed oracles agree with the dense ones, since they do the same operations in the same order, in
  any arithmetic; the locale \<open>conjugation\<close> holds what that takes of a conjugation.  Then which results
  the comparison lets pass.
\<close>

section \<open>Indices\<close>

lemma list_item_in: "0 \<le> i \<Longrightarrow> i < int (length xs) \<Longrightarrow> list_item xs i = Inr (xs ! nat i)"
  by (simp add: list_item_def)

lemma range_to_Suc: "range_to (int (Suc n)) = range_to (int n) @ [int n]"
  by (simp add: range_to_def upto_rec2)

lemma set_range_to [simp]: "set (range_to n) = {0..<n}"
  by (auto simp: range_to_def)

lemma upto_shift: "map (\<lambda>r. s + r) [a..b] = [s + a..s + b]"
proof (induction "nat (b - a + 1)" arbitrary: a)
  case (Suc k)
  then have "a \<le> b" by simp
  have "map (\<lambda>r. s + r) [a + 1..b] = [s + (a + 1)..s + b]" by (rule Suc.hyps(1)) (use Suc.hyps(2) in linarith)
  then show ?case using \<open>a \<le> b\<close> by (simp add: upto_rec1[of a] upto_rec1[of "s + a"] add.assoc)
qed simp

lemma upto_join: "0 \<le> a \<Longrightarrow> a \<le> b \<Longrightarrow> [0..a - 1] @ [a..b - 1] = [0..b - 1]"
  using upto_split2[of 0 "a - 1" "b - 1"] by (cases "a = 0") auto

lemma triangular_step: "int n * (int n + 1) div 2 + int n + 1 = int (Suc n) * (int (Suc n) + 1) div 2"
proof -
  have "int (Suc n) * (int (Suc n) + 1) = int n * (int n + 1) + (int n + 1) * 2" by (simp add: algebra_simps)
  then show ?thesis by simp
qed

lemma packed_upper: "map (\<lambda>(r, c). packed_index m ''U'' r c) (triangle_cells ''U'' (int n)) = [0..int n * (int n + 1) div 2 - 1]"
proof (induction n)
  case 0
  then show ?case by (simp add: triangle_cells_def range_to_def)
next
  case (Suc n)
  let ?t = "int n * (int n + 1) div 2"
  have "triangle_cells ''U'' (int (Suc n)) = triangle_cells ''U'' (int n) @ map (\<lambda>r. (r, int n)) [0..int n]"
    unfolding triangle_cells_def range_to_Suc by (simp add: triangle_rows_def range_to_def)
  then have "map (\<lambda>(r, c). packed_index m ''U'' r c) (triangle_cells ''U'' (int (Suc n)))
    = [0..?t - 1] @ map (\<lambda>r. ?t + r) [0..int n]"
    using Suc.IH by (simp add: packed_index_def)
  also have "\<dots> = [0..?t - 1] @ [?t..(?t + int n + 1) - 1]" by (simp add: upto_shift)
  also have "\<dots> = [0..(?t + int n + 1) - 1]" by (rule upto_join) (auto simp: pos_imp_zdiv_nonneg_iff)
  finally show ?case unfolding triangular_step .
qed

lemma packed_lower_prefix:
  assumes "c \<le> n"
  shows "map (\<lambda>(r, c). packed_index (int n) ''L'' r c)
      (concat (map (\<lambda>col. map (\<lambda>row. (row, col)) (triangle_rows ''L'' (int n) col)) (range_to (int c))))
    = [0..int c * int n - int c * (int c - 1) div 2 - 1]"
  using assms
proof (induction c)
  case 0
  then show ?case by (simp add: range_to_def)
next
  case (Suc c)
  let ?s = "\<lambda>c :: int. c * int n - c * (c - 1) div 2"
  have d: "int (Suc c) * (int (Suc c) - 1) div 2 = int c * (int c - 1) div 2 + int c"
  proof -
    have "int (Suc c) * (int (Suc c) - 1) = int c * (int c - 1) + int c * 2" by (simp add: algebra_simps)
    then show ?thesis by simp
  qed
  have s: "?s (int (Suc c)) = ?s (int c) + (int n - int c)" unfolding d by (simp add: algebra_simps)
  have pos: "0 \<le> ?s (int c)"
  proof -
    have half: "q div 2 \<le> q" if "0 \<le> q" for q :: int using that by presburger
    have "0 \<le> int c * (int c - 1)" by (cases c) auto
    note half[OF this]
    also have "int c * (int c - 1) \<le> int c * int n" using Suc.prems by (intro mult_left_mono) auto
    finally show ?thesis by simp
  qed
  have m: "map (\<lambda>r. packed_index (int n) ''L'' r (int c)) [int c..int n - 1] = [?s (int c)..?s (int c) + (int n - int c) - 1]"
    using upto_shift[of "?s (int c) - int c" "int c" "int n - 1"] by (simp add: packed_index_def algebra_simps)
  have "map (\<lambda>(r, c). packed_index (int n) ''L'' r c)
      (concat (map (\<lambda>col. map (\<lambda>row. (row, col)) (triangle_rows ''L'' (int n) col)) (range_to (int (Suc c)))))
    = [0..?s (int c) - 1] @ [?s (int c)..(?s (int c) + (int n - int c)) - 1]"
    unfolding range_to_Suc using Suc m by (simp add: triangle_rows_def comp_def)
  also have "\<dots> = [0..(?s (int c) + (int n - int c)) - 1]" by (rule upto_join) (use pos Suc.prems in auto)
  finally show ?case unfolding s .
qed

lemma packed_lower: "map (\<lambda>(r, c). packed_index (int n) ''L'' r c) (triangle_cells ''L'' (int n)) = [0..int n * (int n + 1) div 2 - 1]"
proof -
  have "int n * int n - int n * (int n - 1) div 2 = int n * (int n + 1) div 2"
  proof -
    have "even (int n * (int n - 1))" by simp
    then obtain k where k: "int n * (int n - 1) = 2 * k" by blast
    then have "int n * (int n + 1) = 2 * (int n * int n - k)" by (simp add: algebra_simps)
    then show ?thesis unfolding k by simp
  qed
  then show ?thesis using packed_lower_prefix[of n n] by (simp add: triangle_cells_def)
qed

text \<open>Walking down the columns of a triangle, the packed index counts the cells from zero without a gap
  or a repetition, for both triangles.\<close>

theorem packed_index_counts_cells:
  "map (\<lambda>(row, col). packed_index (int n) ''U'' row col) (triangle_cells ''U'' (int n)) = [0..int n * (int n + 1) div 2 - 1]
   \<and> map (\<lambda>(row, col). packed_index (int n) ''L'' row col) (triangle_cells ''L'' (int n)) = [0..int n * (int n + 1) div 2 - 1]"
  by (rule conjI[OF packed_upper packed_lower])

lemma packed_cells:
  assumes "uplo = ''U'' \<or> uplo = ''L''"
  shows "map (\<lambda>(row, col). packed_index (int n) uplo row col) (triangle_cells uplo (int n)) = [0..int n * (int n + 1) div 2 - 1]"
  using assms packed_upper packed_lower by blast

lemma packed_cell_nth:
  assumes "uplo = ''U'' \<or> uplo = ''L''" "(row, col) \<in> set (triangle_cells uplo (int n))"
  shows "0 \<le> packed_index (int n) uplo row col"
    "nat (packed_index (int n) uplo row col) < length (triangle_cells uplo (int n))"
    "triangle_cells uplo (int n) ! nat (packed_index (int n) uplo row col) = (row, col)"
proof -
  let ?cells = "triangle_cells uplo (int n)" and ?f = "\<lambda>(row, col). packed_index (int n) uplo row col"
  note m = packed_cells[OF assms(1), of n]
  obtain k where k: "k < length ?cells" "?cells ! k = (row, col)" using assms(2) by (auto simp: in_set_conv_nth)
  have len: "length ?cells = length [0..int n * (int n + 1) div 2 - 1]" using arg_cong[OF m, of length] by simp
  have "map ?f ?cells ! k = [0..int n * (int n + 1) div 2 - 1] ! k" unfolding m ..
  then have "packed_index (int n) uplo row col = int k" using k len by (simp add: nth_upto)
  then show "0 \<le> packed_index (int n) uplo row col"
    "nat (packed_index (int n) uplo row col) < length ?cells"
    "?cells ! nat (packed_index (int n) uplo row col) = (row, col)" using k by simp_all
qed

lemma distinct_cells: "uplo = ''U'' \<or> uplo = ''L'' \<Longrightarrow> distinct (triangle_cells uplo (int n))"
  using packed_cells[of uplo n] distinct_upto by (metis distinct_map)

lemma in_triangle_cells:
  "(row, col) \<in> set (triangle_cells uplo n) \<longleftrightarrow>
     0 \<le> col \<and> col < n \<and> (if uplo = ''U'' then 0 \<le> row \<and> row \<le> col else col \<le> row \<and> row < n)"
proof -
  have "(row, col) \<in> set (triangle_cells uplo n) \<longleftrightarrow> col \<in> {0..<n} \<and> row \<in> set (triangle_rows uplo n col)"
    by (auto simp: triangle_cells_def)
  then show ?thesis by (auto simp: triangle_rows_def)
qed

section \<open>Packed storage\<close>

text \<open>The packed array of a triangle, from the entries.\<close>

definition packed_of :: "string \<Rightarrow> int \<Rightarrow> (int \<Rightarrow> int \<Rightarrow> 'a) \<Rightarrow> 'a list" where
  "packed_of uplo n entry = map (\<lambda>(row, col). entry row col) (triangle_cells uplo n)"

lemma packed_of_item:
  assumes "uplo = ''U'' \<or> uplo = ''L''" "(row, col) \<in> set (triangle_cells uplo (int n))"
  shows "list_item (packed_of uplo (int n) entry) (packed_index (int n) uplo row col) = Inr (entry row col)"
  using packed_cell_nth[OF assms] by (simp add: packed_of_def list_item_in nat_less_iff)

lemma dot_over_cong:
  assumes "\<And>j. j \<in> set js \<Longrightarrow> entry j = entry' j"
  shows "dot_over ar entry x js = dot_over ar entry' x js"
proof -
  have *: "fold_r f js t = fold_r f' js t" if "\<And>j s. j \<in> set js \<Longrightarrow> f j s = f' j s"
    for f f' :: "int \<Rightarrow> 'a \<Rightarrow> report_exc + 'a" and t
    using that
  proof (induction js arbitrary: t)
    case (Cons j js)
    then show ?case by (cases "f' j t") auto
  qed simp
  show ?thesis unfolding dot_over_def by (rule *) (simp add: assms)
qed

lemma map_r_eqI: "(\<And>x. x \<in> set xs \<Longrightarrow> f x = g x) \<Longrightarrow> map_r f xs = map_r g xs"
  by (induction xs) auto

lemma dense_index:
  assumes "0 \<le> r" "r < int n" "0 \<le> c" "c < int n" "n * n \<le> length matrix"
  shows "0 \<le> r + c * int n \<and> r + c * int n < int (length matrix)"
proof -
  have "c * int n \<le> (int n - 1) * int n" using assms by (intro mult_right_mono) auto
  then have "r + c * int n < int n * int n" using assms by (simp add: algebra_simps)
  also have "\<dots> \<le> int (length matrix)" using assms(5) by (metis of_nat_le_iff of_nat_mult)
  finally show ?thesis using assms by simp
qed

text \<open>The laws of conjugation under which the two triangles of a Hermitian matrix give the same entries.\<close>

locale conjugation =
  fixes ar :: "'a arith"
  assumes conj_conj: "ar_conj ar (ar_conj ar v) = v" and real_conj: "ar_real ar (ar_conj ar v) = ar_real ar v"
begin

lemma upper_entry:
  assumes "0 \<le> row" "row < int n" "0 \<le> col" "col < int n" "n * n \<le> length matrix"
  shows "packed_structured_value ar (packed_of ''U'' (int n) (\<lambda>r c. matrix ! nat (r + c * int n))) (int n) ''U'' row col True
    = hermitian_entry ar matrix (int n) row col"
proof -
  show ?thesis using assms dense_index[OF assms(1,2,3,4,5)] dense_index[OF assms(3,4,1,2,5)]
    by (auto simp: packed_structured_value_def hermitian_entry_def packed_of_item in_triangle_cells list_item_in Let_def)
qed

lemma lower_entry:
  assumes "0 \<le> row" "row < int n" "0 \<le> col" "col < int n" "n * n \<le> length matrix"
  shows "packed_structured_value ar (packed_of ''L'' (int n) (\<lambda>r c. ar_conj ar (matrix ! nat (c + r * int n)))) (int n) ''L'' row col True
    = hermitian_entry ar matrix (int n) row col"
proof -
  show ?thesis using assms dense_index[OF assms(1,2,3,4,5)] dense_index[OF assms(3,4,1,2,5)]
    by (auto simp: packed_structured_value_def hermitian_entry_def packed_of_item in_triangle_cells list_item_in Let_def conj_conj real_conj)
qed

end

lemma fneg_fneg [simp]: "fneg (fneg d) = d"
  by (cases d) auto

interpretation complex_conj: conjugation complex_arith
  by unfold_locales (auto simp: complex_arith_def cconj_def)

interpretation float_conj: conjugation float_arith
  by unfold_locales (auto simp: float_arith_def)

lemma symmetric_entry:
  assumes "0 \<le> row" "row < int n" "0 \<le> col" "col < int n" "n * n \<le> length matrix"
  shows "packed_structured_value ar (packed_of ''U'' (int n) (\<lambda>r c. matrix ! nat (r + c * int n))) (int n) ''U'' row col False
      = list_item matrix (if row \<le> col then row + col * int n else col + row * int n)"
    "packed_structured_value ar (packed_of ''L'' (int n) (\<lambda>r c. matrix ! nat (c + r * int n))) (int n) ''L'' row col False
      = list_item matrix (if row \<le> col then row + col * int n else col + row * int n)"
  using assms dense_index[OF assms(1,2,3,4,5)] dense_index[OF assms(3,4,1,2,5)]
  by (auto simp: packed_structured_value_def packed_of_item in_triangle_cells list_item_in Let_def)

lemma mv_cong:
  assumes "\<And>row col. 0 \<le> row \<Longrightarrow> row < n \<Longrightarrow> 0 \<le> col \<Longrightarrow> col < n \<Longrightarrow> entry row col = entry' row col"
  shows "map_r (\<lambda>row. scaled_sum ar alpha (dot_over ar (entry row) x (range_to n)) beta y row) (range_to n)
    = map_r (\<lambda>row. scaled_sum ar alpha (dot_over ar (entry' row) x (range_to n)) beta y row) (range_to n)"
proof (rule map_r_eqI)
  fix row assume "row \<in> set (range_to n)"
  then have "dot_over ar (entry row) x (range_to n) = dot_over ar (entry' row) x (range_to n)"
    using assms by (intro dot_over_cong) auto
  then show "scaled_sum ar alpha (dot_over ar (entry row) x (range_to n)) beta y row
    = scaled_sum ar alpha (dot_over ar (entry' row) x (range_to n)) beta y row" by simp
qed

text \<open>C28. The packed oracle on either triangle of a symmetric matrix, and on either triangle of a Hermitian one,
  returns exactly what the dense oracle returns, rounding included.\<close>

theorem packed_matches_dense:
  "if n * n \<le> length real_matrix \<and> n * n \<le> length complex_matrix then
     packed_structured_mv_expected float_arith (packed_of ''U'' (int n) (\<lambda>r c. real_matrix ! nat (r + c * int n))) x y (int n) a b ''U'' False
       = real_symv_expected float_arith real_matrix x y (int n) a b
     \<and> packed_structured_mv_expected float_arith (packed_of ''L'' (int n) (\<lambda>r c. real_matrix ! nat (c + r * int n))) x y (int n) a b ''L'' False
       = real_symv_expected float_arith real_matrix x y (int n) a b
     \<and> packed_structured_mv_expected complex_arith (packed_of ''U'' (int n) (\<lambda>r c. complex_matrix ! nat (r + c * int n))) u v (int n) c d ''U'' True
       = complex_hemv_expected complex_arith complex_matrix u v (int n) c d
     \<and> packed_structured_mv_expected complex_arith (packed_of ''L'' (int n) (\<lambda>r c. cconj (complex_matrix ! nat (c + r * int n)))) u v (int n) c d ''L'' True
       = complex_hemv_expected complex_arith complex_matrix u v (int n) c d
   else True"
proof -
  have c: "ar_conj complex_arith = cconj" by (simp add: complex_arith_def)
  show ?thesis
    unfolding packed_structured_mv_expected_def real_symv_expected_def complex_hemv_expected_def
    by (auto intro!: mv_cong symmetric_entry complex_conj.upper_entry complex_conj.lower_entry[unfolded c])
qed

section \<open>Packed updates\<close>

lemma bind_r_assoc: "bind_r (bind_r m f) g = bind_r m (\<lambda>x. bind_r (f x) g)"
  by (cases m) auto

lemma packed_of_update:
  assumes u: "uplo = ''U'' \<or> uplo = ''L''" and cell: "(row, col) \<in> set (triangle_cells uplo (int n))"
    and len: "n * n \<le> length out"
  shows "packed_of uplo (int n) (\<lambda>r c. out[nat (row + col * int n) := v] ! nat (r + c * int n))
    = (packed_of uplo (int n) (\<lambda>r c. out ! nat (r + c * int n)))[nat (packed_index (int n) uplo row col) := v]"
proof (rule nth_equalityI)
  fix k
  let ?cells = "triangle_cells uplo (int n)"
  assume "k < length (packed_of uplo (int n) (\<lambda>r c. out[nat (row + col * int n) := v] ! nat (r + c * int n)))"
  then have k: "k < length ?cells" by (simp add: packed_of_def)
  obtain r c where rc: "?cells ! k = (r, c)" by fastforce
  have mem: "(r, c) \<in> set ?cells" using k rc by (metis nth_mem)
  have b: "0 \<le> r \<and> r < int n \<and> 0 \<le> c \<and> c < int n" if "(r, c) \<in> set ?cells" for r c
    using that by (auto simp: in_triangle_cells split: if_splits)
  have same: "nat (r + c * int n) = nat (row + col * int n) \<longleftrightarrow> (r, c) = (row, col)"
  proof
    assume "nat (r + c * int n) = nat (row + col * int n)"
    moreover have "0 \<le> r + c * int n" "0 \<le> row + col * int n" using b[OF mem] b[OF cell] by simp_all
    ultimately have e: "r + c * int n = row + col * int n" by (metis nat_eq_iff2 nat_0_le)
    have "(r + c * int n) div int n = c" "(row + col * int n) div int n = col" using b[OF mem] b[OF cell] by auto
    then show "(r, c) = (row, col)" using e by simp
  qed simp
  have at: "k = nat (packed_index (int n) uplo row col) \<longleftrightarrow> (r, c) = (row, col)"
    using packed_cell_nth[OF u cell] rc k distinct_cells[OF u, of n] by (metis nth_eq_iff_index_eq)
  have "nat (row + col * int n) < length out" using dense_index[of row n col out] b[OF cell] len by linarith
  then show "packed_of uplo (int n) (\<lambda>r c. out[nat (row + col * int n) := v] ! nat (r + c * int n)) ! k
    = (packed_of uplo (int n) (\<lambda>r c. out ! nat (r + c * int n)))[nat (packed_index (int n) uplo row col) := v] ! k"
    using same at k rc by (auto simp: packed_of_def nth_list_update)
qed (simp add: packed_of_def)

lemma update_step_packed:
  assumes u: "uplo = ''U'' \<or> uplo = ''L''" and cell: "(row, col) \<in> set (triangle_cells uplo (int n))"
    and len: "n * n \<le> length out"
  shows "update_step ar h (packed_index (int n) uplo) alpha x y (row, col) (packed_of uplo (int n) (\<lambda>r c. out ! nat (r + c * int n)))
    = bind_r (update_step ar h (\<lambda>row col. row + col * int n) alpha x y (row, col) out)
        (\<lambda>out. Inr (packed_of uplo (int n) (\<lambda>r c. out ! nat (r + c * int n))))"
proof (cases "entry_update ar h alpha x y row col")
  case (Inr update)
  have b: "0 \<le> row" "row < int n" "0 \<le> col" "col < int n" using cell by (auto simp: in_triangle_cells split: if_splits)
  note d = dense_index[OF b len]
  note p = packed_cell_nth[OF u cell]
  show ?thesis using d p packed_of_item[OF u cell, of "\<lambda>r c. out ! nat (r + c * int n)"]
    by (simp add: update_step_def Inr list_item_in put_item_def Let_def packed_of_update[OF u cell len])
qed (simp add: update_step_def)

lemma update_step_length: "update_step ar h place alpha x y c out = Inr out' \<Longrightarrow> length out' = length out"
  by (auto simp: update_step_def put_item_def bind_r_eq_Inr Let_def split: prod.splits)

lemma fold_updates_packed:
  assumes u: "uplo = ''U'' \<or> uplo = ''L''" and "set cells \<subseteq> set (triangle_cells uplo (int n))" "n * n \<le> length out"
  shows "fold_r (update_step ar h (packed_index (int n) uplo) alpha x y) cells (packed_of uplo (int n) (\<lambda>r c. out ! nat (r + c * int n)))
    = bind_r (fold_r (update_step ar h (\<lambda>row col. row + col * int n) alpha x y) cells out)
        (\<lambda>out. Inr (packed_of uplo (int n) (\<lambda>r c. out ! nat (r + c * int n))))"
  using assms(2,3)
proof (induction cells arbitrary: out)
  case (Cons cell cells)
  obtain row col where c: "cell = (row, col)" by (cases cell)
  note st = update_step_packed[OF u, of row col n out ar h alpha x y]
  show ?case
  proof (cases "update_step ar h (\<lambda>row col. row + col * int n) alpha x y (row, col) out")
    case (Inl e)
    then show ?thesis using st Cons.prems c by simp
  next
    case (Inr out')
    then have "n * n \<le> length out'" using update_step_length Cons.prems(2) by metis
    then show ?thesis using st Cons c Inr by simp
  qed
qed simp

lemma copied_prefix_all: "0 \<le> k \<Longrightarrow> k \<le> int (length xs) \<Longrightarrow> copied_prefix xs k = Inr (take (nat k) xs)"
proof -
  assume k: "0 \<le> k" "k \<le> int (length xs)"
  have "copied_prefix xs k = map_r (\<lambda>i. Inr (xs ! nat i)) (range_to k)"
    unfolding copied_prefix_def using k by (intro map_r_eqI list_item_in) auto
  also have "\<dots> = Inr (map (\<lambda>i. xs ! nat i) (range_to k))"
  proof -
    have "map_r (\<lambda>i. Inr (f i)) is = Inr (map f is)" for f :: "int \<Rightarrow> 'a" and "is" by (induction "is") auto
    then show ?thesis .
  qed
  also have "map (\<lambda>i. xs ! nat i) (range_to k) = take (nat k) xs"
    using k by (intro nth_equalityI) (auto simp: range_to_def nth_upto)
  finally show ?thesis .
qed

text \<open>C29. A rank update of a packed triangle is the dense rank update of that triangle, cell by cell and error by
  error, real or Hermitian, of rank one or two.\<close>

theorem packed_update_matches_dense:
  "if (uplo = ''U'' \<or> uplo = ''L'') \<and> length real_matrix = n * n \<and> length complex_matrix = n * n then
     packed_rank_expected float_arith (packed_of uplo (int n) (\<lambda>r c. real_matrix ! nat (r + c * int n))) x y (int n) a uplo False
       = bind_r (real_rank_update_expected float_arith real_matrix x y (int n) (int n) a uplo)
           (\<lambda>out. Inr (packed_of uplo (int n) (\<lambda>r c. out ! nat (r + c * int n))))
     \<and> packed_rank_expected complex_arith (packed_of uplo (int n) (\<lambda>r c. complex_matrix ! nat (r + c * int n))) u v (int n) c uplo True
       = bind_r (complex_rank_update_expected complex_arith complex_matrix u v (int n) (int n) c uplo)
           (\<lambda>out. Inr (packed_of uplo (int n) (\<lambda>r c. out ! nat (r + c * int n))))
   else True"
proof -
  have copy: "copied_prefix xs (int n * int n) = Inr xs" if "length xs = n * n" for xs :: "'b list"
    using copied_prefix_all[of "int n * int n" xs] that by (simp add: nat_mult_distrib)
  show ?thesis
    unfolding packed_rank_expected_def real_rank_update_expected_def complex_rank_update_expected_def
    by (auto simp: copy intro!: fold_updates_packed)
qed

section \<open>Which results the comparison lets pass\<close>

lemma fless_fmax: "a \<noteq> Nan \<Longrightarrow> fless l (fmax a d) \<longleftrightarrow> fless l a \<or> fless l d"
  by (cases l; cases a; cases d) (auto simp: fmax_def fless_def)

lemma fmax_number: "a \<noteq> Nan \<Longrightarrow> fmax a d \<noteq> Nan"
  by (cases a; cases d) (auto simp: fmax_def fless_def)

lemma fold_fmax: "a \<noteq> Nan \<Longrightarrow> fless l (fold (\<lambda>d best. fmax best d) ds a) \<longleftrightarrow> fless l a \<or> list_ex (fless l) ds"
  by (induction ds arbitrary: a) (auto simp: fless_fmax fmax_number)

lemma fold_fmax_nan: "fold (\<lambda>d best. fmax best d) ds Nan = Nan"
  by (induction ds) (simp_all add: fmax_def fless_def)

definition lets_pass :: "double \<Rightarrow> double list \<Rightarrow> bool" where
  "lets_pass l es = (if es = [] then \<not> fless l (Fin 0) else hd es = Nan \<or> list_all (\<lambda>e. \<not> fless l e) es)"

lemma judged_passes: "(\<exists>e. judged_error (max_error es) l = Sampled_Ok e) = lets_pass l es"
proof (cases es)
  case (Cons e ds)
  show ?thesis
  proof (cases "e = Nan")
    case True
    then have "max_error es = Nan" by (simp add: max_error_def Cons fold_fmax_nan)
    moreover have "\<not> fless l Nan" by (cases l) (simp_all add: fless_def)
    ultimately show ?thesis using True Cons by (simp add: judged_error_def lets_pass_def)
  next
    case False
    then show ?thesis
      by (auto simp: judged_error_def max_error_def lets_pass_def Cons fold_fmax list_all_iff list_ex_iff)
  qed
qed (auto simp: judged_error_def max_error_def lets_pass_def)

text \<open>The reported error is one of the errors, and none is above it; without errors it is zero.\<close>

definition largest :: "double \<Rightarrow> double list \<Rightarrow> bool" where
  "largest e es \<longleftrightarrow> (if es = [] then e = Fin 0 else e \<in> set es \<and> list_all (\<lambda>d. \<not> fless e d) es)"

lemma max_error_largest: "largest (max_error es) es"
proof (cases es)
  case (Cons a ds)
  have mem: "fold (\<lambda>d best. fmax best d) ds a \<in> set (a # ds)" for ds a
  proof (induction ds arbitrary: a)
    case (Cons d ds)
    then show ?case using Cons.IH[of "fmax a d"] by (auto simp: fmax_def split: if_splits)
  qed simp
  have irrefl: "\<not> fless d d" for d by (cases d) (simp_all add: fless_def)
  let ?m = "fold (\<lambda>d best. fmax best d) ds a"
  have "list_all (\<lambda>d. \<not> fless ?m d) es"
  proof (cases "a = Nan")
    case True
    then have "?m = Nan" by (simp add: fold_fmax_nan)
    then show ?thesis by (simp add: list_all_iff fless_def)
  next
    case False
    then show ?thesis using fold_fmax[OF False, of ?m ds] irrefl[of ?m] by (auto simp: Cons list_all_iff list_ex_iff)
  qed
  then show ?thesis using mem[of ds a] by (simp add: largest_def max_error_def Cons)
qed (simp add: largest_def max_error_def)

section \<open>The default tolerance\<close>

lemma round_abs_relative:
  assumes "2 powi (- 1022) \<le> x"
  shows "\<bar>round_abs x - x\<bar> \<le> x / 2 ^ 53"
proof -
  define s where "s = ilog2 x - 52"
  have pos: "0 < x" using assms powi_pos[of "- 1022"] by linarith
  have "- 1022 \<le> ilog2 x" using ilog2_mono[OF powi_pos assms] unfolding ilog2_powi .
  then have sp: "spacing x = s" by (simp add: spacing_def s_def)
  have b: "x / 2 powi s - 1 / 2 \<le> of_int (round_even (x / 2 powi s))" "of_int (round_even (x / 2 powi s)) \<le> x / 2 powi s + 1 / 2"
    using round_even_bounds by blast+
  have "\<bar>of_int (round_even (x / 2 powi s)) - x / 2 powi s\<bar> \<le> 1 / 2" using b by linarith
  then have "\<bar>(of_int (round_even (x / 2 powi s)) - x / 2 powi s) * 2 powi s\<bar> \<le> 1 / 2 * 2 powi s"
    unfolding abs_mult by (intro mult_mono) auto
  moreover have "(of_int (round_even (x / 2 powi s)) - x / 2 powi s) * 2 powi s = round_abs x - x"
    by (simp add: round_abs_def sp algebra_simps)
  moreover have "(1 / 2 :: rat) * 2 powi s \<le> x / 2 ^ 53"
  proof -
    have "(2 :: rat) powi s * 2 ^ 52 = 2 powi ilog2 x"
      using power_int_add[of "2 :: rat" s 52] by (simp add: s_def)
    then have "(2 :: rat) powi s * 2 ^ 52 \<le> x" using ilog2_bounds(1)[OF pos] by simp
    then show ?thesis by (simp add: field_simps)
  qed
  ultimately show ?thesis by linarith
qed

text \<open>The limit without a given one: a thousandth of the size for single precision, else 1e-10 of it, up to
  the rounding of three operations.\<close>

definition default_limit :: "string \<Rightarrow> int \<Rightarrow> double \<Rightarrow> bool" where
  "default_limit kind n l \<longleftrightarrow>
     (let exact = (if kind = ''f32'' \<or> kind = ''c32'' then 1 / 1000 else 1 / 10000000000) * of_int (max 1 n) in
      \<exists>x. l = Fin x \<and> \<bar>x - exact\<bar> \<le> exact / 2 ^ 51)"

lemma three_roundings:
  fixes c n u :: rat
  assumes "0 < c" "0 < n" "0 < u" "u \<le> 1 / 100"
    and r: "\<bar>c' - c\<bar> \<le> c * u" "\<bar>n' - n\<bar> \<le> n * u" "\<bar>y - c' * n'\<bar> \<le> c' * n' * u"
  shows "\<bar>y - c * n\<bar> \<le> c * n * (4 * u)"
proof -
  have c: "c * (1 - u) \<le> c'" "c' \<le> c * (1 + u)" using r(1) unfolding abs_le_iff by (simp_all add: algebra_simps)
  have n: "n * (1 - u) \<le> n'" "n' \<le> n * (1 + u)" using r(2) unfolding abs_le_iff by (simp_all add: algebra_simps)
  have c0: "0 \<le> c * (1 - u)" "0 \<le> n * (1 - u)" using assms(1-4) by simp_all
  have p1: "c * (1 - u) * (n * (1 - u)) \<le> c' * n'" by (rule mult_mono) (use c n c0 in linarith)+
  have p2: "c' * n' \<le> c * (1 + u) * (n * (1 + u))"
    by (rule mult_mono) (use c n c0 assms(1-3) in \<open>simp_all add: order_trans[OF c0(2) n(1)]\<close>)
  have y: "c' * n' * (1 - u) \<le> y" "y \<le> c' * n' * (1 + u)" using r(3) unfolding abs_le_iff by (simp_all add: algebra_simps)
  have "y \<le> c * (1 + u) * (n * (1 + u)) * (1 + u)"
    by (rule order_trans[OF y(2) mult_right_mono[OF p2]]) (use assms(3) in simp)
  also have "\<dots> = c * n * ((1 + u) * (1 + u) * (1 + u))" by (simp add: algebra_simps)
  finally have hi: "y \<le> c * n * ((1 + u) * (1 + u) * (1 + u))" .
  have "c * (1 - u) * (n * (1 - u)) * (1 - u) \<le> y"
    by (rule order_trans[OF mult_right_mono[OF p1] y(1)]) (use assms(4) in simp)
  moreover have "c * (1 - u) * (n * (1 - u)) * (1 - u) = c * n * ((1 - u) * (1 - u) * (1 - u))" by (simp add: algebra_simps)
  ultimately have lo: "c * n * ((1 - u) * (1 - u) * (1 - u)) \<le> y" by simp
  have u2: "0 \<le> u * u" "u * u \<le> u / 100" using mult_left_mono[OF assms(4), of u] assms(3) by simp_all
  have u3: "0 \<le> u * u * u" "u * u * u \<le> u / 100"
    using mult_mono[OF u2(2) assms(4)] u2(1) assms(3,4) mult_left_mono[of u 1 "u / 100"] by (simp_all add: zero_le_mult_iff)
  have "(1 + u) * (1 + u) * (1 + u) = 1 + 3 * u + 3 * (u * u) + u * u * u" by (simp add: algebra_simps)
  then have "(1 + u) * (1 + u) * (1 + u) \<le> 1 + 4 * u" using u2 u3 assms(3) by linarith
  moreover have "(1 - u) * (1 - u) * (1 - u) = 1 - 3 * u + 3 * (u * u) - u * u * u" by (simp add: algebra_simps)
  then have "1 - 4 * u \<le> (1 - u) * (1 - u) * (1 - u)" using u2 u3 assms(3) by linarith
  ultimately have b: "c * n * ((1 + u) * (1 + u) * (1 + u)) \<le> c * n * (1 + 4 * u)"
    "c * n * (1 - 4 * u) \<le> c * n * ((1 - u) * (1 - u) * (1 - u))"
    using assms(1,2) by (simp_all add: mult_left_mono)
  have up: "c * n * (1 + 4 * u) = c * n + c * n * (4 * u)" by (simp add: distrib_left)
  have down: "c * n * (1 - 4 * u) = c * n - c * n * (4 * u)" by (simp add: right_diff_distrib)
  have "y - c * n \<le> c * n * (4 * u)" using hi b(1) up by linarith
  moreover have "- (y - c * n) \<le> c * n * (4 * u)" using lo b(2) down by linarith
  ultimately show ?thesis by (rule abs_leI)
qed

lemma rounded_near:
  assumes "0 < (x :: rat)" "\<bar>y - x\<bar> \<le> x / 2 ^ 53"
  shows "x / 2 \<le> y" "y \<le> 3 / 2 * x"
proof -
  have "x / 2 ^ 53 \<le> x / 2" using assms(1) by simp
  then have "\<bar>y - x\<bar> \<le> x / 2" using assms(2) by (rule order_trans[rotated])
  then have "y - x \<le> x / 2" "- (y - x) \<le> x / 2" unfolding abs_le_iff by simp_all
  then show "x / 2 \<le> y" "y \<le> 3 / 2 * x" by simp_all
qed

lemma tolerance_exact:
  "case tolerance kind n of
     Inl x \<Rightarrow> x = Overflow_Error \<and> of_whole (max 1 n) = None
   | Inr l \<Rightarrow> of_whole (max 1 n) \<noteq> None \<and> default_limit kind n l"
proof (cases "of_whole (max 1 n)")
  case None
  then show ?thesis by (simp add: tolerance_def float_number_def)
next
  case (Some d)
  define c :: rat where "c = (if kind = ''f32'' \<or> kind = ''c32'' then 1 / 1000 else 1 / 10 ^ 10)"
  define N :: rat where "N = of_int (max 1 n)"
  have tiny: "(2 :: rat) powi (- 1022) \<le> 1 / 2 ^ 41"
  proof -
    have "(2 :: rat) powi (- 1022) \<le> 2 powi (- 41)" by (rule powi_mono) simp
    also have "(2 :: rat) powi (- 41) = 1 / 2 ^ 41" by (simp add: power_int_def field_simps)
    finally show ?thesis .
  qed
  have c: "0 < c" "1 / 2 ^ 39 \<le> c" "c \<le> 1 / 1000" by (simp_all add: c_def)
  have N: "1 \<le> N" by (simp add: N_def)
  have rc: "\<bar>round_abs c - c\<bar> \<le> c / 2 ^ 53" by (rule round_abs_relative, rule order_trans[OF tiny], rule order_trans[OF _ c(2)]) simp
  have rn: "\<bar>round_abs N - N\<bar> \<le> N / 2 ^ 53"
    by (rule round_abs_relative, rule order_trans[OF tiny], rule order_trans[OF _ N]) simp
  have d: "d = Fin (round_abs N)" "round_abs N < 2 ^ 1024"
    using Some N by (auto simp: of_whole_def N_def round64_pos split: if_splits)
  have c1: "1 / 2 ^ 40 \<le> round_abs c"
    by (rule order_trans[OF _ rounded_near(1)[OF c(1) rc]]) (use c(2) in simp)
  have c2: "round_abs c \<le> 1 / 2" using rounded_near(2)[OF c(1) rc] c(3) by linarith
  have n1: "1 / 2 \<le> round_abs N" using rounded_near(1)[OF _ rn] N by linarith
  let ?p = "round_abs c * round_abs N"
  have p: "1 / 2 ^ 40 * (1 / 2) \<le> ?p" by (intro mult_mono) (use c1 c2 n1 in auto)
  have p0: "0 < ?p" by (rule less_le_trans[OF _ p]) simp
  have pn: "(2 :: rat) powi (- 1022) \<le> ?p" by (rule order_trans[OF tiny], rule order_trans[OF _ p]) simp
  have rp: "\<bar>round_abs ?p - ?p\<bar> \<le> ?p / 2 ^ 53" by (rule round_abs_relative[OF pn])
  have "?p \<le> 1 / 2 * round_abs N" by (rule mult_right_mono) (use c1 c2 n1 in auto)
  then have "round_abs ?p < 2 ^ 1024" using rounded_near(2)[OF p0 rp] d(2) n1 by linarith
  then have l: "fmul (round64 c) d = Fin (round_abs ?p)"
    using d(1) c(1) c2 p0 by (simp add: round64_pos)
  have "\<bar>round_abs ?p - c * N\<bar> \<le> c * N / 2 ^ 51"
    using three_roundings[of c N "1 / 2 ^ 53" "round_abs c" "round_abs N" "round_abs ?p"] c(1) N rc rn rp by simp
  then have "default_limit kind n (Fin (round_abs ?p))" unfolding default_limit_def Let_def N_def c_def by auto
  then show ?thesis using Some l by (simp add: tolerance_def float_number_def c_def)
qed

section \<open>The comparison\<close>

text \<open>
  What a comparison is to answer, from the errors that can be measured (\<open>None\<close> where the absolute value
  overflows), whether the library returned too few numbers, and the limit.
\<close>

definition limit_of :: "string \<Rightarrow> int \<Rightarrow> double option \<Rightarrow> double \<Rightarrow> bool" where
  "limit_of kind n limit l \<longleftrightarrow> (case limit of None \<Rightarrow> default_limit kind n l | Some given \<Rightarrow> l = given)"

definition judged :: "double option list \<Rightarrow> bool \<Rightarrow> string \<Rightarrow> int \<Rightarrow> double option \<Rightarrow> check_verdict number_res \<Rightarrow> bool" where
  "judged measured short kind n limit r \<longleftrightarrow>
     (if None \<in> set measured then r = Inl Overflow_Error
      else if short then r = Inl Index_Error
      else if limit = None \<and> of_whole (max 1 n) = None then r = Inl Overflow_Error
      else let errors = map the measured in
        \<exists>l error. limit_of kind n limit l \<and> largest error errors
          \<and> r = Inr (if lets_pass l errors then Sampled_Ok error else Correctness_Failed error))"

text \<open>The loop over \<open>range(len(expected))\<close> reads the two arrays in step, or fails at the first error that
  overflows, or past the end of the shorter array.\<close>

lemma errors_from:
  "map_r (\<lambda>(i, e). bind_r (list_item actual i) (\<lambda>v. float_number (f v e))) (zip [int k..int (k + length expected) - 1] expected)
   = (let measured = map2 f (drop k actual) expected in
      if None \<in> set measured then Inl Overflow_Error
      else if k + length expected \<le> length actual \<or> expected = [] then Inr (map the measured) else Inl Index_Error)"
proof (induction expected arbitrary: k)
  case (Cons e es)
  have range: "[int k..int (k + length (e # es)) - 1] = int k # [int (Suc k)..int (Suc k + length es) - 1]"
    by (subst upto_rec1) (auto simp: add.commute)
  show ?case
  proof (cases "k < length actual")
    case True
    then have "list_item actual (int k) = Inr (actual ! k)" "drop k actual = actual ! k # drop (Suc k) actual"
      by (simp_all add: list_item_in Cons_nth_drop_Suc)
    then show ?thesis unfolding range using Cons.IH[of "Suc k"] True
      by (cases "f (actual ! k) e") (auto simp: Let_def float_number_def)
  next
    case False
    then show ?thesis unfolding range by (simp add: list_item_def)
  qed
qed simp

lemma errors_in_step:
  "map_r (\<lambda>(i, e). bind_r (list_item actual i) (\<lambda>v. float_number (f v e))) (zip (range_to (int (length expected))) expected)
   = (let measured = map2 f actual expected in
      if None \<in> set measured then Inl Overflow_Error
      else if length actual < length expected then Inl Index_Error else Inr (map the measured))"
  using errors_from[of actual f 0 expected] by (auto simp: range_to_def Let_def)

lemma judged_comparison:
  assumes "errors = (if None \<in> set measured then Inl Overflow_Error else if short then Inl Index_Error else Inr (map the measured))"
  shows "judged measured short kind n limit
    (bind_r (bind_r errors (\<lambda>es. Inr (max_error es))) (\<lambda>error.
     bind_r (case limit of Some l \<Rightarrow> Inr l | None \<Rightarrow> tolerance kind n) (\<lambda>l. Inr (judged_error error l))))"
proof -
  have v: "judged_error (max_error es) l
      = (if lets_pass l es then Sampled_Ok (max_error es) else Correctness_Failed (max_error es))" for l es
    using judged_passes[of es l] by (auto simp: judged_error_def split: if_splits)
  show ?thesis
  proof (cases limit)
    case None
    then show ?thesis
      using tolerance_exact[of n kind] max_error_largest[of "map the measured"]
      by (cases "tolerance kind n") (auto simp: judged_def assms v limit_of_def Let_def)
  next
    case (Some l)
    then show ?thesis
      using max_error_largest[of "map the measured"] by (auto simp: judged_def assms v limit_of_def Let_def)
  qed
qed

lemma errors_against_nan: "map2 (\<lambda>a e. Some (fabs (fsub a e))) (replicate (length es) Nan) es = replicate (length es) (Some Nan)"
  by (induction es) (simp_all add: fsub_def)

text \<open>C30. The comparison passes a result exactly when none of its errors is above the limit, or when its first error
  is not a number, and reports the largest error; the limit is the given one, or a thousandth or 1e-10 of
  the size up to rounding.  It fails exactly where the absolute value of a complex error overflows, where the
  library returned too few numbers, or where the size is beyond the floating point range.  So a library
  that returns only \<open>nan\<close> passes against every reference result, at every tolerance.\<close>

theorem comparison_exact:
  "judged (map2 (\<lambda>a e. Some (fabs (fsub a e))) actual expected) (length actual < length expected) kind n limit
     (checked_real_vector actual expected kind n limit)
   \<and> judged (map2 (\<lambda>a e. complex_abs hypot (csub a e)) cactual cexpected) (length cactual < length cexpected) kind n limit
     (checked_complex_vector hypot cactual cexpected kind n limit)
   \<and> checked_real_vector (replicate (Suc k) Nan) (replicate (Suc k) e) kind n (Some l) = Inr (Sampled_Ok Nan)"
proof -
  have real: "real_errors actual expected = (let measured = map2 (\<lambda>a e. Some (fabs (fsub a e))) actual expected in
      if None \<in> set measured then Inl Overflow_Error
      else if length actual < length expected then Inl Index_Error else Inr (map the measured))" for actual expected
    using errors_in_step[of actual "\<lambda>a e. Some (fabs (fsub a e))" expected] by (simp add: real_errors_def float_number_def)
  have "judged (map2 (\<lambda>a e. Some (fabs (fsub a e))) actual expected) (length actual < length expected) kind n limit
     (checked_real_vector actual expected kind n limit)"
    unfolding checked_real_vector_def max_real_error_def by (rule judged_comparison) (simp add: real Let_def)
  moreover have "judged (map2 (\<lambda>a e. complex_abs hypot (csub a e)) cactual cexpected) (length cactual < length cexpected) kind n limit
     (checked_complex_vector hypot cactual cexpected kind n limit)"
    unfolding checked_complex_vector_def max_complex_error_def
    by (rule judged_comparison) (simp add: errors_in_step[of cactual "\<lambda>a e. complex_abs hypot (csub a e)"] Let_def)
  moreover have "checked_real_vector (replicate (Suc k) Nan) (replicate (Suc k) e) kind n (Some l) = Inr (Sampled_Ok Nan)"
  proof -
    have "map2 (\<lambda>a e. Some (fabs (fsub a e))) (replicate (Suc k) Nan) (replicate (Suc k) e) = replicate (Suc k) (Some Nan)"
      using errors_against_nan[of "replicate (Suc k) e"] by simp
    then have "real_errors (replicate (Suc k) Nan) (replicate (Suc k) e) = Inr (replicate (Suc k) Nan)"
      by (simp add: real Let_def del: replicate_Suc)
    then have "max_real_error (replicate (Suc k) Nan) (replicate (Suc k) e) = Inr Nan"
      by (simp add: max_real_error_def max_error_def fold_fmax_nan)
    then show ?thesis by (cases l) (simp_all add: checked_real_vector_def judged_error_def fless_def)
  qed
  ultimately show ?thesis by blast
qed

end
