(* ===== verification/Worker_Aggregate_Correct.thy ===== *)
theory Worker_Aggregate_Correct
  imports Report_Aggregate_Correct
begin

text \<open>
  The Level 2 runner: its rows carry the same promises as those of \<open>Report_Aggregate_Correct\<close>, a repeat may
  lack a case, and the cases of all repeats of a worker come out once each, in order.
\<close>

section \<open>The Level 2 runner\<close>

definition level2_text :: "report_row option \<Rightarrow> bool" where
  "level2_text r = (case r of None \<Rightarrow> True | Some row \<Rightarrow> text_row row)"

lemma level2_eligible_total: "level2_text r \<Longrightarrow> \<exists>b. level2_repeat_eligible tt r = Inr b"
  using timed_evidence_text false_on_caught exists_false
  by (cases r) (simp_all add: level2_text_def level2_repeat_eligible_def)

lemma level2_eligible_measured:
  assumes "text_row row" "level2_repeat_eligible tt (Some row) = Inr True"
  shows "status_eligible row" "\<exists>d. float_item tt row ''rate_gops'' = Inr d \<and> positive_double d"
  using assms timed_evidence_measured false_on_True
  by (fastforce simp: level2_repeat_eligible_def split: if_splits)+

lemma existing_eligible:
  "List.map_filter id (filter (\<lambda>r. level2_repeat_eligible tt r = Inr True) rows)
   = filter (\<lambda>row. level2_repeat_eligible tt (Some row) = Inr True) (List.map_filter id rows)"
  by (induction rows) (auto simp: List.map_filter_simps level2_repeat_eligible_def split: option.splits)

lemma level2_validated:
  "is_ok (fold_r (level2_validate tt) (zip [k..<k + length rows] rows) ())
   = (\<not> list_ex (invalid tt [''time_ns'', ''rate_gops'']) (List.map_filter id rows))"
proof (induction rows arbitrary: k)
  case (Cons r rows)
  have range: "[k..<k + length (r # rows)] = k # [Suc k..<Suc k + length rows]" by (simp add: upt_rec)
  show ?case
  proof (cases r)
    case None
    then show ?thesis using Cons.IH[of "Suc k"] range by (simp add: level2_validate_def List.map_filter_simps)
  next
    case (Some row)
    show ?thesis
    proof (cases "validate_repeat tt ''Level 2'' [''time_ns'', ''rate_gops''] (k, row) ()")
      case (Inl e)
      then show ?thesis using validate_repeat_ok[of tt "''Level 2''" "[''time_ns'', ''rate_gops'']" k row "()"] range Some
        by (simp add: level2_validate_def List.map_filter_simps)
    next
      case (Inr u)
      then show ?thesis using validate_repeat_ok[of tt "''Level 2''" "[''time_ns'', ''rate_gops'']" k row "()"] range Some Cons.IH[of "Suc k"]
        by (simp add: level2_validate_def List.map_filter_simps)
    qed
  qed
qed (simp add: List.map_filter_simps)

lemma level2_error_text: "text_row row \<Longrightarrow> \<exists>errors'. level2_error tt row errors = Inr errors'"
proof (cases "float_item tt row ''check_max_abs_error''")
  case (Inl e)
  assume "text_row row"
  then have "caught_key_value e" using Inl row_item_text[of row "''check_max_abs_error''"]
    by (auto simp: float_item_def bind_r_eq_Inl dest: row_item_error float_cell_text_error)
  then show ?thesis using Inl by (simp add: level2_error_def)
qed (simp add: level2_error_def)

lemma level2_notes:
  "list_all level2_text rows \<Longrightarrow> \<exists>s. fold_r (level2_note tt) (zip [k..<k + length rows] rows) t = Inr s"
proof (induction rows arbitrary: k t)
  case (Cons r rows)
  have range: "[k..<k + length (r # rows)] = k # [Suc k..<Suc k + length rows]" by (simp add: upt_rec)
  obtain errors details where t: "t = (errors, details)" by fastforce
  have "\<exists>s. level2_note tt (k, r) t = Inr s"
  proof (cases r)
    case (Some row)
    then have "text_row row" using Cons.prems by (simp add: level2_text_def)
    from level2_error_text[OF this] obtain es where "level2_error tt row errors = Inr es" by blast
    moreover obtain b where "level2_repeat_eligible tt (Some row) = Inr b"
      using level2_eligible_total Some Cons.prems by fastforce
    ultimately show ?thesis using Some t by (simp add: level2_note_def)
  qed (simp add: level2_note_def t)
  then obtain t' where t': "level2_note tt (k, r) t = Inr t'" by blast
  obtain u where "fold_r (level2_note tt) (zip [Suc k..<Suc k + length rows] rows) t' = Inr u"
    using Cons.IH[of "Suc k" t'] Cons.prems by auto
  then show ?case unfolding range zip_Cons_Cons fold_r.simps t' bind_r_simps by blast
qed simp

lemma level2_total:
  assumes plain: "list_all level2_text rows" and ex: "existing = List.map_filter id rows" "existing \<noteq> []"
    and ok: "\<not> list_ex (invalid tt [''time_ns'', ''rate_gops'']) existing"
    and el: "eligible = filter (\<lambda>row. level2_repeat_eligible tt (Some row) = Inr True) existing"
  obtains out where "aggregate_repeat_group tt rows = Inr out" "summarised tt ''rate_gops'' eligible (length rows) out"
proof -
  have rows_text: "\<forall>row \<in> set existing. text_row row" using plain unfolding ex(1)
    by (auto simp: list_all_iff level2_text_def List.map_filter_def)
  have filtered: "filter_r (level2_repeat_eligible tt) rows = Inr (filter (\<lambda>r. level2_repeat_eligible tt r = Inr True) rows)"
    using filter_r_total[of rows] level2_eligible_total plain by (metis list_all_iff)
  have chosen: "List.map_filter id (filter (\<lambda>r. level2_repeat_eligible tt r = Inr True) rows) = eligible"
    using existing_eligible ex(1) el by metis
  have elig: "\<forall>row \<in> set eligible. status_eligible row \<and> (\<exists>d. float_item tt row ''rate_gops'' = Inr d \<and> positive_double d)"
    using level2_eligible_measured rows_text unfolding el by auto
  obtain base where base: "(if eligible = [] then Inr (hd existing) else best_by tt higher ''rate_gops'' eligible) = Inr base"
      "eligible = [] \<or> base \<in> set eligible"
    using best_by_member[of eligible tt "''rate_gops''" higher] elig by metis
  obtain vals where vals: "map_r (\<lambda>row. float_item tt row ''rate_gops'') eligible = Inr vals" "\<forall>d \<in> set vals. positive_double d"
    using map_r_measured[of eligible "\<lambda>row. float_item tt row ''rate_gops''"] elig by blast
  obtain summary where summary: "summary_of tt vals = Inr summary" "carries tt vals (map_of summary)" "map fst summary = evidence_fields"
    using summary_carries[OF vals(2)] by blast
  obtain errors details where noted: "fold_r (level2_note tt) (numbered 0 rows) ([], []) = Inr (errors, details)"
    using level2_notes[OF plain, of tt 0 "([], [])"] by (auto simp: numbered_def)
  define cells where "cells = (''successful_repeats'', V_Int (int (length eligible))) # summary
    @ (''process_repeats'', V_Int (int (length rows))) # error_cells [(''check_max_abs_error'', errors)] @ detail_cells details
    @ (if length eligible \<noteq> length rows then status_cells (repeat_failure_status rows) else [])"
  have valid: "fold_r (level2_validate tt) (numbered 1 rows) () = Inr ()"
    using level2_validated[of tt 1 rows] ok ex(1) by (simp add: numbered_def is_ok_iff)
  have agg: "aggregate_repeat_group tt rows = Inr (row_update cells base)"
    by (simp only: aggregate_repeat_group_def Let_def ex(1)[symmetric] ex(2) if_False valid filtered bind_r_simps chosen
      base(1) vals(1) summary(1) noted prod.case cells_def)
  have names: "distinct (row_fields @ [''check_max_abs_error''])" by (simp add: row_fields_def evidence_fields_def)
  have ec: "fst ` set (error_cells [(''check_max_abs_error'', errors)]) \<subseteq> set [''check_max_abs_error'']"
    "distinct (map fst (error_cells [(''check_max_abs_error'', errors)]))" by (auto simp: error_cells_def)
  have failed: "pts (fst (repeat_failure_status rows)) \<noteq> pts ''ok''" by (simp add: repeat_failure_status_def Let_def pts_def)
  have checked_base: "status_eligible base" if "\<not> length eligible \<noteq> length rows"
    using that base(2) ex elig by (cases "eligible = []") (auto simp: List.map_filter_simps)
  have "mset cells = mset (update_cells (V_Int (int (length rows))) (V_Int (int (length eligible))) summary
    (error_cells [(''check_max_abs_error'', errors)]) (detail_cells details) (length eligible \<noteq> length rows) (repeat_failure_status rows))"
    by (simp add: cells_def update_cells_def)
  note u = updated_row[OF this ec names detail_cells_keys summary(3,2) failed checked_base]
  have "summarised tt ''rate_gops'' eligible (length rows) (row_update cells base)"
    using u vals(1) by (simp add: summarised_def)
  with agg show thesis by (rule that)
qed

lemma level2_refuses:
  assumes "List.map_filter id rows = [] \<or> list_ex (invalid tt [''time_ns'', ''rate_gops'']) (List.map_filter id rows)"
  shows "\<not> is_ok (aggregate_repeat_group tt rows)"
proof (cases "List.map_filter id rows = []")
  case False
  then have "\<not> is_ok (fold_r (level2_validate tt) (numbered 1 rows) ())"
    using level2_validated[of tt 1 rows] assms by (simp add: numbered_def)
  then show ?thesis using False by (cases "fold_r (level2_validate tt) (numbered 1 rows) ()") (auto simp: aggregate_repeat_group_def Let_def)
qed (simp add: aggregate_repeat_group_def)

lemma level2_aggregate_exact:
  assumes "list_all level2_text rows"
  shows "case aggregate_repeat_group tt rows of
      Inl _ \<Rightarrow> List.map_filter id rows = [] \<or> list_ex (invalid tt [''time_ns'', ''rate_gops'']) (List.map_filter id rows)
    | Inr out \<Rightarrow> List.map_filter id rows \<noteq> [] \<and> \<not> list_ex (invalid tt [''time_ns'', ''rate_gops'']) (List.map_filter id rows)
        \<and> summarised tt ''rate_gops'' (filter (\<lambda>row. level2_repeat_eligible tt (Some row) = Inr True) (List.map_filter id rows))
            (length rows) out"
proof (cases "List.map_filter id rows = [] \<or> list_ex (invalid tt [''time_ns'', ''rate_gops'']) (List.map_filter id rows)")
  case True
  then show ?thesis using level2_refuses[OF True] by (cases "aggregate_repeat_group tt rows") auto
next
  case False
  then obtain out where "aggregate_repeat_group tt rows = Inr out"
      "summarised tt ''rate_gops'' (filter (\<lambda>row. level2_repeat_eligible tt (Some row) = Inr True) (List.map_filter id rows)) (length rows) out"
    using level2_total[OF assms refl _ _ refl, of tt] by blast
  then show ?thesis using False by simp
qed

text \<open>The row of a case in one repeat.\<close>

definition row_of_case :: "text_tables \<Rightarrow> group_key \<Rightarrow> report_row list \<Rightarrow> report_row option" where
  "row_of_case tt k rows = List.find (\<lambda>row. process_group_key tt row = Inr k) rows"

lemma worker_step: "add_worker_row tt = keyed_step (process_group_key tt) (Value_Error ''duplicate worker row'')"
  by (simp add: add_worker_row_def keyed_step_def fun_eq_iff)

lemma worker_map:
  assumes "fold_r (add_worker_row tt) rows [] = Inr result"
  shows "distinct (map (process_group_key tt) rows)" "Inr ` fst ` set result = process_group_key tt ` set rows"
    "map_of result = (\<lambda>k. row_of_case tt k rows)"
  using keyed_map[OF assms[unfolded worker_step]] by (simp_all add: row_of_case_def)

text \<open>C33. The Level 2 report has one row for every case that some repeat of the worker measured, in the order of the
  cases, and no case twice; over complete CSV rows that row holds the measurements of the eligible repeats of its
  case and counts as checked exactly when every repeat has an eligible row of the case.\<close>

theorem worker_repeats_exact:
  "case aggregate_worker_repeats tt repeats of
     Inl _ \<Rightarrow> True
   | Inr outs \<Rightarrow> list_all (\<lambda>rows. distinct (map (process_group_key tt) rows)) repeats
       \<and> (\<exists>keys. distinct keys \<and> sorted (map key_order keys)
           \<and> Inr ` set keys = (\<Union>rows \<in> set repeats. process_group_key tt ` set rows)
           \<and> list_all2 (\<lambda>k out. aggregate_repeat_group tt (map (row_of_case tt k) repeats) = Inr out
               \<and> (if list_all (list_all text_row) repeats
                  then summarised tt ''rate_gops''
                    (filter (\<lambda>row. level2_repeat_eligible tt (Some row) = Inr True) (List.map_filter (row_of_case tt k) repeats))
                    (length repeats) out
                  else True)) keys outs)"
proof (cases "aggregate_worker_repeats tt repeats")
  case (Inr outs)
  then obtain maps keys where m: "map_r (\<lambda>rows. fold_r (add_worker_row tt) rows []) repeats = Inr maps"
      "sorted_keys (concat (map (map fst) maps)) = Inr keys"
      "map_r (\<lambda>k. aggregate_repeat_group tt (map (\<lambda>current. map_of current k) maps)) keys = Inr outs"
    by (auto simp: aggregate_worker_repeats_def bind_r_eq_Inr)
  have steps: "list_all2 (\<lambda>rows result. fold_r (add_worker_row tt) rows [] = Inr result) repeats maps"
    using m(1) by (simp add: map_r_eq_Inr)
  have cases_of: "map (\<lambda>current. map_of current k) maps = map (row_of_case tt k) repeats" for k
    using steps by (induction rule: list_all2_induct) (simp_all add: worker_map(3))
  have keys: "Inr ` set (concat (map (map fst) maps)) = (\<Union>rows \<in> set repeats. process_group_key tt ` set rows)"
    using steps
  proof (induction rule: list_all2_induct)
    case (Cons rows repeats result maps)
    then show ?case using worker_map(2)[OF Cons.hyps(1)] by (simp add: image_Un)
  qed simp
  have dist: "list_all (\<lambda>rows. distinct (map (process_group_key tt) rows)) repeats"
    using steps by (induction rule: list_all2_induct) (simp_all add: worker_map(1))
  have sorted: "keys = sort_key key_order (remdups (concat (map (map fst) maps)))"
    using m(2) by (simp add: sorted_keys_def split: if_splits)
  have each: "aggregate_repeat_group tt (map (row_of_case tt k) repeats) = Inr out
      \<and> (if list_all (list_all text_row) repeats
         then summarised tt ''rate_gops''
           (filter (\<lambda>row. level2_repeat_eligible tt (Some row) = Inr True) (List.map_filter (row_of_case tt k) repeats))
           (length repeats) out
         else True)" if "aggregate_repeat_group tt (map (\<lambda>current. map_of current k) maps) = Inr out" for k out
  proof -
    have agg: "aggregate_repeat_group tt (map (row_of_case tt k) repeats) = Inr out" using that cases_of by simp
    have "list_all level2_text (map (row_of_case tt k) repeats)" if "list_all (list_all text_row) repeats"
      using that by (auto simp: list_all_iff level2_text_def row_of_case_def find_Some_iff split: option.splits)
    moreover have "List.map_filter id (map (row_of_case tt k) repeats) = List.map_filter (row_of_case tt k) repeats"
      by (simp add: List.map_filter_def filter_map comp_def)
    ultimately show ?thesis using level2_aggregate_exact[of "map (row_of_case tt k) repeats" tt] agg by simp
  qed
  have "list_all2 (\<lambda>k out. aggregate_repeat_group tt (map (\<lambda>current. map_of current k) maps) = Inr out) keys outs"
    using m(3) by (simp add: map_r_eq_Inr)
  then have each_row: "list_all2 (\<lambda>k out. aggregate_repeat_group tt (map (row_of_case tt k) repeats) = Inr out
      \<and> (if list_all (list_all text_row) repeats
         then summarised tt ''rate_gops''
           (filter (\<lambda>row. level2_repeat_eligible tt (Some row) = Inr True) (List.map_filter (row_of_case tt k) repeats))
           (length repeats) out
         else True)) keys outs"
    by (rule list_all2_mono) (rule each)
  have k: "distinct keys" "sorted (map key_order keys)" "Inr ` set keys = (\<Union>rows \<in> set repeats. process_group_key tt ` set rows)"
    using keys unfolding sorted by simp_all
  show ?thesis unfolding Inr sum.case by (intro conjI exI[of _ keys] dist k each_row)
qed simp

end
