(* ===== verification/Gemm_Merge.thy ===== *)
theory Gemm_Merge
  imports Report_Aggregate Gemm_Gate
begin

text \<open>
  How the GEMM runner joins the repeats of a sweep (\<open>bench/tools/run_gemm_sweep_isolated.py\<close>,
  \<open>parse_shape_spec\<close> to \<open>merge_repeat_rows\<close>, and \<open>serialize_csv\<close>): the keys a process must report, the
  comparison of the repeats' keys, and one row for the repeats of a key.  A CSV file is the list of its rows.
\<close>

section \<open>Shapes and keys\<close>

text \<open>\<open>str(int(value))\<close> of each dimension.\<close>

definition dimension :: "text_tables \<Rightarrow> points \<Rightarrow> report_exc + points" where
  "dimension tt t = bind_r (int_cell tt (V_Text t)) (\<lambda>n. Inr (pts (show_int n)))"

definition parse_shape_spec :: "text_tables \<Rightarrow> points \<Rightarrow> report_exc + points list" where
  "parse_shape_spec tt spec =
     (let parts = split_on 58 spec in
      if length parts = 4 then bind_r (map_r (dimension tt) (tl parts)) (\<lambda>dims. Inr (hd parts # dims))
      else if length parts = 3 then bind_r (map_r (dimension tt) parts) (\<lambda>dims. Inr (spec # dims))
      else Inl (Value_Error ''bad shape spec''))"

definition shape_index_map :: "text_tables \<Rightarrow> points list \<Rightarrow> report_exc + (points list \<times> points) list" where
  "shape_index_map tt specs =
     fold_r (\<lambda>(i, spec) result. bind_r (parse_shape_spec tt spec) (\<lambda>k. Inr (AList.update k (pts (show_int (int i))) result)))
       (numbered 0 specs) []"

definition gemm_semantic_key :: "text_tables \<Rightarrow> report_row \<Rightarrow> report_exc + group_key" where
  "gemm_semantic_key tt row =
     bind_r (row_item row ''kind'') (\<lambda>kind.
     let (transa, transb) = transpose_fields tt row in
     bind_r (row_items row [''label'', ''m'', ''n'', ''k'']) (\<lambda>rest. Inr (kind # V_Text transa # V_Text transb # rest)))"

definition add_expected :: "text_tables \<Rightarrow> points \<Rightarrow> points \<Rightarrow> points \<Rightarrow> group_key list \<Rightarrow> report_exc + group_key list" where
  "add_expected tt kind trans_pair shape ks =
     bind_r (parse_shape_spec tt shape) (\<lambda>dims.
     let k = map V_Text (kind # take 1 trans_pair # drop 1 trans_pair # dims) in
     if k \<in> set ks then Inl (Value_Error ''duplicate requested GEMM key'') else Inr (ks @ [k]))"

text \<open>Every kind, transpose pair and shape that the process was asked for; real kinds have no conjugate.\<close>

definition expected_process_keys :: "text_tables \<Rightarrow> points list \<Rightarrow> points list \<Rightarrow> points list \<Rightarrow> report_exc + group_key list" where
  "expected_process_keys tt kinds pairs shapes =
     fold_r (\<lambda>(kind, trans_pair, shape). add_expected tt kind trans_pair shape)
       [(kind, trans_pair, shape). kind \<leftarrow> kinds, trans_pair \<leftarrow> pairs,
          \<not> (kind \<in> {pts ''sgemm'', pts ''dgemm''} \<and> 67 \<in> set trans_pair), shape \<leftarrow> shapes] []"

section \<open>The rows of one repeat\<close>

type_synonym keyed_rows = "(group_key \<times> report_row) list"

definition add_keyed :: "text_tables \<Rightarrow> report_row \<Rightarrow> keyed_rows \<Rightarrow> report_exc + keyed_rows" where
  "add_keyed tt row keyed =
     bind_r (gemm_semantic_key tt row) (\<lambda>k.
     if map_of keyed k \<noteq> None then Inl (Value_Error ''repeat CSV has duplicate GEMM key'') else Inr (keyed @ [(k, row)]))"

definition missing_field :: "report_exc + 'a \<Rightarrow> report_exc + 'a" where
  "missing_field m = (case m of Inl (Key_Error f) \<Rightarrow> Inl (Value_Error (''repeat CSV is missing canonical field '' @ f)) | _ \<Rightarrow> m)"

text \<open>Two sets of keys; the message of a mismatch sorts the differences.\<close>

definition same_keys :: "group_key list \<Rightarrow> group_key list \<Rightarrow> report_exc + unit" where
  "same_keys expected actual =
     (if set expected = set actual then Inr ()
      else bind_r (sorted_keys (filter (\<lambda>k. k \<notin> set actual) expected)) (\<lambda>_.
        bind_r (sorted_keys (filter (\<lambda>k. k \<notin> set expected) actual)) (\<lambda>_.
        Inl (Value_Error ''repeat CSV GEMM key mismatch''))))"

definition repeat_rows_by_key :: "text_tables \<Rightarrow> group_key list option \<Rightarrow> report_row list \<Rightarrow> report_exc + keyed_rows" where
  "repeat_rows_by_key tt expected rows =
     bind_r (missing_field (fold_r (add_keyed tt) rows [])) (\<lambda>keyed.
     bind_r (case expected of None \<Rightarrow> Inr () | Some ks \<Rightarrow> same_keys ks (map fst keyed)) (\<lambda>_. Inr keyed))"

section \<open>One row for the repeats\<close>

definition check_of :: "report_row \<Rightarrow> py_value" where
  "check_of row = get_default row ''check'' (V_Text (pts ''unchecked''))"

definition merged_check_status :: "report_row list \<Rightarrow> report_exc + py_value" where
  "merged_check_status rows =
     (let checks = map check_of rows in
      if set checks \<subseteq> {V_Text (pts ''checked-ok''), V_Text (pts ''sampled-ok'')} then Inr (V_Text (pts ''checked-ok''))
      else if set checks = {V_Text (pts ''unchecked'')} then Inr (V_Text (pts ''unchecked''))
      else bind_r (sorted_keys (map (\<lambda>v. [v]) checks)) (\<lambda>ks. Inr (hd (hd ks))))"

definition gemm_timing :: "text_tables \<Rightarrow> string \<Rightarrow> report_row \<Rightarrow> report_exc + double" where
  "gemm_timing tt f row =
     parse_positive_finite tt (if falsy (row_get row f) then row_get row ''best_ns'' else row_get row f) f"

definition format_gemm_evidence :: "text_tables \<Rightarrow> double \<Rightarrow> string \<Rightarrow> report_exc + points" where
  "format_gemm_evidence tt d f = bind_r (parse_positive_finite tt (V_Float d) f) (\<lambda>d. Inr (format_general 17 d))"

definition validate_gemm_evidence :: "text_tables \<Rightarrow> report_row \<Rightarrow> report_exc + unit" where
  "validate_gemm_evidence tt row =
     bind_r (parse_positive_finite tt (row_get row ''gflops'') ''gflops'') (\<lambda>_.
     fold_r (\<lambda>f u. bind_r (gemm_timing tt f row) (\<lambda>_. Inr ())) [''best_ns'', ''median_ns'', ''p95_ns'', ''max_ns''] ())"

definition merge_repeat_rows :: "text_tables \<Rightarrow> report_row list \<Rightarrow> report_exc + report_row" where
  "merge_repeat_rows tt rows =
     bind_r (fold_r (\<lambda>row u. validate_gemm_evidence tt row) rows ()) (\<lambda>_.
     bind_r (best_higher_row tt rows ''gflops'') (\<lambda>base.
     let (transa, transb) = transpose_fields tt base in
     bind_r (map_r (gemm_timing tt ''best_ns'') rows) (\<lambda>best_values.
     bind_r (map_r (gemm_timing tt ''median_ns'') rows) (\<lambda>median_values.
     bind_r (map_r (gemm_timing tt ''p95_ns'') rows) (\<lambda>p95_values.
     bind_r (map_r (gemm_timing tt ''max_ns'') rows) (\<lambda>max_values.
     bind_r (format_gemm_evidence tt (extreme fless best_values) ''best_ns'') (\<lambda>best.
     bind_r (positive_finite_median tt (map V_Float median_values) ''median_ns'') (\<lambda>m.
     bind_r (format_gemm_evidence tt m ''median_ns'') (\<lambda>median.
     bind_r (nearest_rank_percentile tt (map V_Float p95_values) (V_Int 95) ''p95_ns'') (\<lambda>p.
     bind_r (format_gemm_evidence tt p ''p95_ns'') (\<lambda>p95.
     bind_r (format_gemm_evidence tt (extreme higher max_values) ''max_ns'') (\<lambda>maximum.
     bind_r (map_r (\<lambda>d. format_gemm_evidence tt d ''median_ns'') median_values) (\<lambda>samples.
     bind_r (merged_check_status rows) (\<lambda>check.
     let merged = row_update
       [(''transa'', V_Text transa), (''transb'', V_Text transb), (''best_ns'', V_Text best), (''median_ns'', V_Text median),
        (''p95_ns'', V_Text p95), (''max_ns'', V_Text maximum), (''median_ns_samples'', V_Text (join_with [44] samples)),
        (''process_repeats'', V_Text (pts (show_int (int (length rows))))),
        (''batch_calls_samples'', V_Text (join_with [44] (map (\<lambda>row. value_text tt (get_default row ''batch_calls'' (V_Text []))) rows))),
        (''check'', check)] base in
     bind_r (validate_gemm_evidence tt merged) (\<lambda>_. Inr merged)))))))))))))))"

section \<open>The joined sweep\<close>

definition add_repeat :: "text_tables \<Rightarrow> group_key list option \<Rightarrow> report_row list \<Rightarrow> keyed_rows list \<Rightarrow> report_exc + keyed_rows list" where
  "add_repeat tt expected rows repeats =
     bind_r (repeat_rows_by_key tt expected rows) (\<lambda>keyed.
     bind_r (case repeats of [] \<Rightarrow> Inr () | first # _ \<Rightarrow> same_keys (map fst first) (map fst keyed)) (\<lambda>_.
     Inr (repeats @ [keyed])))"

definition best_rows_csv :: "text_tables \<Rightarrow> group_key list option \<Rightarrow> report_row list list \<Rightarrow> report_exc + report_row list" where
  "best_rows_csv tt expected inputs =
     bind_r (fold_r (add_repeat tt expected) inputs []) (\<lambda>repeats.
     map_r (\<lambda>k. merge_repeat_rows tt (map (\<lambda>keyed. the (map_of keyed k)) repeats))
       (case repeats of [] \<Rightarrow> [] | first # _ \<Rightarrow> map fst first))"

text \<open>\<open>row.setdefault(f, v)\<close>.\<close>

definition set_default :: "string \<Rightarrow> py_value \<Rightarrow> report_row \<Rightarrow> report_row" where
  "set_default f v row = (if row f = None then row(f \<mapsto> v) else row)"

definition published_row :: "text_tables \<Rightarrow> (points list \<times> points) list \<Rightarrow> points \<Rightarrow> report_row \<Rightarrow> report_exc + report_row" where
  "published_row tt indexes library row =
     bind_r (validate_gemm_evidence tt row) (\<lambda>_.
     bind_r (row_items row [''label'', ''m'', ''n'', ''k'']) (\<lambda>shape.
     bind_r (row_item row ''shape_index'') (\<lambda>index.
     let found = (if set shape \<subseteq> range V_Text then map_of indexes (map text_cell shape) else None);
         row = row(''shape_index'' \<mapsto> (case found of Some i \<Rightarrow> V_Text i | None \<Rightarrow> index), ''library'' \<mapsto> V_Text library);
         (transa, transb) = transpose_fields tt row;
         row = row(''transa'' \<mapsto> V_Text transa, ''transb'' \<mapsto> V_Text transb);
         best = get_default row ''best_ns'' (V_Text []);
         row = set_default ''max_ns'' best (set_default ''p95_ns'' best (set_default ''median_ns'' best row)) in
     bind_r (row_item row ''median_ns'') (\<lambda>median.
     Inr (set_default ''check'' (V_Text (pts ''unchecked'')) (set_default ''process_repeats'' (V_Text (pts ''1''))
       (set_default ''median_ns_samples'' median row)))))))"

definition serialize_csv :: "text_tables \<Rightarrow> (points list \<times> points) list \<Rightarrow> (points \<times> report_row list) list \<Rightarrow> report_exc + report_row list" where
  "serialize_csv tt indexes rows_by_library =
     bind_r (map_r (\<lambda>(library, rows). map_r (published_row tt indexes library) rows) rows_by_library) (\<lambda>rows. Inr (concat rows))"

end
