(* ===== verification/Gemm_Merge_Correct.thy ===== *)
theory Gemm_Merge_Correct
  imports Gemm_Merge Report_Aggregate_Correct
begin

text \<open>
  The joined row of a sweep says what the repeats measured, text for text; its check status is the least of
  the repeats' statuses in the order of texts, so that one checked repeat covers for the others.
\<close>

section \<open>The check status\<close>

lemma comparable_texts: "comparable [V_Text s] [V_Text t]"
  by simp

lemma least_status:
  assumes "\<forall>v \<in> set checks. \<exists>t. v = V_Text t" "checks \<noteq> []"
  obtains k ks where "sorted_keys (map (\<lambda>v. [v]) checks) = Inr (k # ks)" "hd k \<in> set checks"
    "\<forall>v \<in> set checks. text_cell (hd k) \<le> text_cell v"
proof -
  define ss where "ss = sort_key key_order (remdups (map (\<lambda>v. [v]) checks))"
  have "list_all (\<lambda>g. list_all (comparable g) (map (\<lambda>v. [v]) checks)) (map (\<lambda>v. [v]) checks)"
  proof -
    have "comparable [u] [v]" if uv: "u \<in> set checks" "v \<in> set checks" for u v
    proof -
      obtain a b where "u = V_Text a" "v = V_Text b" using assms(1) uv by blast
      then show ?thesis by (simp add: comparable_texts)
    qed
    then show ?thesis by (simp add: list_all_iff del: comparable.simps)
  qed
  then have s: "sorted_keys (map (\<lambda>v. [v]) checks) = Inr ss" by (simp add: sorted_keys_def ss_def)
  have set: "set ss = (\<lambda>v. [v]) ` set checks" by (simp add: ss_def)
  then have "set ss \<noteq> {}" using assms(2) by simp
  then obtain k ks where ks: "ss = k # ks" by (cases ss) auto
  obtain v where v: "k = [v]" "v \<in> set checks" using set ks by auto
  have "sorted (map key_order ss)" by (simp add: ss_def)
  then have "key_order k \<le> key_order u" if "u \<in> set ss" for u using that ks by auto
  then have "key_order [v] \<le> key_order [u]" if "u \<in> set checks" for u using that set v by blast
  then have "[text_cell v] \<le> [text_cell u]" if "u \<in> set checks" for u using that by (simp only: key_order_def list.map)
  then have "\<forall>u \<in> set checks. text_cell v \<le> text_cell u" by (auto simp: le_less)
  then show thesis using that s ks v by auto
qed

lemma check_text: "text_row row \<Longrightarrow> \<exists>t. check_of row = V_Text t"
  using text_cell[of row "''check''"] by (auto simp: check_of_def get_default_def split: option.splits)

lemma merged_check_total:
  assumes "list_all text_row rows" "rows \<noteq> []"
  shows "\<exists>v. merged_check_status rows = Inr v"
proof -
  have "\<forall>v \<in> set (map check_of rows). \<exists>t. v = V_Text t" using assms(1) check_text by (auto simp: list_all_iff)
  moreover have "map check_of rows \<noteq> []" using assms(2) by simp
  ultimately obtain k ks where "sorted_keys (map (\<lambda>v. [v]) (map check_of rows)) = Inr (k # ks)" by (rule least_status)
  then show ?thesis by (simp add: merged_check_status_def Let_def del: map_map)
qed

lemma checked_with:
  assumes "pts ''checked-ok'' < t"
  shows "merged_check_status [r(''check'' \<mapsto> V_Text (pts ''checked-ok'')), s(''check'' \<mapsto> V_Text t)] = Inr (V_Text (pts ''checked-ok''))"
proof -
  let ?c = "V_Text (pts ''checked-ok'')"
  have ne: "t \<noteq> pts ''checked-ok''" using assms by simp
  have "sorted_keys [[?c], [V_Text t]] = Inr [[?c], [V_Text t]]"
    using assms ne by (simp add: sorted_keys_def key_order_def text_cell_def)
  then show ?thesis using ne
    by (auto simp: merged_check_status_def check_of_def get_default_def Let_def)
qed

text \<open>C36. Over complete CSV rows, the repeats of a key join to the check status \<open>checked-ok\<close> when all of them were
  checked, and else to the status that comes first in the order of texts; since \<open>checked-ok\<close> comes before
  \<open>unchecked\<close>, \<open>correctness_failed\<close>, \<open>error\<close> and \<open>missing\<close>, one checked repeat makes the joined row count as checked.\<close>

theorem merged_check_is_least:
  "(if list_all text_row rows \<and> rows \<noteq> [] then
     case merged_check_status rows of
       Inl _ \<Rightarrow> False
     | Inr v \<Rightarrow>
         if list_all (\<lambda>row. check_of row \<in> {V_Text (pts ''checked-ok''), V_Text (pts ''sampled-ok'')}) rows
         then v = V_Text (pts ''checked-ok'')
         else v \<in> set (map check_of rows) \<and> list_all (\<lambda>row. text_cell v \<le> text_cell (check_of row)) rows
   else True)
   \<and> list_all (\<lambda>status. merged_check_status
         [r(''check'' \<mapsto> V_Text (pts ''checked-ok'')), s(''check'' \<mapsto> V_Text (pts status))] = Inr (V_Text (pts ''checked-ok'')))
       [''unchecked'', ''correctness_failed'', ''error'', ''missing'']"
proof
  show "list_all (\<lambda>status. merged_check_status
         [r(''check'' \<mapsto> V_Text (pts ''checked-ok'')), s(''check'' \<mapsto> V_Text (pts status))] = Inr (V_Text (pts ''checked-ok'')))
       [''unchecked'', ''correctness_failed'', ''error'', ''missing'']"
    by (simp only: list.pred_inject simp_thms, intro conjI; rule checked_with; simp add: pts_def)
  show "if list_all text_row rows \<and> rows \<noteq> [] then
     case merged_check_status rows of
       Inl _ \<Rightarrow> False
     | Inr v \<Rightarrow>
         if list_all (\<lambda>row. check_of row \<in> {V_Text (pts ''checked-ok''), V_Text (pts ''sampled-ok'')}) rows
         then v = V_Text (pts ''checked-ok'')
         else v \<in> set (map check_of rows) \<and> list_all (\<lambda>row. text_cell v \<le> text_cell (check_of row)) rows
   else True"
  proof (cases "list_all text_row rows \<and> rows \<noteq> []")
    case True
    then have texts: "\<forall>v \<in> set (map check_of rows). \<exists>t. v = V_Text t" "map check_of rows \<noteq> []"
      using check_text by (auto simp: list_all_iff)
    obtain k ks where k: "sorted_keys (map (\<lambda>v. [v]) (map check_of rows)) = Inr (k # ks)" "hd k \<in> set (map check_of rows)"
      "\<forall>v \<in> set (map check_of rows). text_cell (hd k) \<le> text_cell v" using least_status[OF texts] by blast
    show ?thesis
    proof (cases "set (map check_of rows) \<subseteq> {V_Text (pts ''checked-ok''), V_Text (pts ''sampled-ok'')}")
      case all: True
      then show ?thesis using True by (auto simp: merged_check_status_def Let_def list_all_iff)
    next
      case False
      then have "\<not> list_all (\<lambda>row. check_of row \<in> {V_Text (pts ''checked-ok''), V_Text (pts ''sampled-ok'')}) rows"
        by (auto simp: list_all_iff)
      moreover have "set (map check_of rows) = {V_Text (pts ''unchecked'')} \<Longrightarrow>
          V_Text (pts ''unchecked'') \<in> set (map check_of rows) \<and> list_all (\<lambda>row. text_cell (V_Text (pts ''unchecked'')) \<le> text_cell (check_of row)) rows"
      proof -
        assume e: "set (map check_of rows) = {V_Text (pts ''unchecked'')}"
        have "check_of row = V_Text (pts ''unchecked'')" if "row \<in> set rows" for row using e that by force
        then show ?thesis using e by (simp add: list_all_iff)
      qed
      ultimately show ?thesis using True False k
        by (simp add: merged_check_status_def Let_def list_all_iff del: map_map set_map) (auto simp: image_iff)
    qed
  qed auto
qed

section \<open>The joined row\<close>

lemma timing_positive: "text_row row \<Longrightarrow> gemm_timing tt f row = Inr d \<Longrightarrow> positive_double d"
proof -
  assume row: "text_row row" and d: "gemm_timing tt f row = Inr d"
  define v where "v = (if falsy (row_get row f) then row_get row ''best_ns'' else row_get row f)"
  have v: "v = V_None \<or> (\<exists>t. v = V_Text t)"
    using text_cell[OF row] by (cases "row f"; cases "row ''best_ns''") (auto simp: v_def row_get_def)
  have "parse_positive_finite tt v f = Inr d" using d by (simp add: gemm_timing_def v_def)
  then show ?thesis using v parse_positive_text by (auto simp: parse_positive_finite_def float_of_def)
qed

definition gemm_timings :: "string list" where "gemm_timings = [''best_ns'', ''median_ns'', ''p95_ns'', ''max_ns'']"

lemma timing_fold: "fold_r (\<lambda>f u. bind_r (gemm_timing tt f row) (\<lambda>_. Inr ())) fs () = Inr ()
    \<longleftrightarrow> (\<forall>f \<in> set fs. \<exists>d. gemm_timing tt f row = Inr d)"
  by (induction fs) (auto simp: bind_r_eq_Inr)

lemma validated_iff: "validate_gemm_evidence tt row = Inr () \<longleftrightarrow>
    (\<exists>d. parse_positive_finite tt (row_get row ''gflops'') ''gflops'' = Inr d) \<and> (\<forall>f \<in> set gemm_timings. \<exists>d. gemm_timing tt f row = Inr d)"
  using timing_fold[of tt row gemm_timings] by (auto simp: validate_gemm_evidence_def gemm_timings_def bind_r_eq_Inr)

lemma validate_all: "fold_r (\<lambda>row u. validate_gemm_evidence tt row) rows () = Inr () \<longleftrightarrow>
    \<not> list_ex (\<lambda>row. \<not> is_ok (validate_gemm_evidence tt row)) rows"
  by (induction rows) (auto simp: bind_r_eq_Inr is_ok_iff)

lemma best_row_exists:
  assumes "\<forall>row \<in> set rows. \<exists>d. parse_positive_finite tt (row_get row ''gflops'') ''gflops'' = Inr d" "rows \<noteq> []"
  obtains base where "best_higher_row tt rows ''gflops'' = Inr base" "base \<in> set rows"
proof -
  have "\<exists>item. metric_key tt ''gflops'' (- 1) row = Inr item \<and> snd item = row" if r: "row \<in> set rows" for row
  proof -
    obtain d where d: "parse_positive_finite tt (row_get row ''gflops'') ''gflops'' = Inr d" using assms(1) r by blast
    then have "row_item row ''gflops'' = Inr (row_get row ''gflops'')"
      by (auto simp: row_item_def row_get_def parse_positive_finite_def float_of_def split: option.splits)
    then show ?thesis using d by (simp add: metric_key_def)
  qed
  then have "\<exists>items. map_r (metric_key tt ''gflops'' (- 1)) rows = Inr items \<and> map snd items = rows"
  proof (induction rows)
    case (Cons row rows)
    obtain item where "metric_key tt ''gflops'' (- 1) row = Inr item" "snd item = row" using Cons.prems[of row] by (meson list.set_intros(1))
    moreover obtain items where "map_r (metric_key tt ''gflops'' (- 1)) rows = Inr items" "map snd items = rows" using Cons by auto
    ultimately show ?case by simp
  qed simp
  then obtain items where i: "map_r (metric_key tt ''gflops'' (- 1)) rows = Inr items" "map snd items = rows" by blast
  then obtain x xs where x: "items = x # xs" using assms(2) by (cases items) auto
  then have m: "min_item items = Inr (first_least x xs)" by (simp add: min_item_def)
  have "snd (first_least x xs) \<in> set rows" using min_item_least(1)[OF m] i(2) by (metis image_eqI list.set_map)
  then show thesis using that i(1) m by (simp add: best_higher_row_def case_prod_beta)
qed

lemma format_positive: "positive_double d \<Longrightarrow> format_gemm_evidence tt d f = Inr (format_general 17 d)"
  by (auto elim!: positive_doubleE simp: format_gemm_evidence_def parse_positive_float)

lemma format_samples: "\<forall>d \<in> set ds. positive_double d \<Longrightarrow> map_r (\<lambda>d. format_gemm_evidence tt d f) ds = Inr (map (format_general 17) ds)"
  by (induction ds) (simp_all add: format_positive)

lemma timing_read:
  assumes "row_get row f = metric_text d" "positive_double d"
  shows "gemm_timing tt f row = Inr d"
proof -
  have "\<not> falsy (metric_text d)" using metric_text_read(4)[OF assms(2)] by (simp add: falsy_def metric_text_def)
  then show ?thesis using assms metric_text_read(1) by (simp add: gemm_timing_def)
qed

lemma percentile_total:
  assumes "\<forall>d \<in> set ds. positive_double d" "ds \<noteq> []" "int (length ds) \<le> 2 ^ 39"
  obtains p where "nearest_rank_percentile tt (map V_Float ds) (V_Int 95) f = Inr p" "positive_double p"
proof -
  note k = percentile_rank[OF sample_values_numbers[OF assms(1)] assms(2,3), of 95 tt f]
  define c where "c = \<lceil>of_int (int (length ds) * 95) / (100 :: rat)\<rceil>"
  note k = k[folded c_def]
  have "nat (c - 1) < length (sort_key number ds)" using k assms(2) by simp linarith
  then have "sort_key number ds ! nat (c - 1) \<in> set ds" by (metis nth_mem set_sort)
  then show thesis using that k assms(1) by auto
qed

text \<open>What the joined row says of the repeats.\<close>

definition joins :: "text_tables \<Rightarrow> report_row list \<Rightarrow> report_row \<Rightarrow> bool" where
  "joins tt rows out \<longleftrightarrow>
     (case map_r (gemm_timing tt ''median_ns'') rows of
        Inl _ \<Rightarrow> False
      | Inr ds \<Rightarrow> gemm_timing tt ''median_ns'' out = positive_finite_median tt (map V_Float ds) ''median_ns''
          \<and> metric_samples tt [''metric_samples'' \<mapsto> row_get out ''median_ns_samples''] = Inr ds)
   \<and> (case map_r (gemm_timing tt ''best_ns'') rows of
        Inl _ \<Rightarrow> False | Inr ds \<Rightarrow> gemm_timing tt ''best_ns'' out = Inr (extreme fless ds))
   \<and> (case map_r (gemm_timing tt ''max_ns'') rows of
        Inl _ \<Rightarrow> False | Inr ds \<Rightarrow> gemm_timing tt ''max_ns'' out = Inr (extreme higher ds))
   \<and> (case map_r (gemm_timing tt ''p95_ns'') rows of
        Inl _ \<Rightarrow> False
      | Inr ds \<Rightarrow> gemm_timing tt ''p95_ns'' out = nearest_rank_percentile tt (map V_Float ds) (V_Int 95) ''p95_ns'')
   \<and> row_get out ''process_repeats'' = V_Text (pts (show_int (int (length rows))))
   \<and> merged_check_status rows = Inr (row_get out ''check'')
   \<and> is_ok (validate_gemm_evidence tt out)"

lemma merge_total:
  assumes plain: "list_all text_row rows" and ne: "rows \<noteq> []" and n: "int (length rows) \<le> 2 ^ 39"
    and ok: "\<not> list_ex (\<lambda>row. \<not> is_ok (validate_gemm_evidence tt row)) rows"
  shows "\<exists>out. merge_repeat_rows tt rows = Inr out \<and> joins tt rows out"
proof -
  have valid: "\<forall>row \<in> set rows. validate_gemm_evidence tt row = Inr ()" using ok by (auto simp: list_ex_iff is_ok_iff)
  have "\<exists>ds. map_r (gemm_timing tt f) rows = Inr ds \<and> (\<forall>d \<in> set ds. positive_double d) \<and> ds \<noteq> [] \<and> int (length ds) \<le> 2 ^ 39"
    if f: "f \<in> set gemm_timings" for f
  proof -
    have "\<forall>row \<in> set rows. \<exists>d. gemm_timing tt f row = Inr d \<and> positive_double d"
      using valid f timing_positive plain unfolding validated_iff list_all_iff by blast
    then obtain ds where "map_r (gemm_timing tt f) rows = Inr ds" "\<forall>d \<in> set ds. positive_double d" using map_r_measured by blast
    moreover from this(1) have "length ds = length rows" by (auto simp: map_r_eq_Inr dest: list_all2_lengthD)
    then have "ds \<noteq> []" "int (length ds) \<le> 2 ^ 39" using ne n by auto
    ultimately show ?thesis by blast
  qed
  note timings = this
  obtain b where b: "map_r (gemm_timing tt ''best_ns'') rows = Inr b" "\<forall>d \<in> set b. positive_double d" "b \<noteq> []"
    using timings[of "''best_ns''"] unfolding gemm_timings_def by auto
  obtain m where m: "map_r (gemm_timing tt ''median_ns'') rows = Inr m" "\<forall>d \<in> set m. positive_double d" "m \<noteq> []"
    using timings[of "''median_ns''"] unfolding gemm_timings_def by auto
  obtain p where p: "map_r (gemm_timing tt ''p95_ns'') rows = Inr p" "\<forall>d \<in> set p. positive_double d" "p \<noteq> []" "int (length p) \<le> 2 ^ 39"
    using timings[of "''p95_ns''"] unfolding gemm_timings_def by auto
  obtain x where x: "map_r (gemm_timing tt ''max_ns'') rows = Inr x" "\<forall>d \<in> set x. positive_double d" "x \<noteq> []"
    using timings[of "''max_ns''"] unfolding gemm_timings_def by auto
  obtain base where base: "best_higher_row tt rows ''gflops'' = Inr base" "base \<in> set rows"
    using best_row_exists[of rows tt] valid ne unfolding validated_iff by blast
  obtain ta tb where tr: "transpose_fields tt base = (ta, tb)" by fastforce
  obtain med where med: "positive_finite_median tt (map V_Float m) ''median_ns'' = Inr med" "positive_double med"
    using median_of_numbers[OF m(2,3)] by blast
  obtain perc where perc: "nearest_rank_percentile tt (map V_Float p) (V_Int 95) ''p95_ns'' = Inr perc" "positive_double perc"
    using percentile_total[OF p(2,3,4)] by blast
  have ends: "positive_double (extreme fless b)" "positive_double (extreme higher x)" using extreme_in b x by blast+
  obtain check where check: "merged_check_status rows = Inr check" using merged_check_total[OF plain ne] by blast
  define calls where "calls = V_Text (join_with [44] (map (\<lambda>row. value_text tt (get_default row ''batch_calls'' (V_Text []))) rows))"
  define cells where "cells = [(''transa'', V_Text ta), (''transb'', V_Text tb), (''best_ns'', metric_text (extreme fless b)), (''median_ns'', metric_text med),
        (''p95_ns'', metric_text perc), (''max_ns'', metric_text (extreme higher x)), (''median_ns_samples'', V_Text (join_with [44] (map (format_general 17) m))),
        (''process_repeats'', V_Text (pts (show_int (int (length rows))))), (''batch_calls_samples'', calls), (''check'', check)]"
  define out where "out = row_update cells base"
  have dist: "distinct (map fst cells)" by (simp add: cells_def)
  have cell: "row_get out f = v" if "(f, v) \<in> set cells" for f v
    using row_update_cell[OF dist that] by (simp add: out_def row_get_def)
  have get: "row_get out ''best_ns'' = metric_text (extreme fless b)" "row_get out ''median_ns'' = metric_text med"
    "row_get out ''p95_ns'' = metric_text perc" "row_get out ''max_ns'' = metric_text (extreme higher x)"
    "row_get out ''median_ns_samples'' = V_Text (join_with [44] (map (format_general 17) m))"
    "row_get out ''process_repeats'' = V_Text (pts (show_int (int (length rows))))" "row_get out ''check'' = check"
    by (rule cell, simp add: cells_def)+
  have gf: "row_get out ''gflops'' = row_get base ''gflops''"
    using row_update_other[of "''gflops''" cells base] by (simp add: out_def row_get_def cells_def)
  note read = timing_read[OF get(1) ends(1)] timing_read[OF get(2) med(2)] timing_read[OF get(3) perc(2)] timing_read[OF get(4) ends(2)]
  have checked: "validate_gemm_evidence tt out = Inr ()"
    using valid base(2) read unfolding validated_iff gf by (auto simp: gemm_timings_def)
  have "fold_r (\<lambda>row u. validate_gemm_evidence tt row) rows () = Inr ()" using validate_all ok by blast
  then have "merge_repeat_rows tt rows = Inr out"
    using base(1) tr b(1) m(1) p(1) x(1) med perc check checked
    by (simp add: merge_repeat_rows_def format_positive format_samples[OF m(2)] ends out_def cells_def calls_def metric_text_def)
  moreover have "metric_samples tt [''metric_samples'' \<mapsto> row_get out ''median_ns_samples''] = Inr m"
    using joined_samples_read[OF m(2,3), of "[''metric_samples'' \<mapsto> row_get out ''median_ns_samples'']" tt] get(5) by (simp add: row_get_def)
  then have "joins tt rows out" unfolding joins_def b(1) m(1) p(1) x(1) sum.case using read get(6,7) check med(1) perc(1) checked by simp
  ultimately show ?thesis by blast
qed

text \<open>C34. Over at most \<open>2 ^ 39\<close> complete CSV rows, joining the repeats of a key fails exactly for no repeat and for one with a
  missing or unusable measurement; otherwise the texts of the joined row read back to the least best time, the median
  and the percentile of the repeats' medians and percentiles, the greatest maximum, and every median in order.\<close>

theorem gemm_merge_exact:
  "if list_all text_row rows \<and> int (length rows) \<le> 2 ^ 39 then
     case merge_repeat_rows tt rows of
       Inl _ \<Rightarrow> rows = [] \<or> list_ex (\<lambda>row. \<not> is_ok (validate_gemm_evidence tt row)) rows
     | Inr out \<Rightarrow> rows \<noteq> [] \<and> \<not> list_ex (\<lambda>row. \<not> is_ok (validate_gemm_evidence tt row)) rows \<and> joins tt rows out
   else True"
proof (cases "rows = [] \<or> list_ex (\<lambda>row. \<not> is_ok (validate_gemm_evidence tt row)) rows")
  case True
  have "\<exists>e. merge_repeat_rows tt rows = Inl e"
  proof (cases "rows = []")
    case False
    then have "fold_r (\<lambda>row u. validate_gemm_evidence tt row) rows () \<noteq> Inr ()" using validate_all True by blast
    then obtain e where "fold_r (\<lambda>row u. validate_gemm_evidence tt row) rows () = Inl e"
      by (cases "fold_r (\<lambda>row u. validate_gemm_evidence tt row) rows ()") auto
    then show ?thesis by (simp add: merge_repeat_rows_def)
  qed (simp add: merge_repeat_rows_def best_higher_row_def min_item_def)
  then show ?thesis using True by auto
next
  case False
  then show ?thesis using merge_total[of rows tt] by auto
qed

section \<open>The joined sweep\<close>

lemma add_keyed_step: "add_keyed tt = keyed_step (gemm_semantic_key tt) (Value_Error ''repeat CSV has duplicate GEMM key'')"
  by (simp add: add_keyed_def keyed_step_def fun_eq_iff)

lemma missing_field_Inr [simp]: "missing_field m = Inr x \<longleftrightarrow> m = Inr x"
  by (auto simp: missing_field_def split: sum.splits report_exc.splits)

lemma same_keys_Inr: "same_keys ks ls = Inr u \<Longrightarrow> set ks = set ls"
  by (auto simp: same_keys_def bind_r_eq_Inr split: if_splits)

text \<open>The row of a key in one repeat.\<close>

definition row_of_key :: "text_tables \<Rightarrow> group_key \<Rightarrow> report_row list \<Rightarrow> report_row option" where
  "row_of_key tt k rows = List.find (\<lambda>row. gemm_semantic_key tt row = Inr k) rows"

lemma repeat_rows_Inr:
  assumes "repeat_rows_by_key tt (Some expected) rows = Inr keyed"
  shows "distinct (map (gemm_semantic_key tt) rows)" "gemm_semantic_key tt ` set rows = Inr ` set expected"
    "map_of keyed = (\<lambda>k. row_of_key tt k rows)" "map Inr (map fst keyed) = map (gemm_semantic_key tt) rows"
proof -
  have k1: "fold_r (keyed_step (gemm_semantic_key tt) (Value_Error ''repeat CSV has duplicate GEMM key'')) rows [] = Inr keyed"
      and "same_keys expected (map fst keyed) = Inr ()"
    using assms by (simp_all add: repeat_rows_by_key_def bind_r_eq_Inr add_keyed_step)
  then have "set expected = set (map fst keyed)" using same_keys_Inr by blast
  note k = k1 this
  note m = keyed_map[OF k(1)]
  show "distinct (map (gemm_semantic_key tt) rows)" "map Inr (map fst keyed) = map (gemm_semantic_key tt) rows" by (fact m)+
  show "gemm_semantic_key tt ` set rows = Inr ` set expected" using m(2) k(2) by simp
  show "map_of keyed = (\<lambda>k. row_of_key tt k rows)" using m(3) by (simp add: row_of_key_def)
qed

lemma add_repeats:
  "fold_r (add_repeat tt (Some expected)) inputs repeats = Inr result \<Longrightarrow>
     \<exists>more. result = repeats @ more \<and> list_all2 (\<lambda>rows keyed. repeat_rows_by_key tt (Some expected) rows = Inr keyed) inputs more"
proof (induction inputs arbitrary: repeats)
  case (Cons rows inputs)
  then obtain c where c: "add_repeat tt (Some expected) rows repeats = Inr c" "fold_r (add_repeat tt (Some expected)) inputs c = Inr result"
    by (auto simp: bind_r_eq_Inr)
  then obtain keyed where k: "repeat_rows_by_key tt (Some expected) rows = Inr keyed"
      "fold_r (add_repeat tt (Some expected)) inputs (repeats @ [keyed]) = Inr result"
    by (auto simp: add_repeat_def bind_r_eq_Inr)
  from Cons.IH[OF k(2)] obtain more where "result = (repeats @ [keyed]) @ more"
    "list_all2 (\<lambda>rows keyed. repeat_rows_by_key tt (Some expected) rows = Inr keyed) inputs more" by blast
  then show ?case using k(1) by (intro exI[of _ "keyed # more"]) simp
qed simp

text \<open>C35. A joined sweep has exactly one row for every requested key, in the order of the first repeat: a repeat that
  reports a key twice, leaves one out or adds one is refused, and each row joins the rows of its key in all repeats.\<close>

theorem joined_sweep_complete:
  "case best_rows_csv tt (Some expected) (first # others) of
     Inl _ \<Rightarrow> True
   | Inr outs \<Rightarrow>
       list_all (\<lambda>rows. distinct (map (gemm_semantic_key tt) rows) \<and> gemm_semantic_key tt ` set rows = Inr ` set expected) (first # others)
       \<and> list_all2 (\<lambda>row out. case gemm_semantic_key tt row of
             Inl _ \<Rightarrow> False
           | Inr k \<Rightarrow> merge_repeat_rows tt (map (\<lambda>rows. the (row_of_key tt k rows)) (first # others)) = Inr out) first outs"
proof (cases "best_rows_csv tt (Some expected) (first # others)")
  case (Inr outs)
  then obtain repeats where r: "fold_r (add_repeat tt (Some expected)) (first # others) [] = Inr repeats"
      "map_r (\<lambda>k. merge_repeat_rows tt (map (\<lambda>keyed. the (map_of keyed k)) repeats)) (case repeats of [] \<Rightarrow> [] | f # _ \<Rightarrow> map fst f) = Inr outs"
    by (auto simp: best_rows_csv_def bind_r_eq_Inr)
  have each: "list_all2 (\<lambda>rows keyed. repeat_rows_by_key tt (Some expected) rows = Inr keyed) (first # others) repeats"
    using add_repeats[OF r(1)] by auto
  have maps: "map (\<lambda>keyed. the (map_of keyed k)) repeats = map (\<lambda>rows. the (row_of_key tt k rows)) (first # others)" for k
    using each by (induction rule: list_all2_induct) (simp_all add: repeat_rows_Inr(3))
  have keys: "list_all (\<lambda>rows. distinct (map (gemm_semantic_key tt) rows) \<and> gemm_semantic_key tt ` set rows = Inr ` set expected) (first # others)"
    using each by (induction rule: list_all2_induct) (simp_all add: repeat_rows_Inr(1,2))
  obtain keyed rest where f: "repeats = keyed # rest" "repeat_rows_by_key tt (Some expected) first = Inr keyed"
    using each by (cases repeats) auto
  have ks: "map Inr (map fst keyed) = map (gemm_semantic_key tt) first" by (rule repeat_rows_Inr(4)[OF f(2)])
  have "list_all2 (\<lambda>k out. merge_repeat_rows tt (map (\<lambda>rows. the (row_of_key tt k rows)) (first # others)) = Inr out) (map fst keyed) outs"
    using r(2) unfolding maps by (simp add: f(1) map_r_eq_Inr)
  then have "list_all2 (\<lambda>(key :: report_exc + group_key) out. case key of Inl _ \<Rightarrow> False
      | Inr k \<Rightarrow> merge_repeat_rows tt (map (\<lambda>rows. the (row_of_key tt k rows)) (first # others)) = Inr out) (map Inr (map fst keyed)) outs"
    by (simp add: list_all2_map1)
  then have "list_all2 (\<lambda>row out. case gemm_semantic_key tt row of Inl _ \<Rightarrow> False
      | Inr k \<Rightarrow> merge_repeat_rows tt (map (\<lambda>rows. the (row_of_key tt k rows)) (first # others)) = Inr out) first outs"
    unfolding ks list_all2_map1 .
  then show ?thesis unfolding Inr sum.case using keys by blast
qed simp

end
