(* ===== verification/Level1_Layout.thy ===== *)
theory Level1_Layout
  imports Level2_Oracle Float_Format
begin

text \<open>
  The guarded buffers of the Level 1 checks (\<open>bench/tools/run_level1_report.py\<close>, \<open>VectorLayout\<close> to
  \<open>finish_level1_check\<close>): a strided vector between guard elements, the elements a library may change, and
  the verdict on a call.  An element of a C array is kept as a value of an unknown type, which stands for
  its bytes; \<open>ctypes\<close> converts it, the parameter \<open>element_type\<close>.
\<close>

section \<open>Strided vectors\<close>

datatype layout_exc = Layout_Value string | Layout_Index int | Layout_Runtime string | Layout_Overflow

record vector_layout =
  vl_count :: int
  vl_inc :: int
  vl_magnitude :: int
  vl_span :: int
  vl_start :: int

definition new_layout :: "int \<Rightarrow> int \<Rightarrow> layout_exc + vector_layout" where
  "new_layout count inc =
     (if count < 0 then Inl (Layout_Value ''vector count must be nonnegative'')
      else if inc = 0 \<or> inc < - (2 ^ 31) \<or> inc > 2 ^ 31 - 1 then Inl (Layout_Value ''stride must be a nonzero signed BLAS integer'')
      else let span = (if count = 0 then 0 else 1 + (count - 1) * \<bar>inc\<bar>) in
        Inr \<lparr>vl_count = count, vl_inc = inc, vl_magnitude = \<bar>inc\<bar>, vl_span = span,
          vl_start = (if count \<noteq> 0 \<and> inc < 0 then span - 1 else 0)\<rparr>)"

definition layout_index :: "vector_layout \<Rightarrow> int \<Rightarrow> layout_exc + int" where
  "layout_index l i =
     (if i < 0 \<or> i \<ge> vl_count l then Inl (Layout_Index i)
      else let offset = i * vl_magnitude l in
        Inr (if vl_inc l < 0 then vl_start l - offset else vl_start l + offset))"

definition is_active :: "vector_layout \<Rightarrow> int \<Rightarrow> bool" where
  "is_active l p =
     (if p < 0 \<or> p \<ge> vl_span l \<or> vl_count l = 0 then False
      else if vl_inc l < 0 \<and> p > vl_start l then False
      else let distance = (if vl_inc l < 0 then vl_start l - p else p) in
        distance mod vl_magnitude l = 0 \<and> distance div vl_magnitude l < vl_count l)"

section \<open>Guarded arrays\<close>

definition GUARD_ELEMENTS :: int where "GUARD_ELEMENTS = 8"

record 'e element_type =
  el_filled :: 'e
  el_store :: "double \<Rightarrow> 'e"
  el_load :: "'e \<Rightarrow> double"

record 'e guarded_array =
  gu_layout :: vector_layout
  gu_storage :: "'e list"
  gu_snapshot :: "'e list option"

definition guarded_array :: "'e element_type \<Rightarrow> int \<Rightarrow> int \<Rightarrow> layout_exc + 'e guarded_array" where
  "guarded_array el count inc =
     bind_r (new_layout count inc) (\<lambda>l.
     Inr \<lparr>gu_layout = l, gu_storage = replicate (nat (vl_span l + 2 * GUARD_ELEMENTS)) (el_filled el), gu_snapshot = None\<rparr>)"

text \<open>A pointer into the allocation; outside of it C leaves the access undefined, here it is an error.\<close>

definition get_physical :: "'e guarded_array \<Rightarrow> int \<Rightarrow> layout_exc + 'e" where
  "get_physical a p =
     (let k = GUARD_ELEMENTS + p in
      if 0 \<le> k \<and> k < int (length (gu_storage a)) then Inr (gu_storage a ! nat k) else Inl (Layout_Index p))"

definition set_physical :: "int \<Rightarrow> 'e \<Rightarrow> 'e guarded_array \<Rightarrow> layout_exc + 'e guarded_array" where
  "set_physical p v a =
     (let k = GUARD_ELEMENTS + p in
      if 0 \<le> k \<and> k < int (length (gu_storage a)) then Inr (a\<lparr>gu_storage := (gu_storage a)[nat k := v]\<rparr>) else Inl (Layout_Index p))"

definition get_logical :: "'e guarded_array \<Rightarrow> int \<Rightarrow> layout_exc + 'e" where
  "get_logical a i = bind_r (layout_index (gu_layout a) i) (get_physical a)"

definition set_logical :: "int \<Rightarrow> 'e \<Rightarrow> 'e guarded_array \<Rightarrow> layout_exc + 'e guarded_array" where
  "set_logical i v a = bind_r (layout_index (gu_layout a) i) (\<lambda>p. set_physical p v a)"

definition capture_array :: "'e guarded_array \<Rightarrow> 'e guarded_array" where
  "capture_array a = a\<lparr>gu_snapshot := Some (gu_storage a)\<rparr>"

definition exempt :: "vector_layout \<Rightarrow> bool \<Rightarrow> int \<Rightarrow> bool" where
  "exempt l active_may_change k =
     (let in_data = GUARD_ELEMENTS \<le> k \<and> k < GUARD_ELEMENTS + vl_span l;
        physical = (if in_data then k - GUARD_ELEMENTS else 0) in
      active_may_change \<and> in_data \<and> is_active l physical)"

definition modified_element_count :: "'e guarded_array \<Rightarrow> bool \<Rightarrow> layout_exc + nat" where
  "modified_element_count a active_may_change = (case gu_snapshot a of
     None \<Rightarrow> Inl (Layout_Runtime ''guarded array snapshot was not captured'')
   | Some snapshot \<Rightarrow>
       Inr (length (filter (\<lambda>k. \<not> exempt (gu_layout a) active_may_change (int k) \<and> gu_storage a ! k \<noteq> snapshot ! k)
         [0..<length (gu_storage a)])))"

section \<open>Filled arrays\<close>

text \<open>The generator of the reports: a linear congruence on 64 bits, and three decimal digits of its upper half.\<close>

definition next_seed :: "64 word \<Rightarrow> 64 word" where
  "next_seed seed = seed * 6364136223846793005 + 1442695040888963407"

definition next_fill :: "64 word \<Rightarrow> 64 word \<times> double" where
  "next_fill seed =
     (let seed = next_seed seed in
      (seed, fsub (round64 (of_int (uint (drop_bit 32 seed) mod 1000) / 1000)) (Fin (1 / 2))))"

definition fill_physical :: "'e element_type \<Rightarrow> int \<Rightarrow> 64 word \<times> 'e guarded_array \<Rightarrow> layout_exc + 64 word \<times> 'e guarded_array" where
  "fill_physical el p = (\<lambda>(seed, a).
     let (seed, d) = next_fill seed in bind_r (set_physical p (el_store el d) a) (\<lambda>a. Inr (seed, a)))"

definition logical_values :: "'e element_type \<Rightarrow> 'e guarded_array \<Rightarrow> layout_exc + double list" where
  "logical_values el a = map_r (\<lambda>i. bind_r (get_logical a i) (\<lambda>v. Inr (el_load el v))) (range_to (vl_count (gu_layout a)))"

definition real_array :: "'e element_type \<Rightarrow> int \<Rightarrow> int \<Rightarrow> int \<Rightarrow> layout_exc + 'e guarded_array \<times> double list" where
  "real_array el count seed_value stride =
     bind_r (guarded_array el count stride) (\<lambda>a.
     bind_r (fold_r (fill_physical el) (range_to (vl_span (gu_layout a))) (word_of_int seed_value, a)) (\<lambda>(seed, a).
     bind_r (logical_values el a) (\<lambda>ds. Inr (capture_array a, ds))))"

definition real_array_from_logical :: "'e element_type \<Rightarrow> double list \<Rightarrow> int \<Rightarrow> layout_exc + 'e guarded_array" where
  "real_array_from_logical el ds stride =
     bind_r (guarded_array el (int (length ds)) stride) (\<lambda>a.
     bind_r (fold_r (\<lambda>(i, d). set_logical i (el_store el d)) (zip (range_to (int (length ds))) ds) a) (\<lambda>a.
     Inr (capture_array a)))"

section \<open>The verdict\<close>

definition max_strided_error :: "'e element_type \<Rightarrow> 'e guarded_array \<Rightarrow> double list \<Rightarrow> layout_exc + double" where
  "max_strided_error el a expected =
     bind_r (map_r (\<lambda>(i, e). bind_r (get_logical a i) (\<lambda>v. Inr (fabs (fsub (el_load el v) e))))
       (zip (range_to (int (length expected))) expected)) (\<lambda>es. Inr (max_error es))"

record level1_check =
  lc_status :: string
  lc_error :: points
  lc_raw :: points
  lc_symbol :: points
  lc_surface :: points
  lc_capability :: string
  lc_memory :: string

definition check_result :: "string \<Rightarrow> double \<Rightarrow> points \<Rightarrow> points \<Rightarrow> points \<Rightarrow> string \<Rightarrow> level1_check" where
  "check_result status error raw symbol surface memory =
     \<lparr>lc_status = status, lc_error = format_general 9 error, lc_raw = raw, lc_symbol = symbol, lc_surface = surface,
      lc_capability = (if symbol = [] then ''unavailable'' else ''supported''), lc_memory = memory\<rparr>"

definition count_modified :: "points list \<Rightarrow> points \<times> 'e guarded_array \<Rightarrow> (points \<times> nat) list \<Rightarrow> layout_exc + (points \<times> nat) list" where
  "count_modified may_change = (\<lambda>(name, buffer) modified.
     bind_r (modified_element_count buffer (name \<in> set may_change)) (\<lambda>n.
     Inr (if n = 0 then modified else modified @ [(name, n)])))"

definition finish_level1_check ::
  "double \<Rightarrow> double \<Rightarrow> points \<Rightarrow> points \<Rightarrow> (points \<times> 'e guarded_array) list \<Rightarrow> points list \<Rightarrow> layout_exc + level1_check" where
  "finish_level1_check error limit symbol surface buffers may_change =
     bind_r (fold_r (count_modified may_change) buffers []) (\<lambda>modified.
     if modified \<noteq> [] then
       let detail = join_with (pts '', '') (map (\<lambda>(name, n). name @ [61] @ pts (show_int (int n))) (sort_key fst modified));
         elements = int (sum_list (map snd modified)) in
       case of_whole elements of
         None \<Rightarrow> Inl Layout_Overflow
       | Some n \<Rightarrow> Inr (check_result ''correctness_failed'' (fmax n error) (pts ''guard/gap/read-only storage modified: '' @ detail)
           symbol surface ''failed'')
     else Inr (check_result (if fless_eq error limit then ''sampled-ok'' else ''correctness_failed'') error [] symbol surface
       ''guarded-ok''))"

end
