(* ===== verification/Level1_Layout_Correct.thy ===== *)
theory Level1_Layout_Correct
  imports Level1_Layout
begin

text \<open>
  The strided index counts the active elements once each, from the end of the span that BLAS starts at; a
  check passes exactly when the error is within the tolerance and no element outside the writable vectors
  has changed.
\<close>

section \<open>Layouts\<close>

definition layout_of :: "int \<Rightarrow> int \<Rightarrow> vector_layout \<Rightarrow> bool" where
  "layout_of count inc l \<longleftrightarrow> 0 \<le> count \<and> inc \<noteq> 0 \<and> vl_count l = count \<and> vl_inc l = inc \<and> vl_magnitude l = \<bar>inc\<bar>
     \<and> vl_span l = (if count = 0 then 0 else 1 + (count - 1) * \<bar>inc\<bar>)
     \<and> vl_start l = (if count \<noteq> 0 \<and> inc < 0 then (count - 1) * \<bar>inc\<bar> else 0)"

lemma new_layout_Inr: "new_layout count inc = Inr l \<Longrightarrow> layout_of count inc l"
  by (auto simp: new_layout_def layout_of_def Let_def split: if_splits)

text \<open>The place of a logical element.\<close>

definition place :: "vector_layout \<Rightarrow> int \<Rightarrow> int" where
  "place l i = (if vl_inc l < 0 then (vl_count l - 1 - i) * vl_magnitude l else i * vl_magnitude l)"

lemma layout_index_place:
  assumes "layout_of count inc l" "0 \<le> i" "i < count"
  shows "layout_index l i = Inr (place l i)"
  using assms by (auto simp: layout_of_def layout_index_def place_def Let_def algebra_simps)

lemma place_in_span:
  assumes "layout_of count inc l" "0 \<le> i" "i < count"
  shows "0 \<le> place l i \<and> place l i < vl_span l"
proof -
  have m: "0 < vl_magnitude l" "vl_span l = 1 + (count - 1) * vl_magnitude l" using assms by (auto simp: layout_of_def)
  have "0 \<le> j * vl_magnitude l \<and> j * vl_magnitude l \<le> (count - 1) * vl_magnitude l" if "0 \<le> j" "j \<le> count - 1" for j
    using that m(1) by (simp add: mult_right_mono)
  note bound = this
  define j where "j = (if inc < 0 then count - 1 - i else i)"
  have at: "place l i = j * vl_magnitude l" using assms(1) by (auto simp: place_def layout_of_def j_def)
  have "0 \<le> j" "j \<le> count - 1" using assms(2,3) by (auto simp: j_def)
  from bound[OF this] show ?thesis unfolding at m(2) by linarith
qed

lemma place_inj:
  assumes "layout_of count inc l" "place l i = place l j"
  shows "i = j"
  using assms by (auto simp: place_def layout_of_def split: if_splits)

lemma active_iff:
  assumes "layout_of count inc l"
  shows "is_active l p \<longleftrightarrow> (\<exists>i \<in> {0..<count}. place l i = p)"
proof
  assume a: "is_active l p"
  have m: "0 < vl_magnitude l" using assms by (auto simp: layout_of_def)
  define d where "d = (if inc < 0 then vl_start l - p else p)"
  have c: "0 \<le> p" "p < vl_span l" "count \<noteq> 0" "inc < 0 \<Longrightarrow> p \<le> vl_start l" "d mod vl_magnitude l = 0" "d div vl_magnitude l < count"
    using a assms by (auto simp: is_active_def layout_of_def d_def Let_def split: if_splits)
  define i where "i = d div vl_magnitude l"
  have d: "d = i * vl_magnitude l" using c(5) by (simp add: i_def mod_0_imp_dvd)
  have "0 \<le> d" using c(1,4) by (auto simp: d_def)
  then have "0 \<le> i" using m by (simp add: i_def pos_imp_zdiv_nonneg_iff)
  moreover have "place l i = p" using d assms c(3) by (auto simp: place_def layout_of_def d_def algebra_simps split: if_splits)
  ultimately show "\<exists>i \<in> {0..<count}. place l i = p" using c(6) by (auto simp: i_def)
next
  assume "\<exists>i \<in> {0..<count}. place l i = p"
  then obtain i where i: "0 \<le> i" "i < count" "p = place l i" by auto
  have m: "0 < vl_magnitude l" using assms by (auto simp: layout_of_def)
  define d where "d = (if inc < 0 then vl_start l - p else p)"
  have d: "d = i * vl_magnitude l" using i assms by (auto simp: d_def place_def layout_of_def algebra_simps)
  have "0 \<le> d" unfolding d using i(1) m by simp
  then have "inc < 0 \<Longrightarrow> p \<le> vl_start l" by (simp add: d_def)
  moreover have "d mod vl_magnitude l = 0" "d div vl_magnitude l = i" unfolding d using m by simp_all
  ultimately show "is_active l p" using place_in_span[OF assms i(1,2)] i assms
    by (auto simp: is_active_def layout_of_def d_def Let_def)
qed

text \<open>The indices of a strided vector are a bijection from its logical elements onto the active elements of its
  span, which are the ones \<open>is_active\<close> recognises; the span is as short as it can be, and a negative stride
  walks it backwards.\<close>

theorem strided_index_bijection:
  "case new_layout count inc of
     Inl _ \<Rightarrow> count < 0 \<or> inc = 0 \<or> inc < - (2 ^ 31) \<or> 2 ^ 31 \<le> inc
   | Inr l \<Rightarrow> bij_betw (\<lambda>i. case layout_index l i of Inr p \<Rightarrow> p | Inl _ \<Rightarrow> - 1) {0..<count} {p. is_active l p}
       \<and> {p. is_active l p} \<subseteq> {0..<vl_span l}
       \<and> (count = 0 \<or> is_active l 0 \<and> is_active l (vl_span l - 1)
         \<and> layout_index l 0 = Inr (if inc < 0 then vl_span l - 1 else 0))"
proof (cases "new_layout count inc")
  case (Inl e)
  then show ?thesis by (auto simp: new_layout_def Let_def split: if_splits)
next
  case (Inr l)
  note l = new_layout_Inr[OF Inr]
  have f: "(case layout_index l i of Inr p \<Rightarrow> p | Inl _ \<Rightarrow> - 1) = place l i" if "i \<in> {0..<count}" for i
    using layout_index_place[OF l] that by simp
  have "bij_betw (place l) {0..<count} {p. is_active l p}"
    unfolding bij_betw_def using active_iff[OF l] place_inj[OF l] by (auto simp: inj_on_def image_iff)
  then have bij: "bij_betw (\<lambda>i. case layout_index l i of Inr p \<Rightarrow> p | Inl _ \<Rightarrow> - 1) {0..<count} {p. is_active l p}"
    using bij_betw_cong[of "{0..<count}" "\<lambda>i. case layout_index l i of Inr p \<Rightarrow> p | Inl _ \<Rightarrow> - 1" "place l"] f by simp
  have "{p. is_active l p} \<subseteq> {0..<vl_span l}" by (auto simp: is_active_def split: if_splits)
  moreover have "is_active l 0 \<and> is_active l (vl_span l - 1) \<and> layout_index l 0 = Inr (if inc < 0 then vl_span l - 1 else 0)" if "count \<noteq> 0"
  proof -
    have c: "0 < count" using l that by (simp add: layout_of_def)
    have ends: "place l 0 = (if inc < 0 then vl_span l - 1 else 0)" "place l (count - 1) = (if inc < 0 then 0 else vl_span l - 1)"
      using l c by (auto simp: place_def layout_of_def)
    have "is_active l (place l 0)" "is_active l (place l (count - 1))" using active_iff[OF l] c by auto
    then show ?thesis using ends layout_index_place[OF l, of 0] c by (auto split: if_splits)
  qed
  ultimately show ?thesis using bij Inr by auto
qed

section \<open>The verdict\<close>

text \<open>
  The elements of a writable vector of \<open>count\<close> elements at a stride: behind eight guards, in steps of the
  stride, from the far end when it is negative.
\<close>

definition writable_at :: "int \<Rightarrow> int \<Rightarrow> int \<Rightarrow> bool" where
  "writable_at count inc k \<longleftrightarrow>
     (\<exists>i. 0 \<le> i \<and> i < count \<and> k = 8 + (if inc < 0 then (count - 1 - i) * \<bar>inc\<bar> else i * \<bar>inc\<bar>))"

text \<open>What a call may do to a buffer: change these elements, if the vector is writable.\<close>

definition kept :: "'e guarded_array \<Rightarrow> bool \<Rightarrow> bool" where
  "kept a writable \<longleftrightarrow> (case gu_snapshot a of None \<Rightarrow> False | Some snapshot \<Rightarrow>
     (\<forall>k < length (gu_storage a). gu_storage a ! k = snapshot ! k
        \<or> writable \<and> writable_at (vl_count (gu_layout a)) (vl_inc (gu_layout a)) (int k)))"

text \<open>A buffer as the class makes and fills it.\<close>

definition made :: "'e guarded_array \<Rightarrow> bool" where
  "made a \<longleftrightarrow> (\<exists>count inc. new_layout count inc = Inr (gu_layout a))
     \<and> length (gu_storage a) = nat (vl_span (gu_layout a) + 16)
     \<and> (case gu_snapshot a of None \<Rightarrow> True | Some snapshot \<Rightarrow> length snapshot = length (gu_storage a))"

lemma guarded_array_made: "guarded_array el count inc = Inr a \<Longrightarrow> made a"
  by (auto simp: guarded_array_def made_def bind_r_eq_Inr GUARD_ELEMENTS_def) blast

lemma set_logical_made: "set_logical i v a = Inr b \<Longrightarrow> made a \<Longrightarrow> made b"
  by (auto simp: set_logical_def set_physical_def made_def bind_r_eq_Inr Let_def split: if_splits option.splits) blast+

lemma capture_array_made: "made a \<Longrightarrow> made (capture_array a)"
  by (auto simp: capture_array_def made_def)

lemma exempt_writable:
  assumes "made a"
  shows "exempt (gu_layout a) w k \<longleftrightarrow> w \<and> writable_at (vl_count (gu_layout a)) (vl_inc (gu_layout a)) k"
proof -
  obtain count inc where l: "layout_of count inc (gu_layout a)"
    using assms new_layout_Inr unfolding made_def by blast
  have "exempt (gu_layout a) w k \<longleftrightarrow> w \<and> is_active (gu_layout a) (k - 8)"
    by (auto simp: exempt_def is_active_def Let_def GUARD_ELEMENTS_def split: if_splits)
  also have "is_active (gu_layout a) (k - 8) \<longleftrightarrow> writable_at count inc k"
    unfolding active_iff[OF l] writable_at_def place_def using l
    by (auto simp: layout_of_def Bex_def algebra_simps)
  finally show ?thesis using l by (simp add: layout_of_def)
qed

lemma modified_none: "made a \<Longrightarrow> modified_element_count a w = Inr n \<Longrightarrow> n = 0 \<longleftrightarrow> kept a w"
proof -
  assume a: "made a" and m: "modified_element_count a w = Inr n"
  then obtain snapshot where s: "gu_snapshot a = Some snapshot" by (auto simp: modified_element_count_def split: option.splits)
  have "n = 0 \<longleftrightarrow> filter (\<lambda>k. \<not> exempt (gu_layout a) w (int k) \<and> gu_storage a ! k \<noteq> snapshot ! k) [0..<length (gu_storage a)] = []"
    using m s by (simp add: modified_element_count_def del: filter_empty_conv) (metis length_0_conv)
  then show ?thesis using s by (auto simp: kept_def exempt_writable[OF a] filter_empty_conv)
qed

lemma modified_total: "gu_snapshot a \<noteq> None \<Longrightarrow> \<exists>n. modified_element_count a w = Inr n"
  by (auto simp: modified_element_count_def)

lemma count_fold:
  "fold_r (count_modified may) buffers acc = Inr modified \<Longrightarrow> list_all (\<lambda>(name, a). made a) buffers \<Longrightarrow>
     modified = [] \<longleftrightarrow> acc = [] \<and> list_all (\<lambda>(name, a). kept a (name \<in> set may)) buffers"
proof (induction buffers arbitrary: acc)
  case (Cons b buffers)
  obtain name a where b: "b = (name, a)" by fastforce
  from Cons.prems obtain n where n: "modified_element_count a (name \<in> set may) = Inr n"
      "fold_r (count_modified may) buffers (if n = 0 then acc else acc @ [(name, n)]) = Inr modified"
    by (auto simp: count_modified_def b bind_r_eq_Inr)
  have "made a" "list_all (\<lambda>(name, a). made a) buffers" using Cons.prems(2) b by simp_all
  then show ?case using Cons.IH[OF n(2)] modified_none[OF _ n(1)] b by auto
qed simp

text \<open>C37. A Level 1 check of buffers that were made for a number of elements and a stride passes exactly when the
  error is at most the tolerance, so never on an error that is not a number, and every element other than those
  that lie a multiple of the stride behind the guards of a writable vector is as it was captured: the
  guards on both sides, the gaps of a stride and the read-only vectors.\<close>

theorem level1_check_exact:
  assumes "list_all (\<lambda>(name, a). made a) buffers"
  shows "case finish_level1_check error limit symbol surface buffers may_change of
     Inl _ \<Rightarrow> \<not> list_all (\<lambda>(name, a). kept a (name \<in> set may_change)) buffers
   | Inr verdict \<Rightarrow> (lc_status verdict = ''sampled-ok'') =
         (fless_eq error limit \<and> list_all (\<lambda>(name, a). kept a (name \<in> set may_change)) buffers)
       \<and> lc_status verdict \<in> {''sampled-ok'', ''correctness_failed''}"
proof (cases "fold_r (count_modified may_change) buffers []")
  case (Inl e)
  have "fold_r (count_modified may_change) buffers acc = Inl e \<Longrightarrow> \<not> list_all (\<lambda>(name, a). kept a (name \<in> set may_change)) buffers" for acc
  proof (induction buffers arbitrary: acc)
    case (Cons b buffers)
    obtain name a where b: "b = (name, a)" by fastforce
    show ?case
    proof (cases "gu_snapshot a")
      case None
      then show ?thesis by (simp add: b kept_def)
    next
      case (Some x)
      then obtain n where "modified_element_count a (name \<in> set may_change) = Inr n" using modified_total by blast
      then show ?thesis using Cons.prems Cons.IH by (auto simp: b count_modified_def)
    qed
  qed simp
  then show ?thesis using Inl by (simp add: finish_level1_check_def)
next
  case (Inr modified)
  note c = count_fold[OF Inr assms]
  show ?thesis
  proof (cases "modified = []")
    case True
    then show ?thesis using c Inr by (auto simp: finish_level1_check_def check_result_def)
  next
    case False
    then show ?thesis using c Inr by (auto simp: finish_level1_check_def check_result_def Let_def split: option.splits)
  qed
qed

text \<open>A writable vector of two elements at stride 2 whose gap element changed, and an unchanged one.\<close>

definition gap_changed :: "nat guarded_array" where
  "gap_changed = \<lparr>gu_layout = \<lparr>vl_count = 2, vl_inc = 2, vl_magnitude = 2, vl_span = 3, vl_start = 0\<rparr>,
     gu_storage = (replicate 19 0)[9 := 1], gu_snapshot = Some (replicate 19 0)\<rparr>"

lemma gap_changed_made: "made gap_changed"
proof -
  have "new_layout 2 2 = Inr (gu_layout gap_changed)" by (simp add: new_layout_def gap_changed_def)
  then show ?thesis unfolding made_def by (auto simp: gap_changed_def)
qed

definition gap_buffers :: "(points \<times> nat guarded_array) list" where
  "gap_buffers = [([120], gap_changed)]"

theorem level1_check_exact_witness:
  "case finish_level1_check (Fin 0) (Fin 1) [120] [] gap_buffers [[120]] of
     Inl _ \<Rightarrow> \<not> list_all (\<lambda>(name, a). kept a (name \<in> set [[120]])) gap_buffers
   | Inr verdict \<Rightarrow> (lc_status verdict = ''sampled-ok'') =
         (fless_eq (Fin 0) (Fin 1) \<and> list_all (\<lambda>(name, a). kept a (name \<in> set [[120]])) gap_buffers)
       \<and> lc_status verdict \<in> {''sampled-ok'', ''correctness_failed''}"
  by (rule level1_check_exact) (simp add: gap_buffers_def gap_changed_made)

end
