(* ===== verification/Spec2Isabelle.thy ===== *)
theory Spec2Isabelle
  imports Verify_Accepted MachO_Derived MachO_Samples Git_Guarantees Report_Schedule
    Full_Report_Correct Report_Gate_Correct Level2_Oracle_Correct Worker_Aggregate_Correct Gemm_Merge_Correct Level1_Layout_Correct
begin

text \<open>
  A verification library for the trust tooling of Zynum, a BLAS written in Zig whose build, ABI and
  benchmark evidence is checked by Python programs.  Paths are relative to \<open>src/\<close>.

  \<^bold>\<open>The program.\<close>  \<open>tools/abi_artifact_parity.py\<close> decides whether two fresh builds of the library are
  the same artifact.  It parses a Mach-O dynamic library, or a Darwin archive of Mach-O objects,
  assigns every byte a role (invariant, derived, allowed to differ) and compares two artifacts role
  by role; every malformed input is to raise \<open>ParityError\<close>.  \<open>tools/repository_git.py\<close> observes the
  repository those artifacts are built from: it opens an exact worktree, runs Git in a fixed
  environment with bounded pipes and accepts only facts that two observations agree on.
  \<open>tools/verify_abi_artifact_parity.py\<close> builds fresh artifacts with the checked-in command, binds their
  provenance to files of the caches and accepts the comparison with the frozen artifacts.
  \<open>bench/tools/report_schedule.py\<close> orders the fresh processes of the benchmark reports;
  \<open>bench/tools/report_comparison.py\<close> gives the statistics of their samples, and seven gates
  (\<open>bench/tools/check_*.py\<close>) judge the reports against the fastest other library;
  \<open>bench/tools/render_full_benchmark_report.py\<close> sums up the reports of all families.

  \<^bold>\<open>How the parts interact.\<close>  The Mach-O parser drives the byte parsers, the CodeDirectory parser and
  the DWARF line-table parser, and claims byte ranges from one builder; the builder keeps them in an
  AVL tree of ranges.  The archive parser claims from a builder of its own, parses every object
  member with the Mach-O parser and rebases its atoms.  The comparison takes two parsed artifacts.
  The verifier calls the parsers and the comparison; its reads, commands and roots go through the
  same kind of world.  The Git observations are sequences of guarded child processes, each decoded by a pure decoder.

  \<^bold>\<open>Theories, in the order of the code.\<close>
  \<^item> \<open>Prelude\<close>: exceptions as values of a sum, loops over lists that may fail, slices, insertion-ordered
    dictionaries, the collections \<open>res_simps\<close> and \<open>range_simps\<close>.
  \<^item> \<open>Byte_Parsing\<close>: \<open>struct\<close> fields, \<open>_text\<close>, \<open>_cstring\<close>, \<open>_uleb\<close>, \<open>_version\<close>, \<open>_align_up\<close>,
    \<open>_check_disjoint\<close> and the two cache-path expressions.  Lemmas: exactly the minimal ULEB128
    encodings are read, the scanners accept the languages of the expressions, disjointness is exact.
  \<^item> \<open>Atom_Intervals\<close>: \<open>_AtomInterval\<close> and the AVL functions around it.  The tree refines the ordered
    list of its ranges; the locale \<open>ivl_store\<close> is the interface the builder uses, interpreted on the
    tree.
  \<^item> \<open>Atom_Builder\<close>: \<open>ByteAtom\<close> and \<open>_AtomBuilder\<close>.  A builder refines a map from bytes to metadata;
    \<open>finish\<close> partitions the bytes into atoms.
  \<^item> \<open>Claims\<close> and \<open>Fail_Closed\<close>: what every parser keeps of its builder (the locale \<open>threaded\<close>, interpreted
    for builders and optional builders), and the rules by which a parser is shown to raise nothing
    but \<open>ParityError\<close>.
  \<^item> \<open>Sha256\<close>, \<open>Json\<close>: the digest and the canonical JSON the module computes with the standard library.
  \<^item> \<open>Code_Directory\<close>: \<open>parse_code_directory\<close>.  Every page of an accepted signature hashes to its slot;
    signing content as the linker does gives a blob that is accepted.
  \<^item> \<open>Dwarf_Line\<close>: \<open>parse_dwarf_v4_debug_line\<close>.  Tables are read back from their encoding; the accepted
    provenance is unique.
  \<^item> \<open>MachO_Model\<close>, \<open>MachO_Load\<close>, \<open>MachO_Layout\<close>, \<open>MachO_Symbols\<close>, \<open>MachO_Parse\<close>: \<open>_parse_macho_bytes\<close> by
    phase: records, load commands, region and layout checks, symbols and relocations, the whole.
    \<open>MachO_Correct\<close>: it fails closed, and which bytes of an accepted file are released from comparison.
    \<open>MachO_Derived\<close>: which bytes of an accepted library are derived, so that all bytes a second build may
    change are known (the relation \<open>derives\<close> is another interpretation of \<open>threaded\<close>).
  \<^item> \<open>MachO_Samples\<close>: two object files evaluated in the kernel; one is accepted, one makes the parser
    raise \<open>struct.error\<close> although the module promises \<open>ParityError\<close>.
  \<^item> \<open>Archive\<close>, \<open>Archive_Correct\<close>: \<open>_parse_ascii_int\<close>, \<open>parse_ranlib\<close>, \<open>parse_static_archive\<close>.
  \<^item> \<open>Comparison\<close>, \<open>Comparison_Correct\<close>: from \<open>canonicalize_atoms\<close> to \<open>bind_provenance\<close>; the verdict is
    an equivalence of artifacts, which is reflexive and symmetric.  \<open>Comparison_Spec\<close> states this equivalence
    on its own, without the operations of the comparison, and shows that the verdict decides it.
  \<^item> \<open>OS_World\<close>: computations on the state of the operating system (\<open>io\<close>) with their sequencing and the
    inversion rules \<open>act_simps\<close>, and the record of its operations.  \<open>OS_Reads\<close>: the bytes that a run of reads
    delivered, as an inductive relation; the specifications of what is read rest on it.
  \<^item> \<open>Verify_Redactor\<close>: \<open>SensitivePathRedactor\<close>; a redacted value shows no registered absolute root that
    is free of the character \<open><\<close> of the tokens.  \<open>Verify_Files\<close>: \<open>VerificationError\<close>,
    \<open>read_exact_regular_file\<close>, whose digest is that of the bytes delivered, and snapshots.
    \<open>Verify_Process\<close>: \<open>run_bounded\<close> with \<open>_terminate_group\<close>, which return when the clock moves on, and what
    their result says of the run.  \<open>Verify_Control\<close>: \<open>load_json\<close> and the validation of the control
    documents.  \<open>Verify_Provenance\<close>: from \<open>prepare_fresh_roots\<close> to \<open>receipt_cache_roots\<close>; accepted provenance
    is followed from the artifact through the states of the run to the bytes that were read.  \<open>Verify_Evidence\<close>: symbol axes, source accounting
    and \<open>require_comparison\<close>, which accepts exactly the equivalent artifacts.
  \<^item> \<open>Py_Regex\<close>: texts as code points and the regular expressions of \<open>re\<close> that the verifier uses, matched
    by backtracking; the matcher is shown to reach exactly the spans of a relation.  \<open>Tool_Output\<close>:
    \<open>parse_otool\<close>, \<open>parse_nm_axes\<close>, \<open>parse_ar_tv\<close> and the same facts from the core parser; printed listings
    are read back.  \<open>Verify_System\<close>: \<open>verify_toolchain\<close> and \<open>system_cross_checks\<close>.  \<open>Verify_Main\<close>: \<open>verify\<close> by
    phase, the reports and \<open>main\<close>.  \<open>Verify_Correct\<close>: no published report, passing or failing, spells a
    private root.  \<open>Verify_Accepted\<close>: the one run a passing report stands for, phase by phase, from the
    control documents to the cross-checks.
  \<^item> \<open>Git_Output\<close>: the decoders of Git's output.  \<open>Git_Marker\<close>: \<open>strict_root\<close>, the \<open>.git\<close> marker, the
    environment and the executable.  \<open>Git_Observe\<close>: \<open>_BoundedPipeCapture\<close>, \<open>RepositoryGit\<close> and
    \<open>open_repository\<close>.  \<open>Git_Correct\<close>, \<open>Git_Guarantees\<close>: what an accepted observation means, whatever
    the file system and the child process do; the locale \<open>stable_observation\<close> holds what two equal
    rounds give, interpreted on the identity and on the publication snapshot.
  \<^item> \<open>Report_Schedule\<close>: the Latin rotation, both schedules and the collection of samples.
  \<^item> \<open>Binary64\<close>: Python's \<open>float\<close>, IEEE binary64 over rationals, with the facts on rounding.  \<open>Py_Number\<close>:
    \<open>int(text)\<close> and \<open>float(text)\<close>.  \<open>Report_Stats\<close>: every function of \<open>report_comparison.py\<close>.
    \<open>Report_Stats_Correct\<close>: the median splits the samples and never overflows, percentile ranks are
    exact, axis ticks cover the evidence.
  \<^item> \<open>Report_Gate\<close>: what the gates share, from the rows of the CSV reader to the exit code; the fields of
    \<open>gate_rules\<close> are the statements that differ.  \<open>Gemm_Gate\<close>, \<open>Level1_Gate\<close>, \<open>Level2_Gate\<close>, \<open>Matrix_Gates\<close>
    (rank-k, SYMM and HEMM, TRMM and TRSM) and \<open>Latency_Gate\<close>: the seven gates.
    \<open>Report_Gate_Correct\<close>: the locale \<open>gate_contract\<close>, interpreted by every gate, says when the one
    comparison with the fastest library stands for all; then the exit code is 0 exactly when every
    comparison of every group holds.
  \<^item> \<open>Level2_Oracle\<close>: the reference results of the Level 2 report (\<open>run_level2_report.py\<close>,
    \<open>real_gemv_expected\<close> to \<open>checked_vector\<close>) for dense, packed and banded storage, one definition for
    both kinds of numbers, and the comparison of a library's result with them.  \<open>Level2_Oracle_Correct\<close>:
    packed and dense oracles agree bit for bit, and which results the comparison lets pass.  The absolute
    value of a complex number is rounded from a function \<open>hypot\<close> of the C library, which is a parameter, and
    overflows as \<open>abs\<close> does.
  \<^item> \<open>Float_Format\<close>: \<open>format(value, ".17g")\<close>, and that seventeen digits identify a double.
    \<open>Report_Aggregate\<close>: how five runners (\<open>aggregate_repeats\<close> and \<open>aggregate_worker_repeats\<close>) make one
    row of the repeats of a case.  \<open>Report_Aggregate_Correct\<close>: the locale \<open>repeat_contract\<close>, interpreted
    by the matrix runners and the latency runner, gives when a list of repeats is refused and that the row
    reads back to the measurements; the latency gate admits exactly the rows whose repeats were all
    eligible.  \<open>Worker_Aggregate_Correct\<close>: the same for Level 2, and one row for every measured case.
  \<^item> \<open>Gemm_Merge\<close>: how the GEMM runner joins the repeats of a sweep (\<open>run_gemm_sweep_isolated.py\<close>).
    \<open>Gemm_Merge_Correct\<close>: the joined sweep has one row for every requested key, its texts read back to the
    measurements, and its check status is the least of the repeats'.
  \<^item> \<open>Level1_Layout\<close>: strided vectors, guarded buffers and the verdict on a call of the Level 1 report
    (\<open>run_level1_report.py\<close>).  \<open>Level1_Layout_Correct\<close>: the strided index is a bijection onto the active
    elements, and a check passes exactly when the error is within the tolerance and nothing off the stride
    of a writable vector changed.
  \<^item> \<open>Full_Report\<close>: the report over all families (\<open>render_full_benchmark_report.py\<close>), from the rows of the CSV
    files to the status of the categories and the rows of the summary.  \<open>Full_Report_Correct\<close>: the locale
    \<open>evidence_loop\<close>, interpreted by the loops over rows and files, says when the reading succeeds; a category
    passes exactly when the library under test is at least as good as every comparator in every case.

  \<^bold>\<open>Conventions.\<close>  A Python \<open>int\<close> is an \<open>int\<close>, \<open>bytes\<close> a list of 8-bit words, \<open>str\<close> its UTF-8 encoding as
  a \<open>string\<close>, a dictionary an association list in insertion order.  Exceptions are the left summand:
  \<open>ParityError\<close> and the built-in exceptions that can escape in \<open>py_exc\<close>, the Git errors in \<open>git_exc\<close>,
  \<open>VerificationError\<close> in \<open>ver_exc\<close>.
  Code on descriptors and processes is a state-passing function over an unknown state.

  \<^bold>\<open>Bounds and termination.\<close>  The functions are total, by structural recursion or a measure (the bytes
  left, the range left of a ULEB128, the bytes left in a pipe or a marker), and no fuel is used.  The
  one exception is the probing of a process group (\<open>probe_group\<close>), which waits for the clock: it is a
  partial function, proved to return when the clock advances.  The
  limits of the code (claims, load commands, sections, symbols, members, records, pipe bytes) are the
  constants of the source; with the claim limit the AVL tree stays below 40 levels.

  \<^bold>\<open>Parameters.\<close>  The operating system: \<open>stat\<close>, \<open>open\<close>, \<open>read\<close>, path resolution, the search of the
  executable, the Git process with its two pipes (\<open>git_world\<close>), reading an artifact file
  (\<open>file_system\<close>), process groups and the monotonic clock (\<open>process_world\<close>), directories
  (\<open>fresh_world\<close>), \<open>os.path.abspath\<close> and \<open>realpath\<close>, the owner of the private
  snapshots (\<open>bench/tools/benchmark_artifacts.py\<close>).  \<open>json.loads\<close>, \<open>json.dumps\<close> of the libraries of a summary row, \<open>hypot\<close>, \<open>log10\<close>.  Unicode tables: \<open>str.upper\<close>, \<open>str.lower\<close>, \<open>str.strip\<close>, \<open>str.isprintable\<close>.  Closing a
  descriptor is assumed not to fail.

  \<^bold>\<open>Not modelled.\<close>  The Zig library and its tests; the inventory checkers
  (\<open>tools/check_build_inventory.py\<close>, \<open>tools/check_test_inventory.py\<close>), the package and snapshot tools,
  the baseline observer, the argument parsers, the printed lines of the gates, the rest of the benchmark
  runners, the plots, the HTML and JSON text of the full report and its publication
  (\<open>bench/tools/\<close>): most of their code drives processes, file descriptors and fixed tables.
\<close>

end
